(* ===== verification/Prelude.thy ===== *)
theory Prelude
  imports Main "HOL-Library.Word" "HOL-Library.Sublist"
begin

section \<open>Shared vocabulary of the rallish model\<close>

text \<open>
  What every component of the model uses: Go strings and byte slices as lists of bytes
  (\<open>string\<close>, a list of \<open>char\<close>, and a \<open>char\<close> is one byte), the functions of Go's
  \<^verbatim>\<open>strings\<close> package the sources call, decimal and hexadecimal printing, 64-bit
  integer wrap-around, and the lemmas on them that the component proofs share.
  Two collections hold the automation: \<open>go_str\<close> (unfolding of the string predicates)
  and \<open>dig32\<close> (facts about the length of digests).
\<close>

named_theorems go_str
named_theorems dig32

type_synonym bytes = string

subsection \<open>64-bit integers\<close>

text \<open>Two's-complement wrap-around of Go's \<^verbatim>\<open>int\<close> and \<^verbatim>\<open>int64\<close>.\<close>

definition i64 :: "int \<Rightarrow> int" where
  "i64 x = (x + 2 ^ 63) mod 2 ^ 64 - 2 ^ 63"

definition in_i64 :: "int \<Rightarrow> bool" where
  "in_i64 x \<longleftrightarrow> - (2 ^ 63) \<le> x \<and> x < 2 ^ 63"

lemma i64_id [simp]: "in_i64 x \<Longrightarrow> i64 x = x"
  by (simp add: i64_def in_i64_def)

lemma in_i64_i64 [simp]: "in_i64 (i64 x)"
proof -
  have "0 \<le> (x + 2 ^ 63) mod 2 ^ 64" "(x + 2 ^ 63) mod 2 ^ 64 < (2 ^ 64 :: int)"
    by (rule pos_mod_sign, simp) (rule pos_mod_bound, simp)
  then show ?thesis by (simp add: i64_def in_i64_def)
qed

subsection \<open>The strings package\<close>

definition HasPrefix :: "string \<Rightarrow> string \<Rightarrow> bool" where
  [go_str]: "HasPrefix s p \<longleftrightarrow> take (length p) s = p"

definition HasSuffix :: "string \<Rightarrow> string \<Rightarrow> bool" where
  [go_str]: "HasSuffix s p \<longleftrightarrow> length p \<le> length s \<and> drop (length s - length p) s = p"

fun Contains :: "string \<Rightarrow> string \<Rightarrow> bool" where
  "Contains [] sub = (sub = [])"
| "Contains (c # s) sub = (HasPrefix (c # s) sub \<or> Contains s sub)"

text \<open>\<^verbatim>\<open>strings.Index\<close>: \<open>None\<close> is Go's \<open>-1\<close>.\<close>

fun Index :: "string \<Rightarrow> string \<Rightarrow> nat option" where
  "Index [] sub = (if sub = [] then Some 0 else None)"
| "Index (c # s) sub =
     (if HasPrefix (c # s) sub then Some 0 else map_option Suc (Index s sub))"

fun Join :: "string list \<Rightarrow> string \<Rightarrow> string" where
  "Join [] sep = []"
| "Join [x] sep = x"
| "Join (x # y # ys) sep = x @ sep @ Join (y # ys) sep"

text \<open>\<^verbatim>\<open>strings.Split\<close> on a one-byte separator.\<close>

fun Split :: "string \<Rightarrow> char \<Rightarrow> string list" where
  "Split [] c = [[]]"
| "Split (x # xs) c =
     (if x = c then [] # Split xs c
      else (case Split xs c of [] \<Rightarrow> [[x]] | y # ys \<Rightarrow> (x # y) # ys))"

text \<open>
  \<^verbatim>\<open>unicode.IsSpace\<close> as the byte sequences of the white-space code points in UTF-8. A
  lead byte is never a continuation byte, so a sequence found at any byte offset is a
  code point of the string.
\<close>

definition space_runes :: "string list" where
  "space_runes =
     [[CHR 0x09], [CHR 0x0A], [CHR 0x0B], [CHR 0x0C], [CHR 0x0D], [CHR 0x20],
      [CHR 0xC2, CHR 0x85], [CHR 0xC2, CHR 0xA0], [CHR 0xE1, CHR 0x9A, CHR 0x80],
      [CHR 0xE2, CHR 0x80, CHR 0x80], [CHR 0xE2, CHR 0x80, CHR 0x81],
      [CHR 0xE2, CHR 0x80, CHR 0x82], [CHR 0xE2, CHR 0x80, CHR 0x83],
      [CHR 0xE2, CHR 0x80, CHR 0x84], [CHR 0xE2, CHR 0x80, CHR 0x85],
      [CHR 0xE2, CHR 0x80, CHR 0x86], [CHR 0xE2, CHR 0x80, CHR 0x87],
      [CHR 0xE2, CHR 0x80, CHR 0x88], [CHR 0xE2, CHR 0x80, CHR 0x89],
      [CHR 0xE2, CHR 0x80, CHR 0x8A], [CHR 0xE2, CHR 0x80, CHR 0xA8],
      [CHR 0xE2, CHR 0x80, CHR 0xA9], [CHR 0xE2, CHR 0x80, CHR 0xAF],
      [CHR 0xE2, CHR 0x81, CHR 0x9F], [CHR 0xE3, CHR 0x80, CHR 0x80]]"

definition space_len :: "string \<Rightarrow> nat" where
  "space_len s = (case find (HasPrefix s) space_runes of None \<Rightarrow> 0 | Some p \<Rightarrow> length p)"

definition space_suffix_len :: "string \<Rightarrow> nat" where
  "space_suffix_len s =
     (case find (HasSuffix s) space_runes of None \<Rightarrow> 0 | Some p \<Rightarrow> length p)"

text \<open>The loops over white space: each round drops the bytes of one code point.\<close>

function TrimLeftSpace :: "string \<Rightarrow> string" where
  "TrimLeftSpace s =
     (if s = [] \<or> space_len s = 0 then s else TrimLeftSpace (drop (space_len s) s))"
  by pat_completeness auto
termination
  by (relation "measure length") auto

function TrimRightSpace :: "string \<Rightarrow> string" where
  "TrimRightSpace s =
     (if s = [] \<or> space_suffix_len s = 0 then s
      else TrimRightSpace (take (length s - space_suffix_len s) s))"
  by pat_completeness auto
termination
  by (relation "measure length") auto

declare TrimLeftSpace.simps [simp del] TrimRightSpace.simps [simp del]

definition TrimSpace :: "string \<Rightarrow> string" where
  "TrimSpace s = TrimRightSpace (TrimLeftSpace s)"

text \<open>\<^verbatim>\<open>strings.Fields\<close>: the maximal runs without white space, \<open>cur\<close> reversed.\<close>

definition emit_field :: "string \<Rightarrow> string list" where
  "emit_field cur = (if cur = [] then [] else [rev cur])"

function Fields_from :: "string \<Rightarrow> string \<Rightarrow> string list" where
  "Fields_from cur [] = emit_field cur"
| "Fields_from cur (c # s) =
     (if space_len (c # s) = 0 then Fields_from (c # cur) s
      else emit_field cur @ Fields_from [] (drop (space_len (c # s)) (c # s)))"
  by pat_completeness auto
termination
  by (relation "measure (\<lambda>(cur, s). length s)") auto

definition Fields :: "string \<Rightarrow> string list" where
  "Fields s = Fields_from [] s"

definition TrimLeft :: "string \<Rightarrow> char \<Rightarrow> string" where
  "TrimLeft s c = dropWhile (\<lambda>x. x = c) s"

definition TrimRight :: "string \<Rightarrow> char \<Rightarrow> string" where
  "TrimRight s c = rev (dropWhile (\<lambda>x. x = c) (rev s))"

text \<open>\<^verbatim>\<open>strings.ReplaceAll (s, " ", "")\<close>: the only use the sources make of it.\<close>

definition RemoveAll :: "string \<Rightarrow> char \<Rightarrow> string" where
  "RemoveAll s c = filter (\<lambda>x. x \<noteq> c) s"

definition is_ascii :: "string \<Rightarrow> bool" where
  "is_ascii s \<longleftrightarrow> list_all (\<lambda>c. (of_char c :: nat) < 128) s"

definition lower_char :: "char \<Rightarrow> char" where
  "lower_char c =
     (let n = (of_char c :: nat) in if 65 \<le> n \<and> n \<le> 90 then char_of (n + 32) else c)"

text \<open>
  \<^verbatim>\<open>strings.ToLower\<close>: on ASCII strings the byte-wise map; on a string with a byte of
  0x80 or more Go consults the Unicode case tables, which are the argument \<open>ul\<close>.
\<close>

definition ToLower :: "(string \<Rightarrow> string) \<Rightarrow> string \<Rightarrow> string" where
  "ToLower ul s = (if is_ascii s then map lower_char s else ul s)"

subsection \<open>Facts about the string functions\<close>

lemma HasPrefix_iff: "HasPrefix s p \<longleftrightarrow> (\<exists>t. s = p @ t)"
  by (auto simp: HasPrefix_def) (metis append_take_drop_id)

lemma HasSuffix_iff: "HasSuffix s p \<longleftrightarrow> (\<exists>t. s = t @ p)"
  by (auto simp: HasSuffix_def) (metis append_take_drop_id)

lemma HasPrefix_append [simp]: "HasPrefix (p @ t) p"
  by (simp add: HasPrefix_def)

lemma HasPrefix_Nil [simp]: "HasPrefix s []"
  by (simp add: HasPrefix_def)

lemma Contains_iff: "Contains s sub \<longleftrightarrow> (\<exists>a b. s = a @ sub @ b)"
proof (induction s)
  case Nil
  show ?case by simp
next
  case (Cons c s)
  show ?case
  proof
    assume "Contains (c # s) sub"
    then consider "HasPrefix (c # s) sub" | "Contains s sub" by auto
    then show "\<exists>a b. c # s = a @ sub @ b"
    proof cases
      case 1
      then show ?thesis by (metis HasPrefix_iff append_Nil)
    next
      case 2
      then show ?thesis using Cons.IH by (metis append_Cons)
    qed
  next
    assume "\<exists>a b. c # s = a @ sub @ b"
    then obtain a b where ab: "c # s = a @ sub @ b" by blast
    show "Contains (c # s) sub"
    proof (cases a)
      case Nil
      with ab have "HasPrefix (c # s) sub" by (simp add: HasPrefix_def)
      then show ?thesis by simp
    next
      case (Cons x a')
      with ab have "s = a' @ sub @ b" by simp
      then show ?thesis using Cons.IH by auto
    qed
  qed
qed

lemma Contains_sublist: "Contains s sub \<longleftrightarrow> sublist sub s"
  by (auto simp: Contains_iff sublist_def)

lemma Contains_Nil [simp]: "Contains s []"
  by (auto simp: Contains_iff)

lemma Index_None: "Index s sub = None \<longleftrightarrow> \<not> Contains s sub"
  by (induction s) auto

lemma Index_Some: "Index s sub = Some i \<Longrightarrow> HasPrefix (drop i s) sub \<and> i + length sub \<le> length s"
proof (induction s arbitrary: i)
  case Nil
  then show ?case by (auto split: if_splits)
next
  case (Cons c s)
  show ?case
  proof (cases "HasPrefix (c # s) sub")
    case True
    with Cons.prems have "i = 0" by simp
    moreover from True have "length sub \<le> length (c # s)"
      by (metis HasPrefix_iff le_add1 length_append)
    ultimately show ?thesis using True by simp
  next
    case False
    with Cons.prems obtain j where "Index s sub = Some j" "i = Suc j" by auto
    with Cons.IH show ?thesis by auto
  qed
qed

lemma length_Split [simp]: "Split s c \<noteq> []"
  by (induction s) (auto split: list.splits)

lemma Join_Split: "Join (Split s c) [c] = s"
proof (induction s)
  case (Cons x xs)
  show ?case
  proof (cases "Split xs c")
    case Nil
    then show ?thesis by simp
  next
    case (Cons y ys)
    with Cons.IH show ?thesis by (cases ys) auto
  qed
qed simp

subsection \<open>Decimal printing\<close>

fun show_nat :: "nat \<Rightarrow> string" where
  "show_nat n =
     (if n < 10 then [char_of (48 + n)] else show_nat (n div 10) @ [char_of (48 + n mod 10)])"

declare show_nat.simps [simp del]

definition show_int :: "int \<Rightarrow> string" where
  "show_int i = (if i < 0 then CHR ''-'' # show_nat (nat (- i)) else show_nat (nat i))"

definition is_digit :: "char \<Rightarrow> bool" where
  "is_digit c \<longleftrightarrow> 48 \<le> (of_char c :: nat) \<and> (of_char c :: nat) \<le> 57"

fun read_nat :: "nat \<Rightarrow> string \<Rightarrow> nat" where
  "read_nat acc [] = acc"
| "read_nat acc (c # s) = read_nat (10 * acc + (of_char c - 48)) s"

lemma of_char_char_of_lt: "n < 256 \<Longrightarrow> of_char (char_of n :: char) = (n :: nat)"
  by (simp add: take_bit_eq_mod)

lemma read_nat_append: "read_nat acc (s @ [c]) = 10 * read_nat acc s + (of_char c - 48)"
  by (induction s arbitrary: acc) auto

lemma show_nat_digits: "list_all is_digit (show_nat n) \<and> show_nat n \<noteq> []"
proof (induction n rule: show_nat.induct)
  case (1 n)
  show ?case
  proof (cases "n < 10")
    case True
    then show ?thesis by (simp add: show_nat.simps [of n] is_digit_def of_char_char_of_lt)
  next
    case False
    with 1 show ?thesis
      by (simp add: show_nat.simps [of n] is_digit_def of_char_char_of_lt)
  qed
qed

lemma read_show_nat: "read_nat 0 (show_nat n) = n"
proof (induction n rule: show_nat.induct)
  case (1 n)
  show ?case
  proof (cases "n < 10")
    case True
    then show ?thesis by (simp add: show_nat.simps [of n] of_char_char_of_lt)
  next
    case False
    with 1 have "read_nat 0 (show_nat (n div 10)) = n div 10" by simp
    with False show ?thesis
      by (simp add: show_nat.simps [of n] read_nat_append of_char_char_of_lt)
  qed
qed

lemma show_nat_inj: "show_nat m = show_nat n \<Longrightarrow> m = n"
  by (metis read_show_nat)

lemma digit_prefix_cancel:
  assumes "list_all is_digit a" "list_all is_digit b" "a @ r = b @ s"
    and "r = [] \<or> \<not> is_digit (hd r)" "s = [] \<or> \<not> is_digit (hd s)"
  shows "a = b \<and> r = s"
  using assms
proof (induction a arbitrary: b)
  case Nil
  then show ?case by (cases b) auto
next
  case (Cons x a)
  then show ?case by (cases b) auto
qed

lemma minus_not_digit [simp]: "\<not> is_digit (CHR ''-'')"
  by (simp add: is_digit_def)

lemma show_int_cancel:
  assumes eq: "show_int i @ r = show_int j @ s"
    and r: "r = [] \<or> \<not> is_digit (hd r)" and s: "s = [] \<or> \<not> is_digit (hd s)"
  shows "i = j \<and> r = s"
proof -
  have hd_digit: "is_digit (hd (show_nat n @ t))" for n t
    using show_nat_digits [of n] by (cases "show_nat n") auto
  have nn: "show_nat m @ r = show_nat n @ s \<Longrightarrow> m = n \<and> r = s" for m n
    using digit_prefix_cancel [OF _ _ _ r s] show_nat_digits show_nat_inj by metis
  have no: "CHR ''-'' # t \<noteq> show_nat m @ u" for t u m
    using hd_digit [of m u] by (metis list.sel(1) minus_not_digit)
  have no': "show_nat m @ u \<noteq> CHR ''-'' # t" for t u m
    using no by metis
  consider "i < 0" "j < 0" | "i < 0" "0 \<le> j" | "0 \<le> i" "j < 0" | "0 \<le> i" "0 \<le> j"
    by linarith
  then show ?thesis
  proof cases
    case 1
    with eq have "show_nat (nat (- i)) @ r = show_nat (nat (- j)) @ s"
      by (simp add: show_int_def)
    with nn [of "nat (- i)" "nat (- j)"] 1 show ?thesis by auto
  next
    case 2
    with eq no [of "show_nat (nat (- i)) @ r" "nat j" s] show ?thesis by (simp add: show_int_def)
  next
    case 3
    with eq no' [of "nat i" r "show_nat (nat (- j)) @ s"] show ?thesis by (simp add: show_int_def)
  next
    case 4
    with eq have "show_nat (nat i) @ r = show_nat (nat j) @ s"
      by (simp add: show_int_def)
    with nn [of "nat i" "nat j"] 4 show ?thesis by auto
  qed
qed

subsection \<open>Hexadecimal (encoding/hex)\<close>

definition hex_digit :: "nat \<Rightarrow> char" where
  "hex_digit n = (if n < 10 then char_of (48 + n) else char_of (87 + n))"

definition EncodeToString :: "bytes \<Rightarrow> string" where
  "EncodeToString b =
     concat (map (\<lambda>c. let n = (of_char c :: nat) in [hex_digit (n div 16), hex_digit (n mod 16)]) b)"

definition from_hex_char :: "char \<Rightarrow> nat option" where
  "from_hex_char c =
     (let n = (of_char c :: nat) in
      if 48 \<le> n \<and> n \<le> 57 then Some (n - 48)
      else if 97 \<le> n \<and> n \<le> 102 then Some (n - 87)
      else if 65 \<le> n \<and> n \<le> 70 then Some (n - 55) else None)"

text \<open>\<^verbatim>\<open>hex.DecodeString\<close>: \<open>None\<close> is an error (a byte that is no hex digit, odd length).\<close>

fun DecodeString :: "string \<Rightarrow> bytes option" where
  "DecodeString [] = Some []"
| "DecodeString [c] = None"
| "DecodeString (c # d # s) =
     (case (from_hex_char c, from_hex_char d) of
        (Some x, Some y) \<Rightarrow> map_option ((#) (char_of (16 * x + y))) (DecodeString s)
      | _ \<Rightarrow> None)"

lemma from_hex_digit [simp]: "n < 16 \<Longrightarrow> from_hex_char (hex_digit n) = Some n"
  by (auto simp: from_hex_char_def hex_digit_def of_char_char_of_lt Let_def)

lemma of_char_lt_256 [simp]: "(of_char c :: nat) < 256"
  by (metis of_char_mod_256 mod_less_divisor zero_less_numeral)

lemma DecodeString_EncodeToString [simp]: "DecodeString (EncodeToString b) = Some b"
proof (induction b)
  case (Cons c b)
  have "(of_char c :: nat) div 16 < 16"
    using of_char_lt_256 [of c] by linarith
  with Cons show ?case
    by (simp add: EncodeToString_def Let_def)
qed (simp add: EncodeToString_def)

lemma EncodeToString_inj [simp]: "EncodeToString a = EncodeToString b \<longleftrightarrow> a = b"
  by (metis DecodeString_EncodeToString option.inject)

lemma length_EncodeToString [simp]: "length (EncodeToString b) = 2 * length b"
  by (induction b) (auto simp: EncodeToString_def Let_def)

text \<open>A printer and a parser that undoes it: what a client of an encoding may rely on.\<close>

locale codec =
  fixes enc :: "'a \<Rightarrow> string" and dec :: "string \<Rightarrow> 'a option"
  assumes dec_enc: "dec (enc x) = Some x"
begin

lemma enc_inj: "enc x = enc y \<longleftrightarrow> x = y"
  by (metis dec_enc option.inject)

lemma dec_map_enc: "those (map (dec \<circ> enc) xs) = Some xs"
  by (induction xs) (auto simp: dec_enc)

end

interpretation hex: codec EncodeToString DecodeString
  by unfold_locales simp

end
