(* ===== verification/Json.thy ===== *)
theory Json
  imports Prelude
begin

section \<open>JSON as encoding/json prints it\<close>

text \<open>
  The printer of Go's \<^verbatim>\<open>json.Marshal\<close> for the values the program hashes and stores:
  objects with their fields in declaration order, no white space, HTML-safe string
  escapes, invalid UTF-8 replaced by \<^verbatim>\<open>\ufffd\<close>. The theory shows that a printed value
  determines the value (\<open>jprint_cancel\<close>): this is what makes the printed form of a ledger
  entry canonical.
\<close>

datatype json =
    JNull
  | JBool bool
  | JInt int
  | JStr string
  | JArr "json list"
  | JObj "(string \<times> json) list"

subsection \<open>UTF-8 (unicode/utf8)\<close>

definition in_range :: "char \<Rightarrow> nat \<Rightarrow> nat \<Rightarrow> bool" where
  "in_range c lo hi \<longleftrightarrow> lo \<le> of_char c \<and> of_char c \<le> hi"

text \<open>
  The size of the valid multi-byte code point a string starts with, 0 when there is none
  (the first byte is below 0x80, or \<^verbatim>\<open>DecodeRune\<close> would return \<^verbatim>\<open>RuneError\<close> of width 1).
\<close>

fun utf8_len :: "string \<Rightarrow> nat" where
  "utf8_len (a # b # r) =
     (if in_range a 0xC2 0xDF then (if in_range b 0x80 0xBF then 2 else 0)
      else if in_range a 0xE0 0xEF then
        (if in_range b (if of_char a = (0xE0::nat) then 0xA0 else 0x80)
                       (if of_char a = (0xED::nat) then 0x9F else 0xBF) \<and>
            r \<noteq> [] \<and> in_range (hd r) 0x80 0xBF then 3 else 0)
      else if in_range a 0xF0 0xF4 then
        (if in_range b (if of_char a = (0xF0::nat) then 0x90 else 0x80)
                       (if of_char a = (0xF4::nat) then 0x8F else 0xBF) \<and>
            2 \<le> length r \<and> in_range (hd r) 0x80 0xBF \<and> in_range (r ! 1) 0x80 0xBF then 4 else 0)
      else 0)"
| "utf8_len _ = 0"

lemma utf8_len_cases: "utf8_len s \<in> {0, 2, 3, 4}"
  by (cases s rule: utf8_len.cases) auto

lemma utf8_len_le: "utf8_len s \<le> length s"
proof (cases s rule: utf8_len.cases)
  case (1 a b r)
  then show ?thesis by (cases r) auto
qed auto

definition high :: "char \<Rightarrow> bool" where
  "high c \<longleftrightarrow> 0x80 \<le> (of_char c :: nat)"

lemma utf8_len_high: "list_all high (take (utf8_len s) s)"
proof (cases s rule: utf8_len.cases)
  case (1 a b r)
  then show ?thesis
    by (cases r; cases "tl r") (auto simp: in_range_def high_def split: if_splits)
qed auto

fun valid_utf8 :: "string \<Rightarrow> bool" where
  "valid_utf8 [] = True"
| "valid_utf8 (c # s) =
     (if high c then 0 < utf8_len (c # s) \<and> valid_utf8 (drop (utf8_len (c # s) - 1) s)
      else valid_utf8 s)"

subsection \<open>String escapes\<close>

definition html_safe :: "char \<Rightarrow> bool" where
  "html_safe c \<longleftrightarrow>
     0x20 \<le> (of_char c :: nat) \<and> c \<notin> {CHR 0x22, CHR 0x5C, CHR ''<'', CHR ''>'', CHR ''&''}"

definition bs :: char where
  "bs = CHR 0x5C"

definition hex2 :: "char \<Rightarrow> string" where
  "hex2 c = [hex_digit (of_char c div 16), hex_digit (of_char c mod 16)]"

definition esc_char :: "char \<Rightarrow> string" where
  "esc_char c =
     (if c = CHR 0x22 \<or> c = bs then [bs, c]
      else if c = CHR 0x08 then [bs, CHR ''b''] else if c = CHR 0x0C then [bs, CHR ''f'']
      else if c = CHR 0x0A then [bs, CHR ''n''] else if c = CHR 0x0D then [bs, CHR ''r'']
      else if c = CHR 0x09 then [bs, CHR ''t'']
      else bs # ''u00'' @ hex2 c)"

text \<open>The line and paragraph separators U+2028 and U+2029 are escaped too.\<close>

definition ls_sep :: string where "ls_sep = [CHR 0xE2, CHR 0x80, CHR 0xA8]"

definition ps_sep :: string where "ps_sep = [CHR 0xE2, CHR 0x80, CHR 0xA9]"

fun jesc :: "string \<Rightarrow> string" where
  "jesc [] = []"
| "jesc (c # s) =
     (if \<not> high c then (if html_safe c then c # jesc s else esc_char c @ jesc s)
      else (let n = utf8_len (c # s) in
        if n = 0 then (bs # ''ufffd'') @ jesc s
        else if HasPrefix (c # s) ls_sep then (bs # ''u2028'') @ jesc (drop (n - 1) s)
        else if HasPrefix (c # s) ps_sep then (bs # ''u2029'') @ jesc (drop (n - 1) s)
        else take n (c # s) @ jesc (drop (n - 1) s)))"

definition jquote :: "string \<Rightarrow> string" where
  "jquote s = CHR 0x22 # jesc s @ [CHR 0x22]"

text \<open>The reader of the escapes \<open>jesc\<close> prints: the string up to the closing quote, and the rest.\<close>

definition unhex4 :: "string \<Rightarrow> string" where
  "unhex4 h =
     (if h = ''2028'' then ls_sep else if h = ''2029'' then ps_sep
      else if h = ''fffd'' then [CHR 0xEF, CHR 0xBF, CHR 0xBD]
      else case DecodeString h of Some [_, c] \<Rightarrow> [c] | _ \<Rightarrow> [])"

function unesc :: "string \<Rightarrow> string \<times> string" where
  "unesc [] = ([], [])"
| "unesc (c # s) =
     (if c = CHR 0x22 then ([], s)
      else if c \<noteq> bs then apfst ((#) c) (unesc s)
      else case s of [] \<Rightarrow> ([], [])
        | d # t \<Rightarrow>
            if d = CHR ''u'' then apfst ((@) (unhex4 (take 4 t))) (unesc (drop 4 t))
            else apfst ((#) (if d = CHR ''b'' then CHR 0x08 else if d = CHR ''f'' then CHR 0x0C
              else if d = CHR ''n'' then CHR 0x0A else if d = CHR ''r'' then CHR 0x0D
              else if d = CHR ''t'' then CHR 0x09 else d)) (unesc t))"
  by pat_completeness auto
termination
  by (relation "measure length") auto

declare unesc.simps [simp del]

lemma unesc_quote [simp]: "unesc (CHR 0x22 # s) = ([], s)"
  by (simp add: unesc.simps)

lemma unesc_plain: "c \<noteq> CHR 0x22 \<Longrightarrow> c \<noteq> bs \<Longrightarrow> unesc (c # s) = apfst ((#) c) (unesc s)"
  by (simp add: unesc.simps)

lemma unesc_high: "list_all high xs \<Longrightarrow> unesc (xs @ s) = apfst ((@) xs) (unesc s)"
proof (induction xs)
  case (Cons x xs)
  then have "x \<noteq> CHR 0x22" "x \<noteq> bs"
    by (auto simp: high_def bs_def)
  with Cons show ?case by (simp add: unesc_plain apfst_def map_prod_def split: prod.splits)
qed (simp add: apfst_def map_prod_def split: prod.splits)

lemma unesc_u: "length h = 4 \<Longrightarrow> unesc (bs # CHR ''u'' # h @ s) = apfst ((@) (unhex4 h)) (unesc s)"
  by (subst unesc.simps) (simp add: bs_def)

lemma unhex4_byte:
  assumes "(of_char c :: nat) < 0x80"
  shows "unhex4 (CHR ''0'' # CHR ''0'' # hex2 c) = [c]"
proof -
  have z: "CHR ''0'' = hex_digit 0" by code_simp
  have "(of_char c :: nat) div 16 < 16" using assms by linarith
  then have "DecodeString (CHR ''0'' # CHR ''0'' # hex2 c) = Some [char_of (0::nat), c]"
    by (simp add: hex2_def z)
  then show ?thesis by (simp add: unhex4_def)
qed

lemma unesc_esc_char:
  assumes "\<not> high c" "\<not> html_safe c"
  shows "unesc (esc_char c @ s) = apfst ((#) c) (unesc s)"
proof -
  consider "c \<in> {CHR 0x22, bs, CHR 0x08, CHR 0x0C, CHR 0x0A, CHR 0x0D, CHR 0x09}"
    | "esc_char c = bs # CHR ''u'' # (CHR ''0'' # CHR ''0'' # hex2 c)"
    by (cases "c \<in> {CHR 0x22, bs, CHR 0x08, CHR 0x0C, CHR 0x0A, CHR 0x0D, CHR 0x09}")
      (simp_all add: esc_char_def)
  then show ?thesis
  proof cases
    case 1
    then show ?thesis
      by (auto simp: esc_char_def bs_def unesc.simps(2) [of "CHR 0x5C"])
  next
    case 2
    have "length (CHR ''0'' # CHR ''0'' # hex2 c) = 4" by (simp add: hex2_def)
    from unesc_u [OF this] 2 show ?thesis
      using unhex4_byte [of c] assms by (simp add: high_def apfst_def map_prod_def)
  qed
qed

lemma unesc_jesc: "valid_utf8 s \<Longrightarrow> unesc (jesc s @ CHR 0x22 # r) = (s, r)"
proof (induction s rule: jesc.induct)
  case 1
  show ?case by simp
next
  case (2 c s)
  show ?case
  proof (cases "high c")
    case False
    with 2 have IH: "unesc (jesc s @ CHR 0x22 # r) = (s, r)" by (cases "html_safe c") auto
    show ?thesis
    proof (cases "html_safe c")
      case True
      then have "c \<noteq> CHR 0x22" "c \<noteq> bs" by (auto simp: html_safe_def bs_def)
      with IH True False show ?thesis by (simp add: unesc_plain)
    next
      case nsafe: False
      with IH False show ?thesis using unesc_esc_char [OF False nsafe] by simp
    qed
  next
    case True
    define n where "n = utf8_len (c # s)"
    from True "2.prems" have n: "0 < n" "valid_utf8 (drop (n - 1) s)" by (auto simp: n_def)
    from n(1) have take_n: "take n (c # s) @ drop (n - 1) s = c # s"
      by (cases n) auto
    have n3: "n = 3" if "HasPrefix (c # s) p" "p = ls_sep \<or> p = ps_sep" for p
      using that n(1) by (auto simp: n_def HasPrefix_iff ls_sep_def ps_sep_def in_range_def)
    show ?thesis
    proof (cases "HasPrefix (c # s) ls_sep \<or> HasPrefix (c # s) ps_sep")
      case sep: True
      then obtain p h where p: "HasPrefix (c # s) p" "p = ls_sep \<or> p = ps_sep"
        and h: "unhex4 h = p" "length h = 4"
        and je: "jesc (c # s) = bs # CHR ''u'' # h @ jesc (drop (n - 1) s)"
      proof (cases "HasPrefix (c # s) ls_sep")
        case ls: True
        show ?thesis
          by (rule that [of ls_sep "''2028''"]) (use ls True n(1) in \<open>simp_all add: unhex4_def n_def [symmetric]\<close>)
      next
        case nls: False
        with sep have "HasPrefix (c # s) ps_sep" by simp
        with nls show ?thesis
          by (intro that [of ps_sep "''2029''"]) (use True n(1) in \<open>simp_all add: unhex4_def n_def [symmetric]\<close>)
      qed
      from p have "length p = 3" by (auto simp: ls_sep_def ps_sep_def)
      with p(1) n3 [OF p] have "take n (c # s) = p" by (simp add: HasPrefix_def)
      moreover have "unesc (jesc (drop (n - 1) s) @ CHR 0x22 # r) = (drop (n - 1) s, r)"
        using "2.IH"(4,5) True n sep by (cases "HasPrefix (c # s) ls_sep") (auto simp: n_def)
      ultimately show ?thesis
        using unesc_u [OF h(2)] h(1) take_n by (simp add: je del: jesc.simps)
    next
      case nsep: False
      then have "jesc (c # s) = take n (c # s) @ jesc (drop (n - 1) s)"
        using True n(1) by (simp add: n_def [symmetric])
      moreover have "unesc (jesc (drop (n - 1) s) @ CHR 0x22 # r) = (drop (n - 1) s, r)"
        using "2.IH"(6) True n nsep by (auto simp: n_def)
      ultimately show ?thesis
        using unesc_high [OF utf8_len_high [of "c # s"]] take_n
        by (simp add: n_def [symmetric] del: jesc.simps)
    qed
  qed
qed

lemma jquote_cancel:
  assumes "jquote a @ r = jquote b @ s" "valid_utf8 a" "valid_utf8 b"
  shows "a = b \<and> r = s"
proof -
  from assms(1) have "jesc a @ CHR 0x22 # r = jesc b @ CHR 0x22 # s"
    by (simp add: jquote_def)
  then have "unesc (jesc a @ CHR 0x22 # r) = unesc (jesc b @ CHR 0x22 # s)"
    by (rule arg_cong)
  then have "(a, r) = (b, s)"
    by (simp only: unesc_jesc [OF assms(2)] unesc_jesc [OF assms(3)])
  then show ?thesis by simp
qed

subsection \<open>Values\<close>

fun jprint :: "json \<Rightarrow> string" where
  "jprint JNull = ''null''"
| "jprint (JBool b) = (if b then ''true'' else ''false'')"
| "jprint (JInt i) = show_int i"
| "jprint (JStr s) = jquote s"
| "jprint (JArr xs) = CHR ''['' # Join (map jprint xs) '','' @ '']''"
| "jprint (JObj fs) =
     CHR ''{'' # Join (map (\<lambda>kv. jquote (fst kv) @ CHR '':'' # jprint (snd kv)) fs) '','' @ ''}''"

fun jvalid :: "json \<Rightarrow> bool" where
  "jvalid (JStr s) = valid_utf8 s"
| "jvalid (JArr xs) = list_all jvalid xs"
| "jvalid (JObj fs) = list_all (\<lambda>kv. valid_utf8 (fst kv) \<and> jvalid (snd kv)) fs"
| "jvalid _ = True"

text \<open>The first byte of a printed value tells its kind.\<close>

fun jkind :: "json \<Rightarrow> nat" where
  "jkind JNull = 0" | "jkind (JBool b) = 1" | "jkind (JInt i) = 2"
| "jkind (JStr s) = 3" | "jkind (JArr xs) = 4" | "jkind (JObj fs) = 5"

definition char_kind :: "char \<Rightarrow> nat" where
  "char_kind c =
     (if c = CHR ''n'' then 0 else if c = CHR ''t'' \<or> c = CHR ''f'' then 1
      else if c = CHR 0x22 then 3 else if c = CHR ''['' then 4 else if c = CHR ''{'' then 5
      else if c = CHR ''-'' \<or> is_digit c then 2 else 6)"

lemma char_kind_num:
  assumes "c = CHR ''-'' \<or> is_digit c"
  shows "char_kind c = 2"
  using assms by (auto simp: char_kind_def is_digit_def)

lemma hd_jprint: "jprint j \<noteq> [] \<and> char_kind (hd (jprint j)) = jkind j"
proof (cases j)
  case (JInt i)
  then have "hd (show_int i) = CHR ''-'' \<or> is_digit (hd (show_int i))" "show_int i \<noteq> []"
    using show_nat_digits [of "nat i"] by (auto simp: show_int_def list_all_iff)
  then show ?thesis using JInt by (simp add: char_kind_num)
qed (auto simp: char_kind_def jquote_def is_digit_def)

definition jstop :: "string \<Rightarrow> bool" where
  "jstop r \<longleftrightarrow> r = [] \<or> \<not> is_digit (hd r)"

lemma Join_Cons: "Join (x # xs) sep = x @ (if xs = [] then [] else sep @ Join xs sep)"
  by (cases xs) auto

lemma Join_cancel:
  assumes "\<And>x y r s. \<lbrakk>x \<in> set xs; y \<in> set ys; f x @ r = f y @ s; jstop r; jstop s\<rbrakk> \<Longrightarrow> x = y \<and> r = s"
    and "\<And>x. x \<in> set xs \<union> set ys \<Longrightarrow> f x \<noteq> [] \<and> hd (f x) \<noteq> e"
    and e: "\<not> is_digit e" "e \<noteq> CHR '',''"
    and "Join (map f xs) '','' @ e # r = Join (map f ys) '','' @ e # s"
  shows "xs = ys \<and> r = s"
  using assms(1,2,5)
proof (induction xs arbitrary: ys)
  case Nil
  show ?case
  proof (cases ys)
    case (Cons y ys')
    then have "hd (f y) = e" "f y \<noteq> []"
      using Nil.prems(2) [of y] Nil.prems(3) by (auto simp: Join_Cons neq_Nil_conv)
    with Nil.prems(2) [of y] Cons show ?thesis by simp
  qed (use Nil in simp)
next
  case (Cons x xs)
  show ?case
  proof (cases ys)
    case Nil
    then have "hd (f x) = e" "f x \<noteq> []"
      using Cons.prems(2) [of x] Cons.prems(3) by (auto simp: Join_Cons neq_Nil_conv)
    with Cons.prems(2) [of x] show ?thesis by simp
  next
    case ys: (Cons y ys')
    define T where "T zs t = (if zs = [] then e # t else CHR '','' # Join (map f zs) '','' @ e # t)"
      for zs t
    have "f x @ T xs r = f y @ T ys' s"
      using Cons.prems(3) by (simp add: ys T_def Join_Cons split: if_splits)
    moreover have "jstop (T zs t)" for zs t
      using e by (simp add: T_def jstop_def is_digit_def)
    ultimately have xy: "x = y" and T: "T xs r = T ys' s"
      using Cons.prems(1) [of x y "T xs r" "T ys' s"] ys by auto
    have "xs = ys' \<and> r = s"
    proof (cases "xs = [] \<or> ys' = []")
      case True
      with T e(2) show ?thesis by (auto simp: T_def split: if_splits)
    next
      case False
      with T have "Join (map f xs) '','' @ e # r = Join (map f ys') '','' @ e # s"
        by (simp add: T_def)
      from Cons.IH [OF _ _ this] show ?thesis
        using Cons.prems(1,2) ys by auto
    qed
    with xy ys show ?thesis by simp
  qed
qed

lemma jprint_cancel:
  "\<lbrakk>jprint a @ r = jprint b @ s; jvalid a; jvalid b; jkind a = 2 \<longrightarrow> jstop r \<and> jstop s\<rbrakk>
   \<Longrightarrow> a = b \<and> r = s"
proof (induction a arbitrary: b r s)
  case JNull
  have "jkind b = 0" using JNull.prems(1) hd_jprint [of b] hd_jprint [of JNull]
    by (metis hd_append2 jkind.simps(1))
  with JNull show ?case by (cases b) auto
next
  case (JBool x)
  have "jkind b = 1" using JBool.prems(1) hd_jprint [of b] hd_jprint [of "JBool x"]
    by (metis hd_append2 jkind.simps(2))
  with JBool show ?case by (cases b) (auto split: if_splits)
next
  case (JInt x)
  have "jkind b = 2" using JInt.prems(1) hd_jprint [of b] hd_jprint [of "JInt x"]
    by (metis hd_append2 jkind.simps(3))
  then obtain y where "b = JInt y" by (cases b) auto
  with JInt show ?case using show_int_cancel [of x r y s] by (auto simp: jstop_def)
next
  case (JStr x)
  have "jkind b = 3" using JStr.prems(1) hd_jprint [of b] hd_jprint [of "JStr x"]
    by (metis hd_append2 jkind.simps(4))
  then obtain y where "b = JStr y" by (cases b) auto
  with JStr show ?case using jquote_cancel [of x r y s] by auto
next
  case (JArr xs)
  have "jkind b = 4" using JArr.prems(1) hd_jprint [of b] hd_jprint [of "JArr xs"]
    by (metis hd_append2 jkind.simps(5))
  then obtain ys where b: "b = JArr ys" by (cases b) auto
  have ne: "hd (jprint z) \<noteq> CHR '']''" for z
    using hd_jprint [of z] by (auto simp: char_kind_def is_digit_def split: if_splits) (cases z; simp)
  have "xs = ys \<and> r = s"
  proof (rule Join_cancel [where f = jprint and e = "CHR '']''"])
    show "Join (map jprint xs) '','' @ CHR '']'' # r = Join (map jprint ys) '','' @ CHR '']'' # s"
      using JArr.prems(1) by (simp add: b)
  qed (use JArr b ne hd_jprint in \<open>auto simp: list_all_iff is_digit_def\<close>)
  with b show ?case by simp
next
  case (JObj fs)
  have "jkind b = 5" using JObj.prems(1) hd_jprint [of b] hd_jprint [of "JObj fs"]
    by (metis hd_append2 jkind.simps(6))
  then obtain gs where b: "b = JObj gs" by (cases b) auto
  let ?f = "\<lambda>kv. jquote (fst kv) @ CHR '':'' # jprint (snd kv)"
  have "fs = gs \<and> r = s"
  proof (rule Join_cancel [where f = ?f and e = "CHR ''}''"])
    fix x y r s
    assume x: "x \<in> set fs" and y: "y \<in> set gs" and eq: "?f x @ r = ?f y @ s" and st: "jstop r" "jstop s"
    have "valid_utf8 (fst x)" "valid_utf8 (fst y)" "jvalid (snd x)" "jvalid (snd y)"
      using JObj.prems(2,3) x y b by (auto simp: list_all_iff)
    moreover from this have "fst x = fst y \<and> jprint (snd x) @ r = jprint (snd y) @ s"
      using jquote_cancel [of "fst x" "CHR '':'' # jprint (snd x) @ r" "fst y"] eq by simp
    ultimately show "x = y \<and> r = s"
      using JObj.IH [of x "snd x" r "snd y" s] x st by (auto simp: prod_eq_iff snds.simps)
  next
    show "Join (map ?f fs) '','' @ CHR ''}'' # r = Join (map ?f gs) '','' @ CHR ''}'' # s"
      using JObj.prems(1) by (simp add: b)
  qed (auto simp: jquote_def is_digit_def)
  with b show ?case by simp
qed

text \<open>A JSON object ends itself: whatever follows it, the printed object determines the fields.\<close>

lemma jprint_JObj_cancel:
  assumes "jprint (JObj fs) @ r = jprint (JObj gs) @ s" "jvalid (JObj fs)" "jvalid (JObj gs)"
  shows "fs = gs \<and> r = s"
  using jprint_cancel [of "JObj fs" r "JObj gs" s] assms by (simp only: json.inject jkind.simps) simp

text \<open>Struct fields with the \<^verbatim>\<open>omitempty\<close> tag: absent when the value is empty.\<close>

definition omit_str :: "string \<Rightarrow> string \<Rightarrow> (string \<times> json) list" where
  "omit_str k v = (if v = [] then [] else [(k, JStr v)])"

definition omit_int :: "string \<Rightarrow> int \<Rightarrow> (string \<times> json) list" where
  "omit_int k v = (if v = 0 then [] else [(k, JInt v)])"

definition omit_bool :: "string \<Rightarrow> bool \<Rightarrow> (string \<times> json) list" where
  "omit_bool k v = (if v then [(k, JBool v)] else [])"

definition omit_arr :: "string \<Rightarrow> json list \<Rightarrow> (string \<times> json) list" where
  "omit_arr k v = (if v = [] then [] else [(k, JArr v)])"

definition omit_opt :: "string \<Rightarrow> json option \<Rightarrow> (string \<times> json) list" where
  "omit_opt k v = (case v of None \<Rightarrow> [] | Some j \<Rightarrow> [(k, j)])"

end
