(* ===== verification/Contract.thy ===== *)
theory Contract
  imports Json
begin

section \<open>The wire types (pkg/contract)\<close>

text \<open>
  The structs of \<^verbatim>\<open>pkg/contract\<close> that the components exchange, as records with the
  source's field names (each with its struct's prefix, since record fields share one name
  space), and the methods of \<^verbatim>\<open>cycle.go\<close>, \<^verbatim>\<open>types.go\<close> and \<^verbatim>\<open>work_contract.go\<close>.
  Go's string-typed enumerations stay strings, because a value read from a file or a
  request need not be one of the constants; the constants are abbreviations. A nil slice
  and an empty slice are both \<open>[]\<close>, a pointer is an \<open>option\<close>, and an error that wraps a
  sentinel is that sentinel. \<^verbatim>\<open>time.Now().UnixMilli()\<close> is an argument \<open>now\<close>.
\<close>

subsection \<open>Errors (errors.go)\<close>

datatype contract_error =
    ErrInvalidName
  | ErrInvalidSessionID
  | ErrInvalidPattern
  | ErrNotHolder
  | ErrSessionNotFound
  | ErrDuplicateName
  | ErrTooFewParticipants
  | ErrSelfHandoff
  | ErrSessionInterrupted
  | ErrAlreadyConnected
  | ErrHandoffToNotMember
  | ErrFirstHolderNotMember
  | ErrInvalidCyclePhase
  | ErrInvalidHaltReason
  | ErrCycleNotFound
  | ErrCycleHalted
  | ErrMainBranchForbidden
  | ErrGoalRequired
  | ErrInvalidActionVerdict

subsection \<open>Phases and halt reasons (cycle.go)\<close>

type_synonym CyclePhase = string
type_synonym HaltReason = string

abbreviation CyclePhasePreflight where "CyclePhasePreflight \<equiv> ''preflight''"
abbreviation CyclePhaseAudit where "CyclePhaseAudit \<equiv> ''audit''"
abbreviation CyclePhasePhilosophy where "CyclePhasePhilosophy \<equiv> ''philosophy''"
abbreviation CyclePhasePolish where "CyclePhasePolish \<equiv> ''polish''"
abbreviation CyclePhaseCommit where "CyclePhaseCommit \<equiv> ''commit''"
abbreviation CyclePhaseHandoff where "CyclePhaseHandoff \<equiv> ''handoff''"
abbreviation CyclePhaseHalted where "CyclePhaseHalted \<equiv> ''halted''"

abbreviation HaltSelfAuditViolation where "HaltSelfAuditViolation \<equiv> ''self-audit-violation''"
abbreviation HaltSSHAuthFailed where "HaltSSHAuthFailed \<equiv> ''ssh-auth-failed''"
abbreviation HaltMaxCyclesReached where "HaltMaxCyclesReached \<equiv> ''max-cycles-reached''"
abbreviation HaltGateFailure where "HaltGateFailure \<equiv> ''gate-failure''"
abbreviation HaltUserRequested where "HaltUserRequested \<equiv> ''user-requested''"
abbreviation HaltPreflightFailed where "HaltPreflightFailed \<equiv> ''preflight-failed''"
abbreviation HaltSuccess where "HaltSuccess \<equiv> ''success''"
abbreviation HaltStuck where "HaltStuck \<equiv> ''stuck''"
abbreviation HaltBudgetExceeded where "HaltBudgetExceeded \<equiv> ''budget-exceeded''"
abbreviation HaltUnparseableTurn where "HaltUnparseableTurn \<equiv> ''unparseable-turn''"

definition ParseCyclePhase :: "string \<Rightarrow> contract_error + CyclePhase" where
  "ParseCyclePhase s =
     (if s \<in> {CyclePhasePreflight, CyclePhaseAudit, CyclePhasePhilosophy, CyclePhasePolish,
              CyclePhaseCommit, CyclePhaseHandoff, CyclePhaseHalted}
      then Inr s else Inl ErrInvalidCyclePhase)"

definition CyclePhase_Next :: "CyclePhase \<Rightarrow> CyclePhase" where
  "CyclePhase_Next p =
     (if p = CyclePhasePreflight then CyclePhaseAudit
      else if p = CyclePhaseAudit then CyclePhasePhilosophy
      else if p = CyclePhasePhilosophy then CyclePhasePolish
      else if p = CyclePhasePolish then CyclePhaseCommit
      else if p = CyclePhaseCommit then CyclePhaseHandoff
      else CyclePhaseHalted)"

definition ParseHaltReason :: "string \<Rightarrow> contract_error + HaltReason" where
  "ParseHaltReason s =
     (if s \<in> {HaltSelfAuditViolation, HaltSSHAuthFailed, HaltMaxCyclesReached, HaltGateFailure,
              HaltUserRequested, HaltPreflightFailed, HaltSuccess, HaltStuck, HaltBudgetExceeded,
              HaltUnparseableTurn}
      then Inr s else Inl ErrInvalidHaltReason)"

subsection \<open>Violations and gate reports (cycle.go)\<close>

record ViolationCheck =
  vc_Command :: string
  vc_Expected :: string

record Violation =
  v_File :: string
  v_Line :: int
  v_Type :: string
  v_Message :: string
  v_Check :: "ViolationCheck option"

record ClaimCheck =
  cc_Violation :: Violation
  cc_Verified :: bool

record GateReport =
  gr_Gate :: string
  gr_Passed :: bool
  gr_DurationMS :: int
  gr_Stdout :: string
  gr_Stderr :: string
  gr_Violations :: "Violation list"
  gr_ClaimChecks :: "ClaimCheck list"

datatype GateResult =
    GateSuccess GateReport
  | GateFailure GateReport HaltReason
  | GateWarning GateReport

fun Report :: "GateResult \<Rightarrow> GateReport" where
  "Report (GateSuccess r) = r"
| "Report (GateFailure r _) = r"
| "Report (GateWarning r) = r"

record TurnPayload =
  tp_NextGoal :: string
  tp_ViolationsFound :: "Violation list"
  tp_HaltRequested :: bool

text \<open>
  \<open>unmarshal\<close> is \<^verbatim>\<open>json.Unmarshal\<close> at the type \<^verbatim>\<open>TurnPayload\<close>: \<open>None\<close> is its error.
\<close>

definition ParseTurnPayload :: "(string \<Rightarrow> TurnPayload option) \<Rightarrow> string \<Rightarrow> TurnPayload \<times> bool" where
  "ParseTurnPayload unmarshal summary =
     (let zero = \<lparr>tp_NextGoal = [], tp_ViolationsFound = [], tp_HaltRequested = False\<rparr> in
      if summary = [] then (zero, True)
      else case unmarshal summary of None \<Rightarrow> (zero, False) | Some p \<Rightarrow> (p, True))"

subsection \<open>Cycle state (cycle.go)\<close>

record CycleState =
  cs_ID :: string
  cs_Phase :: CyclePhase
  cs_CompletedCycles :: int
  cs_MaxCycles :: int
  cs_Branch :: string
  cs_BaselineSHA :: string
  cs_PendingFiles :: "string list"
  cs_LocalGates :: "string list"
  cs_AuditCmd :: string
  cs_PolishTestCmd :: string
  cs_ViolationsFound :: "Violation list"
  cs_NextCycleGoal :: string
  cs_Halted :: bool
  cs_HaltReason :: HaltReason
  cs_CreatedAt :: int
  cs_UpdatedAt :: int
  cs_History :: "GateReport list"
  cs_LastFailedGate :: string
  cs_AutoGoal :: bool
  cs_MaxDurationMinutes :: int
  cs_StartedAt :: int

text \<open>\<^verbatim>\<open>int(time.Since(...).Minutes())\<close> on a clock that reads \<open>now\<close> milliseconds.\<close>

definition CanAdvance :: "int \<Rightarrow> CycleState \<Rightarrow> bool" where
  "CanAdvance now s =
     (if cs_Halted s then False
      else if cs_MaxCycles s > 0 \<and> cs_CompletedCycles s \<ge> cs_MaxCycles s then False
      else if cs_MaxDurationMinutes s > 0 \<and> cs_StartedAt s > 0 \<and>
              (now - cs_StartedAt s) div 60000 \<ge> cs_MaxDurationMinutes s then False
      else True)"

definition ShouldRotateAgent :: "CycleState \<Rightarrow> bool" where
  "ShouldRotateAgent s \<longleftrightarrow> cs_CompletedCycles s > 0 \<and> cs_CompletedCycles s mod 3 = 0"

record CycleEvent =
  ce_CycleID :: string
  ce_Phase :: CyclePhase
  ce_CompletedCycles :: int
  ce_Halted :: bool
  ce_HaltReason :: HaltReason
  ce_LastFailedGate :: string
  ce_At :: int

definition NewCycleEvent :: "int \<Rightarrow> CycleState \<Rightarrow> CycleEvent" where
  "NewCycleEvent now s =
     \<lparr>ce_CycleID = cs_ID s, ce_Phase = cs_Phase s, ce_CompletedCycles = cs_CompletedCycles s,
      ce_Halted = cs_Halted s, ce_HaltReason = cs_HaltReason s,
      ce_LastFailedGate = cs_LastFailedGate s, ce_At = now\<rparr>"

record OrchestratorConfig =
  oc_Agents :: "string list"
  oc_Pattern :: string
  oc_ResetEvery :: int
  oc_RepoURL :: string
  oc_WorkingDir :: string
  oc_MaxLifetimeTurns :: int

record NewCycleRequest =
  ncr_Goal :: string
  ncr_Branch :: string
  ncr_MaxCycles :: int
  ncr_MaxDurationMinutes :: int
  ncr_AutoGoal :: bool
  ncr_PendingFiles :: "string list"
  ncr_LocalGates :: "string list"
  ncr_AuditCmd :: string
  ncr_PolishTestCmd :: string
  ncr_Orchestrator :: "OrchestratorConfig option"

subsection \<open>The harness contract (work\_contract.go)\<close>

record WorkContract =
  wc_Objective :: string
  wc_RepoRoot :: string
  wc_Branch :: string
  wc_PendingFiles :: "string list"
  wc_LocalGates :: "string list"
  wc_MaxCycles :: int
  wc_MaxDurationMinutes :: int
  wc_AutoGoal :: bool
  wc_Orchestrator :: "OrchestratorConfig option"

definition NewCycleRequest_WorkContract :: "NewCycleRequest \<Rightarrow> WorkContract" where
  "NewCycleRequest_WorkContract r =
     \<lparr>wc_Objective = ncr_Goal r,
      wc_RepoRoot = (case ncr_Orchestrator r of None \<Rightarrow> [] | Some oc \<Rightarrow> oc_WorkingDir oc),
      wc_Branch = ncr_Branch r, wc_PendingFiles = ncr_PendingFiles r,
      wc_LocalGates = ncr_LocalGates r, wc_MaxCycles = ncr_MaxCycles r,
      wc_MaxDurationMinutes = ncr_MaxDurationMinutes r, wc_AutoGoal = ncr_AutoGoal r,
      wc_Orchestrator = ncr_Orchestrator r\<rparr>"

definition CycleState_WorkContract ::
  "CycleState \<Rightarrow> string \<Rightarrow> OrchestratorConfig option \<Rightarrow> WorkContract" where
  "CycleState_WorkContract s repoRoot orchestrator =
     \<lparr>wc_Objective = cs_NextCycleGoal s, wc_RepoRoot = repoRoot,
      wc_Branch = cs_Branch s, wc_PendingFiles = cs_PendingFiles s,
      wc_LocalGates = cs_LocalGates s, wc_MaxCycles = cs_MaxCycles s,
      wc_MaxDurationMinutes = cs_MaxDurationMinutes s, wc_AutoGoal = cs_AutoGoal s,
      wc_Orchestrator = orchestrator\<rparr>"

subsection \<open>Turns, budgets and presets (types.go)\<close>

type_synonym ExitCondition = string
type_synonym HandoffIntent = string
type_synonym SelfEval = string

abbreviation ExitAllArtifactsCompile where "ExitAllArtifactsCompile \<equiv> ''all_artifacts_compile''"
abbreviation ExitTestsPass where "ExitTestsPass \<equiv> ''tests_pass''"
abbreviation ExitReviewerApproved where "ExitReviewerApproved \<equiv> ''reviewer_approved''"
abbreviation ExitTurnsExhausted where "ExitTurnsExhausted \<equiv> ''turns_exhausted''"
abbreviation ExitTokensExhausted where "ExitTokensExhausted \<equiv> ''tokens_exhausted''"
abbreviation ExitDeadlinePassed where "ExitDeadlinePassed \<equiv> ''deadline_passed''"
abbreviation ExitHumanSignal where "ExitHumanSignal \<equiv> ''human_signal''"
abbreviation ExitDryRounds where "ExitDryRounds \<equiv> ''dry_rounds''"
abbreviation ExitStuck where "ExitStuck \<equiv> ''stuck''"

abbreviation SelfEvalConfident where "SelfEvalConfident \<equiv> ''confident''"
abbreviation SelfEvalUncertain where "SelfEvalUncertain \<equiv> ''uncertain''"
abbreviation SelfEvalBlocked where "SelfEvalBlocked \<equiv> ''blocked''"

record Budget =
  b_TokensLeft :: int
  b_TurnsLeft :: int
  b_DeadlineMS :: int
  b_DryRoundsThreshold :: int

record LastTurn =
  lt_From :: string
  lt_Runtime :: string
  lt_Summary :: string
  lt_Artifacts :: "string list"
  lt_SelfEval :: SelfEval
  lt_Intent :: HandoffIntent
  lt_Claims :: "Violation list"

record Task =
  t_Title :: string
  t_Body :: string
  t_RepoRoot :: string

record Usage =
  u_TokensIn :: int
  u_TokensOut :: int
  u_Ms :: int

record TurnRequest =
  tq_Session :: string
  tq_Turn :: int
  tq_Role :: string
  tq_RuntimeHint :: string
  tq_ModelHint :: string
  tq_Budget :: Budget
  tq_ScratchPath :: string
  tq_Scratch :: string
  tq_LastTurn :: "LastTurn option"
  tq_Task :: Task
  tq_WorkContract :: "WorkContract option"
  tq_ExitWhen :: "ExitCondition list"

record TurnResponse =
  tr_Done :: bool
  tr_HandoffTo :: string
  tr_HandoffIntent :: HandoffIntent
  tr_Summary :: string
  tr_Artifacts :: "string list"
  tr_SelfEval :: SelfEval
  tr_NotesForHuman :: string
  tr_Usage :: "Usage option"
  tr_Claims :: "Violation list"

text \<open>The arrow U+2192 of the one-line summary, in UTF-8.\<close>

definition Compact :: "TurnResponse \<Rightarrow> string" where
  "Compact r =
     (if tr_Done r then ''[done] '' else []) @
     (if tr_HandoffTo r \<noteq> [] then [CHR 0xE2, CHR 0x86, CHR 0x92] @ '' '' @ tr_HandoffTo r @ '' '' else []) @
     ''eval='' @ tr_SelfEval r @
     (if tr_Summary r \<noteq> [] then '' summary='' @ [CHR 0x22] @ tr_Summary r @ [CHR 0x22] else []) @
     (if tr_Artifacts r \<noteq> [] then '' artifacts=['' @ Join (tr_Artifacts r) '', '' @ '']'' else []) @
     (case tr_Usage r of None \<Rightarrow> []
      | Some u \<Rightarrow> '' usage='' @ show_int (u_TokensIn u) @ ''/'' @ show_int (u_TokensOut u))"

record Role =
  r_ID :: string
  r_Runtime :: string
  r_Model :: string

record ScratchConfig =
  sc_MaxKB :: int
  sc_SummarizeWith :: string

record Preset =
  p_Name :: string
  p_Description :: string
  p_Roles :: "Role list"
  p_Routing :: string
  p_Budget :: Budget
  p_ExitWhen :: "ExitCondition list"
  p_Scratch :: ScratchConfig

subsection \<open>Facts\<close>

lemma ParseHaltReason_Inr [simp]: "ParseHaltReason s = Inr r \<Longrightarrow> r = s"
  by (auto simp: ParseHaltReason_def split: if_splits)

lemma CyclePhase_Next_reaches_halted: "(CyclePhase_Next ^^ 6) p = CyclePhaseHalted"
proof -
  have step: "CyclePhase_Next CyclePhaseHalted = CyclePhaseHalted" by (simp add: CyclePhase_Next_def)
  consider "p = CyclePhasePreflight" | "p = CyclePhaseAudit" | "p = CyclePhasePhilosophy"
    | "p = CyclePhasePolish" | "p = CyclePhaseCommit" | "CyclePhase_Next p = CyclePhaseHalted"
    by (cases "p \<in> {CyclePhasePreflight, CyclePhaseAudit, CyclePhasePhilosophy, CyclePhasePolish,
          CyclePhaseCommit}") (force, simp add: CyclePhase_Next_def)
  then show ?thesis
    by cases (auto simp: eval_nat_numeral CyclePhase_Next_def)
qed

lemma CanAdvance_not_halted: "CanAdvance now s \<Longrightarrow> \<not> cs_Halted s"
  by (auto simp: CanAdvance_def)

lemma CanAdvance_below_max:
  "CanAdvance now s \<Longrightarrow> cs_MaxCycles s > 0 \<Longrightarrow> cs_CompletedCycles s < cs_MaxCycles s"
  by (auto simp: CanAdvance_def split: if_splits)

text \<open>Time only takes the permission to advance away.\<close>

lemma CanAdvance_antimono: "CanAdvance later s \<Longrightarrow> now \<le> later \<Longrightarrow> CanAdvance now s"
proof -
  assume adv: "CanAdvance later s" and le: "now \<le> later"
  have "(now - cs_StartedAt s) div 60000 \<le> (later - cs_StartedAt s) div 60000"
    using le by (intro zdiv_mono1) auto
  with adv show ?thesis by (auto simp: CanAdvance_def split: if_splits)
qed

end
