(* ===== verification/Sha256.thy ===== *)
theory Sha256
  imports Prelude
begin

section \<open>SHA-256\<close>

text \<open>
  The digest of Go's \<^verbatim>\<open>crypto/sha256\<close> (FIPS 180-4) on byte lists: the one hash function
  of the program, used by the ledger's hash chain, the gate pins, the convention digests
  and the Merkle tree. It is written out, so that a digest is a computable value: the
  constants the sources spell as literals are checked against it by evaluation. What the
  clients rely on is the locale \<open>digest\<close>: every digest has 32 bytes.
\<close>

unbundle bit_operations_syntax

type_synonym w32 = "32 word"

definition rotr :: "nat \<Rightarrow> w32 \<Rightarrow> w32" where
  "rotr n w = (drop_bit n w OR push_bit (32 - n) w)"

definition K256 :: "w32 list" where
  "K256 =
     [1116352408, 1899447441, 3049323471, 3921009573, 961987163, 1508970993,
      2453635748, 2870763221, 3624381080, 310598401, 607225278, 1426881987,
      1925078388, 2162078206, 2614888103, 3248222580, 3835390401, 4022224774,
      264347078, 604807628, 770255983, 1249150122, 1555081692, 1996064986,
      2554220882, 2821834349, 2952996808, 3210313671, 3336571891, 3584528711,
      113926993, 338241895, 666307205, 773529912, 1294757372, 1396182291,
      1695183700, 1986661051, 2177026350, 2456956037, 2730485921, 2820302411,
      3259730800, 3345764771, 3516065817, 3600352804, 4094571909, 275423344,
      430227734, 506948616, 659060556, 883997877, 958139571, 1322822218,
      1537002063, 1747873779, 1955562222, 2024104815, 2227730452, 2361852424,
      2428436474, 2756734187, 3204031479, 3329325298]"

definition H256 :: "w32 list" where
  "H256 =
     [1779033703, 3144134277, 1013904242, 2773480762, 1359893119, 2600822924,
      528734635, 1541459225]"

definition sha_pad :: "bytes \<Rightarrow> bytes" where
  "sha_pad m =
     m @ CHR 0x80 # replicate ((119 - length m mod 64) mod 64) (CHR 0x00) @
     map (\<lambda>i. char_of ((8 * int (length m)) div 256 ^ i)) [7, 6, 5, 4, 3, 2, 1, 0]"

definition be32 :: "char \<Rightarrow> char \<Rightarrow> char \<Rightarrow> char \<Rightarrow> w32" where
  "be32 a b c d =
     word_of_int (((of_char a * 256 + of_char b) * 256 + of_char c) * 256 + of_char d)"

fun block_words :: "bytes \<Rightarrow> w32 list" where
  "block_words (a # b # c # d # s) = be32 a b c d # block_words s"
| "block_words _ = []"

text \<open>The message schedule, latest word first, and its next word.\<close>

definition next_w :: "w32 list \<Rightarrow> w32" where
  "next_w w =
     (let x = w ! 1; y = w ! 14 in
      (rotr 17 x XOR rotr 19 x XOR drop_bit 10 x) + w ! 6
      + (rotr 7 y XOR rotr 18 y XOR drop_bit 3 y) + w ! 15)"

primrec schedule :: "nat \<Rightarrow> w32 list \<Rightarrow> w32 list" where
  "schedule 0 w = w"
| "schedule (Suc n) w = schedule n (next_w w # w)"

type_synonym hstate = "w32 \<times> w32 \<times> w32 \<times> w32 \<times> w32 \<times> w32 \<times> w32 \<times> w32"

fun sha_round :: "hstate \<Rightarrow> w32 \<times> w32 \<Rightarrow> hstate" where
  "sha_round (a, b, c, d, e, f, g, h) (k, w) =
     (let t1 = h + (rotr 6 e XOR rotr 11 e XOR rotr 25 e) + ((e AND f) XOR (NOT e AND g)) + k + w;
          t2 = (rotr 2 a XOR rotr 13 a XOR rotr 22 a)
               + ((a AND b) XOR (a AND c) XOR (b AND c))
      in (t1 + t2, a, b, c, d + t1, e, f, g))"

definition compress :: "hstate \<Rightarrow> bytes \<Rightarrow> hstate" where
  "compress st blk =
     (let ws = rev (schedule 48 (rev (block_words blk)));
          (a, b, c, d, e, f, g, h) = st;
          (a', b', c', d', e', f', g', h') = foldl sha_round st (zip K256 ws)
      in (a + a', b + b', c + c', d + d', e + e', f + f', g + g', h + h'))"

fun sha_blocks :: "nat \<Rightarrow> hstate \<Rightarrow> bytes \<Rightarrow> hstate" where
  "sha_blocks 0 st m = st"
| "sha_blocks (Suc n) st m = sha_blocks n (compress st (take 64 m)) (drop 64 m)"

definition word_bytes :: "w32 \<Rightarrow> bytes" where
  "word_bytes w = map (\<lambda>i. char_of (uint (drop_bit i w))) [24, 16, 8, 0]"

definition init_state :: hstate where
  "init_state = (H256 ! 0, H256 ! 1, H256 ! 2, H256 ! 3, H256 ! 4, H256 ! 5, H256 ! 6, H256 ! 7)"

definition state_bytes :: "hstate \<Rightarrow> bytes" where
  "state_bytes st =
     (case st of (a, b, c, d, e, f, g, h) \<Rightarrow> concat (map word_bytes [a, b, c, d, e, f, g, h]))"

definition sha256 :: "bytes \<Rightarrow> bytes" where
  "sha256 m = (let p = sha_pad m in state_bytes (sha_blocks (length p div 64) init_state p))"

subsection \<open>The digest interface\<close>

lemma length_sha256 [simp, dig32]: "length (sha256 m) = 32"
proof -
  have "length (word_bytes w) = 4" for w
    by (simp add: word_bytes_def)
  then have "length (state_bytes st) = 32" for st
    by (cases st) (simp add: state_bytes_def split: prod.split)
  then show ?thesis by (simp add: sha256_def Let_def)
qed

text \<open>The padded message is a whole number of 64-byte blocks, so no byte is left out.\<close>

lemma sha_pad_whole: "length (sha_pad m) mod 64 = 0"
proof -
  define r where "r = length m mod 64"
  have "length (sha_pad m) mod 64 = (length m + (9 + (119 - r) mod 64)) mod 64"
    by (simp add: sha_pad_def r_def ac_simps)
  also have "\<dots> = (r + (9 + (119 - r) mod 64)) mod 64"
    by (simp add: r_def mod_add_left_eq)
  also have "\<dots> = (r + 9 + (119 - r)) mod 64"
    by (simp add: mod_add_right_eq add.assoc [symmetric])
  also have "r + 9 + (119 - r) = 128"
  proof -
    have "r < 64" by (simp add: r_def)
    then show ?thesis by simp
  qed
  finally show ?thesis by simp
qed

text \<open>
  What the tree and the chain need of a hash function: digests of one fixed length, and
  an hexadecimal form that reads back.
\<close>

locale digest =
  fixes hash :: "bytes \<Rightarrow> bytes" and size :: nat
  assumes hash_length: "length (hash m) = size"
begin

lemma hex_digest: "DecodeString (EncodeToString (hash m)) = Some (hash m)"
  by (rule hex.dec_enc)

lemma hex_digest_length: "length (EncodeToString (hash m)) = 2 * size"
  by (simp add: hash_length)

lemma concat_cancel: "hash a @ x = hash b @ y \<longleftrightarrow> hash a = hash b \<and> x = y"
  by (rule append_eq_append_conv) (simp add: hash_length)

end

interpretation sha: digest sha256 32
  by unfold_locales (rule length_sha256)

end
