(* ===== verification/Ledger.thy ===== *)
theory Ledger
  imports Contract Sha256
begin

section \<open>The tamper-evident ledger (pkg/contract/harness\_ledger.go)\<close>

text \<open>
  The append-only audit record: its entry type, the canonical JSON of an entry, the hash
  chain (\<^verbatim>\<open>ChainHash\<close>, \<^verbatim>\<open>VerifyChain\<close>), the gate pins and the constructors of entries.
  The main results: \<open>VerifyChain\<close> returns the first broken link, entries linked by the
  writer's rule always verify, and a verified chain is determined by its last hash unless
  SHA-256 collides on the inputs the two chains hash.
\<close>

type_synonym LedgerEventType = string

abbreviation LedgerEventCycleCreated where "LedgerEventCycleCreated \<equiv> ''cycle_created''"
abbreviation LedgerEventAgentTurn where "LedgerEventAgentTurn \<equiv> ''agent_turn''"
abbreviation LedgerEventGatePassed where "LedgerEventGatePassed \<equiv> ''gate_passed''"
abbreviation LedgerEventGateFailed where "LedgerEventGateFailed \<equiv> ''gate_failed''"
abbreviation LedgerEventHandoffCreated where "LedgerEventHandoffCreated \<equiv> ''handoff_created''"
abbreviation LedgerEventCycleHalted where "LedgerEventCycleHalted \<equiv> ''cycle_halted''"
abbreviation LedgerEventCycleCompleted where "LedgerEventCycleCompleted \<equiv> ''cycle_completed''"
abbreviation LedgerEventValidationGreen where "LedgerEventValidationGreen \<equiv> ''validation_green''"
abbreviation LedgerEventActionDenied where "LedgerEventActionDenied \<equiv> ''action_denied''"
abbreviation LedgerEventSecretFlagged where "LedgerEventSecretFlagged \<equiv> ''secret_flagged''"
abbreviation LedgerEventGatesPinned where "LedgerEventGatesPinned \<equiv> ''gates_pinned''"
abbreviation LedgerEventGateTampered where "LedgerEventGateTampered \<equiv> ''gate_tampered''"
abbreviation LedgerEventToolUseDecision where "LedgerEventToolUseDecision \<equiv> ''tooluse_decision''"
abbreviation LedgerEventClaimRegistered where "LedgerEventClaimRegistered \<equiv> ''claim_registered''"
abbreviation LedgerEventClaimVerified where "LedgerEventClaimVerified \<equiv> ''claim_verified''"
abbreviation LedgerEventClaimFalsified where "LedgerEventClaimFalsified \<equiv> ''claim_falsified''"

definition LedgerSchemaVersion :: string where
  "LedgerSchemaVersion = ''1''"

record HarnessLedgerEntry =
  le_SchemaVersion :: string
  le_At :: int
  le_CycleID :: string
  le_Type :: LedgerEventType
  le_Agent :: string
  le_HandoffTo :: string
  le_Gate :: string
  le_Summary :: string
  le_Files :: "string list"
  le_WorkContract :: "WorkContract option"
  le_PrevHash :: string
  le_Hash :: string

definition LedgerGenesisHash :: string where
  "LedgerGenesisHash = ''0000000000000000000000000000000000000000000000000000000000000000''"

subsection \<open>Canonical JSON\<close>

text \<open>
  A list stands for a slice that is not nil: the agents of a configuration whose slice is nil would
  print as \<^verbatim>\<open>null\<close>. The slices marked \<^verbatim>\<open>omitempty\<close> are left out when empty or nil alike.
\<close>

definition OrchestratorConfig_json :: "OrchestratorConfig \<Rightarrow> json" where
  "OrchestratorConfig_json c = JObj (
     [(''agents'', JArr (map JStr (oc_Agents c)))] @
     omit_str ''pattern'' (oc_Pattern c) @ omit_int ''reset_every'' (oc_ResetEvery c) @
     omit_str ''repo_url'' (oc_RepoURL c) @ omit_str ''working_dir'' (oc_WorkingDir c) @
     omit_int ''max_lifetime_turns'' (oc_MaxLifetimeTurns c))"

definition WorkContract_json :: "WorkContract \<Rightarrow> json" where
  "WorkContract_json w = JObj (
     [(''objective'', JStr (wc_Objective w))] @ omit_str ''repo_root'' (wc_RepoRoot w) @
     omit_str ''branch'' (wc_Branch w) @ omit_arr ''pending_files'' (map JStr (wc_PendingFiles w)) @
     omit_arr ''local_gates'' (map JStr (wc_LocalGates w)) @ omit_int ''max_cycles'' (wc_MaxCycles w) @
     omit_int ''max_duration_minutes'' (wc_MaxDurationMinutes w) @
     omit_bool ''auto_goal'' (wc_AutoGoal w) @
     omit_opt ''orchestrator'' (map_option OrchestratorConfig_json (wc_Orchestrator w)))"

definition HarnessLedgerEntry_fields :: "HarnessLedgerEntry \<Rightarrow> (string \<times> json) list" where
  "HarnessLedgerEntry_fields e =
     [(''schema_version'', JStr (le_SchemaVersion e)), (''at'', JInt (le_At e)),
      (''cycle_id'', JStr (le_CycleID e)), (''type'', JStr (le_Type e))] @
     omit_str ''agent'' (le_Agent e) @ omit_str ''handoff_to'' (le_HandoffTo e) @
     omit_str ''gate'' (le_Gate e) @ omit_str ''summary'' (le_Summary e) @
     omit_arr ''files'' (map JStr (le_Files e)) @
     omit_opt ''work_contract'' (map_option WorkContract_json (le_WorkContract e)) @
     omit_str ''prev_hash'' (le_PrevHash e) @ omit_str ''hash'' (le_Hash e)"

definition HarnessLedgerEntry_json :: "HarnessLedgerEntry \<Rightarrow> json" where
  "HarnessLedgerEntry_json e = JObj (HarnessLedgerEntry_fields e)"

text \<open>
  \<^verbatim>\<open>ChainHash\<close>. \<^verbatim>\<open>json.Marshal\<close> of this struct (strings, integers, slices and structs of
  them) has no error case, so the error result is left out.
\<close>

definition chain_input :: "HarnessLedgerEntry \<Rightarrow> string \<Rightarrow> bytes" where
  "chain_input e prevHash = jprint (HarnessLedgerEntry_json (e\<lparr>le_Hash := []\<rparr>)) @ prevHash"

definition ChainHash :: "HarnessLedgerEntry \<Rightarrow> string \<Rightarrow> string" where
  "ChainHash e prevHash = EncodeToString (sha256 (chain_input e prevHash))"

subsection \<open>Verification of the chain\<close>

abbreviation NoBrokenLink where "NoBrokenLink \<equiv> - 1 :: int"

fun VerifyChain_from :: "string \<Rightarrow> nat \<Rightarrow> HarnessLedgerEntry list \<Rightarrow> int \<times> bool" where
  "VerifyChain_from prev i [] = (NoBrokenLink, True)"
| "VerifyChain_from prev i (e # es) =
     (if le_PrevHash e \<noteq> prev then (int i, False)
      else if le_Hash e \<noteq> ChainHash e (le_PrevHash e) then (int i, False)
      else VerifyChain_from (le_Hash e) (Suc i) es)"

definition VerifyChain :: "HarnessLedgerEntry list \<Rightarrow> int \<times> bool" where
  "VerifyChain entries = VerifyChain_from LedgerGenesisHash 0 entries"

subsection \<open>Constructors of entries\<close>

definition NewHarnessLedgerEntry ::
  "int \<Rightarrow> string \<Rightarrow> LedgerEventType \<Rightarrow> string \<Rightarrow> string list \<Rightarrow> HarnessLedgerEntry" where
  "NewHarnessLedgerEntry at cycleID typ summary files =
     \<lparr>le_SchemaVersion = LedgerSchemaVersion, le_At = at, le_CycleID = cycleID, le_Type = typ,
      le_Agent = [], le_HandoffTo = [], le_Gate = [], le_Summary = summary, le_Files = files,
      le_WorkContract = None, le_PrevHash = [], le_Hash = []\<rparr>"

definition NewGateLedgerEntry :: "int \<Rightarrow> string \<Rightarrow> GateReport \<Rightarrow> HarnessLedgerEntry" where
  "NewGateLedgerEntry at cycleID report =
     (let eventType = (if gr_Passed report then LedgerEventGatePassed else LedgerEventGateFailed);
          entry = (NewHarnessLedgerEntry at cycleID eventType (gr_Stderr report) [])
                    \<lparr>le_Gate := gr_Gate report\<rparr>
      in if gr_Passed report then entry\<lparr>le_Summary := gr_Stdout report\<rparr> else entry)"

definition NewAgentTurnLedgerEntry ::
  "int \<Rightarrow> string \<Rightarrow> string \<Rightarrow> TurnResponse \<Rightarrow> HarnessLedgerEntry" where
  "NewAgentTurnLedgerEntry at cycleID agent resp =
     (NewHarnessLedgerEntry at cycleID LedgerEventAgentTurn (tr_Summary resp) (tr_Artifacts resp))
       \<lparr>le_Agent := agent\<rparr>"

definition NewHandoffLedgerEntry ::
  "int \<Rightarrow> string \<Rightarrow> string \<Rightarrow> TurnResponse \<Rightarrow> HarnessLedgerEntry" where
  "NewHandoffLedgerEntry at cycleID agent resp =
     (NewHarnessLedgerEntry at cycleID LedgerEventHandoffCreated (tr_Summary resp) (tr_Artifacts resp))
       \<lparr>le_Agent := agent, le_HandoffTo := tr_HandoffTo resp\<rparr>"

subsection \<open>Gate pins\<close>

record GatePin =
  gp_Name :: string
  gp_CommandHash :: string

definition PinGates :: "string list \<Rightarrow> string \<times> GatePin list" where
  "PinGates commands =
     (EncodeToString (sha256 (Join commands [CHR 0x0A])),
      map (\<lambda>cmd. \<lparr>gp_Name = ''cmd:'' @ cmd, gp_CommandHash = EncodeToString (sha256 cmd)\<rparr>) commands)"

definition GatesTampered :: "string \<Rightarrow> string list \<Rightarrow> bool" where
  "GatesTampered pinnedDigest current = (fst (PinGates current) \<noteq> pinnedDigest)"

definition NewGatesPinnedEntry ::
  "int \<Rightarrow> string \<Rightarrow> string \<Rightarrow> GatePin list \<Rightarrow> bool \<Rightarrow> HarnessLedgerEntry" where
  "NewGatesPinnedEntry at cycleID dgst pins tampered =
     (let typ = (if tampered then LedgerEventGateTampered else LedgerEventGatesPinned);
          summaryPrefix = (if tampered then ''gate set tampered: live digest differs from pinned''
                           else ''gates pinned'');
          summary = summaryPrefix @ '': digest='' @ dgst @ '' count='' @ show_nat (length pins)
      in (NewHarnessLedgerEntry at cycleID typ summary [])
           \<lparr>le_Files := map (\<lambda>p. gp_Name p @ ''='' @ gp_CommandHash p) pins\<rparr>)"

subsection \<open>The canonical form determines the entry\<close>

lemma omit_map_of [simp]:
  "map_of (omit_str k v) k' = (if v = [] \<or> k' \<noteq> k then None else Some (JStr v))"
  "map_of (omit_int k i) k' = (if i = 0 \<or> k' \<noteq> k then None else Some (JInt i))"
  "map_of (omit_bool k b) k' = (if \<not> b \<or> k' \<noteq> k then None else Some (JBool b))"
  "map_of (omit_arr k js) k' = (if js = [] \<or> k' \<noteq> k then None else Some (JArr js))"
  "map_of (omit_opt k jo) k' = (if k' \<noteq> k then None else jo)"
  by (auto simp: omit_str_def omit_int_def omit_bool_def omit_arr_def omit_opt_def
      split: option.splits)

lemma map_JStr_inj [simp]: "map JStr xs = map JStr ys \<longleftrightarrow> xs = ys"
  by (auto simp: inj_map_eq_map inj_def)

lemma OrchestratorConfig_json_inj:
  assumes "OrchestratorConfig_json c = OrchestratorConfig_json d"
  shows "c = d"
proof -
  define F where "F c = (case OrchestratorConfig_json c of JObj fs \<Rightarrow> map_of fs)" for c
  from assms have eq: "F c = F d" by (simp add: F_def)
  have F: "F c = map_of ([(''agents'', JArr (map JStr (oc_Agents c)))] @
     omit_str ''pattern'' (oc_Pattern c) @ omit_int ''reset_every'' (oc_ResetEvery c) @
     omit_str ''repo_url'' (oc_RepoURL c) @ omit_str ''working_dir'' (oc_WorkingDir c) @
     omit_int ''max_lifetime_turns'' (oc_MaxLifetimeTurns c))" for c
    by (simp add: F_def OrchestratorConfig_json_def)
  have "oc_Agents c = oc_Agents d"
    using fun_cong [OF eq, of "''agents''"] by (simp add: F)
  moreover have "oc_Pattern c = oc_Pattern d"
    using fun_cong [OF eq, of "''pattern''"] by (auto simp: F map_add_def split: if_splits)
  moreover have "oc_ResetEvery c = oc_ResetEvery d"
    using fun_cong [OF eq, of "''reset_every''"] by (auto simp: F map_add_def split: if_splits)
  moreover have "oc_RepoURL c = oc_RepoURL d"
    using fun_cong [OF eq, of "''repo_url''"] by (auto simp: F map_add_def split: if_splits)
  moreover have "oc_WorkingDir c = oc_WorkingDir d"
    using fun_cong [OF eq, of "''working_dir''"] by (auto simp: F map_add_def split: if_splits)
  moreover have "oc_MaxLifetimeTurns c = oc_MaxLifetimeTurns d"
    using fun_cong [OF eq, of "''max_lifetime_turns''"]
    by (auto simp: F map_add_def split: if_splits)
  ultimately show ?thesis by simp
qed

lemma map_option_inj_eq:
  assumes "\<And>x y. f x = f y \<Longrightarrow> x = y"
  shows "map_option f a = map_option f b \<longleftrightarrow> a = b"
  using assms by (cases a; cases b) auto

lemma WorkContract_json_inj:
  assumes "WorkContract_json w = WorkContract_json x"
  shows "w = x"
proof -
  define F where "F w = (case WorkContract_json w of JObj fs \<Rightarrow> map_of fs)" for w
  from assms have eq: "F w = F x" by (simp add: F_def)
  have F: "F w = map_of ([(''objective'', JStr (wc_Objective w))] @ omit_str ''repo_root'' (wc_RepoRoot w) @
     omit_str ''branch'' (wc_Branch w) @ omit_arr ''pending_files'' (map JStr (wc_PendingFiles w)) @
     omit_arr ''local_gates'' (map JStr (wc_LocalGates w)) @ omit_int ''max_cycles'' (wc_MaxCycles w) @
     omit_int ''max_duration_minutes'' (wc_MaxDurationMinutes w) @
     omit_bool ''auto_goal'' (wc_AutoGoal w) @
     omit_opt ''orchestrator'' (map_option OrchestratorConfig_json (wc_Orchestrator w)))" for w
    by (simp add: F_def WorkContract_json_def)
  have "wc_Objective w = wc_Objective x"
    using fun_cong [OF eq, of "''objective''"] by (simp add: F map_add_def)
  moreover have "wc_RepoRoot w = wc_RepoRoot x"
    using fun_cong [OF eq, of "''repo_root''"] by (auto simp: F map_add_def split: if_splits)
  moreover have "wc_Branch w = wc_Branch x"
    using fun_cong [OF eq, of "''branch''"] by (auto simp: F map_add_def split: if_splits)
  moreover have "wc_PendingFiles w = wc_PendingFiles x"
    using fun_cong [OF eq, of "''pending_files''"] by (auto simp: F map_add_def split: if_splits)
  moreover have "wc_LocalGates w = wc_LocalGates x"
    using fun_cong [OF eq, of "''local_gates''"] by (auto simp: F map_add_def split: if_splits)
  moreover have "wc_MaxCycles w = wc_MaxCycles x"
    using fun_cong [OF eq, of "''max_cycles''"] by (auto simp: F map_add_def split: if_splits)
  moreover have "wc_MaxDurationMinutes w = wc_MaxDurationMinutes x"
    using fun_cong [OF eq, of "''max_duration_minutes''"]
    by (auto simp: F map_add_def split: if_splits)
  moreover have "wc_AutoGoal w = wc_AutoGoal x"
    using fun_cong [OF eq, of "''auto_goal''"] by (auto simp: F map_add_def split: if_splits)
  moreover have "wc_Orchestrator w = wc_Orchestrator x"
    using fun_cong [OF eq, of "''orchestrator''"]
    by (simp add: F map_add_def map_option_inj_eq [OF OrchestratorConfig_json_inj]
        del: map_option_eq_Some split: option.splits)
  ultimately show ?thesis by simp
qed


lemma HarnessLedgerEntry_fields_inj:
  assumes "HarnessLedgerEntry_fields e = HarnessLedgerEntry_fields f"
  shows "e = f"
proof -
  have eq: "map_of (HarnessLedgerEntry_fields e) k = map_of (HarnessLedgerEntry_fields f) k" for k
    using assms by simp
  note U = HarnessLedgerEntry_fields_def map_add_def
  have "le_SchemaVersion e = le_SchemaVersion f"
    using eq [of "''schema_version''"] by (simp add: U)
  moreover have "le_At e = le_At f"
    using eq [of "''at''"] by (simp add: U)
  moreover have "le_CycleID e = le_CycleID f"
    using eq [of "''cycle_id''"] by (simp add: U)
  moreover have "le_Type e = le_Type f"
    using eq [of "''type''"] by (simp add: U)
  moreover have "le_Agent e = le_Agent f"
    using eq [of "''agent''"] by (auto simp: U split: if_splits)
  moreover have "le_HandoffTo e = le_HandoffTo f"
    using eq [of "''handoff_to''"] by (auto simp: U split: if_splits)
  moreover have "le_Gate e = le_Gate f"
    using eq [of "''gate''"] by (auto simp: U split: if_splits)
  moreover have "le_Summary e = le_Summary f"
    using eq [of "''summary''"] by (auto simp: U split: if_splits)
  moreover have "le_Files e = le_Files f"
    using eq [of "''files''"] by (auto simp: U split: if_splits)
  moreover have "le_WorkContract e = le_WorkContract f"
    using eq [of "''work_contract''"]
    by (auto simp: U dest: WorkContract_json_inj split: option.splits)
  moreover have "le_PrevHash e = le_PrevHash f"
    using eq [of "''prev_hash''"] by (auto simp: U split: if_splits)
  moreover have "le_Hash e = le_Hash f"
    using eq [of "''hash''"] by (auto simp: U split: if_splits)
  ultimately show ?thesis by simp
qed

text \<open>
  Entries whose strings are valid UTF-8: \<^verbatim>\<open>json.Marshal\<close> replaces an invalid byte, so only
  on these is the canonical form faithful.
\<close>

definition wf_oc :: "OrchestratorConfig \<Rightarrow> bool" where
  "wf_oc c \<longleftrightarrow> list_all valid_utf8 (oc_Agents c) \<and>
     list_all valid_utf8 [oc_Pattern c, oc_RepoURL c, oc_WorkingDir c]"

definition wf_wc :: "WorkContract \<Rightarrow> bool" where
  "wf_wc w \<longleftrightarrow> list_all valid_utf8 [wc_Objective w, wc_RepoRoot w, wc_Branch w] \<and>
     list_all valid_utf8 (wc_PendingFiles w) \<and> list_all valid_utf8 (wc_LocalGates w) \<and>
     pred_option wf_oc (wc_Orchestrator w)"

definition wf_entry :: "HarnessLedgerEntry \<Rightarrow> bool" where
  "wf_entry e \<longleftrightarrow>
     list_all valid_utf8 [le_SchemaVersion e, le_CycleID e, le_Type e, le_Agent e, le_HandoffTo e,
       le_Gate e, le_Summary e, le_PrevHash e] \<and>
     list_all valid_utf8 (le_Files e) \<and> pred_option wf_wc (le_WorkContract e)"

lemma omit_valid:
  "valid_utf8 k \<Longrightarrow> valid_utf8 v \<Longrightarrow> jvalid (JObj (omit_str k v))"
  "valid_utf8 k \<Longrightarrow> jvalid (JObj (omit_int k i))"
  "valid_utf8 k \<Longrightarrow> jvalid (JObj (omit_bool k b))"
  "valid_utf8 k \<Longrightarrow> list_all jvalid js \<Longrightarrow> jvalid (JObj (omit_arr k js))"
  "valid_utf8 k \<Longrightarrow> pred_option jvalid jo \<Longrightarrow> jvalid (JObj (omit_opt k jo))"
  by (auto simp: omit_str_def omit_int_def omit_bool_def omit_arr_def omit_opt_def
      split: option.splits)

lemma jvalid_append: "jvalid (JObj (fs @ gs)) \<longleftrightarrow> jvalid (JObj fs) \<and> jvalid (JObj gs)"
  by simp

lemma jvalid_JStrs [simp]: "list_all jvalid (map JStr xs) \<longleftrightarrow> list_all valid_utf8 xs"
  by (simp add: list_all_iff)

lemma low_valid [simp]: "\<not> high c \<Longrightarrow> valid_utf8 (c # s) \<longleftrightarrow> valid_utf8 s"
  by simp

lemma pred_map_option_imp:
  "pred_option P x \<Longrightarrow> (\<And>y. P y \<Longrightarrow> Q (f y)) \<Longrightarrow> pred_option Q (map_option f x)"
  by (cases x) auto

lemma wf_oc_jvalid: "wf_oc c \<Longrightarrow> jvalid (OrchestratorConfig_json c)"
  unfolding OrchestratorConfig_json_def wf_oc_def jvalid_append
  by (intro conjI omit_valid) (simp_all add: high_def)

lemma wf_wc_jvalid: "wf_wc w \<Longrightarrow> jvalid (WorkContract_json w)"
  unfolding WorkContract_json_def wf_wc_def jvalid_append
  by (intro conjI omit_valid) (auto simp: high_def intro: pred_map_option_imp wf_oc_jvalid)

lemma wf_entry_jvalid: "wf_entry e \<Longrightarrow> jvalid (JObj (HarnessLedgerEntry_fields (e\<lparr>le_Hash := []\<rparr>)))"
  unfolding HarnessLedgerEntry_fields_def wf_entry_def jvalid_append
  by (intro conjI omit_valid) (auto simp: high_def intro: pred_map_option_imp wf_wc_jvalid)

lemma chain_input_inj:
  assumes "chain_input e p = chain_input f q" "wf_entry e" "wf_entry f"
  shows "e\<lparr>le_Hash := []\<rparr> = f\<lparr>le_Hash := []\<rparr> \<and> p = q"
  using jprint_JObj_cancel [OF _ wf_entry_jvalid wf_entry_jvalid, of e p f q] assms
    HarnessLedgerEntry_fields_inj
  by (auto simp: chain_input_def HarnessLedgerEntry_json_def)

subsection \<open>Links\<close>

definition link_ok :: "string \<Rightarrow> HarnessLedgerEntry \<Rightarrow> bool" where
  "link_ok prev e \<longleftrightarrow> le_PrevHash e = prev \<and> le_Hash e = ChainHash e prev"

definition tail_hash :: "HarnessLedgerEntry list \<Rightarrow> string" where
  "tail_hash es = (if es = [] then LedgerGenesisHash else le_Hash (last es))"

abbreviation chain_intact :: "HarnessLedgerEntry list \<Rightarrow> bool" where
  "chain_intact es \<equiv> VerifyChain es = (NoBrokenLink, True)"

lemma VerifyChain_from_spec:
  "VerifyChain_from prev k es = (b, ok) \<longleftrightarrow>
     (let link = (\<lambda>i. link_ok (if i = 0 then prev else le_Hash (es ! (i - 1))) (es ! i)) in
      if \<forall>i < length es. link i then b = NoBrokenLink \<and> ok
      else \<not> ok \<and> (\<exists>i < length es. b = int (k + i) \<and> \<not> link i \<and> (\<forall>j < i. link j)))"
proof (induction es arbitrary: prev k)
  case (Cons e es)
  define L where "L i = link_ok (if i = 0 then prev else le_Hash ((e # es) ! (i - 1))) ((e # es) ! i)" for i
  define M where "M i = link_ok (if i = 0 then le_Hash e else le_Hash (es ! (i - 1))) (es ! i)" for i
  have LM: "L (Suc i) = M i" for i
    by (cases i) (simp_all add: L_def M_def)
  have L0: "L 0 \<longleftrightarrow> le_PrevHash e = prev \<and> le_Hash e = ChainHash e (le_PrevHash e)"
    by (auto simp: L_def link_ok_def)
  have all: "(\<forall>i < length (e # es). L i) \<longleftrightarrow> L 0 \<and> (\<forall>i < length es. M i)"
    by (simp add: All_less_Suc2 LM)
  show ?case
  proof (cases "L 0")
    case False
    then have "VerifyChain_from prev k (e # es) = (int k, False)"
      by (auto simp: L0)
    moreover have "(\<exists>i < length (e # es). b = int (k + i) \<and> \<not> L i \<and> (\<forall>j < i. L j)) \<longleftrightarrow> b = int k"
      using False by (auto intro: exI [of _ 0]) (metis gr0I)
    ultimately show ?thesis
      using False all by (auto simp: Let_def L_def [symmetric])
  next
    case True
    have "(\<exists>i < length (e # es). b = int (k + i) \<and> \<not> L i \<and> (\<forall>j < i. L j)) \<longleftrightarrow>
          (\<exists>i < length es. b = int (Suc k + i) \<and> \<not> M i \<and> (\<forall>j < i. M j))"
      using True by (auto simp: Ex_less_Suc2 All_less_Suc2 LM)
    moreover have "VerifyChain_from prev k (e # es) = VerifyChain_from (le_Hash e) (Suc k) es"
      using True by (simp add: L0)
    ultimately show ?thesis
      using Cons.IH [of "le_Hash e" "Suc k"] True all
      by (simp add: Let_def L_def [symmetric] M_def [symmetric]) blast
  qed
qed auto

lemma VerifyChain_from_append:
  "VerifyChain_from prev k (es @ [e]) = (NoBrokenLink, True) \<longleftrightarrow>
   VerifyChain_from prev k es = (NoBrokenLink, True) \<and>
   link_ok (if es = [] then prev else le_Hash (last es)) e"
  by (induction es arbitrary: prev k) (auto simp: link_ok_def)

lemma chain_intact_append:
  "chain_intact (es @ [e]) \<longleftrightarrow> chain_intact es \<and> link_ok (tail_hash es) e"
  by (simp add: VerifyChain_def VerifyChain_from_append tail_hash_def)

lemma chain_intact_Nil [simp]: "chain_intact []"
  by (simp add: VerifyChain_def)

lemma chain_intact_prefix: "chain_intact (es @ fs) \<Longrightarrow> chain_intact es"
  by (induction fs rule: rev_induct) (auto simp: chain_intact_append simp flip: append_assoc)

lemma chain_intact_cases: "chain_intact es \<or> snd (VerifyChain es) = False"
proof -
  obtain b ok where "VerifyChain es = (b, ok)" by force
  then show ?thesis
    using VerifyChain_from_spec [of LedgerGenesisHash 0 es b ok]
    by (auto simp: VerifyChain_def Let_def split: if_splits)
qed

text \<open>The writer's rule: take the tail hash as predecessor and hash the result.\<close>

definition link_entry :: "string \<Rightarrow> HarnessLedgerEntry \<Rightarrow> HarnessLedgerEntry" where
  "link_entry prev e =
     (let e' = e\<lparr>le_PrevHash := prev\<rparr> in e'\<lparr>le_Hash := ChainHash e' prev\<rparr>)"

lemma ChainHash_ignores_Hash [simp]: "ChainHash (e\<lparr>le_Hash := h\<rparr>) p = ChainHash e p"
  by (simp add: ChainHash_def chain_input_def)

lemma link_entry_ok: "link_ok prev (link_entry prev e)"
  by (simp add: link_ok_def link_entry_def Let_def)

definition chain_inputs :: "HarnessLedgerEntry list \<Rightarrow> bytes set" where
  "chain_inputs es = (\<lambda>e. chain_input e (le_PrevHash e)) ` set es"

lemma entry_eq_mod_Hash:
  assumes "e\<lparr>le_Hash := []\<rparr> = f\<lparr>le_Hash := []\<rparr>" "le_Hash e = le_Hash f"
  shows "e = (f :: HarnessLedgerEntry)"
proof -
  have "(e\<lparr>le_Hash := []\<rparr>)\<lparr>le_Hash := le_Hash e\<rparr> = (f\<lparr>le_Hash := []\<rparr>)\<lparr>le_Hash := le_Hash f\<rparr>"
    by (rule arg_cong2 [OF assms(1,2), of "\<lambda>x h. x\<lparr>le_Hash := h\<rparr>"])
  then show ?thesis by simp
qed

lemma link_ok_hash_eq:
  assumes "link_ok p e" "link_ok q f" "le_Hash e = le_Hash f" "wf_entry e" "wf_entry f"
    and "inj_on sha256 {chain_input e p, chain_input f q}"
  shows "e = f \<and> p = q"
proof -
  from assms(1-3) have "sha256 (chain_input e p) = sha256 (chain_input f q)"
    by (simp add: link_ok_def ChainHash_def)
  then have "chain_input e p = chain_input f q"
    by (rule inj_onD [OF assms(6)]) simp_all
  from chain_input_inj [OF this assms(4,5)]
  have "e\<lparr>le_Hash := []\<rparr> = f\<lparr>le_Hash := []\<rparr>" "p = q" by auto
  with assms(3) show ?thesis by (simp add: entry_eq_mod_Hash)
qed

lemma tail_hash_take:
  "i < length es \<Longrightarrow> tail_hash (take (Suc i) es) = le_Hash (es ! i)"
  by (simp add: tail_hash_def take_Suc_conv_app_nth)

lemma VerifyChain_links:
  "VerifyChain es = (b, ok) \<longleftrightarrow>
     (let link = (\<lambda>i. link_ok (tail_hash (take i es)) (es ! i)) in
      if \<forall>i < length es. link i then b = NoBrokenLink \<and> ok
      else \<not> ok \<and> (\<exists>i < length es. b = int i \<and> \<not> link i \<and> (\<forall>j < i. link j)))"
proof -
  define L where "L i = link_ok (if i = 0 then LedgerGenesisHash else le_Hash (es ! (i - 1))) (es ! i)" for i
  define M where "M i = link_ok (tail_hash (take i es)) (es ! i)" for i
  have eq: "L i = M i" if "i < length es" for i
    using that by (cases i) (simp_all add: L_def M_def tail_hash_take, simp add: tail_hash_def)
  have "(\<forall>i < length es. L i) \<longleftrightarrow> (\<forall>i < length es. M i)"
    using eq by blast
  moreover have "(\<exists>i < length es. b = int i \<and> \<not> L i \<and> (\<forall>j < i. L j)) \<longleftrightarrow>
        (\<exists>i < length es. b = int i \<and> \<not> M i \<and> (\<forall>j < i. M j))"
    using eq less_trans by blast
  moreover have "VerifyChain es = (b, ok) \<longleftrightarrow>
      (if \<forall>i < length es. L i then b = NoBrokenLink \<and> ok
       else \<not> ok \<and> (\<exists>i < length es. b = int i \<and> \<not> L i \<and> (\<forall>j < i. L j)))"
    using VerifyChain_from_spec [of LedgerGenesisHash 0 es b ok]
    by (simp only: VerifyChain_def L_def [symmetric] Let_def add_0)
  ultimately show ?thesis by (simp only: M_def [symmetric] Let_def)
qed

lemma chain_intact_links:
  "chain_intact es \<longleftrightarrow> (\<forall>i < length es. link_ok (tail_hash (take i es)) (es ! i))"
  using VerifyChain_links [of es NoBrokenLink True] by (simp add: Let_def)

lemma VerifyChain_at:
  assumes "i < length es" "\<not> link_ok (tail_hash (take i es)) (es ! i)"
    and "\<And>j. j < i \<Longrightarrow> link_ok (tail_hash (take j es)) (es ! j)"
  shows "VerifyChain es = (int i, False)"
  using VerifyChain_links [of es "int i" False] assms by (auto simp: Let_def)

lemma linked_pair_intact: "chain_intact [link_entry LedgerGenesisHash e, link_entry (le_Hash (link_entry LedgerGenesisHash e)) f]"
  using chain_intact_append [of "[]"] chain_intact_append [of "[link_entry LedgerGenesisHash e]"]
  by (simp add: tail_hash_def link_entry_ok)

lemma linked_Hash_nonempty: "link_ok p e \<Longrightarrow> e\<lparr>le_Hash := []\<rparr> \<noteq> e"
proof
  assume ok: "link_ok p e" and "e\<lparr>le_Hash := []\<rparr> = e"
  then have "le_Hash (e\<lparr>le_Hash := []\<rparr>) = le_Hash e" by (simp only:)
  moreover from ok have "length (le_Hash e) = 64" by (simp add: link_ok_def ChainHash_def)
  ultimately show False by simp
qed

subsection \<open>Properties\<close>

text \<open>
  (C1) \<^verbatim>\<open>VerifyChain\<close> reports the FIRST entry whose \<^verbatim>\<open>PrevHash\<close> does not link to its
  predecessor or whose \<^verbatim>\<open>Hash\<close> is not the recomputed one; it answers
  \<^verbatim>\<open>(NoBrokenLink, true)\<close> exactly when there is no such entry.
\<close>

theorem VerifyChain_first_broken:
  "VerifyChain es =
     (let broken = {i. i < length es \<and> \<not> link_ok (tail_hash (take i es)) (es ! i)}
      in if broken = {} then (NoBrokenLink, True) else (int (Min broken), False))"
proof -
  define broken where "broken = {i. i < length es \<and> \<not> link_ok (tail_hash (take i es)) (es ! i)}"
  have fin: "finite broken" by (simp add: broken_def)
  have "VerifyChain es = (if broken = {} then (NoBrokenLink, True) else (int (Min broken), False))"
  proof (cases "broken = {}")
    case True
    then show ?thesis using VerifyChain_links [of es NoBrokenLink True] by (auto simp: broken_def)
  next
    case False
    define M where "M = Min broken"
    have "M \<in> broken" unfolding M_def using fin False by (rule Min_in)
    then have M: "M < length es" "\<not> link_ok (tail_hash (take M es)) (es ! M)" by (simp_all add: broken_def)
    have least: "link_ok (tail_hash (take j es)) (es ! j)" if "j < M" for j
    proof (rule ccontr)
      assume "\<not> link_ok (tail_hash (take j es)) (es ! j)"
      with that M(1) have "j \<in> broken" by (simp add: broken_def)
      with Min_le [OF fin this] that show False by (simp add: M_def)
    qed
    have "\<exists>i < length es. int M = int i \<and> \<not> link_ok (tail_hash (take i es)) (es ! i) \<and>
        (\<forall>j < i. link_ok (tail_hash (take j es)) (es ! j))"
      using M least by blast
    moreover have "\<not> (\<forall>i < length es. link_ok (tail_hash (take i es)) (es ! i))" using M by blast
    ultimately have "VerifyChain es = (int M, False)"
      by (simp only: VerifyChain_links Let_def if_False not_False_eq_True True_implies_equals simp_thms)
    then show ?thesis using False by (simp add: M_def)
  qed
  then show ?thesis by (simp add: broken_def)
qed

text \<open>
  (C2) Tamper evidence: in a chain that verifies, replacing any entry but the last by a
  different one breaks the chain at that entry or at the next one, whatever hash the
  replacement carries, unless SHA-256 gives the two entries' canonical forms one digest.
\<close>

theorem tampering_breaks_chain:
  assumes "chain_intact es" and "Suc i < length es" and "e' \<noteq> es ! i"
    and "wf_entry (es ! i)" and "wf_entry e'"
    and "inj_on sha256 {chain_input (es ! i) (le_PrevHash (es ! i)), chain_input e' (le_PrevHash e')}"
  shows "VerifyChain (es[i := e']) \<in> {(int i, False), (int i + 1, False)}"
proof -
  have link: "link_ok (tail_hash (take j es)) (es ! j)" if "j < length es" for j
    using chain_intact_links [of es] assms(1) that by simp
  define fs where "fs = es[i := e']"
  have pre: "link_ok (tail_hash (take j fs)) (fs ! j)" if "j < i" for j
    using link [of j] that assms(2) by (simp add: fs_def)
  have i: "fs ! i = e'" "take i fs = take i es" "fs ! Suc i = es ! Suc i"
    "tail_hash (take (Suc i) fs) = le_Hash e'" "tail_hash (take (Suc i) es) = le_Hash (es ! i)"
    using assms(2) by (simp_all add: fs_def tail_hash_take)
  have "VerifyChain fs = (int i, False)" if "\<not> link_ok (tail_hash (take i fs)) (fs ! i)"
    using VerifyChain_at [OF _ that] pre assms(2) by (simp add: fs_def)
  moreover have "VerifyChain fs = (int (Suc i), False)" if ok: "link_ok (tail_hash (take i fs)) (fs ! i)"
  proof (rule VerifyChain_at)
    have "le_Hash e' \<noteq> le_Hash (es ! i)"
      using link_ok_hash_eq [of _ e' _ "es ! i"] ok link [of i] i assms(2-) by (auto simp: link_ok_def insert_commute)
    then show "\<not> link_ok (tail_hash (take (Suc i) fs)) (fs ! Suc i)"
      using link [OF assms(2)] i by (simp add: link_ok_def)
  qed (use assms(2) ok pre in \<open>auto simp: fs_def less_Suc_eq\<close>)
  ultimately show ?thesis
    by (cases "link_ok (tail_hash (take i fs)) (fs ! i)") (simp_all add: fs_def [symmetric])
qed

theorem tampering_breaks_chain_witness:
  "let a = link_entry LedgerGenesisHash (NewHarnessLedgerEntry 1 ''c'' LedgerEventAgentTurn ''s'' []);
       b = link_entry (le_Hash a) (NewHarnessLedgerEntry 2 ''c'' LedgerEventHandoffCreated ''t'' [])
   in VerifyChain [a\<lparr>le_Hash := []\<rparr>, b] \<in> {(0, False), (1, False)}"
proof -
  define a where "a = link_entry LedgerGenesisHash (NewHarnessLedgerEntry 1 ''c'' LedgerEventAgentTurn ''s'' [])"
  define b where "b = link_entry (le_Hash a) (NewHarnessLedgerEntry 2 ''c'' LedgerEventHandoffCreated ''t'' [])"
  have intact: "chain_intact [a, b]"
    unfolding a_def b_def by (rule linked_pair_intact)
  have ne: "a\<lparr>le_Hash := []\<rparr> \<noteq> a"
    by (rule linked_Hash_nonempty [of LedgerGenesisHash]) (simp add: a_def link_entry_ok)
  have wf: "wf_entry a" "wf_entry (a\<lparr>le_Hash := []\<rparr>)"
    by (simp_all add: a_def link_entry_def Let_def NewHarnessLedgerEntry_def wf_entry_def
        LedgerSchemaVersion_def LedgerGenesisHash_def high_def)
  have "VerifyChain ([a, b][0 := a\<lparr>le_Hash := []\<rparr>]) \<in> {(int 0, False), (int 0 + 1, False)}"
    by (rule tampering_breaks_chain) (use intact ne wf in \<open>simp_all add: chain_input_def\<close>)
  then show ?thesis by (simp add: Let_def a_def b_def)
qed

text \<open>
  The tail hash commits to the whole history: two chains of the same length that both
  verify and end in the same hash are equal, unless SHA-256 collides on the canonical
  forms they hash.
\<close>

theorem tail_hash_binds_history:
  assumes "chain_intact es" and "chain_intact fs" and "length es = length fs"
    and "tail_hash es = tail_hash fs"
    and "list_all wf_entry es" and "list_all wf_entry fs"
    and "inj_on sha256 (chain_inputs es \<union> chain_inputs fs)"
  shows "es = fs"
  using assms
proof (induction es arbitrary: fs rule: rev_induct)
  case (snoc e es)
  then obtain gs g where fs: "fs = gs @ [g]" "length gs = length es"
    by (metis length_append_singleton length_Suc_conv_rev)
  from snoc.prems(1,2) have ok: "link_ok (tail_hash es) e" "link_ok (tail_hash gs) g"
    and intact: "chain_intact es" "chain_intact gs"
    by (auto simp: fs(1) chain_intact_append)
  have sub: "{chain_input e (tail_hash es), chain_input g (tail_hash gs)}
       \<subseteq> chain_inputs (es @ [e]) \<union> chain_inputs fs"
    using ok by (simp add: fs(1) chain_inputs_def link_ok_def)
  have eq: "e = g" "tail_hash es = tail_hash gs"
    using link_ok_hash_eq [OF ok, OF _ _ _ inj_on_subset [OF snoc.prems(7) sub]] snoc.prems(4-6)
    by (auto simp: fs(1) tail_hash_def)
  moreover have "inj_on sha256 (chain_inputs es \<union> chain_inputs gs)"
    using snoc.prems(7) by (rule inj_on_subset) (auto simp: fs(1) chain_inputs_def)
  ultimately have "es = gs"
    using snoc.IH [of gs] intact fs snoc.prems(5,6) by simp
  with eq fs show ?case by simp
qed simp

theorem tail_hash_binds_history_witness:
  "let es = [link_entry LedgerGenesisHash (NewHarnessLedgerEntry 1 ''c'' LedgerEventAgentTurn ''s'' [])]
   in chain_intact es \<and> es = rev es"
proof -
  define e where "e = link_entry LedgerGenesisHash (NewHarnessLedgerEntry 1 ''c'' LedgerEventAgentTurn ''s'' [])"
  have intact: "chain_intact [e]"
    using chain_intact_append [of "[]" e] by (simp add: e_def tail_hash_def link_entry_ok)
  have wf: "wf_entry e"
    by (simp add: e_def link_entry_def Let_def NewHarnessLedgerEntry_def wf_entry_def
        LedgerSchemaVersion_def LedgerGenesisHash_def high_def)
  have "[e] = rev [e]"
    by (rule tail_hash_binds_history) (use intact wf in \<open>simp_all add: chain_inputs_def\<close>)
  with intact show ?thesis by (simp add: Let_def e_def)
qed

end
