(* ===== verification/Merkle.thy ===== *)
theory Merkle
  imports Ledger
begin

section \<open>The Merkle log over the ledger (pkg/contract/merkle.go)\<close>

text \<open>
  The RFC 6962 tree hash over the entries' chain hashes, inclusion and consistency proofs
  and their verifiers, as the source writes them: the verifiers are loops over the proof
  with two indices that are shifted right, and the producers are recursions on the
  leaves. The properties relate the two: every proof the producer returns is accepted
  (completeness), and what a verifier accepts is true of the log (soundness), unless
  SHA-256 collides on the inputs the comparison hashes, which the statements name.
  Indices and sizes are natural numbers once the source's range checks are passed;
  the split-point loop is also modelled at 64 bits, since a proof's \<^verbatim>\<open>TreeSize\<close> is
  chosen by whoever made the proof.
\<close>

datatype merkle_error = ErrMerkleIndexOutOfRange | ErrMerkleEmptyLog | ErrMerkleConsistencyRange

definition EmptyMerkleRoot :: string where
  "EmptyMerkleRoot = ''e3b0c44298fc1c149afbf4c8996fb92427ae41e4649b934ca495991b7852b855''"

definition merkleLeafPrefix :: char where "merkleLeafPrefix = CHR 0x00"

definition merkleNodePrefix :: char where "merkleNodePrefix = CHR 0x01"

subsection \<open>The tree hash\<close>

definition merkleLeafData :: "HarnessLedgerEntry \<Rightarrow> bytes" where
  "merkleLeafData entry =
     (case DecodeString (le_Hash entry) of None \<Rightarrow> le_Hash entry | Some b \<Rightarrow> b)"

definition merkleLeafHash :: "HarnessLedgerEntry \<Rightarrow> bytes" where
  "merkleLeafHash entry = sha256 (merkleLeafPrefix # merkleLeafData entry)"

definition merkleNodeHash :: "bytes \<Rightarrow> bytes \<Rightarrow> bytes" where
  "merkleNodeHash left right = sha256 (merkleNodePrefix # left @ right)"

text \<open>The loop \<^verbatim>\<open>for k<<1 < n { k <<= 1 }\<close>; \<open>k\<close> starts at 1, so it stays positive.\<close>

function pow2_loop :: "nat \<Rightarrow> nat \<Rightarrow> nat" where
  "pow2_loop n k = (if 0 < k \<and> 2 * k < n then pow2_loop n (2 * k) else k)"
  by pat_completeness auto
termination
  by (relation "measure (\<lambda>(n, k). n - k)") auto

declare pow2_loop.simps [simp del]

definition largestPowerOfTwoLessThan :: "nat \<Rightarrow> nat" where
  "largestPowerOfTwoLessThan n = pow2_loop n 1"

lemma pow2_loop_spec:
  "2 ^ a < n \<Longrightarrow> \<exists>e. pow2_loop n (2 ^ a) = 2 ^ e \<and> 2 ^ e < n \<and> n \<le> 2 ^ Suc e"
proof (induction n "2 ^ a :: nat" arbitrary: a rule: pow2_loop.induct)
  case (1 n)
  show ?case
  proof (cases "2 * 2 ^ a < n")
    case True
    then have "pow2_loop n (2 ^ a) = pow2_loop n (2 ^ Suc a)"
      by (subst pow2_loop.simps) simp
    moreover have "\<exists>e. pow2_loop n (2 ^ Suc a) = 2 ^ e \<and> 2 ^ e < n \<and> n \<le> 2 ^ Suc e"
      by (rule "1.hyps") (use True in simp_all)
    ultimately show ?thesis by (simp only:)
  next
    case False
    with "1.prems" show ?thesis by (subst pow2_loop.simps) auto
  qed
qed

lemma pow2_bracket_unique:
  assumes "2 ^ e < n" "n \<le> 2 ^ Suc e" "2 ^ f < n" "n \<le> (2::nat) ^ Suc f"
  shows "e = f"
proof -
  have "(2::nat) ^ e < 2 ^ Suc f" "(2::nat) ^ f < 2 ^ Suc e" using assms by linarith+
  then have "e < Suc f" "f < Suc e"
    by (auto simp only: power_strict_increasing_iff [of "2::nat"] one_less_numeral_iff semiring_norm)
  then show ?thesis by simp
qed

lemma pow2_bracket:
  assumes "2 \<le> n"
  obtains e where "2 ^ e < n" "n \<le> 2 ^ Suc e" "largestPowerOfTwoLessThan n = 2 ^ e"
  using pow2_loop_spec [of 0 n] assms by (auto simp: largestPowerOfTwoLessThan_def)

lemma largestPowerOfTwoLessThan_eq:
  assumes "2 ^ e < n" "n \<le> 2 ^ Suc e"
  shows "largestPowerOfTwoLessThan n = 2 ^ e"
proof -
  have "(1::nat) \<le> 2 ^ e" by simp
  with assms have "2 \<le> n" by linarith
  then show ?thesis
    using pow2_bracket pow2_bracket_unique assms by metis
qed

lemma largestPowerOfTwoLessThan_bounds:
  "2 \<le> n \<Longrightarrow> 0 < largestPowerOfTwoLessThan n \<and> largestPowerOfTwoLessThan n < n"
  by (metis pow2_bracket zero_less_numeral zero_less_power)

function merkleTreeHash :: "bytes list \<Rightarrow> bytes" where
  "merkleTreeHash leaves =
     (if length leaves = 0 then sha256 []
      else if length leaves = 1 then leaves ! 0
      else let k = largestPowerOfTwoLessThan (length leaves)
           in merkleNodeHash (merkleTreeHash (take k leaves)) (merkleTreeHash (drop k leaves)))"
  by pat_completeness auto
termination
proof (relation "measure length", goal_cases)
  case (2 leaves k)
  then have "2 \<le> length leaves" by (cases leaves) (auto simp: Suc_le_eq)
  with 2 show ?case using largestPowerOfTwoLessThan_bounds [of "length leaves"] by (simp; linarith)
next
  case (3 leaves k)
  then have "2 \<le> length leaves" by (cases leaves) (auto simp: Suc_le_eq)
  with 3 show ?case using largestPowerOfTwoLessThan_bounds [of "length leaves"] by (simp; linarith)
qed simp

declare merkleTreeHash.simps [simp del]

definition computeLeafHashes :: "HarnessLedgerEntry list \<Rightarrow> bytes list" where
  "computeLeafHashes entries = map merkleLeafHash entries"

definition MerkleRoot :: "HarnessLedgerEntry list \<Rightarrow> string" where
  "MerkleRoot entries = EncodeToString (merkleTreeHash (computeLeafHashes entries))"

subsection \<open>Inclusion proofs\<close>

record MerkleInclusionProof =
  mip_LeafIndex :: int
  mip_TreeSize :: int
  mip_AuditPath :: "string list"

text \<open>\<^verbatim>\<open>inclusionPath\<close> is only called on a non-empty list of leaves.\<close>

function inclusionPath :: "nat \<Rightarrow> bytes list \<Rightarrow> bytes list" where
  "inclusionPath m leaves =
     (if length leaves \<le> 1 then []
      else let k = largestPowerOfTwoLessThan (length leaves) in
        if m < k then inclusionPath m (take k leaves) @ [merkleTreeHash (drop k leaves)]
        else inclusionPath (m - k) (drop k leaves) @ [merkleTreeHash (take k leaves)])"
  by pat_completeness auto
termination
proof (relation "measure (\<lambda>(m, leaves). length leaves)", goal_cases)
  case (2 m leaves k)
  then have "2 \<le> length leaves" by (cases leaves) (auto simp: Suc_le_eq)
  with 2 show ?case using largestPowerOfTwoLessThan_bounds [of "length leaves"] by (simp; linarith)
next
  case (3 m leaves k)
  then have "2 \<le> length leaves" by (cases leaves) (auto simp: Suc_le_eq)
  with 3 show ?case using largestPowerOfTwoLessThan_bounds [of "length leaves"] by (simp; linarith)
qed simp

declare inclusionPath.simps [simp del]

definition InclusionProof ::
  "HarnessLedgerEntry list \<Rightarrow> int \<Rightarrow> merkle_error + MerkleInclusionProof" where
  "InclusionProof entries i =
     (let n = int (length entries) in
      if n = 0 then Inl ErrMerkleEmptyLog
      else if i < 0 \<or> i \<ge> n then Inl ErrMerkleIndexOutOfRange
      else Inr \<lparr>mip_LeafIndex = i, mip_TreeSize = n,
             mip_AuditPath = map EncodeToString (inclusionPath (nat i) (computeLeafHashes entries))\<rparr>)"

function inclusionPathLen :: "nat \<Rightarrow> nat \<Rightarrow> nat" where
  "inclusionPathLen m n =
     (if n \<le> 1 then 0
      else let k = largestPowerOfTwoLessThan n in
        if m < k then inclusionPathLen m k + 1 else inclusionPathLen (m - k) (n - k) + 1)"
  by pat_completeness auto
termination
proof (relation "measure (\<lambda>(m, n). n)", goal_cases)
  case (2 m n k)
  then show ?case using largestPowerOfTwoLessThan_bounds [of n] by simp
next
  case (3 m n k)
  then show ?case using largestPowerOfTwoLessThan_bounds [of n] by simp
qed simp

declare inclusionPathLen.simps [simp del]

text \<open>The inner loop of both verifiers: shift while \<open>fn\<close> is even and not zero.\<close>

function skip_edge :: "nat \<Rightarrow> nat \<Rightarrow> nat \<times> nat" where
  "skip_edge fn sn =
     (if fn mod 2 = 0 \<and> fn \<noteq> 0 then skip_edge (fn div 2) (sn div 2) else (fn, sn))"
  by pat_completeness auto
termination
  by (relation "measure fst") auto

declare skip_edge.simps [simp del]

text \<open>The loop over the audit path; \<open>None\<close> is the early \<^verbatim>\<open>return false\<close> on a bad sibling.\<close>

fun fold_siblings :: "nat \<Rightarrow> nat \<Rightarrow> bytes \<Rightarrow> string list \<Rightarrow> bytes option" where
  "fold_siblings fn sn acc [] = Some acc"
| "fold_siblings fn sn acc (sibHex # rest) =
     (case DecodeString sibHex of
        None \<Rightarrow> None
      | Some sib \<Rightarrow>
          if length sib \<noteq> 32 then None
          else if fn mod 2 = 1 \<or> fn = sn
          then (let (fn', sn') = skip_edge fn sn
                in fold_siblings (fn' div 2) (sn' div 2) (merkleNodeHash sib acc) rest)
          else fold_siblings (fn div 2) (sn div 2) (merkleNodeHash acc sib) rest)"

definition VerifyInclusion :: "HarnessLedgerEntry \<Rightarrow> MerkleInclusionProof \<Rightarrow> string \<Rightarrow> bool" where
  "VerifyInclusion leafEntry proof root =
     (if mip_TreeSize proof \<le> 0 \<or> mip_LeafIndex proof < 0 \<or>
         mip_LeafIndex proof \<ge> mip_TreeSize proof then False
      else let m = nat (mip_LeafIndex proof); n = nat (mip_TreeSize proof) in
        if length (mip_AuditPath proof) \<noteq> inclusionPathLen m n then False
        else (case fold_siblings m (n - 1) (merkleLeafHash leafEntry) (mip_AuditPath proof) of
                None \<Rightarrow> False
              | Some acc \<Rightarrow> EncodeToString acc = root))"

subsection \<open>Consistency proofs\<close>

record MerkleConsistencyProof =
  mcp_OldSize :: int
  mcp_NewSize :: int
  mcp_Path :: "string list"

text \<open>\<^verbatim>\<open>subProof\<close> is only called with \<open>0 < m \<le> length leaves\<close>.\<close>

function subProof :: "nat \<Rightarrow> bytes list \<Rightarrow> bool \<Rightarrow> bytes list" where
  "subProof m leaves b =
     (if m = length leaves then (if b then [] else [merkleTreeHash leaves])
      else if length leaves \<le> 1 then []
      else let k = largestPowerOfTwoLessThan (length leaves) in
        if m \<le> k then subProof m (take k leaves) b @ [merkleTreeHash (drop k leaves)]
        else subProof (m - k) (drop k leaves) False @ [merkleTreeHash (take k leaves)])"
  by pat_completeness auto
termination
proof (relation "measure (\<lambda>(m, leaves, b). length leaves)", goal_cases)
  case (2 m leaves b k)
  then have "2 \<le> length leaves" by (cases leaves) (auto simp: Suc_le_eq)
  with 2 show ?case using largestPowerOfTwoLessThan_bounds [of "length leaves"] by (simp; linarith)
next
  case (3 m leaves b k)
  then have "2 \<le> length leaves" by (cases leaves) (auto simp: Suc_le_eq)
  with 3 show ?case using largestPowerOfTwoLessThan_bounds [of "length leaves"] by (simp; linarith)
qed simp

declare subProof.simps [simp del]

definition ConsistencyProof ::
  "int \<Rightarrow> HarnessLedgerEntry list \<Rightarrow> merkle_error + MerkleConsistencyProof" where
  "ConsistencyProof oldSize entries =
     (let n = int (length entries) in
      if oldSize < 0 \<or> oldSize > n then Inl ErrMerkleConsistencyRange
      else let leaves = computeLeafHashes entries;
               path = (if oldSize \<noteq> 0 \<and> oldSize \<noteq> n then subProof (nat oldSize) leaves True else [])
           in Inr \<lparr>mcp_OldSize = oldSize, mcp_NewSize = n, mcp_Path = map EncodeToString path\<rparr>)"

definition isHexSize :: "string \<Rightarrow> bool" where
  "isHexSize s = (case DecodeString s of None \<Rightarrow> False | Some b \<Rightarrow> length b = 32)"

definition decodeRoot :: "string \<Rightarrow> bytes" where
  "decodeRoot s =
     (case DecodeString s of
        None \<Rightarrow> replicate 32 (CHR 0x00)
      | Some b \<Rightarrow> if length b = 32 then b else replicate 32 (CHR 0x00))"

fun decodeNodes :: "string list \<Rightarrow> bytes list option" where
  "decodeNodes [] = Some []"
| "decodeNodes (h # hs) =
     (case DecodeString h of
        None \<Rightarrow> None
      | Some b \<Rightarrow> if length b \<noteq> 32 then None else map_option ((#) b) (decodeNodes hs))"

text \<open>The loop \<^verbatim>\<open>for fn%2 == 1\<close>.\<close>

function strip_odd :: "nat \<Rightarrow> nat \<Rightarrow> nat \<times> nat" where
  "strip_odd fn sn = (if fn mod 2 = 1 then strip_odd (fn div 2) (sn div 2) else (fn, sn))"
  by pat_completeness auto
termination
  by (relation "measure fst") (auto simp: odd_pos)

declare strip_odd.simps [simp del]

text \<open>The loop over the proof nodes; \<open>None\<close> is \<^verbatim>\<open>return false\<close> when \<open>sn\<close> is used up.\<close>

fun fold_nodes :: "nat \<Rightarrow> nat \<Rightarrow> bytes \<Rightarrow> bytes \<Rightarrow> bytes list \<Rightarrow> (nat \<times> bytes \<times> bytes) option" where
  "fold_nodes fn sn fr sr [] = Some (sn, fr, sr)"
| "fold_nodes fn sn fr sr (node # rest) =
     (if sn = 0 then None
      else if fn mod 2 = 1 \<or> fn = sn
      then (let (fn', sn') = skip_edge fn sn
            in fold_nodes (fn' div 2) (sn' div 2) (merkleNodeHash node fr) (merkleNodeHash node sr) rest)
      else fold_nodes (fn div 2) (sn div 2) fr (merkleNodeHash sr node) rest)"

definition VerifyConsistency :: "MerkleConsistencyProof \<Rightarrow> string \<Rightarrow> string \<Rightarrow> bool" where
  "VerifyConsistency proof oldRoot newRoot =
     (let first = mcp_OldSize proof; second = mcp_NewSize proof in
      if first < 0 \<or> second < 0 \<or> first > second then False
      else if first = 0 then
        (if length (mcp_Path proof) \<noteq> 0 then False
         else oldRoot = EmptyMerkleRoot \<and> isHexSize newRoot)
      else if first = second then
        length (mcp_Path proof) = 0 \<and> oldRoot = newRoot \<and> isHexSize oldRoot
      else (case decodeNodes (mcp_Path proof) of
              None \<Rightarrow> False
            | Some [] \<Rightarrow> False
            | Some (p0 # ps) \<Rightarrow>
                (let (fn, sn) = strip_odd (nat first - 1) (nat second - 1);
                     (seed, rest) = (if fn = 0 then (decodeRoot oldRoot, p0 # ps) else (p0, ps))
                 in case fold_nodes fn sn seed seed rest of
                      None \<Rightarrow> False
                    | Some (sn', fr, sr) \<Rightarrow>
                        sn' = 0 \<and> EncodeToString fr = oldRoot \<and> EncodeToString sr = newRoot)))"

subsection \<open>Splitting at the power of two\<close>

lemma merkleTreeHash_split:
  assumes "2 ^ e < length D" "length D \<le> 2 ^ Suc e"
  shows "merkleTreeHash D = merkleNodeHash (merkleTreeHash (take (2 ^ e) D)) (merkleTreeHash (drop (2 ^ e) D))"
proof -
  have "(1::nat) \<le> 2 ^ e" by simp
  with assms(1) have "length D \<noteq> 0" "length D \<noteq> 1" by linarith+
  then show ?thesis
    by (subst merkleTreeHash.simps) (simp only: if_False Let_def largestPowerOfTwoLessThan_eq [OF assms])
qed

lemma merkleTreeHash_1 [simp]: "merkleTreeHash [x] = x"
  by (simp add: merkleTreeHash.simps)

lemma merkleTreeHash_length1: "length D = Suc 0 \<Longrightarrow> merkleTreeHash D = D ! 0"
  by (simp add: merkleTreeHash.simps)

lemma inclusionPath_split:
  assumes "2 ^ e < length D" "length D \<le> 2 ^ Suc e"
  shows "inclusionPath m D =
    (if m < 2 ^ e then inclusionPath m (take (2 ^ e) D) @ [merkleTreeHash (drop (2 ^ e) D)]
     else inclusionPath (m - 2 ^ e) (drop (2 ^ e) D) @ [merkleTreeHash (take (2 ^ e) D)])"
proof -
  have "(1::nat) \<le> 2 ^ e" by simp
  with assms(1) have "\<not> length D \<le> 1" by linarith
  then show ?thesis
    by (subst inclusionPath.simps) (simp only: if_False Let_def largestPowerOfTwoLessThan_eq [OF assms])
qed

lemma subProof_split:
  assumes "2 ^ e < length D" "length D \<le> 2 ^ Suc e" "m \<noteq> length D"
  shows "subProof m D b =
    (if m \<le> 2 ^ e then subProof m (take (2 ^ e) D) b @ [merkleTreeHash (drop (2 ^ e) D)]
     else subProof (m - 2 ^ e) (drop (2 ^ e) D) False @ [merkleTreeHash (take (2 ^ e) D)])"
proof -
  have "(1::nat) \<le> 2 ^ e" by simp
  with assms(1) have "\<not> length D \<le> 1" by linarith
  then show ?thesis using assms(3)
    by (subst subProof.simps) (simp only: if_False Let_def largestPowerOfTwoLessThan_eq [OF assms(1,2)])
qed

lemma length_inclusionPath: "length (inclusionPath m D) = inclusionPathLen m (length D)"
proof (induction m D rule: inclusionPath.induct)
  case (1 m D)
  show ?case
  proof (cases "length D \<le> 1")
    case True
    then show ?thesis by (simp add: inclusionPath.simps [of m D] inclusionPathLen.simps [of m "length D"])
  next
    case False
    define k where "k = largestPowerOfTwoLessThan (length D)"
    have "k < length D" using False largestPowerOfTwoLessThan_bounds [of "length D"] by (simp add: k_def)
    with False 1(1) [OF False k_def] 1(2) [OF False k_def] show ?thesis
      by (subst inclusionPath.simps, subst inclusionPathLen.simps) (simp add: Let_def k_def [symmetric])
  qed
qed

subsection \<open>The verifiers' loops on decoded nodes\<close>

fun fold_path :: "nat \<Rightarrow> nat \<Rightarrow> bytes \<Rightarrow> bytes list \<Rightarrow> bytes" where
  "fold_path fn sn acc [] = acc"
| "fold_path fn sn acc (sib # rest) =
     (if fn mod 2 = 1 \<or> fn = sn
      then fold_path (fst (skip_edge fn sn) div 2) (snd (skip_edge fn sn) div 2) (merkleNodeHash sib acc) rest
      else fold_path (fn div 2) (sn div 2) (merkleNodeHash acc sib) rest)"

lemma fold_siblings_eq: "fold_siblings fn sn acc hs = map_option (fold_path fn sn acc) (decodeNodes hs)"
  by (induction hs arbitrary: fn sn acc) (auto simp: Let_def option.map_comp comp_def split: option.splits prod.splits)

lemma decodeNodes_encode [simp]:
  "list_all (\<lambda>b. length b = 32) ns \<Longrightarrow> decodeNodes (map EncodeToString ns) = Some ns"
  by (induction ns) auto

lemma decodeNodes_length: "decodeNodes hs = Some ns \<Longrightarrow> length ns = length hs \<and> list_all (\<lambda>b. length b = 32) ns"
  by (induction hs arbitrary: ns) (auto split: option.splits if_splits)

lemma length_merkleNodeHash [simp, dig32]: "length (merkleNodeHash l r) = 32"
  by (simp add: merkleNodeHash_def)

lemma length_merkleLeafHash [simp, dig32]: "length (merkleLeafHash e) = 32"
  by (simp add: merkleLeafHash_def)

lemma length_merkleTreeHash [dig32]:
  "list_all (\<lambda>b. length b = 32) D \<Longrightarrow> length (merkleTreeHash D) = 32"
  by (subst merkleTreeHash.simps) (auto simp: Let_def list_all_length)

lemma leaf_hashes_32 [simp, dig32]: "list_all (\<lambda>b. length b = 32) (computeLeafHashes es)"
  by (simp add: computeLeafHashes_def list_all_iff)

lemma list_all_take_drop:
  "list_all P D \<Longrightarrow> list_all P (take k D)" "list_all P D \<Longrightarrow> list_all P (drop k D)"
  by (auto simp: list_all_iff dest: in_set_takeD in_set_dropD)

lemma inclusionPath_32 [dig32]:
  "list_all (\<lambda>b. length b = 32) D \<Longrightarrow> list_all (\<lambda>b. length b = 32) (inclusionPath m D)"
proof (induction m D rule: inclusionPath.induct)
  case (1 m D)
  then show ?case
    by (subst inclusionPath.simps) (simp add: Let_def list_all_take_drop length_merkleTreeHash)
qed

lemma subProof_32 [dig32]:
  "list_all (\<lambda>b. length b = 32) D \<Longrightarrow> list_all (\<lambda>b. length b = 32) (subProof m D b)"
proof (induction m D b rule: subProof.induct)
  case (1 m D b)
  then show ?case
    by (subst subProof.simps) (simp add: Let_def list_all_take_drop length_merkleTreeHash)
qed

lemma skip_edge_odd [simp]: "odd fn \<Longrightarrow> skip_edge fn sn = (fn, sn)"
  by (subst skip_edge.simps) presburger

lemma skip_edge_pow2: "odd q \<Longrightarrow> skip_edge (q * 2 ^ t) (q * 2 ^ t) = (q, q)"
proof (induction t)
  case (Suc t)
  then have "q * 2 ^ Suc t \<noteq> 0" by (cases q) auto
  with Suc show ?case by (subst skip_edge.simps) simp
qed simp

subsection \<open>Completeness of inclusion proofs\<close>

text \<open>Inside a perfect subtree the fold climbs to the subtree's root.\<close>

lemma fold_path_perfect:
  "\<lbrakk>length L = 2 ^ e; m < 2 ^ e; q < sn div 2 ^ e\<rbrakk> \<Longrightarrow>
   fold_path (m + 2 ^ e * q) sn (L ! m) (inclusionPath m L @ rest) =
   fold_path q (sn div 2 ^ e) (merkleTreeHash L) rest"
proof (induction e arbitrary: L m q rest)
  case 0
  then show ?case by (simp add: inclusionPath.simps merkleTreeHash_length1)
next
  case (Suc e)
  let ?k = "2 ^ e :: nat" and ?S = "sn div 2 ^ e"
  have div: "sn div 2 ^ Suc e = ?S div 2" by (simp only: power_Suc2 div_mult2_eq)
  have br: "?k < length L" "length L \<le> 2 ^ Suc e" using Suc.prems(1) by simp_all
  have q: "2 * q + 1 < ?S" using Suc.prems(3) unfolding div by linarith
  note sp = merkleTreeHash_split [OF br] inclusionPath_split [OF br, of m]
  show ?case
  proof (cases "m < ?k")
    case True
    have "fold_path (m + ?k * (2 * q)) sn (take ?k L ! m)
            (inclusionPath m (take ?k L) @ merkleTreeHash (drop ?k L) # rest) =
          fold_path (2 * q) ?S (merkleTreeHash (take ?k L)) (merkleTreeHash (drop ?k L) # rest)"
      by (rule Suc.IH) (use Suc.prems True q in simp_all)
    with True q show ?thesis unfolding div by (simp add: sp algebra_simps)
  next
    case False
    have "fold_path (m - ?k + ?k * (2 * q + 1)) sn (drop ?k L ! (m - ?k))
            (inclusionPath (m - ?k) (drop ?k L) @ merkleTreeHash (take ?k L) # rest) =
          fold_path (2 * q + 1) ?S (merkleTreeHash (drop ?k L)) (merkleTreeHash (take ?k L) # rest)"
      by (rule Suc.IH) (use Suc.prems False q in simp_all)
    moreover have "m - ?k + ?k * (2 * q + 1) = m + 2 ^ Suc e * q" "?k + (m - ?k) = m"
      using False by (simp_all add: algebra_simps)
    ultimately show ?thesis unfolding div using False Suc.prems(1,2) by (simp add: sp mult.left_commute mult.assoc)
  qed
qed

lemma pow2_exp_gap:
  assumes "2 ^ e < n" "n \<le> (2::nat) ^ E"
  obtains d where "E = e + Suc d"
proof -
  from assms have "(2::nat) ^ e < 2 ^ E" by linarith
  then have "e < E" by (simp only: power_strict_increasing_iff [of "2::nat"] one_less_numeral_iff semiring_norm)
  then show ?thesis using that [of "E - e - 1"] by simp
qed

lemma edge_div:
  assumes "k < n" "n \<le> (2 * k::nat)"
  shows "(n - 1 + k * Q) div k = Suc Q"
proof -
  have "(n - 1 + k * Q) div k = ((n - 1 - k) + k * Suc Q) div k" using assms(1) by simp
  also have "\<dots> = Suc Q + (n - 1 - k) div k" using assms by (intro div_mult_self2) simp
  also have "(n - 1 - k) div k = 0" using assms by simp
  finally show ?thesis by simp
qed

text \<open>On the right edge of the tree the fold reaches the root of the part below.\<close>

lemma fold_path_edge:
  "\<lbrakk>m < length D; length D \<le> 2 ^ E\<rbrakk> \<Longrightarrow>
   \<exists>t. \<forall>rest. fold_path (m + 2 ^ E * q) (length D - 1 + 2 ^ E * q) (D ! m) (inclusionPath m D @ rest) =
       fold_path (q * 2 ^ t) (q * 2 ^ t) (merkleTreeHash D) rest"
proof (induction D arbitrary: m E q rule: length_induct)
  case (1 D)
  show ?case
  proof (cases "length D = 1")
    case True
    with 1(2) show ?thesis
      by (intro exI [of _ E]) (simp add: inclusionPath.simps merkleTreeHash_length1 mult.commute)
  next
    case False
    with 1(2) have "2 \<le> length D" by linarith
    then obtain e where br: "2 ^ e < length D" "length D \<le> 2 ^ Suc e" by (rule pow2_bracket)
    obtain d where E: "E = e + Suc d" using pow2_exp_gap [OF br(1) 1(3)] .
    let ?k = "2 ^ e :: nat" and ?Q = "2 * (q * 2 ^ d)"
    have Q: "2 ^ E * q = ?k * ?Q" by (simp add: E power_add)
    note sp = merkleTreeHash_split [OF br] inclusionPath_split [OF br, of m]
    show ?thesis
    proof (cases "m < ?k")
      case True
      have "fold_path (m + ?k * ?Q) (length D - 1 + ?k * ?Q) (take ?k D ! m)
              (inclusionPath m (take ?k D) @ merkleTreeHash (drop ?k D) # rest) =
            fold_path (q * 2 ^ d) (q * 2 ^ d) (merkleTreeHash D) rest" for rest
      proof -
        define sn where "sn = length D - 1 + ?k * ?Q"
        have "sn div ?k = Suc ?Q" using edge_div [of ?k "length D"] br by (simp add: sn_def)
        with fold_path_perfect [of "take ?k D" e m ?Q sn] True br show ?thesis
          unfolding sn_def [symmetric] sp by simp
      qed
      with True show ?thesis unfolding Q sp by (intro exI [of _ d]) simp
    next
      case False
      have "\<exists>t. \<forall>rest. fold_path (m - ?k + ?k * Suc ?Q) (length (drop ?k D) - 1 + ?k * Suc ?Q)
              (drop ?k D ! (m - ?k)) (inclusionPath (m - ?k) (drop ?k D) @ rest) =
            fold_path (Suc ?Q * 2 ^ t) (Suc ?Q * 2 ^ t) (merkleTreeHash (drop ?k D)) rest"
        using 1(1) [rule_format, of "drop ?k D" "m - ?k" e "Suc ?Q"] False br 1(2) by simp
      then obtain t where t: "fold_path (m - ?k + ?k * Suc ?Q) (length (drop ?k D) - 1 + ?k * Suc ?Q)
              (drop ?k D ! (m - ?k)) (inclusionPath (m - ?k) (drop ?k D) @ rest) =
            fold_path (Suc ?Q * 2 ^ t) (Suc ?Q * 2 ^ t) (merkleTreeHash (drop ?k D)) rest" for rest
        by blast
      have idx: "m - ?k + ?k * Suc ?Q = m + ?k * ?Q" "?k + (m - ?k) = m"
        "length (drop ?k D) - 1 + ?k * Suc ?Q = length D - 1 + ?k * ?Q"
        using False br by simp_all
      have sk: "skip_edge (Suc ?Q * 2 ^ t) (Suc ?Q * 2 ^ t) = (Suc ?Q, Suc ?Q)"
        by (rule skip_edge_pow2) simp
      have "fold_path (m + ?k * ?Q) (length D - 1 + ?k * ?Q) (D ! m)
              (inclusionPath (m - ?k) (drop ?k D) @ merkleTreeHash (take ?k D) # rest) =
            fold_path (q * 2 ^ d) (q * 2 ^ d) (merkleTreeHash D) rest" for rest
        using t [of "merkleTreeHash (take ?k D) # rest"] br(1)
        unfolding idx fold_path.simps sk by (simp add: idx sp del: mult_Suc)
      with False show ?thesis unfolding Q sp by (intro exI [of _ d]) simp
    qed
  qed
qed

lemma fold_path_complete:
  assumes "m < length D"
  shows "fold_path m (length D - 1) (D ! m) (inclusionPath m D) = merkleTreeHash D"
proof -
  have "length D \<le> 2 ^ length D" by (rule less_imp_le) (rule less_exp)
  from fold_path_edge [OF assms this, of 0] show ?thesis
    by (auto dest: spec [of _ "[]"])
qed

subsection \<open>Completeness of consistency proofs\<close>

lemma strip_odd_even [simp]: "even fn \<Longrightarrow> strip_odd fn sn = (fn, sn)"
  by (subst strip_odd.simps) presburger

lemma strip_odd_step: "strip_odd (2 * a + 1) sn = strip_odd a (sn div 2)"
  by (subst strip_odd.simps) simp

text \<open>The last leaf of a perfect subtree strips to the subtree's index.\<close>

lemma double_pred: "1 \<le> x \<Longrightarrow> 2 * x - 1 + 2 * y = 2 * (x - 1 + y) + (1::nat)"
  by arith

lemma strip_odd_perfect: "even q \<Longrightarrow> strip_odd (2 ^ e - 1 + 2 ^ e * q) sn = (q, sn div 2 ^ e)"
proof (induction e arbitrary: sn)
  case (Suc e)
  have "(1::nat) \<le> 2 ^ e" by simp
  then have "2 ^ Suc e - 1 + 2 ^ Suc e * q = 2 * (2 ^ e - 1 + 2 ^ e * q) + 1"
    unfolding power_Suc mult.assoc by (rule double_pred)
  then show ?case
    using Suc.IH [OF Suc.prems, of "sn div 2"] by (simp only: strip_odd_step power_Suc div_mult2_eq)
qed simp

lemma strip_odd_zero: "fst (strip_odd fn sn) = 0 \<longleftrightarrow> (\<exists>p. fn + 1 = 2 ^ p)"
proof (induction fn sn rule: strip_odd.induct)
  case (1 fn sn)
  show ?case
  proof (cases "odd fn")
    case True
    then obtain a where a: "fn = 2 * a + 1" by (rule oddE)
    have "(\<exists>p. fn + 1 = 2 ^ p) \<longleftrightarrow> (\<exists>p. a + 1 = 2 ^ p)"
    proof
      assume "\<exists>p. fn + 1 = 2 ^ p"
      then obtain p where p: "2 * (a + 1) = 2 ^ p" by (auto simp: a)
      then obtain p' where "p = Suc p'" by (cases p) auto
      with p have "a + 1 = 2 ^ p'" by (simp only: power_Suc mult_cancel_left) simp
      then show "\<exists>p. a + 1 = 2 ^ p" ..
    next
      assume "\<exists>p. a + 1 = 2 ^ p"
      then obtain p where "a + 1 = 2 ^ p" by blast
      then show "\<exists>p. fn + 1 = 2 ^ p" by (intro exI [of _ "Suc p"]) (simp add: a)
    qed
    then show ?thesis using 1 a by (simp add: strip_odd_step [of a, simplified])
  next
    case False
    have "fn = 0" if "fn + 1 = 2 ^ p" for p
    proof (cases p)
      case (Suc p')
      then have "even (fn + 1)" unfolding that by simp
      with False show ?thesis by simp
    qed (use that in simp)
    then have "(\<exists>p. fn + 1 = 2 ^ p) \<longleftrightarrow> fn = 0"
      using power_0 [of "2::nat"] by (metis add_0)
    with False show ?thesis by simp
  qed
qed

text \<open>What a part of the old boundary's proof does to the running hashes.\<close>

definition climbs :: "nat \<Rightarrow> nat \<Rightarrow> bytes list \<Rightarrow> nat \<Rightarrow> nat \<Rightarrow> bytes \<Rightarrow> bytes \<Rightarrow> bool" where
  "climbs fn sn p fn' sn' fr sr \<longleftrightarrow>
     (\<exists>seed tail. p = seed # tail \<and>
       (\<forall>rest. fold_nodes (fst (strip_odd fn sn)) (snd (strip_odd fn sn)) seed seed (tail @ rest) =
               fold_nodes fn' sn' fr sr rest))"

lemma climbs_right:
  assumes "climbs fn sn p fn' sn' fr sr" "even fn'" "fn' \<noteq> sn'" "sn' \<noteq> 0"
  shows "climbs fn sn (p @ [node]) (fn' div 2) (sn' div 2) fr (merkleNodeHash sr node)"
  using assms unfolding climbs_def by fastforce

lemma climbs_left:
  assumes "climbs fn sn p fn' sn' fr sr" "odd fn' \<or> fn' = sn'" "sn' \<noteq> 0"
    and "skip_edge fn' sn' = (fn'', sn'')"
  shows "climbs fn sn (p @ [node]) (fn'' div 2) (sn'' div 2) (merkleNodeHash node fr) (merkleNodeHash node sr)"
  using assms unfolding climbs_def by (fastforce simp: odd_iff_mod_2_eq_one)

lemma subProof_perfect:
  "\<lbrakk>length L = 2 ^ e; 0 < m; m \<le> 2 ^ e; m = 2 ^ e \<longrightarrow> even q; q < sn div 2 ^ e\<rbrakk> \<Longrightarrow>
   climbs (m - 1 + 2 ^ e * q) sn (subProof m L False) q (sn div 2 ^ e)
     (merkleTreeHash (take m L)) (merkleTreeHash L)"
proof (induction e arbitrary: L m q)
  case (Suc e)
  let ?k = "2 ^ e :: nat" and ?S = "sn div 2 ^ e"
  show ?case
  proof (cases "m = 2 ^ Suc e")
    case True
    with Suc.prems(4) have "even q" by simp
    then show ?thesis
      using Suc.prems(1) unfolding climbs_def True strip_odd_perfect [OF \<open>even q\<close>]
      by (simp add: subProof.simps)
  next
    case False
    have div: "sn div 2 ^ Suc e = ?S div 2" by (simp only: power_Suc2 div_mult2_eq)
    have br: "?k < length L" "length L \<le> 2 ^ Suc e" "m \<noteq> length L" using Suc.prems(1) False by simp_all
    have q: "2 * q + 1 < ?S" using Suc.prems(5) unfolding div by linarith
    note sp = merkleTreeHash_split [OF br(1,2)] subProof_split [OF br]
    show ?thesis
    proof (cases "m \<le> ?k")
      case True
      have "climbs (m - 1 + ?k * (2 * q)) sn (subProof m (take ?k L) False) (2 * q) ?S
              (merkleTreeHash (take m (take ?k L))) (merkleTreeHash (take ?k L))"
        by (rule Suc.IH) (use Suc.prems True q in simp_all)
      from climbs_right [OF this, of "merkleTreeHash (drop ?k L)"] True q show ?thesis
        unfolding div sp by (simp add: min_def mult.left_commute mult.assoc)
    next
      case gt: False
      have "climbs (m - ?k - 1 + ?k * (2 * q + 1)) sn (subProof (m - ?k) (drop ?k L) False) (2 * q + 1) ?S
              (merkleTreeHash (take (m - ?k) (drop ?k L))) (merkleTreeHash (drop ?k L))"
        by (rule Suc.IH) (use Suc.prems gt False q in auto)
      moreover have "m - ?k - 1 + ?k * (2 * q + 1) = m - 1 + 2 ^ Suc e * q"
        using gt by (simp add: algebra_simps)
      moreover have "merkleTreeHash (take m L) =
          merkleNodeHash (merkleTreeHash (take ?k L)) (merkleTreeHash (take (m - ?k) (drop ?k L)))"
        using merkleTreeHash_split [of e "take m L"] gt Suc.prems(1,3) br(1)
        by (simp add: drop_take min_def)
      ultimately show ?thesis
        using climbs_left [of "m - 1 + 2 ^ Suc e * q" sn "subProof (m - ?k) (drop ?k L) False" "2 * q + 1" ?S
              _ _ "2 * q + 1" ?S "merkleTreeHash (take ?k L)"] gt q
        unfolding div sp by simp
    qed
  qed
qed (auto simp: climbs_def subProof.simps)

lemma subProof_edge:
  "\<lbrakk>0 < m; m < length D; length D \<le> 2 ^ E\<rbrakk> \<Longrightarrow>
   \<exists>t. climbs (m - 1 + 2 ^ E * q) (length D - 1 + 2 ^ E * q) (subProof m D False)
       (q * 2 ^ t) (q * 2 ^ t) (merkleTreeHash (take m D)) (merkleTreeHash D)"
proof (induction D arbitrary: m E q rule: length_induct)
  case (1 D)
  then have "2 \<le> length D" by linarith
  then obtain e where br: "2 ^ e < length D" "length D \<le> 2 ^ Suc e" by (rule pow2_bracket)
  have ne: "m \<noteq> length D" using 1(3) by simp
  obtain d where E: "E = e + Suc d" using pow2_exp_gap [OF br(1) 1(4)] .
  let ?k = "2 ^ e :: nat" and ?Q = "2 * (q * 2 ^ d)"
  have Q: "2 ^ E * q = ?k * ?Q" by (simp add: E power_add)
  note sp = merkleTreeHash_split [OF br] subProof_split [OF br ne]
  define fn sn where "fn = m - 1 + ?k * ?Q" and "sn = length D - 1 + ?k * ?Q"
  have dv: "sn div ?k = Suc ?Q" using edge_div [of ?k "length D"] br by (simp add: sn_def)
  show ?case
  proof (cases "m \<le> ?k")
    case True
    have "climbs fn sn (subProof m (take ?k D) False) ?Q (Suc ?Q)
            (merkleTreeHash (take m (take ?k D))) (merkleTreeHash (take ?k D))"
      using subProof_perfect [of "take ?k D" e m ?Q sn] br True 1(2) unfolding dv fn_def by simp
    from climbs_right [OF this, of "merkleTreeHash (drop ?k D)"] True show ?thesis
      unfolding Q fn_def [symmetric] sn_def [symmetric] sp
      by (intro exI [of _ d]) (simp add: min_def)
  next
    case False
    have "\<exists>t. climbs (m - ?k - 1 + ?k * Suc ?Q) (length (drop ?k D) - 1 + ?k * Suc ?Q)
            (subProof (m - ?k) (drop ?k D) False) (Suc ?Q * 2 ^ t) (Suc ?Q * 2 ^ t)
            (merkleTreeHash (take (m - ?k) (drop ?k D))) (merkleTreeHash (drop ?k D))"
      using 1(1) [rule_format, of "drop ?k D" "m - ?k" e "Suc ?Q"] False br 1(2,3) by simp
    moreover have "m - ?k - 1 + ?k * Suc ?Q = fn" "length (drop ?k D) - 1 + ?k * Suc ?Q = sn"
      using False br by (simp_all add: fn_def sn_def)
    ultimately obtain t where t: "climbs fn sn (subProof (m - ?k) (drop ?k D) False)
        (Suc ?Q * 2 ^ t) (Suc ?Q * 2 ^ t)
        (merkleTreeHash (take (m - ?k) (drop ?k D))) (merkleTreeHash (drop ?k D))" by auto
    have "merkleTreeHash (take m D) =
        merkleNodeHash (merkleTreeHash (take ?k D)) (merkleTreeHash (take (m - ?k) (drop ?k D)))"
      using merkleTreeHash_split [of e "take m D"] False 1(3) br by (simp add: drop_take min_def)
    moreover have "skip_edge (Suc ?Q * 2 ^ t) (Suc ?Q * 2 ^ t) = (Suc ?Q, Suc ?Q)"
      by (rule skip_edge_pow2) simp
    note climbs_left [OF t _ _ this, of "merkleTreeHash (take ?k D)"]
    ultimately show ?thesis using False
      unfolding Q fn_def [symmetric] sn_def [symmetric] sp
      by (intro exI [of _ d]) simp
  qed
qed

text \<open>
  When the old size is a power of two the proof leaves out the old root, which the
  verifier has; otherwise it starts with the seed.
\<close>

lemma subProof_True:
  "\<lbrakk>0 < m; m \<le> length D; m < length D \<or> (\<exists>p. length D = 2 ^ p)\<rbrakk> \<Longrightarrow>
   subProof m D False = (if \<exists>p. m = 2 ^ p then merkleTreeHash (take m D) # subProof m D True
                         else subProof m D True)"
proof (induction D arbitrary: m rule: length_induct)
  case (1 D)
  show ?case
  proof (cases "m = length D")
    case True
    with 1 show ?thesis by (auto simp: subProof.simps)
  next
    case False
    with 1 have "2 \<le> length D" by linarith
    then obtain e where br: "2 ^ e < length D" "length D \<le> 2 ^ Suc e" by (rule pow2_bracket)
    let ?k = "2 ^ e :: nat"
    note sp = subProof_split [OF br False]
    show ?thesis
    proof (cases "m \<le> ?k")
      case True
      have "subProof m (take ?k D) False = (if \<exists>p. m = 2 ^ p
          then merkleTreeHash (take m (take ?k D)) # subProof m (take ?k D) True
          else subProof m (take ?k D) True)"
        using 1(1) [rule_format, of "take ?k D" m] 1(2) True br by auto
      with True show ?thesis unfolding sp by (simp add: min_def)
    next
      case gt: False
      have "m \<noteq> 2 ^ p" for p
      proof
        assume m: "m = 2 ^ p"
        from gt have "(2::nat) ^ e < 2 ^ p" by (simp add: m)
        then have "e < p" by simp
        moreover have "m < 2 ^ Suc e" using 1(3) False br by linarith
        then have "p < Suc e" unfolding m by (simp only: power_strict_increasing_iff [of "2::nat"] one_less_numeral_iff semiring_norm)
        ultimately show False by simp
      qed
      with gt show ?thesis unfolding sp by simp
    qed
  qed
qed

lemma subProof_nonempty: "0 < m \<Longrightarrow> m < length D \<Longrightarrow> subProof m D b \<noteq> []"
  by (subst subProof.simps) (auto simp: Let_def)

lemma fold_nodes_complete:
  assumes "0 < m" "m < length D"
  obtains fn sn seed tail where
    "strip_odd (m - 1) (length D - 1) = (fn, sn)"
    "subProof m D False = seed # tail"
    "fold_nodes fn sn seed seed tail = Some (0, merkleTreeHash (take m D), merkleTreeHash D)"
    "subProof m D True = (if fn = 0 then tail else seed # tail)"
    "fn = 0 \<longrightarrow> seed = merkleTreeHash (take m D)"
proof -
  obtain fn sn where st: "strip_odd (m - 1) (length D - 1) = (fn, sn)" by force
  have "length D \<le> 2 ^ length D" by (rule less_imp_le) (rule less_exp)
  from subProof_edge [OF assms this, of 0] obtain seed tail where
    p: "subProof m D False = seed # tail" and
    f: "\<And>rest. fold_nodes fn sn seed seed (tail @ rest) =
        fold_nodes 0 0 (merkleTreeHash (take m D)) (merkleTreeHash D) rest"
    by (auto simp: climbs_def st [simplified])
  have "fn = 0 \<longleftrightarrow> (\<exists>p. m = 2 ^ p)"
    using strip_odd_zero [of "m - 1" "length D - 1"] st assms(1) by simp
  with subProof_True [OF assms(1)] assms(2) p
  have "subProof m D True = (if fn = 0 then tail else seed # tail)"
    "fn = 0 \<longrightarrow> seed = merkleTreeHash (take m D)" by (auto split: if_splits)
  with that [OF st p] f [of "[]"] show ?thesis by simp
qed

subsection \<open>What the comparisons hash\<close>

text \<open>
  The inputs given to SHA-256 along an audit path, along a consistency proof (toward the
  new root), and in the whole tree: the soundness statements assume that SHA-256 does not
  collide on these, and nothing else about it.
\<close>

fun path_inputs :: "nat \<Rightarrow> nat \<Rightarrow> bytes \<Rightarrow> bytes list \<Rightarrow> bytes set" where
  "path_inputs fn sn acc [] = {}"
| "path_inputs fn sn acc (sib # rest) =
     (if fn mod 2 = 1 \<or> fn = sn
      then insert (merkleNodePrefix # sib @ acc)
        (path_inputs (fst (skip_edge fn sn) div 2) (snd (skip_edge fn sn) div 2) (merkleNodeHash sib acc) rest)
      else insert (merkleNodePrefix # acc @ sib)
        (path_inputs (fn div 2) (sn div 2) (merkleNodeHash acc sib) rest))"

definition inclusion_inputs :: "HarnessLedgerEntry \<Rightarrow> MerkleInclusionProof \<Rightarrow> bytes set" where
  "inclusion_inputs e p =
     insert (merkleLeafPrefix # merkleLeafData e)
       (case decodeNodes (mip_AuditPath p) of
          None \<Rightarrow> {}
        | Some ns \<Rightarrow> path_inputs (nat (mip_LeafIndex p)) (nat (mip_TreeSize p) - 1) (merkleLeafHash e) ns)"

lemma node_inj:
  assumes "merkleNodeHash a b = merkleNodeHash c d" "length a = length c"
    and "inj_on sha256 S" "merkleNodePrefix # a @ b \<in> S" "merkleNodePrefix # c @ d \<in> S"
  shows "a = c \<and> b = d"
  using inj_onD [OF assms(3) _ assms(4,5)] assms(1,2) by (simp add: merkleNodeHash_def)

lemma fold_path_inj:
  "\<lbrakk>fold_path fn sn a ps = fold_path fn sn b qs; length ps = length qs;
    list_all (\<lambda>x. length x = 32) (a # b # ps @ qs);
    inj_on sha256 (path_inputs fn sn a ps \<union> path_inputs fn sn b qs)\<rbrakk> \<Longrightarrow> a = b \<and> ps = qs"
proof (induction ps arbitrary: qs fn sn a b)
  case (Cons p ps)
  obtain q qs' where qs: "qs = q # qs'" using Cons.prems(2) by (cases qs) auto
  show ?case
  proof (cases "fn mod 2 = 1 \<or> fn = sn")
    case True
    let ?f = "fst (skip_edge fn sn) div 2" and ?s = "snd (skip_edge fn sn) div 2"
    have "merkleNodeHash p a = merkleNodeHash q b \<and> ps = qs'"
      by (rule Cons.IH [of ?f ?s])
        (use Cons.prems(1-3) True inj_on_subset [OF Cons.prems(4), of "path_inputs ?f ?s (merkleNodeHash p a) ps \<union>
            path_inputs ?f ?s (merkleNodeHash q b) qs'"] in \<open>auto simp: qs\<close>)
    with node_inj [of p a q b, OF _ _ Cons.prems(4)] Cons.prems(3) True show ?thesis
      by (simp add: qs)
  next
    case False
    have "merkleNodeHash a p = merkleNodeHash b q \<and> ps = qs'"
      by (rule Cons.IH [of "fn div 2" "sn div 2"])
        (use Cons.prems(1-3) False inj_on_subset [OF Cons.prems(4), of "path_inputs (fn div 2) (sn div 2) (merkleNodeHash a p) ps \<union>
            path_inputs (fn div 2) (sn div 2) (merkleNodeHash b q) qs'"] in \<open>auto simp: qs\<close>)
    with node_inj [of a p b q, OF _ _ Cons.prems(4)] Cons.prems(3) False show ?thesis
      by (simp add: qs)
  qed
qed simp

fun sr_inputs :: "nat \<Rightarrow> nat \<Rightarrow> bytes \<Rightarrow> bytes list \<Rightarrow> bytes set" where
  "sr_inputs fn sn sr [] = {}"
| "sr_inputs fn sn sr (node # rest) =
     (if fn mod 2 = 1 \<or> fn = sn
      then insert (merkleNodePrefix # node @ sr)
        (sr_inputs (fst (skip_edge fn sn) div 2) (snd (skip_edge fn sn) div 2) (merkleNodeHash node sr) rest)
      else insert (merkleNodePrefix # sr @ node)
        (sr_inputs (fn div 2) (sn div 2) (merkleNodeHash sr node) rest))"

lemma fold_nodes_inj:
  "\<lbrakk>fold_nodes fn sn fa a ps = Some (0, x, r); fold_nodes fn sn fb b qs = Some (0, y, r);
    list_all (\<lambda>x. length x = 32) (a # b # ps @ qs);
    inj_on sha256 (sr_inputs fn sn a ps \<union> sr_inputs fn sn b qs)\<rbrakk> \<Longrightarrow> a = b \<and> ps = qs"
proof (induction ps arbitrary: qs fn sn a b fa fb)
  case Nil
  then show ?case by (cases qs) auto
next
  case (Cons p ps)
  then obtain q qs' where qs: "qs = q # qs'" by (cases qs) auto
  have sn: "sn \<noteq> 0" using Cons.prems(1) by (simp split: if_splits)
  show ?case
  proof (cases "fn mod 2 = 1 \<or> fn = sn")
    case True
    let ?f = "fst (skip_edge fn sn) div 2" and ?s = "snd (skip_edge fn sn) div 2"
    have "merkleNodeHash p a = merkleNodeHash q b \<and> ps = qs'"
      by (rule Cons.IH [of ?f ?s "merkleNodeHash p fa" _ "merkleNodeHash q fb"])
        (use Cons.prems(1-3) True sn inj_on_subset [OF Cons.prems(4), of "sr_inputs ?f ?s (merkleNodeHash p a) ps \<union>
            sr_inputs ?f ?s (merkleNodeHash q b) qs'"] in \<open>auto simp: qs Let_def case_prod_beta\<close>)
    with node_inj [of p a q b, OF _ _ Cons.prems(4)] Cons.prems(3) True show ?thesis
      by (simp add: qs)
  next
    case False
    have "merkleNodeHash a p = merkleNodeHash b q \<and> ps = qs'"
      by (rule Cons.IH [of "fn div 2" "sn div 2" fa _ fb])
        (use Cons.prems(1-3) False sn inj_on_subset [OF Cons.prems(4), of "sr_inputs (fn div 2) (sn div 2) (merkleNodeHash a p) ps \<union>
            sr_inputs (fn div 2) (sn div 2) (merkleNodeHash b q) qs'"] in \<open>auto simp: qs\<close>)
    with node_inj [of a p b q, OF _ _ Cons.prems(4)] Cons.prems(3) False show ?thesis
      by (simp add: qs)
  qed
qed

text \<open>The state in which \<^verbatim>\<open>VerifyConsistency\<close> enters its loop.\<close>

definition consistency_start ::
  "MerkleConsistencyProof \<Rightarrow> string \<Rightarrow> (nat \<times> nat \<times> bytes \<times> bytes list) option" where
  "consistency_start p oldRoot =
     (case decodeNodes (mcp_Path p) of
        None \<Rightarrow> None
      | Some [] \<Rightarrow> None
      | Some (p0 # ps) \<Rightarrow>
          (let (fn, sn) = strip_odd (nat (mcp_OldSize p) - 1) (nat (mcp_NewSize p) - 1)
           in if fn = 0 then Some (fn, sn, decodeRoot oldRoot, p0 # ps) else Some (fn, sn, p0, ps)))"

definition consistency_inputs :: "MerkleConsistencyProof \<Rightarrow> string \<Rightarrow> bytes set" where
  "consistency_inputs p oldRoot =
     (case consistency_start p oldRoot of
        None \<Rightarrow> {} | Some (fn, sn, seed, rest) \<Rightarrow> sr_inputs fn sn seed rest)"

lemma VerifyConsistency_iff:
  assumes "0 < mcp_OldSize p" "mcp_OldSize p < mcp_NewSize p"
  shows "VerifyConsistency p oldRoot newRoot \<longleftrightarrow>
     (\<exists>fn sn seed rest fr sr. consistency_start p oldRoot = Some (fn, sn, seed, rest) \<and>
        fold_nodes fn sn seed seed rest = Some (0, fr, sr) \<and>
        EncodeToString fr = oldRoot \<and> EncodeToString sr = newRoot)"
  using assms
  by (auto simp: VerifyConsistency_def consistency_start_def Let_def
      split: option.splits list.splits prod.splits if_splits)

lemma decodeRoot_32 [simp]: "length (decodeRoot s) = 32"
  by (simp add: decodeRoot_def split: option.split)

lemma decodeRoot_encode [simp]: "length b = 32 \<Longrightarrow> decodeRoot (EncodeToString b) = b"
  by (simp add: decodeRoot_def)

lemma consistency_start_32:
  "consistency_start p r = Some (fn, sn, seed, rest) \<Longrightarrow>
   (fn, sn) = strip_odd (nat (mcp_OldSize p) - 1) (nat (mcp_NewSize p) - 1) \<and>
   (fn = 0 \<longrightarrow> seed = decodeRoot r) \<and> list_all (\<lambda>x. length x = 32) (seed # rest)"
  by (auto simp: consistency_start_def Let_def dest!: decodeNodes_length
      split: option.splits list.splits prod.splits if_splits)

subsection \<open>The tree hash determines the leaves\<close>

lemma computeLeafHashes_simps [simp]:
  "length (computeLeafHashes es) = length es"
  "take k (computeLeafHashes es) = computeLeafHashes (take k es)"
  "drop k (computeLeafHashes es) = computeLeafHashes (drop k es)"
  by (simp_all add: computeLeafHashes_def take_map drop_map)

lemma computeLeafHashes_nth: "i < length es \<Longrightarrow> computeLeafHashes es ! i = merkleLeafHash (es ! i)"
  by (simp add: computeLeafHashes_def)

definition tree_top :: "HarnessLedgerEntry list \<Rightarrow> bytes" where
  "tree_top es =
     (if length es = 0 then []
      else if length es = 1 then merkleLeafPrefix # merkleLeafData (es ! 0)
      else let k = largestPowerOfTwoLessThan (length es) in
        merkleNodePrefix # merkleTreeHash (computeLeafHashes (take k es)) @
          merkleTreeHash (computeLeafHashes (drop k es)))"

function tree_inputs :: "HarnessLedgerEntry list \<Rightarrow> bytes set" where
  "tree_inputs es =
     insert (tree_top es)
       (if length es \<le> 1 then {}
        else let k = largestPowerOfTwoLessThan (length es)
             in tree_inputs (take k es) \<union> tree_inputs (drop k es))"
  by pat_completeness auto
termination
proof (relation "measure length", goal_cases)
  case (2 es k)
  then show ?case using largestPowerOfTwoLessThan_bounds [of "length es"] by (simp; linarith)
next
  case (3 es k)
  then show ?case using largestPowerOfTwoLessThan_bounds [of "length es"] by (simp; linarith)
qed simp

declare tree_inputs.simps [simp del]

lemma merkleTreeHash_top: "merkleTreeHash (computeLeafHashes es) = sha256 (tree_top es)"
  by (subst merkleTreeHash.simps)
    (auto simp: tree_top_def Let_def computeLeafHashes_nth merkleLeafHash_def merkleNodeHash_def)

lemma tree_top_in: "tree_top es \<in> tree_inputs es"
  by (subst tree_inputs.simps) simp

lemma tree_top_node:
  assumes "\<not> length es \<le> 1"
  shows "tree_top es = merkleNodePrefix #
    merkleTreeHash (computeLeafHashes (take (largestPowerOfTwoLessThan (length es)) es)) @
    merkleTreeHash (computeLeafHashes (drop (largestPowerOfTwoLessThan (length es)) es))"
proof -
  from assms have "length es \<noteq> 0" "length es \<noteq> 1" by linarith+
  then show ?thesis by (simp only: tree_top_def if_False Let_def)
qed

lemma merkleTreeHash_binds:
  "\<lbrakk>merkleTreeHash (computeLeafHashes es) = merkleTreeHash (computeLeafHashes fs);
    inj_on sha256 (tree_inputs es \<union> tree_inputs fs)\<rbrakk> \<Longrightarrow> map merkleLeafData es = map merkleLeafData fs"
proof (induction es arbitrary: fs rule: tree_inputs.induct)
  case (1 es)
  have top: "tree_top es = tree_top fs"
    by (rule inj_onD [OF 1(4)]) (use 1(3) in \<open>simp_all add: merkleTreeHash_top tree_top_in\<close>)
  show ?case
  proof (cases "length es \<le> 1")
    case True
    then consider "es = []" | e where "es = [e]" by (cases es) auto
    then show ?thesis
    proof cases
      case 1
      with top show ?thesis by (auto simp: tree_top_def Let_def split: if_splits)
    next
      case 2
      with top have "length fs = 1"
        by (auto simp: tree_top_def Let_def merkleLeafPrefix_def merkleNodePrefix_def split: if_splits)
      then obtain f where "fs = [f]" by (cases fs) auto
      with 2 top show ?thesis by (simp add: tree_top_def)
    qed
  next
    case False
    define k l where "k = largestPowerOfTwoLessThan (length es)" and "l = largestPowerOfTwoLessThan (length fs)"
    from False top have "length fs \<noteq> 0" "length fs \<noteq> 1"
      by (auto simp: tree_top_def Let_def merkleLeafPrefix_def merkleNodePrefix_def split: if_splits)
    then have fs: "\<not> length fs \<le> 1" by linarith
    have eq: "merkleTreeHash (computeLeafHashes (take k es)) = merkleTreeHash (computeLeafHashes (take l fs))"
      "merkleTreeHash (computeLeafHashes (drop k es)) = merkleTreeHash (computeLeafHashes (drop l fs))"
      using top unfolding tree_top_node [OF False] tree_top_node [OF fs] k_def l_def
      by (simp_all add: length_merkleTreeHash)
    have sub: "tree_inputs es = insert (tree_top es) (tree_inputs (take k es) \<union> tree_inputs (drop k es))"
      "tree_inputs fs = insert (tree_top fs) (tree_inputs (take l fs) \<union> tree_inputs (drop l fs))"
      using False fs by (simp_all add: tree_inputs.simps [of es] tree_inputs.simps [of fs] k_def l_def Let_def)
    have "map merkleLeafData (take k es) = map merkleLeafData (take l fs)"
      by (rule 1(1) [OF False k_def eq(1)], rule inj_on_subset [OF 1(4)]) (auto simp: sub)
    moreover have "map merkleLeafData (drop k es) = map merkleLeafData (drop l fs)"
      by (rule 1(2) [OF False k_def eq(2)], rule inj_on_subset [OF 1(4)]) (auto simp: sub)
    ultimately show ?thesis
      by (metis append_take_drop_id map_append)
  qed
qed

lemma merkleLeafHash_eq:
  "merkleLeafHash e = merkleLeafHash f \<and> Q \<Longrightarrow>
   sha256 (merkleLeafPrefix # merkleLeafData e) = sha256 (merkleLeafPrefix # merkleLeafData f)"
  by (simp add: merkleLeafHash_def)

text \<open>The literal of the source is the digest of the empty message, by evaluation.\<close>

lemma EmptyMerkleRoot_eq: "EncodeToString (sha256 []) = EmptyMerkleRoot"
  by code_simp

lemma MerkleRoot_Nil: "MerkleRoot [] = EmptyMerkleRoot"
  by (simp add: MerkleRoot_def computeLeafHashes_def merkleTreeHash.simps EmptyMerkleRoot_eq)

subsection \<open>The producers' proofs are accepted\<close>

lemma InclusionProof_accepted:
  assumes "0 \<le> i" "i < int (length es)"
  shows "\<exists>p. InclusionProof es i = Inr p \<and> mip_LeafIndex p = i \<and> mip_TreeSize p = int (length es) \<and>
    decodeNodes (mip_AuditPath p) = Some (inclusionPath (nat i) (computeLeafHashes es)) \<and>
    VerifyInclusion (es ! nat i) p (MerkleRoot es)"
proof -
  have i: "nat i < length es" using assms by simp
  have "fold_path (nat i) (length es - 1) (merkleLeafHash (es ! nat i))
      (inclusionPath (nat i) (computeLeafHashes es)) = merkleTreeHash (computeLeafHashes es)"
    using fold_path_complete [of "nat i" "computeLeafHashes es"] i by (simp add: computeLeafHashes_nth)
  then show ?thesis
    using assms i
    by (auto simp: InclusionProof_def VerifyInclusion_def Let_def length_inclusionPath
        fold_siblings_eq inclusionPath_32 MerkleRoot_def)
qed

lemma ConsistencyProof_accepted:
  assumes "0 < m" "m < int (length es)"
  shows "\<exists>p. ConsistencyProof m es = Inr p \<and> VerifyConsistency p (MerkleRoot (take (nat m) es)) (MerkleRoot es)"
proof -
  let ?D = "computeLeafHashes es"
  define p where "p = \<lparr>mcp_OldSize = m, mcp_NewSize = int (length es),
    mcp_Path = map EncodeToString (subProof (nat m) ?D True)\<rparr>"
  have m: "0 < nat m" "nat m < length ?D" using assms by auto
  obtain fn sn seed tail where st: "strip_odd (nat m - 1) (length ?D - 1) = (fn, sn)"
    and sp: "subProof (nat m) ?D False = seed # tail"
    and fold: "fold_nodes fn sn seed seed tail = Some (0, merkleTreeHash (take (nat m) ?D), merkleTreeHash ?D)"
    and spT: "subProof (nat m) ?D True = (if fn = 0 then tail else seed # tail)"
    and sd: "fn = 0 \<longrightarrow> seed = merkleTreeHash (take (nat m) ?D)"
    by (rule fold_nodes_complete [OF m])
  have dec: "decodeNodes (mcp_Path p) = Some (subProof (nat m) ?D True)"
    by (simp add: p_def subProof_32)
  have "tail \<noteq> []" if "fn = 0"
    using subProof_nonempty [OF m] spT that by auto
  then have "consistency_start p (MerkleRoot (take (nat m) es)) = Some (fn, sn, seed, tail)"
    using st sd unfolding consistency_start_def dec spT
    by (cases tail) (auto simp: p_def MerkleRoot_def Let_def length_merkleTreeHash)
  then have "VerifyConsistency p (MerkleRoot (take (nat m) es)) (MerkleRoot es)"
    using fold assms by (subst VerifyConsistency_iff) (auto simp: p_def MerkleRoot_def)
  then show ?thesis using assms by (simp add: ConsistencyProof_def p_def Let_def)
qed

subsection \<open>The split-point loop at 64 bits\<close>

text \<open>
  \<^verbatim>\<open>for k<<1 < n { k <<= 1 }\<close> with Go's wrapping shift; \<open>None\<close> when the rounds given are not
  enough. \<^verbatim>\<open>VerifyInclusion\<close> runs this loop on the proof's own \<^verbatim>\<open>TreeSize\<close>.
\<close>

fun pow2_loop64 :: "nat \<Rightarrow> int \<Rightarrow> int \<Rightarrow> int option" where
  "pow2_loop64 0 n k = None"
| "pow2_loop64 (Suc rounds) n k =
     (if i64 (2 * k) < n then pow2_loop64 rounds n (i64 (2 * k)) else Some k)"

lemma i64_pow2: "a \<le> 61 \<Longrightarrow> i64 (2 * 2 ^ a) = 2 ^ Suc a"
proof -
  assume "a \<le> 61"
  then have "(2::int) ^ Suc a \<le> 2 ^ 62" by (intro power_increasing) auto
  moreover have "- (2 ^ 63) \<le> (2::int) ^ Suc a" by (rule order_trans [of _ 0]) simp_all
  ultimately have "in_i64 (2 ^ Suc a)" by (auto simp: in_i64_def simp del: power_Suc)
  then show ?thesis by (simp only: power_Suc [symmetric] i64_id)
qed

lemma pow2_loop64_ok:
  "\<lbrakk>n \<le> 2 ^ 62; a \<le> 61; 62 \<le> a + rounds\<rbrakk> \<Longrightarrow>
   pow2_loop64 rounds (int n) (2 ^ a) = Some (int (pow2_loop n (2 ^ a)))"
proof (induction rounds arbitrary: a)
  case (Suc r)
  show ?case
  proof (cases "2 * 2 ^ a < n")
    case True
    then have "(2::nat) ^ Suc a < 2 ^ 62" using Suc.prems(1) by simp
    then have "Suc a \<le> 61" using power_less_imp_less_exp [of "2::nat" "Suc a" 62] by simp
    from Suc.IH [OF Suc.prems(1) this] Suc.prems(3)
    have "pow2_loop64 r (int n) (2 ^ Suc a) = Some (int (pow2_loop n (2 ^ Suc a)))" by simp
    moreover have "pow2_loop n (2 ^ a) = pow2_loop n (2 ^ Suc a)"
      using True by (subst pow2_loop.simps) simp
    moreover have "(2::int) ^ Suc a < int n"
      using True by (metis of_nat_less_iff of_nat_numeral of_nat_power power_Suc)
    ultimately show ?thesis by (simp only: pow2_loop64.simps i64_pow2 [OF Suc.prems(2)] if_True)
  next
    case False
    then have "\<not> (2::int) ^ Suc a < int n"
      by (metis of_nat_less_iff of_nat_numeral of_nat_power power_Suc)
    moreover have "pow2_loop n (2 ^ a) = 2 ^ a" using False by (subst pow2_loop.simps) simp
    ultimately show ?thesis by (simp only: pow2_loop64.simps i64_pow2 [OF Suc.prems(2)] if_False) simp
  qed
qed simp

lemma pow2_loop64_zero: "0 < n \<Longrightarrow> pow2_loop64 rounds n 0 = None"
  by (induction rounds) (auto simp: i64_def)

lemma pow2_loop64_wrapped: "0 < n \<Longrightarrow> pow2_loop64 rounds n (- (2 ^ 63)) = None"
  by (cases rounds) (auto simp: i64_def pow2_loop64_zero)

lemma pow2_loop64_stuck:
  assumes "2 ^ 62 < n"
  shows "a \<le> 62 \<Longrightarrow> pow2_loop64 rounds n (2 ^ a) = None"
proof (induction rounds arbitrary: a)
  case (Suc r)
  show ?case
  proof (cases "a = 62")
    case True
    have "i64 (2 * 2 ^ 62) = - (2 ^ 63)" by (simp add: i64_def)
    then show ?thesis using True assms pow2_loop64_wrapped [of n r] by simp
  next
    case False
    with Suc.prems have a: "a \<le> 61" by simp
    then have "(2::int) ^ Suc a \<le> 2 ^ 62" by (intro power_increasing) auto
    with assms have "(2::int) ^ Suc a < n" by linarith
    with a Suc.IH [of "Suc a"] show ?thesis by (simp only: pow2_loop64.simps i64_pow2 if_True)
  qed
qed simp

subsection \<open>Properties\<close>

text \<open>
  Every inclusion proof verifies: for an index in range \<^verbatim>\<open>InclusionProof\<close> returns a
  proof, and \<^verbatim>\<open>VerifyInclusion\<close> accepts it for that entry under the log's root.
\<close>

theorem inclusion_complete:
  assumes "0 \<le> i" and "i < int (length es)"
  shows "\<exists>p. InclusionProof es i = Inr p \<and> VerifyInclusion (es ! nat i) p (MerkleRoot es)"
  using InclusionProof_accepted [OF assms] by blast

theorem inclusion_complete_witness:
  "let es = map (\<lambda>t. NewHarnessLedgerEntry t ''c'' LedgerEventAgentTurn ''s'' []) [1, 2, 3]
   in \<exists>p. InclusionProof es 2 = Inr p \<and> VerifyInclusion (es ! 2) p (MerkleRoot es)"
  using inclusion_complete [of 2 "map (\<lambda>t. NewHarnessLedgerEntry t ''c'' LedgerEventAgentTurn ''s'' []) [1, 2, 3]"]
  by simp

text \<open>
  (C3) What \<^verbatim>\<open>VerifyInclusion\<close> accepts is in the log: under the root of \<open>es\<close>, a proof for
  its size shows that the leaf data (the decoded chain hash) of the given entry is that of
  the entry at the proof's index, unless SHA-256 collides on the inputs hashed along the
  two paths.
\<close>

theorem inclusion_sound:
  assumes "VerifyInclusion e p (MerkleRoot es)" and "mip_TreeSize p = int (length es)"
    and "InclusionProof es (mip_LeafIndex p) = Inr h"
    and "inj_on sha256 (inclusion_inputs e p \<union> inclusion_inputs (es ! nat (mip_LeafIndex p)) h)"
  shows "merkleLeafData e = merkleLeafData (es ! nat (mip_LeafIndex p))"
proof -
  define i where "i = mip_LeafIndex p"
  let ?e = "es ! nat i"
  have r: "0 \<le> i" "i < int (length es)"
    using assms(1,2) by (auto simp: VerifyInclusion_def i_def split: if_splits)
  from InclusionProof_accepted [OF r] assms(3)
  have h: "mip_LeafIndex h = i" "mip_TreeSize h = int (length es)" "VerifyInclusion ?e h (MerkleRoot es)"
    by (auto simp: i_def)
  from assms(1) obtain ps where ps: "decodeNodes (mip_AuditPath p) = Some ps"
    "fold_path (nat i) (length es - 1) (merkleLeafHash e) ps = merkleTreeHash (computeLeafHashes es)"
    "length ps = inclusionPathLen (nat i) (length es)"
    by (auto simp: VerifyInclusion_def Let_def fold_siblings_eq i_def assms(2) MerkleRoot_def
        dest: decodeNodes_length split: if_splits option.splits)
  from h obtain qs where qs: "decodeNodes (mip_AuditPath h) = Some qs"
    "fold_path (nat i) (length es - 1) (merkleLeafHash ?e) qs = merkleTreeHash (computeLeafHashes es)"
    "length qs = inclusionPathLen (nat i) (length es)"
    by (auto simp: VerifyInclusion_def Let_def fold_siblings_eq MerkleRoot_def
        dest: decodeNodes_length split: if_splits option.splits)
  have inj: "inj_on sha256 (inclusion_inputs e p \<union> inclusion_inputs ?e h)" using assms(4) by (simp add: i_def)
  have "merkleLeafHash e = merkleLeafHash ?e \<and> ps = qs"
  proof (rule fold_path_inj)
    show "inj_on sha256 (path_inputs (nat i) (length es - 1) (merkleLeafHash e) ps \<union>
        path_inputs (nat i) (length es - 1) (merkleLeafHash ?e) qs)"
      by (rule inj_on_subset [OF inj]) (use ps(1) qs(1) h assms(2) in \<open>auto simp: inclusion_inputs_def i_def\<close>)
  qed (use ps qs decodeNodes_length [OF ps(1)] decodeNodes_length [OF qs(1)] in auto)
  then have "merkleLeafPrefix # merkleLeafData e = merkleLeafPrefix # merkleLeafData ?e"
    by (rule inj_onD [OF inj, OF merkleLeafHash_eq]) (simp_all add: inclusion_inputs_def)
  then show ?thesis by (simp add: i_def)
qed

theorem inclusion_sound_witness:
  "let e = NewHarnessLedgerEntry 1 ''c'' LedgerEventAgentTurn ''s'' [];
       p = \<lparr>mip_LeafIndex = 0, mip_TreeSize = 1, mip_AuditPath = []\<rparr>
   in VerifyInclusion e p (MerkleRoot [e]) \<and> merkleLeafData e = merkleLeafData ([e] ! nat (mip_LeafIndex p))"
proof -
  define e where "e = NewHarnessLedgerEntry 1 ''c'' LedgerEventAgentTurn ''s'' []"
  define p where "p = \<lparr>mip_LeafIndex = 0, mip_TreeSize = 1, mip_AuditPath = []\<rparr>"
  have h: "InclusionProof [e] (mip_LeafIndex p) = Inr p"
    by (simp add: InclusionProof_def p_def inclusionPath.simps)
  have v: "VerifyInclusion e p (MerkleRoot [e])"
    using InclusionProof_accepted [of 0 "[e]"] h by (simp add: p_def)
  have "merkleLeafData e = merkleLeafData ([e] ! nat (mip_LeafIndex p))"
    by (rule inclusion_sound [OF v _ h]) (simp_all add: p_def inclusion_inputs_def)
  with v show ?thesis by (simp add: Let_def e_def p_def)
qed

lemma ConsistencyProof_verifies:
  assumes "0 \<le> m" and "m \<le> int (length es)"
  shows "\<exists>p. ConsistencyProof m es = Inr p \<and> VerifyConsistency p (MerkleRoot (take (nat m) es)) (MerkleRoot es)"
proof -
  have hex: "isHexSize (MerkleRoot fs)" for fs
    by (simp add: isHexSize_def MerkleRoot_def length_merkleTreeHash)
  consider "m = 0" | "0 < m" "m < int (length es)" | "0 < m" "m = int (length es)"
    using assms by linarith
  then show ?thesis
  proof cases
    case 1
    then show ?thesis
      using assms MerkleRoot_Nil by (simp add: ConsistencyProof_def VerifyConsistency_def Let_def hex)
  next
    case 2
    then show ?thesis by (rule ConsistencyProof_accepted)
  next
    case 3
    then show ?thesis by (simp add: ConsistencyProof_def VerifyConsistency_def Let_def hex)
  qed
qed

text \<open>
  A legitimate append verifies: for every old size up to the log's, \<^verbatim>\<open>ConsistencyProof\<close>
  returns a proof that \<^verbatim>\<open>VerifyConsistency\<close> accepts for the roots of the prefix and of the
  whole log.
\<close>

theorem consistency_complete:
  assumes "0 \<le> m" and "m \<le> int (length es)"
  shows "\<exists>p. ConsistencyProof m es = Inr p \<and> VerifyConsistency p (MerkleRoot (take (nat m) es)) (MerkleRoot es)"
  using assms by (rule ConsistencyProof_verifies)

theorem consistency_complete_witness:
  "let es = map (\<lambda>t. NewHarnessLedgerEntry t ''c'' LedgerEventAgentTurn ''s'' []) [1, 2, 3]
   in \<exists>p. ConsistencyProof 2 es = Inr p \<and> VerifyConsistency p (MerkleRoot (take 2 es)) (MerkleRoot es)"
  using consistency_complete [of 2 "map (\<lambda>t. NewHarnessLedgerEntry t ''c'' LedgerEventAgentTurn ''s'' []) [1, 2, 3]"]
  by simp

text \<open>
  (C4) No rewritten history passes: when \<^verbatim>\<open>VerifyConsistency\<close> accepts an old root against
  the root of \<open>es\<close>, the old root is the root of the first \<^verbatim>\<open>OldSize\<close> entries of \<open>es\<close>,
  whatever nodes the proof carries, unless SHA-256 collides on the inputs hashed toward
  the new root by this proof and by the honest one.
\<close>

theorem consistency_sound:
  assumes "VerifyConsistency p oldRoot (MerkleRoot es)" and "mcp_NewSize p = int (length es)"
    and "ConsistencyProof (mcp_OldSize p) es = Inr h"
    and "inj_on sha256 (consistency_inputs p oldRoot \<union>
           consistency_inputs h (MerkleRoot (take (nat (mcp_OldSize p)) es)))"
  shows "oldRoot = MerkleRoot (take (nat (mcp_OldSize p)) es)"
proof -
  define m where "m = mcp_OldSize p"
  have m: "0 \<le> m" "m \<le> int (length es)"
    using assms(1,2) by (auto simp: VerifyConsistency_def Let_def m_def split: if_splits)
  consider "m = 0" | "m = int (length es)" | "0 < m" "m < int (length es)" using m by linarith
  then have "oldRoot = MerkleRoot (take (nat m) es)"
  proof cases
    case 1
    with assms(1) show ?thesis
      by (auto simp: VerifyConsistency_def Let_def m_def [symmetric] MerkleRoot_Nil split: if_splits)
  next
    case 2
    with assms(1,2) show ?thesis
      by (auto simp: VerifyConsistency_def Let_def m_def [symmetric] MerkleRoot_Nil split: if_splits)
  next
    case 3
    from ConsistencyProof_accepted [OF 3] assms(3)
    have vh: "VerifyConsistency h (MerkleRoot (take (nat m) es)) (MerkleRoot es)" by (simp add: m_def)
    have h: "mcp_OldSize h = m" "mcp_NewSize h = int (length es)"
      using assms(3) by (auto simp: ConsistencyProof_def Let_def m_def split: if_splits)
    from assms(1) 3 obtain fn sn seed rest fr where
      a: "consistency_start p oldRoot = Some (fn, sn, seed, rest)"
        "fold_nodes fn sn seed seed rest = Some (0, fr, merkleTreeHash (computeLeafHashes es))"
        "EncodeToString fr = oldRoot"
      by (subst (asm) VerifyConsistency_iff) (auto simp: m_def assms(2) MerkleRoot_def)
    from vh 3 obtain fn' sn' seed' rest' fr' where
      b: "consistency_start h (MerkleRoot (take (nat m) es)) = Some (fn', sn', seed', rest')"
        "fold_nodes fn' sn' seed' seed' rest' = Some (0, fr', merkleTreeHash (computeLeafHashes es))"
        "EncodeToString fr' = MerkleRoot (take (nat m) es)"
      by (subst (asm) VerifyConsistency_iff) (auto simp: h MerkleRoot_def)
    have same: "fn' = fn" "sn' = sn"
      using consistency_start_32 [OF a(1)] consistency_start_32 [OF b(1)] assms(2) h
      by (metis m_def prod.inject)+
    have "seed = seed' \<and> rest = rest'"
      by (rule fold_nodes_inj [OF a(2) b(2) [unfolded same]])
        (use assms(4) a(1) b(1) consistency_start_32 [OF a(1)] consistency_start_32 [OF b(1)] in
          \<open>auto simp: consistency_inputs_def same m_def\<close>)
    with a(2,3) b(2,3) same show ?thesis by simp
  qed
  then show ?thesis by (simp add: m_def)
qed

theorem consistency_sound_witness:
  "let es = map (\<lambda>t. NewHarnessLedgerEntry t ''c'' LedgerEventAgentTurn ''s'' []) [1, 2]
   in \<exists>p. VerifyConsistency p (MerkleRoot (take 1 es)) (MerkleRoot es) \<and> mcp_OldSize p = 1 \<and>
     MerkleRoot (take 1 es) = MerkleRoot (take (nat (mcp_OldSize p)) es)"
proof -
  define es where "es = map (\<lambda>t. NewHarnessLedgerEntry t ''c'' LedgerEventAgentTurn ''s'' []) [1, 2]"
  obtain p where p: "ConsistencyProof 1 es = Inr p" "VerifyConsistency p (MerkleRoot (take 1 es)) (MerkleRoot es)"
    using ConsistencyProof_accepted [of 1 es] by (auto simp: es_def)
  have sz: "mcp_OldSize p = 1" "mcp_NewSize p = 2" "length (mcp_Path p) \<le> 1"
    using p(1) by (auto simp: ConsistencyProof_def es_def subProof.simps largestPowerOfTwoLessThan_def pow2_loop.simps)
  have "inj_on sha256 (consistency_inputs p (MerkleRoot (take 1 es)))"
    using sz by (cases "mcp_Path p")
      (auto simp: consistency_inputs_def consistency_start_def inj_on_def Let_def split: option.splits prod.splits if_splits)
  then have "MerkleRoot (take 1 es) = MerkleRoot (take (nat (mcp_OldSize p)) es)"
    by (intro consistency_sound [OF p(2), of p]) (use p(1) sz in \<open>simp_all add: es_def\<close>)
  with p(2) sz show ?thesis unfolding es_def Let_def by blast
qed

text \<open>
  The root determines the log: two logs with the same root have the same leaf data,
  entry for entry (so also the same length), unless SHA-256 collides inside the two trees.
  The leaf and node prefixes are what makes this hold for logs of different sizes.
\<close>

theorem MerkleRoot_binds_log:
  assumes "MerkleRoot es = MerkleRoot fs" and "inj_on sha256 (tree_inputs es \<union> tree_inputs fs)"
  shows "map merkleLeafData es = map merkleLeafData fs"
  using merkleTreeHash_binds [OF _ assms(2)] assms(1) by (simp add: MerkleRoot_def)

theorem MerkleRoot_binds_log_witness:
  "let es = [NewHarnessLedgerEntry 1 ''c'' LedgerEventAgentTurn ''s'' []]
   in MerkleRoot es = MerkleRoot (rev es) \<and> map merkleLeafData es = map merkleLeafData (rev es)"
  using MerkleRoot_binds_log [of "[NewHarnessLedgerEntry 1 ''c'' LedgerEventAgentTurn ''s'' []]"
      "rev [NewHarnessLedgerEntry 1 ''c'' LedgerEventAgentTurn ''s'' []]"]
  by (simp add: tree_inputs.simps Let_def)

text \<open>
  The split-point loop with Go's 64-bit shift ends with the split point for every
  size up to \<open>2^62\<close>, within 62 rounds, and never ends for a larger one: \<^verbatim>\<open>k<<1\<close> wraps to
  the smallest integer, then to zero, and stays there. \<^verbatim>\<open>VerifyInclusion\<close> therefore does
  not return on a proof whose claimed \<^verbatim>\<open>TreeSize\<close> is above \<open>2^62\<close>.
\<close>

theorem largestPowerOfTwo_64_bits:
  assumes "0 < n" and "n < 2 ^ 63"
  shows "(n \<le> 2 ^ 62 \<longrightarrow> pow2_loop64 62 n 1 = Some (int (largestPowerOfTwoLessThan (nat n)))) \<and>
    (2 ^ 62 < n \<longrightarrow> (\<forall>rounds. pow2_loop64 rounds n 1 = None))"
proof (intro conjI impI allI)
  assume "n \<le> 2 ^ 62"
  then have "nat n \<le> 2 ^ 62" by (simp add: nat_le_iff)
  from pow2_loop64_ok [OF this, of 0 62] assms(1)
  show "pow2_loop64 62 n 1 = Some (int (largestPowerOfTwoLessThan (nat n)))"
    by (simp only: largestPowerOfTwoLessThan_def power_0) simp
next
  fix rounds
  assume "2 ^ 62 < n"
  then show "pow2_loop64 rounds n 1 = None"
    using pow2_loop64_stuck [of n 0 rounds] by simp
qed

theorem largestPowerOfTwo_64_bits_witness:
  "pow2_loop64 62 5 1 = Some 4 \<and> pow2_loop64 200 (2 ^ 62 + 1) 1 = None"
proof -
  have "largestPowerOfTwoLessThan (nat 5) = 4"
    by (simp add: largestPowerOfTwoLessThan_def pow2_loop.simps)
  moreover have "pow2_loop64 62 5 1 = Some (int (largestPowerOfTwoLessThan (nat 5)))"
    using largestPowerOfTwo_64_bits [of 5] by simp
  moreover have "pow2_loop64 200 (2 ^ 62 + 1) 1 = None"
    using largestPowerOfTwo_64_bits [of "2 ^ 62 + 1"] by simp
  ultimately show ?thesis by simp
qed

end
