(* ===== verification/Replay.thy ===== *)
theory Replay
  imports Merkle
begin

section \<open>Replay of a run from its ledger (pkg/contract/replay.go)\<close>

text \<open>
  The reader that rebuilds a run's control graph: two passes over the entries with maps
  from cycle ids to positions, as in the source. The results give the graph in closed
  form (which edges, which segments, in which order), and that nothing is rebuilt from a
  chain that does not verify.
\<close>

type_synonym EdgeKind = string

abbreviation EdgeSequence where "EdgeSequence \<equiv> ''sequence''"
abbreviation EdgeHandoff where "EdgeHandoff \<equiv> ''handoff''"

record Edge =
  ed_To :: nat
  ed_Kind :: EdgeKind

record Step =
  st_Index :: nat
  st_CycleID :: string
  st_Type :: LedgerEventType
  st_At :: int
  st_Agent :: string
  st_Gate :: string
  st_HandoffTo :: string
  st_Summary :: string
  st_Out :: "Edge list"

record CycleSegment =
  sg_CycleID :: string
  sg_Steps :: "nat list"
  sg_Terminal :: LedgerEventType

record ControlGraph =
  cg_Steps :: "Step list"
  cg_Cycles :: "CycleSegment list"

subsection \<open>The reader\<close>

definition mkStep :: "nat \<Rightarrow> HarnessLedgerEntry \<Rightarrow> Edge list \<Rightarrow> Step" where
  "mkStep i e out =
     \<lparr>st_Index = i, st_CycleID = le_CycleID e, st_Type = le_Type e, st_At = le_At e,
      st_Agent = le_Agent e, st_Gate = le_Gate e, st_HandoffTo = le_HandoffTo e,
      st_Summary = le_Summary e, st_Out = out\<rparr>"

definition addEdge :: "Step list \<Rightarrow> nat \<Rightarrow> nat \<Rightarrow> EdgeKind \<Rightarrow> Step list" where
  "addEdge steps i j kind =
     steps[i := (steps ! i)\<lparr>st_Out := st_Out (steps ! i) @ [\<lparr>ed_To = j, ed_Kind = kind\<rparr>]\<rparr>]"

text \<open>The locals of the first pass: the graph so far and the two maps.\<close>

record pass1 =
  p1_Steps :: "Step list"
  p1_Cycles :: "CycleSegment list"
  p1_cycleAt :: "string \<Rightarrow> nat option"
  p1_lastIdx :: "string \<Rightarrow> nat option"

definition reconstruct_entry :: "pass1 \<Rightarrow> nat \<times> HarnessLedgerEntry \<Rightarrow> pass1" where
  "reconstruct_entry p ie =
     (let (i, e) = ie; c = le_CycleID e;
          steps1 = p1_Steps p @ [mkStep i e []];
          steps2 = (case p1_lastIdx p c of
                      Some prevIdx \<Rightarrow> addEdge steps1 prevIdx i EdgeSequence
                    | None \<Rightarrow> steps1);
          cycles = p1_Cycles p
      in case p1_cycleAt p c of
           Some seg \<Rightarrow>
             \<lparr>p1_Steps = steps2,
              p1_Cycles = cycles[seg := (cycles ! seg)\<lparr>sg_Steps := sg_Steps (cycles ! seg) @ [i]\<rparr>],
              p1_cycleAt = p1_cycleAt p, p1_lastIdx = (p1_lastIdx p)(c \<mapsto> i)\<rparr>
         | None \<Rightarrow>
             \<lparr>p1_Steps = steps2,
              p1_Cycles = cycles @ [\<lparr>sg_CycleID = c, sg_Steps = [i], sg_Terminal = []\<rparr>],
              p1_cycleAt = (p1_cycleAt p)(c \<mapsto> length cycles), p1_lastIdx = (p1_lastIdx p)(c \<mapsto> i)\<rparr>)"

definition first_pass :: "HarnessLedgerEntry list \<Rightarrow> pass1" where
  "first_pass entries =
     foldl reconstruct_entry
       \<lparr>p1_Steps = [], p1_Cycles = [], p1_cycleAt = Map.empty, p1_lastIdx = Map.empty\<rparr>
       (enumerate 0 entries)"

text \<open>The inner loop of \<^verbatim>\<open>addHandoffEdges\<close>: the first later step of the target agent.\<close>

definition handoff_pickup :: "HarnessLedgerEntry list \<Rightarrow> nat \<Rightarrow> nat option" where
  "handoff_pickup entries i =
     (if le_Type (entries ! i) \<noteq> LedgerEventHandoffCreated then None
      else let target = le_HandoffTo (entries ! i) in
        if target = [] then None
        else find (\<lambda>j. le_Agent (entries ! j) = target) [i + 1..<length entries])"

definition addHandoffEdges :: "Step list \<Rightarrow> HarnessLedgerEntry list \<Rightarrow> Step list" where
  "addHandoffEdges steps entries =
     foldl (\<lambda>ss i. case handoff_pickup entries i of
                     None \<Rightarrow> ss | Some j \<Rightarrow> addEdge ss i j EdgeHandoff)
       steps [0..<length steps]"

definition reconstruct :: "HarnessLedgerEntry list \<Rightarrow> ControlGraph" where
  "reconstruct entries =
     (if length entries = 0 then \<lparr>cg_Steps = [], cg_Cycles = []\<rparr>
      else let p = first_pass entries;
               steps = addHandoffEdges (p1_Steps p) entries
           in \<lparr>cg_Steps = steps,
               cg_Cycles = map (\<lambda>seg. seg\<lparr>sg_Terminal := st_Type (steps ! last (sg_Steps seg))\<rparr>)
                 (p1_Cycles p)\<rparr>)"

text \<open>\<open>Inl i\<close> is \<^verbatim>\<open>BrokenLinkError\<close> with index \<open>i\<close>.\<close>

definition Replay :: "HarnessLedgerEntry list \<Rightarrow> int + ControlGraph" where
  "Replay entries =
     (let (brokenIndex, ok) = VerifyChain entries
      in if \<not> ok then Inl brokenIndex else Inr (reconstruct entries))"

definition ReplayVerified :: "HarnessLedgerEntry list \<Rightarrow> ControlGraph" where
  "ReplayVerified entries = reconstruct entries"

subsection \<open>The graph in closed form\<close>

text \<open>The cycle ids in first-seen order, and the positions of one cycle's entries.\<close>

definition cycle_ids :: "HarnessLedgerEntry list \<Rightarrow> string list" where
  "cycle_ids es = rev (remdups (rev (map le_CycleID es)))"

definition cycle_steps :: "HarnessLedgerEntry list \<Rightarrow> string \<Rightarrow> nat list" where
  "cycle_steps es c = filter (\<lambda>i. le_CycleID (es ! i) = c) [0..<length es]"

definition next_in_cycle :: "HarnessLedgerEntry list \<Rightarrow> nat \<Rightarrow> nat option" where
  "next_in_cycle es i = find (\<lambda>j. le_CycleID (es ! j) = le_CycleID (es ! i)) [i + 1..<length es]"

definition edge_of :: "EdgeKind \<Rightarrow> nat option \<Rightarrow> Edge list" where
  "edge_of kind t = (case t of None \<Rightarrow> [] | Some j \<Rightarrow> [\<lparr>ed_To = j, ed_Kind = kind\<rparr>])"

definition spec_step :: "HarnessLedgerEntry list \<Rightarrow> nat \<Rightarrow> Step" where
  "spec_step es i =
     mkStep i (es ! i) (edge_of EdgeSequence (next_in_cycle es i) @ edge_of EdgeHandoff (handoff_pickup es i))"

definition spec_segment :: "HarnessLedgerEntry list \<Rightarrow> string \<Rightarrow> CycleSegment" where
  "spec_segment es c =
     \<lparr>sg_CycleID = c, sg_Steps = cycle_steps es c,
      sg_Terminal = le_Type (es ! last (cycle_steps es c))\<rparr>"

definition spec_graph :: "HarnessLedgerEntry list \<Rightarrow> ControlGraph" where
  "spec_graph es =
     \<lparr>cg_Steps = map (spec_step es) [0..<length es], cg_Cycles = map (spec_segment es) (cycle_ids es)\<rparr>"

lemma cycle_ids_snoc:
  "cycle_ids (es @ [e]) =
     (if le_CycleID e \<in> set (cycle_ids es) then cycle_ids es else cycle_ids es @ [le_CycleID e])"
  by (simp add: cycle_ids_def)

lemma set_cycle_ids: "set (cycle_ids es) = le_CycleID ` set es"
  by (simp add: cycle_ids_def)

lemma distinct_cycle_ids: "distinct (cycle_ids es)"
  by (simp add: cycle_ids_def)

lemma cycle_steps_snoc:
  "cycle_steps (es @ [e]) c = cycle_steps es c @ (if le_CycleID e = c then [length es] else [])"
proof -
  have "filter (\<lambda>i. le_CycleID ((es @ [e]) ! i) = c) [0..<length es] = cycle_steps es c"
    unfolding cycle_steps_def by (rule filter_cong) (auto simp: nth_append)
  then show ?thesis by (simp add: cycle_steps_def)
qed

lemma cycle_steps_Nil_iff: "cycle_steps es c = [] \<longleftrightarrow> c \<notin> set (cycle_ids es)"
proof -
  have "cycle_steps es c = [] \<longleftrightarrow> (\<forall>i < length es. le_CycleID (es ! i) \<noteq> c)"
    by (auto simp: cycle_steps_def filter_empty_conv)
  also have "\<dots> \<longleftrightarrow> (\<forall>x \<in> set es. le_CycleID x \<noteq> c)"
    by (simp add: all_set_conv_all_nth)
  finally show ?thesis by (auto simp: set_cycle_ids)
qed

lemma last_filter_upt:
  "filter P [0..<n] \<noteq> [] \<Longrightarrow> i < n \<Longrightarrow> P i \<and> (\<forall>j. i < j \<and> j < n \<longrightarrow> \<not> P j) \<longleftrightarrow> i = last (filter P [0..<n])"
proof (induction n)
  case (Suc n)
  show ?case
  proof (cases "P n")
    case True
    with Suc.prems show ?thesis by (auto simp: less_Suc_eq)
  next
    case False
    then have ne: "filter P [0..<n] \<noteq> []" using Suc.prems(1) by simp
    show ?thesis
    proof (cases "i = n")
      case True
      moreover have "last (filter P [0..<n]) < n"
        using last_in_set [OF ne] by simp
      ultimately show ?thesis using False by auto
    next
      case ni: False
      with Suc.prems Suc.IH [OF ne] False show ?thesis by (auto simp: less_Suc_eq)
    qed
  qed
qed simp

lemma find_append:
  "find P (xs @ ys) = (case find P xs of None \<Rightarrow> find P ys | Some x \<Rightarrow> Some x)"
  by (induction xs) auto

lemma next_in_cycle_snoc:
  assumes "i < length es"
  shows "next_in_cycle (es @ [e]) i =
    (case next_in_cycle es i of Some j \<Rightarrow> Some j
     | None \<Rightarrow> if le_CycleID e = le_CycleID (es ! i) then Some (length es) else None)"
proof -
  have "[i + 1..<length (es @ [e])] = [i + 1..<length es] @ [length es]" using assms by simp
  moreover have "find (\<lambda>j. le_CycleID ((es @ [e]) ! j) = le_CycleID (es ! i)) [i + 1..<length es] = next_in_cycle es i"
    unfolding next_in_cycle_def by (rule find_cong) (auto simp: nth_append)
  ultimately show ?thesis
    using assms by (simp add: next_in_cycle_def nth_append find_append split: option.splits)
qed

lemma next_in_cycle_None:
  assumes "i < length es" "cycle_steps es c \<noteq> []"
  shows "next_in_cycle es i = None \<and> le_CycleID (es ! i) = c \<longleftrightarrow> i = last (cycle_steps es c)"
proof -
  have "next_in_cycle es i = None \<longleftrightarrow>
      (\<forall>j. i < j \<and> j < length es \<longrightarrow> le_CycleID (es ! j) \<noteq> le_CycleID (es ! i))"
    by (simp add: next_in_cycle_def find_None_iff Suc_le_eq) blast
  then have "next_in_cycle es i = None \<and> le_CycleID (es ! i) = c \<longleftrightarrow>
      le_CycleID (es ! i) = c \<and> (\<forall>j. i < j \<and> j < length es \<longrightarrow> le_CycleID (es ! j) \<noteq> c)"
    by (cases "le_CycleID (es ! i) = c") simp_all
  also have "\<dots> \<longleftrightarrow> i = last (cycle_steps es c)"
    using last_filter_upt [OF assms(2) [unfolded cycle_steps_def] assms(1)] by (simp only: cycle_steps_def)
  finally show ?thesis .
qed

definition seq_step :: "HarnessLedgerEntry list \<Rightarrow> nat \<Rightarrow> Step" where
  "seq_step es i = mkStep i (es ! i) (edge_of EdgeSequence (next_in_cycle es i))"

definition open_segment :: "HarnessLedgerEntry list \<Rightarrow> string \<Rightarrow> CycleSegment" where
  "open_segment es c = \<lparr>sg_CycleID = c, sg_Steps = cycle_steps es c, sg_Terminal = []\<rparr>"

definition pass1_inv :: "HarnessLedgerEntry list \<Rightarrow> pass1 \<Rightarrow> bool" where
  "pass1_inv es p \<longleftrightarrow>
     p1_Steps p = map (seq_step es) [0..<length es] \<and>
     p1_Cycles p = map (open_segment es) (cycle_ids es) \<and>
     (\<forall>c k. p1_cycleAt p c = Some k \<longleftrightarrow> k < length (cycle_ids es) \<and> cycle_ids es ! k = c) \<and>
     (\<forall>c. p1_lastIdx p c = (if cycle_steps es c = [] then None else Some (last (cycle_steps es c))))"

lemma seq_step_snoc:
  assumes "i < length es"
  shows "seq_step (es @ [e]) i =
    (if next_in_cycle es i = None \<and> le_CycleID (es ! i) = le_CycleID e
     then (seq_step es i)\<lparr>st_Out := st_Out (seq_step es i) @ [\<lparr>ed_To = length es, ed_Kind = EdgeSequence\<rparr>]\<rparr>
     else seq_step es i)"
  using assms
  by (auto simp: seq_step_def next_in_cycle_snoc nth_append mkStep_def edge_of_def split: option.splits)

lemma steps_snoc:
  assumes "pass1_inv es p"
  shows "(case p1_lastIdx p (le_CycleID e) of
            Some k \<Rightarrow> addEdge (p1_Steps p @ [mkStep (length es) e []]) k (length es) EdgeSequence
          | None \<Rightarrow> p1_Steps p @ [mkStep (length es) e []]) =
         map (seq_step (es @ [e])) [0..<length (es @ [e])]"
proof -
  let ?c = "le_CycleID e"
  have lastI: "p1_lastIdx p ?c = (if cycle_steps es ?c = [] then None else Some (last (cycle_steps es ?c)))"
    and steps: "p1_Steps p = map (seq_step es) [0..<length es]"
    using assms by (auto simp: pass1_inv_def)
  have new: "seq_step (es @ [e]) (length es) = mkStep (length es) e []"
    by (simp add: seq_step_def next_in_cycle_def edge_of_def)
  show ?thesis
  proof (cases "cycle_steps es ?c = []")
    case True
    then have "le_CycleID (es ! i) \<noteq> ?c" if "i < length es" for i
      using that nth_mem [OF that] cycle_steps_Nil_iff [of es ?c] by (metis imageI set_cycle_ids)
    then have "map (seq_step (es @ [e])) [0..<length es] = map (seq_step es) [0..<length es]"
      by (auto simp: seq_step_snoc)
    with True show ?thesis by (simp add: lastI steps new)
  next
    case False
    define k where "k = last (cycle_steps es ?c)"
    have k: "k < length es"
      using last_in_set [OF False] by (simp add: k_def cycle_steps_def)
    have "seq_step (es @ [e]) i = (if i = k then
        (seq_step es i)\<lparr>st_Out := st_Out (seq_step es i) @ [\<lparr>ed_To = length es, ed_Kind = EdgeSequence\<rparr>]\<rparr>
        else seq_step es i)" if "i < length es" for i
      unfolding seq_step_snoc [OF that] next_in_cycle_None [OF that False] k_def ..
    then have "map (seq_step (es @ [e])) [0..<length es] =
        addEdge (map (seq_step es) [0..<length es]) k (length es) EdgeSequence"
      using k by (intro nth_equalityI) (auto simp: addEdge_def nth_list_update)
    with False k show ?thesis
      by (simp add: lastI steps new k_def [symmetric] addEdge_def nth_append list_update_append)
  qed
qed

lemma cycles_snoc:
  "map (open_segment (es @ [e])) (cycle_ids es) =
     map (\<lambda>c. if c = le_CycleID e then (open_segment es c)\<lparr>sg_Steps := cycle_steps es c @ [length es]\<rparr>
               else open_segment es c) (cycle_ids es)"
  by (simp add: open_segment_def cycle_steps_snoc)

lemma pass1_inv_step:
  assumes "pass1_inv es p"
  shows "pass1_inv (es @ [e]) (reconstruct_entry p (length es, e))"
proof -
  let ?c = "le_CycleID e"
  have lastI: "\<forall>c. ((p1_lastIdx p)(?c \<mapsto> length es)) c =
      (if cycle_steps (es @ [e]) c = [] then None else Some (last (cycle_steps (es @ [e]) c)))"
    using assms by (simp add: pass1_inv_def cycle_steps_snoc)
  have cyc: "p1_Cycles p = map (open_segment es) (cycle_ids es)"
    and at: "\<And>c k. p1_cycleAt p c = Some k \<longleftrightarrow> k < length (cycle_ids es) \<and> cycle_ids es ! k = c"
    using assms by (auto simp: pass1_inv_def)
  show ?thesis
  proof (cases "p1_cycleAt p ?c")
    case None
    then have new: "?c \<notin> set (cycle_ids es)"
      using at [of ?c] by (metis in_set_conv_nth option.distinct(1))
    then have "map (open_segment (es @ [e])) (cycle_ids es) = p1_Cycles p"
      by (auto simp: cyc cycles_snoc)
    moreover have "cycle_steps es ?c = []" using new by (simp add: cycle_steps_Nil_iff)
    moreover have fresh: "cycle_ids es ! k \<noteq> ?c" if "k < length (cycle_ids es)" for k
      using new nth_mem [OF that] by metis
    have at_new: "((p1_cycleAt p)(?c \<mapsto> length (cycle_ids es))) c = Some k \<longleftrightarrow>
        k < length (cycle_ids es @ [?c]) \<and> (cycle_ids es @ [?c]) ! k = c" for c k
      using at [of c k] fresh [of k] by (auto simp: nth_append less_Suc_eq)
    ultimately show ?thesis
      using None new steps_snoc [OF assms, of e] lastI at_new
      by (simp add: pass1_inv_def reconstruct_entry_def Let_def cycle_ids_snoc cyc)
        (simp add: open_segment_def cycle_steps_snoc)
  next
    case (Some k)
    then have k: "k < length (cycle_ids es)" "cycle_ids es ! k = ?c" using at by auto
    have "map (open_segment (es @ [e])) (cycle_ids es) =
        (p1_Cycles p)[k := (p1_Cycles p ! k)\<lparr>sg_Steps := sg_Steps (p1_Cycles p ! k) @ [length es]\<rparr>]"
      unfolding cycles_snoc
      using k distinct_cycle_ids [of es]
      by (intro nth_equalityI)
        (auto simp: cyc nth_list_update open_segment_def dest: nth_eq_iff_index_eq)
    then have cyc': "p1_Cycles (reconstruct_entry p (length es, e)) = map (open_segment (es @ [e])) (cycle_ids es)"
      by (simp add: reconstruct_entry_def Let_def Some)
    have ids: "cycle_ids (es @ [e]) = cycle_ids es"
      using k nth_mem [OF k(1)] by (simp add: cycle_ids_snoc)
    have rest: "p1_Steps (reconstruct_entry p (length es, e)) = map (seq_step (es @ [e])) [0..<length (es @ [e])]"
      "p1_cycleAt (reconstruct_entry p (length es, e)) = p1_cycleAt p"
      "p1_lastIdx (reconstruct_entry p (length es, e)) = (p1_lastIdx p)(?c \<mapsto> length es)"
      using steps_snoc [OF assms, of e] by (simp_all add: reconstruct_entry_def Let_def Some)
    show ?thesis
      unfolding pass1_inv_def ids cyc' rest using lastI at by blast
  qed
qed

lemma first_pass_inv: "pass1_inv es (first_pass es)"
proof (induction es rule: rev_induct)
  case Nil
  show ?case by (simp add: first_pass_def pass1_inv_def cycle_ids_def cycle_steps_def)
next
  case (snoc e es)
  have "first_pass (es @ [e]) = reconstruct_entry (first_pass es) (length es, e)"
    by (simp add: first_pass_def enumerate_append_eq)
  with pass1_inv_step [OF snoc] show ?case by simp
qed

text \<open>The second pass appends at most one edge to each step, and reads only the entries.\<close>

lemma addHandoffEdges_prefix:
  "m \<le> length steps \<Longrightarrow>
   foldl (\<lambda>ss i. case handoff_pickup es i of None \<Rightarrow> ss | Some j \<Rightarrow> addEdge ss i j EdgeHandoff) steps [0..<m] =
   map (\<lambda>i. if i < m then (steps ! i)\<lparr>st_Out := st_Out (steps ! i) @ edge_of EdgeHandoff (handoff_pickup es i)\<rparr>
            else steps ! i) [0..<length steps]"
proof (induction m)
  case 0
  show ?case by (simp add: map_nth)
next
  case (Suc m)
  then show ?case
    by (auto simp: edge_of_def addEdge_def less_Suc_eq nth_list_update intro!: nth_equalityI split: option.split)
qed

lemma steps_closed_form:
  "addHandoffEdges (p1_Steps (first_pass es)) es = map (spec_step es) [0..<length es]"
proof -
  have "p1_Steps (first_pass es) = map (seq_step es) [0..<length es]"
    using first_pass_inv [of es] by (simp add: pass1_inv_def)
  then show ?thesis
    unfolding addHandoffEdges_def
    by (subst addHandoffEdges_prefix) (auto simp: spec_step_def seq_step_def mkStep_def)
qed

lemma reconstruct_closed_form: "reconstruct es = spec_graph es"
proof (cases "es = []")
  case True
  then show ?thesis by (simp add: reconstruct_def spec_graph_def cycle_ids_def)
next
  case False
  have cyc: "p1_Cycles (first_pass es) = map (open_segment es) (cycle_ids es)"
    using first_pass_inv [of es] by (simp add: pass1_inv_def)
  have "st_Type (map (spec_step es) [0..<length es] ! last (cycle_steps es c)) = le_Type (es ! last (cycle_steps es c))"
    if "c \<in> set (cycle_ids es)" for c
  proof -
    have "cycle_steps es c \<noteq> []" using that by (simp add: cycle_steps_Nil_iff)
    then have "last (cycle_steps es c) < length es"
      using last_in_set by (fastforce simp: cycle_steps_def)
    then show ?thesis by (simp add: spec_step_def mkStep_def)
  qed
  with False show ?thesis
    by (simp add: reconstruct_def spec_graph_def Let_def steps_closed_form cyc open_segment_def spec_segment_def)
qed

subsection \<open>Properties\<close>

text \<open>
  Verify before reconstruct: \<^verbatim>\<open>Replay\<close> returns a graph exactly when every link of the
  chain holds, and otherwise fails with the index of the first broken link.
\<close>

theorem Replay_fails_closed:
  "(\<forall>g. Replay es = Inr g \<longleftrightarrow> chain_intact es \<and> g = reconstruct es) \<and>
   (\<forall>i. Replay es = Inl i \<longleftrightarrow> VerifyChain es = (i, False))"
proof -
  obtain b ok where v: "VerifyChain es = (b, ok)" by force
  with chain_intact_cases [of es] show ?thesis
    by (cases ok) (auto simp: Replay_def)
qed

text \<open>
  The meaning of a step, without the scans of the reader: the first later entry with a property, by its
  position, and the lists of at most one edge.
\<close>

definition first_later :: "(HarnessLedgerEntry \<Rightarrow> bool) \<Rightarrow> HarnessLedgerEntry list \<Rightarrow> nat \<Rightarrow> nat \<Rightarrow> bool" where
  "first_later P es i j \<longleftrightarrow> i < j \<and> j < length es \<and> P (es ! j) \<and> (\<forall>k. i < k \<and> k < j \<longrightarrow> \<not> P (es ! k))"

definition one_edge :: "EdgeKind \<Rightarrow> (nat \<Rightarrow> bool) \<Rightarrow> Edge list \<Rightarrow> bool" where
  "one_edge kind R out \<longleftrightarrow>
     (out = [] \<and> (\<forall>j. \<not> R j)) \<or> (\<exists>j. R j \<and> out = [\<lparr>ed_To = j, ed_Kind = kind\<rparr>])"

definition step_meets :: "HarnessLedgerEntry list \<Rightarrow> nat \<Rightarrow> Step \<Rightarrow> bool" where
  "step_meets es i s \<longleftrightarrow>
     st_Index s = i \<and> st_CycleID s = le_CycleID (es ! i) \<and> st_Type s = le_Type (es ! i) \<and> st_At s = le_At (es ! i) \<and>
     st_Agent s = le_Agent (es ! i) \<and> st_Gate s = le_Gate (es ! i) \<and> st_HandoffTo s = le_HandoffTo (es ! i) \<and>
     st_Summary s = le_Summary (es ! i) \<and>
     (\<exists>seq handoff. st_Out s = seq @ handoff \<and>
        one_edge ''sequence'' (first_later (\<lambda>e. le_CycleID e = le_CycleID (es ! i)) es i) seq \<and>
        one_edge ''handoff'' (\<lambda>j. le_Type (es ! i) = LedgerEventHandoffCreated \<and> le_HandoffTo (es ! i) \<noteq> [] \<and>
          first_later (\<lambda>e. le_Agent e = le_HandoffTo (es ! i)) es i j) handoff)"

lemma find_first_later:
  "find (\<lambda>j. P (es ! j)) [i + 1..<length es] = Some j \<Longrightarrow> first_later P es i j"
  "find (\<lambda>j. P (es ! j)) [i + 1..<length es] = None \<Longrightarrow> \<not> first_later P es i j"
proof -
  assume "find (\<lambda>j. P (es ! j)) [i + 1..<length es] = Some j"
  then obtain n where n: "n < length es - (i + 1)" "P (es ! (i + 1 + n))" "j = i + 1 + n" "\<forall>m < n. \<not> P (es ! (i + 1 + m))"
    by (auto simp: find_Some_iff)
  have "\<not> P (es ! k)" if "i < k" "k < j" for k
    using n(4) [rule_format, of "k - (i + 1)"] that n(3) by simp
  with n show "first_later P es i j" by (auto simp: first_later_def)
qed (auto simp: find_None_iff first_later_def)

lemma one_edge_find:
  "one_edge kind (first_later P es i) (edge_of kind (find (\<lambda>j. P (es ! j)) [i + 1..<length es]))"
  unfolding one_edge_def edge_of_def
  using find_first_later [of P es i] by (cases "find (\<lambda>j. P (es ! j)) [i + 1..<length es]") auto

lemma spec_step_meets: "step_meets es i (spec_step es i)"
proof -
  have "one_edge ''handoff'' (\<lambda>j. le_Type (es ! i) = LedgerEventHandoffCreated \<and> le_HandoffTo (es ! i) \<noteq> [] \<and>
      first_later (\<lambda>e. le_Agent e = le_HandoffTo (es ! i)) es i j) (edge_of ''handoff'' (handoff_pickup es i))"
  proof (cases "le_Type (es ! i) = LedgerEventHandoffCreated \<and> le_HandoffTo (es ! i) \<noteq> []")
    case True
    with one_edge_find [of "''handoff''" "\<lambda>e. le_Agent e = le_HandoffTo (es ! i)" es i] show ?thesis
      by (simp add: handoff_pickup_def Let_def)
  qed (auto simp: handoff_pickup_def Let_def one_edge_def edge_of_def)
  with one_edge_find [of "''sequence''" "\<lambda>e. le_CycleID e = le_CycleID (es ! i)" es i] show ?thesis
    by (auto simp: step_meets_def spec_step_def mkStep_def next_in_cycle_def)
qed

text \<open>
  (C6) What the control graph is. There is one step per entry, with the entry's position and fields;
  its edges are a sequence edge to the first later entry of the same cycle, if there is one,
  and then a handoff edge to the first later entry of the agent named, if the entry is a handoff that
  names one and that agent comes back. The segments are the cycles in first-seen order,
  each with the positions of its entries in order and the type of its last entry.
\<close>

theorem reconstruct_meets_spec:
  "length (cg_Steps (reconstruct es)) = length es \<and>
   list_all (\<lambda>i. step_meets es i (cg_Steps (reconstruct es) ! i)) [0..<length es] \<and>
   cg_Cycles (reconstruct es) = map (spec_segment es) (cycle_ids es)"
  by (simp add: reconstruct_closed_form spec_graph_def list_all_iff spec_step_meets)

text \<open>
  The segmentation is a partition: the segments' cycle ids are distinct, no segment
  is empty, and every step is listed in exactly the segment of its cycle. Edges only point
  forward, so the graph is acyclic.
\<close>

theorem reconstruct_partition:
  "distinct (map sg_CycleID (cg_Cycles (reconstruct es))) \<and>
   list_all (\<lambda>seg. sg_Steps seg \<noteq> [] \<and>
     set (sg_Steps seg) = {i. i < length es \<and> le_CycleID (es ! i) = sg_CycleID seg})
     (cg_Cycles (reconstruct es)) \<and>
   (\<Union>seg \<in> set (cg_Cycles (reconstruct es)). set (sg_Steps seg)) = {..<length es} \<and>
   list_all (\<lambda>st. list_all (\<lambda>ed. st_Index st < ed_To ed \<and> ed_To ed < length es) (st_Out st))
     (cg_Steps (reconstruct es))"
proof (intro conjI)
  have ids: "map sg_CycleID (map (spec_segment es) cs) = cs" for cs
    by (induction cs) (simp_all add: spec_segment_def)
  show "distinct (map sg_CycleID (cg_Cycles (reconstruct es)))"
    using distinct_cycle_ids [of es] by (simp add: reconstruct_closed_form spec_graph_def ids del: map_map)
  show "list_all (\<lambda>seg. sg_Steps seg \<noteq> [] \<and>
     set (sg_Steps seg) = {i. i < length es \<and> le_CycleID (es ! i) = sg_CycleID seg})
     (cg_Cycles (reconstruct es))"
    by (simp add: reconstruct_closed_form spec_graph_def list_all_iff spec_segment_def cycle_steps_Nil_iff)
      (auto simp: cycle_steps_def)
  show "(\<Union>seg \<in> set (cg_Cycles (reconstruct es)). set (sg_Steps seg)) = {..<length es}"
    by (auto simp: reconstruct_closed_form spec_graph_def spec_segment_def cycle_steps_def set_cycle_ids
        image_iff intro: bexI [OF refl nth_mem])
  have "j \<in> {i<..<length es}" if "find P [i + 1..<length es] = Some j" for P i j
    using that by (auto simp: find_Some_iff)
  then have "list_all (\<lambda>ed. i < ed_To ed \<and> ed_To ed < length es)
      (edge_of EdgeSequence (next_in_cycle es i) @ edge_of EdgeHandoff (handoff_pickup es i))" for i
    by (auto simp: edge_of_def next_in_cycle_def handoff_pickup_def Let_def split: option.splits if_splits)
  then show "list_all (\<lambda>st. list_all (\<lambda>ed. st_Index st < ed_To ed \<and> ed_To ed < length es) (st_Out st))
     (cg_Steps (reconstruct es))"
    by (simp add: reconstruct_closed_form spec_graph_def list_all_iff spec_step_def mkStep_def)
qed

end
