(* ===== verification/ActionGate.thy ===== *)
theory ActionGate
  imports Ledger
begin

section \<open>The pre-execution policy (pkg/contract/action\_gate.go, secret\_containment.go, tooluse\_gate.go; internal/cli/gate.go)\<close>

text \<open>
  The classifiers of a pending command: the destructive-action deny list, secret
  containment, their combination, and the \<^verbatim>\<open>rallish gate tooluse\<close> command with its exit
  codes. \<open>ul\<close> is \<^verbatim>\<open>strings.ToLower\<close> on strings with non-ASCII bytes (Go's Unicode tables).
  The results say which verdict wins, that a blocking verdict always gives a blocking exit
  code and is what gets recorded, and that spelling a command with other white space or
  letter case does not change the verdict.
\<close>

type_synonym ActionVerdict = string

abbreviation ActionAllow where "ActionAllow \<equiv> ''allow''"
abbreviation ActionDeny where "ActionDeny \<equiv> ''deny''"
abbreviation ActionNeedsHITL where "ActionNeedsHITL \<equiv> ''needs-hitl''"

definition ParseActionVerdict :: "string \<Rightarrow> contract_error + ActionVerdict" where
  "ParseActionVerdict s =
     (if s \<in> {ActionAllow, ActionDeny, ActionNeedsHITL} then Inr s else Inl ErrInvalidActionVerdict)"

record ActionDecision =
  ad_Verdict :: ActionVerdict
  ad_Rule :: string
  ad_Reason :: string

record actionRule =
  ar_id :: string
  ar_verdict :: ActionVerdict
  ar_reason :: string
  ar_match :: "string \<Rightarrow> bool"

subsection \<open>Matchers of the action gate\<close>

definition normalizeCommand :: "(string \<Rightarrow> string) \<Rightarrow> string \<Rightarrow> string" where
  "normalizeCommand ul command = ToLower ul (Join (Fields command) '' '')"

definition is_flag_cluster :: "string \<Rightarrow> bool" where
  "is_flag_cluster tok \<longleftrightarrow> \<not> (length tok < 2 \<or> tok ! 0 \<noteq> CHR ''-'' \<or> tok ! 1 = CHR ''-'')"

definition hasRecursiveForceFlags :: "string \<Rightarrow> bool" where
  "hasRecursiveForceFlags norm =
     (let clusters = map tl (filter is_flag_cluster (Fields norm));
          recursive = Contains norm ''--recursive'' \<or>
            list_ex (\<lambda>letters. CHR ''r'' \<in> set letters \<or> CHR ''R'' \<in> set letters) clusters;
          force = Contains norm ''--force'' \<or> list_ex (\<lambda>letters. CHR ''f'' \<in> set letters) clusters
      in recursive \<and> force)"

definition dangerousTargets :: "string list" where
  "dangerousTargets =
     ['' /'', '' /*'', '' ~'', '' ~/'', '' ~/*'', '' $home'', '' $home/'', '' $home/*'', '' /*'']"

definition matchRecursiveRemoveRoot :: "string \<Rightarrow> bool" where
  "matchRecursiveRemoveRoot norm =
     (if \<not> HasPrefix norm ''rm '' \<and> norm \<noteq> ''rm'' then False
      else if \<not> hasRecursiveForceFlags norm then False
      else list_ex (\<lambda>t. HasSuffix norm t \<or> Contains norm (t @ '' '')) dangerousTargets)"

definition matchForkBomb :: "string \<Rightarrow> bool" where
  "matchForkBomb norm =
     (let collapsed = RemoveAll norm (CHR '' '') in
      Contains collapsed '':(){:|:&};:'' \<or> Contains collapsed '':(){:|:&}:'' \<or>
      Contains collapsed ''(){|&};'')"

definition matchDiskOverwrite :: "string \<Rightarrow> bool" where
  "matchDiskOverwrite norm =
     (if HasPrefix norm ''dd '' \<and> Contains norm ''of=/dev/'' then True
      else if HasPrefix norm ''mkfs'' \<and> Contains norm ''/dev/'' then True
      else Contains norm ''> /dev/sd'' \<or> Contains norm ''>/dev/sd'' \<or>
           Contains norm ''> /dev/nvme'' \<or> Contains norm ''>/dev/nvme'')"

definition protectedPushRefs :: "string list" where
  "protectedPushRefs = [''main'', ''master'', ''release/'', ''release '', ''origin/main'', ''origin/master'']"

definition matchForcePushProtected :: "string \<Rightarrow> bool" where
  "matchForcePushProtected norm =
     (if \<not> HasPrefix norm ''git push'' \<and> \<not> Contains norm '' git push'' then False
      else let forced = Contains norm ''--force'' \<or> Contains norm ''-f '' \<or>
                        HasSuffix norm '' -f'' \<or> Contains norm ''--force-with-lease''
           in if \<not> forced then False else list_ex (Contains norm) protectedPushRefs)"

definition matchGitHardResetRemote :: "string \<Rightarrow> bool" where
  "matchGitHardResetRemote norm =
     (if \<not> Contains norm ''git reset'' \<or> \<not> Contains norm ''--hard'' then False
      else Contains norm ''origin/'' \<or> Contains norm ''upstream/'')"

definition matchSQLDrop :: "string \<Rightarrow> bool" where
  "matchSQLDrop norm =
     (Contains norm ''drop table'' \<or> Contains norm ''drop database'' \<or> Contains norm ''truncate table'')"

definition destructiveActionRules :: "actionRule list" where
  "destructiveActionRules =
     [\<lparr>ar_id = ''rm-rf-root'', ar_verdict = ActionDeny,
       ar_reason = ''recursive force-remove targeting a filesystem or home root is non-recoverable'',
       ar_match = matchRecursiveRemoveRoot\<rparr>,
      \<lparr>ar_id = ''fork-bomb'', ar_verdict = ActionDeny,
       ar_reason = ''shell fork bomb exhausts process table'', ar_match = matchForkBomb\<rparr>,
      \<lparr>ar_id = ''disk-overwrite'', ar_verdict = ActionDeny,
       ar_reason = ''raw write to a block device destroys data irrecoverably'',
       ar_match = matchDiskOverwrite\<rparr>,
      \<lparr>ar_id = ''git-force-push-protected'', ar_verdict = ActionDeny,
       ar_reason = ''force-push to a protected ref (main/master/release) rewrites shared history'',
       ar_match = matchForcePushProtected\<rparr>,
      \<lparr>ar_id = ''git-hard-reset-remote'', ar_verdict = ActionNeedsHITL,
       ar_reason = ''hard reset to a remote ref discards uncommitted and local work'',
       ar_match = matchGitHardResetRemote\<rparr>,
      \<lparr>ar_id = ''sql-drop-truncate'', ar_verdict = ActionNeedsHITL,
       ar_reason = ''DROP/TRUNCATE destroys table data; confirm target is not production'',
       ar_match = matchSQLDrop\<rparr>]"

definition action_allow :: ActionDecision where
  "action_allow = \<lparr>ad_Verdict = ActionAllow, ad_Rule = [], ad_Reason = []\<rparr>"

fun scan_rules :: "string \<Rightarrow> actionRule list \<Rightarrow> ActionDecision" where
  "scan_rules norm [] = action_allow"
| "scan_rules norm (rule # rules) =
     (if ar_match rule norm
      then \<lparr>ad_Verdict = ar_verdict rule, ad_Rule = ar_id rule, ad_Reason = ar_reason rule\<rparr>
      else scan_rules norm rules)"

definition ActionDecisionFor :: "(string \<Rightarrow> string) \<Rightarrow> string \<Rightarrow> ActionDecision" where
  "ActionDecisionFor ul command =
     (let norm = normalizeCommand ul command in
      if norm = [] then action_allow else scan_rules norm destructiveActionRules)"

definition NewActionDeniedLedgerEntry ::
  "int \<Rightarrow> string \<Rightarrow> string \<Rightarrow> ActionDecision \<Rightarrow> HarnessLedgerEntry" where
  "NewActionDeniedLedgerEntry at cycleID command decision =
     (let summary = ad_Verdict decision @ '' ['' @ ad_Rule decision @ '']: '' @ ad_Reason decision
      in NewHarnessLedgerEntry at cycleID LedgerEventActionDenied summary [command])"

subsection \<open>Secret containment\<close>

record SecretDecision =
  sd_Verdict :: ActionVerdict
  sd_Rule :: string
  sd_Marker :: string
  sd_Reason :: string

definition sensitivePaths :: "(string \<times> string) list" where
  "sensitivePaths =
     [(''/.aws/'', ''~/.aws''), (''/.aws '', ''~/.aws''), (''~/.aws'', ''~/.aws''),
      (''/.ssh/'', ''~/.ssh''), (''/.ssh '', ''~/.ssh''), (''~/.ssh'', ''~/.ssh''),
      (''/.netrc'', ''~/.netrc''), (''~/.netrc'', ''~/.netrc''),
      (''/.gnupg/'', ''~/.gnupg''), (''~/.gnupg'', ''~/.gnupg''),
      (''/.kube/config'', ''~/.kube/config''), (''~/.kube/config'', ''~/.kube/config''),
      (''/.docker/config.json'', ''~/.docker/config.json''),
      (''/.npmrc'', ''~/.npmrc''), (''~/.npmrc'', ''~/.npmrc''),
      (''/.pypirc'', ''~/.pypirc''), (''~/.pypirc'', ''~/.pypirc''),
      (''.env.production'', ''.env''), (''.env.local'', ''.env''), (''.env'', ''.env''),
      (''id_rsa'', ''id_rsa''), (''id_ed25519'', ''id_ed25519''), (''id_ecdsa'', ''id_ecdsa''),
      (''credentials.json'', ''credentials.json''), (''service-account'', ''service-account''),
      (''.pem'', ''.pem''), (''.p12'', ''.p12''), (''.pfx'', ''.pfx''), (''.keystore'', ''.keystore'')]"

definition benignSecretVerbs :: "string list" where
  "benignSecretVerbs =
     [''ls '', ''ll '', ''mkdir '', ''chmod '', ''chown '', ''stat '', ''test -'', ''touch '']"

definition secretWriteVerbs :: "string list" where
  "secretWriteVerbs =
     [''curl'', ''wget'', ''scp'', ''rsync'', ''nc '', ''netcat'', ''base64'', ''| mail'', ''ftp '']"

fun firstSensitivePath_in :: "(string \<times> string) list \<Rightarrow> string \<Rightarrow> string \<times> bool" where
  "firstSensitivePath_in [] norm = ([], False)"
| "firstSensitivePath_in (p # ps) norm =
     (if Contains norm (fst p) then (snd p, True) else firstSensitivePath_in ps norm)"

definition firstSensitivePath :: "string \<Rightarrow> string \<times> bool" where
  "firstSensitivePath norm = firstSensitivePath_in sensitivePaths norm"

definition containsSensitivePath :: "string \<Rightarrow> bool" where
  "containsSensitivePath norm = snd (firstSensitivePath norm)"

definition hasExfilVerb :: "string \<Rightarrow> bool" where
  "hasExfilVerb norm = list_ex (Contains norm) secretWriteVerbs"

definition hasBenignSecretVerb :: "string \<Rightarrow> bool" where
  "hasBenignSecretVerb norm = list_ex (HasPrefix norm) benignSecretVerbs"

text \<open>A JSON member with a string value, as the IAM rule looks for it.\<close>

definition dq :: char where "dq = CHR 0x22"

definition json_member :: "string \<Rightarrow> string \<Rightarrow> string \<Rightarrow> string" where
  "json_member k sep v = [dq] @ k @ [dq] @ sep @ [dq] @ v @ [dq]"

record broadTokenRule =
  bt_id :: string
  bt_marker :: string
  bt_reason :: string
  bt_match :: "string \<Rightarrow> bool"

definition broadTokenRules :: "broadTokenRule list" where
  "broadTokenRules =
     [\<lparr>bt_id = ''chmod-world-on-secret'', bt_marker = ''chmod 777'',
       bt_reason = ''world-writable/readable permission on a credential exposes it to all local users'',
       bt_match = (\<lambda>norm. (Contains norm ''chmod 777'' \<or> Contains norm ''chmod -r 777'' \<or>
                     Contains norm ''chmod a+rwx'') \<and> containsSensitivePath norm)\<rparr>,
      \<lparr>bt_id = ''iam-wildcard-grant'', bt_marker = ''action:* / resource:*'',
       bt_reason = ''wildcard IAM action/resource grant is an over-broad token'',
       bt_match = (\<lambda>norm. Contains norm (json_member ''action'' '': '' ''*'') \<or>
                     Contains norm (json_member ''action'' '':'' ''*'') \<or>
                     Contains norm (json_member ''resource'' '': '' ''*'') \<or>
                     Contains norm (json_member ''resource'' '':'' ''*''))\<rparr>]"

definition secret_allow :: SecretDecision where
  "secret_allow = \<lparr>sd_Verdict = ActionAllow, sd_Rule = [], sd_Marker = [], sd_Reason = []\<rparr>"

definition SecretDecisionFor :: "(string \<Rightarrow> string) \<Rightarrow> string \<Rightarrow> SecretDecision" where
  "SecretDecisionFor ul command =
     (let norm = normalizeCommand ul command in
      if norm = [] then secret_allow
      else case find (\<lambda>rule. bt_match rule norm) broadTokenRules of
        Some rule \<Rightarrow> \<lparr>sd_Verdict = ActionDeny, sd_Rule = bt_id rule, sd_Marker = bt_marker rule,
                      sd_Reason = bt_reason rule\<rparr>
      | None \<Rightarrow>
          (let (marker, found) = firstSensitivePath norm in
           if \<not> found then secret_allow
           else if hasExfilVerb norm then
             \<lparr>sd_Verdict = ActionDeny, sd_Rule = ''secret-exfiltration'', sd_Marker = marker,
              sd_Reason = ''transmitting a credential-bearing path off-host is exfiltration''\<rparr>
           else if hasBenignSecretVerb norm then secret_allow
           else \<lparr>sd_Verdict = ActionNeedsHITL, sd_Rule = ''sensitive-path-access'', sd_Marker = marker,
                 sd_Reason = ''access to a credential-bearing path; confirm it is intended''\<rparr>))"

definition NewSecretFlaggedLedgerEntry ::
  "int \<Rightarrow> string \<Rightarrow> string \<Rightarrow> SecretDecision \<Rightarrow> HarnessLedgerEntry" where
  "NewSecretFlaggedLedgerEntry at cycleID command decision =
     (let summary = sd_Verdict decision @ '' ['' @ sd_Rule decision @ ''] '' @ sd_Marker decision @
                    '': '' @ sd_Reason decision
      in NewHarnessLedgerEntry at cycleID LedgerEventSecretFlagged summary [command])"

subsection \<open>The combined decision\<close>

definition actionVerdictSeverity :: "ActionVerdict \<Rightarrow> int" where
  "actionVerdictSeverity v =
     (if v = ActionDeny then 2 else if v = ActionNeedsHITL then 1
      else if v = ActionAllow then 0 else - 1)"

type_synonym ToolUseCheck = string

abbreviation ToolUseCheckNone where "ToolUseCheckNone \<equiv> [] :: string"
abbreviation ToolUseCheckAction where "ToolUseCheckAction \<equiv> ''action''"
abbreviation ToolUseCheckSecret where "ToolUseCheckSecret \<equiv> ''secret''"

record ToolUseDecision =
  tu_Verdict :: ActionVerdict
  tu_Check :: ToolUseCheck
  tu_Rule :: string
  tu_Reason :: string

definition IsBlocking :: "ToolUseDecision \<Rightarrow> bool" where
  "IsBlocking d \<longleftrightarrow> tu_Verdict d = ActionDeny \<or> tu_Verdict d = ActionNeedsHITL"

definition DecideToolUse :: "(string \<Rightarrow> string) \<Rightarrow> string \<Rightarrow> ToolUseDecision" where
  "DecideToolUse ul command =
     (let action = ActionDecisionFor ul command;
          secret = SecretDecisionFor ul command;
          actionSeverity = actionVerdictSeverity (ad_Verdict action);
          secretSeverity = actionVerdictSeverity (sd_Verdict secret)
      in if secretSeverity > actionSeverity then
           \<lparr>tu_Verdict = sd_Verdict secret, tu_Check = ToolUseCheckSecret, tu_Rule = sd_Rule secret,
            tu_Reason = sd_Reason secret\<rparr>
         else if ad_Verdict action = ActionAllow then
           \<lparr>tu_Verdict = ActionAllow, tu_Check = [], tu_Rule = [], tu_Reason = []\<rparr>
         else
           \<lparr>tu_Verdict = ad_Verdict action, tu_Check = ToolUseCheckAction, tu_Rule = ad_Rule action,
            tu_Reason = ad_Reason action\<rparr>)"

definition NewToolUseDecisionLedgerEntry ::
  "int \<Rightarrow> string \<Rightarrow> string \<Rightarrow> ToolUseDecision \<Rightarrow> HarnessLedgerEntry" where
  "NewToolUseDecisionLedgerEntry at cycleID command decision =
     (let summary = tu_Verdict decision @ '' ['' @ tu_Check decision @ '':'' @ tu_Rule decision @
                    '']: '' @ tu_Reason decision
      in NewHarnessLedgerEntry at cycleID LedgerEventToolUseDecision summary [command])"

subsection \<open>The command gate tooluse\<close>

definition exitCodeForToolUseVerdict :: "ActionVerdict \<Rightarrow> int" where
  "exitCodeForToolUseVerdict v =
     (if v = ActionAllow then 0 else if v = ActionDeny then 13
      else if v = ActionNeedsHITL then 14 else 13)"

definition ToolUseDecision_json :: "ToolUseDecision \<Rightarrow> json" where
  "ToolUseDecision_json d = JObj (
     [(''verdict'', JStr (tu_Verdict d))] @ omit_str ''check'' (tu_Check d) @
     omit_str ''rule'' (tu_Rule d) @ omit_str ''reason'' (tu_Reason d))"

datatype gate_error =
    WriteDecisionFailed
  | RecordDecisionFailed
  | GateBlocked int ActionVerdict ToolUseCheck

text \<open>
  \<^verbatim>\<open>runGateTooluse\<close>: \<open>write\<close> is the output stream (\<open>False\<close> when writing the line fails),
  \<open>record\<close> the ledger append (\<open>False\<close> when it fails). The result is the lines written, the
  entries recorded, and the error (\<open>None\<close> is \<^verbatim>\<open>nil\<close>, exit code 0).
\<close>

definition runGateTooluse ::
  "(string \<Rightarrow> string) \<Rightarrow> (string \<Rightarrow> bool) \<Rightarrow> (HarnessLedgerEntry \<Rightarrow> bool) \<Rightarrow> int \<Rightarrow> string \<Rightarrow> string \<Rightarrow>
   string list \<times> HarnessLedgerEntry list \<times> gate_error option" where
  "runGateTooluse ul write record_ok now command cycleID =
     (let decision = DecideToolUse ul command;
          line = jprint (ToolUseDecision_json decision) in
      if \<not> write line then ([], [], Some WriteDecisionFailed)
      else let wanted = cycleID \<noteq> [] \<and> IsBlocking decision;
               entry = NewToolUseDecisionLedgerEntry now cycleID command decision in
        if wanted \<and> \<not> record_ok entry then ([line], [], Some RecordDecisionFailed)
        else let recorded = (if wanted then [entry] else []);
                 code = exitCodeForToolUseVerdict (tu_Verdict decision)
             in if code = 0 then ([line], recorded, None)
                else ([line], recorded, Some (GateBlocked code (tu_Verdict decision) (tu_Check decision))))"

text \<open>The root command's exit code for the error it gets.\<close>

definition gate_exit_code :: "gate_error option \<Rightarrow> int" where
  "gate_exit_code err =
     (case err of None \<Rightarrow> 0 | Some (GateBlocked code v c) \<Rightarrow> code | Some _ \<Rightarrow> 1)"

subsection \<open>White space and letter case\<close>

definition sp :: "char \<Rightarrow> bool" where
  "sp c \<longleftrightarrow> c \<in> {CHR 0x09, CHR 0x0A, CHR 0x0B, CHR 0x0C, CHR 0x0D, CHR 0x20}"

lemma sp_of_char: "sp c \<Longrightarrow> of_char c \<in> {9, 10, 11, 12, 13, 32 :: nat}"
  by (auto simp: sp_def)

lemma HasPrefix_Cons [simp]: "HasPrefix (c # s) (d # p) \<longleftrightarrow> c = d \<and> HasPrefix s p"
  by (auto simp: HasPrefix_def)

lemma space_len_ascii:
  assumes "is_ascii [c]"
  shows "space_len (c # s) = (if sp c then 1 else 0)"
proof -
  have lead: "c \<noteq> CHR 0xC2" "c \<noteq> CHR 0xE1" "c \<noteq> CHR 0xE2" "c \<noteq> CHR 0xE3"
    using assms by (auto simp: is_ascii_def)
  have "find (HasPrefix (c # s)) space_runes =
      find (HasPrefix (c # s)) [[CHR 0x09], [CHR 0x0A], [CHR 0x0B], [CHR 0x0C], [CHR 0x0D], [CHR 0x20]]"
    by (simp add: space_runes_def lead)
  then show ?thesis by (simp add: space_len_def sp_def)
qed

text \<open>A word of an ASCII command: not empty, no white space.\<close>

definition word :: "string \<Rightarrow> bool" where
  "word w \<longleftrightarrow> w \<noteq> [] \<and> is_ascii w \<and> list_all (\<lambda>c. \<not> sp c) w"

lemma is_ascii_simps [simp]:
  "is_ascii []" "is_ascii (a @ b) \<longleftrightarrow> is_ascii a \<and> is_ascii b"
  "is_ascii (c # d # s) \<longleftrightarrow> is_ascii [c] \<and> is_ascii (d # s)"
  by (auto simp: is_ascii_def)

lemma is_ascii_Cons: "is_ascii (c # s) \<longleftrightarrow> is_ascii [c] \<and> is_ascii s"
  by (simp add: is_ascii_def)

lemma Fields_from_word:
  "is_ascii w \<Longrightarrow> list_all (\<lambda>c. \<not> sp c) w \<Longrightarrow> Fields_from cur (w @ s) = Fields_from (rev w @ cur) s"
proof (induction w arbitrary: cur)
  case (Cons c w)
  then have "is_ascii [c]" "is_ascii w" by (simp_all add: is_ascii_Cons [of c w])
  with Cons show ?case by (simp add: space_len_ascii)
qed simp

lemma Fields_from_words:
  "is_ascii s \<Longrightarrow> is_ascii cur \<Longrightarrow> list_all (\<lambda>c. \<not> sp c) cur \<Longrightarrow> list_all word (Fields_from cur s)"
proof (induction cur s rule: Fields_from.induct)
  case (1 cur)
  then show ?case by (simp add: emit_field_def word_def is_ascii_def)
next
  case (2 cur c s)
  then have c: "is_ascii [c]" "is_ascii s" by (simp_all add: is_ascii_Cons [of c s])
  show ?case
  proof (cases "sp c")
    case True
    with c have "space_len (c # s) = 1" by (simp add: space_len_ascii)
    with 2 c show ?thesis by (simp add: emit_field_def word_def is_ascii_def)
  next
    case False
    with c have "space_len (c # s) = 0" by (simp add: space_len_ascii)
    with 2 c False show ?thesis by (simp add: is_ascii_Cons [of c cur])
  qed
qed

lemma Fields_words: "is_ascii s \<Longrightarrow> list_all word (Fields s)"
  by (simp add: Fields_def Fields_from_words)

lemma Fields_Join: "list_all word ws \<Longrightarrow> Fields (Join ws '' '') = ws"
proof (induction ws)
  case Nil
  show ?case by (simp add: Fields_def emit_field_def)
next
  case (Cons w ws)
  then have w: "w \<noteq> []" "is_ascii w" "list_all (\<lambda>c. \<not> sp c) w" by (auto simp: word_def)
  have blank: "space_len (CHR '' '' # t) = 1" for t
    by (subst space_len_ascii) (simp_all add: is_ascii_def sp_def)
  show ?case
  proof (cases ws)
    case Nil
    then show ?thesis
      using Fields_from_word [OF w(2,3), of "[]" "[]"] w(1) by (simp add: Fields_def emit_field_def)
  next
    case (Cons x xs)
    have "Fields (w @ CHR '' '' # Join ws '' '') = w # Fields (Join ws '' '')"
      using Fields_from_word [OF w(2,3), of "[]" "CHR '' '' # Join ws '' ''"] w(1) blank
      by (simp add: Fields_def emit_field_def)
    with Cons.IH Cons.prems Cons show ?thesis by simp
  qed
qed

lemma lower_char_sp [simp]: "sp (lower_char c) \<longleftrightarrow> sp c"
proof -
  have "\<not> sp (char_of (n + 32))" if "65 \<le> n" "n \<le> 90" for n :: nat
  proof
    assume "sp (char_of (n + 32))"
    from sp_of_char [OF this] that show False by (simp add: of_char_char_of_lt)
  qed
  moreover have "\<not> sp c" if "65 \<le> (of_char c :: nat)" using that by (auto simp: sp_def)
  ultimately show ?thesis by (auto simp: lower_char_def Let_def)
qed

lemma lower_char_idem [simp]: "lower_char (lower_char c) = lower_char c"
proof (cases "65 \<le> (of_char c :: nat) \<and> (of_char c :: nat) \<le> 90")
  case True
  then have "lower_char c = char_of (of_char c + 32 :: nat)" "(of_char c + 32 :: nat) < 256"
    by (auto simp: lower_char_def Let_def)
  moreover from this have "(of_char (lower_char c) :: nat) = of_char c + 32"
    by (simp add: of_char_char_of_lt)
  ultimately show ?thesis using True by (subst lower_char_def) (simp add: Let_def)
next
  case False
  then have "lower_char c = c" by (auto simp: lower_char_def Let_def)
  then show ?thesis by simp
qed

lemma is_ascii_lower [simp]: "is_ascii s \<Longrightarrow> is_ascii (map lower_char s)"
  by (auto simp: is_ascii_def list_all_iff lower_char_def Let_def of_char_char_of_lt)

lemma word_lower: "word w \<Longrightarrow> word (map lower_char w)"
  by (simp add: word_def list_all_iff)

lemma Join_lower: "map lower_char (Join ws '' '') = Join (map (map lower_char) ws) '' ''"
proof (induction ws)
  case (Cons w ws)
  have "lower_char (CHR '' '') = CHR '' ''" by (simp add: lower_char_def Let_def)
  with Cons show ?case by (cases ws) simp_all
qed simp

lemma is_ascii_Join: "list_all word ws \<Longrightarrow> is_ascii (Join ws '' '')"
proof (induction ws)
  case (Cons w ws)
  have "is_ascii '' ''" by (simp add: is_ascii_def)
  with Cons show ?case by (cases ws) (auto simp: word_def is_ascii_def)
qed simp

lemma normalizeCommand_ascii:
  "is_ascii c \<Longrightarrow> normalizeCommand ul c = Join (map (map lower_char) (Fields c)) '' ''"
  by (simp add: normalizeCommand_def ToLower_def is_ascii_Join Fields_words Join_lower)

lemma normalizeCommand_idem:
  assumes "is_ascii c"
  shows "normalizeCommand ul (normalizeCommand ul c) = normalizeCommand ul c"
proof -
  define ws where "ws = map (map lower_char) (Fields c)"
  have ws: "list_all word ws"
    using Fields_words [OF assms] by (auto simp: ws_def list_all_iff word_lower)
  have "map (map lower_char) ws = ws" by (simp add: ws_def)
  then show ?thesis
    using normalizeCommand_ascii [OF assms, of ul] normalizeCommand_ascii [OF is_ascii_Join [OF ws], of ul]
    by (simp add: ws_def [symmetric] Fields_Join [OF ws])
qed

subsection \<open>Properties\<close>

text \<open>
  (C7) No needs-hitl rule shadows a deny rule: a command is denied exactly when one of the
  four catastrophic patterns matches it, and flagged for a human exactly when none of
  those does and one of the two softer ones does.
\<close>

theorem action_gate_verdicts:
  "let norm = normalizeCommand ul c;
       catastrophic = matchRecursiveRemoveRoot norm \<or> matchForkBomb norm \<or> matchDiskOverwrite norm \<or>
         matchForcePushProtected norm;
       risky = matchGitHardResetRemote norm \<or> matchSQLDrop norm;
       v = ad_Verdict (ActionDecisionFor ul c)
   in (v = ActionDeny) = (norm \<noteq> [] \<and> catastrophic) \<and>
      (v = ActionNeedsHITL) = (norm \<noteq> [] \<and> \<not> catastrophic \<and> risky) \<and>
      (v = ActionAllow) = (norm = [] \<or> \<not> catastrophic \<and> \<not> risky)"
  by (simp add: ActionDecisionFor_def Let_def destructiveActionRules_def action_allow_def)

text \<open>
  The precedence of secret containment: a broad grant or an exfiltration verb on a
  sensitive path denies, any other command on a sensitive path needs a human unless it
  starts with a path-managing verb, and everything else is allowed; the verdict is never
  anything but these three.
\<close>

theorem secret_gate_verdicts:
  "let norm = normalizeCommand ul c;
       broad = list_ex (\<lambda>r. bt_match r norm) broadTokenRules;
       sensitive = containsSensitivePath norm;
       v = sd_Verdict (SecretDecisionFor ul c)
   in (v = ActionDeny) = (norm \<noteq> [] \<and> (broad \<or> sensitive \<and> hasExfilVerb norm)) \<and>
      (v = ActionNeedsHITL) =
        (norm \<noteq> [] \<and> \<not> broad \<and> sensitive \<and> \<not> hasExfilVerb norm \<and> \<not> hasBenignSecretVerb norm) \<and>
      v \<in> {ActionAllow, ActionDeny, ActionNeedsHITL}"
proof -
  have "find P xs = None \<longleftrightarrow> \<not> list_ex P xs" for P and xs :: "broadTokenRule list"
    by (auto simp: find_None_iff list_ex_iff)
  then show ?thesis
    by (auto simp: SecretDecisionFor_def Let_def secret_allow_def containsSensitivePath_def
        split: option.split prod.split)
      (metis not_None_eq)+
qed

lemma severity_cases:
  "actionVerdictSeverity v \<in> {- 1, 0, 1, 2}" "actionVerdictSeverity v = 2 \<longleftrightarrow> v = ActionDeny"
  "actionVerdictSeverity v = 1 \<longleftrightarrow> v = ActionNeedsHITL" "actionVerdictSeverity v = 0 \<longleftrightarrow> v = ActionAllow"
  by (auto simp: actionVerdictSeverity_def)

lemma action_verdict_known: "ad_Verdict (ActionDecisionFor ul c) \<in> {ActionAllow, ActionDeny, ActionNeedsHITL}"
  by (simp add: ActionDecisionFor_def Let_def destructiveActionRules_def action_allow_def)

lemma secret_verdict_known: "sd_Verdict (SecretDecisionFor ul c) \<in> {ActionAllow, ActionDeny, ActionNeedsHITL}"
  by (simp add: SecretDecisionFor_def Let_def secret_allow_def split: option.split prod.split)

lemma DecideToolUse_cases:
  "let d = DecideToolUse ul c; a = ad_Verdict (ActionDecisionFor ul c); s = sd_Verdict (SecretDecisionFor ul c)
   in (tu_Verdict d = a \<or> tu_Verdict d = s) \<and> tu_Verdict d \<in> {ActionAllow, ActionDeny, ActionNeedsHITL}"
  using action_verdict_known [of ul c] secret_verdict_known [of ul c]
  by (auto simp: DecideToolUse_def Let_def)

text \<open>
  (C8) The combined decision is the stricter of the two: its severity is the maximum, it
  blocks exactly when one of the two layers does, it names the secret layer only when that
  one is strictly stricter, it carries the rule of the layer it names, and an allow none.
\<close>

theorem DecideToolUse_most_severe:
  "let d = DecideToolUse ul c;
       a = actionVerdictSeverity (ad_Verdict (ActionDecisionFor ul c));
       s = actionVerdictSeverity (sd_Verdict (SecretDecisionFor ul c))
   in actionVerdictSeverity (tu_Verdict d) = max a s \<and>
      IsBlocking d = (0 < max a s) \<and>
      (tu_Check d = ToolUseCheckSecret) = (a < s) \<and>
      (tu_Check d = ToolUseCheckAction) = (s \<le> a \<and> 0 < a) \<and>
      (tu_Verdict d = ActionAllow) = (tu_Check d = ToolUseCheckNone) \<and>
      tu_Rule d = (if a < s then sd_Rule (SecretDecisionFor ul c)
                   else if 0 < a then ad_Rule (ActionDecisionFor ul c) else [])"
proof -
  define A S where "A = ActionDecisionFor ul c" and "S = SecretDecisionFor ul c"
  have "ad_Verdict A \<in> {ActionAllow, ActionDeny, ActionNeedsHITL}"
    "sd_Verdict S \<in> {ActionAllow, ActionDeny, ActionNeedsHITL}"
    unfolding A_def S_def by (rule action_verdict_known, rule secret_verdict_known)
  then show ?thesis
    unfolding DecideToolUse_def Let_def A_def [symmetric] S_def [symmetric]
    by (elim insertE emptyE) (simp_all add: IsBlocking_def actionVerdictSeverity_def)
qed

text \<open>
  A command's spelling does not matter: the decision for a command of ASCII
  characters is that for its normal form, lower-cased and with single blanks.
\<close>

theorem DecideToolUse_normal_form:
  assumes "is_ascii c"
  shows "DecideToolUse ul (normalizeCommand ul c) = DecideToolUse ul c"
  by (simp add: DecideToolUse_def ActionDecisionFor_def SecretDecisionFor_def
      normalizeCommand_idem [OF assms])

theorem DecideToolUse_normal_form_witness:
  "DecideToolUse id (normalizeCommand id '' RM  -rf / '') = DecideToolUse id '' RM  -rf / '' \<and>
   normalizeCommand id '' RM  -rf / '' = ''rm -rf /''"
proof
  have ascii: "is_ascii '' RM  -rf / ''" by (simp add: is_ascii_def)
  show "DecideToolUse id (normalizeCommand id '' RM  -rf / '') = DecideToolUse id '' RM  -rf / ''"
    by (rule DecideToolUse_normal_form [OF ascii])
  have "Join (map (map lower_char) (Fields '' RM  -rf / '')) '' '' = ''rm -rf /''" by code_simp
  then show "normalizeCommand id '' RM  -rf / '' = ''rm -rf /''"
    by (simp only: normalizeCommand_ascii [OF ascii])
qed

text \<open>
  The command's exit code tells the verdict, and what blocks is recorded: when
  writing the line and appending to the ledger work, \<^verbatim>\<open>gate tooluse\<close> prints the decision,
  exits with 0, 13 or 14 for allow, deny and needs-hitl, and records the decision exactly
  when it blocks and a cycle is named; a failed write or append never gives exit code 0
  to a blocking decision.
\<close>

theorem runGateTooluse_exit_code:
  "let d = DecideToolUse ul command;
       (out, recorded, err) = runGateTooluse ul write record_ok now command cycleID;
       line = jprint (ToolUseDecision_json d);
       entry = NewToolUseDecisionLedgerEntry now cycleID command d
   in (gate_exit_code err = 0 \<longrightarrow> tu_Verdict d = ActionAllow \<and> recorded = []) \<and>
      (gate_exit_code err = 13 \<longrightarrow> tu_Verdict d = ActionDeny) \<and>
      (gate_exit_code err = 14 \<longrightarrow> tu_Verdict d = ActionNeedsHITL) \<and>
      (write line \<and> record_ok entry \<longrightarrow>
         out = [line] \<and> gate_exit_code err = exitCodeForToolUseVerdict (tu_Verdict d) \<and>
         recorded = (if cycleID \<noteq> [] \<and> IsBlocking d then [entry] else []))"
  using DecideToolUse_cases [of ul command]
  by (auto simp: runGateTooluse_def Let_def gate_exit_code_def exitCodeForToolUseVerdict_def IsBlocking_def)

theorem runGateTooluse_exit_code_witness:
  "gate_exit_code (snd (snd (runGateTooluse id (\<lambda>l. True) (\<lambda>e. True) 0 ''drop table t'' ''c1''))) = 14"
proof -
  have "tu_Verdict (DecideToolUse id ''drop table t'') = ActionNeedsHITL" by code_simp
  then show ?thesis
    using runGateTooluse_exit_code [of id "''drop table t''" "\<lambda>l. True" "\<lambda>e. True" 0 "''c1''"]
    by (simp add: case_prod_beta Let_def exitCodeForToolUseVerdict_def)
qed

subsection \<open>Two patterns that match other commands than their comments say\<close>

text \<open>
  A force-push to a feature branch is denied when the branch's name contains one of the
  protected names, and the function-named fork bomb is not recognised.
\<close>

lemma force_push_feature_branch_denied:
  "matchForcePushProtected ''git push --force origin feature/domain''"
  by code_simp

lemma named_fork_bomb_missed:
  "\<not> matchForkBomb ''bomb(){ bomb|bomb& };bomb''"
  by code_simp

end
