(* ===== verification/Transition.thy ===== *)
theory Transition
  imports Prelude
begin

section \<open>Interfaces shared by the components\<close>

text \<open>
  Two contracts that several components meet. A transition system with an invariant: what
  the initial states have and every step keeps, every reachable state has. A rotation over
  a list: the successor of the member at position \<open>i\<close> is the one at \<open>i + 1\<close>, around the end.
\<close>

locale transition_system =
  fixes init :: "'s \<Rightarrow> bool" and step :: "'s \<Rightarrow> 's \<Rightarrow> bool" and inv :: "'s \<Rightarrow> bool"
  assumes inv_init: "init s \<Longrightarrow> inv s"
    and inv_step: "inv s \<Longrightarrow> step s t \<Longrightarrow> inv t"
begin

lemma steps_inv: "step\<^sup>*\<^sup>* s t \<Longrightarrow> inv s \<Longrightarrow> inv t"
  by (induction rule: rtranclp_induct) (auto intro: inv_step)

lemma reachable_inv: "init s \<Longrightarrow> step\<^sup>*\<^sup>* s t \<Longrightarrow> inv t"
  by (rule steps_inv) (auto intro: inv_init)

text \<open>A state property that every step from a good state keeps is kept for good.\<close>

lemma stable:
  assumes "\<And>s t. inv s \<Longrightarrow> step s t \<Longrightarrow> P s \<Longrightarrow> P t"
  shows "step\<^sup>*\<^sup>* s t \<Longrightarrow> inv s \<Longrightarrow> P s \<Longrightarrow> P t"
proof (induction rule: rtranclp_induct)
  case (step y z)
  then show ?case using assms steps_inv by blast
qed

text \<open>A measure that no step lowers never goes down on a run.\<close>

lemma monotone:
  assumes "\<And>s t. inv s \<Longrightarrow> step s t \<Longrightarrow> m s \<le> (m t :: 'm :: order)"
  shows "step\<^sup>*\<^sup>* s t \<Longrightarrow> inv s \<Longrightarrow> m s \<le> m t"
proof (induction rule: rtranclp_induct)
  case (step y z)
  then show ?case using assms steps_inv order_trans by blast
qed simp

end

locale rotation =
  fixes next_of :: "'a list \<Rightarrow> 'a \<Rightarrow> 'a"
  assumes next_nth: "distinct xs \<Longrightarrow> i < length xs \<Longrightarrow> next_of xs (xs ! i) = xs ! (Suc i mod length xs)"
begin

lemma iterate_nth:
  assumes "distinct xs" "i < length xs"
  shows "(next_of xs ^^ k) (xs ! i) = xs ! ((i + k) mod length xs)"
proof (induction k)
  case (Suc k)
  have "(i + k) mod length xs < length xs" using assms(2) by (intro mod_less_divisor) linarith
  with Suc show ?case
    by (simp add: next_nth [OF assms(1)] mod_Suc_eq)
qed (use assms in simp)

lemma returns: "distinct xs \<Longrightarrow> x \<in> set xs \<Longrightarrow> (next_of xs ^^ length xs) x = x"
  by (auto simp: in_set_conv_nth iterate_nth)

lemma in_members: "distinct xs \<Longrightarrow> x \<in> set xs \<Longrightarrow> next_of xs x \<in> set xs"
proof -
  assume xs: "distinct xs" "x \<in> set xs"
  then obtain i where i: "i < length xs" "x = xs ! i" by (auto simp: in_set_conv_nth)
  then have "Suc i mod length xs < length xs" by (intro mod_less_divisor) linarith
  then show ?thesis using i by (simp add: next_nth [OF xs(1)])
qed

lemma changes: "distinct xs \<Longrightarrow> 2 \<le> length xs \<Longrightarrow> x \<in> set xs \<Longrightarrow> next_of xs x \<noteq> x"
proof -
  assume xs: "distinct xs" "2 \<le> length xs" "x \<in> set xs"
  then obtain i where i: "i < length xs" "x = xs ! i" by (auto simp: in_set_conv_nth)
  have "Suc i mod length xs \<noteq> i"
  proof (cases "Suc i = length xs")
    case False
    with i have "Suc i < length xs" by linarith
    then show ?thesis by simp
  qed (use xs(2) in auto)
  moreover have "Suc i mod length xs < length xs" using i by (intro mod_less_divisor) linarith
  ultimately show ?thesis
    unfolding i(2) next_nth [OF xs(1) i(1)] by (simp add: nth_eq_iff_index_eq [OF xs(1) _ i(1)])
qed

text \<open>One round visits every member.\<close>

lemma covers:
  assumes "distinct xs" "x \<in> set xs"
  shows "(\<lambda>k. (next_of xs ^^ k) x) ` {..<length xs} = set xs"
proof -
  obtain i where i: "i < length xs" "x = xs ! i" using assms(2) by (auto simp: in_set_conv_nth)
  have "y \<in> (\<lambda>k. (next_of xs ^^ k) x) ` {..<length xs}" if "y \<in> set xs" for y
  proof -
    obtain j where j: "j < length xs" "y = xs ! j" using \<open>y \<in> set xs\<close> by (auto simp: in_set_conv_nth)
    define k where "k = (if i \<le> j then j - i else j + length xs - i)"
    have "k < length xs" "(i + k) mod length xs = j" using i(1) j(1) by (auto simp: k_def)
    then show ?thesis using i j iterate_nth [OF assms(1) i(1), of k] by (intro image_eqI [of _ _ k]) simp_all
  qed
  moreover have "(next_of xs ^^ k) x \<in> set xs" for k
  proof -
    have "(i + k) mod length xs < length xs" using i by (intro mod_less_divisor) linarith
    then show ?thesis unfolding i(2) iterate_nth [OF assms(1) i(1)] by (rule nth_mem)
  qed
  ultimately show ?thesis by auto
qed

end

end
