(* ===== verification/CycleCore.thy ===== *)
theory CycleCore
  imports Contract Transition
begin

section \<open>Cycle state, results and the gate pipeline (internal/cycle/state.go, result.go, gate.go)\<close>

text \<open>
  The domain layer of an autonomous cycle: the methods of its state, the railway result
  type, and the pipeline that runs the gates in order and halts at the first failure.
  A method with a pointer receiver is a function to the result whose value is the new
  state; the clock reading is an argument. A gate is a name and a function that may
  change the world \<open>'w\<close> (it runs commands), which is how the code under src/ sees it.
\<close>

type_synonym State = CycleState

subsection \<open>Results (result.go)\<close>

datatype cycle_error =
    HaltedError HaltReason "GateReport list"
  | CycleErr contract_error
  | OtherErr string

record 'a Result =
  re_value :: 'a
  re_err :: "cycle_error option"
  re_reports :: "GateReport list"

definition Success :: "'a \<Rightarrow> GateReport list \<Rightarrow> 'a Result" where
  "Success v reports = \<lparr>re_value = v, re_err = None, re_reports = reports\<rparr>"

definition Failure :: "'a \<Rightarrow> cycle_error \<Rightarrow> GateReport list \<Rightarrow> 'a Result" where
  "Failure v err reports = \<lparr>re_value = v, re_err = Some err, re_reports = reports\<rparr>"

definition IsSuccess :: "'a Result \<Rightarrow> bool" where
  "IsSuccess r \<longleftrightarrow> re_err r = None"

definition IsFailure :: "'a Result \<Rightarrow> bool" where
  "IsFailure r \<longleftrightarrow> re_err r \<noteq> None"

definition Then :: "'a Result \<Rightarrow> ('a \<Rightarrow> 'a Result) \<Rightarrow> 'a Result" where
  "Then r fn = (if IsFailure r then r else fn (re_value r))"

text \<open>\<open>zero\<close> is Go's zero value of the target type.\<close>

definition ResultMap :: "'b \<Rightarrow> 'a Result \<Rightarrow> ('a \<Rightarrow> 'b) \<Rightarrow> 'b Result" where
  "ResultMap zero r fn =
     (case re_err r of
        Some e \<Rightarrow> Failure zero e (re_reports r)
      | None \<Rightarrow> Success (fn (re_value r)) (re_reports r))"

definition FlatMap :: "'b \<Rightarrow> 'a Result \<Rightarrow> ('a \<Rightarrow> 'b Result) \<Rightarrow> 'b Result" where
  "FlatMap zero r fn =
     (case re_err r of Some e \<Rightarrow> Failure zero e (re_reports r) | None \<Rightarrow> fn (re_value r))"

definition Combine :: "'a Result \<Rightarrow> 'a Result \<Rightarrow> ('a \<Rightarrow> 'a \<Rightarrow> 'a) \<Rightarrow> 'a Result" where
  "Combine a b combiner =
     (if IsFailure a then a
      else if IsFailure b then b
      else Success (combiner (re_value a) (re_value b)) (re_reports a @ re_reports b))"

lemma Result_simps [simp]:
  "re_value (Success v rs) = v" "re_err (Success v rs) = None" "re_reports (Success v rs) = rs"
  "re_value (Failure v e rs) = v" "re_err (Failure v e rs) = Some e" "re_reports (Failure v e rs) = rs"
  "IsSuccess (Success v rs)" "\<not> IsFailure (Success v rs)"
  "IsFailure (Failure v e rs)" "\<not> IsSuccess (Failure v e rs)"
  by (simp_all add: Success_def Failure_def IsSuccess_def IsFailure_def)

lemma not_IsSuccess [simp]: "(\<not> IsSuccess r) = IsFailure r"
  by (simp add: IsSuccess_def IsFailure_def)

subsection \<open>State (state.go)\<close>

definition normaliseLocalGates :: "string list \<Rightarrow> string list" where
  "normaliseLocalGates gates = filter (\<lambda>g. g \<noteq> []) (map TrimSpace gates)"

definition NewState :: "int \<Rightarrow> NewCycleRequest \<Rightarrow> string \<Rightarrow> contract_error + State" where
  "NewState now req cid =
     (let branch = (if ncr_Branch req = [] then ''feat/autonomous-cycle'' else ncr_Branch req) in
      if branch = ''main'' \<or> branch = ''master'' then Inl ErrMainBranchForbidden
      else if ncr_Goal req = [] then Inl ErrGoalRequired
      else let maxCycles = (if ncr_MaxCycles req \<le> 0 then 10 else ncr_MaxCycles req) in
        Inr \<lparr>cs_ID = cid, cs_Phase = CyclePhasePreflight, cs_CompletedCycles = 0,
             cs_MaxCycles = maxCycles, cs_Branch = branch, cs_BaselineSHA = [],
             cs_PendingFiles = ncr_PendingFiles req,
             cs_LocalGates = normaliseLocalGates (ncr_LocalGates req),
             cs_AuditCmd = ncr_AuditCmd req, cs_PolishTestCmd = ncr_PolishTestCmd req,
             cs_ViolationsFound = [], cs_NextCycleGoal = ncr_Goal req, cs_Halted = False,
             cs_HaltReason = [], cs_CreatedAt = now, cs_UpdatedAt = now, cs_History = [],
             cs_LastFailedGate = [], cs_AutoGoal = ncr_AutoGoal req,
             cs_MaxDurationMinutes = ncr_MaxDurationMinutes req, cs_StartedAt = now\<rparr>)"

definition Advance :: "int \<Rightarrow> State \<Rightarrow> State Result" where
  "Advance now s =
     (if cs_Halted s then Failure s (CycleErr ErrCycleHalted) []
      else Success (s\<lparr>cs_Phase := CyclePhase_Next (cs_Phase s), cs_UpdatedAt := now\<rparr>) [])"

definition Halt :: "int \<Rightarrow> HaltReason \<Rightarrow> State \<Rightarrow> State Result" where
  "Halt now reason s =
     Failure (s\<lparr>cs_Halted := True, cs_HaltReason := reason, cs_Phase := CyclePhaseHalted,
                cs_UpdatedAt := now\<rparr>) (HaltedError reason []) []"

definition CompleteCycle :: "int \<Rightarrow> State \<Rightarrow> State Result" where
  "CompleteCycle now s =
     (if cs_Halted s then Failure s (CycleErr ErrCycleHalted) []
      else Success (s\<lparr>cs_CompletedCycles := cs_CompletedCycles s + 1, cs_Phase := CyclePhasePreflight,
                      cs_UpdatedAt := now\<rparr>) [])"

definition SetGoal :: "int \<Rightarrow> string \<Rightarrow> State \<Rightarrow> State Result" where
  "SetGoal now goal s = Success (s\<lparr>cs_NextCycleGoal := goal, cs_UpdatedAt := now\<rparr>) []"

definition AppendReport :: "int \<Rightarrow> GateReport \<Rightarrow> State \<Rightarrow> State Result" where
  "AppendReport now r s = Success (s\<lparr>cs_History := cs_History s @ [r], cs_UpdatedAt := now\<rparr>) []"

text \<open>The key \<^verbatim>\<open>"%s:%d:%s"\<close> of a violation and the loop with the keys seen.\<close>

definition violation_key :: "Violation \<Rightarrow> string" where
  "violation_key v = v_File v @ '':'' @ show_int (v_Line v) @ '':'' @ v_Type v"

fun append_new :: "string set \<Rightarrow> Violation list \<Rightarrow> Violation list \<Rightarrow> Violation list" where
  "append_new seen found [] = found"
| "append_new seen found (v # vs) =
     (if violation_key v \<in> seen then append_new seen found vs
      else append_new (insert (violation_key v) seen) (found @ [v]) vs)"

definition AppendViolations :: "int \<Rightarrow> Violation list \<Rightarrow> State \<Rightarrow> State Result" where
  "AppendViolations now vs s =
     (let seen = set (map violation_key (cs_ViolationsFound s))
      in Success (s\<lparr>cs_ViolationsFound := append_new seen (cs_ViolationsFound s) vs,
                    cs_UpdatedAt := now\<rparr>) [])"

definition ClearViolations :: "int \<Rightarrow> string \<Rightarrow> State \<Rightarrow> State Result" where
  "ClearViolations now vtype s =
     Success (s\<lparr>cs_ViolationsFound := filter (\<lambda>v. v_Type v \<noteq> vtype) (cs_ViolationsFound s),
                cs_UpdatedAt := now\<rparr>) []"

subsection \<open>The pipeline (gate.go)\<close>

record 'w Gate =
  ga_Name :: string
  ga_Run :: "State \<Rightarrow> 'w \<Rightarrow> GateResult \<times> State \<times> 'w"

type_synonym 'w Pipeline = "'w Gate list"

text \<open>The loop of \<^verbatim>\<open>Execute\<close> with the state and the reports so far.\<close>

fun Execute_from ::
  "int \<Rightarrow> 'w Pipeline \<Rightarrow> State \<Rightarrow> GateReport list \<Rightarrow> 'w \<Rightarrow> State Result \<times> 'w" where
  "Execute_from now [] current reports w = (Success current reports, w)"
| "Execute_from now (gate # gates) current reports w =
     (let (result, next_state, w') = ga_Run gate current w;
          reports' = reports @ [Report result]
      in case result of
           GateFailure r reason \<Rightarrow>
             (let next' = next_state\<lparr>cs_LastFailedGate := gr_Gate r\<rparr>;
                  halted = re_value (Halt now reason next')
              in (Failure halted (HaltedError reason reports') reports', w'))
         | _ \<Rightarrow> Execute_from now gates next_state reports' w')"

definition Execute :: "int \<Rightarrow> 'w Pipeline \<Rightarrow> State \<Rightarrow> 'w \<Rightarrow> State Result \<times> 'w" where
  "Execute now p initial w = Execute_from now p initial [] w"

definition Names :: "'w Pipeline \<Rightarrow> string list" where
  "Names p = map ga_Name p"

subsection \<open>What the pipeline does\<close>

text \<open>Whether a gate blocks, and the run of a list of gates none of which blocks.\<close>

fun blocks :: "GateResult \<Rightarrow> bool" where
  "blocks (GateFailure r reason) = True"
| "blocks _ = False"

fun run_gates :: "'w Pipeline \<Rightarrow> State \<Rightarrow> 'w \<Rightarrow> (GateResult list \<times> State \<times> 'w)" where
  "run_gates [] s w = ([], s, w)"
| "run_gates (g # gs) s w =
     (let (r, s', w') = ga_Run g s w; (rs, s'', w'') = run_gates gs s' w' in (r # rs, s'', w''))"

lemma run_gates_append:
  "run_gates (gs @ hs) s w =
     (let (rs, s', w') = run_gates gs s w; (rs', s'', w'') = run_gates hs s' w' in (rs @ rs', s'', w''))"
  by (induction gs arbitrary: s w) (auto split: prod.splits)

lemma run_gates_length: "run_gates gs s w = (rs, s', w') \<Longrightarrow> length rs = length gs"
  by (induction gs arbitrary: s w rs s' w') (auto split: prod.splits)

lemma Execute_from_append:
  "run_gates gs s w = (rs, s', w') \<Longrightarrow> list_all (\<lambda>r. \<not> blocks r) rs \<Longrightarrow>
   Execute_from now (gs @ hs) s reports w = Execute_from now hs s' (reports @ map Report rs) w'"
proof (induction gs arbitrary: s w rs reports)
  case (Cons g gs)
  obtain r s1 w1 where g: "ga_Run g s w = (r, s1, w1)" by (cases "ga_Run g s w") auto
  obtain rs1 where rs: "run_gates gs s1 w1 = (rs1, s', w')" "rs = r # rs1"
    using Cons.prems(1) g by (auto split: prod.splits)
  with Cons.prems(2) Cons.IH [OF rs(1), of "reports @ [Report r]"] g
  show ?case by (cases r) simp_all
qed simp

lemma first_blocking:
  obtains (pass) rs s' w' where "run_gates p s w = (rs, s', w')" "list_all (\<lambda>r. \<not> blocks r) rs"
  | (fail) gs g hs rs s1 w1 report reason s2 w2 where "p = gs @ g # hs"
      "run_gates gs s w = (rs, s1, w1)" "list_all (\<lambda>r. \<not> blocks r) rs"
      "ga_Run g s1 w1 = (GateFailure report reason, s2, w2)"
proof (induction p arbitrary: s w thesis)
  case Nil
  then show ?case by simp
next
  case (Cons g gs)
  obtain r s1 w1 where g: "ga_Run g s w = (r, s1, w1)" by (cases "ga_Run g s w") auto
  show ?case
  proof (cases "blocks r")
    case True
    then obtain report reason where "r = GateFailure report reason" by (cases r) auto
    then show ?thesis using Cons.prems(2) [of "[]" g gs "[]" s w report reason s1 w1] g by simp
  next
    case False
    show ?thesis
    proof (rule Cons.IH [of s1 w1])
      fix rs s' w'
      assume "run_gates gs s1 w1 = (rs, s', w')" "list_all (\<lambda>r. \<not> blocks r) rs"
      then show ?thesis using Cons.prems(1) [of "r # rs" s' w'] g False by simp
    next
      fix gs1 g1 hs rs s1' w1' report reason s2 w2
      assume "gs = gs1 @ g1 # hs" "run_gates gs1 s1 w1 = (rs, s1', w1')"
        "list_all (\<lambda>r. \<not> blocks r) rs" "ga_Run g1 s1' w1' = (GateFailure report reason, s2, w2)"
      then show ?thesis
        using Cons.prems(2) [of "g # gs1" g1 hs "r # rs" s1' w1' report reason s2 w2] g False by simp
    qed
  qed
qed

lemma Execute_pass:
  "run_gates p s w = (rs, s', w') \<Longrightarrow> list_all (\<lambda>r. \<not> blocks r) rs \<Longrightarrow>
   Execute now p s w = (Success s' (map Report rs), w')"
  using Execute_from_append [of p s w rs s' w' now "[]" "[]"] by (simp add: Execute_def)

lemma Execute_fail:
  assumes "run_gates gs s w = (rs, s1, w1)" "list_all (\<lambda>r. \<not> blocks r) rs"
    "ga_Run g s1 w1 = (GateFailure report reason, s2, w2)"
  shows "Execute now (gs @ g # hs) s w =
    (let reports = map Report rs @ [report];
         halted = re_value (Halt now reason (s2\<lparr>cs_LastFailedGate := gr_Gate report\<rparr>))
     in (Failure halted (HaltedError reason reports) reports, w2))"
  using Execute_from_append [OF assms(1,2), of now "g # hs" "[]"] assms(3)
  by (simp add: Execute_def Let_def)

subsection \<open>Violations\<close>

lemma append_new_append: "append_new seen (xs @ ys) vs = xs @ append_new seen ys vs"
  by (induction vs arbitrary: seen ys) simp_all

lemma append_new_found: "append_new seen found vs = found @ append_new seen [] vs"
  using append_new_append [of seen found "[]"] by simp

lemma append_new_Cons:
  "append_new seen [] (v # vs) =
     (if violation_key v \<in> seen then append_new seen [] vs
      else v # append_new (insert (violation_key v) seen) [] vs)"
  using append_new_append [of _ "[v]" "[]"] by simp

lemma append_new_keys:
  "distinct (map violation_key (append_new seen [] vs)) \<and>
   violation_key ` set (append_new seen [] vs) = violation_key ` set vs - seen \<and>
   set (append_new seen [] vs) \<subseteq> set vs"
proof (induction vs arbitrary: seen)
  case (Cons v vs)
  show ?case
  proof (cases "violation_key v \<in> seen")
    case True
    with Cons [of seen] show ?thesis by (auto simp: append_new_Cons simp del: append_new.simps)
  next
    case False
    with Cons [of "insert (violation_key v) seen"] show ?thesis
      by (auto simp: append_new_Cons simp del: append_new.simps)
  qed
qed simp

lemma append_new_known: "set (map violation_key vs) \<subseteq> seen \<Longrightarrow> append_new seen [] vs = []"
  by (induction vs) auto

lemma Halt_value:
  "cs_Halted (re_value (Halt now reason s))" "cs_HaltReason (re_value (Halt now reason s)) = reason"
  "cs_LastFailedGate (re_value (Halt now reason s)) = cs_LastFailedGate s"
  "cs_Phase (re_value (Halt now reason s)) = CyclePhaseHalted" "IsFailure (Halt now reason s)"
  "\<not> CanAdvance t (re_value (Halt now reason s))"
  "cs_ID (re_value (Halt now reason s)) = cs_ID s"
  "cs_CompletedCycles (re_value (Halt now reason s)) = cs_CompletedCycles s"
  "cs_MaxCycles (re_value (Halt now reason s)) = cs_MaxCycles s"
  by (simp_all add: Halt_def CanAdvance_def)

subsection \<open>Properties\<close>

text \<open>
  \<^verbatim>\<open>NewState\<close> refuses the main branches and an empty goal, and only those; what it
  returns can advance at once, is on a branch that is neither empty nor main, has a
  positive cycle limit, and keeps no blank gate command.
\<close>

theorem NewState_spec:
  "let branch = (if ncr_Branch req = [] then ''feat/autonomous-cycle'' else ncr_Branch req) in
   case NewState now req cid of
     Inl e \<Rightarrow> (e = ErrMainBranchForbidden \<and> branch \<in> {''main'', ''master''}) \<or>
              (e = ErrGoalRequired \<and> branch \<notin> {''main'', ''master''} \<and> ncr_Goal req = [])
   | Inr s \<Rightarrow> branch \<notin> {''main'', ''master''} \<and> ncr_Goal req \<noteq> [] \<and> cs_Branch s = branch \<and> branch \<noteq> [] \<and>
             CanAdvance now s \<and> 0 < cs_MaxCycles s \<and> cs_Phase s = CyclePhasePreflight \<and>
             cs_LocalGates s = filter (\<lambda>g. g \<noteq> []) (map TrimSpace (ncr_LocalGates req))"
  by (auto simp: NewState_def Let_def CanAdvance_def normaliseLocalGates_def)

text \<open>
  (C14) The pipeline stops at the first failing gate. Either no gate blocks, and the result
  is a success whose reports are those of all the gates in order and whose state is the
  one they left; or a first gate blocks, no later gate runs (the world is as that gate
  left it), and the result is a failure with the halted state, the gate's reason and name,
  and the reports of the gates that ran.
\<close>

theorem Execute_stops_at_first_failure:
  "(\<exists>rs s' w'. run_gates p s w = (rs, s', w') \<and> length rs = length p \<and> list_all (\<lambda>r. \<not> blocks r) rs \<and>
      Execute now p s w = (Success s' (map Report rs), w')) \<or>
   (\<exists>gs g hs rs s1 w1 report reason s2 w2 res.
      p = gs @ g # hs \<and> run_gates gs s w = (rs, s1, w1) \<and> list_all (\<lambda>r. \<not> blocks r) rs \<and>
      ga_Run g s1 w1 = (GateFailure report reason, s2, w2) \<and> Execute now p s w = (res, w2) \<and>
      re_err res = Some (HaltedError reason (map Report rs @ [report])) \<and>
      re_reports res = map Report rs @ [report] \<and> cs_Halted (re_value res) \<and>
      cs_HaltReason (re_value res) = reason \<and> cs_LastFailedGate (re_value res) = gr_Gate report \<and>
      \<not> CanAdvance t (re_value res))"
proof (cases rule: first_blocking [of p s w, case_names pass fail])
  case (pass rs s' w')
  from pass(1) run_gates_length [OF pass(1)] pass(2) Execute_pass [OF pass]
  show ?thesis by (intro disjI1 exI conjI)
next
  case (fail gs g hs rs s1 w1 report reason s2 w2)
  note ex = Execute_fail [OF fail(2-4), of now hs]
  show ?thesis
    by (rule disjI2, intro exI conjI, rule fail(1), rule fail(2), rule fail(3), rule fail(4),
        unfold fail(1) ex Let_def, rule refl) (simp_all add: Halt_value)
qed

text \<open>
  Merging violations: the old ones stay in front, the added ones come from the new
  list and have keys that are new and pairwise different, no key is lost, and merging the
  same list again adds nothing.
\<close>

theorem AppendViolations_dedup:
  "let s' = re_value (AppendViolations now vs s);
       old = cs_ViolationsFound s
   in \<exists>new. cs_ViolationsFound s' = old @ new \<and> set new \<subseteq> set vs \<and> distinct (map violation_key new) \<and>
      violation_key ` set new = violation_key ` set vs - violation_key ` set old \<and>
      cs_ViolationsFound (re_value (AppendViolations later vs s')) = cs_ViolationsFound s'"
proof -
  define new where "new = append_new (violation_key ` set (cs_ViolationsFound s)) [] vs"
  have found: "cs_ViolationsFound (re_value (AppendViolations now vs s)) = cs_ViolationsFound s @ new"
    unfolding new_def AppendViolations_def Let_def by (subst append_new_found) simp
  have keys: "distinct (map violation_key new)" "set new \<subseteq> set vs"
    "violation_key ` set new = violation_key ` set vs - violation_key ` set (cs_ViolationsFound s)"
    using append_new_keys unfolding new_def by blast+
  have "append_new (violation_key ` set (cs_ViolationsFound s @ new)) [] vs = []"
    by (rule append_new_known) (use keys(3) in auto)
  then have "cs_ViolationsFound (re_value (AppendViolations later vs (re_value (AppendViolations now vs s)))) =
      cs_ViolationsFound s @ new"
    unfolding AppendViolations_def [of later] Let_def found by (subst append_new_found) (simp add: image_Un)
  with found keys show ?thesis by (auto simp: Let_def)
qed

text \<open>
  The railway laws: chaining is associative, a success with no reports is a left
  identity, a failure skips every later step and keeps its value, and the first failure
  of two combined results wins.
\<close>

theorem Result_railway_laws:
  "Then (Then r f) g = Then r (\<lambda>v. Then (f v) g) \<and>
   Then (Success v rs) f = f v \<and>
   Then (Failure v e rs) f = Failure v e rs \<and>
   FlatMap z (Failure v e rs) h = Failure z e rs \<and>
   Combine (Failure v e rs) r c = Failure v e rs \<and>
   (IsSuccess r \<longrightarrow> Combine r (Failure v e rs) c = Failure v e rs) \<and>
   (IsSuccess r \<longrightarrow> re_reports (Combine r (Success v rs) c) = re_reports r @ rs)"
  by (simp add: Then_def FlatMap_def Combine_def IsSuccess_def IsFailure_def)

theorem Result_railway_laws_witness:
  "re_reports (Combine (Success (1::int) []) (Success 2 [])  (+)) = []"
  using Result_railway_laws [where r = "Success (1::int) []" and v = 2 and rs = "[]" and c = "(+)"
      and f = "\<lambda>v. Success v []" and g = "\<lambda>v. Success v []" and e = "OtherErr []" and z = "0 :: int"
      and h = "\<lambda>v. Success v []"]
  by simp

subsection \<open>Where the comments say something else\<close>

text \<open>
  \<^verbatim>\<open>CompleteCycle\<close> keeps the goal, although its comment says that it clears it; and two
  violations that differ in file, line and type can share the key that stands for the
  three.
\<close>

lemma CompleteCycle_keeps_goal:
  "cs_NextCycleGoal (re_value (CompleteCycle now s)) = cs_NextCycleGoal s"
  by (simp add: CompleteCycle_def)

lemma violation_key_ambiguous:
  "violation_key \<lparr>v_File = ''a:1'', v_Line = 2, v_Type = ''x'', v_Message = [], v_Check = None\<rparr> =
   violation_key \<lparr>v_File = ''a'', v_Line = 1, v_Type = ''2:x'', v_Message = [], v_Check = None\<rparr>"
  by code_simp

end
