(* ===== verification/StateSync.thy ===== *)
theory StateSync
  imports CycleCore
begin

section \<open>The state file (internal/cycle/sync.go)\<close>

text \<open>
  The atomic writer of the cycle state and the reader that falls back to the backup. The
  disk holds the primary file, its backup and the temporary files. A call of \<^verbatim>\<open>Write\<close> is
  modelled with the list of disk states it goes through, so that stopping after any of
  them is a crash; a fault names the system call that fails. \<open>marshal\<close> is
  \<^verbatim>\<open>json.MarshalIndent\<close> on the state; \<open>um\<close> is \<^verbatim>\<open>json.Unmarshal\<close> INTO a value: it returns
  whether it succeeded and the value it leaves, which a failed decode may have changed.
\<close>

record state_disk =
  sd_primary :: "bytes option"
  sd_bak :: "bytes option"
  sd_temps :: "bytes list"

datatype sync_error =
    StateReadFailed
  | StateCorruptNoBackup
  | StateBothCorrupt
  | StateMarshalFailed
  | StateMkdirFailed
  | StateReadPriorFailed
  | StateCreateTempFailed
  | StateWriteTempFailed
  | StateFsyncFailed
  | StateCloseFailed
  | StateChmodFailed
  | StateRenameFailed
  | StateBackupFailed
  | StateRemoveFailed

definition zero_state :: State where
  "zero_state = \<lparr>cs_ID = [], cs_Phase = [], cs_CompletedCycles = 0, cs_MaxCycles = 0, cs_Branch = [],
     cs_BaselineSHA = [], cs_PendingFiles = [], cs_LocalGates = [], cs_AuditCmd = [],
     cs_PolishTestCmd = [], cs_ViolationsFound = [], cs_NextCycleGoal = [], cs_Halted = False,
     cs_HaltReason = [], cs_CreatedAt = 0, cs_UpdatedAt = 0, cs_History = [], cs_LastFailedGate = [],
     cs_AutoGoal = False, cs_MaxDurationMinutes = 0, cs_StartedAt = 0\<rparr>"

subsection \<open>Reading\<close>

datatype read_fault = ReadsFine | PrimaryUnreadable | BackupUnreadable

type_synonym unmarshaller = "bytes \<Rightarrow> State \<Rightarrow> bool \<times> State"

definition StateFileSync_Read ::
  "unmarshaller \<Rightarrow> read_fault \<Rightarrow> state_disk \<Rightarrow> sync_error + State" where
  "StateFileSync_Read um flt d =
     (if flt = PrimaryUnreadable then Inl StateReadFailed
      else case sd_primary d of
        None \<Rightarrow> Inr zero_state
      | Some data \<Rightarrow>
        (let (ok, cs) = um data zero_state in
         if ok then Inr cs
         else if flt = BackupUnreadable then Inl StateCorruptNoBackup
         else case sd_bak d of
           None \<Rightarrow> Inl StateCorruptNoBackup
         | Some bakData \<Rightarrow>
           (let (bakOk, cs') = um bakData cs in if bakOk then Inr cs' else Inl StateBothCorrupt)))"

subsection \<open>Writing\<close>

text \<open>
  Where a write goes wrong. A short write leaves the first bytes of the temporary file or
  of the backup; the deferred removal of the temporary file is best effort and succeeds.
\<close>

datatype write_fault =
    NoFault
  | MarshalFails
  | MkdirFails
  | ReadPriorFails
  | CreateTempFails
  | WriteTempFails nat
  | FsyncFails
  | CloseFails
  | ChmodFails
  | RenameFails
  | BackupOpenFails
  | BackupFails nat

definition commit_rename :: "write_fault \<Rightarrow> bytes \<Rightarrow> state_disk \<Rightarrow> state_disk \<Rightarrow> sync_error option \<times> state_disk list" where
  "commit_rename flt data d d2 =
     (let d3 = d\<lparr>sd_primary := Some data\<rparr> in
      case sd_primary d of
        None \<Rightarrow> (None, [d2, d3])
      | Some prior \<Rightarrow>
        (case flt of
           BackupOpenFails \<Rightarrow> (Some StateBackupFailed, [d2, d3])
         | BackupFails n \<Rightarrow>
             (Some StateBackupFailed, [d2, d3, d3\<lparr>sd_bak := Some []\<rparr>, d3\<lparr>sd_bak := Some (take n prior)\<rparr>])
         | _ \<Rightarrow> (None, [d2, d3, d3\<lparr>sd_bak := Some []\<rparr>, d3\<lparr>sd_bak := Some prior\<rparr>])))"

definition StateFileSync_Write ::
  "(State \<Rightarrow> bytes) \<Rightarrow> write_fault \<Rightarrow> State \<Rightarrow> state_disk \<Rightarrow> sync_error option \<times> state_disk list" where
  "StateFileSync_Write marshal flt s d =
     (let data = marshal s;
          d1 = d\<lparr>sd_temps := [] # sd_temps d\<rparr>;
          d2 = d\<lparr>sd_temps := data # sd_temps d\<rparr>
      in case flt of
           MarshalFails \<Rightarrow> (Some StateMarshalFailed, [])
         | MkdirFails \<Rightarrow> (Some StateMkdirFailed, [])
         | ReadPriorFails \<Rightarrow> (Some StateReadPriorFailed, [])
         | CreateTempFails \<Rightarrow> (Some StateCreateTempFailed, [])
         | WriteTempFails n \<Rightarrow> (Some StateWriteTempFailed, [d1, d\<lparr>sd_temps := take n data # sd_temps d\<rparr>, d])
         | FsyncFails \<Rightarrow> (Some StateFsyncFailed, [d1, d2, d])
         | CloseFails \<Rightarrow> (Some StateCloseFailed, [d1, d2, d])
         | ChmodFails \<Rightarrow> (Some StateChmodFailed, [d1, d2, d])
         | RenameFails \<Rightarrow> (Some StateRenameFailed, [d1, d2, d])
         | _ \<Rightarrow> (let (err, ds) = commit_rename flt data d d2 in (err, d1 # ds)))"

text \<open>The disk when the call returns.\<close>

definition final_disk :: "state_disk \<Rightarrow> state_disk list \<Rightarrow> state_disk" where
  "final_disk d ds = last (d # ds)"

text \<open>\<open>fails\<close> is a failure other than that the file does not exist.\<close>

definition StateFileSync_Remove :: "bool \<Rightarrow> state_disk \<Rightarrow> sync_error option \<times> state_disk" where
  "StateFileSync_Remove fails d =
     (if fails then (Some StateRemoveFailed, d) else (None, d\<lparr>sd_primary := None\<rparr>))"

subsection \<open>What a write leaves behind\<close>

lemma commit_rename_primary:
  "d' \<in> set (snd (commit_rename flt data d d2)) \<Longrightarrow>
   sd_primary d2 = sd_primary d \<Longrightarrow> sd_bak d2 = sd_bak d \<Longrightarrow>
   sd_primary d' = sd_primary d \<and> sd_bak d' = sd_bak d \<or> sd_primary d' = Some data"
  by (auto simp: commit_rename_def Let_def split: option.splits write_fault.splits)

lemma Write_primary:
  assumes "d' \<in> set (d # snd (StateFileSync_Write marshal flt s d))"
  shows "sd_primary d' = sd_primary d \<and> sd_bak d' = sd_bak d \<or> sd_primary d' = Some (marshal s)"
  using assms commit_rename_primary [of d' flt "marshal s" d "d\<lparr>sd_temps := marshal s # sd_temps d\<rparr>"]
  by (cases flt) (auto simp: StateFileSync_Write_def Let_def case_prod_beta)

lemma Write_ok:
  assumes "fst (StateFileSync_Write marshal flt s d) = None"
  shows "final_disk d (snd (StateFileSync_Write marshal flt s d)) =
    (case sd_primary d of
       None \<Rightarrow> d\<lparr>sd_primary := Some (marshal s)\<rparr>
     | Some prior \<Rightarrow> d\<lparr>sd_primary := Some (marshal s), sd_bak := Some prior\<rparr>)"
  using assms
  by (cases flt) (auto simp: StateFileSync_Write_def commit_rename_def final_disk_def Let_def split: option.splits)

lemma Write_no_fault: "fst (StateFileSync_Write marshal NoFault s d) = None"
  by (simp add: StateFileSync_Write_def commit_rename_def Let_def split: option.splits)

lemma Read_primary:
  "sd_primary d = Some data \<Longrightarrow> um data zero_state = (True, s) \<Longrightarrow> StateFileSync_Read um ReadsFine d = Inr s"
  by (simp add: StateFileSync_Read_def)

lemma Read_cong:
  "sd_primary d' = sd_primary d \<Longrightarrow> sd_bak d' = sd_bak d \<Longrightarrow>
   StateFileSync_Read um flt d' = StateFileSync_Read um flt d"
  by (simp only: StateFileSync_Read_def)

text \<open>A write that returned without an error is what the next read finds.\<close>

lemma Read_Write:
  assumes "fst (StateFileSync_Write marshal flt s d) = None" "um (marshal s) zero_state = (True, s)"
  shows "StateFileSync_Read um ReadsFine (final_disk d (snd (StateFileSync_Write marshal flt s d))) = Inr s"
  using assms by (intro Read_primary [where data = "marshal s"]) (simp_all add: Write_ok split: option.splits)

subsection \<open>Properties\<close>

text \<open>(C18) the state file never shows a torn state. Whatever system call fails, and whenever
  the process stops, every disk state a write goes through reads either as the disk before
  the write did or as exactly the new state; when the write reports success it is the new
  state.\<close>

theorem Write_is_atomic:
  assumes "um (marshal s) zero_state = (True, s)"
      and "d' \<in> set (d # snd (StateFileSync_Write marshal flt s d))"
  shows "StateFileSync_Read um ReadsFine d' \<in> {StateFileSync_Read um ReadsFine d, Inr s} \<and>
    (fst (StateFileSync_Write marshal flt s d) = None \<longrightarrow>
       StateFileSync_Read um ReadsFine (final_disk d (snd (StateFileSync_Write marshal flt s d))) = Inr s)"
  using Write_primary [OF assms(2)] Read_Write [of marshal flt s d um] assms(1)
    Read_cong [of d' d um ReadsFine] Read_primary [of d' "marshal s" um s]
  by blast

text \<open>recovery. After two writes that succeed, a primary file that is damaged so that
  the decoder rejects it without touching its target reads as the state of the first write.\<close>

theorem backup_recovers_previous:
  assumes "fst (StateFileSync_Write marshal flt1 s1 d) = None"
      and "d1 = final_disk d (snd (StateFileSync_Write marshal flt1 s1 d))"
      and "fst (StateFileSync_Write marshal flt2 s2 d1) = None"
      and "d2 = final_disk d1 (snd (StateFileSync_Write marshal flt2 s2 d1))"
      and "um garbage zero_state = (False, zero_state)"
      and "um (marshal s1) zero_state = (True, s1)"
  shows "StateFileSync_Read um ReadsFine (d2\<lparr>sd_primary := Some garbage\<rparr>) = Inr s1"
proof -
  have "sd_primary d1 = Some (marshal s1)"
    using Write_ok [OF assms(1)] assms(2) by (simp split: option.splits)
  then have "sd_bak d2 = Some (marshal s1)"
    using Write_ok [OF assms(3)] assms(4) by simp
  then show ?thesis using assms(5,6) by (simp add: StateFileSync_Read_def)
qed

text \<open>A decoder for the concrete runs: it knows two encodings and keeps its target otherwise.\<close>

definition two_states :: "State \<Rightarrow> State \<Rightarrow> unmarshaller" where
  "two_states s1 s2 b cs = (if b = ''1'' then (True, s1) else if b = ''2'' then (True, s2) else (False, cs))"

definition one_or_two :: "State \<Rightarrow> State \<Rightarrow> bytes" where
  "one_or_two s1 s = (if s = s1 then ''1'' else ''2'')"

definition empty_disk :: state_disk where
  "empty_disk = \<lparr>sd_primary = None, sd_bak = None, sd_temps = []\<rparr>"

theorem Write_is_atomic_witness:
  "let s = zero_state\<lparr>cs_ID := ''c''\<rparr>; m = one_or_two zero_state;
       (err, ds) = StateFileSync_Write m (WriteTempFails 0) s empty_disk
   in err = Some StateWriteTempFailed \<and>
      StateFileSync_Read (two_states zero_state s) ReadsFine (ds ! 1) \<in> {Inr zero_state, Inr s}"
  using Write_is_atomic [of "two_states zero_state (zero_state\<lparr>cs_ID := ''c''\<rparr>)" "one_or_two zero_state"
      "zero_state\<lparr>cs_ID := ''c''\<rparr>" "empty_disk\<lparr>sd_temps := [[]]\<rparr>" empty_disk "WriteTempFails 0"]
  by (simp add: StateFileSync_Write_def Let_def two_states_def one_or_two_def zero_state_def empty_disk_def
      StateFileSync_Read_def)

theorem backup_recovers_previous_witness:
  "let s1 = zero_state\<lparr>cs_ID := ''c''\<rparr>; s2 = s1\<lparr>cs_Halted := True\<rparr>; m = one_or_two s1;
       d1 = final_disk empty_disk (snd (StateFileSync_Write m NoFault s1 empty_disk));
       d2 = final_disk d1 (snd (StateFileSync_Write m NoFault s2 d1))
   in StateFileSync_Read (two_states s1 s2) ReadsFine (d2\<lparr>sd_primary := Some ''torn''\<rparr>) = Inr s1"
  unfolding Let_def
  by (rule backup_recovers_previous [OF Write_no_fault refl Write_no_fault refl])
    (simp_all add: two_states_def one_or_two_def)

text \<open>
  A backup that is decoded over what a failed decode of the primary left keeps those
  fields: when the damaged primary decodes in part (a type error in one field), the
  recovered state is not the one that was saved.
\<close>

lemma recovered_state_mixed:
  assumes "um damaged zero_state = (False, zero_state\<lparr>cs_AutoGoal := True\<rparr>)"
      and "um saved (zero_state\<lparr>cs_AutoGoal := True\<rparr>) = (True, s\<lparr>cs_AutoGoal := True\<rparr>)"
      and "\<not> cs_AutoGoal s"
  shows "StateFileSync_Read um ReadsFine \<lparr>sd_primary = Some damaged, sd_bak = Some saved, sd_temps = []\<rparr> \<noteq> Inr s"
  using assms by (auto simp: StateFileSync_Read_def dest: arg_cong [of _ _ cs_AutoGoal])

end
