(* ===== verification/LedgerFile.thy ===== *)
theory LedgerFile
  imports Ledger
begin

section \<open>The ledger file (internal/cycle/ledger.go)\<close>

text \<open>
  The JSONL file of one ledger and the writer that links each entry to the tail: the
  process-wide lock entry with its cached tail hash, \<^verbatim>\<open>Append\<close> with its file operations and
  their failures, the unbounded line reader, and \<^verbatim>\<open>ReadAll\<close>. \<open>um\<close> is \<^verbatim>\<open>json.Unmarshal\<close> at
  the entry type. The file refines the abstract log: the list of entries, where appending
  links the entry to the tail hash.
\<close>

subsection \<open>The abstract log\<close>

text \<open>
  What the clients of a ledger rely on: appending adds the linked entry and nothing else.
  From this alone a log that verifies keeps verifying, and its history is never rewritten.
\<close>

locale audit_log =
  fixes append :: "'log \<Rightarrow> HarnessLedgerEntry \<Rightarrow> 'log" and entries :: "'log \<Rightarrow> HarnessLedgerEntry list"
  assumes entries_append: "entries (append l e) = entries l @ [link_entry (tail_hash (entries l)) e]"
begin

lemma append_intact: "chain_intact (entries l) \<Longrightarrow> chain_intact (entries (append l e))"
  by (simp add: entries_append chain_intact_append link_entry_ok)

lemma appends_intact: "chain_intact (entries l) \<Longrightarrow> chain_intact (entries (foldl append l es))"
  by (induction es arbitrary: l) (simp_all add: append_intact)

lemma appends_prefix: "\<exists>new. entries (foldl append l es) = entries l @ new \<and> length new = length es"
proof (induction es arbitrary: l)
  case (Cons e es)
  from Cons [of "append l e"] obtain new
    where "entries (foldl append (append l e) es) = entries (append l e) @ new" "length new = length es" by blast
  then show ?case by (simp add: entries_append)
qed simp

lemma link_entry_fields:
  "le_Type (link_entry p e) = le_Type e" "le_Summary (link_entry p e) = le_Summary e"
  "le_CycleID (link_entry p e) = le_CycleID e" "le_At (link_entry p e) = le_At e"
  "le_Gate (link_entry p e) = le_Gate e" "le_Files (link_entry p e) = le_Files e"
  "le_Agent (link_entry p e) = le_Agent e"
  by (simp_all add: link_entry_def Let_def)

text \<open>The linking changes only the two hash fields.\<close>

lemma appends_types:
  "map le_Type (entries (foldl append l es)) = map le_Type (entries l) @ map le_Type es"
  by (induction es arbitrary: l) (simp_all add: entries_append link_entry_fields)

end

definition log_append :: "HarnessLedgerEntry list \<Rightarrow> HarnessLedgerEntry \<Rightarrow> HarnessLedgerEntry list" where
  "log_append es e = es @ [link_entry (tail_hash es) e]"

interpretation log: audit_log log_append "\<lambda>es. es"
  by unfold_locales (simp add: log_append_def)

subsection \<open>The file\<close>

abbreviation newline where "newline \<equiv> CHR 0x0A"

record ledgerFile =
  lf_bytes :: "bytes option"
  lf_lastHash :: "string option"

datatype ledger_error =
    LedgerOpenFailed
  | LedgerReadFailed
  | LedgerUnmarshalFailed
  | LedgerMkdirFailed
  | LedgerWriteFailed

text \<open>
  How the file operations of one call turn out: reading (the open may fail, or the read),
  making the directory, and the write, which may stop after some bytes.
\<close>

datatype read_outcome = ReadOk | ReadOpenFails | ReadFails
datatype write_outcome = WriteOk | WriteMkdirFails | WriteOpenFails | WriteShort nat

text \<open>\<^verbatim>\<open>forEachLedgerLine\<close>: the non-empty lines, the last one with or without its newline.\<close>

function ledger_lines :: "bytes \<Rightarrow> bytes list" where
  "ledger_lines data =
     (let line = takeWhile (\<lambda>c. c \<noteq> newline) data;
          rest = dropWhile (\<lambda>c. c \<noteq> newline) data;
          here = (if line = [] then [] else [line])
      in if rest = [] then here else here @ ledger_lines (tl rest))"
  by pat_completeness auto
termination
proof (relation "measure length", goal_cases)
  case (2 data line rest here)
  then have "length (tl rest) < length rest" by (cases rest) auto
  moreover have "length rest \<le> length data" using 2 by (simp add: length_dropWhile_le)
  ultimately show ?case by simp
qed simp

declare ledger_lines.simps [simp del]

fun unmarshal_all :: "(bytes \<Rightarrow> HarnessLedgerEntry option) \<Rightarrow> bytes list \<Rightarrow> ledger_error + HarnessLedgerEntry list" where
  "unmarshal_all um [] = Inr []"
| "unmarshal_all um (line # ls) =
     (case um line of
        None \<Rightarrow> Inl LedgerUnmarshalFailed
      | Some e \<Rightarrow> map_sum id ((#) e) (unmarshal_all um ls))"

definition ReadAll ::
  "(bytes \<Rightarrow> HarnessLedgerEntry option) \<Rightarrow> read_outcome \<Rightarrow> ledgerFile \<Rightarrow> ledger_error + HarnessLedgerEntry list" where
  "ReadAll um io f =
     (case lf_bytes f of
        None \<Rightarrow> (if io = ReadOpenFails then Inl LedgerOpenFailed else Inr [])
      | Some data \<Rightarrow>
          (if io = ReadOpenFails then Inl LedgerOpenFailed
           else if io = ReadFails then Inl LedgerReadFailed
           else unmarshal_all um (ledger_lines data)))"

definition readLastHash ::
  "(bytes \<Rightarrow> HarnessLedgerEntry option) \<Rightarrow> read_outcome \<Rightarrow> ledgerFile \<Rightarrow> ledger_error + string" where
  "readLastHash um io f =
     (case ReadAll um io f of
        Inl e \<Rightarrow> Inl e
      | Inr es \<Rightarrow> Inr (if es = [] then LedgerGenesisHash else le_Hash (last es)))"

text \<open>\<^verbatim>\<open>lockForLedger\<close>: the cached tail hash, read from the file the first time.\<close>

definition lockForLedger ::
  "(bytes \<Rightarrow> HarnessLedgerEntry option) \<Rightarrow> read_outcome \<Rightarrow> ledgerFile \<Rightarrow> ledger_error + (string \<times> ledgerFile)" where
  "lockForLedger um io f =
     (case lf_lastHash f of
        Some h \<Rightarrow> Inr (h, f)
      | None \<Rightarrow>
          (case readLastHash um io f of
             Inl e \<Rightarrow> Inl e
           | Inr h \<Rightarrow> Inr (h, f\<lparr>lf_lastHash := Some h\<rparr>)))"

definition file_bytes :: "ledgerFile \<Rightarrow> bytes" where
  "file_bytes f = (case lf_bytes f of None \<Rightarrow> [] | Some b \<Rightarrow> b)"

definition entry_line :: "HarnessLedgerEntry \<Rightarrow> bytes" where
  "entry_line e = jprint (HarnessLedgerEntry_json e) @ [newline]"

definition Append ::
  "(bytes \<Rightarrow> HarnessLedgerEntry option) \<Rightarrow> read_outcome \<Rightarrow> write_outcome \<Rightarrow> HarnessLedgerEntry \<Rightarrow>
   ledgerFile \<Rightarrow> ledger_error option \<times> ledgerFile" where
  "Append um rio wio entry f =
     (case lockForLedger um rio f of
        Inl e \<Rightarrow> (Some e, f)
      | Inr (prevHash, f') \<Rightarrow>
          (let entry1 = entry\<lparr>le_PrevHash := prevHash\<rparr>;
               hash = ChainHash entry1 prevHash;
               entry2 = entry1\<lparr>le_Hash := hash\<rparr>;
               data = entry_line entry2
           in case wio of
                WriteMkdirFails \<Rightarrow> (Some LedgerMkdirFailed, f')
              | WriteOpenFails \<Rightarrow> (Some LedgerOpenFailed, f')
              | WriteShort n \<Rightarrow> (Some LedgerWriteFailed, f'\<lparr>lf_bytes := Some (file_bytes f' @ take n data)\<rparr>)
              | WriteOk \<Rightarrow> (None, f'\<lparr>lf_bytes := Some (file_bytes f' @ data), lf_lastHash := Some hash\<rparr>)))"

subsection \<open>A printed entry is one line\<close>

lemma hex_digit_no_newline: "n < 16 \<Longrightarrow> hex_digit n \<noteq> newline"
proof
  assume n: "n < 16" and "hex_digit n = newline"
  then have "of_char (hex_digit n) = (10 :: nat)" by simp
  with n show False by (simp add: hex_digit_def of_char_char_of_lt split: if_splits)
qed

lemma esc_char_no_newline: "newline \<notin> set (esc_char c)"
proof -
  have "of_char c div 16 < (16 :: nat)" using of_char_lt_256 [of c] by linarith
  from hex_digit_no_newline [OF this] hex_digit_no_newline [of "of_char c mod 16"]
  have "newline \<notin> set (hex2 c)" by (simp add: hex2_def)
  then show ?thesis by (auto simp: esc_char_def bs_def)
qed

lemma jesc_no_newline: "newline \<notin> set (jesc s)"
proof (induction s rule: jesc.induct)
  case (2 c s)
  have "newline \<notin> set (take n (c # s))" if "list_all high (take n (c # s))" for n
    using that by (auto simp: list_all_iff high_def)
  with utf8_len_high [of "c # s"] have tk: "newline \<notin> set (take (utf8_len (c # s)) (c # s))" by blast
  have nl: "newline \<noteq> c" if "html_safe c" using that by (auto simp: html_safe_def)
  show ?case
    using 2 tk nl esc_char_no_newline [of c]
    by (simp add: Let_def bs_def del: take_Suc_Cons)
qed simp

lemma Join_no_newline: "list_all (\<lambda>x. newline \<notin> set x) xs \<Longrightarrow> newline \<notin> set sep \<Longrightarrow> newline \<notin> set (Join xs sep)"
  by (induction xs sep rule: Join.induct) auto

lemma show_int_no_newline: "newline \<notin> set (show_int i)"
proof -
  have "newline \<notin> set (show_nat n)" for n
    using show_nat_digits [of n] by (auto simp: list_all_iff is_digit_def)
  then show ?thesis by (auto simp: show_int_def)
qed

lemma jprint_no_newline: "newline \<notin> set (jprint j)"
proof (induction j)
  case (JStr s)
  then show ?case using jesc_no_newline by (simp add: jquote_def)
next
  case (JArr xs)
  then have "newline \<notin> set (Join (map jprint xs) '','')"
    by (intro Join_no_newline) (auto simp: list_all_iff)
  then show ?case by simp
next
  case (JObj fs)
  then have "newline \<notin> set (Join (map (\<lambda>kv. jquote (fst kv) @ CHR '':'' # jprint (snd kv)) fs) '','')"
    using jesc_no_newline by (intro Join_no_newline) (fastforce simp: list_all_iff jquote_def snds.simps)+
  then show ?case by simp
qed (simp_all add: show_int_no_newline)

lemma ledger_lines_Nil [simp]: "ledger_lines [] = []"
  by (subst ledger_lines.simps) simp

lemma while_newline:
  "newline \<notin> set x \<Longrightarrow> takeWhile (\<lambda>c. c \<noteq> newline) (x @ newline # r) = x"
  "newline \<notin> set x \<Longrightarrow> dropWhile (\<lambda>c. c \<noteq> newline) (x @ newline # r) = newline # r"
  by (induction x) auto

lemma ledger_lines_line:
  "newline \<notin> set x \<Longrightarrow> x \<noteq> [] \<Longrightarrow> ledger_lines (x @ newline # r) = x # ledger_lines r"
  by (subst ledger_lines.simps) (simp add: Let_def while_newline)

lemma ledger_lines_entries:
  "ledger_lines (concat (map entry_line es) @ r) = map (\<lambda>e. jprint (HarnessLedgerEntry_json e)) es @ ledger_lines r"
proof (induction es)
  case (Cons e es)
  have "jprint (HarnessLedgerEntry_json e) \<noteq> []" using hd_jprint by blast
  with Cons show ?case by (simp add: entry_line_def ledger_lines_line jprint_no_newline)
qed simp

subsection \<open>The file holds the abstract log\<close>

definition represents :: "(bytes \<Rightarrow> HarnessLedgerEntry option) \<Rightarrow> ledgerFile \<Rightarrow> HarnessLedgerEntry list \<Rightarrow> bool" where
  "represents um f es \<longleftrightarrow>
     file_bytes f = concat (map entry_line es) \<and>
     lf_lastHash f \<in> {None, Some (tail_hash es)} \<and>
     list_all (\<lambda>e. um (jprint (HarnessLedgerEntry_json e)) = Some e) es"

lemma unmarshal_all_printed:
  "list_all (\<lambda>e. um (jprint (HarnessLedgerEntry_json e)) = Some e) es \<Longrightarrow>
   unmarshal_all um (map (\<lambda>e. jprint (HarnessLedgerEntry_json e)) es @ ls) = map_sum id ((@) es) (unmarshal_all um ls)"
  by (induction es) (auto simp: sum.map_comp comp_def sum.map_id0 split: sum.splits intro: sum.map_cong0,
      cases "unmarshal_all um ls", auto)

lemma ReadAll_represents:
  assumes "represents um f es"
  shows "ReadAll um ReadOk f = Inr es"
proof -
  have "unmarshal_all um (ledger_lines (concat (map entry_line es))) = Inr es"
    using ledger_lines_entries [of es "[]"] unmarshal_all_printed [of um es "[]"] assms
    by (simp add: represents_def)
  then show ?thesis
    using assms by (auto simp: ReadAll_def represents_def file_bytes_def split: option.splits)
qed

lemma lockForLedger_represents:
  assumes "represents um f es"
  shows "\<exists>f'. lockForLedger um ReadOk f = Inr (tail_hash es, f') \<and> represents um f' es \<and>
    file_bytes f' = file_bytes f"
  using assms ReadAll_represents [OF assms]
  by (cases "lf_lastHash f") (auto simp: lockForLedger_def readLastHash_def represents_def tail_hash_def file_bytes_def)

lemma Append_represents:
  assumes "represents um f es" "um (jprint (HarnessLedgerEntry_json (link_entry (tail_hash es) e))) = Some (link_entry (tail_hash es) e)"
  shows "\<exists>f'. Append um ReadOk WriteOk e f = (None, f') \<and> represents um f' (log_append es e)"
proof -
  obtain f' where f': "lockForLedger um ReadOk f = Inr (tail_hash es, f')" "represents um f' es"
    using lockForLedger_represents [OF assms(1)] by blast
  have "tail_hash (es @ [link_entry (tail_hash es) e]) = le_Hash (link_entry (tail_hash es) e)"
    by (simp add: tail_hash_def)
  with f' assms(2) show ?thesis
    by (auto simp: Append_def Let_def represents_def log_append_def link_entry_def file_bytes_def)
qed

subsection \<open>Properties\<close>

text \<open>
  (C15) The ledger file refines the abstract log: when the file holds a log and the file
  operations succeed, \<^verbatim>\<open>Append\<close> makes it hold the log with the entry linked to the tail,
  \<^verbatim>\<open>ReadAll\<close> gives back exactly the entries in order, and a chain that verified still
  does. The hypothesis on \<open>um\<close> is that \<^verbatim>\<open>json.Unmarshal\<close> reads back the appended line.
\<close>

theorem Append_refines_log:
  assumes "represents um f es"
    and "um (jprint (HarnessLedgerEntry_json (link_entry (tail_hash es) e))) = Some (link_entry (tail_hash es) e)"
  shows "\<exists>f'. Append um ReadOk WriteOk e f = (None, f') \<and> represents um f' (log_append es e) \<and>
    ReadAll um ReadOk f' = Inr (es @ [link_entry (tail_hash es) e]) \<and>
    (chain_intact es \<longrightarrow> chain_intact (log_append es e))"
  using Append_represents [OF assms] ReadAll_represents log.append_intact by (auto simp: log_append_def)

theorem Append_refines_log_witness:
  "let e = NewHarnessLedgerEntry 1 ''c'' LedgerEventAgentTurn ''s'' [];
       e' = link_entry LedgerGenesisHash e;
       um = (\<lambda>s. if s = jprint (HarnessLedgerEntry_json e') then Some e' else None)
   in \<exists>f'. Append um ReadOk WriteOk e \<lparr>lf_bytes = None, lf_lastHash = None\<rparr> = (None, f') \<and>
        ReadAll um ReadOk f' = Inr [e'] \<and> chain_intact [e']"
proof -
  define e where "e = NewHarnessLedgerEntry 1 ''c'' LedgerEventAgentTurn ''s'' []"
  define e' where "e' = link_entry LedgerGenesisHash e"
  define um where "um s = (if s = jprint (HarnessLedgerEntry_json e') then Some e' else None)" for s
  have r: "represents um \<lparr>lf_bytes = None, lf_lastHash = None\<rparr> []"
    by (simp add: represents_def file_bytes_def)
  have "um (jprint (HarnessLedgerEntry_json (link_entry (tail_hash []) e))) = Some (link_entry (tail_hash []) e)"
    by (simp add: um_def e'_def tail_hash_def)
  from Append_refines_log [OF r this] show ?thesis
    unfolding Let_def e_def [symmetric] e'_def [symmetric] um_def [abs_def, symmetric]
    by (auto simp: log_append_def tail_hash_def e'_def)
qed

text \<open>
  Failed appends. When the directory or the open fails, the file keeps its bytes and
  the log it holds. But a write that stops inside the line leaves the torn bytes: the next
  append, successful, puts its entry on the same line, and when that line is not JSON
  \<^verbatim>\<open>ReadAll\<close> fails, although the append reported success.
\<close>

theorem torn_Append_corrupts:
  assumes "represents um f es"
    and "d1 = entry_line (link_entry (tail_hash es) e1)" and "d2 = entry_line (link_entry (tail_hash es) e2)"
    and "0 < n" and "n < length d1" and "um (take n d1 @ butlast d2) = None"
  shows "(\<forall>wio \<in> {WriteMkdirFails, WriteOpenFails}. \<exists>err f'. Append um ReadOk wio e1 f = (Some err, f') \<and>
      represents um f' es \<and> file_bytes f' = file_bytes f) \<and>
    (let f1 = snd (Append um ReadOk (WriteShort n) e1 f); (err, f2) = Append um rio WriteOk e2 f1
     in err = None \<and> file_bytes f2 = concat (map entry_line es) @ take n d1 @ d2 \<and>
        ReadAll um ReadOk f2 = Inl LedgerUnmarshalFailed)"
proof -
  obtain f' where f': "lockForLedger um ReadOk f = Inr (tail_hash es, f')" "represents um f' es"
    "file_bytes f' = file_bytes f"
    using lockForLedger_represents [OF assms(1)] by blast
  have hash: "lf_lastHash f' = Some (tail_hash es)"
    using f'(1) by (auto simp: lockForLedger_def split: option.splits sum.splits)
  define f1 where "f1 = snd (Append um ReadOk (WriteShort n) e1 f)"
  have f1: "file_bytes f1 = file_bytes f @ take n d1" "lf_lastHash f1 = Some (tail_hash es)"
    using f' hash by (simp_all add: f1_def Append_def Let_def file_bytes_def link_entry_def assms(2))
  have f2: "fst (Append um rio WriteOk e2 f1) = None"
    "file_bytes (snd (Append um rio WriteOk e2 f1)) = file_bytes f1 @ d2"
    "lf_bytes (snd (Append um rio WriteOk e2 f1)) \<noteq> None"
    using f1(2) by (simp_all add: Append_def lockForLedger_def Let_def file_bytes_def link_entry_def assms(3))
  have bytes: "file_bytes (snd (Append um rio WriteOk e2 f1)) = concat (map entry_line es) @ take n d1 @ d2"
    using f1(1) f2(2) assms(1) by (simp add: represents_def)
  have d2: "d2 = butlast d2 @ [newline]" "newline \<notin> set (butlast d2)"
    by (simp_all add: assms(3) entry_line_def jprint_no_newline)
  have "newline \<notin> set (take n d1)"
    using assms(5) in_set_takeD [of newline n] jprint_no_newline by (force simp: assms(2) entry_line_def)
  then have "ledger_lines ((take n d1 @ butlast d2) @ newline # []) = [take n d1 @ butlast d2]"
    by (subst ledger_lines_line) (use d2(2) assms(4,5) in auto)
  then have "ledger_lines (take n d1 @ d2) = [take n d1 @ butlast d2]"
    using d2(1) by (metis append_assoc)
  then have "ReadAll um ReadOk (snd (Append um rio WriteOk e2 f1)) = Inl LedgerUnmarshalFailed"
    using f2(3) bytes ledger_lines_entries [of es "take n d1 @ d2"] assms(1,6)
      unmarshal_all_printed [of um es "[take n d1 @ butlast d2]"]
    by (auto simp: ReadAll_def file_bytes_def represents_def)
  moreover have "\<forall>wio \<in> {WriteMkdirFails, WriteOpenFails}. \<exists>err f'. Append um ReadOk wio e1 f = (Some err, f') \<and>
      represents um f' es \<and> file_bytes f' = file_bytes f"
    using f' by (auto simp: Append_def Let_def)
  ultimately show ?thesis
    using f2(1) bytes by (simp add: f1_def [symmetric] case_prod_beta Let_def)
qed

theorem torn_Append_corrupts_witness:
  "let um = (\<lambda>s. None); e = NewHarnessLedgerEntry 1 ''c'' LedgerEventAgentTurn ''s'' [];
       f1 = snd (Append um ReadOk (WriteShort 3) e \<lparr>lf_bytes = None, lf_lastHash = None\<rparr>);
       f2 = snd (Append um ReadOk WriteOk e f1)
   in ReadAll um ReadOk f2 = Inl LedgerUnmarshalFailed"
proof -
  have r: "represents (\<lambda>s. None) \<lparr>lf_bytes = None, lf_lastHash = None\<rparr> []"
    by (simp add: represents_def file_bytes_def)
  have "3 < length (entry_line e)" for e
    by (simp add: entry_line_def HarnessLedgerEntry_json_def HarnessLedgerEntry_fields_def Join_Cons jquote_def)
  from torn_Append_corrupts [OF r refl refl _ this, where
      ?e2.0 = "NewHarnessLedgerEntry 1 ''c'' LedgerEventAgentTurn ''s'' []" and rio = ReadOk]
  show ?thesis by (simp add: Let_def case_prod_beta)
qed

end
