(* ===== verification/Guards.thy ===== *)
theory Guards
  imports LedgerFile
begin

section \<open>Guards over the ledger (internal/cycle/stuck.go, reviver.go; internal/budget/budget.go)\<close>

text \<open>
  The predicates that stop a cycle from what its ledger records: the stuck detector with
  its four patterns, the seal that keeps a halted cycle from being revived, and the
  lifetime ceiling on agent turns. Each loop is modelled as written and shown equal to a
  declarative description of the pattern it looks for.
\<close>

subsection \<open>The stuck detector\<close>

abbreviation StuckRepeatTurnThreshold where "StuckRepeatTurnThreshold \<equiv> 4 :: nat"
abbreviation StuckRepeatGateFailThreshold where "StuckRepeatGateFailThreshold \<equiv> 3 :: nat"
abbreviation StuckPingPongThreshold where "StuckPingPongThreshold \<equiv> 6 :: nat"
abbreviation StuckNoProgressWindow where "StuckNoProgressWindow \<equiv> 5 :: nat"

abbreviation NUL where "NUL \<equiv> CHR 0x00"

definition turnFingerprint :: "HarnessLedgerEntry \<Rightarrow> string" where
  "turnFingerprint e = le_Summary e @ [NUL] @ Join (le_Files e) [NUL]"

text \<open>The loop of \<^verbatim>\<open>pingPongStuck\<close> from index \<open>i\<close> on.\<close>

definition next_run :: "string list \<Rightarrow> nat \<Rightarrow> nat \<Rightarrow> nat" where
  "next_run fps i runLen =
     (let prev = fps ! (i - 1); cur = fps ! i in
      if cur \<noteq> prev then (if 2 \<le> i \<and> cur = fps ! (i - 2) then runLen + 1 else 2) else 1)"

function ping_loop :: "string list \<Rightarrow> nat \<Rightarrow> nat \<Rightarrow> bool" where
  "ping_loop fps i runLen =
     (if i < length fps then
        let runLen' = next_run fps i runLen
        in if StuckPingPongThreshold \<le> runLen' then True else ping_loop fps (i + 1) runLen'
      else False)"
  by pat_completeness auto
termination
  by (relation "measure (\<lambda>(fps, i, r). length fps - i)") auto

declare ping_loop.simps [simp del]

definition pingPongStuck :: "string list \<Rightarrow> bool" where
  "pingPongStuck fps = (if length fps < StuckPingPongThreshold then False else ping_loop fps 1 1)"

definition noProgressStuck :: "HarnessLedgerEntry list \<Rightarrow> string list \<Rightarrow> int list \<Rightarrow> bool" where
  "noProgressStuck all_entries turnFPs turnAt =
     (let n = length turnFPs in
      if n < StuckNoProgressWindow then False
      else let windowStart = n - StuckNoProgressWindow;
               priorFPs = set (take windowStart turnFPs)
        in if list_ex (\<lambda>fp. fp \<notin> priorFPs) (drop windowStart turnFPs) then False
           else \<not> list_ex (\<lambda>e. le_Type e = LedgerEventValidationGreen \<and> turnAt ! windowStart \<le> le_At e)
                  all_entries)"

text \<open>The counters of the single pass; a Go map of counters is a function with default 0.\<close>

record stuck_pass =
  sp_turnCount :: "string \<Rightarrow> nat"
  sp_gateFailCount :: "string \<times> string \<Rightarrow> nat"
  sp_gateKeys :: "(string \<times> string) list"
  sp_turnFingerprints :: "string list"
  sp_turnAt :: "int list"

definition stuck_entry :: "stuck_pass \<Rightarrow> HarnessLedgerEntry \<Rightarrow> stuck_pass" where
  "stuck_entry p e =
     (if le_Type e = LedgerEventAgentTurn then
        let fp = turnFingerprint e in
        p\<lparr>sp_turnCount := (sp_turnCount p)(fp := sp_turnCount p fp + 1),
          sp_turnFingerprints := sp_turnFingerprints p @ [fp], sp_turnAt := sp_turnAt p @ [le_At e]\<rparr>
      else if le_Type e = LedgerEventGateFailed then
        let k = (le_Gate e, le_Summary e) in
        p\<lparr>sp_gateFailCount := (sp_gateFailCount p)(k := sp_gateFailCount p k + 1),
          sp_gateKeys := sp_gateKeys p @ [k]\<rparr>
      else p)"

definition stuck_scan :: "HarnessLedgerEntry list \<Rightarrow> stuck_pass" where
  "stuck_scan entries =
     foldl stuck_entry \<lparr>sp_turnCount = (\<lambda>_. 0), sp_gateFailCount = (\<lambda>_. 0), sp_gateKeys = [],
       sp_turnFingerprints = [], sp_turnAt = []\<rparr> entries"

definition Stuck :: "HarnessLedgerEntry list \<Rightarrow> HaltReason \<times> bool" where
  "Stuck entries =
     (let p = stuck_scan entries in
      if list_ex (\<lambda>fp. StuckRepeatTurnThreshold \<le> sp_turnCount p fp) (sp_turnFingerprints p) then (HaltStuck, True)
      else if list_ex (\<lambda>k. StuckRepeatGateFailThreshold \<le> sp_gateFailCount p k) (sp_gateKeys p) then (HaltStuck, True)
      else if pingPongStuck (sp_turnFingerprints p) then (HaltStuck, True)
      else if noProgressStuck entries (sp_turnFingerprints p) (sp_turnAt p) then (HaltStuck, True)
      else ([], False))"

subsection \<open>The reviver guard\<close>

definition parseHaltReasonOrStuck :: "string \<Rightarrow> HaltReason" where
  "parseHaltReasonOrStuck summary =
     (case ParseHaltReason summary of Inr reason \<Rightarrow> reason | Inl _ \<Rightarrow> HaltStuck)"

text \<open>The locals of the walk: the reason of the last halt (\<open>None\<close> is \<^verbatim>\<open>lastHaltIdx < 0\<close>) and the flag.\<close>

definition seal_entry :: "HaltReason option \<times> bool \<Rightarrow> HarnessLedgerEntry \<Rightarrow> HaltReason option \<times> bool" where
  "seal_entry st e =
     (if le_Type e = LedgerEventCycleHalted then (Some (parseHaltReasonOrStuck (le_Summary e)), False)
      else if le_Type e = LedgerEventValidationGreen then
        (if fst st \<noteq> None then (fst st, True) else st)
      else st)"

definition LedgerSealsResume :: "HarnessLedgerEntry list \<Rightarrow> HaltReason \<times> bool" where
  "LedgerSealsResume entries =
     (case foldl seal_entry (None, False) entries of
        (None, _) \<Rightarrow> ([], False)
      | (Some reason, greenAfterHalt) \<Rightarrow> if greenAfterHalt then ([], False) else (reason, True))"

subsection \<open>Budgets\<close>

definition Remaining :: "Budget \<Rightarrow> Usage \<Rightarrow> int \<Rightarrow> Budget" where
  "Remaining initial used turnsUsed =
     (let tokensUsed = u_TokensIn used + u_TokensOut used in
      \<lparr>b_TokensLeft = b_TokensLeft initial - tokensUsed, b_TurnsLeft = b_TurnsLeft initial - turnsUsed,
       b_DeadlineMS = b_DeadlineMS initial, b_DryRoundsThreshold = b_DryRoundsThreshold initial\<rparr>)"

definition IsExhausted :: "Budget \<Rightarrow> bool" where
  "IsExhausted b \<longleftrightarrow> b_TurnsLeft b \<le> 0 \<or> b_TokensLeft b \<le> 0"

text \<open>Times in milliseconds.\<close>

definition IsDeadlinePassed :: "int \<Rightarrow> int \<Rightarrow> int \<Rightarrow> bool" where
  "IsDeadlinePassed now start deadlineMinutes =
     (if deadlineMinutes \<le> 0 then False else now > start + deadlineMinutes * 60000)"

fun LifetimeTurns_from :: "int \<Rightarrow> HarnessLedgerEntry list \<Rightarrow> int" where
  "LifetimeTurns_from turns [] = turns"
| "LifetimeTurns_from turns (e # es) =
     LifetimeTurns_from (if le_Type e = LedgerEventAgentTurn then turns + 1 else turns) es"

definition LifetimeTurns :: "HarnessLedgerEntry list \<Rightarrow> int" where
  "LifetimeTurns entries = LifetimeTurns_from 0 entries"

definition ExceedsLifetimeCeiling :: "HarnessLedgerEntry list \<Rightarrow> int \<Rightarrow> bool" where
  "ExceedsLifetimeCeiling entries ceiling =
     (if ceiling \<le> 0 then False else LifetimeTurns entries \<ge> ceiling)"

subsection \<open>The scan\<close>

definition turns_of :: "HarnessLedgerEntry list \<Rightarrow> HarnessLedgerEntry list" where
  "turns_of es = filter (\<lambda>e. le_Type e = LedgerEventAgentTurn) es"

definition fingerprints :: "HarnessLedgerEntry list \<Rightarrow> string list" where
  "fingerprints es = map turnFingerprint (turns_of es)"

definition gate_failures :: "HarnessLedgerEntry list \<Rightarrow> (string \<times> string) list" where
  "gate_failures es =
     map (\<lambda>e. (le_Gate e, le_Summary e)) (filter (\<lambda>e. le_Type e = LedgerEventGateFailed) es)"

lemma stuck_scan_spec:
  "stuck_scan es = \<lparr>sp_turnCount = count_list (fingerprints es), sp_gateFailCount = count_list (gate_failures es),
     sp_gateKeys = gate_failures es, sp_turnFingerprints = fingerprints es, sp_turnAt = map le_At (turns_of es)\<rparr>"
proof (induction es rule: rev_induct)
  case Nil
  show ?case by (simp add: stuck_scan_def fingerprints_def turns_of_def gate_failures_def fun_eq_iff)
next
  case (snoc e es)
  have "stuck_scan (es @ [e]) = stuck_entry (stuck_scan es) e" by (simp add: stuck_scan_def)
  then show ?case
    unfolding snoc
    by (simp add: stuck_entry_def fingerprints_def turns_of_def gate_failures_def Let_def fun_eq_iff)
qed

subsection \<open>Ping-pong\<close>

fun run_len :: "string list \<Rightarrow> nat \<Rightarrow> nat" where
  "run_len fps 0 = 1"
| "run_len fps (Suc i) = next_run fps (Suc i) (run_len fps i)"

lemma ping_loop_iff:
  "ping_loop fps (Suc i) (run_len fps i) \<longleftrightarrow> (\<exists>j > i. j < length fps \<and> 6 \<le> run_len fps j)"
proof (induction "length fps - i" arbitrary: i rule: less_induct)
  case less
  show ?case
  proof (cases "Suc i < length fps")
    case True
    have "(\<exists>j > i. j < length fps \<and> 6 \<le> run_len fps j) \<longleftrightarrow>
        6 \<le> run_len fps (Suc i) \<or> (\<exists>j > Suc i. j < length fps \<and> 6 \<le> run_len fps j)"
      using True by (metis Suc_lessI lessI less_trans)
    moreover have "ping_loop fps (Suc i) (run_len fps i) \<longleftrightarrow>
        6 \<le> run_len fps (Suc i) \<or> ping_loop fps (Suc (Suc i)) (run_len fps (Suc i))"
      using True by (subst ping_loop.simps) (simp add: Let_def)
    ultimately show ?thesis using less [of "Suc i"] True by simp
  next
    case False
    then show ?thesis by (subst ping_loop.simps) simp
  qed
qed

lemma run_len_pos: "1 \<le> run_len fps j"
  by (induction j) (simp_all add: next_run_def Let_def)

lemma run_len_2: "2 \<le> run_len fps j \<longleftrightarrow> 1 \<le> j \<and> fps ! j \<noteq> fps ! (j - 1)"
proof (cases j)
  case (Suc i)
  with run_len_pos [of fps i] show ?thesis by (simp add: next_run_def Let_def)
qed simp

lemma run_len_step:
  "2 \<le> L \<Longrightarrow> Suc L \<le> run_len fps j \<longleftrightarrow>
     2 \<le> j \<and> fps ! j \<noteq> fps ! (j - 1) \<and> fps ! j = fps ! (j - 2) \<and> L \<le> run_len fps (j - 1)"
  by (cases j) (auto simp: next_run_def Let_def)

text \<open>A window of six alternating fingerprints.\<close>

definition alternates :: "string list \<Rightarrow> nat \<Rightarrow> bool" where
  "alternates fps i \<longleftrightarrow> i + 6 \<le> length fps \<and> fps ! i \<noteq> fps ! (i + 1) \<and>
     fps ! (i + 2) = fps ! i \<and> fps ! (i + 3) = fps ! (i + 1) \<and>
     fps ! (i + 4) = fps ! i \<and> fps ! (i + 5) = fps ! (i + 1)"

lemma run_len_6:
  assumes "i + 5 < length fps"
  shows "6 \<le> run_len fps (i + 5) \<longleftrightarrow> alternates fps i"
proof -
  have s: "6 = Suc 5" "(5::nat) = Suc 4" "(4::nat) = Suc 3" "(3::nat) = Suc 2" by simp_all
  have r: "6 \<le> run_len fps (i + 5) \<longleftrightarrow> fps ! (i + 5) \<noteq> fps ! (i + 4) \<and> fps ! (i + 5) = fps ! (i + 3) \<and>
      5 \<le> run_len fps (i + 4)"
    using run_len_step [of 5 fps "i + 5"] by (simp add: numeral_eq_Suc)
  have r5: "5 \<le> run_len fps (i + 4) \<longleftrightarrow> fps ! (i + 4) \<noteq> fps ! (i + 3) \<and> fps ! (i + 4) = fps ! (i + 2) \<and>
      4 \<le> run_len fps (i + 3)"
    using run_len_step [of 4 fps "i + 4"] by (simp add: numeral_eq_Suc)
  have r4: "4 \<le> run_len fps (i + 3) \<longleftrightarrow> fps ! (i + 3) \<noteq> fps ! (i + 2) \<and> fps ! (i + 3) = fps ! (i + 1) \<and>
      3 \<le> run_len fps (i + 2)"
    using run_len_step [of 3 fps "i + 3"] by (simp add: numeral_eq_Suc)
  have r3: "3 \<le> run_len fps (i + 2) \<longleftrightarrow> fps ! (i + 2) \<noteq> fps ! (i + 1) \<and> fps ! (i + 2) = fps ! i \<and>
      2 \<le> run_len fps (i + 1)"
    using run_len_step [of 2 fps "i + 2"] by (simp add: numeral_eq_Suc)
  have r2: "2 \<le> run_len fps (i + 1) \<longleftrightarrow> fps ! (i + 1) \<noteq> fps ! i"
    using run_len_2 [of fps "i + 1"] by simp
  show ?thesis unfolding r r5 r4 r3 r2 alternates_def using assms by auto
qed

lemma run_len_le: "run_len fps j \<le> Suc j"
  by (induction j) (auto simp: next_run_def Let_def)

lemma pingPongStuck_iff: "pingPongStuck fps \<longleftrightarrow> (\<exists>i. alternates fps i)"
proof -
  have "ping_loop fps 1 1 \<longleftrightarrow> (\<exists>j. j < length fps \<and> 6 \<le> run_len fps j)"
    using ping_loop_iff [of fps 0] run_len_le by fastforce
  also have "\<dots> \<longleftrightarrow> (\<exists>i. i + 5 < length fps \<and> 6 \<le> run_len fps (i + 5))"
  proof
    assume "\<exists>j. j < length fps \<and> 6 \<le> run_len fps j"
    then obtain j where j: "j < length fps" "6 \<le> run_len fps j" by blast
    with run_len_le [of fps j] have "5 \<le> j" by linarith
    with j show "\<exists>i. i + 5 < length fps \<and> 6 \<le> run_len fps (i + 5)"
      by (intro exI [of _ "j - 5"]) simp
  qed blast
  also have "\<dots> \<longleftrightarrow> (\<exists>i. alternates fps i)"
  proof (intro iff_exI)
    fix i
    have "alternates fps i \<Longrightarrow> i + 5 < length fps" by (simp add: alternates_def)
    then show "i + 5 < length fps \<and> 6 \<le> run_len fps (i + 5) \<longleftrightarrow> alternates fps i"
      using run_len_6 by blast
  qed
  finally show ?thesis by (auto simp: pingPongStuck_def alternates_def)
qed

subsection \<open>The seal\<close>

lemma seal_no_halt:
  "list_all (\<lambda>e. le_Type e \<noteq> LedgerEventCycleHalted) es \<Longrightarrow>
   foldl seal_entry st es =
     (fst st, snd st \<or> fst st \<noteq> None \<and> list_ex (\<lambda>e. le_Type e = LedgerEventValidationGreen) es)"
  by (induction es arbitrary: st) (auto simp: seal_entry_def)

lemma LedgerSealsResume_never:
  "list_all (\<lambda>e. le_Type e \<noteq> LedgerEventCycleHalted) es \<Longrightarrow> LedgerSealsResume es = ([], False)"
  by (simp add: LedgerSealsResume_def seal_no_halt)

lemma LedgerSealsResume_last_halt:
  assumes "le_Type h = LedgerEventCycleHalted" "list_all (\<lambda>e. le_Type e \<noteq> LedgerEventCycleHalted) post"
  shows "LedgerSealsResume (pre @ h # post) =
     (if list_ex (\<lambda>e. le_Type e = LedgerEventValidationGreen) post then ([], False)
      else (parseHaltReasonOrStuck (le_Summary h), True))"
proof -
  have "foldl seal_entry (None, False) (pre @ h # post) =
      (Some (parseHaltReasonOrStuck (le_Summary h)), list_ex (\<lambda>e. le_Type e = LedgerEventValidationGreen) post)"
    using assms(1) by (simp add: seal_no_halt [OF assms(2)]) (simp add: seal_entry_def)
  then show ?thesis by (simp add: LedgerSealsResume_def)
qed

lemma sealed_append:
  assumes "snd (LedgerSealsResume es)" "list_all (\<lambda>e. le_Type e \<noteq> LedgerEventValidationGreen) new"
  shows "snd (LedgerSealsResume (es @ new))"
proof -
  have sealed: "\<exists>r'. foldl seal_entry (Some r, False) new = (Some r', False)" for r
    using assms(2) by (induction new arbitrary: r) (auto simp: seal_entry_def)
  obtain r where r: "foldl seal_entry (None, False) es = (Some r, False)"
    using assms(1) by (auto simp: LedgerSealsResume_def split: prod.splits option.splits if_splits)
  obtain r' where "foldl seal_entry (Some r, False) new = (Some r', False)" using sealed by blast
  with r show ?thesis by (simp add: LedgerSealsResume_def)
qed

lemma LifetimeTurns_count: "LifetimeTurns es = int (length (turns_of es))"
proof -
  have "LifetimeTurns_from n es = n + int (length (turns_of es))" for n
    by (induction es arbitrary: n) (simp_all add: turns_of_def)
  then show ?thesis by (simp add: LifetimeTurns_def)
qed

subsection \<open>No progress\<close>

text \<open>The last five turns, none of them new, and no green event since the first of them.\<close>

definition no_progress :: "HarnessLedgerEntry list \<Rightarrow> bool" where
  "no_progress es \<longleftrightarrow> (\<exists>before window. turns_of es = before @ window \<and> length window = 5 \<and>
     turnFingerprint ` set window \<subseteq> turnFingerprint ` set before \<and>
     (\<forall>e \<in> set es. le_Type e = LedgerEventValidationGreen \<longrightarrow> le_At e < le_At (hd window)))"

lemma noProgressStuck_iff:
  "noProgressStuck es (fingerprints es) (map le_At (turns_of es)) \<longleftrightarrow> no_progress es"
proof (cases "length (turns_of es) < 5")
  case True
  then have "\<not> no_progress es" by (auto simp: no_progress_def)
  with True show ?thesis by (simp add: noProgressStuck_def fingerprints_def)
next
  case False
  define k where "k = length (turns_of es) - 5"
  have k: "k < length (turns_of es)" "length (drop k (turns_of es)) = 5" using False by (simp_all add: k_def)
  have split_at: "turns_of es = before @ window \<and> length window = 5 \<longleftrightarrow>
      before = take k (turns_of es) \<and> window = drop k (turns_of es)" for before window
  proof
    assume h: "turns_of es = before @ window \<and> length window = 5"
    then have "k = length before" by (simp add: k_def)
    with h show "before = take k (turns_of es) \<and> window = drop k (turns_of es)" by simp
  qed (use k in simp)
  have "no_progress es \<longleftrightarrow>
      turnFingerprint ` set (drop k (turns_of es)) \<subseteq> turnFingerprint ` set (take k (turns_of es)) \<and>
      (\<forall>e \<in> set es. le_Type e = LedgerEventValidationGreen \<longrightarrow> le_At e < le_At (hd (drop k (turns_of es))))"
    unfolding no_progress_def using split_at by metis
  moreover have "list_ex (\<lambda>fp. fp \<notin> set (take k (fingerprints es))) (drop k (fingerprints es)) \<longleftrightarrow>
      \<not> turnFingerprint ` set (drop k (turns_of es)) \<subseteq> turnFingerprint ` set (take k (turns_of es))"
    by (auto simp: fingerprints_def list_ex_iff take_map drop_map)
  moreover have "list_ex (\<lambda>e. le_Type e = LedgerEventValidationGreen \<and> map le_At (turns_of es) ! k \<le> le_At e) es \<longleftrightarrow>
      \<not> (\<forall>e \<in> set es. le_Type e = LedgerEventValidationGreen \<longrightarrow> le_At e < le_At (hd (drop k (turns_of es))))"
    using k by (auto simp: list_ex_iff hd_drop_conv_nth)
  moreover have "length (fingerprints es) = length (turns_of es)" by (simp add: fingerprints_def)
  ultimately show ?thesis using False unfolding noProgressStuck_def Let_def by (simp add: k_def [symmetric])
qed

subsection \<open>Properties\<close>

lemma Stuck_iff:
  "Stuck es =
     (if (\<exists>fp. 4 \<le> count_list (fingerprints es) fp) \<or> (\<exists>k. 3 \<le> count_list (gate_failures es) k) \<or>
         (\<exists>i. alternates (fingerprints es) i) \<or> no_progress es
      then (HaltStuck, True) else ([], False))"
proof -
  have occurs: "list_ex (\<lambda>x. n \<le> count_list xs x) xs \<longleftrightarrow> (\<exists>x. n \<le> count_list xs x)"
    if "0 < n" for n and xs :: "'a list"
  proof -
    have "x \<in> set xs" if "n \<le> count_list xs x" for x
      using that \<open>0 < n\<close> count_list_0_iff [of xs x] by (cases "x \<in> set xs") auto
    then show ?thesis by (auto simp: list_ex_iff)
  qed
  show ?thesis
    unfolding Stuck_def stuck_scan_spec
    by (simp add: Let_def occurs pingPongStuck_iff noProgressStuck_iff)
qed

text \<open>(C16) The stuck detector. The single pass with its counters, the run counter of the
  ping-pong check and the sliding window decide exactly this: some turn fingerprint (summary and
  files together) occurs four times, or some gate fails three times with the same summary, or six
  consecutive turns alternate between two different fingerprints, or none of the last five turns has
  a fingerprint that the turns before them lack, with no green event since. The answer is the reason
  \<^verbatim>\<open>stuck\<close> with true, or nothing with false. New work is judged by the fingerprint throughout, not by the
  files alone as the feature specification has it for the last two.\<close>

theorem Stuck_iff_pattern:
  "Stuck es =
     (if (\<exists>fp. 4 \<le> count_list (fingerprints es) fp) \<or> (\<exists>k. 3 \<le> count_list (gate_failures es) k) \<or>
         (\<exists>i. alternates (fingerprints es) i) \<or> no_progress es
      then (HaltStuck, True) else ([], False))"
  by (rule Stuck_iff)

text \<open>
  So a new summary counts as progress. Turns that touch no file at all, with no green gate, are never
  found stuck while each has a summary of its own.
\<close>

theorem new_summaries_are_progress:
  assumes "distinct (map le_Summary (turns_of es))" and "list_all (\<lambda>e. le_Files e = []) (turns_of es)"
    and "gate_failures es = []"
  shows "Stuck es = ([], False)"
proof -
  have fps: "fingerprints es = map (\<lambda>s. s @ [NUL]) (map le_Summary (turns_of es))"
    using assms(2) by (auto simp: fingerprints_def turnFingerprint_def list_all_iff)
  have d: "distinct (fingerprints es)"
    unfolding fps distinct_map using assms(1) by (simp add: distinct_map inj_on_def)
  have once: "count_list xs x \<le> 1" if "distinct xs" for xs and x :: string
    using that by (induction xs) (auto simp: count_list_0_iff)
  have "\<not> 4 \<le> count_list (fingerprints es) fp" for fp using once [OF d, of fp] by simp
  moreover have "\<not> alternates (fingerprints es) i" for i
  proof
    assume a: "alternates (fingerprints es) i"
    then have "i + 2 < length (fingerprints es)" "fingerprints es ! (i + 2) = fingerprints es ! i"
      by (simp_all add: alternates_def)
    with d show False by (simp add: nth_eq_iff_index_eq)
  qed
  moreover have "\<not> no_progress es"
  proof
    assume "no_progress es"
    then obtain before window where w: "turns_of es = before @ window" "length window = 5"
      "turnFingerprint ` set window \<subseteq> turnFingerprint ` set before" by (auto simp: no_progress_def)
    then obtain e where "e \<in> set window" by (cases window) auto
    with w(3) have "turnFingerprint e \<in> turnFingerprint ` set before \<inter> turnFingerprint ` set window" by auto
    moreover have "turnFingerprint ` set before \<inter> turnFingerprint ` set window = {}"
      using d unfolding fingerprints_def w(1) by simp
    ultimately show False by simp
  qed
  ultimately show ?thesis using assms(3) by (simp add: Stuck_iff)
qed

text \<open>the reviver's seal. It reads only the last halt of the ledger and what follows
  it: a ledger without a halt is not sealed; otherwise it is sealed, with the reason of the
  last halt (\<^verbatim>\<open>stuck\<close> when that text is no known reason), unless a \<^verbatim>\<open>validation_green\<close>
  event comes after that halt.\<close>

theorem LedgerSealsResume_last_halt_decides:
  "LedgerSealsResume es =
     (case dropWhile (\<lambda>e. le_Type e \<noteq> LedgerEventCycleHalted) (rev es) of
        [] \<Rightarrow> ([], False)
      | h # _ \<Rightarrow>
          if list_ex (\<lambda>e. le_Type e = LedgerEventValidationGreen)
               (takeWhile (\<lambda>e. le_Type e \<noteq> LedgerEventCycleHalted) (rev es))
          then ([], False) else (parseHaltReasonOrStuck (le_Summary h), True))"
proof (cases "dropWhile (\<lambda>e. le_Type e \<noteq> LedgerEventCycleHalted) (rev es)")
  case Nil
  then have "list_all (\<lambda>e. le_Type e \<noteq> LedgerEventCycleHalted) es" by (simp add: dropWhile_eq_Nil_conv list_all_iff)
  then show ?thesis by (simp add: LedgerSealsResume_never Nil)
next
  case (Cons h pre)
  let ?P = "\<lambda>e :: HarnessLedgerEntry. le_Type e \<noteq> LedgerEventCycleHalted"
  have "takeWhile ?P (rev es) @ h # pre = rev es" using takeWhile_dropWhile_id [of ?P "rev es"] Cons by simp
  then have "rev (takeWhile ?P (rev es) @ h # pre) = rev (rev es)" by (rule arg_cong)
  then have es: "es = rev pre @ h # rev (takeWhile ?P (rev es))" by simp
  have h: "le_Type h = LedgerEventCycleHalted" using hd_dropWhile [of ?P "rev es"] Cons by simp
  have post: "list_all ?P (rev (takeWhile ?P (rev es)))"
    by (auto simp: list_all_iff dest: set_takeWhileD)
  have "LedgerSealsResume es = LedgerSealsResume (rev pre @ h # rev (takeWhile ?P (rev es)))"
    using es by (rule arg_cong)
  also have "\<dots> = (if list_ex (\<lambda>e. le_Type e = LedgerEventValidationGreen) (rev (takeWhile ?P (rev es)))
      then ([], False) else (parseHaltReasonOrStuck (le_Summary h), True))"
    by (rule LedgerSealsResume_last_halt [OF h post])
  finally show ?thesis by (simp add: Cons list_ex_iff)
qed

text \<open>(C17) a halt seals the ledger for good, whatever the worker appends. After a halt entry,
  no sequence of appends without a \<^verbatim>\<open>validation_green\<close> event lifts the seal, and one such
  event does.\<close>

theorem halt_stays_sealed:
  assumes "le_Type h = LedgerEventCycleHalted"
      and "list_all (\<lambda>e. le_Type e \<noteq> LedgerEventValidationGreen) work"
      and "le_Type g = LedgerEventValidationGreen"
  shows "snd (LedgerSealsResume (foldl log_append (log_append es h) work)) \<and>
         \<not> snd (LedgerSealsResume (log_append (foldl log_append (log_append es h) work) g))"
proof
  let ?sealed = "foldl log_append (log_append es h) work"
  obtain new where new: "?sealed = log_append es h @ new" using log.appends_prefix by blast
  have "map le_Type (log_append es h) @ map le_Type new = map le_Type (log_append es h) @ map le_Type work"
    using log.appends_types [of "log_append es h" work] unfolding new by simp
  then have types: "map le_Type new = map le_Type work" by simp
  have no_green: "list_all (\<lambda>e. le_Type e \<noteq> LedgerEventValidationGreen) new"
  proof -
    have "LedgerEventValidationGreen \<notin> set (map le_Type work)" using assms(2) by (auto simp: list_all_iff)
    then have "LedgerEventValidationGreen \<notin> le_Type ` set new" unfolding types [symmetric] by simp
    then show ?thesis by (force simp: list_all_iff simp del: image_iff)
  qed
  have "snd (LedgerSealsResume (log_append es h))"
    using LedgerSealsResume_last_halt [of "link_entry (tail_hash es) h" "[]" es] assms(1)
    by (simp add: log_append_def log.link_entry_fields)
  from sealed_append [OF this no_green] show sealed: "snd (LedgerSealsResume ?sealed)" by (simp add: new)
  have "foldl seal_entry (None, False) (log_append ?sealed g) =
      seal_entry (foldl seal_entry (None, False) ?sealed) (link_entry (tail_hash ?sealed) g)"
    by (simp only: log_append_def foldl_append foldl.simps)
  then show "\<not> snd (LedgerSealsResume (log_append ?sealed g))"
    using assms(3)
    by (auto simp: LedgerSealsResume_def seal_entry_def log.link_entry_fields split: prod.splits option.splits)
qed

text \<open>the lifetime ceiling. The turns of a ledger are exactly its \<^verbatim>\<open>agent_turn\<close> entries,
  across every revival; with a positive ceiling the guard trips exactly when they have
  reached it, and once tripped no sequence of appends releases it.\<close>

theorem lifetime_ceiling_is_hard:
  "LifetimeTurns es = int (length (turns_of es)) \<and>
   (ExceedsLifetimeCeiling es c \<longleftrightarrow> 0 < c \<and> c \<le> int (length (turns_of es))) \<and>
   (ExceedsLifetimeCeiling es c \<longrightarrow> ExceedsLifetimeCeiling (foldl log_append es later) c)"
proof -
  obtain new where "foldl log_append es later = es @ new" using log.appends_prefix by blast
  then show ?thesis by (auto simp: ExceedsLifetimeCeiling_def LifetimeTurns_count turns_of_def)
qed

definition sample_entry :: "string \<Rightarrow> string \<Rightarrow> HarnessLedgerEntry" where
  "sample_entry typ summary = NewHarnessLedgerEntry 0 ''c1'' typ summary []"

theorem halt_stays_sealed_witness:
  "snd (LedgerSealsResume
     (foldl log_append (log_append [] (sample_entry LedgerEventCycleHalted ''stuck''))
        [sample_entry LedgerEventAgentTurn ''retry'', sample_entry LedgerEventGatePassed ''ok'']))"
  using halt_stays_sealed [of "sample_entry LedgerEventCycleHalted ''stuck''"
      "[sample_entry LedgerEventAgentTurn ''retry'', sample_entry LedgerEventGatePassed ''ok'']"
      "sample_entry LedgerEventValidationGreen ''green''" "[]"]
  by (simp add: sample_entry_def NewHarnessLedgerEntry_def)

theorem lifetime_ceiling_is_hard_witness:
  "ExceedsLifetimeCeiling (foldl log_append [sample_entry LedgerEventAgentTurn ''t'']
     [sample_entry LedgerEventCycleCompleted ''done'']) 1"
  using lifetime_ceiling_is_hard [of "[sample_entry LedgerEventAgentTurn ''t'']" 1
      "[sample_entry LedgerEventCycleCompleted ''done'']"]
  by (simp add: turns_of_def sample_entry_def NewHarnessLedgerEntry_def)

theorem new_summaries_are_progress_witness:
  "Stuck (map (sample_entry LedgerEventAgentTurn) [''a'', ''b'', ''c'', ''d'', ''e'', ''f'']) = ([], False)"
  using new_summaries_are_progress [of "map (sample_entry LedgerEventAgentTurn) [''a'', ''b'', ''c'', ''d'', ''e'', ''f'']"]
  by (simp add: turns_of_def gate_failures_def sample_entry_def NewHarnessLedgerEntry_def)

end
