(* ===== verification/AutoGoal.thy ===== *)
theory AutoGoal
  imports Prelude
begin

section \<open>Goal discovery (internal/cycle/autogoal.go)\<close>

text \<open>
  The three strategies that look for the next goal and their combination. Running a
  command is a parameter \<open>run\<close> from the command line to its output and how it ended;
  reading a file (after \<^verbatim>\<open>filepath.Clean\<close>) is \<open>read_file\<close>.
\<close>

datatype cmd_end = CmdOk | CmdExitError | CmdFailed

record cmd_result =
  cr_out :: bytes
  cr_end :: cmd_end
  cr_ctx_err :: bool

type_synonym cmd_runner = "string list \<Rightarrow> cmd_result"

datatype discovery_error = RunFailed string | ContextEnded string

definition isExitError :: "cmd_end \<Rightarrow> bool" where
  "isExitError e \<longleftrightarrow> e = CmdExitError"

definition classifyRunErr :: "string \<Rightarrow> cmd_result \<Rightarrow> discovery_error option" where
  "classifyRunErr label r =
     (if cr_ctx_err r then Some (ContextEnded label)
      else if cr_end r \<noteq> CmdOk \<and> \<not> isExitError (cr_end r) then Some (RunFailed label)
      else None)"

fun first_vet_line :: "string list \<Rightarrow> string" where
  "first_vet_line [] = []"
| "first_vet_line (line # ls) =
     (let l = TrimSpace line in if l = [] then first_vet_line ls else ''fix(vet): '' @ l)"

definition parseGoVetOutput :: "bytes \<Rightarrow> string" where
  "parseGoVetOutput out = first_vet_line (Split out (CHR 0x0A))"

fun first_lint_line :: "string list \<Rightarrow> string" where
  "first_lint_line [] = []"
| "first_lint_line (line # ls) =
     (let l = TrimSpace line in
      if l = [] \<or> HasPrefix l ''level='' then first_lint_line ls else ''fix(lint): '' @ l)"

definition parseLintOutput :: "bytes \<Rightarrow> string" where
  "parseLintOutput out = first_lint_line (Split out (CHR 0x0A))"

fun first_todo :: "string \<Rightarrow> nat \<Rightarrow> string list \<Rightarrow> string option" where
  "first_todo file i [] = None"
| "first_todo file i (line # ls) =
     (if Contains line ''TODO'' \<or> Contains line ''FIXME''
      then Some (''fix(todo): '' @ file @ '':'' @ show_nat (i + 1))
      else first_todo file (i + 1) ls)"

fun scan_files :: "(string \<Rightarrow> bytes option) \<Rightarrow> string list \<Rightarrow> string" where
  "scan_files read_file [] = []"
| "scan_files read_file (file # fs) =
     (if \<not> HasSuffix file ''.go'' then scan_files read_file fs
      else case read_file file of
        None \<Rightarrow> scan_files read_file fs
      | Some content \<Rightarrow>
        (case first_todo file 0 (Split content (CHR 0x0A)) of
           Some goal \<Rightarrow> goal
         | None \<Rightarrow> scan_files read_file fs))"

definition scanFilesForTODOs :: "(string \<Rightarrow> bytes option) \<Rightarrow> bytes \<Rightarrow> string" where
  "scanFilesForTODOs read_file out = scan_files read_file (Split (TrimSpace out) (CHR 0x0A))"

definition runGoVet :: "cmd_runner \<Rightarrow> discovery_error + string" where
  "runGoVet run =
     (let r = run [''go'', ''vet'', ''./...''] in
      case classifyRunErr ''go vet'' r of
        Some e \<Rightarrow> Inl e
      | None \<Rightarrow> Inr (parseGoVetOutput (cr_out r)))"

text \<open>\<open>local_bin\<close> is whether \<^verbatim>\<open>.toolchain/bin/golangci-lint\<close> exists.\<close>

definition runGolangciLintFast :: "bool \<Rightarrow> cmd_runner \<Rightarrow> discovery_error + string" where
  "runGolangciLintFast local_bin run =
     (let bin = (if local_bin then ''.toolchain/bin/golangci-lint'' else ''golangci-lint'');
          r = run [bin, ''run'', ''--fast-only'']
      in case classifyRunErr ''golangci-lint'' r of
           Some e \<Rightarrow> Inl e
         | None \<Rightarrow> Inr (parseLintOutput (cr_out r)))"

text \<open>Here any error of the command, a non-zero exit too, fails the strategy.\<close>

definition scanTODOs :: "(string \<Rightarrow> bytes option) \<Rightarrow> cmd_runner \<Rightarrow> discovery_error + string" where
  "scanTODOs read_file run =
     (let r = run [''git'', ''diff'', ''--name-only'', ''HEAD~1''] in
      if cr_end r \<noteq> CmdOk then Inl (RunFailed ''git diff'')
      else Inr (scanFilesForTODOs read_file (cr_out r)))"

text \<open>The loop over the strategies with \<^verbatim>\<open>ranAny\<close> and the errors so far.\<close>

fun discover_loop ::
  "bool \<Rightarrow> discovery_error list \<Rightarrow> (discovery_error + string) list \<Rightarrow> discovery_error list + string" where
  "discover_loop ranAny errs [] = (if \<not> ranAny then Inl errs else Inr [])"
| "discover_loop ranAny errs (r # rs) =
     (case r of
        Inl e \<Rightarrow> discover_loop ranAny (errs @ [e]) rs
      | Inr goal \<Rightarrow> if goal \<noteq> [] then Inr goal else discover_loop True errs rs)"

definition discoverNextGoal ::
  "bool \<Rightarrow> (string \<Rightarrow> bytes option) \<Rightarrow> cmd_runner \<Rightarrow> discovery_error list + string" where
  "discoverNextGoal local_bin read_file run =
     discover_loop False [] [runGoVet run, runGolangciLintFast local_bin run, scanTODOs read_file run]"

subsection \<open>What discovery answers\<close>

definition found :: "(discovery_error + string) list \<Rightarrow> string list" where
  "found rs = concat (map (\<lambda>r. case r of Inr (c # cs) \<Rightarrow> [c # cs] | _ \<Rightarrow> []) rs)"

lemma found_simps [simp]:
  "found [] = []" "found (Inl e # rs) = found rs" "found (Inr [] # rs) = found rs"
  "found (Inr (c # cs) # rs) = (c # cs) # found rs"
  by (simp_all add: found_def)

definition failures :: "(discovery_error + string) list \<Rightarrow> discovery_error list" where
  "failures rs = concat (map (case_sum (\<lambda>e. [e]) (\<lambda>_. [])) rs)"

lemma failures_simps [simp]:
  "failures [] = []" "failures (Inl e # rs) = e # failures rs" "failures (Inr g # rs) = failures rs"
  by (simp_all add: failures_def)

lemma length_failures: "length (failures rs) \<le> length rs"
  by (induction rs) (auto simp: failures_def split: sum.splits)

lemma discover_loop_spec:
  "discover_loop ranAny errs rs =
     (case found rs of
        g # _ \<Rightarrow> Inr g
      | [] \<Rightarrow> if \<not> ranAny \<and> length (failures rs) = length rs then Inl (errs @ failures rs) else Inr [])"
proof (induction rs arbitrary: ranAny errs)
  case (Cons r rs)
  show ?case
  proof (cases r)
    case (Inl e)
    then show ?thesis by (simp add: Cons split: list.splits)
  next
    case (Inr goal)
    then show ?thesis using length_failures [of rs] by (cases goal) (simp_all add: Cons split: list.splits)
  qed
qed (simp add: found_def failures_def)

lemma lint_line_found:
  "first_lint_line ls = [] \<longleftrightarrow> list_all (\<lambda>l. TrimSpace l = [] \<or> HasPrefix (TrimSpace l) ''level='') ls"
  by (induction ls) (simp_all add: Let_def)

lemma vet_line_found: "first_vet_line ls = [] \<longleftrightarrow> list_all (\<lambda>l. TrimSpace l = []) ls"
  by (induction ls) (simp_all add: Let_def)

text \<open>the goal is the one of the first strategy that runs and finds something. Without
  one the answer is the empty goal (which the driver reads as success) when some strategy
  ran, and an error with the three reasons, in order, when none did: a broken environment
  alone never reads as a clean codebase.\<close>

theorem discoverNextGoal_spec:
  "discoverNextGoal local_bin read_file run =
     (let rs = [runGoVet run, runGolangciLintFast local_bin run, scanTODOs read_file run]
      in case found rs of
           g # _ \<Rightarrow> Inr g
         | [] \<Rightarrow> if length (failures rs) = 3 then Inl (failures rs) else Inr [])"
  by (simp add: discoverNextGoal_def discover_loop_spec Let_def split: list.splits)

text \<open>
  The header line that \<^verbatim>\<open>go vet\<close> prints before the findings of a package becomes the goal.
\<close>

lemma vet_header_is_the_goal:
  "parseGoVetOutput (''# example.com/p'' @ [CHR 0x0A] @ ''p.go:1:1: unused'') = ''fix(vet): # example.com/p''"
  by code_simp

end
