(* ===== verification/TornLedger.thy ===== *)
theory TornLedger
  imports LedgerFile
begin

section \<open>The ledger under failing writes (internal/cycle/ledger.go)\<close>

text \<open>
  What becomes of the abstract log when an append fails. The clients of the ledger ignore most
  errors of \<^verbatim>\<open>Append\<close> and go on, so the log of the driver, the orchestrator and the broker is the list
  of the entries on whole lines together with the state of the file's tail: a write that stopped
  inside its line makes the file unreadable for good, and one that lost only the newline makes it
  unreadable with the next append. \<open>Append_simulates\<close> ties this to the bytes of \<open>LedgerFile\<close>.
\<close>

subsection \<open>The log with its tail\<close>

datatype ledger_tail = WholeLine | NoNewline | TornLine

text \<open>How an append ends; it returns nil only for \<open>Appended\<close>.\<close>

datatype log_outcome = Appended | Refused | CutNewline | CutLine

fun log_write ::
  "log_outcome \<Rightarrow> HarnessLedgerEntry \<Rightarrow> HarnessLedgerEntry list \<times> ledger_tail \<Rightarrow>
   HarnessLedgerEntry list \<times> ledger_tail" where
  "log_write Refused e l = l"
| "log_write Appended e (es, WholeLine) = (log_append es e, WholeLine)"
| "log_write CutNewline e (es, WholeLine) = (log_append es e, NoNewline)"
| "log_write CutLine e (es, WholeLine) = (es, TornLine)"
| "log_write out e (es, t) = (es, TornLine)"

text \<open>The list grows by the entry or not at all, and a torn file stays torn.\<close>

lemma log_write_grows:
  "\<exists>new. set new \<subseteq> {e} \<and> length new \<le> 1 \<and> fst (log_write out e l) = foldl log_append (fst l) new"
proof -
  have "fst (log_write out e l) = fst l \<or> fst (log_write out e l) = log_append (fst l) e"
    by (cases "(out, e, l)" rule: log_write.cases) simp_all
  then show ?thesis
  proof
    assume "fst (log_write out e l) = fst l"
    then show ?thesis by (intro exI [of _ "[]"]) simp
  next
    assume "fst (log_write out e l) = log_append (fst l) e"
    then show ?thesis by (intro exI [of _ "[e]"]) simp
  qed
qed

lemma log_write_torn: "log_write out e (es, TornLine) = (es, TornLine)"
  by (cases out) simp_all

lemma log_write_appended:
  "log_write Appended e (es, t) = (if t = WholeLine then (log_append es e, WholeLine) else (es, TornLine))"
  by (cases t) simp_all

subsection \<open>The bytes of a torn file\<close>

abbreviation entry_json :: "HarnessLedgerEntry \<Rightarrow> bytes" where
  "entry_json e \<equiv> jprint (HarnessLedgerEntry_json e)"

text \<open>The texts that interrupted appends can leave on one line.\<close>

inductive glued :: "bytes \<Rightarrow> bool" where
  cut: "0 < n \<Longrightarrow> n < length (entry_json e) \<Longrightarrow> glued (take n (entry_json e))"
| after_whole: "0 < n \<Longrightarrow> glued (entry_json e @ take n (entry_json e'))"
| after_torn: "glued t \<Longrightarrow> glued (t @ take n (entry_json e))"

text \<open>\<^verbatim>\<open>json.Unmarshal\<close> refuses an object that is not closed and anything but space after its end.\<close>

definition refuses_glued :: "(bytes \<Rightarrow> HarnessLedgerEntry option) \<Rightarrow> bool" where
  "refuses_glued um \<longleftrightarrow> (\<forall>t. glued t \<longrightarrow> um t = None)"

lemma glued_line: "glued t \<Longrightarrow> t \<noteq> [] \<and> newline \<notin> set t"
proof (induction rule: glued.induct)
  case (cut n e)
  then show ?case using jprint_no_newline in_set_takeD [of newline n "entry_json e"] by auto
next
  case (after_whole n e e')
  have "entry_json e \<noteq> []" using hd_jprint by blast
  then show ?case using jprint_no_newline in_set_takeD [of newline n "entry_json e'"] by auto
next
  case (after_torn t n e)
  then show ?case using jprint_no_newline in_set_takeD [of newline n "entry_json e"] by auto
qed

definition decodes :: "(bytes \<Rightarrow> HarnessLedgerEntry option) \<Rightarrow> HarnessLedgerEntry \<Rightarrow> bool" where
  "decodes um e \<longleftrightarrow> um (entry_json e) = Some e"

fun holds :: "(bytes \<Rightarrow> HarnessLedgerEntry option) \<Rightarrow> ledgerFile \<Rightarrow> HarnessLedgerEntry list \<times> ledger_tail \<Rightarrow> bool" where
  "holds um f (es, WholeLine) = represents um f es"
| "holds um f (es, NoNewline) =
     (\<exists>es0 e. es = es0 @ [e] \<and> file_bytes f = concat (map entry_line es0) @ entry_json e \<and> list_all (decodes um) es)"
| "holds um f (es, TornLine) =
     (\<exists>es0 t rest. file_bytes f = concat (map entry_line es0) @ t @ rest \<and> list_all (decodes um) es0 \<and>
        glued t \<and> (rest = [] \<or> hd rest = newline))"

lemma holds_torn:
  "file_bytes f = concat (map entry_line es0) @ t @ rest \<Longrightarrow> list_all (decodes um) es0 \<Longrightarrow> glued t \<Longrightarrow>
   rest = [] \<or> hd rest = newline \<Longrightarrow> holds um f (es, TornLine)"
  by (simp only: holds.simps) blast

lemma ledger_lines_last: "newline \<notin> set t \<Longrightarrow> t \<noteq> [] \<Longrightarrow> ledger_lines t = [t]"
proof -
  assume t: "newline \<notin> set t" "t \<noteq> []"
  from t(1) have w: "takeWhile (\<lambda>c. c \<noteq> newline) t = t" "dropWhile (\<lambda>c. c \<noteq> newline) t = []" by (induction t) auto
  show ?thesis unfolding ledger_lines.simps [of t] Let_def w using t(2) by simp
qed

lemma ReadAll_bytes:
  assumes "file_bytes f = concat (map entry_line es) @ r" "r \<noteq> []" "list_all (decodes um) es"
  shows "ReadAll um ReadOk f = map_sum id ((@) es) (unmarshal_all um (ledger_lines r))"
proof -
  have "lf_bytes f = Some (concat (map entry_line es) @ r)"
    using assms(1,2) by (auto simp: file_bytes_def split: option.splits)
  then show ?thesis
    using unmarshal_all_printed [of um es "ledger_lines r"] assms(3)
    by (simp add: ReadAll_def ledger_lines_entries decodes_def [abs_def])
qed

text \<open>Reading such a file: its entries, unless it is torn.\<close>

lemma ReadAll_holds:
  assumes "holds um f (es, t)" "refuses_glued um"
  shows "ReadAll um ReadOk f = (if t = TornLine then Inl LedgerUnmarshalFailed else Inr es)"
proof (cases t)
  case WholeLine
  with assms(1) ReadAll_represents show ?thesis by simp
next
  case NoNewline
  with assms(1) obtain es0 e where f: "es = es0 @ [e]" "file_bytes f = concat (map entry_line es0) @ entry_json e"
    "list_all (decodes um) es" by auto
  have ne: "entry_json e \<noteq> []" using hd_jprint by blast
  have "list_all (decodes um) es0" "um (entry_json e) = Some e" using f(1,3) by (simp_all add: decodes_def)
  with ReadAll_bytes [OF f(2) ne] show ?thesis
    by (simp add: ledger_lines_last [OF jprint_no_newline ne] f(1) NoNewline)
next
  case TornLine
  with assms(1) obtain es0 u rest where f: "file_bytes f = concat (map entry_line es0) @ u @ rest"
    "list_all (decodes um) es0" "glued u" "rest = [] \<or> hd rest = newline" by auto
  note u = glued_line [OF f(3)]
  have "\<exists>ls. ledger_lines (u @ rest) = u # ls"
  proof (cases rest)
    case Nil
    with u ledger_lines_last show ?thesis by simp
  next
    case (Cons c r)
    with f(4) u ledger_lines_line [of u r] show ?thesis by simp
  qed
  moreover have "um u = None" using assms(2) f(3) by (simp add: refuses_glued_def)
  ultimately show ?thesis using ReadAll_bytes [OF f(1) _ f(2)] u by (auto simp: TornLine)
qed

subsection \<open>The file implements the log\<close>

lemma lock_bytes: "lockForLedger um rio f = Inr (h, f') \<Longrightarrow> file_bytes f' = file_bytes f"
  by (auto simp: lockForLedger_def file_bytes_def split: option.splits sum.splits)

lemma lock_represents:
  "represents um f es \<Longrightarrow> lockForLedger um rio f = Inr (h, f') \<Longrightarrow> h = tail_hash es \<and> represents um f' es \<and> lf_lastHash f' = Some h"
proof -
  assume r: "represents um f es" and l: "lockForLedger um rio f = Inr (h, f')"
  have "ReadAll um rio f = Inr es'  \<Longrightarrow> es' = es" for es'
    using ReadAll_represents [OF r]
    by (auto simp: ReadAll_def split: option.splits if_splits)
  then show ?thesis using r l
    by (auto simp: lockForLedger_def readLastHash_def represents_def tail_hash_def file_bytes_def split: option.splits sum.splits)
qed

text \<open>The bytes an append adds: a prefix of its line, all of it exactly when it returns nil.\<close>

definition write_complete :: "write_outcome \<Rightarrow> HarnessLedgerEntry \<Rightarrow> bool" where
  "write_complete wio e \<longleftrightarrow> (\<forall>n prev. wio = WriteShort n \<longrightarrow> n < length (entry_line (link_entry prev e)))"

lemma Append_bytes:
  assumes "lockForLedger um rio f = Inr (prev, f')" "Append um rio wio e f = (err, f2)" "write_complete wio e"
  defines "line \<equiv> entry_line (link_entry prev e)"
  shows "\<exists>n \<le> length line. file_bytes f2 = file_bytes f @ take n line \<and> (err = None \<longleftrightarrow> n = length line) \<and>
    lf_lastHash f2 = (if err = None then Some (le_Hash (link_entry prev e)) else lf_lastHash f')"
  using assms(2,3) lock_bytes [OF assms(1)]
  by (cases wio) (auto simp: Append_def assms(1) Let_def line_def link_entry_def file_bytes_def write_complete_def
      entry_line_def split: option.splits intro: exI [of _ 0] intro!: less_imp_le)

text \<open>
  The bytes implement the log. Whatever faults an append meets, the file afterwards holds what \<open>log_write\<close>
  makes of the log for some outcome, which is \<open>Appended\<close> when the append returns nil. The
  hypotheses: \<^verbatim>\<open>json.Unmarshal\<close> reads back the linked entry and refuses glued lines, and a write that
  fails wrote less than it was given, as \<^verbatim>\<open>io.Writer\<close> promises.
\<close>

theorem Append_simulates:
  assumes "holds um f (es, t)" and "Append um rio wio e f = (err, f2)"
    and "decodes um (link_entry (tail_hash es) e)" and "write_complete wio e"
  shows "\<exists>out. holds um f2 (log_write out e (es, t)) \<and> (err = None \<longrightarrow> out = Appended)"
proof (cases "lockForLedger um rio f")
  case (Inl le)
  with assms(1,2) show ?thesis by (intro exI [of _ Refused]) (auto simp: Append_def)
next
  case (Inr p)
  then obtain prev f' where l: "lockForLedger um rio f = Inr (prev, f')" by (cases p) auto
  let ?j = "entry_json (link_entry prev e)"
  obtain n where n: "n \<le> length (entry_line (link_entry prev e))" "file_bytes f2 = file_bytes f @ take n (entry_line (link_entry prev e))"
    "err = None \<longleftrightarrow> n = length (entry_line (link_entry prev e))"
    "lf_lastHash f2 = (if err = None then Some (le_Hash (link_entry prev e)) else lf_lastHash f')"
    using Append_bytes [OF l assms(2,4)] by blast
  have line: "take n (entry_line (link_entry prev e)) = (if n \<le> length ?j then take n ?j else ?j @ [newline])"
    using n(1) by (auto simp: entry_line_def not_le le_Suc_eq)
  have whole: "err = None \<longleftrightarrow> n = Suc (length ?j)" using n(3) by (simp add: entry_line_def)
  show ?thesis
  proof (cases t)
    case WholeLine
    with assms(1) lock_represents [OF _ l] have r: "represents um f es" "prev = tail_hash es" "represents um f' es" "lf_lastHash f' = Some prev"
      by auto
    have bytes: "file_bytes f = concat (map entry_line es)" "list_all (decodes um) es"
      using r(1) by (simp_all add: represents_def decodes_def [abs_def])
    consider "n = 0" | "0 < n" "n < length ?j" | "n = length ?j" "0 < n" | "n = Suc (length ?j)"
      using n(1) by (fastforce simp: entry_line_def)
    then show ?thesis
    proof cases
      case 1
      with n whole r show ?thesis
        by (intro exI [of _ Refused]) (auto simp: WholeLine represents_def)
    next
      case 2
      then have "glued (take n ?j)" by (rule glued.cut)
      moreover have "file_bytes f2 = concat (map entry_line es) @ take n ?j @ []" using 2 n(2) line bytes(1) by simp
      ultimately have "holds um f2 (es, TornLine)" using bytes(2) by (intro holds_torn [where t = "take n ?j" and rest = "[]"]) simp_all
      then show ?thesis using 2 whole by (intro exI [of _ CutLine]) (simp add: WholeLine)
    next
      case 3
      with n(2) whole line bytes assms(3) r(2) show ?thesis
        by (intro exI [of _ CutNewline]) (auto simp: WholeLine log_append_def)
    next
      case 4
      then have "file_bytes f2 = concat (map entry_line (es @ [link_entry (tail_hash es) e]))"
        using n(2) line bytes(1) r(2) by (simp add: entry_line_def)
      then have "represents um f2 (log_append es e)"
        using n(4) whole 4 bytes(2) assms(3) r(2)
        by (simp add: represents_def log_append_def decodes_def [abs_def] tail_hash_def)
      then show ?thesis by (intro exI [of _ Appended]) (simp add: WholeLine)
    qed
  next
    case NoNewline
    with assms(1) obtain es0 e0 where f: "es = es0 @ [e0]" "file_bytes f = concat (map entry_line es0) @ entry_json e0"
      "list_all (decodes um) es" by auto
    show ?thesis
    proof (cases "n = 0")
      case True
      with n(2) whole f show ?thesis by (intro exI [of _ Refused]) (simp add: NoNewline)
    next
      case False
      define u where "u = entry_json e0 @ take n ?j"
      have "glued u" unfolding u_def using False by (intro glued.after_whole) simp
      moreover have "\<exists>rest. file_bytes f2 = concat (map entry_line es0) @ u @ rest \<and> (rest = [] \<or> hd rest = newline)"
        using n(2) line f(2) by (auto simp: u_def intro: exI [of _ "[newline]"])
      moreover have "list_all (decodes um) es0" using f(1,3) by simp
      ultimately have "holds um f2 (es, TornLine)" using holds_torn by blast
      then show ?thesis by (intro exI [of _ Appended]) (simp add: NoNewline)
    qed
  next
    case TornLine
    with assms(1) obtain es0 u rest where f: "file_bytes f = concat (map entry_line es0) @ u @ rest"
      "list_all (decodes um) es0" "glued u" "rest = [] \<or> hd rest = newline" by auto
    have "holds um f2 (es, TornLine)"
    proof (cases rest)
      case Nil
      have "glued (u @ take n ?j)" using f(3) by (rule glued.after_torn)
      moreover have "\<exists>r. file_bytes f2 = concat (map entry_line es0) @ (u @ take n ?j) @ r \<and> (r = [] \<or> hd r = newline)"
        using n(2) line f(1) Nil by (auto intro: exI [of _ "[newline]"])
      ultimately show ?thesis using f(2) holds_torn by blast
    next
      case (Cons c r)
      with f n(2) have "file_bytes f2 = concat (map entry_line es0) @ u @ (rest @ take n (entry_line (link_entry prev e)))"
        "hd (rest @ take n (entry_line (link_entry prev e))) = newline" by simp_all
      with f(2,3) show ?thesis using holds_torn by blast
    qed
    then show ?thesis by (intro exI [of _ Appended]) (simp add: TornLine)
  qed
qed

end
