(* ===== verification/Driver.thy ===== *)
theory Driver
  imports StateSync Guards AutoGoal TornLedger "HOL-Library.Countable"
begin

section \<open>The cycle driver (internal/cycle/driver.go)\<close>

text \<open>
  One step of a cycle (pin the gate set, run the pipeline, complete the cycle, record the
  verdict) and the loop around it. The system is the state file, the optional ledger (the
  log of \<open>TornLedger\<close> with its tail: the driver ignores the errors of an append, so an append that is
  refused leaves the log as it was, and one that is cut short leaves a torn file) and the world of the
  gates and agents. What the environment
  does in one iteration, the clock and the faults, is a record; the deadline of a step
  reaches the gates through the world.
\<close>

record 'w sys =
  sy_disk :: state_disk
  sy_ledger :: "HarnessLedgerEntry list option"
  sy_tail :: ledger_tail
  sy_world :: 'w

record env =
  en_now :: int
  en_append :: "HarnessLedgerEntry \<Rightarrow> log_outcome"
  en_read :: "nat \<Rightarrow> read_fault"
  en_write :: write_fault
  en_sleep_ok :: bool

datatype drive_error =
    StepError cycle_error
  | ReadStateError sync_error
  | WriteStateError sync_error
  | GoalDiscoveryError "discovery_error list"
  | SleepError
  | LedgerReadError
  | NoAgents
  | AdapterMissing string
  | AdapterError string
  | LedgerAppendError

subsection \<open>One step\<close>

definition record_entry :: "(HarnessLedgerEntry \<Rightarrow> log_outcome) \<Rightarrow> HarnessLedgerEntry \<Rightarrow> 'w sys \<Rightarrow> 'w sys" where
  "record_entry out e sy =
     (case sy_ledger sy of
        None \<Rightarrow> sy
      | Some es \<Rightarrow>
          let (es', t) = log_write (out e) e (es, sy_tail sy) in sy\<lparr>sy_ledger := Some es', sy_tail := t\<rparr>)"

text \<open>Whether \<^verbatim>\<open>ReadAll\<close> succeeds: \<open>io\<close> says whether the file can be opened and read.\<close>

definition ledger_readable :: "bool \<Rightarrow> 'w sys \<Rightarrow> bool" where
  "ledger_readable io sy \<longleftrightarrow> io \<and> sy_tail sy \<noteq> TornLine"

definition Driver_Step ::
  "(HarnessLedgerEntry \<Rightarrow> log_outcome) \<Rightarrow> int \<Rightarrow> 'w Pipeline \<Rightarrow> State \<Rightarrow> 'w sys \<Rightarrow> State Result \<times> 'w sys" where
  "Driver_Step out now p s sy =
     (if p = [] then (Failure s (OtherErr ''no pipeline configured'') [], sy)
      else if TrimSpace (cs_NextCycleGoal s) = [] then (Failure s (CycleErr ErrGoalRequired) [], sy)
      else
        let (pinnedDigest, pins) = PinGates (cs_LocalGates s);
            sy1 = record_entry out (NewGatesPinnedEntry now (cs_ID s) pinnedDigest pins False) sy;
            sy2 = (if GatesTampered pinnedDigest (cs_LocalGates s) then
                     let (currentDigest, currentPins) = PinGates (cs_LocalGates s)
                     in record_entry out (NewGatesPinnedEntry now (cs_ID s) currentDigest currentPins True) sy1
                   else sy1);
            (result, w) = Execute now p s (sy_world sy2);
            sy3 = sy2\<lparr>sy_world := w\<rparr>
        in if IsFailure result then (result, sy3)
           else let completed = CompleteCycle now (re_value result) in
             if IsFailure completed then (completed, sy3)
             else
               let current = (re_value completed)\<lparr>cs_NextCycleGoal := [], cs_UpdatedAt := now\<rparr>;
                   sy4 = foldl (\<lambda>sy report. record_entry out (NewGateLedgerEntry now (cs_ID current) report) sy)
                           sy3 (re_reports result);
                   sy5 = record_entry out (NewHarnessLedgerEntry now (cs_ID current)
                           LedgerEventValidationGreen ''gate pipeline passed'' []) sy4;
                   sy6 = record_entry out (NewHarnessLedgerEntry now (cs_ID current)
                           LedgerEventCycleCompleted ''cycle step completed'' []) sy5
               in (Success current (re_reports result), sy6))"

subsection \<open>The loop\<close>

fun read_loop ::
  "unmarshaller \<Rightarrow> state_disk \<Rightarrow> read_fault list \<Rightarrow> sync_error \<Rightarrow> sync_error + State" where
  "read_loop um d [] lastErr = Inl lastErr"
| "read_loop um d (flt # flts) lastErr =
     (case StateFileSync_Read um flt d of Inr s \<Rightarrow> Inr s | Inl e \<Rightarrow> read_loop um d flts e)"

definition readWithRetry ::
  "unmarshaller \<Rightarrow> int \<Rightarrow> (nat \<Rightarrow> read_fault) \<Rightarrow> state_disk \<Rightarrow> sync_error + State" where
  "readWithRetry um ReadRetries flts d =
     (let retries = (if ReadRetries \<le> 0 then 3 else nat ReadRetries)
      in read_loop um d (map flts [0..<retries]) StateReadFailed)"

definition write_state ::
  "(State \<Rightarrow> bytes) \<Rightarrow> write_fault \<Rightarrow> State \<Rightarrow> 'w sys \<Rightarrow> sync_error option \<times> 'w sys" where
  "write_state marshal flt s sy =
     (let (err, ds) = StateFileSync_Write marshal flt s (sy_disk sy)
      in (err, sy\<lparr>sy_disk := final_disk (sy_disk sy) ds\<rparr>))"

text \<open>What the driver was built with.\<close>

record 'w driver =
  dr_marshal :: "State \<Rightarrow> bytes"
  dr_unmarshal :: unmarshaller
  dr_pipeline :: "'w Pipeline"
  dr_ReadRetries :: int
  dr_goalDiscoverer :: "State \<Rightarrow> 'w \<Rightarrow> (discovery_error list + string) \<times> 'w"

text \<open>
  One turn of the loop: \<open>Some r\<close> when \<^verbatim>\<open>Run\<close> returns \<open>r\<close> (\<open>None\<close> is a nil error), \<open>None\<close> when it
  goes on.
\<close>

definition after_step ::
  "'w driver \<Rightarrow> env \<Rightarrow> State \<Rightarrow> 'w sys \<Rightarrow> drive_error option option \<times> 'w sys" where
  "after_step d ev next sy =
     (case write_state (dr_marshal d) (en_write ev) next sy of
        (Some e, sy') \<Rightarrow> (Some (Some (WriteStateError e)), sy')
      | (None, sy') \<Rightarrow>
          if \<not> CanAdvance (en_now ev) next then (Some None, sy')
          else if \<not> en_sleep_ok ev then (Some (Some SleepError), sy')
          else (None, sy'))"

definition Driver_iteration ::
  "'w driver \<Rightarrow> env \<Rightarrow> 'w sys \<Rightarrow> drive_error option option \<times> 'w sys" where
  "Driver_iteration d ev sy =
     (case readWithRetry (dr_unmarshal d) (dr_ReadRetries d) (en_read ev) (sy_disk sy) of
        Inl e \<Rightarrow> (Some (Some (ReadStateError e)), sy)
      | Inr state \<Rightarrow>
          if \<not> CanAdvance (en_now ev) state then (Some None, sy)
          else
            let (result, sy1) = Driver_Step (en_append ev) (en_now ev) (dr_pipeline d) state sy in
            (case re_err result of
               Some (HaltedError reason reports) \<Rightarrow>
                 (Some (Some (StepError (HaltedError reason reports))),
                  snd (write_state (dr_marshal d) (en_write ev) (re_value result) sy1))
             | Some e \<Rightarrow> (Some (Some (StepError e)), sy1)
             | None \<Rightarrow>
                 let next = re_value result in
                 if cs_AutoGoal next \<and> \<not> cs_Halted next \<and> TrimSpace (cs_NextCycleGoal next) = [] then
                   (case dr_goalDiscoverer d next (sy_world sy1) of
                      (Inl errs, w) \<Rightarrow> (Some (Some (GoalDiscoveryError errs)), sy1\<lparr>sy_world := w\<rparr>)
                    | (Inr goal, w) \<Rightarrow>
                        let sy2 = sy1\<lparr>sy_world := w\<rparr> in
                        if goal = [] then
                          let halted = re_value (Halt (en_now ev) HaltSuccess next)
                          in (Some None, snd (write_state (dr_marshal d) (en_write ev) halted sy2))
                        else after_step d ev
                               (next\<lparr>cs_NextCycleGoal := goal, cs_UpdatedAt := en_now ev\<rparr>) sy2)
                 else after_step d ev next sy1))"

text \<open>\<^verbatim>\<open>Run\<close> with fuel: \<open>None\<close> when the fuel is used up before it returns.\<close>

fun Driver_Run ::
  "nat \<Rightarrow> 'w driver \<Rightarrow> (nat \<Rightarrow> env) \<Rightarrow> 'w sys \<Rightarrow> drive_error option option \<times> 'w sys" where
  "Driver_Run 0 d evs sy = (None, sy)"
| "Driver_Run (Suc n) d evs sy =
     (case Driver_iteration d (evs 0) sy of
        (Some r, sy') \<Rightarrow> (Some r, sy')
      | (None, sy') \<Rightarrow> Driver_Run n d (\<lambda>i. evs (Suc i)) sy')"

subsection \<open>What a step records\<close>

lemma record_entry_simps [simp]:
  "sy_disk (record_entry out e sy) = sy_disk sy" "sy_world (record_entry out e sy) = sy_world sy"
  by (auto simp: record_entry_def split: option.splits prod.splits)

lemma record_entry_None: "sy_ledger sy = None \<Longrightarrow> record_entry out e sy = sy"
  by (simp add: record_entry_def)

lemma record_entry_Some:
  "sy_ledger sy = Some es \<Longrightarrow>
   sy_ledger (record_entry out e sy) = Some (fst (log_write (out e) e (es, sy_tail sy))) \<and>
   sy_tail (record_entry out e sy) = snd (log_write (out e) e (es, sy_tail sy))"
  by (simp add: record_entry_def case_prod_beta)

text \<open>Recording a list of entries, one after the other.\<close>

definition record_all :: "(HarnessLedgerEntry \<Rightarrow> log_outcome) \<Rightarrow> HarnessLedgerEntry list \<Rightarrow> 'w sys \<Rightarrow> 'w sys" where
  "record_all out es sy = foldl (\<lambda>sy e. record_entry out e sy) sy es"

lemma record_all_simps [simp]:
  "record_all out [] sy = sy" "record_all out (e # es) sy = record_all out es (record_entry out e sy)"
  "record_all out (es @ fs) sy = record_all out fs (record_all out es sy)"
  by (simp_all add: record_all_def)

text \<open>Without faults a file that ends in a whole line gets all of them.\<close>

lemma record_all_ledger:
  "sy_ledger sy = Some es \<Longrightarrow> sy_tail sy = WholeLine \<Longrightarrow>
   sy_ledger (record_all (\<lambda>_. Appended) new sy) = Some (foldl log_append es new) \<and>
   sy_tail (record_all (\<lambda>_. Appended) new sy) = WholeLine"
proof (induction new arbitrary: sy es)
  case (Cons e new)
  with record_entry_Some [of sy es "\<lambda>_. Appended" e] show ?case by simp
qed simp

lemma record_all_other [simp]:
  "sy_disk (record_all out es sy) = sy_disk sy" "sy_world (record_all out es sy) = sy_world sy"
  by (induction es arbitrary: sy) simp_all

lemma record_all_world: "record_all out es (sy\<lparr>sy_world := w\<rparr>) = (record_all out es sy)\<lparr>sy_world := w\<rparr>"
proof (induction es arbitrary: sy)
  case (Cons e es)
  have "record_entry out e (sy\<lparr>sy_world := w\<rparr>) = (record_entry out e sy)\<lparr>sy_world := w\<rparr>"
    by (simp add: record_entry_def split: option.split prod.split)
  with Cons show ?case by simp
qed simp

lemma record_reports:
  "foldl (\<lambda>sy r. record_entry out (NewGateLedgerEntry now i r) sy) sy rs =
   record_all out (map (NewGateLedgerEntry now i) rs) sy"
  by (induction rs arbitrary: sy) simp_all

lemma not_tampered [simp]: "\<not> GatesTampered (fst (PinGates gs)) gs"
  by (simp add: GatesTampered_def)

definition pin_entry :: "int \<Rightarrow> State \<Rightarrow> HarnessLedgerEntry" where
  "pin_entry now s =
     NewGatesPinnedEntry now (cs_ID s) (fst (PinGates (cs_LocalGates s))) (snd (PinGates (cs_LocalGates s))) False"

definition done_entries :: "int \<Rightarrow> string \<Rightarrow> GateReport list \<Rightarrow> HarnessLedgerEntry list" where
  "done_entries now cid reports =
     map (NewGateLedgerEntry now cid) reports @
     [NewHarnessLedgerEntry now cid LedgerEventValidationGreen ''gate pipeline passed'' [],
      NewHarnessLedgerEntry now cid LedgerEventCycleCompleted ''cycle step completed'' []]"

text \<open>The step without the branch that never runs.\<close>

lemma Driver_Step_eq:
  "Driver_Step out now p s sy =
     (if p = [] then (Failure s (OtherErr ''no pipeline configured'') [], sy)
      else if TrimSpace (cs_NextCycleGoal s) = [] then (Failure s (CycleErr ErrGoalRequired) [], sy)
      else
        let (result, w) = Execute now p s (sy_world sy);
            sy3 = (record_entry out (pin_entry now s) sy)\<lparr>sy_world := w\<rparr>
        in if IsFailure result then (result, sy3)
           else if cs_Halted (re_value result) then (Failure (re_value result) (CycleErr ErrCycleHalted) [], sy3)
           else
             let current = (re_value result)\<lparr>cs_CompletedCycles := cs_CompletedCycles (re_value result) + 1,
                   cs_Phase := CyclePhasePreflight, cs_UpdatedAt := now, cs_NextCycleGoal := []\<rparr>
             in (Success current (re_reports result),
                 record_all out (done_entries now (cs_ID current) (re_reports result)) sy3))"
  by (simp add: Driver_Step_def pin_entry_def done_entries_def record_reports CompleteCycle_def Let_def
      case_prod_beta GatesTampered_def)

subsection \<open>Running to an end\<close>

text \<open>The counters that bound a run, and what keeps them.\<close>

definition counters :: "State \<Rightarrow> int \<times> int" where
  "counters s = (cs_CompletedCycles s, cs_MaxCycles s)"

definition keeps_counters :: "'w Pipeline \<Rightarrow> bool" where
  "keeps_counters p \<longleftrightarrow> list_all (\<lambda>g. \<forall>s w. counters (fst (snd (ga_Run g s w))) = counters s) p"

definition stores_counters :: "(State \<Rightarrow> bytes) \<Rightarrow> unmarshaller \<Rightarrow> bool" where
  "stores_counters marshal um \<longleftrightarrow>
     (\<forall>s. fst (um (marshal s) zero_state) \<and> counters (snd (um (marshal s) zero_state)) = counters s)"

lemma run_gates_counters:
  "keeps_counters p \<Longrightarrow> run_gates p s w = (rs, s', w') \<Longrightarrow> counters s' = counters s"
proof (induction p arbitrary: s w rs)
  case (Cons g gs)
  obtain r s1 w1 where g: "ga_Run g s w = (r, s1, w1)" by (cases "ga_Run g s w") auto
  obtain rs1 where rs: "run_gates gs s1 w1 = (rs1, s', w')" using Cons.prems(2) g by (auto split: prod.splits)
  have "counters s' = counters s1" using Cons.IH [OF _ rs] Cons.prems(1) by (simp add: keeps_counters_def)
  also have "\<dots> = counters s"
  proof -
    have "\<forall>s w. counters (fst (snd (ga_Run g s w))) = counters s"
      using Cons.prems(1) by (simp add: keeps_counters_def)
    from this [rule_format, of s w] g show ?thesis by simp
  qed
  finally show ?case .
qed (simp add: keeps_counters_def)

lemma Execute_success:
  assumes "Execute now p s w = (result, w')" "\<not> IsFailure result"
  obtains rs where "run_gates p s w = (rs, re_value result, w')" "list_all (\<lambda>r. \<not> blocks r) rs"
    "re_reports result = map Report rs"
proof (rule first_blocking [of p s w])
  fix rs s' w1
  assume "run_gates p s w = (rs, s', w1)" "list_all (\<lambda>r. \<not> blocks r) rs"
  then show thesis using that Execute_pass [of p s w rs s' w1 now] assms(1) by auto
next
  fix gs g hs rs s1 w1 report reason s2 w2
  assume "p = gs @ g # hs" "run_gates gs s w = (rs, s1, w1)" "list_all (\<lambda>r. \<not> blocks r) rs"
    "ga_Run g s1 w1 = (GateFailure report reason, s2, w2)"
  then show thesis using Execute_fail [of gs s w rs s1 w1 g report reason s2 w2 now hs] assms
    by (auto simp: Let_def)
qed

lemma Step_counters:
  assumes "keeps_counters p" "Driver_Step out now p s sy = (r, sy')" "re_err r = None"
  shows "counters (re_value r) = (cs_CompletedCycles s + 1, cs_MaxCycles s) \<and> sy_disk sy' = sy_disk sy"
proof -
  obtain result w where ex: "Execute now p s (sy_world sy) = (result, w)"
    by (cases "Execute now p s (sy_world sy)") auto
  have ok: "\<not> IsFailure result" using assms(2,3) ex
    by (auto simp: Driver_Step_eq Let_def IsFailure_def Failure_def split: if_splits)
  then obtain rs where "run_gates p s (sy_world sy) = (rs, re_value result, w)"
    using Execute_success [OF ex] by blast
  then have "counters (re_value result) = counters s" by (rule run_gates_counters [OF assms(1)])
  then show ?thesis using assms(2,3) ex ok
    by (auto simp: Driver_Step_eq Let_def counters_def Failure_def Success_def split: if_splits)
qed

lemma read_loop_primary:
  assumes "stores_counters marshal um" "sd_primary d = Some (marshal s0)"
    "read_loop um d flts e = Inr s"
  shows "counters s = counters s0"
  using assms(3)
proof (induction flts arbitrary: e)
  case (Cons flt flts)
  have dec: "um (marshal s0) zero_state = (True, snd (um (marshal s0) zero_state))"
    "counters (snd (um (marshal s0) zero_state)) = counters s0"
    using assms(1) by (simp_all add: stores_counters_def prod_eq_iff)
  have "StateFileSync_Read um flt d =
      (if flt = PrimaryUnreadable then Inl StateReadFailed else Inr (snd (um (marshal s0) zero_state)))"
    by (subst StateFileSync_Read_def) (simp add: assms(2), subst dec(1), simp)
  with Cons dec(2) show ?case by (simp split: if_splits)
qed simp

lemma iteration_progress:
  assumes "Driver_iteration d ev sy = (None, sy')" "keeps_counters (dr_pipeline d)"
    "stores_counters (dr_marshal d) (dr_unmarshal d)"
    "sd_primary (sy_disk sy) = Some (dr_marshal d s0)" "0 < cs_MaxCycles s0"
  obtains s1 where "sd_primary (sy_disk sy') = Some (dr_marshal d s1)"
    "counters s1 = (cs_CompletedCycles s0 + 1, cs_MaxCycles s0)"
    "cs_CompletedCycles s0 + 1 < cs_MaxCycles s0"
proof -
  let ?m = "dr_marshal d"
  obtain s where s: "readWithRetry (dr_unmarshal d) (dr_ReadRetries d) (en_read ev) (sy_disk sy) = Inr s"
    using assms(1) by (auto simp: Driver_iteration_def split: sum.splits)
  have cs: "counters s = counters s0"
    using read_loop_primary [OF assms(3,4)] s by (auto simp: readWithRetry_def Let_def)
  obtain r sy1 where step: "Driver_Step (en_append ev) (en_now ev) (dr_pipeline d) s sy = (r, sy1)"
    by (cases "Driver_Step (en_append ev) (en_now ev) (dr_pipeline d) s sy") auto
  have ok: "re_err r = None" using assms(1) s step
    by (auto simp: Driver_iteration_def split: if_splits option.splits cycle_error.splits)
  note cnt = Step_counters [OF assms(2) step ok]
  have writes: "\<exists>s1. sd_primary (sy_disk sy') = Some (?m s1) \<and> counters s1 = counters next \<and>
      CanAdvance (en_now ev) next"
    if "after_step d ev next sy2 = (None, sy')" "sy_disk sy2 = sy_disk sy1" for "next" sy2
  proof -
    have "fst (StateFileSync_Write ?m (en_write ev) next (sy_disk sy2)) = None"
      using that(1) by (auto simp: after_step_def write_state_def case_prod_beta split: option.splits)
    from Write_ok [OF this] that(1) show ?thesis
      by (auto simp: after_step_def write_state_def case_prod_beta split: option.splits if_splits)
  qed
  obtain nxt sy2 where nxt: "after_step d ev nxt sy2 = (None, sy')" "sy_disk sy2 = sy_disk sy1"
    "counters nxt = counters (re_value r)"
    using assms(1) s step ok
    by (fastforce simp: Driver_iteration_def Let_def counters_def split: if_splits prod.splits sum.splits)
  from writes [OF nxt(1,2)] obtain s1 where s1: "sd_primary (sy_disk sy') = Some (?m s1)"
    "counters s1 = counters nxt" "CanAdvance (en_now ev) nxt" by blast
  have "cs_CompletedCycles nxt < cs_MaxCycles nxt"
    using s1(3) nxt(3) cnt cs assms(5) by (auto simp: CanAdvance_def counters_def split: if_splits)
  then show thesis using that s1 nxt(3) cnt cs by (simp add: counters_def)
qed

lemma Driver_Run_fuel:
  assumes "keeps_counters (dr_pipeline d)" "stores_counters (dr_marshal d) (dr_unmarshal d)"
    "sd_primary (sy_disk sy) = Some (dr_marshal d s0)" "0 < cs_MaxCycles s0"
    "nat (cs_MaxCycles s0 - cs_CompletedCycles s0) < n"
  shows "fst (Driver_Run n d evs sy) \<noteq> None"
  using assms(3-)
proof (induction n arbitrary: evs sy s0)
  case (Suc n)
  obtain out sy' where it: "Driver_iteration d (evs 0) sy = (out, sy')" by (cases "Driver_iteration d (evs 0) sy") auto
  show ?case
  proof (cases out)
    case None
    obtain s1 where s1: "sd_primary (sy_disk sy') = Some (dr_marshal d s1)"
      "counters s1 = (cs_CompletedCycles s0 + 1, cs_MaxCycles s0)" "cs_CompletedCycles s0 + 1 < cs_MaxCycles s0"
      using iteration_progress [OF it [unfolded None] assms(1,2) Suc.prems(1,2)] by blast
    have "nat (cs_MaxCycles s1 - cs_CompletedCycles s1) < n" "0 < cs_MaxCycles s1"
      using s1 Suc.prems by (auto simp: counters_def)
    from Suc.IH [OF s1(1) this(2,1)] it None show ?thesis by simp
  qed (use it in simp)
qed simp

subsection \<open>Properties\<close>

lemma IsSuccess_iff: "IsSuccess r \<longleftrightarrow> \<not> IsFailure r"
  by (simp add: IsSuccess_def IsFailure_def)

lemma Step_cases:
  assumes "p \<noteq> []" "TrimSpace (cs_NextCycleGoal s) \<noteq> []" "run_gates p s (sy_world sy) = (rs, s', w')"
  shows "let (r, sy') = Driver_Step out now p s sy; pass = (list_all (\<lambda>r. \<not> blocks r) rs \<and> \<not> cs_Halted s') in
    IsSuccess r = pass \<and>
    (\<exists>w. sy' = (record_all out (pin_entry now s # (if pass then done_entries now (cs_ID s') (map Report rs) else []))
       sy)\<lparr>sy_world := w\<rparr> \<and> (pass \<longrightarrow> w = w')) \<and>
    (pass \<longrightarrow> re_reports r = map Report rs \<and>
       re_value r = s'\<lparr>cs_CompletedCycles := cs_CompletedCycles s' + 1, cs_Phase := CyclePhasePreflight,
         cs_UpdatedAt := now, cs_NextCycleGoal := []\<rparr>)"
proof (cases "list_all (\<lambda>r. \<not> blocks r) rs")
  case True
  note ex = Execute_pass [OF assms(3) True, of now]
  show ?thesis
    using assms(1,2) True
    by (simp add: Driver_Step_eq ex Let_def IsSuccess_iff record_all_world del: not_IsSuccess) blast
next
  case False
  obtain result w where ex: "Execute now p s (sy_world sy) = (result, w)"
    by (cases "Execute now p s (sy_world sy)") auto
  have "IsFailure result"
  proof (rule ccontr)
    assume "\<not> IsFailure result"
    from Execute_success [OF ex this] show False using assms(3) False by auto
  qed
  then show ?thesis using assms(1,2) False
    by (auto simp: Driver_Step_eq ex Let_def IsSuccess_iff simp del: not_IsSuccess)
qed

text \<open>a step records what the verifier saw, and only that. With a pipeline and a goal
  the step succeeds exactly when no gate blocks and the gates leave the cycle unhalted. The
  ledger grows by the pin of the gate set and, on success only, by one entry per gate
  report, then \<^verbatim>\<open>validation_green\<close>, then \<^verbatim>\<open>cycle_completed\<close>: a failed step never turns the
  ledger green, and no step ever records a tampered gate set. A ledger that verified still
  verifies, and success advances the counter, resets the phase and consumes the goal.\<close>

theorem Driver_Step_records_verdict:
  assumes "p \<noteq> []" and "TrimSpace (cs_NextCycleGoal s) \<noteq> []" and "sy_ledger sy = Some es"
      and "sy_tail sy = WholeLine" and "run_gates p s (sy_world sy) = (rs, s', w')" and "chain_intact es"
  shows "let (r, sy') = Driver_Step (\<lambda>_. Appended) now p s sy;
             pass = (list_all (\<lambda>r. \<not> blocks r) rs \<and> \<not> cs_Halted s') in
    IsSuccess r = pass \<and>
    (\<exists>es'. sy_ledger sy' = Some es' \<and> chain_intact es' \<and>
       es' = foldl log_append es
         (pin_entry now s # (if pass then done_entries now (cs_ID s') (map Report rs) else [])) \<and>
       map le_Type es' = map le_Type es @ LedgerEventGatesPinned #
         (if pass then map (\<lambda>r. if gr_Passed (Report r) then LedgerEventGatePassed else LedgerEventGateFailed) rs @
            [LedgerEventValidationGreen, LedgerEventCycleCompleted] else [])) \<and>
    (pass \<longrightarrow> re_value r = s'\<lparr>cs_CompletedCycles := cs_CompletedCycles s' + 1,
       cs_Phase := CyclePhasePreflight, cs_UpdatedAt := now, cs_NextCycleGoal := []\<rparr>)"
proof -
  let ?pass = "list_all (\<lambda>r. \<not> blocks r) rs \<and> \<not> cs_Halted s'"
  let ?new = "pin_entry now s # (if ?pass then done_entries now (cs_ID s') (map Report rs) else [])"
  have types: "map le_Type ?new = LedgerEventGatesPinned #
      (if ?pass then map (\<lambda>r. if gr_Passed (Report r) then LedgerEventGatePassed else LedgerEventGateFailed) rs @
         [LedgerEventValidationGreen, LedgerEventCycleCompleted] else [])"
    by (simp add: pin_entry_def done_entries_def NewGatesPinnedEntry_def NewGateLedgerEntry_def
        NewHarnessLedgerEntry_def Let_def)
  obtain r sy' where step: "Driver_Step (\<lambda>_. Appended) now p s sy = (r, sy')"
    by (cases "Driver_Step (\<lambda>_. Appended) now p s sy") auto
  note cases = Step_cases [OF assms(1,2,5), of "\<lambda>_. Appended" now, unfolded step Let_def prod.case]
  have "sy_ledger sy' = Some (foldl log_append es ?new)"
    using cases record_all_ledger [OF assms(3,4), of ?new] by auto
  moreover have "chain_intact (foldl log_append es ?new)" by (rule log.appends_intact [OF assms(6)])
  moreover have "map le_Type (foldl log_append es ?new) = map le_Type es @ map le_Type ?new"
    by (rule log.appends_types)
  ultimately show ?thesis using cases unfolding types step Let_def prod.case by blast
qed

text \<open>the driver's loop ends. When the state file holds a state with a positive cycle
  limit, gates keep the two counters and decoding a written state returns them, \<^verbatim>\<open>Run\<close>
  returns within one iteration more than the cycles that are left, whatever fails.\<close>

theorem Driver_Run_terminates:
  assumes "keeps_counters (dr_pipeline d)" and "stores_counters (dr_marshal d) (dr_unmarshal d)"
      and "sd_primary (sy_disk sy) = Some (dr_marshal d s0)" and "0 < cs_MaxCycles s0"
  shows "\<exists>r. fst (Driver_Run (Suc (nat (cs_MaxCycles s0 - cs_CompletedCycles s0))) d evs sy) = Some r"
  using Driver_Run_fuel [OF assms lessI] by blast

text \<open>A gate that passes, a codec for the two counters and a calm environment.\<close>

definition ok_report :: GateReport where
  "ok_report = \<lparr>gr_Gate = ''audit'', gr_Passed = True, gr_DurationMS = 1, gr_Stdout = ''ok'',
     gr_Stderr = [], gr_Violations = [], gr_ClaimChecks = []\<rparr>"

definition ok_gate :: "'w Gate" where
  "ok_gate = \<lparr>ga_Name = ''audit'', ga_Run = (\<lambda>s w. (GateSuccess ok_report, s, w))\<rparr>"

definition put_counters :: "State \<Rightarrow> bytes" where
  "put_counters s = replicate (to_nat (counters s)) (CHR ''n'')"

definition get_counters :: unmarshaller where
  "get_counters b s =
     (let (c, m) = from_nat (length b) in (True, s\<lparr>cs_CompletedCycles := c, cs_MaxCycles := m\<rparr>))"

definition calm :: env where
  "calm = \<lparr>en_now = 5, en_append = (\<lambda>_. Appended), en_read = (\<lambda>_. ReadsFine), en_write = NoFault,
     en_sleep_ok = True\<rparr>"

lemma put_get_counters: "stores_counters put_counters get_counters"
  by (simp add: stores_counters_def put_counters_def get_counters_def counters_def Let_def)

lemma ok_gate_keeps: "keeps_counters [ok_gate]"
  by (simp add: keeps_counters_def ok_gate_def)

theorem Driver_Step_records_verdict_witness:
  "let sy = \<lparr>sy_disk = empty_disk, sy_ledger = Some [], sy_tail = WholeLine, sy_world = ()\<rparr>;
       (r, sy') = Driver_Step (\<lambda>_. Appended) 5 [ok_gate] (zero_state\<lparr>cs_NextCycleGoal := ''fix''\<rparr>) sy
   in map_option (map le_Type) (sy_ledger sy') =
        Some [LedgerEventGatesPinned, LedgerEventGatePassed, LedgerEventValidationGreen, LedgerEventCycleCompleted]"
proof -
  have goal: "TrimSpace (cs_NextCycleGoal (zero_state\<lparr>cs_NextCycleGoal := ''fix''\<rparr>)) \<noteq> []"
    unfolding zero_state_def by code_simp
  show ?thesis
    using Driver_Step_records_verdict [of "[ok_gate]" "zero_state\<lparr>cs_NextCycleGoal := ''fix''\<rparr>"
        "\<lparr>sy_disk = empty_disk, sy_ledger = Some [], sy_tail = WholeLine, sy_world = ()\<rparr>" "[]" "[GateSuccess ok_report]"
        "zero_state\<lparr>cs_NextCycleGoal := ''fix''\<rparr>" "()" 5, OF _ goal]
    by (auto simp: ok_gate_def ok_report_def zero_state_def Let_def)
qed

theorem Driver_Run_terminates_witness:
  "\<exists>r. fst (Driver_Run 3
     \<lparr>dr_marshal = put_counters, dr_unmarshal = get_counters, dr_pipeline = [ok_gate], dr_ReadRetries = 3,
      dr_goalDiscoverer = (\<lambda>s w. (Inr ''fix'', w))\<rparr>
     (\<lambda>_. calm)
     \<lparr>sy_disk = \<lparr>sd_primary = Some (put_counters (zero_state\<lparr>cs_MaxCycles := 2\<rparr>)), sd_bak = None, sd_temps = []\<rparr>,
      sy_ledger = Some [], sy_tail = WholeLine, sy_world = ()\<rparr>) = Some r"
  using Driver_Run_terminates [of
      "\<lparr>dr_marshal = put_counters, dr_unmarshal = get_counters, dr_pipeline = [ok_gate], dr_ReadRetries = 3,
        dr_goalDiscoverer = (\<lambda>s w. (Inr ''fix'', w))\<rparr>"
      "\<lparr>sy_disk = \<lparr>sd_primary = Some (put_counters (zero_state\<lparr>cs_MaxCycles := 2\<rparr>)), sd_bak = None, sd_temps = []\<rparr>,
        sy_ledger = Some [], sy_tail = WholeLine, sy_world = ()\<rparr>" "zero_state\<lparr>cs_MaxCycles := 2\<rparr>" "\<lambda>_. calm"]
  by (simp add: ok_gate_keeps put_get_counters zero_state_def numeral_3_eq_3)

text \<open>
  When goal discovery fails after a step that succeeded, \<^verbatim>\<open>Run\<close> returns without writing the
  advanced state: the ledger says that the cycle completed, the state file that it did not.
\<close>

lemma Driver_Step_disk: "sy_disk (snd (Driver_Step out now p s sy)) = sy_disk sy"
  by (simp add: Driver_Step_eq Let_def case_prod_beta)

lemma Driver_Step_disk': "Driver_Step out now p s sy = (r, sy') \<Longrightarrow> sy_disk sy' = sy_disk sy"
  using Driver_Step_disk [of out now p s sy] by simp

lemma discovery_error_loses_step:
  assumes "Driver_iteration d ev sy = (Some (Some (GoalDiscoveryError errs)), sy')"
  shows "sy_disk sy' = sy_disk sy"
proof -
  have no_after: "after_step d ev s1 sy1 \<noteq> (Some (Some (GoalDiscoveryError errs)), sy')" for s1 sy1
    by (auto simp: after_step_def write_state_def case_prod_beta split: option.splits if_splits)
  show ?thesis
    using assms no_after
    by (auto simp: Driver_iteration_def Let_def dest!: Driver_Step_disk'
        split: sum.splits if_splits prod.splits option.splits cycle_error.splits)
qed

end
