(* ===== verification/Orchestrator.thy ===== *)
theory Orchestrator
  imports Driver "HOL-Library.Signed_Division"
begin

section \<open>The multi-agent orchestrator (internal/cycle/orchestrator.go)\<close>

text \<open>
  One orchestration iteration (anti-spin guards, one agent turn, the handshake, one gated
  step, persist) and the loop over it behind the reviver guard. An adapter is a function
  from the turn request and the world; \<open>ump\<close> is \<^verbatim>\<open>json.Unmarshal\<close> at the payload type.
\<close>

type_synonym 'w adapter = "TurnRequest \<Rightarrow> 'w \<Rightarrow> (string + TurnResponse) \<times> 'w"

record 'w orchestrator =
  mo_driver :: "'w driver"
  mo_registry :: "string \<Rightarrow> 'w adapter option"
  mo_pipeline :: "(State \<Rightarrow> 'w Pipeline) option"
  mo_payload :: "string \<Rightarrow> TurnPayload option"

record orch_env = env +
  oe_ledger_read :: bool

record IterationOutcome =
  io_State :: State
  io_Advanced :: bool
  io_Terminal :: bool

definition outcome :: "State \<Rightarrow> IterationOutcome" where
  "outcome s = \<lparr>io_State = s, io_Advanced = False, io_Terminal = False\<rparr>"

subsection \<open>The turn request\<close>

record cycleStateSummary =
  su_ID :: string
  su_Phase :: CyclePhase
  su_CompletedCycles :: int
  su_MaxCycles :: int
  su_Branch :: string
  su_BaselineSHA :: string
  su_PendingFiles :: "string list"
  su_LocalGates :: "string list"
  su_NextCycleGoal :: string
  su_ViolationsFound :: "Violation list"
  su_Halted :: bool
  su_HaltReason :: HaltReason

definition summariseState :: "State \<Rightarrow> cycleStateSummary" where
  "summariseState s =
     \<lparr>su_ID = cs_ID s, su_Phase = cs_Phase s, su_CompletedCycles = cs_CompletedCycles s,
      su_MaxCycles = cs_MaxCycles s, su_Branch = cs_Branch s, su_BaselineSHA = cs_BaselineSHA s,
      su_PendingFiles = (if length (cs_PendingFiles s) > 20 then take 20 (cs_PendingFiles s) else cs_PendingFiles s),
      su_LocalGates = (if length (cs_LocalGates s) > 20 then take 20 (cs_LocalGates s) else cs_LocalGates s),
      su_NextCycleGoal = cs_NextCycleGoal s,
      su_ViolationsFound =
        (if length (cs_ViolationsFound s) > 10 then take 10 (cs_ViolationsFound s) else cs_ViolationsFound s),
      su_Halted = cs_Halted s, su_HaltReason = cs_HaltReason s\<rparr>"

definition ViolationCheck_json :: "ViolationCheck \<Rightarrow> json" where
  "ViolationCheck_json c = JObj (omit_str ''command'' (vc_Command c) @ omit_str ''expected'' (vc_Expected c))"

definition Violation_json :: "Violation \<Rightarrow> json" where
  "Violation_json v =
     JObj (omit_str ''file'' (v_File v) @ omit_int ''line'' (v_Line v) @
       [(''type'', JStr (v_Type v)), (''message'', JStr (v_Message v))] @
       omit_opt ''check'' (map_option ViolationCheck_json (v_Check v)))"

definition cycleStateSummary_json :: "cycleStateSummary \<Rightarrow> json" where
  "cycleStateSummary_json s =
     JObj ([(''id'', JStr (su_ID s)), (''phase'', JStr (su_Phase s)),
        (''completed_cycles'', JInt (su_CompletedCycles s)), (''max_cycles'', JInt (su_MaxCycles s)),
        (''branch'', JStr (su_Branch s))] @
       omit_str ''baseline_sha'' (su_BaselineSHA s) @
       omit_arr ''pending_files'' (map JStr (su_PendingFiles s)) @
       omit_arr ''local_gates'' (map JStr (su_LocalGates s)) @
       [(''next_cycle_goal'', JStr (su_NextCycleGoal s))] @
       omit_arr ''violations_found'' (map Violation_json (su_ViolationsFound s)) @
       [(''halted'', JBool (su_Halted s))] @ omit_str ''halt_reason'' (su_HaltReason s))"

definition buildRequest :: "State \<Rightarrow> string \<Rightarrow> OrchestratorConfig \<Rightarrow> TurnRequest" where
  "buildRequest s agentName cfg =
     \<lparr>tq_Session = cs_ID s, tq_Turn = cs_CompletedCycles s + 1, tq_Role = agentName,
      tq_RuntimeHint = agentName, tq_ModelHint = [],
      tq_Budget = \<lparr>b_TokensLeft = 0, b_TurnsLeft = cs_MaxCycles s - cs_CompletedCycles s, b_DeadlineMS = 0,
        b_DryRoundsThreshold = 0\<rparr>,
      tq_ScratchPath = [], tq_Scratch = [], tq_LastTurn = None,
      tq_Task = \<lparr>t_Title = ''autonomous-cycle'',
        t_Body = jprint (cycleStateSummary_json (summariseState s)), t_RepoRoot = oc_WorkingDir cfg\<rparr>,
      tq_WorkContract = Some (CycleState_WorkContract s (oc_WorkingDir cfg) (Some cfg)),
      tq_ExitWhen = []\<rparr>"

text \<open>Go's division truncates; a negative index panics, which is \<open>None\<close> here.\<close>

definition agentIndex :: "int \<Rightarrow> OrchestratorConfig \<Rightarrow> nat option" where
  "agentIndex completed cfg =
     (let resetEvery = (if oc_ResetEvery cfg \<le> 0 then 3 else oc_ResetEvery cfg);
          agentIdx = (completed sdiv resetEvery) smod int (length (oc_Agents cfg))
      in if agentIdx < 0 then None else Some (nat agentIdx))"

subsection \<open>The handshake\<close>

definition appendTurnLedger ::
  "orch_env \<Rightarrow> string \<Rightarrow> string \<Rightarrow> TurnResponse \<Rightarrow> 'w sys \<Rightarrow> bool \<times> 'w sys" where
  "appendTurnLedger ev cid agent resp sy =
     (if sy_ledger sy = None then (True, sy)
      else
        let turn = NewAgentTurnLedgerEntry (en_now ev) cid agent resp;
            sy1 = record_entry (en_append ev) turn sy
        in if en_append ev turn \<noteq> Appended then (False, sy1)
           else if tr_HandoffTo resp = [] then (True, sy1)
           else
             let handoff = NewHandoffLedgerEntry (en_now ev) cid agent resp
             in (en_append ev handoff = Appended, record_entry (en_append ev) handoff sy1))"

text \<open>The pointer argument is returned updated, with the error.\<close>

definition applyResponse ::
  "(string \<Rightarrow> TurnPayload option) \<Rightarrow> int \<Rightarrow> TurnResponse \<Rightarrow> State \<Rightarrow> cycle_error option \<times> State" where
  "applyResponse ump now resp s =
     (let (payload, ok) = ParseTurnPayload ump (tr_Summary resp) in
      if \<not> ok then (let r = Halt now HaltUnparseableTurn s in (re_err r, re_value r))
      else if tp_HaltRequested payload then (let r = Halt now HaltUserRequested s in (re_err r, re_value r))
      else
        let s1 = (if tp_NextGoal payload \<noteq> [] then s\<lparr>cs_NextCycleGoal := tp_NextGoal payload\<rparr> else s);
            s2 = (if tp_ViolationsFound payload \<noteq> []
                  then re_value (AppendViolations now (tp_ViolationsFound payload) s1) else s1)
        in (None, s2\<lparr>cs_UpdatedAt := now\<rparr>))"

definition halted_entry :: "int \<Rightarrow> string \<Rightarrow> HaltReason \<Rightarrow> HarnessLedgerEntry" where
  "halted_entry now cid reason = NewHarnessLedgerEntry now cid LedgerEventCycleHalted reason []"

definition handleHandshakeHalt ::
  "'w orchestrator \<Rightarrow> orch_env \<Rightarrow> State \<Rightarrow> cycle_error \<Rightarrow> HaltReason \<Rightarrow> 'w sys \<Rightarrow> drive_error \<times> 'w sys" where
  "handleHandshakeHalt orch ev s he reason sy =
     (let sy1 = record_entry (en_append ev) (halted_entry (en_now ev) (cs_ID s) reason) sy;
          (werr, sy2) = write_state (dr_marshal (mo_driver orch)) (en_write ev) s sy1
      in case werr of Some e \<Rightarrow> (WriteStateError e, sy2) | None \<Rightarrow> (StepError he, sy2))"

subsection \<open>One iteration\<close>

text \<open>The anti-spin breakers: the reason to halt, if there is one.\<close>

definition anti_spin :: "OrchestratorConfig \<Rightarrow> HarnessLedgerEntry list \<Rightarrow> HaltReason \<times> bool" where
  "anti_spin cfg entries =
     (let (reason, halt) = Stuck entries in
      if \<not> halt \<and> ExceedsLifetimeCeiling entries (oc_MaxLifetimeTurns cfg) then (HaltBudgetExceeded, True)
      else (reason, halt))"

definition halt_iteration ::
  "'w orchestrator \<Rightarrow> orch_env \<Rightarrow> State \<Rightarrow> HaltReason \<Rightarrow> 'w sys \<Rightarrow>
   IterationOutcome \<times> drive_error option \<times> 'w sys" where
  "halt_iteration orch ev s reason sy =
     (let halted = Halt (en_now ev) reason s;
          st = re_value halted;
          sy1 = record_entry (en_append ev) (halted_entry (en_now ev) (cs_ID st) reason) sy;
          (werr, sy2) = write_state (dr_marshal (mo_driver orch)) (en_write ev) st sy1
      in case werr of
           Some e \<Rightarrow> (outcome st, Some (WriteStateError e), sy2)
         | None \<Rightarrow> (outcome st, map_option StepError (re_err halted), sy2))"

text \<open>From the gated step on.\<close>

definition gated_step ::
  "'w orchestrator \<Rightarrow> orch_env \<Rightarrow> State \<Rightarrow> 'w sys \<Rightarrow> IterationOutcome \<times> drive_error option \<times> 'w sys" where
  "gated_step orch ev s sy =
     (let p = (case mo_pipeline orch of Some f \<Rightarrow> f s | None \<Rightarrow> dr_pipeline (mo_driver orch));
          (result, sy1) = Driver_Step (en_append ev) (en_now ev) p s sy
      in case re_err result of
           Some e \<Rightarrow>
             let sy2 = (case e of
                   HaltedError _ _ \<Rightarrow>
                     snd (write_state (dr_marshal (mo_driver orch)) (en_write ev) (re_value result) sy1)
                 | _ \<Rightarrow> sy1)
             in (outcome (re_value result), Some (StepError e), sy2)
         | None \<Rightarrow>
             let s' = re_value result;
                 (werr, sy2) = write_state (dr_marshal (mo_driver orch)) (en_write ev) s' sy1
             in case werr of
                  Some e \<Rightarrow> (outcome s', Some (WriteStateError e), sy2)
                | None \<Rightarrow>
                    (\<lparr>io_State = s', io_Advanced = True, io_Terminal = \<not> CanAdvance (en_now ev) s'\<rparr>, None, sy2))"

text \<open>From the agent's turn on.\<close>

definition agent_turn ::
  "'w orchestrator \<Rightarrow> orch_env \<Rightarrow> OrchestratorConfig \<Rightarrow> State \<Rightarrow> 'w sys \<Rightarrow>
   (IterationOutcome \<times> drive_error option \<times> 'w sys) option" where
  "agent_turn orch ev cfg s sy =
     (case agentIndex (cs_CompletedCycles s) cfg of
        None \<Rightarrow> None
      | Some i \<Rightarrow>
          let agentName = oc_Agents cfg ! i in
          (case mo_registry orch agentName of
             None \<Rightarrow> Some (outcome s, Some (AdapterMissing agentName), sy)
           | Some adapt \<Rightarrow>
               (case adapt (buildRequest s agentName cfg) (sy_world sy) of
                  (Inl err, w) \<Rightarrow> Some (outcome s, Some (AdapterError agentName), sy\<lparr>sy_world := w\<rparr>)
                | (Inr resp, w) \<Rightarrow>
                    (case appendTurnLedger ev (cs_ID s) agentName resp (sy\<lparr>sy_world := w\<rparr>) of
                       (False, sy1) \<Rightarrow> Some (outcome s, Some LedgerAppendError, sy1)
                     | (True, sy1) \<Rightarrow>
                         (case applyResponse (mo_payload orch) (en_now ev) resp s of
                            (Some (HaltedError reason reports), s1) \<Rightarrow>
                              let (err, sy2) =
                                handleHandshakeHalt orch ev s1 (HaltedError reason reports) reason sy1
                              in Some (outcome s1, Some err, sy2)
                          | (Some e, s1) \<Rightarrow> Some (outcome s1, Some (StepError e), sy1)
                          | (None, s1) \<Rightarrow> Some (gated_step orch ev s1 sy1))))))"

text \<open>\<open>None\<close> is the index panic.\<close>

definition RunOnce ::
  "'w orchestrator \<Rightarrow> orch_env \<Rightarrow> OrchestratorConfig \<Rightarrow> State \<Rightarrow> 'w sys \<Rightarrow>
   (IterationOutcome \<times> drive_error option \<times> 'w sys) option" where
  "RunOnce orch ev cfg s sy =
     (if oc_Agents cfg = [] then Some (outcome s, Some NoAgents, sy)
      else if \<not> CanAdvance (en_now ev) s then Some (\<lparr>io_State = s, io_Advanced = False, io_Terminal = True\<rparr>, None, sy)
      else case sy_ledger sy of
        None \<Rightarrow> agent_turn orch ev cfg s sy
      | Some entries \<Rightarrow>
          if \<not> ledger_readable (oe_ledger_read ev) sy then Some (outcome s, Some LedgerReadError, sy)
          else (case anti_spin cfg entries of
                  (reason, True) \<Rightarrow> Some (halt_iteration orch ev s reason sy)
                | (_, False) \<Rightarrow> agent_turn orch ev cfg s sy))"

subsection \<open>The loop\<close>

text \<open>As for the driver: \<open>Some r\<close> when the loop returns \<open>r\<close>, \<open>None\<close> when it goes on.\<close>

datatype run_end = RunReturned "drive_error option" | RunPanicked

definition orch_iteration ::
  "'w orchestrator \<Rightarrow> orch_env \<Rightarrow> OrchestratorConfig \<Rightarrow> 'w sys \<Rightarrow> run_end option \<times> 'w sys" where
  "orch_iteration orch ev cfg sy =
     (case StateFileSync_Read (dr_unmarshal (mo_driver orch)) (en_read ev 0) (sy_disk sy) of
        Inl e \<Rightarrow> (Some (RunReturned (Some (ReadStateError e))), sy)
      | Inr s \<Rightarrow>
          (case RunOnce orch ev cfg s sy of
             None \<Rightarrow> (Some RunPanicked, sy)
           | Some (out, Some err, sy') \<Rightarrow> (Some (RunReturned (Some err)), sy')
           | Some (out, None, sy') \<Rightarrow>
               if io_Terminal out then (Some (RunReturned None), sy')
               else if \<not> en_sleep_ok ev then (Some (RunReturned (Some SleepError)), sy')
               else (None, sy')))"

fun orch_loop ::
  "nat \<Rightarrow> 'w orchestrator \<Rightarrow> (nat \<Rightarrow> orch_env) \<Rightarrow> OrchestratorConfig \<Rightarrow> 'w sys \<Rightarrow> run_end option \<times> 'w sys" where
  "orch_loop 0 orch evs cfg sy = (None, sy)"
| "orch_loop (Suc n) orch evs cfg sy =
     (case orch_iteration orch (evs 0) cfg sy of
        (Some r, sy') \<Rightarrow> (Some r, sy')
      | (None, sy') \<Rightarrow> orch_loop n orch (\<lambda>i. evs (Suc i)) cfg sy')"

definition Orchestrator_Run ::
  "nat \<Rightarrow> 'w orchestrator \<Rightarrow> (nat \<Rightarrow> orch_env) \<Rightarrow> OrchestratorConfig \<Rightarrow> 'w sys \<Rightarrow> run_end option \<times> 'w sys" where
  "Orchestrator_Run n orch evs cfg sy =
     (if oc_Agents cfg = [] then (Some (RunReturned (Some NoAgents)), sy)
      else case sy_ledger sy of
        None \<Rightarrow> orch_loop n orch evs cfg sy
      | Some entries \<Rightarrow>
          if \<not> ledger_readable (oe_ledger_read (evs 0)) sy then (Some (RunReturned (Some LedgerReadError)), sy)
          else (case LedgerSealsResume entries of
                  (reason, True) \<Rightarrow> (Some (RunReturned (Some (StepError (HaltedError reason [])))), sy)
                | (_, False) \<Rightarrow> orch_loop n orch evs cfg sy))"

subsection \<open>The ledger of an iteration\<close>

lemma write_state_other [simp]:
  "sy_ledger (snd (write_state m flt s sy)) = sy_ledger sy" "sy_world (snd (write_state m flt s sy)) = sy_world sy"
  "sy_tail (snd (write_state m flt s sy)) = sy_tail sy"
  by (simp_all add: write_state_def case_prod_beta)

lemma write_state_other':
  "write_state m flt s sy = (e, sy') \<Longrightarrow> sy_ledger sy' = sy_ledger sy \<and> sy_world sy' = sy_world sy \<and> sy_tail sy' = sy_tail sy"
  using write_state_other [of m flt s sy] by simp

text \<open>How the ledger may grow: by appends, \<open>k\<close> of which are agent turns.\<close>

definition adds :: "nat \<Rightarrow> 'w sys \<Rightarrow> 'w sys \<Rightarrow> bool" where
  "adds k sy sy' \<longleftrightarrow>
     (\<exists>new. sy_ledger sy' = map_option (\<lambda>es. foldl log_append es new) (sy_ledger sy) \<and> length (turns_of new) = k)"

lemma adds_refl: "sy_ledger sy' = sy_ledger sy \<Longrightarrow> adds 0 sy sy'"
  unfolding adds_def by (intro exI [of _ "[]"]) (simp add: turns_of_def option.map_ident)

lemma adds_trans:
  assumes "adds j sy sy1" "adds k sy1 sy2"
  shows "adds (j + k) sy sy2"
proof -
  obtain new1 new2 where n: "sy_ledger sy1 = map_option (\<lambda>es. foldl log_append es new1) (sy_ledger sy)"
    "length (turns_of new1) = j" "sy_ledger sy2 = map_option (\<lambda>es. foldl log_append es new2) (sy_ledger sy1)"
    "length (turns_of new2) = k" using assms unfolding adds_def by blast
  show ?thesis
    unfolding adds_def using n
    by (intro exI [of _ "new1 @ new2"]) (simp add: turns_of_def option.map_comp comp_def)
qed

lemma adds_trans0: "adds k sy sy1 \<Longrightarrow> adds 0 sy1 sy2 \<Longrightarrow> adds k sy sy2"
  using adds_trans [of k sy sy1 0 sy2] by simp

text \<open>One record adds its entry or nothing.\<close>

lemma record_entry_grows:
  obtains new where "set new \<subseteq> {e}" "length new \<le> 1"
    "sy_ledger (record_entry out e sy) = map_option (\<lambda>es. foldl log_append es new) (sy_ledger sy)"
proof (cases "sy_ledger sy")
  case None
  then show thesis using that [of "[]"] by (simp add: record_entry_None)
next
  case (Some es)
  with log_write_grows [of e "out e" "(es, sy_tail sy)"] record_entry_Some [OF Some, of out e] that
  show thesis by auto
qed

lemma adds_record: "le_Type e \<noteq> LedgerEventAgentTurn \<Longrightarrow> adds 0 sy (record_entry out e sy)"
proof (rule record_entry_grows [of e out sy])
  fix new assume "le_Type e \<noteq> LedgerEventAgentTurn" "set new \<subseteq> {e}"
    "sy_ledger (record_entry out e sy) = map_option (\<lambda>es. foldl log_append es new) (sy_ledger sy)"
  moreover from this have "turns_of new = []" by (auto simp: turns_of_def filter_empty_conv)
  ultimately show ?thesis unfolding adds_def by auto
qed

lemma adds_record_turn: "\<exists>k \<le> 1. adds k sy (record_entry out e sy)"
proof (rule record_entry_grows [of e out sy])
  fix new assume n: "length new \<le> 1"
    "sy_ledger (record_entry out e sy) = map_option (\<lambda>es. foldl log_append es new) (sy_ledger sy)"
  have "length (turns_of new) \<le> length new" by (simp add: turns_of_def)
  then have "adds (length (turns_of new)) sy (record_entry out e sy)" "length (turns_of new) \<le> 1"
    using n unfolding adds_def by (blast, linarith)
  then show ?thesis by blast
qed

lemma adds_record_all:
  "list_all (\<lambda>e. le_Type e \<noteq> LedgerEventAgentTurn) es \<Longrightarrow> adds 0 sy (record_all out es sy)"
proof (induction es arbitrary: sy)
  case (Cons e es)
  from Cons.prems have "adds 0 sy (record_entry out e sy)" by (simp add: adds_record)
  moreover have "adds 0 (record_entry out e sy) (record_all out es (record_entry out e sy))"
    using Cons by simp
  ultimately show ?case using adds_trans0 by simp
qed (simp add: adds_refl)

lemma adds_turns:
  assumes "adds k sy sy'" "sy_ledger sy = Some es"
  shows "\<exists>es'. sy_ledger sy' = Some es' \<and> LifetimeTurns es' = LifetimeTurns es + int k \<and>
    (chain_intact es \<longrightarrow> chain_intact es')"
proof -
  obtain new where new: "sy_ledger sy' = Some (foldl log_append es new)" "length (turns_of new) = k"
    using assms by (auto simp: adds_def)
  have len: "length (turns_of es) = count_list (map le_Type es) LedgerEventAgentTurn" for es
    by (induction es) (simp_all add: turns_of_def)
  have "length (turns_of (foldl log_append es new)) = length (turns_of es) + k"
    unfolding len log.appends_types using new(2) len by simp
  with new show ?thesis by (simp add: LifetimeTurns_count log.appends_intact)
qed

lemma halted_entry_type [simp]:
  "le_Type (halted_entry now cid reason) = LedgerEventCycleHalted"
  "le_Summary (halted_entry now cid reason) = reason"
  by (simp_all add: halted_entry_def NewHarnessLedgerEntry_def)

lemma turn_entry_types [simp]:
  "le_Type (NewAgentTurnLedgerEntry now cid a resp) = LedgerEventAgentTurn"
  "le_Type (NewHandoffLedgerEntry now cid a resp) = LedgerEventHandoffCreated"
  by (simp_all add: NewAgentTurnLedgerEntry_def NewHandoffLedgerEntry_def NewHarnessLedgerEntry_def)

lemma Driver_Step_adds:
  assumes "Driver_Step out now p s sy = (r, sy')"
  shows "adds 0 sy sy'"
proof -
  obtain result w where ex: "Execute now p s (sy_world sy) = (result, w)"
    by (cases "Execute now p s (sy_world sy)") auto
  let ?sy1 = "(record_entry out (pin_entry now s) sy)\<lparr>sy_world := w\<rparr>"
  have pin: "adds 0 sy ?sy1"
    using adds_record [of "pin_entry now s" sy out]
    by (auto simp: adds_def pin_entry_def NewGatesPinnedEntry_def NewHarnessLedgerEntry_def Let_def)
  have "adds 0 sy (record_all out (done_entries now cid rs) ?sy1)" for cid rs
    by (rule adds_trans0 [OF pin adds_record_all])
      (auto simp: done_entries_def NewGateLedgerEntry_def NewHarnessLedgerEntry_def list_all_iff Let_def)
  with pin adds_refl [of sy sy] show ?thesis
    using assms by (auto simp: Driver_Step_eq ex Let_def split: if_splits)
qed

lemma appendTurnLedger_adds:
  assumes "appendTurnLedger ev cid a resp sy = (ok, sy')"
  shows "\<exists>k \<le> 1. adds k sy sy'"
proof -
  let ?t = "NewAgentTurnLedgerEntry (en_now ev) cid a resp" and ?h = "NewHandoffLedgerEntry (en_now ev) cid a resp"
  let ?sy1 = "record_entry (en_append ev) ?t sy"
  have "sy' \<in> {sy, ?sy1, record_entry (en_append ev) ?h ?sy1}"
    using assms by (auto simp: appendTurnLedger_def Let_def split: if_splits)
  moreover obtain k where k: "k \<le> 1" "adds k sy ?sy1" using adds_record_turn by blast
  moreover have "adds 0 ?sy1 (record_entry (en_append ev) ?h ?sy1)" by (rule adds_record) simp
  ultimately show ?thesis using adds_trans0 [OF k(2)] adds_refl [of sy sy] by auto
qed

lemma write_state_adds: "write_state m flt s sy = (e, sy') \<Longrightarrow> adds 0 sy sy'"
  using adds_refl write_state_other' by metis

text \<open>What an iteration adds to the ledger, part by part.\<close>

lemma record_write_adds:
  assumes "write_state m flt s (record_entry out e sy) = (err, sy')" "le_Type e \<noteq> LedgerEventAgentTurn"
  shows "adds 0 sy sy' \<and> sy_world sy' = sy_world sy"
  using adds_trans0 [OF adds_record [OF assms(2)] write_state_adds [OF assms(1)]] write_state_other' [OF assms(1)]
  by simp

lemma halt_iteration_adds:
  assumes "halt_iteration orch ev s reason sy = (out, err, sy')"
  shows "adds 0 sy sy' \<and> sy_world sy' = sy_world sy"
proof -
  let ?st = "re_value (Halt (en_now ev) reason s)"
  obtain werr sy2 where w: "write_state (dr_marshal (mo_driver orch)) (en_write ev) ?st
      (record_entry (en_append ev) (halted_entry (en_now ev) (cs_ID ?st) reason) sy) = (werr, sy2)"
    by fastforce
  then have "sy' = sy2" using assms unfolding halt_iteration_def Let_def w prod.case by (auto split: option.splits)
  with record_write_adds [OF w] show ?thesis by simp
qed

lemma gated_step_adds:
  assumes "gated_step orch ev s sy = (out, err, sy')"
  shows "adds 0 sy sy'"
proof -
  define p where "p = (case mo_pipeline orch of Some f \<Rightarrow> f s | None \<Rightarrow> dr_pipeline (mo_driver orch))"
  obtain r sy1 where step: "Driver_Step (en_append ev) (en_now ev) p s sy = (r, sy1)"
    by (cases "Driver_Step (en_append ev) (en_now ev) p s sy") auto
  have "sy_ledger sy' = sy_ledger sy1"
    using assms unfolding gated_step_def Let_def p_def [symmetric] step prod.case
    by (auto dest!: write_state_other' split: prod.splits option.splits cycle_error.splits)
  with Driver_Step_adds [OF step] show ?thesis by (simp add: adds_def)
qed

lemma handleHandshakeHalt_adds:
  assumes "handleHandshakeHalt orch ev s he reason sy = (err, sy')"
  shows "adds 0 sy sy'"
proof -
  obtain werr sy2 where w: "write_state (dr_marshal (mo_driver orch)) (en_write ev) s
      (record_entry (en_append ev) (halted_entry (en_now ev) (cs_ID s) reason) sy) = (werr, sy2)"
    by fastforce
  then have "sy' = sy2" using assms unfolding handleHandshakeHalt_def Let_def w prod.case by (auto split: option.splits)
  with record_write_adds [OF w] show ?thesis by simp
qed

lemma agent_turn_adds:
  assumes "agent_turn orch ev cfg s sy = Some (out, err, sy')"
  shows "\<exists>k \<le> 1. adds k sy sy'"
proof -
  have here: "\<exists>k \<le> 1. adds k sy sy2" if "sy_ledger sy2 = sy_ledger sy" for sy2 using adds_refl [OF that] by blast
  have turn: "\<exists>k \<le> 1. adds k sy sy2"
    if app: "appendTurnLedger ev cid a resp (sy\<lparr>sy_world := w\<rparr>) = (ok, sy1)" and rest: "adds 0 sy1 sy2"
    for cid a resp w ok sy1 sy2
  proof -
    obtain k where k: "k \<le> 1" "adds k (sy\<lparr>sy_world := w\<rparr>) sy1" using appendTurnLedger_adds [OF app] by blast
    from adds_trans0 [OF k(2) rest] have "adds k sy sy2" by (simp add: adds_def)
    with k(1) show ?thesis by blast
  qed
  show ?thesis
    using assms
    by (auto simp: agent_turn_def Let_def adds_refl
        split: option.splits prod.splits sum.splits bool.splits cycle_error.splits
        dest!: gated_step_adds handleHandshakeHalt_adds intro: here turn turn [OF _ adds_refl]
        simp del: One_nat_def)
qed

lemma RunOnce_adds:
  assumes "RunOnce orch ev cfg s sy = Some (out, err, sy')"
  shows "\<exists>k \<le> 1. adds k sy sy'"
  using assms agent_turn_adds [of orch ev cfg s sy out err sy'] halt_iteration_adds [of orch ev s _ sy out err sy']
    adds_refl [of sy sy]
  by (auto simp: RunOnce_def split: if_splits option.splits prod.splits bool.splits)

subsection \<open>The ceiling over a run\<close>

text \<open>What a run of iterations keeps of the ledger under a ceiling \<open>c\<close>.\<close>

definition within :: "int \<Rightarrow> 'w sys \<Rightarrow> 'w sys \<Rightarrow> bool" where
  "within c sy sy' \<longleftrightarrow> (\<forall>es. sy_ledger sy = Some es \<longrightarrow>
     (\<exists>es'. sy_ledger sy' = Some es' \<and> LifetimeTurns es \<le> LifetimeTurns es' \<and>
        LifetimeTurns es' \<le> max (LifetimeTurns es) c \<and> (chain_intact es \<longrightarrow> chain_intact es') \<and>
        (c \<le> LifetimeTurns es \<longrightarrow> sy_world sy' = sy_world sy)))"

lemma within_refl [simp]: "within c sy sy"
  by (simp add: within_def)

lemma within_trans: "within c sy sy1 \<Longrightarrow> within c sy1 sy2 \<Longrightarrow> within c sy sy2"
  unfolding within_def by fastforce

lemma RunOnce_within:
  assumes "RunOnce orch ev cfg s sy = Some (out, err, sy')" "0 < oc_MaxLifetimeTurns cfg"
  shows "within (oc_MaxLifetimeTurns cfg) sy sy'"
  unfolding within_def
proof (intro allI impI)
  fix es assume es: "sy_ledger sy = Some es"
  let ?c = "oc_MaxLifetimeTurns cfg"
  obtain k where k: "k \<le> 1" "adds k sy sy'" using RunOnce_adds [OF assms(1)] by blast
  obtain es' where es': "sy_ledger sy' = Some es'" "LifetimeTurns es' = LifetimeTurns es + int k"
    "chain_intact es \<longrightarrow> chain_intact es'" using adds_turns [OF k(2) es] by blast
  have full: "adds 0 sy sy' \<and> sy_world sy' = sy_world sy" if "?c \<le> LifetimeTurns es"
  proof -
    have "snd (anti_spin cfg es)" using that assms(2)
      by (auto simp: anti_spin_def ExceedsLifetimeCeiling_def Let_def split: prod.splits)
    then obtain reason where "anti_spin cfg es = (reason, True)" by (cases "anti_spin cfg es") auto
    then show ?thesis using assms(1) es adds_refl [of sy sy] halt_iteration_adds [of orch ev s reason sy out err sy']
      by (auto simp: RunOnce_def split: if_splits)
  qed
  show "\<exists>es'. sy_ledger sy' = Some es' \<and> LifetimeTurns es \<le> LifetimeTurns es' \<and>
        LifetimeTurns es' \<le> max (LifetimeTurns es) ?c \<and> (chain_intact es \<longrightarrow> chain_intact es') \<and>
        (?c \<le> LifetimeTurns es \<longrightarrow> sy_world sy' = sy_world sy)"
  proof (cases "?c \<le> LifetimeTurns es")
    case True
    from adds_turns [OF conjunct1 [OF full [OF True]] es] es' full [OF True] show ?thesis by auto
  next
    case False
    with es' k(1) show ?thesis by auto
  qed
qed

lemma orch_loop_within:
  "orch_loop n orch evs cfg sy = (r, sy') \<Longrightarrow> 0 < oc_MaxLifetimeTurns cfg \<Longrightarrow>
   within (oc_MaxLifetimeTurns cfg) sy sy'"
proof (induction n arbitrary: evs sy)
  case (Suc n)
  obtain o1 sy1 where it: "orch_iteration orch (evs 0) cfg sy = (o1, sy1)"
    by (cases "orch_iteration orch (evs 0) cfg sy") auto
  have "within (oc_MaxLifetimeTurns cfg) sy sy1"
    using it RunOnce_within [OF _ Suc.prems(2)]
    by (fastforce simp: orch_iteration_def split: sum.splits option.splits prod.splits if_splits)
  then show ?case
    using Suc.prems it Suc.IH [of "\<lambda>i. evs (Suc i)" sy1] within_trans by (auto split: option.splits)
qed simp

subsection \<open>Sealed halts\<close>

lemma sealed_refuses:
  assumes "oc_Agents cfg \<noteq> []" "sy_ledger sy = Some es" "ledger_readable (oe_ledger_read (evs 0)) sy"
    "LedgerSealsResume es = (reason, True)"
  shows "Orchestrator_Run n orch evs cfg sy = (Some (RunReturned (Some (StepError (HaltedError reason [])))), sy)"
  using assms by (simp add: Orchestrator_Run_def)

lemma halted_entry_seals:
  "ParseHaltReason reason = Inr r \<Longrightarrow> LedgerSealsResume (log_append es (halted_entry now cid reason)) = (reason, True)"
  using LedgerSealsResume_last_halt [of "link_entry (tail_hash es) (halted_entry now cid reason)" "[]" es]
  by (simp add: log_append_def log.link_entry_fields parseHaltReasonOrStuck_def)

text \<open>The ledger is sealed with the reason, or cannot be read any more.\<close>

definition sealed_by :: "HaltReason \<Rightarrow> 'w sys \<Rightarrow> bool" where
  "sealed_by reason sy \<longleftrightarrow> (\<exists>es. sy_ledger sy = Some es \<and>
     (sy_tail sy = TornLine \<or> LedgerSealsResume es = (reason, True)))"

lemma record_halt_seals:
  assumes "write_state m flt s (record_entry out (halted_entry now cid reason) sy) = (err, sy')"
    "sy_ledger sy = Some es" "out (halted_entry now cid reason) = Appended" "ParseHaltReason reason = Inr r"
  shows "sealed_by reason sy'"
  using write_state_other' [OF assms(1)] record_entry_Some [OF assms(2), of out "halted_entry now cid reason"]
    assms(3) halted_entry_seals [OF assms(4)]
  by (auto simp: sealed_by_def log_write_appended)

text \<open>A gate failure carries at least one report; the guards and the handshake carry none.\<close>

lemma Step_halt_reports:
  assumes "Driver_Step out now p s sy = (r, sy')" "re_err r = Some (HaltedError reason reports)"
  shows "reports \<noteq> []"
proof -
  obtain result w where ex: "Execute now p s (sy_world sy) = (result, w)"
    by (cases "Execute now p s (sy_world sy)") auto
  have err: "re_err result = Some (HaltedError reason reports)"
    using assms ex by (auto simp: Driver_Step_eq Let_def split: if_splits)
  show ?thesis
  proof (rule first_blocking [of p s "sy_world sy"])
    fix rs s' w'
    assume "run_gates p s (sy_world sy) = (rs, s', w')" "list_all (\<lambda>r. \<not> blocks r) rs"
    from Execute_pass [OF this, of now] ex err show ?thesis by simp
  next
    fix gs g hs rs s1 w1 report reason s2 w2
    assume "p = gs @ g # hs" "run_gates gs s (sy_world sy) = (rs, s1, w1)" "list_all (\<lambda>r. \<not> blocks r) rs"
      "ga_Run g s1 w1 = (GateFailure report reason, s2, w2)"
    with Execute_fail [OF this(2-4), of now hs] ex err show ?thesis by (auto simp: Let_def)
  qed
qed

lemma known_reasons:
  "ParseHaltReason HaltStuck = Inr HaltStuck" "ParseHaltReason HaltBudgetExceeded = Inr HaltBudgetExceeded"
  "ParseHaltReason HaltUnparseableTurn = Inr HaltUnparseableTurn"
  "ParseHaltReason HaltUserRequested = Inr HaltUserRequested"
  by code_simp+

lemma Stuck_cases: "Stuck es = (HaltStuck, True) \<or> Stuck es = ([], False)"
  by (simp add: Stuck_def Let_def)

lemma anti_spin_reason: "anti_spin cfg es = (reason, True) \<Longrightarrow> ParseHaltReason reason = Inr reason"
proof -
  assume h: "anti_spin cfg es = (reason, True)"
  from Stuck_cases [of es] show ?thesis
  proof
    assume "Stuck es = (HaltStuck, True)"
    then have "anti_spin cfg es = (HaltStuck, True)" by (simp add: anti_spin_def)
    with h have "reason = HaltStuck" by (simp only: prod.inject)
    then show ?thesis by (simp only: known_reasons)
  next
    assume "Stuck es = ([], False)"
    then have "anti_spin cfg es = (if ExceedsLifetimeCeiling es (oc_MaxLifetimeTurns cfg)
        then (HaltBudgetExceeded, True) else ([], False))" by (simp add: anti_spin_def)
    with h have "reason = HaltBudgetExceeded" by (cases "ExceedsLifetimeCeiling es (oc_MaxLifetimeTurns cfg)") simp_all
    then show ?thesis by (simp only: known_reasons)
  qed
qed

text \<open>The halts that the guards and the handshake make end in a sealed ledger.\<close>

lemma halt_iteration_seals:
  assumes "halt_iteration orch ev s reason sy = (out, Some (StepError (HaltedError r rs)), sy')"
    "ParseHaltReason reason = Inr reason" "sy_ledger sy = Some es" "en_append ev = (\<lambda>_. Appended)"
  shows "r = reason \<and> sealed_by reason sy'"
proof -
  let ?st = "re_value (Halt (en_now ev) reason s)"
  obtain werr sy2 where w: "write_state (dr_marshal (mo_driver orch)) (en_write ev) ?st
      (record_entry (en_append ev) (halted_entry (en_now ev) (cs_ID ?st) reason) sy) = (werr, sy2)"
    by fastforce
  have "sealed_by reason sy2"
    by (rule record_halt_seals [OF w assms(3) _ assms(2)]) (simp add: assms(4))
  moreover have "sy' = sy2 \<and> r = reason"
    using assms(1) unfolding halt_iteration_def Let_def w prod.case by (auto simp: Halt_def split: option.splits)
  ultimately show ?thesis by simp
qed

lemma handshake_seals:
  assumes "handleHandshakeHalt orch ev s he reason sy = (StepError (HaltedError r rs), sy')"
    "ParseHaltReason reason = Inr reason" "sy_ledger sy = Some es" "en_append ev = (\<lambda>_. Appended)"
  shows "he = HaltedError r rs \<and> sealed_by reason sy'"
proof -
  obtain werr sy2 where w: "write_state (dr_marshal (mo_driver orch)) (en_write ev) s
      (record_entry (en_append ev) (halted_entry (en_now ev) (cs_ID s) reason) sy) = (werr, sy2)"
    by fastforce
  have "sealed_by reason sy2"
    by (rule record_halt_seals [OF w assms(3) _ assms(2)]) (simp add: assms(4))
  moreover have "sy' = sy2 \<and> he = HaltedError r rs"
    using assms(1) unfolding handleHandshakeHalt_def Let_def w prod.case by (auto split: option.splits)
  ultimately show ?thesis by simp
qed

lemma applyResponse_halts:
  assumes "applyResponse ump now resp s = (Some e, s')"
  shows "\<exists>reason. e = HaltedError reason [] \<and> ParseHaltReason reason = Inr reason \<and> cs_Halted s' \<and>
    cs_HaltReason s' = reason"
  using assms known_reasons
  by (auto simp: applyResponse_def Let_def Halt_def split: prod.splits if_splits)

lemma gated_step_halt_reports:
  assumes "gated_step orch ev s sy = (out, Some (StepError (HaltedError r rs)), sy')"
  shows "rs \<noteq> []"
proof -
  define p where "p = (case mo_pipeline orch of Some f \<Rightarrow> f s | None \<Rightarrow> dr_pipeline (mo_driver orch))"
  obtain res sy1 where step: "Driver_Step (en_append ev) (en_now ev) p s sy = (res, sy1)"
    by (cases "Driver_Step (en_append ev) (en_now ev) p s sy") auto
  have "re_err res = Some (HaltedError r rs)"
    using assms unfolding gated_step_def Let_def p_def [symmetric] step prod.case
    by (auto split: prod.splits option.splits)
  from Step_halt_reports [OF step this] show ?thesis .
qed

lemma RunOnce_seals:
  assumes "RunOnce orch ev cfg s sy = Some (out, Some (StepError (HaltedError reason [])), sy')"
    "sy_ledger sy = Some es" "en_append ev = (\<lambda>_. Appended)"
  shows "sealed_by reason sy'"
proof -
  consider (spin) r where "anti_spin cfg es = (r, True)"
      "halt_iteration orch ev s r sy = (out, Some (StepError (HaltedError reason [])), sy')"
    | (turn) "agent_turn orch ev cfg s sy = Some (out, Some (StepError (HaltedError reason [])), sy')"
    using assms(1,2) by (auto simp: RunOnce_def split: if_splits prod.splits bool.splits)
  then show ?thesis
  proof cases
    case spin
    from halt_iteration_seals [OF spin(2) anti_spin_reason [OF spin(1)] assms(2,3)] show ?thesis by simp
  next
    case turn
    have led: "\<exists>es1. sy_ledger sy1 = Some es1"
      if "appendTurnLedger ev cid a resp (sy\<lparr>sy_world := w\<rparr>) = (ok, sy1)" for cid a resp w ok sy1
      using appendTurnLedger_adds [OF that] assms(2) by (auto simp: adds_def)
    show ?thesis
      using turn
      by (auto simp: agent_turn_def Let_def
          split: option.splits prod.splits sum.splits bool.splits cycle_error.splits
          dest: gated_step_halt_reports dest!: led applyResponse_halts handshake_seals [OF _ _ _ assms(3)])
  qed
qed

subsection \<open>Running to an end\<close>

definition pipeline_of :: "'w orchestrator \<Rightarrow> State \<Rightarrow> 'w Pipeline" where
  "pipeline_of orch s = (case mo_pipeline orch of Some f \<Rightarrow> f s | None \<Rightarrow> dr_pipeline (mo_driver orch))"

lemma applyResponse_counters:
  "applyResponse ump now resp s = (None, s') \<Longrightarrow> counters s' = counters s"
  by (auto simp: applyResponse_def Let_def Halt_def counters_def AppendViolations_def split: prod.splits if_splits)

lemma gated_step_advances:
  assumes "gated_step orch ev s sy = (out, None, sy')" "keeps_counters (pipeline_of orch s)"
  shows "sd_primary (sy_disk sy') = Some (dr_marshal (mo_driver orch) (io_State out)) \<and>
    counters (io_State out) = (cs_CompletedCycles s + 1, cs_MaxCycles s) \<and>
    io_Terminal out = (\<not> CanAdvance (en_now ev) (io_State out))"
proof -
  obtain r sy1 where step: "Driver_Step (en_append ev) (en_now ev) (pipeline_of orch s) s sy = (r, sy1)"
    by (cases "Driver_Step (en_append ev) (en_now ev) (pipeline_of orch s) s sy") auto
  obtain werr sy2 where w: "write_state (dr_marshal (mo_driver orch)) (en_write ev) (re_value r) sy1 = (werr, sy2)"
    by fastforce
  have ok: "re_err r = None" "werr = None" "sy' = sy2"
    "out = \<lparr>io_State = re_value r, io_Advanced = True, io_Terminal = \<not> CanAdvance (en_now ev) (re_value r)\<rparr>"
    using assms(1) unfolding gated_step_def Let_def pipeline_of_def [symmetric] step prod.case w
    by (auto split: option.splits)
  have "fst (StateFileSync_Write (dr_marshal (mo_driver orch)) (en_write ev) (re_value r) (sy_disk sy1)) = None"
    using w ok(2) by (auto simp: write_state_def case_prod_beta)
  from Write_ok [OF this] w have "sd_primary (sy_disk sy2) = Some (dr_marshal (mo_driver orch) (re_value r))"
    by (auto simp: write_state_def case_prod_beta split: option.splits)
  with Step_counters [OF assms(2) step ok(1)] ok show ?thesis by simp
qed

lemma RunOnce_advances:
  assumes "RunOnce orch ev cfg s sy = Some (out, None, sy')" "\<not> io_Terminal out" "\<And>s. keeps_counters (pipeline_of orch s)"
  shows "sd_primary (sy_disk sy') = Some (dr_marshal (mo_driver orch) (io_State out)) \<and>
    counters (io_State out) = (cs_CompletedCycles s + 1, cs_MaxCycles s) \<and> CanAdvance (en_now ev) (io_State out)"
proof -
  have no_halt: "\<exists>e. err = Some e"
    if "halt_iteration orch ev s reason sy = (out, err, sy')" for reason err
    using that by (auto simp: halt_iteration_def Let_def Halt_def split: prod.splits option.splits)
  have "agent_turn orch ev cfg s sy = Some (out, None, sy')"
    using assms(1,2) no_halt by (fastforce simp: RunOnce_def split: if_splits option.splits prod.splits bool.splits)
  then obtain s1 sy1 where g: "gated_step orch ev s1 sy1 = (out, None, sy')" "counters s1 = counters s"
    by (auto simp: agent_turn_def Let_def dest!: applyResponse_counters
        split: option.splits prod.splits sum.splits bool.splits cycle_error.splits)
  from gated_step_advances [OF g(1) assms(3)] g(2) assms(2) show ?thesis by (simp add: counters_def)
qed

lemma orch_loop_fuel:
  assumes "\<And>s. keeps_counters (pipeline_of orch s)"
    "stores_counters (dr_marshal (mo_driver orch)) (dr_unmarshal (mo_driver orch))"
    "sd_primary (sy_disk sy) = Some (dr_marshal (mo_driver orch) s0)" "0 < cs_MaxCycles s0"
    "nat (cs_MaxCycles s0 - cs_CompletedCycles s0) < n"
  shows "fst (orch_loop n orch evs cfg sy) \<noteq> None"
  using assms(3-)
proof (induction n arbitrary: evs sy s0)
  case (Suc n)
  obtain res sy' where it: "orch_iteration orch (evs 0) cfg sy = (res, sy')"
    by (cases "orch_iteration orch (evs 0) cfg sy") auto
  show ?case
  proof (cases res)
    case None
    obtain s out where r: "StateFileSync_Read (dr_unmarshal (mo_driver orch)) (en_read (evs 0) 0) (sy_disk sy) = Inr s"
      "RunOnce orch (evs 0) cfg s sy = Some (out, None, sy')" "\<not> io_Terminal out"
      using it None by (auto simp: orch_iteration_def split: sum.splits option.splits prod.splits if_splits)
    have s: "counters s = counters s0"
      using read_loop_primary [OF assms(2) Suc.prems(1), of "[en_read (evs 0) 0]"] r(1) by simp
    note adv = RunOnce_advances [OF r(2,3) assms(1)]
    have "cs_CompletedCycles s0 + 1 < cs_MaxCycles s0"
      using adv s Suc.prems(2) by (auto simp: CanAdvance_def counters_def split: if_splits)
    then have "nat (cs_MaxCycles (io_State out) - cs_CompletedCycles (io_State out)) < n"
      "0 < cs_MaxCycles (io_State out)"
      using adv s Suc.prems(2,3) by (auto simp: counters_def)
    from Suc.IH [OF conjunct1 [OF adv] this(2,1)] it None show ?thesis by simp
  qed (use it in simp)
qed simp

subsection \<open>Properties\<close>

text \<open>(C19) the lifetime ceiling bounds every run. Under a positive ceiling no run, however
  long and whatever fails in it, an append that stops inside its line included, takes the agent turns
  in the ledger past the larger of the ceiling and what the ledger already held; a run that
  starts at the ceiling touches nothing of the world (no agent and no gate runs); the whole
  lines of a ledger that verified still verify; and a run on a ledger with a torn line
  changes nothing and ends with an error.\<close>

theorem Run_respects_lifetime_ceiling:
  assumes "Orchestrator_Run n orch evs cfg sy = (r, sy')" and "sy_ledger sy = Some es"
      and "0 < oc_MaxLifetimeTurns cfg"
  shows "\<exists>es'. sy_ledger sy' = Some es' \<and> LifetimeTurns es \<le> LifetimeTurns es' \<and>
    LifetimeTurns es' \<le> max (LifetimeTurns es) (oc_MaxLifetimeTurns cfg) \<and>
    (chain_intact es \<longrightarrow> chain_intact es') \<and>
    (oc_MaxLifetimeTurns cfg \<le> LifetimeTurns es \<longrightarrow> sy_world sy' = sy_world sy) \<and>
    (sy_tail sy = TornLine \<longrightarrow> sy' = sy \<and> (\<exists>e. r = Some (RunReturned (Some e))))"
proof -
  have "within (oc_MaxLifetimeTurns cfg) sy sy'"
    using assms orch_loop_within [of n orch evs cfg sy r sy']
    by (auto simp: Orchestrator_Run_def split: if_splits prod.splits bool.splits)
  moreover have "sy_tail sy = TornLine \<Longrightarrow> sy' = sy \<and> (\<exists>e. r = Some (RunReturned (Some e)))"
    using assms(1,2) by (auto simp: Orchestrator_Run_def ledger_readable_def split: if_splits)
  ultimately show ?thesis using assms(2) by (simp add: within_def)
qed

text \<open>(C20) a halt of the guards or of the handshake is final. When an iteration returns such a
  halt (one without gate reports) and its appends succeed, every later run, whatever its
  configuration, fuel and faults, changes nothing and calls no agent: it returns that same
  halt at once, unless it has no agents, or cannot read the ledger, and ends with that error
  instead. A ledger that can be read is sealed with the reason.\<close>

theorem guard_halts_are_final:
  assumes "RunOnce orch ev cfg s sy = Some (out, Some (StepError (HaltedError reason [])), sy')"
      and "sy_ledger sy = Some es" and "en_append ev = (\<lambda>_. Appended)"
  shows "(sy_tail sy' \<noteq> TornLine \<longrightarrow> (\<exists>es'. sy_ledger sy' = Some es' \<and> LedgerSealsResume es' = (reason, True))) \<and>
    Orchestrator_Run n orch' evs cfg' sy' =
      (Some (RunReturned (Some (
         if oc_Agents cfg' = [] then NoAgents
         else if oe_ledger_read (evs 0) \<and> sy_tail sy' \<noteq> TornLine then StepError (HaltedError reason [])
         else LedgerReadError))), sy')"
  using RunOnce_seals [OF assms] by (auto simp: sealed_by_def Orchestrator_Run_def ledger_readable_def)

text \<open>(C21) the orchestrator's loop ends. With a positive cycle limit in the state file, gates
  that keep the two counters and a codec that returns them, \<^verbatim>\<open>Run\<close> returns within one
  iteration more than the cycles that are left, whatever agents answer and whatever fails.\<close>

theorem Orchestrator_Run_terminates:
  assumes "\<And>s. keeps_counters (pipeline_of orch s)"
      and "stores_counters (dr_marshal (mo_driver orch)) (dr_unmarshal (mo_driver orch))"
      and "sd_primary (sy_disk sy) = Some (dr_marshal (mo_driver orch) s0)" and "0 < cs_MaxCycles s0"
  shows "\<exists>r. fst (Orchestrator_Run (Suc (nat (cs_MaxCycles s0 - cs_CompletedCycles s0))) orch evs cfg sy) = Some r"
  using orch_loop_fuel [OF assms lessI, of evs cfg]
  by (auto simp: Orchestrator_Run_def split: option.splits prod.splits bool.splits)

text \<open>the handshake trusts structure only. A non-empty summary that does not decode, or a
  payload that asks for it, halts the cycle with its own reason; otherwise the goal changes
  only to the payload's goal, violations are only added, and nothing else of the state
  but its time stamp changes.\<close>

theorem applyResponse_spec:
  "let (err, s') = applyResponse ump now resp s; parsed = ump (tr_Summary resp); empty = (tr_Summary resp = []) in
   if \<not> empty \<and> parsed = None then
     err = Some (HaltedError HaltUnparseableTurn []) \<and> s' = re_value (Halt now HaltUnparseableTurn s)
   else if \<not> empty \<and> tp_HaltRequested (the parsed) then
     err = Some (HaltedError HaltUserRequested []) \<and> s' = re_value (Halt now HaltUserRequested s)
   else
     err = None \<and>
     (\<exists>new. s' = s\<lparr>cs_UpdatedAt := now, cs_ViolationsFound := cs_ViolationsFound s @ new,
        cs_NextCycleGoal := (if empty \<or> tp_NextGoal (the parsed) = [] then cs_NextCycleGoal s
                             else tp_NextGoal (the parsed))\<rparr> \<and>
        (if empty then new = [] else set new \<subseteq> set (tp_ViolationsFound (the parsed))))"
proof -
  have app: "\<exists>new. append_new seen (cs_ViolationsFound s) vs = cs_ViolationsFound s @ new \<and> set new \<subseteq> set vs" for seen vs
    using append_new_found [of seen "cs_ViolationsFound s" vs] append_new_keys [of seen vs] by blast
  show ?thesis
  proof (cases "tr_Summary resp = [] \<or> ump (tr_Summary resp) = None \<or> tp_HaltRequested (the (ump (tr_Summary resp)))")
    case True
    then show ?thesis
      by (auto simp: applyResponse_def ParseTurnPayload_def Let_def Halt_def intro!: exI [of _ "[]"]
          split: option.splits)
  next
    case False
    then obtain p where p: "ump (tr_Summary resp) = Some p" "\<not> tp_HaltRequested p" "tr_Summary resp \<noteq> []" by auto
    obtain new where new: "append_new (set (map violation_key (cs_ViolationsFound s))) (cs_ViolationsFound s)
        (tp_ViolationsFound p) = cs_ViolationsFound s @ new" "set new \<subseteq> set (tp_ViolationsFound p)"
      using app by blast
    show ?thesis
    proof (cases "tp_ViolationsFound p = []")
      case True
      with p show ?thesis
        by (auto simp: applyResponse_def ParseTurnPayload_def Let_def intro!: exI [of _ "[]"])
    next
      case viol: False
      with p new show ?thesis
        by (auto simp: applyResponse_def ParseTurnPayload_def AppendViolations_def Let_def intro!: exI [of _ new])
    qed
  qed
qed

text \<open>agents rotate. From a count that is not negative an agent is always chosen, the
  same one for \<open>r\<close> cycles and then the next one, round after round, where \<open>r\<close> is the
  configured period or 3.\<close>

theorem agentIndex_rotates:
  assumes "0 \<le> completed" and "oc_Agents cfg \<noteq> []" and "r = (if oc_ResetEvery cfg \<le> 0 then 3 else oc_ResetEvery cfg)"
  shows "\<exists>i < length (oc_Agents cfg). agentIndex completed cfg = Some i \<and>
    agentIndex (completed + r) cfg = Some (Suc i mod length (oc_Agents cfg)) \<and>
    agentIndex (completed - completed mod r) cfg = Some i"
proof -
  let ?n = "int (length (oc_Agents cfg))"
  have r: "0 < r" using assms(3) by auto
  have n: "0 < ?n" using assms(2) by simp
  have idx: "agentIndex c cfg = Some (nat ((c div r) mod ?n))" if "0 \<le> c" for c
  proof -
    have "0 \<le> c div r" using that r by (simp add: pos_imp_zdiv_nonneg_iff)
    moreover have "c sdiv r = c div r" using that r by (cases "c = 0") (simp_all add: signed_divide_int_def)
    moreover have "(c div r) smod ?n = (c div r) mod ?n"
      using calculation(1) n by (cases "c div r = 0") (simp_all add: signed_modulo_int_def)
    moreover have "\<not> (c div r) mod ?n < 0" using pos_mod_sign [OF n] by (simp only: not_less)
    ultimately show ?thesis by (simp add: agentIndex_def Let_def assms(3) [symmetric])
  qed
  let ?i = "nat ((completed div r) mod ?n)"
  have "(completed + r) div r = completed div r + 1" using r by simp
  moreover have "nat ((completed div r + 1) mod ?n) = Suc ?i mod length (oc_Agents cfg)"
  proof -
    have "int (Suc ?i mod length (oc_Agents cfg)) = (1 + (completed div r) mod ?n) mod ?n"
      using n by (simp add: zmod_int)
    also have "\<dots> = (completed div r + 1) mod ?n" by (simp add: mod_add_right_eq add.commute)
    finally show ?thesis by (metis nat_int)
  qed
  moreover have "(completed - completed mod r) div r = completed div r" using r by (simp add: minus_mod_eq_div_mult)
  moreover have "0 \<le> completed - completed mod r"
    using assms(1) r by (simp add: minus_mod_eq_div_mult pos_imp_zdiv_nonneg_iff)
  moreover have "?i < length (oc_Agents cfg)" using n by (simp add: nat_less_iff)
  ultimately show ?thesis using idx [OF assms(1)] idx [of "completed + r"] idx [of "completed - completed mod r"] assms(1) r
    by auto
qed

text \<open>A concrete orchestrator: one agent that answers in prose, one that hands over.\<close>

definition prose_turn :: TurnResponse where
  "prose_turn = \<lparr>tr_Done = False, tr_HandoffTo = [], tr_HandoffIntent = [], tr_Summary = ''all good'',
     tr_Artifacts = [], tr_SelfEval = SelfEvalConfident, tr_NotesForHuman = [], tr_Usage = None, tr_Claims = []\<rparr>"

definition prose_orch :: "nat orchestrator" where
  "prose_orch = \<lparr>mo_driver = \<lparr>dr_marshal = put_counters, dr_unmarshal = get_counters, dr_pipeline = [ok_gate],
       dr_ReadRetries = 3, dr_goalDiscoverer = (\<lambda>s w. (Inr ''fix'', w))\<rparr>,
     mo_registry = [''a'' \<mapsto> (\<lambda>req w. (Inr prose_turn, w + 1))], mo_pipeline = None, mo_payload = (\<lambda>_. None)\<rparr>"

definition calm_orch :: orch_env where
  "calm_orch = \<lparr>en_now = 5, en_append = (\<lambda>_. Appended), en_read = (\<lambda>_. ReadsFine), en_write = NoFault,
     en_sleep_ok = True, oe_ledger_read = True\<rparr>"

definition sample_cfg :: OrchestratorConfig where
  "sample_cfg = \<lparr>oc_Agents = [''a''], oc_Pattern = [], oc_ResetEvery = 0, oc_RepoURL = [], oc_WorkingDir = [],
     oc_MaxLifetimeTurns = 2\<rparr>"

definition sample_sys :: "nat sys" where
  "sample_sys = \<lparr>sy_disk = \<lparr>sd_primary = Some (put_counters (zero_state\<lparr>cs_MaxCycles := 2\<rparr>)), sd_bak = None,
     sd_temps = []\<rparr>, sy_ledger = Some [], sy_tail = WholeLine, sy_world = 0\<rparr>"

theorem Run_respects_lifetime_ceiling_witness:
  "\<exists>es'. sy_ledger (snd (Orchestrator_Run 9 prose_orch (\<lambda>_. calm_orch) sample_cfg sample_sys)) = Some es' \<and>
     LifetimeTurns es' \<le> 2"
  using Run_respects_lifetime_ceiling [of 9 prose_orch "\<lambda>_. calm_orch" sample_cfg sample_sys _ _ "[]", OF prod.collapse [symmetric]]
  by (auto simp: sample_sys_def sample_cfg_def LifetimeTurns_def)

theorem guard_halts_are_final_witness:
  "let sy' = snd (snd (the (RunOnce prose_orch calm_orch sample_cfg (zero_state\<lparr>cs_MaxCycles := 2\<rparr>) sample_sys)))
   in fst (Orchestrator_Run 9 prose_orch (\<lambda>_. calm_orch) sample_cfg sy') =
        Some (RunReturned (Some (StepError (HaltedError HaltUnparseableTurn [])))) \<and> sy_world sy' = 1"
proof -
  have idx: "agentIndex 0 sample_cfg = Some 0" by (simp add: agentIndex_def sample_cfg_def)
  have spin: "anti_spin sample_cfg [] = ([], False)"
    by (simp add: anti_spin_def sample_cfg_def ExceedsLifetimeCeiling_def LifetimeTurns_def Stuck_def stuck_scan_def
        pingPongStuck_def noProgressStuck_def)
  obtain out sy' where run: "RunOnce prose_orch calm_orch sample_cfg (zero_state\<lparr>cs_MaxCycles := 2\<rparr>) sample_sys =
      Some (out, Some (StepError (HaltedError HaltUnparseableTurn [])), sy')" "sy_world sy' = 1" "sy_tail sy' = WholeLine"
  proof -
    have "\<exists>out sy'. RunOnce prose_orch calm_orch sample_cfg (zero_state\<lparr>cs_MaxCycles := 2\<rparr>) sample_sys =
      Some (out, Some (StepError (HaltedError HaltUnparseableTurn [])), sy') \<and> sy_world sy' = 1 \<and> sy_tail sy' = WholeLine"
      using idx spin
      by (simp add: RunOnce_def agent_turn_def sample_sys_def prose_orch_def calm_orch_def prose_turn_def
          appendTurnLedger_def applyResponse_def ParseTurnPayload_def Halt_def handleHandshakeHalt_def
          record_entry_def ledger_readable_def write_state_def StateFileSync_Write_def commit_rename_def CanAdvance_def Let_def
          zero_state_def) (simp add: sample_cfg_def)
    then show thesis using that by blast
  qed
  show ?thesis
    using guard_halts_are_final [OF run(1), of "[]" 9 prose_orch "\<lambda>_. calm_orch" sample_cfg] run
    by (simp add: sample_sys_def calm_orch_def sample_cfg_def)
qed

theorem Orchestrator_Run_terminates_witness:
  "\<exists>r. fst (Orchestrator_Run 3 prose_orch (\<lambda>_. calm_orch) sample_cfg sample_sys) = Some r"
  using Orchestrator_Run_terminates [of prose_orch sample_sys "zero_state\<lparr>cs_MaxCycles := 2\<rparr>" "\<lambda>_. calm_orch" sample_cfg]
  by (simp add: pipeline_of_def prose_orch_def sample_sys_def ok_gate_keeps put_get_counters zero_state_def
      numeral_3_eq_3)

theorem agentIndex_rotates_witness:
  "\<exists>i < 2. agentIndex 4 (sample_cfg\<lparr>oc_Agents := [''a'', ''b'']\<rparr>) = Some i \<and>
     agentIndex 7 (sample_cfg\<lparr>oc_Agents := [''a'', ''b'']\<rparr>) = Some (Suc i mod 2)"
  using agentIndex_rotates [of 4 "sample_cfg\<lparr>oc_Agents := [''a'', ''b'']\<rparr>" 3]
  by (auto simp: sample_cfg_def numeral_2_eq_2)

end
