(* ===== verification/OneShot.thy ===== *)
theory OneShot
  imports Orchestrator
begin

section \<open>The bounded one-shot driver (internal/cli/cycle\_run.go)\<close>

text \<open>
  The body of \<^verbatim>\<open>cycle run --once\<close>: resume the state, refuse what is halted or sealed, run the
  guards, then one gated step, alone or after one agent turn, and map the halt to an exit
  code. The printed lines are part of the result. The working directory is in the options.
\<close>

definition exitCodeForHalt :: "HaltReason \<Rightarrow> int" where
  "exitCodeForHalt reason =
     (if reason = HaltSuccess then 0
      else if reason = HaltStuck then 10
      else if reason = HaltBudgetExceeded then 11
      else if reason = HaltPreflightFailed then 12
      else if reason = HaltGateFailure then 13
      else if reason = HaltUnparseableTurn then 14
      else if reason = HaltUserRequested then 15
      else if reason = HaltSelfAuditViolation then 16
      else if reason = HaltSSHAuthFailed then 17
      else if reason = HaltMaxCyclesReached then 18
      else 19)"

record 'w runOnceOptions =
  ro_goal :: string
  ro_maxLifetimeTurns :: int
  ro_agents :: "string list"
  ro_pipeline :: "State \<Rightarrow> 'w Pipeline"
  ro_registry :: "(string \<Rightarrow> 'w adapter option) option"
  ro_cwd :: "string option"
  ro_statePath :: string
  ro_marshal :: "State \<Rightarrow> bytes"
  ro_unmarshal :: unmarshaller
  ro_payload :: "string \<Rightarrow> TurnPayload option"

datatype once_error =
    ExitCodeError int HaltReason
  | CycleNotFound
  | BuildRegistryFailed
  | WorkingDirFailed
  | OnceFailed drive_error

type_synonym 'w once_result = "once_error option \<times> string list \<times> 'w sys"

definition failedStderr :: "GateReport list \<Rightarrow> string" where
  "failedStderr reports =
     (case filter (\<lambda>r. \<not> gr_Passed r) (rev reports) of
        r # _ \<Rightarrow> gr_Stderr r
      | [] \<Rightarrow> if reports \<noteq> [] then gr_Stderr (last reports) else [])"

definition reportHalt :: "HaltReason \<Rightarrow> string \<Rightarrow> string \<Rightarrow> once_error option \<times> string list" where
  "reportHalt reason detail statePath =
     (let code = exitCodeForHalt reason;
          d = TrimSpace detail;
          lines = [''cycle halted: '' @ reason @ '' (exit '' @ show_int code @ '') [state: '' @ statePath @ '']''] @
                  (if d \<noteq> [] then [''  reason: '' @ d] else [])
      in if code = 0 then (None, lines) else (Some (ExitCodeError code reason), lines))"

definition haltOnce ::
  "'w runOnceOptions \<Rightarrow> orch_env \<Rightarrow> State \<Rightarrow> HaltReason \<Rightarrow> string \<Rightarrow> 'w sys \<Rightarrow> 'w once_result" where
  "haltOnce opts ev s reason detail sy =
     (let halted = re_value (Halt (en_now ev) reason s);
          e = halted_entry (en_now ev) (cs_ID halted) reason
      in let sy1 = record_entry (en_append ev) e sy in
         if en_append ev e \<noteq> Appended then (Some (OnceFailed LedgerAppendError), [], sy1)
         else
           let (werr, sy2) = write_state (ro_marshal opts) (en_write ev) halted sy1
           in case werr of
                Some we \<Rightarrow> (Some (OnceFailed (WriteStateError we)), [], sy2)
              | None \<Rightarrow> (let (err, lines) = reportHalt reason detail (ro_statePath opts) in (err, lines, sy2)))"

definition advanced_line :: "State \<Rightarrow> string" where
  "advanced_line s = ''(completed '' @ show_int (cs_CompletedCycles s) @ ''/'' @ show_int (cs_MaxCycles s) @
     '', phase '' @ cs_Phase s @ '')''"

text \<open>One iteration uses neither the read retries nor the goal discovery of the driver.\<close>

definition once_orchestrator ::
  "'w runOnceOptions \<Rightarrow> (string \<Rightarrow> 'w adapter option) \<Rightarrow> 'w orchestrator" where
  "once_orchestrator opts reg =
     \<lparr>mo_driver = \<lparr>dr_marshal = ro_marshal opts, dr_unmarshal = ro_unmarshal opts, dr_pipeline = [],
        dr_ReadRetries = 3, dr_goalDiscoverer = (\<lambda>s w. (Inl [], w))\<rparr>,
      mo_registry = reg, mo_pipeline = Some (ro_pipeline opts), mo_payload = ro_payload opts\<rparr>"

text \<open>\<open>None\<close> is the index panic of the orchestrator.\<close>

definition runCycleOnceAgents ::
  "'w runOnceOptions \<Rightarrow> orch_env \<Rightarrow> State \<Rightarrow> 'w sys \<Rightarrow> 'w once_result option" where
  "runCycleOnceAgents opts ev s sy =
     (case ro_registry opts of
        None \<Rightarrow> Some (Some BuildRegistryFailed, [], sy)
      | Some reg \<Rightarrow>
        (case ro_cwd opts of
           None \<Rightarrow> Some (Some WorkingDirFailed, [], sy)
         | Some cwd \<Rightarrow>
           let cfg = \<lparr>oc_Agents = ro_agents opts, oc_Pattern = [], oc_ResetEvery = 0, oc_RepoURL = [],
                 oc_WorkingDir = cwd, oc_MaxLifetimeTurns = ro_maxLifetimeTurns opts\<rparr> in
           (case RunOnce (once_orchestrator opts reg) ev cfg s sy of
              None \<Rightarrow> None
            | Some (out, Some (StepError (HaltedError reason reports)), sy') \<Rightarrow>
                (let (err, lines) = reportHalt reason (failedStderr reports) (ro_statePath opts)
                 in Some (err, lines, sy'))
            | Some (out, Some err, sy') \<Rightarrow> Some (Some (OnceFailed err), [], sy')
            | Some (out, None, sy') \<Rightarrow>
                if io_Advanced out then
                  Some (None, [''cycle '' @ cs_ID (io_State out) @ '': advanced via agent ['' @
                    Join (ro_agents opts) '' '' @ ''] '' @ advanced_line (io_State out)], sy')
                else Some (None, [''cycle '' @ cs_ID s @ '': not advanceable; nothing to do''], sy'))))"

text \<open>The reference path: the remaining guards, then one bare gated step.\<close>

definition reference_pass ::
  "'w runOnceOptions \<Rightarrow> orch_env \<Rightarrow> HarnessLedgerEntry list \<Rightarrow> State \<Rightarrow> 'w sys \<Rightarrow> 'w once_result" where
  "reference_pass opts ev entries s sy =
     (case Stuck entries of
        (reason, True) \<Rightarrow> haltOnce opts ev s reason [] sy
      | (_, False) \<Rightarrow>
        if ExceedsLifetimeCeiling entries (ro_maxLifetimeTurns opts)
        then haltOnce opts ev s HaltBudgetExceeded [] sy
        else
          let (result, sy1) = Driver_Step (en_append ev) (en_now ev) (ro_pipeline opts s) s sy in
          (case re_err result of
             Some (HaltedError reason reports) \<Rightarrow>
               haltOnce opts ev (re_value result) reason (failedStderr reports) sy1
           | Some e \<Rightarrow> (Some (OnceFailed (StepError e)), [], sy1)
           | None \<Rightarrow>
               let (werr, sy2) = write_state (ro_marshal opts) (en_write ev) (re_value result) sy1 in
               (case werr of
                  Some we \<Rightarrow> (Some (OnceFailed (WriteStateError we)), [], sy2)
                | None \<Rightarrow> (None, [''cycle '' @ cs_ID (re_value result) @ '': advanced '' @
                            advanced_line (re_value result)], sy2))))"

text \<open>The system's ledger is always there: a missing file reads as the empty ledger.\<close>

definition runCycleOnce :: "'w runOnceOptions \<Rightarrow> orch_env \<Rightarrow> 'w sys \<Rightarrow> 'w once_result option" where
  "runCycleOnce opts ev sy =
     (case StateFileSync_Read (ro_unmarshal opts) (en_read ev 0) (sy_disk sy) of
        Inl e \<Rightarrow> Some (Some (OnceFailed (ReadStateError e)), [], sy)
      | Inr s \<Rightarrow>
        if cs_ID s = [] then Some (Some CycleNotFound, [], sy)
        else if cs_Halted s then
          (let (err, lines) = reportHalt (cs_HaltReason s) [] (ro_statePath opts) in Some (err, lines, sy))
        else if \<not> CanAdvance (en_now ev) s then
          Some (None, [''cycle '' @ cs_ID s @ '': not advanceable (completed '' @ show_int (cs_CompletedCycles s) @
            ''/'' @ show_int (cs_MaxCycles s) @ ''); nothing to do''], sy)
        else if \<not> ledger_readable (oe_ledger_read ev) sy then Some (Some (OnceFailed LedgerReadError), [], sy)
        else
          let entries = (case sy_ledger sy of Some es \<Rightarrow> es | None \<Rightarrow> []) in
          (case LedgerSealsResume entries of
             (reason, True) \<Rightarrow>
               (let (err, lines) = reportHalt reason [] (ro_statePath opts) in Some (err, lines, sy))
           | (_, False) \<Rightarrow>
               let s1 = (if TrimSpace (ro_goal opts) \<noteq> [] then s\<lparr>cs_NextCycleGoal := ro_goal opts\<rparr> else s)
               in if ro_agents opts \<noteq> [] then runCycleOnceAgents opts ev s1 sy
                  else Some (reference_pass opts ev entries s1 sy)))"

subsection \<open>What a halt leaves on disk\<close>

definition stores_halt :: "(State \<Rightarrow> bytes) \<Rightarrow> unmarshaller \<Rightarrow> bool" where
  "stores_halt marshal um \<longleftrightarrow> (\<forall>s. let (ok, s') = um (marshal s) zero_state in
     ok \<and> cs_ID s' = cs_ID s \<and> cs_Halted s' = cs_Halted s \<and> cs_HaltReason s' = cs_HaltReason s)"

definition keeps_id :: "'w Pipeline \<Rightarrow> bool" where
  "keeps_id p \<longleftrightarrow> list_all (\<lambda>g. \<forall>s w. cs_ID (fst (snd (ga_Run g s w))) = cs_ID s) p"

text \<open>The disk holds a halted state of the cycle with this reason.\<close>

definition halted_on_disk :: "(State \<Rightarrow> bytes) \<Rightarrow> string \<Rightarrow> HaltReason \<Rightarrow> 'w sys \<Rightarrow> bool" where
  "halted_on_disk marshal cid reason sy \<longleftrightarrow> (\<exists>st. sd_primary (sy_disk sy) = Some (marshal st) \<and>
     cs_ID st = cid \<and> cs_Halted st \<and> cs_HaltReason st = reason)"

lemma write_halted:
  assumes "write_state marshal NoFault st sy = (err, sy')" "cs_Halted st"
  shows "err = None \<and> halted_on_disk marshal (cs_ID st) (cs_HaltReason st) sy'"
  using assms Write_no_fault [of marshal st "sy_disk sy"]
    Write_ok [where marshal = marshal and flt = NoFault and s = st and d = "sy_disk sy", OF Write_no_fault]
  by (auto simp: write_state_def halted_on_disk_def case_prod_beta split: option.splits)

lemma run_gates_id:
  "keeps_id p \<Longrightarrow> run_gates p s w = (rs, s', w') \<Longrightarrow> cs_ID s' = cs_ID s"
proof (induction p arbitrary: s w rs)
  case (Cons g gs)
  obtain r s1 w1 where g: "ga_Run g s w = (r, s1, w1)" by (cases "ga_Run g s w") auto
  obtain rs1 where rs: "run_gates gs s1 w1 = (rs1, s', w')" using Cons.prems(2) g by (auto split: prod.splits)
  have "\<forall>s w. cs_ID (fst (snd (ga_Run g s w))) = cs_ID s" using Cons.prems(1) by (simp add: keeps_id_def)
  from this [rule_format, of s w] g Cons.IH [OF _ rs] Cons.prems(1) show ?case by (simp add: keeps_id_def)
qed simp

lemma Step_halted_state:
  assumes "Driver_Step out now p s sy = (r, sy')" "re_err r = Some (HaltedError reason reports)" "keeps_id p"
  shows "cs_Halted (re_value r) \<and> cs_HaltReason (re_value r) = reason \<and> cs_ID (re_value r) = cs_ID s"
proof -
  obtain result w where ex: "Execute now p s (sy_world sy) = (result, w)"
    by (cases "Execute now p s (sy_world sy)") auto
  have err: "re_err result = Some (HaltedError reason reports)" "r = result"
    using assms(1,2) ex by (auto simp: Driver_Step_eq Let_def split: if_splits)
  show ?thesis
  proof (rule first_blocking [of p s "sy_world sy"])
    fix rs s' w'
    assume "run_gates p s (sy_world sy) = (rs, s', w')" "list_all (\<lambda>r. \<not> blocks r) rs"
    from Execute_pass [OF this, of now] ex err show ?thesis by simp
  next
    fix gs g hs rs s1 w1 report reason' s2 w2
    assume f: "p = gs @ g # hs" "run_gates gs s (sy_world sy) = (rs, s1, w1)" "list_all (\<lambda>r. \<not> blocks r) rs"
      "ga_Run g s1 w1 = (GateFailure report reason', s2, w2)"
    have k: "keeps_id gs" "\<forall>s w. cs_ID (fst (snd (ga_Run g s w))) = cs_ID s"
      using assms(3) f(1) by (simp_all add: keeps_id_def)
    have "cs_ID s2 = cs_ID s" using k(2) [rule_format, of s1 w1] f(4) run_gates_id [OF k(1) f(2)] by simp
    with Execute_fail [OF f(2-4), of now hs] ex err f(1) show ?thesis by (auto simp: Let_def Halt_value)
  qed
qed

lemma gated_step_halt_written:
  assumes "gated_step orch ev s sy = (out, Some (StepError (HaltedError reason rs)), sy')" "en_write ev = NoFault"
    "keeps_id (pipeline_of orch s)"
  shows "halted_on_disk (dr_marshal (mo_driver orch)) (cs_ID s) reason sy'"
proof -
  obtain r sy1 where step: "Driver_Step (en_append ev) (en_now ev) (pipeline_of orch s) s sy = (r, sy1)"
    by (cases "Driver_Step (en_append ev) (en_now ev) (pipeline_of orch s) s sy") auto
  obtain werr sy2 where w: "write_state (dr_marshal (mo_driver orch)) NoFault (re_value r) sy1 = (werr, sy2)"
    by fastforce
  have "re_err r = Some (HaltedError reason rs)" "sy' = sy2"
    using assms(1) unfolding gated_step_def Let_def pipeline_of_def [symmetric] step prod.case assms(2) w
    by (auto split: option.splits)
  with Step_halted_state [OF step _ assms(3)] write_halted [OF w] show ?thesis by auto
qed

lemma RunOnce_halt_written:
  assumes "RunOnce orch ev cfg s sy = Some (out, Some (StepError (HaltedError reason rs)), sy')"
    "en_write ev = NoFault" "\<And>s. keeps_id (pipeline_of orch s)"
  shows "halted_on_disk (dr_marshal (mo_driver orch)) (cs_ID s) reason sy'"
proof -
  have spin: "halted_on_disk (dr_marshal (mo_driver orch)) (cs_ID s) reason sy'"
    if h: "halt_iteration orch ev s r sy = (out, Some (StepError (HaltedError reason rs)), sy')" for r
  proof -
    let ?st = "re_value (Halt (en_now ev) r s)"
    obtain werr sy2 where w: "write_state (dr_marshal (mo_driver orch)) NoFault ?st
        (record_entry (en_append ev) (halted_entry (en_now ev) (cs_ID ?st) r) sy) = (werr, sy2)"
      by fastforce
    have "sy' = sy2 \<and> r = reason"
      using h unfolding halt_iteration_def Let_def assms(2) w prod.case by (auto simp: Halt_def split: option.splits)
    with write_halted [OF w] show ?thesis by (simp add: Halt_value)
  qed
  have hand: "halted_on_disk (dr_marshal (mo_driver orch)) (cs_ID s1) r sy2"
    if h: "handleHandshakeHalt orch ev s1 he r sy1 = (StepError (HaltedError reason rs), sy2)"
      "cs_Halted s1" "cs_HaltReason s1 = r" for s1 he r sy1 sy2
  proof -
    obtain werr sy3 where w: "write_state (dr_marshal (mo_driver orch)) NoFault s1
        (record_entry (en_append ev) (halted_entry (en_now ev) (cs_ID s1) r) sy1) = (werr, sy3)"
      by fastforce
    have "sy2 = sy3"
      using h(1) unfolding handleHandshakeHalt_def Let_def assms(2) w prod.case by (auto split: option.splits)
    with write_halted [OF w h(2)] h(3) show ?thesis by simp
  qed
  have same: "he = HaltedError reason rs"
    if "handleHandshakeHalt orch ev s1 he r sy1 = (StepError (HaltedError reason rs), sy2)" for s1 he r sy1 sy2
    using that by (auto simp: handleHandshakeHalt_def Let_def split: prod.splits option.splits)
  have app_id: "cs_ID s1 = cs_ID s" if "applyResponse ump now resp s = (e, s1)" for ump now resp e s1
    using that by (auto simp: applyResponse_def Let_def Halt_def AppendViolations_def split: prod.splits if_splits)
  show ?thesis
  proof (cases "agent_turn orch ev cfg s sy = Some (out, Some (StepError (HaltedError reason rs)), sy')")
    case False
    then obtain r where "halt_iteration orch ev s r sy = (out, Some (StepError (HaltedError reason rs)), sy')"
      using assms(1) by (auto simp: RunOnce_def split: if_splits option.splits prod.splits bool.splits)
    then show ?thesis by (rule spin)
  next
    case True
    have gated: "halted_on_disk (dr_marshal (mo_driver orch)) (cs_ID s) reason sy'"
      if "applyResponse ump now resp s = (None, s1)"
        "gated_step orch ev s1 sy1 = (out, Some (StepError (HaltedError reason rs)), sy')" for ump now resp s1 sy1
      using gated_step_halt_written [OF that(2) assms(2,3)] app_id [OF that(1)] by simp
    have shake: "halted_on_disk (dr_marshal (mo_driver orch)) (cs_ID s) reason sy'"
      if "applyResponse ump now resp s = (Some (HaltedError x11 x12), s1)"
        "handleHandshakeHalt orch ev s1 (HaltedError x11 x12) x11 sy1 = (StepError (HaltedError reason rs), sy')"
      for ump now resp s1 sy1 x11 x12
      using hand [OF that(2)] same [OF that(2)] applyResponse_halts [OF that(1)] app_id [OF that(1)] by auto
    from True show ?thesis
      by (auto simp: agent_turn_def Let_def
          split: option.splits prod.splits sum.splits bool.splits cycle_error.splits
          intro: gated shake dest: applyResponse_halts)
  qed
qed

subsection \<open>Running it again\<close>

lemma reportHalt_fst:
  "fst (reportHalt reason detail path) =
     (if exitCodeForHalt reason = 0 then None else Some (ExitCodeError (exitCodeForHalt reason) reason))"
  by (simp add: reportHalt_def Let_def)

lemma reportHalt_error:
  "reportHalt reason detail path = (Some (ExitCodeError c r), lines) \<Longrightarrow> r = reason \<and> c = exitCodeForHalt reason \<and> c \<noteq> 0"
  by (auto simp: reportHalt_def Let_def split: if_splits)

lemma refuses_halted:
  assumes "StateFileSync_Read (ro_unmarshal opts) (en_read ev 0) (sy_disk sy) = Inr s" "cs_ID s \<noteq> []" "cs_Halted s"
  shows "\<exists>lines. runCycleOnce opts ev sy = Some (fst (reportHalt (cs_HaltReason s) [] (ro_statePath opts)), lines, sy)"
  using assms by (simp add: runCycleOnce_def case_prod_beta)

lemma refuses_on_disk:
  assumes "halted_on_disk marshal cid reason sy" "stores_halt marshal (ro_unmarshal opts)" "cid \<noteq> []"
    "en_read ev 0 = ReadsFine" "exitCodeForHalt reason \<noteq> 0"
  shows "\<exists>s lines. StateFileSync_Read (ro_unmarshal opts) ReadsFine (sy_disk sy) = Inr s \<and> cs_Halted s \<and>
    runCycleOnce opts ev sy = Some (Some (ExitCodeError (exitCodeForHalt reason) reason), lines, sy)"
proof -
  obtain st where st: "sd_primary (sy_disk sy) = Some (marshal st)" "cs_ID st = cid" "cs_Halted st"
    "cs_HaltReason st = reason" using assms(1) by (auto simp: halted_on_disk_def)
  obtain s where s: "ro_unmarshal opts (marshal st) zero_state = (True, s)" "cs_ID s = cid" "cs_Halted s"
    "cs_HaltReason s = reason"
  proof -
    let ?p = "ro_unmarshal opts (marshal st) zero_state"
    have "\<forall>s. case ro_unmarshal opts (marshal s) zero_state of (ok, s') \<Rightarrow>
        ok \<and> cs_ID s' = cs_ID s \<and> cs_Halted s' = cs_Halted s \<and> cs_HaltReason s' = cs_HaltReason s"
      using assms(2) unfolding stores_halt_def Let_def .
    from this [rule_format, of st] st(2-4) have "fst ?p" "cs_ID (snd ?p) = cid" "cs_Halted (snd ?p)"
      "cs_HaltReason (snd ?p) = reason" by (simp_all add: case_prod_beta)
    then show thesis using that [of "snd ?p"] by (simp add: prod_eq_iff)
  qed
  have rd: "StateFileSync_Read (ro_unmarshal opts) ReadsFine (sy_disk sy) = Inr s"
    using Read_primary [of "sy_disk sy" "marshal st" "ro_unmarshal opts" s] st(1) s(1) by simp
  with refuses_halted [of opts ev sy s] s assms(3,4,5) show ?thesis by (auto simp: reportHalt_fst)
qed

lemma haltOnce_written:
  assumes "haltOnce opts ev s reason detail sy = (Some (ExitCodeError c r), lines, sy')" "en_write ev = NoFault"
  shows "halted_on_disk (ro_marshal opts) (cs_ID s) r sy' \<and> c = exitCodeForHalt r \<and> c \<noteq> 0"
proof -
  let ?st = "re_value (Halt (en_now ev) reason s)"
  obtain werr sy2 where w: "write_state (ro_marshal opts) NoFault ?st
      (record_entry (en_append ev) (halted_entry (en_now ev) (cs_ID ?st) reason) sy) = (werr, sy2)"
    by fastforce
  have "sy' = sy2" "r = reason \<and> c = exitCodeForHalt reason \<and> c \<noteq> 0"
    using assms(1) reportHalt_error [of reason detail "ro_statePath opts" c r]
    unfolding haltOnce_def Let_def assms(2) w prod.case
    by (auto split: if_splits option.splits prod.splits)
  with write_halted [OF w] show ?thesis by (simp add: Halt_value)
qed

lemma reference_pass_written:
  assumes "reference_pass opts ev es s sy = (Some (ExitCodeError c r), lines, sy')" "en_write ev = NoFault"
    "keeps_id (ro_pipeline opts s)"
  shows "halted_on_disk (ro_marshal opts) (cs_ID s) r sy' \<and> c = exitCodeForHalt r \<and> c \<noteq> 0"
proof -
  obtain res sy1 where step: "Driver_Step (en_append ev) (en_now ev) (ro_pipeline opts s) s sy = (res, sy1)"
    by (cases "Driver_Step (en_append ev) (en_now ev) (ro_pipeline opts s) s sy") auto
  consider (guard) reason where "haltOnce opts ev s reason [] sy = (Some (ExitCodeError c r), lines, sy')"
    | (gate) reason reports where "re_err res = Some (HaltedError reason reports)"
        "haltOnce opts ev (re_value res) reason (failedStderr reports) sy1 = (Some (ExitCodeError c r), lines, sy')"
    using assms(1) unfolding reference_pass_def step Let_def prod.case
    by (auto split: prod.splits bool.splits if_splits option.splits cycle_error.splits)
  then show ?thesis
  proof cases
    case guard
    from haltOnce_written [OF guard assms(2)] show ?thesis .
  next
    case gate
    from haltOnce_written [OF gate(2) assms(2)] Step_halted_state [OF step gate(1) assms(3)] show ?thesis by simp
  qed
qed

lemma agents_written:
  assumes "runCycleOnceAgents opts ev s sy = Some (Some (ExitCodeError c r), lines, sy')" "en_write ev = NoFault"
    "\<And>s. keeps_id (ro_pipeline opts s)"
  shows "halted_on_disk (ro_marshal opts) (cs_ID s) r sy' \<and> c = exitCodeForHalt r \<and> c \<noteq> 0"
proof -
  obtain reg cwd where reg: "ro_registry opts = Some reg" "ro_cwd opts = Some cwd"
    using assms(1) by (auto simp: runCycleOnceAgents_def split: option.splits)
  define cfg where "cfg = \<lparr>oc_Agents = ro_agents opts, oc_Pattern = [], oc_ResetEvery = 0, oc_RepoURL = [],
                 oc_WorkingDir = cwd, oc_MaxLifetimeTurns = ro_maxLifetimeTurns opts\<rparr>"
  obtain out reason reports where run: "RunOnce (once_orchestrator opts reg) ev cfg s sy =
      Some (out, Some (StepError (HaltedError reason reports)), sy')"
    "fst (reportHalt reason (failedStderr reports) (ro_statePath opts)) = Some (ExitCodeError c r)"
    using assms(1) unfolding runCycleOnceAgents_def reg option.case Let_def cfg_def [symmetric]
    by (auto split: option.splits prod.splits drive_error.splits cycle_error.splits if_splits)
  have ids: "keeps_id (pipeline_of (once_orchestrator opts reg) s)" for s
    using assms(3) by (simp add: pipeline_of_def once_orchestrator_def)
  from RunOnce_halt_written [OF run(1) assms(2) ids] run(2) show ?thesis
    by (auto simp: reportHalt_fst once_orchestrator_def split: if_splits)
qed

subsection \<open>Properties\<close>

text \<open>a halted pass stays halted. When a pass ends with a halt exit code and its state
  write succeeds (the codec keeps id and halt fields, gates keep the id), the next pass,
  with any options over the same codec, reads a state, changes nothing, calls no gate and
  no agent, and ends with the same exit code and reason, unless the state was never halted
  (the ledger alone was sealed) and its time or cycle limit has since run out; then it
  ends with nothing to do.\<close>

theorem halted_pass_stays_halted:
  assumes "runCycleOnce opts ev sy = Some (Some (ExitCodeError c reason), lines, sy')"
      and "stores_halt (ro_marshal opts) (ro_unmarshal opts)" and "\<And>s. keeps_id (ro_pipeline opts s)"
      and "en_write ev = NoFault" and "ro_unmarshal opts' = ro_unmarshal opts"
      and "en_read ev' 0 = ReadsFine" and "oe_ledger_read ev'"
  shows "\<exists>s lines'. StateFileSync_Read (ro_unmarshal opts) ReadsFine (sy_disk sy') = Inr s \<and>
    runCycleOnce opts' ev' sy' =
      Some (if cs_Halted s \<or> CanAdvance (en_now ev') s then Some (ExitCodeError c reason) else None, lines', sy')"
proof -
  obtain s where s: "StateFileSync_Read (ro_unmarshal opts) (en_read ev 0) (sy_disk sy) = Inr s"
    using assms(1) by (auto simp: runCycleOnce_def split: sum.splits)
  have s': "StateFileSync_Read (ro_unmarshal opts) ReadsFine (sy_disk sy) = Inr s"
    using s by (auto simp: StateFileSync_Read_def Let_def split: if_splits option.splits prod.splits)
  have cid: "cs_ID s \<noteq> []" using assms(1) s by (auto simp: runCycleOnce_def split: if_splits)
  have disk: ?thesis if h: "halted_on_disk (ro_marshal opts) (cs_ID s) reason sy' \<and> c = exitCodeForHalt reason \<and> c \<noteq> 0"
    using refuses_on_disk [of "ro_marshal opts" "cs_ID s" reason sy' opts' ev'] h assms(2,5,6) cid by auto
  show ?thesis
  proof (cases "cs_Halted s")
    case True
    have "cs_HaltReason s = reason \<and> c = exitCodeForHalt reason \<and> c \<noteq> 0 \<and> sy' = sy"
      using assms(1) s cid True reportHalt_error
      by (auto simp: runCycleOnce_def split: prod.splits dest!: reportHalt_error)
    with refuses_halted [of opts' ev' sy s] s' cid True assms(5,6) show ?thesis by (auto simp: reportHalt_fst)
  next
    case False
    define entries where "entries = (case sy_ledger sy of Some es \<Rightarrow> es | None \<Rightarrow> [])"
    define s1 where "s1 = (if TrimSpace (ro_goal opts) \<noteq> [] then s\<lparr>cs_NextCycleGoal := ro_goal opts\<rparr> else s)"
    have id1: "cs_ID s1 = cs_ID s" by (simp add: s1_def)
    have adv: "CanAdvance (en_now ev) s" "ledger_readable (oe_ledger_read ev) sy"
      using assms(1) s cid False by (auto simp: runCycleOnce_def split: if_splits)
    have eq: "runCycleOnce opts ev sy =
        (case LedgerSealsResume entries of
           (r, True) \<Rightarrow> (let (err, lines) = reportHalt r [] (ro_statePath opts) in Some (err, lines, sy))
         | (_, False) \<Rightarrow> if ro_agents opts \<noteq> [] then runCycleOnceAgents opts ev s1 sy
             else Some (reference_pass opts ev entries s1 sy))"
      using s cid False adv unfolding entries_def s1_def by (simp add: runCycleOnce_def Let_def split: prod.split bool.split)
    consider (sealed) r where "LedgerSealsResume entries = (r, True)" "reason = r \<and> c = exitCodeForHalt r \<and> c \<noteq> 0 \<and> sy' = sy"
      | (agents) "runCycleOnceAgents opts ev s1 sy = Some (Some (ExitCodeError c reason), lines, sy')"
      | (ref) "reference_pass opts ev entries s1 sy = (Some (ExitCodeError c reason), lines, sy')"
      using assms(1) unfolding eq
      by (auto split: prod.splits bool.splits if_splits dest!: reportHalt_error)
    then show ?thesis
    proof cases
      case sealed
      moreover have "ledger_readable (oe_ledger_read ev') sy" using adv(2) assms(7) by (simp add: ledger_readable_def)
      ultimately show ?thesis
        using s' cid False assms(5,6,7)
        by (auto simp: runCycleOnce_def entries_def [symmetric] case_prod_beta reportHalt_fst prod_eq_iff)
    next
      case agents
      from agents_written [OF agents assms(4,3)] id1 show ?thesis by (intro disk) simp
    next
      case ref
      from reference_pass_written [OF ref assms(4,3)] id1 show ?thesis by (intro disk) simp
    qed
  qed
qed

text \<open>the exit codes tell the halt reasons apart. Every reason that \<^verbatim>\<open>ParseHaltReason\<close>
  accepts has a code of its own below 19, and only \<^verbatim>\<open>success\<close> has code 0.\<close>

theorem exit_codes_distinct:
  assumes "ParseHaltReason a = Inr a'" and "ParseHaltReason b = Inr b'"
  shows "(exitCodeForHalt a = exitCodeForHalt b) = (a = b) \<and> exitCodeForHalt a < 19 \<and>
    (exitCodeForHalt a = 0) = (a = HaltSuccess)"
proof -
  let ?known = "[HaltSelfAuditViolation, HaltSSHAuthFailed, HaltMaxCyclesReached, HaltGateFailure,
    HaltUserRequested, HaltPreflightFailed, HaltSuccess, HaltStuck, HaltBudgetExceeded, HaltUnparseableTurn]"
  have mem: "a \<in> set ?known" "b \<in> set ?known"
    using assms unfolding ParseHaltReason_def by (simp_all only: list.set sum.distinct split: if_splits)
  have "distinct (map exitCodeForHalt ?known)" by code_simp
  then have "inj_on exitCodeForHalt (set ?known)" by (simp only: distinct_map)
  moreover have "list_all (\<lambda>x. exitCodeForHalt x < 19 \<and> (exitCodeForHalt x = 0) = (x = HaltSuccess)) ?known"
    by code_simp
  ultimately show ?thesis using mem inj_on_eq_iff [of exitCodeForHalt "set ?known" a b]
    unfolding list_all_iff by blast
qed

text \<open>A codec for the id and the halt fields, and a cycle that has halted.\<close>

definition put_halt :: "State \<Rightarrow> bytes" where
  "put_halt s = replicate (to_nat (cs_ID s, cs_Halted s, cs_HaltReason s)) (CHR ''h'')"

definition get_halt :: unmarshaller where
  "get_halt b s = (let (i, h, r) = from_nat (length b)
     in (True, s\<lparr>cs_ID := i, cs_Halted := h, cs_HaltReason := r\<rparr>))"

lemma put_get_halt: "stores_halt put_halt get_halt"
  by (simp add: stores_halt_def put_halt_def get_halt_def Let_def)

definition stuck_state :: State where
  "stuck_state = zero_state\<lparr>cs_ID := ''c1'', cs_Halted := True, cs_HaltReason := HaltStuck\<rparr>"

definition sample_opts :: "string list \<Rightarrow> nat runOnceOptions" where
  "sample_opts agents = \<lparr>ro_goal = [], ro_maxLifetimeTurns = 0, ro_agents = agents, ro_pipeline = (\<lambda>_. [ok_gate]),
     ro_registry = None, ro_cwd = None, ro_statePath = ''s'', ro_marshal = put_halt, ro_unmarshal = get_halt,
     ro_payload = (\<lambda>_. None)\<rparr>"

theorem halted_pass_stays_halted_witness:
  "let sy = \<lparr>sy_disk = \<lparr>sd_primary = Some (put_halt stuck_state), sd_bak = None, sd_temps = []\<rparr>,
              sy_ledger = Some [], sy_tail = WholeLine, sy_world = 0\<rparr>
   in \<exists>lines. runCycleOnce (sample_opts [''a'']) calm_orch sy = Some (Some (ExitCodeError 10 HaltStuck), lines, sy)"
proof -
  let ?sy = "\<lparr>sy_disk = \<lparr>sd_primary = Some (put_halt stuck_state), sd_bak = None, sd_temps = []\<rparr>,
              sy_ledger = Some [], sy_tail = WholeLine, sy_world = 0\<rparr> :: nat sys"
  have dec: "get_halt (put_halt stuck_state) zero_state = (True, stuck_state)"
    by (simp add: put_halt_def get_halt_def stuck_state_def zero_state_def)
  have code: "exitCodeForHalt HaltStuck = 10" by code_simp
  have rd: "StateFileSync_Read get_halt ReadsFine (sy_disk ?sy) = Inr stuck_state"
    using dec by (simp add: StateFileSync_Read_def)
  have first: "\<exists>lines. runCycleOnce (sample_opts []) calm_orch ?sy = Some (Some (ExitCodeError 10 HaltStuck), lines, ?sy)"
    using refuses_halted [of "sample_opts []" calm_orch ?sy stuck_state] rd code
    by (simp add: sample_opts_def calm_orch_def stuck_state_def reportHalt_fst)
  then obtain lines where first: "runCycleOnce (sample_opts []) calm_orch ?sy = Some (Some (ExitCodeError 10 HaltStuck), lines, ?sy)" ..
  have "keeps_id [ok_gate]" by (simp add: keeps_id_def ok_gate_def)
  then show ?thesis
    unfolding Let_def
    using halted_pass_stays_halted [OF first, of "sample_opts [''a'']" calm_orch] rd put_get_halt
    by (auto simp: sample_opts_def calm_orch_def stuck_state_def)
qed

theorem exit_codes_distinct_witness:
  "exitCodeForHalt HaltUserRequested \<noteq> exitCodeForHalt HaltUnparseableTurn \<and> exitCodeForHalt HaltUserRequested \<noteq> 0"
  using exit_codes_distinct [OF known_reasons(4) known_reasons(3)] by simp

end
