(* ===== verification/Gates.thy ===== *)
theory Gates
  imports OneShot
begin

section \<open>The gates (internal/cycle/gates)\<close>

text \<open>
  The six standard gates and the repo-local command gate. What a gate sees of the machine
  is a record of parameters over the world: running a command (its output and error text),
  whether a file exists, the clock, and \<^verbatim>\<open>strconv.Quote\<close>.
\<close>

record cmd_out =
  co_stdout :: bytes
  co_stderr :: bytes
  co_combined :: bytes
  co_err :: "string option"

record 'w host =
  ho_exec :: "string list \<Rightarrow> 'w \<Rightarrow> cmd_out \<times> 'w"
  ho_exists :: "string \<Rightarrow> 'w \<Rightarrow> bool"
  ho_now :: "'w \<Rightarrow> int"
  ho_quote :: "string \<Rightarrow> string"

type_synonym 'w gate_run = "State \<Rightarrow> 'w \<Rightarrow> GateResult \<times> State \<times> 'w"

definition new_report :: "string \<Rightarrow> GateReport" where
  "new_report gate = \<lparr>gr_Gate = gate, gr_Passed = False, gr_DurationMS = 0, gr_Stdout = [], gr_Stderr = [],
     gr_Violations = [], gr_ClaimChecks = []\<rparr>"

definition elapsed :: "'w host \<Rightarrow> int \<Rightarrow> 'w \<Rightarrow> int" where
  "elapsed h start w = ho_now h w - start"

text \<open>The early return of a gate that fails with a text.\<close>

definition fail_with :: "'w host \<Rightarrow> int \<Rightarrow> GateReport \<Rightarrow> string \<Rightarrow> HaltReason \<Rightarrow> 'w gate_run" where
  "fail_with h start report msg reason s w =
     (GateFailure (report\<lparr>gr_Passed := False, gr_Stderr := msg, gr_DurationMS := elapsed h start w\<rparr>) reason, s, w)"

subsection \<open>Preflight\<close>

definition git_output :: "'w host \<Rightarrow> string list \<Rightarrow> string \<Rightarrow> 'w \<Rightarrow> (string + string) \<times> 'w" where
  "git_output h args label w =
     (let (o1, w') = ho_exec h args w in
      (case co_err o1 of Some e \<Rightarrow> Inl (label @ '': '' @ e) | None \<Rightarrow> Inr (TrimSpace (co_stdout o1)), w'))"

definition gitBranch :: "'w host \<Rightarrow> 'w \<Rightarrow> (string + string) \<times> 'w" where
  "gitBranch h w = git_output h [''git'', ''branch'', ''--show-current''] ''git branch'' w"

definition gitIsClean :: "'w host \<Rightarrow> 'w \<Rightarrow> (string + bool) \<times> 'w" where
  "gitIsClean h w =
     (let (r, w') = git_output h [''git'', ''status'', ''--porcelain''] ''git status'' w
      in (map_sum id (\<lambda>out. out = []) r, w'))"

definition gitHead :: "'w host \<Rightarrow> 'w \<Rightarrow> (string + string) \<times> 'w" where
  "gitHead h w = git_output h [''git'', ''rev-parse'', ''HEAD''] ''git rev-parse'' w"

definition sshAuthCheck :: "'w host \<Rightarrow> 'w \<Rightarrow> string option \<times> 'w" where
  "sshAuthCheck h w =
     (let (remote, w1) = ho_exec h [''git'', ''remote'', ''get-url'', ''origin''] w in
      if co_err remote \<noteq> None then (None, w1)
      else
        let url = TrimSpace (co_stdout remote);
            host = (if Contains url ''gitlab.com'' then ''gitlab.com''
                    else if Contains url ''bitbucket.org'' then ''bitbucket.org'' else ''github.com'');
            (out, w2) = ho_exec h [''ssh'', ''-T'', ''-o'', ''BatchMode=yes'', ''-o'', ''ConnectTimeout=5'',
              ''git@'' @ host] w1
        in (case co_err out of
              None \<Rightarrow> (None, w2)
            | Some e \<Rightarrow>
                if Contains (co_combined out) ''successfully authenticated'' then (None, w2)
                else (Some (''ssh auth to '' @ host @ '': '' @ e @ '' ('' @ TrimSpace (co_combined out) @ '')''), w2)))"

definition PreflightGate_Run :: "'w host \<Rightarrow> 'w gate_run" where
  "PreflightGate_Run h s w =
     (let start = ho_now h w; report = new_report ''preflight''; fail = fail_with h start report in
      (case gitBranch h w of
         (Inl e, w1) \<Rightarrow> fail e HaltPreflightFailed s w1
       | (Inr branch, w1) \<Rightarrow>
         if branch = ''main'' \<or> branch = ''master''
         then fail (''branch '' @ ho_quote h branch @ '' is forbidden'') HaltPreflightFailed s w1
         else
           let s1 = s\<lparr>cs_Branch := branch\<rparr> in
           (case gitIsClean h w1 of
              (Inl e, w2) \<Rightarrow> fail e HaltPreflightFailed s1 w2
            | (Inr clean, w2) \<Rightarrow>
              if \<not> clean then fail ''working tree is not clean; commit or stash changes first'' HaltPreflightFailed s1 w2
              else
                (case gitHead h w2 of
                   (Inl e, w3) \<Rightarrow> fail e HaltPreflightFailed s1 w3
                 | (Inr sha, w3) \<Rightarrow>
                   let s2 = (if cs_BaselineSHA s1 = [] then s1\<lparr>cs_BaselineSHA := sha\<rparr> else s1) in
                   if TrimSpace (cs_NextCycleGoal s2) = [] then fail ''next_cycle_goal is empty'' HaltPreflightFailed s2 w3
                   else
                     (case sshAuthCheck h w3 of
                        (Some e, w4) \<Rightarrow>
                          (GateWarning (report\<lparr>gr_Stderr := e, gr_Passed := True, gr_DurationMS := elapsed h start w4\<rparr>), s2, w4)
                      | (None, w4) \<Rightarrow>
                          (GateSuccess (report\<lparr>gr_Passed := True, gr_DurationMS := elapsed h start w4\<rparr>), s2, w4))))))"

subsection \<open>Shell gates\<close>

text \<open>The limit counts bytes.\<close>

definition truncateOutput :: "string \<Rightarrow> nat \<Rightarrow> string" where
  "truncateOutput s maxRunes =
     (if length s \<le> maxRunes then s
      else ''...truncated...'' @ [CHR 0x0A] @ drop (length s - maxRunes) s)"

definition runShellGate :: "'w host \<Rightarrow> string list \<Rightarrow> string \<Rightarrow> GateReport \<Rightarrow> int \<Rightarrow> 'w gate_run" where
  "runShellGate h argv label report start s w =
     (let (out, w1) = ho_exec h argv w;
          report1 = report\<lparr>gr_Stdout := truncateOutput (co_combined out) 4000, gr_DurationMS := elapsed h start w1\<rparr>
      in case co_err out of
           Some e \<Rightarrow>
             (GateFailure (report1\<lparr>gr_Passed := False, gr_Stderr := label @ '' failed: '' @ e\<rparr>) HaltGateFailure, s, w1)
         | None \<Rightarrow> (GateSuccess (report1\<lparr>gr_Passed := True\<rparr>), s, w1))"

definition CommandGate_Name :: "string \<Rightarrow> string" where
  "CommandGate_Name rawCmd = ''cmd:'' @ rawCmd"

definition CommandGate_Run :: "'w host \<Rightarrow> string \<Rightarrow> 'w gate_run" where
  "CommandGate_Run h rawCmd s w =
     (let start = ho_now h w; report = new_report (CommandGate_Name rawCmd); parts = Fields rawCmd in
      if parts = [] then fail_with h start report ''empty command'' HaltGateFailure s w
      else runShellGate h parts (''command '' @ ho_quote h rawCmd) report start s w)"

definition defaultAuditCmd :: string where "defaultAuditCmd = ''make check-all''"

definition AuditGate_Run :: "'w host \<Rightarrow> string \<Rightarrow> 'w gate_run" where
  "AuditGate_Run h cmdOverride s w =
     (let start = ho_now h w; report = new_report ''audit''; trimmed = TrimSpace cmdOverride in
      if cmdOverride \<noteq> [] \<and> trimmed = [] then
        fail_with h start report
          (''audit_cmd override is set but contains only whitespace '' @ [CHR 0xE2, CHR 0x80, CHR 0x94] @
           '' cannot silently revert to default; set it to a valid command or leave it unset'')
          HaltGateFailure s w
      else
        let rawCmd = (if cmdOverride \<noteq> [] then trimmed else defaultAuditCmd)
        in runShellGate h (Fields rawCmd) rawCmd report start s w)"

definition LocalAuditGate_Run :: "'w host \<Rightarrow> 'w gate_run" where
  "LocalAuditGate_Run h s w =
     runShellGate h [''make'', ''check''] ''make check'' (new_report ''local-audit'') (ho_now h w) s w"

subsection \<open>Claims\<close>

definition runClaimCheck :: "'w host \<Rightarrow> ViolationCheck \<Rightarrow> 'w \<Rightarrow> (bool \<times> bytes \<times> bytes) \<times> 'w" where
  "runClaimCheck h check w =
     (let (out, w1) = ho_exec h [''sh'', ''-c'', vc_Command check] w in
      case co_err out of
        Some e \<Rightarrow> ((False, co_stdout out, co_stderr out @ ''claim check failed: '' @ e @ [CHR 0x0A]), w1)
      | None \<Rightarrow>
          if vc_Expected check = [] then ((True, co_stdout out, co_stderr out), w1)
          else ((Contains (co_stdout out @ co_stderr out) (vc_Expected check), co_stdout out, co_stderr out), w1))"

text \<open>The loop with the checks and the two buffers so far.\<close>

fun claim_loop ::
  "'w host \<Rightarrow> Violation list \<Rightarrow> ClaimCheck list \<Rightarrow> bytes \<Rightarrow> bytes \<Rightarrow> 'w \<Rightarrow> (ClaimCheck list \<times> bytes \<times> bytes) \<times> 'w" where
  "claim_loop h [] checks out err w = ((checks, out, err), w)"
| "claim_loop h (v # vs) checks out err w =
     (case v_Check v of
        None \<Rightarrow> claim_loop h vs checks out err w
      | Some check \<Rightarrow>
          if vc_Command check = [] then claim_loop h vs checks out err w
          else
            let ((verified, o1, e1), w1) = runClaimCheck h check w
            in claim_loop h vs (checks @ [\<lparr>cc_Violation = v, cc_Verified = verified\<rparr>]) (out @ o1) (err @ e1) w1)"

definition ClaimGate_Run :: "'w host \<Rightarrow> 'w gate_run" where
  "ClaimGate_Run h s w =
     (let start = ho_now h w;
          ((checks, out, err), w1) = claim_loop h (cs_ViolationsFound s) [] [] [] w;
          bad = filter (\<lambda>c. \<not> cc_Verified c) checks;
          report = (new_report ''claim'')\<lparr>gr_Passed := (bad = []), gr_DurationMS := ho_now h w1 - start,
                     gr_Stdout := out, gr_Stderr := err, gr_ClaimChecks := checks,
                     gr_Violations := map cc_Violation bad\<rparr>;
          s1 = re_value (AppendReport (ho_now h w1) report s)
      in if \<not> gr_Passed report then (GateFailure report HaltGateFailure, s1, w1)
         else (GateSuccess report, s1, w1))"

subsection \<open>Polish and commit\<close>

definition conventional_prefixes :: "string list" where
  "conventional_prefixes = [''feat:'', ''fix:'', ''refactor:'', ''docs:'', ''test:'', ''chore:'', ''sec:'', ''ci:'',
     ''build:'', ''perf:'', ''style:'']"

definition hasConventionalPrefix :: "string \<Rightarrow> bool" where
  "hasConventionalPrefix s = list_ex (HasPrefix s) conventional_prefixes"

definition defaultPolishTestCmd :: string where "defaultPolishTestCmd = ''go test -race ./...''"

definition polish_violation :: "string \<Rightarrow> Violation" where
  "polish_violation msg = \<lparr>v_File = [], v_Line = 0, v_Type = ''polish'', v_Message = msg, v_Check = None\<rparr>"

definition runCheck :: "'w host \<Rightarrow> string list \<Rightarrow> string \<Rightarrow> 'w \<Rightarrow> string option \<times> 'w" where
  "runCheck h argv label w =
     (let (out, w1) = ho_exec h argv w in
      (map_option (\<lambda>e. label @ '': '' @ e @ '' ('' @ TrimSpace (co_combined out) @ '')'') (co_err out), w1))"

definition ansiScript :: string where "ansiScript = ''scripts/check-no-raw-ansi.sh''"

text \<open>The three checks in their order; the violations they add up to.\<close>

definition test_violations :: "string \<Rightarrow> cmd_out \<Rightarrow> Violation list" where
  "test_violations rawCmd test =
     (case co_err test of
        None \<Rightarrow> []
      | Some e \<Rightarrow> [polish_violation (truncateOutput (''tests failed ('' @ rawCmd @ ''): '' @ e @ '' ('' @
          TrimSpace (co_combined test) @ '')'') 500)])"

definition ansi_violations :: "string option \<Rightarrow> Violation list" where
  "ansi_violations err =
     (case err of
        None \<Rightarrow> []
      | Some e \<Rightarrow> [polish_violation (truncateOutput (''raw ANSI check failed: '' @ e) 500)])"

definition goal_violations :: "string \<Rightarrow> Violation list" where
  "goal_violations goal =
     (if goal = [] then [polish_violation ''next_cycle_goal is empty; cannot derive conventional commit message'']
      else if \<not> hasConventionalPrefix goal then
        [polish_violation (''next_cycle_goal lacks conventional commit prefix '' @
           ''(feat:/fix:/refactor:/docs:/test:/chore:/sec:/ci:/build:/perf:/style:)'')]
      else [])"

definition polish_checks :: "'w host \<Rightarrow> string \<Rightarrow> State \<Rightarrow> 'w \<Rightarrow> Violation list \<times> 'w" where
  "polish_checks h rawCmd s w =
     (let (test, w1) = ho_exec h (Fields rawCmd) w;
          (ansi, w2) = (if ho_exists h ansiScript w1
                        then runCheck h [''bash'', ansiScript] (''bash ['' @ ansiScript @ '']'') w1 else (None, w1))
      in (test_violations rawCmd test @ ansi_violations ansi @
            goal_violations (TrimSpace (cs_NextCycleGoal s)), w2))"

definition PolishGate_Run :: "'w host \<Rightarrow> string \<Rightarrow> 'w gate_run" where
  "PolishGate_Run h testCmdOverride s w =
     (let start = ho_now h w; report = new_report ''polish''; trimmed = TrimSpace testCmdOverride in
      if testCmdOverride \<noteq> [] \<and> trimmed = [] then
        fail_with h start report
          (''polish_test_cmd override is set but contains only whitespace '' @ [CHR 0xE2, CHR 0x80, CHR 0x94] @
           '' cannot silently revert to default; set it to a valid command or leave it unset'')
          HaltGateFailure s w
      else
        let rawCmd = (if testCmdOverride \<noteq> [] then trimmed else defaultPolishTestCmd);
            (violations, w1) = polish_checks h rawCmd s w;
            report1 = report\<lparr>gr_Violations := violations, gr_DurationMS := elapsed h start w1\<rparr>
        in if violations \<noteq> [] then
             (GateFailure (report1\<lparr>gr_Passed := False,
                gr_Stderr := ''polish found '' @ show_nat (length violations) @ '' issue(s)''\<rparr>) HaltGateFailure, s, w1)
           else (GateSuccess (report1\<lparr>gr_Passed := True\<rparr>), s, w1))"

definition deriveCommitMessage :: "string \<Rightarrow> int \<Rightarrow> string" where
  "deriveCommitMessage goal0 cycleNum =
     (let goal1 = TrimSpace goal0;
          goal2 = (if goal1 = [] then ''autonomous cycle step'' else goal1);
          goal = (if \<not> hasConventionalPrefix goal2 then ''refactor: '' @ goal2 else goal2)
      in goal @ '' [cycle-'' @ show_int cycleNum @ '']'')"

definition CommitGate_Run :: "'w host \<Rightarrow> 'w gate_run" where
  "CommitGate_Run h s w =
     (let start = ho_now h w; report = new_report ''commit'';
          msg = deriveCommitMessage (cs_NextCycleGoal s) (cs_CompletedCycles s + 1);
          (add, w1) = ho_exec h [''git'', ''add'', ''-A''] w
      in case co_err add of
           Some e \<Rightarrow>
             fail_with h start report (''git add failed: '' @ e @ '' ('' @ TrimSpace (co_combined add) @ '')'')
               HaltGateFailure s w1
         | None \<Rightarrow>
             let (out, w2) = ho_exec h [''git'', ''commit'', ''-m'', msg] w1;
                 report1 = report\<lparr>gr_Stdout := co_combined out, gr_DurationMS := elapsed h start w2\<rparr>
             in (case co_err out of
                   None \<Rightarrow> (GateSuccess (report1\<lparr>gr_Passed := True\<rparr>), s, w2)
                 | Some e \<Rightarrow>
                     if Contains (co_combined out) ''nothing to commit'' then
                       (GateSuccess (report1\<lparr>gr_Passed := True,
                          gr_Stdout := ''nothing to commit, working tree clean''\<rparr>), s, w2)
                     else
                       (GateFailure (report1\<lparr>gr_Passed := False, gr_Stderr := ''git commit failed: '' @ e\<rparr>)
                          HaltGateFailure, s, w2)))"

subsection \<open>The diff walker and the philosophy scanners\<close>

text \<open>\<^verbatim>\<open>\s\<close> and \<^verbatim>\<open>\w\<close> of the regexp package.\<close>

definition re_space :: "char \<Rightarrow> bool" where
  "re_space c \<longleftrightarrow> c \<in> {CHR 0x09, CHR 0x0A, CHR 0x0C, CHR 0x0D, CHR '' ''}"

definition re_word :: "char \<Rightarrow> bool" where
  "re_word c \<longleftrightarrow> (let n = (of_char c :: nat) in
     (48 \<le> n \<and> n \<le> 57) \<or> (65 \<le> n \<and> n \<le> 90) \<or> (97 \<le> n \<and> n \<le> 122) \<or> n = 95)"

definition skip_space :: "string \<Rightarrow> string" where
  "skip_space s = dropWhile re_space s"

text \<open>A literal after optional white space: the rest of the string after it.\<close>

definition after_lit :: "string \<Rightarrow> string \<Rightarrow> string option" where
  "after_lit lit s = (let t = skip_space s in if HasPrefix t lit then Some (drop (length lit) t) else None)"

definition plus_line :: "string \<Rightarrow> string option" where
  "plus_line s = (if HasPrefix s ''+'' then Some (drop 1 s) else None)"

definition opElseRe_match :: "string \<Rightarrow> bool" where
  "opElseRe_match s \<longleftrightarrow>
     Option.bind (Option.bind (Option.bind (plus_line s) (after_lit ''}'')) (after_lit ''else'')) (after_lit ''{'') \<noteq> None"

definition constDeclRe_name :: "string \<Rightarrow> string option" where
  "constDeclRe_name s =
     (case Option.bind (plus_line s) (after_lit ''const'') of
        None \<Rightarrow> None
      | Some t \<Rightarrow>
          let name = takeWhile re_word (skip_space t)
          in if t \<noteq> [] \<and> re_space (hd t) \<and> name \<noteq> [] then Some name else None)"

definition funcDeclRe_match :: "string \<Rightarrow> bool" where
  "funcDeclRe_match s \<longleftrightarrow>
     (case Option.bind (plus_line s) (after_lit ''func'') of None \<Rightarrow> False | Some t \<Rightarrow> t \<noteq> [] \<and> re_space (hd t))"

definition digits_then :: "string \<Rightarrow> string \<Rightarrow> string option" where
  "digits_then lit s =
     (let ds = takeWhile is_digit s; t = drop (length ds) s
      in if ds \<noteq> [] \<and> HasPrefix t lit then Some (drop (length lit) t) else None)"

fun versionRe_match :: "string \<Rightarrow> bool" where
  "versionRe_match [] = False"
| "versionRe_match (c # s) =
     (c = CHR 0x22 \<and>
        Option.bind (Option.bind (digits_then ''.'' s) (digits_then ''.'')) (digits_then [CHR 0x22]) \<noteq> None
      \<or> versionRe_match s)"

definition Count :: "string \<Rightarrow> char \<Rightarrow> int" where
  "Count s c = int (count_list s c)"

text \<open>\<^verbatim>\<open>fmt.Sscanf (s, "%d", &n)\<close>: the value stays 0 when no number can be scanned.\<close>

definition scan_int :: "string \<Rightarrow> int" where
  "scan_int s0 =
     (let s = dropWhile (\<lambda>c. c = CHR '' '' \<or> c = CHR 0x09 \<or> c = CHR 0x0D) s0;
          (neg, t) = (case s of c # r \<Rightarrow> if c = CHR ''-'' then (True, r) else if c = CHR ''+'' then (False, r) else (False, s)
                      | [] \<Rightarrow> (False, []));
          ds = takeWhile is_digit t;
          n = int (read_nat 0 ds);
          v = (if neg then - n else n)
      in if ds = [] \<or> \<not> in_i64 v then 0 else v)"

definition parseHunkStart :: "string \<Rightarrow> int" where
  "parseHunkStart hunk =
     (case Index hunk ''+'' of
        None \<Rightarrow> 0
      | Some idx \<Rightarrow>
          let sub = drop (idx + 1) hunk;
              end = (case Index sub '','' of
                       Some comma \<Rightarrow> comma
                     | None \<Rightarrow> (case Index sub '' '' of Some space \<Rightarrow> space | None \<Rightarrow> length sub))
          in scan_int (take end sub))"

definition TrimPrefix :: "string \<Rightarrow> string \<Rightarrow> string" where
  "TrimPrefix s p = (if HasPrefix s p then drop (length p) s else s)"

definition newFileFromGitHeader :: "string \<Rightarrow> string" where
  "newFileFromGitHeader line =
     (let rest = TrimPrefix line ''diff --git ''
      in case Index rest '' b/'' of Some i \<Rightarrow> drop (i + 3) rest | None \<Rightarrow> [])"

record addedLine =
  al_file :: string
  al_no :: int
  al_text :: string

text \<open>The two callbacks of the walk as a stream of events.\<close>

datatype diff_event = FileBoundary string | Added addedLine

fun diff_walk :: "string \<Rightarrow> int \<Rightarrow> bool \<Rightarrow> string list \<Rightarrow> diff_event list" where
  "diff_walk file lineNo sawHunk [] = []"
| "diff_walk file lineNo sawHunk (line # ls) =
     (if HasPrefix line ''diff --git'' then
        FileBoundary (newFileFromGitHeader line) # diff_walk (newFileFromGitHeader line) 0 False ls
      else if \<not> sawHunk \<and> HasPrefix line ''+++ '' then
        (let p = TrimPrefix line ''+++ b/''
         in diff_walk (if p \<noteq> line then TrimRight p (CHR 0x09) else file) lineNo sawHunk ls)
      else if HasPrefix line ''@@'' then diff_walk file (parseHunkStart line - 1) True ls
      else if HasPrefix line ''+'' then
        Added \<lparr>al_file = file, al_no = lineNo + 1, al_text = line\<rparr> # diff_walk file (lineNo + 1) sawHunk ls
      else diff_walk file lineNo sawHunk ls)"

definition forEachAddedLine :: "string \<Rightarrow> diff_event list" where
  "forEachAddedLine diff = diff_walk [] 0 False (Split diff (CHR 0x0A))"

definition viol :: "string \<Rightarrow> int \<Rightarrow> string \<Rightarrow> string \<Rightarrow> Violation" where
  "viol file line typ msg = \<lparr>v_File = file, v_Line = line, v_Type = typ, v_Message = msg, v_Check = None\<rparr>"

definition scanROP :: "string \<Rightarrow> Violation list" where
  "scanROP diff = concat (map (\<lambda>ev. case ev of
       Added a \<Rightarrow> if opElseRe_match (al_text a)
                  then [viol (al_file a) (al_no a) ''rop'' ''consider early return instead of else-after-return''] else []
     | FileBoundary _ \<Rightarrow> []) (forEachAddedLine diff))"

fun ssot_loop :: "(string \<Rightarrow> int option) \<Rightarrow> diff_event list \<Rightarrow> Violation list" where
  "ssot_loop seen [] = []"
| "ssot_loop seen (FileBoundary f # evs) = ssot_loop Map.empty evs"
| "ssot_loop seen (Added a # evs) =
     (case constDeclRe_name (al_text a) of
        None \<Rightarrow> ssot_loop seen evs
      | Some name \<Rightarrow>
          (case seen name of
             Some prev \<Rightarrow> [viol (al_file a) (al_no a) ''ssot''
               (''const '' @ name @ '' duplicates declaration at line '' @ show_int prev)]
           | None \<Rightarrow> []) @ ssot_loop (seen(name \<mapsto> al_no a)) evs)"

definition scanSSOT :: "string \<Rightarrow> Violation list" where
  "scanSSOT diff = ssot_loop Map.empty (forEachAddedLine diff)"

definition srp_check :: "int \<Rightarrow> int \<Rightarrow> addedLine \<Rightarrow> Violation list" where
  "srp_check funcStart funcLine a =
     (let len = al_no a - funcStart + 1 in
      if len > 60 then
        [viol (al_file a) funcLine ''srp'' (''function spans ~'' @ show_int len @ '' added lines; consider decomposition'')]
      else [])"

text \<open>The locals \<^verbatim>\<open>funcStart\<close> and \<^verbatim>\<open>funcLine\<close> are always set together.\<close>

fun srp_loop :: "int \<Rightarrow> int \<Rightarrow> bool \<Rightarrow> diff_event list \<Rightarrow> Violation list" where
  "srp_loop funcStart braceDepth inFunc [] = []"
| "srp_loop funcStart braceDepth inFunc (FileBoundary f # evs) = srp_loop funcStart braceDepth False evs"
| "srp_loop funcStart braceDepth inFunc (Added a # evs) =
     (let decl = funcDeclRe_match (al_text a);
          v1 = (if decl \<and> inFunc then srp_check funcStart funcStart a else []);
          (start, depth, inside) = (if decl then (al_no a, 0, True) else (funcStart, braceDepth, inFunc));
          depth' = (if inside then depth + Count (al_text a) (CHR ''{'') - Count (al_text a) (CHR ''}'') else depth);
          closes = (inside \<and> depth' \<le> 0 \<and> Contains (al_text a) ''}'');
          v2 = (if closes then srp_check start start a else [])
      in v1 @ v2 @ srp_loop start depth' (inside \<and> \<not> closes) evs)"

definition scanSRP :: "string \<Rightarrow> Violation list" where
  "scanSRP diff = srp_loop 0 0 False (forEachAddedLine diff)"

definition scanHardcodedVersions :: "string \<Rightarrow> Violation list" where
  "scanHardcodedVersions diff = concat (map (\<lambda>ev. case ev of
       Added a \<Rightarrow> if Contains (al_file a) ''_test.go'' then []
                  else if versionRe_match (al_text a)
                  then [viol (al_file a) (al_no a) ''hardcoded-version''
                          ''version literal detected; consider externalising to a constant or config''] else []
     | FileBoundary _ \<Rightarrow> []) (forEachAddedLine diff))"

definition gitDiffSince :: "'w host \<Rightarrow> string \<Rightarrow> 'w \<Rightarrow> (string + string) \<times> 'w" where
  "gitDiffSince h baselineSHA w =
     (if baselineSHA = [] then (Inr [], w)
      else let (out, w1) = ho_exec h [''git'', ''diff'', baselineSHA] w in
        (case co_err out of Some e \<Rightarrow> Inl (''git diff: '' @ e) | None \<Rightarrow> Inr (co_stdout out), w1))"

definition PhilosophyGate_Run :: "'w host \<Rightarrow> 'w gate_run" where
  "PhilosophyGate_Run h s w =
     (let start = ho_now h w; report = new_report ''philosophy'' in
      (case gitDiffSince h (cs_BaselineSHA s) w of
         (Inl e, w1) \<Rightarrow> fail_with h start report e HaltGateFailure s w1
       | (Inr diff, w1) \<Rightarrow>
           let violations = scanROP diff @ scanSSOT diff @ scanSRP diff @ scanHardcodedVersions diff;
               report1 = report\<lparr>gr_Violations := violations, gr_DurationMS := elapsed h start w1\<rparr>
           in if violations \<noteq> [] then
                let report2 = report1\<lparr>gr_Passed := False,
                      gr_Stderr := ''found '' @ show_nat (length violations) @ '' philosophy violation(s)''\<rparr>
                in if cs_ViolationsFound s \<noteq> [] \<and> length violations > length (cs_ViolationsFound s)
                   then (GateFailure report2 HaltSelfAuditViolation, s, w1)
                   else (GateWarning report2, s\<lparr>cs_ViolationsFound := violations\<rparr>, w1)
              else (GateSuccess (report1\<lparr>gr_Passed := True\<rparr>), s\<lparr>cs_ViolationsFound := []\<rparr>, w1)))"

subsection \<open>The standard pipeline\<close>

definition gate :: "string \<Rightarrow> 'w gate_run \<Rightarrow> 'w Gate" where
  "gate name run = \<lparr>ga_Name = name, ga_Run = run\<rparr>"

definition StandardPipeline :: "'w host \<Rightarrow> string \<Rightarrow> string \<Rightarrow> string list \<Rightarrow> 'w Pipeline" where
  "StandardPipeline h auditCmd polishTestCmd localGates =
     [gate ''preflight'' (PreflightGate_Run h), gate ''audit'' (AuditGate_Run h auditCmd)] @
     map (\<lambda>rawCmd. gate (CommandGate_Name rawCmd) (CommandGate_Run h rawCmd)) localGates @
     [gate ''claim'' (ClaimGate_Run h), gate ''philosophy'' (PhilosophyGate_Run h),
      gate ''polish'' (PolishGate_Run h polishTestCmd), gate ''commit'' (CommitGate_Run h)]"

end
