(* ===== verification/StandardGates.thy ===== *)
theory StandardGates
  imports Gates
begin

section \<open>What the standard gates guarantee\<close>

text \<open>
  Lemmas over the gates of \<open>Gates\<close> and their composition: what no gate changes (which
  discharges the hypotheses the loops put on a pipeline), what a green pipeline has
  checked, and what it refuses.
\<close>

subsection \<open>What no gate changes\<close>

definition fixed_part :: "State \<Rightarrow> string \<times> string \<times> int \<times> int \<times> bool \<times> string list" where
  "fixed_part s = (cs_ID s, cs_NextCycleGoal s, cs_CompletedCycles s, cs_MaxCycles s, cs_Halted s, cs_LocalGates s)"

definition keeps_fixed :: "'w gate_run \<Rightarrow> bool" where
  "keeps_fixed run \<longleftrightarrow> (\<forall>s w. fixed_part (fst (snd (run s w))) = fixed_part s)"

lemma fixed_part_updates [simp]:
  "fixed_part (s\<lparr>cs_Branch := x\<rparr>) = fixed_part s"
  "fixed_part (s\<lparr>cs_BaselineSHA := x\<rparr>) = fixed_part s"
  "fixed_part (s\<lparr>cs_ViolationsFound := vs\<rparr>) = fixed_part s"
  "fixed_part (re_value (AppendReport now r s)) = fixed_part s"
  by (simp_all add: fixed_part_def AppendReport_def Success_def)

lemma fail_with_state [simp]: "fst (snd (fail_with h start r msg reason s w)) = s"
  by (simp add: fail_with_def)

lemma runShellGate_state [simp]: "fst (snd (runShellGate h argv label r start s w)) = s"
  by (simp add: runShellGate_def Let_def split: prod.split option.split)

lemma PreflightGate_keeps: "keeps_fixed (PreflightGate_Run h)"
  unfolding keeps_fixed_def PreflightGate_Run_def Let_def
  by (intro allI) (simp split: sum.split prod.split option.split if_split)

lemma shell_gates_keep:
  "keeps_fixed (AuditGate_Run h a)" "keeps_fixed (CommandGate_Run h c)" "keeps_fixed (LocalAuditGate_Run h)"
  by (simp_all add: keeps_fixed_def AuditGate_Run_def CommandGate_Run_def LocalAuditGate_Run_def Let_def)

lemma ClaimGate_keeps: "keeps_fixed (ClaimGate_Run h)"
  unfolding keeps_fixed_def ClaimGate_Run_def Let_def by (intro allI) (simp split: prod.split)

lemma PhilosophyGate_keeps: "keeps_fixed (PhilosophyGate_Run h)"
  unfolding keeps_fixed_def PhilosophyGate_Run_def Let_def
  by (intro allI) (simp split: sum.split prod.split)

lemma PolishGate_keeps: "keeps_fixed (PolishGate_Run h p)"
  unfolding keeps_fixed_def PolishGate_Run_def Let_def
  by (intro allI) (simp split: prod.split)

lemma CommitGate_keeps: "keeps_fixed (CommitGate_Run h)"
  unfolding keeps_fixed_def CommitGate_Run_def Let_def
  by (intro allI) (simp split: prod.split option.split)

lemmas gates_keep = PreflightGate_keeps shell_gates_keep ClaimGate_keeps PhilosophyGate_keeps
  PolishGate_keeps CommitGate_keeps

lemma StandardPipeline_keeps: "list_all (\<lambda>g. keeps_fixed (ga_Run g)) (StandardPipeline h a p ls)"
  by (simp add: StandardPipeline_def gate_def gates_keep list_all_iff)

lemma keeps_fixed_pipeline:
  "list_all (\<lambda>g. keeps_fixed (ga_Run g)) p \<Longrightarrow> keeps_counters p \<and> keeps_id p"
  by (auto simp: list_all_iff keeps_counters_def keeps_id_def keeps_fixed_def fixed_part_def counters_def)

lemma run_gates_fixed:
  "list_all (\<lambda>g. keeps_fixed (ga_Run g)) p \<Longrightarrow> run_gates p s w = (rs, s', w') \<Longrightarrow> fixed_part s' = fixed_part s"
proof (induction p arbitrary: s w rs)
  case (Cons g gs)
  obtain r s1 w1 where g: "ga_Run g s w = (r, s1, w1)" by (cases "ga_Run g s w") auto
  obtain rs1 where rs: "run_gates gs s1 w1 = (rs1, s', w')" using Cons.prems(2) g by (auto split: prod.splits)
  from Cons.prems(1) have "fixed_part (fst (snd (ga_Run g s w))) = fixed_part s" by (simp add: keeps_fixed_def)
  with g Cons.IH [OF _ rs] Cons.prems(1) show ?case by simp
qed simp

text \<open>
  The standard pipeline: its gates in order, none of which changes the cycle's id, its goal,
  its counters, its halt flag or its local gates, whatever the commands print. So it meets
  what the driver, the orchestrator and the one-shot pass ask of a pipeline.
\<close>

theorem StandardPipeline_keeps_cycle:
  "Names (StandardPipeline h a p ls) =
     [''preflight'', ''audit''] @ map (\<lambda>c. ''cmd:'' @ c) ls @ [''claim'', ''philosophy'', ''polish'', ''commit'']
   \<and> keeps_counters (StandardPipeline h a p ls) \<and> keeps_id (StandardPipeline h a p ls)
   \<and> fixed_part (fst (snd (run_gates (StandardPipeline h a p ls) s w))) = fixed_part s"
proof -
  obtain rs s' w' where r: "run_gates (StandardPipeline h a p ls) s w = (rs, s', w')"
    by (cases "run_gates (StandardPipeline h a p ls) s w") auto
  show ?thesis
    using keeps_fixed_pipeline [OF StandardPipeline_keeps, of h a p ls]
      run_gates_fixed [OF StandardPipeline_keeps r] r
    by (simp add: Names_def StandardPipeline_def gate_def CommandGate_Name_def)
qed


subsection \<open>What a green pipeline has checked\<close>

text \<open>Commands run one after the other, each of which ends without an error.\<close>

fun exec_all :: "'w host \<Rightarrow> string list list \<Rightarrow> 'w \<Rightarrow> 'w option" where
  "exec_all h [] w = Some w"
| "exec_all h (argv # rest) w =
     (let (out, w') = ho_exec h argv w in if co_err out = None then exec_all h rest w' else None)"

text \<open>The command of the audit gate and of the test run of the polish gate.\<close>

definition override_or :: "string \<Rightarrow> string \<Rightarrow> string" where
  "override_or dflt cmd = (if cmd \<noteq> [] then TrimSpace cmd else dflt)"

lemma fail_with_blocks [simp]: "blocks (fst (fail_with h start r msg reason s w))"
  by (simp add: fail_with_def)

lemma runShellGate_passes:
  assumes "runShellGate h argv label r start s w = (res, s', w')" "\<not> blocks res"
  shows "s' = s \<and> exec_all h [argv] w = Some w'"
  using assms by (auto simp: runShellGate_def Let_def split: prod.splits option.splits)

lemma AuditGate_passes:
  assumes "AuditGate_Run h a s w = (res, s', w')" "\<not> blocks res"
  shows "s' = s \<and> exec_all h [Fields (override_or defaultAuditCmd a)] w = Some w'"
proof (cases "a \<noteq> [] \<and> TrimSpace a = []")
  case True
  with assms show ?thesis by (auto simp: AuditGate_Run_def fail_with_def)
next
  case False
  then have "AuditGate_Run h a s w = (let c = override_or defaultAuditCmd a in
      runShellGate h (Fields c) c (new_report ''audit'') (ho_now h w) s w)"
    by (auto simp: AuditGate_Run_def Let_def override_or_def)
  with assms show ?thesis by (simp only: Let_def) (rule runShellGate_passes)
qed

lemma CommandGate_passes:
  assumes "CommandGate_Run h c s w = (res, s', w')" "\<not> blocks res"
  shows "s' = s \<and> exec_all h [Fields c] w = Some w'"
proof (cases "Fields c = []")
  case True
  with assms show ?thesis by (auto simp: CommandGate_Run_def fail_with_def)
next
  case False
  with assms show ?thesis by (auto simp: CommandGate_Run_def Let_def dest: runShellGate_passes)
qed

lemma exec_all_append:
  "exec_all h xs w = Some w1 \<Longrightarrow> exec_all h (xs @ ys) w = exec_all h ys w1"
  by (induction xs arbitrary: w) (auto split: prod.splits if_splits)

lemma commands_pass:
  "run_gates (map (\<lambda>c. gate (CommandGate_Name c) (CommandGate_Run h c)) ls) s w = (rs, s', w') \<Longrightarrow>
   list_all (\<lambda>r. \<not> blocks r) rs \<Longrightarrow> s' = s \<and> exec_all h (map Fields ls) w = Some w'"
proof (induction ls arbitrary: w rs)
  case (Cons c cs)
  obtain r s1 w1 where g: "CommandGate_Run h c s w = (r, s1, w1)" by (cases "CommandGate_Run h c s w") auto
  obtain rs1 where rs: "run_gates (map (\<lambda>c. gate (CommandGate_Name c) (CommandGate_Run h c)) cs) s1 w1 = (rs1, s', w')"
    "rs = r # rs1" using Cons.prems(1) g by (auto simp: gate_def split: prod.splits)
  from CommandGate_passes [OF g] Cons.prems(2) rs(2) have c: "s1 = s" "exec_all h [Fields c] w = Some w1" by auto
  from Cons.IH [of w1 rs1] rs Cons.prems(2) c(1) have "s' = s" "exec_all h (map Fields cs) w1 = Some w'" by auto
  with exec_all_append [OF c(2), of "map Fields cs"] show ?case by simp
qed simp

lemma PreflightGate_passes:
  assumes "PreflightGate_Run h s w = (res, s', w')" "\<not> blocks res"
  obtains b w1 w2 where "gitBranch h w = (Inr b, w1)" "b \<noteq> ''main''" "b \<noteq> ''master''"
    "gitIsClean h w1 = (Inr True, w2)" "cs_Branch s' = b" "cs_ViolationsFound s' = cs_ViolationsFound s"
proof -
  obtain rb w1 where b: "gitBranch h w = (rb, w1)" by (cases "gitBranch h w") auto
  obtain rc w2 where c: "gitIsClean h w1 = (rc, w2)" by (cases "gitIsClean h w1") auto
  obtain rh w3 where hd: "gitHead h w2 = (rh, w3)" by (cases "gitHead h w2") auto
  obtain ra w4 where a: "sshAuthCheck h w3 = (ra, w4)" by (cases "sshAuthCheck h w3") auto
  note defs = PreflightGate_Run_def Let_def fail_with_def
  from assms b obtain br where br: "rb = Inr br" "br \<noteq> ''main''" "br \<noteq> ''master''"
    by (cases rb) (auto simp: defs split: if_splits)
  from assms b br c have cl: "rc = Inr True" by (cases rc) (auto simp: defs split: if_splits)
  from assms b br c cl hd obtain sha where sha: "rh = Inr sha" by (cases rh) (auto simp: defs)
  from assms b br c cl hd sha a have "cs_Branch s' = br \<and> cs_ViolationsFound s' = cs_ViolationsFound s"
    by (cases ra) (auto simp: defs split: if_splits)
  with that b br c cl show thesis by blast
qed

lemma ClaimGate_passes:
  assumes "ClaimGate_Run h s w = (res, s', w')" "\<not> blocks res"
  obtains checks out err where "claim_loop h (cs_ViolationsFound s) [] [] [] w = ((checks, out, err), w')"
    "list_all cc_Verified checks"
proof -
  obtain checks out err w1 where "claim_loop h (cs_ViolationsFound s) [] [] [] w = ((checks, out, err), w1)"
    by (metis prod_cases3 surj_pair)
  with assms that show thesis
    by (auto simp: ClaimGate_Run_def Let_def list_all_iff filter_empty_conv split: if_splits)
qed

lemma violations_Nil [simp]:
  "test_violations c out = [] \<longleftrightarrow> co_err out = None"
  "ansi_violations e = [] \<longleftrightarrow> e = None"
  "goal_violations g = [] \<longleftrightarrow> g \<noteq> [] \<and> hasConventionalPrefix g"
  by (simp_all add: test_violations_def ansi_violations_def goal_violations_def split: option.splits)

lemma PolishGate_passes:
  assumes "PolishGate_Run h p s w = (res, s', w')" "\<not> blocks res"
  shows "s' = s \<and> exec_all h [Fields (override_or defaultPolishTestCmd p)] w \<noteq> None \<and>
    hasConventionalPrefix (TrimSpace (cs_NextCycleGoal s))"
proof (cases "p \<noteq> [] \<and> TrimSpace p = []")
  case True
  then have "blocks (fst (PolishGate_Run h p s w))" by (simp add: PolishGate_Run_def Let_def)
  with assms show ?thesis by simp
next
  case False
  obtain vs w1 where v: "polish_checks h (override_or defaultPolishTestCmd p) s w = (vs, w1)"
    by (cases "polish_checks h (override_or defaultPolishTestCmd p) s w") auto
  with False have "PolishGate_Run h p s w = (let report = (new_report ''polish'')\<lparr>gr_Violations := vs,
        gr_DurationMS := elapsed h (ho_now h w) w1\<rparr> in
      if vs \<noteq> [] then (GateFailure (report\<lparr>gr_Passed := False,
          gr_Stderr := ''polish found '' @ show_nat (length vs) @ '' issue(s)''\<rparr>) HaltGateFailure, s, w1)
      else (GateSuccess (report\<lparr>gr_Passed := True\<rparr>), s, w1))"
    by (simp only: PolishGate_Run_def Let_def override_or_def if_False split_conv)
  with assms have "s' = s" "vs = []" by (auto simp: Let_def split: if_splits)
  with v show ?thesis
    by (auto simp: polish_checks_def Let_def split: prod.splits)
qed

lemma CommitGate_passes:
  assumes "CommitGate_Run h s w = (res, s', w')" "\<not> blocks res"
  obtains w1 where "s' = s" "exec_all h [[''git'', ''add'', ''-A'']] w = Some w1"
    "snd (ho_exec h [''git'', ''commit'', ''-m'',
       deriveCommitMessage (cs_NextCycleGoal s) (cs_CompletedCycles s + 1)] w1) = w'"
  using assms by (auto simp: CommitGate_Run_def Let_def fail_with_def split: prod.splits option.splits if_splits)

lemma not_conventional_Nil [simp]: "\<not> hasConventionalPrefix []"
  by (simp add: hasConventionalPrefix_def conventional_prefixes_def HasPrefix_def)

lemma deriveCommitMessage_conventional:
  "hasConventionalPrefix (TrimSpace goal) \<Longrightarrow>
   deriveCommitMessage goal n = TrimSpace goal @ '' [cycle-'' @ show_int n @ '']''"
  by (cases "TrimSpace goal = []") (auto simp: deriveCommitMessage_def Let_def)

lemma run_gates_single: "run_gates [gate nm run] s w = (rs, s', w') \<longleftrightarrow> (\<exists>r. run s w = (r, s', w') \<and> rs = [r])"
  by (auto simp: gate_def split: prod.splits)

lemma run_gates_Cons:
  "run_gates (gate nm run # gs) s w = (rs, s', w') \<longleftrightarrow>
     (\<exists>r s1 w1 rs1. run s w = (r, s1, w1) \<and> run_gates gs s1 w1 = (rs1, s', w') \<and> rs = r # rs1)"
  by (auto simp: gate_def split: prod.splits)

lemma run_gates_appendE:
  assumes "run_gates (gs @ hs) s w = (rs, s', w')"
  obtains rs1 s1 w1 rs2 where "run_gates gs s w = (rs1, s1, w1)" "run_gates hs s1 w1 = (rs2, s', w')"
    "rs = rs1 @ rs2"
  using assms by (auto simp: run_gates_append split: prod.splits)

text \<open>The runs of the seven stages of a green standard pipeline.\<close>

lemma StandardPipeline_stages:
  assumes "run_gates (StandardPipeline h a p ls) s w = (rs, s', w')" "list_all (\<lambda>r. \<not> blocks r) rs"
  obtains r1 s1 w1 r2 s2 w2 rl s3 w3 r4 s4 w4 r5 s5 w5 r6 s6 w6 r7
  where "PreflightGate_Run h s w = (r1, s1, w1)" "\<not> blocks r1"
    "AuditGate_Run h a s1 w1 = (r2, s2, w2)" "\<not> blocks r2"
    "run_gates (map (\<lambda>c. gate (CommandGate_Name c) (CommandGate_Run h c)) ls) s2 w2 = (rl, s3, w3)"
    "list_all (\<lambda>r. \<not> blocks r) rl"
    "ClaimGate_Run h s3 w3 = (r4, s4, w4)" "\<not> blocks r4"
    "PhilosophyGate_Run h s4 w4 = (r5, s5, w5)" "\<not> blocks r5"
    "PolishGate_Run h p s5 w5 = (r6, s6, w6)" "\<not> blocks r6"
    "CommitGate_Run h s6 w6 = (r7, s', w')" "\<not> blocks r7"
proof -
  from assms obtain r1 s1 w1 r2 s2 w2 rs2 where 1: "PreflightGate_Run h s w = (r1, s1, w1)"
    "AuditGate_Run h a s1 w1 = (r2, s2, w2)" "rs = r1 # r2 # rs2"
    and rest: "run_gates (map (\<lambda>c. gate (CommandGate_Name c) (CommandGate_Run h c)) ls @
      [gate ''claim'' (ClaimGate_Run h), gate ''philosophy'' (PhilosophyGate_Run h),
       gate ''polish'' (PolishGate_Run h p), gate ''commit'' (CommitGate_Run h)]) s2 w2 = (rs2, s', w')"
    unfolding StandardPipeline_def append.simps by (auto simp only: run_gates_Cons)
  from rest obtain rl s3 w3 rs3 where 2: "run_gates (map (\<lambda>c. gate (CommandGate_Name c) (CommandGate_Run h c)) ls)
      s2 w2 = (rl, s3, w3)" "rs2 = rl @ rs3"
    and tail: "run_gates [gate ''claim'' (ClaimGate_Run h), gate ''philosophy'' (PhilosophyGate_Run h),
       gate ''polish'' (PolishGate_Run h p), gate ''commit'' (CommitGate_Run h)] s3 w3 = (rs3, s', w')"
    by (rule run_gates_appendE)
  from tail obtain r4 s4 w4 r5 s5 w5 r6 s6 w6 r7 where 3: "ClaimGate_Run h s3 w3 = (r4, s4, w4)"
    "PhilosophyGate_Run h s4 w4 = (r5, s5, w5)" "PolishGate_Run h p s5 w5 = (r6, s6, w6)"
    "CommitGate_Run h s6 w6 = (r7, s', w')" "rs3 = [r4, r5, r6, r7]"
    by (auto simp only: run_gates_Cons run_gates.simps(1) prod.inject)
  from assms(2) 1(3) 2(2) 3(5) have "\<not> blocks r1" "\<not> blocks r2" "list_all (\<lambda>r. \<not> blocks r) rl"
    "\<not> blocks r4" "\<not> blocks r5" "\<not> blocks r6" "\<not> blocks r7" by simp_all
  with that 1 2 3 show thesis by blast
qed

lemma branch_kept:
  "ClaimGate_Run h s w = (r, s', w') \<Longrightarrow> cs_Branch s' = cs_Branch s"
  "PhilosophyGate_Run h s w = (r, s', w') \<Longrightarrow> cs_Branch s' = cs_Branch s"
  by (auto simp: ClaimGate_Run_def PhilosophyGate_Run_def Let_def AppendReport_def Success_def fail_with_def
      split: prod.splits sum.splits if_splits)

lemma keeps_fixedD: "keeps_fixed run \<Longrightarrow> run s w = (r, s', w') \<Longrightarrow> fixed_part s' = fixed_part s"
  unfolding keeps_fixed_def by (metis fst_conv snd_conv)

text \<open>
  (C22) Green means checked. When the standard pipeline succeeds, the branch was neither main nor
  master and the working tree was clean; the audit command and then every local gate
  command ran without an error; every claim the cycle carried was verified; the test
  command ran without an error and the goal has a conventional prefix; and the last two
  commands were \<^verbatim>\<open>git add -A\<close>, without an error, and \<^verbatim>\<open>git commit\<close> with the goal as its
  message and the number of the cycle that is being completed.
\<close>

theorem green_means_checked:
  assumes "Execute now (StandardPipeline h a p ls) s w = (res, w')" and "IsSuccess res"
  shows "\<exists>b w0 w00 w1 w3 checks out err w4 w5 w6 w7.
    gitBranch h w = (Inr b, w0) \<and> b \<notin> {''main'', ''master''} \<and> cs_Branch (re_value res) = b \<and>
    gitIsClean h w0 = (Inr True, w00) \<and>
    exec_all h (map Fields (override_or defaultAuditCmd a # ls)) w1 = Some w3 \<and>
    claim_loop h (cs_ViolationsFound s) [] [] [] w3 = ((checks, out, err), w4) \<and> list_all cc_Verified checks \<and>
    exec_all h [Fields (override_or defaultPolishTestCmd p)] w5 \<noteq> None \<and>
    hasConventionalPrefix (TrimSpace (cs_NextCycleGoal s)) \<and>
    exec_all h [[''git'', ''add'', ''-A'']] w6 = Some w7 \<and>
    snd (ho_exec h [''git'', ''commit'', ''-m'',
      TrimSpace (cs_NextCycleGoal s) @ '' [cycle-'' @ show_int (cs_CompletedCycles s + 1) @ '']''] w7) = w'"
proof -
  from Execute_success [OF assms(1)] assms(2) obtain rs where
    run: "run_gates (StandardPipeline h a p ls) s w = (rs, re_value res, w')" "list_all (\<lambda>r. \<not> blocks r) rs"
    unfolding IsSuccess_iff by blast
  then obtain r1 s1 w1 r2 s2 w2 rl s3 w3 r4 s4 w4 r5 s5 w5 r6 s6 w6 r7
    where st: "PreflightGate_Run h s w = (r1, s1, w1)" "\<not> blocks r1"
      "AuditGate_Run h a s1 w1 = (r2, s2, w2)" "\<not> blocks r2"
      "run_gates (map (\<lambda>c. gate (CommandGate_Name c) (CommandGate_Run h c)) ls) s2 w2 = (rl, s3, w3)"
      "list_all (\<lambda>r. \<not> blocks r) rl"
      "ClaimGate_Run h s3 w3 = (r4, s4, w4)" "\<not> blocks r4"
      "PhilosophyGate_Run h s4 w4 = (r5, s5, w5)" "\<not> blocks r5"
      "PolishGate_Run h p s5 w5 = (r6, s6, w6)" "\<not> blocks r6"
      "CommitGate_Run h s6 w6 = (r7, re_value res, w')" "\<not> blocks r7"
    by (rule StandardPipeline_stages)
  obtain b w0 w00 where pre: "gitBranch h w = (Inr b, w0)" "b \<noteq> ''main''" "b \<noteq> ''master''"
    "gitIsClean h w0 = (Inr True, w00)" "cs_Branch s1 = b" "cs_ViolationsFound s1 = cs_ViolationsFound s"
    by (rule PreflightGate_passes [OF st(1,2)])
  from AuditGate_passes [OF st(3,4)] commands_pass [OF st(5,6)]
  have s3: "s3 = s1" and ex: "exec_all h (map Fields (override_or defaultAuditCmd a # ls)) w1 = Some w3"
    using exec_all_append [of h "[Fields (override_or defaultAuditCmd a)]" w1 w2 "map Fields ls"] by auto
  obtain checks out err where cl: "claim_loop h (cs_ViolationsFound s3) [] [] [] w3 = ((checks, out, err), w4)"
    "list_all cc_Verified checks" by (rule ClaimGate_passes [OF st(7,8)])
  have po: "s6 = s5" "exec_all h [Fields (override_or defaultPolishTestCmd p)] w5 \<noteq> None"
    "hasConventionalPrefix (TrimSpace (cs_NextCycleGoal s5))"
    using PolishGate_passes [OF st(11,12)] by blast+
  obtain w7 where co: "re_value res = s6" "exec_all h [[''git'', ''add'', ''-A'']] w6 = Some w7"
    "snd (ho_exec h [''git'', ''commit'', ''-m'',
       deriveCommitMessage (cs_NextCycleGoal s6) (cs_CompletedCycles s6 + 1)] w7) = w'"
    by (rule CommitGate_passes [OF st(13,14)])
  from keeps_fixedD [OF PreflightGate_keeps st(1)] keeps_fixedD [OF ClaimGate_keeps st(7)]
    keeps_fixedD [OF PhilosophyGate_keeps st(9)] s3
  have "fixed_part s5 = fixed_part s" by simp
  then have g: "cs_NextCycleGoal s5 = cs_NextCycleGoal s" "cs_CompletedCycles s5 = cs_CompletedCycles s"
    by (simp_all add: fixed_part_def)
  have "cs_Branch (re_value res) = b" using branch_kept(1) [OF st(7)] branch_kept(2) [OF st(9)] s3 pre(5) po(1) co(1) by simp
  with pre ex cl po co g s3 deriveCommitMessage_conventional [of "cs_NextCycleGoal s" "cs_CompletedCycles s + 1"]
  show ?thesis by (intro exI conjI) (assumption | simp)+
qed

subsection \<open>What the standard pipeline refuses\<close>

lemma green_goal:
  assumes "IsSuccess (fst (Execute now (StandardPipeline h a p ls) s w))"
  shows "hasConventionalPrefix (TrimSpace (cs_NextCycleGoal s))"
proof -
  obtain res w' where "Execute now (StandardPipeline h a p ls) s w = (res, w')"
    by (cases "Execute now (StandardPipeline h a p ls) s w") auto
  from Execute_success [OF this] this assms obtain rs where
    run: "run_gates (StandardPipeline h a p ls) s w = (rs, re_value res, w')" "list_all (\<lambda>r. \<not> blocks r) rs"
    unfolding IsSuccess_iff by auto
  then obtain s4 w4 r5 s5 w5 r6 s6 w6 r1 s1 w1 r2 s2 w2 rl s3 w3 r4
    where st: "PreflightGate_Run h s w = (r1, s1, w1)" "AuditGate_Run h a s1 w1 = (r2, s2, w2)" "\<not> blocks r2"
      "run_gates (map (\<lambda>c. gate (CommandGate_Name c) (CommandGate_Run h c)) ls) s2 w2 = (rl, s3, w3)"
      "list_all (\<lambda>r. \<not> blocks r) rl" "ClaimGate_Run h s3 w3 = (r4, s4, w4)"
      "PhilosophyGate_Run h s4 w4 = (r5, s5, w5)" "PolishGate_Run h p s5 w5 = (r6, s6, w6)" "\<not> blocks r6"
    by (rule StandardPipeline_stages)
  from keeps_fixedD [OF PreflightGate_keeps st(1)] keeps_fixedD [OF ClaimGate_keeps st(6)]
    keeps_fixedD [OF PhilosophyGate_keeps st(7)] AuditGate_passes [OF st(2,3)] commands_pass [OF st(4,5)]
  have "cs_NextCycleGoal s5 = cs_NextCycleGoal s" by (simp add: fixed_part_def)
  with PolishGate_passes [OF st(8,9)] show ?thesis by simp
qed

text \<open>
  No commit on a protected branch. When git says that the current branch is main or master,
  a step with the standard pipeline runs that one command and no other, halts the cycle
  with the preflight reason, and records the pinned gates only.
\<close>

theorem protected_branch_never_committed:
  assumes "gitBranch h (sy_world sy) = (Inr b, w')" and "b = ''main'' \<or> b = ''master''"
    and "TrimSpace (cs_NextCycleGoal s) \<noteq> []"
  shows "\<exists>r report. Driver_Step out now (StandardPipeline h a p ls) s sy =
      (r, (record_entry out (pin_entry now s) sy)\<lparr>sy_world := w'\<rparr>) \<and>
    re_err r = Some (HaltedError HaltPreflightFailed [report]) \<and> \<not> gr_Passed report \<and>
    cs_Halted (re_value r) \<and> cs_HaltReason (re_value r) = HaltPreflightFailed"
proof -
  obtain report where g: "PreflightGate_Run h s (sy_world sy) = (GateFailure report HaltPreflightFailed, s, w')"
    "\<not> gr_Passed report"
    using assms(1,2) by (auto simp: PreflightGate_Run_def fail_with_def)
  obtain gs where p: "StandardPipeline h a p ls = gate ''preflight'' (PreflightGate_Run h) # gs"
    by (simp add: StandardPipeline_def)
  from g(1) have run: "ga_Run (gate ''preflight'' (PreflightGate_Run h)) s (sy_world sy) =
      (GateFailure report HaltPreflightFailed, s, w')" by (simp add: gate_def)
  have "Execute now (StandardPipeline h a p ls) s (sy_world sy) =
      (let halted = re_value (Halt now HaltPreflightFailed (s\<lparr>cs_LastFailedGate := gr_Gate report\<rparr>))
       in (Failure halted (HaltedError HaltPreflightFailed [report]) [report], w'))"
    using Execute_fail [of "[]" s "sy_world sy" "[]" s "sy_world sy", OF _ _ run, of now gs] p by (simp add: Let_def)
  with g(2) p assms(3) show ?thesis
    by (auto simp: Driver_Step_eq Let_def Halt_value)
qed

text \<open>The goals that discovery makes have a scope in their prefix, which the list does not have.\<close>

lemma first_lines_scoped:
  "first_vet_line ls \<noteq> [] \<Longrightarrow> HasPrefix (first_vet_line ls) ''fix(''"
  "first_lint_line ls \<noteq> [] \<Longrightarrow> HasPrefix (first_lint_line ls) ''fix(''"
  "first_todo file i ls = Some g \<Longrightarrow> HasPrefix g ''fix(''"
  by (induction ls arbitrary: i) (auto simp: Let_def HasPrefix_def split: if_splits)

lemma scan_files_scoped: "scan_files rf fs \<noteq> [] \<Longrightarrow> HasPrefix (scan_files rf fs) ''fix(''"
  by (induction fs) (auto split: if_splits option.splits dest: first_lines_scoped(3))

lemma discovered_scoped:
  assumes "discoverNextGoal lb rf run = Inr goal" "goal \<noteq> []"
  shows "HasPrefix goal ''fix(''"
proof -
  have r: "HasPrefix g ''fix(''" if "r \<in> {runGoVet run, runGolangciLintFast lb run, scanTODOs rf run}"
    "r = Inr g" "g \<noteq> []" for r g
    using that by (auto simp: runGoVet_def runGolangciLintFast_def scanTODOs_def parseGoVetOutput_def
        parseLintOutput_def scanFilesForTODOs_def Let_def first_lines_scoped scan_files_scoped
        split: option.splits if_splits)
  have "discover_loop ranAny errs rs = Inr goal \<Longrightarrow> \<exists>r\<in>set rs. r = Inr goal" for ranAny errs rs
    using assms(2) by (induction rs arbitrary: ranAny errs) (auto split: sum.splits if_splits)
  from this [of False "[]" "[runGoVet run, runGolangciLintFast lb run, scanTODOs rf run]"] assms r
  show ?thesis by (auto simp: discoverNextGoal_def)
qed

lemma TrimRightSpace_take: "\<exists>n. TrimRightSpace s = take n s"
proof (induction s rule: TrimRightSpace.induct)
  case (1 s)
  show ?case
  proof (cases "s = [] \<or> space_suffix_len s = 0")
    case True
    then have "TrimRightSpace s = take (length s) s" by (subst TrimRightSpace.simps) simp
    then show ?thesis by blast
  next
    case False
    then have "TrimRightSpace s = TrimRightSpace (take (length s - space_suffix_len s) s)"
      by (subst TrimRightSpace.simps) simp
    with 1 [OF False] show ?thesis by (auto simp: take_take)
  qed
qed

lemma scoped_not_conventional:
  assumes "HasPrefix goal ''fix(''"
  shows "\<not> hasConventionalPrefix (TrimSpace goal)"
proof -
  obtain t where t: "goal = ''fix('' @ t" using assms by (auto simp: HasPrefix_iff)
  have "space_len goal = 0" by (simp add: t space_len_def space_runes_def HasPrefix_def)
  then have "TrimLeftSpace goal = goal" by (subst TrimLeftSpace.simps) simp
  then obtain n where n: "TrimSpace goal = take n goal" using TrimRightSpace_take by (auto simp: TrimSpace_def)
  have up: "HasPrefix (take n goal) q \<Longrightarrow> HasPrefix goal q" for q
    by (auto simp: HasPrefix_iff) (metis append.assoc append_take_drop_id)
  have "\<not> hasConventionalPrefix goal"
    by (simp add: t hasConventionalPrefix_def conventional_prefixes_def HasPrefix_def)
  with up show ?thesis by (auto simp: n hasConventionalPrefix_def list_ex_iff)
qed

text \<open>
  A discovered goal is refused. Whatever \<^verbatim>\<open>discoverNextGoal\<close> finds for the next cycle, the
  standard pipeline fails on a state with that goal, whatever every command answers: the
  goals read \<^verbatim>\<open>fix(vet): ...\<close>, \<^verbatim>\<open>fix(lint): ...\<close> or \<^verbatim>\<open>fix(todo): ...\<close>, and the polish gate wants
  \<^verbatim>\<open>fix:\<close>. So the cycle that follows a discovery never completes.
\<close>

theorem discovered_goal_never_passes:
  assumes "discoverNextGoal lb rf run = Inr goal" and "goal \<noteq> []" and "cs_NextCycleGoal s = goal"
  shows "IsFailure (fst (Execute now (StandardPipeline h a p ls) s w)) \<and>
    re_err (fst (Driver_Step out t (StandardPipeline h a p ls) s sy)) \<noteq> None"
proof -
  have fails: "IsFailure (fst (Execute t' (StandardPipeline h a p ls) s w'))" for t' w'
    using green_goal [of t' h a p ls s w'] scoped_not_conventional [OF discovered_scoped [OF assms(1,2)]] assms(3)
    by (auto simp: IsSuccess_iff)
  from fails [of t "sy_world sy"] have "re_err (fst (Driver_Step out t (StandardPipeline h a p ls) s sy)) \<noteq> None"
    by (auto simp: Driver_Step_eq Let_def case_prod_beta IsFailure_def Failure_def)
  with fails show ?thesis by simp
qed

subsection \<open>Claims\<close>

definition has_check :: "Violation \<Rightarrow> bool" where
  "has_check v \<longleftrightarrow> (case v_Check v of None \<Rightarrow> False | Some check \<Rightarrow> vc_Command check \<noteq> [])"

text \<open>The verdicts of the claims, run one after the other: the command ends without an error and prints what is expected.\<close>

fun claim_verdicts :: "'w host \<Rightarrow> Violation list \<Rightarrow> 'w \<Rightarrow> bool list \<times> 'w" where
  "claim_verdicts h [] w = ([], w)"
| "claim_verdicts h (v # vs) w =
     (let check = the (v_Check v);
          (out, w1) = ho_exec h [''sh'', ''-c'', vc_Command check] w;
          (verdicts, w2) = claim_verdicts h vs w1
      in ((co_err out = None \<and> Contains (co_stdout out @ co_stderr out) (vc_Expected check)) # verdicts, w2))"

lemma runClaimCheck_verdict:
  "fst (fst (runClaimCheck h c w)) \<longleftrightarrow>
     (let (out, w1) = ho_exec h [''sh'', ''-c'', vc_Command c] w
      in co_err out = None \<and> Contains (co_stdout out @ co_stderr out) (vc_Expected c))"
  "snd (runClaimCheck h c w) = snd (ho_exec h [''sh'', ''-c'', vc_Command c] w)"
  by (auto simp: runClaimCheck_def Let_def split: prod.splits option.splits)

lemma claim_loop_verdicts:
  "claim_loop h vs checks out err w = ((checks', out', err'), w') \<Longrightarrow>
   \<exists>new. checks' = checks @ new \<and> map cc_Violation new = filter has_check vs \<and>
     claim_verdicts h (filter has_check vs) w = (map cc_Verified new, w')"
proof (induction vs arbitrary: checks out err w)
  case (Cons v vs)
  show ?case
  proof (cases "has_check v")
    case False
    then show ?thesis using Cons.IH [of checks out err w] Cons.prems
      by (auto simp: has_check_def split: option.splits if_splits)
  next
    case True
    then obtain check where c: "v_Check v = Some check" "vc_Command check \<noteq> []"
      by (auto simp: has_check_def split: option.splits)
    obtain verified o1 e1 w1 where r: "runClaimCheck h check w = ((verified, o1, e1), w1)"
      by (metis prod_cases3 surj_pair)
    from Cons.prems c r have "claim_loop h vs (checks @ [\<lparr>cc_Violation = v, cc_Verified = verified\<rparr>])
        (out @ o1) (err @ e1) w1 = ((checks', out', err'), w')" by simp
    from Cons.IH [OF this] runClaimCheck_verdict [of h check w] r True c show ?thesis
      by (auto simp: Let_def split: prod.splits)
  qed
qed simp

text \<open>
  The claim gate runs every violation that carries a command, in order, and no other; a claim
  is verified when its command ends without an error and prints what it expects; the gate
  passes exactly when all are, reports the falsified ones, and appends its report to the
  cycle's history.
\<close>

theorem ClaimGate_spec:
  "let (res, s', w') = ClaimGate_Run h s w;
       claims = filter has_check (cs_ViolationsFound s);
       (verdicts, w1) = claim_verdicts h claims w
   in w' = w1 \<and> map cc_Violation (gr_ClaimChecks (Report res)) = claims \<and>
      map cc_Verified (gr_ClaimChecks (Report res)) = verdicts \<and>
      (if list_all id verdicts then res = GateSuccess (Report res) else res = GateFailure (Report res) HaltGateFailure) \<and>
      gr_Passed (Report res) = list_all id verdicts \<and>
      gr_Violations (Report res) = map fst (filter (\<lambda>(v, ok). \<not> ok) (zip claims verdicts)) \<and>
      cs_History s' = cs_History s @ [Report res] \<and> cs_ViolationsFound s' = cs_ViolationsFound s"
proof -
  obtain checks out err w1 where l: "claim_loop h (cs_ViolationsFound s) [] [] [] w = ((checks, out, err), w1)"
    by (metis prod_cases3 surj_pair)
  from claim_loop_verdicts [OF this] have v: "map cc_Violation checks = filter has_check (cs_ViolationsFound s)"
    "claim_verdicts h (filter has_check (cs_ViolationsFound s)) w = (map cc_Verified checks, w1)" by auto
  have bad: "map cc_Violation (filter (\<lambda>c. \<not> cc_Verified c) cs) =
      map fst (filter (\<lambda>(v, ok). \<not> ok) (zip (map cc_Violation cs) (map cc_Verified cs)))" for cs
    by (induction cs) auto
  have all: "filter (\<lambda>c. \<not> cc_Verified c) cs = [] \<longleftrightarrow> list_all id (map cc_Verified cs)" for cs
    by (induction cs) auto
  show ?thesis
    using v(2) bad [of checks] all [of checks]
    by (auto simp: ClaimGate_Run_def Let_def l v(1) [symmetric] AppendReport_def Success_def)
qed

subsection \<open>Line numbers of the diff walk\<close>

text \<open>
  The numbering of a unified diff: in the new file, the lines of a hunk are its context
  lines and its added lines. An event carries the number of context lines since the hunk
  header.
\<close>

fun numbered_walk :: "string \<Rightarrow> int \<Rightarrow> int \<Rightarrow> bool \<Rightarrow> string list \<Rightarrow> (diff_event \<times> int) list" where
  "numbered_walk file n ctx inHunk [] = []"
| "numbered_walk file n ctx inHunk (line # ls) =
     (if HasPrefix line ''diff --git'' then
        (FileBoundary (newFileFromGitHeader line), 0) # numbered_walk (newFileFromGitHeader line) 0 0 False ls
      else if \<not> inHunk \<and> HasPrefix line ''+++ '' then
        (let p = TrimPrefix line ''+++ b/''
         in numbered_walk (if p \<noteq> line then TrimRight p (CHR 0x09) else file) n ctx inHunk ls)
      else if HasPrefix line ''@@'' then numbered_walk file (parseHunkStart line - 1) 0 True ls
      else if HasPrefix line ''+'' then
        (Added \<lparr>al_file = file, al_no = n + 1, al_text = line\<rparr>, ctx) # numbered_walk file (n + 1) ctx inHunk ls
      else if inHunk \<and> HasPrefix line '' '' then numbered_walk file (n + 1) (ctx + 1) inHunk ls
      else numbered_walk file n ctx inHunk ls)"

fun shift_line :: "diff_event \<times> int \<Rightarrow> diff_event" where
  "shift_line (Added a, k) = Added (a\<lparr>al_no := al_no a - k\<rparr>)"
| "shift_line (FileBoundary f, k) = FileBoundary f"

lemma diff_walk_numbered:
  "diff_walk f (n - ctx) h ls = map shift_line (numbered_walk f n ctx h ls)"
proof (induction ls arbitrary: f n ctx h)
  case (Cons line ls)
  show ?case by (simp add: Let_def Cons [symmetric] algebra_simps)
qed simp

text \<open>
  The walker's line numbers are too small by the context lines above: every added line is
  found, in order and with its file, but its number is the line's number in the new file
  less the context lines since the hunk header. They agree when the diff has none.
\<close>

theorem forEachAddedLine_off_by_context:
  "forEachAddedLine diff = map shift_line (numbered_walk [] 0 0 False (Split diff (CHR 0x0A)))"
  using diff_walk_numbered [of "[]" 0 0] by (simp add: forEachAddedLine_def)

lemma context_line_miscounted:
  "map snd (numbered_walk [] 0 0 False [''diff --git a/f b/f'', ''@@ -1,2 +1,3 @@'', '' a'', ''+b'', '' c'']) = [0, 1]"
  by code_simp

subsection \<open>Witnesses\<close>

text \<open>A machine on which every command succeeds silently, on the branch \<open>b\<close>; the world counts the commands.\<close>

definition quiet_host :: "string \<Rightarrow> nat host" where
  "quiet_host b =
     \<lparr>ho_exec = (\<lambda>argv w. (\<lparr>co_stdout = (if argv = [''git'', ''branch'', ''--show-current''] then b
          else []), co_stderr = [], co_combined = [], co_err = None\<rparr>, w + 1)),
      ho_exists = (\<lambda>f w. False), ho_now = (\<lambda>w. int w), ho_quote = (\<lambda>s. s)\<rparr>"

definition ready_state :: State where
  "ready_state = zero_state\<lparr>cs_ID := ''c1'', cs_MaxCycles := 3, cs_NextCycleGoal := ''feat: login'',
     cs_ViolationsFound := [\<lparr>v_File = [], v_Line = 0, v_Type = ''t'', v_Message = [],
       v_Check = Some \<lparr>vc_Command = ''true'', vc_Expected = []\<rparr>\<rparr>]\<rparr>"

lemma quiet_green: "IsSuccess (fst (Execute 0 (StandardPipeline (quiet_host ''work'') [] [] [''make lint'']) ready_state 0))"
  by code_simp

theorem green_means_checked_witness:
  "let (res, w') = Execute 0 (StandardPipeline (quiet_host ''work'') [] [] [''make lint'']) ready_state 0
   in IsSuccess res \<and> (\<exists>w1 w7. exec_all (quiet_host ''work'') [[''make'', ''check-all''], [''make'', ''lint'']] w1 \<noteq> None \<and>
     snd (ho_exec (quiet_host ''work'') [''git'', ''commit'', ''-m'', ''feat: login [cycle-1]''] w7) = w')"
proof -
  let ?x = "Execute 0 (StandardPipeline (quiet_host ''work'') [] [] [''make lint'']) ready_state 0"
  have "?x = (fst ?x, snd ?x)" by simp
  from green_means_checked [OF this quiet_green] obtain w1 w3 w7 where
    "exec_all (quiet_host ''work'') (map Fields (override_or defaultAuditCmd [] # [''make lint''])) w1 = Some w3"
    "snd (ho_exec (quiet_host ''work'') [''git'', ''commit'', ''-m'', TrimSpace (cs_NextCycleGoal ready_state) @
      '' [cycle-'' @ show_int (cs_CompletedCycles ready_state + 1) @ '']''] w7) = snd ?x"
    by blast
  moreover have "map Fields (override_or defaultAuditCmd [] # [''make lint'']) = [[''make'', ''check-all''], [''make'', ''lint'']]"
    by code_simp
  moreover have "TrimSpace (cs_NextCycleGoal ready_state) @
      '' [cycle-'' @ show_int (cs_CompletedCycles ready_state + 1) @ '']'' = ''feat: login [cycle-1]''"
    by code_simp
  ultimately show ?thesis using quiet_green by (auto simp only: split_beta Let_def option.distinct)
qed

theorem protected_branch_never_committed_witness:
  "sy_world (snd (Driver_Step (\<lambda>e. Appended) 0 (StandardPipeline (quiet_host ''main'') [] [] []) ready_state
     \<lparr>sy_disk = empty_disk, sy_ledger = Some [], sy_tail = WholeLine, sy_world = 0\<rparr>)) = 1"
proof -
  have "gitBranch (quiet_host ''main'') (sy_world \<lparr>sy_disk = empty_disk, sy_ledger = Some [], sy_tail = WholeLine, sy_world = 0\<rparr>) =
      (Inr ''main'', 1)" by code_simp
  moreover have "TrimSpace (cs_NextCycleGoal ready_state) \<noteq> []" by code_simp
  ultimately show ?thesis
    using protected_branch_never_committed [of "quiet_host ''main''" "\<lparr>sy_disk = empty_disk, sy_ledger = Some [], sy_tail = WholeLine, sy_world = 0\<rparr>"
      "''main''" 1 ready_state "\<lambda>e. Appended" 0 "[]" "[]" "[]"] by auto
qed

definition vet_runner :: cmd_runner where
  "vet_runner argv = \<lparr>cr_out = (if argv = [''go'', ''vet'', ''./...''] then ''./a.go:3: unreachable code'' else []),
     cr_end = (if argv = [''go'', ''vet'', ''./...''] then CmdExitError else CmdOk), cr_ctx_err = False\<rparr>"

theorem discovered_goal_never_passes_witness:
  "let goal = ''fix(vet): ./a.go:3: unreachable code'' in
   discoverNextGoal False (\<lambda>f. None) vet_runner = Inr goal \<and>
   IsFailure (fst (Execute 0 (StandardPipeline (quiet_host ''work'') [] [] []) (ready_state\<lparr>cs_NextCycleGoal := goal\<rparr>) 0))"
proof -
  have "discoverNextGoal False (\<lambda>f. None) vet_runner = Inr ''fix(vet): ./a.go:3: unreachable code''" by code_simp
  with discovered_goal_never_passes [OF this, of "ready_state\<lparr>cs_NextCycleGoal := ''fix(vet): ./a.go:3: unreachable code''\<rparr>"
      0 "quiet_host ''work''" "[]" "[]" "[]" 0]
  show ?thesis by (simp add: Let_def)
qed

end
