(* ===== verification/CycleBroker.thy ===== *)
theory CycleBroker
  imports StandardGates
begin

section \<open>The cycle broker (internal/broker/cycle.go)\<close>

text \<open>
  The store of the daemon's cycles and the handlers over it. The store caches states and
  registers which cycles have a file handle; beside it are the files of every cycle (state
  disk, ledger and its tail), the event channels and the orchestrator goroutines that run. A handler
  takes the lock of the store for one operation at a time, so it is given twice: as one function of
  the store, what it does when nothing else runs, and as the sequence of its atomic actions,
  between which other requests run. An orchestrator takes one iteration at a time. \<open>None\<close> is
  a panic. What a request's environment does is a record, as for the driver; the ids are
  those without a path separator, so that every id has files of its own.
\<close>

record channel =
  ch_buf :: "CycleEvent list"
  ch_closed :: bool

record 'w cycleStore =
  cy_states :: "string \<Rightarrow> State option"
  cy_syncs :: "string set"
  cy_events :: "string \<Rightarrow> nat list option"
  cy_orchestrating :: "string \<Rightarrow> (OrchestratorConfig \<times> bool) option"
  cy_chans :: "nat \<Rightarrow> channel"
  cy_next :: nat
  cy_disk :: "string \<Rightarrow> state_disk"
  cy_ledger :: "string \<Rightarrow> HarnessLedgerEntry list"
  cy_tail :: "string \<Rightarrow> ledger_tail"
  cy_world :: 'w

text \<open>What the server was built with; \<open>sv_registry\<close> is \<open>None\<close> when no registry was injected.\<close>

record 'w cycle_server =
  sv_marshal :: "State \<Rightarrow> bytes"
  sv_unmarshal :: unmarshaller
  sv_host :: "'w host"
  sv_cyclePipeline :: "'w Pipeline option"
  sv_registry :: "(string \<Rightarrow> 'w adapter option) option"
  sv_payload :: "string \<Rightarrow> TurnPayload option"

record request_env =
  qe_now :: int
  qe_append :: "HarnessLedgerEntry \<Rightarrow> log_outcome"
  qe_read :: "nat \<Rightarrow> read_fault"
  qe_write :: write_fault
  qe_remove_fails :: bool
  qe_ledger_read :: bool

datatype cycle_reply =
    HttpError nat
  | StateReply nat State
  | LedgerReply "HarnessLedgerEntry list"
  | StreamReply

subsection \<open>The store\<close>

definition newCycleStore :: "(string \<Rightarrow> state_disk) \<Rightarrow> (string \<Rightarrow> HarnessLedgerEntry list) \<Rightarrow> 'w \<Rightarrow> 'w cycleStore" where
  "newCycleStore disk ledger w =
     \<lparr>cy_states = Map.empty, cy_syncs = {}, cy_events = Map.empty, cy_orchestrating = Map.empty,
      cy_chans = (\<lambda>c. \<lparr>ch_buf = [], ch_closed = False\<rparr>), cy_next = 0, cy_disk = disk, cy_ledger = ledger,
      cy_tail = (\<lambda>cid. WholeLine), cy_world = w\<rparr>"

definition loadCycleFromFile :: "'w cycle_server \<Rightarrow> read_fault \<Rightarrow> string \<Rightarrow> 'w cycleStore \<Rightarrow> sync_error + State" where
  "loadCycleFromFile sv flt cid st = StateFileSync_Read (sv_unmarshal sv) flt (cy_disk st cid)"

definition store_put :: "string \<Rightarrow> State \<Rightarrow> 'w cycleStore \<Rightarrow> 'w cycleStore" where
  "store_put cid s st = st\<lparr>cy_states := (cy_states st)(cid \<mapsto> s)\<rparr>"

definition putSync :: "string \<Rightarrow> 'w cycleStore \<Rightarrow> 'w cycleStore" where
  "putSync cid st = st\<lparr>cy_syncs := insert cid (cy_syncs st)\<rparr>"

definition store_get ::
  "'w cycle_server \<Rightarrow> read_fault \<Rightarrow> string \<Rightarrow> 'w cycleStore \<Rightarrow> State option \<times> 'w cycleStore" where
  "store_get sv flt cid st =
     (case cy_states st cid of
        Some s \<Rightarrow> (Some s, st)
      | None \<Rightarrow>
          (case loadCycleFromFile sv flt cid st of
             Inl e \<Rightarrow> (None, st)
           | Inr fs \<Rightarrow> if cs_ID fs = [] then (None, st) else (Some fs, putSync cid (store_put cid fs st))))"

definition refreshFromFile ::
  "'w cycle_server \<Rightarrow> read_fault \<Rightarrow> string \<Rightarrow> 'w cycleStore \<Rightarrow> 'w cycleStore" where
  "refreshFromFile sv flt cid st =
     (case loadCycleFromFile sv flt cid st of
        Inl e \<Rightarrow> st
      | Inr fs \<Rightarrow>
          if cs_ID fs = [] then st
          else
            (case cy_states st cid of
               Some cached \<Rightarrow>
                 if cs_UpdatedAt fs < cs_UpdatedAt cached then st else putSync cid (store_put cid fs st)
             | None \<Rightarrow> putSync cid (store_put cid fs st)))"

subsection \<open>Events\<close>

definition subscribers :: "'w cycleStore \<Rightarrow> string \<Rightarrow> nat list" where
  "subscribers st cid = (case cy_events st cid of None \<Rightarrow> [] | Some chs \<Rightarrow> chs)"

definition subscribe :: "string \<Rightarrow> 'w cycleStore \<Rightarrow> nat \<times> 'w cycleStore" where
  "subscribe cid st =
     (cy_next st, st\<lparr>cy_chans := (cy_chans st)(cy_next st := \<lparr>ch_buf = [], ch_closed = False\<rparr>),
        cy_next := Suc (cy_next st), cy_events := (cy_events st)(cid \<mapsto> subscribers st cid @ [cy_next st])\<rparr>)"

text \<open>Closing a closed channel panics, after the list was updated.\<close>

definition unsubscribe :: "string \<Rightarrow> nat \<Rightarrow> 'w cycleStore \<Rightarrow> bool \<times> 'w cycleStore" where
  "unsubscribe cid c st =
     (let st1 = st\<lparr>cy_events := (cy_events st)(cid \<mapsto> filter (\<lambda>x. x \<noteq> c) (subscribers st cid))\<rparr> in
      if ch_closed (cy_chans st c) then (True, st1)
      else (False, st1\<lparr>cy_chans := (cy_chans st)(c := (cy_chans st c)\<lparr>ch_closed := True\<rparr>)\<rparr>))"

text \<open>A send that does not wait: a full channel drops the event, a closed one panics.\<close>

fun send_all :: "CycleEvent \<Rightarrow> nat list \<Rightarrow> (nat \<Rightarrow> channel) \<Rightarrow> (nat \<Rightarrow> channel) option" where
  "send_all evt [] chans = Some chans"
| "send_all evt (c # cs) chans =
     (if ch_closed (chans c) then None
      else if length (ch_buf (chans c)) < 4
      then send_all evt cs (chans(c := (chans c)\<lparr>ch_buf := ch_buf (chans c) @ [evt]\<rparr>))
      else send_all evt cs chans)"

definition broadcast :: "string \<Rightarrow> CycleEvent \<Rightarrow> 'w cycleStore \<Rightarrow> 'w cycleStore option" where
  "broadcast cid evt st =
     map_option (\<lambda>chans. st\<lparr>cy_chans := chans\<rparr>) (send_all evt (subscribers st cid) (cy_chans st))"

fun close_all :: "nat list \<Rightarrow> (nat \<Rightarrow> channel) \<Rightarrow> (nat \<Rightarrow> channel) option" where
  "close_all [] chans = Some chans"
| "close_all (c # cs) chans =
     (if ch_closed (chans c) then None else close_all cs (chans(c := (chans c)\<lparr>ch_closed := True\<rparr>)))"

definition closeAll :: "string \<Rightarrow> 'w cycleStore \<Rightarrow> 'w cycleStore option" where
  "closeAll cid st =
     map_option (\<lambda>chans. st\<lparr>cy_chans := chans, cy_events := (cy_events st)(cid := None),
          cy_states := (cy_states st)(cid := None), cy_syncs := cy_syncs st - {cid}\<rparr>)
       (close_all (subscribers st cid) (cy_chans st))"

subsection \<open>Files\<close>

definition sync_write :: "'w cycle_server \<Rightarrow> write_fault \<Rightarrow> string \<Rightarrow> State \<Rightarrow> 'w cycleStore \<Rightarrow> sync_error option \<times> 'w cycleStore" where
  "sync_write sv flt cid s st =
     (let (err, ds) = StateFileSync_Write (sv_marshal sv) flt s (cy_disk st cid)
      in (err, st\<lparr>cy_disk := (cy_disk st)(cid := final_disk (cy_disk st cid) ds)\<rparr>))"

definition sync_remove :: "bool \<Rightarrow> string \<Rightarrow> 'w cycleStore \<Rightarrow> 'w cycleStore" where
  "sync_remove fails cid st =
     st\<lparr>cy_disk := (cy_disk st)(cid := snd (StateFileSync_Remove fails (cy_disk st cid)))\<rparr>"

text \<open>
  The errors of an append are logged and dropped, and what a write that stopped short left in the file
  stays there; a ledger with a torn line cannot be read.
\<close>

definition appendLedger :: "request_env \<Rightarrow> string \<Rightarrow> HarnessLedgerEntry \<Rightarrow> 'w cycleStore \<Rightarrow> 'w cycleStore" where
  "appendLedger ev cid e st =
     (let (es, t) = log_write (qe_append ev e) e (cy_ledger st cid, cy_tail st cid)
      in st\<lparr>cy_ledger := (cy_ledger st)(cid := es), cy_tail := (cy_tail st)(cid := t)\<rparr>)"

definition read_ledger :: "request_env \<Rightarrow> string \<Rightarrow> 'w cycleStore \<Rightarrow> HarnessLedgerEntry list option" where
  "read_ledger ev cid st =
     (if qe_ledger_read ev \<and> cy_tail st cid \<noteq> TornLine then Some (cy_ledger st cid) else None)"

definition append_entries :: "request_env \<Rightarrow> string \<Rightarrow> HarnessLedgerEntry list \<Rightarrow> 'w cycleStore \<Rightarrow> 'w cycleStore" where
  "append_entries ev cid es st = foldl (\<lambda>st e. appendLedger ev cid e st) st es"

subsection \<open>The pipeline of a state\<close>

fun insert_local_gates :: "'w host \<Rightarrow> string list \<Rightarrow> 'w Pipeline \<Rightarrow> 'w Pipeline" where
  "insert_local_gates h ls [] = []"
| "insert_local_gates h ls (g # gs) =
     (if ga_Name g \<noteq> ''audit'' then g # insert_local_gates h ls gs
      else g # map (\<lambda>rawCmd. gate (CommandGate_Name rawCmd) (CommandGate_Run h rawCmd)) ls @
             insert_local_gates h ls gs)"

definition pipelineForState :: "'w cycle_server \<Rightarrow> State \<Rightarrow> 'w Pipeline" where
  "pipelineForState sv s =
     (case sv_cyclePipeline sv of
        None \<Rightarrow> StandardPipeline (sv_host sv) (cs_AuditCmd s) (cs_PolishTestCmd s) (cs_LocalGates s)
      | Some base \<Rightarrow>
          if cs_AuditCmd s \<noteq> [] \<or> cs_PolishTestCmd s \<noteq> []
          then StandardPipeline (sv_host sv) (cs_AuditCmd s) (cs_PolishTestCmd s) (cs_LocalGates s)
          else if cs_LocalGates s = [] then base
          else insert_local_gates (sv_host sv) (cs_LocalGates s) base)"

text \<open>\<^verbatim>\<open>registerCycleRoutes\<close>: a server without an injected pipeline gets the standard one.\<close>

definition registerCycleRoutes :: "'w cycle_server \<Rightarrow> 'w cycle_server" where
  "registerCycleRoutes sv =
     (if sv_cyclePipeline sv = None then sv\<lparr>sv_cyclePipeline := Some (StandardPipeline (sv_host sv) [] [] [])\<rparr> else sv)"

subsection \<open>Handlers\<close>

text \<open>\<open>rnd\<close> is the random source, \<open>nano\<close> the clock in hexadecimal it falls back on.\<close>

definition randomHex :: "bytes option \<Rightarrow> string \<Rightarrow> nat \<Rightarrow> string" where
  "randomHex rnd nano n = (case rnd of None \<Rightarrow> take (n * 2) nano | Some b \<Rightarrow> EncodeToString b)"

definition handleCreateCycle ::
  "'w cycle_server \<Rightarrow> request_env \<Rightarrow> bytes option \<Rightarrow> string \<Rightarrow> NewCycleRequest option \<Rightarrow> 'w cycleStore \<Rightarrow>
   cycle_reply \<times> 'w cycleStore" where
  "handleCreateCycle sv ev rnd nano body st =
     (case body of
        None \<Rightarrow> (HttpError 400, st)
      | Some req \<Rightarrow>
          let cid = ''cyc_'' @ show_int (qe_now ev) @ ''_'' @ randomHex rnd nano 4 in
          (case NewState (qe_now ev) req cid of
             Inl e \<Rightarrow> (HttpError 400, st)
           | Inr s \<Rightarrow>
               (case sync_write sv (qe_write ev) cid s st of
                  (Some e, st1) \<Rightarrow> (HttpError 500, st1)
                | (None, st1) \<Rightarrow>
                    (StateReply 201 s,
                     appendLedger ev cid
                       (NewHarnessLedgerEntry (qe_now ev) cid LedgerEventCycleCreated ''cycle created'' (cs_PendingFiles s))
                       (putSync cid (store_put cid s st1))))))"

definition cap_history :: "State \<Rightarrow> State" where
  "cap_history s =
     (if length (cs_History s) > 50 then s\<lparr>cs_History := drop (length (cs_History s) - 50) (cs_History s)\<rparr> else s)"

definition handleGetCycle ::
  "'w cycle_server \<Rightarrow> request_env \<Rightarrow> string \<Rightarrow> 'w cycleStore \<Rightarrow> cycle_reply \<times> 'w cycleStore" where
  "handleGetCycle sv ev cid st =
     (case store_get sv (qe_read ev 1) cid (refreshFromFile sv (qe_read ev 0) cid st) of
        (None, st1) \<Rightarrow> (HttpError 404, st1)
      | (Some s, st1) \<Rightarrow> (StateReply 200 (cap_history s), st1))"

definition handleCycleLedger ::
  "'w cycle_server \<Rightarrow> request_env \<Rightarrow> string \<Rightarrow> 'w cycleStore \<Rightarrow> cycle_reply \<times> 'w cycleStore" where
  "handleCycleLedger sv ev cid st =
     (case read_ledger ev cid st of
        None \<Rightarrow> (HttpError 500, st)
      | Some entries \<Rightarrow>
        if entries = [] then
          (case store_get sv (qe_read ev 0) cid st of
             (None, st1) \<Rightarrow> (HttpError 404, st1)
           | (Some _, st1) \<Rightarrow> (LedgerReply entries, st1))
        else (LedgerReply entries, st))"

text \<open>The entries of a gate report, and of each claim the claim gate ran.\<close>

definition claim_entry :: "int \<Rightarrow> string \<Rightarrow> ClaimCheck \<Rightarrow> HarnessLedgerEntry" where
  "claim_entry now cid cc =
     NewHarnessLedgerEntry now cid
       (if cc_Verified cc then LedgerEventClaimVerified else LedgerEventClaimFalsified)
       ((if cc_Verified cc then ''verified: '' else ''falsified: '') @ v_Message (cc_Violation cc))
       [v_File (cc_Violation cc)]"

definition report_entries :: "int \<Rightarrow> string \<Rightarrow> GateReport \<Rightarrow> HarnessLedgerEntry list" where
  "report_entries now cid report =
     NewGateLedgerEntry now cid report #
     (if gr_Gate report = ''claim'' then map (claim_entry now cid) (gr_ClaimChecks report) else [])"

text \<open>The state after the pipeline, and what a step adds to the ledger.\<close>

definition step_state :: "int \<Rightarrow> State Result \<Rightarrow> State" where
  "step_state now result =
     (if IsSuccess result then (re_value (CompleteCycle now (re_value result)))\<lparr>cs_NextCycleGoal := []\<rparr>
      else re_value result)"

definition step_entries :: "int \<Rightarrow> string \<Rightarrow> State Result \<Rightarrow> HarnessLedgerEntry list" where
  "step_entries now cid result =
     (if IsSuccess result then
        [NewHarnessLedgerEntry now cid LedgerEventValidationGreen ''gate pipeline passed'' [],
         NewHarnessLedgerEntry now cid LedgerEventCycleCompleted ''cycle step completed'' []] else []) @
     concat (map (report_entries now cid) (re_reports result))"

text \<open>The gated part of a step: the pipeline, the record, the file and the cache.\<close>

definition run_step :: "'w cycle_server \<Rightarrow> request_env \<Rightarrow> string \<Rightarrow> State \<Rightarrow> 'w cycleStore \<Rightarrow> State \<times> 'w cycleStore" where
  "run_step sv ev cid s st =
     (let now = qe_now ev;
          (result, w) = Execute now (pipelineForState sv s) s (cy_world st);
          s' = step_state now result;
          st1 = append_entries ev cid (step_entries now cid result) (st\<lparr>cy_world := w\<rparr>);
          st2 = (if cid \<in> cy_syncs st1 then snd (sync_write sv (qe_write ev) cid s' st1) else st1)
      in (s', store_put cid s' st2))"

definition handleStepCycle ::
  "'w cycle_server \<Rightarrow> request_env \<Rightarrow> string \<Rightarrow> string \<Rightarrow> 'w cycleStore \<Rightarrow> (cycle_reply \<times> 'w cycleStore) option" where
  "handleStepCycle sv ev goal cid st =
     (case store_get sv (qe_read ev 1) cid (refreshFromFile sv (qe_read ev 0) cid st) of
        (None, st1) \<Rightarrow> Some (HttpError 404, st1)
      | (Some s0, st1) \<Rightarrow>
          if read_ledger ev cid st1 = None then Some (HttpError 500, st1)
          else if snd (LedgerSealsResume (cy_ledger st1 cid)) then Some (HttpError 409, st1)
          else
            let s = (if goal \<noteq> [] then s0\<lparr>cs_NextCycleGoal := goal\<rparr> else s0) in
            if TrimSpace (cs_NextCycleGoal s) = [] then Some (HttpError 400, st1)
            else
              let (s', st2) = run_step sv ev cid s st1
              in map_option (\<lambda>st3. (StateReply 200 s', st3)) (broadcast cid (NewCycleEvent (qe_now ev) s') st2))"

text \<open>The reason of a halt request: an unknown one counts as the user's request.\<close>

definition halt_reason :: "string \<Rightarrow> HaltReason" where
  "halt_reason req_reason =
     (if req_reason \<noteq> [] then (case ParseHaltReason req_reason of Inr r \<Rightarrow> r | Inl e \<Rightarrow> HaltUserRequested)
      else HaltUserRequested)"

definition handleHaltCycle ::
  "'w cycle_server \<Rightarrow> request_env \<Rightarrow> string \<Rightarrow> string \<Rightarrow> 'w cycleStore \<Rightarrow> (cycle_reply \<times> 'w cycleStore) option" where
  "handleHaltCycle sv ev req_reason cid st =
     (case store_get sv (qe_read ev 0) cid st of
        (None, st1) \<Rightarrow> Some (HttpError 404, st1)
      | (Some s, st1) \<Rightarrow>
          let now = qe_now ev;
              reason = halt_reason req_reason;
              halted = re_value (Halt now reason s);
              st2 = (if cid \<in> cy_syncs st1
                     then sync_remove (qe_remove_fails ev) cid (snd (sync_write sv (qe_write ev) cid halted st1))
                     else st1);
              st3 = appendLedger ev cid (NewHarnessLedgerEntry now cid LedgerEventCycleHalted reason []) st2;
              st4 = store_put cid halted st3
          in Option.bind (broadcast cid (NewCycleEvent now halted) st4)
               (\<lambda>st5. map_option (\<lambda>st6. (StateReply 200 halted, st6)) (closeAll cid st5)))"

text \<open>
  The event stream up to its subscription, and one round of its loop: \<open>StreamGoesOn\<close> when it
  waits for the next event. \<open>done\<close> is the end of the request, \<open>write_ok\<close> whether the write works.
\<close>

datatype stream_end = StreamGoesOn | StreamEnded | StreamPanicked

definition handleCycleEvents ::
  "'w cycle_server \<Rightarrow> request_env \<Rightarrow> bool \<Rightarrow> string \<Rightarrow> 'w cycleStore \<Rightarrow> cycle_reply \<times> nat option \<times> 'w cycleStore" where
  "handleCycleEvents sv ev write_ok cid st =
     (case store_get sv (qe_read ev 0) cid st of
        (None, st1) \<Rightarrow> (HttpError 404, None, st1)
      | (Some s, st1) \<Rightarrow>
          if \<not> write_ok then (StreamReply, None, st1)
          else let (c, st2) = subscribe cid st1 in (StreamReply, Some c, st2))"

definition leave_stream :: "string \<Rightarrow> nat \<Rightarrow> 'w cycleStore \<Rightarrow> stream_end \<times> 'w cycleStore" where
  "leave_stream cid c st =
     (let (panicked, st1) = unsubscribe cid c st in (if panicked then StreamPanicked else StreamEnded, st1))"

definition stream_round :: "bool \<Rightarrow> bool \<Rightarrow> string \<Rightarrow> nat \<Rightarrow> 'w cycleStore \<Rightarrow> stream_end \<times> 'w cycleStore" where
  "stream_round done write_ok cid c st =
     (if done then leave_stream cid c st
      else case ch_buf (cy_chans st c) of
        evt # rest \<Rightarrow>
          let st1 = st\<lparr>cy_chans := (cy_chans st)(c := (cy_chans st c)\<lparr>ch_buf := rest\<rparr>)\<rparr> in
          if \<not> write_ok then leave_stream cid c st1
          else if ce_Halted evt then leave_stream cid c st1
          else (StreamGoesOn, st1)
      | [] \<Rightarrow> if ch_closed (cy_chans st c) then leave_stream cid c st else (StreamGoesOn, st))"

subsection \<open>Orchestration\<close>

text \<open>
  The goroutine keeps the configuration it was started with; the flag is whether the reviver
  guard of \<^verbatim>\<open>Run\<close> has been passed.
\<close>

definition handleOrchestrate ::
  "'w cycle_server \<Rightarrow> request_env \<Rightarrow> OrchestratorConfig option \<Rightarrow> string \<Rightarrow> 'w cycleStore \<Rightarrow>
   cycle_reply \<times> 'w cycleStore" where
  "handleOrchestrate sv ev body cid st =
     (case store_get sv (qe_read ev 0) cid st of
        (None, st1) \<Rightarrow> (HttpError 404, st1)
      | (Some s, st1) \<Rightarrow>
          (case body of
             None \<Rightarrow> (HttpError 400, st1)
           | Some cfg \<Rightarrow>
               let st2 = (if cid \<in> cy_syncs st1 then st1 else putSync cid st1) in
               if sv_registry sv = None then (HttpError 503, st2)
               else if read_ledger ev cid st2 = None then (HttpError 500, st2)
               else if snd (LedgerSealsResume (cy_ledger st2 cid)) then (HttpError 409, st2)
               else if cy_orchestrating st2 cid \<noteq> None then (HttpError 409, st2)
               else (StateReply 202 s,
                     st2\<lparr>cy_orchestrating := (cy_orchestrating st2)(cid \<mapsto> (cfg, False))\<rparr>)))"

definition broker_orchestrator :: "'w cycle_server \<Rightarrow> (string \<Rightarrow> 'w adapter option) \<Rightarrow> 'w orchestrator" where
  "broker_orchestrator sv reg =
     \<lparr>mo_driver = \<lparr>dr_marshal = sv_marshal sv, dr_unmarshal = sv_unmarshal sv, dr_pipeline = [],
        dr_ReadRetries = 3, dr_goalDiscoverer = (\<lambda>s w. (Inl [], w))\<rparr>,
      mo_registry = reg, mo_pipeline = Some (pipelineForState sv), mo_payload = sv_payload sv\<rparr>"

definition cycle_sys :: "string \<Rightarrow> 'w cycleStore \<Rightarrow> 'w sys" where
  "cycle_sys cid st = \<lparr>sy_disk = cy_disk st cid, sy_ledger = Some (cy_ledger st cid), sy_tail = cy_tail st cid,
     sy_world = cy_world st\<rparr>"

definition put_sys :: "string \<Rightarrow> 'w sys \<Rightarrow> 'w cycleStore \<Rightarrow> 'w cycleStore" where
  "put_sys cid sy st =
     st\<lparr>cy_disk := (cy_disk st)(cid := sy_disk sy),
        cy_ledger := (cy_ledger st)(cid := (case sy_ledger sy of Some es \<Rightarrow> es | None \<Rightarrow> cy_ledger st cid)),
        cy_tail := (cy_tail st)(cid := sy_tail sy), cy_world := sy_world sy\<rparr>"

definition orchestrator_ends :: "string \<Rightarrow> 'w cycleStore \<Rightarrow> 'w cycleStore" where
  "orchestrator_ends cid st = st\<lparr>cy_orchestrating := (cy_orchestrating st)(cid := None)\<rparr>"

text \<open>One move of a running goroutine; \<open>None\<close> when the index panic takes the process down.\<close>

definition orchestrator_move ::
  "'w cycle_server \<Rightarrow> orch_env \<Rightarrow> string \<Rightarrow> 'w cycleStore \<Rightarrow> 'w cycleStore option" where
  "orchestrator_move sv ev cid st =
     (case (cy_orchestrating st cid, sv_registry sv) of
        (Some (cfg, False), Some reg) \<Rightarrow>
          if oc_Agents cfg = [] \<or> \<not> ledger_readable (oe_ledger_read ev) (cycle_sys cid st) \<or> snd (LedgerSealsResume (cy_ledger st cid))
          then Some (orchestrator_ends cid st)
          else Some (st\<lparr>cy_orchestrating := (cy_orchestrating st)(cid \<mapsto> (cfg, True))\<rparr>)
      | (Some (cfg, True), Some reg) \<Rightarrow>
          (case orch_iteration (broker_orchestrator sv reg) ev cfg (cycle_sys cid st) of
             (Some RunPanicked, sy) \<Rightarrow> None
           | (Some (RunReturned e), sy) \<Rightarrow> Some (orchestrator_ends cid (put_sys cid sy st))
           | (None, sy) \<Rightarrow> Some (put_sys cid sy st))
      | _ \<Rightarrow> Some st)"

subsection \<open>The handlers, one locked operation at a time\<close>

text \<open>
  Where a request is: what it does next. Every operation on the store takes its lock, and every append
  the lock of its ledger, so each is one action; a write or removal of the state file is taken as one
  action too, and so is the run of the pipeline, which holds no lock. An action ends in the
  next place or in the reply.
\<close>

datatype create_pc = CreateWrite State | CreatePut State | CreatePutSync State | CreateAppend State

definition create_start ::
  "request_env \<Rightarrow> bytes option \<Rightarrow> string \<Rightarrow> NewCycleRequest option \<Rightarrow> cycle_reply + string \<times> create_pc" where
  "create_start ev rnd nano body =
     (case body of
        None \<Rightarrow> Inl (HttpError 400)
      | Some req \<Rightarrow>
          let cid = ''cyc_'' @ show_int (qe_now ev) @ ''_'' @ randomHex rnd nano 4 in
          (case NewState (qe_now ev) req cid of Inl e \<Rightarrow> Inl (HttpError 400) | Inr s \<Rightarrow> Inr (cid, CreateWrite s)))"

fun create_next ::
  "'w cycle_server \<Rightarrow> request_env \<Rightarrow> string \<Rightarrow> create_pc \<Rightarrow> 'w cycleStore \<Rightarrow> (create_pc + cycle_reply) \<times> 'w cycleStore" where
  "create_next sv ev cid (CreateWrite s) st =
     (let (err, st1) = sync_write sv (qe_write ev) cid s st
      in (if err = None then Inl (CreatePut s) else Inr (HttpError 500), st1))"
| "create_next sv ev cid (CreatePut s) st = (Inl (CreatePutSync s), store_put cid s st)"
| "create_next sv ev cid (CreatePutSync s) st = (Inl (CreateAppend s), putSync cid st)"
| "create_next sv ev cid (CreateAppend s) st =
     (Inr (StateReply 201 s), appendLedger ev cid
        (NewHarnessLedgerEntry (qe_now ev) cid LedgerEventCycleCreated ''cycle created'' (cs_PendingFiles s)) st)"

datatype get_pc = GetRefresh | GetLoad

fun get_next ::
  "'w cycle_server \<Rightarrow> request_env \<Rightarrow> string \<Rightarrow> get_pc \<Rightarrow> 'w cycleStore \<Rightarrow> (get_pc + cycle_reply) \<times> 'w cycleStore" where
  "get_next sv ev cid GetRefresh st = (Inl GetLoad, refreshFromFile sv (qe_read ev 0) cid st)"
| "get_next sv ev cid GetLoad st =
     (case store_get sv (qe_read ev 1) cid st of
        (None, st1) \<Rightarrow> (Inr (HttpError 404), st1)
      | (Some s, st1) \<Rightarrow> (Inr (StateReply 200 (cap_history s)), st1))"

datatype ledger_pc = LedgerRead | LedgerLoad

fun ledger_next ::
  "'w cycle_server \<Rightarrow> request_env \<Rightarrow> string \<Rightarrow> ledger_pc \<Rightarrow> 'w cycleStore \<Rightarrow> (ledger_pc + cycle_reply) \<times> 'w cycleStore" where
  "ledger_next sv ev cid LedgerRead st =
     (case read_ledger ev cid st of
        None \<Rightarrow> (Inr (HttpError 500), st)
      | Some entries \<Rightarrow> (if entries = [] then Inl LedgerLoad else Inr (LedgerReply entries), st))"
| "ledger_next sv ev cid LedgerLoad st =
     (case store_get sv (qe_read ev 0) cid st of
        (None, st1) \<Rightarrow> (Inr (HttpError 404), st1)
      | (Some _, st1) \<Rightarrow> (Inr (LedgerReply []), st1))"

datatype step_pc =
    StepRefresh
  | StepGet
  | StepGuard State
  | StepExecute State
  | StepAppend State "HarnessLedgerEntry list"
  | StepSync State
  | StepWrite State
  | StepPut State
  | StepBroadcast State

text \<open>The next append, or the state's file once all are made.\<close>

definition step_appends :: "State \<Rightarrow> HarnessLedgerEntry list \<Rightarrow> step_pc" where
  "step_appends s es = (if es = [] then StepSync s else StepAppend s es)"

fun step_next ::
  "'w cycle_server \<Rightarrow> request_env \<Rightarrow> string \<Rightarrow> string \<Rightarrow> step_pc \<Rightarrow> 'w cycleStore \<Rightarrow>
   ((step_pc + cycle_reply) \<times> 'w cycleStore) option" where
  "step_next sv ev goal cid StepRefresh st = Some (Inl StepGet, refreshFromFile sv (qe_read ev 0) cid st)"
| "step_next sv ev goal cid StepGet st =
     (case store_get sv (qe_read ev 1) cid st of
        (None, st1) \<Rightarrow> Some (Inr (HttpError 404), st1)
      | (Some s, st1) \<Rightarrow> Some (Inl (StepGuard s), st1))"
| "step_next sv ev goal cid (StepGuard s0) st =
     (case read_ledger ev cid st of
        None \<Rightarrow> Some (Inr (HttpError 500), st)
      | Some entries \<Rightarrow>
          if snd (LedgerSealsResume entries) then Some (Inr (HttpError 409), st)
          else
            let s = (if goal \<noteq> [] then s0\<lparr>cs_NextCycleGoal := goal\<rparr> else s0) in
            if TrimSpace (cs_NextCycleGoal s) = [] then Some (Inr (HttpError 400), st)
            else Some (Inl (StepExecute s), st))"
| "step_next sv ev goal cid (StepExecute s) st =
     (let (result, w) = Execute (qe_now ev) (pipelineForState sv s) s (cy_world st)
      in Some (Inl (step_appends (step_state (qe_now ev) result) (step_entries (qe_now ev) cid result)),
               st\<lparr>cy_world := w\<rparr>))"
| "step_next sv ev goal cid (StepAppend s []) st = Some (Inl (StepSync s), st)"
| "step_next sv ev goal cid (StepAppend s (e # es)) st = Some (Inl (step_appends s es), appendLedger ev cid e st)"
| "step_next sv ev goal cid (StepSync s) st = Some (Inl (if cid \<in> cy_syncs st then StepWrite s else StepPut s), st)"
| "step_next sv ev goal cid (StepWrite s) st = Some (Inl (StepPut s), snd (sync_write sv (qe_write ev) cid s st))"
| "step_next sv ev goal cid (StepPut s) st = Some (Inl (StepBroadcast s), store_put cid s st)"
| "step_next sv ev goal cid (StepBroadcast s) st =
     map_option (\<lambda>st1. (Inr (StateReply 200 s), st1)) (broadcast cid (NewCycleEvent (qe_now ev) s) st)"

datatype halt_pc =
    HaltGet
  | HaltSync State
  | HaltWrite State
  | HaltRemove State
  | HaltAppend State
  | HaltPut State
  | HaltBroadcast State
  | HaltClose State

fun halt_next ::
  "'w cycle_server \<Rightarrow> request_env \<Rightarrow> string \<Rightarrow> string \<Rightarrow> halt_pc \<Rightarrow> 'w cycleStore \<Rightarrow>
   ((halt_pc + cycle_reply) \<times> 'w cycleStore) option" where
  "halt_next sv ev req_reason cid HaltGet st =
     (case store_get sv (qe_read ev 0) cid st of
        (None, st1) \<Rightarrow> Some (Inr (HttpError 404), st1)
      | (Some s, st1) \<Rightarrow> Some (Inl (HaltSync (re_value (Halt (qe_now ev) (halt_reason req_reason) s))), st1))"
| "halt_next sv ev req_reason cid (HaltSync s) st =
     Some (Inl (if cid \<in> cy_syncs st then HaltWrite s else HaltAppend s), st)"
| "halt_next sv ev req_reason cid (HaltWrite s) st = Some (Inl (HaltRemove s), snd (sync_write sv (qe_write ev) cid s st))"
| "halt_next sv ev req_reason cid (HaltRemove s) st = Some (Inl (HaltAppend s), sync_remove (qe_remove_fails ev) cid st)"
| "halt_next sv ev req_reason cid (HaltAppend s) st =
     Some (Inl (HaltPut s), appendLedger ev cid
       (NewHarnessLedgerEntry (qe_now ev) cid LedgerEventCycleHalted (halt_reason req_reason) []) st)"
| "halt_next sv ev req_reason cid (HaltPut s) st = Some (Inl (HaltBroadcast s), store_put cid s st)"
| "halt_next sv ev req_reason cid (HaltBroadcast s) st =
     map_option (\<lambda>st1. (Inl (HaltClose s), st1)) (broadcast cid (NewCycleEvent (qe_now ev) s) st)"
| "halt_next sv ev req_reason cid (HaltClose s) st =
     map_option (\<lambda>st1. (Inr (StateReply 200 s), st1)) (closeAll cid st)"

datatype events_pc = EventsGet | EventsSubscribe

fun events_next ::
  "'w cycle_server \<Rightarrow> request_env \<Rightarrow> bool \<Rightarrow> string \<Rightarrow> events_pc \<Rightarrow> 'w cycleStore \<Rightarrow>
   (events_pc + cycle_reply) \<times> 'w cycleStore" where
  "events_next sv ev write_ok cid EventsGet st =
     (case store_get sv (qe_read ev 0) cid st of
        (None, st1) \<Rightarrow> (Inr (HttpError 404), st1)
      | (Some s, st1) \<Rightarrow> (if write_ok then Inl EventsSubscribe else Inr StreamReply, st1))"
| "events_next sv ev write_ok cid EventsSubscribe st = (Inr StreamReply, snd (subscribe cid st))"

datatype orchestrate_pc =
    OrchGet
  | OrchSync State OrchestratorConfig
  | OrchPutSync State OrchestratorConfig
  | OrchGuard State OrchestratorConfig
  | OrchMark State OrchestratorConfig

definition orch_registry :: "'w cycle_server \<Rightarrow> State \<Rightarrow> OrchestratorConfig \<Rightarrow> orchestrate_pc + cycle_reply" where
  "orch_registry sv s cfg = (if sv_registry sv = None then Inr (HttpError 503) else Inl (OrchGuard s cfg))"

fun orchestrate_next ::
  "'w cycle_server \<Rightarrow> request_env \<Rightarrow> OrchestratorConfig option \<Rightarrow> string \<Rightarrow> orchestrate_pc \<Rightarrow> 'w cycleStore \<Rightarrow>
   (orchestrate_pc + cycle_reply) \<times> 'w cycleStore" where
  "orchestrate_next sv ev body cid OrchGet st =
     (case store_get sv (qe_read ev 0) cid st of
        (None, st1) \<Rightarrow> (Inr (HttpError 404), st1)
      | (Some s, st1) \<Rightarrow> (case body of None \<Rightarrow> Inr (HttpError 400) | Some cfg \<Rightarrow> Inl (OrchSync s cfg), st1))"
| "orchestrate_next sv ev body cid (OrchSync s cfg) st =
     (if cid \<in> cy_syncs st then orch_registry sv s cfg else Inl (OrchPutSync s cfg), st)"
| "orchestrate_next sv ev body cid (OrchPutSync s cfg) st = (orch_registry sv s cfg, putSync cid st)"
| "orchestrate_next sv ev body cid (OrchGuard s cfg) st =
     (case read_ledger ev cid st of
        None \<Rightarrow> (Inr (HttpError 500), st)
      | Some entries \<Rightarrow>
          (if snd (LedgerSealsResume entries) then Inr (HttpError 409) else Inl (OrchMark s cfg), st))"
| "orchestrate_next sv ev body cid (OrchMark s cfg) st =
     (if cy_orchestrating st cid \<noteq> None then (Inr (HttpError 409), st)
      else (Inr (StateReply 202 s), st\<lparr>cy_orchestrating := (cy_orchestrating st)(cid \<mapsto> (cfg, False))\<rparr>))"

text \<open>A request with its arguments and where it is.\<close>

datatype cycle_request =
    CreateReq request_env string create_pc
  | GetReq request_env string get_pc
  | LedgerReq request_env string ledger_pc
  | StepReq request_env string string step_pc
  | HaltReq request_env string string halt_pc
  | EventsReq request_env bool string events_pc
  | OrchestrateReq request_env "OrchestratorConfig option" string orchestrate_pc

fun serve ::
  "'w cycle_server \<Rightarrow> cycle_request \<Rightarrow> 'w cycleStore \<Rightarrow> ((cycle_request + cycle_reply) \<times> 'w cycleStore) option" where
  "serve sv (CreateReq ev cid pc) st = Some (apfst (map_sum (CreateReq ev cid) id) (create_next sv ev cid pc st))"
| "serve sv (GetReq ev cid pc) st = Some (apfst (map_sum (GetReq ev cid) id) (get_next sv ev cid pc st))"
| "serve sv (LedgerReq ev cid pc) st = Some (apfst (map_sum (LedgerReq ev cid) id) (ledger_next sv ev cid pc st))"
| "serve sv (StepReq ev goal cid pc) st =
     map_option (apfst (map_sum (StepReq ev goal cid) id)) (step_next sv ev goal cid pc st)"
| "serve sv (HaltReq ev req cid pc) st =
     map_option (apfst (map_sum (HaltReq ev req cid) id)) (halt_next sv ev req cid pc st)"
| "serve sv (EventsReq ev ok cid pc) st = Some (apfst (map_sum (EventsReq ev ok cid) id) (events_next sv ev ok cid pc st))"
| "serve sv (OrchestrateReq ev body cid pc) st =
     Some (apfst (map_sum (OrchestrateReq ev body cid) id) (orchestrate_next sv ev body cid pc st))"

end
