(* ===== verification/CycleServing.thy ===== *)
theory CycleServing
  imports CycleBroker
begin

section \<open>A request served alone\<close>

text \<open>
  When no other request runs in between, the atomic actions of a request do what its handler does as a
  whole: same reply, same store. So the whole handlers are the special case of one request at a time.
\<close>

inductive answers ::
  "'w cycle_server \<Rightarrow> cycle_request \<Rightarrow> 'w cycleStore \<Rightarrow> cycle_reply \<Rightarrow> 'w cycleStore \<Rightarrow> bool" for sv where
  Last: "serve sv q st = Some (Inr r, st') \<Longrightarrow> answers sv q st r st'"
| More: "serve sv q st = Some (Inl q', st1) \<Longrightarrow> answers sv q' st1 r st' \<Longrightarrow> answers sv q st r st'"

text \<open>One action: go on with what it leaves, or the reply.\<close>

lemma answers_unroll:
  "answers sv q st r st' \<longleftrightarrow> (case serve sv q st of
     None \<Rightarrow> False
   | Some (x, st1) \<Rightarrow> (case x of Inl q' \<Rightarrow> answers sv q' st1 r st' | Inr r' \<Rightarrow> r' = r \<and> st1 = st'))"
proof (cases "serve sv q st")
  case (Some p)
  then show ?thesis
    by (subst answers.simps) (cases p, cases "fst p", auto)
qed (subst answers.simps, simp)

lemma answers_simps:
  "answers sv (CreateReq ev cid pc) st r st' \<longleftrightarrow> (case create_next sv ev cid pc st of
     (Inl pc', st1) \<Rightarrow> answers sv (CreateReq ev cid pc') st1 r st' | (Inr r', st1) \<Rightarrow> r' = r \<and> st1 = st')"
  "answers sv (GetReq ev cid gpc) st r st' \<longleftrightarrow> (case get_next sv ev cid gpc st of
     (Inl pc', st1) \<Rightarrow> answers sv (GetReq ev cid pc') st1 r st' | (Inr r', st1) \<Rightarrow> r' = r \<and> st1 = st')"
  "answers sv (LedgerReq ev cid lpc) st r st' \<longleftrightarrow> (case ledger_next sv ev cid lpc st of
     (Inl pc', st1) \<Rightarrow> answers sv (LedgerReq ev cid pc') st1 r st' | (Inr r', st1) \<Rightarrow> r' = r \<and> st1 = st')"
  "answers sv (EventsReq ev ok cid epc) st r st' \<longleftrightarrow> (case events_next sv ev ok cid epc st of
     (Inl pc', st1) \<Rightarrow> answers sv (EventsReq ev ok cid pc') st1 r st' | (Inr r', st1) \<Rightarrow> r' = r \<and> st1 = st')"
  "answers sv (OrchestrateReq ev body cid opc) st r st' \<longleftrightarrow> (case orchestrate_next sv ev body cid opc st of
     (Inl pc', st1) \<Rightarrow> answers sv (OrchestrateReq ev body cid pc') st1 r st' | (Inr r', st1) \<Rightarrow> r' = r \<and> st1 = st')"
  "answers sv (StepReq ev goal cid spc) st r st' \<longleftrightarrow> (case step_next sv ev goal cid spc st of
     None \<Rightarrow> False
   | Some (Inl pc', st1) \<Rightarrow> answers sv (StepReq ev goal cid pc') st1 r st' | Some (Inr r', st1) \<Rightarrow> r' = r \<and> st1 = st')"
  "answers sv (HaltReq ev req cid hpc) st r st' \<longleftrightarrow> (case halt_next sv ev req cid hpc st of
     None \<Rightarrow> False
   | Some (Inl pc', st1) \<Rightarrow> answers sv (HaltReq ev req cid pc') st1 r st' | Some (Inr r', st1) \<Rightarrow> r' = r \<and> st1 = st')"
  by (subst answers_unroll, simp add: case_prod_beta map_sum_def split: sum.split option.split)+

lemma answers_det: "answers sv q st r st' \<Longrightarrow> answers sv q st r2 st2 \<Longrightarrow> r2 = r \<and> st2 = st'"
proof (induction rule: answers.induct)
  case (Last q st r st')
  from Last(2,1) show ?case by (cases rule: answers.cases) auto
next
  case (More q st q' st1 r st')
  from More(4,1,3) show ?case by (cases rule: answers.cases) auto
qed

subsection \<open>The short handlers\<close>

lemma create_alone:
  assumes "create_start ev rnd nano body = Inr (cid, pc)" "handleCreateCycle sv ev rnd nano body st = (r, st')"
  shows "answers sv (CreateReq ev cid pc) st r st'"
proof -
  obtain req where req: "body = Some req" using assms(1) by (cases body) (simp_all add: create_start_def)
  let ?cid = "''cyc_'' @ show_int (qe_now ev) @ ''_'' @ randomHex rnd nano 4"
  have "create_start ev rnd nano body =
      (case NewState (qe_now ev) req ?cid of Inl e \<Rightarrow> Inl (HttpError 400) | Inr s \<Rightarrow> Inr (?cid, CreateWrite s))"
    unfolding create_start_def req option.case Let_def ..
  with assms(1) obtain s where b: "body = Some req" "NewState (qe_now ev) req cid = Inr s" "pc = CreateWrite s" "cid = ?cid"
    using req by (cases "NewState (qe_now ev) req ?cid") (simp, metis sum.case(2) sum.inject(2) prod.inject)
  obtain err st1 where w: "sync_write sv (qe_write ev) cid s st = (err, st1)" by fastforce
  have h: "handleCreateCycle sv ev rnd nano body st = (case err of Some e \<Rightarrow> (HttpError 500, st1)
      | None \<Rightarrow> (StateReply 201 s, appendLedger ev cid
          (NewHarnessLedgerEntry (qe_now ev) cid LedgerEventCycleCreated ''cycle created'' (cs_PendingFiles s))
          (putSync cid (store_put cid s st1))))"
    unfolding handleCreateCycle_def b(1) option.case Let_def b(4) [symmetric] b(2) sum.case w
    by (simp split: option.split)
  have "answers sv (CreateReq ev cid pc) st r st' \<longleftrightarrow> (case err of Some e \<Rightarrow> HttpError 500 = r \<and> st1 = st'
      | None \<Rightarrow> answers sv (CreateReq ev cid (CreatePut s)) st1 r st')"
    unfolding b(3) answers_simps(1) [where pc = "CreateWrite s"] create_next.simps w Let_def prod.case
    by (cases err) simp_all
  moreover have "answers sv (CreateReq ev cid (CreatePut s)) st1 r st' \<longleftrightarrow> StateReply 201 s = r \<and> appendLedger ev cid
      (NewHarnessLedgerEntry (qe_now ev) cid LedgerEventCycleCreated ''cycle created'' (cs_PendingFiles s))
      (putSync cid (store_put cid s st1)) = st'"
    unfolding answers_simps(1) [where pc = "CreatePut s"] answers_simps(1) [where pc = "CreatePutSync s"]
      answers_simps(1) [where pc = "CreateAppend s"] create_next.simps prod.case sum.case ..
  ultimately show ?thesis
    using assms(2) unfolding h by (cases err) simp_all
qed

lemma get_alone: "handleGetCycle sv ev cid st = (r, st') \<Longrightarrow> answers sv (GetReq ev cid GetRefresh) st r st'"
  by (simp add: handleGetCycle_def answers_simps split: prod.splits option.splits)

lemma ledger_alone: "handleCycleLedger sv ev cid st = (r, st') \<Longrightarrow> answers sv (LedgerReq ev cid LedgerRead) st r st'"
  by (cases "read_ledger ev cid st")
     (auto simp: handleCycleLedger_def answers_simps split: prod.splits option.splits if_splits)

lemma events_alone:
  "handleCycleEvents sv ev ok cid st = (r, c, st') \<Longrightarrow> answers sv (EventsReq ev ok cid EventsGet) st r st'"
  by (auto simp: handleCycleEvents_def answers_simps split: prod.splits option.splits if_splits)

lemma orchestrate_alone:
  assumes "handleOrchestrate sv ev body cid st = (r, st')"
  shows "answers sv (OrchestrateReq ev body cid OrchGet) st r st'"
proof -
  obtain so st1 where g: "store_get sv (qe_read ev 0) cid st = (so, st1)" by fastforce
  define st2 where "st2 = (if cid \<in> cy_syncs st1 then st1 else putSync cid st1)"
  show ?thesis
  proof (cases so)
    case (Some s)
    show ?thesis
    proof (cases body)
      case b: (Some cfg)
      have h: "handleOrchestrate sv ev body cid st =
         (if sv_registry sv = None then (HttpError 503, st2)
          else if read_ledger ev cid st2 = None then (HttpError 500, st2)
          else if snd (LedgerSealsResume (cy_ledger st2 cid)) then (HttpError 409, st2)
          else if cy_orchestrating st2 cid \<noteq> None then (HttpError 409, st2)
          else (StateReply 202 s, st2\<lparr>cy_orchestrating := (cy_orchestrating st2)(cid \<mapsto> (cfg, False))\<rparr>))"
        by (simp add: handleOrchestrate_def g Some b st2_def Let_def)
      have "answers sv (OrchestrateReq ev body cid OrchGet) st r st' \<longleftrightarrow> (case orch_registry sv s cfg of
          Inl pc \<Rightarrow> answers sv (OrchestrateReq ev body cid pc) st2 r st' | Inr r' \<Rightarrow> r' = r \<and> st2 = st')"
        unfolding st2_def by (simp add: answers_simps g Some b split: sum.split)
      with assms h show ?thesis
        by (auto simp: orch_registry_def answers_simps read_ledger_def split: if_splits)
    qed (use assms g Some in \<open>simp add: handleOrchestrate_def answers_simps\<close>)
  qed (use assms g in \<open>simp add: handleOrchestrate_def answers_simps\<close>)
qed

subsection \<open>Steps and halts\<close>

lemma appends_alone:
  "answers sv (StepReq ev goal cid (step_appends s es)) st r st' \<longleftrightarrow>
   answers sv (StepReq ev goal cid (StepSync s)) (append_entries ev cid es st) r st'"
proof (induction es arbitrary: st)
  case (Cons e es)
  then show ?case
    by (simp add: step_appends_def answers_simps(6) [where spc = "StepAppend s (e # es)"] append_entries_def)
qed (simp add: step_appends_def append_entries_def)

lemma execute_alone:
  assumes "Execute (qe_now ev) (pipelineForState sv s) s (cy_world st) = (result, w)"
  shows "answers sv (StepReq ev goal cid (StepExecute s)) st r st' \<longleftrightarrow>
    answers sv (StepReq ev goal cid (StepSync (step_state (qe_now ev) result)))
      (append_entries ev cid (step_entries (qe_now ev) cid result) (st\<lparr>cy_world := w\<rparr>)) r st'"
  unfolding appends_alone [symmetric]
  by (subst answers_simps(6)) (simp only: step_next.simps assms Let_def prod.case option.case sum.case)

lemma step_alone:
  assumes "handleStepCycle sv ev goal cid st = Some (r, st')"
  shows "answers sv (StepReq ev goal cid StepRefresh) st r st'"
proof -
  obtain so st1 where g: "store_get sv (qe_read ev 1) cid (refreshFromFile sv (qe_read ev 0) cid st) = (so, st1)" by fastforce
  show ?thesis
  proof (cases so)
    case (Some s0)
    let ?s = "if goal \<noteq> [] then s0\<lparr>cs_NextCycleGoal := goal\<rparr> else s0"
    obtain s' st2 where r: "run_step sv ev cid ?s st1 = (s', st2)" by fastforce
    have guard: "answers sv (StepReq ev goal cid StepRefresh) st r st' \<longleftrightarrow>
        answers sv (StepReq ev goal cid (StepGuard s0)) st1 r st'"
      by (simp add: answers_simps(6) [where spc = StepRefresh] answers_simps(6) [where spc = StepGet] g Some
          del: One_nat_def step_next.simps(3))
    have run: "answers sv (StepReq ev goal cid (StepExecute ?s)) st1 r st' \<longleftrightarrow>
        map_option (\<lambda>st3. (StateReply 200 s', st3)) (broadcast cid (NewCycleEvent (qe_now ev) s') st2) = Some (r, st')"
    proof -
      obtain result w where ex: "Execute (qe_now ev) (pipelineForState sv ?s) ?s (cy_world st1) = (result, w)" by fastforce
      let ?st1 = "append_entries ev cid (step_entries (qe_now ev) cid result) (st1\<lparr>cy_world := w\<rparr>)"
      have s': "s' = step_state (qe_now ev) result"
        "st2 = store_put cid s' (if cid \<in> cy_syncs ?st1 then snd (sync_write sv (qe_write ev) cid s' ?st1) else ?st1)"
        using r unfolding run_step_def ex Let_def prod.case by auto
      have "answers sv (StepReq ev goal cid (StepExecute ?s)) st1 r st' \<longleftrightarrow> answers sv (StepReq ev goal cid (StepPut s'))
          (if cid \<in> cy_syncs ?st1 then snd (sync_write sv (qe_write ev) cid s' ?st1) else ?st1) r st'"
        unfolding execute_alone [OF ex] s'(1) [symmetric]
        by (simp add: answers_simps(6) [where spc = "StepSync s'"] answers_simps(6) [where spc = "StepWrite s'"])
      also have "\<dots> \<longleftrightarrow> answers sv (StepReq ev goal cid (StepBroadcast s')) st2 r st'"
        unfolding s'(2) by (simp add: answers_simps(6) [where spc = "StepPut s'"])
      also have "\<dots> \<longleftrightarrow> map_option (\<lambda>st3. (StateReply 200 s', st3)) (broadcast cid (NewCycleEvent (qe_now ev) s') st2) = Some (r, st')"
        by (auto simp: answers_simps(6) [where spc = "StepBroadcast s'"] split: option.split)
      finally show ?thesis .
    qed
    have h: "handleStepCycle sv ev goal cid st =
       (if read_ledger ev cid st1 = None then Some (HttpError 500, st1)
        else if snd (LedgerSealsResume (cy_ledger st1 cid)) then Some (HttpError 409, st1)
        else if TrimSpace (cs_NextCycleGoal ?s) = [] then Some (HttpError 400, st1)
        else map_option (\<lambda>st3. (StateReply 200 s', st3)) (broadcast cid (NewCycleEvent (qe_now ev) s') st2))"
      unfolding handleStepCycle_def g Some prod.case option.case Let_def r ..
    have led: "read_ledger ev cid st1 = None \<or> read_ledger ev cid st1 = Some (cy_ledger st1 cid)"
      by (simp add: read_ledger_def)
    have "answers sv (StepReq ev goal cid (StepGuard s0)) st1 r st' \<longleftrightarrow>
       (if read_ledger ev cid st1 = None then HttpError 500 = r \<and> st1 = st'
        else if snd (LedgerSealsResume (cy_ledger st1 cid)) then HttpError 409 = r \<and> st1 = st'
        else if TrimSpace (cs_NextCycleGoal ?s) = [] then HttpError 400 = r \<and> st1 = st'
        else answers sv (StepReq ev goal cid (StepExecute ?s)) st1 r st')"
      using led by (subst answers_simps(6)) (auto simp del: step_next.simps(4) simp: Let_def)
    with assms run show ?thesis unfolding guard h by (auto split: if_splits)
  qed (use assms g in \<open>simp add: handleStepCycle_def answers_simps\<close>)
qed

lemma halt_alone:
  assumes "handleHaltCycle sv ev req cid st = Some (r, st')"
  shows "answers sv (HaltReq ev req cid HaltGet) st r st'"
proof -
  obtain so st1 where g: "store_get sv (qe_read ev 0) cid st = (so, st1)" by fastforce
  show ?thesis
  proof (cases so)
    case (Some s)
    define halted where "halted = re_value (Halt (qe_now ev) (halt_reason req) s)"
    define st2 where "st2 = (if cid \<in> cy_syncs st1
      then sync_remove (qe_remove_fails ev) cid (snd (sync_write sv (qe_write ev) cid halted st1)) else st1)"
    define st4 where "st4 = store_put cid halted (appendLedger ev cid
      (NewHarnessLedgerEntry (qe_now ev) cid LedgerEventCycleHalted (halt_reason req) []) st2)"
    have "answers sv (HaltReq ev req cid HaltGet) st r st' \<longleftrightarrow> answers sv (HaltReq ev req cid (HaltSync halted)) st1 r st'"
      by (simp add: answers_simps g Some halted_def)
    also have "\<dots> \<longleftrightarrow> answers sv (HaltReq ev req cid (HaltAppend halted)) st2 r st'"
      by (simp add: st2_def answers_simps(7) [where hpc = "HaltSync halted"] answers_simps(7) [where hpc = "HaltWrite halted"]
          answers_simps(7) [where hpc = "HaltRemove halted"])
    also have "\<dots> \<longleftrightarrow> answers sv (HaltReq ev req cid (HaltBroadcast halted)) st4 r st'"
      by (simp add: st4_def answers_simps(7) [where hpc = "HaltAppend halted"] answers_simps(7) [where hpc = "HaltPut halted"])
    finally have "answers sv (HaltReq ev req cid HaltGet) st r st' \<longleftrightarrow>
      Option.bind (broadcast cid (NewCycleEvent (qe_now ev) halted) st4)
        (\<lambda>st5. map_option (\<lambda>st6. (StateReply 200 halted, st6)) (closeAll cid st5)) = Some (r, st')"
      by (auto simp: answers_simps(7) [where hpc = "HaltBroadcast halted"] answers_simps(7) [where hpc = "HaltClose halted"]
          split: option.split)
    with assms show ?thesis
      unfolding handleHaltCycle_def g Some prod.case option.case Let_def halted_def [symmetric] st2_def [symmetric]
        st4_def [symmetric] by simp
  qed (use assms g in \<open>simp add: handleHaltCycle_def answers_simps\<close>)
qed

end
