(* ===== verification/CycleDaemon.thy ===== *)
theory CycleDaemon
  imports CycleServing
begin

section \<open>The daemon's cycles as a transition system\<close>

text \<open>
  The atomic actions of the requests in flight, the rounds of the event streams and the moves of the
  orchestrator goroutines, interleaved in any order; what holds of every reachable store. A request
  served alone does what its handler does as a whole.
\<close>

subsection \<open>What the parts of a handler leave alone\<close>

lemma put_simps [simp]:
  "cy_syncs (store_put cid s st) = cy_syncs st" "cy_events (store_put cid s st) = cy_events st"
  "cy_orchestrating (store_put cid s st) = cy_orchestrating st" "cy_chans (store_put cid s st) = cy_chans st"
  "cy_next (store_put cid s st) = cy_next st" "cy_disk (store_put cid s st) = cy_disk st"
  "cy_ledger (store_put cid s st) = cy_ledger st" "cy_world (store_put cid s st) = cy_world st"
  "cy_states (store_put cid s st) = (cy_states st)(cid \<mapsto> s)"
  "cy_states (putSync cid st) = cy_states st" "cy_events (putSync cid st) = cy_events st"
  "cy_orchestrating (putSync cid st) = cy_orchestrating st" "cy_chans (putSync cid st) = cy_chans st"
  "cy_next (putSync cid st) = cy_next st" "cy_disk (putSync cid st) = cy_disk st"
  "cy_ledger (putSync cid st) = cy_ledger st" "cy_world (putSync cid st) = cy_world st"
  "cy_syncs (putSync cid st) = insert cid (cy_syncs st)"
  "cy_tail (store_put cid s st) = cy_tail st" "cy_tail (putSync cid st) = cy_tail st"
  by (simp_all add: store_put_def putSync_def)

lemma file_simps [simp]:
  "cy_states (snd (sync_write sv flt cid s st)) = cy_states st" "cy_syncs (snd (sync_write sv flt cid s st)) = cy_syncs st"
  "cy_events (snd (sync_write sv flt cid s st)) = cy_events st"
  "cy_orchestrating (snd (sync_write sv flt cid s st)) = cy_orchestrating st"
  "cy_chans (snd (sync_write sv flt cid s st)) = cy_chans st" "cy_next (snd (sync_write sv flt cid s st)) = cy_next st"
  "cy_ledger (snd (sync_write sv flt cid s st)) = cy_ledger st" "cy_world (snd (sync_write sv flt cid s st)) = cy_world st"
  "cy_states (sync_remove b cid st) = cy_states st" "cy_syncs (sync_remove b cid st) = cy_syncs st"
  "cy_events (sync_remove b cid st) = cy_events st" "cy_orchestrating (sync_remove b cid st) = cy_orchestrating st"
  "cy_chans (sync_remove b cid st) = cy_chans st" "cy_next (sync_remove b cid st) = cy_next st"
  "cy_ledger (sync_remove b cid st) = cy_ledger st" "cy_world (sync_remove b cid st) = cy_world st"
  "cy_tail (snd (sync_write sv flt cid s st)) = cy_tail st" "cy_tail (sync_remove b cid st) = cy_tail st"
  by (simp_all add: sync_write_def sync_remove_def case_prod_beta)

lemma append_simps [simp]:
  "cy_states (appendLedger ev cid e st) = cy_states st" "cy_syncs (appendLedger ev cid e st) = cy_syncs st"
  "cy_events (appendLedger ev cid e st) = cy_events st" "cy_orchestrating (appendLedger ev cid e st) = cy_orchestrating st"
  "cy_chans (appendLedger ev cid e st) = cy_chans st" "cy_next (appendLedger ev cid e st) = cy_next st"
  "cy_disk (appendLedger ev cid e st) = cy_disk st" "cy_world (appendLedger ev cid e st) = cy_world st"
  by (simp_all add: appendLedger_def case_prod_beta)

lemma append_entries_simps [simp]:
  "cy_states (append_entries ev cid es st) = cy_states st" "cy_syncs (append_entries ev cid es st) = cy_syncs st"
  "cy_events (append_entries ev cid es st) = cy_events st"
  "cy_orchestrating (append_entries ev cid es st) = cy_orchestrating st"
  "cy_chans (append_entries ev cid es st) = cy_chans st" "cy_next (append_entries ev cid es st) = cy_next st"
  "cy_disk (append_entries ev cid es st) = cy_disk st" "cy_world (append_entries ev cid es st) = cy_world st"
  unfolding append_entries_def by (induction es arbitrary: st) simp_all

text \<open>Only the ledger of the cycle grows, by some of the entries; by all of them without faults.\<close>

lemma appendLedger_grows:
  "\<exists>new. set new \<subseteq> {e} \<and> cy_ledger (appendLedger ev cid e st) = (cy_ledger st)(cid := foldl log_append (cy_ledger st cid) new)"
  using log_write_grows [of e "qe_append ev e" "(cy_ledger st cid, cy_tail st cid)"]
  by (auto simp: appendLedger_def case_prod_beta)

lemma append_entries_grows:
  "\<exists>new. set new \<subseteq> set es \<and>
     cy_ledger (append_entries ev cid es st) = (cy_ledger st)(cid := foldl log_append (cy_ledger st cid) new)"
proof (induction es arbitrary: st)
  case Nil
  show ?case by (intro exI [of _ "[]"]) (simp add: append_entries_def)
next
  case (Cons e es)
  obtain n1 where n1: "set n1 \<subseteq> {e}"
    "cy_ledger (appendLedger ev cid e st) = (cy_ledger st)(cid := foldl log_append (cy_ledger st cid) n1)"
    using appendLedger_grows by blast
  obtain n2 where "set n2 \<subseteq> set es" "cy_ledger (append_entries ev cid es (appendLedger ev cid e st)) =
      (cy_ledger (appendLedger ev cid e st))(cid := foldl log_append (cy_ledger (appendLedger ev cid e st) cid) n2)"
    using Cons.IH by blast
  with n1 show ?case by (intro exI [of _ "n1 @ n2"]) (auto simp: append_entries_def)
qed

lemma append_entries_kept:
  "\<forall>e \<in> set es. qe_append ev e = Appended \<Longrightarrow> cy_tail st cid = WholeLine \<Longrightarrow>
   cy_ledger (append_entries ev cid es st) = (cy_ledger st)(cid := foldl log_append (cy_ledger st cid) es) \<and>
   cy_tail (append_entries ev cid es st) cid = WholeLine"
  unfolding append_entries_def
  by (induction es arbitrary: st) (simp_all add: appendLedger_def)

lemma append_entries_Cons: "append_entries ev cid (e # es) st = append_entries ev cid es (appendLedger ev cid e st)"
  by (simp add: append_entries_def)

lemma append_entries_ledger_cong:
  "cy_ledger st1 = cy_ledger st \<Longrightarrow> cy_tail st1 = cy_tail st \<Longrightarrow>
   cy_ledger (append_entries ev cid es st1) = cy_ledger (append_entries ev cid es st)"
proof (induction es arbitrary: st1 st)
  case (Cons e es)
  have "cy_ledger (appendLedger ev cid e st1) = cy_ledger (appendLedger ev cid e st)"
    "cy_tail (appendLedger ev cid e st1) = cy_tail (appendLedger ev cid e st)"
    using Cons.prems by (simp_all add: appendLedger_def case_prod_beta)
  then show ?case unfolding append_entries_Cons by (rule Cons.IH)
qed (simp add: append_entries_def)

lemma append_entries_append: "append_entries ev cid (xs @ ys) st = append_entries ev cid ys (append_entries ev cid xs st)"
  by (simp add: append_entries_def)

lemma append_entries_Nil [simp]: "append_entries ev cid [] st = st"
  by (simp add: append_entries_def)

lemma append_entries_one: "appendLedger ev cid e st = append_entries ev cid [e] st"
  by (simp add: append_entries_def)

subsection \<open>The cache\<close>

text \<open>Reading a cycle changes nothing, or caches a state and registers its file.\<close>

definition caches :: "string \<Rightarrow> 'w cycleStore \<Rightarrow> 'w cycleStore \<Rightarrow> bool" where
  "caches cid st st1 \<longleftrightarrow> st1 = st \<or> (\<exists>fs. st1 = putSync cid (store_put cid fs st))"

lemma caches_trans: "caches cid st st1 \<Longrightarrow> caches cid st1 st2 \<Longrightarrow> caches cid st st2"
  by (auto simp: caches_def store_put_def putSync_def)

lemma store_get_caches: "store_get sv flt cid st = (r, st1) \<Longrightarrow> caches cid st st1"
  by (auto simp: store_get_def caches_def split: option.splits sum.splits if_splits)

lemma refresh_caches: "caches cid st (refreshFromFile sv flt cid st)"
  by (auto simp: refreshFromFile_def caches_def split: option.splits sum.splits)

lemma get_refresh_caches: "store_get sv flt cid (refreshFromFile sv flt' cid st) = (r, st1) \<Longrightarrow> caches cid st st1"
  using caches_trans [OF refresh_caches] store_get_caches by blast

lemma caches_simps:
  assumes "caches cid st st1"
  shows "cy_events st1 = cy_events st" "cy_chans st1 = cy_chans st" "cy_next st1 = cy_next st"
    "cy_disk st1 = cy_disk st" "cy_ledger st1 = cy_ledger st" "cy_world st1 = cy_world st"
    "cy_orchestrating st1 = cy_orchestrating st" "cy_tail st1 = cy_tail st"
  using assms by (auto simp: caches_def)

lemma store_get_Some: "store_get sv flt cid st = (Some s, st1) \<Longrightarrow> cy_states st1 cid = Some s"
  by (auto simp: store_get_def split: option.splits sum.splits if_splits)

subsection \<open>The invariant\<close>

text \<open>
  The subscribed channels are open, allocated and each on one list; the whole lines of every ledger
  verify.
\<close>

definition chans_ok :: "'w cycleStore \<Rightarrow> bool" where
  "chans_ok st \<longleftrightarrow>
     (\<forall>cid c. c \<in> set (subscribers st cid) \<longrightarrow> c < cy_next st \<and> \<not> ch_closed (cy_chans st c)) \<and>
     (\<forall>cid. distinct (subscribers st cid)) \<and>
     (\<forall>a b. a \<noteq> b \<longrightarrow> set (subscribers st a) \<inter> set (subscribers st b) = {}) \<and>
     (\<forall>c. ch_closed (cy_chans st c) \<longrightarrow> c < cy_next st)"

definition ledgers_intact :: "'w cycleStore \<Rightarrow> bool" where
  "ledgers_intact st \<longleftrightarrow> (\<forall>cid. chain_intact (cy_ledger st cid))"

definition cycle_store_ok :: "'w cycleStore \<Rightarrow> bool" where
  "cycle_store_ok st \<longleftrightarrow> chans_ok st \<and> ledgers_intact st"

lemma chans_ok_cong:
  "cy_events st' = cy_events st \<Longrightarrow> cy_chans st' = cy_chans st \<Longrightarrow> cy_next st' = cy_next st \<Longrightarrow>
   chans_ok st' = chans_ok st"
  by (simp add: chans_ok_def subscribers_def)

lemma caches_ok: "caches cid st st1 \<Longrightarrow> cycle_store_ok st \<Longrightarrow> cycle_store_ok st1"
  using chans_ok_cong [of st1 st] caches_simps [of cid st st1]
  by (auto simp: cycle_store_ok_def ledgers_intact_def)

lemma send_all_open:
  "\<forall>c\<in>set cs. \<not> ch_closed (chans c) \<Longrightarrow>
   \<exists>chans'. send_all evt cs chans = Some chans' \<and> (\<forall>c. ch_closed (chans' c) = ch_closed (chans c))"
proof (induction cs arbitrary: chans)
  case (Cons a cs)
  let ?m = "chans(a := (chans a)\<lparr>ch_buf := ch_buf (chans a) @ [evt]\<rparr>)"
  have "\<forall>c\<in>set cs. \<not> ch_closed (?m c)" using Cons.prems by simp
  from Cons.IH [OF this] obtain chans' where c: "send_all evt cs ?m = Some chans'"
    "\<forall>c. ch_closed (chans' c) = ch_closed (?m c)" by blast
  have "\<forall>c. ch_closed (chans' c) = ch_closed (chans c)" using c(2) by simp
  with c(1) Cons.IH [of chans] Cons.prems show ?case by (simp del: fun_upd_apply)
qed simp

lemma close_all_open:
  "distinct cs \<Longrightarrow> \<forall>c\<in>set cs. \<not> ch_closed (chans c) \<Longrightarrow>
   \<exists>chans'. close_all cs chans = Some chans' \<and> (\<forall>c. ch_closed (chans' c) \<longleftrightarrow> c \<in> set cs \<or> ch_closed (chans c))"
proof (induction cs arbitrary: chans)
  case (Cons a cs)
  let ?m = "chans(a := (chans a)\<lparr>ch_closed := True\<rparr>)"
  have "distinct cs" "\<forall>c\<in>set cs. \<not> ch_closed (?m c)" using Cons.prems by auto
  from Cons.IH [OF this] obtain chans' where c: "close_all cs ?m = Some chans'"
    "\<forall>c. ch_closed (chans' c) \<longleftrightarrow> c \<in> set cs \<or> ch_closed (?m c)" by blast
  have "\<forall>c. ch_closed (chans' c) \<longleftrightarrow> c \<in> set (a # cs) \<or> ch_closed (chans c)" using c(2) by simp
  with c(1) Cons.prems show ?case by (simp del: fun_upd_apply)
qed simp

lemma broadcast_ok:
  assumes "cycle_store_ok st"
  obtains st' where "broadcast cid evt st = Some st'" "cycle_store_ok st'"
    "cy_events st' = cy_events st" "cy_states st' = cy_states st" "cy_syncs st' = cy_syncs st"
    "cy_disk st' = cy_disk st" "cy_ledger st' = cy_ledger st" "cy_world st' = cy_world st"
    "cy_orchestrating st' = cy_orchestrating st" "\<And>c. ch_closed (cy_chans st' c) = ch_closed (cy_chans st c)"
    "cy_next st' = cy_next st" "cy_tail st' = cy_tail st"
proof -
  have "\<forall>c\<in>set (subscribers st cid). \<not> ch_closed (cy_chans st c)"
    using assms by (simp add: cycle_store_ok_def chans_ok_def)
  then obtain chans' where c: "send_all evt (subscribers st cid) (cy_chans st) = Some chans'"
    "\<And>c. ch_closed (chans' c) = ch_closed (cy_chans st c)" using send_all_open by blast
  show thesis
  proof (rule that [of "st\<lparr>cy_chans := chans'\<rparr>"])
    show "cycle_store_ok (st\<lparr>cy_chans := chans'\<rparr>)" using assms c(2)
      by (simp add: cycle_store_ok_def chans_ok_def ledgers_intact_def subscribers_def)
  qed (simp_all add: broadcast_def c)
qed

lemma closeAll_ok:
  assumes "cycle_store_ok st"
  obtains st' where "closeAll cid st = Some st'" "cycle_store_ok st'" "cy_ledger st' = cy_ledger st"
    "cy_disk st' = cy_disk st" "cy_world st' = cy_world st" "cy_orchestrating st' = cy_orchestrating st"
    "cy_states st' cid = None" "\<And>c. ch_closed (cy_chans st' c) \<longleftrightarrow> c \<in> set (subscribers st cid) \<or> ch_closed (cy_chans st c)"
    "cy_next st' = cy_next st" "cy_tail st' = cy_tail st" "cid \<notin> cy_syncs st'"
proof -
  have d: "distinct (subscribers st cid)" "\<forall>c\<in>set (subscribers st cid). \<not> ch_closed (cy_chans st c)"
    using assms by (simp_all add: cycle_store_ok_def chans_ok_def)
  then obtain chans' where c: "close_all (subscribers st cid) (cy_chans st) = Some chans'"
    "\<And>c. ch_closed (chans' c) \<longleftrightarrow> c \<in> set (subscribers st cid) \<or> ch_closed (cy_chans st c)" using close_all_open by metis
  let ?st = "st\<lparr>cy_chans := chans', cy_events := (cy_events st)(cid := None),
      cy_states := (cy_states st)(cid := None), cy_syncs := cy_syncs st - {cid}\<rparr>"
  have sub: "subscribers ?st a = (if a = cid then [] else subscribers st a)" for a by (simp add: subscribers_def)
  have ok: "chans_ok st" "ledgers_intact st" using assms by (simp_all add: cycle_store_ok_def)
  have "chans_ok ?st"
  proof -
    have disj: "c \<notin> set (subscribers st cid)" if "c \<in> set (subscribers st a)" "a \<noteq> cid" for a c
      using ok(1) that unfolding chans_ok_def by blast
    show ?thesis unfolding chans_ok_def sub using ok(1) c(2) disj by (auto simp: chans_ok_def split: if_splits)
  qed
  moreover have "ledgers_intact ?st"
    using ok by (auto simp: ledgers_intact_def)
  ultimately show thesis using that [of ?st] c by (simp add: cycle_store_ok_def closeAll_def)
qed

text \<open>What changes neither channels nor cache and lets one ledger grow keeps the invariant.\<close>

lemma grows_ok:
  assumes "cycle_store_ok st" "cy_events st' = cy_events st" "cy_chans st' = cy_chans st" "cy_next st' = cy_next st"
    "cy_ledger st' = (cy_ledger st)(cid := foldl log_append (cy_ledger st cid) new)"
  shows "cycle_store_ok st'"
  using assms chans_ok_cong [of st' st] log.appends_intact
  by (simp add: cycle_store_ok_def ledgers_intact_def)

lemma append_entries_ok: "cycle_store_ok st \<Longrightarrow> cycle_store_ok (append_entries ev cid es st)"
  using append_entries_grows [of es ev cid st] grows_ok [of st "append_entries ev cid es st" cid] by auto

lemma files_ok:
  "cycle_store_ok st \<Longrightarrow> cycle_store_ok (snd (sync_write sv flt cid s st))"
  "cycle_store_ok st \<Longrightarrow> cycle_store_ok (sync_remove b cid st)"
  "cycle_store_ok st \<Longrightarrow> cycle_store_ok (st\<lparr>cy_world := w\<rparr>)"
  by (rule grows_ok [where cid = cid and new = "[]"], simp_all)+

lemma put_ok:
  "cycle_store_ok st \<Longrightarrow> cycle_store_ok (store_put cid s st)" "cycle_store_ok st \<Longrightarrow> cycle_store_ok (putSync cid st)"
  by (rule grows_ok [where cid = cid and new = "[]"], simp_all)+

lemma orchestrating_ok: "cycle_store_ok st \<Longrightarrow> cycle_store_ok (st\<lparr>cy_orchestrating := f\<rparr>)"
  by (rule grows_ok [where cid = "[]" and new = "[]"]) simp_all

subsection \<open>The handlers keep the invariant\<close>

lemma synced:
  assumes "cycle_store_ok st" "caches cid st st1"
  shows "cycle_store_ok st1" "\<forall>c. ch_closed (cy_chans st1 c) = ch_closed (cy_chans st c)"
  using caches_ok [OF assms(2,1)] caches_simps [OF assms(2)] by simp_all

lemma run_step_eq:
  assumes "Execute (qe_now ev) (pipelineForState sv s) s (cy_world st) = (result, w)"
  shows "run_step sv ev cid s st =
    (let s' = step_state (qe_now ev) result;
         st1 = append_entries ev cid (step_entries (qe_now ev) cid result) (st\<lparr>cy_world := w\<rparr>)
     in (s', store_put cid s' (if cid \<in> cy_syncs st then snd (sync_write sv (qe_write ev) cid s' st1) else st1)))"
  unfolding run_step_def assms Let_def prod.case by simp

lemma run_step_ok:
  assumes "cycle_store_ok st" "run_step sv ev cid s st = (s', st')"
  shows "cycle_store_ok st'" "cy_chans st' = cy_chans st" "cy_next st' = cy_next st" "cy_events st' = cy_events st"
    "cy_orchestrating st' = cy_orchestrating st"
proof -
  obtain result w where ex: "Execute (qe_now ev) (pipelineForState sv s) s (cy_world st) = (result, w)" by fastforce
  let ?st1 = "append_entries ev cid (step_entries (qe_now ev) cid result) (st\<lparr>cy_world := w\<rparr>)"
  have st': "st' = store_put cid s' (if cid \<in> cy_syncs st then snd (sync_write sv (qe_write ev) cid s' ?st1) else ?st1)"
    using assms(2) run_step_eq [OF ex, of cid] by (auto simp: Let_def)
  have "cycle_store_ok ?st1" by (intro append_entries_ok files_ok(3) assms(1))
  then show "cycle_store_ok st'" unfolding st' by (auto intro!: put_ok(1) files_ok(1))
  show "cy_chans st' = cy_chans st" "cy_next st' = cy_next st" "cy_events st' = cy_events st"
    "cy_orchestrating st' = cy_orchestrating st" by (simp_all add: st')
qed

text \<open>A step request served alone returns.\<close>

lemma handleStepCycle_ok:
  assumes "cycle_store_ok st"
  shows "\<exists>r st'. handleStepCycle sv ev goal cid st = Some (r, st')"
proof -
  obtain so st1 where g: "store_get sv (qe_read ev 1) cid (refreshFromFile sv (qe_read ev 0) cid st) = (so, st1)" by fastforce
  note sy = synced(1) [OF assms get_refresh_caches [OF g]]
  show ?thesis
  proof (cases so)
    case (Some s0)
    let ?s = "if goal \<noteq> [] then s0\<lparr>cs_NextCycleGoal := goal\<rparr> else s0"
    obtain s' st2 where r: "run_step sv ev cid ?s st1 = (s', st2)" by fastforce
    obtain st3 where "broadcast cid (NewCycleEvent (qe_now ev) s') st2 = Some st3"
      using broadcast_ok [OF run_step_ok(1) [OF sy r]] by metis
    with g Some r show ?thesis by (simp add: handleStepCycle_def Let_def)
  qed (use g in \<open>simp add: handleStepCycle_def\<close>)
qed

text \<open>A halt that finds the cycle, served alone.\<close>

lemma handleHaltCycle_ok:
  fixes req :: string
  assumes "cycle_store_ok st" "store_get sv (qe_read ev 0) cid st = (Some s, st1)"
  defines "halted \<equiv> re_value (Halt (qe_now ev) (halt_reason req) s)"
    and "e \<equiv> NewHarnessLedgerEntry (qe_now ev) cid LedgerEventCycleHalted (halt_reason req) []"
  shows "\<exists>st'. handleHaltCycle sv ev req cid st = Some (StateReply 200 halted, st') \<and> cycle_store_ok st' \<and>
    (\<forall>c. ch_closed (cy_chans st' c) \<longleftrightarrow> c \<in> set (subscribers st cid) \<or> ch_closed (cy_chans st c)) \<and>
    cy_orchestrating st' = cy_orchestrating st \<and> cy_states st' cid = None \<and> cid \<notin> cy_syncs st' \<and>
    cy_world st' = cy_world st \<and> cy_ledger st' = cy_ledger (appendLedger ev cid e st) \<and>
    cy_tail st' = cy_tail (appendLedger ev cid e st) \<and>
    (cid \<in> cy_syncs st1 \<longrightarrow> cy_disk st' = (cy_disk st)(cid := snd (StateFileSync_Remove (qe_remove_fails ev)
      (final_disk (cy_disk st cid) (snd (StateFileSync_Write (sv_marshal sv) (qe_write ev) halted (cy_disk st cid)))))))"
proof -
  note ca = store_get_caches [OF assms(2)]
  note sy = synced(1) [OF assms(1) ca] and cs = caches_simps [OF ca]
  let ?st2 = "if cid \<in> cy_syncs st1
    then sync_remove (qe_remove_fails ev) cid (snd (sync_write sv (qe_write ev) cid halted st1)) else st1"
  let ?st4 = "store_put cid halted (appendLedger ev cid e ?st2)"
  have "cycle_store_ok ?st2" using sy by (auto intro!: files_ok)
  then have "cycle_store_ok ?st4" unfolding append_entries_one by (intro put_ok append_entries_ok)
  then obtain st5 where b: "broadcast cid (NewCycleEvent (qe_now ev) halted) ?st4 = Some st5" "cycle_store_ok st5"
    "cy_events st5 = cy_events ?st4" "cy_disk st5 = cy_disk ?st4" "cy_ledger st5 = cy_ledger ?st4" "cy_tail st5 = cy_tail ?st4"
    "cy_world st5 = cy_world ?st4" "cy_orchestrating st5 = cy_orchestrating ?st4"
    "\<And>c. ch_closed (cy_chans st5 c) = ch_closed (cy_chans ?st4 c)" using broadcast_ok by metis
  obtain st6 where c: "closeAll cid st5 = Some st6" "cycle_store_ok st6" "cy_ledger st6 = cy_ledger st5" "cy_tail st6 = cy_tail st5"
    "cy_disk st6 = cy_disk st5" "cy_world st6 = cy_world st5" "cy_orchestrating st6 = cy_orchestrating st5"
    "cy_states st6 cid = None" "cid \<notin> cy_syncs st6"
    "\<And>c. ch_closed (cy_chans st6 c) \<longleftrightarrow> c \<in> set (subscribers st5 cid) \<or> ch_closed (cy_chans st5 c)"
    using closeAll_ok [OF b(2)] by metis
  have "handleHaltCycle sv ev req cid st = Some (StateReply 200 halted, st6)"
    unfolding handleHaltCycle_def assms(2) prod.case option.case Let_def
      halted_def [symmetric] e_def [symmetric]
    using b(1) c(1) by simp
  moreover have "subscribers st5 cid = subscribers st cid" by (simp add: subscribers_def b(3) cs)
  moreover have "cy_ledger (appendLedger ev cid e ?st2) = cy_ledger (appendLedger ev cid e st)"
    "cy_tail (appendLedger ev cid e ?st2) = cy_tail (appendLedger ev cid e st)"
    using cs by (simp_all add: appendLedger_def case_prod_beta)
  ultimately show ?thesis
    using c b by (intro exI [of _ st6] conjI)
      (simp_all add: cs sync_remove_def sync_write_def case_prod_beta)
qed

subsection \<open>Streams\<close>

lemma subscribe_ok:
  assumes "cycle_store_ok st" "subscribe cid st = (c, st')"
  shows "cycle_store_ok st'" "\<And>c'. ch_closed (cy_chans st c') \<Longrightarrow> ch_closed (cy_chans st' c')"
    "cy_ledger st' = cy_ledger st" "cy_orchestrating st' = cy_orchestrating st"
proof -
  have st': "st' = st\<lparr>cy_chans := (cy_chans st)(cy_next st := \<lparr>ch_buf = [], ch_closed = False\<rparr>),
        cy_next := Suc (cy_next st), cy_events := (cy_events st)(cid \<mapsto> subscribers st cid @ [cy_next st])\<rparr>"
    using assms(2) by (auto simp: subscribe_def)
  have sub: "subscribers st' a = (if a = cid then subscribers st cid @ [cy_next st] else subscribers st a)" for a
    by (simp add: st' subscribers_def)
  have ok: "chans_ok st" "ledgers_intact st" using assms(1) by (simp_all add: cycle_store_ok_def)
  then have old: "c' < cy_next st" if "c' \<in> set (subscribers st a)" for a c' using that by (auto simp: chans_ok_def)
  have disj: "set (subscribers st a) \<inter> set (subscribers st b) = {}" if "a \<noteq> b" for a b
    using ok(1) that by (simp add: chans_ok_def)
  have "chans_ok st'"
    unfolding chans_ok_def sub
  proof (intro conjI allI impI)
    fix a b :: string assume "a \<noteq> b"
    then show "set (if a = cid then subscribers st cid @ [cy_next st] else subscribers st a) \<inter>
        set (if b = cid then subscribers st cid @ [cy_next st] else subscribers st b) = {}"
      using disj [of a b] old [of "cy_next st" a] old [of "cy_next st" b] by auto
  qed (use ok(1) old in \<open>auto simp: st' chans_ok_def less_Suc_eq split: if_splits\<close>)
  then show "cycle_store_ok st'" using ok
    by (simp add: cycle_store_ok_def st' ledgers_intact_def)
  show "ch_closed (cy_chans st' c')" if "ch_closed (cy_chans st c')" for c'
    using that ok(1) by (auto simp: st' chans_ok_def)
qed (use assms(2) in \<open>auto simp: subscribe_def\<close>)

text \<open>A stream's channel is on its cycle's list, or was closed.\<close>

definition own_channel :: "string \<Rightarrow> nat \<Rightarrow> 'w cycleStore \<Rightarrow> bool" where
  "own_channel cid c st \<longleftrightarrow> c \<in> set (subscribers st cid) \<or> ch_closed (cy_chans st c)"

lemma leave_stream_ok:
  assumes "cycle_store_ok st" "own_channel cid c st" "leave_stream cid c st = (e, st')"
  shows "cycle_store_ok st'" "\<And>c'. ch_closed (cy_chans st c') \<Longrightarrow> ch_closed (cy_chans st' c')"
    "cy_ledger st' = cy_ledger st" "cy_orchestrating st' = cy_orchestrating st"
    "e = (if ch_closed (cy_chans st c) then StreamPanicked else StreamEnded)"
proof -
  let ?st1 = "st\<lparr>cy_events := (cy_events st)(cid \<mapsto> filter (\<lambda>x. x \<noteq> c) (subscribers st cid))\<rparr>"
  have st': "st' = (if ch_closed (cy_chans st c) then ?st1
      else ?st1\<lparr>cy_chans := (cy_chans st)(c := (cy_chans st c)\<lparr>ch_closed := True\<rparr>)\<rparr>)"
    using assms(3) by (auto simp: leave_stream_def unsubscribe_def Let_def)
  have sub: "subscribers st' a = (if a = cid then filter (\<lambda>x. x \<noteq> c) (subscribers st cid) else subscribers st a)" for a
    by (simp add: st' subscribers_def)
  have ok: "chans_ok st" "ledgers_intact st" using assms(1) by (simp_all add: cycle_store_ok_def)
  have else_where: "c \<notin> set (subscribers st a)" if "a \<noteq> cid" for a
    using ok(1) assms(2) that unfolding chans_ok_def own_channel_def by blast
  have disj: "set (subscribers st a) \<inter> set (subscribers st b) = {}" if "a \<noteq> b" for a b
    using ok(1) that by (simp add: chans_ok_def)
  have "chans_ok st'"
    unfolding chans_ok_def sub
  proof (intro conjI allI impI)
    fix a b :: string assume "a \<noteq> b"
    then show "set (if a = cid then filter (\<lambda>x. x \<noteq> c) (subscribers st cid) else subscribers st a) \<inter>
        set (if b = cid then filter (\<lambda>x. x \<noteq> c) (subscribers st cid) else subscribers st b) = {}"
      using disj [of a b] by auto
  qed (use ok(1) assms(2) else_where in \<open>auto simp: st' chans_ok_def own_channel_def split: if_splits\<close>)
  then show "cycle_store_ok st'" using ok
    by (simp add: cycle_store_ok_def st' ledgers_intact_def)
  show "e = (if ch_closed (cy_chans st c) then StreamPanicked else StreamEnded)"
    using assms(3) by (auto simp: leave_stream_def unsubscribe_def Let_def)
qed (use assms(3) in \<open>auto simp: leave_stream_def unsubscribe_def Let_def split: if_splits\<close>)

lemma stream_round_ok:
  assumes "cycle_store_ok st" "own_channel cid c st" "stream_round done ok cid c st = (e, st')"
  shows "cycle_store_ok st' \<and> (\<forall>c'. ch_closed (cy_chans st c') \<longrightarrow> ch_closed (cy_chans st' c')) \<and>
    cy_ledger st' = cy_ledger st \<and> cy_orchestrating st' = cy_orchestrating st \<and>
    (ch_closed (cy_chans st c) \<longrightarrow> e \<noteq> StreamEnded)"
proof -
  have leave: ?thesis if "leave_stream cid c st = (e, st')"
    using leave_stream_ok [OF assms(1,2) that] by auto
  show ?thesis
  proof (cases "done \<or> ch_buf (cy_chans st c) = []")
    case True
    with assms leave show ?thesis by (auto simp: stream_round_def split: if_splits)
  next
    case False
    then obtain evt rest where buf: "ch_buf (cy_chans st c) = evt # rest" "\<not> done" by (cases "ch_buf (cy_chans st c)") auto
    let ?st1 = "st\<lparr>cy_chans := (cy_chans st)(c := (cy_chans st c)\<lparr>ch_buf := rest\<rparr>)\<rparr>"
    have cl: "ch_closed (cy_chans ?st1 c') = ch_closed (cy_chans st c')" for c' by simp
    have ok1: "cycle_store_ok ?st1" using assms(1)
      by (simp add: cycle_store_ok_def chans_ok_def ledgers_intact_def subscribers_def)
    have own1: "own_channel cid c ?st1" using assms(2) by (simp add: own_channel_def subscribers_def)
    show ?thesis
    proof (cases "\<not> ok \<or> ce_Halted evt")
      case True
      with assms(3) buf have "leave_stream cid c ?st1 = (e, st')" by (auto simp: stream_round_def Let_def split: if_splits)
      note lv = leave_stream_ok [OF ok1 own1 this]
      from lv(2) cl have "\<forall>c'. ch_closed (cy_chans st c') \<longrightarrow> ch_closed (cy_chans st' c')" by blast
      with lv(1,3-5) cl show ?thesis by (simp del: fun_upd_apply)
    next
      case False
      with assms(3) buf have "st' = ?st1" "e = StreamGoesOn" by (auto simp: stream_round_def Let_def)
      then show ?thesis using ok1 by simp
    qed
  qed
qed

subsection \<open>Orchestrator moves\<close>

lemma no_growth: "\<exists>new. f = f(cid := foldl log_append (f cid) new)"
  by (intro exI [of _ "[]"]) simp

lemma orchestrator_move_frame:
  assumes "orchestrator_move sv ev cid st = Some st'"
  shows "cy_states st' = cy_states st" "cy_syncs st' = cy_syncs st" "cy_events st' = cy_events st"
    "cy_chans st' = cy_chans st" "cy_next st' = cy_next st"
    "\<exists>new. cy_ledger st' = (cy_ledger st)(cid := foldl log_append (cy_ledger st cid) new)"
    "\<And>a. a \<noteq> cid \<Longrightarrow> cy_orchestrating st' a = cy_orchestrating st a"
proof -
  have moved: "\<exists>new. cy_ledger (put_sys cid sy st) = (cy_ledger st)(cid := foldl log_append (cy_ledger st cid) new)"
    if "orch_iteration orch ev cfg (cycle_sys cid st) = (r, sy)" for orch cfg r sy
  proof -
    have "sy = cycle_sys cid st \<or> (\<exists>k. adds k (cycle_sys cid st) sy)"
      using that RunOnce_adds
      by (fastforce simp: orch_iteration_def split: sum.splits option.splits prod.splits if_splits)
    then have "\<exists>k. adds k (cycle_sys cid st) sy" using adds_refl by auto
    then show ?thesis by (auto simp: adds_def cycle_sys_def put_sys_def)
  qed
  show "\<exists>new. cy_ledger st' = (cy_ledger st)(cid := foldl log_append (cy_ledger st cid) new)"
    using assms
    by (auto simp: orchestrator_move_def orchestrator_ends_def intro: no_growth moved
        split: option.splits prod.splits bool.splits run_end.splits if_splits)
qed (use assms in \<open>auto simp: orchestrator_move_def orchestrator_ends_def put_sys_def
       split: option.splits prod.splits bool.splits run_end.splits if_splits\<close>)

lemma orchestrator_move_ok:
  "cycle_store_ok st \<Longrightarrow> orchestrator_move sv ev cid st = Some st' \<Longrightarrow> cycle_store_ok st'"
  using orchestrator_move_frame [of sv ev cid st st'] grows_ok [of st st' cid] by metis

subsection \<open>One action of a request\<close>

text \<open>A good action keeps the invariant and opens no closed channel.\<close>

definition good_move :: "'w cycleStore \<Rightarrow> 'w cycleStore \<Rightarrow> bool" where
  "good_move st st' \<longleftrightarrow>
     (cycle_store_ok st \<longrightarrow> cycle_store_ok st' \<and> (\<forall>c. ch_closed (cy_chans st c) \<longrightarrow> ch_closed (cy_chans st' c)))"

lemma good_refl [simp]: "good_move st st"
  by (simp add: good_move_def)

lemma good_caches: "caches cid st st1 \<Longrightarrow> good_move st st1"
  using caches_ok caches_simps(2) by (fastforce simp: good_move_def)

lemma good_files [simp]:
  "good_move st (snd (sync_write sv flt cid s st))" "good_move st (sync_remove b cid st)"
  "good_move st (st\<lparr>cy_world := w\<rparr>)" "good_move st (store_put cid s st)" "good_move st (putSync cid st)"
  "good_move st (st\<lparr>cy_orchestrating := f\<rparr>)" "good_move st (appendLedger ev cid e st)"
  "good_move st (refreshFromFile sv rf cid st)"
  using append_entries_ok [of st ev cid "[e]"] caches_ok [OF refresh_caches, of st sv rf cid]
    caches_simps(2) [OF refresh_caches, of sv rf cid st]
  by (simp_all add: good_move_def files_ok put_ok orchestrating_ok append_entries_one)

lemma good_get: "store_get sv flt cid st = (r, st1) \<Longrightarrow> good_move st st1"
  by (rule good_caches) (rule store_get_caches)

lemma good_subscribe [simp]: "good_move st (snd (subscribe cid st))"
  using subscribe_ok(1,2) [of st cid] by (cases "subscribe cid st") (auto simp: good_move_def)

lemma good_serve:
  assumes "serve sv q st = Some (r, st')"
  shows "good_move st st'"
proof (cases q)
  case (CreateReq ev cid pc)
  then show ?thesis using assms good_files(1) [of st sv "qe_write ev" cid]
    by (cases pc) (auto simp: Let_def case_prod_beta)
next
  case (StepReq ev goal cid pc)
  show ?thesis
  proof (cases "\<exists>s. pc = StepBroadcast s")
    case True
    then show ?thesis using assms StepReq
      by (auto simp: good_move_def) (metis broadcast_ok option.inject)+
  next
    case False
    then show ?thesis using assms StepReq
      by (cases "(sv, ev, goal, cid, pc, st)" rule: step_next.cases)
         (auto simp: Let_def dest: good_get split: prod.splits option.splits if_splits)
  qed
next
  case (HaltReq ev req cid pc)
  have close: "good_move st st1" if "closeAll cid st = Some st1" for st1
    unfolding good_move_def using that closeAll_ok [of st cid] by (metis option.inject)
  have cast: "good_move st st1" if "broadcast cid evt st = Some st1" for st1 evt
    unfolding good_move_def using that broadcast_ok [of st cid evt] by (metis option.inject)
  show ?thesis using assms HaltReq
    by (cases pc) (auto dest: good_get close cast split: prod.splits option.splits)
next
  case (GetReq ev cid pc)
  then show ?thesis using assms by (cases pc) (auto dest: good_get split: prod.splits option.splits)
next
  case (LedgerReq ev cid pc)
  then show ?thesis using assms by (cases pc) (auto dest: good_get split: prod.splits option.splits)
next
  case (EventsReq ev ok cid pc)
  then show ?thesis using assms by (cases pc) (auto dest: good_get split: prod.splits option.splits)
next
  case (OrchestrateReq ev body cid pc)
  then show ?thesis using assms
    by (cases pc) (auto dest: good_get split: prod.splits option.splits if_splits)
qed

text \<open>No action panics on a good store.\<close>

lemma serve_returns: "cycle_store_ok st \<Longrightarrow> serve sv q st \<noteq> None"
proof -
  assume ok: "cycle_store_ok st"
  have cast: "broadcast cid evt st \<noteq> None" and close: "closeAll cid st \<noteq> None" for cid evt
    using broadcast_ok [OF ok] closeAll_ok [OF ok] by (metis option.distinct(1))+
  show ?thesis
  proof (cases q)
    case (StepReq ev goal cid pc)
    then show ?thesis using cast
      by (cases "(sv, ev, goal, cid, pc, st)" rule: step_next.cases)
         (auto simp: Let_def case_prod_beta split: option.split)
  next
    case (HaltReq ev req cid pc)
    then show ?thesis using cast close by (cases pc) (auto simp: case_prod_beta split: option.split)
  qed simp_all
qed

text \<open>
  A step request is past its guard while it runs the gates and makes its appends; only then can an
  action record green gates.
\<close>

fun req_cycle :: "cycle_request \<Rightarrow> string" where
  "req_cycle (CreateReq ev cid pc) = cid"
| "req_cycle (GetReq ev cid pc) = cid"
| "req_cycle (LedgerReq ev cid pc) = cid"
| "req_cycle (StepReq ev goal cid pc) = cid"
| "req_cycle (HaltReq ev req cid pc) = cid"
| "req_cycle (EventsReq ev ok cid pc) = cid"
| "req_cycle (OrchestrateReq ev body cid pc) = cid"

fun past_guard :: "cycle_request \<Rightarrow> bool" where
  "past_guard (StepReq ev goal cid (StepExecute s)) = True"
| "past_guard (StepReq ev goal cid (StepAppend s es)) = True"
| "past_guard q = False"

definition neutral :: "HarnessLedgerEntry list \<Rightarrow> bool" where
  "neutral new \<longleftrightarrow> list_all (\<lambda>e. le_Type e \<noteq> LedgerEventValidationGreen) new"

text \<open>What an action does to the ledgers and the orchestrators.\<close>

definition frames :: "bool \<Rightarrow> string \<Rightarrow> 'w cycleStore \<Rightarrow> 'w cycleStore \<Rightarrow> bool" where
  "frames green cid st st' \<longleftrightarrow>
     (\<exists>new. cy_ledger st' = (cy_ledger st)(cid := foldl log_append (cy_ledger st cid) new) \<and> (green \<or> neutral new)) \<and>
     (\<forall>a cfg. cy_orchestrating st' a = Some (cfg, True) \<longrightarrow> cy_orchestrating st a = Some (cfg, True))"

lemma frames_same:
  "cy_ledger st' = cy_ledger st \<Longrightarrow> cy_orchestrating st' = cy_orchestrating st \<Longrightarrow> frames g cid st st'"
  unfolding frames_def by (intro conjI exI [of _ "[]"]) (simp_all add: neutral_def)

lemma frames_caches: "caches a st st1 \<Longrightarrow> frames g cid st st1"
  by (rule frames_same) (simp_all add: caches_simps)

lemma frames_append:
  "g \<or> le_Type e \<noteq> LedgerEventValidationGreen \<Longrightarrow> frames g cid st (appendLedger ev cid e st)"
  using appendLedger_grows [of e ev cid st] unfolding frames_def neutral_def
  by (auto simp: list_all_iff)

lemma frames_mark: "frames g cid st (st\<lparr>cy_orchestrating := (cy_orchestrating st)(a \<mapsto> (cfg, False))\<rparr>)"
  unfolding frames_def by (intro conjI exI [of _ "[]"]) (auto simp: neutral_def)

lemma frames_broadcast: "broadcast a evt st = Some st' \<Longrightarrow> frames g cid st st'"
  by (rule frames_same) (auto simp: broadcast_def)

lemma frames_closeAll: "closeAll a st = Some st' \<Longrightarrow> frames g cid st st'"
  by (rule frames_same) (auto simp: closeAll_def)

lemmas frames_intros = frames_same frames_append frames_mark frames_caches [OF store_get_caches]
  frames_caches [OF refresh_caches] frames_broadcast frames_closeAll

lemma serve_frames:
  assumes "serve sv q st = Some (r, st')"
  shows "frames (past_guard q) (req_cycle q) st st'"
proof (cases q)
  case (CreateReq ev cid pc)
  then show ?thesis using assms file_simps(4,7) [of sv "qe_write ev" cid _ st]
    by (cases pc) (auto simp: Let_def case_prod_beta NewHarnessLedgerEntry_def intro: frames_intros)
next
  case (StepReq ev goal cid pc)
  then show ?thesis using assms
    by (cases "(sv, ev, goal, cid, pc, st)" rule: step_next.cases)
       (auto simp: Let_def intro: frames_intros split: prod.splits option.splits if_splits)
next
  case (HaltReq ev req cid pc)
  then show ?thesis using assms
    by (cases pc) (auto simp: NewHarnessLedgerEntry_def intro: frames_intros split: prod.splits option.splits)
next
  case (GetReq ev cid pc)
  then show ?thesis using assms by (cases pc) (auto intro: frames_intros split: prod.splits option.splits)
next
  case (LedgerReq ev cid pc)
  then show ?thesis using assms by (cases pc) (auto intro: frames_intros split: prod.splits option.splits)
next
  case (EventsReq ev ok cid pc)
  then show ?thesis using assms
    by (cases pc) (auto simp: subscribe_def intro: frames_intros split: prod.splits option.splits)
next
  case (OrchestrateReq ev body cid pc)
  then show ?thesis using assms
    by (cases pc) (auto intro: frames_intros split: prod.splits option.splits if_splits)
qed

text \<open>A request stays with its cycle, and gets past the guard only when the ledger is not sealed.\<close>

lemma serve_next:
  assumes "serve sv q st = Some (Inl q', st')"
  shows "req_cycle q' = req_cycle q"
    "past_guard q' \<Longrightarrow> past_guard q \<or> \<not> snd (LedgerSealsResume (cy_ledger st (req_cycle q)))"
proof -
  have step: "past_guard q' \<longrightarrow> past_guard q \<or> \<not> snd (LedgerSealsResume (cy_ledger st (req_cycle q)))"
    if "q = StepReq ev goal cid pc" for ev goal cid pc
    using assms that
    by (cases "(sv, ev, goal, cid, pc, st)" rule: step_next.cases)
       (auto simp: Let_def read_ledger_def step_appends_def split: prod.splits option.splits if_splits)
  have inl: "map_sum f g x = Inl y \<longleftrightarrow> (\<exists>z. x = Inl z \<and> y = f z)" for f :: "'b \<Rightarrow> 'c" and g :: "'d \<Rightarrow> 'e" and x y
    by (cases x) auto
  show "req_cycle q' = req_cycle q" using assms by (cases q) (auto simp: inl apfst_def map_prod_def split: prod.splits)
  show "past_guard q \<or> \<not> snd (LedgerSealsResume (cy_ledger st (req_cycle q)))" if "past_guard q'"
    using that assms step
    by (cases q) (auto simp: inl apfst_def map_prod_def split: prod.splits)
qed

subsection \<open>The transition system\<close>

text \<open>
  Beside the store, the requests in flight. A request arrives where its handler starts; a create
  request starts once its body is parsed, and a request without a cycle of its own that is refused
  before never arrives.
\<close>

type_synonym 'w daemon = "'w cycleStore \<times> (nat \<Rightarrow> cycle_request option)"

inductive arrives :: "cycle_request \<Rightarrow> bool" where
  "create_start ev rnd nano body = Inr (cid, pc) \<Longrightarrow> arrives (CreateReq ev cid pc)"
| "arrives (GetReq ev cid GetRefresh)"
| "arrives (LedgerReq ev cid LedgerRead)"
| "arrives (StepReq ev goal cid StepRefresh)"
| "arrives (HaltReq ev req cid HaltGet)"
| "arrives (EventsReq ev ok cid EventsGet)"
| "arrives (OrchestrateReq ev body cid OrchGet)"

inductive cycle_step :: "'w cycle_server \<Rightarrow> 'w daemon \<Rightarrow> 'w daemon \<Rightarrow> bool" for sv where
  Arrive: "arrives q \<Longrightarrow> pool i = None \<Longrightarrow> cycle_step sv (st, pool) (st, pool(i \<mapsto> q))"
| Serve: "pool i = Some q \<Longrightarrow> serve sv q st = Some (Inl q', st') \<Longrightarrow> cycle_step sv (st, pool) (st', pool(i \<mapsto> q'))"
| Reply: "pool i = Some q \<Longrightarrow> serve sv q st = Some (Inr r, st') \<Longrightarrow> cycle_step sv (st, pool) (st', pool(i := None))"
| Stream: "own_channel cid c st \<Longrightarrow> cycle_step sv (st, pool) (snd (stream_round done ok cid c st), pool)"
| Move: "orchestrator_move sv oev cid st = Some st' \<Longrightarrow> cycle_step sv (st, pool) (st', pool)"

inductive_cases cycle_stepE: "cycle_step sv (st, pool) d"

definition initial_store :: "'w cycleStore \<Rightarrow> bool" where
  "initial_store st \<longleftrightarrow> (\<exists>disk ledger w. st = newCycleStore disk ledger w \<and> (\<forall>cid. chain_intact (ledger cid)))"

definition initial_daemon :: "'w daemon \<Rightarrow> bool" where
  "initial_daemon d \<longleftrightarrow> initial_store (fst d) \<and> snd d = Map.empty"

lemma cycle_step_good:
  assumes "cycle_step sv d d'"
  shows "good_move (fst d) (fst d')"
  using assms
proof cases
  case (Stream cid c st pool don ok)
  then show ?thesis using stream_round_ok [of st cid c don ok]
    by (cases "stream_round don ok cid c st") (auto simp: good_move_def)
next
  case (Move oev cid st st' pool)
  then show ?thesis using orchestrator_move_ok orchestrator_move_frame(4) by (fastforce simp: good_move_def)
qed (auto dest: good_serve)

lemma closed_step:
  "cycle_store_ok (fst d) \<Longrightarrow> cycle_step sv d d' \<Longrightarrow> ch_closed (cy_chans (fst d) c) \<Longrightarrow> ch_closed (cy_chans (fst d') c)"
  using cycle_step_good [of sv d d'] by (simp add: good_move_def)

interpretation daemon: transition_system initial_daemon "cycle_step sv" "\<lambda>d. cycle_store_ok (fst d)"
  for sv :: "'w cycle_server"
proof
  fix d :: "'w daemon" assume "initial_daemon d"
  then show "cycle_store_ok (fst d)"
    by (auto simp: initial_daemon_def initial_store_def newCycleStore_def cycle_store_ok_def chans_ok_def
        ledgers_intact_def subscribers_def)
next
  fix d d' :: "'w daemon" assume "cycle_store_ok (fst d)" "cycle_step sv d d'"
  from this(1) cycle_step_good [OF this(2)] show "cycle_store_ok (fst d')" by (simp add: good_move_def)
qed

text \<open>A request served alone is a run of the daemon.\<close>

lemma answers_run:
  "answers sv q st r st' \<Longrightarrow> pool i = Some q \<Longrightarrow> (cycle_step sv)\<^sup>*\<^sup>* (st, pool) (st', pool(i := None))"
proof (induction arbitrary: pool rule: answers.induct)
  case (Last q st r st')
  then show ?case by (intro r_into_rtranclp) (rule Reply)
next
  case (More q st q' st1 r st')
  have "cycle_step sv (st, pool) (st1, pool(i \<mapsto> q'))" using More by (intro Serve)
  moreover have "(cycle_step sv)\<^sup>*\<^sup>* (st1, pool(i \<mapsto> q')) (st', pool(i := None))"
    using More.IH [of "pool(i \<mapsto> q')"] by (simp del: fun_upd_apply) (simp only: fun_upd_upd fun_upd_same)
  ultimately show ?case by (rule converse_rtranclp_into_rtranclp)
qed

lemma arrives_run:
  assumes "arrives q" "answers sv q st r st'"
  shows "(cycle_step sv)\<^sup>*\<^sup>* (st, Map.empty) (st', Map.empty)"
proof -
  have "cycle_step sv (st, Map.empty) (st, [0 \<mapsto> q])" by (rule Arrive) (simp_all add: assms(1))
  moreover have "(cycle_step sv)\<^sup>*\<^sup>* (st, [0 \<mapsto> q]) (st', Map.empty)"
    using answers_run [OF assms(2), of "[0 \<mapsto> q]" 0] by simp
  ultimately show ?thesis by (rule converse_rtranclp_into_rtranclp)
qed

subsection \<open>A sealed cycle\<close>

text \<open>
  The ledger of the cycle is sealed; no orchestrator of it, and no step request of it in flight, is past
  its guard.
\<close>

definition at_rest :: "string \<Rightarrow> 'w daemon \<Rightarrow> bool" where
  "at_rest cid d \<longleftrightarrow> snd (LedgerSealsResume (cy_ledger (fst d) cid)) \<and>
     (\<forall>cfg. cy_orchestrating (fst d) cid \<noteq> Some (cfg, True)) \<and>
     (\<forall>i q. snd d i = Some q \<and> req_cycle q = cid \<longrightarrow> \<not> past_guard q)"

lemma sealed_log_append:
  "snd (LedgerSealsResume es) \<Longrightarrow> le_Type e \<noteq> LedgerEventValidationGreen \<Longrightarrow>
   snd (LedgerSealsResume (log_append es e))"
  using sealed_append [of es "[link_entry (tail_hash es) e]"]
  by (simp add: log_append_def log.link_entry_fields)

lemma sealed_appends: "neutral new \<Longrightarrow> snd (LedgerSealsResume es) \<Longrightarrow> snd (LedgerSealsResume (foldl log_append es new))"
  unfolding neutral_def by (induction new arbitrary: es) (simp_all add: sealed_log_append)

lemma at_rest_frames:
  assumes "at_rest cid (st, pool)" "frames g a st st'" "g \<Longrightarrow> a \<noteq> cid"
  shows "snd (LedgerSealsResume (cy_ledger st' cid))" "cy_orchestrating st' cid \<noteq> Some (cfg, True)"
  using assms sealed_appends by (auto simp: at_rest_def frames_def)

lemma at_rest_serve:
  assumes "at_rest cid (st, pool)" "pool i = Some q" "serve sv q st = Some (r, st')"
  shows "at_rest cid (st', pool(i := (case r of Inl q' \<Rightarrow> Some q' | Inr _ \<Rightarrow> None)))"
proof -
  have g: "past_guard q \<Longrightarrow> req_cycle q \<noteq> cid" using assms(1,2) by (auto simp: at_rest_def)
  note fr = at_rest_frames [OF assms(1) serve_frames [OF assms(3)] g]
  have "\<not> past_guard q'" if "r = Inl q'" "req_cycle q' = cid" for q'
    using serve_next [OF assms(3) [unfolded that(1)]] assms(1) g that(2) by (auto simp: at_rest_def)
  with fr assms(1) show ?thesis by (auto simp: at_rest_def split: sum.splits)
qed

lemma at_rest_step:
  assumes "cycle_store_ok (fst d)" "cycle_step sv d d'" "at_rest cid d"
  shows "at_rest cid d'"
  using assms(2)
proof cases
  case (Arrive q pool i st)
  then have "\<not> past_guard q" by (auto elim!: arrives.cases simp: create_start_def)
  with Arrive assms(3) show ?thesis by (auto simp: at_rest_def)
next
  case (Serve pool i q st q' st')
  from at_rest_serve [of cid st pool i q sv "Inl q'" st'] Serve assms(3) show ?thesis by simp
next
  case (Reply pool i q st r st')
  from at_rest_serve [of cid st pool i q sv "Inr r" st'] Reply assms(3) show ?thesis by simp
next
  case (Stream cid' c st pool don ok)
  obtain e st2 where h: "stream_round don ok cid' c st = (e, st2)" by fastforce
  from stream_round_ok [OF _ Stream(3) h] h Stream assms(1,3) show ?thesis by (auto simp: at_rest_def)
next
  case (Move oev cid' st st' pool)
  show ?thesis
  proof (cases "cid' = cid")
    case True
    with Move assms(3) show ?thesis
      by (auto simp: orchestrator_move_def at_rest_def orchestrator_ends_def split: option.splits prod.splits bool.splits)
  next
    case False
    with orchestrator_move_frame(6,7) [OF Move(3)] Move(1,2) assms(3) show ?thesis by (auto simp: at_rest_def)
  qed
qed

lemma sealed_step_refused:
  assumes "snd (LedgerSealsResume (cy_ledger st cid))"
  shows "\<exists>n st1. n \<in> {404, 409, 500} \<and> handleStepCycle sv ev goal cid st = Some (HttpError n, st1) \<and> caches cid st st1"
proof -
  obtain so st1 where g: "store_get sv (qe_read ev 1) cid (refreshFromFile sv (qe_read ev 0) cid st) = (so, st1)" by fastforce
  note ca = get_refresh_caches [OF g]
  have "cy_ledger st1 = cy_ledger st" using caches_simps [OF ca] by simp
  with g assms have "\<exists>n. n \<in> {404, 409, 500} \<and> handleStepCycle sv ev goal cid st = Some (HttpError n, st1)"
    by (cases so) (auto simp: handleStepCycle_def)
  with ca show ?thesis by blast
qed

lemma sealed_guard_refuses:
  "snd (LedgerSealsResume (cy_ledger st cid)) \<Longrightarrow>
   \<exists>n. n \<in> {409, 500} \<and> serve sv (StepReq ev goal cid (StepGuard s)) st = Some (Inr (HttpError n), st)"
  by (auto simp: read_ledger_def)

subsection \<open>Properties\<close>

text \<open>
  (C23) The daemon's store is well formed and no request panics, however the atomic actions of the
  requests in flight, the streams and the orchestrators interleave: subscribed channels are open and
  belong to one cycle; no action of any request in flight panics; every ledger that can be
  read verifies (one with a torn line cannot), whatever appends were refused or cut short. A step or a
  halt request served alone returns as well.
\<close>

theorem daemon_reachable_ok:
  assumes "initial_daemon d0" and "(cycle_step sv)\<^sup>*\<^sup>* d0 (st, pool)"
  shows "cycle_store_ok st \<and> (\<forall>i q. pool i = Some q \<longrightarrow> serve sv q st \<noteq> None) \<and>
    (\<forall>es. read_ledger ev cid st = Some es \<longrightarrow> VerifyChain es = (NoBrokenLink, True)) \<and>
    handleStepCycle sv ev goal cid st \<noteq> None \<and> handleHaltCycle sv ev req cid st \<noteq> None"
proof -
  have ok: "cycle_store_ok st" using daemon.reachable_inv [OF assms] by simp
  then have "VerifyChain es = (NoBrokenLink, True)" if "read_ledger ev cid st = Some es" for es
    using that by (auto simp: read_ledger_def cycle_store_ok_def ledgers_intact_def split: if_splits)
  moreover have "handleHaltCycle sv ev req cid st \<noteq> None"
  proof (cases "store_get sv (qe_read ev 0) cid st")
    case (Pair so st1)
    with handleHaltCycle_ok [OF ok, of sv ev cid _ st1 req] show ?thesis
      by (cases so) (auto simp: handleHaltCycle_def)
  qed
  moreover have "handleStepCycle sv ev goal cid st \<noteq> None"
    using handleStepCycle_ok [OF ok, of sv ev goal cid] by auto
  ultimately show ?thesis using ok serve_returns [OF ok] by blast
qed

text \<open>
  (C24) A sealed cycle stays sealed and at rest. Once its ledger is sealed by a halt, and neither an
  orchestrator of it nor a step request of it is past the seal check, no sequence of actions of
  requests, streams and orchestrators, for this cycle or for others, lifts the seal or gets
  another step past the check: the guard of every step request refuses it (409 or 500) and changes
  nothing, and a step request served alone is refused (404, 409 or 500) without touching the world,
  the ledger or the disk.
\<close>

theorem sealed_cycle_stays_sealed:
  assumes "initial_daemon d0" and "(cycle_step sv)\<^sup>*\<^sup>* d0 d" and "at_rest cid d"
    and "(cycle_step sv)\<^sup>*\<^sup>* d (st', pool')"
  shows "at_rest cid (st', pool') \<and>
    (\<exists>n. n \<in> {409, 500} \<and> serve sv (StepReq ev goal cid (StepGuard s)) st' = Some (Inr (HttpError n), st')) \<and>
    (\<exists>n st''. n \<in> {404, 409, 500} \<and> handleStepCycle sv ev goal cid st' = Some (HttpError n, st'') \<and>
      cy_world st'' = cy_world st' \<and> cy_ledger st'' = cy_ledger st' \<and> cy_disk st'' = cy_disk st')"
proof -
  have ok: "cycle_store_ok (fst d)" by (rule daemon.reachable_inv [OF assms(1,2)])
  have rest: "at_rest cid (st', pool')"
    by (rule daemon.stable [where P = "at_rest cid", OF _ assms(4) ok assms(3)]) (rule at_rest_step)
  then have sealed: "snd (LedgerSealsResume (cy_ledger st' cid))" by (simp add: at_rest_def)
  from sealed_step_refused [OF sealed] obtain n st'' where "n \<in> {404, 409, 500}"
    "handleStepCycle sv ev goal cid st' = Some (HttpError n, st'')" "caches cid st' st''" by blast
  with rest sealed_guard_refuses [OF sealed] caches_simps [OF this(3)] show ?thesis by blast
qed

text \<open>
  (C25) A halt request panics every open event stream of its cycle. The handler closes the
  subscribers' channels itself; each stream's deferred \<^verbatim>\<open>unsubscribe\<close> then closes its channel
  a second time. From the moment a halt request has closed the channels on, whatever else happens,
  no round of such a stream ends normally, and when its request ends the handler panics.
\<close>

theorem halt_panics_streams:
  assumes "initial_daemon d0" and "(cycle_step sv)\<^sup>*\<^sup>* d0 (st, pool)" and "c \<in> set (subscribers st cid)"
    and "handleHaltCycle sv ev req cid st = Some (StateReply 200 s, st1) \<or>
         serve sv (HaltReq ev req cid (HaltClose s)) st = Some (Inr (StateReply 200 s), st1)"
    and "(cycle_step sv)\<^sup>*\<^sup>* (st1, pool1) (st2, pool2)"
  shows "fst (leave_stream cid c st2) = StreamPanicked \<and> fst (stream_round d ok cid c st2) \<noteq> StreamEnded"
proof -
  have ok: "cycle_store_ok st" using daemon.reachable_inv [OF assms(1,2)] by simp
  have st1: "ch_closed (cy_chans st1 c) \<and> cycle_store_ok st1"
    using assms(4)
  proof
    assume h: "handleHaltCycle sv ev req cid st = Some (StateReply 200 s, st1)"
    obtain so st' where g: "store_get sv (qe_read ev 0) cid st = (so, st')" by fastforce
    with h obtain s0 where so: "so = Some s0" by (cases so) (auto simp: handleHaltCycle_def)
    from handleHaltCycle_ok [OF ok g [unfolded so], of req] h assms(3) show ?thesis by auto
  next
    assume "serve sv (HaltReq ev req cid (HaltClose s)) st = Some (Inr (StateReply 200 s), st1)"
    then have "closeAll cid st = Some st1" by auto
    with closeAll_ok [OF ok, of cid] assms(3) show ?thesis by (metis option.inject)
  qed
  then have st1: "ch_closed (cy_chans st1 c)" "cycle_store_ok (fst (st1, pool1))" by simp_all
  have "ch_closed (cy_chans (fst (st2, pool2)) c)"
    by (rule daemon.stable [where P = "\<lambda>d. ch_closed (cy_chans (fst d) c)", OF _ assms(5) st1(2)])
       (use st1(1) closed_step in blast, use st1(1) in simp)
  note cl = this daemon.steps_inv [OF assms(5) st1(2)]
  then have own: "own_channel cid c st2" by (simp add: own_channel_def)
  obtain e st3 where l: "leave_stream cid c st2 = (e, st3)" by fastforce
  obtain e' st4 where r: "stream_round d ok cid c st2 = (e', st4)" by fastforce
  from cl leave_stream_ok(5) [OF _ own l] stream_round_ok [OF _ own r] l r show ?thesis by simp
qed

subsection \<open>Witnesses\<close>

text \<open>A daemon on which every file reads as one ready cycle, and whose ledger refuses every append.\<close>

definition demo_server :: "nat cycle_server" where
  "demo_server = \<lparr>sv_marshal = (\<lambda>s. []), sv_unmarshal = (\<lambda>b s. (True, ready_state)),
     sv_host = quiet_host ''work'', sv_cyclePipeline = None, sv_registry = None, sv_payload = (\<lambda>t. None)\<rparr>"

definition demo_env :: request_env where
  "demo_env = \<lparr>qe_now = 7, qe_append = (\<lambda>e. Refused), qe_read = (\<lambda>i. ReadsFine), qe_write = NoFault,
     qe_remove_fails = False, qe_ledger_read = True\<rparr>"

definition demo_store :: "HarnessLedgerEntry list \<Rightarrow> nat cycleStore" where
  "demo_store es = newCycleStore (\<lambda>cid. empty_disk\<lparr>sd_primary := Some []\<rparr>) (\<lambda>cid. es) 0"

definition demo_sealed :: "HarnessLedgerEntry list" where
  "demo_sealed = log_append [] (halted_entry 5 ''c1'' HaltGateFailure)"

lemma demo_store_initial: "initial_store (demo_store [])" "initial_store (demo_store demo_sealed)"
  unfolding initial_store_def demo_store_def demo_sealed_def
  using log.append_intact [of "[]"] by (fastforce, fastforce)

lemma demo_initial: "initial_daemon (demo_store [], Map.empty)" "initial_daemon (demo_store demo_sealed, Map.empty)"
  by (simp_all add: initial_daemon_def demo_store_initial)

lemma demo_get: "\<exists>st. store_get demo_server ReadsFine ''c1'' (demo_store es) = (Some ready_state, st) \<and>
    cy_events st = Map.empty \<and> cy_next st = 0"
  by (simp add: store_get_def demo_store_def newCycleStore_def demo_server_def loadCycleFromFile_def
      StateFileSync_Read_def ready_state_def)

theorem daemon_reachable_ok_witness:
  "let st = snd (snd (handleCycleEvents demo_server demo_env True ''c1'' (demo_store [])))
   in cycle_store_ok st \<and> (\<forall>es. read_ledger demo_env ''c1'' st = Some es \<longrightarrow> VerifyChain es = (NoBrokenLink, True))"
proof -
  obtain r c st where h: "handleCycleEvents demo_server demo_env True ''c1'' (demo_store []) = (r, c, st)" by (metis prod_cases3)
  have "(cycle_step demo_server)\<^sup>*\<^sup>* (demo_store [], Map.empty) (st, Map.empty)"
    by (rule arrives_run [OF _ events_alone [OF h]]) (rule arrives.intros)
  from daemon_reachable_ok [OF demo_initial(1) this] h show ?thesis unfolding Let_def by auto
qed

theorem sealed_cycle_stays_sealed_witness:
  "at_rest ''c1'' (snd (handleOrchestrate demo_server demo_env (Some sample_cfg) ''c1'' (demo_store demo_sealed)), Map.empty)"
proof -
  obtain r st where h: "handleOrchestrate demo_server demo_env (Some sample_cfg) ''c1'' (demo_store demo_sealed) = (r, st)"
    by fastforce
  have run: "(cycle_step demo_server)\<^sup>*\<^sup>* (demo_store demo_sealed, Map.empty) (st, Map.empty)"
    by (rule arrives_run [OF _ orchestrate_alone [OF h]]) (rule arrives.intros)
  have "ParseHaltReason HaltGateFailure = Inr HaltGateFailure" by code_simp
  then have "at_rest ''c1'' (demo_store demo_sealed, Map.empty)"
    using halted_entry_seals [of HaltGateFailure HaltGateFailure "[]" 5 "''c1''"]
    by (simp add: at_rest_def demo_store_def newCycleStore_def demo_sealed_def)
  from sealed_cycle_stays_sealed [OF demo_initial(2) rtranclp.rtrancl_refl this run] h show ?thesis by simp
qed

theorem halt_panics_streams_witness:
  "let st = snd (snd (handleCycleEvents demo_server demo_env True ''c1'' (demo_store [])));
       st1 = snd (the (handleHaltCycle demo_server demo_env [] ''c1'' st))
   in fst (leave_stream ''c1'' 0 st1) = StreamPanicked"
proof -
  let ?st = "snd (snd (handleCycleEvents demo_server demo_env True ''c1'' (demo_store [])))"
  obtain r c where e: "handleCycleEvents demo_server demo_env True ''c1'' (demo_store []) = (r, c, ?st)" by (metis prod.collapse)
  have reach: "(cycle_step demo_server)\<^sup>*\<^sup>* (demo_store [], Map.empty) (?st, Map.empty)"
    by (rule arrives_run [OF _ events_alone [OF e]]) (rule arrives.intros)
  obtain st' where g: "store_get demo_server ReadsFine ''c1'' (demo_store []) = (Some ready_state, st')"
    "cy_events st' = Map.empty" "cy_next st' = 0" using demo_get by blast
  then have st: "?st = snd (subscribe ''c1'' st')"
    by (simp add: handleCycleEvents_def demo_env_def case_prod_beta)
  then have sub: "0 \<in> set (subscribers ?st ''c1'')" using g by (simp add: subscribe_def subscribers_def)
  have "cy_states ?st ''c1'' = Some ready_state"
    using store_get_Some [OF g(1)] by (simp add: st subscribe_def)
  then have h: "store_get demo_server (qe_read demo_env 0) ''c1'' ?st = (Some ready_state, ?st)"
    by (simp add: store_get_def)
  have "cycle_store_ok ?st" using daemon.reachable_inv [OF demo_initial(1) reach] by simp
  from handleHaltCycle_ok [OF this h, of "[]"] obtain s st1 where
    h1: "handleHaltCycle demo_server demo_env [] ''c1'' ?st = Some (StateReply 200 s, st1)" by blast
  from halt_panics_streams [OF demo_initial(1) reach sub disjI1 [OF h1] rtranclp.rtrancl_refl] h1
  show ?thesis by (simp add: Let_def)
qed

end
