(* ===== verification/CycleRequests.thy ===== *)
theory CycleRequests
  imports CycleDaemon
begin

section \<open>Single requests of the cycle broker\<close>

text \<open>
  What one step request records, on every branch; the pipeline it runs; and what a halt
  request means for an orchestrator that is running.
\<close>

subsection \<open>The pipeline of a state\<close>

lemma insert_local_gates_other:
  "list_all (\<lambda>g. ga_Name g \<noteq> ''audit'') gs \<Longrightarrow> insert_local_gates h ls gs = gs"
  by (induction gs) simp_all

text \<open>
  A server without an injected pipeline runs, for every state, the standard pipeline of that
  state's audit command, test command and local gates: inserting the local gates behind the
  audit gate of the base pipeline gives the same list as building it from the state.
\<close>

theorem pipelineForState_standard:
  "pipelineForState (registerCycleRoutes (sv\<lparr>sv_cyclePipeline := None\<rparr>)) s =
     StandardPipeline (sv_host sv) (cs_AuditCmd s) (cs_PolishTestCmd s) (cs_LocalGates s)"
proof -
  have "insert_local_gates h ls (StandardPipeline h [] [] []) = StandardPipeline h [] [] ls" for h :: "'a host" and ls
    by (simp add: StandardPipeline_def gate_def insert_local_gates_other)
  then show ?thesis by (auto simp: pipelineForState_def registerCycleRoutes_def)
qed

lemma gates_of_state_keep:
  "list_all (\<lambda>g. keeps_fixed (ga_Run g)) (pipelineForState (registerCycleRoutes (sv\<lparr>sv_cyclePipeline := None\<rparr>)) s)"
  by (simp add: pipelineForState_def registerCycleRoutes_def StandardPipeline_keeps insert_local_gates_other
      StandardPipeline_def gate_def gates_keep list_all_iff)

subsection \<open>What a step records\<close>

lemma report_entries_types:
  "e \<in> set (report_entries now cid r) \<Longrightarrow>
   le_Type e \<in> {LedgerEventGatePassed, LedgerEventGateFailed, LedgerEventClaimVerified, LedgerEventClaimFalsified}"
  by (auto simp: report_entries_def NewGateLedgerEntry_def claim_entry_def NewHarnessLedgerEntry_def Let_def split: if_splits)

lemma neutral_append_seal:
  assumes "list_all (\<lambda>e. le_Type e \<notin> {LedgerEventCycleHalted, LedgerEventValidationGreen}) new"
  shows "LedgerSealsResume (es @ new) = LedgerSealsResume es"
proof -
  have "foldl seal_entry st new = st" for st
    using assms by (induction new arbitrary: st) (auto simp: seal_entry_def)
  then show ?thesis by (simp add: LedgerSealsResume_def)
qed

lemma neutral_appends_seal:
  assumes "list_all (\<lambda>e. le_Type e \<notin> {LedgerEventCycleHalted, LedgerEventValidationGreen}) new"
  shows "LedgerSealsResume (foldl log_append es new) = LedgerSealsResume es"
  using assms
proof (induction new arbitrary: es)
  case (Cons e new)
  have "LedgerSealsResume (log_append es e) = LedgerSealsResume es"
    using neutral_append_seal [of "[link_entry (tail_hash es) e]" es] Cons.prems
    by (simp add: log_append_def log.link_entry_fields)
  with Cons show ?case by simp
qed simp

lemma append_entries_neutral:
  assumes "list_all (\<lambda>e. le_Type e \<notin> {LedgerEventCycleHalted, LedgerEventValidationGreen}) new"
  shows "LedgerSealsResume (cy_ledger (append_entries ev cid new st) cid) = LedgerSealsResume (cy_ledger st cid)"
proof -
  obtain kept where "set kept \<subseteq> set new"
    "cy_ledger (append_entries ev cid new st) = (cy_ledger st)(cid := foldl log_append (cy_ledger st cid) kept)"
    using append_entries_grows by blast
  moreover from this(1) assms have "list_all (\<lambda>e. le_Type e \<notin> {LedgerEventCycleHalted, LedgerEventValidationGreen}) kept"
    by (auto simp: list_all_iff)
  ultimately show ?thesis using neutral_appends_seal by simp
qed

text \<open>What a step request that gets as far as the pipeline leaves behind.\<close>

lemma step_result:
  assumes "cycle_store_ok st"
    and "store_get sv (qe_read ev 1) cid (refreshFromFile sv (qe_read ev 0) cid st) = (Some s, st1)"
    and "read_ledger ev cid st \<noteq> None" "\<not> snd (LedgerSealsResume (cy_ledger st cid))" "TrimSpace (cs_NextCycleGoal s) \<noteq> []"
    and ex: "Execute (qe_now ev) (pipelineForState sv s) s (cy_world st) = (result, w)"
  shows "\<exists>st'. handleStepCycle sv ev [] cid st = Some (StateReply 200 (step_state (qe_now ev) result), st') \<and>
    cy_ledger st' = cy_ledger (append_entries ev cid (step_entries (qe_now ev) cid result) st) \<and>
    cy_states st' cid = Some (step_state (qe_now ev) result) \<and> cy_world st' = w"
proof -
  note ca = get_refresh_caches [OF assms(2)]
  note sy = synced(1) [OF assms(1) ca] and cs = caches_simps [OF ca]
  let ?s' = "step_state (qe_now ev) result" and ?es = "step_entries (qe_now ev) cid result"
  obtain s2 st2 where r: "run_step sv ev cid s st1 = (s2, st2)" by fastforce
  note ex1 = ex [folded cs(6)]
  let ?st1 = "append_entries ev cid ?es (st1\<lparr>cy_world := w\<rparr>)"
  have s2: "s2 = ?s'" and st2: "st2 = store_put cid ?s' (if cid \<in> cy_syncs st1
      then snd (sync_write sv (qe_write ev) cid ?s' ?st1) else ?st1)"
    using run_step_eq [OF ex1, of cid] r by (auto simp: Let_def)
  obtain st3 where b: "broadcast cid (NewCycleEvent (qe_now ev) ?s') st2 = Some st3" "cy_states st3 = cy_states st2"
    "cy_ledger st3 = cy_ledger st2" "cy_world st3 = cy_world st2"
    using broadcast_ok [OF run_step_ok(1) [OF sy r]] by metis
  have "read_ledger ev cid st1 \<noteq> None" using assms(3) by (simp add: read_ledger_def cs split: if_splits)
  then have "handleStepCycle sv ev [] cid st = Some (StateReply 200 ?s', st3)"
    using assms(2,4,5) cs r b(1) by (simp add: handleStepCycle_def Let_def s2)
  moreover have "cy_ledger ?st1 = cy_ledger (append_entries ev cid ?es st)"
    by (rule append_entries_ledger_cong) (simp_all add: cs)
  ultimately show ?thesis using b by (intro exI [of _ st3]) (simp add: st2)
qed

text \<open>
  A gate failure through the step endpoint halts the state but not the ledger. The reply and
  the cache hold a halted state, yet no \<^verbatim>\<open>cycle_halted\<close> entry is recorded: the seal is what
  it was, so the reviver guard lets the next step of the halted cycle through.
\<close>

theorem failed_step_is_not_sealed:
  assumes "cycle_store_ok st"
    and "store_get sv (qe_read ev 1) cid (refreshFromFile sv (qe_read ev 0) cid st) = (Some s, st1)"
    and "read_ledger ev cid st \<noteq> None" and "\<not> snd (LedgerSealsResume (cy_ledger st cid))"
    and "TrimSpace (cs_NextCycleGoal s) \<noteq> []"
    and "IsFailure (fst (Execute (qe_now ev) (pipelineForState sv s) s (cy_world st)))"
  shows "\<exists>s' st'. handleStepCycle sv ev [] cid st = Some (StateReply 200 s', st') \<and> cs_Halted s' \<and>
    cy_states st' cid = Some s' \<and> \<not> snd (LedgerSealsResume (cy_ledger st' cid))"
proof -
  obtain result w where ex: "Execute (qe_now ev) (pipelineForState sv s) s (cy_world st) = (result, w)" by fastforce
  with assms(6) have f: "IsFailure result" "\<not> IsSuccess result" by (simp_all add: IsFailure_def IsSuccess_def)
  have "cs_Halted (re_value result)"
  proof (rule first_blocking [of "pipelineForState sv s" s "cy_world st"])
    fix rs s' w' assume "run_gates (pipelineForState sv s) s (cy_world st) = (rs, s', w')" "list_all (\<lambda>r. \<not> blocks r) rs"
    from Execute_pass [OF this, of "qe_now ev"] ex f show ?thesis by simp
  next
    fix gs g hs rs s1 w1 report reason s2 w2
    assume "pipelineForState sv s = gs @ g # hs" "run_gates gs s (cy_world st) = (rs, s1, w1)"
      "list_all (\<lambda>r. \<not> blocks r) rs" "ga_Run g s1 w1 = (GateFailure report reason, s2, w2)"
    with Execute_fail [OF this(2-4), of "qe_now ev" hs] ex show ?thesis by (auto simp: Let_def Halt_value)
  qed
  moreover have "list_all (\<lambda>e. le_Type e \<notin> {LedgerEventCycleHalted, LedgerEventValidationGreen})
      (step_entries (qe_now ev) cid result)"
    using f(1) by (auto simp: step_entries_def list_all_iff IsSuccess_iff dest!: report_entries_types)
  ultimately show ?thesis
    using step_result [OF assms(1-5) ex] f(2) append_entries_neutral [of "step_entries (qe_now ev) cid result" ev cid st] assms(4)
    by (auto simp: step_state_def)
qed

text \<open>
  Stepping a halted cycle records progress it does not make. When the ledger is not sealed
  (as after a gate failure), a step of a halted state whose gates pass leaves it halted, with
  the same number of completed cycles; but the ledger gets \<^verbatim>\<open>validation_green\<close> and
  \<^verbatim>\<open>cycle_completed\<close>.
\<close>

theorem step_of_halted_cycle_goes_green:
  assumes "cycle_store_ok st"
    and "store_get sv (qe_read ev 1) cid (refreshFromFile sv (qe_read ev 0) cid st) = (Some s, st1)"
    and "read_ledger ev cid st \<noteq> None" and "\<not> snd (LedgerSealsResume (cy_ledger st cid))"
    and "TrimSpace (cs_NextCycleGoal s) \<noteq> []" and "cs_Halted s" and "qe_append ev = (\<lambda>_. Appended)" and "cy_tail st cid = WholeLine"
    and "list_all (\<lambda>g. keeps_fixed (ga_Run g)) (pipelineForState sv s)"
    and "IsSuccess (fst (Execute (qe_now ev) (pipelineForState sv s) s (cy_world st)))"
  shows "\<exists>s' st' later. handleStepCycle sv ev [] cid st = Some (StateReply 200 s', st') \<and> cs_Halted s' \<and>
    cs_CompletedCycles s' = cs_CompletedCycles s \<and>
    map le_Type (cy_ledger st' cid) = map le_Type (cy_ledger st cid) @
      [LedgerEventValidationGreen, LedgerEventCycleCompleted] @ later"
proof -
  obtain result w where ex: "Execute (qe_now ev) (pipelineForState sv s) s (cy_world st) = (result, w)" by fastforce
  with assms(10) have ok: "IsSuccess result" by simp
  from Execute_success [OF ex] ok obtain rs where "run_gates (pipelineForState sv s) s (cy_world st) = (rs, re_value result, w)"
    unfolding IsSuccess_iff by blast
  from run_gates_fixed [OF assms(9) this] have fx: "cs_Halted (re_value result)"
    "cs_CompletedCycles (re_value result) = cs_CompletedCycles s" using assms(6) by (simp_all add: fixed_part_def)
  let ?s' = "(re_value (CompleteCycle (qe_now ev) (re_value result)))\<lparr>cs_NextCycleGoal := []\<rparr>"
  obtain st' where h: "handleStepCycle sv ev [] cid st = Some (StateReply 200 ?s', st')"
    "cy_ledger st' cid = foldl log_append (cy_ledger st cid) (step_entries (qe_now ev) cid result)"
    using step_result [OF assms(1-5) ex] ok append_entries_kept [of "step_entries (qe_now ev) cid result" ev st cid] assms(7,8)
    by (auto simp: step_state_def)
  have "map le_Type (cy_ledger st' cid) = map le_Type (cy_ledger st cid) @
      [LedgerEventValidationGreen, LedgerEventCycleCompleted] @
      map le_Type (concat (map (report_entries (qe_now ev) cid) (re_reports result)))"
    by (simp only: h(2) log.appends_types) (simp add: step_entries_def ok NewHarnessLedgerEntry_def)
  with h(1) fx show ?thesis by (intro exI conjI) (assumption | simp add: CompleteCycle_def)+
qed

subsection \<open>A halt and a running orchestrator\<close>

lemma store_get_sync:
  "store_get sv flt cid st = (Some s, st1) \<Longrightarrow> cid \<in> cy_syncs st \<or> cy_states st cid = None \<Longrightarrow> cid \<in> cy_syncs st1"
  by (auto simp: store_get_def split: option.splits sum.splits if_splits)

lemma appendTurnLedger_kept:
  assumes "en_append ev = (\<lambda>_. Appended)" "sy_ledger sy = Some es" "sy_tail sy = WholeLine"
  obtains sy1 where "appendTurnLedger ev cid a resp sy = (True, sy1)" "adds 1 sy sy1"
proof -
  let ?t = "NewAgentTurnLedgerEntry (en_now ev) cid a resp" and ?h = "NewHandoffLedgerEntry (en_now ev) cid a resp"
  define new where "new = (if tr_HandoffTo resp = [] then [?t] else [?t, ?h])"
  have "appendTurnLedger ev cid a resp sy = (True, record_all (\<lambda>_. Appended) new sy)"
    using assms by (simp add: appendTurnLedger_def Let_def new_def)
  moreover have "sy_ledger (record_all (\<lambda>_. Appended) new sy) = Some (foldl log_append es new)"
    using record_all_ledger assms(2,3) by blast
  moreover have "length (turns_of new) = 1" by (simp add: new_def turns_of_def)
  ultimately show thesis using that assms(2) by (auto simp: adds_def)
qed

lemma agent_turn_one:
  assumes "agentIndex (cs_CompletedCycles s) cfg = Some i" "mo_registry orch (oc_Agents cfg ! i) = Some adapt"
    "adapt (buildRequest s (oc_Agents cfg ! i) cfg) (sy_world sy) = (Inr resp, w)"
    "en_append (ev :: orch_env) = (\<lambda>_. Appended)" "sy_ledger sy = Some es" "sy_tail sy = WholeLine"
  shows "\<exists>out err sy'. agent_turn orch ev cfg s sy = Some (out, err, sy') \<and> adds 1 sy sy'"
proof -
  obtain sy1 where ap: "appendTurnLedger ev (cs_ID s) (oc_Agents cfg ! i) resp (sy\<lparr>sy_world := w\<rparr>) = (True, sy1)"
    "adds 1 (sy\<lparr>sy_world := w\<rparr>) sy1" by (rule appendTurnLedger_kept [of ev "sy\<lparr>sy_world := w\<rparr>" es]) (simp_all add: assms)
  then have one: "adds 1 sy sy2" if "adds 0 sy1 sy2" for sy2
    using adds_trans0 [OF ap(2) that] by (simp add: adds_def)
  obtain e s1 where re: "applyResponse (mo_payload orch) (en_now ev) resp s = (e, s1)" by fastforce
  note un = agent_turn_def assms(1-3) option.case prod.case sum.case ap(1) bool.case re Let_def
  show ?thesis
  proof (cases e)
    case None
    obtain out err sy2 where g: "gated_step orch ev s1 sy1 = (out, err, sy2)" by (metis prod_cases3)
    have "agent_turn orch ev cfg s sy = Some (out, err, sy2)" unfolding un None option.case g ..
    with one [OF gated_step_adds [OF g]] show ?thesis by blast
  next
    case (Some x)
    then obtain reason where x: "x = HaltedError reason []" using applyResponse_halts re by blast
    obtain err sy2 where h: "handleHandshakeHalt orch ev s1 (HaltedError reason []) reason sy1 = (err, sy2)" by fastforce
    have "agent_turn orch ev cfg s sy = Some (outcome s1, Some err, sy2)"
      unfolding un Some option.case x cycle_error.case h prod.case ..
    with one [OF handleHandshakeHalt_adds [OF h]] show ?thesis by blast
  qed
qed

text \<open>
  (C26) A halt request does not stop an orchestrator that is running. The handler removes the state
  file; the goroutine, past its reviver guard, then reads the state of a missing file, which
  is not halted and has no limits, and calls the next agent: one more turn is recorded in
  the ledger after the halt.
\<close>

theorem halt_misses_running_orchestrator:
  assumes "cycle_store_ok st" and "cy_orchestrating st cid = Some (cfg, True)"
    and "handleHaltCycle sv ev req cid st = Some (StateReply 200 halted, st1)" and "\<not> qe_remove_fails ev"
    and "sv_registry sv = Some reg" and "oc_Agents cfg = a # as" and "reg a = Some adapt"
    and "adapt (buildRequest zero_state a cfg) (cy_world st) = (Inr resp, w)"
    and "oe_ledger_read oev" and "en_append oev = (\<lambda>_. Appended)" and "en_read oev 0 = ReadsFine"
    and "\<not> snd (anti_spin cfg (cy_ledger st1 cid))" and "cy_tail st1 cid = WholeLine"
    and "cid \<in> cy_syncs st \<or> cy_states st cid = None"
  shows "\<exists>st2. orchestrator_move sv oev cid st1 = Some st2 \<and>
    LifetimeTurns (cy_ledger st2 cid) = LifetimeTurns (cy_ledger st1 cid) + 1"
proof -
  obtain so st0 where g: "store_get sv (qe_read ev 0) cid st = (so, st0)" by fastforce
  with assms(3) obtain s where so: "so = Some s" by (cases so) (auto simp: handleHaltCycle_def)
  have "cid \<in> cy_syncs st0" using store_get_sync [OF g [unfolded so] assms(14)] .
  with handleHaltCycle_ok [OF assms(1) g [unfolded so], of req] assms(2-4)
  have st1: "sd_primary (cy_disk st1 cid) = None" "cy_world st1 = cy_world st"
    "cy_orchestrating st1 cid = Some (cfg, True)" by (auto simp: StateFileSync_Remove_def)
  let ?orch = "broker_orchestrator sv reg" and ?sy = "cycle_sys cid st1"
  have rd: "StateFileSync_Read (dr_unmarshal (mo_driver ?orch)) (en_read oev 0) (sy_disk ?sy) = Inr zero_state"
    by (simp add: StateFileSync_Read_def cycle_sys_def st1(1) assms(11))
  have idx: "agentIndex (cs_CompletedCycles zero_state) cfg = Some 0"
    by (simp add: agentIndex_def zero_state_def Let_def)
  obtain out err sy' where t: "agent_turn ?orch oev cfg zero_state ?sy = Some (out, err, sy')" "adds 1 ?sy sy'"
    using agent_turn_one [OF idx, of ?orch adapt ?sy resp w oev "cy_ledger st1 cid"] assms(6-8,10,13) st1(2)
    by (auto simp: broker_orchestrator_def cycle_sys_def)
  have "CanAdvance (en_now oev) zero_state" by (simp add: CanAdvance_def zero_state_def)
  moreover obtain r where "anti_spin cfg (cy_ledger st1 cid) = (r, False)"
    using assms(12) by (cases "anti_spin cfg (cy_ledger st1 cid)") auto
  ultimately have run: "RunOnce ?orch oev cfg zero_state ?sy = Some (out, err, sy')"
    using t(1) assms(6,9,13) by (simp add: RunOnce_def cycle_sys_def ledger_readable_def)
  have it: "\<exists>e. orch_iteration ?orch oev cfg ?sy = (e, sy') \<and> e \<noteq> Some RunPanicked"
    unfolding orch_iteration_def rd sum.case run option.case prod.case by (cases err) auto
  obtain es' where es': "sy_ledger sy' = Some es'" "LifetimeTurns es' = LifetimeTurns (cy_ledger st1 cid) + 1"
    using adds_turns [OF t(2), of "cy_ledger st1 cid"] by (auto simp: cycle_sys_def)
  have "\<exists>st2. orchestrator_move sv oev cid st1 = Some st2 \<and> cy_ledger st2 cid = es'"
    using it st1(3) assms(5) es'(1)
    by (auto simp: orchestrator_move_def orchestrator_ends_def put_sys_def split: option.split run_end.split)
  with es'(2) show ?thesis by auto
qed

subsection \<open>A halt and a step in flight\<close>

lemma halt_entry_seals: "le_Type e = LedgerEventCycleHalted \<Longrightarrow> snd (LedgerSealsResume (log_append es e))"
  by (simp add: LedgerSealsResume_def log_append_def seal_entry_def log.link_entry_fields split: prod.split)

lemma green_entry_lifts:
  assumes "le_Type g = LedgerEventValidationGreen"
    and "list_all (\<lambda>e. le_Type e \<notin> {LedgerEventCycleHalted, LedgerEventValidationGreen}) new"
  shows "\<not> snd (LedgerSealsResume (foldl log_append es (g # new)))"
proof -
  have "LedgerSealsResume (log_append es g) = ([], False)"
    using assms(1)
    by (auto simp: LedgerSealsResume_def log_append_def seal_entry_def log.link_entry_fields split: prod.split option.split)
  then show ?thesis using neutral_appends_seal [OF assms(2)] by simp
qed

lemma green_step_entries:
  assumes "IsSuccess result"
  obtains g new where "step_entries now cid result = g # new" "le_Type g = LedgerEventValidationGreen"
    "list_all (\<lambda>e. le_Type e \<notin> {LedgerEventCycleHalted, LedgerEventValidationGreen}) new"
proof
  let ?new = "NewHarnessLedgerEntry now cid LedgerEventCycleCompleted ''cycle step completed'' [] #
    concat (map (report_entries now cid) (re_reports result))"
  show "step_entries now cid result =
      NewHarnessLedgerEntry now cid LedgerEventValidationGreen ''gate pipeline passed'' [] # ?new"
    using assms by (simp add: step_entries_def)
  have "le_Type e \<notin> {LedgerEventCycleHalted, LedgerEventValidationGreen}" if "e \<in> set (report_entries now cid r)" for e r
    using report_entries_types [OF that] by auto
  then show "list_all (\<lambda>e. le_Type e \<notin> {LedgerEventCycleHalted, LedgerEventValidationGreen}) ?new"
    by (auto simp: NewHarnessLedgerEntry_def list_all_iff)
qed (simp add: NewHarnessLedgerEntry_def)

text \<open>
  A step request that is past the seal check lifts the seal of a halt that comes after. While the
  step runs its gates, a halt request for the same cycle is served as a whole: the ledger is sealed, the
  cycle leaves the cache, its file is removed. The step then appends its \<^verbatim>\<open>validation_green\<close>
  when its gates have passed, which lifts the seal, and puts its state into the cache, now without a
  file handle.
\<close>

theorem step_in_flight_lifts_seal:
  assumes "cycle_store_ok st" and "pool i = Some (StepReq ev goal cid (StepExecute s))"
    and "pool j = Some (HaltReq hev req cid HaltGet)" and "i \<noteq> j"
    and "store_get sv (qe_read hev 0) cid st = (Some s0, st0)" and "cy_tail st cid = WholeLine"
    and "qe_append hev = (\<lambda>_. Appended)" and "qe_append ev = (\<lambda>_. Appended)"
    and "IsSuccess (fst (Execute (qe_now ev) (pipelineForState sv s) s (cy_world st)))"
  shows "\<exists>st1 st2. (cycle_step sv)\<^sup>*\<^sup>* (st, pool) (st1, pool(j := None)) \<and>
    snd (LedgerSealsResume (cy_ledger st1 cid)) \<and>
    (cycle_step sv)\<^sup>*\<^sup>* (st1, pool(j := None)) (st2, pool(j := None, i := None)) \<and>
    \<not> snd (LedgerSealsResume (cy_ledger st2 cid)) \<and> cy_states st2 cid \<noteq> None \<and> cid \<notin> cy_syncs st2"
proof -
  let ?e = "NewHarnessLedgerEntry (qe_now hev) cid LedgerEventCycleHalted (halt_reason req) []"
  obtain h st1 where h: "handleHaltCycle sv hev req cid st = Some (StateReply 200 h, st1)" "cycle_store_ok st1"
    "cid \<notin> cy_syncs st1" "cy_world st1 = cy_world st" "cy_ledger st1 = cy_ledger (appendLedger hev cid ?e st)"
    "cy_tail st1 = cy_tail (appendLedger hev cid ?e st)"
    using handleHaltCycle_ok [OF assms(1,5), of req] by blast
  have halt: "(cycle_step sv)\<^sup>*\<^sup>* (st, pool) (st1, pool(j := None))"
    using halt_alone [OF h(1)] assms(3) by (rule answers_run)
  have led1: "cy_ledger st1 cid = log_append (cy_ledger st cid) ?e" "cy_tail st1 cid = WholeLine"
    using append_entries_kept [of "[?e]" hev st cid] assms(6,7) h(5,6) by (simp_all add: append_entries_one)
  have sealed: "snd (LedgerSealsResume (cy_ledger st1 cid))"
    unfolding led1(1) by (rule halt_entry_seals) (simp add: NewHarnessLedgerEntry_def)
  obtain result w where ex: "Execute (qe_now ev) (pipelineForState sv s) s (cy_world st1) = (result, w)" by fastforce
  then have ok: "IsSuccess result" using assms(9) h(4) by simp
  let ?s = "step_state (qe_now ev) result" and ?es = "step_entries (qe_now ev) cid result"
  let ?st2 = "append_entries ev cid ?es (st1\<lparr>cy_world := w\<rparr>)"
  have "cycle_store_ok (store_put cid ?s ?st2)" by (intro put_ok append_entries_ok files_ok h(2))
  then obtain st3 where b: "broadcast cid (NewCycleEvent (qe_now ev) ?s) (store_put cid ?s ?st2) = Some st3"
    "cy_states st3 cid = Some ?s" "cy_syncs st3 = cy_syncs ?st2" "cy_ledger st3 = cy_ledger ?st2"
    using broadcast_ok by (metis put_simps(9,1,7) fun_upd_same)
  have "answers sv (StepReq ev goal cid (StepExecute s)) st1 (StateReply 200 ?s) st3"
    by (subst execute_alone [OF ex]) (simp add: h(3) b(1) answers_simps(6) [where spc = "StepSync ?s"]
        answers_simps(6) [where spc = "StepPut ?s"] answers_simps(6) [where spc = "StepBroadcast ?s"])
  then have step: "(cycle_step sv)\<^sup>*\<^sup>* (st1, pool(j := None)) (st3, pool(j := None, i := None))"
    using assms(2,4) by (intro answers_run) simp_all
  obtain g new where g: "?es = g # new" "le_Type g = LedgerEventValidationGreen"
    "list_all (\<lambda>e. le_Type e \<notin> {LedgerEventCycleHalted, LedgerEventValidationGreen}) new"
    using green_step_entries [OF ok] .
  have "cy_ledger ?st2 = (cy_ledger st1)(cid := foldl log_append (cy_ledger st1 cid) ?es)"
    using append_entries_kept [of ?es ev "st1\<lparr>cy_world := w\<rparr>" cid] assms(8) led1(2) by simp
  then have "cy_ledger st3 cid = foldl log_append (cy_ledger st1 cid) (g # new)"
    unfolding b(4) g(1) by (simp only: fun_upd_same)
  then have "\<not> snd (LedgerSealsResume (cy_ledger st3 cid))"
    using green_entry_lifts [OF g(2,3), of "cy_ledger st1 cid"] by simp
  with halt sealed step b(2,3) h(3) show ?thesis by (intro exI [of _ st1] exI [of _ st3]) simp
qed

subsection \<open>Witnesses\<close>

text \<open>A request on the demo daemon finds the state its files decode to.\<close>

lemma demo_found:
  assumes "sv_unmarshal sv = (\<lambda>b s. (True, s0))" "cs_ID s0 \<noteq> []"
  shows "\<exists>st1. store_get sv ReadsFine ''c1'' (refreshFromFile sv ReadsFine ''c1'' (demo_store es)) = (Some s0, st1)"
  using assms
  by (simp add: refreshFromFile_def store_get_def demo_store_def newCycleStore_def loadCycleFromFile_def
      StateFileSync_Read_def)

lemma demo_store_ok: "cycle_store_ok (demo_store [])"
  using daemon.inv_init [OF demo_initial(1)] by simp

lemma demo_fields:
  "qe_read demo_env i = ReadsFine" "qe_ledger_read demo_env" "qe_now demo_env = 7" "\<not> qe_remove_fails demo_env"
  "cy_tail (demo_store es) cid = WholeLine" "qe_append demo_env = (\<lambda>_. Refused)" "cy_states (demo_store es) cid = None"
  "cy_ledger (demo_store es) cid = es" "cy_world (demo_store es) = 0" "LedgerSealsResume [] = ([], False)"
  by (simp_all add: demo_env_def demo_store_def newCycleStore_def LedgerSealsResume_def)

lemma demo_standard:
  "cs_AuditCmd s = [] \<Longrightarrow> cs_PolishTestCmd s = [] \<Longrightarrow> cs_LocalGates s = [] \<Longrightarrow> sv_cyclePipeline sv = None \<Longrightarrow>
   pipelineForState sv s = StandardPipeline (sv_host sv) [] [] []"
  by (simp add: pipelineForState_def)

theorem failed_step_is_not_sealed_witness:
  "let sv = demo_server\<lparr>sv_host := quiet_host ''main''\<rparr>;
       st' = snd (the (handleStepCycle sv demo_env [] ''c1'' (demo_store [])))
   in cs_Halted (the (cy_states st' ''c1'')) \<and> \<not> snd (LedgerSealsResume (cy_ledger st' ''c1''))"
proof -
  let ?sv = "demo_server\<lparr>sv_host := quiet_host ''main''\<rparr>"
  have p: "pipelineForState ?sv ready_state = StandardPipeline (quiet_host ''main'') [] [] []"
    by (subst demo_standard) (simp_all add: ready_state_def zero_state_def demo_server_def)
  have fail: "IsFailure (fst (Execute 7 (StandardPipeline (quiet_host ''main'') [] [] []) ready_state 0))" by code_simp
  have goal: "TrimSpace (cs_NextCycleGoal ready_state) \<noteq> []" by code_simp
  obtain st1 where "store_get ?sv ReadsFine ''c1'' (refreshFromFile ?sv ReadsFine ''c1'' (demo_store [])) = (Some ready_state, st1)"
    using demo_found [of ?sv ready_state "[]"] by (auto simp: demo_server_def ready_state_def)
  then show ?thesis
    using failed_step_is_not_sealed [OF demo_store_ok, of ?sv demo_env "''c1''" ready_state st1] goal fail
    by (auto simp: demo_fields p Let_def read_ledger_def)
qed

theorem step_of_halted_cycle_goes_green_witness:
  "let s = ready_state\<lparr>cs_Halted := True\<rparr>; sv = demo_server\<lparr>sv_unmarshal := (\<lambda>b s'. (True, s))\<rparr>;
       ev = demo_env\<lparr>qe_append := (\<lambda>_. Appended)\<rparr>
   in \<exists>s' st'. handleStepCycle sv ev [] ''c1'' (demo_store []) = Some (StateReply 200 s', st') \<and> cs_Halted s' \<and>
     LedgerEventValidationGreen \<in> set (map le_Type (cy_ledger st' ''c1''))"
proof -
  let ?s = "ready_state\<lparr>cs_Halted := True\<rparr>" and ?ev = "demo_env\<lparr>qe_append := (\<lambda>_. Appended)\<rparr>"
  let ?sv = "demo_server\<lparr>sv_unmarshal := (\<lambda>b s'. (True, ?s))\<rparr>"
  have p: "pipelineForState ?sv ?s = StandardPipeline (quiet_host ''work'') [] [] []"
    by (subst demo_standard) (simp_all add: ready_state_def zero_state_def demo_server_def)
  have green: "IsSuccess (fst (Execute 7 (StandardPipeline (quiet_host ''work'') [] [] []) ?s 0))" by code_simp
  have goal: "TrimSpace (cs_NextCycleGoal ?s) \<noteq> []" by code_simp
  obtain st1 where "store_get ?sv ReadsFine ''c1'' (refreshFromFile ?sv ReadsFine ''c1'' (demo_store [])) = (Some ?s, st1)"
    using demo_found [of ?sv ?s "[]"] by (auto simp: ready_state_def)
  then obtain s' st' later where "handleStepCycle ?sv ?ev [] ''c1'' (demo_store []) = Some (StateReply 200 s', st')"
    "cs_Halted s'" "map le_Type (cy_ledger st' ''c1'') = [LedgerEventValidationGreen, LedgerEventCycleCompleted] @ later"
    using step_of_halted_cycle_goes_green [OF demo_store_ok, of ?sv ?ev "''c1''" ?s st1] goal green
      StandardPipeline_keeps [of "quiet_host ''work''" "[]" "[]" "[]"]
    by (auto simp: demo_fields p list_all_iff read_ledger_def)
  then show ?thesis
    by (simp only: Let_def) (intro exI [of _ s'] exI [of _ st'] conjI, simp_all)
qed

theorem halt_misses_running_orchestrator_witness:
  "let sv = demo_server\<lparr>sv_registry := Some [''a'' \<mapsto> (\<lambda>req w. (Inr prose_turn, w + 1))]\<rparr>;
       st = (demo_store [])\<lparr>cy_orchestrating := [''c1'' \<mapsto> (sample_cfg, True)]\<rparr>;
       st1 = snd (the (handleHaltCycle sv demo_env [] ''c1'' st))
   in \<exists>st2. orchestrator_move sv calm_orch ''c1'' st1 = Some st2 \<and> LifetimeTurns (cy_ledger st2 ''c1'') = 1"
proof -
  let ?sv = "demo_server\<lparr>sv_registry := Some [''a'' \<mapsto> (\<lambda>req w. (Inr prose_turn, w + 1))]\<rparr>"
    and ?st = "(demo_store [])\<lparr>cy_orchestrating := [''c1'' \<mapsto> (sample_cfg, True)]\<rparr>"
  have ok: "cycle_store_ok ?st" by (rule orchestrating_ok [OF demo_store_ok])
  have "\<exists>st1. store_get ?sv (qe_read demo_env 0) ''c1'' ?st = (Some ready_state, st1)"
    by (simp add: store_get_def demo_store_def newCycleStore_def demo_server_def demo_env_def loadCycleFromFile_def
      StateFileSync_Read_def ready_state_def)
  then obtain s st1 where h: "handleHaltCycle ?sv demo_env [] ''c1'' ?st = Some (StateReply 200 s, st1)"
    "cy_ledger st1 ''c1'' = []" "cy_tail st1 ''c1'' = WholeLine"
    using handleHaltCycle_ok [OF ok, of ?sv demo_env "''c1''" ready_state _ "[]"]
    by (fastforce simp: demo_store_def newCycleStore_def demo_env_def appendLedger_def)
  have spin: "anti_spin sample_cfg [] = ([], False)"
    by (simp add: anti_spin_def sample_cfg_def ExceedsLifetimeCeiling_def LifetimeTurns_def Stuck_def stuck_scan_def
        pingPongStuck_def noProgressStuck_def)
  from halt_misses_running_orchestrator [OF ok _ h(1)] h spin show ?thesis
    by (simp add: Let_def demo_fields calm_orch_def LifetimeTurns_def sample_cfg_def)
qed

theorem step_in_flight_lifts_seal_witness:
  "let ev = demo_env\<lparr>qe_append := (\<lambda>_. Appended)\<rparr>;
       pool = [0 \<mapsto> StepReq ev [] ''c1'' (StepExecute ready_state), 1 \<mapsto> HaltReq ev [] ''c1'' HaltGet]
   in \<exists>st1 st2. (cycle_step demo_server)\<^sup>*\<^sup>* (demo_store [], pool) (st1, pool(1 := None)) \<and>
     snd (LedgerSealsResume (cy_ledger st1 ''c1'')) \<and>
     (cycle_step demo_server)\<^sup>*\<^sup>* (st1, pool(1 := None)) (st2, Map.empty) \<and>
     \<not> snd (LedgerSealsResume (cy_ledger st2 ''c1''))"
proof -
  let ?ev = "demo_env\<lparr>qe_append := (\<lambda>_. Appended)\<rparr>"
  let ?pool = "[0::nat \<mapsto> StepReq ?ev [] ''c1'' (StepExecute ready_state), 1 \<mapsto> HaltReq ?ev [] ''c1'' HaltGet]"
  have p: "pipelineForState demo_server ready_state = StandardPipeline (quiet_host ''work'') [] [] []"
    by (subst demo_standard) (simp_all add: ready_state_def zero_state_def demo_server_def)
  have green: "IsSuccess (fst (Execute 7 (StandardPipeline (quiet_host ''work'') [] [] []) ready_state 0))" by code_simp
  obtain st0 where g: "store_get demo_server (qe_read ?ev 0) ''c1'' (demo_store []) = (Some ready_state, st0)"
    using demo_get [of "[]"] by (auto simp: demo_env_def)
  have none: "?pool(1 := None, 0 := None) = Map.empty" by (simp add: fun_eq_iff)
  show ?thesis
    unfolding Let_def
    using step_in_flight_lifts_seal [OF demo_store_ok, of ?pool 0 ?ev "[]" "''c1''" ready_state 1 ?ev "[]" demo_server ready_state st0]
      g green none by (auto simp: demo_fields p)
qed

end
