(* ===== verification/Rally.thy ===== *)
theory Rally
  imports Contract Transition
begin

section \<open>Rally sessions (pkg/contract/rally.go, internal/broker/rally.go)\<close>

text \<open>
  Baton passing between the participants of a session: the validated names and ids, the
  broker's session store and every operation on it (create, join the event stream, done,
  status, interrupt, close all, heartbeats, the stream's reader), each run under the
  store's one lock, so that a run is a sequence of these steps. A participant's event
  channel has room for one event, so a connected participant is an entry of
  \<open>rs_streams\<close> with the buffered event, if any. The invariant \<open>wf_session\<close> says what a
  reachable session looks like; the clock and the random bytes are arguments.
\<close>

type_synonym ParticipantName = string
type_synonym SessionID = string
type_synonym RallyState = string

subsection \<open>Names, ids and patterns\<close>

definition is_name_char :: "char \<Rightarrow> bool" where
  "is_name_char c \<longleftrightarrow>
     (let n = (of_char c :: nat) in (97 \<le> n \<and> n \<le> 122) \<or> (65 \<le> n \<and> n \<le> 90) \<or> (48 \<le> n \<and> n \<le> 57) \<or>
        c = CHR ''_'' \<or> c = CHR ''-'')"

text \<open>The regular expression \<^verbatim>\<open>^[a-zA-Z0-9_-]{1,16}$\<close>.\<close>

definition NewParticipantName :: "string \<Rightarrow> contract_error + ParticipantName" where
  "NewParticipantName s =
     (if list_all is_name_char s \<and> 1 \<le> length s \<and> length s \<le> 16 then Inr s else Inl ErrInvalidName)"

definition is_lower_hex :: "char \<Rightarrow> bool" where
  "is_lower_hex c \<longleftrightarrow> (let n = (of_char c :: nat) in (48 \<le> n \<and> n \<le> 57) \<or> (97 \<le> n \<and> n \<le> 102))"

text \<open>The regular expression \<^verbatim>\<open>^rly_[0-9]+_[0-9a-f]{4}$\<close>.\<close>

definition matches_session_id :: "string \<Rightarrow> bool" where
  "matches_session_id s \<longleftrightarrow>
     HasPrefix s ''rly_'' \<and>
     (let ds = takeWhile is_digit (drop 4 s); r = dropWhile is_digit (drop 4 s)
      in ds \<noteq> [] \<and> length r = 5 \<and> hd r = CHR ''_'' \<and> list_all is_lower_hex (tl r))"

definition NewSessionID :: "string \<Rightarrow> contract_error + SessionID" where
  "NewSessionID s = (if matches_session_id s then Inr s else Inl ErrInvalidSessionID)"

datatype Pattern = PatternUnknown | PatternFreeform | PatternCycle | PatternDiscuss | PatternHelp

fun Pattern_String :: "Pattern \<Rightarrow> string" where
  "Pattern_String PatternFreeform = ''freeform''"
| "Pattern_String PatternCycle = ''cycle''"
| "Pattern_String PatternDiscuss = ''discuss''"
| "Pattern_String PatternHelp = ''help''"
| "Pattern_String PatternUnknown = ''unknown''"

text \<open>The three results of \<^verbatim>\<open>ParsePattern\<close>; an error comes with the zero values.\<close>

definition ParsePattern :: "string \<Rightarrow> Pattern \<times> string \<times> contract_error option" where
  "ParsePattern taskPrefix =
     (if \<not> HasPrefix taskPrefix ''[pattern:'' then (PatternFreeform, taskPrefix, None)
      else case Index taskPrefix '']'' of
        None \<Rightarrow> (PatternUnknown, [], Some ErrInvalidPattern)
      | Some e \<Rightarrow>
          (let name = take (e - 9) (drop 9 taskPrefix);
               rest = TrimLeft (drop (e + 1) taskPrefix) (CHR '' '')
           in if name = ''freeform'' then (PatternFreeform, rest, None)
              else if name = ''cycle'' then (PatternCycle, rest, None)
              else if name = ''discuss'' then (PatternDiscuss, rest, None)
              else if name = ''help'' then (PatternHelp, rest, None)
              else (PatternUnknown, [], Some ErrInvalidPattern)))"

abbreviation RallyStateIdle where "RallyStateIdle \<equiv> ''idle''"
abbreviation RallyStateInterrupted where "RallyStateInterrupted \<equiv> ''interrupted''"

definition RallyTurnState :: "string \<Rightarrow> RallyState" where
  "RallyTurnState name = name @ ''_turn''"

record BatonHandoff =
  bh_From :: string
  bh_To :: string
  bh_TurnN :: int
  bh_Note :: string
  bh_At :: int

record BatonEvent =
  be_TurnN :: int
  be_From :: string
  be_Note :: string
  be_Closed :: bool

record DoneRequest =
  dr_Note :: string
  dr_HandoffTo :: string

record NewRallyRequest =
  nr_Participants :: "string list"
  nr_Repo :: string
  nr_Task :: string
  nr_FirstHolder :: string

record RallySession =
  ry_ID :: string
  ry_Participants :: "string list"
  ry_Repo :: string
  ry_Task :: string
  ry_Holder :: string
  ry_TurnN :: int
  ry_Status :: RallyState
  ry_LastSeen :: "string \<Rightarrow> int option"
  ry_History :: "BatonHandoff list"
  ry_CreatedAt :: int

subsection \<open>The store\<close>

record rallySession =
  rs_id :: SessionID
  rs_participants :: "ParticipantName list"
  rs_repo :: string
  rs_task :: string
  rs_pattern :: Pattern
  rs_holder :: ParticipantName
  rs_turnN :: int
  rs_status :: RallyState
  rs_lastSeen :: "ParticipantName \<Rightarrow> int option"
  rs_history :: "BatonHandoff list"
  rs_createdAt :: int
  rs_streams :: "ParticipantName \<Rightarrow> BatonEvent option option"
  rs_staleThreshold :: int

type_synonym rallyStore = "SessionID \<Rightarrow> rallySession option"

definition newRallyStore :: rallyStore where
  "newRallyStore = Map.empty"

text \<open>The index loop of \<^verbatim>\<open>nextParticipant\<close>.\<close>

fun successor_from :: "ParticipantName list \<Rightarrow> nat \<Rightarrow> ParticipantName list \<Rightarrow> ParticipantName \<Rightarrow> ParticipantName" where
  "successor_from all i [] current = all ! 0"
| "successor_from all i (p # ps) current =
     (if p = current then all ! ((i + 1) mod length all) else successor_from all (i + 1) ps current)"

definition nextParticipant :: "ParticipantName list \<Rightarrow> ParticipantName \<Rightarrow> ParticipantName \<Rightarrow> ParticipantName" where
  "nextParticipant participants current preferredNext =
     (if preferredNext \<noteq> [] \<and> preferredNext \<in> set participants then preferredNext
      else successor_from participants 0 participants current)"

text \<open>\<open>None\<close> is a failure of the random source.\<close>

definition generateRallyID :: "int \<Rightarrow> bytes option \<Rightarrow> SessionID option" where
  "generateRallyID nowMS rnd =
     map_option (\<lambda>b. ''rly_'' @ show_int nowMS @ ''_'' @ EncodeToString b) rnd"

definition toPublic :: "rallySession \<Rightarrow> RallySession" where
  "toPublic rs =
     \<lparr>ry_ID = rs_id rs, ry_Participants = rs_participants rs, ry_Repo = rs_repo rs, ry_Task = rs_task rs,
      ry_Holder = rs_holder rs, ry_TurnN = rs_turnN rs, ry_Status = rs_status rs,
      ry_LastSeen = rs_lastSeen rs, ry_History = rs_history rs, ry_CreatedAt = rs_createdAt rs\<rparr>"

datatype rally_error = Contract contract_error | GenerateIDFailed

definition writeRallyError :: "rally_error \<Rightarrow> nat" where
  "writeRallyError err =
     (case err of
        Contract e \<Rightarrow>
          (if e = ErrSessionNotFound then 404
           else if e \<in> {ErrNotHolder, ErrSessionInterrupted, ErrAlreadyConnected} then 409
           else if e \<in> {ErrInvalidName, ErrInvalidSessionID, ErrInvalidPattern, ErrDuplicateName,
                        ErrTooFewParticipants, ErrSelfHandoff, ErrHandoffToNotMember,
                        ErrFirstHolderNotMember} then 400
           else 500)
      | GenerateIDFailed \<Rightarrow> 500)"

subsection \<open>Operations\<close>

text \<open>The loop over the requested names, with the names seen so far.\<close>

fun check_names :: "ParticipantName list \<Rightarrow> string list \<Rightarrow> contract_error + ParticipantName list" where
  "check_names names [] = Inr names"
| "check_names names (raw # raws) =
     (case NewParticipantName raw of
        Inl e \<Rightarrow> Inl e
      | Inr pn \<Rightarrow> if pn \<in> set names then Inl ErrDuplicateName else check_names (names @ [pn]) raws)"

definition check_first_holder :: "ParticipantName list \<Rightarrow> string \<Rightarrow> contract_error + ParticipantName" where
  "check_first_holder names first =
     (if first = [] then Inr []
      else case NewParticipantName first of
        Inl e \<Rightarrow> Inl e
      | Inr fh \<Rightarrow> if fh \<notin> set names then Inl ErrFirstHolderNotMember else Inr fh)"

definition new_session ::
  "int \<Rightarrow> SessionID \<Rightarrow> ParticipantName list \<Rightarrow> ParticipantName \<Rightarrow> NewRallyRequest \<Rightarrow> rallySession" where
  "new_session nowMS sid names firstHolder req =
     (let sess = \<lparr>rs_id = sid, rs_participants = names, rs_repo = nr_Repo req,
            rs_task = nr_Task req, rs_pattern = fst (ParsePattern (nr_Task req)),
            rs_holder = [], rs_turnN = 0, rs_status = RallyStateIdle,
            rs_lastSeen = Map.empty, rs_history = [], rs_createdAt = nowMS,
            rs_streams = Map.empty, rs_staleThreshold = 30000\<rparr>
      in if firstHolder \<noteq> []
         then sess\<lparr>rs_holder := firstHolder, rs_status := RallyTurnState firstHolder,
                rs_turnN := 1, rs_lastSeen := [firstHolder \<mapsto> nowMS]\<rparr>
         else sess)"

definition createRallySession ::
  "int \<Rightarrow> bytes option \<Rightarrow> NewRallyRequest \<Rightarrow> rallyStore \<Rightarrow> (rally_error + RallySession) \<times> rallyStore" where
  "createRallySession nowMS rnd req st =
     (if length (nr_Participants req) < 2 then (Inl (Contract ErrTooFewParticipants), st)
      else case check_names [] (nr_Participants req) of
        Inl e \<Rightarrow> (Inl (Contract e), st)
      | Inr names \<Rightarrow>
        (case check_first_holder names (nr_FirstHolder req) of
           Inl e \<Rightarrow> (Inl (Contract e), st)
         | Inr firstHolder \<Rightarrow>
           (case generateRallyID nowMS rnd of
              None \<Rightarrow> (Inl GenerateIDFailed, st)
            | Some sid \<Rightarrow>
              let sess = new_session nowMS sid names firstHolder req
              in (Inr (toPublic sess), st(sid \<mapsto> sess)))))"

datatype join_reply =
    JoinError rally_error
  | JoinForbidden
  | JoinClosed
  | JoinFlushFailed
  | JoinStreaming

text \<open>
  The part of \<^verbatim>\<open>handleRallyBaton\<close> under the lock, for a session that exists: the stream is
  registered and the event that is due at once is put into its buffer.
\<close>

definition join_session :: "int \<Rightarrow> ParticipantName \<Rightarrow> rallySession \<Rightarrow> rallySession" where
  "join_session nowMS as sess0 =
     (let sess = sess0\<lparr>rs_lastSeen := (rs_lastSeen sess0)(as \<mapsto> nowMS)\<rparr> in
      if rs_status sess = RallyStateIdle \<and> rs_participants sess ! 0 = as then
        sess\<lparr>rs_turnN := rs_turnN sess + 1, rs_holder := as, rs_status := RallyTurnState as,
          rs_streams := (rs_streams sess)(as \<mapsto> Some \<lparr>be_TurnN = rs_turnN sess + 1, be_From = [],
                            be_Note = [], be_Closed = False\<rparr>)\<rparr>
      else if rs_status sess = RallyTurnState as then
        (let h = rs_history sess;
             (from, note) = (if h \<noteq> [] then (bh_From (last h), bh_Note (last h)) else ([], []))
         in sess\<lparr>rs_streams := (rs_streams sess)(as \<mapsto> Some \<lparr>be_TurnN = rs_turnN sess, be_From = from,
                              be_Note = note, be_Closed = False\<rparr>)\<rparr>)
      else sess\<lparr>rs_streams := (rs_streams sess)(as \<mapsto> None)\<rparr>)"

text \<open>
  \<^verbatim>\<open>handleRallyBaton\<close> up to the delivery loop; \<open>flush_ok\<close> is whether the first flush of the
  response succeeds.
\<close>

definition handleRallyBaton ::
  "int \<Rightarrow> bool \<Rightarrow> string \<Rightarrow> string \<Rightarrow> rallyStore \<Rightarrow> join_reply \<times> rallyStore" where
  "handleRallyBaton nowMS flush_ok rawID asRaw st =
     (case NewSessionID rawID of
        Inl e \<Rightarrow> (JoinError (Contract e), st)
      | Inr sid \<Rightarrow>
        (case NewParticipantName asRaw of
           Inl e \<Rightarrow> (JoinError (Contract e), st)
         | Inr as \<Rightarrow>
           (case st sid of
              None \<Rightarrow> (JoinError (Contract ErrSessionNotFound), st)
            | Some sess \<Rightarrow>
                if as \<notin> set (rs_participants sess) then (JoinForbidden, st)
                else if rs_status sess = RallyStateInterrupted then
                  (if flush_ok then (JoinClosed, st) else (JoinFlushFailed, st))
                else if rs_streams sess as \<noteq> None then
                  (JoinError (Contract ErrAlreadyConnected), st)
                else
                  (let st' = st(sid \<mapsto> join_session nowMS as sess)
                   in if \<not> flush_ok then (JoinFlushFailed, st') else (JoinStreaming, st')))))"

definition cleanupStream :: "SessionID \<Rightarrow> ParticipantName \<Rightarrow> rallyStore \<Rightarrow> rallyStore" where
  "cleanupStream sid p st =
     (case st sid of
        None \<Rightarrow> st
      | Some sess \<Rightarrow> st(sid \<mapsto> sess\<lparr>rs_streams := (rs_streams sess)(p := None)\<rparr>))"

text \<open>
  The rounds of the delivery loop \<^verbatim>\<open>streamBatonEvents\<close>: take the buffered event and write
  it (a closing event or a failed write ends the stream), or send a heartbeat.
\<close>

definition stream_deliver ::
  "bool \<Rightarrow> SessionID \<Rightarrow> ParticipantName \<Rightarrow> rallyStore \<Rightarrow> BatonEvent option \<times> rallyStore" where
  "stream_deliver write_ok sid as st =
     (case st sid of
        None \<Rightarrow> (None, st)
      | Some sess \<Rightarrow>
        (case rs_streams sess as of
           Some (Some evt) \<Rightarrow>
             (let taken = st(sid \<mapsto> sess\<lparr>rs_streams := (rs_streams sess)(as \<mapsto> None)\<rparr>)
              in (Some evt, if be_Closed evt \<or> \<not> write_ok then cleanupStream sid as taken else taken))
         | _ \<Rightarrow> (None, st)))"

definition stream_heartbeat ::
  "int \<Rightarrow> bool \<Rightarrow> SessionID \<Rightarrow> ParticipantName \<Rightarrow> rallyStore \<Rightarrow> rallyStore" where
  "stream_heartbeat nowMS write_ok sid as st =
     (if \<not> write_ok then cleanupStream sid as st
      else case st sid of
        None \<Rightarrow> st
      | Some sess \<Rightarrow> st(sid \<mapsto> sess\<lparr>rs_lastSeen := (rs_lastSeen sess)(as \<mapsto> nowMS)\<rparr>))"

definition check_handoff :: "ParticipantName \<Rightarrow> string \<Rightarrow> contract_error + ParticipantName" where
  "check_handoff as to =
     (if to = [] then Inr []
      else case NewParticipantName to of
        Inl e \<Rightarrow> Inl e
      | Inr ht \<Rightarrow> if ht = as then Inl ErrSelfHandoff else Inr ht)"

text \<open>A send that does not block: dropped when the buffer is full.\<close>

definition try_send ::
  "BatonEvent \<Rightarrow> ParticipantName \<Rightarrow> (ParticipantName \<Rightarrow> BatonEvent option option) \<Rightarrow>
   ParticipantName \<Rightarrow> BatonEvent option option" where
  "try_send evt p streams =
     (case streams p of Some None \<Rightarrow> streams(p \<mapsto> Some evt) | _ \<Rightarrow> streams)"

definition pass_baton ::
  "int \<Rightarrow> ParticipantName \<Rightarrow> ParticipantName \<Rightarrow> string \<Rightarrow> rallySession \<Rightarrow> rallySession" where
  "pass_baton nowMS as nxt note sess =
     (let turn = rs_turnN sess + 1;
          handoff = \<lparr>bh_From = as, bh_To = nxt, bh_TurnN = turn, bh_Note = note, bh_At = nowMS\<rparr>;
          evt = \<lparr>be_TurnN = turn, be_From = as, be_Note = note, be_Closed = False\<rparr>
      in sess\<lparr>rs_turnN := turn, rs_history := rs_history sess @ [handoff], rs_holder := nxt,
           rs_status := RallyTurnState nxt, rs_streams := try_send evt nxt (rs_streams sess)\<rparr>)"

definition advanceRallyBaton ::
  "int \<Rightarrow> SessionID \<Rightarrow> ParticipantName \<Rightarrow> DoneRequest \<Rightarrow> rallyStore \<Rightarrow>
   (contract_error + RallySession) \<times> rallyStore" where
  "advanceRallyBaton nowMS sid as req st =
     (case check_handoff as (dr_HandoffTo req) of
        Inl e \<Rightarrow> (Inl e, st)
      | Inr handoffTo \<Rightarrow>
        (case st sid of
           None \<Rightarrow> (Inl ErrSessionNotFound, st)
         | Some sess \<Rightarrow>
             if rs_status sess = RallyStateInterrupted then (Inl ErrSessionInterrupted, st)
             else if rs_holder sess \<noteq> as then (Inl ErrNotHolder, st)
             else if handoffTo \<noteq> [] \<and> handoffTo \<notin> set (rs_participants sess) then
               (Inl ErrHandoffToNotMember, st)
             else
               (let nxt = nextParticipant (rs_participants sess) as handoffTo;
                    sess' = pass_baton nowMS as nxt (dr_Note req) sess
                in (Inr (toPublic sess'), st(sid \<mapsto> sess')))))"

text \<open>
  \<^verbatim>\<open>handleRallyDone\<close>: the status code of the reply. \<open>body\<close> is the decoded request, \<open>None\<close>
  when the JSON does not decode.
\<close>

definition handleRallyDone ::
  "int \<Rightarrow> string \<Rightarrow> string \<Rightarrow> string \<Rightarrow> DoneRequest option \<Rightarrow> rallyStore \<Rightarrow>
   (nat \<times> RallySession option) \<times> rallyStore" where
  "handleRallyDone nowMS contentType rawID asRaw body st =
     (if contentType \<noteq> ''application/json'' then ((415, None), st)
      else case NewSessionID rawID of
        Inl e \<Rightarrow> ((writeRallyError (Contract e), None), st)
      | Inr sid \<Rightarrow>
        (case NewParticipantName asRaw of
           Inl e \<Rightarrow> ((writeRallyError (Contract e), None), st)
         | Inr as \<Rightarrow>
           (case body of
              None \<Rightarrow> ((400, None), st)
            | Some req \<Rightarrow>
              (case advanceRallyBaton nowMS sid as req st of
                 (Inl e, st') \<Rightarrow> ((writeRallyError (Contract e), None), st')
               | (Inr pub, st') \<Rightarrow> ((200, Some pub), st')))))"

definition handleRallyCreate ::
  "int \<Rightarrow> bytes option \<Rightarrow> string \<Rightarrow> NewRallyRequest option \<Rightarrow> rallyStore \<Rightarrow>
   (nat \<times> RallySession option) \<times> rallyStore" where
  "handleRallyCreate nowMS rnd contentType body st =
     (if contentType \<noteq> ''application/json'' then ((415, None), st)
      else case body of
        None \<Rightarrow> ((400, None), st)
      | Some req \<Rightarrow>
        (case createRallySession nowMS rnd req st of
           (Inl e, st') \<Rightarrow> ((writeRallyError e, None), st')
         | (Inr pub, st') \<Rightarrow> ((201, Some pub), st')))"

definition getRallySession :: "SessionID \<Rightarrow> rallyStore \<Rightarrow> contract_error + RallySession" where
  "getRallySession sid st =
     (case st sid of None \<Rightarrow> Inl ErrSessionNotFound | Some sess \<Rightarrow> Inr (toPublic sess))"

definition handleRallyStatus :: "string \<Rightarrow> rallyStore \<Rightarrow> nat \<times> RallySession option" where
  "handleRallyStatus rawID st =
     (case NewSessionID rawID of
        Inl e \<Rightarrow> (writeRallyError (Contract e), None)
      | Inr sid \<Rightarrow>
        (case getRallySession sid st of
           Inl e \<Rightarrow> (writeRallyError (Contract e), None)
         | Inr pub \<Rightarrow> (200, Some pub)))"

definition isParticipantStale :: "SessionID \<Rightarrow> ParticipantName \<Rightarrow> int \<Rightarrow> rallyStore \<Rightarrow> bool" where
  "isParticipantStale sid name nowMS st =
     (case st sid of
        None \<Rightarrow> False
      | Some sess \<Rightarrow>
        (case rs_lastSeen sess name of None \<Rightarrow> False | Some ls \<Rightarrow> nowMS - ls > rs_staleThreshold sess))"

definition setRallyStaleThreshold :: "SessionID \<Rightarrow> int \<Rightarrow> rallyStore \<Rightarrow> rallyStore" where
  "setRallyStaleThreshold sid thresholdMS st =
     (case st sid of None \<Rightarrow> st | Some sess \<Rightarrow> st(sid \<mapsto> sess\<lparr>rs_staleThreshold := thresholdMS\<rparr>))"

text \<open>
  Interrupting one session: the new session and, per connected participant, the event its
  closed channel still holds (the sentinel, or the event that filled the buffer).
\<close>

definition closed_event :: BatonEvent where
  "closed_event = \<lparr>be_TurnN = 0, be_From = [], be_Note = [], be_Closed = True\<rparr>"

definition interrupt_session ::
  "rallySession \<Rightarrow> rallySession \<times> (ParticipantName \<Rightarrow> BatonEvent option)" where
  "interrupt_session sess =
     (if rs_status sess = RallyStateInterrupted then (sess, Map.empty)
      else (sess\<lparr>rs_status := RallyStateInterrupted, rs_holder := [], rs_streams := Map.empty\<rparr>,
            \<lambda>p. case rs_streams sess p of
                  None \<Rightarrow> None | Some None \<Rightarrow> Some closed_event | Some (Some evt) \<Rightarrow> Some evt))"

definition interruptRallySession ::
  "SessionID \<Rightarrow> rallyStore \<Rightarrow> (contract_error + RallySession) \<times> rallyStore" where
  "interruptRallySession sid st =
     (case st sid of
        None \<Rightarrow> (Inl ErrSessionNotFound, st)
      | Some sess \<Rightarrow>
          (let sess' = fst (interrupt_session sess) in (Inr (toPublic sess'), st(sid \<mapsto> sess'))))"

definition CloseAllRallies :: "rallyStore \<Rightarrow> rallyStore" where
  "CloseAllRallies st = (\<lambda>sid. map_option (\<lambda>sess. fst (interrupt_session sess)) (st sid))"

subsection \<open>Runs\<close>

text \<open>The operations a run interleaves; each is one step under the store's lock.\<close>

datatype rally_op =
    OpCreate int "bytes option" string "NewRallyRequest option"
  | OpJoin int bool string string
  | OpDone int string string string "DoneRequest option"
  | OpDeliver bool SessionID ParticipantName
  | OpHeartbeat int bool SessionID ParticipantName
  | OpDisconnect SessionID ParticipantName
  | OpStaleThreshold SessionID int
  | OpInterrupt SessionID
  | OpCloseAll

fun rally_exec :: "rally_op \<Rightarrow> rallyStore \<Rightarrow> rallyStore" where
  "rally_exec (OpCreate now rnd ct body) st = snd (handleRallyCreate now rnd ct body st)"
| "rally_exec (OpJoin now flush_ok rawID asRaw) st = snd (handleRallyBaton now flush_ok rawID asRaw st)"
| "rally_exec (OpDone now ct rawID asRaw body) st = snd (handleRallyDone now ct rawID asRaw body st)"
| "rally_exec (OpDeliver write_ok sid as) st = snd (stream_deliver write_ok sid as st)"
| "rally_exec (OpHeartbeat now write_ok sid as) st = stream_heartbeat now write_ok sid as st"
| "rally_exec (OpDisconnect sid as) st = cleanupStream sid as st"
| "rally_exec (OpStaleThreshold sid ms) st = setRallyStaleThreshold sid ms st"
| "rally_exec (OpInterrupt sid) st = snd (interruptRallySession sid st)"
| "rally_exec OpCloseAll st = CloseAllRallies st"

inductive rally_step :: "rallyStore \<Rightarrow> rallyStore \<Rightarrow> bool" where
  rally_op: "rally_step st (rally_exec op st)"

inductive_cases rally_stepE: "rally_step st st'"

subsection \<open>Facts about the parts\<close>

lemma RallyTurnState_simps [simp]:
  "RallyTurnState n \<noteq> RallyStateIdle" "RallyStateIdle \<noteq> RallyTurnState n"
  "RallyTurnState n \<noteq> RallyStateInterrupted" "RallyStateInterrupted \<noteq> RallyTurnState n"
  "RallyTurnState n = RallyTurnState m \<longleftrightarrow> n = m"
proof -
  have "last (RallyTurnState n) = CHR ''n''" by (simp add: RallyTurnState_def)
  then show ne: "RallyTurnState n \<noteq> RallyStateIdle" "RallyTurnState n \<noteq> RallyStateInterrupted" by auto
  from ne show "RallyStateIdle \<noteq> RallyTurnState n" "RallyStateInterrupted \<noteq> RallyTurnState n" by metis+
qed (simp add: RallyTurnState_def)

definition valid_name :: "string \<Rightarrow> bool" where
  "valid_name s \<longleftrightarrow> list_all is_name_char s \<and> 1 \<le> length s \<and> length s \<le> 16"

lemma NewParticipantName_Inr [simp]: "NewParticipantName s = Inr p \<longleftrightarrow> p = s \<and> valid_name s"
  by (auto simp: NewParticipantName_def valid_name_def)

lemma valid_name_nonempty: "valid_name s \<Longrightarrow> s \<noteq> []"
  by (auto simp: valid_name_def)

lemma successor_from_nth:
  "distinct all \<Longrightarrow> i < length all \<Longrightarrow> k \<le> i \<Longrightarrow>
   successor_from all k (drop k all) (all ! i) = all ! (Suc i mod length all)"
proof (induction "i - k" arbitrary: k)
  case 0
  then show ?case by (simp add: Cons_nth_drop_Suc [symmetric])
next
  case (Suc d)
  then have k: "k < length all" "k < i" by simp_all
  moreover have "all ! k \<noteq> all ! i" using Suc.prems k by (simp add: nth_eq_iff_index_eq)
  ultimately show ?case
    using Suc.hyps(1) [of "Suc k"] Suc by (simp add: Cons_nth_drop_Suc [symmetric])
qed

interpretation baton: rotation "\<lambda>participants current. nextParticipant participants current []"
  by unfold_locales (use successor_from_nth [of _ _ 0] in \<open>simp add: nextParticipant_def\<close>)

lemma nextParticipant_member:
  "distinct ps \<Longrightarrow> p \<in> set ps \<Longrightarrow> nextParticipant ps p pref \<in> set ps"
  using baton.in_members [of ps p] by (auto simp: nextParticipant_def)

lemma nextParticipant_other:
  "distinct ps \<Longrightarrow> 2 \<le> length ps \<Longrightarrow> p \<in> set ps \<Longrightarrow> pref \<noteq> p \<Longrightarrow> nextParticipant ps p pref \<noteq> p"
  using baton.changes [of ps p] by (auto simp: nextParticipant_def)

lemma check_names_ok:
  "check_names names raws = Inr ns \<Longrightarrow> distinct names \<Longrightarrow> list_all valid_name names \<Longrightarrow>
   ns = names @ raws \<and> distinct ns \<and> list_all valid_name ns"
proof (induction names raws rule: check_names.induct)
  case (2 names raw raws)
  then show ?case by (auto split: sum.splits if_splits)
qed simp

lemma check_handoff_ok: "check_handoff as to = Inr p \<Longrightarrow> p = to \<and> to \<noteq> as \<or> p = []"
  by (auto simp: check_handoff_def split: if_splits sum.splits)

subsection \<open>The invariant\<close>

definition history_ok :: "rallySession \<Rightarrow> bool" where
  "history_ok sess \<longleftrightarrow>
     (let h = rs_history sess; ps = set (rs_participants sess) in
      (rs_turnN sess = 0 \<and> h = [] \<or> rs_turnN sess = int (length h) + 1) \<and>
      (\<forall>i < length h. bh_TurnN (h ! i) = int i + 2 \<and> bh_From (h ! i) \<noteq> bh_To (h ! i) \<and>
         bh_From (h ! i) \<in> ps \<and> bh_To (h ! i) \<in> ps) \<and>
      (\<forall>i. Suc i < length h \<longrightarrow> bh_To (h ! i) = bh_From (h ! Suc i)))"

definition status_ok :: "rallySession \<Rightarrow> bool" where
  "status_ok sess \<longleftrightarrow>
     (if rs_status sess = RallyStateIdle then rs_holder sess = [] \<and> rs_turnN sess = 0
      else if rs_status sess = RallyStateInterrupted then rs_holder sess = [] \<and> rs_streams sess = Map.empty
      else rs_status sess = RallyTurnState (rs_holder sess) \<and> rs_holder sess \<in> set (rs_participants sess) \<and>
        1 \<le> rs_turnN sess \<and> (rs_history sess = [] \<or> bh_To (last (rs_history sess)) = rs_holder sess))"

definition streams_ok :: "rallySession \<Rightarrow> bool" where
  "streams_ok sess \<longleftrightarrow>
     (\<forall>p b. rs_streams sess p = Some b \<longrightarrow> p \<in> set (rs_participants sess)) \<and>
     (\<forall>p evt. rs_streams sess p = Some (Some evt) \<longrightarrow>
        \<not> be_Closed evt \<and> 1 \<le> be_TurnN evt \<and> be_TurnN evt \<le> rs_turnN sess)"

definition wf_session :: "rallySession \<Rightarrow> bool" where
  "wf_session sess \<longleftrightarrow>
     2 \<le> length (rs_participants sess) \<and> distinct (rs_participants sess) \<and>
     list_all valid_name (rs_participants sess) \<and>
     history_ok sess \<and> status_ok sess \<and> streams_ok sess"

definition wf_store :: "rallyStore \<Rightarrow> bool" where
  "wf_store st \<longleftrightarrow> (\<forall>sid sess. st sid = Some sess \<longrightarrow> wf_session sess \<and> rs_id sess = sid)"

lemma wf_store_upd: "wf_store st \<Longrightarrow> wf_session sess \<Longrightarrow> rs_id sess = sid \<Longrightarrow> wf_store (st(sid \<mapsto> sess))"
  by (auto simp: wf_store_def)

lemma wf_new_session:
  assumes "check_names [] raws = Inr names" "\<not> length raws < 2" "check_first_holder names first = Inr f"
  shows "wf_session (new_session now sid names f req)"
proof -
  have "f \<noteq> [] \<Longrightarrow> f \<in> set names"
    using assms(3) by (auto simp: check_first_holder_def split: if_splits sum.splits)
  with check_names_ok [OF assms(1)] assms(2) show ?thesis
    by (auto simp: new_session_def Let_def wf_session_def history_ok_def status_ok_def streams_ok_def)
qed

lemma wf_create:
  assumes "wf_store st"
  shows "wf_store (snd (createRallySession now rnd req st))"
proof -
  have "rs_id (new_session now sid names f req) = sid" for sid names f
    by (simp add: new_session_def Let_def)
  then show ?thesis
    unfolding createRallySession_def
    by (auto simp: Let_def assms split: sum.split option.split intro!: wf_store_upd [OF assms] wf_new_session)
qed

lemma wf_join:
  assumes "wf_session sess" "as \<in> set (rs_participants sess)" "rs_status sess \<noteq> RallyStateInterrupted"
  shows "wf_session (join_session now as sess)"
  using assms
  by (auto simp: join_session_def Let_def wf_session_def history_ok_def status_ok_def streams_ok_def)
    (metis order_trans zero_le_one)

lemma join_session_id [simp]: "rs_id (join_session now as sess) = rs_id sess"
  by (simp add: join_session_def Let_def case_prod_beta)

lemma wf_pass:
  assumes "wf_session sess" "rs_holder sess = as" "as \<in> set (rs_participants sess)"
    "rs_status sess \<noteq> RallyStateInterrupted" "pref \<noteq> as"
  shows "wf_session (pass_baton now as (nextParticipant (rs_participants sess) as pref) note sess)"
proof -
  define nxt where "nxt = nextParticipant (rs_participants sess) as pref"
  have nxt: "nxt \<in> set (rs_participants sess)" "nxt \<noteq> as"
    using assms nextParticipant_member nextParticipant_other by (auto simp: nxt_def wf_session_def)
  define sess' where "sess' = pass_baton now as nxt note sess"
  have as: "as \<noteq> []" using assms(1,3) valid_name_nonempty by (auto simp: wf_session_def list_all_iff)
  have st: "status_ok sess" "history_ok sess" "streams_ok sess" using assms(1) by (auto simp: wf_session_def)
  have turn: "rs_turnN sess = int (length (rs_history sess)) + 1"
    "rs_history sess = [] \<or> bh_To (last (rs_history sess)) = as"
    using st(1,2) assms(2,4) as by (auto simp: status_ok_def history_ok_def Let_def split: if_splits)
  have "history_ok sess'"
    using st(2) turn nxt assms(3)
    by (auto simp: sess'_def pass_baton_def history_ok_def Let_def nth_append less_Suc_eq)
      (metis diff_Suc_1 last_conv_nth list.size(3) nat.distinct(1))
  moreover have "status_ok sess'"
    using nxt turn by (simp add: sess'_def pass_baton_def status_ok_def Let_def)
  moreover have "streams_ok sess'"
    using st(3) nxt turn
    by (fastforce simp: sess'_def pass_baton_def streams_ok_def Let_def try_send_def split: option.splits if_splits)
  ultimately show ?thesis
    using assms(1) by (simp add: nxt_def [symmetric] sess'_def wf_session_def pass_baton_def Let_def)
qed

lemma wf_streams_upd:
  assumes "wf_session sess" "\<And>p b. f p = Some b \<Longrightarrow> b = None \<and> rs_streams sess p \<noteq> None \<or> rs_streams sess p = Some b"
  shows "wf_session (sess\<lparr>rs_streams := f\<rparr>)"
proof -
  have "streams_ok (sess\<lparr>rs_streams := f\<rparr>)"
    using assms by (fastforce simp: wf_session_def streams_ok_def)
  moreover have "f = Map.empty" if "rs_streams sess = Map.empty"
  proof
    fix p
    show "f p = None" using assms(2) [of p] that by (cases "f p") auto
  qed
  ultimately show ?thesis
    using assms(1) by (auto simp: wf_session_def history_ok_def status_ok_def)
qed

lemma wf_cleanup:
  assumes "wf_store st"
  shows "wf_store (cleanupStream sid p st)"
proof (cases "st sid")
  case (Some sess)
  then have "wf_session (sess\<lparr>rs_streams := (rs_streams sess)(p := None)\<rparr>)" "rs_id sess = sid"
    using assms by (auto simp: wf_store_def intro!: wf_streams_upd split: if_splits)
  then show ?thesis using Some wf_store_upd [OF assms] by (simp add: cleanupStream_def)
qed (use assms in \<open>simp add: cleanupStream_def\<close>)

lemma wf_deliver:
  assumes "wf_store st"
  shows "wf_store (snd (stream_deliver w sid as st))"
proof (cases "st sid")
  case (Some sess)
  have "wf_store (st(sid \<mapsto> sess\<lparr>rs_streams := (rs_streams sess)(as \<mapsto> None)\<rparr>))"
    if "rs_streams sess as = Some (Some evt)" for evt
    by (rule wf_store_upd [OF assms])
      (use Some assms that in \<open>auto simp: wf_store_def intro!: wf_streams_upd split: if_splits\<close>)
  then show ?thesis
    using Some assms by (auto simp: stream_deliver_def Let_def wf_cleanup split: option.split)
qed (use assms in \<open>simp add: stream_deliver_def\<close>)

lemma wf_interrupt: "wf_session sess \<Longrightarrow> wf_session (fst (interrupt_session sess))"
  by (simp add: interrupt_session_def wf_session_def history_ok_def status_ok_def streams_ok_def)

lemma NewParticipantName_if: "NewParticipantName s = (if valid_name s then Inr s else Inl ErrInvalidName)"
  by (simp add: NewParticipantName_def valid_name_def)

lemma handleRallyCreate_store:
  "snd (handleRallyCreate now rnd ct body st) =
     (if ct = ''application/json'' \<and> body \<noteq> None then snd (createRallySession now rnd (the body) st) else st)"
  by (auto simp: handleRallyCreate_def split: option.split prod.split sum.split)

lemma handleRallyDone_store:
  "snd (handleRallyDone now ct rawID asRaw body st) =
     (if ct = ''application/json'' \<and> matches_session_id rawID \<and> valid_name asRaw \<and> body \<noteq> None
      then snd (advanceRallyBaton now rawID asRaw (the body) st) else st)"
  by (cases body; cases "advanceRallyBaton now rawID asRaw (the body) st"; cases "fst (advanceRallyBaton now rawID asRaw (the body) st)")
    (simp_all add: handleRallyDone_def NewSessionID_def NewParticipantName_if)

lemma wf_session_other [simp]:
  "wf_session (sess\<lparr>rs_lastSeen := f\<rparr>) = wf_session sess"
  "wf_session (sess\<lparr>rs_staleThreshold := n\<rparr>) = wf_session sess"
  by (simp_all add: wf_session_def history_ok_def status_ok_def streams_ok_def)

lemma wf_upd_other:
  assumes "wf_store st" "st sid = Some sess"
  shows "wf_store (st(sid \<mapsto> sess\<lparr>rs_lastSeen := f\<rparr>))" "wf_store (st(sid \<mapsto> sess\<lparr>rs_staleThreshold := n\<rparr>))"
  using assms by (intro wf_store_upd; simp add: wf_store_def)+

lemma wf_exec:
  assumes "wf_store st"
  shows "wf_store (rally_exec op st)"
proof (cases op)
  case (OpCreate now rnd ct body)
  then show ?thesis
    using assms wf_create [OF assms, of now rnd "the body"]
    by (auto simp: handleRallyCreate_def split: option.split prod.split sum.split)
next
  case (OpJoin now flush_ok rawID asRaw)
  have "wf_store (st(sid \<mapsto> join_session now as sess))"
    if "st sid = Some sess" "as \<in> set (rs_participants sess)" "rs_status sess \<noteq> RallyStateInterrupted" for sid as sess
  proof -
    have "wf_session sess" "rs_id sess = sid" using that(1) assms by (simp_all add: wf_store_def)
    then show ?thesis using that(2,3) by (intro wf_store_upd [OF assms]) (simp_all add: wf_join)
  qed
  then show ?thesis
    using OpJoin assms by (auto simp: handleRallyBaton_def Let_def split: option.split sum.split)
next
  case (OpDone now ct rawID asRaw body)
  have "wf_store (snd (advanceRallyBaton now sid as req st))" if "valid_name as" for sid as req
  proof (cases "check_handoff as (dr_HandoffTo req)")
    case (Inr to)
    then have to: "to \<noteq> as" using check_handoff_ok valid_name_nonempty [OF that] by blast
    have "wf_store (st(sid \<mapsto> pass_baton now as (nextParticipant (rs_participants sess) as to) n sess))"
      if "st sid = Some sess" "rs_status sess \<noteq> RallyStateInterrupted" "rs_holder sess = as" for sess n
    proof -
      have wf: "wf_session sess" "rs_id sess = sid" using that(1) assms by (auto simp: wf_store_def)
      then have "as \<in> set (rs_participants sess)"
        using that(2,3) valid_name_nonempty [OF \<open>valid_name as\<close>]
        by (auto simp: wf_session_def status_ok_def split: if_splits)
      from wf_pass [OF wf(1) that(3) this that(2) to] wf(2) show ?thesis
        by (intro wf_store_upd [OF assms]) (simp_all add: pass_baton_def Let_def)
    qed
    then show ?thesis using Inr assms by (auto simp: advanceRallyBaton_def Let_def split: option.split)
  qed (simp add: advanceRallyBaton_def assms)
  then show ?thesis
    using OpDone assms by (simp add: handleRallyDone_store)
next
  case (OpHeartbeat now w sid as)
  then show ?thesis
    using assms by (cases "st sid") (simp_all add: stream_heartbeat_def wf_cleanup wf_upd_other)
next
  case (OpStaleThreshold sid ms)
  then show ?thesis
    using assms by (cases "st sid") (simp_all add: setRallyStaleThreshold_def wf_upd_other)
next
  case (OpInterrupt sid)
  have "rs_id (fst (interrupt_session sess)) = rs_id sess" for sess by (simp add: interrupt_session_def)
  then show ?thesis
    using assms OpInterrupt wf_interrupt
    by (auto simp: interruptRallySession_def Let_def wf_store_def split: option.split)
next
  case OpCloseAll
  have "rs_id (fst (interrupt_session sess)) = rs_id sess" for sess by (simp add: interrupt_session_def)
  then show ?thesis
    using assms OpCloseAll wf_interrupt by (auto simp: CloseAllRallies_def wf_store_def)
qed (use assms in \<open>simp_all add: wf_deliver wf_cleanup\<close>)

interpretation rally: transition_system "\<lambda>st. st = newRallyStore" rally_step wf_store
proof unfold_locales
  show "st = newRallyStore \<Longrightarrow> wf_store st" for st by (simp add: newRallyStore_def wf_store_def)
  show "wf_store st \<Longrightarrow> rally_step st st' \<Longrightarrow> wf_store st'" for st st'
    by (elim rally_stepE) (simp add: wf_exec)
qed

lemma interrupt_session_streams: "rs_status (fst (interrupt_session sess)) = RallyStateInterrupted"
  by (simp add: interrupt_session_def)

subsection \<open>Interrupted sessions\<close>

definition interrupted :: "rallyStore \<Rightarrow> SessionID \<Rightarrow> bool" where
  "interrupted st sid \<longleftrightarrow> (\<exists>sess. st sid = Some sess \<and> rs_status sess = RallyStateInterrupted)"

definition creates :: "rally_op \<Rightarrow> SessionID option" where
  "creates op = (case op of OpCreate now rnd ct body \<Rightarrow> generateRallyID now rnd | _ \<Rightarrow> None)"

lemma interrupted_upd: "interrupted st sid \<Longrightarrow> (sid' = sid \<Longrightarrow> rs_status sess = RallyStateInterrupted) \<Longrightarrow>
   interrupted (st(sid' \<mapsto> sess)) sid"
  by (auto simp: interrupted_def)

lemma interrupted_cleanup: "interrupted st sid \<Longrightarrow> interrupted (cleanupStream x p st) sid"
  by (auto simp: cleanupStream_def interrupted_def split: option.split)

lemma interrupted_exec:
  assumes "interrupted st sid" "creates op \<noteq> Some sid"
  shows "interrupted (rally_exec op st) sid"
proof (cases op)
  case (OpCreate now rnd ct body)
  with assms have "generateRallyID now rnd \<noteq> Some sid" by (simp add: creates_def)
  then have "interrupted (snd (createRallySession now rnd req st)) sid" for req
    using assms(1) by (auto simp: createRallySession_def Let_def intro!: interrupted_upd split: sum.split option.split)
  then show ?thesis using OpCreate assms(1) by (simp add: handleRallyCreate_store)
next
  case (OpJoin now flush_ok rawID asRaw)
  then show ?thesis using assms(1)
    by (auto simp: handleRallyBaton_def Let_def intro!: interrupted_upd split: sum.split option.split)
      (auto simp: interrupted_def)
next
  case (OpDone now ct rawID asRaw body)
  have "interrupted (snd (advanceRallyBaton now x as req st)) sid" for x as req
    using assms(1)
    by (auto simp: advanceRallyBaton_def Let_def intro!: interrupted_upd split: sum.split option.split)
      (auto simp: interrupted_def)
  then show ?thesis using OpDone assms(1) by (simp add: handleRallyDone_store)
next
  case (OpDeliver w x as)
  have "interrupted (st(x \<mapsto> sess\<lparr>rs_streams := f\<rparr>)) sid" if "st x = Some sess" for sess f
    using assms(1) that by (auto simp: interrupted_def)
  then show ?thesis using OpDeliver assms(1)
    by (auto simp: stream_deliver_def Let_def interrupted_cleanup split: option.split)
next
  case (OpHeartbeat now w x as)
  then show ?thesis using assms(1)
    by (auto simp: stream_heartbeat_def interrupted_cleanup split: option.split) (auto simp: interrupted_def)
next
  case (OpStaleThreshold x ms)
  then show ?thesis using assms(1)
    by (auto simp: setRallyStaleThreshold_def interrupted_def split: option.split)
next
  case (OpDisconnect x p)
  then show ?thesis using assms(1) by (simp add: interrupted_cleanup)
qed (use assms(1) in \<open>auto simp: interruptRallySession_def CloseAllRallies_def Let_def
      interrupt_session_def interrupted_def split: option.split\<close>)

lemma interrupted_fold:
  "interrupted st sid \<Longrightarrow> list_all (\<lambda>op. creates op \<noteq> Some sid) ops \<Longrightarrow> interrupted (fold rally_exec ops st) sid"
  by (induction ops arbitrary: st) (auto intro: interrupted_exec)

subsection \<open>Properties\<close>

text \<open>
  (C9) Every session of every reachable store is well formed: at least two distinct valid
  participants; exactly one holder, a participant, while a turn runs, and none when idle or
  interrupted; the history is the chain of handoffs between different participants with
  consecutive turn numbers, ending at the holder; streams exist only for participants,
  never for an interrupted session, and never hold an event of a later turn.
\<close>

theorem rally_reachable_wf:
  assumes "rally_step\<^sup>*\<^sup>* newRallyStore st" and "st sid = Some sess"
  shows "wf_session sess"
  using rally.reachable_inv [OF refl assms(1)] assms(2) by (simp add: wf_store_def)

theorem rally_reachable_wf_witness:
  "\<exists>st sess. st ''rly_5_0a0b'' = Some sess \<and> rs_holder sess = ''bob'' \<and> wf_session sess"
proof -
  let ?create = "OpCreate 5 (Some [CHR 0x0A, CHR 0x0B]) ''application/json''
    (Some \<lparr>nr_Participants = [''alice'', ''bob''], nr_Repo = [], nr_Task = [], nr_FirstHolder = ''bob''\<rparr>)"
  let ?st = "rally_exec ?create newRallyStore"
  have run: "rally_step\<^sup>*\<^sup>* newRallyStore ?st" by (rule r_into_rtranclp) (rule rally_op)
  have "map_option rs_holder (?st ''rly_5_0a0b'') = Some ''bob''" by code_simp
  then obtain sess where "?st ''rly_5_0a0b'' = Some sess" "rs_holder sess = ''bob''" by auto
  with rally_reachable_wf [OF run this(1)] show ?thesis by blast
qed

text \<open>
  (C10) What \<^verbatim>\<open>done\<close> does: it succeeds exactly for the holder of a session that is not
  interrupted, with no or a valid other participant as target; then the baton, the turn
  number, the status and the history move together, and the target gets it if one is
  named, else the next participant in order. Every failure leaves the store as it was.
\<close>

theorem advanceRallyBaton_spec:
  assumes "wf_store st" and "valid_name as" and "st sid = Some sess"
  shows "let (r, st') = advanceRallyBaton now sid as req st; to = dr_HandoffTo req in
    ((\<exists>pub. r = Inr pub) \<longleftrightarrow>
       rs_status sess \<noteq> RallyStateInterrupted \<and> rs_holder sess = as \<and>
       (to = [] \<or> to \<noteq> as \<and> to \<in> set (rs_participants sess))) \<and>
    (\<forall>e. r = Inl e \<longrightarrow> st' = st) \<and>
    (\<forall>pub. r = Inr pub \<longrightarrow>
       (let nxt = nextParticipant (rs_participants sess) as to in
        ry_Holder pub = nxt \<and> ry_Status pub = RallyTurnState nxt \<and>
        ry_TurnN pub = rs_turnN sess + 1 \<and> (to \<noteq> [] \<longrightarrow> nxt = to) \<and> nxt \<noteq> as \<and>
        ry_History pub = rs_history sess @
          [\<lparr>bh_From = as, bh_To = nxt, bh_TurnN = rs_turnN sess + 1, bh_Note = dr_Note req, bh_At = now\<rparr>] \<and>
        map_option toPublic (st' sid) = Some pub))"
proof -
  have wf: "wf_session sess" using assms(1,3) by (simp add: wf_store_def)
  then have ps: "distinct (rs_participants sess)" "2 \<le> length (rs_participants sess)"
    "list_all valid_name (rs_participants sess)" by (simp_all add: wf_session_def)
  have holder: "rs_holder sess \<in> set (rs_participants sess)"
    if "rs_status sess \<noteq> RallyStateInterrupted" "rs_holder sess = as"
    using wf that valid_name_nonempty [OF assms(2)] by (auto simp: wf_session_def status_ok_def split: if_splits)
  have valid: "valid_name p" if "p \<in> set (rs_participants sess)" for p
    using ps(3) that by (simp add: list_all_iff)
  have "as \<noteq> []" by (rule valid_name_nonempty [OF assms(2)])
  then show ?thesis
    using holder valid nextParticipant_other [OF ps(1,2), of as "dr_HandoffTo req"] assms(3)
    by (auto simp: advanceRallyBaton_def check_handoff_def NewParticipantName_if Let_def pass_baton_def
        toPublic_def nextParticipant_def)
qed

theorem advanceRallyBaton_spec_witness:
  "let st = rally_exec (OpCreate 5 (Some [CHR 0x0A, CHR 0x0B]) ''application/json''
      (Some \<lparr>nr_Participants = [''alice'', ''bob''], nr_Repo = [], nr_Task = [], nr_FirstHolder = ''bob''\<rparr>)) newRallyStore;
       (r, st') = advanceRallyBaton 9 ''rly_5_0a0b'' ''bob'' \<lparr>dr_Note = [], dr_HandoffTo = []\<rparr> st
   in \<exists>pub. r = Inr pub"
proof -
  define st where "st = rally_exec (OpCreate 5 (Some [CHR 0x0A, CHR 0x0B]) ''application/json''
      (Some \<lparr>nr_Participants = [''alice'', ''bob''], nr_Repo = [], nr_Task = [], nr_FirstHolder = ''bob''\<rparr>)) newRallyStore"
  have "map_option (\<lambda>s. (rs_participants s, rs_status s, rs_holder s)) (st ''rly_5_0a0b'') =
      Some ([''alice'', ''bob''], RallyTurnState ''bob'', ''bob'')" unfolding st_def by code_simp
  then obtain sess where s: "st ''rly_5_0a0b'' = Some sess" "rs_participants sess = [''alice'', ''bob'']"
    "rs_status sess = RallyTurnState ''bob''" "rs_holder sess = ''bob''" by auto
  have "rally_step newRallyStore st" unfolding st_def by (rule rally_step.intros)
  then have wf: "wf_store st" by (rule rally.reachable_inv [OF refl r_into_rtranclp])
  have bob: "valid_name ''bob''" by code_simp
  show ?thesis
    unfolding Let_def st_def [symmetric]
    using advanceRallyBaton_spec [OF wf bob s(1), of 9 "\<lparr>dr_Note = [], dr_HandoffTo = []\<rparr>"] s
    by (auto simp: Let_def RallyTurnState_def)
qed

text \<open>
  Round robin is fair: without named targets the baton visits every participant in
  one round of as many turns as there are participants, and is back at its holder.
\<close>

theorem nextParticipant_fair:
  assumes "distinct ps" and "p \<in> set ps"
  shows "(\<lambda>k. ((\<lambda>c. nextParticipant ps c []) ^^ k) p) ` {..<length ps} = set ps \<and>
    ((\<lambda>c. nextParticipant ps c []) ^^ length ps) p = p"
  using baton.covers [OF assms] baton.returns [OF assms] by simp

theorem nextParticipant_fair_witness:
  "(\<lambda>k. ((\<lambda>c. nextParticipant [''a'', ''b'', ''c''] c []) ^^ k) ''b'') ` {..<length [''a'', ''b'', ''c'']} =
    set [''a'', ''b'', ''c'']"
  by (rule conjunct1 [OF nextParticipant_fair]) simp_all

text \<open>
  Interruption is final: after \<^verbatim>\<open>interruptRallySession\<close> (or \<^verbatim>\<open>CloseAllRallies\<close>) no sequence
  of operations that does not create the id anew brings the session back, and every later
  \<^verbatim>\<open>done\<close> on it fails and changes nothing.
\<close>

theorem interrupted_for_good:
  assumes "st sid = Some sess" and "list_all (\<lambda>op. creates op \<noteq> Some sid) ops"
    and "close = OpInterrupt sid \<or> close = OpCloseAll"
  shows "let st' = fold rally_exec (close # ops) st in
    map_option rs_status (st' sid) = Some RallyStateInterrupted \<and>
    (\<exists>e. advanceRallyBaton now sid as req st' = (Inl e, st'))"
proof -
  have "interrupted (rally_exec close st) sid"
    using assms(1,3)
    by (auto simp: interrupted_def interruptRallySession_def CloseAllRallies_def Let_def interrupt_session_streams)
  then have "interrupted (fold rally_exec (close # ops) st) sid"
    using interrupted_fold assms(2) by simp
  then show ?thesis
    by (auto simp: interrupted_def advanceRallyBaton_def Let_def split: sum.split)
qed

theorem interrupted_for_good_witness:
  "let st = rally_exec (OpCreate 5 (Some [CHR 0x0A, CHR 0x0B]) ''application/json''
      (Some \<lparr>nr_Participants = [''alice'', ''bob''], nr_Repo = [], nr_Task = [], nr_FirstHolder = ''bob''\<rparr>)) newRallyStore;
       st' = fold rally_exec [OpInterrupt ''rly_5_0a0b'', OpJoin 6 True ''rly_5_0a0b'' ''bob''] st
   in \<exists>e. advanceRallyBaton 7 ''rly_5_0a0b'' ''bob'' \<lparr>dr_Note = [], dr_HandoffTo = []\<rparr> st' = (Inl e, st')"
proof -
  define st where "st = rally_exec (OpCreate 5 (Some [CHR 0x0A, CHR 0x0B]) ''application/json''
      (Some \<lparr>nr_Participants = [''alice'', ''bob''], nr_Repo = [], nr_Task = [], nr_FirstHolder = ''bob''\<rparr>)) newRallyStore"
  have "st ''rly_5_0a0b'' \<noteq> None" unfolding st_def by code_simp
  then obtain sess where "st ''rly_5_0a0b'' = Some sess" by blast
  note sess = this
  have "let st' = fold rally_exec [OpInterrupt ''rly_5_0a0b'', OpJoin 6 True ''rly_5_0a0b'' ''bob''] st
    in map_option rs_status (st' ''rly_5_0a0b'') = Some RallyStateInterrupted \<and>
      (\<exists>e. advanceRallyBaton 7 ''rly_5_0a0b'' ''bob'' \<lparr>dr_Note = [], dr_HandoffTo = []\<rparr> st' = (Inl e, st'))"
    by (rule interrupted_for_good [where sess = sess]) (simp_all add: sess creates_def)
  then show ?thesis unfolding Let_def st_def [symmetric] by blast
qed

text \<open>
  A join whose first flush fails leaks the stream: the participant is registered as
  connected although nobody reads the channel, and every later join of the participant is
  refused with \<^verbatim>\<open>ErrAlreadyConnected\<close>.
\<close>

theorem failed_join_locks_out:
  assumes "NewSessionID sid = Inr sid" and "NewParticipantName as = Inr as" and "st sid = Some sess"
    and "as \<in> set (rs_participants sess)" and "rs_status sess \<noteq> RallyStateInterrupted"
    and "rs_streams sess as = None"
    and "handleRallyBaton now False sid as st = (reply, st')"
  shows "reply = JoinFlushFailed \<and>
    handleRallyBaton later flush_ok sid as st' = (JoinError (Contract ErrAlreadyConnected), st')"
proof -
  have "rs_streams (join_session now as sess) as \<noteq> None" "rs_status (join_session now as sess) \<noteq> RallyStateInterrupted"
    "rs_participants (join_session now as sess) = rs_participants sess"
    using assms(5) by (simp_all add: join_session_def Let_def case_prod_beta)
  with assms show ?thesis by (auto simp: handleRallyBaton_def NewParticipantName_if Let_def)
qed

theorem failed_join_locks_out_witness:
  "let st = rally_exec (OpCreate 5 (Some [CHR 0x0A, CHR 0x0B]) ''application/json''
      (Some \<lparr>nr_Participants = [''alice'', ''bob''], nr_Repo = [], nr_Task = [], nr_FirstHolder = []\<rparr>)) newRallyStore;
       st' = snd (handleRallyBaton 6 False ''rly_5_0a0b'' ''bob'' st)
   in handleRallyBaton 7 True ''rly_5_0a0b'' ''bob'' st' = (JoinError (Contract ErrAlreadyConnected), st')"
proof -
  define st where "st = rally_exec (OpCreate 5 (Some [CHR 0x0A, CHR 0x0B]) ''application/json''
      (Some \<lparr>nr_Participants = [''alice'', ''bob''], nr_Repo = [], nr_Task = [], nr_FirstHolder = []\<rparr>)) newRallyStore"
  have "map_option (\<lambda>s. (rs_participants s, rs_status s, rs_streams s ''bob'')) (st ''rly_5_0a0b'') =
      Some ([''alice'', ''bob''], RallyStateIdle, None)" unfolding st_def by code_simp
  then obtain sess where s: "st ''rly_5_0a0b'' = Some sess" "rs_participants sess = [''alice'', ''bob'']"
    "rs_status sess = RallyStateIdle" "rs_streams sess ''bob'' = None" by auto
  have n: "NewSessionID ''rly_5_0a0b'' = Inr ''rly_5_0a0b''" "NewParticipantName ''bob'' = Inr ''bob''"
    by code_simp+
  show ?thesis
    unfolding Let_def st_def [symmetric]
    by (rule conjunct2 [OF failed_join_locks_out [where sess = sess and now = 6]])
      (use n s in \<open>simp_all add: prod_eq_iff\<close>)
qed

text \<open>
  The ids the broker makes are ids it accepts: a clock that is not before the epoch
  and two random bytes give an id that \<^verbatim>\<open>NewSessionID\<close> validates.
\<close>

theorem generateRallyID_valid:
  assumes "0 \<le> nowMS" and "length b = 2"
  shows "\<exists>sid. generateRallyID nowMS (Some b) = Some sid \<and> NewSessionID sid = Inr sid"
proof -
  define ds where "ds = show_nat (nat nowMS)"
  have ds: "list_all is_digit ds" "ds \<noteq> []" using show_nat_digits [of "nat nowMS"] by (simp_all add: ds_def)
  have sid: "generateRallyID nowMS (Some b) = Some (''rly_'' @ ds @ ''_'' @ EncodeToString b)"
    using assms(1) by (simp add: generateRallyID_def show_int_def ds_def)
  have und: "\<not> is_digit (CHR ''_'')" by (simp add: is_digit_def)
  have tw: "takeWhile is_digit (ds @ ''_'' @ r) = ds" "dropWhile is_digit (ds @ ''_'' @ r) = ''_'' @ r" for r
    using ds(1) und by (induction ds) simp_all
  have lhex: "is_lower_hex (hex_digit n)" if "n < 16" for n
    using that by (auto simp: is_lower_hex_def hex_digit_def of_char_char_of_lt Let_def)
  have "of_char c div 16 < (16 :: nat)" for c using of_char_lt_256 [of c] by linarith
  then have "list_all is_lower_hex (EncodeToString b)"
    by (auto simp: EncodeToString_def Let_def list_all_iff lhex)
  then have "matches_session_id (''rly_'' @ ds @ ''_'' @ EncodeToString b)"
    using ds(2) assms(2) tw by (simp add: matches_session_id_def Let_def HasPrefix_def)
  with sid show ?thesis by (simp add: NewSessionID_def)
qed

theorem generateRallyID_valid_witness:
  "\<exists>sid. generateRallyID 1700000000000 (Some [CHR 0x0A, CHR 0xFF]) = Some sid \<and> NewSessionID sid = Inr sid"
  by (rule generateRallyID_valid) simp_all

text \<open>
  The pattern tag round-trips: a task that starts with the tag of a known pattern
  parses to that pattern and the text after the tag without leading blanks.
\<close>

theorem ParsePattern_roundtrip:
  assumes "p \<noteq> PatternUnknown"
  shows "ParsePattern (''[pattern:'' @ Pattern_String p @ '']'' @ rest) = (p, TrimLeft rest (CHR '' ''), None)"
  using assms by (cases p) (simp_all add: ParsePattern_def Let_def HasPrefix_def eval_nat_numeral)

theorem ParsePattern_roundtrip_witness:
  "ParsePattern ''[pattern:cycle]  go'' = (PatternCycle, ''go'', None)"
  using ParsePattern_roundtrip [of PatternCycle "''  go''"] by (simp add: TrimLeft_def)

end
