(* ===== verification/Mcp.thy ===== *)
theory Mcp
  imports Rally Json
begin

section \<open>The MCP surface (internal/broker/mcp.go, pkg/contract/mcp.go)\<close>

text \<open>
  The Model Context Protocol server over the rally store: the SSE transports with their
  response channels, the JSON-RPC dispatch and the five rally tools. A tool call runs under
  the rally store's lock; \<^verbatim>\<open>rally_join\<close> waits, so it is two steps, the registration and what
  ends the wait. Decoding is \<^verbatim>\<open>encoding/json\<close>: a request carries what its parts decode to, or
  the error's text. The theory shows that the tools are rally operations, so what holds of the
  HTTP interface holds with MCP clients, and that a join that timed out loses no baton.
\<close>

subsection \<open>Wire types\<close>

abbreviation MCPProtocolVersion where "MCPProtocolVersion \<equiv> ''2025-03-26''"
abbreviation MCPContentTypeText where "MCPContentTypeText \<equiv> ''text''"

record RallyJoinToolArgs =
  ja_SessionID :: string
  ja_As :: string
  ja_TimeoutMS :: int

record RallyDoneToolArgs =
  da_SessionID :: string
  da_As :: string
  da_Note :: string
  da_HandoffTo :: string

record RallyStatusToolArgs =
  sa_SessionID :: string

record RallyInterruptToolArgs =
  ia_SessionID :: string

text \<open>The raw arguments, as what they decode to at the type of each tool.\<close>

record MCPToolCallRequest =
  tc_Name :: string
  tc_Create :: "string + NewRallyRequest"
  tc_Join :: "string + RallyJoinToolArgs"
  tc_Done :: "string + RallyDoneToolArgs"
  tc_Status :: "string + RallyStatusToolArgs"
  tc_Interrupt :: "string + RallyInterruptToolArgs"

record MCPJSONRPCRequest =
  mq_ID :: json
  mq_Method :: string
  mq_Params :: "string + MCPToolCallRequest"

record MCPToolInputSchema =
  is_Type :: string
  is_Properties :: "(string \<times> json) list"
  is_Required :: "string list"

record MCPTool =
  mt_Name :: string
  mt_Description :: string
  mt_InputSchema :: MCPToolInputSchema

record MCPContent =
  mn_Type :: string
  mn_Text :: string

record MCPJSONRPCError =
  me_Code :: int
  me_Message :: string
  me_Data :: "string option"

datatype mcp_result =
    InitializeResult string string string
  | ToolsListResult "MCPTool list"
  | ToolCallResult "MCPContent list" bool

record MCPJSONRPCResponse =
  mr_ID :: json
  mr_Result :: "mcp_result option"
  mr_Error :: "MCPJSONRPCError option"

definition mcpErrorResponse :: "json \<Rightarrow> int \<Rightarrow> string \<Rightarrow> string option \<Rightarrow> MCPJSONRPCResponse" where
  "mcpErrorResponse rid code message data =
     \<lparr>mr_ID = rid, mr_Result = None, mr_Error = Some \<lparr>me_Code = code, me_Message = message, me_Data = data\<rparr>\<rparr>"

definition mcpInitialize :: "string \<Rightarrow> MCPJSONRPCRequest \<Rightarrow> MCPJSONRPCResponse" where
  "mcpInitialize version req =
     \<lparr>mr_ID = mq_ID req, mr_Result = Some (InitializeResult MCPProtocolVersion ''rallish'' version), mr_Error = None\<rparr>"

definition tool_schema :: "(string \<times> json) list \<Rightarrow> string list \<Rightarrow> MCPToolInputSchema" where
  "tool_schema props required = \<lparr>is_Type = ''object'', is_Properties = props, is_Required = required\<rparr>"

definition type_of :: "string \<Rightarrow> json" where
  "type_of t = JObj [(''type'', JStr t)]"

definition mcpTools :: "MCPTool list" where
  "mcpTools =
     [\<lparr>mt_Name = ''rally_create'', mt_Description = ''Create a new rally baton-passing session.'',
       mt_InputSchema = tool_schema
         [(''participants'', JObj [(''type'', JStr ''array''), (''items'', type_of ''string'')]),
          (''repo'', type_of ''string''), (''task'', type_of ''string''), (''first_holder'', type_of ''string'')]
         [''participants'']\<rparr>,
      \<lparr>mt_Name = ''rally_join'',
       mt_Description = ''Wait until the baton is passed to the named participant. Returns a BatonEvent or a timeout marker.'',
       mt_InputSchema = tool_schema
         [(''session_id'', type_of ''string''), (''as'', type_of ''string''),
          (''timeout_ms'', JObj [(''type'', JStr ''integer''), (''default'', JInt 30000)])]
         [''session_id'', ''as'']\<rparr>,
      \<lparr>mt_Name = ''rally_done'', mt_Description = ''Pass the baton to the next participant.'',
       mt_InputSchema = tool_schema
         [(''session_id'', type_of ''string''), (''as'', type_of ''string''), (''note'', type_of ''string''),
          (''handoff_to'', type_of ''string'')]
         [''session_id'', ''as'']\<rparr>,
      \<lparr>mt_Name = ''rally_status'', mt_Description = ''Get the current snapshot of a rally session.'',
       mt_InputSchema = tool_schema [(''session_id'', type_of ''string'')] [''session_id'']\<rparr>,
      \<lparr>mt_Name = ''rally_interrupt'', mt_Description = ''Forcibly interrupt a rally session and close all streams.'',
       mt_InputSchema = tool_schema [(''session_id'', type_of ''string'')] [''session_id'']\<rparr>]"

definition mcpToolsList :: "MCPJSONRPCRequest \<Rightarrow> MCPJSONRPCResponse" where
  "mcpToolsList req = \<lparr>mr_ID = mq_ID req, mr_Result = Some (ToolsListResult mcpTools), mr_Error = None\<rparr>"

subsection \<open>The tools\<close>

text \<open>What a tool returns; its JSON text is made by \<open>marshal\<close>.\<close>

datatype mcp_value = McpSession RallySession | McpBaton BatonEvent | McpTimeout

datatype mcp_error =
    InvalidArguments string
  | McpRally rally_error
  | NotAParticipant ParticipantName
  | McpCtxDone

definition mcpToolSuccessResponse :: "(mcp_value \<Rightarrow> string + string) \<Rightarrow> json \<Rightarrow> mcp_value \<Rightarrow> MCPJSONRPCResponse" where
  "mcpToolSuccessResponse marshal rid v =
     (case marshal v of
        Inl e \<Rightarrow> mcpErrorResponse rid (-32603) ''Internal error: failed to marshal result'' (Some e)
      | Inr text \<Rightarrow>
          \<lparr>mr_ID = rid, mr_Result = Some (ToolCallResult [\<lparr>mn_Type = MCPContentTypeText, mn_Text = text\<rparr>] False),
           mr_Error = None\<rparr>)"

definition mcpToolErrorResponse :: "(mcp_error \<Rightarrow> string) \<Rightarrow> json \<Rightarrow> mcp_error \<Rightarrow> MCPJSONRPCResponse" where
  "mcpToolErrorResponse errText rid e =
     \<lparr>mr_ID = rid, mr_Result = Some (ToolCallResult [\<lparr>mn_Type = MCPContentTypeText, mn_Text = errText e\<rparr>] True),
      mr_Error = None\<rparr>"

definition mcpToolRallyCreate ::
  "int \<Rightarrow> bytes option \<Rightarrow> string + NewRallyRequest \<Rightarrow> rallyStore \<Rightarrow> (mcp_error + mcp_value) \<times> rallyStore" where
  "mcpToolRallyCreate nowMS rnd args st =
     (case args of
        Inl e \<Rightarrow> (Inl (InvalidArguments e), st)
      | Inr req \<Rightarrow>
          (case createRallySession nowMS rnd req st of
             (Inl e, st') \<Rightarrow> (Inl (McpRally e), st')
           | (Inr pub, st') \<Rightarrow> (Inr (McpSession pub), st')))"

definition mcpToolRallyDone ::
  "int \<Rightarrow> string + RallyDoneToolArgs \<Rightarrow> rallyStore \<Rightarrow> (mcp_error + mcp_value) \<times> rallyStore" where
  "mcpToolRallyDone nowMS args st =
     (case args of
        Inl e \<Rightarrow> (Inl (InvalidArguments e), st)
      | Inr p \<Rightarrow>
          (case NewSessionID (da_SessionID p) of
             Inl e \<Rightarrow> (Inl (McpRally (Contract e)), st)
           | Inr sid \<Rightarrow>
               (case NewParticipantName (da_As p) of
                  Inl e \<Rightarrow> (Inl (McpRally (Contract e)), st)
                | Inr as \<Rightarrow>
                    (case advanceRallyBaton nowMS sid as \<lparr>dr_Note = da_Note p, dr_HandoffTo = da_HandoffTo p\<rparr> st of
                       (Inl e, st') \<Rightarrow> (Inl (McpRally (Contract e)), st')
                     | (Inr pub, st') \<Rightarrow> (Inr (McpSession pub), st')))))"

definition mcpToolRallyStatus :: "string + RallyStatusToolArgs \<Rightarrow> rallyStore \<Rightarrow> mcp_error + mcp_value" where
  "mcpToolRallyStatus args st =
     (case args of
        Inl e \<Rightarrow> Inl (InvalidArguments e)
      | Inr p \<Rightarrow>
          (case NewSessionID (sa_SessionID p) of
             Inl e \<Rightarrow> Inl (McpRally (Contract e))
           | Inr sid \<Rightarrow>
               (case getRallySession sid st of
                  Inl e \<Rightarrow> Inl (McpRally (Contract e))
                | Inr pub \<Rightarrow> Inr (McpSession pub))))"

definition mcpToolRallyInterrupt ::
  "string + RallyInterruptToolArgs \<Rightarrow> rallyStore \<Rightarrow> (mcp_error + mcp_value) \<times> rallyStore" where
  "mcpToolRallyInterrupt args st =
     (case args of
        Inl e \<Rightarrow> (Inl (InvalidArguments e), st)
      | Inr p \<Rightarrow>
          (case NewSessionID (ia_SessionID p) of
             Inl e \<Rightarrow> (Inl (McpRally (Contract e)), st)
           | Inr sid \<Rightarrow>
               (case interruptRallySession sid st of
                  (Inl e, st') \<Rightarrow> (Inl (McpRally (Contract e)), st')
                | (Inr pub, st') \<Rightarrow> (Inr (McpSession pub), st'))))"

subsection \<open>Joining\<close>

text \<open>The wait's bound in nanoseconds: the product of two 64-bit integers, defaulted and capped.\<close>

definition join_timeout :: "int \<Rightarrow> int" where
  "join_timeout timeoutMS =
     (let timeout = i64 (timeoutMS * 1000000);
          timeout1 = (if timeout \<le> 0 then 30 * 1000000000 else timeout)
      in if timeout1 > 5 * 60 * 1000000000 then 5 * 60 * 1000000000 else timeout1)"

text \<open>The critical section: the channel, the time of the visit, and the event that is due.\<close>

definition mcp_register :: "int \<Rightarrow> ParticipantName \<Rightarrow> rallySession \<Rightarrow> rallySession" where
  "mcp_register nowMS as sess0 =
     (let sess = sess0\<lparr>rs_streams := (rs_streams sess0)(as \<mapsto> None), rs_lastSeen := (rs_lastSeen sess0)(as \<mapsto> nowMS)\<rparr>;
          (sess1, immediateEvent) =
            (if rs_status sess = RallyStateIdle \<and> rs_participants sess ! 0 = as then
               (sess\<lparr>rs_turnN := rs_turnN sess + 1, rs_holder := as, rs_status := RallyTurnState as\<rparr>,
                Some \<lparr>be_TurnN = rs_turnN sess + 1, be_From = [], be_Note = [], be_Closed = False\<rparr>)
             else if rs_status sess = RallyTurnState as then
               (let h = rs_history sess;
                    (from, note) = (if length h > 0 then (bh_From (h ! (length h - 1)), bh_Note (h ! (length h - 1)))
                                    else ([], []))
                in (sess, Some \<lparr>be_TurnN = rs_turnN sess, be_From = from, be_Note = note, be_Closed = False\<rparr>))
             else (sess, None))
      in case immediateEvent of
           None \<Rightarrow> sess1
         | Some evt \<Rightarrow> sess1\<lparr>rs_streams := (rs_streams sess1)(as \<mapsto> Some evt)\<rparr>)"

text \<open>\<open>JoinWaits\<close>: the stream is registered and the select is reached.\<close>

datatype mcp_join = JoinReturns "mcp_error + mcp_value" | JoinWaits SessionID ParticipantName int

definition mcpToolRallyJoin :: "int \<Rightarrow> string + RallyJoinToolArgs \<Rightarrow> rallyStore \<Rightarrow> mcp_join \<times> rallyStore" where
  "mcpToolRallyJoin nowMS args st =
     (case args of
        Inl e \<Rightarrow> (JoinReturns (Inl (InvalidArguments e)), st)
      | Inr p \<Rightarrow>
          (case NewSessionID (ja_SessionID p) of
             Inl e \<Rightarrow> (JoinReturns (Inl (McpRally (Contract e))), st)
           | Inr sid \<Rightarrow>
               (case NewParticipantName (ja_As p) of
                  Inl e \<Rightarrow> (JoinReturns (Inl (McpRally (Contract e))), st)
                | Inr as \<Rightarrow>
                    (case st sid of
                       None \<Rightarrow> (JoinReturns (Inl (McpRally (Contract ErrSessionNotFound))), st)
                     | Some sess \<Rightarrow>
                         if as \<notin> set (rs_participants sess) then (JoinReturns (Inl (NotAParticipant as)), st)
                         else if rs_status sess = RallyStateInterrupted then (JoinReturns (Inr (McpBaton closed_event)), st)
                         else if rs_streams sess as \<noteq> None then
                           (JoinReturns (Inl (McpRally (Contract ErrAlreadyConnected))), st)
                         else (JoinWaits sid as (join_timeout (ja_TimeoutMS p)), st(sid \<mapsto> mcp_register nowMS as sess))))))"

text \<open>
  What ends the wait: the request, the clock, an event in the channel (\<open>None\<close> when it was
  closed and is empty). After the timeout an event that has just come is taken and dropped.
\<close>

datatype join_wake = WakeCtx | WakeTimer | WakeEvent "BatonEvent option"

definition join_ends :: "join_wake \<Rightarrow> SessionID \<Rightarrow> ParticipantName \<Rightarrow> rallyStore \<Rightarrow> (mcp_error + mcp_value) \<times> rallyStore" where
  "join_ends w sid as st =
     (case w of
        WakeCtx \<Rightarrow> (Inl McpCtxDone, cleanupStream sid as st)
      | WakeEvent None \<Rightarrow> (Inr (McpBaton closed_event), st)
      | WakeEvent (Some evt) \<Rightarrow> (Inr (McpBaton evt), cleanupStream sid as st)
      | WakeTimer \<Rightarrow> (Inr McpTimeout, cleanupStream sid as st))"

text \<open>The wakes a waiting join can have; \<open>held\<close> is what a closed channel still holds.\<close>

definition can_wake :: "BatonEvent option \<Rightarrow> rallyStore \<Rightarrow> SessionID \<Rightarrow> ParticipantName \<Rightarrow> join_wake \<Rightarrow> bool" where
  "can_wake held st sid as w =
     (case w of
        WakeEvent evt \<Rightarrow>
          (case st sid of
             None \<Rightarrow> False
           | Some sess \<Rightarrow> (case rs_streams sess as of None \<Rightarrow> evt = held | Some b \<Rightarrow> b \<noteq> None \<and> evt = b))
      | _ \<Rightarrow> True)"

subsection \<open>Dispatch\<close>

record mcp_config =
  mg_marshal :: "mcp_value \<Rightarrow> string + string"
  mg_errText :: "mcp_error \<Rightarrow> string"
  mg_version :: string

definition tool_response :: "mcp_config \<Rightarrow> json \<Rightarrow> mcp_error + mcp_value \<Rightarrow> MCPJSONRPCResponse" where
  "tool_response cfg rid r =
     (case r of Inl e \<Rightarrow> mcpToolErrorResponse (mg_errText cfg) rid e
      | Inr v \<Rightarrow> mcpToolSuccessResponse (mg_marshal cfg) rid v)"

text \<open>A request is answered at once, or it is a join that waits.\<close>

datatype mcp_answer = Answers MCPJSONRPCResponse | AnswersLater json SessionID ParticipantName int

definition mcpToolCall ::
  "mcp_config \<Rightarrow> int \<Rightarrow> bytes option \<Rightarrow> MCPJSONRPCRequest \<Rightarrow> rallyStore \<Rightarrow> mcp_answer \<times> rallyStore" where
  "mcpToolCall cfg nowMS rnd req st =
     (case mq_Params req of
        Inl e \<Rightarrow> (Answers (mcpErrorResponse (mq_ID req) (-32602) ''Invalid params'' (Some e)), st)
      | Inr params \<Rightarrow>
          (let answer = (\<lambda>(r, st'). (Answers (tool_response cfg (mq_ID req) r), st')) in
           if tc_Name params = ''rally_create'' then answer (mcpToolRallyCreate nowMS rnd (tc_Create params) st)
           else if tc_Name params = ''rally_join'' then
             (case mcpToolRallyJoin nowMS (tc_Join params) st of
                (JoinReturns r, st') \<Rightarrow> answer (r, st')
              | (JoinWaits sid as timeout, st') \<Rightarrow> (AnswersLater (mq_ID req) sid as timeout, st'))
           else if tc_Name params = ''rally_done'' then answer (mcpToolRallyDone nowMS (tc_Done params) st)
           else if tc_Name params = ''rally_status'' then answer (mcpToolRallyStatus (tc_Status params) st, st)
           else if tc_Name params = ''rally_interrupt'' then answer (mcpToolRallyInterrupt (tc_Interrupt params) st)
           else (Answers (mcpErrorResponse (mq_ID req) (-32602) ''Unknown tool'' (Some (tc_Name params))), st)))"

definition dispatchMCP ::
  "mcp_config \<Rightarrow> int \<Rightarrow> bytes option \<Rightarrow> MCPJSONRPCRequest \<Rightarrow> rallyStore \<Rightarrow> mcp_answer \<times> rallyStore" where
  "dispatchMCP cfg nowMS rnd req st =
     (if mq_Method req = ''initialize'' then (Answers (mcpInitialize (mg_version cfg) req), st)
      else if mq_Method req = ''notifications/initialized''
      then (Answers \<lparr>mr_ID = mq_ID req, mr_Result = None, mr_Error = None\<rparr>, st)
      else if mq_Method req = ''tools/list'' then (Answers (mcpToolsList req), st)
      else if mq_Method req = ''tools/call'' then mcpToolCall cfg nowMS rnd req st
      else (Answers (mcpErrorResponse (mq_ID req) (-32601) ''Method not found'' None), st))"

subsection \<open>Transports\<close>

text \<open>
  A transport is an id and a channel with room for 16 responses. A message handler keeps the
  channel it looked up, so channels outlive their entry. \<open>ms_waiting\<close> are the joins that
  wait and \<open>ms_sending\<close> the responses whose handlers are at the send.
\<close>

record mcp_server =
  ms_rallies :: rallyStore
  ms_sessions :: "string \<Rightarrow> nat option"
  ms_respCh :: "nat \<Rightarrow> MCPJSONRPCResponse list"
  ms_nextCh :: nat
  ms_waiting :: "(nat \<times> json \<times> SessionID \<times> ParticipantName) list"
  ms_sending :: "(nat \<times> MCPJSONRPCResponse) list"

definition newMCPTransportManager :: mcp_server where
  "newMCPTransportManager =
     \<lparr>ms_rallies = newRallyStore, ms_sessions = Map.empty, ms_respCh = (\<lambda>c. []), ms_nextCh = 0, ms_waiting = [],
      ms_sending = []\<rparr>"

definition mcp_create :: "int \<Rightarrow> bytes option \<Rightarrow> mcp_server \<Rightarrow> string \<times> mcp_server" where
  "mcp_create nano rnd sv =
     (case rnd of
        None \<Rightarrow> (''mcpts_'' @ show_int nano @ ''_fallback'', sv)
      | Some b \<Rightarrow>
          let sid = ''mcpts_'' @ EncodeToString b; c = ms_nextCh sv
          in (sid, sv\<lparr>ms_sessions := (ms_sessions sv)(sid \<mapsto> c), ms_respCh := (ms_respCh sv)(c := []), ms_nextCh := Suc c\<rparr>))"

definition mcp_get :: "string \<Rightarrow> mcp_server \<Rightarrow> nat option" where
  "mcp_get sid sv = ms_sessions sv sid"

definition mcp_remove :: "string \<Rightarrow> mcp_server \<Rightarrow> mcp_server" where
  "mcp_remove sid sv = sv\<lparr>ms_sessions := (ms_sessions sv)(sid := None)\<rparr>"

datatype sse_reply = SseOver | SseOpen string nat string | SseData string | SseQuiet

text \<open>The stream up to its loop; the endpoint event names the transport.\<close>

definition handleMCPSSE :: "int \<Rightarrow> bytes option \<Rightarrow> bool \<Rightarrow> bool \<Rightarrow> mcp_server \<Rightarrow> sse_reply \<times> mcp_server" where
  "handleMCPSSE nano rnd flusher write_ok sv =
     (if \<not> flusher then (SseOver, sv)
      else
        let (sid, sv1) = mcp_create nano rnd sv in
        if \<not> write_ok then (SseOver, mcp_remove sid sv1)
        else case mcp_get sid sv1 of
          None \<Rightarrow> (SseOver, mcp_remove sid sv1)
        | Some c \<Rightarrow> (SseOpen sid c (''/mcp/message?session_id='' @ sid), sv1))"

datatype sse_wake = SseClientGone | SseResponse bool | SsePing bool

text \<open>One round of the loop. \<open>text\<close> is the response's JSON, \<open>None\<close> when it cannot be printed.\<close>

definition sse_round :: "(MCPJSONRPCResponse \<Rightarrow> string option) \<Rightarrow> sse_wake \<Rightarrow> string \<Rightarrow> nat \<Rightarrow> mcp_server \<Rightarrow> sse_reply \<times> mcp_server" where
  "sse_round text w sid c sv =
     (case w of
        SseClientGone \<Rightarrow> (SseOver, mcp_remove sid sv)
      | SseResponse write_ok \<Rightarrow>
          (case ms_respCh sv c of
             [] \<Rightarrow> (SseQuiet, sv)
           | resp # rest \<Rightarrow>
               let sv1 = sv\<lparr>ms_respCh := (ms_respCh sv)(c := rest)\<rparr> in
               (case text resp of
                  None \<Rightarrow> (SseQuiet, sv1)
                | Some t \<Rightarrow> if \<not> write_ok then (SseOver, mcp_remove sid sv1) else (SseData t, sv1)))
      | SsePing write_ok \<Rightarrow> if \<not> write_ok then (SseOver, mcp_remove sid sv) else (SseQuiet, sv))"

text \<open>
  The message handler up to its send. A body that cannot be read is \<open>None\<close>; \<open>Inl\<close> the text
  of the error when it is no request. \<open>None\<close> in place of a status: the handler goes on.
\<close>

definition handleMCPMessage ::
  "mcp_config \<Rightarrow> int \<Rightarrow> bytes option \<Rightarrow> string \<Rightarrow> (string + MCPJSONRPCRequest) option \<Rightarrow> mcp_server \<Rightarrow>
   nat option \<times> mcp_server" where
  "handleMCPMessage cfg nowMS rnd sid body sv =
     (if sid = [] then (Some 400, sv)
      else case mcp_get sid sv of
        None \<Rightarrow> (Some 404, sv)
      | Some c \<Rightarrow>
          (case body of
             None \<Rightarrow> (Some 400, sv)
           | Some (Inl e) \<Rightarrow>
               (None, sv\<lparr>ms_sending := ms_sending sv @ [(c, mcpErrorResponse JNull (-32700) ''Parse error'' (Some e))]\<rparr>)
           | Some (Inr req) \<Rightarrow>
               (case dispatchMCP cfg nowMS rnd req (ms_rallies sv) of
                  (Answers resp, st) \<Rightarrow> (None, sv\<lparr>ms_rallies := st, ms_sending := ms_sending sv @ [(c, resp)]\<rparr>)
                | (AnswersLater rid rly as timeout, st) \<Rightarrow>
                    (None, sv\<lparr>ms_rallies := st, ms_waiting := ms_waiting sv @ [(c, rid, rly, as)]\<rparr>))))"

text \<open>A waiting join's handler goes on to its send.\<close>

definition mcp_wakes :: "mcp_config \<Rightarrow> join_wake \<Rightarrow> nat \<Rightarrow> mcp_server \<Rightarrow> mcp_server" where
  "mcp_wakes cfg w i sv =
     (if i < length (ms_waiting sv) then
        let (c, rid, rly, as) = ms_waiting sv ! i;
            (r, st) = join_ends w rly as (ms_rallies sv)
        in sv\<lparr>ms_rallies := st, ms_waiting := take i (ms_waiting sv) @ drop (Suc i) (ms_waiting sv),
              ms_sending := ms_sending sv @ [(c, tool_response cfg rid r)]\<rparr>
      else sv)"

text \<open>The send: \<open>None\<close> when it blocks on a full channel.\<close>

definition mcp_send :: "nat \<Rightarrow> mcp_server \<Rightarrow> nat option \<times> mcp_server" where
  "mcp_send i sv =
     (if i < length (ms_sending sv) then
        let (c, resp) = ms_sending sv ! i
        in if length (ms_respCh sv c) < 16
           then (Some 202, sv\<lparr>ms_respCh := (ms_respCh sv)(c := ms_respCh sv c @ [resp]),
                           ms_sending := take i (ms_sending sv) @ drop (Suc i) (ms_sending sv)\<rparr>)
           else (None, sv)
      else (None, sv))"

subsection \<open>Runs\<close>

text \<open>MCP clients and the operations of the HTTP interface, interleaved.\<close>

inductive mcp_step :: "mcp_config \<Rightarrow> mcp_server \<Rightarrow> mcp_server \<Rightarrow> bool" for cfg where
  Open: "handleMCPSSE nano rnd flusher ok sv = (r, sv') \<Longrightarrow> mcp_step cfg sv sv'"
| StreamRound: "sse_round text w sid c sv = (r, sv') \<Longrightarrow> mcp_step cfg sv sv'"
| Message: "handleMCPMessage cfg now rnd sid body sv = (r, sv') \<Longrightarrow> mcp_step cfg sv sv'"
| Wakes: "mcp_wakes cfg w i sv = sv' \<Longrightarrow> mcp_step cfg sv sv'"
| Sends: "mcp_send i sv = (r, sv') \<Longrightarrow> mcp_step cfg sv sv'"
| Rally: "rally_step (ms_rallies sv) st \<Longrightarrow> mcp_step cfg sv (sv\<lparr>ms_rallies := st\<rparr>)"

inductive_cases mcp_stepE: "mcp_step cfg sv sv'"

end
