(* ===== verification/McpProperties.thy ===== *)
theory McpProperties
  imports Mcp
begin

section \<open>Properties of the MCP surface\<close>

text \<open>
  The tools of the MCP server are rally operations: a join registers what the HTTP join
  registers, every run of MCP and HTTP clients is a run of rally steps, the channels stay
  within their bound, and a baton that a timed-out join drops is delivered to the next join.
\<close>

subsection \<open>Tools as rally operations\<close>

lemma mcp_register: "mcp_register now as sess = join_session now as sess"
proof -
  have "h \<noteq> [] \<Longrightarrow> h ! (length h - 1) = last h" for h :: "BatonHandoff list" by (simp add: last_conv_nth)
  then show ?thesis by (auto simp: mcp_register_def join_session_def Let_def)
qed

lemma create_step:
  "rally_exec (OpCreate now rnd ''application/json'' (Some req)) st = snd (createRallySession now rnd req st)"
  by (simp add: handleRallyCreate_store)

lemma tool_create_step: "mcpToolRallyCreate now rnd args st = (r, st') \<Longrightarrow> st' = st \<or> rally_step st st'"
  using rally_op [of st "OpCreate now rnd ''application/json'' (Some (projr args))"]
  by (auto simp: mcpToolRallyCreate_def handleRallyCreate_store split: sum.splits prod.splits)

lemma tool_done_step: "mcpToolRallyDone now args st = (r, st') \<Longrightarrow> st' = st \<or> rally_step st st'"
proof (cases args)
  case (Inr p)
  assume d: "mcpToolRallyDone now args st = (r, st')"
  show ?thesis
    using Inr d rally_op [of st "OpDone now ''application/json'' (da_SessionID p) (da_As p)
      (Some \<lparr>dr_Note = da_Note p, dr_HandoffTo = da_HandoffTo p\<rparr>)"]
    by (auto simp: mcpToolRallyDone_def handleRallyDone_store NewSessionID_def split: sum.splits prod.splits if_splits)
qed (auto simp: mcpToolRallyDone_def)

lemma tool_interrupt_step: "mcpToolRallyInterrupt args st = (r, st') \<Longrightarrow> st' = st \<or> rally_step st st'"
  using rally_op [of st "OpInterrupt (ia_SessionID (projr args))"]
  by (auto simp: mcpToolRallyInterrupt_def NewSessionID_def split: sum.splits prod.splits if_splits)

text \<open>
  (C11) A join over MCP is a join over HTTP: on every store, for every id, name and time, the
  tool and the handler reach the same store and answer alike, up to the wrapping of the
  reply.
\<close>

theorem mcp_join_is_http_join:
  "\<exists>r reply st'. mcpToolRallyJoin now (Inr \<lparr>ja_SessionID = rawID, ja_As = asRaw, ja_TimeoutMS = ms\<rparr>) st = (r, st') \<and>
     handleRallyBaton now True rawID asRaw st = (reply, st') \<and>
     r = (case reply of
            JoinError e \<Rightarrow> JoinReturns (Inl (McpRally e))
          | JoinForbidden \<Rightarrow> JoinReturns (Inl (NotAParticipant asRaw))
          | JoinClosed \<Rightarrow> JoinReturns (Inr (McpBaton closed_event))
          | _ \<Rightarrow> JoinWaits rawID asRaw (join_timeout ms))"
  by (simp add: mcpToolRallyJoin_def handleRallyBaton_def mcp_register NewSessionID_def NewParticipantName_if Let_def
      split: option.split)

lemma join_exec: "snd (mcpToolRallyJoin now (Inr p) st) = rally_exec (OpJoin now True (ja_SessionID p) (ja_As p)) st"
  by (auto simp: mcpToolRallyJoin_def handleRallyBaton_def mcp_register NewSessionID_def NewParticipantName_if Let_def
      split: option.split)

lemma tool_join_step: "mcpToolRallyJoin now args st = (r, st') \<Longrightarrow> st' = st \<or> rally_step st st'"
proof (cases args)
  case (Inr p)
  assume "mcpToolRallyJoin now args st = (r, st')"
  then have "st' = snd (mcpToolRallyJoin now (Inr p) st)" using Inr by simp
  then have "st' = rally_exec (OpJoin now True (ja_SessionID p) (ja_As p)) st" by (simp only: join_exec)
  then show ?thesis by (simp add: rally_op del: rally_exec.simps)
qed (auto simp: mcpToolRallyJoin_def)

lemma join_ends_step: "join_ends w sid as st = (r, st') \<Longrightarrow> st' = st \<or> rally_step st st'"
  using rally_op [of st "OpDisconnect sid as"] by (auto simp: join_ends_def split: join_wake.splits option.splits)

lemma tool_call_step: "mcpToolCall cfg now rnd req st = (a, st') \<Longrightarrow> st' = st \<or> rally_step st st'"
  unfolding mcpToolCall_def Let_def
  by (auto split: sum.splits if_splits prod.splits mcp_join.splits
      dest: tool_create_step tool_done_step tool_interrupt_step tool_join_step)

lemma dispatch_step: "dispatchMCP cfg now rnd req st = (a, st') \<Longrightarrow> st' = st \<or> rally_step st st'"
  by (auto simp: dispatchMCP_def split: if_splits dest: tool_call_step)

lemma mcp_step_rally: "mcp_step cfg sv sv' \<Longrightarrow> ms_rallies sv' = ms_rallies sv \<or> rally_step (ms_rallies sv) (ms_rallies sv')"
proof (elim mcp_stepE)
  fix now rnd sid body r
  assume "handleMCPMessage cfg now rnd sid body sv = (r, sv')"
  then show ?thesis
    by (auto simp: handleMCPMessage_def split: if_splits option.splits sum.splits prod.splits mcp_answer.splits dest: dispatch_step)
next
  fix w i
  assume "mcp_wakes cfg w i sv = sv'"
  then show ?thesis
    by (auto simp: mcp_wakes_def Let_def split: if_splits prod.splits dest: join_ends_step)
qed (auto simp: handleMCPSSE_def mcp_create_def mcp_remove_def mcp_get_def sse_round_def mcp_send_def Let_def
    split: if_splits option.splits sse_wake.splits list.splits prod.splits)

subsection \<open>Runs\<close>

definition mcp_ok :: "mcp_server \<Rightarrow> bool" where
  "mcp_ok sv \<longleftrightarrow> wf_store (ms_rallies sv) \<and> (\<forall>c. length (ms_respCh sv c) \<le> 16)"

lemma mcp_step_channels: "mcp_step cfg sv sv' \<Longrightarrow> length (ms_respCh sv c) \<le> 16 \<Longrightarrow> length (ms_respCh sv' c) \<le> 16"
  by (elim mcp_stepE)
     (auto simp: handleMCPSSE_def mcp_create_def mcp_remove_def mcp_get_def sse_round_def handleMCPMessage_def mcp_wakes_def
       mcp_send_def Let_def split: if_splits option.splits sse_wake.splits list.splits prod.splits sum.splits mcp_answer.splits)

lemma mcp_step_ok: "mcp_ok sv \<Longrightarrow> mcp_step cfg sv sv' \<Longrightarrow> mcp_ok sv'"
  using mcp_step_rally rally.inv_step mcp_step_channels unfolding mcp_ok_def by metis

interpretation mcp: transition_system "\<lambda>sv. sv = newMCPTransportManager" "mcp_step cfg" mcp_ok for cfg
proof unfold_locales
  show "sv = newMCPTransportManager \<Longrightarrow> mcp_ok sv" for sv
    by (simp add: mcp_ok_def newMCPTransportManager_def newRallyStore_def wf_store_def)
qed (rule mcp_step_ok)

text \<open>
  (C12) MCP adds nothing to what can happen to the rallies. A run of MCP clients and HTTP clients
  is, on the rally store, a run of rally steps, so whatever rally steps keep from the empty
  store holds in it; and no transport ever holds more than 16 responses.
\<close>

theorem mcp_runs_are_rally_runs:
  assumes "(mcp_step cfg)\<^sup>*\<^sup>* newMCPTransportManager sv"
  shows "rally_step\<^sup>*\<^sup>* newRallyStore (ms_rallies sv) \<and> length (ms_respCh sv c) \<le> 16"
proof -
  have "rally_step\<^sup>*\<^sup>* (ms_rallies newMCPTransportManager) (ms_rallies sv)"
    using assms
  proof (induction rule: rtranclp_induct)
    case (step sv1 sv2)
    from mcp_step_rally [OF step(2)] step(3) show ?case by (auto intro: rtranclp.rtrancl_into_rtrancl)
  qed simp
  moreover have "mcp_ok sv" by (rule mcp.reachable_inv [OF _ assms]) simp
  ultimately show ?thesis by (simp add: newMCPTransportManager_def mcp_ok_def)
qed

subsection \<open>Timeouts\<close>

text \<open>
  A join waits between one nanosecond and five minutes, and a request for up to five
  minutes gets what it asks for. The cap is computed after a 64-bit product, so a request
  for some hundreds of years wraps around and gets the default of thirty seconds.
\<close>

theorem join_timeout_bounds:
  "0 < join_timeout ms \<and> join_timeout ms \<le> 300 * 10 ^ 9 \<and>
   (1 \<le> ms \<and> ms \<le> 300000 \<longrightarrow> join_timeout ms = ms * 10 ^ 6) \<and> join_timeout (10 ^ 13) = 30 * 10 ^ 9"
proof -
  have "i64 (ms * 1000000) = ms * 1000000" if "1 \<le> ms" "ms \<le> 300000"
    by (rule i64_id) (use that in \<open>simp add: in_i64_def\<close>)
  moreover have "i64 (10 ^ 13 * 1000000) = 10 ^ 19 - 2 ^ 64" by (simp add: i64_def)
  ultimately show ?thesis by (auto simp: join_timeout_def Let_def)
qed

theorem join_timeout_bounds_witness: "join_timeout 1500 = 1500 * 10 ^ 6"
  using join_timeout_bounds [of 1500] by simp

subsection \<open>Batons and timeouts\<close>

text \<open>The event that a holder who joins is given.\<close>

definition due_event :: "rallySession \<Rightarrow> BatonEvent" where
  "due_event sess =
     (let h = rs_history sess in
      \<lparr>be_TurnN = rs_turnN sess, be_From = (if h = [] then [] else bh_From (last h)),
       be_Note = (if h = [] then [] else bh_Note (last h)), be_Closed = False\<rparr>)"

text \<open>A buffered event of the current turn is the holder's, and is the event that is due.\<close>

definition buffers_due :: "rallySession \<Rightarrow> bool" where
  "buffers_due sess \<longleftrightarrow>
     (\<forall>p evt. rs_streams sess p = Some (Some evt) \<longrightarrow> be_TurnN evt = rs_turnN sess \<longrightarrow>
        rs_status sess = RallyTurnState p \<and> evt = due_event sess)"

definition store_due :: "rallyStore \<Rightarrow> bool" where
  "store_due st \<longleftrightarrow> (\<forall>sid sess. st sid = Some sess \<longrightarrow> buffers_due sess)"

lemma store_due_upd: "store_due st \<Longrightarrow> buffers_due sess \<Longrightarrow> store_due (st(sid \<mapsto> sess))"
  by (auto simp: store_due_def)

lemma due_join: "wf_session sess \<Longrightarrow> buffers_due sess \<Longrightarrow> buffers_due (join_session now as sess)"
proof -
  assume wf: "wf_session sess" and due: "buffers_due sess"
  have idle: "rs_turnN sess = 0 \<and> rs_history sess = []" if "rs_status sess = RallyStateIdle"
    using wf that by (auto simp: wf_session_def status_ok_def history_ok_def Let_def)
  have old: "be_TurnN evt \<le> rs_turnN sess" if "rs_streams sess p = Some (Some evt)" for p evt
    using wf that by (auto simp: wf_session_def streams_ok_def)
  have "be_TurnN evt \<noteq> rs_turnN sess + 1" if "rs_streams sess p = Some (Some evt)" for p evt
    using old [OF that] by simp
  note later = this
  let ?s = "sess\<lparr>rs_lastSeen := (rs_lastSeen sess)(as \<mapsto> now)\<rparr>"
  consider "rs_status sess = RallyStateIdle" "rs_participants sess ! 0 = as"
    | "rs_status sess = RallyTurnState as"
    | "\<not> (rs_status sess = RallyStateIdle \<and> rs_participants sess ! 0 = as)" "rs_status sess \<noteq> RallyTurnState as"
    by blast
  then show ?thesis
  proof cases
    case 1
    with idle later show ?thesis by (simp add: join_session_def buffers_due_def due_event_def)
  next
    case 2
    have "join_session now as sess = ?s\<lparr>rs_streams := (rs_streams sess)(as \<mapsto> Some (due_event sess))\<rparr>"
      using 2 by (simp add: join_session_def due_event_def Let_def)
    then show ?thesis using due 2 by (simp add: buffers_due_def due_event_def)
  next
    case 3
    then have "join_session now as sess = ?s\<lparr>rs_streams := (rs_streams sess)(as \<mapsto> None)\<rparr>"
      by (auto simp: join_session_def Let_def)
    then show ?thesis using due by (simp add: buffers_due_def due_event_def)
  qed
qed

lemma due_pass: "wf_session sess \<Longrightarrow> buffers_due (pass_baton now as nxt note sess)"
proof -
  assume wf: "wf_session sess"
  have "be_TurnN evt \<noteq> rs_turnN sess + 1" if "rs_streams sess p = Some (Some evt)" for p evt
    using wf that by (force simp: wf_session_def streams_ok_def)
  then show ?thesis
    by (auto simp: pass_baton_def buffers_due_def due_event_def try_send_def Let_def split: if_splits option.splits)
qed

lemma due_streams: "buffers_due sess \<Longrightarrow> (\<And>p evt. f p = Some (Some evt) \<Longrightarrow> rs_streams sess p = Some (Some evt)) \<Longrightarrow>
   buffers_due (sess\<lparr>rs_streams := f\<rparr>)"
  by (auto simp: buffers_due_def due_event_def)

lemma due_other: "buffers_due (sess\<lparr>rs_lastSeen := g\<rparr>) = buffers_due sess" "buffers_due (sess\<lparr>rs_staleThreshold := n\<rparr>) = buffers_due sess"
  by (auto simp: buffers_due_def due_event_def)

lemma due_cleanup: "store_due st \<Longrightarrow> store_due (cleanupStream sid p st)"
proof (cases "st sid")
  case (Some sess)
  assume due: "store_due st"
  with Some have "buffers_due sess" by (simp add: store_due_def)
  then have "buffers_due (sess\<lparr>rs_streams := (rs_streams sess)(p := None)\<rparr>)"
    by (rule due_streams) (simp split: if_splits)
  with Some store_due_upd [OF due this] show ?thesis by (simp add: cleanupStream_def)
qed (simp add: cleanupStream_def)

lemma due_interrupt: "buffers_due sess \<Longrightarrow> buffers_due (fst (interrupt_session sess))"
  by (auto simp: interrupt_session_def buffers_due_def)

lemma due_exec:
  assumes wf: "wf_store st" and due: "store_due st"
  shows "store_due (rally_exec op st)"
proof -
  have sess: "wf_session sess" "buffers_due sess" if "st sid = Some sess" for sid sess
    using that wf due by (simp_all add: wf_store_def store_due_def)
  show ?thesis
  proof (cases op)
    case (OpCreate now rnd ct body)
    have "buffers_due (new_session now sid names f req)" for sid names f req
      by (simp add: new_session_def buffers_due_def Let_def)
    then have "store_due (snd (createRallySession now rnd req st))" for req
      using due by (auto simp: createRallySession_def Let_def intro!: store_due_upd split: sum.split option.split)
    with OpCreate due show ?thesis by (simp add: handleRallyCreate_store)
  next
    case (OpJoin now flush_ok rawID asRaw)
    then show ?thesis using due
      by (auto simp: handleRallyBaton_def Let_def intro!: store_due_upd due_join dest: sess split: sum.split option.split)
  next
    case (OpDone now ct rawID asRaw body)
    have "store_due (snd (advanceRallyBaton now x as req st))" for x as req
      using due by (auto simp: advanceRallyBaton_def Let_def intro!: store_due_upd due_pass dest: sess split: sum.split option.split)
    with OpDone due show ?thesis by (simp add: handleRallyDone_store)
  next
    case (OpDeliver w x as)
    have "store_due (st(x \<mapsto> s\<lparr>rs_streams := (rs_streams s)(as \<mapsto> None)\<rparr>))" if "st x = Some s" for s
      using that sess(2) by (intro store_due_upd [OF due] due_streams) (auto split: if_splits)
    with OpDeliver due show ?thesis by (auto simp: stream_deliver_def Let_def due_cleanup split: option.split)
  next
    case (OpHeartbeat now w x as)
    with due sess(2) show ?thesis
      by (auto simp: stream_heartbeat_def due_cleanup due_other intro!: store_due_upd split: option.split)
  next
    case (OpStaleThreshold x ms)
    with due sess(2) show ?thesis
      by (auto simp: setRallyStaleThreshold_def due_other intro!: store_due_upd split: option.split)
  next
    case (OpDisconnect x p)
    with due show ?thesis by (simp add: due_cleanup)
  next
    case (OpInterrupt x)
    have "buffers_due (fst (interrupt_session s))" if "st x = Some s" for s
      by (rule due_interrupt [OF sess(2) [OF that]])
    with OpInterrupt due show ?thesis
      by (auto simp: interruptRallySession_def Let_def intro!: store_due_upd split: option.split)
  next
    case OpCloseAll
    have "buffers_due (fst (interrupt_session s))" if "st x = Some s" for s x
      by (rule due_interrupt [OF sess(2) [OF that]])
    with OpCloseAll show ?thesis by (auto simp: CloseAllRallies_def store_due_def)
  qed
qed

lemma reachable_due: "rally_step\<^sup>*\<^sup>* newRallyStore st \<Longrightarrow> wf_store st \<and> store_due st"
proof (induction rule: rtranclp_induct)
  case base
  show ?case by (simp add: newRallyStore_def wf_store_def store_due_def)
next
  case (step st1 st2)
  then show ?case by (auto elim!: rally_stepE intro: wf_exec due_exec simp del: rally_exec.simps)
qed

text \<open>
  (C13) No baton is lost to a timeout. When a wait ends by the clock or by the client while the
  event of the current turn is in the channel, that event is dropped; the participant's next
  join finds it due and is woken with the very same event.
\<close>

theorem dropped_baton_redelivered:
  assumes "rally_step\<^sup>*\<^sup>* newRallyStore st" and "NewSessionID sid = Inr sid" and "st sid = Some sess"
    and "rs_streams sess as = Some (Some evt)" and "be_TurnN evt = rs_turnN sess"
    and "w = WakeTimer \<or> w = WakeCtx"
  shows "\<exists>st2. mcpToolRallyJoin now (Inr \<lparr>ja_SessionID = sid, ja_As = as, ja_TimeoutMS = ms\<rparr>) (snd (join_ends w sid as st)) =
      (JoinWaits sid as (join_timeout ms), st2) \<and> can_wake held st2 sid as (WakeEvent (Some evt))"
proof -
  from reachable_due [OF assms(1)] assms(3) have wf: "wf_session sess" and due: "buffers_due sess"
    by (auto simp: wf_store_def store_due_def)
  have as: "as \<in> set (rs_participants sess)" "valid_name as"
    using wf assms(4) by (auto simp: wf_session_def streams_ok_def list_all_iff)
  have turn: "rs_status sess = RallyTurnState as" "evt = due_event sess"
    using due assms(4,5) by (auto simp: buffers_due_def)
  let ?s = "sess\<lparr>rs_streams := (rs_streams sess)(as := None)\<rparr>"
  have st1: "snd (join_ends w sid as st) = st(sid \<mapsto> ?s)"
    using assms(3,6) by (auto simp: join_ends_def cleanupStream_def)
  have "rs_streams (join_session now as ?s) as = Some (Some evt)"
    using turn by (simp add: join_session_def due_event_def Let_def)
  then show ?thesis
    using assms(2) as turn(1)
    by (simp add: st1 mcpToolRallyJoin_def NewParticipantName_if mcp_register can_wake_def)
qed

subsection \<open>Witnesses\<close>

definition demo_new :: NewRallyRequest where
  "demo_new = \<lparr>nr_Participants = [''alice'', ''bob''], nr_Repo = [], nr_Task = [], nr_FirstHolder = []\<rparr>"

definition demo_call :: MCPJSONRPCRequest where
  "demo_call = \<lparr>mq_ID = JInt 1, mq_Method = ''tools/call'',
     mq_Params = Inr \<lparr>tc_Name = ''rally_create'', tc_Create = Inr demo_new, tc_Join = Inl [], tc_Done = Inl [], tc_Status = Inl [],
       tc_Interrupt = Inl []\<rparr>\<rparr>"

definition demo_mcp :: mcp_config where
  "demo_mcp = \<lparr>mg_marshal = (\<lambda>v. Inr ''{}''), mg_errText = (\<lambda>e. ''error''), mg_version = ''1''\<rparr>"

text \<open>A client opens a stream, creates a rally, and its answer is sent.\<close>

definition demo_opened :: mcp_server where
  "demo_opened = snd (handleMCPSSE 1 (Some [CHR 0x0A]) True True newMCPTransportManager)"

definition demo_asked :: mcp_server where
  "demo_asked = snd (handleMCPMessage demo_mcp 5 (Some [CHR 0x0A, CHR 0x0B]) ''mcpts_0a'' (Some (Inr demo_call)) demo_opened)"

definition demo_answered :: mcp_server where
  "demo_answered = snd (mcp_send 0 demo_asked)"

theorem mcp_runs_are_rally_runs_witness:
  "rally_step\<^sup>*\<^sup>* newRallyStore (ms_rallies demo_answered) \<and> length (ms_respCh demo_answered 0) = 1 \<and>
   ms_rallies demo_answered ''rly_5_0a0b'' \<noteq> None"
proof -
  have "(mcp_step demo_mcp)\<^sup>*\<^sup>* newMCPTransportManager demo_answered"
    unfolding demo_answered_def demo_asked_def demo_opened_def
    by (intro rtranclp.rtrancl_into_rtrancl [OF rtranclp.rtrancl_into_rtrancl [OF rtranclp.rtrancl_into_rtrancl [OF rtranclp.rtrancl_refl]]])
       (rule mcp_step.Open mcp_step.Message mcp_step.Sends, rule prod.collapse [symmetric])+
  from mcp_runs_are_rally_runs [OF this, of 0]
  have "rally_step\<^sup>*\<^sup>* newRallyStore (ms_rallies demo_answered)" by blast
  moreover have "length (ms_respCh demo_answered 0) = 1" by code_simp
  moreover have "map_option rs_turnN (ms_rallies demo_answered ''rly_5_0a0b'') = Some 0" by code_simp
  ultimately show ?thesis by auto
qed

theorem dropped_baton_redelivered_witness:
  "let st = fold rally_exec [OpCreate 5 (Some [CHR 0x0A, CHR 0x0B]) ''application/json'' (Some demo_new),
       OpJoin 6 True ''rly_5_0a0b'' ''alice''] newRallyStore;
     evt = \<lparr>be_TurnN = 1, be_From = [], be_Note = [], be_Closed = False\<rparr>
   in \<exists>st2. mcpToolRallyJoin 9 (Inr \<lparr>ja_SessionID = ''rly_5_0a0b'', ja_As = ''alice'', ja_TimeoutMS = 50\<rparr>)
        (snd (join_ends WakeTimer ''rly_5_0a0b'' ''alice'' st)) = (JoinWaits ''rly_5_0a0b'' ''alice'' (join_timeout 50), st2) \<and>
      can_wake None st2 ''rly_5_0a0b'' ''alice'' (WakeEvent (Some evt))"
proof -
  define st where "st = fold rally_exec [OpCreate 5 (Some [CHR 0x0A, CHR 0x0B]) ''application/json'' (Some demo_new),
       OpJoin 6 True ''rly_5_0a0b'' ''alice''] newRallyStore"
  let ?evt = "\<lparr>be_TurnN = 1, be_From = [], be_Note = [], be_Closed = False\<rparr>"
  have run: "rally_step\<^sup>*\<^sup>* newRallyStore st"
    unfolding st_def by (simp del: rally_exec.simps) (meson rally_op rtranclp.rtrancl_into_rtrancl rtranclp.rtrancl_refl)
  have "map_option (\<lambda>s. (rs_streams s ''alice'', rs_turnN s)) (st ''rly_5_0a0b'') = Some (Some (Some ?evt), 1)"
    unfolding st_def demo_new_def by code_simp
  then obtain sess where s: "st ''rly_5_0a0b'' = Some sess" "rs_streams sess ''alice'' = Some (Some ?evt)" "be_TurnN ?evt = rs_turnN sess"
    by auto
  have "NewSessionID ''rly_5_0a0b'' = Inr ''rly_5_0a0b''" by code_simp
  from dropped_baton_redelivered [OF run this s, of WakeTimer] show ?thesis
    unfolding Let_def st_def [symmetric] by blast
qed

end
