(* ===== verification/CycleVerify.thy ===== *)
theory CycleVerify
  imports Merkle
begin

section \<open>The ledger audit (internal/cli/cycle_verify.go)\<close>

text \<open>
  \<^verbatim>\<open>rallish cycle verify\<close>: the hash chain, the Merkle tree head and the proofs it makes and
  checks over the entries the daemon returned. The printed lines are the constructors of
  \<open>verify_line\<close>, with the values they show. The theory shows what a passing audit means:
  the proofs are made from the entries they are checked against, so they always verify, and
  the verdict is the chain's and the ranges'.
\<close>

record cycleVerifyOptions =
  cv_inclusion :: int
  cv_consistency :: int

text \<open>\<open>n singular\<close> or \<open>n plural\<close>.\<close>

definition count_noun :: "int \<Rightarrow> string \<Rightarrow> string \<Rightarrow> string" where
  "count_noun n singular plural = show_int n @ '' '' @ (if n = 1 then singular else plural)"

datatype verify_line =
    Entries string
  | ChainIntact
  | ChainTampered int
  | MerkleHead string
  | InclusionError int merkle_error
  | InclusionCommitted int string
  | InclusionUnverified int
  | ConsistencyExceeds int nat
  | ConsistencyError merkle_error
  | ConsistencyPrefix int
  | ConsistencyUnverified

text \<open>The two optional proofs: the line and whether the audit fails.\<close>

definition audit_inclusion :: "HarnessLedgerEntry list \<Rightarrow> int \<Rightarrow> string \<Rightarrow> verify_line \<times> bool" where
  "audit_inclusion entries i root =
     (case InclusionProof entries i of
        Inl e \<Rightarrow> (InclusionError i e, True)
      | Inr proof \<Rightarrow>
          if VerifyInclusion (entries ! nat i) proof root
          then (InclusionCommitted i (count_noun (int (length (mip_AuditPath proof))) ''node'' ''nodes''), False)
          else (InclusionUnverified i, True))"

definition audit_consistency :: "HarnessLedgerEntry list \<Rightarrow> int \<Rightarrow> string \<Rightarrow> verify_line \<times> bool" where
  "audit_consistency entries m root =
     (let n = length entries;
          oldRoot = (if m \<le> int n then MerkleRoot (take (nat m) entries) else [])
      in if m > int n then (ConsistencyExceeds m n, True)
         else case ConsistencyProof m entries of
           Inl e \<Rightarrow> (ConsistencyError e, True)
         | Inr proof \<Rightarrow>
             if VerifyConsistency proof oldRoot root then (ConsistencyPrefix m, False) else (ConsistencyUnverified, True))"

text \<open>What is printed, and whether the command fails with a \<^verbatim>\<open>verifyFailedError\<close>.\<close>

definition verifyLedgerEntries :: "HarnessLedgerEntry list \<Rightarrow> cycleVerifyOptions \<Rightarrow> verify_line list \<times> bool" where
  "verifyLedgerEntries entries opts =
     (let (brokenIndex, ok) = VerifyChain entries;
          chain = (if ok then (ChainIntact, False) else (ChainTampered brokenIndex, True));
          root = MerkleRoot entries;
          incl = (if cv_inclusion opts \<ge> 0 then [audit_inclusion entries (cv_inclusion opts) root] else []);
          cons = (if cv_consistency opts \<ge> 0 then [audit_consistency entries (cv_consistency opts) root] else [])
      in ([Entries (count_noun (int (length entries)) ''ledger entry'' ''ledger entries''), fst chain, MerkleHead root] @
          map fst incl @ map fst cons,
          snd chain \<or> list_ex snd incl \<or> list_ex snd cons))"

text \<open>The exit code of the command; \<open>None\<close> when the entries could not be read.\<close>

definition verify_exit_code :: "HarnessLedgerEntry list option \<Rightarrow> cycleVerifyOptions \<Rightarrow> nat" where
  "verify_exit_code entries opts =
     (case entries of None \<Rightarrow> 1 | Some es \<Rightarrow> if snd (verifyLedgerEntries es opts) then 15 else 0)"

subsection \<open>What the audit shows\<close>

lemma audit_inclusion_fails: "0 \<le> i \<Longrightarrow> snd (audit_inclusion es i (MerkleRoot es)) \<longleftrightarrow> int (length es) \<le> i"
proof (cases "i < int (length es)")
  case True
  assume "0 \<le> i"
  with True InclusionProof_accepted [of i es] show ?thesis by (auto simp: audit_inclusion_def)
next
  case False
  then show ?thesis by (auto simp: audit_inclusion_def InclusionProof_def Let_def)
qed

lemma audit_consistency_fails: "0 \<le> m \<Longrightarrow> snd (audit_consistency es m (MerkleRoot es)) \<longleftrightarrow> int (length es) < m"
  using ConsistencyProof_verifies [of m es] by (auto simp: audit_consistency_def Let_def)

text \<open>
  (C5) What a passing audit says. The command fails exactly when the chain does not verify, or
  the index to prove is not below the number of entries, or the prefix is longer than the log:
  the proofs themselves never fail, as they are checked against the very entries they were
  made from.
\<close>

theorem audit_fails_iff:
  "snd (verifyLedgerEntries es opts) \<longleftrightarrow>
     \<not> snd (VerifyChain es) \<or> int (length es) \<le> cv_inclusion opts \<or> int (length es) < cv_consistency opts"
  using audit_inclusion_fails [of "cv_inclusion opts" es] audit_consistency_fails [of "cv_consistency opts" es]
  by (auto simp: verifyLedgerEntries_def Let_def split: prod.split)

text \<open>One entry, appended to the empty log, and an edit of it.\<close>

definition audited :: HarnessLedgerEntry where
  "audited = link_entry LedgerGenesisHash (NewHarnessLedgerEntry 1 ''c1'' LedgerEventCycleCreated ''created'' [])"

theorem audit_fails_iff_witness:
  "\<not> snd (verifyLedgerEntries [audited] \<lparr>cv_inclusion = 0, cv_consistency = 1\<rparr>) \<and>
   snd (verifyLedgerEntries [audited\<lparr>le_PrevHash := ''0''\<rparr>] \<lparr>cv_inclusion = 0, cv_consistency = 1\<rparr>)"
proof -
  have "chain_intact [audited]"
    using chain_intact_prefix [of "[audited]", unfolded append_Cons append_Nil] linked_pair_intact
    by (auto simp: audited_def)
  then have "snd (VerifyChain [audited])" by simp
  moreover have "\<not> snd (VerifyChain [audited\<lparr>le_PrevHash := ''0''\<rparr>])" by (simp add: VerifyChain_def LedgerGenesisHash_def)
  ultimately show ?thesis
    using audit_fails_iff [of "[audited]"] audit_fails_iff [of "[audited\<lparr>le_PrevHash := ''0''\<rparr>]"] by simp
qed

end
