(* ===== verification/AgentCard.thy ===== *)
theory AgentCard
  imports Ledger
begin

section \<open>The agent card and its signature (pkg/contract/agent_card_sign.go, pkg/contract/a2a.go)\<close>

text \<open>
  The discovery document the broker publishes and its embedded signature. The canonical bytes
  are the JSON of the card without its signature; the ed25519 functions are arguments, as
  is standard, and base64 is executable. A slice is a list: a nil slice, which prints as
  \<^verbatim>\<open>null\<close>, is not told from an empty one. The theory shows that a signed card verifies, that
  signing is idempotent on what it signs, and that a card changed after signing is refused.
\<close>

subsection \<open>encoding/base64\<close>

definition b64_alphabet :: string where
  "b64_alphabet = ''ABCDEFGHIJKLMNOPQRSTUVWXYZabcdefghijklmnopqrstuvwxyz0123456789+/''"

definition b64_char :: "nat \<Rightarrow> char" where
  "b64_char n = b64_alphabet ! n"

definition b64_value :: "char \<Rightarrow> nat option" where
  "b64_value = map_of (zip b64_alphabet [0..<64])"

abbreviation b64_pad :: char where "b64_pad \<equiv> CHR ''=''"

fun b64_encode :: "bytes \<Rightarrow> string" where
  "b64_encode [] = []"
| "b64_encode [a] = (let x = (of_char a :: nat) in [b64_char (x div 4), b64_char (x mod 4 * 16), b64_pad, b64_pad])"
| "b64_encode [a, b] =
     (let x = (of_char a :: nat); y = (of_char b :: nat)
      in [b64_char (x div 4), b64_char (x mod 4 * 16 + y div 16), b64_char (y mod 16 * 4), b64_pad])"
| "b64_encode (a # b # c # r) =
     (let x = (of_char a :: nat); y = (of_char b :: nat); z = (of_char c :: nat)
      in b64_char (x div 4) # b64_char (x mod 4 * 16 + y div 16) # b64_char (y mod 16 * 4 + z div 64) #
         b64_char (z mod 64) # b64_encode r)"

text \<open>The quanta of the decoder; line breaks are skipped wherever they stand.\<close>

fun b64_quanta :: "string \<Rightarrow> bytes option" where
  "b64_quanta [] = Some []"
| "b64_quanta (w # x # y # z # r) =
     (case (b64_value w, b64_value x) of
        (Some i, Some j) \<Rightarrow>
          if y = b64_pad then (if z = b64_pad \<and> r = [] then Some [char_of (i * 4 + j div 16)] else None)
          else
            (case b64_value y of
               None \<Rightarrow> None
             | Some k \<Rightarrow>
                 if z = b64_pad
                 then (if r = [] then Some [char_of (i * 4 + j div 16), char_of (j mod 16 * 16 + k div 4)] else None)
                 else
                   (case b64_value z of
                      None \<Rightarrow> None
                    | Some l \<Rightarrow>
                        map_option (\<lambda>bs'. char_of (i * 4 + j div 16) # char_of (j mod 16 * 16 + k div 4) #
                          char_of (k mod 4 * 64 + l) # bs') (b64_quanta r)))
      | _ \<Rightarrow> None)"
| "b64_quanta _ = None"

definition b64_decode :: "string \<Rightarrow> bytes option" where
  "b64_decode s = b64_quanta (filter (\<lambda>c. c \<noteq> CHR 0x0A \<and> c \<noteq> CHR 0x0D) s)"

subsection \<open>The card\<close>

record AgentCapability =
  cap_Streaming :: bool
  cap_PushNotifications :: bool
  cap_StateTransitionHistory :: bool

record AgentSkill =
  sk_ID :: string
  sk_Name :: string
  sk_Description :: string
  sk_Tags :: "string list"
  sk_Examples :: "string list"

record AgentCardSignature =
  sg_Algorithm :: string
  sg_PublicKey :: string
  sg_Signature :: string

record AgentCard =
  card_ProtocolVersion :: string
  card_Name :: string
  card_Description :: string
  card_Version :: string
  card_URL :: string
  card_DocumentationURL :: string
  card_Capabilities :: AgentCapability
  card_Skills :: "AgentSkill list"
  card_DefaultInputModes :: "string list"
  card_DefaultOutputModes :: "string list"
  card_Signature :: "AgentCardSignature option"

text \<open>What \<^verbatim>\<open>handleAgentCard\<close> publishes (internal/broker/a2a.go).\<close>

definition handleAgentCard :: "string \<Rightarrow> string \<Rightarrow> AgentCard" where
  "handleAgentCard version host =
     \<lparr>card_ProtocolVersion = ''1.0'', card_Name = ''rallish'',
      card_Description = ''A local broker for multi-agent turn-taking'', card_Version = version,
      card_URL = ''http://'' @ host, card_DocumentationURL = ''https://github.com/jazz1x/rallish'',
      card_Capabilities = \<lparr>cap_Streaming = True, cap_PushNotifications = False, cap_StateTransitionHistory = False\<rparr>,
      card_Skills =
        [\<lparr>sk_ID = ''pair-review'', sk_Name = ''Pair Review'',
          sk_Description = ''Planner / executor / reviewer turn-taking with structured output'',
          sk_Tags = [''turn-taking'', ''review'', ''code''], sk_Examples = []\<rparr>,
         \<lparr>sk_ID = ''solo-ralph'', sk_Name = ''Solo Ralph'',
          sk_Description = ''Single-agent execution with budget and exit guardrails'',
          sk_Tags = [''solo'', ''budget'', ''execution''], sk_Examples = []\<rparr>],
      card_DefaultInputModes = [''text/plain'', ''application/json''],
      card_DefaultOutputModes = [''text/plain'', ''application/json''], card_Signature = None\<rparr>"

definition json_strings :: "string list \<Rightarrow> json" where
  "json_strings xs = JArr (map JStr xs)"

definition AgentSkill_json :: "AgentSkill \<Rightarrow> json" where
  "AgentSkill_json s =
     JObj ([(''id'', JStr (sk_ID s)), (''name'', JStr (sk_Name s)), (''description'', JStr (sk_Description s))] @
       omit_arr ''tags'' (map JStr (sk_Tags s)) @ omit_arr ''examples'' (map JStr (sk_Examples s)))"

definition AgentCapability_json :: "AgentCapability \<Rightarrow> json" where
  "AgentCapability_json c =
     JObj [(''streaming'', JBool (cap_Streaming c)), (''pushNotifications'', JBool (cap_PushNotifications c)),
       (''stateTransitionHistory'', JBool (cap_StateTransitionHistory c))]"

definition AgentCardSignature_json :: "AgentCardSignature \<Rightarrow> json" where
  "AgentCardSignature_json s =
     JObj [(''algorithm'', JStr (sg_Algorithm s)), (''publicKey'', JStr (sg_PublicKey s)), (''signature'', JStr (sg_Signature s))]"

definition AgentCard_json :: "AgentCard \<Rightarrow> json" where
  "AgentCard_json c =
     JObj ([(''protocolVersion'', JStr (card_ProtocolVersion c)), (''name'', JStr (card_Name c)),
        (''description'', JStr (card_Description c)), (''version'', JStr (card_Version c)), (''url'', JStr (card_URL c))] @
       omit_str ''documentationUrl'' (card_DocumentationURL c) @
       [(''capabilities'', AgentCapability_json (card_Capabilities c)),
        (''skills'', JArr (map AgentSkill_json (card_Skills c))),
        (''defaultInputModes'', json_strings (card_DefaultInputModes c)),
        (''defaultOutputModes'', json_strings (card_DefaultOutputModes c))] @
       omit_opt ''signature'' (map_option AgentCardSignature_json (card_Signature c)))"

definition canonicalAgentCardBytes :: "AgentCard \<Rightarrow> bytes" where
  "canonicalAgentCardBytes c = jprint (AgentCard_json (c\<lparr>card_Signature := None\<rparr>))"

subsection \<open>Signing and verifying\<close>

datatype card_error =
    ErrUnsignedCard
  | ErrBadSignatureAlgorithm
  | ErrMalformedSignature
  | ErrSignatureMismatch

abbreviation SignatureAlgorithm where "SignatureAlgorithm \<equiv> ''EdDSA''"

text \<open>\<open>pub\<close> is the public half of a private key, \<open>sign\<close> and \<open>vf\<close> are ed25519's.\<close>

definition SignAgentCard ::
  "(bytes \<Rightarrow> bytes) \<Rightarrow> (bytes \<Rightarrow> bytes \<Rightarrow> bytes) \<Rightarrow> AgentCard \<Rightarrow> bytes \<Rightarrow> card_error + AgentCard" where
  "SignAgentCard pub sign c priv =
     (if length priv \<noteq> 64 then Inl ErrMalformedSignature
      else
        let sig = sign priv (canonicalAgentCardBytes c)
        in Inr (c\<lparr>card_Signature :=
             Some \<lparr>sg_Algorithm = SignatureAlgorithm, sg_PublicKey = b64_encode (pub priv), sg_Signature = b64_encode sig\<rparr>\<rparr>))"

definition VerifyAgentCard :: "(bytes \<Rightarrow> bytes \<Rightarrow> bytes \<Rightarrow> bool) \<Rightarrow> AgentCard \<Rightarrow> card_error option" where
  "VerifyAgentCard vf c =
     (case card_Signature c of
        None \<Rightarrow> Some ErrUnsignedCard
      | Some s \<Rightarrow>
          if sg_Algorithm s \<noteq> SignatureAlgorithm then Some ErrBadSignatureAlgorithm
          else case b64_decode (sg_PublicKey s) of
            None \<Rightarrow> Some ErrMalformedSignature
          | Some pubBytes \<Rightarrow>
              if length pubBytes \<noteq> 32 then Some ErrMalformedSignature
              else case b64_decode (sg_Signature s) of
                None \<Rightarrow> Some ErrMalformedSignature
              | Some sigBytes \<Rightarrow>
                  if \<not> vf pubBytes (canonicalAgentCardBytes c) sigBytes then Some ErrSignatureMismatch else None)"

subsection \<open>Facts about base64\<close>

lemma b64_alphabet: "length b64_alphabet = 64" "distinct b64_alphabet"
  by (simp_all add: b64_alphabet_def)

lemma b64_value_char: "n < 64 \<Longrightarrow> b64_value (b64_char n) = Some n"
  using map_of_zip_nth [of b64_alphabet "[0..<64]" n] b64_alphabet by (simp add: b64_value_def b64_char_def)

lemma b64_char_plain: "n < 64 \<Longrightarrow> b64_char n \<noteq> b64_pad \<and> b64_char n \<noteq> CHR 0x0A \<and> b64_char n \<noteq> CHR 0x0D"
proof -
  assume n: "n < 64"
  have "b64_char n \<in> set b64_alphabet" using n b64_alphabet(1) by (simp add: b64_char_def)
  moreover have "\<forall>c\<in>set b64_alphabet. c \<noteq> b64_pad \<and> c \<noteq> CHR 0x0A \<and> c \<noteq> CHR 0x0D" by (simp add: b64_alphabet_def)
  ultimately show ?thesis by blast
qed

lemma byte_lt: "(of_char c :: nat) < 256"
proof -
  have "(of_char c :: nat) = of_char c mod 256" using of_char_of [of "of_char c :: nat"] by simp
  also have "\<dots> < 256" by simp
  finally show ?thesis .
qed

lemma quantum:
  fixes x y z :: nat
  assumes "x < 256" "y < 256" "z < 256"
  shows "x div 4 < 64" "x mod 4 * 16 < 64" "x mod 4 * 16 + y div 16 < 64" "y mod 16 * 4 < 64" "y mod 16 * 4 + z div 64 < 64"
    "y div 16 div 16 = 0" "y div 16 mod 16 = y div 16" "z div 64 div 4 = 0" "z div 64 mod 4 = z div 64"
proof -
  have d: "x div 4 < 64" "y div 16 < 16" "z div 64 < 4"
    using assms by (simp_all add: less_mult_imp_div_less)
  have m: "x mod 4 < 4" "y mod 16 < 16" by simp_all
  show "x div 4 < 64" "x mod 4 * 16 < 64" "x mod 4 * 16 + y div 16 < 64" "y mod 16 * 4 < 64" "y mod 16 * 4 + z div 64 < 64"
    using d m by linarith+
  show "y div 16 div 16 = 0" "y div 16 mod 16 = y div 16" "z div 64 div 4 = 0" "z div 64 mod 4 = z div 64"
    using d by simp_all
qed

lemmas quantum_bytes = quantum [OF byte_lt byte_lt byte_lt]

lemma b64_char_simps [simp]:
  "n < 64 \<Longrightarrow> b64_value (b64_char n) = Some n" "n < 64 \<Longrightarrow> b64_char n \<noteq> b64_pad"
  "n < 64 \<Longrightarrow> b64_char n \<noteq> CHR 0x0A" "n < 64 \<Longrightarrow> b64_char n \<noteq> CHR 0x0D"
  using b64_value_char b64_char_plain by blast+

lemma b64_quanta_encode: "b64_quanta (b64_encode s) = Some s"
  by (induction s rule: b64_encode.induct) (simp_all add: quantum_bytes Let_def)

lemma b64_encode_plain: "filter (\<lambda>c. c \<noteq> CHR 0x0A \<and> c \<noteq> CHR 0x0D) (b64_encode s) = b64_encode s"
  by (induction s rule: b64_encode.induct) (simp_all add: quantum_bytes Let_def)

lemma b64_decode_encode [simp]: "b64_decode (b64_encode s) = Some s"
  by (simp add: b64_decode_def b64_encode_plain b64_quanta_encode)

subsection \<open>The canonical form determines the card\<close>

lemma AgentCapability_json_inj: "AgentCapability_json c = AgentCapability_json d \<Longrightarrow> c = d"
  by (simp add: AgentCapability_json_def)

lemma AgentSkill_json_inj:
  assumes "AgentSkill_json s = AgentSkill_json u"
  shows "s = u"
proof -
  define F where "F s = (case AgentSkill_json s of JObj fs \<Rightarrow> map_of fs)" for s
  from assms have eq: "F s = F u" by (simp add: F_def)
  have F: "F s = map_of ([(''id'', JStr (sk_ID s)), (''name'', JStr (sk_Name s)), (''description'', JStr (sk_Description s))] @
     omit_arr ''tags'' (map JStr (sk_Tags s)) @ omit_arr ''examples'' (map JStr (sk_Examples s)))" for s
    by (simp add: F_def AgentSkill_json_def)
  have "sk_ID s = sk_ID u" "sk_Name s = sk_Name u" "sk_Description s = sk_Description u"
    using fun_cong [OF eq, of "''id''"] fun_cong [OF eq, of "''name''"] fun_cong [OF eq, of "''description''"] by (simp_all add: F map_add_def)
  moreover have "sk_Tags s = sk_Tags u"
    using fun_cong [OF eq, of "''tags''"] by (auto simp: F map_add_def split: if_splits)
  moreover have "sk_Examples s = sk_Examples u"
    using fun_cong [OF eq, of "''examples''"] by (auto simp: F map_add_def split: if_splits)
  ultimately show ?thesis by simp
qed

lemma json_list_inj: "(\<And>x y. f x = f y \<Longrightarrow> x = y) \<Longrightarrow> map f xs = map f ys \<longleftrightarrow> xs = ys"
  by (simp add: inj_map_eq_map inj_def)

lemma AgentCard_json_inj:
  assumes "AgentCard_json (c\<lparr>card_Signature := None\<rparr>) = AgentCard_json (d\<lparr>card_Signature := None\<rparr>)"
  shows "c\<lparr>card_Signature := None\<rparr> = d\<lparr>card_Signature := None\<rparr>"
proof -
  define F where "F c = (case AgentCard_json (c\<lparr>card_Signature := None\<rparr>) of JObj fs \<Rightarrow> map_of fs)" for c
  from assms have eq: "F c = F d" by (simp add: F_def)
  have F: "F c = map_of ([(''protocolVersion'', JStr (card_ProtocolVersion c)), (''name'', JStr (card_Name c)),
        (''description'', JStr (card_Description c)), (''version'', JStr (card_Version c)), (''url'', JStr (card_URL c))] @
       omit_str ''documentationUrl'' (card_DocumentationURL c) @
       [(''capabilities'', AgentCapability_json (card_Capabilities c)), (''skills'', JArr (map AgentSkill_json (card_Skills c))),
        (''defaultInputModes'', json_strings (card_DefaultInputModes c)),
        (''defaultOutputModes'', json_strings (card_DefaultOutputModes c))])" for c
    by (simp add: F_def AgentCard_json_def omit_opt_def)
  note U = F map_add_def json_strings_def
  note at = fun_cong [OF eq]
  have "card_ProtocolVersion c = card_ProtocolVersion d" using at [of "''protocolVersion''"] by (simp add: U)
  moreover have "card_Name c = card_Name d" using at [of "''name''"] by (simp add: U)
  moreover have "card_Description c = card_Description d" using at [of "''description''"] by (simp add: U)
  moreover have "card_Version c = card_Version d" using at [of "''version''"] by (simp add: U)
  moreover have "card_URL c = card_URL d" using at [of "''url''"] by (simp add: U)
  moreover have "card_DocumentationURL c = card_DocumentationURL d"
    using at [of "''documentationUrl''"] by (auto simp: U split: if_splits)
  moreover have "card_Capabilities c = card_Capabilities d"
    using at [of "''capabilities''"] by (auto simp: U dest: AgentCapability_json_inj)
  moreover have "card_Skills c = card_Skills d"
    using at [of "''skills''"] by (simp add: U json_list_inj [OF AgentSkill_json_inj])
  moreover have "card_DefaultInputModes c = card_DefaultInputModes d" using at [of "''defaultInputModes''"] by (simp add: U)
  moreover have "card_DefaultOutputModes c = card_DefaultOutputModes d" using at [of "''defaultOutputModes''"] by (simp add: U)
  ultimately show ?thesis by simp
qed

text \<open>Cards whose strings are valid UTF-8, as \<^verbatim>\<open>json.Marshal\<close> replaces an invalid byte.\<close>

definition wf_skill :: "AgentSkill \<Rightarrow> bool" where
  "wf_skill s \<longleftrightarrow> list_all valid_utf8 [sk_ID s, sk_Name s, sk_Description s] \<and> list_all valid_utf8 (sk_Tags s) \<and>
     list_all valid_utf8 (sk_Examples s)"

definition wf_card :: "AgentCard \<Rightarrow> bool" where
  "wf_card c \<longleftrightarrow>
     list_all valid_utf8 [card_ProtocolVersion c, card_Name c, card_Description c, card_Version c, card_URL c, card_DocumentationURL c] \<and>
     list_all wf_skill (card_Skills c) \<and> list_all valid_utf8 (card_DefaultInputModes c) \<and> list_all valid_utf8 (card_DefaultOutputModes c)"

lemma wf_skill_jvalid: "wf_skill s \<Longrightarrow> jvalid (AgentSkill_json s)"
  unfolding AgentSkill_json_def wf_skill_def jvalid_append
  by (intro conjI omit_valid) (simp_all add: high_def)

lemma wf_card_jvalid:
  assumes "wf_card c"
  shows "jvalid (AgentCard_json (c\<lparr>card_Signature := None\<rparr>))"
proof -
  have "jvalid (AgentCapability_json (card_Capabilities c))" by (simp add: AgentCapability_json_def high_def)
  moreover have "list_all jvalid (map AgentSkill_json (card_Skills c))"
    using assms wf_skill_jvalid by (auto simp: wf_card_def list_all_iff)
  ultimately show ?thesis
    using assms unfolding AgentCard_json_def wf_card_def jvalid_append
    by (intro conjI omit_valid) (simp_all add: high_def json_strings_def)
qed

lemma canonical_inj:
  assumes "canonicalAgentCardBytes c = canonicalAgentCardBytes d" "wf_card c" "wf_card d"
  shows "c\<lparr>card_Signature := None\<rparr> = d\<lparr>card_Signature := None\<rparr>"
proof (rule AgentCard_json_inj)
  have "jprint (AgentCard_json (c\<lparr>card_Signature := None\<rparr>)) @ [] = jprint (AgentCard_json (d\<lparr>card_Signature := None\<rparr>)) @ []"
    using assms(1) by (simp add: canonicalAgentCardBytes_def)
  moreover have "jkind (AgentCard_json x) = 5" for x by (simp add: AgentCard_json_def)
  ultimately show "AgentCard_json (c\<lparr>card_Signature := None\<rparr>) = AgentCard_json (d\<lparr>card_Signature := None\<rparr>)"
    using conjunct1 [OF jprint_cancel [OF _ wf_card_jvalid [OF assms(2)] wf_card_jvalid [OF assms(3)]]] by simp
qed

subsection \<open>Properties\<close>

text \<open>
  A signed card verifies. With a key pair of ed25519's sizes whose signatures verify,
  signing succeeds, changes nothing but the signature, and its result verifies; and the
  signature does not enter its own input, so signing again gives the same card.
\<close>

theorem signed_card_verifies:
  assumes "length priv = 64" and "length (pub priv) = 32" and "\<forall>m. vf (pub priv) m (sign priv m)"
  shows "\<exists>s. SignAgentCard pub sign c priv = Inr s \<and> VerifyAgentCard vf s = None \<and>
    s\<lparr>card_Signature := None\<rparr> = c\<lparr>card_Signature := None\<rparr> \<and> SignAgentCard pub sign s priv = Inr s"
  using assms by (simp add: SignAgentCard_def VerifyAgentCard_def canonicalAgentCardBytes_def)

text \<open>
  (C33) A card changed after signing is refused, unless ed25519 is broken on the two messages at hand. Let
  two cards have strings of valid UTF-8 only, as every card decoded from JSON has. If the second carries
  the signature of the first and verifies, then it is the signed card, in every field, or the signature
  of the first card's canonical bytes verifies the different canonical bytes of the second: a forgery.
\<close>

theorem tampered_card_rejected:
  assumes "SignAgentCard pub sign c priv = Inr s" and "wf_card c" and "wf_card d"
    and "card_Signature d = card_Signature s" and "VerifyAgentCard vf d = None"
  shows "d = s \<or>
    canonicalAgentCardBytes d \<noteq> canonicalAgentCardBytes c \<and>
    vf (pub priv) (canonicalAgentCardBytes d) (sign priv (canonicalAgentCardBytes c))"
proof (cases "canonicalAgentCardBytes d = canonicalAgentCardBytes c")
  case True
  from assms(1) have s: "s = c\<lparr>card_Signature := card_Signature s\<rparr>"
    by (auto simp: SignAgentCard_def Let_def split: if_splits)
  from canonical_inj [OF True assms(3,2)] have "d\<lparr>card_Signature := None\<rparr> = c\<lparr>card_Signature := None\<rparr>" .
  then have "d = c\<lparr>card_Signature := card_Signature d\<rparr>" by (cases c; cases d) simp
  then show ?thesis using s by (simp add: assms(4))
next
  case False
  from assms(1) have "card_Signature s = Some \<lparr>sg_Algorithm = SignatureAlgorithm, sg_PublicKey = b64_encode (pub priv),
      sg_Signature = b64_encode (sign priv (canonicalAgentCardBytes c))\<rparr>"
    by (auto simp: SignAgentCard_def Let_def split: if_splits)
  with assms(4,5) False show ?thesis by (simp add: VerifyAgentCard_def split: if_splits)
qed

text \<open>
  The condition on the strings is needed: the encoder replaces a byte that is not UTF-8, so two cards that
  differ only in such bytes are signed and verified as one.
\<close>

theorem invalid_bytes_verify_alike:
  "VerifyAgentCard vf (c\<lparr>card_Name := [CHR 0xFF]\<rparr>) = VerifyAgentCard vf (c\<lparr>card_Name := [CHR 0xFE]\<rparr>)"
proof -
  have "jesc [CHR 0xFF] = jesc [CHR 0xFE]" by code_simp
  then have "canonicalAgentCardBytes (c\<lparr>card_Name := [CHR 0xFF]\<rparr>) = canonicalAgentCardBytes (c\<lparr>card_Name := [CHR 0xFE]\<rparr>)"
    by (simp add: canonicalAgentCardBytes_def AgentCard_json_def jquote_def del: jesc.simps)
  then show ?thesis by (simp add: VerifyAgentCard_def split: option.split)
qed

subsection \<open>Witnesses\<close>

definition demo_card :: AgentCard where
  "demo_card = handleAgentCard ''1'' ''localhost''"

definition demo_key :: bytes where
  "demo_key = replicate 64 (CHR ''k'')"

theorem signed_card_verifies_witness:
  "\<exists>s. SignAgentCard (take 32) (\<lambda>k m. m) demo_card demo_key = Inr s \<and> VerifyAgentCard (\<lambda>k m s. m = s) s = None"
  using signed_card_verifies [of demo_key "take 32" "\<lambda>k m s. m = s" "\<lambda>k m. m" demo_card] by (auto simp: demo_key_def)

lemma demo_card_wf: "wf_card demo_card"
  by code_simp

theorem tampered_card_rejected_witness:
  "\<exists>s. SignAgentCard (take 32) (\<lambda>k m. m) demo_card demo_key = Inr s \<and>
     VerifyAgentCard (\<lambda>k m s. m = s) (s\<lparr>card_Version := ''2''\<rparr>) \<noteq> None"
proof -
  obtain s where s: "SignAgentCard (take 32) (\<lambda>k m. m) demo_card demo_key = Inr s" "card_Version s = ''1''"
    by (simp add: SignAgentCard_def demo_key_def demo_card_def handleAgentCard_def)
  have "wf_card (s\<lparr>card_Version := ''2''\<rparr>)"
    using s(1) demo_card_wf by (auto simp: SignAgentCard_def Let_def wf_card_def demo_key_def high_def)
  moreover have "card_Signature (s\<lparr>card_Version := ''2''\<rparr>) = card_Signature s" by simp
  ultimately have "VerifyAgentCard (\<lambda>k m s. m = s) (s\<lparr>card_Version := ''2''\<rparr>) = None \<Longrightarrow> s\<lparr>card_Version := ''2''\<rparr> = s"
    using tampered_card_rejected [OF s(1) demo_card_wf] by blast
  moreover have "s\<lparr>card_Version := ''2''\<rparr> \<noteq> s"
  proof
    assume "s\<lparr>card_Version := ''2''\<rparr> = s"
    then have "card_Version (s\<lparr>card_Version := ''2''\<rparr>) = card_Version s" by (rule arg_cong)
    with s(2) show False by simp
  qed
  ultimately show ?thesis using s(1) by blast
qed

end
