(* ===== verification/SessionStore.thy ===== *)
theory SessionStore
  imports Contract
begin

section \<open>The session store (internal/session/session.go)\<close>

text \<open>
  The hand-off sessions of the broker: the in-memory table, the JSONL log of each session,
  and \<^verbatim>\<open>Create\<close>, \<^verbatim>\<open>Append\<close>, \<^verbatim>\<open>Get\<close> and \<^verbatim>\<open>Replay\<close> with the failures of their file
  operations. \<open>mj\<close> and \<open>um\<close> are \<^verbatim>\<open>encoding/json\<close> at the record types; the clock is an
  argument, \<open>ctx\<close> is whether the request's context has ended. The log refines the list of
  turn records.
\<close>

subsection \<open>Data\<close>

record Session =
  se_ID :: string
  se_PresetName :: string
  se_Status :: string
  se_CreatedAt :: int
  se_TurnCount :: int
  se_Task :: Task

record TurnRecord =
  rec_Turn :: int
  rec_Time :: int
  rec_Req :: TurnRequest
  rec_Resp :: TurnResponse

record session_store =
  st_nextID :: int
  st_sessions :: "string \<Rightarrow> Session option"
  st_meta :: "string \<Rightarrow> bytes option"
  st_log :: "string \<Rightarrow> bytes option"

datatype store_error =
    CtxDone
  | SessionIDRequired
  | InvalidSessionID
  | SessionDirFailed
  | MetaFailed
  | LogCreateFailed
  | SessionNotFound
  | LogOpenFailed
  | LogWriteFailed
  | LogSyncFailed
  | LogReadFailed
  | LogDecodeFailed

text \<open>How the file operations of a call turn out. A failed write leaves some of its bytes.\<close>

datatype create_outcome = CreateOk | DirFails | MetaOpenFails | MetaWriteFails nat | MetaCloseFails | LogCreateFails
datatype append_outcome = AppendOk | AppendOpenFails | AppendShort nat | AppendSyncFails
datatype replay_outcome = ReplayOk | ReplayOpenFails | ReplayStopsAt nat

definition NewStore :: "session_store" where
  "NewStore = \<lparr>st_nextID = 0, st_sessions = Map.empty, st_meta = Map.empty, st_log = Map.empty\<rparr>"

subsection \<open>Ids\<close>

definition generateID :: "int \<Rightarrow> session_store \<Rightarrow> string \<times> session_store" where
  "generateID nano st =
     (show_int nano @ ''-'' @ show_int (st_nextID st + 1), st\<lparr>st_nextID := st_nextID st + 1\<rparr>)"

definition validateSessionID :: "string \<Rightarrow> store_error option" where
  "validateSessionID sid =
     (if sid = [] then Some SessionIDRequired
      else if Contains sid ''..'' \<or> Contains sid ''/'' \<or> Contains sid [CHR 0x5C] then Some InvalidSessionID
      else None)"

subsection \<open>Creating and reading\<close>

definition Store_Create ::
  "(Session \<Rightarrow> bytes) \<Rightarrow> create_outcome \<Rightarrow> bool \<Rightarrow> int \<Rightarrow> int \<Rightarrow> Preset \<Rightarrow> Task \<Rightarrow> session_store \<Rightarrow>
   (store_error + Session) \<times> session_store" where
  "Store_Create mj io ctx nano now preset task st =
     (if ctx then (Inl CtxDone, st)
      else
        let (sid, st1) = generateID nano st in
        case validateSessionID sid of
          Some e \<Rightarrow> (Inl e, st1)
        | None \<Rightarrow>
            let s = \<lparr>se_ID = sid, se_PresetName = p_Name preset, se_Status = ''active'', se_CreatedAt = now,
                     se_TurnCount = 0, se_Task = task\<rparr>;
                data = mj s @ [CHR 0x0A];
                meta = (\<lambda>b. st1\<lparr>st_meta := (st_meta st1)(sid \<mapsto> b)\<rparr>);
                st2 = meta data
            in case io of
                 DirFails \<Rightarrow> (Inl SessionDirFailed, st1)
               | MetaOpenFails \<Rightarrow> (Inl MetaFailed, st1)
               | MetaWriteFails n \<Rightarrow> (Inl MetaFailed, meta (take n data))
               | MetaCloseFails \<Rightarrow> (Inl MetaFailed, st2)
               | LogCreateFails \<Rightarrow> (Inl LogCreateFailed, st2)
               | CreateOk \<Rightarrow>
                   (Inr s, st2\<lparr>st_log := (st_log st2)(sid := (case st_log st2 sid of None \<Rightarrow> Some [] | Some b \<Rightarrow> Some b)),
                             st_sessions := (st_sessions st2)(sid \<mapsto> s)\<rparr>))"

definition Store_Get :: "bool \<Rightarrow> string \<Rightarrow> session_store \<Rightarrow> store_error + Session" where
  "Store_Get ctx sid st =
     (if ctx then Inl CtxDone
      else case validateSessionID sid of
        Some e \<Rightarrow> Inl e
      | None \<Rightarrow> (case st_sessions st sid of None \<Rightarrow> Inl SessionNotFound | Some s \<Rightarrow> Inr s))"

definition SessionDir :: "string \<Rightarrow> string \<Rightarrow> string" where
  "SessionDir dir sid = dir @ ''/'' @ sid"

subsection \<open>The log\<close>

text \<open>The turn count is advanced only when the record is written and synced.\<close>

definition Store_Append ::
  "(TurnRecord \<Rightarrow> bytes) \<Rightarrow> append_outcome \<Rightarrow> bool \<Rightarrow> int \<Rightarrow> string \<Rightarrow> TurnRequest \<Rightarrow> TurnResponse \<Rightarrow>
   session_store \<Rightarrow> store_error option \<times> session_store" where
  "Store_Append mj io ctx now sid req resp st =
     (if ctx then (Some CtxDone, st)
      else case validateSessionID sid of
        Some e \<Rightarrow> (Some e, st)
      | None \<Rightarrow>
          (case st_sessions st sid of
             None \<Rightarrow> (Some SessionNotFound, st)
           | Some s \<Rightarrow>
               (case st_log st sid of
                  None \<Rightarrow> (Some LogOpenFailed, st)
                | Some b \<Rightarrow>
                    let record = \<lparr>rec_Turn = tq_Turn req, rec_Time = now, rec_Req = req, rec_Resp = resp\<rparr>;
                        data = mj record @ [CHR 0x0A];
                        log = (\<lambda>b'. st\<lparr>st_log := (st_log st)(sid \<mapsto> b @ b')\<rparr>)
                    in case io of
                         AppendOpenFails \<Rightarrow> (Some LogOpenFailed, st)
                       | AppendShort n \<Rightarrow> (Some LogWriteFailed, log (take n data))
                       | AppendSyncFails \<Rightarrow> (Some LogSyncFailed, log data)
                       | AppendOk \<Rightarrow>
                           (None, (log data)\<lparr>st_sessions := (st_sessions st)(sid \<mapsto> s\<lparr>se_TurnCount := se_TurnCount s + 1\<rparr>)\<rparr>))))"

text \<open>\<^verbatim>\<open>ReadBytes('\n')\<close> until the end: each line with its newline, the last one without.\<close>

fun read_lines :: "bytes \<Rightarrow> bytes \<Rightarrow> bytes list" where
  "read_lines acc [] = [acc]"
| "read_lines acc (c # cs) =
     (if c = CHR 0x0A then (acc @ [c]) # read_lines [] cs else read_lines (acc @ [c]) cs)"

definition bytesTrimNewline :: "bytes \<Rightarrow> bytes" where
  "bytesTrimNewline b =
     (let b1 = (if b \<noteq> [] \<and> last b = CHR 0x0A then butlast b else b)
      in if b1 \<noteq> [] \<and> last b1 = CHR 0x0D then butlast b1 else b1)"

fun decode_lines :: "(bytes \<Rightarrow> TurnRecord option) \<Rightarrow> bytes list \<Rightarrow> store_error + TurnRecord list" where
  "decode_lines um [] = Inr []"
| "decode_lines um (line # ls) =
     (let trimmed = bytesTrimNewline line in
      if trimmed = [] then decode_lines um ls
      else case um trimmed of
        None \<Rightarrow> Inl LogDecodeFailed
      | Some r \<Rightarrow> map_sum id ((#) r) (decode_lines um ls))"

definition Store_Replay ::
  "(bytes \<Rightarrow> TurnRecord option) \<Rightarrow> replay_outcome \<Rightarrow> bool \<Rightarrow> string \<Rightarrow> session_store \<Rightarrow> store_error + TurnRecord list" where
  "Store_Replay um io ctx sid st =
     (if ctx then Inl CtxDone
      else case validateSessionID sid of
        Some e \<Rightarrow> Inl e
      | None \<Rightarrow>
          (if st_sessions st sid = None then Inl SessionNotFound
           else case st_log st sid of
             None \<Rightarrow> Inl LogOpenFailed
           | Some b \<Rightarrow>
               (case io of
                  ReplayOpenFails \<Rightarrow> Inl LogOpenFailed
                | ReplayStopsAt n \<Rightarrow>
                    (case decode_lines um (read_lines [] (take n b)) of Inl e \<Rightarrow> Inl e | Inr rs \<Rightarrow> Inl LogReadFailed)
                | ReplayOk \<Rightarrow> decode_lines um (read_lines [] b))))"

subsection \<open>Ids are fresh\<close>

lemma show_nat_no:
  "\<not> is_digit c \<Longrightarrow> c \<notin> set (show_nat n)"
  using show_nat_digits [of n] by (auto simp: list_all_iff)

lemma show_int_no: "\<not> is_digit c \<Longrightarrow> c \<noteq> CHR ''-'' \<Longrightarrow> c \<notin> set (show_int i)"
  by (auto simp: show_int_def show_nat_no)

lemma Contains_set: "Contains s sub \<Longrightarrow> set sub \<subseteq> set s"
  by (auto simp: Contains_iff)

text \<open>Every id the store hands out passes its own validation.\<close>

lemma generated_valid: "validateSessionID (show_int nano @ ''-'' @ show_int k) = None"
proof -
  let ?sid = "show_int nano @ ''-'' @ show_int k"
  have "c \<notin> set ?sid" if "\<not> is_digit c" "c \<noteq> CHR ''-''" for c
    using show_int_no [OF that] that(2) by simp
  from this [of "CHR ''.''"] this [of "CHR ''/''"] this [of "CHR 0x5C"]
  have "\<not> Contains ?sid ''..''" "\<not> Contains ?sid ''/''" "\<not> Contains ?sid [CHR 0x5C]"
    by (auto dest!: Contains_set simp: is_digit_def)
  then show ?thesis by (simp add: validateSessionID_def)
qed

lemmas generated_simp [simp] = generated_valid [simplified]

text \<open>The ids of the table were generated, with counters up to the current one.\<close>

definition ids_generated :: "session_store \<Rightarrow> bool" where
  "ids_generated st \<longleftrightarrow> (\<forall>sid s. st_sessions st sid = Some s \<longrightarrow> se_ID s = sid \<and>
     (\<exists>nano k. sid = show_int nano @ ''-'' @ show_int k \<and> k \<le> st_nextID st))"

lemma NewStore_ids: "ids_generated NewStore"
  by (simp add: ids_generated_def NewStore_def)

lemma generated_inj:
  assumes "show_int a @ ''-'' @ show_int j = show_int b @ ''-'' @ show_int k" shows "j = k"
proof -
  have "a = b \<and> ''-'' @ show_int j = ''-'' @ show_int k" using assms by (rule show_int_cancel) simp_all
  then show ?thesis using show_int_cancel [of j "[]" k "[]"] by simp
qed

lemma Create_sessions:
  assumes "Store_Create mj io ctx nano now p t st = (r, st')"
  shows "st_nextID st \<le> st_nextID st'"
    "st_sessions st' = st_sessions st \<or>
     (\<exists>s. r = Inr s \<and> se_ID s = show_int nano @ ''-'' @ show_int (st_nextID st + 1) \<and> se_TurnCount s = 0 \<and>
       st_nextID st' = st_nextID st + 1 \<and> st_sessions st' = (st_sessions st)(se_ID s \<mapsto> s) \<and>
       se_CreatedAt s = now \<and> se_Task s = t \<and> st_log st' (se_ID s) \<noteq> None)"
  using assms
  by (auto simp: Store_Create_def generateID_def generated_valid Let_def split: if_splits create_outcome.splits option.splits)

lemma Create_Inr:
  "Store_Create mj io ctx nano now p t st = (Inr s, st') \<Longrightarrow> se_ID s = show_int nano @ ''-'' @ show_int (st_nextID st + 1)"
  by (auto simp: Store_Create_def generateID_def generated_valid Let_def split: if_splits create_outcome.splits)

lemma ids_put:
  assumes "ids_generated st" "st_nextID st' = st_nextID st + 1" "st_sessions st' = (st_sessions st)(se_ID s \<mapsto> s)"
    "se_ID s = show_int nano @ ''-'' @ show_int (st_nextID st + 1)"
  shows "ids_generated st'"
  unfolding ids_generated_def
proof (intro allI impI)
  fix sid s1 assume s1: "st_sessions st' sid = Some s1"
  show "se_ID s1 = sid \<and> (\<exists>nano k. sid = show_int nano @ ''-'' @ show_int k \<and> k \<le> st_nextID st')"
  proof (cases "sid = se_ID s")
    case True
    have "s1 = s" using s1 assms(3) True by simp
    moreover have "st_nextID st + 1 \<le> st_nextID st'" using assms(2) by simp
    ultimately show ?thesis using True assms(4) by blast
  next
    case False
    then have "st_sessions st sid = Some s1" using s1 assms(3) by simp
    with assms(1) obtain a k where "se_ID s1 = sid" "sid = show_int a @ ''-'' @ show_int k" "k \<le> st_nextID st"
      unfolding ids_generated_def by blast
    moreover have "k \<le> st_nextID st'" using calculation(3) assms(2) by simp
    ultimately show ?thesis by blast
  qed
qed

lemma Create_is_fresh:
  assumes "ids_generated st" and "Store_Create mj io ctx nano now p t st = (Inr s, st')"
  shows "st_sessions st (se_ID s) = None \<and> ids_generated st' \<and> Store_Get False (se_ID s) st' = Inr s \<and>
    (\<forall>sid. sid \<noteq> se_ID s \<longrightarrow> st_sessions st' sid = st_sessions st sid)"
proof -
  have sid: "se_ID s = show_int nano @ ''-'' @ show_int (st_nextID st + 1)" by (rule Create_Inr [OF assms(2)])
  have none: "st_sessions st (se_ID s) = None"
  proof (rule ccontr)
    assume "st_sessions st (se_ID s) \<noteq> None"
    with assms(1) obtain a k where "se_ID s = show_int a @ ''-'' @ show_int k" "k \<le> st_nextID st"
      by (fastforce simp: ids_generated_def)
    with sid generated_inj [of nano "st_nextID st + 1" a k] show False by simp
  qed
  have st': "st_sessions st' = (st_sessions st)(se_ID s \<mapsto> s)" "st_nextID st' = st_nextID st + 1"
    using assms(2)
    by (auto simp: Store_Create_def generateID_def generated_valid Let_def split: if_splits create_outcome.splits)
  have "ids_generated st'" by (rule ids_put [OF assms(1) st'(2,1) sid])
  with none st' generated_valid [of nano "st_nextID st + 1"] show ?thesis
    by (simp add: Store_Get_def sid)
qed

text \<open>
  Ids are never reused in the life of a store, whatever the clock says. A session that
  \<^verbatim>\<open>Create\<close> returns has an id no earlier session has, it is in the table under that id, every
  other session is untouched, and the id is valid for the other operations.
\<close>

theorem Create_fresh:
  assumes "ids_generated st" and "Store_Create mj io ctx nano now p t st = (Inr s, st')"
  shows "st_sessions st (se_ID s) = None \<and> ids_generated st' \<and> Store_Get False (se_ID s) st' = Inr s \<and>
    (\<forall>sid. sid \<noteq> se_ID s \<longrightarrow> st_sessions st' sid = st_sessions st sid)"
  by (rule Create_is_fresh [OF assms])

lemma Create_ids: "ids_generated st \<Longrightarrow> ids_generated (snd (Store_Create mj io ctx nano now p t st))"
proof -
  assume ok: "ids_generated st"
  obtain r st' where c: "Store_Create mj io ctx nano now p t st = (r, st')" by fastforce
  from Create_sessions(2) [OF c] have "ids_generated st'"
  proof
    assume "st_sessions st' = st_sessions st"
    with ok Create_sessions(1) [OF c] show ?thesis by (fastforce simp: ids_generated_def)
  next
    assume "\<exists>s. r = Inr s \<and> se_ID s = show_int nano @ ''-'' @ show_int (st_nextID st + 1) \<and> se_TurnCount s = 0 \<and>
       st_nextID st' = st_nextID st + 1 \<and> st_sessions st' = (st_sessions st)(se_ID s \<mapsto> s) \<and>
       se_CreatedAt s = now \<and> se_Task s = t \<and> st_log st' (se_ID s) \<noteq> None"
    then show ?thesis using ids_put [OF ok] by blast
  qed
  then show ?thesis by (simp add: c)
qed

subsection \<open>The log refines the list of records\<close>

text \<open>What the round trip relies on, at one record: JSON on one line decodes to it.\<close>

definition codec_at :: "(TurnRecord \<Rightarrow> bytes) \<Rightarrow> (bytes \<Rightarrow> TurnRecord option) \<Rightarrow> TurnRecord \<Rightarrow> bool" where
  "codec_at mj um r \<longleftrightarrow> um (mj r) = Some r \<and> mj r \<noteq> [] \<and> CHR 0x0A \<notin> set (mj r) \<and> last (mj r) \<noteq> CHR 0x0D"

definition log_holds ::
  "(TurnRecord \<Rightarrow> bytes) \<Rightarrow> (bytes \<Rightarrow> TurnRecord option) \<Rightarrow> string \<Rightarrow> session_store \<Rightarrow> TurnRecord list \<Rightarrow> bool" where
  "log_holds mj um sid st rs \<longleftrightarrow> validateSessionID sid = None \<and> st_sessions st sid \<noteq> None \<and>
     st_log st sid = Some (concat (map (\<lambda>r. mj r @ [CHR 0x0A]) rs)) \<and> list_all (codec_at mj um) rs"

lemma read_lines_line: "CHR 0x0A \<notin> set l \<Longrightarrow> read_lines acc (l @ CHR 0x0A # rest) = (acc @ l @ [CHR 0x0A]) # read_lines [] rest"
  by (induction l arbitrary: acc) auto

lemma trim_line: "l \<noteq> [] \<Longrightarrow> last l \<noteq> CHR 0x0D \<Longrightarrow> bytesTrimNewline (l @ [CHR 0x0A]) = l"
  by (simp add: bytesTrimNewline_def)

lemma decode_log:
  "list_all (codec_at mj um) rs \<Longrightarrow>
   decode_lines um (read_lines [] (concat (map (\<lambda>r. mj r @ [CHR 0x0A]) rs))) = Inr rs"
  by (induction rs) (auto simp: bytesTrimNewline_def [of "[]"] codec_at_def read_lines_line trim_line Let_def)

lemma Replay_holds: "log_holds mj um sid st rs \<Longrightarrow> Store_Replay um ReplayOk False sid st = Inr rs"
  by (auto simp: Store_Replay_def log_holds_def decode_log)

lemma Append_holds:
  assumes "log_holds mj um sid st rs" and "st_sessions st sid = Some s"
    and "codec_at mj um \<lparr>rec_Turn = tq_Turn req, rec_Time = now, rec_Req = req, rec_Resp = resp\<rparr>"
  defines "rs' \<equiv> rs @ [\<lparr>rec_Turn = tq_Turn req, rec_Time = now, rec_Req = req, rec_Resp = resp\<rparr>]"
  shows "\<exists>st'. Store_Append mj AppendOk False now sid req resp st = (None, st') \<and> log_holds mj um sid st' rs' \<and>
    Store_Replay um ReplayOk False sid st' = Inr rs' \<and>
    Store_Get False sid st' = Inr (s\<lparr>se_TurnCount := se_TurnCount s + 1\<rparr>)"
proof -
  obtain st' where "Store_Append mj AppendOk False now sid req resp st = (None, st')"
    "log_holds mj um sid st' rs'" "st_sessions st' sid = Some (s\<lparr>se_TurnCount := se_TurnCount s + 1\<rparr>)"
    using assms by (auto simp: Store_Append_def log_holds_def Let_def)
  moreover from this have "Store_Get False sid st' = Inr (s\<lparr>se_TurnCount := se_TurnCount s + 1\<rparr>)"
    by (simp add: Store_Get_def log_holds_def)
  ultimately show ?thesis using Replay_holds by blast
qed

text \<open>
  (C31) What was appended is what is replayed. If the log of a session holds some records, an append that
  succeeds makes it hold one more, its turn count grows by one, and \<^verbatim>\<open>Replay\<close> decodes exactly
  the records in order: each carries the request, the response, the turn and the time.
\<close>

theorem Replay_after_Append:
  assumes "log_holds mj um sid st rs" and "st_sessions st sid = Some s"
    and "codec_at mj um \<lparr>rec_Turn = tq_Turn req, rec_Time = now, rec_Req = req, rec_Resp = resp\<rparr>"
  defines "rs' \<equiv> rs @ [\<lparr>rec_Turn = tq_Turn req, rec_Time = now, rec_Req = req, rec_Resp = resp\<rparr>]"
  shows "\<exists>st'. Store_Append mj AppendOk False now sid req resp st = (None, st') \<and> log_holds mj um sid st' rs' \<and>
    Store_Replay um ReplayOk False sid st' = Inr rs' \<and>
    Store_Get False sid st' = Inr (s\<lparr>se_TurnCount := se_TurnCount s + 1\<rparr>)"
  unfolding rs'_def by (rule Append_holds [OF assms(1-3)])

lemma Append_ids: "ids_generated st \<Longrightarrow> ids_generated (snd (Store_Append mj io ctx now sid req resp st))"
  by (auto simp: Store_Append_def ids_generated_def Let_def split: option.splits append_outcome.splits)

lemma Append_sessions:
  "st_sessions (snd (Store_Append mj io ctx now sid req resp st)) sid' = None \<longleftrightarrow> st_sessions st sid' = None"
  by (auto simp: Store_Append_def Let_def split: option.splits append_outcome.splits)

subsection \<open>Witnesses\<close>

definition demo_task :: Task where
  "demo_task = \<lparr>t_Title = ''t'', t_Body = ''b'', t_RepoRoot = []\<rparr>"

definition demo_preset :: Preset where
  "demo_preset = \<lparr>p_Name = ''pair'', p_Description = [],
     p_Roles = [\<lparr>r_ID = ''planner'', r_Runtime = ''claude'', r_Model = []\<rparr>, \<lparr>r_ID = ''reviewer'', r_Runtime = ''kimi'', r_Model = []\<rparr>],
     p_Routing = ''last_writer_wins'',
     p_Budget = \<lparr>b_TokensLeft = 1000, b_TurnsLeft = 2, b_DeadlineMS = 0, b_DryRoundsThreshold = 0\<rparr>,
     p_ExitWhen = [ExitTestsPass, ExitReviewerApproved], p_Scratch = \<lparr>sc_MaxKB = 1, sc_SummarizeWith = []\<rparr>\<rparr>"

theorem Create_fresh_witness:
  "let (r, st1) = Store_Create (\<lambda>s. ''{}'') CreateOk False 5 0 demo_preset demo_task NewStore;
       (r2, st2) = Store_Create (\<lambda>s. ''{}'') CreateOk False 5 0 demo_preset demo_task st1
   in (case r2 of Inl e \<Rightarrow> False | Inr s2 \<Rightarrow> st_sessions st1 (se_ID s2) = None)"
proof -
  obtain s1 st1 where c1: "Store_Create (\<lambda>s. ''{}'') CreateOk False 5 0 demo_preset demo_task NewStore = (Inr s1, st1)"
    by (simp add: Store_Create_def generateID_def generated_valid Let_def)
  obtain s2 st2 where c2: "Store_Create (\<lambda>s. ''{}'') CreateOk False 5 0 demo_preset demo_task st1 = (Inr s2, st2)"
    by (simp add: Store_Create_def generateID_def generated_valid Let_def)
  have "ids_generated st1" using Create_ids [OF NewStore_ids] c1 by (metis snd_conv)
  from Create_fresh [OF this c2] c1 c2 show ?thesis by simp
qed

definition demo_request :: TurnRequest where
  "demo_request = \<lparr>tq_Session = ''1-1'', tq_Turn = 1, tq_Role = ''planner'', tq_RuntimeHint = ''claude'', tq_ModelHint = [],
     tq_Budget = p_Budget demo_preset, tq_ScratchPath = ''s'', tq_Scratch = [], tq_LastTurn = None, tq_Task = demo_task,
     tq_WorkContract = None, tq_ExitWhen = []\<rparr>"

definition demo_response :: TurnResponse where
  "demo_response = \<lparr>tr_Done = False, tr_HandoffTo = [], tr_HandoffIntent = [], tr_Summary = ''s'', tr_Artifacts = [''a.go''],
     tr_SelfEval = SelfEvalConfident, tr_NotesForHuman = [], tr_Usage = None, tr_Claims = []\<rparr>"

definition demo_record :: TurnRecord where
  "demo_record = \<lparr>rec_Turn = 1, rec_Time = 7, rec_Req = demo_request, rec_Resp = demo_response\<rparr>"

definition demo_session :: Session where
  "demo_session = \<lparr>se_ID = ''1-1'', se_PresetName = ''pair'', se_Status = ''active'', se_CreatedAt = 0, se_TurnCount = 0,
     se_Task = demo_task\<rparr>"

theorem Replay_after_Append_witness:
  "let st = NewStore\<lparr>st_sessions := [''1-1'' \<mapsto> demo_session], st_log := [''1-1'' \<mapsto> []]\<rparr>;
       st' = snd (Store_Append (\<lambda>r. ''{}'') AppendOk False 7 ''1-1'' demo_request demo_response st)
   in Store_Replay (\<lambda>b. Some demo_record) ReplayOk False ''1-1'' st' = Inr [demo_record]"
proof -
  let ?st = "NewStore\<lparr>st_sessions := [''1-1'' \<mapsto> demo_session], st_log := [''1-1'' \<mapsto> []]\<rparr>"
  have v: "validateSessionID ''1-1'' = None" by code_simp
  have r: "\<lparr>rec_Turn = tq_Turn demo_request, rec_Time = 7, rec_Req = demo_request, rec_Resp = demo_response\<rparr> = demo_record"
    by (simp add: demo_record_def demo_request_def)
  have "log_holds (\<lambda>r. ''{}'') (\<lambda>b. Some demo_record) ''1-1'' ?st []" by (simp add: log_holds_def v)
  from Replay_after_Append [OF this, of demo_session demo_request 7 demo_response]
  show ?thesis by (auto simp: r codec_at_def Let_def)
qed

end
