(* ===== verification/SessionStuck.thy ===== *)
theory SessionStuck
  imports SessionStore "HOL-Library.Multiset" "HOL-Library.List_Lexorder" "HOL-Library.Char_ord"
begin

section \<open>Stuck sessions (internal/session/stuck.go)\<close>

text \<open>
  The detectors that read a session's turn records: dry rounds, ping-pong, no progress and
  repeated fingerprints. Go maps used as sets are sets, the counters a function.
  \<open>quote\<close> is \<^verbatim>\<open>strconv.Quote\<close>. The specifications read the list of records directly.
\<close>

subsection \<open>The detectors\<close>

fun collectNewArtifacts :: "string set \<Rightarrow> string list \<Rightarrow> string list \<times> string set" where
  "collectNewArtifacts seen [] = ([], seen)"
| "collectNewArtifacts seen (a # arts) =
     (if a \<notin> seen then (let (new, seen') = collectNewArtifacts (insert a seen) arts in (a # new, seen'))
      else collectNewArtifacts seen arts)"

definition isDry :: "TurnRecord \<Rightarrow> string list \<Rightarrow> bool" where
  "isDry record newArtifacts \<longleftrightarrow> newArtifacts = [] \<and> \<not> tr_Done (rec_Resp record) \<and> tr_HandoffTo (rec_Resp record) = []"

fun dry_loop :: "string set \<Rightarrow> int \<Rightarrow> TurnRecord list \<Rightarrow> int" where
  "dry_loop seen consecutive [] = consecutive"
| "dry_loop seen consecutive (record # rs) =
     (let (new, seen') = collectNewArtifacts seen (tr_Artifacts (rec_Resp record))
      in dry_loop seen' (if isDry record new then consecutive + 1 else 0) rs)"

definition DryRounds :: "TurnRecord list \<Rightarrow> int \<Rightarrow> bool" where
  "DryRounds rs threshold \<longleftrightarrow> (if threshold \<le> 0 then False else dry_loop {} 0 rs \<ge> threshold)"

definition detectNoProgress :: "TurnRecord list \<Rightarrow> string option" where
  "detectNoProgress rs =
     (if length rs < 6 then None else if dry_loop {} 0 rs \<ge> 6 then Some ''no progress'' else None)"

fun all_dry :: "string set \<Rightarrow> TurnRecord list \<Rightarrow> bool" where
  "all_dry seen [] = True"
| "all_dry seen (record # rs) =
     (let (new, seen') = collectNewArtifacts seen (tr_Artifacts (rec_Resp record))
      in if \<not> isDry record new then False else all_dry seen' rs)"

definition window_ping_pong :: "TurnRecord list \<Rightarrow> string option" where
  "window_ping_pong window =
     (let roles = map (\<lambda>r. tq_Role (rec_Req r)) window in
      if roles ! 0 = roles ! 2 \<and> roles ! 2 = roles ! 4 \<and> roles ! 1 = roles ! 3 \<and> roles ! 3 = roles ! 5 \<and>
         roles ! 0 \<noteq> roles ! 1
      then if all_dry {} window then Some (''ping-pong '' @ roles ! 0 @ ''/'' @ roles ! 1) else None
      else None)"

fun detectPingPong :: "TurnRecord list \<Rightarrow> string option" where
  "detectPingPong [] = None"
| "detectPingPong (r # rs) =
     (if length (r # rs) < 6 then None
      else case window_ping_pong (take 6 (r # rs)) of Some reason \<Rightarrow> Some reason | None \<Rightarrow> detectPingPong rs)"

definition fingerprint :: "(string \<Rightarrow> string) \<Rightarrow> TurnRecord \<Rightarrow> string" where
  "fingerprint quote record =
     tr_Summary (rec_Resp record) @ ''|'' @ ''['' @ Join (map quote (sort (tr_Artifacts (rec_Resp record)))) '' '' @ '']''"

fun repeated_loop :: "(string \<Rightarrow> string) \<Rightarrow> (string \<Rightarrow> nat) \<Rightarrow> TurnRecord list \<Rightarrow> string option" where
  "repeated_loop quote counts [] = None"
| "repeated_loop quote counts (record # rs) =
     (let key = fingerprint quote record; counts' = counts(key := counts key + 1)
      in if counts' key \<ge> 4 then Some ''repeated fingerprint'' else repeated_loop quote counts' rs)"

definition detectRepeatedFingerprint :: "(string \<Rightarrow> string) \<Rightarrow> TurnRecord list \<Rightarrow> string option" where
  "detectRepeatedFingerprint quote rs = repeated_loop quote (\<lambda>_. 0) rs"

definition session_Stuck :: "(string \<Rightarrow> string) \<Rightarrow> TurnRecord list \<Rightarrow> string option" where
  "session_Stuck quote rs =
     (if rs = [] then None
      else case detectPingPong rs of
        Some reason \<Rightarrow> Some reason
      | None \<Rightarrow> (case detectNoProgress rs of
          Some reason \<Rightarrow> Some reason
        | None \<Rightarrow> detectRepeatedFingerprint quote rs))"

subsection \<open>What a dry turn is\<close>

text \<open>A turn is dry when it is not done, hands over to nobody, and names only artifacts of earlier turns.\<close>

definition dry_at :: "TurnRecord list \<Rightarrow> nat \<Rightarrow> bool" where
  "dry_at rs i \<longleftrightarrow> \<not> tr_Done (rec_Resp (rs ! i)) \<and> tr_HandoffTo (rec_Resp (rs ! i)) = [] \<and>
     set (tr_Artifacts (rec_Resp (rs ! i))) \<subseteq> (\<Union>r\<in>set (take i rs). set (tr_Artifacts (rec_Resp r)))"

definition dry_wrt :: "string set \<Rightarrow> TurnRecord \<Rightarrow> bool" where
  "dry_wrt seen r \<longleftrightarrow> \<not> tr_Done (rec_Resp r) \<and> tr_HandoffTo (rec_Resp r) = [] \<and> set (tr_Artifacts (rec_Resp r)) \<subseteq> seen"

lemma collectNewArtifacts_spec:
  "collectNewArtifacts seen arts = (new, seen') \<Longrightarrow> seen' = seen \<union> set arts \<and> (new = [] \<longleftrightarrow> set arts \<subseteq> seen)"
  by (induction seen arts arbitrary: new rule: collectNewArtifacts.induct) (auto split: if_splits prod.splits)

lemma dry_loop_Cons:
  "dry_loop seen k (r # rs) =
   dry_loop (seen \<union> set (tr_Artifacts (rec_Resp r))) (if dry_wrt seen r then k + 1 else 0) rs"
  using collectNewArtifacts_spec [of seen "tr_Artifacts (rec_Resp r)"]
  by (auto simp: isDry_def dry_wrt_def split: prod.split)

lemma all_dry_Cons:
  "all_dry seen (r # rs) \<longleftrightarrow> dry_wrt seen r \<and> all_dry (seen \<union> set (tr_Artifacts (rec_Resp r))) rs"
  using collectNewArtifacts_spec [of seen "tr_Artifacts (rec_Resp r)"]
  by (auto simp: isDry_def dry_wrt_def split: prod.split)

declare dry_loop.simps(2) [simp del] all_dry.simps(2) [simp del]

definition artifacts_of :: "TurnRecord list \<Rightarrow> string set" where
  "artifacts_of rs = (\<Union>r\<in>set rs. set (tr_Artifacts (rec_Resp r)))"

lemma artifacts_of_simps [simp]:
  "artifacts_of [] = {}" "artifacts_of (r # rs) = set (tr_Artifacts (rec_Resp r)) \<union> artifacts_of rs"
  "artifacts_of (rs @ rs') = artifacts_of rs \<union> artifacts_of rs'"
  by (auto simp: artifacts_of_def)

lemma dry_loop_append:
  "dry_loop seen k (rs @ [r]) =
     (if dry_wrt (seen \<union> artifacts_of rs) r then dry_loop seen k rs + 1 else 0)"
  by (induction rs arbitrary: seen k) (simp_all add: dry_loop_Cons Un_assoc)

lemma dry_at_append:
  "dry_at (rs @ rs') i = (if i < length rs then dry_at rs i else dry_at (rs @ rs') i)"
  by (simp add: dry_at_def nth_append)

lemma dry_at_last: "dry_at (rs @ [r]) (length rs) \<longleftrightarrow> dry_wrt (artifacts_of rs) r"
  by (simp add: dry_at_def dry_wrt_def artifacts_of_def)

lemma dry_loop_nonneg: "0 \<le> dry_loop {} 0 rs \<and> dry_loop {} 0 rs \<le> int (length rs)"
  by (induction rs rule: rev_induct) (simp_all add: dry_loop_append)

lemma dry_loop_iff:
  "int k \<le> dry_loop {} 0 rs \<longleftrightarrow> k \<le> length rs \<and> (\<forall>i\<in>{length rs - k..<length rs}. dry_at rs i)"
proof (induction rs arbitrary: k rule: rev_induct)
  case Nil
  show ?case by simp
next
  case (snoc r rs)
  have old: "dry_at (rs @ [r]) i \<longleftrightarrow> dry_at rs i" if "i < length rs" for i
    using dry_at_append [of rs "[r]" i] that by simp
  show ?case
  proof (cases k)
    case 0
    then show ?thesis using dry_loop_nonneg [of "rs @ [r]"] by simp
  next
    case (Suc k')
    have range: "{length (rs @ [r]) - k..<length (rs @ [r])} = insert (length rs) {length rs - k'..<length rs}"
      using Suc by auto
    have "int k \<le> dry_loop {} 0 (rs @ [r]) \<longleftrightarrow> dry_wrt (artifacts_of rs) r \<and> int k' \<le> dry_loop {} 0 rs"
      using Suc by (simp add: dry_loop_append)
    also have "\<dots> \<longleftrightarrow> dry_at (rs @ [r]) (length rs) \<and> k' \<le> length rs \<and> (\<forall>i\<in>{length rs - k'..<length rs}. dry_at rs i)"
      by (simp only: dry_at_last snoc)
    also have "\<dots> \<longleftrightarrow> k \<le> length (rs @ [r]) \<and> (\<forall>i\<in>insert (length rs) {length rs - k'..<length rs}. dry_at (rs @ [r]) i)"
      using old Suc by auto
    finally show ?thesis unfolding range .
  qed
qed

text \<open>
  \<^verbatim>\<open>DryRounds\<close> says what its comment does: with a positive threshold it holds exactly when the
  last \<open>threshold\<close> turns of the session exist and each of them is dry.
\<close>

theorem DryRounds_iff:
  "DryRounds rs threshold \<longleftrightarrow> 0 < threshold \<and> nat threshold \<le> length rs \<and>
     (\<forall>i\<in>{length rs - nat threshold..<length rs}. dry_at rs i)"
  using dry_loop_iff [of "nat threshold" rs] by (auto simp: DryRounds_def)

subsection \<open>Stuck\<close>

text \<open>A ping-pong window: six turns of two different roles that alternate, each dry within the window.\<close>

definition ping_pong_window :: "TurnRecord list \<Rightarrow> string \<Rightarrow> string \<Rightarrow> bool" where
  "ping_pong_window w a b \<longleftrightarrow> a \<noteq> b \<and> map (\<lambda>r. tq_Role (rec_Req r)) w = [a, b, a, b, a, b] \<and> (\<forall>i<6. dry_at w i)"

lemma all_dry_iff: "all_dry seen w \<longleftrightarrow>
   (\<forall>i<length w. dry_wrt (seen \<union> artifacts_of (take i w)) (w ! i))"
proof (induction w arbitrary: seen)
  case (Cons r w)
  have "(\<forall>i<length (r # w). dry_wrt (seen \<union> artifacts_of (take i (r # w))) ((r # w) ! i)) \<longleftrightarrow>
      dry_wrt seen r \<and> (\<forall>i<length w. dry_wrt (seen \<union> artifacts_of (take (Suc i) (r # w))) (w ! i))"
    by (auto simp: All_less_Suc2)
  then show ?case by (simp add: all_dry_Cons Cons Un_assoc)
qed simp

lemma all_dry_at: "all_dry {} w \<longleftrightarrow> (\<forall>i<length w. dry_at w i)"
  by (simp add: all_dry_iff dry_wrt_def dry_at_def artifacts_of_def)

lemma window_ping_pong_iff:
  assumes "length w = 6"
  shows "window_ping_pong w = Some reason \<longleftrightarrow> (\<exists>a b. ping_pong_window w a b \<and> reason = ''ping-pong '' @ a @ ''/'' @ b)"
proof -
  obtain r0 r1 r2 r3 r4 r5 where w: "w = [r0, r1, r2, r3, r4, r5]"
    using assms by (auto simp: length_Suc_conv numeral_eq_Suc)
  have "all_dry {} w \<longleftrightarrow> (\<forall>i<6. dry_at w i)" using all_dry_at [of w] assms by simp
  then show ?thesis by (auto simp: window_ping_pong_def ping_pong_window_def w Let_def numeral_eq_Suc)
qed

lemma window_ping_pong_None:
  "length w = 6 \<Longrightarrow> window_ping_pong w = None \<longleftrightarrow> (\<forall>a b. \<not> ping_pong_window w a b)"
  by (cases "window_ping_pong w") (use window_ping_pong_iff [of w] in fastforce)+

definition ping_pong_at :: "TurnRecord list \<Rightarrow> nat \<Rightarrow> bool" where
  "ping_pong_at rs i \<longleftrightarrow> i + 6 \<le> length rs \<and> (\<exists>a b. ping_pong_window (take 6 (drop i rs)) a b)"

lemma ping_pong_at_Suc: "ping_pong_at (r # rs) (Suc i) = ping_pong_at rs i"
  by (simp add: ping_pong_at_def add.commute)

lemma detectPingPong_None: "detectPingPong rs = None \<longleftrightarrow> (\<forall>i. \<not> ping_pong_at rs i)"
proof (induction rs)
  case (Cons r rs)
  show ?case
  proof (cases "length (r # rs) < 6")
    case True
    then show ?thesis by (simp add: ping_pong_at_def)
  next
    case False
    then have first: "window_ping_pong (take 6 (r # rs)) = None \<longleftrightarrow> \<not> ping_pong_at (r # rs) 0"
      using window_ping_pong_None [of "take 6 (r # rs)"] by (simp add: ping_pong_at_def del: take_Suc_Cons)
    have "(\<forall>i. \<not> ping_pong_at (r # rs) i) \<longleftrightarrow> \<not> ping_pong_at (r # rs) 0 \<and> (\<forall>i. \<not> ping_pong_at rs i)"
      by (metis ping_pong_at_Suc not0_implies_Suc)
    then show ?thesis using False first Cons by (auto split: option.split)
  qed
qed (simp add: ping_pong_at_def)

lemma repeated_loop_None:
  "\<forall>k. counts k < 4 \<Longrightarrow>
   repeated_loop quote counts rs = None \<longleftrightarrow> (\<forall>k. counts k + count_list (map (fingerprint quote) rs) k < 4)"
proof (induction rs arbitrary: counts)
  case (Cons r rs)
  let ?k = "fingerprint quote r" and ?f = "fingerprint quote"
  let ?c = "counts(?k := counts ?k + 1)"
  have tail: "counts k + count_list (map ?f (r # rs)) k = ?c k + count_list (map ?f rs) k" for k by simp
  show ?case
  proof (cases "?c ?k \<ge> 4")
    case True
    then have "\<not> counts ?k + count_list (map ?f (r # rs)) ?k < 4" by simp
    moreover have "repeated_loop quote counts (r # rs) \<noteq> None" using True by (simp add: Let_def)
    ultimately show ?thesis by blast
  next
    case False
    then have "\<forall>k. ?c k < 4" using Cons.prems by simp
    from Cons.IH [OF this] False show ?thesis unfolding tail by (simp add: Let_def del: fun_upd_apply)
  qed
qed simp

lemma detectRepeated_None:
  "detectRepeatedFingerprint quote rs = None \<longleftrightarrow> (\<forall>key. count_list (map (fingerprint quote) rs) key < 4)"
  by (simp add: detectRepeatedFingerprint_def repeated_loop_None)

lemma detectNoProgress_None: "detectNoProgress rs = None \<longleftrightarrow> \<not> DryRounds rs 6"
  using dry_loop_nonneg [of rs] by (auto simp: detectNoProgress_def DryRounds_def)

text \<open>
  A session is reported stuck exactly when one of the three patterns is in its records: six
  consecutive turns in which two roles alternate and nothing new appears within the six; the
  last six turns dry; or one summary with one set of artifacts reported four times.
\<close>

theorem session_Stuck_iff:
  "session_Stuck quote rs \<noteq> None \<longleftrightarrow>
     (\<exists>i. ping_pong_at rs i) \<or> DryRounds rs 6 \<or> (\<exists>key. 4 \<le> count_list (map (fingerprint quote) rs) key)"
proof (cases "rs = []")
  case True
  then show ?thesis by (simp add: session_Stuck_def ping_pong_at_def DryRounds_def)
next
  case False
  have "(\<exists>key. 4 \<le> count_list (map (fingerprint quote) rs) key) \<longleftrightarrow> detectRepeatedFingerprint quote rs \<noteq> None"
    using detectRepeated_None [of quote rs] by (auto simp: not_less)
  with False detectPingPong_None [of rs] detectNoProgress_None [of rs] show ?thesis
    by (auto simp: session_Stuck_def split: option.split)
qed

text \<open>The order in which a response lists its artifacts does not change its fingerprint.\<close>

lemma fingerprint_order_irrelevant:
  "mset (tr_Artifacts (rec_Resp r)) = mset (tr_Artifacts (rec_Resp r')) \<Longrightarrow>
   tr_Summary (rec_Resp r) = tr_Summary (rec_Resp r') \<Longrightarrow> fingerprint quote r = fingerprint quote r'"
  by (simp add: fingerprint_def properties_for_sort flip: mset_sort)
     (metis mset_sort properties_for_sort sorted_sort)

end
