(* ===== verification/Routing.thy ===== *)
theory Routing
  imports SessionStuck "HOL-Library.Signed_Division"
begin

section \<open>Routing and exit conditions (internal/router, internal/exit)\<close>

text \<open>
  Which role gets the next turn, and when a session ends. \<open>ctx\<close> is whether the context has
  ended; times are nanoseconds; the commands of the shell predicates are a parameter.
\<close>

subsection \<open>The router\<close>

datatype router_error = RouterCtxDone | BlockedWithoutReviewer | RoutingNotSupported string

definition isValidRole :: "Preset \<Rightarrow> string \<Rightarrow> bool" where
  "isValidRole p roleID \<longleftrightarrow> list_ex (\<lambda>r. r_ID r = roleID) (p_Roles p)"

definition findReviewer :: "Preset \<Rightarrow> string" where
  "findReviewer p = (if list_ex (\<lambda>r. r_ID r = ''reviewer'') (p_Roles p) then ''reviewer'' else [])"

definition roundRobin :: "Preset \<Rightarrow> int \<Rightarrow> string" where
  "roundRobin p turn =
     (if p_Roles p = [] then []
      else let idx = (turn - 1) smod int (length (p_Roles p));
               idx = (if idx < 0 then 0 else idx)
           in r_ID (p_Roles p ! nat idx))"

definition Next :: "Preset \<Rightarrow> bool \<Rightarrow> TurnResponse option \<Rightarrow> int \<Rightarrow> router_error + string" where
  "Next p ctx prev turn =
     (if ctx then Inl RouterCtxDone
      else if (case prev of Some r \<Rightarrow> tr_SelfEval r = SelfEvalBlocked | None \<Rightarrow> False)
      then (if findReviewer p \<noteq> [] then Inr (findReviewer p) else Inl BlockedWithoutReviewer)
      else
        let handoff = (case prev of
              Some r \<Rightarrow> if tr_HandoffTo r \<noteq> [] \<and> isValidRole p (tr_HandoffTo r) then Some (tr_HandoffTo r) else None
            | None \<Rightarrow> None)
        in if p_Routing p = ''round_robin'' \<or> p_Routing p = ''handoff_then_round_robin''
           then (case handoff of Some h \<Rightarrow> Inr h | None \<Rightarrow> Inr (roundRobin p turn))
           else if p_Routing p = ''strict_round_robin'' then Inr (roundRobin p turn)
           else if p_Routing p = ''last_writer_wins''
           then (case handoff of
                   Some h \<Rightarrow> Inr h
                 | None \<Rightarrow> if prev \<noteq> None then Inr (roundRobin p (turn - 1)) else Inr (roundRobin p turn))
           else Inl (RoutingNotSupported (p_Routing p)))"

subsection \<open>The exit evaluator\<close>

record exit_state =
  ex_TurnCount :: int
  ex_Usage :: Usage
  ex_Budget :: Budget
  ex_StartTime :: int
  ex_LastResponse :: "TurnResponse option"
  ex_DeadlineMS :: int
  ex_DryRounds :: int
  ex_Records :: "TurnRecord list"

datatype exit_error = ExitCtxDone | ShellPredicateDisabled string | NoCommandMapped string | ShellCancelled
datatype shell_outcome = ShellOk | ShellFails | ShellCancels

record evaluator =
  ev_allowShell :: bool
  ev_cmdMap :: "string \<Rightarrow> string list option"
  ev_now :: int
  ev_quote :: "string \<Rightarrow> string"
  ev_run :: "string list \<Rightarrow> shell_outcome"

definition NewEvaluator :: "bool \<Rightarrow> int \<Rightarrow> (string \<Rightarrow> string) \<Rightarrow> (string list \<Rightarrow> shell_outcome) \<Rightarrow> evaluator" where
  "NewEvaluator allowShell now quote run =
     \<lparr>ev_allowShell = allowShell,
      ev_cmdMap = [ExitTestsPass \<mapsto> [''go'', ''test'', ''./...''], ExitAllArtifactsCompile \<mapsto> [''go'', ''vet'', ''./...'']],
      ev_now = now, ev_quote = quote, ev_run = run\<rparr>"

definition runShellPredicate :: "evaluator \<Rightarrow> ExitCondition \<Rightarrow> exit_error + string option" where
  "runShellPredicate e cond =
     (case ev_cmdMap e cond of
        None \<Rightarrow> Inl (NoCommandMapped cond)
      | Some args \<Rightarrow>
          if args = [] then Inl (NoCommandMapped cond)
          else (case ev_run e args of
                  ShellCancels \<Rightarrow> Inl ShellCancelled
                | ShellFails \<Rightarrow> Inr None
                | ShellOk \<Rightarrow> Inr (Some (cond @ '' satisfied''))))"

text \<open>A match is its reason.\<close>

definition evaluateOne :: "evaluator \<Rightarrow> exit_state \<Rightarrow> ExitCondition \<Rightarrow> exit_error + string option" where
  "evaluateOne e s cond =
     (if cond = ExitTurnsExhausted then Inr (if b_TurnsLeft (ex_Budget s) \<le> 0 then Some ''turns exhausted'' else None)
      else if cond = ExitTokensExhausted then Inr (if b_TokensLeft (ex_Budget s) \<le> 0 then Some ''tokens exhausted'' else None)
      else if cond = ExitDeadlinePassed
      then Inr (if ev_now e > ex_StartTime s + ex_DeadlineMS s * 1000000 then Some ''deadline passed'' else None)
      else if cond = ExitReviewerApproved
      then Inr (case ex_LastResponse s of
                  Some r \<Rightarrow> if tr_SelfEval r = SelfEvalConfident \<and> tr_Done r then Some ''reviewer approved'' else None
                | None \<Rightarrow> None)
      else if cond = ExitDryRounds
      then Inr (if b_DryRoundsThreshold (ex_Budget s) > 0 \<and> ex_DryRounds s \<ge> b_DryRoundsThreshold (ex_Budget s)
                then Some ''dry rounds'' else None)
      else if cond = ExitStuck
      then Inr (if length (ex_Records s) \<ge> 6 then session_Stuck (ev_quote e) (ex_Records s) else None)
      else if cond = ExitTestsPass \<or> cond = ExitAllArtifactsCompile
      then (if \<not> ev_allowShell e then Inl (ShellPredicateDisabled cond) else runShellPredicate e cond)
      else Inr None)"

text \<open>\<open>ctx i\<close>: the context has ended when condition \<open>i\<close> comes up.\<close>

fun Evaluate :: "evaluator \<Rightarrow> (nat \<Rightarrow> bool) \<Rightarrow> exit_state \<Rightarrow> ExitCondition list \<Rightarrow> exit_error + string option" where
  "Evaluate e ctx s [] = Inr None"
| "Evaluate e ctx s (cond # conds) =
     (if ctx 0 then Inl ExitCtxDone
      else case evaluateOne e s cond of
        Inl err \<Rightarrow> Inl err
      | Inr (Some reason) \<Rightarrow> Inr (Some reason)
      | Inr None \<Rightarrow> Evaluate e (\<lambda>i. ctx (Suc i)) s conds)"

subsection \<open>Routing properties\<close>

lemma roundRobin_eq:
  assumes "p_Roles p \<noteq> []" "0 < turn"
  shows "roundRobin p turn = r_ID (p_Roles p ! (nat (turn - 1) mod length (p_Roles p)))"
proof -
  let ?n = "length (p_Roles p)"
  have n: "0 < int ?n" using assms(1) by simp
  have "(turn - 1) smod int ?n = (turn - 1) mod int ?n"
    using assms(2) by (cases "turn = 1") (simp_all add: smod_int_alt_def)
  moreover have "nat ((turn - 1) mod int ?n) = nat (turn - 1) mod ?n"
    using assms(2) by (simp add: nat_mod_distrib)
  moreover have "\<not> (turn - 1) mod int ?n < 0" using pos_mod_sign [OF n] by (simp add: not_less)
  ultimately show ?thesis using assms(1) by (simp add: roundRobin_def Let_def)
qed

lemma roundRobin_role: "p_Roles p \<noteq> [] \<Longrightarrow> isValidRole p (roundRobin p turn)"
proof -
  assume ne: "p_Roles p \<noteq> []"
  let ?n = "length (p_Roles p)" and ?m = "(turn - 1) smod int (length (p_Roles p))"
  have "?m < int ?n" using ne smod_int_range [of "int ?n" "turn - 1"] by auto
  then have "nat (if ?m < 0 then 0 else ?m) < ?n" using ne by (auto simp: nat_less_iff)
  then show ?thesis using ne nth_mem by (fastforce simp: roundRobin_def isValidRole_def list_ex_iff Let_def)
qed

definition blocked :: "TurnResponse option \<Rightarrow> bool" where
  "blocked prev \<longleftrightarrow> (case prev of Some r \<Rightarrow> tr_SelfEval r = SelfEvalBlocked | None \<Rightarrow> False)"

definition hands_off :: "Preset \<Rightarrow> TurnResponse option \<Rightarrow> bool" where
  "hands_off p prev \<longleftrightarrow> (case prev of Some r \<Rightarrow> tr_HandoffTo r \<noteq> [] \<and> isValidRole p (tr_HandoffTo r) | None \<Rightarrow> False)"

text \<open>
  The router only ever names a role of the preset. An answer is a role that exists, or the empty
  string when the preset has no roles; and after a blocked turn it is the reviewer or the
  error that there is none, under every routing rule.
\<close>

theorem Next_names_a_role:
  "case Next p ctx prev turn of
     Inr role \<Rightarrow> \<not> ctx \<and> (isValidRole p role \<or> p_Roles p = [] \<and> role = []) \<and> (blocked prev \<longrightarrow> role = ''reviewer'')
   | Inl e \<Rightarrow> ctx \<and> e = RouterCtxDone \<or> blocked prev \<and> e = BlockedWithoutReviewer \<and> \<not> isValidRole p ''reviewer'' \<or>
       e = RoutingNotSupported (p_Routing p)"
proof -
  have rr: "isValidRole p (roundRobin p t) \<or> p_Roles p = [] \<and> roundRobin p t = []" for t
    using roundRobin_role by (cases "p_Roles p = []") (auto simp: roundRobin_def)
  have rev: "findReviewer p = ''reviewer'' \<and> isValidRole p ''reviewer'' \<or> findReviewer p = [] \<and> \<not> isValidRole p ''reviewer''"
    by (simp add: findReviewer_def isValidRole_def)
  show ?thesis using rr rev
    by (auto simp: Next_def blocked_def Let_def split: option.splits if_splits)
qed

lemma Next_strict: "p_Routing p = ''strict_round_robin'' \<Longrightarrow> \<not> blocked prev \<Longrightarrow> Next p False prev turn = Inr (roundRobin p turn)"
  by (cases prev) (simp_all add: Next_def blocked_def Let_def)

text \<open>
  Under strict round robin every role gets a turn. While no turn is blocked, among any
  \<open>n\<close> consecutive turns of a preset with \<open>n\<close> roles each role is named, whatever the
  responses hand off.
\<close>

theorem strict_round_robin_fair:
  assumes "p_Routing p = ''strict_round_robin''" and "r \<in> set (p_Roles p)" and "0 < turn"
    and "\<And>k. k < length (p_Roles p) \<Longrightarrow> \<not> blocked (prevs k)"
  shows "\<exists>k < length (p_Roles p). Next p False (prevs k) (turn + int k) = Inr (r_ID r)"
proof -
  let ?n = "length (p_Roles p)" and ?t = "nat (turn - 1)"
  obtain i where i: "i < ?n" "p_Roles p ! i = r" using assms(2) by (auto simp: in_set_conv_nth)
  have ne: "p_Roles p \<noteq> []" using assms(2) by auto
  define k where "k = (i + (?n - ?t mod ?n)) mod ?n"
  have k: "k < ?n" unfolding k_def by (rule mod_less_divisor) (use ne in simp)
  have "(?t + k) mod ?n = (?t mod ?n + (i + (?n - ?t mod ?n))) mod ?n"
    unfolding k_def by (metis mod_add_left_eq mod_add_right_eq)
  also have "?t mod ?n + (i + (?n - ?t mod ?n)) = i + ?n"
    using mod_less_divisor [of ?n ?t, OF length_greater_0_conv [THEN iffD2, OF ne]] by linarith
  finally have "(?t + k) mod ?n = i" using i by simp
  moreover have "nat (turn + int k - 1) = ?t + k" using assms(3) by simp
  ultimately have "roundRobin p (turn + int k) = r_ID r"
    using roundRobin_eq [OF ne, of "turn + int k"] assms(3) i(2) by simp
  with k assms(4) [OF k] Next_strict [OF assms(1)] show ?thesis by auto
qed

lemma Next_last_writer:
  "p_Routing p = ''last_writer_wins'' \<Longrightarrow> \<not> blocked (Some r) \<Longrightarrow> \<not> hands_off p (Some r) \<Longrightarrow>
   Next p False (Some r) turn = Inr (roundRobin p (turn - 1))"
  by (auto simp: Next_def blocked_def hands_off_def Let_def)

text \<open>
  \<^verbatim>\<open>last_writer_wins\<close> does not keep the last writer. With two or more distinct roles, two
  consecutive turns after the first that hand nothing off are given to different roles: the
  role that just wrote loses the turn it should keep.
\<close>

theorem last_writer_rotates:
  assumes "p_Routing p = ''last_writer_wins''" and "2 \<le> length (p_Roles p)" and "distinct (map r_ID (p_Roles p))"
    and "2 \<le> turn" and "\<not> blocked (Some r) \<and> \<not> blocked (Some r')"
    and "\<not> hands_off p (Some r) \<and> \<not> hands_off p (Some r')"
  shows "Next p False (Some r) turn \<noteq> Next p False (Some r') (turn + 1)"
proof -
  let ?n = "length (p_Roles p)" and ?t = "nat (turn - 2)"
  have ne: "p_Roles p \<noteq> []" using assms(2) by auto
  have t: "nat (turn - 1) = Suc ?t" using assms(4) by simp
  have eqs: "roundRobin p (turn - 1) = r_ID (p_Roles p ! (?t mod ?n))"
    "roundRobin p turn = r_ID (p_Roles p ! (Suc ?t mod ?n))"
    using roundRobin_eq [OF ne, of "turn - 1"] roundRobin_eq [OF ne, of turn] assms(4) by (simp_all add: t)
  have "?t mod ?n \<noteq> Suc ?t mod ?n" using assms(2) by (auto simp: mod_Suc)
  moreover have "?t mod ?n < ?n" "Suc ?t mod ?n < ?n" using ne by simp_all
  ultimately have "r_ID (p_Roles p ! (?t mod ?n)) \<noteq> r_ID (p_Roles p ! (Suc ?t mod ?n))"
    using assms(3) by (metis length_map nth_eq_iff_index_eq nth_map)
  with eqs Next_last_writer [OF assms(1)] assms(5,6) show ?thesis by simp
qed

subsection \<open>Exit properties\<close>

lemma Evaluate_append:
  "\<forall>c\<in>set pre. evaluateOne e s c = Inr None \<Longrightarrow>
   Evaluate e (\<lambda>_. False) s (pre @ cs) = Evaluate e (\<lambda>_. False) s cs"
  by (induction pre) simp_all

text \<open>
  The evaluation stops at the first condition that matches or fails: its result is that
  condition's, and \<open>None\<close> when there is no such condition.
\<close>

theorem Evaluate_first:
  "Evaluate e (\<lambda>_. False) s conds =
     (case List.find (\<lambda>c. evaluateOne e s c \<noteq> Inr None) conds of None \<Rightarrow> Inr None | Some c \<Rightarrow> evaluateOne e s c)"
  by (induction conds) (auto split: sum.split option.split)

text \<open>
  A shell predicate hides every later condition from the broker, which evaluates with shell
  predicates disabled: if no condition before \<^verbatim>\<open>tests_pass\<close> matches, the evaluation is an error,
  and the session does not end whatever the conditions after it say.
\<close>

theorem shell_predicate_hides_the_rest:
  assumes "c \<in> {ExitTestsPass, ExitAllArtifactsCompile}"
    and "\<forall>c\<in>set pre. evaluateOne (NewEvaluator False now quote run) s c = Inr None"
  shows "Evaluate (NewEvaluator False now quote run) (\<lambda>_. False) s (pre @ c # post) = Inl (ShellPredicateDisabled c)"
proof -
  have "evaluateOne (NewEvaluator False now quote run) s c = Inl (ShellPredicateDisabled c)"
    using assms(1) by (auto simp: evaluateOne_def NewEvaluator_def)
  then show ?thesis using Evaluate_append [OF assms(2)] by simp
qed

subsection \<open>Witnesses\<close>

theorem strict_round_robin_fair_witness:
  "\<exists>k < 2. Next (demo_preset\<lparr>p_Routing := ''strict_round_robin''\<rparr>) False None (5 + int k) = Inr ''reviewer''"
  using strict_round_robin_fair [of "demo_preset\<lparr>p_Routing := ''strict_round_robin''\<rparr>"
      "\<lparr>r_ID = ''reviewer'', r_Runtime = ''kimi'', r_Model = []\<rparr>" 5 "\<lambda>_. None"]
  by (simp add: demo_preset_def blocked_def numeral_2_eq_2)

theorem last_writer_rotates_witness:
  "Next demo_preset False (Some demo_response) 2 \<noteq> Next demo_preset False (Some demo_response) 3"
  using last_writer_rotates [of demo_preset 2 demo_response demo_response]
  by (simp add: demo_preset_def demo_response_def blocked_def hands_off_def)

theorem shell_predicate_hides_the_rest_witness:
  "Evaluate (NewEvaluator False 0 (\<lambda>q. q) (\<lambda>a. ShellOk)) (\<lambda>_. False)
     \<lparr>ex_TurnCount = 9, ex_Usage = \<lparr>u_TokensIn = 0, u_TokensOut = 0, u_Ms = 0\<rparr>, ex_Budget = p_Budget demo_preset, ex_StartTime = 0,
      ex_LastResponse = Some (demo_response\<lparr>tr_Done := True\<rparr>), ex_DeadlineMS = 0, ex_DryRounds = 0, ex_Records = []\<rparr>
     (p_ExitWhen demo_preset) = Inl (ShellPredicateDisabled ExitTestsPass)"
  using shell_predicate_hides_the_rest [of ExitTestsPass "[]" 0 "\<lambda>q. q" "\<lambda>a. ShellOk" _ "[ExitReviewerApproved]"]
  by (simp add: demo_preset_def)

end
