(* ===== verification/Scratch.thy ===== *)
theory Scratch
  imports Contract
begin

section \<open>Scratchpad and paths (internal/scratch, internal/safepath)\<close>

text \<open>
  The rolling scratchpad of a session with its compaction, over the bytes of its file and the
  failures of the file operations; and the syntactic path guard, with \<^verbatim>\<open>filepath.Clean\<close> on
  rooted slash-separated paths.
\<close>

subsection \<open>The scratchpad\<close>

record scratch =
  sm_path :: string
  sm_maxKB :: int

datatype scratch_error = ScratchOpenFailed | ScratchWriteFailed | ScratchStatFailed | ScratchReadFailed

datatype scratch_outcome =
    ScratchOk
  | ScratchOpenFails
  | ScratchWriteStops nat
  | ScratchStatFails
  | ScratchReadFails
  | ScratchRewriteStops nat

definition scratch_summary :: bytes where
  "scratch_summary = ''<!-- Scratchpad auto-compacted; older content truncated -->'' @ [CHR 0x0A, CHR 0x0A]"

text \<open>The cut: the middle or later, so that the rest fits, moved behind the next newline.\<close>

definition cut_point :: "int \<Rightarrow> bytes \<Rightarrow> nat" where
  "cut_point limit data =
     (let minHalf = int (length data) + int (length scratch_summary) - limit;
          minHalf = (if minHalf < 0 then 0 else minHalf);
          half = length data div 2;
          half = (if int half < minHalf then nat minHalf else half);
          origHalf = half;
          half = half + length (takeWhile (\<lambda>c. c \<noteq> CHR 0x0A) (drop half data));
          half = (if half \<ge> length data then origHalf else half + 1)
      in if half > length data then length data else half)"

definition compactIfNeeded :: "scratch_outcome \<Rightarrow> int \<Rightarrow> bytes \<Rightarrow> scratch_error option \<times> bytes" where
  "compactIfNeeded io maxKB file =
     (if maxKB \<le> 0 then (None, file)
      else if io = ScratchStatFails then (Some ScratchStatFailed, file)
      else
        let limit = maxKB * 1024;
            threshold = limit * 8 div 10
        in if int (length file) \<le> threshold then (None, file)
           else if io = ScratchReadFails then (Some ScratchReadFailed, file)
           else
             let newData = scratch_summary @ drop (cut_point limit file) file
             in case io of
                  ScratchRewriteStops n \<Rightarrow> (Some ScratchWriteFailed, take n newData)
                | _ \<Rightarrow> (None, newData))"

definition Scratch_Append ::
  "scratch_outcome \<Rightarrow> scratch \<Rightarrow> string \<Rightarrow> bytes option \<Rightarrow> scratch_error option \<times> bytes option" where
  "Scratch_Append io m content file =
     (case io of
        ScratchOpenFails \<Rightarrow> (Some ScratchOpenFailed, file)
      | ScratchWriteStops n \<Rightarrow>
          (Some ScratchWriteFailed, Some ((case file of None \<Rightarrow> [] | Some b \<Rightarrow> b) @ take n content))
      | _ \<Rightarrow>
          (let (err, b) = compactIfNeeded io (sm_maxKB m) ((case file of None \<Rightarrow> [] | Some b \<Rightarrow> b) @ content)
           in (err, Some b)))"

definition Scratch_Read :: "bool \<Rightarrow> bytes option \<Rightarrow> scratch_error + string" where
  "Scratch_Read fails file =
     (case file of
        None \<Rightarrow> Inr []
      | Some b \<Rightarrow> if fails then Inl ScratchReadFailed else Inr b)"

subsection \<open>The size bound\<close>

lemma length_scratch_summary: "length scratch_summary = 61"
  by (simp add: scratch_summary_def)

lemma cut_point_fits:
  assumes "1024 \<le> limit"
  shows "cut_point limit data \<le> length data"
    "int (length scratch_summary) + int (length data) - int (cut_point limit data) \<le> limit"
  using assms by (auto simp: cut_point_def Let_def length_scratch_summary split: if_splits)

lemma compact_size:
  assumes "0 < maxKB" "compactIfNeeded io maxKB file = (None, file')"
  shows "int (length file') \<le> maxKB * 1024"
proof (cases "int (length file) \<le> maxKB * 1024 * 8 div 10")
  case True
  then have "file' = file" using assms by (auto simp: compactIfNeeded_def Let_def split: if_splits)
  moreover have "maxKB * 1024 * 8 div 10 \<le> maxKB * 1024" using assms(1) by simp
  ultimately show ?thesis using True by simp
next
  case False
  then have "file' = scratch_summary @ drop (cut_point (maxKB * 1024) file) file"
    using assms by (auto simp: compactIfNeeded_def Let_def split: if_splits scratch_outcome.splits)
  moreover have "1024 \<le> maxKB * 1024" using assms(1) by simp
  ultimately show ?thesis using cut_point_fits [of "maxKB * 1024" "file"] by simp
qed

text \<open>
  The scratchpad never exceeds its limit. After an append that reports no error the file has at
  most \<^verbatim>\<open>maxKB\<close> kilobytes, however much was appended; it is the old content with the new,
  or, when that passed the threshold, the marker followed by a tail of it. So the newest bytes
  are kept.
\<close>

theorem scratch_within_limit:
  assumes "0 < sm_maxKB m" and "Scratch_Append io m content file = (None, file')"
  shows "\<exists>old b. old = (case file of None \<Rightarrow> [] | Some b \<Rightarrow> b) @ content \<and> file' = Some b \<and>
    int (length b) \<le> sm_maxKB m * 1024 \<and> (b = old \<or> (\<exists>n. b = scratch_summary @ drop n old))"
proof -
  let ?old = "(case file of None \<Rightarrow> [] | Some b \<Rightarrow> b) @ content"
  obtain err b where c: "compactIfNeeded io (sm_maxKB m) ?old = (err, b)" by fastforce
  with assms(2) have b: "err = None" "file' = Some b" by (auto simp: Scratch_Append_def split: scratch_outcome.splits)
  with c have "b = ?old \<or> (\<exists>n. b = scratch_summary @ drop n ?old)"
    by (auto simp: compactIfNeeded_def Let_def split: if_splits scratch_outcome.splits)
  with b c compact_size [OF assms(1)] show ?thesis by blast
qed

theorem scratch_within_limit_witness:
  "\<exists>b. snd (Scratch_Append ScratchOk \<lparr>sm_path = ''s'', sm_maxKB = 1\<rparr> (replicate 2000 (CHR ''x'')) None) = Some b \<and>
     length b \<le> 1024"
proof -
  let ?m = "\<lparr>sm_path = ''s'', sm_maxKB = 1\<rparr>"
  obtain err f where "Scratch_Append ScratchOk ?m (replicate 2000 (CHR ''x'')) None = (err, f)" by fastforce
  moreover from this have "err = None" by (auto simp: Scratch_Append_def compactIfNeeded_def Let_def split: if_splits)
  ultimately show ?thesis using scratch_within_limit [of ?m ScratchOk "replicate 2000 (CHR ''x'')" None f] by auto
qed

subsection \<open>Paths\<close>

text \<open>
  \<^verbatim>\<open>filepath.Clean\<close> on a rooted path: empty segments and dots go, a double dot takes back the
  segment before it and is dropped at the root. \<open>wd\<close> is the working directory \<^verbatim>\<open>filepath.Abs\<close>
  uses, \<open>None\<close> when it cannot be read.
\<close>

fun clean_segs :: "string list \<Rightarrow> string list \<Rightarrow> string list" where
  "clean_segs acc [] = acc"
| "clean_segs acc (seg # segs) =
     (if seg = [] \<or> seg = ''.'' then clean_segs acc segs
      else if seg = ''..'' then clean_segs (butlast acc) segs
      else clean_segs (acc @ [seg]) segs)"

definition path_of :: "string list \<Rightarrow> string" where
  "path_of segs = ''/'' @ Join segs ''/''"

definition filepath_Abs :: "string option \<Rightarrow> string \<Rightarrow> string option" where
  "filepath_Abs wd p =
     (if HasPrefix p ''/'' then Some (path_of (clean_segs [] (Split p (CHR ''/''))))
      else map_option (\<lambda>d. path_of (clean_segs [] (Split (d @ ''/'' @ p) (CHR ''/'')))) wd)"

datatype path_error = PathEmpty | PathNotAbsolute | PathIllegalSegment | PathInvalidRoot path_error | PathEscapes

definition safepath_Clean :: "string option \<Rightarrow> string \<Rightarrow> path_error + string" where
  "safepath_Clean wd p =
     (if p = [] then Inl PathEmpty
      else case filepath_Abs wd p of
        None \<Rightarrow> Inl PathNotAbsolute
      | Some absp \<Rightarrow> if ''..'' \<in> set (Split absp (CHR ''/'')) then Inl PathIllegalSegment else Inr absp)"

definition UnderRoot :: "string option \<Rightarrow> string \<Rightarrow> string \<Rightarrow> path_error option" where
  "UnderRoot wd p root =
     (case safepath_Clean wd p of
        Inl e \<Rightarrow> Some e
      | Inr cleanP \<Rightarrow>
          (case safepath_Clean wd root of
             Inl e \<Rightarrow> Some (PathInvalidRoot e)
           | Inr cleanRoot \<Rightarrow>
               let cleanRoot = (if \<not> HasSuffix cleanRoot ''/'' then cleanRoot @ ''/'' else cleanRoot)
               in if \<not> HasPrefix (cleanP @ ''/'') cleanRoot then Some PathEscapes else None))"

subsection \<open>Containment\<close>

text \<open>A clean segment: not empty, no dots, no separator.\<close>

definition clean_seg :: "string \<Rightarrow> bool" where
  "clean_seg seg \<longleftrightarrow> seg \<noteq> [] \<and> seg \<noteq> ''.'' \<and> seg \<noteq> ''..'' \<and> CHR ''/'' \<notin> set seg"

text \<open>The segments a path denotes.\<close>

definition segments :: "string option \<Rightarrow> string \<Rightarrow> string list" where
  "segments wd p = clean_segs [] (Split (if HasPrefix p ''/'' then p else the wd @ ''/'' @ p) (CHR ''/''))"

lemma Split_no_sep: "seg \<in> set (Split s c) \<Longrightarrow> c \<notin> set seg"
proof (induction s arbitrary: seg)
  case (Cons x s)
  then show ?case by (cases "Split s c") (auto split: if_splits)
qed simp

lemma clean_segs_clean:
  "list_all clean_seg acc \<Longrightarrow> \<forall>seg\<in>set segs. CHR ''/'' \<notin> set seg \<Longrightarrow> list_all clean_seg (clean_segs acc segs)"
proof (induction acc segs rule: clean_segs.induct)
  case (2 acc seg segs)
  have "list_all clean_seg (butlast acc)" using 2(4) by (auto simp: list_all_iff dest: in_set_butlastD)
  moreover have "clean_seg seg" if "seg \<noteq> []" "seg \<noteq> ''.''" "seg \<noteq> ''..''" using that 2(5) by (simp add: clean_seg_def)
  ultimately show ?case using 2 by simp
qed simp

lemma segments_clean: "list_all clean_seg (segments wd p)"
  unfolding segments_def by (rule clean_segs_clean) (use Split_no_sep in auto)

lemma Split_append: "c \<notin> set seg \<Longrightarrow> Split (seg @ c # rest) c = seg # Split rest c"
  by (induction seg) auto

lemma Split_single: "c \<notin> set seg \<Longrightarrow> Split seg c = [seg]"
  by (induction seg) auto

lemma Split_path_of: "list_all clean_seg segs \<Longrightarrow> segs \<noteq> [] \<Longrightarrow> Split (path_of segs) (CHR ''/'') = [] # segs"
proof -
  have "list_all clean_seg segs \<Longrightarrow> segs \<noteq> [] \<Longrightarrow> Split (Join segs ''/'') (CHR ''/'') = segs"
    by (induction segs rule: induct_list012) (simp_all add: clean_seg_def Split_single Split_append)
  then show "list_all clean_seg segs \<Longrightarrow> segs \<noteq> [] \<Longrightarrow> Split (path_of segs) (CHR ''/'') = [] # segs"
    by (simp add: path_of_def)
qed

lemma no_dotdot: "list_all clean_seg segs \<Longrightarrow> ''..'' \<notin> set (Split (path_of segs) (CHR ''/''))"
  using Split_path_of [of segs] by (cases "segs = []") (auto simp: path_of_def list_all_iff clean_seg_def)

lemma safepath_Clean_segments:
  "p \<noteq> [] \<Longrightarrow> wd \<noteq> None \<Longrightarrow> safepath_Clean wd p = Inr (path_of (segments wd p))"
  using no_dotdot [OF segments_clean [of wd p]] by (auto simp: safepath_Clean_def filepath_Abs_def segments_def)

lemma path_no_slash: "list_all clean_seg segs \<Longrightarrow> segs \<noteq> [] \<Longrightarrow> \<not> HasSuffix (path_of segs) ''/''"
proof -
  have "list_all clean_seg segs \<Longrightarrow> segs \<noteq> [] \<Longrightarrow> Join segs ''/'' \<noteq> [] \<and> last (Join segs ''/'') \<noteq> CHR ''/''"
    by (induction segs rule: induct_list012) (auto simp: clean_seg_def dest: last_in_set)
  then show "list_all clean_seg segs \<Longrightarrow> segs \<noteq> [] \<Longrightarrow> \<not> HasSuffix (path_of segs) ''/''"
    by (auto simp: path_of_def HasSuffix_iff) (metis append_is_Nil_conv last_ConsR last_snoc not_Cons_self2)
qed

text \<open>The directory form: every segment followed by a separator.\<close>

definition dir_of :: "string list \<Rightarrow> string" where
  "dir_of segs = ''/'' @ concat (map (\<lambda>s. s @ ''/'') segs)"

lemma dir_of_path: "segs \<noteq> [] \<Longrightarrow> path_of segs @ ''/'' = dir_of segs"
proof -
  have "segs \<noteq> [] \<Longrightarrow> Join segs ''/'' @ ''/'' = concat (map (\<lambda>s. s @ ''/'') segs)"
    by (induction segs rule: induct_list012) simp_all
  then show "segs \<noteq> [] \<Longrightarrow> path_of segs @ ''/'' = dir_of segs" by (simp add: path_of_def dir_of_def)
qed

lemma seg_cancel:
  "CHR ''/'' \<notin> set a \<Longrightarrow> CHR ''/'' \<notin> set b \<Longrightarrow> a @ CHR ''/'' # u = b @ CHR ''/'' # v \<longleftrightarrow> a = b \<and> u = v"
  by (induction a arbitrary: b) (case_tac b; auto)+

lemma dir_prefix:
  "list_all clean_seg ps \<Longrightarrow> list_all clean_seg rs \<Longrightarrow>
   HasPrefix (concat (map (\<lambda>s. s @ ''/'') ps)) (concat (map (\<lambda>s. s @ ''/'') rs)) \<longleftrightarrow> prefix rs ps"
proof (induction rs arbitrary: ps)
  case (Cons r rs)
  show ?case
  proof (cases ps)
    case Nil
    then show ?thesis by (auto simp: HasPrefix_iff)
  next
    case (Cons p ps')
    then have "CHR ''/'' \<notin> set p" "CHR ''/'' \<notin> set r" using Cons.prems by (simp_all add: clean_seg_def)
    then show ?thesis using Cons Cons.IH [of ps'] Cons.prems by (auto simp: HasPrefix_iff seg_cancel)
  qed
qed simp

lemma under_root_segments:
  assumes "wd \<noteq> None"
  shows "UnderRoot wd p root = None \<longleftrightarrow> p \<noteq> [] \<and> root \<noteq> [] \<and> prefix (segments wd root) (segments wd p)"
proof (cases "p = [] \<or> root = []")
  case True
  then show ?thesis using safepath_Clean_segments [of p wd] assms
    by (cases "p = []") (auto simp: UnderRoot_def safepath_Clean_def)
next
  case False
  let ?ps = "segments wd p" and ?rs = "segments wd root"
  have clean: "list_all clean_seg ?ps" "list_all clean_seg ?rs" by (rule segments_clean)+
  have root: "(if \<not> HasSuffix (path_of ?rs) ''/'' then path_of ?rs @ ''/'' else path_of ?rs) = dir_of ?rs"
  proof (cases "?rs = []")
    case False
    then have "\<not> HasSuffix (path_of ?rs) ''/''" using path_no_slash clean(2) by blast
    then show ?thesis using dir_of_path [OF False] by simp
  qed (simp add: path_of_def dir_of_def HasSuffix_def)
  have "HasPrefix (path_of ?ps @ ''/'') (dir_of ?rs) \<longleftrightarrow> prefix ?rs ?ps"
  proof (cases "?ps = []")
    case True
    have "HasPrefix ''//'' (dir_of ?rs) \<longleftrightarrow> ?rs = []"
      using clean(2) by (cases ?rs) (auto simp: dir_of_def HasPrefix_iff clean_seg_def Cons_eq_append_conv)
    with True show ?thesis by (simp add: path_of_def)
  next
    case False
    then show ?thesis using dir_prefix [OF clean] by (simp add: dir_of_path dir_of_def HasPrefix_iff)
  qed
  with False show ?thesis
    using safepath_Clean_segments [of p wd] safepath_Clean_segments [of root wd] assms
    by (simp add: UnderRoot_def Let_def root)
qed

text \<open>
  The path guard decides containment. With a working directory, \<^verbatim>\<open>UnderRoot\<close> accepts a path exactly
  when both are given and the segments of the root are a prefix of the segments of the path,
  after dots are resolved: a sibling whose name merely starts with the root's is refused.
\<close>

theorem UnderRoot_iff_prefix:
  assumes "wd \<noteq> None"
  shows "UnderRoot wd p root = None \<longleftrightarrow> p \<noteq> [] \<and> root \<noteq> [] \<and> prefix (segments wd root) (segments wd p)"
  by (rule under_root_segments [OF assms])

theorem UnderRoot_iff_prefix_witness:
  "UnderRoot (Some ''/home/u'') ''../u/repo/a'' ''/home/u/repo'' = None \<and>
   UnderRoot (Some ''/home/u'') ''/home/u/repo2'' ''/home/u/repo'' \<noteq> None"
proof -
  have "prefix (segments (Some ''/home/u'') ''/home/u/repo'') (segments (Some ''/home/u'') ''../u/repo/a'')" by code_simp
  moreover have "\<not> prefix (segments (Some ''/home/u'') ''/home/u/repo'') (segments (Some ''/home/u'') ''/home/u/repo2'')" by code_simp
  ultimately show ?thesis
    using UnderRoot_iff_prefix [of "Some ''/home/u''" "''../u/repo/a''" "''/home/u/repo''"]
      UnderRoot_iff_prefix [of "Some ''/home/u''" "''/home/u/repo2''" "''/home/u/repo''"] by simp
qed

end
