(* ===== verification/TurnBroker.thy ===== *)
theory TurnBroker
  imports Routing Scratch Guards
begin

section \<open>The turn broker (internal/broker/broker.go, internal/broker/a2a.go)\<close>

text \<open>
  The hand-off sessions the daemon serves: the server's state and the handlers over it, those
  of the HTTP interface and those of A2A. A handler is atomic. The mutex is a flag: a handler
  that panics between \<^verbatim>\<open>Lock\<close> and \<^verbatim>\<open>Unlock\<close> leaves it locked, as nothing defers the unlock,
  and whoever locks it later blocks. A nil pointer or map is \<open>None\<close>. What a request's
  environment does is a record; what the server was built with is another.
\<close>

subsection \<open>A2A data\<close>

type_synonym TaskState = string

abbreviation TaskStateSubmitted where "TaskStateSubmitted \<equiv> ''submitted''"
abbreviation TaskStateWorking where "TaskStateWorking \<equiv> ''working''"
abbreviation TaskStateInputRequired where "TaskStateInputRequired \<equiv> ''input_required''"
abbreviation TaskStateCompleted where "TaskStateCompleted \<equiv> ''completed''"
abbreviation TaskStateFailed where "TaskStateFailed \<equiv> ''failed''"
abbreviation TaskStateCanceled where "TaskStateCanceled \<equiv> ''canceled''"
abbreviation TaskStateRejected where "TaskStateRejected \<equiv> ''rejected''"

definition TaskState_IsTerminal :: "TaskState \<Rightarrow> bool" where
  "TaskState_IsTerminal s \<longleftrightarrow>
     s = TaskStateCompleted \<or> s = TaskStateFailed \<or> s = TaskStateCanceled \<or> s = TaskStateRejected"

record A2APart =
  ap_Kind :: string
  ap_Text :: string

record A2ATaskStatus =
  as_State :: TaskState
  as_Reason :: string

record A2ATask =
  at_ID :: string
  at_SessionID :: string
  at_Status :: A2ATaskStatus

record A2ATaskUpdateEvent =
  ae_ID :: string
  ae_Status :: A2ATaskStatus
  ae_Final :: bool

record a2a_channel =
  ac_buf :: "A2ATaskUpdateEvent list"
  ac_closed :: bool

definition terminalReasonToTaskState :: "bool \<Rightarrow> string \<Rightarrow> TaskState" where
  "terminalReasonToTaskState terminal reason =
     (if \<not> terminal then TaskStateWorking else if reason = ''canceled'' then TaskStateCanceled else TaskStateCompleted)"

definition mapSessionToA2ATask :: "Session \<Rightarrow> A2ATask" where
  "mapSessionToA2ATask s =
     \<lparr>at_ID = se_ID s, at_SessionID = se_ID s, at_Status = \<lparr>as_State = TaskStateSubmitted, as_Reason = []\<rparr>\<rparr>"

definition textFromParts :: "A2APart list \<Rightarrow> string option" where
  "textFromParts parts =
     (let texts = filter (\<lambda>t. t \<noteq> []) (map ap_Text parts)
      in if texts = [] then None else Some (Join texts '' ''))"

subsection \<open>The server's state\<close>

record sessionState =
  ss_turnCount :: int
  ss_totalUsage :: Usage
  ss_lastTurn :: "LastTurn option"
  ss_lastResp :: "TurnResponse option"
  ss_preset :: Preset
  ss_scratch :: "scratch option"
  ss_createdAt :: int
  ss_terminal :: bool
  ss_terminalReason :: string
  ss_dryRounds :: int
  ss_seenArtifacts :: "string set option"
  ss_notify :: "nat option"
  ss_a2aSubs :: "nat list"

record turn_server =
  ts_store :: session_store
  ts_scratch :: "string \<Rightarrow> bytes option"
  ts_pendingReqs :: "string \<Rightarrow> TurnRequest option"
  ts_sessionStates :: "string \<Rightarrow> sessionState option"
  ts_chans :: "nat \<Rightarrow> a2a_channel"
  ts_nextChan :: nat
  ts_notified :: "nat set"
  ts_nextNotify :: nat
  ts_wedged :: bool

record broker_config =
  bc_meta :: "Session \<Rightarrow> bytes"
  bc_put :: "TurnRecord \<Rightarrow> bytes"
  bc_get :: "bytes \<Rightarrow> TurnRecord option"
  bc_quote :: "string \<Rightarrow> string"
  bc_dir :: string

text \<open>\<open>te_ctx i\<close>: the request's context has ended at check \<open>i\<close> of the handler.\<close>

record turn_env =
  te_nano :: int
  te_now :: int
  te_ctx :: "nat \<Rightarrow> bool"
  te_create :: create_outcome
  te_append :: append_outcome
  te_replay :: replay_outcome
  te_scratch :: scratch_outcome
  te_scratch_unreadable :: bool

datatype turn_reply =
    TurnHttpError nat
  | SessionReply nat Session
  | TurnStream TurnRequest
  | WaitFor "nat option"
  | NoContent
  | ClientGone
  | RpcError int string
  | TaskReply A2ATask
  | UpdateStream A2ATaskUpdateEvent "nat option"
  | StreamOver
  | StreamWaits
  | HandlerPanic
  | HandlerBlocked

definition NewServer :: turn_server where
  "NewServer =
     \<lparr>ts_store = NewStore, ts_scratch = Map.empty, ts_pendingReqs = Map.empty, ts_sessionStates = Map.empty,
      ts_chans = (\<lambda>c. \<lparr>ac_buf = [], ac_closed = False\<rparr>), ts_nextChan = 0, ts_notified = {}, ts_nextNotify = 0,
      ts_wedged = False\<rparr>"

text \<open>\<^verbatim>\<open>make(chan struct{})\<close> for the long-pollers; \<open>ts_notified\<close> are the closed ones.\<close>

definition new_notify :: "turn_server \<Rightarrow> nat \<times> turn_server" where
  "new_notify sv = (ts_nextNotify sv, sv\<lparr>ts_nextNotify := Suc (ts_nextNotify sv)\<rparr>)"

definition put_state :: "string \<Rightarrow> sessionState \<Rightarrow> turn_server \<Rightarrow> turn_server" where
  "put_state sid s sv = sv\<lparr>ts_sessionStates := (ts_sessionStates sv)(sid \<mapsto> s)\<rparr>"

definition new_state :: "Preset \<Rightarrow> scratch option \<Rightarrow> string set option \<Rightarrow> int \<Rightarrow> nat option \<Rightarrow> sessionState" where
  "new_state p scratch seen created notify =
     \<lparr>ss_turnCount = 0, ss_totalUsage = \<lparr>u_TokensIn = 0, u_TokensOut = 0, u_Ms = 0\<rparr>, ss_lastTurn = None,
      ss_lastResp = None, ss_preset = p, ss_scratch = scratch, ss_createdAt = created, ss_terminal = False,
      ss_terminalReason = [], ss_dryRounds = 0, ss_seenArtifacts = seen, ss_notify = notify, ss_a2aSubs = []\<rparr>"

subsection \<open>Creating and reading a session\<close>

text \<open>A session's state is entered under the mutex, after the store has made the session.\<close>

definition enter_session ::
  "broker_config \<Rightarrow> turn_env \<Rightarrow> Preset \<Rightarrow> Task \<Rightarrow> (Session \<Rightarrow> scratch option) \<Rightarrow> string set option \<Rightarrow>
   (store_error \<Rightarrow> turn_reply) \<Rightarrow> (Session \<Rightarrow> turn_reply) \<Rightarrow> turn_server \<Rightarrow> turn_reply \<times> turn_server" where
  "enter_session cfg ev p task scratch seen failed reply sv =
     (let (r, store) = Store_Create (bc_meta cfg) (te_create ev) (te_ctx ev 0) (te_nano ev) (te_now ev) p task (ts_store sv);
          sv1 = sv\<lparr>ts_store := store\<rparr>
      in case r of
           Inl e \<Rightarrow> (failed e, sv1)
         | Inr sess \<Rightarrow>
             if ts_wedged sv1 then (HandlerBlocked, sv1)
             else let (n, sv2) = new_notify sv1
                  in (reply sess, put_state (se_ID sess) (new_state p (scratch sess) seen (se_CreatedAt sess) (Some n)) sv2))"

definition handleCreateSession ::
  "broker_config \<Rightarrow> turn_env \<Rightarrow> (Preset \<times> Task) option \<Rightarrow> turn_server \<Rightarrow> turn_reply \<times> turn_server" where
  "handleCreateSession cfg ev body sv =
     (case body of
        None \<Rightarrow> (TurnHttpError 400, sv)
      | Some (p, task) \<Rightarrow>
          enter_session cfg ev p task
            (\<lambda>sess. Some \<lparr>sm_path = SessionDir (bc_dir cfg) (se_ID sess) @ ''/scratch.md'', sm_maxKB = sc_MaxKB (p_Scratch p)\<rparr>)
            (Some {}) (\<lambda>e. TurnHttpError 500) (SessionReply 201) sv)"

definition handleGetSession :: "turn_env \<Rightarrow> string \<Rightarrow> turn_server \<Rightarrow> turn_reply" where
  "handleGetSession ev sid sv =
     (case Store_Get (te_ctx ev 0) sid (ts_store sv) of Inl e \<Rightarrow> TurnHttpError 404 | Inr sess \<Rightarrow> SessionReply 200 sess)"

subsection \<open>The next turn\<close>

definition role_of :: "Preset \<Rightarrow> string \<Rightarrow> Role" where
  "role_of p roleID =
     (case List.find (\<lambda>r. r_ID r = roleID) (p_Roles p) of Some r \<Rightarrow> r | None \<Rightarrow> \<lparr>r_ID = [], r_Runtime = [], r_Model = []\<rparr>)"

definition turn_request ::
  "turn_env \<Rightarrow> string \<Rightarrow> sessionState \<Rightarrow> Budget \<Rightarrow> Session \<Rightarrow> string \<Rightarrow> scratch \<Rightarrow> bytes option \<Rightarrow> TurnRequest" where
  "turn_request ev sid s remaining sess roleID m pad =
     (let role = role_of (ss_preset s) roleID;
          scratchContent = (case Scratch_Read (te_scratch_unreadable ev) pad of Inl e \<Rightarrow> [] | Inr c \<Rightarrow> c)
      in \<lparr>tq_Session = sid, tq_Turn = ss_turnCount s + 1, tq_Role = roleID, tq_RuntimeHint = r_Runtime role,
          tq_ModelHint = r_Model role, tq_Budget = remaining, tq_ScratchPath = sm_path m, tq_Scratch = scratchContent,
          tq_LastTurn = ss_lastTurn s, tq_Task = se_Task sess, tq_WorkContract = None,
          tq_ExitWhen = p_ExitWhen (ss_preset s)\<rparr>)"

text \<open>One pass of the loop; \<open>WaitFor\<close> when the turn is another role's.\<close>

definition next_pass :: "turn_env \<Rightarrow> string \<Rightarrow> string \<Rightarrow> turn_server \<Rightarrow> turn_reply \<times> turn_server" where
  "next_pass ev sid role sv =
     (if ts_wedged sv then (HandlerBlocked, sv)
      else case ts_sessionStates sv sid of
        None \<Rightarrow> (TurnHttpError 404, sv)
      | Some s \<Rightarrow>
          if ss_terminal s then (TurnHttpError 410, sv)
          else
            let remaining = Remaining (p_Budget (ss_preset s)) (ss_totalUsage s) (ss_turnCount s) in
            if IsExhausted remaining
            then (TurnHttpError 410, put_state sid (s\<lparr>ss_terminal := True, ss_terminalReason := ''budget exhausted''\<rparr>) sv)
            else case Store_Get (te_ctx ev 0) sid (ts_store sv) of
              Inl e \<Rightarrow> (TurnHttpError 500, sv)
            | Inr sess \<Rightarrow>
                let turn = ss_turnCount s + 1 in
                case Next (ss_preset s) (te_ctx ev 1) (ss_lastResp s) turn of
                  Inl e \<Rightarrow> (TurnHttpError 500, sv)
                | Inr roleID \<Rightarrow>
                    if role = [] \<or> role = roleID then
                      (case ss_scratch s of
                         None \<Rightarrow> (HandlerPanic, sv\<lparr>ts_wedged := True\<rparr>)
                       | Some m \<Rightarrow>
                           let req = turn_request ev sid s remaining sess roleID m (ts_scratch sv sid)
                           in (if te_ctx ev 2 then ClientGone else TurnStream req,
                               sv\<lparr>ts_pendingReqs := (ts_pendingReqs sv)(sid \<mapsto> req)\<rparr>))
                    else (WaitFor (ss_notify s), sv))"

text \<open>What ends a wait; a notified handler makes another pass.\<close>

datatype wake = WakeGone | WakeNotified | WakeTimeout

definition next_wait :: "turn_env \<Rightarrow> string \<Rightarrow> string \<Rightarrow> wake \<Rightarrow> turn_server \<Rightarrow> turn_reply \<times> turn_server" where
  "next_wait ev sid role w sv =
     (case w of WakeGone \<Rightarrow> (ClientGone, sv) | WakeTimeout \<Rightarrow> (NoContent, sv) | WakeNotified \<Rightarrow> next_pass ev sid role sv)"

subsection \<open>Posting a turn\<close>

text \<open>What a missing map entry reads as: the zero session state, with nil pointers.\<close>

definition zero_preset :: Preset where
  "zero_preset = \<lparr>p_Name = [], p_Description = [], p_Roles = [], p_Routing = [],
     p_Budget = \<lparr>b_TokensLeft = 0, b_TurnsLeft = 0, b_DeadlineMS = 0, b_DryRoundsThreshold = 0\<rparr>, p_ExitWhen = [],
     p_Scratch = \<lparr>sc_MaxKB = 0, sc_SummarizeWith = []\<rparr>\<rparr>"

definition state_at :: "turn_server \<Rightarrow> string \<Rightarrow> sessionState" where
  "state_at sv sid =
     (case ts_sessionStates sv sid of Some s \<Rightarrow> s | None \<Rightarrow> new_state zero_preset None None 0 None)"

definition add_usage :: "Usage option \<Rightarrow> Usage \<Rightarrow> Usage" where
  "add_usage u used =
     (case u of None \<Rightarrow> used
      | Some x \<Rightarrow> \<lparr>u_TokensIn = u_TokensIn used + u_TokensIn x, u_TokensOut = u_TokensOut used + u_TokensOut x,
                  u_Ms = u_Ms used + u_Ms x\<rparr>)"

text \<open>The state after a response, before its artifacts are looked at.\<close>

definition turn_taken :: "TurnRequest \<Rightarrow> TurnResponse \<Rightarrow> sessionState \<Rightarrow> sessionState" where
  "turn_taken req resp s =
     s\<lparr>ss_turnCount := ss_turnCount s + 1, ss_totalUsage := add_usage (tr_Usage resp) (ss_totalUsage s),
       ss_lastTurn := Some \<lparr>lt_From = tq_Role req, lt_Runtime = tq_RuntimeHint req, lt_Summary = tr_Summary resp,
         lt_Artifacts = tr_Artifacts resp, lt_SelfEval = tr_SelfEval resp, lt_Intent = tr_HandoffIntent resp,
         lt_Claims = tr_Claims resp\<rparr>,
       ss_lastResp := Some resp\<rparr>"

text \<open>
  The new artifacts are counted and remembered (a write to a nil map panics), and the dry
  rounds with them.
\<close>

definition count_artifacts :: "TurnResponse \<Rightarrow> sessionState \<Rightarrow> sessionState option" where
  "count_artifacts resp s =
     (case ss_seenArtifacts s of
        None \<Rightarrow>
          if tr_Artifacts resp \<noteq> [] then None
          else Some (s\<lparr>ss_dryRounds := (if \<not> tr_Done resp \<and> tr_HandoffTo resp = [] then ss_dryRounds s + 1 else 0)\<rparr>)
      | Some seen \<Rightarrow>
          let (new, seen') = collectNewArtifacts seen (tr_Artifacts resp)
          in Some (s\<lparr>ss_seenArtifacts := Some seen',
                    ss_dryRounds := (if new = [] \<and> \<not> tr_Done resp \<and> tr_HandoffTo resp = [] then ss_dryRounds s + 1
                                     else 0)\<rparr>))"

text \<open>The first critical section; \<open>Inl\<close> when the handler ends there.\<close>

definition post_record ::
  "turn_env \<Rightarrow> string \<Rightarrow> TurnResponse \<Rightarrow> turn_server \<Rightarrow> (turn_reply + TurnRequest) \<times> turn_server" where
  "post_record ev sid resp sv =
     (if ts_wedged sv then (Inl HandlerBlocked, sv)
      else case ts_pendingReqs sv sid of
        None \<Rightarrow> (Inl (TurnHttpError 400), sv)
      | Some req \<Rightarrow>
          let sv1 = sv\<lparr>ts_pendingReqs := (ts_pendingReqs sv)(sid := None)\<rparr> in
          (case count_artifacts resp (turn_taken req resp (state_at sv sid)) of
             None \<Rightarrow> (Inl HandlerPanic, sv1\<lparr>ts_wedged := True\<rparr>)
           | Some s \<Rightarrow>
               (case ss_scratch s of
                  None \<Rightarrow> (Inl HandlerPanic, sv1\<lparr>ts_wedged := True\<rparr>)
                | Some m \<Rightarrow>
                    (Inr req,
                     put_state sid s (sv1\<lparr>ts_scratch := (ts_scratch sv1)(sid :=
                       snd (Scratch_Append (te_scratch ev) m (Compact resp @ [CHR 0x0A]) (ts_scratch sv1 sid)))\<rparr>)))))"

text \<open>A send that does not wait; a closed channel panics.\<close>

fun notify_subs :: "A2ATaskUpdateEvent \<Rightarrow> nat list \<Rightarrow> (nat \<Rightarrow> a2a_channel) \<Rightarrow> (nat \<Rightarrow> a2a_channel) option" where
  "notify_subs evt [] chans = Some chans"
| "notify_subs evt (c # cs) chans =
     (if ac_closed (chans c) then None
      else if length (ac_buf (chans c)) < 4
      then notify_subs evt cs (chans(c := (chans c)\<lparr>ac_buf := ac_buf (chans c) @ [evt]\<rparr>))
      else notify_subs evt cs chans)"

fun close_subs :: "nat list \<Rightarrow> (nat \<Rightarrow> a2a_channel) \<Rightarrow> (nat \<Rightarrow> a2a_channel) option" where
  "close_subs [] chans = Some chans"
| "close_subs (c # cs) chans =
     (if ac_closed (chans c) then None else close_subs cs (chans(c := (chans c)\<lparr>ac_closed := True\<rparr>)))"

definition status_event :: "string \<Rightarrow> sessionState \<Rightarrow> A2ATaskUpdateEvent" where
  "status_event sid s =
     \<lparr>ae_ID = sid,
      ae_Status = \<lparr>as_State = terminalReasonToTaskState (ss_terminal s) (ss_terminalReason s), as_Reason = ss_terminalReason s\<rparr>,
      ae_Final = ss_terminal s\<rparr>"

definition exit_state_of :: "sessionState \<Rightarrow> TurnRecord list \<Rightarrow> exit_state" where
  "exit_state_of s records =
     \<lparr>ex_TurnCount = ss_turnCount s, ex_Usage = ss_totalUsage s,
      ex_Budget = Remaining (p_Budget (ss_preset s)) (ss_totalUsage s) (ss_turnCount s), ex_StartTime = ss_createdAt s,
      ex_LastResponse = ss_lastResp s, ex_DeadlineMS = b_DeadlineMS (p_Budget (ss_preset s)),
      ex_DryRounds = ss_dryRounds s, ex_Records = records\<rparr>"

definition broker_evaluator :: "broker_config \<Rightarrow> turn_env \<Rightarrow> evaluator" where
  "broker_evaluator cfg ev = NewEvaluator False (te_now ev) (bc_quote cfg) (\<lambda>args. ShellFails)"

text \<open>The second critical section: the exit conditions, the long-pollers and the subscribers.\<close>

definition post_evaluate ::
  "broker_config \<Rightarrow> turn_env \<Rightarrow> string \<Rightarrow> TurnRecord list \<Rightarrow> turn_server \<Rightarrow> turn_reply option \<times> turn_server" where
  "post_evaluate cfg ev sid records sv =
     (if ts_wedged sv then (Some HandlerBlocked, sv)
      else
        let s = state_at sv sid;
            s1 = (case Evaluate (broker_evaluator cfg ev) (\<lambda>i. te_ctx ev (3 + i)) (exit_state_of s records) (p_ExitWhen (ss_preset s)) of
                    Inr (Some reason) \<Rightarrow> s\<lparr>ss_terminal := True, ss_terminalReason := reason\<rparr>
                  | _ \<Rightarrow> s);
            (n, sv1) = new_notify sv;
            s2 = s1\<lparr>ss_notify := Some n\<rparr>
        in case notify_subs (status_event sid s2) (ss_a2aSubs s2) (ts_chans sv1) of
             None \<Rightarrow> (Some HandlerPanic, sv1\<lparr>ts_wedged := True\<rparr>)
           | Some chans \<Rightarrow>
               if ss_terminal s2 then
                 (case close_subs (ss_a2aSubs s2) chans of
                    None \<Rightarrow> (Some HandlerPanic, sv1\<lparr>ts_chans := chans, ts_wedged := True\<rparr>)
                  | Some chans' \<Rightarrow>
                      (None, put_state sid (s2\<lparr>ss_a2aSubs := []\<rparr>)
                        (sv1\<lparr>ts_chans := chans', ts_notified := set_option (ss_notify s) \<union> ts_notified sv1\<rparr>)))
               else (None, put_state sid s2 (sv1\<lparr>ts_chans := chans, ts_notified := set_option (ss_notify s) \<union> ts_notified sv1\<rparr>)))"

definition handlePostTurn ::
  "broker_config \<Rightarrow> turn_env \<Rightarrow> string \<Rightarrow> TurnResponse option \<Rightarrow> turn_server \<Rightarrow> turn_reply \<times> turn_server" where
  "handlePostTurn cfg ev sid body sv =
     (case body of
        None \<Rightarrow> (TurnHttpError 400, sv)
      | Some resp \<Rightarrow>
          (case post_record ev sid resp sv of
             (Inl r, sv1) \<Rightarrow> (r, sv1)
           | (Inr req, sv1) \<Rightarrow>
               (case Store_Append (bc_put cfg) (te_append ev) (te_ctx ev 0) (te_now ev) sid req resp (ts_store sv1) of
                  (Some e, store) \<Rightarrow> (TurnHttpError 500, sv1\<lparr>ts_store := store\<rparr>)
                | (None, store) \<Rightarrow>
                    let sv2 = sv1\<lparr>ts_store := store\<rparr> in
                    (case Store_Replay (bc_get cfg) (te_replay ev) (te_ctx ev 1) sid store of
                       Inl e \<Rightarrow> (TurnHttpError 500, sv2)
                     | Inr records \<Rightarrow>
                         (case post_evaluate cfg ev sid records sv2 of
                            (Some r, sv3) \<Rightarrow> (r, sv3)
                          | (None, sv3) \<Rightarrow>
                              (case Store_Get (te_ctx ev 2) sid (ts_store sv3) of
                                 Inl e \<Rightarrow> (TurnHttpError 500, sv3)
                               | Inr sess \<Rightarrow> (SessionReply 200 sess, sv3)))))))"

subsection \<open>A2A requests\<close>

datatype a2a_method = SendMessage | GetTask | CancelTask | SubscribeToTask

text \<open>The dispatch on the method name, with the aliases of the draft.\<close>

definition a2a_dispatch :: "string \<Rightarrow> a2a_method option" where
  "a2a_dispatch m =
     (if m = ''SendMessage'' \<or> m = ''tasks/send'' then Some SendMessage
      else if m = ''SubscribeToTask'' \<or> m = ''tasks/sendSubscribe'' then Some SubscribeToTask
      else if m = ''GetTask'' \<or> m = ''tasks/get'' then Some GetTask
      else if m = ''CancelTask'' \<or> m = ''tasks/cancel'' then Some CancelTask
      else None)"

text \<open>\<open>presets\<close> are the embedded presets, \<open>None\<close> when they do not load; \<open>None\<close> params do not decode.\<close>

definition handleA2ASend ::
  "broker_config \<Rightarrow> turn_env \<Rightarrow> (string \<Rightarrow> Preset option) option \<Rightarrow> A2APart list option \<Rightarrow> turn_server \<Rightarrow>
   turn_reply \<times> turn_server" where
  "handleA2ASend cfg ev presets params sv =
     (case params of
        None \<Rightarrow> (RpcError (-32602) ''Invalid params'', sv)
      | Some parts \<Rightarrow>
          (case textFromParts parts of
             None \<Rightarrow> (RpcError (-32602) ''Invalid params: missing message'', sv)
           | Some message \<Rightarrow>
               (case presets of
                  None \<Rightarrow> (RpcError (-32603) ''Internal error: cannot load presets'', sv)
                | Some ps \<Rightarrow>
                    (case ps ''solo-ralph'' of
                       None \<Rightarrow> (RpcError (-32603) ''Internal error: default preset not found'', sv)
                     | Some p \<Rightarrow>
                         enter_session cfg ev p \<lparr>t_Title = ''A2A task'', t_Body = message, t_RepoRoot = []\<rparr>
                           (\<lambda>sess. None) None (\<lambda>e. RpcError (-32603) ''Internal error: cannot create session'')
                           (\<lambda>sess. TaskReply (mapSessionToA2ATask sess)) sv))))"

definition taskIDFromParams :: "string option \<Rightarrow> turn_reply + string" where
  "taskIDFromParams params =
     (case params of
        None \<Rightarrow> Inl (RpcError (-32602) ''Invalid params'')
      | Some tid \<Rightarrow> if tid = [] then Inl (RpcError (-32602) ''Invalid params: missing id'') else Inr tid)"

definition handleA2AGet :: "turn_env \<Rightarrow> string option \<Rightarrow> turn_server \<Rightarrow> turn_reply" where
  "handleA2AGet ev params sv =
     (case taskIDFromParams params of
        Inl r \<Rightarrow> r
      | Inr tid \<Rightarrow>
          (case Store_Get (te_ctx ev 0) tid (ts_store sv) of
             Inl e \<Rightarrow> RpcError (-32602) ''Task not found''
           | Inr sess \<Rightarrow>
               if ts_wedged sv then HandlerBlocked
               else case ts_sessionStates sv tid of
                 None \<Rightarrow> TaskReply (mapSessionToA2ATask sess)
               | Some s \<Rightarrow> TaskReply ((mapSessionToA2ATask sess)\<lparr>at_Status := ae_Status (status_event tid s)\<rparr>)))"

fun notify_and_close :: "A2ATaskUpdateEvent \<Rightarrow> nat list \<Rightarrow> (nat \<Rightarrow> a2a_channel) \<Rightarrow> (nat \<Rightarrow> a2a_channel) option" where
  "notify_and_close evt [] chans = Some chans"
| "notify_and_close evt (c # cs) chans =
     (if ac_closed (chans c) then None
      else notify_and_close evt cs
        (chans(c := \<lparr>ac_buf = (if length (ac_buf (chans c)) < 4 then ac_buf (chans c) @ [evt] else ac_buf (chans c)),
                     ac_closed = True\<rparr>)))"

definition handleA2ACancel :: "turn_env \<Rightarrow> string option \<Rightarrow> turn_server \<Rightarrow> turn_reply \<times> turn_server" where
  "handleA2ACancel ev params sv =
     (case taskIDFromParams params of
        Inl r \<Rightarrow> (r, sv)
      | Inr tid \<Rightarrow>
          if ts_wedged sv then (HandlerBlocked, sv)
          else case ts_sessionStates sv tid of
            None \<Rightarrow> (RpcError (-32602) ''Task not found'', sv)
          | Some s \<Rightarrow>
              if ss_terminal s then (RpcError (-32602) ''Task already terminated'', sv)
              else
                let (n, sv1) = new_notify sv;
                    s1 = s\<lparr>ss_terminal := True, ss_terminalReason := ''canceled'', ss_notify := Some n\<rparr>
                in case notify_and_close (status_event tid s1) (ss_a2aSubs s1) (ts_chans sv1) of
                     None \<Rightarrow> (HandlerPanic, sv1\<lparr>ts_wedged := True\<rparr>)
                   | Some chans \<Rightarrow>
                       let sv2 = put_state tid (s1\<lparr>ss_a2aSubs := []\<rparr>)
                                   (sv1\<lparr>ts_chans := chans, ts_notified := set_option (ss_notify s) \<union> ts_notified sv1\<rparr>)
                       in case Store_Get (te_ctx ev 0) tid (ts_store sv2) of
                            Inl e \<Rightarrow> (RpcError (-32603) ''Internal error'', sv2)
                          | Inr sess \<Rightarrow>
                              (TaskReply ((mapSessionToA2ATask sess)\<lparr>at_Status :=
                                 \<lparr>as_State = TaskStateCanceled, as_Reason = ''canceled''\<rparr>\<rparr>), sv2))"

text \<open>A subscription answers with the current status; the channel is there unless the task has ended.\<close>

definition handleA2ASendSubscribe :: "string option \<Rightarrow> turn_server \<Rightarrow> turn_reply \<times> turn_server" where
  "handleA2ASendSubscribe params sv =
     (case taskIDFromParams params of
        Inl r \<Rightarrow> (r, sv)
      | Inr tid \<Rightarrow>
          if ts_wedged sv then (HandlerBlocked, sv)
          else case ts_sessionStates sv tid of
            None \<Rightarrow> (RpcError (-32602) ''Task not found'', sv)
          | Some s \<Rightarrow>
              if ss_terminal s then (UpdateStream (status_event tid s) None, sv)
              else
                let c = ts_nextChan sv;
                    sv1 = sv\<lparr>ts_chans := (ts_chans sv)(c := \<lparr>ac_buf = [], ac_closed = False\<rparr>), ts_nextChan := Suc c\<rparr>
                in (UpdateStream (status_event tid s) (Some c), put_state tid (s\<lparr>ss_a2aSubs := ss_a2aSubs s @ [c]\<rparr>) sv1))"

text \<open>
  One round of a subscriber's loop. \<open>gone\<close> is the choice of the select when the request's
  context has ended: the channel is taken off the list and closed.
\<close>

definition subscriber_round :: "bool \<Rightarrow> string \<Rightarrow> nat \<Rightarrow> turn_server \<Rightarrow> turn_reply \<times> turn_server" where
  "subscriber_round gone tid c sv =
     (if gone then
        (if ts_wedged sv then (HandlerBlocked, sv)
         else
           let s = state_at sv tid;
               sv1 = put_state tid (s\<lparr>ss_a2aSubs := filter (\<lambda>x. x \<noteq> c) (ss_a2aSubs s)\<rparr>) sv
           in if ac_closed (ts_chans sv1 c) then (HandlerPanic, sv1)
              else (StreamOver, sv1\<lparr>ts_chans := (ts_chans sv1)(c := (ts_chans sv1 c)\<lparr>ac_closed := True\<rparr>)\<rparr>))
      else case ac_buf (ts_chans sv c) of
        evt # rest \<Rightarrow>
          (if ae_Final evt then StreamOver else StreamWaits,
           sv\<lparr>ts_chans := (ts_chans sv)(c := (ts_chans sv c)\<lparr>ac_buf := rest\<rparr>)\<rparr>)
      | [] \<Rightarrow> (if ac_closed (ts_chans sv c) then StreamOver else StreamWaits, sv))"

text \<open>
  The endpoint. A body that is no request is \<open>None\<close>; of the parameters a method reads either
  the message or the task's id, \<open>None\<close> when they do not decode.
\<close>

record JSONRPCRequest =
  jr_Method :: string
  jr_Message :: "A2APart list option"
  jr_TaskID :: "string option"

definition handleA2A ::
  "broker_config \<Rightarrow> turn_env \<Rightarrow> (string \<Rightarrow> Preset option) option \<Rightarrow> JSONRPCRequest option \<Rightarrow> turn_server \<Rightarrow>
   turn_reply \<times> turn_server" where
  "handleA2A cfg ev presets body sv =
     (case body of
        None \<Rightarrow> (RpcError (-32700) ''Parse error'', sv)
      | Some req \<Rightarrow>
          (case a2a_dispatch (jr_Method req) of
             Some SendMessage \<Rightarrow> handleA2ASend cfg ev presets (jr_Message req) sv
           | Some SubscribeToTask \<Rightarrow> handleA2ASendSubscribe (jr_TaskID req) sv
           | Some GetTask \<Rightarrow> (handleA2AGet ev (jr_TaskID req) sv, sv)
           | Some CancelTask \<Rightarrow> handleA2ACancel ev (jr_TaskID req) sv
           | None \<Rightarrow> (RpcError (-32601) ''Method not found'', sv)))"

end
