(* ===== verification/Channels.thy ===== *)
theory Channels
  imports Main
begin

section \<open>Channels held in lists\<close>

text \<open>
  The discipline of channels that are kept in one list per key and closed when they leave it:
  what is on a list is allocated and open, on one list, once. The brokers close channels
  under this invariant, so that no close meets a closed channel.
\<close>

definition subs_ok :: "('k \<Rightarrow> nat list) \<Rightarrow> (nat \<Rightarrow> bool) \<Rightarrow> nat \<Rightarrow> bool" where
  "subs_ok subs closed next \<longleftrightarrow>
     (\<forall>k c. c \<in> set (subs k) \<longrightarrow> c < next \<and> \<not> closed c) \<and>
     (\<forall>k. distinct (subs k)) \<and>
     (\<forall>a b. a \<noteq> b \<longrightarrow> set (subs a) \<inter> set (subs b) = {}) \<and>
     (\<forall>c. closed c \<longrightarrow> c < next)"

lemma subs_ok_empty: "subs_ok (\<lambda>k. []) (\<lambda>c. False) n"
  by (simp add: subs_ok_def)

lemma subs_ok_open: "subs_ok subs closed next \<Longrightarrow> c \<in> set (subs k) \<Longrightarrow> \<not> closed c"
  by (simp add: subs_ok_def)

lemma subs_ok_distinct: "subs_ok subs closed next \<Longrightarrow> distinct (subs k)"
  by (simp add: subs_ok_def)

text \<open>A new channel joins a list.\<close>

lemma subs_ok_add:
  fixes subs :: "'k \<Rightarrow> nat list"
  assumes "subs_ok subs closed next"
  shows "subs_ok (subs(k := subs k @ [next])) closed (Suc next)"
proof -
  have old: "c < next" if "c \<in> set (subs a)" for a c using assms that by (auto simp: subs_ok_def)
  have disj: "set (subs a) \<inter> set (subs b) = {}" if "a \<noteq> b" for a b using assms that by (simp add: subs_ok_def)
  show ?thesis
    unfolding subs_ok_def
  proof (intro conjI allI impI)
    fix a b :: 'k assume "a \<noteq> b"
    then show "set ((subs(k := subs k @ [next])) a) \<inter> set ((subs(k := subs k @ [next])) b) = {}"
      using disj [of a b] old [of "next" a] old [of "next" b] by auto
  qed (use assms old in \<open>auto simp: subs_ok_def less_Suc_eq split: if_splits\<close>)
qed

text \<open>A list is closed and dropped.\<close>

lemma subs_ok_drop:
  assumes "subs_ok subs closed next"
  shows "subs_ok (subs(k := [])) (\<lambda>c. c \<in> set (subs k) \<or> closed c) next"
proof -
  have disj: "c \<notin> set (subs k)" if "c \<in> set (subs a)" "a \<noteq> k" for a c
    using assms that unfolding subs_ok_def by blast
  show ?thesis using assms disj by (auto simp: subs_ok_def split: if_splits)
qed

text \<open>One channel leaves its list and is closed; it may have been closed before.\<close>

lemma subs_ok_remove:
  fixes subs :: "'k \<Rightarrow> nat list"
  assumes "subs_ok subs closed next" "c \<in> set (subs k) \<or> closed c"
  shows "subs_ok (subs(k := filter (\<lambda>x. x \<noteq> c) (subs k))) (closed(c := True)) next"
proof -
  have else_where: "c \<notin> set (subs a)" if "a \<noteq> k" for a
    using assms that unfolding subs_ok_def by blast
  have disj: "set (subs a) \<inter> set (subs b) = {}" if "a \<noteq> b" for a b using assms(1) that by (simp add: subs_ok_def)
  show ?thesis
    unfolding subs_ok_def
  proof (intro conjI allI impI)
    fix a b :: 'k assume "a \<noteq> b"
    then show "set ((subs(k := filter (\<lambda>x. x \<noteq> c) (subs k))) a) \<inter> set ((subs(k := filter (\<lambda>x. x \<noteq> c) (subs k))) b) = {}"
      using disj [of a b] by auto
  qed (use assms else_where in \<open>auto simp: subs_ok_def split: if_splits\<close>)
qed


end
