(* ===== verification/TurnDaemon.thy ===== *)
theory TurnDaemon
  imports TurnBroker Channels Transition
begin

section \<open>The turn broker as a transition system\<close>

text \<open>
  The handlers of \<open>TurnBroker\<close> interleaved in any order, with the passes of the long-pollers
  and the rounds of the A2A subscribers; the invariant of every reachable server and what
  it implies: budgets, ends that are final, and the ways the broker gets stuck.
\<close>

subsection \<open>The invariant\<close>

definition subs_of :: "turn_server \<Rightarrow> string \<Rightarrow> nat list" where
  "subs_of sv sid = (case ts_sessionStates sv sid of None \<Rightarrow> [] | Some s \<Rightarrow> ss_a2aSubs s)"

definition waits_of :: "turn_server \<Rightarrow> string \<Rightarrow> nat list" where
  "waits_of sv sid =
     (case ts_sessionStates sv sid of None \<Rightarrow> [] | Some s \<Rightarrow> (case ss_notify s of None \<Rightarrow> [] | Some n \<Rightarrow> [n]))"

definition budget_turns :: "sessionState \<Rightarrow> int" where
  "budget_turns s = b_TurnsLeft (p_Budget (ss_preset s))"

definition state_ok :: "sessionState \<Rightarrow> bool" where
  "state_ok s \<longleftrightarrow> 0 \<le> ss_turnCount s \<and> (ss_turnCount s = 0 \<or> ss_turnCount s \<le> budget_turns s) \<and>
     (ss_scratch s = None \<longleftrightarrow> ss_seenArtifacts s = None)"

definition sessions_ok :: "turn_server \<Rightarrow> bool" where
  "sessions_ok sv \<longleftrightarrow> ids_generated (ts_store sv) \<and>
     (\<forall>sid s. ts_sessionStates sv sid = Some s \<longrightarrow> st_sessions (ts_store sv) sid \<noteq> None \<and> state_ok s) \<and>
     (\<forall>sid. ts_pendingReqs sv sid \<noteq> None \<longrightarrow>
        (\<exists>s. ts_sessionStates sv sid = Some s \<and> ss_turnCount s < budget_turns s))"

definition subscribers_ok :: "turn_server \<Rightarrow> bool" where
  "subscribers_ok sv \<longleftrightarrow> subs_ok (subs_of sv) (\<lambda>c. ac_closed (ts_chans sv c)) (ts_nextChan sv)"

definition waiters_ok :: "turn_server \<Rightarrow> bool" where
  "waiters_ok sv \<longleftrightarrow> subs_ok (waits_of sv) (\<lambda>n. n \<in> ts_notified sv) (ts_nextNotify sv)"

definition turn_server_ok :: "turn_server \<Rightarrow> bool" where
  "turn_server_ok sv \<longleftrightarrow> sessions_ok sv \<and> subscribers_ok sv \<and> waiters_ok sv"

lemma NewServer_ok: "turn_server_ok NewServer"
proof -
  have "subs_of NewServer = (\<lambda>k. [])" "waits_of NewServer = (\<lambda>k. [])"
    by (simp_all add: fun_eq_iff subs_of_def waits_of_def NewServer_def)
  then show ?thesis
    using subs_ok_empty [of 0]
    by (simp add: turn_server_ok_def sessions_ok_def subscribers_ok_def waiters_ok_def) (simp add: NewServer_def NewStore_ids)
qed

text \<open>The parts read different fields.\<close>

lemma put_state_simps [simp]:
  "ts_store (put_state sid s sv) = ts_store sv" "ts_scratch (put_state sid s sv) = ts_scratch sv"
  "ts_pendingReqs (put_state sid s sv) = ts_pendingReqs sv" "ts_chans (put_state sid s sv) = ts_chans sv"
  "ts_nextChan (put_state sid s sv) = ts_nextChan sv" "ts_notified (put_state sid s sv) = ts_notified sv"
  "ts_nextNotify (put_state sid s sv) = ts_nextNotify sv" "ts_wedged (put_state sid s sv) = ts_wedged sv"
  "ts_sessionStates (put_state sid s sv) = (ts_sessionStates sv)(sid \<mapsto> s)"
  by (simp_all add: put_state_def)

lemma subs_put [simp]: "subs_of (put_state sid s sv) = (subs_of sv)(sid := ss_a2aSubs s)"
  by (auto simp: subs_of_def)

lemma waits_put [simp]:
  "waits_of (put_state sid s sv) = (waits_of sv)(sid := (case ss_notify s of None \<Rightarrow> [] | Some n \<Rightarrow> [n]))"
  by (auto simp: waits_of_def)

lemma subs_cong: "ts_sessionStates sv' = ts_sessionStates sv \<Longrightarrow> subs_of sv' = subs_of sv"
  "ts_sessionStates sv' = ts_sessionStates sv \<Longrightarrow> waits_of sv' = waits_of sv"
  by (auto simp: subs_of_def waits_of_def)

lemma subs_simps [simp]:
  "subs_of (sv\<lparr>ts_store := x1\<rparr>) = subs_of sv" "subs_of (sv\<lparr>ts_scratch := x2\<rparr>) = subs_of sv"
  "subs_of (sv\<lparr>ts_pendingReqs := x3\<rparr>) = subs_of sv" "subs_of (sv\<lparr>ts_chans := x4\<rparr>) = subs_of sv"
  "subs_of (sv\<lparr>ts_nextChan := x5\<rparr>) = subs_of sv" "subs_of (sv\<lparr>ts_notified := x6\<rparr>) = subs_of sv"
  "subs_of (sv\<lparr>ts_nextNotify := x7\<rparr>) = subs_of sv" "subs_of (sv\<lparr>ts_wedged := x8\<rparr>) = subs_of sv"
  "waits_of (sv\<lparr>ts_store := x1\<rparr>) = waits_of sv" "waits_of (sv\<lparr>ts_scratch := x2\<rparr>) = waits_of sv"
  "waits_of (sv\<lparr>ts_pendingReqs := x3\<rparr>) = waits_of sv" "waits_of (sv\<lparr>ts_chans := x4\<rparr>) = waits_of sv"
  "waits_of (sv\<lparr>ts_nextChan := x5\<rparr>) = waits_of sv" "waits_of (sv\<lparr>ts_notified := x6\<rparr>) = waits_of sv"
  "waits_of (sv\<lparr>ts_nextNotify := x7\<rparr>) = waits_of sv" "waits_of (sv\<lparr>ts_wedged := x8\<rparr>) = waits_of sv"
  by (rule subs_cong; simp)+

lemma sessions_simps [simp]:
  "sessions_ok (sv\<lparr>ts_scratch := x2\<rparr>) = sessions_ok sv" "sessions_ok (sv\<lparr>ts_chans := x4\<rparr>) = sessions_ok sv"
  "sessions_ok (sv\<lparr>ts_nextChan := x5\<rparr>) = sessions_ok sv" "sessions_ok (sv\<lparr>ts_notified := x6\<rparr>) = sessions_ok sv"
  "sessions_ok (sv\<lparr>ts_nextNotify := x7\<rparr>) = sessions_ok sv" "sessions_ok (sv\<lparr>ts_wedged := x8\<rparr>) = sessions_ok sv"
  by (simp_all add: sessions_ok_def)

lemma ok_cong:
  assumes "ts_sessionStates sv' = ts_sessionStates sv" "ts_chans sv' = ts_chans sv" "ts_nextChan sv' = ts_nextChan sv"
    "ts_notified sv' = ts_notified sv" "ts_nextNotify sv' = ts_nextNotify sv" "sessions_ok sv'" "turn_server_ok sv"
  shows "turn_server_ok sv'"
  using assms by (simp add: turn_server_ok_def subscribers_ok_def waiters_ok_def subs_cong [OF assms(1)])

lemma wedge_ok: "turn_server_ok sv \<Longrightarrow> turn_server_ok (sv\<lparr>ts_wedged := True\<rparr>)"
  by (rule ok_cong [of _ sv]) (simp_all add: turn_server_ok_def sessions_ok_def)

lemma drop_pending_ok:
  "turn_server_ok sv \<Longrightarrow> turn_server_ok (sv\<lparr>ts_pendingReqs := (ts_pendingReqs sv)(sid := None)\<rparr>)"
  by (rule ok_cong [of _ sv]) (auto simp: turn_server_ok_def sessions_ok_def)

text \<open>The store may move on if it keeps its sessions.\<close>

lemma store_ok:
  assumes "turn_server_ok sv" "ids_generated store"
    "\<And>sid. st_sessions (ts_store sv) sid \<noteq> None \<Longrightarrow> st_sessions store sid \<noteq> None"
  shows "turn_server_ok (sv\<lparr>ts_store := store\<rparr>)"
  by (rule ok_cong [of _ sv]) (use assms in \<open>auto simp: turn_server_ok_def sessions_ok_def\<close>)

text \<open>A state may be replaced by one with the same channels.\<close>

lemma put_sessions_ok:
  assumes "sessions_ok sv" "st_sessions (ts_store sv) sid \<noteq> None" "state_ok s"
    "ts_pendingReqs sv sid \<noteq> None \<Longrightarrow> ss_turnCount s < budget_turns s"
  shows "sessions_ok (put_state sid s sv)"
  using assms by (auto simp: sessions_ok_def)

lemma put_same_ok:
  assumes "turn_server_ok sv" "ts_sessionStates sv sid = Some s0" "state_ok s"
    "ss_a2aSubs s = ss_a2aSubs s0" "ss_notify s = ss_notify s0"
    "ts_pendingReqs sv sid \<noteq> None \<Longrightarrow> ss_turnCount s < budget_turns s"
  shows "turn_server_ok (put_state sid s sv)"
proof -
  have "subs_of (put_state sid s sv) = subs_of sv" "waits_of (put_state sid s sv) = waits_of sv"
    using assms(2,4,5) by (auto simp: subs_of_def waits_of_def)
  moreover have "sessions_ok (put_state sid s sv)"
    by (rule put_sessions_ok) (use assms in \<open>auto simp: turn_server_ok_def sessions_ok_def\<close>)
  ultimately show ?thesis using assms(1) by (simp add: turn_server_ok_def subscribers_ok_def waiters_ok_def)
qed

lemma ok_state: "turn_server_ok sv \<Longrightarrow> ts_sessionStates sv sid = Some s \<Longrightarrow> state_ok s"
  by (simp add: turn_server_ok_def sessions_ok_def)

lemma ok_known: "turn_server_ok sv \<Longrightarrow> ts_sessionStates sv sid \<noteq> None \<Longrightarrow> st_sessions (ts_store sv) sid \<noteq> None"
  unfolding turn_server_ok_def sessions_ok_def by blast

text \<open>The store finds the sessions the server knows.\<close>

lemma known_get:
  assumes "turn_server_ok sv" "ts_sessionStates sv sid \<noteq> None"
  shows "sid \<noteq> [] \<and> (\<exists>sess. Store_Get False sid (ts_store sv) = Inr sess \<and> se_ID sess = sid)"
proof -
  obtain sess where sess: "st_sessions (ts_store sv) sid = Some sess" using ok_known [OF assms] by blast
  moreover have "ids_generated (ts_store sv)" using assms(1) by (simp add: turn_server_ok_def sessions_ok_def)
  ultimately obtain nano k where "se_ID sess = sid" "sid = show_int nano @ ''-'' @ show_int k"
    unfolding ids_generated_def by blast
  with sess show ?thesis by (simp add: Store_Get_def)
qed

lemma ok_pending:
  "turn_server_ok sv \<Longrightarrow> ts_pendingReqs sv sid \<noteq> None \<Longrightarrow>
   \<exists>s. ts_sessionStates sv sid = Some s \<and> ss_turnCount s < budget_turns s"
  by (auto simp: turn_server_ok_def sessions_ok_def)

lemma ok_pending_state:
  "turn_server_ok sv \<Longrightarrow> ts_sessionStates sv sid = Some s \<Longrightarrow> ts_pendingReqs sv sid \<noteq> None \<Longrightarrow>
   ss_turnCount s < budget_turns s"
  using ok_pending by fastforce

subsection \<open>Creating sessions\<close>

lemma enter_session_ok:
  assumes ok: "turn_server_ok sv" and "\<And>sess. scratch sess = None \<longleftrightarrow> seen = None"
    and e: "enter_session cfg ev p task scratch seen failed reply sv = (r, sv')"
  shows "turn_server_ok sv'"
proof -
  obtain res store where c: "Store_Create (bc_meta cfg) (te_create ev) (te_ctx ev 0) (te_nano ev) (te_now ev) p task
      (ts_store sv) = (res, store)" by fastforce
  have ids: "ids_generated (ts_store sv)" using ok by (simp add: turn_server_ok_def sessions_ok_def)
  have keeps: "st_sessions store sid \<noteq> None" if "st_sessions (ts_store sv) sid \<noteq> None" for sid
    using Create_sessions(2) [OF c] that by auto
  have store: "turn_server_ok (sv\<lparr>ts_store := store\<rparr>)"
    by (rule store_ok [OF ok _ keeps]) (use Create_ids [OF ids] c in \<open>metis snd_conv\<close>)
  show ?thesis
  proof (cases res)
    case (Inl err)
    with e c store show ?thesis by (simp add: enter_session_def)
  next
    case (Inr sess)
    show ?thesis
    proof (cases "ts_wedged sv")
      case True
      with Inr e c store show ?thesis by (auto simp: enter_session_def)
    next
      case False
      let ?sv1 = "sv\<lparr>ts_store := store\<rparr>"
      let ?s = "new_state p (scratch sess) seen (se_CreatedAt sess) (Some (ts_nextNotify sv))"
      let ?sv2 = "?sv1\<lparr>ts_nextNotify := Suc (ts_nextNotify sv)\<rparr>"
      have sv': "sv' = put_state (se_ID sess) ?s ?sv2"
        using Inr e c False by (auto simp: enter_session_def new_notify_def)
      have fresh: "st_sessions (ts_store sv) (se_ID sess) = None" "st_sessions store (se_ID sess) \<noteq> None"
        using Create_is_fresh [OF ids c [unfolded Inr]] by (auto simp: Store_Get_def split: if_splits option.splits)
      then have none: "ts_sessionStates sv (se_ID sess) = None" "ts_pendingReqs sv (se_ID sess) = None"
      proof -
        show none: "ts_sessionStates sv (se_ID sess) = None"
          using ok_known [OF ok] fresh(1) by blast
        show "ts_pendingReqs sv (se_ID sess) = None"
          using ok_pending [OF ok, of "se_ID sess"] none by (metis option.distinct(1))
      qed
      have "sessions_ok ?sv2" using store by (simp add: turn_server_ok_def sessions_ok_def)
      then have "sessions_ok sv'" unfolding sv'
        by (rule put_sessions_ok) (use fresh none assms(2) in \<open>simp_all add: state_ok_def new_state_def\<close>)
      moreover have "subs_of sv' = subs_of sv" using none by (auto simp: sv' subs_of_def new_state_def)
      moreover have "waits_of sv' = (waits_of sv)(se_ID sess := waits_of sv (se_ID sess) @ [ts_nextNotify sv])"
        using none by (auto simp: sv' waits_of_def new_state_def)
      ultimately show ?thesis
        using ok subs_ok_add [of "waits_of sv" _ "ts_nextNotify sv" "se_ID sess"]
        by (simp add: turn_server_ok_def subscribers_ok_def waiters_ok_def sv')
    qed
  qed
qed

lemma handleCreateSession_ok:
  "turn_server_ok sv \<Longrightarrow> handleCreateSession cfg ev body sv = (r, sv') \<Longrightarrow> turn_server_ok sv'"
  by (auto simp: handleCreateSession_def split: option.splits elim!: enter_session_ok [rotated 2])

lemma handleA2ASend_ok:
  "turn_server_ok sv \<Longrightarrow> handleA2ASend cfg ev presets params sv = (r, sv') \<Longrightarrow> turn_server_ok sv'"
  by (auto simp: handleA2ASend_def split: option.splits elim!: enter_session_ok [rotated 2])

subsection \<open>Passes of the long-poll\<close>

text \<open>A pass ends a session, enters a request, wedges the server, or changes nothing.\<close>

lemma next_pass_cases:
  assumes "next_pass ev sid role sv = (r, sv')"
  obtains (same) "sv' = sv" "\<And>req. r \<noteq> TurnStream req"
  | (exhausted) s where "ts_sessionStates sv sid = Some s" "\<not> ss_terminal s" "r = TurnHttpError 410"
      "sv' = put_state sid (s\<lparr>ss_terminal := True, ss_terminalReason := ''budget exhausted''\<rparr>) sv"
  | (wedged) s where "ts_sessionStates sv sid = Some s" "ss_scratch s = None" "r = HandlerPanic"
      "sv' = sv\<lparr>ts_wedged := True\<rparr>"
  | (served) s req where "ts_sessionStates sv sid = Some s" "\<not> ss_terminal s" "ss_turnCount s < budget_turns s"
      "tq_Turn req = ss_turnCount s + 1" "sv' = sv\<lparr>ts_pendingReqs := (ts_pendingReqs sv)(sid \<mapsto> req)\<rparr>"
      "r = TurnStream req \<or> r = ClientGone"
proof (cases "ts_wedged sv")
  case True
  with assms show ?thesis by (intro same) (auto simp: next_pass_def)
next
  case live: False
  show ?thesis
  proof (cases "ts_sessionStates sv sid")
    case None
    with assms live show ?thesis by (intro same) (auto simp: next_pass_def)
  next
    case (Some s)
    let ?rem = "Remaining (p_Budget (ss_preset s)) (ss_totalUsage s) (ss_turnCount s)"
    show ?thesis
    proof (cases "ss_terminal s \<or> IsExhausted ?rem")
      case True
      then consider "ss_terminal s" | "\<not> ss_terminal s" "IsExhausted ?rem" by blast
      then show ?thesis
      proof cases
        case 1
        with assms live Some show ?thesis by (intro same) (auto simp: next_pass_def)
      next
        case 2
        with assms live Some show ?thesis by (intro exhausted [OF Some]) (auto simp: next_pass_def Let_def)
      qed
    next
      case False
      then have "ss_turnCount s < budget_turns s"
        by (simp add: Remaining_def IsExhausted_def budget_turns_def Let_def)
      note budget = this
      have np: "next_pass ev sid role sv =
        (case Store_Get (te_ctx ev 0) sid (ts_store sv) of
           Inl e \<Rightarrow> (TurnHttpError 500, sv)
         | Inr sess \<Rightarrow>
             (case Next (ss_preset s) (te_ctx ev 1) (ss_lastResp s) (ss_turnCount s + 1) of
                Inl e \<Rightarrow> (TurnHttpError 500, sv)
              | Inr roleID \<Rightarrow>
                  if role = [] \<or> role = roleID then
                    (case ss_scratch s of
                       None \<Rightarrow> (HandlerPanic, sv\<lparr>ts_wedged := True\<rparr>)
                     | Some m \<Rightarrow>
                         let req = turn_request ev sid s ?rem sess roleID m (ts_scratch sv sid)
                         in (if te_ctx ev 2 then ClientGone else TurnStream req,
                             sv\<lparr>ts_pendingReqs := (ts_pendingReqs sv)(sid \<mapsto> req)\<rparr>))
                  else (WaitFor (ss_notify s), sv)))"
        unfolding next_pass_def Let_def Some option.case using live False by simp
      show ?thesis
      proof (cases "Store_Get (te_ctx ev 0) sid (ts_store sv)")
        case (Inl e)
        with assms np show ?thesis by (intro same) auto
      next
        case sess: (Inr sess)
        show ?thesis
        proof (cases "Next (ss_preset s) (te_ctx ev 1) (ss_lastResp s) (ss_turnCount s + 1)")
          case (Inl e)
          with assms np sess show ?thesis by (intro same) auto
        next
          case nxt: (Inr roleID)
          show ?thesis
          proof (cases "role = [] \<or> role = roleID")
            case False
            with assms np sess nxt show ?thesis by (intro same) auto
          next
            case True
            show ?thesis
            proof (cases "ss_scratch s")
              case None
              with assms np sess nxt True show ?thesis by (intro wedged [OF Some]) auto
            next
              case scratch: (Some m)
              let ?req = "turn_request ev sid s ?rem sess roleID m (ts_scratch sv sid)"
              have "r = (if te_ctx ev 2 then ClientGone else TurnStream ?req)"
                "sv' = sv\<lparr>ts_pendingReqs := (ts_pendingReqs sv)(sid \<mapsto> ?req)\<rparr>"
                using assms np sess nxt True scratch by (simp_all add: Let_def)
              with False budget show ?thesis
                by (intro served [OF Some _ budget, of ?req]) (auto simp: turn_request_def Let_def)
            qed
          qed
        qed
      qed
    qed
  qed
qed

lemma next_pass_ok:
  assumes "turn_server_ok sv" "next_pass ev sid role sv = (r, sv')"
  shows "turn_server_ok sv'"
  using assms(2)
proof (cases rule: next_pass_cases)
  case (exhausted s)
  have "state_ok s" by (rule ok_state [OF assms(1) exhausted(1)])
  then have "turn_server_ok (put_state sid (s\<lparr>ss_terminal := True, ss_terminalReason := ''budget exhausted''\<rparr>) sv)"
    by (intro put_same_ok [OF assms(1) exhausted(1)])
       (use ok_pending_state [OF assms(1) exhausted(1)] in \<open>simp_all add: state_ok_def budget_turns_def\<close>)
  with exhausted show ?thesis by simp
next
  case (served s req)
  show ?thesis unfolding served(5)
    by (rule ok_cong [of _ sv]) (use assms(1) served in \<open>auto simp: turn_server_ok_def sessions_ok_def\<close>)
qed (use assms(1) wedge_ok in auto)

subsection \<open>Posting a turn\<close>

lemma count_artifacts_keeps:
  assumes "count_artifacts resp (turn_taken req resp s) = Some s'"
  shows "ss_turnCount s' = ss_turnCount s + 1" "ss_preset s' = ss_preset s" "ss_a2aSubs s' = ss_a2aSubs s"
    "ss_notify s' = ss_notify s" "ss_scratch s' = ss_scratch s" "ss_terminal s' = ss_terminal s"
    "ss_terminalReason s' = ss_terminalReason s" "ss_lastResp s' = Some resp"
    "ss_seenArtifacts s' = None \<longleftrightarrow> ss_seenArtifacts s = None"
  using assms
  by (auto simp: count_artifacts_def turn_taken_def Let_def split: option.splits if_splits prod.splits)

lemma post_record_cases:
  assumes "turn_server_ok sv" "post_record ev sid resp sv = (x, sv')"
  obtains (same) r where "sv' = sv" "x = Inl r" "r = HandlerBlocked \<and> ts_wedged sv \<or> r = TurnHttpError 400"
  | (wedged) s where "ts_sessionStates sv sid = Some s" "ss_scratch s = None" "x = Inl HandlerPanic"
      "sv' = sv\<lparr>ts_pendingReqs := (ts_pendingReqs sv)(sid := None), ts_wedged := True\<rparr>"
  | (recorded) s0 s req pad where "\<not> ts_wedged sv" "ts_sessionStates sv sid = Some s0" "ts_pendingReqs sv sid = Some req"
      "count_artifacts resp (turn_taken req resp s0) = Some s" "x = Inr req"
      "sv' = put_state sid s (sv\<lparr>ts_pendingReqs := (ts_pendingReqs sv)(sid := None), ts_scratch := pad\<rparr>)"
proof (cases "ts_wedged sv \<or> ts_pendingReqs sv sid = None")
  case True
  with assms(2) have "sv' = sv \<and> (x = Inl HandlerBlocked \<and> ts_wedged sv \<or> x = Inl (TurnHttpError 400))"
    by (auto simp: post_record_def split: if_splits)
  with same show ?thesis by blast
next
  case False
  then obtain req where req: "ts_pendingReqs sv sid = Some req" "\<not> ts_wedged sv" by auto
  obtain s0 where s0: "ts_sessionStates sv sid = Some s0" using ok_pending [OF assms(1), of sid] req(1) by auto
  have st: "state_at sv sid = s0" by (simp add: state_at_def s0)
  have nil: "ss_scratch s0 = None \<longleftrightarrow> ss_seenArtifacts s0 = None"
    using ok_state [OF assms(1) s0] by (simp add: state_ok_def)
  show ?thesis
  proof (cases "count_artifacts resp (turn_taken req resp s0)")
    case None
    then have "ss_seenArtifacts s0 = None"
      by (auto simp: count_artifacts_def turn_taken_def Let_def split: option.splits prod.splits if_splits)
    with nil None assms(2) req show ?thesis by (intro wedged [OF s0]) (auto simp: post_record_def st)
  next
    case (Some s)
    note keep = count_artifacts_keeps [OF Some]
    show ?thesis
    proof (cases "ss_scratch s0")
      case None
      with Some keep assms(2) req show ?thesis by (intro wedged [OF s0]) (auto simp: post_record_def st)
    next
      case scratch: (Some m)
      with Some keep assms(2) req show ?thesis
        by (intro recorded [OF req(2) s0 req(1) Some]) (auto simp: post_record_def st)
    qed
  qed
qed

lemma recorded_ok:
  assumes ok: "turn_server_ok sv" and s0: "ts_sessionStates sv sid = Some s0" and req: "ts_pendingReqs sv sid = Some req"
    and c: "count_artifacts resp (turn_taken req resp s0) = Some s"
  shows "turn_server_ok (put_state sid s (sv\<lparr>ts_pendingReqs := (ts_pendingReqs sv)(sid := None), ts_scratch := pad\<rparr>))"
proof -
  note keep = count_artifacts_keeps [OF c]
  have "turn_server_ok (sv\<lparr>ts_pendingReqs := (ts_pendingReqs sv)(sid := None), ts_scratch := pad\<rparr>)" (is "turn_server_ok ?sv1")
    by (rule ok_cong [OF _ _ _ _ _ _ drop_pending_ok [OF ok, of sid]])
       (use drop_pending_ok [OF ok, of sid] in \<open>simp_all add: turn_server_ok_def sessions_ok_def\<close>)
  note sv1 = this
  have "ss_turnCount s0 < budget_turns s0" using ok_pending_state [OF ok s0] req by simp
  then have "state_ok s" using ok_state [OF ok s0] keep by (simp add: state_ok_def budget_turns_def)
  then show ?thesis by (intro put_same_ok [OF sv1, of sid s0]) (simp_all add: s0 keep)
qed

lemma notify_subs_open:
  "\<forall>c\<in>set cs. \<not> ac_closed (chans c) \<Longrightarrow>
   \<exists>chans'. notify_subs evt cs chans = Some chans' \<and> (\<forall>c. ac_closed (chans' c) = ac_closed (chans c))"
proof (induction cs arbitrary: chans)
  case (Cons a cs)
  let ?m = "chans(a := (chans a)\<lparr>ac_buf := ac_buf (chans a) @ [evt]\<rparr>)"
  have "\<forall>c\<in>set cs. \<not> ac_closed (?m c)" using Cons.prems by simp
  from Cons.IH [OF this] obtain chans' where c: "notify_subs evt cs ?m = Some chans'"
    "\<forall>c. ac_closed (chans' c) = ac_closed (?m c)" by blast
  have "\<forall>c. ac_closed (chans' c) = ac_closed (chans c)" using c(2) by simp
  with c(1) Cons.IH [of chans] Cons.prems show ?case by (simp del: fun_upd_apply)
qed simp

lemma close_subs_open:
  "distinct cs \<Longrightarrow> \<forall>c\<in>set cs. \<not> ac_closed (chans c) \<Longrightarrow>
   \<exists>chans'. close_subs cs chans = Some chans' \<and> (\<forall>c. ac_closed (chans' c) \<longleftrightarrow> c \<in> set cs \<or> ac_closed (chans c))"
proof (induction cs arbitrary: chans)
  case (Cons a cs)
  let ?m = "chans(a := (chans a)\<lparr>ac_closed := True\<rparr>)"
  have "distinct cs" "\<forall>c\<in>set cs. \<not> ac_closed (?m c)" using Cons.prems by auto
  from Cons.IH [OF this] obtain chans' where c: "close_subs cs ?m = Some chans'"
    "\<forall>c. ac_closed (chans' c) \<longleftrightarrow> c \<in> set cs \<or> ac_closed (?m c)" by blast
  have "\<forall>c. ac_closed (chans' c) \<longleftrightarrow> c \<in> set (a # cs) \<or> ac_closed (chans c)" using c(2) by simp
  with c(1) Cons.prems show ?case by (simp del: fun_upd_apply)
qed simp

lemma notify_and_close_open:
  "distinct cs \<Longrightarrow> \<forall>c\<in>set cs. \<not> ac_closed (chans c) \<Longrightarrow>
   \<exists>chans'. notify_and_close evt cs chans = Some chans' \<and>
     (\<forall>c. ac_closed (chans' c) \<longleftrightarrow> c \<in> set cs \<or> ac_closed (chans c))"
proof (induction cs arbitrary: chans)
  case (Cons a cs)
  let ?m = "chans(a := \<lparr>ac_buf = (if length (ac_buf (chans a)) < 4 then ac_buf (chans a) @ [evt] else ac_buf (chans a)),
                     ac_closed = True\<rparr>)"
  have "distinct cs" "\<forall>c\<in>set cs. \<not> ac_closed (?m c)" using Cons.prems by auto
  from Cons.IH [OF this] obtain chans' where c: "notify_and_close evt cs ?m = Some chans'"
    "\<forall>c. ac_closed (chans' c) \<longleftrightarrow> c \<in> set cs \<or> ac_closed (?m c)" by blast
  have "\<forall>c. ac_closed (chans' c) \<longleftrightarrow> c \<in> set (a # cs) \<or> ac_closed (chans c)" using c(2) by simp
  with c(1) Cons.prems show ?case by (simp del: fun_upd_apply)
qed simp

text \<open>What the exit conditions make of a state.\<close>

definition judged :: "broker_config \<Rightarrow> turn_env \<Rightarrow> TurnRecord list \<Rightarrow> sessionState \<Rightarrow> sessionState" where
  "judged cfg ev records s =
     (case Evaluate (broker_evaluator cfg ev) (\<lambda>i. te_ctx ev (3 + i)) (exit_state_of s records) (p_ExitWhen (ss_preset s)) of
        Inr (Some reason) \<Rightarrow> s\<lparr>ss_terminal := True, ss_terminalReason := reason\<rparr>
      | _ \<Rightarrow> s)"

lemma judged_keeps:
  "ss_turnCount (judged cfg ev records s) = ss_turnCount s" "ss_preset (judged cfg ev records s) = ss_preset s"
  "ss_a2aSubs (judged cfg ev records s) = ss_a2aSubs s" "ss_scratch (judged cfg ev records s) = ss_scratch s"
  "ss_seenArtifacts (judged cfg ev records s) = ss_seenArtifacts s" "ss_terminal s \<Longrightarrow> ss_terminal (judged cfg ev records s)"
  by (simp_all add: judged_def split: sum.split option.split)

lemma renotify:
  assumes "waiters_ok sv" "ts_sessionStates sv sid = Some s"
  shows "subs_ok ((waits_of sv)(sid := [ts_nextNotify sv])) (\<lambda>n. n \<in> set_option (ss_notify s) \<union> ts_notified sv)
    (Suc (ts_nextNotify sv))"
proof -
  have "waits_of sv sid = (case ss_notify s of None \<Rightarrow> [] | Some n \<Rightarrow> [n])" by (simp add: waits_of_def assms(2))
  then have "set (waits_of sv sid) = set_option (ss_notify s)" by (cases "ss_notify s") simp_all
  with subs_ok_add [OF subs_ok_drop [OF assms(1) [unfolded waiters_ok_def], of sid], of sid] show ?thesis by simp
qed

lemma post_evaluate_result:
  fixes cfg :: broker_config and ev :: turn_env and records :: "TurnRecord list"
  assumes ok: "turn_server_ok sv" and live: "\<not> ts_wedged sv" and s: "ts_sessionStates sv sid = Some s"
    and np: "ts_pendingReqs sv sid \<noteq> None \<Longrightarrow> ss_turnCount s < budget_turns s"
  defines "s1 \<equiv> judged cfg ev records s"
  shows "\<exists>chans. post_evaluate cfg ev sid records sv =
      (None, put_state sid (s1\<lparr>ss_notify := Some (ts_nextNotify sv), ss_a2aSubs := (if ss_terminal s1 then [] else ss_a2aSubs s)\<rparr>)
        (sv\<lparr>ts_nextNotify := Suc (ts_nextNotify sv), ts_chans := chans, ts_notified := set_option (ss_notify s) \<union> ts_notified sv\<rparr>)) \<and>
    (\<forall>c. ac_closed (chans c) \<longleftrightarrow> ss_terminal s1 \<and> c \<in> set (ss_a2aSubs s) \<or> ac_closed (ts_chans sv c)) \<and>
    turn_server_ok (snd (post_evaluate cfg ev sid records sv))"
proof -
  have subs: "subs_of sv sid = ss_a2aSubs s" by (simp add: subs_of_def s)
  have sok: "subs_ok (subs_of sv) (\<lambda>c. ac_closed (ts_chans sv c)) (ts_nextChan sv)" "waiters_ok sv" "sessions_ok sv"
    using ok by (simp_all add: turn_server_ok_def subscribers_ok_def)
  have op: "\<forall>c\<in>set (ss_a2aSubs s). \<not> ac_closed (ts_chans sv c)" "distinct (ss_a2aSubs s)"
    using subs_ok_open [OF sok(1), of _ sid] subs_ok_distinct [OF sok(1), of sid] by (simp_all add: subs)
  let ?sv1 = "sv\<lparr>ts_nextNotify := Suc (ts_nextNotify sv)\<rparr>" and ?s2 = "s1\<lparr>ss_notify := Some (ts_nextNotify sv)\<rparr>"
  obtain chans where n: "notify_subs (status_event sid ?s2) (ss_a2aSubs s) (ts_chans sv) = Some chans"
    "\<forall>c. ac_closed (chans c) = ac_closed (ts_chans sv c)" using notify_subs_open [OF op(1)] by blast
  obtain chans' where c: "close_subs (ss_a2aSubs s) chans = Some chans'"
    "\<forall>c. ac_closed (chans' c) \<longleftrightarrow> c \<in> set (ss_a2aSubs s) \<or> ac_closed (chans c)"
    using close_subs_open [OF op(2), of chans] op(1) n(2) by blast
  let ?chans = "if ss_terminal s1 then chans' else chans"
  let ?s3 = "s1\<lparr>ss_notify := Some (ts_nextNotify sv), ss_a2aSubs := (if ss_terminal s1 then [] else ss_a2aSubs s)\<rparr>"
  let ?sv' = "put_state sid ?s3 (sv\<lparr>ts_nextNotify := Suc (ts_nextNotify sv), ts_chans := ?chans,
        ts_notified := set_option (ss_notify s) \<union> ts_notified sv\<rparr>)"
  have same: "s1\<lparr>ss_notify := Some (ts_nextNotify sv), ss_a2aSubs := ss_a2aSubs s\<rparr> = ?s2"
    using judged_keeps(3) [of cfg ev records s] by (simp add: s1_def)
  have pe: "post_evaluate cfg ev sid records sv = (None, ?sv')"
    unfolding post_evaluate_def Let_def new_notify_def prod.case state_at_def s option.case judged_def [symmetric] s1_def [symmetric]
    using live n(1) c(1) judged_keeps(3) [of cfg ev records s] by (simp add: s1_def same [unfolded s1_def])
  have cl: "\<forall>c. ac_closed (?chans c) \<longleftrightarrow> ss_terminal s1 \<and> c \<in> set (ss_a2aSubs s) \<or> ac_closed (ts_chans sv c)"
    using n(2) c(2) by simp
  have "subscribers_ok ?sv'"
  proof (cases "ss_terminal s1")
    case True
    with subs_ok_drop [OF sok(1), of sid] cl show ?thesis by (simp add: subscribers_ok_def subs)
  next
    case False
    have "(subs_of sv)(sid := ss_a2aSubs s) = subs_of sv" using subs by auto
    with False sok(1) cl show ?thesis by (simp add: subscribers_ok_def)
  qed
  moreover have "waiters_ok ?sv'" using renotify [OF sok(2) s] by (simp add: waiters_ok_def)
  moreover have "sessions_ok ?sv'"
  proof (rule put_sessions_ok)
    show "state_ok ?s3" using ok_state [OF ok s] judged_keeps by (simp add: s1_def state_ok_def budget_turns_def)
  qed (use sok(3) ok_known [OF ok, of sid] s np judged_keeps in \<open>simp_all add: s1_def budget_turns_def\<close>)
  ultimately have "turn_server_ok ?sv'" by (simp add: turn_server_ok_def)
  with pe cl show ?thesis by (intro exI [of _ ?chans]) simp
qed

lemma stored_ok:
  assumes ok: "turn_server_ok sv" and "ts_sessionStates sv sid = Some s0" "ts_pendingReqs sv sid = Some req"
    "count_artifacts resp (turn_taken req resp s0) = Some s"
    and ap: "Store_Append mj io ctx now sid' req' resp' (ts_store sv) = (err, store)"
  shows "turn_server_ok (put_state sid s (sv\<lparr>ts_pendingReqs := (ts_pendingReqs sv)(sid := None), ts_scratch := pad, ts_store := store\<rparr>))"
proof -
  have keep: "ids_generated store" "\<And>a. st_sessions (ts_store sv) a \<noteq> None \<Longrightarrow> st_sessions store a \<noteq> None"
    using Append_ids [of "ts_store sv" mj io ctx now sid' req' resp'] ok ap
      Append_sessions [of mj io ctx now sid' req' resp' "ts_store sv"]
    by (simp_all add: turn_server_ok_def sessions_ok_def)
  have "turn_server_ok ((put_state sid s (sv\<lparr>ts_pendingReqs := (ts_pendingReqs sv)(sid := None), ts_scratch := pad\<rparr>))\<lparr>ts_store := store\<rparr>)"
    by (rule store_ok [OF recorded_ok [OF ok assms(2-4)] keep(1)]) (use keep(2) in simp)
  moreover have "put_state sid s (sv\<lparr>ts_pendingReqs := (ts_pendingReqs sv)(sid := None), ts_scratch := pad, ts_store := store\<rparr>) =
      (put_state sid s (sv\<lparr>ts_pendingReqs := (ts_pendingReqs sv)(sid := None), ts_scratch := pad\<rparr>))\<lparr>ts_store := store\<rparr>"
    by (simp add: put_state_def)
  ultimately show ?thesis by (simp only:)
qed

text \<open>How far a post gets.\<close>

lemma handlePostTurn_cases:
  assumes ok: "turn_server_ok sv" and p: "handlePostTurn cfg ev sid body sv = (r, sv')"
  obtains (same) "sv' = sv" "r = TurnHttpError 400 \<or> r = HandlerBlocked \<and> ts_wedged sv"
  | (wedged) s where "ts_sessionStates sv sid = Some s" "ss_scratch s = None" "r = HandlerPanic"
      "sv' = sv\<lparr>ts_pendingReqs := (ts_pendingReqs sv)(sid := None), ts_wedged := True\<rparr>"
  | (recorded) resp s0 s req pad err store where "body = Some resp" "\<not> ts_wedged sv" "ts_sessionStates sv sid = Some s0"
      "ts_pendingReqs sv sid = Some req" "count_artifacts resp (turn_taken req resp s0) = Some s"
      "Store_Append (bc_put cfg) (te_append ev) (te_ctx ev 0) (te_now ev) sid req resp (ts_store sv) = (err, store)"
      "sv' = put_state sid s (sv\<lparr>ts_pendingReqs := (ts_pendingReqs sv)(sid := None), ts_scratch := pad, ts_store := store\<rparr>)"
      "r = TurnHttpError 500"
  | (evaluated) resp s0 s req pad store records where "body = Some resp" "\<not> ts_wedged sv" "ts_sessionStates sv sid = Some s0"
      "ts_pendingReqs sv sid = Some req" "count_artifacts resp (turn_taken req resp s0) = Some s"
      "Store_Append (bc_put cfg) (te_append ev) (te_ctx ev 0) (te_now ev) sid req resp (ts_store sv) = (None, store)"
      "Store_Replay (bc_get cfg) (te_replay ev) (te_ctx ev 1) sid store = Inr records"
      "sv' = snd (post_evaluate cfg ev sid records
         (put_state sid s (sv\<lparr>ts_pendingReqs := (ts_pendingReqs sv)(sid := None), ts_scratch := pad, ts_store := store\<rparr>)))"
      "(\<exists>sess. r = SessionReply 200 sess) \<or> r = TurnHttpError 500"
proof (cases body)
  case None
  with p show ?thesis by (intro same) (auto simp: handlePostTurn_def)
next
  case body: (Some resp)
  obtain x sv1 where pr: "post_record ev sid resp sv = (x, sv1)" by fastforce
  from ok pr show ?thesis
  proof (cases rule: post_record_cases)
    case (same r')
    with p body pr show ?thesis by (intro \<open>sv' = sv \<Longrightarrow> r = TurnHttpError 400 \<or> r = HandlerBlocked \<and> ts_wedged sv \<Longrightarrow> thesis\<close>) (auto simp: handlePostTurn_def)
  next
    case (wedged s)
    with p body pr show ?thesis by (intro that(2) [OF wedged(1,2)]) (auto simp: handlePostTurn_def)
  next
    case (recorded s0 s req pad)
    obtain err store where ap: "Store_Append (bc_put cfg) (te_append ev) (te_ctx ev 0) (te_now ev) sid req resp (ts_store sv) =
        (err, store)" by fastforce
    let ?sv2 = "put_state sid s (sv\<lparr>ts_pendingReqs := (ts_pendingReqs sv)(sid := None), ts_scratch := pad, ts_store := store\<rparr>)"
    have sv1: "ts_store sv1 = ts_store sv" "sv1\<lparr>ts_store := store\<rparr> = ?sv2"
      by (simp_all add: recorded(6) put_state_def)
    have hp: "handlePostTurn cfg ev sid body sv =
        (case err of Some e \<Rightarrow> (TurnHttpError 500, ?sv2)
         | None \<Rightarrow>
             (case Store_Replay (bc_get cfg) (te_replay ev) (te_ctx ev 1) sid store of
                Inl e \<Rightarrow> (TurnHttpError 500, ?sv2)
              | Inr records \<Rightarrow>
                  (case post_evaluate cfg ev sid records ?sv2 of
                     (Some r, sv3) \<Rightarrow> (r, sv3)
                   | (None, sv3) \<Rightarrow>
                       (case Store_Get (te_ctx ev 2) sid (ts_store sv3) of
                          Inl e \<Rightarrow> (TurnHttpError 500, sv3)
                        | Inr sess \<Rightarrow> (SessionReply 200 sess, sv3)))))"
      unfolding handlePostTurn_def body option.case pr recorded(5) sum.case prod.case sv1(1) ap Let_def sv1(2)
      by (cases err) simp_all
    note rec = body recorded(1-4)
    show ?thesis
    proof (cases "err = None \<and> (\<exists>records. Store_Replay (bc_get cfg) (te_replay ev) (te_ctx ev 1) sid store = Inr records)")
      case False
      then have "sv' = ?sv2" "r = TurnHttpError 500" using hp p by (auto split: option.splits sum.splits)
      then show ?thesis by (intro that(3) [OF rec ap])
    next
      case True
      then obtain records where rp: "err = None" "Store_Replay (bc_get cfg) (te_replay ev) (te_ctx ev 1) sid store = Inr records"
        by blast
      have live: "\<not> ts_wedged ?sv2" using recorded(1) by simp
      have "\<exists>sv3. post_evaluate cfg ev sid records ?sv2 = (None, sv3)"
      proof -
        have "turn_server_ok ?sv2" by (rule stored_ok [OF ok recorded(2-4) ap])
        from post_evaluate_result [OF this live, of sid s cfg ev records] show ?thesis by auto
      qed
      then obtain sv3 where pe: "post_evaluate cfg ev sid records ?sv2 = (None, sv3)" by blast
      have "sv' = snd (post_evaluate cfg ev sid records ?sv2)" "(\<exists>sess. r = SessionReply 200 sess) \<or> r = TurnHttpError 500"
        using hp p rp by (auto simp: pe split: sum.splits)
      then show ?thesis by (intro that(4) [OF rec ap [unfolded rp(1)] rp(2)])
    qed
  qed
qed

lemma handlePostTurn_ok:
  assumes ok: "turn_server_ok sv" and p: "handlePostTurn cfg ev sid body sv = (r, sv')"
  shows "turn_server_ok sv'"
  using assms
proof (cases rule: handlePostTurn_cases)
  case (wedged s)
  have "turn_server_ok ((sv\<lparr>ts_pendingReqs := (ts_pendingReqs sv)(sid := None)\<rparr>)\<lparr>ts_wedged := True\<rparr>)"
    by (intro wedge_ok drop_pending_ok ok)
  with wedged show ?thesis by simp
next
  case (recorded resp s0 s req pad err store)
  from stored_ok [OF ok recorded(3-6)] recorded(7) show ?thesis by simp
next
  case (evaluated resp s0 s req pad store records)
  let ?sv2 = "put_state sid s (sv\<lparr>ts_pendingReqs := (ts_pendingReqs sv)(sid := None), ts_scratch := pad, ts_store := store\<rparr>)"
  have "turn_server_ok ?sv2" by (rule stored_ok [OF ok evaluated(3-6)])
  from post_evaluate_result [OF this, of sid s cfg ev records] evaluated show ?thesis by auto
qed (use ok in simp)

subsection \<open>A2A\<close>

lemma handleA2ACancel_cases:
  assumes ok: "turn_server_ok sv" and c: "handleA2ACancel ev params sv = (r, sv')"
  obtains (same) "sv' = sv" "\<And>t. r \<noteq> TaskReply t"
  | (canceled) tid s chans where "params = Some tid" "ts_sessionStates sv tid = Some s" "\<not> ss_terminal s"
      "sv' = put_state tid (s\<lparr>ss_terminal := True, ss_terminalReason := ''canceled'', ss_notify := Some (ts_nextNotify sv),
           ss_a2aSubs := []\<rparr>)
         (sv\<lparr>ts_nextNotify := Suc (ts_nextNotify sv), ts_chans := chans, ts_notified := set_option (ss_notify s) \<union> ts_notified sv\<rparr>)"
      "\<forall>c. ac_closed (chans c) \<longleftrightarrow> c \<in> set (ss_a2aSubs s) \<or> ac_closed (ts_chans sv c)"
proof (cases "taskIDFromParams params")
  case (Inl x)
  with c show ?thesis by (intro same) (auto simp: handleA2ACancel_def taskIDFromParams_def split: option.splits if_splits)
next
  case (Inr tid)
  then have params: "params = Some tid" by (auto simp: taskIDFromParams_def split: option.splits if_splits)
  show ?thesis
  proof (cases "\<exists>s. ts_sessionStates sv tid = Some s \<and> \<not> ss_terminal s \<and> \<not> ts_wedged sv")
    case False
    with c Inr show ?thesis by (intro same) (auto simp: handleA2ACancel_def split: option.splits if_splits)
  next
    case True
    then obtain s where s: "ts_sessionStates sv tid = Some s" "\<not> ss_terminal s" "\<not> ts_wedged sv" by blast
    have subs: "subs_of sv tid = ss_a2aSubs s" by (simp add: subs_of_def s)
    have sok: "subs_ok (subs_of sv) (\<lambda>c. ac_closed (ts_chans sv c)) (ts_nextChan sv)"
      using ok by (simp add: turn_server_ok_def subscribers_ok_def)
    let ?s1 = "s\<lparr>ss_terminal := True, ss_terminalReason := ''canceled'', ss_notify := Some (ts_nextNotify sv)\<rparr>"
    obtain chans where n: "notify_and_close (status_event tid ?s1) (ss_a2aSubs s) (ts_chans sv) = Some chans"
      "\<forall>c. ac_closed (chans c) \<longleftrightarrow> c \<in> set (ss_a2aSubs s) \<or> ac_closed (ts_chans sv c)"
      using notify_and_close_open [of "ss_a2aSubs s" "ts_chans sv"] subs_ok_open [OF sok, of _ tid]
        subs_ok_distinct [OF sok, of tid] unfolding subs by blast
    show ?thesis
      by (rule canceled [OF params s(1,2) _ n(2)])
         (use c Inr s n(1) in \<open>auto simp: handleA2ACancel_def new_notify_def Let_def split: sum.splits\<close>)
  qed
qed

lemma handleA2ACancel_ok:
  assumes ok: "turn_server_ok sv" and c: "handleA2ACancel ev params sv = (r, sv')"
  shows "turn_server_ok sv'"
  using assms
proof (cases rule: handleA2ACancel_cases)
  case (canceled tid s chans)
  have subs: "subs_of sv tid = ss_a2aSubs s" by (simp add: subs_of_def canceled)
  have sok: "subs_ok (subs_of sv) (\<lambda>c. ac_closed (ts_chans sv c)) (ts_nextChan sv)" "waiters_ok sv" "sessions_ok sv"
    using ok by (simp_all add: turn_server_ok_def subscribers_ok_def)
  have "subscribers_ok sv'" unfolding canceled(4) using subs_ok_drop [OF sok(1), of tid] canceled(5)
    by (simp add: subscribers_ok_def subs)
  moreover have "waiters_ok sv'" unfolding canceled(4) using renotify [OF sok(2) canceled(2)] by (simp add: waiters_ok_def)
  moreover have "sessions_ok sv'" unfolding canceled(4)
    by (rule put_sessions_ok)
       (use sok(3) ok_known [OF ok, of tid] ok_state [OF ok canceled(2)] ok_pending_state [OF ok canceled(2)] canceled(2)
         in \<open>simp_all add: state_ok_def budget_turns_def\<close>)
  ultimately show ?thesis by (simp add: turn_server_ok_def)
qed (use ok in simp)

lemma handleA2ASendSubscribe_cases:
  assumes "handleA2ASendSubscribe params sv = (r, sv')"
  obtains (same) "sv' = sv"
  | (subscribed) tid s where "ts_sessionStates sv tid = Some s" "\<not> ss_terminal s"
      "sv' = put_state tid (s\<lparr>ss_a2aSubs := ss_a2aSubs s @ [ts_nextChan sv]\<rparr>)
         (sv\<lparr>ts_chans := (ts_chans sv)(ts_nextChan sv := \<lparr>ac_buf = [], ac_closed = False\<rparr>), ts_nextChan := Suc (ts_nextChan sv)\<rparr>)"
proof (cases "sv' = sv")
  case False
  with assms subscribed show ?thesis
    by (auto simp: handleA2ASendSubscribe_def Let_def split: sum.splits if_splits option.splits)
qed (use same in simp)

lemma handleA2ASendSubscribe_ok:
  assumes ok: "turn_server_ok sv" and c: "handleA2ASendSubscribe params sv = (r, sv')"
  shows "turn_server_ok sv'"
  using c
proof (cases rule: handleA2ASendSubscribe_cases)
  case (subscribed tid s)
  let ?c = "ts_nextChan sv"
  have subs: "subs_of sv tid = ss_a2aSubs s" by (simp add: subs_of_def subscribed)
  have sok: "subs_ok (subs_of sv) (\<lambda>c. ac_closed (ts_chans sv c)) ?c" "waiters_ok sv" "sessions_ok sv"
    using ok by (simp_all add: turn_server_ok_def subscribers_ok_def)
  have op: "\<not> ac_closed (ts_chans sv ?c)" using sok(1) by (auto simp: subs_ok_def)
  have "(\<lambda>c. ac_closed (((ts_chans sv)(?c := \<lparr>ac_buf = [], ac_closed = False\<rparr>)) c)) = (\<lambda>c. ac_closed (ts_chans sv c))"
    using op by (auto simp: fun_eq_iff)
  then have "subscribers_ok sv'" unfolding subscribed(3) using subs_ok_add [OF sok(1), of tid]
    by (simp add: subscribers_ok_def subs del: fun_upd_apply)
  moreover have "(waits_of sv)(tid := waits_of sv tid) = waits_of sv" by simp
  then have "waiters_ok sv'" unfolding subscribed(3) using sok(2) subscribed(1)
    by (simp add: waiters_ok_def waits_of_def [of sv tid])
  moreover have "sessions_ok sv'" unfolding subscribed(3)
    by (rule put_sessions_ok)
       (use sok(3) ok_known [OF ok, of tid] ok_state [OF ok subscribed(1)] ok_pending_state [OF ok subscribed(1)] subscribed(1)
         in \<open>simp_all add: state_ok_def budget_turns_def\<close>)
  ultimately show ?thesis by (simp add: turn_server_ok_def)
qed (use ok in simp)

text \<open>A subscriber's task exists; its channel is on the task's list, or was closed.\<close>

definition own_subscription :: "string \<Rightarrow> nat \<Rightarrow> turn_server \<Rightarrow> bool" where
  "own_subscription tid c sv \<longleftrightarrow> ts_sessionStates sv tid \<noteq> None \<and> (c \<in> set (subs_of sv tid) \<or> ac_closed (ts_chans sv c))"

lemma subscriber_round_ok:
  assumes ok: "turn_server_ok sv" and own: "own_subscription tid c sv" and r: "subscriber_round gone tid c sv = (r, sv')"
  shows "turn_server_ok sv'"
proof (cases "gone \<and> \<not> ts_wedged sv")
  case True
  obtain s where s: "ts_sessionStates sv tid = Some s" using own by (auto simp: own_subscription_def)
  have subs: "subs_of sv tid = ss_a2aSubs s" by (simp add: subs_of_def s)
  have sok: "subs_ok (subs_of sv) (\<lambda>c. ac_closed (ts_chans sv c)) (ts_nextChan sv)" "waiters_ok sv" "sessions_ok sv"
    using ok by (simp_all add: turn_server_ok_def subscribers_ok_def)
  let ?s' = "s\<lparr>ss_a2aSubs := filter (\<lambda>x. x \<noteq> c) (ss_a2aSubs s)\<rparr>"
  define chans where "chans = (if ac_closed (ts_chans sv c) then ts_chans sv
      else (ts_chans sv)(c := (ts_chans sv c)\<lparr>ac_closed := True\<rparr>))"
  have sv': "sv' = put_state tid ?s' (sv\<lparr>ts_chans := chans\<rparr>)"
    using r True s by (auto simp: subscriber_round_def state_at_def chans_def put_state_def Let_def)
  have "(\<lambda>x. ac_closed (chans x)) = (\<lambda>x. ac_closed (ts_chans sv x))(c := True)"
    by (auto simp: chans_def fun_eq_iff)
  then have "subscribers_ok sv'" unfolding sv' using subs_ok_remove [OF sok(1), of c tid] own
    by (simp add: subscribers_ok_def subs own_subscription_def del: fun_upd_apply)
  moreover have "(waits_of sv)(tid := waits_of sv tid) = waits_of sv" by simp
  then have "waiters_ok sv'" unfolding sv' using sok(2) s by (simp add: waiters_ok_def waits_of_def [of sv tid])
  moreover have "sessions_ok sv'" unfolding sv'
    by (rule put_sessions_ok)
       (use sok(3) ok_known [OF ok, of tid] ok_state [OF ok s] ok_pending_state [OF ok s] s
         in \<open>simp_all add: state_ok_def budget_turns_def\<close>)
  ultimately show ?thesis by (simp add: turn_server_ok_def)
next
  case False
  have "sv' = sv \<or> (\<exists>rest. sv' = sv\<lparr>ts_chans := (ts_chans sv)(c := (ts_chans sv c)\<lparr>ac_buf := rest\<rparr>)\<rparr>)"
    using r False by (auto simp: subscriber_round_def split: list.splits if_splits)
  then show ?thesis
  proof
    assume "\<exists>rest. sv' = sv\<lparr>ts_chans := (ts_chans sv)(c := (ts_chans sv c)\<lparr>ac_buf := rest\<rparr>)\<rparr>"
    then obtain rest where sv': "sv' = sv\<lparr>ts_chans := (ts_chans sv)(c := (ts_chans sv c)\<lparr>ac_buf := rest\<rparr>)\<rparr>" by blast
    have "(\<lambda>x. ac_closed (ts_chans sv' x)) = (\<lambda>x. ac_closed (ts_chans sv x))" by (auto simp: sv' fun_eq_iff)
    with ok show ?thesis by (simp add: turn_server_ok_def subscribers_ok_def waiters_ok_def) (simp add: sv')
  qed (use ok in simp)
qed

end
