(* ===== verification/TurnProperties.thy ===== *)
theory TurnProperties
  imports TurnDaemon
begin

section \<open>Properties of the turn broker\<close>

text \<open>
  The step relation of the server, with A2A's \<^verbatim>\<open>SendMessage\<close> switched on or off, and what
  holds of every reachable server.
\<close>

inductive turn_step :: "broker_config \<Rightarrow> bool \<Rightarrow> turn_server \<Rightarrow> turn_server \<Rightarrow> bool" for cfg a2a where
  CreateSession: "handleCreateSession cfg ev body sv = (r, sv') \<Longrightarrow> turn_step cfg a2a sv sv'"
| Pass: "next_pass ev sid role sv = (r, sv') \<Longrightarrow> turn_step cfg a2a sv sv'"
| Post: "handlePostTurn cfg ev sid body sv = (r, sv') \<Longrightarrow> turn_step cfg a2a sv sv'"
| Send: "a2a \<Longrightarrow> handleA2ASend cfg ev presets params sv = (r, sv') \<Longrightarrow> turn_step cfg a2a sv sv'"
| Cancel: "handleA2ACancel ev ps sv = (r, sv') \<Longrightarrow> turn_step cfg a2a sv sv'"
| SubscribeTask: "handleA2ASendSubscribe ps sv = (r, sv') \<Longrightarrow> turn_step cfg a2a sv sv'"
| Round: "own_subscription tid c sv \<Longrightarrow> subscriber_round gone tid c sv = (r, sv') \<Longrightarrow> turn_step cfg a2a sv sv'"

lemma turn_step_ok: "turn_server_ok sv \<Longrightarrow> turn_step cfg a2a sv sv' \<Longrightarrow> turn_server_ok sv'"
  by (erule turn_step.cases)
     (auto intro: handleCreateSession_ok next_pass_ok handlePostTurn_ok handleA2ASend_ok handleA2ACancel_ok
       handleA2ASendSubscribe_ok subscriber_round_ok)

interpretation turns: transition_system "\<lambda>sv. sv = NewServer" "turn_step cfg a2a" turn_server_ok for cfg a2a
  by unfold_locales (auto simp: NewServer_ok intro: turn_step_ok)

subsection \<open>What a step does to a session\<close>

lemma enter_session_states:
  assumes "turn_server_ok sv" "enter_session cfg ev p task scratch seen failed reply sv = (r, sv')"
  shows "ts_chans sv' = ts_chans sv \<and> ts_nextChan sv' = ts_nextChan sv \<and> ts_wedged sv' = ts_wedged sv \<and>
    ts_pendingReqs sv' = ts_pendingReqs sv \<and>
    (ts_sessionStates sv' = ts_sessionStates sv \<and> ((\<exists>e. r = failed e) \<or> r = HandlerBlocked) \<or>
     (\<exists>sess n. r = reply sess \<and> ts_sessionStates sv (se_ID sess) = None \<and> \<not> ts_wedged sv \<and>
        Store_Get False (se_ID sess) (ts_store sv') = Inr sess \<and>
        ts_sessionStates sv' = (ts_sessionStates sv)(se_ID sess \<mapsto> new_state p (scratch sess) seen (se_CreatedAt sess) n)))"
proof -
  obtain res store where c: "Store_Create (bc_meta cfg) (te_create ev) (te_ctx ev 0) (te_nano ev) (te_now ev) p task
      (ts_store sv) = (res, store)" by fastforce
  show ?thesis
  proof (cases res)
    case (Inl e)
    with c assms(2) show ?thesis by (auto simp: enter_session_def)
  next
    case (Inr sess)
    have ids: "ids_generated (ts_store sv)" using assms(1) by (simp add: turn_server_ok_def sessions_ok_def)
    from Create_is_fresh [OF ids c [unfolded Inr]]
    have "st_sessions (ts_store sv) (se_ID sess) = None" "Store_Get False (se_ID sess) store = Inr sess" by auto
    moreover from this have "ts_sessionStates sv (se_ID sess) = None" using ok_known [OF assms(1)] by blast
    note fresh = calculation this
    show ?thesis
    proof (cases "ts_wedged sv")
      case True
      with c Inr assms(2) show ?thesis by (auto simp: enter_session_def)
    next
      case False
      with c Inr assms(2) have "r = reply sess"
        "sv' = put_state (se_ID sess) (new_state p (scratch sess) seen (se_CreatedAt sess) (Some (ts_nextNotify sv)))
          (sv\<lparr>ts_store := store, ts_nextNotify := Suc (ts_nextNotify sv)\<rparr>)"
        by (auto simp: enter_session_def new_notify_def)
      with fresh False show ?thesis by (intro conjI disjI2 exI [of _ sess] exI) auto
    qed
  qed
qed

text \<open>
  No step takes back an end or reopens a channel; the server is wedged only through a session
  without a scratchpad, and only A2A makes one.
\<close>

definition advances :: "bool \<Rightarrow> turn_server \<Rightarrow> turn_server \<Rightarrow> bool" where
  "advances a2a sv sv' \<longleftrightarrow>
     (\<forall>sid s. ts_sessionStates sv sid = Some s \<longrightarrow> (\<exists>s'. ts_sessionStates sv' sid = Some s' \<and>
        (ss_terminal s \<longrightarrow> ss_terminal s') \<and> (ss_scratch s' = None \<longleftrightarrow> ss_scratch s = None))) \<and>
     (\<forall>sid s'. ts_sessionStates sv sid = None \<longrightarrow> ts_sessionStates sv' sid = Some s' \<longrightarrow> ss_scratch s' = None \<longrightarrow> a2a) \<and>
     (\<forall>c. ac_closed (ts_chans sv c) \<longrightarrow> ac_closed (ts_chans sv' c)) \<and>
     (ts_wedged sv \<longrightarrow> ts_wedged sv') \<and>
     (ts_wedged sv' \<longrightarrow> ts_wedged sv \<or> (\<exists>sid s. ts_sessionStates sv sid = Some s \<and> ss_scratch s = None))"

lemma advances_state:
  "advances a2a sv sv' \<Longrightarrow> ts_sessionStates sv sid = Some s \<Longrightarrow> \<exists>s'. ts_sessionStates sv' sid = Some s' \<and>
     (ss_terminal s \<longrightarrow> ss_terminal s') \<and> (ss_scratch s' = None \<longleftrightarrow> ss_scratch s = None)"
  unfolding advances_def by blast

lemma advances_refl: "advances a2a sv sv"
  by (simp add: advances_def)

lemma advances_same:
  "ts_sessionStates sv' = ts_sessionStates sv \<Longrightarrow> ts_wedged sv' = ts_wedged sv \<Longrightarrow>
   (\<And>c. ac_closed (ts_chans sv c) \<Longrightarrow> ac_closed (ts_chans sv' c)) \<Longrightarrow> advances a2a sv sv'"
  by (simp add: advances_def)

text \<open>One state is replaced.\<close>

lemma advances_put:
  assumes "ts_sessionStates sv sid = Some s" "ts_sessionStates sv' = (ts_sessionStates sv)(sid \<mapsto> s')"
    "ss_terminal s \<Longrightarrow> ss_terminal s'" "ss_scratch s' = ss_scratch s" "ts_wedged sv' = ts_wedged sv"
    "\<And>c. ac_closed (ts_chans sv c) \<Longrightarrow> ac_closed (ts_chans sv' c)"
  shows "advances a2a sv sv'"
  using assms by (auto simp: advances_def)

lemma advances_wedge:
  "ts_sessionStates sv sid = Some s \<Longrightarrow> ss_scratch s = None \<Longrightarrow> ts_sessionStates sv' = ts_sessionStates sv \<Longrightarrow>
   ts_chans sv' = ts_chans sv \<Longrightarrow> ts_wedged sv' \<Longrightarrow> advances a2a sv sv'"
  by (auto simp: advances_def)

lemma enter_session_advances:
  assumes "turn_server_ok sv" "enter_session cfg ev p task scratch seen failed reply sv = (r, sv')"
    "\<And>sess. scratch sess = None \<Longrightarrow> a2a"
  shows "advances a2a sv sv'"
  using enter_session_states [OF assms(1,2)] assms(3)
  by (auto simp: advances_def new_state_def split: if_splits)

lemma handlePostTurn_advances:
  assumes ok: "turn_server_ok sv" and p: "handlePostTurn cfg ev sid body sv = (r, sv')"
  shows "advances a2a sv sv'"
  using assms
proof (cases rule: handlePostTurn_cases)
  case (wedged s)
  then show ?thesis by (intro advances_wedge [OF wedged(1,2)]) simp_all
next
  case (recorded resp s0 s req pad err store)
  note keep = count_artifacts_keeps [OF recorded(5)]
  show ?thesis by (rule advances_put [OF recorded(3), of _ s]) (simp_all add: recorded(7) keep)
next
  case (evaluated resp s0 s req pad store records)
  note keep = count_artifacts_keeps [OF evaluated(5)]
  let ?sv2 = "put_state sid s (sv\<lparr>ts_pendingReqs := (ts_pendingReqs sv)(sid := None), ts_scratch := pad, ts_store := store\<rparr>)"
  let ?s1 = "judged cfg ev records s"
  have ok2: "turn_server_ok ?sv2" by (rule stored_ok [OF ok evaluated(3-6)])
  have "\<exists>chans. sv' = put_state sid (?s1\<lparr>ss_notify := Some (ts_nextNotify ?sv2), ss_a2aSubs := (if ss_terminal ?s1 then [] else ss_a2aSubs s)\<rparr>)
        (?sv2\<lparr>ts_nextNotify := Suc (ts_nextNotify ?sv2), ts_chans := chans, ts_notified := set_option (ss_notify s) \<union> ts_notified ?sv2\<rparr>) \<and>
    (\<forall>c. ac_closed (ts_chans sv c) \<longrightarrow> ac_closed (chans c))"
    using post_evaluate_result [OF ok2, of sid s cfg ev records] evaluated(2,8) by auto
  then obtain chans where sv': "sv' = put_state sid (?s1\<lparr>ss_notify := Some (ts_nextNotify ?sv2), ss_a2aSubs := (if ss_terminal ?s1 then [] else ss_a2aSubs s)\<rparr>)
        (?sv2\<lparr>ts_nextNotify := Suc (ts_nextNotify ?sv2), ts_chans := chans, ts_notified := set_option (ss_notify s) \<union> ts_notified ?sv2\<rparr>)"
    "\<forall>c. ac_closed (ts_chans sv c) \<longrightarrow> ac_closed (chans c)" by blast
  show ?thesis
    by (rule advances_put [OF evaluated(3), of _ "?s1\<lparr>ss_notify := Some (ts_nextNotify ?sv2),
          ss_a2aSubs := (if ss_terminal ?s1 then [] else ss_a2aSubs s)\<rparr>"])
       (use sv'(2) in \<open>simp_all add: sv'(1) keep judged_keeps\<close>)
qed (simp add: advances_refl)

lemma turn_step_advances:
  assumes ok: "turn_server_ok sv" and st: "turn_step cfg a2a sv sv'"
  shows "advances a2a sv sv'"
  using st
proof cases
  case (CreateSession ev body r)
  show ?thesis
  proof (cases body)
    case None
    with CreateSession show ?thesis by (simp add: handleCreateSession_def advances_refl)
  next
    case (Some pt)
    then show ?thesis using CreateSession
      by (cases pt) (auto simp: handleCreateSession_def elim!: enter_session_advances [OF ok])
  qed
next
  case (Pass ev sid role r)
  then show ?thesis
  proof (cases rule: next_pass_cases)
    case (exhausted s)
    show ?thesis
      by (rule advances_put [OF exhausted(1), of _ "s\<lparr>ss_terminal := True, ss_terminalReason := ''budget exhausted''\<rparr>"])
         (simp_all add: exhausted)
  next
    case (wedged s)
    then show ?thesis by (intro advances_wedge [OF wedged(1,2)]) simp_all
  next
    case (served s req)
    then show ?thesis by (intro advances_same) simp_all
  qed (simp add: advances_refl)
next
  case (Post ev sid body r)
  with handlePostTurn_advances [OF ok] show ?thesis by blast
next
  case (Send ev presets params r)
  then have a2a: a2a by simp
  show ?thesis using Send(2) a2a
    by (auto simp: handleA2ASend_def advances_refl split: option.splits elim!: enter_session_advances [OF ok])
next
  case (Cancel ev ps r)
  from ok Cancel show ?thesis
  proof (cases rule: handleA2ACancel_cases)
    case (canceled tid s chans)
    show ?thesis
      by (rule advances_put [OF canceled(2), of _ "s\<lparr>ss_terminal := True, ss_terminalReason := ''canceled'',
            ss_notify := Some (ts_nextNotify sv), ss_a2aSubs := []\<rparr>"])
         (use canceled(5) in \<open>simp_all add: canceled(4)\<close>)
  qed (simp add: advances_refl)
next
  case (SubscribeTask ps r)
  then show ?thesis
  proof (cases rule: handleA2ASendSubscribe_cases)
    case (subscribed tid s)
    have "\<not> ac_closed (ts_chans sv (ts_nextChan sv))"
      using ok by (auto simp: turn_server_ok_def subscribers_ok_def subs_ok_def)
    then show ?thesis
      by (intro advances_put [OF subscribed(1), of _ "s\<lparr>ss_a2aSubs := ss_a2aSubs s @ [ts_nextChan sv]\<rparr>"])
         (auto simp: subscribed)
  qed (simp add: advances_refl)
next
  case (Round tid c gone r)
  obtain s where s: "ts_sessionStates sv tid = Some s" using Round(1) by (auto simp: own_subscription_def)
  show ?thesis
  proof (cases "gone \<and> \<not> ts_wedged sv")
    case True
    with Round(2) s show ?thesis
      by (intro advances_put [OF s, of _ "s\<lparr>ss_a2aSubs := filter (\<lambda>x. x \<noteq> c) (ss_a2aSubs s)\<rparr>"])
         (auto simp: subscriber_round_def state_at_def Let_def split: if_splits)
  next
    case False
    with Round(2) show ?thesis
      by (intro advances_same) (auto simp: subscriber_round_def split: list.splits if_splits)
  qed
qed

lemma steps_ok: "(turn_step cfg a2a)\<^sup>*\<^sup>* NewServer sv \<Longrightarrow> turn_server_ok sv"
  by (rule turns.reachable_inv) simp_all

subsection \<open>Budgets\<close>

text \<open>
  (C27) No session outlives its turn budget. In every reachable server a session has taken at most
  the turns of its preset's budget, and a turn it is offered is numbered within the budget.
\<close>

theorem turns_within_budget:
  assumes "(turn_step cfg a2a)\<^sup>*\<^sup>* NewServer sv" and "ts_sessionStates sv sid = Some s"
  shows "ss_turnCount s \<le> max 0 (b_TurnsLeft (p_Budget (ss_preset s))) \<and>
    (\<forall>ev role req sv'. next_pass ev sid role sv = (TurnStream req, sv') \<longrightarrow>
       1 \<le> tq_Turn req \<and> tq_Turn req \<le> b_TurnsLeft (p_Budget (ss_preset s)))"
proof -
  have ok: "state_ok s" by (rule ok_state [OF steps_ok [OF assms(1)] assms(2)])
  moreover have "1 \<le> tq_Turn req \<and> tq_Turn req \<le> budget_turns s"
    if "next_pass ev sid role sv = (TurnStream req, sv')" for ev role req sv'
    using that
  proof (cases rule: next_pass_cases)
    case (served s' req')
    with assms(2) ok show ?thesis by (auto simp: state_ok_def)
  qed auto
  ultimately show ?thesis by (auto simp: state_ok_def budget_turns_def)
qed

subsection \<open>The end of a session\<close>

definition ended :: "string \<Rightarrow> turn_server \<Rightarrow> bool" where
  "ended sid sv \<longleftrightarrow> (\<exists>s. ts_sessionStates sv sid = Some s \<and> ss_terminal s)"

lemma ended_advances: "advances a2a sv sv' \<Longrightarrow> ended sid sv \<Longrightarrow> ended sid sv'"
  unfolding advances_def ended_def by blast

lemma ended_stays:
  assumes "turn_server_ok sv" "ended sid sv" "(turn_step cfg a2a)\<^sup>*\<^sup>* sv sv'"
  shows "ended sid sv'"
  by (rule turns.stable [where P = "ended sid", OF _ assms(3,1,2)]) (rule ended_advances [OF turn_step_advances])

text \<open>
  (C28) An ended session hands out no turn again. Whatever happens after the end, the session stays
  terminal, every later request for its next turn is refused with 410 and every later cancellation
  with the error that the task is already terminated, and neither changes anything. Only on a wedged
  server do both block instead.
\<close>

theorem terminal_is_final:
  assumes "(turn_step cfg a2a)\<^sup>*\<^sup>* NewServer sv" and "ended sid sv" and "(turn_step cfg a2a)\<^sup>*\<^sup>* sv sv'"
  shows "ended sid sv' \<and>
    next_pass ev sid role sv' = (if ts_wedged sv' then HandlerBlocked else TurnHttpError 410, sv') \<and>
    handleA2ACancel ev (Some sid) sv' =
      (if ts_wedged sv' then HandlerBlocked else RpcError (-32602) ''Task already terminated'', sv')"
proof -
  have ok: "turn_server_ok sv" by (rule steps_ok [OF assms(1)])
  have e: "ended sid sv'" by (rule ended_stays [OF ok assms(2,3)])
  then have "sid \<noteq> []" using known_get [OF turns.steps_inv [OF assms(3) ok], of sid] by (auto simp: ended_def)
  with e show ?thesis
    by (auto simp: ended_def next_pass_def handleA2ACancel_def taskIDFromParams_def)
qed

lemma GetTask_status:
  assumes "turn_server_ok sv" "\<not> ts_wedged sv" "ts_sessionStates sv sid = Some s" "\<not> te_ctx ev 0"
  shows "\<exists>t. handleA2AGet ev (Some sid) sv = TaskReply t \<and>
    as_State (at_Status t) = terminalReasonToTaskState (ss_terminal s) (ss_terminalReason s)"
proof -
  obtain sess where "sid \<noteq> []" "Store_Get False sid (ts_store sv) = Inr sess"
    using known_get [OF assms(1), of sid] assms(3) by auto
  with assms show ?thesis by (simp add: handleA2AGet_def taskIDFromParams_def status_event_def)
qed

text \<open>No exit condition has the reason of a cancellation.\<close>

lemma Stuck_reason: "session_Stuck quote rs \<noteq> Some ''canceled''"
proof -
  have "detectPingPong rs \<noteq> Some ''canceled''"
    by (induction rs) (auto simp: window_ping_pong_def Let_def split: option.splits if_splits)
  moreover have "repeated_loop quote counts rs \<noteq> Some ''canceled''" for counts
    by (induction rs arbitrary: counts) (auto simp: Let_def)
  ultimately show ?thesis
    by (auto simp: session_Stuck_def detectNoProgress_def detectRepeatedFingerprint_def split: option.splits if_splits)
qed

lemma evaluateOne_reason: "evaluateOne (broker_evaluator cfg ev) s c \<noteq> Inr (Some ''canceled'')"
proof -
  have "\<not> ev_allowShell (broker_evaluator cfg ev)" by (simp add: broker_evaluator_def NewEvaluator_def)
  then show ?thesis using Stuck_reason by (auto simp: evaluateOne_def split: option.splits)
qed

lemma Evaluate_reason: "Evaluate (broker_evaluator cfg ev) ctx s conds \<noteq> Inr (Some ''canceled'')"
  by (induction conds arbitrary: ctx) (auto simp: evaluateOne_reason split: sum.split option.split)

text \<open>
  (C30) The reason of an end is not final. A turn that is out when its task is cancelled can still be
  posted, and its exit conditions are evaluated. The task that A2A reported as canceled is
  then reported as completed if the evaluation of the preset's list, whatever it holds, yields a reason; it
  stays canceled if it yields none or is an error (as with a list that comes to \<^verbatim>\<open>tests_pass\<close> first).
\<close>

theorem canceled_task_completes:
  assumes "(turn_step cfg a2a)\<^sup>*\<^sup>* NewServer sv" and "ts_sessionStates sv sid = Some s"
    and "handleA2ACancel ev (Some sid) sv = (TaskReply t, sv1)"
    and "handlePostTurn cfg ev2 sid (Some resp) sv1 = (SessionReply 200 sess, sv2)" and "\<not> te_ctx ev3 0"
  shows "as_State (at_Status t) = TaskStateCanceled \<and>
    (\<exists>s1 s2 req records t2. ts_sessionStates sv1 sid = Some s1 \<and> ts_pendingReqs sv1 sid = Some req \<and>
       count_artifacts resp (turn_taken req resp s1) = Some s2 \<and>
       Store_Replay (bc_get cfg) (te_replay ev2) (te_ctx ev2 1) sid (ts_store sv2) = Inr records \<and>
       handleA2AGet ev3 (Some sid) sv2 = TaskReply t2 \<and> as_State (at_Status t2) =
         (case Evaluate (broker_evaluator cfg ev2) (\<lambda>i. te_ctx ev2 (3 + i)) (exit_state_of s2 records) (p_ExitWhen (ss_preset s)) of
            Inr (Some reason) \<Rightarrow> TaskStateCompleted
          | _ \<Rightarrow> TaskStateCanceled))"
proof -
  have ok1: "turn_server_ok sv1" by (rule handleA2ACancel_ok [OF steps_ok [OF assms(1)] assms(3)])
  have ok2: "turn_server_ok sv2" by (rule handlePostTurn_ok [OF ok1 assms(4)])
  have t: "as_State (at_Status t) = TaskStateCanceled"
    using assms(3) by (auto simp: handleA2ACancel_def taskIDFromParams_def Let_def split: if_splits option.splits prod.splits sum.splits)
  from steps_ok [OF assms(1)] assms(3) have pre: "\<exists>s1. ts_sessionStates sv1 sid = Some s1 \<and> ss_preset s1 = ss_preset s \<and>
      ss_terminal s1 \<and> ss_terminalReason s1 = ''canceled''"
  proof (cases rule: handleA2ACancel_cases)
    case (canceled tid s1 chans)
    with assms(2) show ?thesis by simp
  qed (use assms(2) in auto)
  from ok1 assms(4) show ?thesis
  proof (cases rule: handlePostTurn_cases)
    case (evaluated resp' s0 s1 req pad store records)
    let ?sv = "put_state sid s1 (sv1\<lparr>ts_pendingReqs := (ts_pendingReqs sv1)(sid := None), ts_scratch := pad, ts_store := store\<rparr>)"
    let ?v = "Evaluate (broker_evaluator cfg ev2) (\<lambda>i. te_ctx ev2 (3 + i)) (exit_state_of s1 records) (p_ExitWhen (ss_preset s))"
    note keep = count_artifacts_keeps [OF evaluated(5)]
    have ok: "turn_server_ok ?sv" by (rule stored_ok [OF ok1 evaluated(3-6)])
    have s1: "ss_preset s1 = ss_preset s" "ss_terminal s1" "ss_terminalReason s1 = ''canceled''"
      using keep pre evaluated(3) by simp_all
    obtain chans where pe: "post_evaluate cfg ev2 sid records ?sv = (None, put_state sid ((judged cfg ev2 records s1)
          \<lparr>ss_notify := Some (ts_nextNotify ?sv), ss_a2aSubs := (if ss_terminal (judged cfg ev2 records s1) then [] else ss_a2aSubs s1)\<rparr>)
        (?sv\<lparr>ts_nextNotify := Suc (ts_nextNotify ?sv), ts_chans := chans, ts_notified := set_option (ss_notify s1) \<union> ts_notified ?sv\<rparr>))"
      using post_evaluate_result [OF ok, of sid s1 cfg ev2 records] evaluated(2) by auto
    obtain s2 where s2: "ts_sessionStates sv2 sid = Some s2" "ss_terminal s2 = ss_terminal (judged cfg ev2 records s1)"
      "ss_terminalReason s2 = ss_terminalReason (judged cfg ev2 records s1)" and sv2: "\<not> ts_wedged sv2" "ts_store sv2 = store"
      using evaluated(2) unfolding evaluated(8) pe snd_conv by (auto simp: put_state_def)
    have "terminalReasonToTaskState (ss_terminal s2) (ss_terminalReason s2) =
        (case ?v of Inr (Some reason) \<Rightarrow> TaskStateCompleted | _ \<Rightarrow> TaskStateCanceled)"
      using Evaluate_reason [of cfg ev2 "\<lambda>i. te_ctx ev2 (3 + i)" "exit_state_of s1 records" "p_ExitWhen (ss_preset s)"] s1
      by (auto simp: s2 judged_def terminalReasonToTaskState_def split: sum.split option.split)
    then obtain t2 where "handleA2AGet ev3 (Some sid) sv2 = TaskReply t2" "as_State (at_Status t2) =
        (case ?v of Inr (Some reason) \<Rightarrow> TaskStateCompleted | _ \<Rightarrow> TaskStateCanceled)"
      using GetTask_status [OF ok2 sv2(1) s2(1) assms(5)] by auto
    moreover have "resp' = resp" using evaluated(1) by simp
    ultimately show ?thesis using evaluated(3-5,7) t sv2(2)
      by (intro conjI exI [of _ s0] exI [of _ s1] exI [of _ req] exI [of _ records] exI [of _ t2]) simp_all
  qed simp_all
qed

subsection \<open>The wedged server\<close>

lemma wedged_stays:
  assumes "turn_server_ok sv" "ts_wedged sv" "(turn_step cfg a2a)\<^sup>*\<^sup>* sv sv'"
  shows "ts_wedged sv'"
  by (rule turns.stable [where P = ts_wedged, OF _ assms(3,1,2)])
     (use turn_step_advances in \<open>auto simp: advances_def\<close>)

text \<open>
  One A2A task stops the broker. A task made by \<^verbatim>\<open>SendMessage\<close> has no scratchpad; the first request
  for its next turn panics while it holds the server's mutex. From then on every request for
  a turn, every posted turn, every subscription and every cancellation, of any session,
  blocks for good.
\<close>

theorem a2a_task_wedges_broker:
  assumes "(turn_step cfg True)\<^sup>*\<^sup>* NewServer sv"
    and "handleA2ASend cfg ev presets params sv = (TaskReply t, sv1)"
    and "presets = Some ps" and "ps ''solo-ralph'' = Some p"
    and "0 < b_TurnsLeft (p_Budget p)" and "0 < b_TokensLeft (p_Budget p)"
    and "Next p False None 1 = Inr roleID" and "te_ctx ev2 = (\<lambda>i. False)"
  shows "\<exists>sv2. next_pass ev2 (at_ID t) [] sv1 = (HandlerPanic, sv2) \<and>
    (\<forall>sv3. (turn_step cfg True)\<^sup>*\<^sup>* sv2 sv3 \<longrightarrow>
       (\<forall>ev sid role resp tid. tid \<noteq> [] \<longrightarrow>
          next_pass ev sid role sv3 = (HandlerBlocked, sv3) \<and>
          handlePostTurn cfg ev sid (Some resp) sv3 = (HandlerBlocked, sv3) \<and>
          handleA2ASendSubscribe (Some tid) sv3 = (HandlerBlocked, sv3) \<and>
          handleA2ACancel ev (Some tid) sv3 = (HandlerBlocked, sv3)))"
proof -
  have ok: "turn_server_ok sv" by (rule steps_ok [OF assms(1)])
  have ok1: "turn_server_ok sv1" by (rule handleA2ASend_ok [OF ok assms(2)])
  obtain message where "enter_session cfg ev p \<lparr>t_Title = ''A2A task'', t_Body = message, t_RepoRoot = []\<rparr> (\<lambda>sess. None) None
      (\<lambda>e. RpcError (-32603) ''Internal error: cannot create session'') (\<lambda>sess. TaskReply (mapSessionToA2ATask sess)) sv = (TaskReply t, sv1)"
    using assms(2-4) by (auto simp: handleA2ASend_def split: option.splits)
  from enter_session_states [OF ok this] obtain sess n where
    sess: "t = mapSessionToA2ATask sess" "\<not> ts_wedged sv1"
      "ts_sessionStates sv1 (se_ID sess) = Some (new_state p None None (se_CreatedAt sess) n)"
      "Store_Get False (se_ID sess) (ts_store sv1) = Inr sess" by auto
  let ?sv2 = "sv1\<lparr>ts_wedged := True\<rparr>"
  have "next_pass ev2 (at_ID t) [] sv1 = (HandlerPanic, ?sv2)"
    using sess assms(5-8)
    by (simp add: next_pass_def mapSessionToA2ATask_def new_state_def Remaining_def IsExhausted_def Let_def)
  moreover have "ts_wedged sv3" if "(turn_step cfg True)\<^sup>*\<^sup>* ?sv2 sv3" for sv3
    by (rule wedged_stays [OF wedge_ok [OF ok1] _ that]) simp
  ultimately show ?thesis
    by (intro exI [of _ ?sv2])
       (auto simp: next_pass_def handlePostTurn_def post_record_def handleA2ASendSubscribe_def handleA2ACancel_def taskIDFromParams_def)
qed

definition scratch_everywhere :: "turn_server \<Rightarrow> bool" where
  "scratch_everywhere sv \<longleftrightarrow> \<not> ts_wedged sv \<and> (\<forall>sid s. ts_sessionStates sv sid = Some s \<longrightarrow> ss_scratch s \<noteq> None)"

lemma scratch_everywhere_step: "advances False sv sv' \<Longrightarrow> scratch_everywhere sv \<Longrightarrow> scratch_everywhere sv'"
proof -
  assume adv: "advances False sv sv'" and all: "scratch_everywhere sv"
  have "ss_scratch s' \<noteq> None" if s': "ts_sessionStates sv' sid = Some s'" for sid s'
  proof (cases "ts_sessionStates sv sid")
    case None
    with adv s' show ?thesis unfolding advances_def by blast
  next
    case (Some s)
    from advances_state [OF adv this] show ?thesis
    proof (elim exE conjE)
      fix s2 assume s2: "ts_sessionStates sv' sid = Some s2" "(ss_scratch s2 = None) = (ss_scratch s = None)"
      have "s2 = s'" using s2(1) s' by simp
      moreover have "ss_scratch s \<noteq> None" using all Some unfolding scratch_everywhere_def by blast
      ultimately show ?thesis using s2(2) by simp
    qed
  qed
  moreover have "\<not> ts_wedged sv'" using adv all unfolding advances_def scratch_everywhere_def by blast
  ultimately show ?thesis unfolding scratch_everywhere_def by blast
qed

text \<open>
  (C29) Without A2A's \<^verbatim>\<open>SendMessage\<close> the broker never panics under its mutex: however the requests of the
  HTTP interface and of the subscribers interleave, the mutex is free between requests, so
  no request for a turn and no posted turn blocks or panics.
\<close>

theorem http_sessions_never_wedge:
  assumes "(turn_step cfg False)\<^sup>*\<^sup>* NewServer sv"
  shows "\<not> ts_wedged sv \<and> fst (next_pass ev sid role sv) \<notin> {HandlerPanic, HandlerBlocked} \<and>
    fst (handlePostTurn cfg ev sid body sv) \<notin> {HandlerPanic, HandlerBlocked}"
proof -
  have ok: "turn_server_ok sv" by (rule steps_ok [OF assms])
  have "scratch_everywhere sv"
  proof (rule turns.stable [where P = scratch_everywhere, OF _ assms NewServer_ok])
    show "scratch_everywhere NewServer" by (simp add: scratch_everywhere_def NewServer_def)
  qed (rule scratch_everywhere_step [OF turn_step_advances])
  then have live: "\<not> ts_wedged sv" "\<And>s. ts_sessionStates sv sid = Some s \<Longrightarrow> ss_scratch s \<noteq> None"
    by (auto simp: scratch_everywhere_def)
  have "fst (next_pass ev sid role sv) \<notin> {HandlerPanic, HandlerBlocked}"
    using live by (auto simp: next_pass_def Let_def split: option.splits sum.splits)
  moreover obtain r sv' where p: "handlePostTurn cfg ev sid body sv = (r, sv')" by fastforce
  then have "r \<notin> {HandlerPanic, HandlerBlocked}"
  proof (cases rule: handlePostTurn_cases [OF ok p])
    case 1
    with live(1) show ?thesis by auto
  qed (use live in auto)
  ultimately show ?thesis using live(1) p by simp
qed

subsection \<open>Subscribers and waiters\<close>

text \<open>
  A subscriber that hangs up after its task was cancelled panics: the cancellation closed its
  channel, and the branch for a finished request closes it again, however much later and
  whatever happened in between.
\<close>

theorem hangup_after_cancel_panics:
  assumes "(turn_step cfg a2a)\<^sup>*\<^sup>* NewServer sv" and "c \<in> set (subs_of sv tid)"
    and "handleA2ACancel ev (Some tid) sv = (TaskReply t, sv1)" and "(turn_step cfg a2a)\<^sup>*\<^sup>* sv1 sv2"
    and "\<not> ts_wedged sv2"
  shows "fst (subscriber_round True tid c sv2) = HandlerPanic"
proof -
  note ok = steps_ok [OF assms(1)]
  have ok1: "turn_server_ok sv1" by (rule handleA2ACancel_ok [OF ok assms(3)])
  from ok assms(3) have "ac_closed (ts_chans sv1 c)"
  proof (cases rule: handleA2ACancel_cases)
    case (canceled tid' s chans)
    with assms(2) show ?thesis by (simp add: subs_of_def)
  next
    case same
    then show ?thesis by blast
  qed
  moreover have keep: "ac_closed (ts_chans v' c)" if "turn_server_ok v" "turn_step cfg a2a v v'" "ac_closed (ts_chans v c)" for v v'
    using turn_step_advances [OF that(1,2)] that(3) unfolding advances_def by blast
  ultimately have "ac_closed (ts_chans sv2 c)"
    using turns.stable [where P = "\<lambda>sv. ac_closed (ts_chans sv c)", OF keep assms(4) ok1] by simp
  with assms(5) show ?thesis by (simp add: subscriber_round_def Let_def)
qed

text \<open>
  An exhausted budget ends a session silently. The pass that finds the budget exhausted makes
  the session terminal and answers its own caller; the handlers that wait for the next turn
  are not woken, and the A2A subscribers get no final event: their channels stay as they
  were, open.
\<close>

theorem exhaustion_wakes_nobody:
  assumes "(turn_step cfg a2a)\<^sup>*\<^sup>* NewServer sv" and "ts_sessionStates sv sid = Some s" and "\<not> ss_terminal s"
    and "next_pass ev sid role sv = (r, sv')" and "ended sid sv'"
  shows "r = TurnHttpError 410 \<and> ts_notified sv' = ts_notified sv \<and> ts_chans sv' = ts_chans sv \<and>
    subs_of sv' sid = ss_a2aSubs s \<and> (\<forall>c\<in>set (ss_a2aSubs s). \<not> ac_closed (ts_chans sv' c))"
  using assms(4)
proof (cases rule: next_pass_cases)
  case (exhausted s')
  have "subs_ok (subs_of sv) (\<lambda>c. ac_closed (ts_chans sv c)) (ts_nextChan sv)"
    using steps_ok [OF assms(1)] by (simp add: turn_server_ok_def subscribers_ok_def)
  from subs_ok_open [OF this, of _ sid] exhausted assms(2) show ?thesis by (auto simp: subs_of_def)
qed (use assms(2,3,5) in \<open>auto simp: ended_def\<close>)

subsection \<open>A posted turn\<close>

text \<open>The count of dry rounds and the artifacts seen agree with a list of records.\<close>

definition tracks :: "sessionState \<Rightarrow> TurnRecord list \<Rightarrow> bool" where
  "tracks s rs \<longleftrightarrow> ss_dryRounds s = dry_loop {} 0 rs \<and> ss_seenArtifacts s = Some (artifacts_of rs)"

lemma tracks_new: "tracks (new_state p m (Some {}) created n) []"
  by (simp add: tracks_def new_state_def)

lemma count_tracks:
  assumes "tracks s rs" "count_artifacts resp (turn_taken req resp s) = Some s'" "rec_Resp r = resp"
  shows "tracks s' (rs @ [r])"
proof -
  obtain new seen' where c: "collectNewArtifacts (artifacts_of rs) (tr_Artifacts resp) = (new, seen')" by fastforce
  from collectNewArtifacts_spec [OF c]
  have "seen' = artifacts_of rs \<union> set (tr_Artifacts resp)" "new = [] \<longleftrightarrow> set (tr_Artifacts resp) \<subseteq> artifacts_of rs" by simp_all
  with assms c show ?thesis
    by (auto simp: tracks_def count_artifacts_def turn_taken_def dry_loop_append dry_wrt_def)
qed

text \<open>
  The broker counts dry rounds as it goes; the detector reads them off the log. They agree: if a
  state tracks the records so far, the state after a response tracks the records with that
  response, and its counter reaches a positive threshold exactly when \<^verbatim>\<open>DryRounds\<close> of the
  log does.
\<close>

theorem dry_count_agrees:
  assumes "tracks s rs" and "count_artifacts resp (turn_taken req resp s) = Some s'" and "rec_Resp r = resp"
  shows "tracks s' (rs @ [r]) \<and> (\<forall>k > 0. k \<le> ss_dryRounds s' \<longleftrightarrow> DryRounds (rs @ [r]) k)"
  using count_tracks [OF assms] by (auto simp: tracks_def DryRounds_def)

lemma post_records:
  assumes "(turn_step cfg a2a)\<^sup>*\<^sup>* NewServer sv" and "\<not> ts_wedged sv"
    and "ts_sessionStates sv sid = Some s" and "ss_scratch s \<noteq> None" and "ts_pendingReqs sv sid = Some req"
    and "te_append ev = AppendOk" and "te_replay ev = ReplayOk" and "te_ctx ev = (\<lambda>i. False)"
    and "log_holds (bc_put cfg) (bc_get cfg) sid (ts_store sv) rs"
    and "r = \<lparr>rec_Turn = tq_Turn req, rec_Time = te_now ev, rec_Req = req, rec_Resp = resp\<rparr>"
    and "codec_at (bc_put cfg) (bc_get cfg) r"
    and "count_artifacts resp (turn_taken req resp s) = Some s1"
  shows "\<exists>sess sv' s'. handlePostTurn cfg ev sid (Some resp) sv = (SessionReply 200 sess, sv') \<and>
    log_holds (bc_put cfg) (bc_get cfg) sid (ts_store sv') (rs @ [r]) \<and> ts_pendingReqs sv' sid = None \<and>
    ts_sessionStates sv' sid = Some s' \<and> ss_turnCount s' = ss_turnCount s + 1 \<and>
    set_option (ss_notify s) \<subseteq> ts_notified sv' \<and>
    (ss_terminal s' \<longleftrightarrow> ss_terminal s \<or>
      (\<exists>reason. Evaluate (broker_evaluator cfg ev) (\<lambda>i. False) (exit_state_of s1 (rs @ [r])) (p_ExitWhen (ss_preset s)) =
         Inr (Some reason)))"
proof -
  note ok = steps_ok [OF assms(1)]
  note keep = count_artifacts_keeps [OF assms(12)]
  obtain m where m: "ss_scratch s1 = Some m" using keep(5) assms(4) by auto
  let ?pad = "(ts_scratch sv)(sid := snd (Scratch_Append (te_scratch ev) m (Compact resp @ [CHR 0x0A]) (ts_scratch sv sid)))"
  let ?sv1 = "put_state sid s1 (sv\<lparr>ts_pendingReqs := (ts_pendingReqs sv)(sid := None), ts_scratch := ?pad\<rparr>)"
  have rec: "post_record ev sid resp sv = (Inr req, ?sv1)"
    using assms(2,3,5,12) m by (simp add: post_record_def state_at_def)
  obtain s0 where s0: "st_sessions (ts_store sv) sid = Some s0" using assms(9) by (auto simp: log_holds_def)
  obtain store where ap: "Store_Append (bc_put cfg) AppendOk False (te_now ev) sid req resp (ts_store sv) = (None, store)"
    "log_holds (bc_put cfg) (bc_get cfg) sid store (rs @ [r])" "Store_Replay (bc_get cfg) ReplayOk False sid store = Inr (rs @ [r])"
    using Append_holds [OF assms(9) s0, of req "te_now ev" resp] assms(10,11) by auto
  let ?sv2 = "put_state sid s1 (sv\<lparr>ts_pendingReqs := (ts_pendingReqs sv)(sid := None), ts_scratch := ?pad, ts_store := store\<rparr>)"
  have eq: "?sv1\<lparr>ts_store := store\<rparr> = ?sv2" by (simp add: put_state_def)
  have ok2: "turn_server_ok ?sv2" by (rule stored_ok [OF ok assms(3,5,12) ap(1)])
  let ?j = "judged cfg ev (rs @ [r]) s1"
  obtain chans where pe: "post_evaluate cfg ev sid (rs @ [r]) ?sv2 =
      (None, put_state sid (?j\<lparr>ss_notify := Some (ts_nextNotify ?sv2), ss_a2aSubs := (if ss_terminal ?j then [] else ss_a2aSubs s1)\<rparr>)
        (?sv2\<lparr>ts_nextNotify := Suc (ts_nextNotify ?sv2), ts_chans := chans, ts_notified := set_option (ss_notify s1) \<union> ts_notified ?sv2\<rparr>))"
    using post_evaluate_result [OF ok2, of sid s1 cfg ev "rs @ [r]"] assms(2) by auto
  obtain sess where get: "Store_Get False sid store = Inr sess"
    using ap(2) by (auto simp: log_holds_def Store_Get_def)
  have sv1: "ts_store ?sv1 = ts_store sv" by (simp add: put_state_def)
  have get': "Store_Get False sid (ts_store (snd (post_evaluate cfg ev sid (rs @ [r]) ?sv2))) = Inr sess"
    by (simp add: pe get)
  have "handlePostTurn cfg ev sid (Some resp) sv = (SessionReply 200 sess, snd (post_evaluate cfg ev sid (rs @ [r]) ?sv2))"
    unfolding handlePostTurn_def option.case rec sum.case prod.case sv1 assms(6-8) ap(1) Let_def eq ap(3)
    by (simp only: pe option.case prod.case get' [unfolded pe snd_conv] sum.case snd_conv)
  moreover have "ss_terminal ?j \<longleftrightarrow> ss_terminal s \<or>
      (\<exists>reason. Evaluate (broker_evaluator cfg ev) (\<lambda>i. False) (exit_state_of s1 (rs @ [r])) (p_ExitWhen (ss_preset s)) = Inr (Some reason))"
    using keep by (auto simp: judged_def assms(8) split: sum.split option.split)
  ultimately show ?thesis using ap(2) keep
    by (intro exI [of _ sess] exI conjI) (assumption | simp add: pe judged_keeps)+
qed

text \<open>
  A posted turn is recorded, judged and announced. For a session whose log holds some records,
  with a turn out, a post whose file operations succeed appends the request and the response
  to the log, counts the turn in the state and in the store, clears the outstanding turn,
  wakes the waiting handlers, and ends the session exactly when an exit condition matches
  the new state and the full log.
\<close>

theorem posted_turn_recorded:
  assumes "(turn_step cfg a2a)\<^sup>*\<^sup>* NewServer sv" and "\<not> ts_wedged sv"
    and "ts_sessionStates sv sid = Some s" and "ss_scratch s \<noteq> None" and "ts_pendingReqs sv sid = Some req"
    and "te_append ev = AppendOk" and "te_replay ev = ReplayOk" and "te_ctx ev = (\<lambda>i. False)"
    and "log_holds (bc_put cfg) (bc_get cfg) sid (ts_store sv) rs"
    and "r = \<lparr>rec_Turn = tq_Turn req, rec_Time = te_now ev, rec_Req = req, rec_Resp = resp\<rparr>"
    and "codec_at (bc_put cfg) (bc_get cfg) r"
    and "count_artifacts resp (turn_taken req resp s) = Some s1"
  shows "\<exists>sess sv' s'. handlePostTurn cfg ev sid (Some resp) sv = (SessionReply 200 sess, sv') \<and>
    log_holds (bc_put cfg) (bc_get cfg) sid (ts_store sv') (rs @ [r]) \<and> ts_pendingReqs sv' sid = None \<and>
    ts_sessionStates sv' sid = Some s' \<and> ss_turnCount s' = ss_turnCount s + 1 \<and>
    set_option (ss_notify s) \<subseteq> ts_notified sv' \<and>
    (ss_terminal s' \<longleftrightarrow> ss_terminal s \<or>
      (\<exists>reason. Evaluate (broker_evaluator cfg ev) (\<lambda>i. False) (exit_state_of s1 (rs @ [r])) (p_ExitWhen (ss_preset s)) =
         Inr (Some reason)))"
  using assms by (rule post_records)

subsection \<open>Witnesses\<close>

definition demo_env :: turn_env where
  "demo_env = \<lparr>te_nano = 1, te_now = 0, te_ctx = (\<lambda>i. False), te_create = CreateOk, te_append = AppendOk,
     te_replay = ReplayOk, te_scratch = ScratchOk, te_scratch_unreadable = False\<rparr>"

definition demo_cfg :: "TurnRecord \<Rightarrow> broker_config" where
  "demo_cfg r = \<lparr>bc_meta = (\<lambda>s. ''{}''), bc_put = (\<lambda>r. ''{}''), bc_get = (\<lambda>b. Some r), bc_quote = (\<lambda>s. s), bc_dir = ''d''\<rparr>"

abbreviation demo_pad :: scratch where
  "demo_pad \<equiv> \<lparr>sm_path = ''d/1-1/scratch.md'', sm_maxKB = 1\<rparr>"

definition demo_server :: "Preset \<Rightarrow> turn_server" where
  "demo_server p = put_state ''1-1'' (new_state p (Some demo_pad) (Some {}) 0 (Some 0))
     (NewServer\<lparr>ts_store := \<lparr>st_nextID = 1, st_sessions = [''1-1'' \<mapsto> demo_session], st_meta = [''1-1'' \<mapsto> ''{}'' @ [CHR 0x0A]],
        st_log = [''1-1'' \<mapsto> []]\<rparr>, ts_nextNotify := 1\<rparr>)"

lemma demo_id: "show_int 1 @ ''-'' @ show_int 1 = ''1-1''" "validateSessionID ''1-1'' = None"
  by code_simp+

lemma demo_create:
  assumes "p_Name p = ''pair''" "p_Scratch p = p_Scratch demo_preset"
  shows "handleCreateSession (demo_cfg r) demo_env (Some (p, demo_task)) NewServer = (SessionReply 201 demo_session, demo_server p)"
  using assms demo_id
  by (simp add: handleCreateSession_def enter_session_def demo_cfg_def demo_env_def NewServer_def NewStore_def Store_Create_def
      generateID_def Let_def new_notify_def demo_server_def demo_session_def SessionDir_def demo_preset_def put_state_def)

abbreviation ending :: "ExitCondition list \<Rightarrow> Preset" where
  "ending e \<equiv> demo_preset\<lparr>p_ExitWhen := e\<rparr>"

lemma demo_reached: "(turn_step (demo_cfg r) a2a)\<^sup>*\<^sup>* NewServer (demo_server (ending e))"
  by (rule r_into_rtranclp, rule turn_step.CreateSession, rule demo_create) (simp_all add: demo_preset_def)

text \<open>The first turn of the session is out.\<close>

definition demo_req :: "ExitCondition list \<Rightarrow> TurnRequest" where
  "demo_req e = turn_request demo_env ''1-1'' (new_state (ending e) (Some demo_pad) (Some {}) 0 (Some 0)) (p_Budget demo_preset)
     demo_session ''planner'' demo_pad None"

definition demo_served :: "ExitCondition list \<Rightarrow> turn_server" where
  "demo_served e = (demo_server (ending e))\<lparr>ts_pendingReqs := [''1-1'' \<mapsto> demo_req e]\<rparr>"

lemma demo_pass: "next_pass demo_env ''1-1'' [] (demo_server (ending e)) = (TurnStream (demo_req e), demo_served e)"
  using demo_id(2)
  by (simp add: next_pass_def demo_server_def NewServer_def new_state_def Remaining_def IsExhausted_def demo_preset_def
      Store_Get_def demo_env_def Next_def roundRobin_def demo_req_def demo_served_def Let_def put_state_def)

lemma demo_served_reached: "(turn_step (demo_cfg r) a2a)\<^sup>*\<^sup>* NewServer (demo_served e)"
  using demo_reached turn_step.Pass [OF demo_pass] by (rule rtranclp.rtrancl_into_rtrancl)

theorem turns_within_budget_witness:
  "\<exists>req sv'. next_pass demo_env ''1-1'' [] (demo_server demo_preset) = (TurnStream req, sv') \<and> tq_Turn req \<le> 2"
proof -
  have e: "ending (p_ExitWhen demo_preset) = demo_preset" by simp
  have "ts_sessionStates (demo_server demo_preset) ''1-1'' = Some (new_state demo_preset (Some demo_pad) (Some {}) 0 (Some 0))"
    by (simp add: demo_server_def)
  from turns_within_budget [OF demo_reached [of demo_record False "p_ExitWhen demo_preset", unfolded e] this]
    demo_pass [of "p_ExitWhen demo_preset", unfolded e]
  show ?thesis by (auto simp: new_state_def demo_preset_def)
qed

text \<open>The task is cancelled while its turn is out; then the turn is posted.\<close>

definition demo_canceled :: "ExitCondition list \<Rightarrow> turn_server" where
  "demo_canceled e = snd (handleA2ACancel demo_env (Some ''1-1'') (demo_served e))"

lemma demo_state: "ts_sessionStates (demo_served e) ''1-1'' = Some (new_state (ending e) (Some demo_pad) (Some {}) 0 (Some 0))"
  by (simp add: demo_served_def demo_server_def)

lemma demo_cancel:
  "\<exists>t. handleA2ACancel demo_env (Some ''1-1'') (demo_served e) = (TaskReply t, demo_canceled e)"
  "ts_store (demo_canceled e) = ts_store (demo_served e)" "ts_pendingReqs (demo_canceled e) = [''1-1'' \<mapsto> demo_req e]"
  "\<not> ts_wedged (demo_canceled e)"
  "ts_sessionStates (demo_canceled e) ''1-1'' = Some ((new_state (ending e) (Some demo_pad) (Some {}) 0 (Some 1))
     \<lparr>ss_terminal := True, ss_terminalReason := ''canceled''\<rparr>)"
  using demo_id(2)
  by (simp_all add: demo_canceled_def handleA2ACancel_def taskIDFromParams_def demo_served_def demo_server_def new_state_def
      new_notify_def NewServer_def put_state_def Store_Get_def demo_env_def)

lemma demo_canceled_reached: "(turn_step (demo_cfg r) a2a)\<^sup>*\<^sup>* NewServer (demo_canceled e)"
  using demo_served_reached demo_cancel(1) by (meson rtranclp.rtrancl_into_rtrancl turn_step.Cancel)

lemma demo_log: "log_holds put get ''1-1'' (ts_store (demo_served e)) []"
  using demo_id(2) by (simp add: log_holds_def demo_served_def demo_server_def)

theorem terminal_is_final_witness:
  "handleA2ACancel demo_env (Some ''1-1'') (demo_canceled []) =
     (RpcError (-32602) ''Task already terminated'', demo_canceled [])"
  using terminal_is_final [OF demo_canceled_reached [where a2a = False] _ rtranclp.rtrancl_refl, of "''1-1''" "[]" demo_env]
  by (simp add: ended_def demo_cancel(4,5))

lemma seen_new: "ss_seenArtifacts (new_state p m (Some {}) created n) = Some {}"
  by (simp add: new_state_def)

lemma counts_artifacts: "ss_seenArtifacts s = Some seen \<Longrightarrow> \<exists>s'. count_artifacts resp (turn_taken req resp s) = Some s'"
  by (simp add: count_artifacts_def turn_taken_def Let_def case_prod_unfold)

definition demo_answer :: TurnResponse where
  "demo_answer = demo_response\<lparr>tr_Done := True\<rparr>"

definition demo_turn :: "ExitCondition list \<Rightarrow> TurnRecord" where
  "demo_turn e = \<lparr>rec_Turn = tq_Turn (demo_req e), rec_Time = te_now demo_env, rec_Req = demo_req e, rec_Resp = demo_answer\<rparr>"

lemma demo_codec: "codec_at (bc_put (demo_cfg (demo_turn e))) (bc_get (demo_cfg (demo_turn e))) (demo_turn e)"
  by (simp add: codec_at_def demo_cfg_def)

theorem posted_turn_recorded_witness:
  "\<exists>sess sv'. handlePostTurn (demo_cfg (demo_turn [])) demo_env ''1-1'' (Some demo_answer) (demo_served []) = (SessionReply 200 sess, sv') \<and>
     log_holds (bc_put (demo_cfg (demo_turn []))) (bc_get (demo_cfg (demo_turn []))) ''1-1'' (ts_store sv') [demo_turn []]"
proof -
  obtain s1 where s1: "count_artifacts demo_answer (turn_taken (demo_req []) demo_answer
      (new_state (ending []) (Some demo_pad) (Some {}) 0 (Some 0))) = Some s1"
    using counts_artifacts [OF seen_new] by blast
  have "\<not> ts_wedged (demo_served [])" "ts_pendingReqs (demo_served []) ''1-1'' = Some (demo_req [])"
    by (simp_all add: demo_served_def demo_server_def NewServer_def)
  from posted_turn_recorded [OF demo_served_reached [of _ False] this(1) demo_state _ this(2) _ _ _ demo_log demo_turn_def demo_codec s1]
  show ?thesis by (auto simp: demo_env_def new_state_def)
qed

theorem canceled_task_completes_witness:
  "\<exists>t sv2. fst (handleA2ACancel demo_env (Some ''1-1'') (demo_served [ExitReviewerApproved])) = TaskReply t \<and>
     as_State (at_Status t) = TaskStateCanceled \<and>
     snd (handlePostTurn (demo_cfg (demo_turn [ExitReviewerApproved])) demo_env ''1-1'' (Some demo_answer)
       (demo_canceled [ExitReviewerApproved])) = sv2 \<and>
     (\<exists>t2. handleA2AGet demo_env (Some ''1-1'') sv2 = TaskReply t2 \<and> as_State (at_Status t2) = TaskStateCompleted)"
proof -
  let ?e = "[ExitReviewerApproved]"
  let ?cfg = "demo_cfg (demo_turn ?e)"
  obtain t where t: "handleA2ACancel demo_env (Some ''1-1'') (demo_served ?e) = (TaskReply t, demo_canceled ?e)"
    using demo_cancel(1) by blast
  let ?s = "(new_state (ending ?e) (Some demo_pad) (Some {}) 0 (Some 1))\<lparr>ss_terminal := True, ss_terminalReason := ''canceled''\<rparr>"
  obtain s1 where s1: "count_artifacts demo_answer (turn_taken (demo_req ?e) demo_answer ?s) = Some s1"
    using counts_artifacts [of ?s "{}"] by (auto simp: new_state_def)
  have log: "log_holds put get ''1-1'' (ts_store (demo_canceled ?e)) []" for put get
    by (simp add: demo_cancel(2) demo_log)
  have pend: "ts_pendingReqs (demo_canceled ?e) ''1-1'' = Some (demo_req ?e)" by (simp add: demo_cancel(3))
  from post_records [OF demo_canceled_reached [of _ False] demo_cancel(4,5) _ pend _ _ _ log demo_turn_def demo_codec s1]
  obtain sess sv2 where post: "handlePostTurn ?cfg demo_env ''1-1'' (Some demo_answer) (demo_canceled ?e) = (SessionReply 200 sess, sv2)"
    by (auto simp: demo_env_def new_state_def)
  have ctx: "\<not> te_ctx demo_env 0" by (simp add: demo_env_def)
  from canceled_task_completes [OF demo_served_reached [of _ False] demo_state t post ctx]
  obtain s0 s2 req records t2 where r: "as_State (at_Status t) = TaskStateCanceled"
    "count_artifacts demo_answer (turn_taken req demo_answer s0) = Some s2" "handleA2AGet demo_env (Some ''1-1'') sv2 = TaskReply t2"
    "as_State (at_Status t2) = (case Evaluate (broker_evaluator ?cfg demo_env) (\<lambda>i. te_ctx demo_env (3 + i)) (exit_state_of s2 records)
       ?e of Inr (Some reason) \<Rightarrow> TaskStateCompleted | _ \<Rightarrow> TaskStateCanceled)"
    by (auto simp: new_state_def)
  have "evaluateOne (broker_evaluator ?cfg demo_env) (exit_state_of s2 records) ExitReviewerApproved = Inr (Some ''reviewer approved'')"
    using count_artifacts_keeps(8) [OF r(2)] by (simp add: evaluateOne_def exit_state_of_def demo_answer_def demo_response_def)
  with r have "as_State (at_Status t) = TaskStateCanceled \<and>
     (\<exists>t2. handleA2AGet demo_env (Some ''1-1'') sv2 = TaskReply t2 \<and> as_State (at_Status t2) = TaskStateCompleted)"
    by (simp add: demo_env_def)
  with t post show ?thesis by simp
qed

theorem a2a_task_wedges_broker_witness:
  "\<exists>t sv1 sv2. handleA2ASend (demo_cfg demo_record) demo_env (Some [''solo-ralph'' \<mapsto> demo_preset]) (Some [\<lparr>ap_Kind = ''text'', ap_Text = ''go''\<rparr>])
       NewServer = (TaskReply t, sv1) \<and>
     next_pass demo_env (at_ID t) [] sv1 = (HandlerPanic, sv2) \<and>
     handleA2ACancel demo_env (Some ''1-1'') sv2 = (HandlerBlocked, sv2)"
proof -
  obtain t sv1 where send: "handleA2ASend (demo_cfg demo_record) demo_env (Some [''solo-ralph'' \<mapsto> demo_preset])
      (Some [\<lparr>ap_Kind = ''text'', ap_Text = ''go''\<rparr>]) NewServer = (TaskReply t, sv1)"
    using demo_id
    by (simp add: handleA2ASend_def textFromParts_def enter_session_def demo_cfg_def demo_env_def NewServer_def NewStore_def
        Store_Create_def generateID_def Let_def new_notify_def)
  have "Next demo_preset False None 1 = Inr ''planner''"
    by (simp add: Next_def roundRobin_def demo_preset_def)
  from a2a_task_wedges_broker [OF rtranclp.rtrancl_refl send refl _ _ _ this, of demo_env] send
  show ?thesis by (auto simp: demo_preset_def demo_env_def)
qed

theorem http_sessions_never_wedge_witness:
  "\<not> ts_wedged (demo_canceled [])"
  using http_sessions_never_wedge [OF demo_canceled_reached] by blast

text \<open>A subscriber joins, and the task is cancelled.\<close>

definition demo_subscribed :: turn_server where
  "demo_subscribed = snd (handleA2ASendSubscribe (Some ''1-1'') (demo_server (ending [])))"

theorem hangup_after_cancel_panics_witness:
  "fst (subscriber_round True ''1-1'' 0 (snd (handleA2ACancel demo_env (Some ''1-1'') demo_subscribed))) = HandlerPanic"
proof -
  have "\<exists>r. handleA2ASendSubscribe (Some ''1-1'') (demo_server (ending [])) = (r, demo_subscribed)"
    by (simp add: demo_subscribed_def prod_eq_iff)
  then have reach: "(turn_step (demo_cfg demo_record) False)\<^sup>*\<^sup>* NewServer demo_subscribed"
    using demo_reached by (meson rtranclp.rtrancl_into_rtrancl turn_step.SubscribeTask)
  have sub: "demo_subscribed = put_state ''1-1'' ((new_state (ending []) (Some demo_pad) (Some {}) 0 (Some 0))\<lparr>ss_a2aSubs := [0]\<rparr>)
      ((demo_server (ending []))\<lparr>ts_chans := (ts_chans NewServer)(0 := \<lparr>ac_buf = [], ac_closed = False\<rparr>), ts_nextChan := 1\<rparr>)"
    by (simp add: demo_subscribed_def handleA2ASendSubscribe_def taskIDFromParams_def demo_server_def NewServer_def new_state_def Let_def put_state_def)
  obtain t sv1 where c: "handleA2ACancel demo_env (Some ''1-1'') demo_subscribed = (TaskReply t, sv1)" "\<not> ts_wedged sv1"
    using demo_id(2)
    by (simp add: sub handleA2ACancel_def taskIDFromParams_def demo_server_def NewServer_def new_state_def new_notify_def
        put_state_def Store_Get_def demo_env_def)
  have "0 \<in> set (subs_of demo_subscribed ''1-1'')" by (simp add: sub subs_of_def)
  from hangup_after_cancel_panics [OF reach this c(1) rtranclp.rtrancl_refl c(2)] c(1) show ?thesis by simp
qed

theorem exhaustion_wakes_nobody_witness:
  "\<exists>sv'. next_pass demo_env ''1-1'' [] (demo_server (demo_preset\<lparr>p_Budget := \<lparr>b_TokensLeft = 0, b_TurnsLeft = 0, b_DeadlineMS = 0, b_DryRoundsThreshold = 0\<rparr>\<rparr>)) =
     (TurnHttpError 410, sv') \<and> ts_notified sv' = {}"
proof -
  let ?p = "demo_preset\<lparr>p_Budget := \<lparr>b_TokensLeft = 0, b_TurnsLeft = 0, b_DeadlineMS = 0, b_DryRoundsThreshold = 0\<rparr>\<rparr>"
  let ?sv = "demo_server ?p" and ?s = "new_state ?p (Some demo_pad) (Some {}) 0 (Some 0)"
  have reach: "(turn_step (demo_cfg demo_record) False)\<^sup>*\<^sup>* NewServer ?sv"
    by (rule r_into_rtranclp, rule turn_step.CreateSession, rule demo_create) (simp_all add: demo_preset_def)
  have s: "ts_sessionStates ?sv ''1-1'' = Some ?s" "\<not> ss_terminal ?s" by (simp_all add: demo_server_def new_state_def)
  have p: "next_pass demo_env ''1-1'' [] ?sv =
      (TurnHttpError 410, put_state ''1-1'' (?s\<lparr>ss_terminal := True, ss_terminalReason := ''budget exhausted''\<rparr>) ?sv)"
    by (simp add: next_pass_def s(1) Remaining_def IsExhausted_def Let_def) (simp add: demo_server_def NewServer_def new_state_def)
  from exhaustion_wakes_nobody [OF reach s p] p show ?thesis
    by (auto simp: ended_def put_state_def) (simp add: demo_server_def NewServer_def put_state_def)
qed

theorem dry_count_agrees_witness:
  "\<exists>s'. count_artifacts demo_response (turn_taken demo_request demo_response (new_state demo_preset None (Some {}) 0 None)) = Some s' \<and>
     tracks s' [demo_record]"
proof -
  obtain s' where c: "count_artifacts demo_response (turn_taken demo_request demo_response (new_state demo_preset None (Some {}) 0 None)) = Some s'"
    using counts_artifacts [OF seen_new] by blast
  from dry_count_agrees [OF tracks_new c, of demo_record] c show ?thesis by (simp add: demo_record_def)
qed

end
