(* ===== verification/Presets.thy ===== *)
theory Presets
  imports TurnProperties
begin

section \<open>Presets (internal/preset)\<close>

text \<open>
  Loading a preset: the validation, the translation to the wire type, the directory of embedded
  presets, and the three presets the program ships, as their YAML decodes. Decoding YAML is a
  library's. The theory shows that a loaded preset always routes, and that two of the three
  shipped presets never end a session by an exit condition.
\<close>

record yamlRole =
  yr_ID :: string
  yr_Runtime :: string
  yr_Model :: string

record yamlBudget =
  yb_MaxTurns :: int
  yb_MaxTokens :: int
  yb_DeadlineMinutes :: int
  yb_DryRoundsThreshold :: int

record yamlScratch =
  ys_MaxKB :: int
  ys_SummarizeWith :: string

record yamlPreset =
  yp_Name :: string
  yp_Description :: string
  yp_Roles :: "yamlRole list"
  yp_Routing :: string
  yp_Budget :: yamlBudget
  yp_ExitWhen :: "string list"
  yp_Scratch :: yamlScratch

datatype preset_error =
    DecodePreset
  | PresetNameRequired
  | NoRoles
  | MaxTurnsNotPositive
  | MaxTokensNotPositive
  | InvalidRouting string
  | ReadPresetsDir
  | ReadPreset string
  | LoadPreset string preset_error

definition validRouting :: "string \<Rightarrow> bool" where
  "validRouting r \<longleftrightarrow>
     r = ''round_robin'' \<or> r = ''handoff_then_round_robin'' \<or> r = ''strict_round_robin'' \<or> r = ''last_writer_wins''"

text \<open>\<open>None\<close>: the YAML does not decode, or has an unknown key. Minutes become milliseconds in 64 bits.\<close>

definition Preset_Load :: "yamlPreset option \<Rightarrow> preset_error + Preset" where
  "Preset_Load yaml =
     (case yaml of
        None \<Rightarrow> Inl DecodePreset
      | Some yp \<Rightarrow>
          if yp_Name yp = [] then Inl PresetNameRequired
          else if length (yp_Roles yp) = 0 then Inl NoRoles
          else if yb_MaxTurns (yp_Budget yp) \<le> 0 then Inl MaxTurnsNotPositive
          else if yb_MaxTokens (yp_Budget yp) \<le> 0 then Inl MaxTokensNotPositive
          else if \<not> validRouting (yp_Routing yp) then Inl (InvalidRouting (yp_Routing yp))
          else Inr \<lparr>p_Name = yp_Name yp, p_Description = yp_Description yp,
                    p_Roles = map (\<lambda>yr. \<lparr>r_ID = yr_ID yr, r_Runtime = yr_Runtime yr, r_Model = yr_Model yr\<rparr>) (yp_Roles yp),
                    p_Routing = yp_Routing yp,
                    p_Budget = \<lparr>b_TokensLeft = yb_MaxTokens (yp_Budget yp), b_TurnsLeft = yb_MaxTurns (yp_Budget yp),
                      b_DeadlineMS = i64 (yb_DeadlineMinutes (yp_Budget yp) * 60000),
                      b_DryRoundsThreshold = yb_DryRoundsThreshold (yp_Budget yp)\<rparr>,
                    p_ExitWhen = yp_ExitWhen yp,
                    p_Scratch = \<lparr>sc_MaxKB = ys_MaxKB (yp_Scratch yp), sc_SummarizeWith = ys_SummarizeWith (yp_Scratch yp)\<rparr>\<rparr>)"

text \<open>A directory's entries; \<open>None\<close> data cannot be read.\<close>

record preset_file =
  pf_Name :: string
  pf_IsDir :: bool
  pf_Data :: "yamlPreset option option"

fun load_entries :: "(string \<Rightarrow> Preset option) \<Rightarrow> preset_file list \<Rightarrow> preset_error + (string \<Rightarrow> Preset option)" where
  "load_entries presets [] = Inr presets"
| "load_entries presets (entry # entries) =
     (if pf_IsDir entry then load_entries presets entries
      else if \<not> HasSuffix (pf_Name entry) ''.yaml'' then load_entries presets entries
      else case pf_Data entry of
        None \<Rightarrow> Inl (ReadPreset (pf_Name entry))
      | Some data \<Rightarrow>
          (case Preset_Load data of
             Inl e \<Rightarrow> Inl (LoadPreset (pf_Name entry) e)
           | Inr p \<Rightarrow> load_entries (presets(p_Name p \<mapsto> p)) entries))"

definition loadFromFS :: "preset_file list option \<Rightarrow> preset_error + (string \<Rightarrow> Preset option)" where
  "loadFromFS dir = (case dir of None \<Rightarrow> Inl ReadPresetsDir | Some entries \<Rightarrow> load_entries Map.empty entries)"

subsection \<open>The shipped presets\<close>

definition fake_demo_yaml :: yamlPreset where
  "fake_demo_yaml =
     \<lparr>yp_Name = ''fake-demo'',
      yp_Description = ''Zero-credential smoke test. Runs the in-process `fake` runtime so you can verify an install end-to-end without any agent CLI or API key.'',
      yp_Roles = [\<lparr>yr_ID = ''demo'', yr_Runtime = ''fake'', yr_Model = ''none''\<rparr>], yp_Routing = ''round_robin'',
      yp_Budget = \<lparr>yb_MaxTurns = 5, yb_MaxTokens = 100000, yb_DeadlineMinutes = 5, yb_DryRoundsThreshold = 0\<rparr>,
      yp_ExitWhen = [''turns_exhausted'', ''reviewer_approved'', ''deadline_passed''],
      yp_Scratch = \<lparr>ys_MaxKB = 0, ys_SummarizeWith = []\<rparr>\<rparr>"

definition pair_review_yaml :: yamlPreset where
  "pair_review_yaml =
     \<lparr>yp_Name = ''pair-review'',
      yp_Description = ''Planner, executor, and reviewer roles cycling in a structured review loop.'',
      yp_Roles =
        [\<lparr>yr_ID = ''planner'', yr_Runtime = ''claude'', yr_Model = ''opus''\<rparr>,
         \<lparr>yr_ID = ''executor'', yr_Runtime = ''kimi'', yr_Model = ''kimi-k2''\<rparr>,
         \<lparr>yr_ID = ''reviewer'', yr_Runtime = ''claude'', yr_Model = ''sonnet''\<rparr>],
      yp_Routing = ''handoff_then_round_robin'',
      yp_Budget = \<lparr>yb_MaxTurns = 20, yb_MaxTokens = 400000, yb_DeadlineMinutes = 60, yb_DryRoundsThreshold = 3\<rparr>,
      yp_ExitWhen = [''tests_pass'', ''reviewer_approved'', ''turns_exhausted'', ''dry_rounds''],
      yp_Scratch = \<lparr>ys_MaxKB = 64, ys_SummarizeWith = ''claude-haiku''\<rparr>\<rparr>"

definition solo_ralph_yaml :: yamlPreset where
  "solo_ralph_yaml =
     \<lparr>yp_Name = ''solo-ralph'',
      yp_Description = ''Single runtime running the ralph loop with budget and exit guards.'',
      yp_Roles = [\<lparr>yr_ID = ''ralph'', yr_Runtime = ''claude'', yr_Model = ''sonnet''\<rparr>], yp_Routing = ''round_robin'',
      yp_Budget = \<lparr>yb_MaxTurns = 30, yb_MaxTokens = 600000, yb_DeadlineMinutes = 90, yb_DryRoundsThreshold = 0\<rparr>,
      yp_ExitWhen = [''tests_pass'', ''turns_exhausted'', ''deadline_passed''],
      yp_Scratch = \<lparr>ys_MaxKB = 64, ys_SummarizeWith = ''claude-haiku''\<rparr>\<rparr>"

definition presetsFS :: "preset_file list" where
  "presetsFS =
     [\<lparr>pf_Name = ''fake-demo.yaml'', pf_IsDir = False, pf_Data = Some (Some fake_demo_yaml)\<rparr>,
      \<lparr>pf_Name = ''pair-review.yaml'', pf_IsDir = False, pf_Data = Some (Some pair_review_yaml)\<rparr>,
      \<lparr>pf_Name = ''solo-ralph.yaml'', pf_IsDir = False, pf_Data = Some (Some solo_ralph_yaml)\<rparr>]"

definition LoadEmbedded :: "preset_error + (string \<Rightarrow> Preset option)" where
  "LoadEmbedded = loadFromFS (Some presetsFS)"

subsection \<open>Loaded presets\<close>

definition good_preset :: "Preset \<Rightarrow> bool" where
  "good_preset p \<longleftrightarrow> p_Name p \<noteq> [] \<and> p_Roles p \<noteq> [] \<and> 0 < b_TurnsLeft (p_Budget p) \<and> 0 < b_TokensLeft (p_Budget p) \<and>
     validRouting (p_Routing p)"

lemma Preset_Load_good: "Preset_Load yaml = Inr p \<Longrightarrow> good_preset p"
  by (auto simp: Preset_Load_def good_preset_def split: option.splits if_splits)

definition keyed :: "(string \<Rightarrow> Preset option) \<Rightarrow> bool" where
  "keyed m \<longleftrightarrow> (\<forall>n p. m n = Some p \<longrightarrow> good_preset p \<and> p_Name p = n)"

lemma load_entries_good: "load_entries m es = Inr m' \<Longrightarrow> keyed m \<Longrightarrow> keyed m'"
proof (induction es arbitrary: m)
  case (Cons entry entries)
  show ?case
  proof (cases "pf_IsDir entry \<or> \<not> HasSuffix (pf_Name entry) ''.yaml''")
    case True
    with Cons show ?thesis by (auto split: if_splits)
  next
    case False
    with Cons.prems(1) obtain data q where d: "Preset_Load data = Inr q" "load_entries (m(p_Name q \<mapsto> q)) entries = Inr m'"
      by (auto split: option.splits sum.splits)
    have "keyed (m(p_Name q \<mapsto> q))"
      using Cons.prems(2) Preset_Load_good [OF d(1)] by (simp add: keyed_def)
    with d(2) show ?thesis by (rule Cons.IH)
  qed
qed simp

text \<open>
  A preset that loads can be played. It is keyed by its own name, a session made with it is
  not exhausted before its first turn, and the router, whatever the last response was and
  whatever the turn, names one of its roles or refuses a blocked turn for want of a reviewer;
  it never meets an unknown policy.
\<close>

theorem loaded_preset_plays:
  assumes "loadFromFS dir = Inr presets" and "presets name = Some p"
  shows "p_Name p = name \<and> \<not> IsExhausted (Remaining (p_Budget p) \<lparr>u_TokensIn = 0, u_TokensOut = 0, u_Ms = 0\<rparr> 0) \<and>
    (case Next p False prev turn of
       Inr roleID \<Rightarrow> isValidRole p roleID
     | Inl e \<Rightarrow> e = BlockedWithoutReviewer \<and> findReviewer p = [])"
proof -
  from assms have good: "good_preset p" "p_Name p = name"
    using load_entries_good [of Map.empty] by (auto simp: loadFromFS_def keyed_def split: option.splits)
  then have rr: "isValidRole p (roundRobin p t)" for t by (simp add: roundRobin_role good_preset_def)
  have rev: "findReviewer p \<noteq> [] \<Longrightarrow> isValidRole p (findReviewer p)"
    by (auto simp: findReviewer_def isValidRole_def split: if_splits)
  from good rr rev show ?thesis
    by (auto simp: good_preset_def validRouting_def Next_def IsExhausted_def Remaining_def Let_def split: option.split)
qed

subsection \<open>The shipped presets in the broker\<close>

lemma LoadEmbedded_presets:
  obtains presets p q where "LoadEmbedded = Inr presets" "presets ''pair-review'' = Some p" "presets ''solo-ralph'' = Some q"
    "p_ExitWhen p = [ExitTestsPass, ExitReviewerApproved, ExitTurnsExhausted, ExitDryRounds]"
    "p_ExitWhen q = [ExitTestsPass, ExitTurnsExhausted, ExitDeadlinePassed]"
  by (simp add: LoadEmbedded_def loadFromFS_def presetsFS_def HasSuffix_def Preset_Load_def fake_demo_yaml_def pair_review_yaml_def
      solo_ralph_yaml_def validRouting_def)

lemma judged_hidden:
  assumes "p_ExitWhen (ss_preset s) = ExitTestsPass # conds"
  shows "judged cfg ev records s = s"
  using assms by (simp add: judged_def evaluateOne_def broker_evaluator_def NewEvaluator_def)

lemma unjudged_keeps_terminal:
  assumes ok: "turn_server_ok sv" and hide: "p_ExitWhen (ss_preset s) = ExitTestsPass # conds"
    and s: "ts_sessionStates sv sid = Some s" and post: "handlePostTurn cfg ev sid body sv = (r, sv')"
  shows "\<exists>s'. ts_sessionStates sv' sid = Some s' \<and> ss_terminal s' = ss_terminal s"
  using ok post
proof (cases rule: handlePostTurn_cases)
  case (recorded resp s0 s1 req pad err store)
  with s count_artifacts_keeps(6) [OF recorded(5)] show ?thesis by simp
next
  case (evaluated resp s0 s1 req pad store records)
  let ?sv2 = "put_state sid s1 (sv\<lparr>ts_pendingReqs := (ts_pendingReqs sv)(sid := None), ts_scratch := pad, ts_store := store\<rparr>)"
  have ok2: "turn_server_ok ?sv2" by (rule stored_ok [OF ok evaluated(3-6)])
  have s0: "s0 = s" using evaluated(3) s by simp
  note keep = count_artifacts_keeps [OF evaluated(5)]
  have "judged cfg ev records s1 = s1" by (rule judged_hidden) (use hide keep(2) s0 in simp)
  with post_evaluate_result [OF ok2, of sid s1 cfg ev records] evaluated(2,8) keep(6) s0 show ?thesis by auto
qed (use s in auto)

text \<open>
  The shipped presets \<^verbatim>\<open>pair-review\<close> and \<^verbatim>\<open>solo-ralph\<close> never end by their exit conditions.
  Their list starts with \<^verbatim>\<open>tests_pass\<close>, which the broker does not run: no posted turn ends such
  a session, whether the reviewer approves, the rounds are dry or the deadline has passed.
\<close>

theorem shipped_presets_never_exit:
  assumes "LoadEmbedded = Inr presets" and "name \<in> {''pair-review'', ''solo-ralph''}" and "presets name = Some p"
    and "(turn_step cfg a2a)\<^sup>*\<^sup>* NewServer sv" and "ts_sessionStates sv sid = Some s" and "ss_preset s = p"
    and "handlePostTurn cfg ev sid body sv = (r, sv')"
  shows "\<exists>s'. ts_sessionStates sv' sid = Some s' \<and> ss_terminal s' = ss_terminal s"
proof -
  have "\<exists>conds. p_ExitWhen p = ExitTestsPass # conds"
  proof -
    obtain ps q1 q2 where l: "LoadEmbedded = Inr ps" "ps ''pair-review'' = Some q1" "ps ''solo-ralph'' = Some q2"
      "p_ExitWhen q1 = [ExitTestsPass, ExitReviewerApproved, ExitTurnsExhausted, ExitDryRounds]"
      "p_ExitWhen q2 = [ExitTestsPass, ExitTurnsExhausted, ExitDeadlinePassed]" by (rule LoadEmbedded_presets)
    moreover have "ps = presets" using trans [OF l(1) [symmetric] assms(1)] by (rule sum.inject(2) [THEN iffD1])
    ultimately show ?thesis using assms(2,3) by auto
  qed
  then obtain conds where "p_ExitWhen (ss_preset s) = ExitTestsPass # conds" using assms(6) by blast
  from unjudged_keeps_terminal [OF steps_ok [OF assms(4)] this assms(5,7)] show ?thesis .
qed

subsection \<open>Witnesses\<close>

theorem loaded_preset_plays_witness:
  "\<exists>presets p. LoadEmbedded = Inr presets \<and> presets ''solo-ralph'' = Some p \<and>
     (case Next p False None 1 of Inr roleID \<Rightarrow> isValidRole p roleID | Inl e \<Rightarrow> e = BlockedWithoutReviewer)"
proof -
  obtain presets p where l: "LoadEmbedded = Inr presets" "presets ''solo-ralph'' = Some p" by (rule LoadEmbedded_presets)
  from loaded_preset_plays [OF l(1) [unfolded LoadEmbedded_def] l(2), of None 1]
  have "case Next p False None 1 of Inr roleID \<Rightarrow> isValidRole p roleID | Inl e \<Rightarrow> e = BlockedWithoutReviewer"
    by (simp split: sum.splits)
  with l show ?thesis by blast
qed

theorem shipped_presets_never_exit_witness:
  "\<exists>presets p sv s'. LoadEmbedded = Inr presets \<and> presets ''pair-review'' = Some p \<and>
     snd (handlePostTurn (demo_cfg demo_record) demo_env ''1-1'' (Some demo_answer)
       (snd (handleCreateSession (demo_cfg demo_record) demo_env (Some (p, demo_task)) NewServer))) = sv \<and>
     ts_sessionStates sv ''1-1'' = Some s' \<and> \<not> ss_terminal s'"
proof -
  obtain presets p where l: "LoadEmbedded = Inr presets" "presets ''pair-review'' = Some p" by (rule LoadEmbedded_presets)
  let ?c = "handleCreateSession (demo_cfg demo_record) demo_env (Some (p, demo_task)) NewServer"
  have run: "(turn_step (demo_cfg demo_record) False)\<^sup>*\<^sup>* NewServer (snd ?c)"
    by (rule r_into_rtranclp, rule turn_step.CreateSession, rule prod.collapse [symmetric])
  obtain m n c where s: "ts_sessionStates (snd ?c) ''1-1'' = Some (new_state p m (Some {}) c n)"
    using demo_id
    by (simp add: handleCreateSession_def enter_session_def demo_cfg_def demo_env_def NewServer_def NewStore_def Store_Create_def
        generateID_def Let_def new_notify_def put_state_def)
  have "ss_preset (new_state p m (Some {}) c n) = p" by (simp add: new_state_def)
  from shipped_presets_never_exit [OF l(1) _ l(2) run s this, of demo_env "Some demo_answer"] l show ?thesis
    by (simp add: new_state_def) (metis prod.collapse)
qed

end
