(* ===== verification/ScanLines.thy ===== *)
theory ScanLines
  imports Prelude
begin

section \<open>Lines as bufio.Scanner reads them\<close>

text \<open>
  The line scanner that the runner and the convention parser read with: lines end at a newline,
  a carriage return before it is dropped, and a line that does not fit into the buffer of 64 KiB
  ends the scan.
\<close>

abbreviation MaxScanTokenSize :: nat where "MaxScanTokenSize \<equiv> 65536"

definition drop_cr :: "string \<Rightarrow> string" where
  "drop_cr l = (if l \<noteq> [] \<and> last l = CHR 0x0D then butlast l else l)"

lemma drop_cr_plain: "CHR 0x0D \<notin> set l \<Longrightarrow> drop_cr l = l"
  using last_in_set by (fastforce simp: drop_cr_def)

text \<open>
  The lines before the scanner stops, and whether it stopped at a line that does not fit. What
  is left when the reader ends or fails is a line.
\<close>

function scan_lines :: "bytes \<Rightarrow> string list \<times> bool" where
  "scan_lines b =
     (let l = takeWhile (\<lambda>c. c \<noteq> CHR 0x0A) b in
      if length l \<ge> MaxScanTokenSize then ([], True)
      else if length l < length b then
        (let (ls, long) = scan_lines (drop (Suc (length l)) b) in (drop_cr l # ls, long))
      else if b = [] then ([], False) else ([drop_cr l], False))"
  by pat_completeness auto
termination by (relation "measure length") auto

declare scan_lines.simps [simp del]

lemma scan_lines_line:
  assumes "CHR 0x0A \<notin> set l" "length l < MaxScanTokenSize"
  shows "scan_lines (l @ CHR 0x0A # b) = (drop_cr l # fst (scan_lines b), snd (scan_lines b))"
proof -
  have "takeWhile (\<lambda>c. c \<noteq> CHR 0x0A) (l @ CHR 0x0A # b) = l" using assms(1) by (subst takeWhile_append2) auto
  then show ?thesis
    using assms(2) by (subst scan_lines.simps) (simp add: Let_def case_prod_unfold)
qed

lemma scan_lines_long: "CHR 0x0A \<notin> set l \<Longrightarrow> MaxScanTokenSize \<le> length l \<Longrightarrow> scan_lines (l @ b) = ([], True)"
proof -
  assume l: "CHR 0x0A \<notin> set l" "MaxScanTokenSize \<le> length l"
  have "takeWhile (\<lambda>c. c \<noteq> CHR 0x0A) (l @ b) = l @ takeWhile (\<lambda>c. c \<noteq> CHR 0x0A) b"
    using l(1) by (subst takeWhile_append2) auto
  with l(2) show ?thesis by (subst scan_lines.simps) (simp add: Let_def)
qed

text \<open>A text of short lines scans to its lines.\<close>

lemma scan_lines_Nil [simp]: "scan_lines [] = ([], False)"
  by (subst scan_lines.simps) simp

lemma scan_lines_concat:
  "list_all (\<lambda>l. CHR 0x0A \<notin> set l \<and> length l < MaxScanTokenSize) ls \<Longrightarrow>
   scan_lines (concat (map (\<lambda>l. l @ [CHR 0x0A]) ls) @ b) = (map drop_cr ls @ fst (scan_lines b), snd (scan_lines b))"
  by (induction ls) (simp_all add: scan_lines_line)

end
