(* ===== verification/Runner.thy ===== *)
theory Runner
  imports TurnProperties ScanLines
begin

section \<open>The runner (internal/runner)\<close>

text \<open>
  The client of the turn broker: it polls for its role's next turn, runs the adapter, posts
  the response, until the session is gone or the turn says done. An HTTP exchange is a value;
  the stream's body is read by \<^verbatim>\<open>bufio.Scanner\<close>, whose lines have less than 64 KiB. \<open>get\<close> and
  \<open>put\<close> are \<^verbatim>\<open>encoding/json\<close>. The theory shows what the loop does on every sequence of
  rounds, and what the runner makes of the broker's replies.
\<close>

subsection \<open>One exchange\<close>

text \<open>A response's status, the bytes that arrive, and whether reading them fails.\<close>

datatype http = HttpFails bool | HttpReply nat bytes "bool option"

text \<open>The flag of an error is \<^verbatim>\<open>Timeout()\<close> of a network error in its chain.\<close>

datatype runner_error =
    SessionGone
  | NoTurnYet
  | DoRequest bool
  | UnexpectedStatus nat
  | UnmarshalTurn
  | LineTooLong
  | ReadSSE bool
  | NoDataEvent
  | AdapterRun
  | RunnerCtxDone

definition isTransient :: "runner_error \<Rightarrow> bool" where
  "isTransient e = (case e of DoRequest timeout \<Rightarrow> timeout | ReadSSE timeout \<Rightarrow> timeout | _ \<Rightarrow> False)"

definition pollNext :: "(bytes \<Rightarrow> TurnRequest option) \<Rightarrow> http \<Rightarrow> runner_error + TurnRequest" where
  "pollNext get reply =
     (case reply of
        HttpFails timeout \<Rightarrow> Inl (DoRequest timeout)
      | HttpReply status body readErr \<Rightarrow>
          if status = 410 then Inl SessionGone
          else if status = 204 then Inl NoTurnYet
          else if status \<noteq> 200 then Inl (UnexpectedStatus status)
          else
            (let (ls, long) = scan_lines body in
             case List.find (\<lambda>l. HasPrefix l ''data: '') ls of
               Some l \<Rightarrow> (case get (drop 6 l) of None \<Rightarrow> Inl UnmarshalTurn | Some req \<Rightarrow> Inr req)
             | None \<Rightarrow>
                 if long then Inl LineTooLong
                 else (case readErr of Some timeout \<Rightarrow> Inl (ReadSSE timeout) | None \<Rightarrow> Inl NoDataEvent)))"

definition postTurn :: "http \<Rightarrow> runner_error option" where
  "postTurn reply =
     (case reply of
        HttpFails timeout \<Rightarrow> Some (DoRequest timeout)
      | HttpReply status body readErr \<Rightarrow> if status \<noteq> 200 then Some (UnexpectedStatus status) else None)"

subsection \<open>The loop\<close>

text \<open>What a round meets: the context, the poll's exchange, the adapter, the post's exchange.\<close>

record round =
  rd_ctx :: bool
  rd_poll :: http
  rd_adapter :: "TurnRequest \<Rightarrow> TurnResponse option"
  rd_post :: http

text \<open>One round: \<open>Some\<close> when the loop ends in it, with its error, if any.\<close>

definition Loop_round :: "(bytes \<Rightarrow> TurnRequest option) \<Rightarrow> round \<Rightarrow> runner_error option option" where
  "Loop_round get rd =
     (if rd_ctx rd then Some (Some RunnerCtxDone)
      else case pollNext get (rd_poll rd) of
        Inl e \<Rightarrow>
          if e = SessionGone then Some None
          else if e = NoTurnYet then None
          else if isTransient e then None
          else Some (Some e)
      | Inr req \<Rightarrow>
          (case rd_adapter rd req of
             None \<Rightarrow> Some (Some AdapterRun)
           | Some resp \<Rightarrow>
               (case postTurn (rd_post rd) of
                  Some e \<Rightarrow> if isTransient e then None else Some (Some e)
                | None \<Rightarrow> if tr_Done resp then Some None else None)))"

text \<open>\<open>None\<close>: the loop is still going after these rounds.\<close>

fun Loop_Run :: "(bytes \<Rightarrow> TurnRequest option) \<Rightarrow> round list \<Rightarrow> runner_error option option" where
  "Loop_Run get [] = None"
| "Loop_Run get (rd # rds) = (case Loop_round get rd of Some r \<Rightarrow> Some r | None \<Rightarrow> Loop_Run get rds)"

subsection \<open>The broker's replies on the wire\<close>

definition newline2 :: bytes where "newline2 = [CHR 0x0A, CHR 0x0A]"

definition next_reply :: "(TurnRequest \<Rightarrow> bytes) \<Rightarrow> turn_reply \<Rightarrow> http option" where
  "next_reply put r =
     (case r of
        TurnStream req \<Rightarrow> Some (HttpReply 200 (''data: '' @ put req @ newline2) None)
      | TurnHttpError code \<Rightarrow> Some (HttpReply code [] None)
      | NoContent \<Rightarrow> Some (HttpReply 204 [] None)
      | SessionReply code s \<Rightarrow> Some (HttpReply code [] None)
      | _ \<Rightarrow> None)"

subsection \<open>Properties\<close>

text \<open>
  The loop runs until the first round that ends it, and returns what that round returns;
  it goes on over empty polls, timeouts and turns that are not done.
\<close>

theorem Loop_Run_first:
  "Loop_Run get rds = (case List.find (\<lambda>rd. Loop_round get rd \<noteq> None) rds of None \<Rightarrow> None | Some rd \<Rightarrow> Loop_round get rd)"
  by (induction rds) (auto split: option.split)

text \<open>
  What the broker serves, the runner reads, as long as the request is short. A reply that
  streams a request whose JSON has no line break and fewer than 65530 bytes gives that request
  back; one with more ends the runner with an error, though the turn is out: no later poll
  can get a request of that size either.
\<close>

theorem served_turn_arrives:
  assumes "next_pass ev sid role sv = (TurnStream req, sv')" and "CHR 0x0A \<notin> set (put req)" and "put req \<noteq> []"
    and "last (put req) \<noteq> CHR 0x0D" and "get (put req) = Some req" and "rd_poll rd = the (next_reply put (TurnStream req))"
    and "\<not> rd_ctx rd"
  shows "(length (put req) < 65530 \<longrightarrow> pollNext get (rd_poll rd) = Inr req) \<and>
    (65530 \<le> length (put req) \<longrightarrow> ts_pendingReqs sv' sid = Some req \<and> Loop_round get rd = Some (Some LineTooLong))"
proof -
  let ?l = "''data: '' @ put req"
  have l: "CHR 0x0A \<notin> set ?l" "length ?l = 6 + length (put req)" using assms(2) by simp_all
  have body: "rd_poll rd = HttpReply 200 (?l @ CHR 0x0A # [CHR 0x0A]) None" using assms(6) by (simp add: next_reply_def newline2_def)
  have short: "pollNext get (rd_poll rd) = Inr req" if len: "length (put req) < 65530"
  proof -
    have "length ?l < MaxScanTokenSize" using len l(2) by simp
    from scan_lines_line [OF l(1) this, of "[CHR 0x0A]"] have "fst (scan_lines (?l @ CHR 0x0A # [CHR 0x0A])) = drop_cr ?l # fst (scan_lines [CHR 0x0A])"
      by (simp only: fst_conv)
    moreover have "drop_cr ?l = ?l" using assms(3,4) by (simp add: drop_cr_def)
    ultimately show ?thesis
      using assms(5) unfolding body pollNext_def http.case by (simp add: case_prod_unfold HasPrefix_def)
  qed
  have long: "pollNext get (rd_poll rd) = Inl LineTooLong" if "65530 \<le> length (put req)"
  proof -
    have "MaxScanTokenSize \<le> length ?l" using that l(2) by simp
    from scan_lines_long [OF l(1) this, of "CHR 0x0A # [CHR 0x0A]"] show ?thesis
      unfolding body pollNext_def http.case by simp
  qed
  have "ts_pendingReqs sv' sid = Some req"
    using assms(1) by (auto simp: next_pass_def Let_def split: if_splits option.splits sum.splits)
  with short long assms(7) show ?thesis by (simp add: Loop_round_def isTransient_def)
qed

text \<open>
  (C32) A runner of an ended session stops without an error at the first poll the broker answers, and
  so does every other runner of the session, however late it polls, under two conditions that are part of the
  statement: the runner's own context is still open (a cancelled runner ends with that error instead,
  whatever it polled), and the server's mutex is not wedged (a wedged server answers no
  poll of the session at all, and the runner hangs in it).
\<close>

theorem ended_session_stops_runners:
  assumes "(turn_step cfg a2a)\<^sup>*\<^sup>* NewServer sv" and "ended sid sv" and "(turn_step cfg a2a)\<^sup>*\<^sup>* sv sv'"
  shows "(\<not> ts_wedged sv' \<and> \<not> rd_ctx rd \<and> next_reply put (fst (next_pass ev sid role sv')) = Some (rd_poll rd) \<longrightarrow>
      Loop_Run get (rd # rds) = Some None) \<and>
    (\<not> ts_wedged sv' \<longrightarrow> next_reply put (fst (next_pass ev sid role sv')) \<noteq> None) \<and>
    (rd_ctx rd \<longrightarrow> Loop_Run get (rd # rds) = Some (Some RunnerCtxDone)) \<and>
    (ts_wedged sv' \<longrightarrow> next_reply put (fst (next_pass ev sid role sv')) = None)"
proof -
  have "ended sid sv'" by (rule ended_stays [OF steps_ok [OF assms(1)] assms(2,3)])
  then have "fst (next_pass ev sid role sv') = (if ts_wedged sv' then HandlerBlocked else TurnHttpError 410)"
    by (auto simp: ended_def next_pass_def)
  then show ?thesis
    by (auto simp: next_reply_def Loop_round_def pollNext_def) (drule sym, simp)?
qed

subsection \<open>Witnesses\<close>

definition demo_round :: "http \<Rightarrow> round" where
  "demo_round poll = \<lparr>rd_ctx = False, rd_poll = poll, rd_adapter = (\<lambda>req. Some demo_answer), rd_post = HttpReply 200 [] None\<rparr>"

theorem served_turn_arrives_witness:
  "fst (next_pass demo_env ''1-1'' [] (demo_server (ending []))) = TurnStream (demo_req []) \<and>
   pollNext (\<lambda>b. Some (demo_req [])) (HttpReply 200 (''data: {}'' @ newline2) None) = Inr (demo_req [])"
  using served_turn_arrives [OF demo_pass [of "[]"], of "\<lambda>r. ''{}''" "\<lambda>b. Some (demo_req [])"
      "demo_round (HttpReply 200 (''data: {}'' @ newline2) None)"] demo_pass [of "[]"]
  by (simp add: demo_round_def next_reply_def)

theorem ended_session_stops_runners_witness:
  "Loop_Run (\<lambda>b. None) [demo_round (HttpReply 410 [] None)] = Some None"
proof -
  have e: "ended ''1-1'' (demo_canceled [])" by (simp add: ended_def demo_cancel(5))
  then have "next_reply (\<lambda>r. []) (fst (next_pass demo_env ''1-1'' [] (demo_canceled []))) =
      Some (rd_poll (demo_round (HttpReply 410 [] None)))"
    using demo_cancel(4) by (auto simp: ended_def next_pass_def next_reply_def demo_round_def)
  with ended_session_stops_runners [OF demo_canceled_reached [where a2a = False] e rtranclp.rtrancl_refl,
      of "demo_round (HttpReply 410 [] None)" "\<lambda>r. []" demo_env "[]" "\<lambda>b. None" "[]"] demo_cancel(4)
  show ?thesis by (simp add: demo_round_def)
qed

end
