(* ===== verification/Conventions.thy ===== *)
theory Conventions
  imports Ledger ScanLines
begin

section \<open>Convention files (pkg/contract/conventions.go)\<close>

text \<open>
  The structural parser of \<^verbatim>\<open>AGENTS.md\<close> and \<^verbatim>\<open>CLAUDE.md\<close>: the front matter, the headings, the
  bullets and the raw lines of each section, the digests of the files, and the ledger entry
  that records them. The order in which Go iterates over a map is an argument. The theory
  shows what the parser keeps and where it loses lines.
\<close>

abbreviation ConventionSourceAgentsMD where "ConventionSourceAgentsMD \<equiv> ''AGENTS.md''"
abbreviation ConventionSourceClaudeMD where "ConventionSourceClaudeMD \<equiv> ''CLAUDE.md''"

record ConventionSection =
  cs_Heading :: string
  cs_Directives :: "string list"
  cs_RawLines :: "string list"

record Conventions =
  cn_Sections :: "string \<Rightarrow> ConventionSection list option"
  cn_Digests :: "string \<Rightarrow> string option"

subsection \<open>Lines\<close>

definition isATXHeading :: "string \<Rightarrow> bool" where
  "isATXHeading line =
     (let trimmed = TrimLeft line (CHR ''#''); hashes = length line - length trimmed
      in hashes \<ge> 1 \<and> hashes \<le> 6 \<and> (length trimmed = 0 \<or> trimmed ! 0 = CHR '' ''))"

definition parseHeading :: "string \<Rightarrow> string" where
  "parseHeading line = TrimSpace (TrimLeft line (CHR ''#''))"

definition parseBullet :: "string \<Rightarrow> string option" where
  "parseBullet line =
     (let trimmed = TrimSpace line in
      if length trimmed < 2 then None
      else if (trimmed ! 0 = CHR ''-'' \<or> trimmed ! 0 = CHR ''*'' \<or> trimmed ! 0 = CHR ''+'') \<and> trimmed ! 1 = CHR '' ''
      then Some (TrimSpace (drop 2 trimmed))
      else None)"

subsection \<open>Sections\<close>

text \<open>The first loop, with its three flags: inside, done, and still at the first line.\<close>

fun content_lines :: "bool \<Rightarrow> bool \<Rightarrow> bool \<Rightarrow> string list \<Rightarrow> string list" where
  "content_lines inFront fdone first [] = []"
| "content_lines inFront fdone first (line # rest) =
     (if first \<and> \<not> fdone \<and> TrimSpace line = ''---'' then content_lines True fdone False rest
      else
        let first = (if first \<and> \<not> fdone then False else first) in
        if inFront then
          (if TrimSpace line = ''---'' then content_lines False True first rest else content_lines True fdone first rest)
        else line # content_lines inFront fdone first rest)"

text \<open>The second loop, with the current section.\<close>

fun section_loop :: "ConventionSection option \<Rightarrow> string list \<Rightarrow> ConventionSection list" where
  "section_loop current [] = (case current of None \<Rightarrow> [] | Some s \<Rightarrow> [s])"
| "section_loop current (line # rest) =
     (if isATXHeading line then
        (case current of None \<Rightarrow> [] | Some s \<Rightarrow> [s]) @
        section_loop (Some \<lparr>cs_Heading = parseHeading line, cs_Directives = [], cs_RawLines = []\<rparr>) rest
      else
        let s = (case current of None \<Rightarrow> \<lparr>cs_Heading = [], cs_Directives = [], cs_RawLines = []\<rparr> | Some s \<Rightarrow> s);
            s1 = s\<lparr>cs_RawLines := cs_RawLines s @ [line]\<rparr>
        in section_loop
             (Some (case parseBullet line of None \<Rightarrow> s1 | Some d \<Rightarrow> s1\<lparr>cs_Directives := cs_Directives s1 @ [d]\<rparr>)) rest)"

definition parseSections :: "string \<Rightarrow> ConventionSection list" where
  "parseSections content = section_loop None (content_lines False False True (fst (scan_lines content)))"

text \<open>\<open>sources\<close> in the order of the iteration; the keys of a map are distinct.\<close>

fun ParseConventions :: "(string \<times> string) list \<Rightarrow> Conventions" where
  "ParseConventions [] = \<lparr>cn_Sections = Map.empty, cn_Digests = Map.empty\<rparr>"
| "ParseConventions ((key, content) # sources) =
     (let c = ParseConventions sources in
      if content = [] then c
      else c\<lparr>cn_Sections := (cn_Sections c)(key \<mapsto> parseSections content),
             cn_Digests := (cn_Digests c)(key \<mapsto> EncodeToString (sha256 content))\<rparr>)"

abbreviation LedgerEventConventionsLoaded where "LedgerEventConventionsLoaded \<equiv> ''conventions_loaded''"

text \<open>\<open>order\<close> is the order in which the digests are iterated over.\<close>

definition NewConventionsLoadedEntry :: "int \<Rightarrow> string \<Rightarrow> string list \<Rightarrow> Conventions \<Rightarrow> HarnessLedgerEntry" where
  "NewConventionsLoadedEntry at cycleID order conventions =
     (let sources = order;
          digestParts = map (\<lambda>src. src @ ''='' @ (case cn_Digests conventions src of Some d \<Rightarrow> d | None \<Rightarrow> [])) order;
          summary = (if length sources = 0 then ''conventions loaded: none (no convention files present)''
                     else ''conventions loaded: '' @ Join sources '', '')
      in (NewHarnessLedgerEntry at cycleID LedgerEventConventionsLoaded summary [])\<lparr>le_Files := digestParts\<rparr>)"

subsection \<open>Facts\<close>

definition after_fence :: "string list \<Rightarrow> string list" where
  "after_fence ls = drop 1 (dropWhile (\<lambda>l. TrimSpace l \<noteq> ''---'') ls)"

lemma content_lines_plain: "content_lines False d False ls = ls"
  by (induction ls) simp_all

lemma content_lines_front: "content_lines True False False ls = after_fence ls"
  by (induction ls) (simp_all add: content_lines_plain after_fence_def)

lemma content_lines_eq:
  "content_lines False False True ls = (case ls of [] \<Rightarrow> [] | l # r \<Rightarrow> if TrimSpace l = ''---'' then after_fence r else ls)"
  by (cases ls) (simp_all add: content_lines_plain content_lines_front)

definition good_section :: "ConventionSection \<Rightarrow> bool" where
  "good_section s \<longleftrightarrow> cs_Directives s = List.map_filter parseBullet (cs_RawLines s)"

lemma map_filter_snoc: "List.map_filter f (xs @ [x]) = List.map_filter f xs @ (case f x of None \<Rightarrow> [] | Some y \<Rightarrow> [y])"
  by (simp add: List.map_filter_def split: option.split)

lemma section_loop_spec:
  assumes "pred_option good_section current"
  defines "cur \<equiv> case current of None \<Rightarrow> [] | Some s \<Rightarrow> [s]"
  shows "list_all good_section (section_loop current ls) \<and>
    concat (map cs_RawLines (section_loop current ls)) = concat (map cs_RawLines cur) @ filter (\<lambda>l. \<not> isATXHeading l) ls \<and>
    map cs_Heading (section_loop current ls) =
      map cs_Heading cur @ (if current = None \<and> ls \<noteq> [] \<and> \<not> isATXHeading (hd ls) then [[]] else []) @ map parseHeading (filter isATXHeading ls)"
  using assms(1) unfolding cur_def
proof (induction current ls rule: section_loop.induct)
  case (1 current)
  then show ?case by (cases current) simp_all
next
  case (2 current line rest)
  show ?case
  proof (cases "isATXHeading line")
    case True
    have "good_section \<lparr>cs_Heading = parseHeading line, cs_Directives = [], cs_RawLines = []\<rparr>"
      by (simp add: good_section_def List.map_filter_def)
    with "2.IH"(1) [OF True] "2.prems" True show ?thesis by (cases current) simp_all
  next
    case False
    define s where "s = (case current of None \<Rightarrow> \<lparr>cs_Heading = [], cs_Directives = [], cs_RawLines = []\<rparr> | Some s \<Rightarrow> s)"
    define s1 where "s1 = s\<lparr>cs_RawLines := cs_RawLines s @ [line]\<rparr>"
    define s2 where "s2 = (case parseBullet line of None \<Rightarrow> s1 | Some d \<Rightarrow> s1\<lparr>cs_Directives := cs_Directives s1 @ [d]\<rparr>)"
    have "good_section s" using "2.prems" by (cases current) (simp_all add: s_def good_section_def List.map_filter_def)
    then have g: "good_section s2"
      by (simp add: s2_def s1_def good_section_def map_filter_snoc split: option.split)
    have step: "section_loop current (line # rest) = section_loop (Some s2) rest"
      using False by (simp only: section_loop.simps if_False Let_def s2_def s1_def s_def)
    have f: "cs_RawLines s2 = cs_RawLines s @ [line]" "cs_Heading s2 = cs_Heading s"
      by (simp_all add: s2_def s1_def split: option.split)
    have "pred_option good_section (Some s2)" using g by simp
    from "2.IH"(2) [OF False s_def s1_def this [unfolded s2_def]]
    have ih: "list_all good_section (section_loop (Some s2) rest) \<and>
      concat (map cs_RawLines (section_loop (Some s2) rest)) = cs_RawLines s2 @ filter (\<lambda>l. \<not> isATXHeading l) rest \<and>
      map cs_Heading (section_loop (Some s2) rest) = cs_Heading s2 # map parseHeading (filter isATXHeading rest)"
      by (simp add: s2_def)
    show ?thesis unfolding step using ih False f by (cases current) (simp_all add: s_def)
  qed
qed

subsection \<open>Properties\<close>

text \<open>
  The parser loses no line it was given and invents none. Past the front matter, the raw
  lines of the sections together are the lines that are no headings, in order; the sections'
  headings are the texts of the heading lines, after an unnamed section when the file does
  not start with a heading; and a section's directives are the bullets among its raw lines.
\<close>

theorem parseSections_keeps_lines:
  "let ls = content_lines False False True (fst (scan_lines content)); ss = parseSections content in
   concat (map cs_RawLines ss) = filter (\<lambda>l. \<not> isATXHeading l) ls \<and>
   map cs_Heading ss = (if ls \<noteq> [] \<and> \<not> isATXHeading (hd ls) then [[]] else []) @ map parseHeading (filter isATXHeading ls) \<and>
   map cs_Directives ss = map (\<lambda>s. List.map_filter parseBullet (cs_RawLines s)) ss"
proof -
  let ?ls = "content_lines False False True (fst (scan_lines content))"
  have ss: "parseSections content = section_loop None ?ls" by (simp add: parseSections_def)
  from section_loop_spec [of None ?ls] show ?thesis
    unfolding Let_def ss by (auto simp: list_all_iff good_section_def)
qed

text \<open>
  Two ways a convention file is lost without an error. A first line \<^verbatim>\<open>---\<close> that no later
  line closes takes the whole file with it; and a line of 64 KiB ends the scan, so it and
  every line after it are missing from the sections.
\<close>

theorem conventions_lost:
  assumes "list_all (\<lambda>l. CHR 0x0A \<notin> set l \<and> length l < MaxScanTokenSize) ls"
  defines "text \<equiv> concat (map (\<lambda>l. l @ [CHR 0x0A]) ls)"
  shows "(list_all (\<lambda>l. TrimSpace l \<noteq> ''---'') (map drop_cr ls) \<longrightarrow> parseSections (''---'' @ CHR 0x0A # text) = []) \<and>
    (CHR 0x0A \<notin> set long \<and> MaxScanTokenSize \<le> length long \<longrightarrow> parseSections (text @ long @ rest) = parseSections text)"
proof (intro conjI impI)
  have lines: "fst (scan_lines text) = map drop_cr ls"
    using scan_lines_concat [OF assms(1), of "[]"] by (simp add: text_def)
  assume none: "list_all (\<lambda>l. TrimSpace l \<noteq> ''---'') (map drop_cr ls)"
  have "fst (scan_lines (''---'' @ CHR 0x0A # text)) = drop_cr ''---'' # fst (scan_lines text)"
    by (subst scan_lines_line) simp_all
  also have "drop_cr ''---'' = ''---''" by (simp add: drop_cr_def)
  finally have "fst (scan_lines (''---'' @ CHR 0x0A # text)) = ''---'' # map drop_cr ls" by (simp only: lines)
  moreover have "TrimSpace ''---'' = ''---''" by code_simp
  moreover have "after_fence (map drop_cr ls) = []"
  proof -
    have "dropWhile (\<lambda>l. TrimSpace l \<noteq> ''---'') (map drop_cr ls) = []" using none by (simp add: list_all_iff)
    then show ?thesis by (simp only: after_fence_def) simp
  qed
  ultimately show "parseSections (''---'' @ CHR 0x0A # text) = []"
    by (simp only: parseSections_def content_lines_eq list.case if_True) simp
next
  assume long: "CHR 0x0A \<notin> set long \<and> MaxScanTokenSize \<le> length long"
  have "fst (scan_lines (text @ long @ rest)) = map drop_cr ls"
    using scan_lines_concat [OF assms(1), of "long @ rest"] scan_lines_long [of long rest] long by (simp add: text_def)
  moreover have "fst (scan_lines text) = map drop_cr ls"
    using scan_lines_concat [OF assms(1), of "[]"] by (simp add: text_def)
  ultimately show "parseSections (text @ long @ rest) = parseSections text" by (simp add: parseSections_def)
qed

text \<open>The record of an ingestion depends on the order in which Go visits a map's keys.\<close>

lemma conventions_entry_varies:
  "NewConventionsLoadedEntry at cycleID [ConventionSourceAgentsMD, ConventionSourceClaudeMD] c \<noteq>
   NewConventionsLoadedEntry at cycleID [ConventionSourceClaudeMD, ConventionSourceAgentsMD] c"
  by (simp add: NewConventionsLoadedEntry_def NewHarnessLedgerEntry_def Let_def)

theorem conventions_lost_witness:
  "parseSections (''---'' @ CHR 0x0A # ''# Rules'' @ [CHR 0x0A]) = []"
proof -
  have "TrimSpace ''# Rules'' \<noteq> ''---''" by code_simp
  with conventions_lost [of "[''# Rules'']" "[]" "[]"] show ?thesis by (simp add: drop_cr_def)
qed

end
