(* ===== verification/AdapterOutput.thy ===== *)
theory AdapterOutput
  imports Contract
begin

section \<open>Adapters (internal/adapter, internal/adapter/claude, internal/adapter/kimi)\<close>

text \<open>
  What an adapter does around the agent's process: the environment it passes on, how it finds
  the turn response in the output, and what it makes of a failure. The process is a value,
  its output and how it ended. The theory shows which environment variables reach the agent,
  that a printed response is found in the surrounding text, and where a fence inside the
  response hides it.
\<close>

subsection \<open>The environment\<close>

text \<open>\<^verbatim>\<open>strings.Cut\<close> at the equals sign.\<close>

definition env_key :: "string \<Rightarrow> string" where
  "env_key e = takeWhile (\<lambda>c. c \<noteq> CHR ''='') e"

definition BuildEnv :: "string list \<Rightarrow> string list \<Rightarrow> string list" where
  "BuildEnv environ allowed = filter (\<lambda>e. list_ex (\<lambda>a. env_key e = a \<or> HasPrefix (env_key e) a) allowed) environ"

definition claude_envAllowlist :: "string list" where
  "claude_envAllowlist =
     [''PATH'', ''HOME'', ''LANG'', ''TERM'', ''USER'', ''LOGNAME'', ''SHELL'', ''TMPDIR'', ''XDG_CONFIG_HOME'', ''ANTHROPIC_'']"

definition kimi_envAllowlist :: "string list" where
  "kimi_envAllowlist =
     [''PATH'', ''HOME'', ''LANG'', ''TERM'', ''USER'', ''LOGNAME'', ''SHELL'', ''TMPDIR'', ''XDG_CONFIG_HOME'', ''KIMI_'']"

subsection \<open>Finding the response\<close>

definition fence :: string where
  "fence = ''```''"

definition re_space :: "char \<Rightarrow> bool" where
  "re_space c \<longleftrightarrow> c \<in> {CHR 0x09, CHR 0x0A, CHR 0x0C, CHR 0x0D, CHR '' ''}"

text \<open>
  The matches of \<^verbatim>\<open>```(?:json)?\s*(.*?)```\<close>, as their group: a fence, the word and white space
  when they follow, and the text up to the next fence.
\<close>

definition block_start :: "string \<Rightarrow> string" where
  "block_start s = dropWhile re_space (if HasPrefix s ''json'' then drop 4 s else s)"

lemma block_start_length: "length (block_start s) \<le> length s"
  unfolding block_start_def by (rule order_trans [OF length_dropWhile_le]) simp

function fenced_blocks :: "string \<Rightarrow> string list" where
  "fenced_blocks s =
     (case Index s fence of
        None \<Rightarrow> []
      | Some i \<Rightarrow>
          (case Index (block_start (drop (i + 3) s)) fence of
             None \<Rightarrow> []
           | Some j \<Rightarrow> take j (block_start (drop (i + 3) s)) # fenced_blocks (drop (j + 3) (block_start (drop (i + 3) s)))))"
  by pat_completeness auto
termination
proof (relation "measure length")
  fix s :: string and i j
  assume "Index s fence = Some i"
  then have "s \<noteq> []" by (cases s) (simp_all add: fence_def)
  then have "length (drop (i + 3) s) < length s" by simp
  with block_start_length [of "drop (i + 3) s"]
  show "(drop (j + 3) (block_start (drop (i + 3) s)), s) \<in> measure length" by simp
qed simp

declare fenced_blocks.simps [simp del]

text \<open>
  The inner loop of \<^verbatim>\<open>lastBalancedObject\<close>: how many bytes up to the brace that closes the
  object, with the depth and whether the byte is in a string or escaped.
\<close>

fun scan_object :: "nat \<Rightarrow> bool \<Rightarrow> bool \<Rightarrow> string \<Rightarrow> nat option" where
  "scan_object depth inStr esc [] = None"
| "scan_object depth inStr esc (c # s) =
     (if inStr then
        map_option Suc
          (if esc then scan_object depth True False s
           else if c = bs then scan_object depth True True s
           else if c = CHR 0x22 then scan_object depth False esc s
           else scan_object depth True esc s)
      else if c = CHR 0x22 then map_option Suc (scan_object depth True esc s)
      else if c = CHR ''{'' then map_option Suc (scan_object (depth + 1) False esc s)
      else if c = CHR ''}'' then
        (if depth - 1 = 0 then Some 1 else map_option Suc (scan_object (depth - 1) False esc s))
      else map_option Suc (scan_object depth False esc s))"

function last_object :: "string option \<Rightarrow> string \<Rightarrow> string option" where
  "last_object best s =
     (case s of
        [] \<Rightarrow> best
      | c # r \<Rightarrow>
          if c \<noteq> CHR ''{'' then last_object best r
          else (case scan_object 0 False False s of
                  None \<Rightarrow> last_object best r
                | Some n \<Rightarrow> last_object (Some (take n s)) (drop (max 1 n) s)))"
  by pat_completeness auto
termination by (relation "measure (\<lambda>(best, s). length s)") auto

declare last_object.simps [simp del]

definition lastBalancedObject :: "string \<Rightarrow> string option" where
  "lastBalancedObject s = last_object None s"

datatype parse_error = UnmarshalResponse | NoResponse

text \<open>\<open>um\<close> is \<^verbatim>\<open>json.Unmarshal\<close> at the response type.\<close>

definition ParseLastJSONBlock :: "(string \<Rightarrow> TurnResponse option) \<Rightarrow> string \<Rightarrow> parse_error + TurnResponse" where
  "ParseLastJSONBlock um out =
     (let matches = fenced_blocks out in
      if length matches > 0 then (case um (last matches) of None \<Rightarrow> Inl UnmarshalResponse | Some resp \<Rightarrow> Inr resp)
      else case lastBalancedObject out of
        None \<Rightarrow> Inl NoResponse
      | Some obj \<Rightarrow> (case um obj of None \<Rightarrow> Inl NoResponse | Some resp \<Rightarrow> Inr resp))"

subsection \<open>A printed object is found\<close>

text \<open>Inside a string a piece \<open>passes\<close>, outside it is \<open>neutral\<close>, when the scan goes through it unchanged.\<close>

definition passes :: "string \<Rightarrow> bool" where
  "passes p \<longleftrightarrow> (\<forall>d r. scan_object d True False (p @ r) = map_option ((+) (length p)) (scan_object d True False r))"

definition neutral :: "string \<Rightarrow> bool" where
  "neutral p \<longleftrightarrow> (\<forall>d r. 1 \<le> d \<longrightarrow> scan_object d False False (p @ r) = map_option ((+) (length p)) (scan_object d False False r))"

lemma add_shifts: "map_option ((+) (m :: nat)) (map_option ((+) n) x) = map_option ((+) (m + n)) x"
  by (cases x) simp_all

lemma no_shift [simp]: "map_option ((+) (0 :: nat)) x = x"
  by (cases x) simp_all

lemma passes_append [intro]: "passes p \<Longrightarrow> passes q \<Longrightarrow> passes (p @ q)"
  by (simp add: passes_def add_shifts)

lemma neutral_append [intro]: "neutral p \<Longrightarrow> neutral q \<Longrightarrow> neutral (p @ q)"
  by (simp add: neutral_def add_shifts)

lemma neutral_Nil [simp]: "neutral []"
  by (simp add: neutral_def)

lemma Suc_shift: "map_option Suc (map_option ((+) n) x) = map_option ((+) (Suc n)) x"
  by (cases x) simp_all

lemma shift_Suc: "map_option ((+) n) (map_option Suc x) = map_option ((+) (Suc n)) x"
  by (cases x) simp_all

lemma passes_plain: "list_all (\<lambda>c. c \<noteq> bs \<and> c \<noteq> CHR 0x22) p \<Longrightarrow> passes p"
proof (induction p)
  case Nil
  show ?case by (simp add: passes_def)
next
  case (Cons c p)
  then show ?case by (simp add: passes_def Suc_shift)
qed

lemma passes_escape: "passes [bs, c]"
  by (auto simp: passes_def bs_def option.map_comp intro!: option.map_cong)

lemma neutral_plain:
  "list_all (\<lambda>c. c \<noteq> CHR 0x22 \<and> c \<noteq> CHR ''{'' \<and> c \<noteq> CHR ''}'') p \<Longrightarrow> neutral p"
proof (induction p)
  case (Cons c p)
  then show ?case by (simp add: neutral_def Suc_shift)
qed simp

lemma hex_digit_plain: "n < 16 \<Longrightarrow> hex_digit n \<noteq> bs \<and> hex_digit n \<noteq> CHR 0x22"
proof -
  assume "n < 16"
  then have "of_char (hex_digit n) \<noteq> (0x5C :: nat) \<and> of_char (hex_digit n) \<noteq> (0x22 :: nat)"
    by (simp add: hex_digit_def of_char_char_of_lt split: if_splits)
  then show ?thesis by (auto simp: bs_def)
qed

lemma passes_hex: "passes (bs # ''u'' @ p)" if "list_all (\<lambda>c. c \<noteq> bs \<and> c \<noteq> CHR 0x22) p"
  using passes_append [OF passes_escape [of "CHR ''u''"] passes_plain [OF that]] by simp

lemma esc_char_passes: "passes (esc_char c)"
proof -
  have "of_char c div 16 < (16 :: nat)" using of_char_lt_256 [of c] by linarith
  from hex_digit_plain [OF this] hex_digit_plain [of "of_char c mod 16"]
  have "passes (bs # ''u'' @ (''00'' @ hex2 c))" by (intro passes_hex) (simp add: hex2_def bs_def)
  then show ?thesis by (auto simp: esc_char_def passes_escape)
qed

lemma jesc_passes: "passes (jesc s)"
proof (induction s rule: jesc.induct)
  case 1
  then show ?case by (simp add: passes_plain)
next
  case (2 c s)
  have tk: "passes (take (utf8_len (c # s)) (c # s))"
    using utf8_len_high [of "c # s"] by (intro passes_plain) (auto simp: list_all_iff high_def bs_def)
  have u: "passes (bs # ''ufffd'')" "passes (bs # ''u2028'')" "passes (bs # ''u2029'')"
    using passes_hex [of "''fffd''"] passes_hex [of "''2028''"] passes_hex [of "''2029''"] by (simp_all add: bs_def)
  have safe: "passes (c # jesc s)" if "html_safe c" "passes (jesc s)"
    using passes_append [OF passes_plain [of "[c]"] that(2)] that(1) by (simp add: html_safe_def bs_def)
  show ?case
  proof (cases "high c")
    case False
    then show ?thesis using 2(1,2) safe passes_append [OF esc_char_passes] by simp
  next
    case True
    then show ?thesis
      using 2(3-) passes_append [OF u(1)] passes_append [OF u(2)] passes_append [OF u(3)] passes_append [OF tk]
      by (simp add: Let_def del: take_Suc_Cons append_Cons)
  qed
qed

lemma jquote_neutral: "neutral (jquote s)"
  using jesc_passes [of s] by (simp add: neutral_def passes_def jquote_def bs_def Suc_shift shift_Suc)

lemma Join_neutral: "list_all neutral xs \<Longrightarrow> neutral (Join xs '','')"
proof (induction xs "'',''" rule: Join.induct)
  case (3 x y ys)
  have "neutral '',''" by (simp add: neutral_plain)
  with 3 show ?case by (auto simp del: append_Cons append_Nil intro!: neutral_append)
qed simp_all

lemma object_scan:
  assumes "neutral p"
  shows "scan_object d False False (CHR ''{'' # p @ ''}'' @ r) =
    (if d = 0 then Some (length p + 2) else map_option ((+) (length p + 2)) (scan_object d False False r))"
  using assms by (cases "scan_object d False False r") (simp_all add: neutral_def)

lemma fields_neutral: "list_all (\<lambda>kv. neutral (jprint (snd kv))) fs \<Longrightarrow>
    neutral (Join (map (\<lambda>kv. jquote (fst kv) @ CHR '':'' # jprint (snd kv)) fs) '','')"
proof (intro Join_neutral, simp add: list_all_iff, intro ballI)
  fix kv assume "\<forall>kv\<in>set fs. neutral (jprint (snd kv))" "kv \<in> set fs"
  then have "neutral (jquote (fst kv) @ '':'' @ jprint (snd kv))"
    by (intro neutral_append jquote_neutral neutral_plain [of "'':''"]) auto
  then show "neutral (jquote (fst kv) @ CHR '':'' # jprint (snd kv))" by simp
qed

lemma show_int_neutral: "neutral (show_int i)"
proof (intro neutral_plain)
  have "list_all (\<lambda>c. c \<noteq> CHR 0x22 \<and> c \<noteq> CHR ''{'' \<and> c \<noteq> CHR ''}'') (show_nat n)" for n
    using show_nat_digits [of n] by (auto simp: list_all_iff is_digit_def)
  then show "list_all (\<lambda>c. c \<noteq> CHR 0x22 \<and> c \<noteq> CHR ''{'' \<and> c \<noteq> CHR ''}'') (show_int i)" by (simp add: show_int_def)
qed

lemma jprint_neutral: "neutral (jprint j)"
proof (induction j rule: jprint.induct)
  case (5 xs)
  then have "neutral (''['' @ Join (map jprint xs) '','' @ '']'')"
    by (intro neutral_append Join_neutral) (auto simp: list_all_iff intro: neutral_plain)
  then show ?case by simp
next
  case (6 fs)
  then have "neutral (Join (map (\<lambda>kv. jquote (fst kv) @ CHR '':'' # jprint (snd kv)) fs) '','')"
    by (intro fields_neutral) (auto simp: list_all_iff)
  from object_scan [OF this] show ?case by (simp add: neutral_def)
qed (auto simp: jquote_neutral show_int_neutral intro: neutral_plain)

lemma printed_object_scan: "scan_object 0 False False (jprint (JObj fs) @ r) = Some (length (jprint (JObj fs)))"
  using object_scan [OF fields_neutral, of fs 0 r] by (simp add: jprint_neutral list_all_iff)

lemma last_object_skip: "CHR ''{'' \<notin> set p \<Longrightarrow> last_object b (p @ s) = last_object b s"
proof (induction p)
  case (Cons c p)
  then have "last_object b ((c # p) @ s) = last_object b (p @ s)" by (subst last_object.simps) auto
  with Cons show ?case by simp
qed simp

lemma last_object_Nil [simp]: "last_object b [] = b"
  by (simp add: last_object.simps)

lemma last_object_printed: "last_object b (jprint (JObj fs) @ r) = last_object (Some (jprint (JObj fs))) r"
  using printed_object_scan [of fs r] by (subst last_object.simps) simp

lemma lastBalancedObject_printed:
  assumes "CHR ''{'' \<notin> set pre" "CHR ''{'' \<notin> set post"
  shows "lastBalancedObject (pre @ jprint (JObj fs) @ post) = Some (jprint (JObj fs))"
  using last_object_skip [OF assms(2), of _ "[]"]
  by (simp only: lastBalancedObject_def last_object_skip [OF assms(1)] last_object_printed) simp

subsection \<open>Fences\<close>

abbreviation backtick :: char where "backtick \<equiv> CHR 0x60"

definition fenced :: "string \<Rightarrow> string" where
  "fenced body = fence @ ''json'' @ [CHR 0x0A] @ body @ [CHR 0x0A] @ fence"

lemma no_backtick: "backtick \<notin> set s \<Longrightarrow> Index s fence = None"
  by (auto simp: Index_None Contains_iff fence_def)

lemma fenced_blocks_none: "backtick \<notin> set s \<Longrightarrow> fenced_blocks s = []"
  by (simp add: fenced_blocks.simps no_backtick)

lemma Index_fence: "backtick \<notin> set p \<Longrightarrow> Index (p @ fence @ t) fence = Some (length p)"
proof (induction p)
  case Nil
  show ?case by (simp add: fence_def HasPrefix_def)
next
  case (Cons c p)
  then show ?case by (auto simp: fence_def HasPrefix_def)
qed

lemma block_start_json: "body \<noteq> [] \<Longrightarrow> \<not> re_space (hd body) \<Longrightarrow> block_start (''json'' @ [CHR 0x0A] @ body @ t) = body @ t"
  by (cases body) (simp_all add: block_start_def HasPrefix_def re_space_def)

lemma fenced_blocks_fenced:
  assumes "backtick \<notin> set pre" "backtick \<notin> set body" "body \<noteq> []" "\<not> re_space (hd body)"
  shows "fenced_blocks (pre @ fenced body @ post) = (body @ [CHR 0x0A]) # fenced_blocks post"
proof -
  have "Index (pre @ fenced body @ post) fence = Some (length pre)"
    using Index_fence [OF assms(1)] by (simp add: fenced_def)
  moreover have "drop (length pre + 3) (pre @ fenced body @ post) = ''json'' @ [CHR 0x0A] @ body @ ([CHR 0x0A] @ fence @ post)"
    by (simp add: fenced_def fence_def)
  moreover have "Index (body @ [CHR 0x0A] @ fence @ post) fence = Some (length body + 1)"
    using Index_fence [of "body @ [CHR 0x0A]" post] assms(2) by simp
  ultimately show ?thesis
    by (subst fenced_blocks.simps) (simp add: block_start_json [OF assms(3,4), simplified] fence_def)
qed

text \<open>An output: pieces of text, each followed by a fenced block, and what comes after them.\<close>

fun answer_text :: "(string \<times> string) list \<Rightarrow> string \<Rightarrow> string" where
  "answer_text [] post = post"
| "answer_text ((t, body) # bls) post = t @ fenced body @ answer_text bls post"

definition plain_block :: "string \<times> string \<Rightarrow> bool" where
  "plain_block b \<longleftrightarrow>
     backtick \<notin> set (fst b) \<and> backtick \<notin> set (snd b) \<and> snd b \<noteq> [] \<and> \<not> re_space (hd (snd b))"

lemma fenced_blocks_text:
  "list_all plain_block bls \<Longrightarrow> backtick \<notin> set post \<Longrightarrow>
    fenced_blocks (answer_text bls post) = map (\<lambda>b. snd b @ [CHR 0x0A]) bls"
  by (induction bls post rule: answer_text.induct)
     (simp_all add: fenced_blocks_none plain_block_def fenced_blocks_fenced)

lemma printed_object_block: "backtick \<notin> set t \<Longrightarrow> backtick \<notin> set (jprint (JObj fs)) \<Longrightarrow> plain_block (t, jprint (JObj fs))"
  by (simp add: plain_block_def re_space_def)

text \<open>
  A printed response is found. When the agent prints its response as a JSON object without a
  backtick in it, the adapter reads that object: out of the last fenced block, whatever text
  and blocks come before it and whatever text after, and without fences out of any text that
  has no other brace, strings with braces and escaped quotes inside the object included.
\<close>

theorem printed_response_found:
  assumes "um (jprint (JObj fs)) = Some resp" and "um (jprint (JObj fs) @ [CHR 0x0A]) = Some resp"
    and "backtick \<notin> set (jprint (JObj fs))" and "backtick \<notin> set (pre @ post)"
  shows "(list_all plain_block earlier \<longrightarrow>
       ParseLastJSONBlock um (answer_text (earlier @ [(pre, jprint (JObj fs))]) post) = Inr resp) \<and>
    (CHR ''{'' \<notin> set (pre @ post) \<longrightarrow> ParseLastJSONBlock um (pre @ jprint (JObj fs) @ post) = Inr resp)"
proof (intro conjI impI)
  assume "list_all plain_block earlier"
  then have "list_all plain_block (earlier @ [(pre, jprint (JObj fs))])"
    using assms(3,4) printed_object_block by simp
  from fenced_blocks_text [OF this, of post] assms(2,4)
  show "ParseLastJSONBlock um (answer_text (earlier @ [(pre, jprint (JObj fs))]) post) = Inr resp"
    by (simp add: ParseLastJSONBlock_def del: jprint.simps)
next
  assume "CHR ''{'' \<notin> set (pre @ post)"
  moreover have "fenced_blocks (pre @ jprint (JObj fs) @ post) = []"
    using assms(3,4) by (intro fenced_blocks_none) auto
  ultimately show "ParseLastJSONBlock um (pre @ jprint (JObj fs) @ post) = Inr resp"
    using assms(1) lastBalancedObject_printed [of pre post fs] by (simp add: ParseLastJSONBlock_def del: jprint.simps)
qed

text \<open>
  A fence inside the response cuts it. Backticks are not escaped in JSON; a fenced response
  whose summary has a fence of its own is read up to that inner fence, which is no JSON, and
  the turn is lost.
\<close>

theorem inner_fence_loses_response:
  assumes "backtick \<notin> set (pre @ a @ b @ post)" and "a \<noteq> []" and "\<not> re_space (hd a)" and "um a = None"
  shows "ParseLastJSONBlock um (pre @ fenced (a @ fence @ b) @ post) = Inl UnmarshalResponse"
proof -
  let ?rest = "b @ [CHR 0x0A] @ fence @ post"
  have "Index (pre @ fenced (a @ fence @ b) @ post) fence = Some (length pre)"
    using Index_fence [of pre] assms(1) by (simp add: fenced_def)
  moreover have "drop (length pre + 3) (pre @ fenced (a @ fence @ b) @ post) = ''json'' @ [CHR 0x0A] @ a @ (fence @ ?rest)"
    by (simp add: fenced_def fence_def)
  moreover have "Index (a @ fence @ ?rest) fence = Some (length a)" using Index_fence [of a] assms(1) by simp
  ultimately have "fenced_blocks (pre @ fenced (a @ fence @ b) @ post) = a # fenced_blocks ?rest"
    by (subst fenced_blocks.simps) (simp add: block_start_json [OF assms(2,3), simplified] fence_def)
  moreover have "Index ?rest fence = Some (length b + 1)"
    using Index_fence [of "b @ [CHR 0x0A]" post] assms(1) by simp
  moreover have "Index (block_start post) fence = None"
    using assms(1) by (intro no_backtick) (auto simp: block_start_def dest!: set_dropWhileD in_set_dropD split: if_splits)
  moreover have "drop (length b + 1 + 3) ?rest = post" by (simp add: fence_def)
  ultimately have "fenced_blocks (pre @ fenced (a @ fence @ b) @ post) = [a]"
    by (simp only: fenced_blocks.simps [of ?rest] option.case)
  with assms(4) show ?thesis by (simp add: ParseLastJSONBlock_def)
qed

subsection \<open>What the environment filter lets through\<close>

text \<open>
  What reaches the agent. A variable is passed on exactly when its key has an entry of the
  allow list as a prefix, in its order; an exact key is a prefix too, so the list has no way to
  allow \<open>LANG\<close> or \<open>USER\<close> alone: \<open>LANGCHAIN_API_KEY\<close> reaches both agents.
\<close>

theorem BuildEnv_passes_prefixes:
  "BuildEnv environ allowed = filter (\<lambda>e. \<exists>a \<in> set allowed. HasPrefix (env_key e) a) environ \<and>
   (\<forall>allowed v. allowed \<in> {claude_envAllowlist, kimi_envAllowlist} \<longrightarrow>
      BuildEnv [''LANGCHAIN_API_KEY='' @ v] allowed = [''LANGCHAIN_API_KEY='' @ v])"
proof -
  have "BuildEnv environ allowed = filter (\<lambda>e. \<exists>a \<in> set allowed. HasPrefix (env_key e) a) environ"
    by (auto simp: BuildEnv_def list_ex_iff HasPrefix_iff intro!: filter_cong)
  moreover have "BuildEnv [''LANGCHAIN_API_KEY='' @ v] allowed = [''LANGCHAIN_API_KEY='' @ v]"
    if "allowed \<in> {claude_envAllowlist, kimi_envAllowlist}" for allowed v
    using that by (auto simp: BuildEnv_def env_key_def HasPrefix_def claude_envAllowlist_def kimi_envAllowlist_def)
  ultimately show ?thesis by blast
qed

subsection \<open>Witnesses\<close>

definition said :: TurnResponse where
  "said = \<lparr>tr_Done = True, tr_HandoffTo = [], tr_HandoffIntent = [], tr_Summary = ''a } b'', tr_Artifacts = [], tr_SelfEval = [],
     tr_NotesForHuman = [], tr_Usage = None, tr_Claims = []\<rparr>"

definition said_fields :: "(string \<times> json) list" where
  "said_fields = [(''done'', JBool True), (''summary'', JStr ''a } b'')]"

definition reads_said :: "string \<Rightarrow> TurnResponse option" where
  "reads_said s = (if HasPrefix s (jprint (JObj said_fields)) then Some said else None)"

theorem printed_response_found_witness:
  "ParseLastJSONBlock reads_said (''Sure: '' @ jprint (JObj said_fields) @ '' } done'') = Inr said \<and>
   ParseLastJSONBlock reads_said (answer_text [(''draft'', ''{}''), (''Sure: '', jprint (JObj said_fields))] '' } done'') = Inr said"
proof -
  have b: "backtick \<notin> set (jprint (JObj said_fields))" by code_simp
  from printed_response_found [of reads_said said_fields said "''Sure: ''" "'' } done''" "[(''draft'', ''{}'')]", OF _ _ b]
  show ?thesis by (simp add: reads_said_def HasPrefix_def plain_block_def re_space_def del: jprint.simps)
qed

theorem inner_fence_loses_response_witness:
  "ParseLastJSONBlock reads_said (fenced (''{x'' @ fence @ ''y}'')) = Inl UnmarshalResponse"
proof -
  have "reads_said ''{x'' = None" by code_simp
  with inner_fence_loses_response [where pre = "[]" and a = "''{x''" and b = "''y}''" and post = "[]" and um = reads_said]
  show ?thesis by (simp add: re_space_def)
qed

theorem BuildEnv_passes_prefixes_witness:
  "BuildEnv [''LANGCHAIN_API_KEY=k'', ''AWS_SECRET=s''] claude_envAllowlist = [''LANGCHAIN_API_KEY=k'']"
  using BuildEnv_passes_prefixes [of "[''LANGCHAIN_API_KEY=k'', ''AWS_SECRET=s'']" claude_envAllowlist]
  by (simp add: env_key_def HasPrefix_def claude_envAllowlist_def)

end
