(* ===== verification/Adapters.thy ===== *)
theory Adapters
  imports AdapterOutput Orchestrator "HOL-Library.Monad_Syntax" "HOL-Library.Word" "HOL-Library.Char_ord" "HOL-Library.List_Lexorder"
begin

section \<open>Running the agents (internal/adapter, internal/cli/registry.go)\<close>

text \<open>
  The prompt an adapter sends, the command it starts, what it makes of the way the process
  ends, the deterministic fake, and the registry the adapters are found in. The process, the
  environment and the file system are values. The theory shows that an agent may repeat its
  prompt before it answers, what a diagnostic snippet keeps, and which error each outcome is.
\<close>

unbundle bit_operations_syntax

subsection \<open>Diagnostics (snippet.go, diagnose.go)\<close>

definition RuneStart :: "char \<Rightarrow> bool" where
  "RuneStart c \<longleftrightarrow> \<not> in_range c 0x80 0xBF"

definition ellipsis :: string where
  "ellipsis = [CHR 0xE2, CHR 0x80, CHR 0xA6]"

definition Snippet :: "string \<Rightarrow> nat \<Rightarrow> string" where
  "Snippet b maxLen =
     (let s = TrimSpace b in
      if length s \<le> maxLen then s
      else ellipsis @ dropWhile (\<lambda>c. \<not> RuneStart c) (drop (length s - maxLen) s))"

datatype FailureKind = FailureUnknown | FailureUnauthenticated | FailureRateLimited

definition authMarkers :: "string list" where
  "authMarkers =
     [''not authenticated'', ''please log in'', ''please run /login'', ''run `claude` to log in'', ''invalid api key'',
      ''invalid x-api-key'', ''authentication_error'', ''authentication failed'', ''no api key'', ''missing api key'',
      ''401 unauthorized'', ''unauthorized: '', ''credit balance is too low'']"

definition rateMarkers :: "string list" where
  "rateMarkers =
     [''rate limit'', ''rate_limit'', ''rate-limit'', ''429 too many'', ''too many requests'', ''usage limit'',
      ''overloaded_error'', ''quota exceeded'', ''quota exhausted'', ''out of quota'']"

definition em_dash :: string where
  "em_dash = [CHR 0xE2, CHR 0x80, CHR 0x94]"

text \<open>\<open>ul\<close> is \<^verbatim>\<open>strings.ToLower\<close> on text that is not ASCII.\<close>

definition DiagnoseOutput :: "(string \<Rightarrow> string) \<Rightarrow> string \<Rightarrow> string \<Rightarrow> (string \<times> FailureKind) option" where
  "DiagnoseOutput ul tool text =
     (let lower = ToLower ul text in
      if list_ex (Contains lower) authMarkers then
        Some (tool @ '' runtime is not authenticated '' @ em_dash @ '' run `'' @ tool @
                ''` once interactively to log in (or set its API key), then retry'', FailureUnauthenticated)
      else if list_ex (Contains lower) rateMarkers then
        Some (tool @ '' runtime hit a rate or usage limit '' @ em_dash @ '' wait and retry, or check your plan limits'',
              FailureRateLimited)
      else None)"

subsection \<open>The prompt (prompt.go)\<close>

abbreviation HandoffIntentCrossCheck :: HandoffIntent where "HandoffIntentCrossCheck \<equiv> ''cross_check''"

record promptRequest =
  pr_Turn :: int
  pr_Role :: string
  pr_RuntimeHint :: string
  pr_Budget :: Budget
  pr_LastTurn :: "LastTurn option"
  pr_Task :: Task
  pr_Scratch :: string

definition Budget_json :: "Budget \<Rightarrow> json" where
  "Budget_json b = JObj (
     [(''tokens_left'', JInt (b_TokensLeft b)), (''turns_left'', JInt (b_TurnsLeft b)),
      (''deadline_ms'', JInt (b_DeadlineMS b))] @ omit_int ''dry_rounds_threshold'' (b_DryRoundsThreshold b))"

definition LastTurn_json :: "LastTurn \<Rightarrow> json" where
  "LastTurn_json l = JObj (
     [(''from'', JStr (lt_From l)), (''runtime'', JStr (lt_Runtime l)), (''summary'', JStr (lt_Summary l))] @
     omit_arr ''artifacts'' (map JStr (lt_Artifacts l)) @ [(''self_eval'', JStr (lt_SelfEval l))] @
     omit_str ''intent'' (lt_Intent l) @ omit_arr ''claims'' (map Violation_json (lt_Claims l)))"

definition Task_json :: "Task \<Rightarrow> json" where
  "Task_json t = JObj [(''title'', JStr (t_Title t)), (''body'', JStr (t_Body t)), (''repo_root'', JStr (t_RepoRoot t))]"

definition promptRequest_json :: "promptRequest \<Rightarrow> json" where
  "promptRequest_json p = JObj (
     [(''turn'', JInt (pr_Turn p)), (''role'', JStr (pr_Role p)), (''runtime_hint'', JStr (pr_RuntimeHint p)),
      (''budget'', Budget_json (pr_Budget p))] @ omit_opt ''last_turn'' (map_option LastTurn_json (pr_LastTurn p)) @
     [(''task'', Task_json (pr_Task p))] @ omit_str ''scratch'' (pr_Scratch p))"

definition prompt_request :: "TurnRequest \<Rightarrow> promptRequest" where
  "prompt_request req =
     \<lparr>pr_Turn = tq_Turn req, pr_Role = tq_Role req, pr_RuntimeHint = tq_RuntimeHint req, pr_Budget = tq_Budget req,
      pr_LastTurn = tq_LastTurn req, pr_Task = tq_Task req, pr_Scratch = tq_Scratch req\<rparr>"

abbreviation nl :: string where "nl \<equiv> [CHR 0x0A]"

text \<open>The text before the request's block; \<open>quote\<close> is the verb \<^verbatim>\<open>%q\<close>.\<close>

definition prompt_head :: "(string \<Rightarrow> string) \<Rightarrow> TurnRequest \<Rightarrow> string" where
  "prompt_head quote req =
     ''You are a turn-taking agent in a multi-agent system.'' @
     (if tq_ModelHint req \<noteq> [] then nl @ ''Model hint: use model '' @ quote (tq_ModelHint req) @ '' for this turn.'' @ nl else []) @
     (if tq_Scratch req \<noteq> []
      then nl @ nl @ ''Shared scratchpad (read-only context from prior turns):'' @ nl @ nl @ tq_Scratch req @ nl else []) @
     (case tq_LastTurn req of
        None \<Rightarrow> []
      | Some l \<Rightarrow>
          if lt_Intent l = HandoffIntentCrossCheck
          then nl @ nl @ ''Handoff intent: CROSS-CHECK the previous turn. Read the listed Artifacts and the original Task fresh. Do not accept the previous Summary at face value; look for mistakes, gaps, and contradictions.'' @ nl
          else nl @ nl @ ''Handoff intent: CONTINUE the previous turn. Use the previous Summary as working state; Artifacts are context for your next step.'' @ nl) @
     nl @ nl @ ''The following JSON is your TurnRequest:'' @ nl @ nl"

definition prompt_tail :: string where
  "prompt_tail =
     nl @ nl @ ''Respond with a JSON object conforming to the TurnResponse schema, wrapped in a fenced code block.'' @ nl @ nl @
     ''TurnResponse fields:'' @ nl @ ''- done (bool)'' @ nl @ ''- handoff_to (string, optional)'' @ nl @
     ''- handoff_intent (string: continue or cross_check, optional)'' @ nl @ ''- summary (string)'' @ nl @
     ''- artifacts (array of strings, optional)'' @ nl @ ''- self_eval (string: confident, uncertain, blocked)'' @ nl @
     ''- notes_for_human (string, optional)'' @ nl @ ''- usage (object with tokens_in, tokens_out, ms, optional)'' @ nl @
     ''- claims (array of violations, optional)'' @ nl @ nl @ ''Do not include any text outside the fenced JSON block.''"

definition BuildPrompt :: "(string \<Rightarrow> string) \<Rightarrow> TurnRequest \<Rightarrow> string" where
  "BuildPrompt quote req =
     prompt_head quote req @ fence @ ''json'' @ nl @ jprint (promptRequest_json (prompt_request req)) @ nl @ fence @ prompt_tail"

subsection \<open>The command and its outcome (claude.go, kimi.go)\<close>

record agent_cmd =
  ac_Args :: "string list"
  ac_Env :: "string list"
  ac_Dir :: string

definition claude_buildCmd :: "(string \<Rightarrow> string) \<Rightarrow> string list \<Rightarrow> string \<Rightarrow> TurnRequest \<Rightarrow> agent_cmd" where
  "claude_buildCmd quote environ binary req =
     \<lparr>ac_Args = [binary, ''-p'', BuildPrompt quote req, ''--max-turns=1''], ac_Env = BuildEnv environ claude_envAllowlist,
      ac_Dir = t_RepoRoot (tq_Task req)\<rparr>"

definition kimi_buildCmd :: "(string \<Rightarrow> string) \<Rightarrow> string list \<Rightarrow> string \<Rightarrow> TurnRequest \<Rightarrow> agent_cmd" where
  "kimi_buildCmd quote environ binary req =
     \<lparr>ac_Args = [binary, ''-p'', BuildPrompt quote req], ac_Env = BuildEnv environ kimi_envAllowlist,
      ac_Dir = t_RepoRoot (tq_Task req)\<rparr>"

text \<open>How a process ends: exit 0 with its output, an exit error with output and stderr, or it never ran.\<close>

datatype process = Exits string | ExitError string string | NotRun

datatype agent_error =
    HintedExit string string
  | ExitedWithError string
  | CannotRun
  | Hinted string
  | ParsingResponse parse_error string
  | ProbeFailed

definition claude_Run :: "(string \<Rightarrow> string) \<Rightarrow> (string \<Rightarrow> TurnResponse option) \<Rightarrow> process \<Rightarrow> agent_error + TurnResponse" where
  "claude_Run ul um proc =
     (case proc of
        NotRun \<Rightarrow> Inl CannotRun
      | ExitError out stderr \<Rightarrow>
          (case DiagnoseOutput ul ''claude'' (out @ nl @ stderr) of
             Some (hint, k) \<Rightarrow> Inl (HintedExit hint stderr)
           | None \<Rightarrow> Inl (ExitedWithError stderr))
      | Exits out \<Rightarrow>
          (case ParseLastJSONBlock um out of
             Inr resp \<Rightarrow> Inr resp
           | Inl e \<Rightarrow>
               (case DiagnoseOutput ul ''claude'' out of
                  Some (hint, k) \<Rightarrow> Inl (Hinted hint)
                | None \<Rightarrow> Inl (ParsingResponse e (Snippet out 2000)))))"

definition kimi_Run :: "(string \<Rightarrow> string) \<Rightarrow> (string \<Rightarrow> TurnResponse option) \<Rightarrow> process \<Rightarrow> agent_error + TurnResponse" where
  "kimi_Run ul um proc =
     (case proc of
        NotRun \<Rightarrow> Inl CannotRun
      | ExitError out stderr \<Rightarrow>
          (case DiagnoseOutput ul ''kimi'' (out @ nl @ stderr) of
             Some (hint, k) \<Rightarrow> Inl (HintedExit hint stderr)
           | None \<Rightarrow> Inl (ExitedWithError stderr))
      | Exits out \<Rightarrow>
          (case ParseLastJSONBlock um out of
             Inr resp \<Rightarrow> Inr resp
           | Inl e \<Rightarrow>
               (case DiagnoseOutput ul ''kimi'' out of
                  Some (hint, k) \<Rightarrow> Inl (Hinted hint)
                | None \<Rightarrow> Inl (ParsingResponse e (Snippet out 2000)))))"

text \<open>\<open>out\<close> of a process that never ran is empty.\<close>

definition claude_Probe :: "(string \<Rightarrow> string) \<Rightarrow> process \<Rightarrow> agent_error option" where
  "claude_Probe ul proc =
     (case proc of
        NotRun \<Rightarrow> (case DiagnoseOutput ul ''claude'' nl of Some (hint, k) \<Rightarrow> Some (Hinted hint) | None \<Rightarrow> Some ProbeFailed)
      | ExitError out stderr \<Rightarrow>
          (case DiagnoseOutput ul ''claude'' (out @ nl @ stderr) of Some (hint, k) \<Rightarrow> Some (Hinted hint) | None \<Rightarrow> Some ProbeFailed)
      | Exits out \<Rightarrow> map_option (\<lambda>(hint, k). Hinted hint) (DiagnoseOutput ul ''claude'' out))"

definition kimi_Probe :: "(string \<Rightarrow> string) \<Rightarrow> process \<Rightarrow> agent_error option" where
  "kimi_Probe ul proc =
     (case proc of
        NotRun \<Rightarrow> (case DiagnoseOutput ul ''kimi'' nl of Some (hint, k) \<Rightarrow> Some (Hinted hint) | None \<Rightarrow> Some ProbeFailed)
      | ExitError out stderr \<Rightarrow>
          (case DiagnoseOutput ul ''kimi'' (out @ nl @ stderr) of Some (hint, k) \<Rightarrow> Some (Hinted hint) | None \<Rightarrow> Some ProbeFailed)
      | Exits out \<Rightarrow> map_option (\<lambda>(hint, k). Hinted hint) (DiagnoseOutput ul ''kimi'' out))"

text \<open>\<open>mode\<close> is what \<^verbatim>\<open>os.Stat\<close> returns.\<close>

datatype check_error = PathNotSet | NotAccessible | NotExecutable string

definition agent_Check :: "string \<Rightarrow> 32 word option \<Rightarrow> check_error option" where
  "agent_Check binary mode =
     (if binary = [] then Some PathNotSet
      else case mode of
        None \<Rightarrow> Some NotAccessible
      | Some m \<Rightarrow> if m AND 0x49 = 0 then Some (NotExecutable binary) else None)"

subsection \<open>The fake (fake.go)\<close>

definition fake_turn :: "string \<Rightarrow> bool \<Rightarrow> TurnResponse" where
  "fake_turn summary finished =
     \<lparr>tr_Done = finished, tr_HandoffTo = [], tr_HandoffIntent = [], tr_Summary = summary, tr_Artifacts = [], tr_SelfEval = [],
      tr_NotesForHuman = [], tr_Usage = None, tr_Claims = []\<rparr>"

definition NewPingPong :: "int \<Rightarrow> int \<Rightarrow> TurnResponse" where
  "NewPingPong maxTurns turn =
     (if turn < maxTurns then fake_turn (''fake turn '' @ show_int turn @ '' completed'') False
      else fake_turn ''all done'' True)"

text \<open>\<open>cancelled\<close>: the context ends before the delay does.\<close>

definition fake_Run :: "(int \<Rightarrow> TurnResponse) option \<Rightarrow> bool \<Rightarrow> bool \<Rightarrow> TurnRequest \<Rightarrow> unit + TurnResponse" where
  "fake_Run callback delayed cancelled req =
     (if delayed \<and> cancelled then Inl ()
      else case callback of
        Some cb \<Rightarrow> Inr (cb (tq_Turn req))
      | None \<Rightarrow> Inr (fake_turn [] True))"

subsection \<open>The registry (adapter.go)\<close>

type_synonym 'a registry = "(string \<times> 'a) list"

definition Register :: "string \<Rightarrow> 'a \<Rightarrow> 'a registry \<Rightarrow> 'a registry option" where
  "Register name a r = (if map_of r name \<noteq> None then None else Some ((name, a) # r))"

definition registry_Get :: "'a registry \<Rightarrow> string \<Rightarrow> 'a option" where
  "registry_Get r name = map_of r name"

definition registry_Names :: "'a registry \<Rightarrow> string list" where
  "registry_Names r = sort (map fst r)"

text \<open>\<open>check\<close> is \<open>None\<close> for an adapter without a \<^verbatim>\<open>Check\<close> method.\<close>

definition CheckAll :: "('a \<Rightarrow> (check_error option) option) \<Rightarrow> 'a registry \<Rightarrow> string \<Rightarrow> (check_error option) option" where
  "CheckAll check r name = map_option (\<lambda>a. case check a of Some e \<Rightarrow> e | None \<Rightarrow> None) (map_of r name)"

datatype runtime = ClaudeRuntime string | KimiRuntime string | FakeRuntime int

definition BuildRegistry :: "string option \<Rightarrow> string option \<Rightarrow> runtime registry option" where
  "BuildRegistry claude_path kimi_path =
     do {
       r1 \<leftarrow> (case claude_path of None \<Rightarrow> Some [] | Some c \<Rightarrow> Register ''claude'' (ClaudeRuntime c) []);
       r2 \<leftarrow> (case kimi_path of None \<Rightarrow> Some r1 | Some k \<Rightarrow> Register ''kimi'' (KimiRuntime k) r1);
       Register ''fake'' (FakeRuntime 5) r2
     }"

subsection \<open>Cutting UTF-8\<close>

lemma utf8_len_append:
  assumes "0 < utf8_len (s @ t)" "utf8_len (s @ t) \<le> length s"
  shows "utf8_len s = utf8_len (s @ t)"
proof (cases s rule: utf8_len.cases)
  case (1 a b r)
  with assms show ?thesis
    by (cases r; cases "tl r") (auto simp: nth_append hd_append split: if_splits)
qed (use assms utf8_len_cases [of "s @ t"] in \<open>auto\<close>)

lemma utf8_conts2: "utf8_len (a # s) = 2 \<Longrightarrow> \<exists>b r. s = b # r \<and> \<not> RuneStart b"
  by (cases s) (auto simp: RuneStart_def in_range_def split: if_splits)

lemma utf8_conts3: "utf8_len (a # s) = 3 \<Longrightarrow> \<exists>b c r. s = b # c # r \<and> \<not> RuneStart b \<and> \<not> RuneStart c"
  by (cases s; cases "tl s") (auto simp: RuneStart_def in_range_def split: if_splits)

lemma utf8_conts4:
  "utf8_len (a # s) = 4 \<Longrightarrow> \<exists>b c d r. s = b # c # d # r \<and> \<not> RuneStart b \<and> \<not> RuneStart c \<and> \<not> RuneStart d"
  by (cases s; cases "tl s"; cases "tl (tl s)") (auto simp: RuneStart_def in_range_def split: if_splits)

lemma utf8_len_conts: "\<forall>c \<in> set (take (utf8_len (a # s) - 1) s). \<not> RuneStart c"
  using utf8_len_cases [of "a # s"] utf8_conts2 [of a s] utf8_conts3 [of a s] utf8_conts4 [of a s]
  by (auto simp del: utf8_len.simps)

lemma utf8_len_lead: "0 < utf8_len (c # s) \<Longrightarrow> RuneStart c"
  by (cases "c # s" rule: utf8_len.cases) (auto simp: RuneStart_def in_range_def split: if_splits)

lemma RuneStart_low: "\<not> high c \<Longrightarrow> RuneStart c"
  by (simp add: high_def RuneStart_def in_range_def)

lemma valid_hd: "valid_utf8 (c # s) \<Longrightarrow> RuneStart c"
  by (auto simp: RuneStart_low split: if_splits intro: utf8_len_lead)

lemma valid_split: "valid_utf8 (a @ c # p) \<Longrightarrow> RuneStart c \<Longrightarrow> valid_utf8 a \<and> valid_utf8 (c # p)"
proof (induction "length a" arbitrary: a rule: less_induct)
  case less
  show ?case
  proof (cases a)
    case Nil
    with less.prems show ?thesis by simp
  next
    case (Cons d a')
    show ?thesis
    proof (cases "high d")
      case False
      with less.prems(1) Cons have "valid_utf8 (a' @ c # p)" by simp
      then have ih: "valid_utf8 a' \<and> valid_utf8 (c # p)" by (rule less.hyps [OF _ _ less.prems(2), rotated]) (simp add: Cons)
      have "valid_utf8 a = valid_utf8 a'" using Cons False by simp
      with ih show ?thesis by blast
    next
      case True
      let ?n = "utf8_len (d # a' @ c # p)"
      from less.prems(1) Cons True have n: "0 < ?n" "valid_utf8 (drop (?n - 1) (a' @ c # p))" by simp_all
      have "?n - 1 \<le> length a'"
      proof (rule ccontr)
        assume "\<not> ?n - 1 \<le> length a'"
        then have "c \<in> set (take (?n - 1) (a' @ c # p))"
          by (cases "?n - 1 - length a'") auto
        with utf8_len_conts [of d "a' @ c # p"] less.prems(2) show False by blast
      qed
      then have len: "?n \<le> length (d # a')" by simp
      then have eq: "utf8_len (d # a') = ?n" using utf8_len_append [of "d # a'" "c # p"] n(1) by simp
      have "valid_utf8 (drop (?n - 1) a' @ c # p)" using n(2) len by simp
      then have ih: "valid_utf8 (drop (?n - 1) a') \<and> valid_utf8 (c # p)"
        by (rule less.hyps [OF _ _ less.prems(2), rotated]) (simp add: Cons)
      have "valid_utf8 a = valid_utf8 (drop (?n - 1) a')" using Cons True eq n(1) by simp
      with ih show ?thesis by blast
    qed
  qed
qed

lemma valid_drop: "valid_utf8 s \<Longrightarrow> valid_utf8 (dropWhile (\<lambda>c. \<not> RuneStart c) (drop k s))"
proof -
  assume s: "valid_utf8 s"
  let ?w = "takeWhile (\<lambda>c. \<not> RuneStart c) (drop k s)" and ?r = "dropWhile (\<lambda>c. \<not> RuneStart c) (drop k s)"
  have "s = (take k s @ ?w) @ ?r" by simp
  show ?thesis
  proof (cases ?r)
    case (Cons c r)
    with hd_dropWhile [of "\<lambda>c. \<not> RuneStart c" "drop k s"] have "RuneStart c" by simp
    with valid_split [of "take k s @ ?w" c r] s Cons show ?thesis by (metis \<open>s = (take k s @ ?w) @ ?r\<close>)
  qed (simp only: valid_utf8.simps)
qed

lemma space_runes_lead: "list_all (\<lambda>p. p \<noteq> [] \<and> RuneStart (hd p)) space_runes"
  by code_simp

lemma space_rune_lead: "p \<in> set space_runes \<Longrightarrow> \<exists>c q. p = c # q \<and> RuneStart c"
  using space_runes_lead by (cases p) (auto simp: list_all_iff)

lemma valid_space: "p \<in> set space_runes \<Longrightarrow> valid_utf8 (p @ s) \<Longrightarrow> valid_utf8 s"
  unfolding space_runes_def set_simps insert_iff
  by (elim disjE) (simp_all add: high_def in_range_def)

lemma find_in: "find P xs = Some x \<Longrightarrow> x \<in> set xs \<and> P x"
  by (induction xs) (auto split: if_splits)

lemma space_len_prefix: "space_len s \<noteq> 0 \<Longrightarrow> \<exists>p t. p \<in> set space_runes \<and> s = p @ t \<and> space_len s = length p"
  by (auto simp: space_len_def HasPrefix_iff split: option.splits dest!: find_in)

lemma space_suffix_len_suffix: "space_suffix_len s \<noteq> 0 \<Longrightarrow> \<exists>p t. p \<in> set space_runes \<and> s = t @ p \<and> space_suffix_len s = length p"
  by (auto simp: space_suffix_len_def HasSuffix_iff split: option.splits dest!: find_in)

lemma valid_TrimLeft: "valid_utf8 s \<Longrightarrow> valid_utf8 (TrimLeftSpace s)"
proof (induction s rule: TrimLeftSpace.induct)
  case (1 s)
  show ?case
  proof (cases "s = [] \<or> space_len s = 0")
    case True
    with 1(2) show ?thesis by (subst TrimLeftSpace.simps) simp
  next
    case False
    then obtain p t where "p \<in> set space_runes" "s = p @ t" "space_len s = length p" using space_len_prefix [of s] by blast
    then have "valid_utf8 (drop (space_len s) s)" using valid_space 1(2) by auto
    from 1(1) [OF False this] False show ?thesis by (subst TrimLeftSpace.simps) simp
  qed
qed

lemma valid_TrimRight: "valid_utf8 s \<Longrightarrow> valid_utf8 (TrimRightSpace s)"
proof (induction s rule: TrimRightSpace.induct)
  case (1 s)
  show ?case
  proof (cases "s = [] \<or> space_suffix_len s = 0")
    case True
    with 1(2) show ?thesis by (subst TrimRightSpace.simps) simp
  next
    case False
    then obtain p t where p: "p \<in> set space_runes" "s = t @ p" "space_suffix_len s = length p"
      using space_suffix_len_suffix [of s] by blast
    then obtain c q where "p = c # q" "RuneStart c" using space_rune_lead by blast
    with valid_split [of t c q] 1(2) p have "valid_utf8 (take (length s - space_suffix_len s) s)" by simp
    from 1(1) [OF False this] False show ?thesis by (subst TrimRightSpace.simps) simp
  qed
qed

text \<open>
  A diagnostic snippet is bounded and well formed. It has at most the cap's bytes and the
  ellipsis, it is the trimmed output or the ellipsis and a suffix of it, and it is valid UTF-8
  when the output is, wherever the cut falls.
\<close>

theorem Snippet_bounded:
  "length (Snippet b m) \<le> m + 3 \<and> (\<exists>t. HasSuffix (TrimSpace b) t \<and> (Snippet b m = t \<or> Snippet b m = ellipsis @ t)) \<and>
   (valid_utf8 b \<longrightarrow> valid_utf8 (Snippet b m))"
proof -
  let ?s = "TrimSpace b"
  let ?t = "dropWhile (\<lambda>c. \<not> RuneStart c) (drop (length ?s - m) ?s)"
  have len: "length ?t \<le> length (drop (length ?s - m) ?s)" by (rule length_dropWhile_le)
  have "drop (length ?s - m) ?s = takeWhile (\<lambda>c. \<not> RuneStart c) (drop (length ?s - m) ?s) @ ?t" by simp
  then have "?s = (take (length ?s - m) ?s @ takeWhile (\<lambda>c. \<not> RuneStart c) (drop (length ?s - m) ?s)) @ ?t"
    by (metis append.assoc append_take_drop_id)
  then have suffix: "HasSuffix ?s ?t" unfolding HasSuffix_iff by blast
  have "valid_utf8 (ellipsis @ u) \<longleftrightarrow> valid_utf8 u" for u by (simp add: ellipsis_def high_def in_range_def)
  then have valid: "valid_utf8 ?s \<and> valid_utf8 (ellipsis @ ?t)" if "valid_utf8 b"
    using that valid_drop valid_TrimLeft valid_TrimRight by (simp only: TrimSpace_def)
  show ?thesis
  proof (cases "length ?s \<le> m")
    case True
    then have "Snippet b m = ?s" by (simp add: Snippet_def)
    moreover have "HasSuffix ?s ?s" by (simp add: HasSuffix_def)
    ultimately show ?thesis using True valid by (metis trans_le_add1)
  next
    case False
    then have "Snippet b m = ellipsis @ ?t" by (simp add: Snippet_def Let_def)
    moreover have "length (ellipsis @ ?t) \<le> m + 3" using len by (simp add: ellipsis_def)
    ultimately show ?thesis using suffix valid by metis
  qed
qed

subsection \<open>Repeated prompts\<close>

abbreviation request_text :: "TurnRequest \<Rightarrow> string" where
  "request_text req \<equiv> jprint (promptRequest_json (prompt_request req))"

lemma BuildPrompt_block: "BuildPrompt quote req @ s = prompt_head quote req @ fenced (request_text req) @ prompt_tail @ s"
  by (simp add: BuildPrompt_def fenced_def)

lemma prompt_tail_plain: "backtick \<notin> set prompt_tail"
  by (simp add: prompt_tail_def)

lemma request_block: "backtick \<notin> set (request_text req) \<Longrightarrow> request_text req \<noteq> [] \<and> \<not> re_space (hd (request_text req))"
  by (simp add: promptRequest_json_def re_space_def)

lemma answer_text_before: "list_all plain_block bls \<Longrightarrow> bls \<noteq> [] \<Longrightarrow> backtick \<notin> set (t @ post) \<Longrightarrow>
    fenced_blocks (t @ answer_text bls post) = map (\<lambda>b. snd b @ nl) bls"
  using fenced_blocks_text [of "(t @ fst (hd bls), snd (hd bls)) # tl bls" post]
  by (cases bls) (auto simp: plain_block_def)

text \<open>
  What a repeated prompt does. An agent may repeat its prompt before it answers: the answer is
  read as if the prompt were not there. But an agent that repeats its prompt and gives no
  answer is taken to have answered: the request in the prompt is read as the response, and as
  decoding ignores unknown keys it is an empty turn, not an error.
\<close>

theorem repeated_prompt:
  assumes "backtick \<notin> set (prompt_head quote req)" and "backtick \<notin> set (request_text req)" and "backtick \<notin> set post"
  shows "(list_all plain_block answers \<and> answers \<noteq> [] \<longrightarrow>
       ParseLastJSONBlock um (BuildPrompt quote req @ answer_text answers post) = ParseLastJSONBlock um (answer_text answers post)) \<and>
    (um (request_text req @ nl) = Some resp \<longrightarrow>
       claude_Run ul um (Exits (BuildPrompt quote req @ post)) = Inr resp \<and>
       kimi_Run ul um (Exits (BuildPrompt quote req @ post)) = Inr resp)"
proof -
  have blocks: "fenced_blocks (BuildPrompt quote req @ s) = (request_text req @ nl) # fenced_blocks (prompt_tail @ s)" for s
    using request_block [OF assms(2)] by (simp only: BuildPrompt_block) (rule fenced_blocks_fenced [OF assms(1,2)], auto)
  have "fenced_blocks (prompt_tail @ post) = []"
    using prompt_tail_plain assms(3) by (intro fenced_blocks_none) simp
  then have echo: "fenced_blocks (BuildPrompt quote req @ post) = [request_text req @ nl]" by (simp only: blocks)
  have "ParseLastJSONBlock um (BuildPrompt quote req @ answer_text answers post) = ParseLastJSONBlock um (answer_text answers post)"
    if a: "list_all plain_block answers" "answers \<noteq> []"
  proof -
    have "fenced_blocks (prompt_tail @ answer_text answers post) = map (\<lambda>b. snd b @ nl) answers"
      using prompt_tail_plain assms(3) by (intro answer_text_before [OF a]) simp
    moreover have "fenced_blocks (answer_text answers post) = map (\<lambda>b. snd b @ nl) answers"
      by (rule fenced_blocks_text [OF a(1) assms(3)])
    ultimately show ?thesis using a(2) by (simp add: ParseLastJSONBlock_def blocks Let_def)
  qed
  moreover have "ParseLastJSONBlock um (BuildPrompt quote req @ post) = Inr resp" if "um (request_text req @ nl) = Some resp"
    using that by (simp add: ParseLastJSONBlock_def echo Let_def)
  ultimately show ?thesis by (simp add: claude_Run_def kimi_Run_def)
qed

subsection \<open>The registry\<close>

text \<open>
  The registry always comes up. Whatever agents are installed, every name is registered once,
  the fake is there, \<open>claude\<close> and \<open>kimi\<close> are there exactly when their binaries were found, the
  listed names are sorted, and each listed name is found.
\<close>

theorem BuildRegistry_complete:
  "\<exists>r. BuildRegistry c k = Some r \<and> sorted_wrt (<) (registry_Names r) \<and>
     set (registry_Names r) = {''fake''} \<union> (if c = None then {} else {''claude''}) \<union> (if k = None then {} else {''kimi''}) \<and>
     (\<forall>n. registry_Get r n \<noteq> None \<longleftrightarrow> n \<in> set (registry_Names r))"
proof -
  have names: "distinct (map fst r) \<Longrightarrow> sorted_wrt (<) (registry_Names r)" for r :: "runtime registry"
    by (simp add: registry_Names_def strict_sorted_iff)
  have get: "registry_Get r n \<noteq> None \<longleftrightarrow> n \<in> set (registry_Names r)" for r :: "runtime registry" and n
    by (auto simp: registry_Get_def registry_Names_def map_of_eq_None_iff domIff)
  obtain r where r: "BuildRegistry c k = Some r" "distinct (map fst r)"
      "set (map fst r) = {''fake''} \<union> (if c = None then {} else {''claude''}) \<union> (if k = None then {} else {''kimi''})"
    by (cases c; cases k) (auto simp: BuildRegistry_def Register_def)
  show ?thesis using r names [OF r(2)] get by (intro exI [of _ r]) (auto simp: registry_Names_def)
qed

subsection \<open>Witnesses\<close>

definition first_turn :: TurnRequest where
  "first_turn = \<lparr>tq_Session = ''1-1'', tq_Turn = 1, tq_Role = ''demo'', tq_RuntimeHint = ''claude'', tq_ModelHint = [],
     tq_Budget = \<lparr>b_TokensLeft = 9, b_TurnsLeft = 1, b_DeadlineMS = 0, b_DryRoundsThreshold = 0\<rparr>, tq_ScratchPath = [],
     tq_Scratch = [], tq_LastTurn = None, tq_Task = \<lparr>t_Title = ''t'', t_Body = ''t'', t_RepoRoot = []\<rparr>, tq_WorkContract = None,
     tq_ExitWhen = []\<rparr>"

theorem repeated_prompt_witness:
  "claude_Run (\<lambda>s. s) (\<lambda>s. Some said) (Exits (BuildPrompt (\<lambda>s. s) first_turn)) = Inr said \<and>
   ParseLastJSONBlock reads_said (BuildPrompt (\<lambda>s. s) first_turn @ answer_text [([], jprint (JObj said_fields))] []) = Inr said"
proof -
  have h: "backtick \<notin> set (prompt_head (\<lambda>s. s) first_turn)" "backtick \<notin> set (request_text first_turn)"
    by (code_simp, code_simp)
  have b: "backtick \<notin> set (jprint (JObj said_fields))" by code_simp
  have "ParseLastJSONBlock reads_said (answer_text [([], jprint (JObj said_fields))] []) = Inr said" by code_simp
  with repeated_prompt [OF h, of "[]" "[([], jprint (JObj said_fields))]" reads_said] printed_object_block [OF _ b, of "[]"]
    repeated_prompt [OF h, of "[]" _ "\<lambda>s. Some said" said]
  show ?thesis by (simp del: jprint.simps)
qed

theorem Snippet_bounded_witness:
  "length (Snippet (replicate 50 (CHR ''x'')) 10) \<le> 13"
  using Snippet_bounded [of "replicate 50 (CHR ''x'')" 10] by simp

end
