(* ===== verification/Config.thy ===== *)
theory Config
  imports Prelude "HOL-Library.Countable"
begin

section \<open>Settings (internal/config, internal/cli/config.go, internal/cli/bootstrap.go)\<close>

text \<open>
  The settings file, its defaults, what each key resolves to and where the value comes from,
  and the commands that change it. \<open>ym\<close> and \<open>yu\<close> are the YAML library's marshal and unmarshal
  at the type of the settings; the environment is a map; writing goes through the steps of
  \<^verbatim>\<open>Save\<close>, each of which can fail. The theory shows that a setting that was written is read
  back and no other setting changes, and which values a first write pins.
\<close>

datatype config_error =
    UnknownKey string
  | InvalidValue string
  | NoHome
  | ReadConfig
  | ParseConfig
  | CreateConfigDir
  | WriteConfig
  | RenameConfig
  | KeyNotResolved string

record Config =
  cfg_DefaultPreset :: string
  cfg_DefaultAdapter :: string
  cfg_CodingCLI :: string
  cfg_Editor :: string
  cfg_WaitMode :: string
  cfg_Telemetry :: string

datatype Source = SourceFile | SourceEnv | SourceDefault

record Entry =
  en_Key :: string
  en_Value :: string
  en_Source :: Source
  en_Description :: string

definition Defaults :: Config where
  "Defaults =
     \<lparr>cfg_DefaultPreset = ''solo-ralph'', cfg_DefaultAdapter = ''claude'', cfg_CodingCLI = ''claude'', cfg_Editor = [],
      cfg_WaitMode = ''yield'', cfg_Telemetry = ''off''\<rparr>"

definition Keys :: "string list" where
  "Keys = [''coding_cli'', ''default_adapter'', ''default_preset'', ''editor'', ''telemetry'', ''wait_mode'']"

definition KnownKey :: "string \<Rightarrow> bool" where
  "KnownKey k \<longleftrightarrow> list_ex (\<lambda>x. x = k) Keys"

definition Describe :: "string \<Rightarrow> string" where
  "Describe k =
     (if k = ''default_preset'' then ''Preset used when `rallish squash` is run without --preset''
      else if k = ''default_adapter'' then ''Adapter (runtime) presets default to (e.g. claude, kimi)''
      else if k = ''coding_cli'' then ''Coding-CLI vendor for skill install path (claude / kimi / codex)''
      else if k = ''editor'' then ''Editor opened by `rallish config edit` (else $EDITOR, $VISUAL, vi)''
      else if k = ''wait_mode'' then ''Default rally WAIT_MODE (yield = poll on user msg; block = blocking join)''
      else if k = ''telemetry'' then ''Reserved for future opt-in usage telemetry (on / off)''
      else [])"

subsection \<open>Keys\<close>

definition validCodingCLI :: "string \<Rightarrow> bool" where
  "validCodingCLI v \<longleftrightarrow> v = ''claude'' \<or> v = ''kimi'' \<or> v = ''codex''"

definition config_Get :: "Config \<Rightarrow> string \<Rightarrow> config_error + string" where
  "config_Get cfg key =
     (if key = ''default_preset'' then Inr (cfg_DefaultPreset cfg)
      else if key = ''default_adapter'' then Inr (cfg_DefaultAdapter cfg)
      else if key = ''coding_cli'' then Inr (cfg_CodingCLI cfg)
      else if key = ''editor'' then Inr (cfg_Editor cfg)
      else if key = ''wait_mode'' then Inr (cfg_WaitMode cfg)
      else if key = ''telemetry'' then Inr (cfg_Telemetry cfg)
      else Inl (UnknownKey key))"

definition config_Set :: "string \<Rightarrow> string \<Rightarrow> Config \<Rightarrow> config_error + Config" where
  "config_Set key rawValue cfg =
     (let v = TrimSpace rawValue in
      if key = ''default_preset'' then Inr (cfg\<lparr>cfg_DefaultPreset := v\<rparr>)
      else if key = ''default_adapter'' then Inr (cfg\<lparr>cfg_DefaultAdapter := v\<rparr>)
      else if key = ''coding_cli'' then
        (if v \<noteq> [] \<and> \<not> validCodingCLI v then Inl (InvalidValue key) else Inr (cfg\<lparr>cfg_CodingCLI := v\<rparr>))
      else if key = ''editor'' then Inr (cfg\<lparr>cfg_Editor := v\<rparr>)
      else if key = ''wait_mode'' then
        (if v \<noteq> [] \<and> v \<noteq> ''yield'' \<and> v \<noteq> ''block'' then Inl (InvalidValue key) else Inr (cfg\<lparr>cfg_WaitMode := v\<rparr>))
      else if key = ''telemetry'' then
        (if v \<noteq> [] \<and> v \<noteq> ''on'' \<and> v \<noteq> ''off'' then Inl (InvalidValue key) else Inr (cfg\<lparr>cfg_Telemetry := v\<rparr>))
      else Inl (UnknownKey key))"

subsection \<open>The file\<close>

text \<open>
  The process environment, the home directory, and the files of the directory: the settings,
  \<open>None\<close> when there is no file, and the temporary file. \<open>host_readable\<close> is false when the file
  is there and cannot be read.
\<close>

record host_env =
  he_getenv :: "string \<Rightarrow> string"
  he_home :: "string option"

record config_disk =
  cd_file :: "string option"
  cd_readable :: bool
  cd_tmp :: "string option"

definition config_Dir :: "host_env \<Rightarrow> config_error + string list" where
  "config_Dir env =
     (if he_getenv env ''RALLISH_HOME'' \<noteq> [] then Inr [he_getenv env ''RALLISH_HOME'']
      else case he_home env of None \<Rightarrow> Inl NoHome | Some home \<Rightarrow> Inr [home, ''.rallish''])"

text \<open>A path is the list of the arguments of \<^verbatim>\<open>filepath.Join\<close>.\<close>

definition config_Path :: "host_env \<Rightarrow> config_error + string list" where
  "config_Path env = (case config_Dir env of Inl e \<Rightarrow> Inl e | Inr dir \<Rightarrow> Inr (dir @ [''config.yaml'']))"

record LoadResult =
  lr_Path :: "string list"
  lr_FileExists :: bool
  lr_fileKeys :: "string \<Rightarrow> bool"

definition fromFile :: "string \<Rightarrow> LoadResult \<Rightarrow> LoadResult" where
  "fromFile k r = r\<lparr>lr_fileKeys := (lr_fileKeys r)(k := True)\<rparr>"

definition IsFromFile :: "LoadResult \<Rightarrow> string \<Rightarrow> bool" where
  "IsFromFile r k = lr_fileKeys r k"

text \<open>One layer of a file value over the default: the test, the field and the mark.\<close>

definition layer :: "string \<Rightarrow> string \<Rightarrow> (Config \<Rightarrow> Config) \<Rightarrow> Config \<times> LoadResult \<Rightarrow> Config \<times> LoadResult" where
  "layer k v set_field st = (if v \<noteq> [] then (set_field (fst st), fromFile k (snd st)) else st)"

definition layer_file :: "Config \<Rightarrow> Config \<times> LoadResult \<Rightarrow> Config \<times> LoadResult" where
  "layer_file cfg st0 =
     (let st1 = layer ''default_preset'' (cfg_DefaultPreset cfg) (\<lambda>c. c\<lparr>cfg_DefaultPreset := cfg_DefaultPreset cfg\<rparr>) st0;
          st2 = layer ''default_adapter'' (cfg_DefaultAdapter cfg) (\<lambda>c. c\<lparr>cfg_DefaultAdapter := cfg_DefaultAdapter cfg\<rparr>) st1;
          st3 = layer ''coding_cli'' (cfg_CodingCLI cfg) (\<lambda>c. c\<lparr>cfg_CodingCLI := cfg_CodingCLI cfg\<rparr>) st2;
          st4 = layer ''editor'' (cfg_Editor cfg) (\<lambda>c. c\<lparr>cfg_Editor := cfg_Editor cfg\<rparr>) st3;
          st5 = layer ''wait_mode'' (cfg_WaitMode cfg) (\<lambda>c. c\<lparr>cfg_WaitMode := cfg_WaitMode cfg\<rparr>) st4
      in layer ''telemetry'' (cfg_Telemetry cfg) (\<lambda>c. c\<lparr>cfg_Telemetry := cfg_Telemetry cfg\<rparr>) st5)"

definition config_Load :: "(string \<Rightarrow> Config option) \<Rightarrow> host_env \<Rightarrow> config_disk \<Rightarrow> config_error + (Config \<times> LoadResult)" where
  "config_Load yu env d =
     (case config_Path env of
        Inl e \<Rightarrow> Inl e
      | Inr path \<Rightarrow>
          (let res = \<lparr>lr_Path = path, lr_FileExists = False, lr_fileKeys = (\<lambda>k. False)\<rparr> in
           case cd_file d of
             None \<Rightarrow> Inr (Defaults, res)
           | Some data \<Rightarrow>
               if \<not> cd_readable d then Inl ReadConfig
               else case yu data of
                 None \<Rightarrow> Inl ParseConfig
               | Some cfg \<Rightarrow> Inr (layer_file cfg (Defaults, res\<lparr>lr_FileExists := True\<rparr>))))"

datatype save_io = SaveOk | SaveMkdirFails | SaveWriteFails nat | SaveRenameFails

text \<open>A failed write leaves part of the data in the temporary file.\<close>

definition config_Save :: "(Config \<Rightarrow> string) \<Rightarrow> host_env \<Rightarrow> save_io \<Rightarrow> Config \<Rightarrow> config_disk \<Rightarrow> config_error option \<times> config_disk" where
  "config_Save ym env io cfg d =
     (case config_Path env of
        Inl e \<Rightarrow> (Some e, d)
      | Inr path \<Rightarrow>
          (case io of
             SaveMkdirFails \<Rightarrow> (Some CreateConfigDir, d)
           | SaveWriteFails n \<Rightarrow> (Some WriteConfig, d\<lparr>cd_tmp := Some (take n (ym cfg))\<rparr>)
           | SaveRenameFails \<Rightarrow> (Some RenameConfig, d\<lparr>cd_tmp := Some (ym cfg)\<rparr>)
           | SaveOk \<Rightarrow> (None, \<lparr>cd_file = Some (ym cfg), cd_readable = True, cd_tmp = None\<rparr>)))"

definition resolve_editor :: "host_env \<Rightarrow> string \<times> Source" where
  "resolve_editor env =
     (if he_getenv env ''VISUAL'' \<noteq> [] then (he_getenv env ''VISUAL'', SourceEnv)
      else if he_getenv env ''EDITOR'' \<noteq> [] then (he_getenv env ''EDITOR'', SourceEnv)
      else (''vi'', SourceDefault))"

text \<open>The keys are listed in order, so the final sort of \<^verbatim>\<open>Resolve\<close> leaves the list as it is.\<close>

definition resolve_key :: "host_env \<Rightarrow> Config \<Rightarrow> LoadResult \<Rightarrow> string \<Rightarrow> Entry" where
  "resolve_key env cfg res k =
     (let v = (case config_Get cfg k of Inr v \<Rightarrow> v | Inl e \<Rightarrow> []);
          src = (if IsFromFile res k then SourceFile else SourceDefault);
          (v, src) = (if k = ''editor'' \<and> v = [] then resolve_editor env else (v, src))
      in \<lparr>en_Key = k, en_Value = v, en_Source = src, en_Description = Describe k\<rparr>)"

definition Resolve :: "host_env \<Rightarrow> Config \<Rightarrow> LoadResult \<Rightarrow> Entry list" where
  "Resolve env cfg res = map (resolve_key env cfg res) Keys"

subsection \<open>The commands (internal/cli/config.go)\<close>

definition RunConfigGet :: "(string \<Rightarrow> Config option) \<Rightarrow> host_env \<Rightarrow> config_disk \<Rightarrow> string \<Rightarrow> config_error + string" where
  "RunConfigGet yu env d key =
     (if \<not> KnownKey key then Inl (UnknownKey key)
      else case config_Load yu env d of
        Inl e \<Rightarrow> Inl e
      | Inr (cfg, res) \<Rightarrow>
          (case find (\<lambda>e. en_Key e = key) (Resolve env cfg res) of
             Some e \<Rightarrow> Inr (en_Value e)
           | None \<Rightarrow> Inl (KeyNotResolved key)))"

definition RunConfigSet ::
  "(Config \<Rightarrow> string) \<Rightarrow> (string \<Rightarrow> Config option) \<Rightarrow> host_env \<Rightarrow> save_io \<Rightarrow> string \<Rightarrow> string \<Rightarrow> config_disk \<Rightarrow>
   config_error option \<times> config_disk" where
  "RunConfigSet ym yu env io key v d =
     (case config_Load yu env d of
        Inl e \<Rightarrow> (Some e, d)
      | Inr (cfg, res) \<Rightarrow>
          (case config_Set key v cfg of
             Inl e \<Rightarrow> (Some e, d)
           | Inr cfg' \<Rightarrow> config_Save ym env io cfg' d))"

definition chooseEditor :: "host_env \<Rightarrow> string \<Rightarrow> string" where
  "chooseEditor env cfgValue =
     (if cfgValue \<noteq> [] then cfgValue
      else if he_getenv env ''VISUAL'' \<noteq> [] then he_getenv env ''VISUAL''
      else if he_getenv env ''EDITOR'' \<noteq> [] then he_getenv env ''EDITOR''
      else ''vi'')"

text \<open>The editor the command starts, after it created the file when there was none.\<close>

definition RunConfigEdit ::
  "(Config \<Rightarrow> string) \<Rightarrow> (string \<Rightarrow> Config option) \<Rightarrow> host_env \<Rightarrow> save_io \<Rightarrow> config_disk \<Rightarrow>
   (config_error + string) \<times> config_disk" where
  "RunConfigEdit ym yu env io d =
     (case config_Path env of
        Inl e \<Rightarrow> (Inl e, d)
      | Inr path \<Rightarrow>
          (case (if cd_file d = None
                 then (case config_Load yu env d of Inl e \<Rightarrow> (Some e, d) | Inr (cfg, res) \<Rightarrow> config_Save ym env io cfg d)
                 else (None, d)) of
             (Some e, d1) \<Rightarrow> (Inl e, d1)
           | (None, d1) \<Rightarrow>
               (case config_Load yu env d1 of
                  Inl e \<Rightarrow> (Inl e, d1)
                | Inr (cfg, res) \<Rightarrow> (Inr (chooseEditor env (cfg_Editor cfg)), d1))))"

subsection \<open>The setup wizard (internal/cli/bootstrap.go)\<close>

definition indexOf :: "string list \<Rightarrow> string \<Rightarrow> int" where
  "indexOf s v = (case find (\<lambda>i. s ! i = v) [0..<length s] of Some i \<Rightarrow> int i | None \<Rightarrow> -1)"

definition firstWord :: "string \<Rightarrow> string" where
  "firstWord s = takeWhile (\<lambda>c. c \<noteq> CHR '' '') s"

definition vendors :: "string list" where
  "vendors = [''claude'', ''kimi'', ''codex'']"

text \<open>What the user answers; \<open>None\<close> when reading the answer fails.\<close>

record wizard_answers =
  wa_preset :: "string \<Rightarrow> string option"
  wa_vendor :: "nat \<Rightarrow> string option"
  wa_waitMode :: "string option"

definition runConfigWizard ::
  "(Config \<Rightarrow> string) \<Rightarrow> (string \<Rightarrow> Config option) \<Rightarrow> host_env \<Rightarrow> save_io \<Rightarrow> bool \<Rightarrow> wizard_answers \<Rightarrow> config_disk \<Rightarrow>
   bool \<times> config_disk" where
  "runConfigWizard ym yu env io yes ans d =
     (case config_Load yu env d of
        Inl e \<Rightarrow> (False, d)
      | Inr (cfg, res) \<Rightarrow>
          if yes then apfst (\<lambda>e. e = None) (config_Save ym env io cfg d)
          else case wa_preset ans (cfg_DefaultPreset cfg) of
            None \<Rightarrow> (False, d)
          | Some preset \<Rightarrow>
              (case config_Set ''default_preset'' preset cfg of
                 Inl e \<Rightarrow> (False, d)
               | Inr cfg1 \<Rightarrow>
                   let ix = indexOf vendors (cfg_CodingCLI cfg1); def = (if ix < 0 then 0 else nat ix) in
                   (case wa_vendor ans def of
                      None \<Rightarrow> (False, d)
                    | Some cli \<Rightarrow>
                        (case config_Set ''coding_cli'' cli cfg1 of
                           Inl e \<Rightarrow> (False, d)
                         | Inr cfg2 \<Rightarrow>
                             let cfg3 = (case config_Set ''default_adapter'' cli cfg2 of Inl e \<Rightarrow> cfg2 | Inr c \<Rightarrow> c) in
                             (case wa_waitMode ans of
                                None \<Rightarrow> (False, d)
                              | Some wm \<Rightarrow>
                                  (case config_Set ''wait_mode'' (firstWord wm) cfg3 of
                                     Inl e \<Rightarrow> (False, d)
                                   | Inr cfg4 \<Rightarrow> apfst (\<lambda>e. e = None) (config_Save ym env io cfg4 d)))))))"

definition ensureConfigFile ::
  "(Config \<Rightarrow> string) \<Rightarrow> (string \<Rightarrow> Config option) \<Rightarrow> host_env \<Rightarrow> save_io \<Rightarrow> config_disk \<Rightarrow> config_disk" where
  "ensureConfigFile ym yu env io d =
     (case config_Path env of
        Inl e \<Rightarrow> d
      | Inr path \<Rightarrow>
          if cd_file d \<noteq> None then d
          else case config_Load yu env d of
            Inl e \<Rightarrow> d
          | Inr (cfg, res) \<Rightarrow> snd (config_Save ym env io cfg d))"

subsection \<open>What a setting resolves to\<close>

definition cfg_field :: "string \<Rightarrow> Config \<Rightarrow> string" where
  "cfg_field k cfg = (case config_Get cfg k of Inr v \<Rightarrow> v | Inl e \<Rightarrow> [])"

definition shown :: "host_env \<Rightarrow> string \<Rightarrow> string \<Rightarrow> string" where
  "shown env k v = (if k = ''editor'' \<and> v = [] then fst (resolve_editor env) else v)"

definition over :: "string \<Rightarrow> string \<Rightarrow> string" where
  "over v dflt = (if v \<noteq> [] then v else dflt)"

lemma KnownKey_iff:
  "KnownKey k \<longleftrightarrow> ''coding_cli'' = k \<or> ''default_adapter'' = k \<or> ''default_preset'' = k \<or> ''editor'' = k \<or> ''telemetry'' = k \<or>
     ''wait_mode'' = k"
  by (simp only: KnownKey_def Keys_def list.pred_True list_ex_iff set_simps bex_simps Set.ball_simps insert_iff empty_iff Set.bex_simps simp_thms)

lemma KnownKey_cases:
  assumes "KnownKey k"
  obtains "k = ''default_preset''" | "k = ''default_adapter''" | "k = ''coding_cli''" | "k = ''editor''" | "k = ''wait_mode''" |
    "k = ''telemetry''"
  using assms unfolding KnownKey_iff
  by (elim disjE) (erule that(1) [OF sym] that(2) [OF sym] that(3) [OF sym] that(4) [OF sym] that(5) [OF sym] that(6) [OF sym])+

lemma field_layer: "cfg_field k (fst (layer k' v f st)) = (if v \<noteq> [] then cfg_field k (f (fst st)) else cfg_field k (fst st))"
  by (simp add: layer_def)

lemma marked_layer: "IsFromFile (snd (layer k' v f st)) k \<longleftrightarrow> v \<noteq> [] \<and> k = k' \<or> IsFromFile (snd st) k"
  by (simp add: layer_def fromFile_def IsFromFile_def)

lemma field_upd:
  "cfg_field k (c\<lparr>cfg_DefaultPreset := v\<rparr>) = (if k = ''default_preset'' then v else cfg_field k c)"
  "cfg_field k (c\<lparr>cfg_DefaultAdapter := v\<rparr>) = (if k = ''default_adapter'' then v else cfg_field k c)"
  "cfg_field k (c\<lparr>cfg_CodingCLI := v\<rparr>) = (if k = ''coding_cli'' then v else cfg_field k c)"
  "cfg_field k (c\<lparr>cfg_Editor := v\<rparr>) = (if k = ''editor'' then v else cfg_field k c)"
  "cfg_field k (c\<lparr>cfg_WaitMode := v\<rparr>) = (if k = ''wait_mode'' then v else cfg_field k c)"
  "cfg_field k (c\<lparr>cfg_Telemetry := v\<rparr>) = (if k = ''telemetry'' then v else cfg_field k c)"
  by (simp_all add: cfg_field_def config_Get_def)

lemma field_sel:
  "cfg_DefaultPreset c = cfg_field ''default_preset'' c" "cfg_DefaultAdapter c = cfg_field ''default_adapter'' c"
  "cfg_CodingCLI c = cfg_field ''coding_cli'' c" "cfg_Editor c = cfg_field ''editor'' c"
  "cfg_WaitMode c = cfg_field ''wait_mode'' c" "cfg_Telemetry c = cfg_field ''telemetry'' c"
  by (simp_all add: cfg_field_def config_Get_def)

lemma layer_one:
  assumes "\<And>c. cfg_field k (f c) = (if k = k' then v else cfg_field k c)"
  shows "cfg_field k (fst (layer k' v f st)) = (if k = k' then over v (cfg_field k (fst st)) else cfg_field k (fst st))"
  unfolding field_layer assms over_def by simp

lemma layer_field:
  assumes "KnownKey k"
  shows "cfg_field k (fst (layer_file cfg st)) = over (cfg_field k cfg) (cfg_field k (fst st))"
  using assms
  by (cases rule: KnownKey_cases)
     (simp_all add: layer_file_def Let_def layer_one field_upd field_sel)

lemma layer_file_keys:
  assumes "KnownKey k"
  shows "IsFromFile (snd (layer_file cfg st)) k \<longleftrightarrow> cfg_field k cfg \<noteq> [] \<or> IsFromFile (snd st) k"
  using assms by (cases rule: KnownKey_cases) (simp_all add: layer_file_def Let_def marked_layer field_sel)

lemma find_key: "KnownKey key \<Longrightarrow> find (\<lambda>e. en_Key e = key) (Resolve env cfg res) = Some (resolve_key env cfg res key)"
  by (elim KnownKey_cases) (simp_all add: Resolve_def Keys_def resolve_key_def Let_def case_prod_unfold)

lemma RunConfigGet_eq:
  assumes "KnownKey key" "config_Load yu env d = Inr (cfg, res)"
  shows "RunConfigGet yu env d key = Inr (shown env key (cfg_field key cfg))"
  using assms find_key [OF assms(1), of env cfg res]
  by (auto simp: RunConfigGet_def resolve_key_def Let_def case_prod_unfold shown_def cfg_field_def split: if_splits)

lemma Load_Path: "config_Load yu env d = Inr (cfg, res) \<Longrightarrow> \<exists>path. config_Path env = Inr path"
  by (auto simp: config_Load_def split: sum.splits)

lemma Load_default:
  assumes "config_Load yu env d = Inr (cfg, res)" "KnownKey k" "cfg_field k cfg = []"
  shows "cfg_field k Defaults = []"
proof (cases "cd_file d")
  case None
  with assms show ?thesis by (auto simp: config_Load_def split: sum.splits)
next
  case (Some data)
  with assms(1) have "\<exists>f r. layer_file f (Defaults, r) = (cfg, res)"
    by (auto simp: config_Load_def Let_def split: sum.splits option.splits if_splits)
  then obtain f r where "layer_file f (Defaults, r) = (cfg, res)" by blast
  with layer_field [OF assms(2), of f "(Defaults, r)"] assms(3) show ?thesis by (simp add: over_def split: if_splits)
qed

lemma Set_field:
  assumes "config_Set key v cfg = Inr cfg'"
  shows "KnownKey key" and "cfg_field key cfg' = TrimSpace v" and "k \<noteq> key \<Longrightarrow> cfg_field k cfg' = cfg_field k cfg"
proof -
  show known: "KnownKey key" using assms by (auto simp: config_Set_def Let_def KnownKey_def Keys_def split: if_splits)
  show "cfg_field key cfg' = TrimSpace v"
    using known assms by (cases rule: KnownKey_cases) (auto simp: config_Set_def Let_def field_upd split: if_splits)
  show "k \<noteq> key \<Longrightarrow> cfg_field k cfg' = cfg_field k cfg"
    using known assms by (cases rule: KnownKey_cases) (auto simp: config_Set_def Let_def field_upd split: if_splits)
qed

text \<open>
  A setting that was set is read back, and nothing else changes. When the command succeeds, the
  key resolves to the trimmed value (an empty one to its default) and every other key to what it
  resolved to before; when it fails, the settings file is what it was, wherever the failure.
\<close>

theorem config_set_get:
  assumes "\<forall>c. yu (ym c) = Some c" and "config_Load yu env d = Inr (cfg, res)" and "RunConfigSet ym yu env io key v d = (err, d')"
  shows "if err = None
    then KnownKey key \<and> RunConfigGet yu env d' key = Inr (shown env key (over (TrimSpace v) (cfg_field key Defaults))) \<and>
      (\<forall>k. k \<noteq> key \<longrightarrow> RunConfigGet yu env d' k = RunConfigGet yu env d k)
    else cd_file d' = cd_file d"
proof (cases "err = None")
  case False
  with assms(2,3) show ?thesis
    by (auto simp: RunConfigSet_def config_Save_def split: sum.splits save_io.splits)
next
  case True
  with assms(2,3) obtain cfg' where set: "config_Set key v cfg = Inr cfg'" and save: "config_Save ym env io cfg' d = (None, d')"
    by (auto simp: RunConfigSet_def split: sum.splits)
  obtain path where path: "config_Path env = Inr path" using Load_Path [OF assms(2)] by blast
  with save have d': "d' = \<lparr>cd_file = Some (ym cfg'), cd_readable = True, cd_tmp = None\<rparr>"
    by (auto simp: config_Save_def split: save_io.splits)
  define st where "st = (Defaults, \<lparr>lr_Path = path, lr_FileExists = True, lr_fileKeys = (\<lambda>k. False)\<rparr>)"
  obtain cfg1 res1 where st1: "layer_file cfg' st = (cfg1, res1)" by fastforce
  with path assms(1) have load: "config_Load yu env d' = Inr (cfg1, res1)" by (simp add: config_Load_def d' st_def)
  have field: "cfg_field k cfg1 = over (cfg_field k cfg') (cfg_field k Defaults)" if "KnownKey k" for k
    using layer_field [OF that, of cfg' st] by (simp add: st1) (simp add: st_def)
  have "RunConfigGet yu env d' key = Inr (shown env key (over (TrimSpace v) (cfg_field key Defaults)))"
    using RunConfigGet_eq [OF Set_field(1) [OF set] load] field [OF Set_field(1) [OF set]] Set_field(2) [OF set] by simp
  moreover have "RunConfigGet yu env d' k = RunConfigGet yu env d k" if k: "k \<noteq> key" for k
  proof (cases "KnownKey k")
    case True
    have "cfg_field k cfg1 = cfg_field k cfg"
      using field [OF True] Set_field(3) [OF set k] Load_default [OF assms(2) True] by (auto simp: over_def)
    then show ?thesis using RunConfigGet_eq [OF True load] RunConfigGet_eq [OF True assms(2)] by simp
  qed (simp add: RunConfigGet_def)
  ultimately show ?thesis using True Set_field(1) [OF set] by simp
qed

text \<open>
  The first write pins the defaults. Where there is no file yet, every key shows its built-in
  default; after one key is set, every other key that has a default comes from the file, so a
  later change of the built-in default no longer reaches it.
\<close>

theorem first_set_pins_defaults:
  assumes "\<forall>c. yu (ym c) = Some c" and "cd_file d = None" and "RunConfigSet ym yu env io key v d = (None, d')"
    and "KnownKey k" and "k \<noteq> key" and "k \<noteq> ''editor''"
  shows "\<exists>cfg res cfg' res'. config_Load yu env d = Inr (cfg, res) \<and> config_Load yu env d' = Inr (cfg', res') \<and>
    \<not> IsFromFile res k \<and> IsFromFile res' k \<and> cfg_field k cfg' = cfg_field k Defaults"
proof -
  obtain path where path: "config_Path env = Inr path"
    using assms(3) by (auto simp: RunConfigSet_def config_Load_def split: sum.splits)
  define res where "res = \<lparr>lr_Path = path, lr_FileExists = False, lr_fileKeys = (\<lambda>k. False)\<rparr>"
  have load: "config_Load yu env d = Inr (Defaults, res)" using path assms(2) by (simp add: config_Load_def res_def)
  with assms(3) obtain cfg' where set: "config_Set key v Defaults = Inr cfg'" and save: "config_Save ym env io cfg' d = (None, d')"
    by (auto simp: RunConfigSet_def split: sum.splits)
  from save path have d': "d' = \<lparr>cd_file = Some (ym cfg'), cd_readable = True, cd_tmp = None\<rparr>"
    by (auto simp: config_Save_def split: save_io.splits)
  obtain cfg1 res1 where st1: "layer_file cfg' (Defaults, res\<lparr>lr_FileExists := True\<rparr>) = (cfg1, res1)" by fastforce
  with path assms(1) have load1: "config_Load yu env d' = Inr (cfg1, res1)" by (simp add: config_Load_def d' res_def)
  have dflt: "cfg_field k Defaults \<noteq> []"
    using assms(4,6) by (elim KnownKey_cases) (simp_all add: cfg_field_def config_Get_def Defaults_def)
  have "cfg_field k cfg' = cfg_field k Defaults" by (rule Set_field(3) [OF set assms(5)])
  with dflt layer_field [OF assms(4), of cfg' "(Defaults, res\<lparr>lr_FileExists := True\<rparr>)"]
    layer_file_keys [OF assms(4), of cfg' "(Defaults, res\<lparr>lr_FileExists := True\<rparr>)"]
  have "IsFromFile res1 k \<and> cfg_field k cfg1 = cfg_field k Defaults" by (simp add: st1 over_def)
  moreover have "\<not> IsFromFile res k" by (simp add: res_def IsFromFile_def)
  ultimately show ?thesis using load load1 by blast
qed

text \<open>
  The editor \<open>config edit\<close> starts is the editor \<open>config get editor\<close> shows, whatever is in the
  file and in the environment; a value in the file wins over both variables, and \<open>VISUAL\<close> wins
  over \<open>EDITOR\<close>.
\<close>

theorem edit_opens_shown_editor:
  assumes "\<forall>c. yu (ym c) = Some c" and "RunConfigEdit ym yu env io d = (Inr ed, d')"
  shows "RunConfigGet yu env d' ''editor'' = Inr ed \<and> (cd_file d \<noteq> None \<longrightarrow> d' = d)"
proof -
  from assms(2) obtain cfg res where load: "config_Load yu env d' = Inr (cfg, res)" and ed: "ed = chooseEditor env (cfg_Editor cfg)"
    by (auto simp: RunConfigEdit_def split: sum.splits prod.splits option.splits if_splits)
  have "KnownKey ''editor''" by (simp add: KnownKey_def Keys_def)
  from RunConfigGet_eq [OF this load] have "RunConfigGet yu env d' ''editor'' = Inr ed"
    by (simp add: ed shown_def cfg_field_def config_Get_def resolve_editor_def chooseEditor_def)
  moreover have "cd_file d \<noteq> None \<longrightarrow> d' = d"
    using assms(2) by (auto simp: RunConfigEdit_def split: sum.splits prod.splits option.splits if_splits)
  ultimately show ?thesis by blast
qed

subsection \<open>Witnesses\<close>

text \<open>A marshaller that can be undone: the settings as a number in unary.\<close>

definition unary :: "Config \<Rightarrow> string" where
  "unary c = replicate (to_nat (cfg_DefaultPreset c, cfg_DefaultAdapter c, cfg_CodingCLI c, cfg_Editor c, cfg_WaitMode c,
     cfg_Telemetry c)) (CHR ''1'')"

definition ununary :: "string \<Rightarrow> Config option" where
  "ununary s =
     (case from_nat (length s) of (p, a, c, e, w, t) \<Rightarrow>
        Some \<lparr>cfg_DefaultPreset = p, cfg_DefaultAdapter = a, cfg_CodingCLI = c, cfg_Editor = e, cfg_WaitMode = w, cfg_Telemetry = t\<rparr>)"

lemma ununary_unary: "\<forall>c. ununary (unary c) = Some c"
  by (simp add: ununary_def unary_def)

definition demo_host :: host_env where
  "demo_host = \<lparr>he_getenv = (\<lambda>k. if k = ''EDITOR'' then ''nano'' else []), he_home = Some ''/home/u''\<rparr>"

definition no_file :: config_disk where
  "no_file = \<lparr>cd_file = None, cd_readable = True, cd_tmp = None\<rparr>"

lemma demo_path: "config_Path demo_host = Inr [''/home/u'', ''.rallish'', ''config.yaml'']"
  by (simp add: config_Path_def config_Dir_def demo_host_def)

lemma demo_set: "\<exists>d'. RunConfigSet unary ununary demo_host SaveOk ''wait_mode'' ''block'' no_file = (None, d')"
proof -
  have "TrimSpace ''block'' = ''block''" by code_simp
  then show ?thesis by (simp add: RunConfigSet_def config_Load_def demo_path no_file_def config_Set_def config_Save_def Let_def)
qed

theorem config_set_get_witness:
  "\<exists>d'. RunConfigSet unary ununary demo_host SaveOk ''wait_mode'' ''block'' no_file = (None, d') \<and>
     RunConfigGet ununary demo_host d' ''wait_mode'' = Inr ''block'' \<and> RunConfigGet ununary demo_host d' ''telemetry'' = Inr ''off''"
proof -
  obtain d' where set: "RunConfigSet unary ununary demo_host SaveOk ''wait_mode'' ''block'' no_file = (None, d')"
    using demo_set by blast
  have load: "config_Load ununary demo_host no_file =
      Inr (Defaults, \<lparr>lr_Path = [''/home/u'', ''.rallish'', ''config.yaml''], lr_FileExists = False, lr_fileKeys = (\<lambda>k. False)\<rparr>)"
    by (simp add: config_Load_def demo_path no_file_def)
  have "TrimSpace ''block'' = ''block''" by code_simp
  moreover have "RunConfigGet ununary demo_host no_file ''telemetry'' = Inr ''off''"
    using RunConfigGet_eq [OF _ load, of "''telemetry''"]
    by (simp add: KnownKey_def Keys_def shown_def cfg_field_def config_Get_def Defaults_def)
  ultimately show ?thesis
    using config_set_get [OF ununary_unary load set] set by (auto simp: shown_def over_def)
qed

theorem first_set_pins_defaults_witness:
  "\<exists>d' cfg' res'. RunConfigSet unary ununary demo_host SaveOk ''wait_mode'' ''block'' no_file = (None, d') \<and>
     config_Load ununary demo_host d' = Inr (cfg', res') \<and> IsFromFile res' ''telemetry''"
proof -
  obtain d' where set: "RunConfigSet unary ununary demo_host SaveOk ''wait_mode'' ''block'' no_file = (None, d')"
    using demo_set by blast
  have "cd_file no_file = None" "KnownKey ''telemetry''" by (simp_all add: no_file_def KnownKey_def Keys_def)
  from first_set_pins_defaults [OF ununary_unary this(1) set this(2)] set show ?thesis by auto
qed

theorem edit_opens_shown_editor_witness:
  "\<exists>d'. RunConfigEdit unary ununary demo_host SaveOk no_file = (Inr ''nano'', d') \<and>
     RunConfigGet ununary demo_host d' ''editor'' = Inr ''nano''"
proof -
  have "ununary (unary Defaults) = Some Defaults" "chooseEditor demo_host [] = ''nano''"
    using ununary_unary by (blast, simp add: chooseEditor_def demo_host_def)
  then have "\<exists>d'. RunConfigEdit unary ununary demo_host SaveOk no_file = (Inr ''nano'', d')"
    by (simp add: RunConfigEdit_def config_Load_def demo_path no_file_def config_Save_def layer_file_def layer_def Let_def
        Defaults_def)
  with edit_opens_shown_editor [OF ununary_unary] show ?thesis by blast
qed

end
