(* ===== verification/BrokerHome.thy ===== *)
theory BrokerHome
  imports Scratch Transition
begin

section \<open>Finding the daemon (internal/cli/broker_client.go, daemon.go, squash.go)\<close>

text \<open>
  How a client finds the daemon: the files \<^verbatim>\<open>socket\<close> and \<^verbatim>\<open>port\<close> of the home directory, the socket
  file, and who answers. A daemon writes the files when it starts and removes them when it
  stops; one that is killed leaves them behind. A home is a record of the files and of the
  addresses that answer; starts, stops, kills and lookups are steps. The theory shows that a
  client is never sent to a dead address, that a daemon with a socket stays found, that stale
  files clear themselves, and what a refused second start does to the port file.
\<close>

subsection \<open>Containment of the socket pointer (squash.go)\<close>

text \<open>\<^verbatim>\<open>filepath.Rel\<close> of two clean absolute paths, by segments.\<close>

fun rel_segs :: "string list \<Rightarrow> string list \<Rightarrow> string list" where
  "rel_segs [] ts = ts"
| "rel_segs (b # bls) [] = replicate (Suc (length bls)) ''..''"
| "rel_segs (b # bls) (t # ts) = (if b = t then rel_segs bls ts else replicate (Suc (length bls)) ''..'' @ t # ts)"

definition path_segs :: "string \<Rightarrow> string list" where
  "path_segs p = filter (\<lambda>s. s \<noteq> []) (Split p (CHR ''/''))"

definition filepath_Rel :: "string \<Rightarrow> string \<Rightarrow> string" where
  "filepath_Rel base targ =
     (let r = rel_segs (path_segs base) (path_segs targ) in if r = [] then ''.'' else Join r ''/'')"

definition socketUnderRoot :: "string option \<Rightarrow> string \<Rightarrow> string \<Rightarrow> bool" where
  "socketUnderRoot wd path sockDir =
     (case filepath_Abs wd path of
        None \<Rightarrow> False
      | Some absPath \<Rightarrow>
          (case filepath_Abs wd sockDir of
             None \<Rightarrow> False
           | Some absDir \<Rightarrow>
               let rel = filepath_Rel absDir absPath in rel \<noteq> ''..'' \<and> \<not> HasPrefix rel ''../''))"

subsection \<open>The home directory\<close>

text \<open>
  \<open>bh_sockfile p\<close> is \<open>None\<close> when there is no socket file at \<open>p\<close>, and otherwise whether somebody
  answers there; \<open>bh_ports\<close> are the local ports that answer.
\<close>

record daemon =
  dm_port :: string
  dm_unix :: bool

record broker_home =
  bh_pointer :: "string option"
  bh_port :: "string option"
  bh_sockfile :: "string \<Rightarrow> bool option"
  bh_ports :: "string set"
  bh_daemons :: "daemon list"

definition dialExistingDaemon :: "string \<Rightarrow> broker_home \<Rightarrow> bool" where
  "dialExistingDaemon path h \<longleftrightarrow> bh_sockfile h path = Some True"

definition dialPort :: "string \<Rightarrow> broker_home \<Rightarrow> bool" where
  "dialPort port h \<longleftrightarrow> port \<noteq> [] \<and> port \<in> bh_ports h"

definition readPortFile :: "broker_home \<Rightarrow> string option" where
  "readPortFile h = map_option TrimSpace (bh_port h)"

definition socket_path :: "string \<Rightarrow> string" where
  "socket_path sockDir = sockDir @ ''/rallish.sock''"

subsection \<open>Clients (broker_client.go)\<close>

datatype endpoint = OverSocket string | OverPort string

datatype resolve_error = NoBroker | SpawnFailed | Unreachable

definition resolveBrokerClient :: "string option \<Rightarrow> string \<Rightarrow> broker_home \<Rightarrow> (resolve_error + endpoint) \<times> broker_home" where
  "resolveBrokerClient wd sockDir h =
     (let trimmed = (case bh_pointer h of None \<Rightarrow> [] | Some p \<Rightarrow> TrimSpace p);
          by_port = (\<lambda>h. case readPortFile h of
             None \<Rightarrow> (Inl NoBroker, h)
           | Some port \<Rightarrow> if \<not> dialPort port h then (Inl NoBroker, h\<lparr>bh_port := None\<rparr>) else (Inr (OverPort port), h))
      in if bh_pointer h \<noteq> None \<and> trimmed \<noteq> [] \<and> socketUnderRoot wd trimmed sockDir then
           (if dialExistingDaemon trimmed h then (Inr (OverSocket trimmed), h)
            else by_port (h\<lparr>bh_pointer := None\<rparr>))
         else by_port h)"

text \<open>The polls after a spawn. \<open>between\<close> is what else happens before each poll, one entry per poll.\<close>

fun poll_broker ::
  "string option \<Rightarrow> string \<Rightarrow> (broker_home \<Rightarrow> broker_home) list \<Rightarrow> broker_home \<Rightarrow> (resolve_error + endpoint) \<times> broker_home" where
  "poll_broker wd sockDir [] h = (Inl Unreachable, h)"
| "poll_broker wd sockDir (f # between) h =
     (case resolveBrokerClient wd sockDir (f h) of
        (Inr e, h') \<Rightarrow> (Inr e, h')
      | (Inl err, h') \<Rightarrow> if err \<noteq> NoBroker then (Inl err, h') else poll_broker wd sockDir between h')"

definition ensureBrokerClient ::
  "string option \<Rightarrow> string \<Rightarrow> bool \<Rightarrow> (broker_home \<Rightarrow> broker_home) list \<Rightarrow> broker_home \<Rightarrow>
   (resolve_error + endpoint) \<times> broker_home" where
  "ensureBrokerClient wd sockDir spawned between h =
     (case resolveBrokerClient wd sockDir h of
        (Inr e, h') \<Rightarrow> (Inr e, h')
      | (Inl err, h') \<Rightarrow>
          if err \<noteq> NoBroker then (Inl err, h')
          else if \<not> spawned then (Inl SpawnFailed, h')
          else poll_broker wd sockDir (take 20 between) h')"

subsection \<open>The lookup of \<^verbatim>\<open>squash\<close> (squash.go)\<close>

fun poll_port :: "(broker_home \<Rightarrow> broker_home) list \<Rightarrow> broker_home \<Rightarrow> (resolve_error + endpoint) \<times> broker_home" where
  "poll_port [] h = (Inl Unreachable, h)"
| "poll_port (f # between) h =
     (case readPortFile (f h) of Some port \<Rightarrow> (Inr (OverPort port), f h) | None \<Rightarrow> poll_port between (f h))"

definition squash_broker ::
  "string option \<Rightarrow> string \<Rightarrow> bool \<Rightarrow> (broker_home \<Rightarrow> broker_home) list \<Rightarrow> broker_home \<Rightarrow>
   (resolve_error + endpoint) \<times> broker_home" where
  "squash_broker wd sockDir spawned between h =
     (let trimmed = (case bh_pointer h of None \<Rightarrow> [] | Some p \<Rightarrow> TrimSpace p);
          under = socketUnderRoot wd trimmed sockDir
      in if bh_pointer h \<noteq> None \<and> trimmed \<noteq> [] \<and> under \<and> dialExistingDaemon trimmed h then (Inr (OverSocket trimmed), h)
         else
           let h1 = (if bh_pointer h \<noteq> None \<and> trimmed \<noteq> [] \<and> under then h\<lparr>bh_pointer := None\<rparr> else h) in
           (case readPortFile h1 of
              Some port \<Rightarrow>
                if dialPort port h1 then (Inr (OverPort port), h1)
                else if \<not> spawned then (Inl SpawnFailed, h1\<lparr>bh_port := None\<rparr>)
                else poll_port (take 20 between) (h1\<lparr>bh_port := None\<rparr>)
            | None \<Rightarrow> if \<not> spawned then (Inl SpawnFailed, h1) else poll_port (take 20 between) h1))"

subsection \<open>The daemon (daemon.go)\<close>

text \<open>What fails while a daemon starts; the port is the one the system picked.\<close>

record start_io =
  so_setup :: bool
  so_writePort :: bool
  so_removeSocket :: bool
  so_listenUnix :: bool
  so_writePointer :: bool

datatype start_result = StartFailed | AlreadyRunning | Serving daemon

text \<open>A process that ends takes its listeners with it, so a refused start leaves only what it wrote.\<close>

definition RunDaemon_start :: "string \<Rightarrow> start_io \<Rightarrow> string \<Rightarrow> broker_home \<Rightarrow> start_result \<times> broker_home" where
  "RunDaemon_start sockDir io port h =
     (let sock = socket_path sockDir in
      if \<not> so_setup io then (StartFailed, h)
      else if \<not> so_writePort io then (StartFailed, h)
      else
        let h1 = h\<lparr>bh_port := Some port\<rparr> in
        if dialExistingDaemon sock h1 then (AlreadyRunning, h1)
        else
          let h2 = (if so_removeSocket io then h1\<lparr>bh_sockfile := (bh_sockfile h1)(sock := None)\<rparr> else h1);
              unixOK = (so_listenUnix io \<and> bh_sockfile h2 sock = None);
              h3 = (if unixOK then h2\<lparr>bh_sockfile := (bh_sockfile h2)(sock := Some True),
                                      bh_pointer := (if so_writePointer io then Some sock else bh_pointer h2)\<rparr>
                    else h2);
              d = \<lparr>dm_port = port, dm_unix = unixOK\<rparr>
          in (Serving d, h3\<lparr>bh_ports := insert port (bh_ports h3), bh_daemons := d # bh_daemons h3\<rparr>))"

text \<open>A graceful stop removes the files, whoever wrote them last.\<close>

definition RunDaemon_stop :: "string \<Rightarrow> daemon \<Rightarrow> broker_home \<Rightarrow> broker_home" where
  "RunDaemon_stop sockDir d h =
     (let h1 = h\<lparr>bh_ports := bh_ports h - {dm_port d}, bh_daemons := remove1 d (bh_daemons h), bh_port := None\<rparr>
      in if dm_unix d then h1\<lparr>bh_sockfile := (bh_sockfile h1)(socket_path sockDir := None), bh_pointer := None\<rparr> else h1)"

text \<open>A daemon that is killed.\<close>

definition daemon_killed :: "string \<Rightarrow> daemon \<Rightarrow> broker_home \<Rightarrow> broker_home" where
  "daemon_killed sockDir d h =
     (let h1 = h\<lparr>bh_ports := bh_ports h - {dm_port d}, bh_daemons := remove1 d (bh_daemons h)\<rparr>
      in if dm_unix d then h1\<lparr>bh_sockfile := (bh_sockfile h1)(socket_path sockDir := Some False)\<rparr> else h1)"

subsection \<open>What containment means\<close>

lemma segs_no_slash: "list_all clean_seg segs \<Longrightarrow> path_segs (path_of segs) = segs"
proof (cases "segs = []")
  case False
  assume clean: "list_all clean_seg segs"
  then have "filter (\<lambda>s. s \<noteq> []) segs = segs" by (intro filter_True) (auto simp: list_all_iff clean_seg_def)
  then show ?thesis by (simp add: path_segs_def Split_path_of [OF clean False])
qed (simp add: path_segs_def path_of_def)

lemma rel_segs_prefix: "prefix bls ts \<Longrightarrow> rel_segs bls ts = drop (length bls) ts"
  by (induction bls ts rule: rel_segs.induct) auto

lemma rel_segs_up: "\<not> prefix bls ts \<Longrightarrow> \<exists>r. rel_segs bls ts = ''..'' # r"
  by (induction bls ts rule: rel_segs.induct) auto

lemma Join_first: "Join (a # r) ''/'' = a \<or> (\<exists>t. Join (a # r) ''/'' = a @ CHR ''/'' # t)"
  by (cases r) auto

lemma Join_up: "Join (''..'' # r) ''/'' = ''..'' \<or> HasPrefix (Join (''..'' # r) ''/'') ''../''"
  using Join_first [of "''..''" r] by (auto simp: HasPrefix_def)

lemma Join_not_up:
  assumes "clean_seg a"
  shows "Join (a # r) ''/'' \<noteq> ''..'' \<and> \<not> HasPrefix (Join (a # r) ''/'') ''../''"
proof -
  have a: "a \<noteq> ''..''" "CHR ''/'' \<notin> set a" using assms by (auto simp: clean_seg_def)
  have "\<not> HasPrefix a ''../''" using a(2) by (auto simp: HasPrefix_iff)
  moreover have "\<not> HasPrefix (a @ CHR ''/'' # t) ''../''" for t
  proof
    assume "HasPrefix (a @ CHR ''/'' # t) ''../''"
    then obtain u where "a @ CHR ''/'' # t = ''..'' @ CHR ''/'' # u" by (auto simp: HasPrefix_iff)
    then show False using seg_cancel [of a "''..''" t u] a by simp
  qed
  moreover have "a @ CHR ''/'' # t \<noteq> ''..''" for t
  proof
    assume "a @ CHR ''/'' # t = ''..''"
    then have "CHR ''/'' \<in> set ''..''" by (metis in_set_conv_decomp)
    then show False by simp
  qed
  ultimately show ?thesis using Join_first [of a r] a(1) by (elim disjE exE) simp_all
qed

lemma rel_contained:
  assumes "list_all clean_seg bls" "list_all clean_seg ts"
  shows "(let rel = filepath_Rel (path_of bls) (path_of ts) in rel \<noteq> ''..'' \<and> \<not> HasPrefix rel ''../'') \<longleftrightarrow> prefix bls ts"
proof (cases "prefix bls ts")
  case True
  then have r: "rel_segs bls ts = drop (length bls) ts" by (rule rel_segs_prefix)
  show ?thesis
  proof (cases "drop (length bls) ts")
    case Nil
    with True r show ?thesis by (simp add: filepath_Rel_def segs_no_slash assms HasPrefix_def)
  next
    case (Cons a u)
    then have "clean_seg a" using assms(2) by (metis in_set_dropD list.set_intros(1) list_all_iff)
    with True r Cons Join_not_up [of a u] show ?thesis by (simp add: filepath_Rel_def segs_no_slash assms)
  qed
next
  case False
  then obtain r where "rel_segs bls ts = ''..'' # r" using rel_segs_up by blast
  with False Join_up [of r] show ?thesis by (auto simp: filepath_Rel_def segs_no_slash assms Let_def)
qed

lemma filepath_Abs_segments: "wd \<noteq> None \<Longrightarrow> filepath_Abs wd p = Some (path_of (segments wd p))"
  by (auto simp: filepath_Abs_def segments_def)

lemma socketUnderRoot_segments:
  assumes "wd \<noteq> None"
  shows "socketUnderRoot wd p dir \<longleftrightarrow> prefix (segments wd dir) (segments wd p)"
  using rel_contained [OF segments_clean segments_clean, of wd dir wd p]
  by (simp add: socketUnderRoot_def filepath_Abs_segments [OF assms])

text \<open>
  The two path guards agree. The guard of the socket pointer, which compares relative paths, and
  the guard of \<^verbatim>\<open>safepath\<close>, which compares prefixes, accept the same paths under the same root.
\<close>

theorem socketUnderRoot_is_UnderRoot:
  assumes "wd \<noteq> None" and "p \<noteq> []" and "root \<noteq> []"
  shows "socketUnderRoot wd p root \<longleftrightarrow> UnderRoot wd p root = None"
  using socketUnderRoot_segments [OF assms(1), of p root] under_root_segments [OF assms(1), of p root] assms(2,3) by simp

theorem socketUnderRoot_is_UnderRoot_witness:
  "(socketUnderRoot (Some ''/w'') ''/h/.rallish/a/../rallish.sock'' ''/h/.rallish'' \<longleftrightarrow>
    UnderRoot (Some ''/w'') ''/h/.rallish/a/../rallish.sock'' ''/h/.rallish'' = None) \<and>
   socketUnderRoot (Some ''/w'') ''/h/.rallish/a/../rallish.sock'' ''/h/.rallish''"
  using socketUnderRoot_is_UnderRoot [of "Some ''/w''" "''/h/.rallish/a/../rallish.sock''" "''/h/.rallish''"]
  by simp code_simp

subsection \<open>Homes\<close>

definition new_home :: broker_home where
  "new_home = \<lparr>bh_pointer = None, bh_port = None, bh_sockfile = (\<lambda>p. None), bh_ports = {}, bh_daemons = []\<rparr>"

text \<open>\<open>may_end\<close> says which daemons the run lets end. The system hands out ports nobody listens on.\<close>

inductive home_step :: "string option \<Rightarrow> string \<Rightarrow> (daemon \<Rightarrow> bool) \<Rightarrow> broker_home \<Rightarrow> broker_home \<Rightarrow> bool"
  for wd sockDir may_end where
  Starts: "RunDaemon_start sockDir io port h = (r, h') \<Longrightarrow> port \<notin> bh_ports h \<Longrightarrow> port \<noteq> [] \<Longrightarrow> TrimSpace port = port \<Longrightarrow>
    home_step wd sockDir may_end h h'"
| Stops: "d \<in> set (bh_daemons h) \<Longrightarrow> may_end d \<Longrightarrow> home_step wd sockDir may_end h (RunDaemon_stop sockDir d h)"
| Killed: "d \<in> set (bh_daemons h) \<Longrightarrow> may_end d \<Longrightarrow> home_step wd sockDir may_end h (daemon_killed sockDir d h)"
| Lookup: "resolveBrokerClient wd sockDir h = (r, h') \<Longrightarrow> home_step wd sockDir may_end h h'"
| SquashLookup: "squash_broker wd sockDir spawned [] h = (r, h') \<Longrightarrow> home_step wd sockDir may_end h h'"

inductive_cases home_stepE: "home_step wd sockDir may_end h h'"

definition home_ok :: "string \<Rightarrow> broker_home \<Rightarrow> bool" where
  "home_ok sockDir h \<longleftrightarrow>
     (bh_pointer h = None \<or> bh_pointer h = Some (socket_path sockDir)) \<and>
     distinct (map dm_port (bh_daemons h)) \<and> bh_ports h = dm_port ` set (bh_daemons h) \<and>
     (\<forall>p. bh_sockfile h p = Some True \<longleftrightarrow> p = socket_path sockDir \<and> (\<exists>d \<in> set (bh_daemons h). dm_unix d)) \<and>
     (\<forall>d \<in> set (bh_daemons h). \<forall>e \<in> set (bh_daemons h). dm_unix d \<and> dm_unix e \<longrightarrow> d = e)"

lemma home_ok_init: "home_ok sockDir new_home"
  by (simp add: home_ok_def new_home_def)

lemma lookup_cases:
  assumes "resolveBrokerClient wd sockDir h = (r, h')"
  obtains "h' = h" | "h' = h\<lparr>bh_pointer := None\<rparr>" | "h' = h\<lparr>bh_port := None\<rparr>" | "h' = h\<lparr>bh_pointer := None, bh_port := None\<rparr>"
  using assms by (auto simp: resolveBrokerClient_def Let_def split: if_splits option.splits)

lemma squash_cases:
  assumes "squash_broker wd sockDir spawned [] h = (r, h')"
  obtains "h' = h" | "h' = h\<lparr>bh_pointer := None\<rparr>" | "h' = h\<lparr>bh_port := None\<rparr>" | "h' = h\<lparr>bh_pointer := None, bh_port := None\<rparr>"
  using assms by (auto simp: squash_broker_def Let_def split: if_splits option.splits)

lemma home_ok_files: "home_ok sockDir h \<Longrightarrow> home_ok sockDir (h\<lparr>bh_pointer := None\<rparr>)"
  "home_ok sockDir h \<Longrightarrow> home_ok sockDir (h\<lparr>bh_port := p\<rparr>)"
  by (simp_all add: home_ok_def)

lemma home_ok_lookup:
  assumes "home_ok sockDir h"
    and "h' = h \<or> h' = h\<lparr>bh_pointer := None\<rparr> \<or> h' = h\<lparr>bh_port := None\<rparr> \<or> h' = h\<lparr>bh_pointer := None, bh_port := None\<rparr>"
  shows "home_ok sockDir h'"
  using assms home_ok_files by auto

lemma home_ok_start:
  assumes "home_ok sockDir h" "RunDaemon_start sockDir io port h = (r, h')" "port \<notin> bh_ports h"
  shows "home_ok sockDir h'"
  using assms
  by (auto simp: home_ok_def RunDaemon_start_def dialExistingDaemon_def Let_def split: if_splits)

lemma remaining_ports:
  assumes "distinct (map dm_port ds)" "d \<in> set ds"
  shows "dm_port ` set (remove1 d ds) = dm_port ` set ds - {dm_port d}" and "distinct (map dm_port (remove1 d ds))"
    and "set (remove1 d ds) = set ds - {d}"
proof -
  have ds: "distinct ds" using assms(1) by (simp add: distinct_map)
  then show s: "set (remove1 d ds) = set ds - {d}" by simp
  show "distinct (map dm_port (remove1 d ds))"
    using assms(1) ds by (auto simp: distinct_map inj_on_def)
  have "inj_on dm_port (set ds)" using assms(1) by (simp add: distinct_map)
  then show "dm_port ` set (remove1 d ds) = dm_port ` set ds - {dm_port d}"
    using assms(2) by (auto simp: s inj_on_def)
qed

lemma home_ok_ends:
  assumes "home_ok sockDir h" "d \<in> set (bh_daemons h)"
  shows "home_ok sockDir (RunDaemon_stop sockDir d h)" and "home_ok sockDir (daemon_killed sockDir d h)"
proof -
  have ok: "distinct (map dm_port (bh_daemons h))" using assms(1) by (simp add: home_ok_def)
  note rest = remaining_ports [OF ok assms(2)]
  show "home_ok sockDir (RunDaemon_stop sockDir d h)"
    using assms rest by (auto simp: home_ok_def RunDaemon_stop_def Let_def)
  show "home_ok sockDir (daemon_killed sockDir d h)"
    using assms rest by (auto simp: home_ok_def daemon_killed_def Let_def)
qed

lemma home_step_ok: "home_ok sockDir h \<Longrightarrow> home_step wd sockDir may_end h h' \<Longrightarrow> home_ok sockDir h'"
  by (erule home_stepE)
     (auto intro: home_ok_start home_ok_ends home_ok_files elim!: lookup_cases squash_cases)

interpretation homes: transition_system "\<lambda>h. h = new_home" "home_step wd sockDir may_end" "home_ok sockDir"
  for wd sockDir may_end
  by unfold_locales (auto simp: home_ok_init intro: home_step_ok)

subsection \<open>What a lookup promises\<close>

text \<open>An endpoint that answers, and that the guard of the pointer allows.\<close>

fun answers :: "string option \<Rightarrow> string \<Rightarrow> broker_home \<Rightarrow> endpoint \<Rightarrow> bool" where
  "answers wd sockDir h (OverSocket p) \<longleftrightarrow> dialExistingDaemon p h \<and> socketUnderRoot wd p sockDir"
| "answers wd sockDir h (OverPort port) \<longleftrightarrow> dialPort port h"

lemma dial_files [simp]:
  "dialExistingDaemon p (h\<lparr>bh_pointer := a\<rparr>) = dialExistingDaemon p h" "dialExistingDaemon p (h\<lparr>bh_port := b\<rparr>) = dialExistingDaemon p h"
  "dialPort q (h\<lparr>bh_pointer := a\<rparr>) = dialPort q h" "dialPort q (h\<lparr>bh_port := b\<rparr>) = dialPort q h"
  "readPortFile (h\<lparr>bh_pointer := a\<rparr>) = readPortFile h" "readPortFile (h\<lparr>bh_port := b\<rparr>) = map_option TrimSpace b"
  by (simp_all add: dialExistingDaemon_def dialPort_def readPortFile_def)

lemma resolve_answers: "resolveBrokerClient wd sockDir h = (Inr e, h') \<Longrightarrow> answers wd sockDir h' e"
  by (auto simp: resolveBrokerClient_def Let_def split: if_splits option.splits)

lemma poll_answers: "poll_broker wd sockDir between h = (Inr e, h') \<Longrightarrow> answers wd sockDir h' e"
  by (induction wd sockDir between h rule: poll_broker.induct) (auto intro: resolve_answers split: prod.splits sum.splits if_splits)

text \<open>
  (C37) A client is never sent to a dead address. Whatever happens to the home between the polls of a
  spawn, the endpoint \<^verbatim>\<open>ensureBrokerClient\<close> hands out answers at that moment, and a socket lies
  under the home.
\<close>

theorem ensured_endpoint_answers:
  assumes "ensureBrokerClient wd sockDir spawned between h = (Inr e, h')"
  shows "answers wd sockDir h' e"
  using assms resolve_answers poll_answers
  by (auto simp: ensureBrokerClient_def split: prod.splits sum.splits if_splits)

definition full_start :: start_io where
  "full_start = \<lparr>so_setup = True, so_writePort = True, so_removeSocket = True, so_listenUnix = True, so_writePointer = True\<rparr>"

lemma full_start_serves:
  assumes "bh_sockfile h (socket_path sockDir) \<noteq> Some True"
  shows "RunDaemon_start sockDir full_start port h =
    (Serving \<lparr>dm_port = port, dm_unix = True\<rparr>,
     h\<lparr>bh_port := Some port, bh_sockfile := (bh_sockfile h)(socket_path sockDir := Some True),
       bh_pointer := Some (socket_path sockDir), bh_ports := insert port (bh_ports h),
       bh_daemons := \<lparr>dm_port = port, dm_unix = True\<rparr> # bh_daemons h\<rparr>)"
  using assms by (simp add: RunDaemon_start_def full_start_def dialExistingDaemon_def Let_def)

lemma resolve_live:
  assumes "bh_pointer h = Some p" "TrimSpace p = p" "p \<noteq> []" "socketUnderRoot wd p sockDir" "bh_sockfile h p = Some True"
  shows "resolveBrokerClient wd sockDir h = (Inr (OverSocket p), h)"
  using assms by (simp add: resolveBrokerClient_def dialExistingDaemon_def)

lemma resolve_stale:
  assumes "bh_pointer h = None \<or> bh_pointer h = Some p" "TrimSpace p = p" "p \<noteq> []" "socketUnderRoot wd p sockDir"
    and "bh_sockfile h p \<noteq> Some True" "bh_ports h = {}"
  shows "resolveBrokerClient wd sockDir h = (Inl NoBroker, h\<lparr>bh_pointer := None, bh_port := None\<rparr>)"
proof (cases "bh_port h")
  case None
  with assms show ?thesis
    by (elim disjE) (simp_all add: resolveBrokerClient_def dialExistingDaemon_def readPortFile_def)
next
  case (Some q)
  with assms show ?thesis
    by (elim disjE) (simp_all add: resolveBrokerClient_def dialExistingDaemon_def dialPort_def readPortFile_def)
qed

text \<open>A home whose daemon was killed; a client finds both files stale and starts another.\<close>

definition killed_home :: broker_home where
  "killed_home = new_home\<lparr>bh_pointer := Some ''/h/.rallish/rallish.sock'', bh_port := Some ''4242'',
     bh_sockfile := (\<lambda>p. if p = ''/h/.rallish/rallish.sock'' then Some False else None)\<rparr>"

lemma home_socket:
  "TrimSpace ''/h/.rallish/rallish.sock'' = ''/h/.rallish/rallish.sock''"
  "socketUnderRoot (Some ''/w'') ''/h/.rallish/rallish.sock'' ''/h/.rallish''"
  "socket_path ''/h/.rallish'' = ''/h/.rallish/rallish.sock''"
  by code_simp+

lemma killed_home_start:
  defines "h' \<equiv> snd (RunDaemon_start ''/h/.rallish'' full_start ''5151'' (killed_home\<lparr>bh_pointer := None, bh_port := None\<rparr>))"
  shows "ensureBrokerClient (Some ''/w'') ''/h/.rallish'' True [\<lambda>h. snd (RunDaemon_start ''/h/.rallish'' full_start ''5151'' h)] killed_home =
    (Inr (OverSocket ''/h/.rallish/rallish.sock''), h')"
proof -
  have "bh_sockfile (killed_home\<lparr>bh_pointer := None, bh_port := None\<rparr>) (socket_path ''/h/.rallish'') \<noteq> Some True"
    by (simp add: killed_home_def home_socket)
  note started = full_start_serves [OF this, of "''5151''"]
  have "resolveBrokerClient (Some ''/w'') ''/h/.rallish'' h' = (Inr (OverSocket ''/h/.rallish/rallish.sock''), h')"
    by (rule resolve_live) (simp_all add: h'_def started home_socket)
  moreover have "resolveBrokerClient (Some ''/w'') ''/h/.rallish'' killed_home =
      (Inl NoBroker, killed_home\<lparr>bh_pointer := None, bh_port := None\<rparr>)"
    by (rule resolve_stale [OF _ home_socket(1) _ home_socket(2)]) (simp_all add: killed_home_def new_home_def)
  ultimately show ?thesis by (simp add: ensureBrokerClient_def flip: h'_def)
qed

theorem ensured_endpoint_answers_witness:
  "answers (Some ''/w'') ''/h/.rallish''
     (snd (RunDaemon_start ''/h/.rallish'' full_start ''5151'' (killed_home\<lparr>bh_pointer := None, bh_port := None\<rparr>)))
     (OverSocket ''/h/.rallish/rallish.sock'')"
  by (rule ensured_endpoint_answers [OF killed_home_start])

subsection \<open>A daemon with a socket stays found\<close>

definition found :: "string \<Rightarrow> broker_home \<Rightarrow> bool" where
  "found sockDir h \<longleftrightarrow> bh_pointer h = Some (socket_path sockDir) \<and> (\<exists>d \<in> set (bh_daemons h). dm_unix d)"

lemma found_answers: "home_ok sockDir h \<Longrightarrow> found sockDir h \<Longrightarrow> dialExistingDaemon (socket_path sockDir) h"
  by (auto simp: home_ok_def found_def dialExistingDaemon_def)

lemma found_lookup:
  assumes "home_ok sockDir h" "found sockDir h" "TrimSpace (socket_path sockDir) = socket_path sockDir"
    and "socketUnderRoot wd (socket_path sockDir) sockDir"
  shows "resolveBrokerClient wd sockDir h = (Inr (OverSocket (socket_path sockDir)), h)"
    and "squash_broker wd sockDir spawned between h = (Inr (OverSocket (socket_path sockDir)), h)"
  using found_answers [OF assms(1,2)] assms(2-4)
  by (auto simp: resolveBrokerClient_def squash_broker_def found_def socket_path_def)

lemma found_step:
  assumes "TrimSpace (socket_path sockDir) = socket_path sockDir" "socketUnderRoot wd (socket_path sockDir) sockDir"
    and ok: "home_ok sockDir h" and step: "home_step wd sockDir (\<lambda>d. \<not> dm_unix d) h h'" and f: "found sockDir h"
  shows "found sockDir h'"
  using step
proof cases
  case (Starts io port r)
  then show ?thesis using f found_answers [OF ok f]
    by (auto simp: RunDaemon_start_def found_def dialExistingDaemon_def Let_def split: if_splits)
next
  case (Stops d)
  moreover obtain e where "e \<in> set (bh_daemons h)" "dm_unix e" "bh_pointer h = Some (socket_path sockDir)"
    using f by (auto simp: found_def)
  moreover from this Stops have "e \<in> set (remove1 d (bh_daemons h))" by (intro in_set_remove1 [THEN iffD2]) auto
  ultimately show ?thesis by (auto simp: RunDaemon_stop_def found_def Let_def)
next
  case (Killed d)
  moreover obtain e where "e \<in> set (bh_daemons h)" "dm_unix e" "bh_pointer h = Some (socket_path sockDir)"
    using f by (auto simp: found_def)
  moreover from this Killed have "e \<in> set (remove1 d (bh_daemons h))" by (intro in_set_remove1 [THEN iffD2]) auto
  ultimately show ?thesis by (auto simp: daemon_killed_def found_def Let_def)
next
  case (Lookup r)
  then show ?thesis using found_lookup(1) [OF ok f assms(1,2)] f by simp
next
  case (SquashLookup spawned r)
  then show ?thesis using found_lookup(2) [OF ok f assms(1,2), of spawned "[]"] f by simp
qed

text \<open>
  A daemon that serves its socket stays found. Once the pointer names the socket of a running
  daemon, then through any run of lookups, further starts (each refused), and ends of other
  daemons, every lookup goes to that socket and no file it needs is removed.
\<close>

theorem daemon_stays_found:
  assumes "(home_step wd sockDir any_end)\<^sup>*\<^sup>* new_home h" and "bh_pointer h = Some (socket_path sockDir)"
    and "d \<in> set (bh_daemons h)" and "dm_unix d"
    and "TrimSpace (socket_path sockDir) = socket_path sockDir" and "socketUnderRoot wd (socket_path sockDir) sockDir"
    and "(home_step wd sockDir (\<lambda>d. \<not> dm_unix d))\<^sup>*\<^sup>* h h'"
  shows "resolveBrokerClient wd sockDir h' = (Inr (OverSocket (socket_path sockDir)), h')"
proof -
  have ok: "home_ok sockDir h" by (rule homes.reachable_inv [OF refl assms(1)])
  have "found sockDir h'"
    by (rule homes.stable [OF found_step [OF assms(5,6)] assms(7) ok]) (use assms(2-4) in \<open>auto simp: found_def\<close>)
  moreover have "home_ok sockDir h'" by (rule homes.steps_inv [OF assms(7) ok])
  ultimately show ?thesis using found_lookup(1) assms(5,6) by blast
qed

lemma new_home_serving:
  "snd (RunDaemon_start ''/h/.rallish'' full_start ''4242'' new_home) =
   \<lparr>bh_pointer = Some ''/h/.rallish/rallish.sock'', bh_port = Some ''4242'',
    bh_sockfile = (\<lambda>p. None)(''/h/.rallish/rallish.sock'' := Some True), bh_ports = {''4242''},
    bh_daemons = [\<lparr>dm_port = ''4242'', dm_unix = True\<rparr>]\<rparr>"
  using full_start_serves [of new_home "''/h/.rallish''" "''4242''"] by (simp add: new_home_def home_socket)

lemma started_twice:
  fixes d
  defines "h1 \<equiv> snd (RunDaemon_start ''/h/.rallish'' full_start ''4242'' new_home)"
  shows "(home_step wd ''/h/.rallish'' any_end)\<^sup>*\<^sup>* new_home h1"
    and "(home_step wd ''/h/.rallish'' some_end)\<^sup>*\<^sup>* h1 (snd (RunDaemon_start ''/h/.rallish'' full_start ''5151'' h1))"
proof -
  have trim: "TrimSpace ''4242'' = ''4242''" "TrimSpace ''5151'' = ''5151''" by code_simp+
  have "home_step wd ''/h/.rallish'' any_end new_home h1" unfolding h1_def
    by (rule Starts [of _ full_start "''4242''", OF prod.collapse [symmetric]]) (simp_all add: new_home_def trim)
  then show "(home_step wd ''/h/.rallish'' any_end)\<^sup>*\<^sup>* new_home h1" by (rule r_into_rtranclp)
  have "home_step wd ''/h/.rallish'' some_end h1 (snd (RunDaemon_start ''/h/.rallish'' full_start ''5151'' h1))"
    by (rule Starts [of _ full_start "''5151''", OF prod.collapse [symmetric]]) (simp_all add: h1_def new_home_serving trim)
  then show "(home_step wd ''/h/.rallish'' some_end)\<^sup>*\<^sup>* h1 (snd (RunDaemon_start ''/h/.rallish'' full_start ''5151'' h1))"
    by (rule r_into_rtranclp)
qed

theorem daemon_stays_found_witness:
  "resolveBrokerClient (Some ''/w'') ''/h/.rallish''
     (snd (RunDaemon_start ''/h/.rallish'' full_start ''5151'' (snd (RunDaemon_start ''/h/.rallish'' full_start ''4242'' new_home)))) =
   (Inr (OverSocket ''/h/.rallish/rallish.sock''),
    snd (RunDaemon_start ''/h/.rallish'' full_start ''5151'' (snd (RunDaemon_start ''/h/.rallish'' full_start ''4242'' new_home))))"
  using daemon_stays_found [OF started_twice(1), of "\<lparr>dm_port = ''4242'', dm_unix = True\<rparr>", OF _ _ _ _ _ started_twice(2)]
  by (simp add: home_socket new_home_serving)

subsection \<open>A killed daemon's files clear themselves\<close>

text \<open>
  Stale files do not outlive a lookup. In any home the commands can reach whose daemons have all
  ended, however they ended, one lookup reports that no broker runs and leaves neither file behind,
  and the next daemon that starts in full is the one every later lookup finds.
\<close>

theorem stale_home_recovers:
  assumes "(home_step wd sockDir any_end)\<^sup>*\<^sup>* new_home h" and "bh_daemons h = []"
    and "TrimSpace (socket_path sockDir) = socket_path sockDir" and "socketUnderRoot wd (socket_path sockDir) sockDir"
  shows "resolveBrokerClient wd sockDir h = (Inl NoBroker, h\<lparr>bh_pointer := None, bh_port := None\<rparr>) \<and>
    (let h' = snd (RunDaemon_start sockDir full_start port (h\<lparr>bh_pointer := None, bh_port := None\<rparr>))
     in resolveBrokerClient wd sockDir h' = (Inr (OverSocket (socket_path sockDir)), h'))"
proof -
  have ok: "home_ok sockDir h" by (rule homes.reachable_inv [OF refl assms(1)])
  have dead: "bh_sockfile h (socket_path sockDir) \<noteq> Some True" using ok assms(2) by (simp add: home_ok_def)
  have ne: "socket_path sockDir \<noteq> []" by (simp add: socket_path_def)
  have "resolveBrokerClient wd sockDir h = (Inl NoBroker, h\<lparr>bh_pointer := None, bh_port := None\<rparr>)"
    by (rule resolve_stale [OF _ assms(3) ne assms(4) dead]) (use ok assms(2) in \<open>simp_all add: home_ok_def\<close>)
  moreover have "bh_sockfile (h\<lparr>bh_pointer := None, bh_port := None\<rparr>) (socket_path sockDir) \<noteq> Some True" using dead by simp
  note full_start_serves [OF this, of port]
  ultimately show ?thesis using resolve_live [OF _ assms(3) ne assms(4)] by (simp add: Let_def)
qed

theorem stale_home_recovers_witness:
  "resolveBrokerClient (Some ''/w'') ''/h/.rallish''
     (daemon_killed ''/h/.rallish'' \<lparr>dm_port = ''4242'', dm_unix = True\<rparr> (snd (RunDaemon_start ''/h/.rallish'' full_start ''4242'' new_home))) =
   (Inl NoBroker, new_home\<lparr>bh_sockfile := (\<lambda>p. None)(''/h/.rallish/rallish.sock'' := Some False)\<rparr>)"
proof -
  let ?d = "\<lparr>dm_port = ''4242'', dm_unix = True\<rparr>" and ?h = "snd (RunDaemon_start ''/h/.rallish'' full_start ''4242'' new_home)"
  have "home_step (Some ''/w'') ''/h/.rallish'' (\<lambda>d. True) ?h (daemon_killed ''/h/.rallish'' ?d ?h)"
    by (rule Killed) (simp_all add: new_home_serving)
  then have "(home_step (Some ''/w'') ''/h/.rallish'' (\<lambda>d. True))\<^sup>*\<^sup>* new_home (daemon_killed ''/h/.rallish'' ?d ?h)"
    by (rule rtranclp.rtrancl_into_rtrancl [OF started_twice(1)])
  from stale_home_recovers [OF this, of "''4242''"] show ?thesis
    by (simp add: home_socket new_home_serving daemon_killed_def Let_def) (simp add: new_home_def)
qed

subsection \<open>A refused start hides the daemon\<close>

lemma refused_start:
  assumes "dialExistingDaemon (socket_path sockDir) h" "so_setup io" "so_writePort io"
  shows "RunDaemon_start sockDir io port h = (AlreadyRunning, h\<lparr>bh_port := Some port\<rparr>)"
  using assms by (simp add: RunDaemon_start_def Let_def)

lemma dead_port_lookup:
  assumes "bh_pointer h = None" "port \<notin> bh_ports h" "TrimSpace port = port"
  shows "resolveBrokerClient wd sockDir (h\<lparr>bh_port := Some port\<rparr>) = (Inl NoBroker, h\<lparr>bh_port := None\<rparr>)"
  using assms by (simp add: resolveBrokerClient_def readPortFile_def dialPort_def)

lemma refused_polls:
  assumes "dialExistingDaemon (socket_path sockDir) h" "so_setup io" "so_writePort io"
    and "bh_pointer h = None" "port \<notin> bh_ports h" "TrimSpace port = port"
  shows "fst (poll_broker wd sockDir (replicate n (\<lambda>h. snd (RunDaemon_start sockDir io port h))) h) = Inl Unreachable"
proof -
  have "fst (poll_broker wd sockDir (replicate n (\<lambda>h. snd (RunDaemon_start sockDir io port h))) (h\<lparr>bh_port := p\<rparr>)) = Inl Unreachable" for p
  proof (induction n arbitrary: p)
    case (Suc n)
    have "RunDaemon_start sockDir io port (h\<lparr>bh_port := p\<rparr>) = (AlreadyRunning, h\<lparr>bh_port := Some port\<rparr>)"
      using refused_start [of sockDir "h\<lparr>bh_port := p\<rparr>" io port] assms(1-3) by simp
    then show ?case using dead_port_lookup [OF assms(4-6)] Suc by simp
  qed simp
  from this [of "bh_port h"] show ?thesis by simp
qed

text \<open>
  A refused second start hides the daemon that runs. The port file is written before the
  single-instance check: when the socket pointer is missing, the running daemon was found over its
  port; after a refused start the file names a port nobody serves, lookups report that no broker
  runs, spawning again only repeats the refusal, and \<^verbatim>\<open>squash\<close>, which does not dial, hands out
  the dead port.
\<close>

theorem refused_start_hides_daemon:
  assumes "dialExistingDaemon (socket_path sockDir) h" and "bh_pointer h = None"
    and "bh_port h = Some live" and "TrimSpace live = live" and "dialPort live h"
    and "so_setup io" and "so_writePort io" and "port \<notin> bh_ports h" and "TrimSpace port = port"
  defines "start \<equiv> \<lambda>h. snd (RunDaemon_start sockDir io port h)"
  shows "resolveBrokerClient wd sockDir h = (Inr (OverPort live), h) \<and>
    RunDaemon_start sockDir io port h = (AlreadyRunning, h\<lparr>bh_port := Some port\<rparr>) \<and>
    resolveBrokerClient wd sockDir (start h) = (Inl NoBroker, h\<lparr>bh_port := None\<rparr>) \<and>
    fst (ensureBrokerClient wd sockDir True (replicate n start) (start h)) = Inl Unreachable \<and>
    squash_broker wd sockDir True [start] (h\<lparr>bh_port := None\<rparr>) = (Inr (OverPort port), start h)"
proof -
  have s: "RunDaemon_start sockDir io port (h\<lparr>bh_port := p\<rparr>) = (AlreadyRunning, h\<lparr>bh_port := Some port\<rparr>)" for p
    using refused_start [of sockDir "h\<lparr>bh_port := p\<rparr>" io port] assms(1,6,7) by simp
  have start: "start h = h\<lparr>bh_port := Some port\<rparr>" using s [of "bh_port h"] by (simp add: start_def)
  have live: "resolveBrokerClient wd sockDir h = (Inr (OverPort live), h)"
    using assms(2-5) by (simp add: resolveBrokerClient_def readPortFile_def)
  have lost: "resolveBrokerClient wd sockDir (start h) = (Inl NoBroker, h\<lparr>bh_port := None\<rparr>)"
    unfolding start using assms by (intro dead_port_lookup)
  have "fst (poll_broker wd sockDir (take 20 (replicate n start)) (h\<lparr>bh_port := None\<rparr>)) = Inl Unreachable"
    unfolding take_replicate start_def by (rule refused_polls) (use assms in simp_all)
  then have "fst (ensureBrokerClient wd sockDir True (replicate n start) (start h)) = Inl Unreachable"
    by (simp add: ensureBrokerClient_def lost)
  moreover have "squash_broker wd sockDir True [start] (h\<lparr>bh_port := None\<rparr>) = (Inr (OverPort port), start h)"
    using assms(2,9) s [of None] start by (simp add: squash_broker_def readPortFile_def start_def Let_def)
  ultimately show ?thesis using live lost s [of "bh_port h"] by simp
qed

definition no_pointer :: start_io where
  "no_pointer = full_start\<lparr>so_writePointer := False\<rparr>"

definition unnamed_home :: broker_home where
  "unnamed_home = snd (RunDaemon_start ''/h/.rallish'' no_pointer ''4242'' new_home)"

theorem refused_start_hides_daemon_witness:
  "resolveBrokerClient (Some ''/w'') ''/h/.rallish'' unnamed_home = (Inr (OverPort ''4242''), unnamed_home) \<and>
   resolveBrokerClient (Some ''/w'') ''/h/.rallish'' (snd (RunDaemon_start ''/h/.rallish'' full_start ''5151'' unnamed_home)) =
     (Inl NoBroker, unnamed_home\<lparr>bh_port := None\<rparr>)"
proof -
  have h: "unnamed_home = \<lparr>bh_pointer = None, bh_port = Some ''4242'',
      bh_sockfile = (\<lambda>p. None)(''/h/.rallish/rallish.sock'' := Some True), bh_ports = {''4242''},
      bh_daemons = [\<lparr>dm_port = ''4242'', dm_unix = True\<rparr>]\<rparr>"
    by (simp add: unnamed_home_def no_pointer_def full_start_def RunDaemon_start_def dialExistingDaemon_def new_home_def home_socket Let_def)
  have trim: "TrimSpace ''4242'' = ''4242''" "TrimSpace ''5151'' = ''5151''" by code_simp+
  have "dialExistingDaemon (socket_path ''/h/.rallish'') unnamed_home" "bh_pointer unnamed_home = None"
    "bh_port unnamed_home = Some ''4242''" "dialPort ''4242'' unnamed_home" "''5151'' \<notin> bh_ports unnamed_home"
    by (simp_all add: h home_socket dialExistingDaemon_def dialPort_def)
  moreover have "so_setup full_start" "so_writePort full_start" by (simp_all add: full_start_def)
  ultimately show ?thesis
    using refused_start_hides_daemon [of "''/h/.rallish''" unnamed_home "''4242''" full_start "''5151''" "Some ''/w''"] trim by blast
qed

end
