(* ===== verification/RallyClient.thy ===== *)
theory RallyClient
  imports Rally BrokerHome ScanLines "HOL-Library.Signed_Division"
begin

section \<open>The rally commands (internal/cli/rally.go)\<close>

text \<open>
  The commands \<^verbatim>\<open>rally new\<close>, \<^verbatim>\<open>join\<close>, \<^verbatim>\<open>done\<close> and \<^verbatim>\<open>status\<close>: what they check, what they ask the broker
  over the connection the lookup of \<open>BrokerHome\<close> gives them, what they print and how they end. A
  run is the lines printed and the error, if any. An exchange with the broker is a value; the
  stream of a join is the bytes that arrive. The theory connects the commands with the broker of
  \<open>Rally\<close>: the bytes it writes to a stream, and the replies it makes.
\<close>

subsection \<open>What the broker writes to a stream (internal/broker/rally.go)\<close>

definition BatonEvent_json :: "BatonEvent \<Rightarrow> json" where
  "BatonEvent_json e =
     JObj ((''turn_n'', JInt (be_TurnN e)) # omit_str ''from'' (be_From e) @ omit_str ''note'' (be_Note e) @
           omit_bool ''closed'' (be_Closed e))"

definition writeSSEEvent :: "BatonEvent \<Rightarrow> bytes" where
  "writeSSEEvent evt = ''data: '' @ jprint (BatonEvent_json evt) @ [CHR 0x0A, CHR 0x0A]"

definition close_data :: string where
  "close_data = CHR ''{'' # CHR 0x22 # ''closed'' @ CHR 0x22 # '':true}''"

definition writeCloseSentinel :: bytes where
  "writeCloseSentinel = ''data: '' @ close_data @ [CHR 0x0A, CHR 0x0A]"

definition write_ping :: bytes where
  "write_ping = '': ping'' @ [CHR 0x0A, CHR 0x0A]"

datatype frame = BatonFrame BatonEvent | PingFrame | CloseFrame

fun frame_bytes :: "frame \<Rightarrow> bytes" where
  "frame_bytes (BatonFrame evt) = writeSSEEvent evt"
| "frame_bytes PingFrame = write_ping"
| "frame_bytes CloseFrame = writeCloseSentinel"

subsection \<open>Runs of a command\<close>

datatype rally_client_error =
    ClientContract contract_error
  | RepoPath path_error
  | RepoStat
  | RepoNotDir
  | ClientBroker resolve_error
  | RequestFailed
  | Refused nat string
  | DecodeResponse
  | ErrTimeoutWaitingForBaton
  | ReadingStream
  | SessionInterruptedReply
  | NotYourTurnReply

type_synonym client_run = "string list \<times> rally_client_error option"

definition fails :: "rally_client_error \<Rightarrow> client_run" where
  "fails e = ([], Some e)"

text \<open>A status, the body as text, and what the body decodes to.\<close>

datatype 'a exchange = SendFails | Reply nat string "'a option"

definition with_client :: "(resolve_error + endpoint) \<times> broker_home \<Rightarrow> (endpoint \<Rightarrow> client_run) \<Rightarrow> client_run \<times> broker_home" where
  "with_client conn act = (case conn of (Inl e, h) \<Rightarrow> (fails (ClientBroker e), h) | (Inr ep, h) \<Rightarrow> (act ep, h))"

subsection \<open>New\<close>

definition splitParticipants :: "string \<Rightarrow> string list" where
  "splitParticipants s = filter (\<lambda>p. p \<noteq> []) (map TrimSpace (Split s (CHR '','')))"

fun client_names :: "string list \<Rightarrow> contract_error + string list" where
  "client_names [] = Inr []"
| "client_names (raw # raws) =
     (case NewParticipantName raw of
        Inl e \<Rightarrow> Inl e
      | Inr pn \<Rightarrow> (case client_names raws of Inl e \<Rightarrow> Inl e | Inr ns \<Rightarrow> Inr (pn # ns)))"

text \<open>\<open>stat\<close> tells of a path whether it exists, and then whether it is a directory.\<close>

definition client_repo :: "string option \<Rightarrow> (string \<Rightarrow> bool option) \<Rightarrow> string \<Rightarrow> rally_client_error + string" where
  "client_repo wd stat repo =
     (if repo = [] then Inr []
      else case safepath_Clean wd repo of
        Inl e \<Rightarrow> Inl (RepoPath e)
      | Inr cleanedRepo \<Rightarrow>
          (case stat cleanedRepo of
             None \<Rightarrow> Inl RepoStat
           | Some isDir \<Rightarrow> if \<not> isDir then Inl RepoNotDir else Inr cleanedRepo))"

definition new_request ::
  "string option \<Rightarrow> (string \<Rightarrow> bool option) \<Rightarrow> string \<Rightarrow> string \<Rightarrow> string \<Rightarrow> string \<Rightarrow> rally_client_error + NewRallyRequest" where
  "new_request wd stat participants repo task firstHolder =
     (let rawNames = splitParticipants participants in
      if length rawNames < 2 then Inl (ClientContract ErrTooFewParticipants)
      else case client_names rawNames of
        Inl e \<Rightarrow> Inl (ClientContract e)
      | Inr names \<Rightarrow>
          (case client_repo wd stat repo of
             Inl e \<Rightarrow> Inl e
           | Inr repo' \<Rightarrow>
               Inr \<lparr>nr_Participants = names, nr_Repo = repo', nr_Task = task, nr_FirstHolder = firstHolder\<rparr>))"

definition runRallyNew ::
  "string option \<Rightarrow> string \<Rightarrow> bool \<Rightarrow> (broker_home \<Rightarrow> broker_home) list \<Rightarrow> (string \<Rightarrow> bool option) \<Rightarrow>
   (endpoint \<Rightarrow> NewRallyRequest \<Rightarrow> RallySession exchange) \<Rightarrow> string \<Rightarrow> string \<Rightarrow> string \<Rightarrow> string \<Rightarrow> broker_home \<Rightarrow>
   client_run \<times> broker_home" where
  "runRallyNew wd sockDir spawned between stat post participants repo task firstHolder h =
     (case new_request wd stat participants repo task firstHolder of
        Inl e \<Rightarrow> (fails e, h)
      | Inr req \<Rightarrow>
          with_client (ensureBrokerClient wd sockDir spawned between h)
            (\<lambda>ep. case post ep req of
               SendFails \<Rightarrow> fails RequestFailed
             | Reply status text body \<Rightarrow>
                 if status \<noteq> 201 then fails (Refused status (TrimSpace text))
                 else case body of None \<Rightarrow> fails DecodeResponse | Some sess \<Rightarrow> ([ry_ID sess], None)))"

subsection \<open>Join\<close>

text \<open>The racket and the long dash, in UTF-8.\<close>

definition racket :: string where
  "racket = [CHR 0xF0, CHR 0x9F, CHR 0x8E, CHR 0xBE]"

definition dash :: string where
  "dash = [CHR 0xE2, CHR 0x80, CHR 0x94]"

definition turn_lines :: "string \<Rightarrow> string \<Rightarrow> BatonEvent \<Rightarrow> string list" where
  "turn_lines sessionID as evt =
     (let from = (if be_From evt = [] then ''(start)'' else be_From evt);
          note = (if be_Note evt = [] then ''(no note)'' else be_Note evt)
      in [racket @ '' your turn (turn '' @ show_int (be_TurnN evt) @ '', from '' @ from @ ''): '' @ note,
          ''   -> work in your CLI (e.g. claude). When done, in any terminal:'',
          ''   ->   rallish rally done --session-id '' @ sessionID @ '' --as '' @ as @ '' --note '' @
            CHR 0x22 # ''<summary>'' @ [CHR 0x22]])"

text \<open>
  The lines printed and whether the stream is closed. \<open>get_closed\<close> and \<open>get_event\<close> are
  \<^verbatim>\<open>encoding/json\<close> at the two types.
\<close>

definition handleBatonEvent ::
  "(string \<Rightarrow> bool option) \<Rightarrow> (string \<Rightarrow> BatonEvent option) \<Rightarrow> string \<Rightarrow> string \<Rightarrow> string \<Rightarrow> string list \<times> bool" where
  "handleBatonEvent get_closed get_event sessionID as data =
     (if get_closed data = Some True then ([''session closed''], True)
      else case get_event data of
        None \<Rightarrow> ([], False)
      | Some evt \<Rightarrow> (turn_lines sessionID as evt, False))"

text \<open>The loop over the lines: what it printed, and whether it returned from within.\<close>

fun join_loop :: "(string \<Rightarrow> string list \<times> bool) \<Rightarrow> bool \<Rightarrow> string \<Rightarrow> string list \<Rightarrow> string list \<times> bool" where
  "join_loop handle once dataLine [] = ([], False)"
| "join_loop handle once dataLine (line # ls) =
     (if HasPrefix line '': '' then join_loop handle once dataLine ls
      else if HasPrefix line ''data: '' then join_loop handle once (drop 6 line) ls
      else if line = [] \<and> dataLine \<noteq> [] then
        (let (out, closed) = handle dataLine in
         if closed then (out, True)
         else if once then (out, True)
         else apfst ((@) out) (join_loop handle once [] ls))
      else join_loop handle once dataLine ls)"

text \<open>
  \<open>failed\<close>: reading ended in an error; \<open>timedOut\<close>: the timer of \<^verbatim>\<open>--timeout\<close> has fired; \<open>cancelled\<close>:
  a signal has cancelled the context.
\<close>

definition read_stream ::
  "(string \<Rightarrow> string list \<times> bool) \<Rightarrow> bool \<Rightarrow> bool \<Rightarrow> bool \<Rightarrow> bytes \<Rightarrow> bool \<Rightarrow> client_run" where
  "read_stream handle once timedOut cancelled body failed =
     (let (ls, long) = scan_lines body;
          (out, returned) = join_loop handle once [] ls
      in if returned then (out, None)
         else if long \<or> failed then
           (if timedOut then (out, Some ErrTimeoutWaitingForBaton)
            else if cancelled then (out, None)
            else (out, Some ReadingStream))
         else if timedOut then (out, Some ErrTimeoutWaitingForBaton)
         else (out @ [''session closed''], None))"

datatype stream_exchange = StreamSendFails | StreamReply nat bytes bool

definition runRallyJoin ::
  "string option \<Rightarrow> string \<Rightarrow> (string \<Rightarrow> bool option) \<Rightarrow> (string \<Rightarrow> BatonEvent option) \<Rightarrow> (endpoint \<Rightarrow> stream_exchange) \<Rightarrow>
   bool \<Rightarrow> bool \<Rightarrow> bool \<Rightarrow> string \<Rightarrow> string \<Rightarrow> broker_home \<Rightarrow> client_run \<times> broker_home" where
  "runRallyJoin wd sockDir get_closed get_event open_stream once timedOut cancelled sessionID as h =
     (case NewSessionID sessionID of
        Inl e \<Rightarrow> (fails (ClientContract e), h)
      | Inr sid \<Rightarrow>
        (case NewParticipantName as of
           Inl e \<Rightarrow> (fails (ClientContract e), h)
         | Inr pn \<Rightarrow>
             with_client (resolveBrokerClient wd sockDir h)
               (\<lambda>ep. case open_stream ep of
                  StreamSendFails \<Rightarrow>
                    if timedOut then fails ErrTimeoutWaitingForBaton
                    else if cancelled then ([], None)
                    else fails RequestFailed
                | StreamReply status body failed \<Rightarrow>
                    if status \<noteq> 200 then fails (Refused status (TrimSpace body))
                    else read_stream (handleBatonEvent get_closed get_event sessionID as) once timedOut cancelled body failed)))"

subsection \<open>Done\<close>

text \<open>The texts of the contract's errors that the command looks for or the broker answers a conflict with.\<close>

definition interrupted_text :: string where "interrupted_text = ''rally: session interrupted''"

definition not_holder_text :: string where "not_holder_text = ''rally: not the current baton holder''"

definition runRallyDone ::
  "string option \<Rightarrow> string \<Rightarrow> (endpoint \<Rightarrow> DoneRequest \<Rightarrow> RallySession exchange) \<Rightarrow> string \<Rightarrow> string \<Rightarrow> string \<Rightarrow> string \<Rightarrow>
   broker_home \<Rightarrow> client_run \<times> broker_home" where
  "runRallyDone wd sockDir post sessionID as note handoffTo h =
     (case NewSessionID sessionID of
        Inl e \<Rightarrow> (fails (ClientContract e), h)
      | Inr sid \<Rightarrow>
        (case NewParticipantName as of
           Inl e \<Rightarrow> (fails (ClientContract e), h)
         | Inr pn \<Rightarrow>
           (case (if handoffTo \<noteq> [] then NewParticipantName handoffTo else Inr []) of
              Inl e \<Rightarrow> (fails (ClientContract e), h)
            | Inr ht \<Rightarrow>
                with_client (resolveBrokerClient wd sockDir h)
                  (\<lambda>ep. case post ep \<lparr>dr_Note = note, dr_HandoffTo = handoffTo\<rparr> of
                     SendFails \<Rightarrow> fails RequestFailed
                   | Reply status text body \<Rightarrow>
                       if status = 200 then
                         (case body of
                            None \<Rightarrow> fails DecodeResponse
                          | Some sess \<Rightarrow>
                              ([''ok '' @ dash @ '' baton passed to '' @ ry_Holder sess @ '' (turn '' @ show_int (ry_TurnN sess) @ '')''],
                               None))
                       else if status = 409 then
                         (let msg = TrimSpace text in
                          if Contains msg interrupted_text then
                            ([''session interrupted '' @ dash @ '' '' @ msg], Some SessionInterruptedReply)
                          else ([''not your turn '' @ dash @ '' '' @ msg], Some NotYourTurnReply))
                       else fails (Refused status (TrimSpace text))))))"

subsection \<open>Status\<close>

definition holderDisplay :: "string \<Rightarrow> string" where
  "holderDisplay holder = (if holder = [] then ''(none)'' else holder)"

definition stale_mark :: "int \<Rightarrow> int option \<Rightarrow> string" where
  "stale_mark nowMS seen =
     (case seen of
        Some ls \<Rightarrow> if nowMS - ls > 30000 then '' [stale]'' else []
      | None \<Rightarrow> '' [not yet connected]'')"

definition participant_line :: "int \<Rightarrow> RallySession \<Rightarrow> string \<Rightarrow> string" where
  "participant_line nowMS sess name =
     (let lastSeenStr = (case ry_LastSeen sess name of
            Some ls \<Rightarrow> ''last seen '' @ show_int ((nowMS - ls) sdiv 1000) @ ''s ago''
          | None \<Rightarrow> ''never seen'')
      in ''  - '' @ name @ '' ('' @ lastSeenStr @ '')'' @ stale_mark nowMS (ry_LastSeen sess name))"

text \<open>\<open>quote\<close> is \<^verbatim>\<open>strconv.Quote\<close>.\<close>

definition history_line :: "(string \<Rightarrow> string) \<Rightarrow> BatonHandoff \<Rightarrow> string" where
  "history_line quote hf =
     (let note = (if bh_Note hf = [] then ''-'' else bh_Note hf)
      in ''  turn '' @ show_int (bh_TurnN hf) @ '': '' @ bh_From hf @ '' -> '' @ bh_To hf @ ''  note: '' @ quote note)"

definition printRallyStatus :: "(string \<Rightarrow> string) \<Rightarrow> int \<Rightarrow> RallySession \<Rightarrow> string list" where
  "printRallyStatus quote nowMS sess =
     [''Session:      '' @ ry_ID sess, ''Status:       '' @ ry_Status sess,
      ''Holder:       '' @ holderDisplay (ry_Holder sess), ''Turn:         '' @ show_int (ry_TurnN sess)] @
     (if ry_Task sess \<noteq> [] then [''Task:         '' @ ry_Task sess] else []) @
     (if ry_Repo sess \<noteq> [] then [''Repo:         '' @ ry_Repo sess] else []) @
     ''Participants:'' # map (participant_line nowMS sess) (ry_Participants sess) @
     (if length (ry_History sess) > 0 then
        ''History (last 5):'' #
        (let start = (if length (ry_History sess) > 5 then length (ry_History sess) - 5 else 0)
         in map (history_line quote) (drop start (ry_History sess)))
      else [])"

definition runRallyStatus ::
  "string option \<Rightarrow> string \<Rightarrow> (string \<Rightarrow> string) \<Rightarrow> int \<Rightarrow> (endpoint \<Rightarrow> RallySession exchange) \<Rightarrow> string \<Rightarrow> broker_home \<Rightarrow>
   client_run \<times> broker_home" where
  "runRallyStatus wd sockDir quote nowMS get sessionID h =
     (case NewSessionID sessionID of
        Inl e \<Rightarrow> (fails (ClientContract e), h)
      | Inr sid \<Rightarrow>
          with_client (resolveBrokerClient wd sockDir h)
            (\<lambda>ep. case get ep of
               SendFails \<Rightarrow> fails RequestFailed
             | Reply status text body \<Rightarrow>
                 if status \<noteq> 200 then fails (Refused status (TrimSpace text))
                 else case body of None \<Rightarrow> fails DecodeResponse | Some sess \<Rightarrow> (printRallyStatus quote nowMS sess, None)))"

subsection \<open>Printed JSON is one line\<close>

abbreviation printable :: "char \<Rightarrow> bool" where
  "printable c \<equiv> 0x20 \<le> (of_char c :: nat)"

lemma hex_digit_printable: "n < 16 \<Longrightarrow> printable (hex_digit n)"
  by (auto simp: hex_digit_def)

lemma esc_char_printable: "printable c \<or> c \<noteq> CHR 0x22 \<and> c \<noteq> bs \<Longrightarrow> list_all printable (esc_char c)"
proof -
  have "of_char c div 16 < (16::nat)" using of_char_lt_256 [of c] by linarith
  then show "printable c \<or> c \<noteq> CHR 0x22 \<and> c \<noteq> bs \<Longrightarrow> list_all printable (esc_char c)"
    by (auto simp: esc_char_def hex2_def bs_def hex_digit_printable)
qed

lemma esc_char_always_printable: "list_all printable (esc_char c)"
  by (rule esc_char_printable) (auto simp: bs_def)

lemma jesc_printable: "list_all printable (jesc s)"
proof (induction s rule: jesc.induct)
  case (2 c s)
  have h: "list_all printable (take n (c # s))" if "high c" "n = utf8_len (c # s)" for n
    using utf8_len_high [of "c # s"] that(2) by (auto simp: list_all_iff high_def)
  show ?case
  proof (cases "high c")
    case False
    with 2 show ?thesis using esc_char_always_printable [of c] by (auto simp: html_safe_def)
  next
    case True
    with 2 h [OF True refl] show ?thesis by (auto simp: Let_def bs_def)
  qed
qed simp

lemma Join_printable: "list_all (list_all printable) xs \<Longrightarrow> list_all printable sep \<Longrightarrow> list_all printable (Join xs sep)"
  by (induction xs sep rule: Join.induct) auto

lemma show_int_printable: "list_all printable (show_int i)"
proof -
  have "list_all printable (show_nat n)" for n
    using show_nat_digits [of n] by (auto simp: list_all_iff is_digit_def)
  then show ?thesis by (simp add: show_int_def)
qed

lemma jquote_printable: "list_all printable (jquote s)"
  using jesc_printable [of s] by (simp add: jquote_def)

lemma jprint_printable: "list_all printable (jprint j)"
proof (induction j rule: jprint.induct)
  case (5 xs)
  then have "list_all printable (Join (map jprint xs) '','')" by (intro Join_printable) (auto simp: list_all_iff)
  then show ?case by simp
next
  case (6 fs)
  then have "list_all printable (Join (map (\<lambda>kv. jquote (fst kv) @ CHR '':'' # jprint (snd kv)) fs) '','')"
    using jquote_printable by (intro Join_printable) (auto simp: list_all_iff)
  then show ?case by simp
qed (simp_all add: show_int_printable jquote_printable)

lemma jprint_one_line: "CHR 0x0A \<notin> set (jprint j)" "CHR 0x0D \<notin> set (jprint j)"
  using jprint_printable [of j] by (auto simp: list_all_iff)

lemma jesc_length: "length s \<le> length (jesc s)"
proof (induction s rule: jesc.induct)
  case (2 c s)
  have "utf8_len (c # s) \<le> Suc (length s)" using utf8_len_le [of "c # s"] by simp
  moreover have "utf8_len (c # s) \<in> {0, 2, 3, 4}" by (rule utf8_len_cases)
  moreover have "1 \<le> length (esc_char c)" by (simp add: esc_char_def)
  ultimately show ?case using 2
    by (cases "HasPrefix (c # s) ls_sep"; cases "HasPrefix (c # s) ps_sep") (auto simp: Let_def bs_def)
qed simp

lemma event_not_shorter: "length (be_Note evt) \<le> length (jprint (BatonEvent_json evt))"
proof (cases "be_Note evt = []")
  case False
  have part: "x \<in> set xs \<Longrightarrow> length x \<le> length (Join xs '','')" for x xs
    by (induction xs "'',''" rule: Join.induct) auto
  have "CHR 0x22 # ''note'' @ CHR 0x22 # CHR '':'' # jquote (be_Note evt) \<in>
      set (map (\<lambda>kv. jquote (fst kv) @ CHR '':'' # jprint (snd kv))
        ((''turn_n'', JInt (be_TurnN evt)) # omit_str ''from'' (be_From evt) @ omit_str ''note'' (be_Note evt) @ omit_bool ''closed'' (be_Closed evt)))"
    using False by (simp add: omit_str_def jquote_def high_def html_safe_def)
  from part [OF this] jesc_length [of "be_Note evt"] show ?thesis
    by (simp add: BatonEvent_json_def jquote_def del: list.map map_append)
qed simp

subsection \<open>Reading a stream\<close>

fun frame_lines :: "frame \<Rightarrow> string list" where
  "frame_lines (BatonFrame evt) = [''data: '' @ jprint (BatonEvent_json evt), []]"
| "frame_lines PingFrame = ['': ping'', []]"
| "frame_lines CloseFrame = [''data: '' @ close_data, []]"

definition short_frame :: "frame \<Rightarrow> bool" where
  "short_frame f = (case f of BatonFrame evt \<Rightarrow> length (jprint (BatonEvent_json evt)) < 65530 | _ \<Rightarrow> True)"

lemma frame_lines_short:
  assumes "short_frame f"
  shows "list_all (\<lambda>l. CHR 0x0A \<notin> set l \<and> length l < MaxScanTokenSize) (frame_lines f)"
    and "map drop_cr (frame_lines f) = frame_lines f"
    and "frame_bytes f = concat (map (\<lambda>l. l @ [CHR 0x0A]) (frame_lines f))"
proof -
  show "map drop_cr (frame_lines f) = frame_lines f"
    using jprint_one_line by (cases f) (auto simp: close_data_def drop_cr_plain)
qed (use assms jprint_one_line in \<open>cases f; auto simp: close_data_def short_frame_def writeSSEEvent_def write_ping_def writeCloseSentinel_def\<close>)+

lemma scan_frames:
  assumes "list_all short_frame fs"
  shows "scan_lines (concat (map frame_bytes fs) @ b) = (concat (map frame_lines fs) @ fst (scan_lines b), snd (scan_lines b))"
proof -
  have "list_all (\<lambda>l. CHR 0x0A \<notin> set l \<and> length l < MaxScanTokenSize) (concat (map frame_lines fs))"
    using assms frame_lines_short(1) by (fastforce simp: list_all_iff)
  moreover have "map drop_cr (concat (map frame_lines fs)) = concat (map frame_lines fs)"
    using assms frame_lines_short(2) by (induction fs) simp_all
  moreover have "concat (map frame_bytes fs) = concat (map (\<lambda>l. l @ [CHR 0x0A]) (concat (map frame_lines fs)))"
    using assms frame_lines_short(3) by (induction fs) (simp_all del: frame_bytes.simps frame_lines.simps)
  ultimately show ?thesis using scan_lines_concat by presburger
qed

text \<open>What the decoder makes of the broker's events.\<close>

definition reads_events :: "(string \<Rightarrow> bool option) \<Rightarrow> (string \<Rightarrow> BatonEvent option) \<Rightarrow> BatonEvent set \<Rightarrow> bool" where
  "reads_events get_closed get_event evts \<longleftrightarrow>
     get_closed close_data = Some True \<and>
     (\<forall>evt \<in> evts. get_closed (jprint (BatonEvent_json evt)) = Some (be_Closed evt) \<and>
                   get_event (jprint (BatonEvent_json evt)) = Some evt)"

definition batons :: "frame list \<Rightarrow> BatonEvent list" where
  "batons fs = concat (map (\<lambda>f. case f of BatonFrame evt \<Rightarrow> [evt] | _ \<Rightarrow> []) fs)"

lemma batons_simps [simp]:
  "batons [] = []" "batons (BatonFrame evt # fs) = evt # batons fs" "batons (PingFrame # fs) = batons fs"
  "batons (CloseFrame # fs) = batons fs"
  by (simp_all add: batons_def)

lemma jprint_nonempty [simp]: "jprint j \<noteq> []"
  using hd_jprint [of j] by simp

lemma join_frames:
  assumes "reads_events get_closed get_event (set (batons fs))" "\<forall>evt \<in> set (batons fs). \<not> be_Closed evt" "CloseFrame \<notin> set fs"
  shows "join_loop (handleBatonEvent get_closed get_event sid as) False [] (concat (map frame_lines fs) @ ls) =
    apfst ((@) (concat (map (turn_lines sid as) (batons fs)))) (join_loop (handleBatonEvent get_closed get_event sid as) False [] ls)"
  using assms
proof (induction fs)
  case (Cons f fs)
  then have IH: "join_loop (handleBatonEvent get_closed get_event sid as) False [] (concat (map frame_lines fs) @ ls) =
      apfst ((@) (concat (map (turn_lines sid as) (batons fs)))) (join_loop (handleBatonEvent get_closed get_event sid as) False [] ls)"
    by (cases f) (simp_all add: reads_events_def)
  show ?case
  proof (cases f)
    case (BatonFrame evt)
    then have "handleBatonEvent get_closed get_event sid as (jprint (BatonEvent_json evt)) = (turn_lines sid as evt, False)"
      using Cons.prems by (simp add: handleBatonEvent_def reads_events_def)
    with BatonFrame IH show ?thesis by (simp add: HasPrefix_def apfst_def map_prod_def case_prod_unfold)
  next
    case PingFrame
    with IH show ?thesis by (simp add: HasPrefix_def)
  qed (use Cons.prems in simp)
qed (simp add: apfst_def map_prod_def)

lemma join_close:
  assumes "get_closed close_data = Some True"
  shows "join_loop (handleBatonEvent get_closed get_event sid as) once [] (frame_lines CloseFrame @ ls) = ([''session closed''], True)"
  using assms by (simp add: HasPrefix_def handleBatonEvent_def close_data_def)

text \<open>The part of the stream a join reads: up to the closing event.\<close>

abbreviation before_close :: "frame list \<Rightarrow> frame list" where
  "before_close fs \<equiv> takeWhile (\<lambda>f. f \<noteq> CloseFrame) fs"

lemma batons_before_close: "set (batons (before_close fs)) \<subseteq> set (batons fs)"
  by (induction fs) (auto simp: batons_def)

lemma short_before_close: "list_all short_frame fs \<Longrightarrow> list_all short_frame (before_close fs)"
  by (auto simp: list_all_iff dest: set_takeWhileD)

lemma join_whole_stream:
  assumes "reads_events get_closed get_event (set (batons fs))" "\<forall>evt \<in> set (batons fs). \<not> be_Closed evt"
  shows "join_loop (handleBatonEvent get_closed get_event sid as) False [] (concat (map frame_lines fs)) =
    (concat (map (turn_lines sid as) (batons (before_close fs))) @ (if CloseFrame \<in> set fs then [''session closed''] else []),
     CloseFrame \<in> set fs)"
proof -
  let ?pre = "before_close fs"
  have pre: "reads_events get_closed get_event (set (batons ?pre))" "\<forall>evt \<in> set (batons ?pre). \<not> be_Closed evt" "CloseFrame \<notin> set ?pre"
    using assms batons_before_close [of fs] by (auto simp: reads_events_def dest: set_takeWhileD)
  note split = join_frames [OF pre, of sid as]
  show ?thesis
  proof (cases "CloseFrame \<in> set fs")
    case True
    then have "fs = ?pre @ CloseFrame # tl (dropWhile (\<lambda>f. f \<noteq> CloseFrame) fs)"
      by (metis (mono_tags, lifting) dropWhile_eq_Nil_conv hd_dropWhile list.collapse takeWhile_dropWhile_id)
    then have "concat (map frame_lines fs) =
        concat (map frame_lines ?pre) @ frame_lines CloseFrame @ concat (map frame_lines (tl (dropWhile (\<lambda>f. f \<noteq> CloseFrame) fs)))"
      by (metis concat.simps(2) concat_append list.simps(9) map_append)
    with split True show ?thesis using assms(1) by (simp add: join_close reads_events_def del: frame_lines.simps)
  next
    case False
    then have whole: "?pre = fs" by (auto simp: takeWhile_eq_all_conv)
    show ?thesis using split [of "[]"] False by (simp add: whole)
  qed
qed

lemma read_whole_stream:
  assumes "list_all short_frame fs"
    and "reads_events get_closed get_event (set (batons fs))" "\<forall>evt \<in> set (batons fs). \<not> be_Closed evt"
  shows "read_stream (handleBatonEvent get_closed get_event sid as) False timedOut cancelled (concat (map frame_bytes fs)) failed =
    (let out = concat (map (turn_lines sid as) (batons (before_close fs))) in
     if CloseFrame \<in> set fs then (out @ [''session closed''], None)
     else if timedOut then (out, Some ErrTimeoutWaitingForBaton)
     else if failed then (out, if cancelled then None else Some ReadingStream)
     else (out @ [''session closed''], None))"
  using scan_frames [OF assms(1), of "[]"] join_whole_stream [OF assms(2,3), of sid as]
  by (simp add: read_stream_def Let_def)

text \<open>
  (C35) A join shows exactly the turns the broker sent. Whatever events and pings the broker writes to
  the stream, as long as each event fits a line, \<^verbatim>\<open>rally join\<close> announces the events up to the closing
  one, in order, each with its turn, its sender and its note, and then says the session is closed.
\<close>

theorem join_shows_the_turns:
  assumes "list_all short_frame fs"
    and "reads_events get_closed get_event (set (batons fs))" and "\<forall>evt \<in> set (batons fs). \<not> be_Closed evt"
  shows "read_stream (handleBatonEvent get_closed get_event sid as) False False cancelled (concat (map frame_bytes fs)) False =
    (concat (map (turn_lines sid as) (batons (before_close fs))) @ [''session closed''], None)"
  using read_whole_stream [OF assms, of sid as False cancelled False] by (simp add: Let_def)

text \<open>
  A timeout hides the turns that came. The timer of \<^verbatim>\<open>--timeout\<close> is not stopped by a baton: when it
  ends a join that has announced its turns, the join still reports that no baton arrived, with the
  exit code that means so.
\<close>

theorem timeout_hides_batons:
  assumes "list_all short_frame fs" and "CloseFrame \<notin> set fs"
    and "reads_events get_closed get_event (set (batons fs))" and "\<forall>evt \<in> set (batons fs). \<not> be_Closed evt"
  shows "read_stream (handleBatonEvent get_closed get_event sid as) False True cancelled (concat (map frame_bytes fs)) failed =
    (concat (map (turn_lines sid as) (batons fs)), Some ErrTimeoutWaitingForBaton)"
proof -
  have whole: "before_close fs = fs" using assms(2) by (auto simp: takeWhile_eq_all_conv)
  show ?thesis
    using read_whole_stream [OF assms(1,3,4), of sid as True cancelled failed] assms(2) by (simp add: whole Let_def)
qed

subsection \<open>A note that no line holds\<close>

text \<open>One attempt to join: the handler, the delivery of the event that is due, the end of the connection.\<close>

definition join_attempt :: "int \<Rightarrow> SessionID \<Rightarrow> ParticipantName \<Rightarrow> rallyStore \<Rightarrow> BatonEvent option \<times> rallyStore" where
  "join_attempt nowMS sid as st =
     (let (r, st1) = handleRallyBaton nowMS True sid as st; (evt, st2) = stream_deliver True sid as st1
      in (evt, cleanupStream sid as st2))"

definition oversized :: "SessionID \<Rightarrow> ParticipantName \<Rightarrow> rallyStore \<Rightarrow> bool" where
  "oversized sid as st \<longleftrightarrow>
     (\<exists>sess. st sid = Some sess \<and> as \<in> set (rs_participants sess) \<and> rs_status sess = RallyTurnState as \<and>
        rs_streams sess as = None \<and> rs_history sess \<noteq> [] \<and> 65530 \<le> length (bh_Note (last (rs_history sess))))"

lemma oversized_attempt:
  assumes "oversized sid as st" "matches_session_id sid" "valid_name as"
  shows "oversized sid as (snd (join_attempt nowMS sid as st))"
    and "\<exists>evt. fst (join_attempt nowMS sid as st) = Some evt \<and> 65530 \<le> length (be_Note evt)"
proof -
  obtain sess where sess: "st sid = Some sess" "as \<in> set (rs_participants sess)" "rs_status sess = RallyTurnState as"
    "rs_streams sess as = None" "rs_history sess \<noteq> []" "65530 \<le> length (bh_Note (last (rs_history sess)))"
    using assms(1) by (auto simp: oversized_def)
  define evt where "evt = \<lparr>be_TurnN = rs_turnN sess, be_From = bh_From (last (rs_history sess)),
      be_Note = bh_Note (last (rs_history sess)), be_Closed = False\<rparr>"
  define joined where "joined = join_session nowMS as sess"
  have joined: "rs_streams joined as = Some (Some evt)" "rs_participants joined = rs_participants sess"
    "rs_status joined = rs_status sess" "rs_history joined = rs_history sess"
    using sess by (simp_all add: joined_def join_session_def evt_def Let_def)
  have "handleRallyBaton nowMS True sid as st = (JoinStreaming, st(sid \<mapsto> joined))"
    using sess assms(2,3) by (simp add: handleRallyBaton_def NewSessionID_def NewParticipantName_if joined_def Let_def)
  moreover have "stream_deliver True sid as (st(sid \<mapsto> joined)) =
      (Some evt, st(sid \<mapsto> joined\<lparr>rs_streams := (rs_streams joined)(as \<mapsto> None)\<rparr>))"
    using joined(1) by (simp add: stream_deliver_def evt_def Let_def)
  ultimately have a: "join_attempt nowMS sid as st =
      (Some evt, st(sid \<mapsto> joined\<lparr>rs_streams := ((rs_streams joined)(as \<mapsto> None))(as := None)\<rparr>))"
    by (simp add: join_attempt_def cleanupStream_def)
  show "oversized sid as (snd (join_attempt nowMS sid as st))" using a joined sess by (simp add: oversized_def)
  show "\<exists>evt. fst (join_attempt nowMS sid as st) = Some evt \<and> 65530 \<le> length (be_Note evt)"
    using a sess(6) by (simp add: evt_def)
qed

lemma oversized_attempts:
  "oversized sid as st \<Longrightarrow> matches_session_id sid \<Longrightarrow> valid_name as \<Longrightarrow>
   oversized sid as (((\<lambda>st. snd (join_attempt nowMS sid as st)) ^^ n) st)"
  by (induction n) (simp_all add: oversized_attempt)

lemma oversized_unreadable:
  assumes "65530 \<le> length (be_Note evt)"
  shows "read_stream handle once False False (writeSSEEvent evt @ b) failed = ([], Some ReadingStream)"
proof -
  let ?l = "''data: '' @ jprint (BatonEvent_json evt)"
  have "CHR 0x0A \<notin> set ?l" "MaxScanTokenSize \<le> length ?l"
    using jprint_one_line event_not_shorter [of evt] assms by simp_all
  from scan_lines_long [OF this, of "[CHR 0x0A, CHR 0x0A] @ b"] show ?thesis by (simp add: read_stream_def writeSSEEvent_def)
qed

lemma oversized_pass:
  assumes "wf_store st" "advanceRallyBaton nowMS sid as req st = (Inr pub, st')" "65530 \<le> length (dr_Note req)"
    and "rs_streams (the (st sid)) (ry_Holder pub) = None"
  shows "oversized sid (ry_Holder pub) st'" and "valid_name (ry_Holder pub)"
proof -
  obtain sess ht where sess: "st sid = Some sess" "check_handoff as (dr_HandoffTo req) = Inr ht" "rs_holder sess = as"
    "rs_status sess \<noteq> RallyStateInterrupted" "ht = [] \<or> ht \<in> set (rs_participants sess)"
    and pub: "pub = toPublic (pass_baton nowMS as (nextParticipant (rs_participants sess) as ht) (dr_Note req) sess)"
    and st': "st' = st(sid \<mapsto> pass_baton nowMS as (nextParticipant (rs_participants sess) as ht) (dr_Note req) sess)"
    using assms(2) by (auto simp: advanceRallyBaton_def Let_def split: sum.splits option.splits if_splits)
  define nxt where "nxt = nextParticipant (rs_participants sess) as ht"
  have wf: "wf_session sess" using assms(1) sess(1) by (auto simp: wf_store_def)
  have "rs_holder sess \<in> set (rs_participants sess) \<or> as = []"
    using wf sess(3,4) by (auto simp: wf_session_def status_ok_def split: if_splits)
  then have nxt: "nxt \<in> set (rs_participants sess)"
  proof
    assume "rs_holder sess \<in> set (rs_participants sess)"
    then show ?thesis using wf sess(3) nextParticipant_member by (simp add: nxt_def wf_session_def)
  next
    assume "as = []"
    then have "as \<notin> set (rs_participants sess)" using wf valid_name_nonempty by (auto simp: wf_session_def list_all_iff)
    moreover have "p \<notin> set ps \<Longrightarrow> successor_from all i ps p = all ! 0" for all i p ps
      by (induction all i ps p rule: successor_from.induct) auto
    moreover have "rs_participants sess \<noteq> []" using wf by (auto simp: wf_session_def)
    ultimately show ?thesis using sess(5) by (auto simp: nxt_def nextParticipant_def)
  qed
  have holder: "ry_Holder pub = nxt" by (simp add: pub nxt_def toPublic_def pass_baton_def Let_def)
  show "valid_name (ry_Holder pub)" using wf nxt by (auto simp: holder wf_session_def list_all_iff)
  show "oversized sid (ry_Holder pub) st'"
    using assms(3,4) sess(1) nxt
    by (simp add: holder st' oversized_def pass_baton_def Let_def try_send_def flip: nxt_def)
qed

text \<open>
  A note longer than the line buffer locks its receiver out. When a participant passes the baton
  with a note of 65530 bytes or more to one who is not connected, every later join of the receiver,
  however often it retries, is sent the same event again, and each join ends with a read error
  before it announces the turn.
\<close>

theorem oversized_note_locks_out:
  assumes "rally_step\<^sup>*\<^sup>* newRallyStore st" and "matches_session_id sid"
    and "advanceRallyBaton nowMS sid as req st = (Inr pub, st')" and "65530 \<le> length (dr_Note req)"
    and "rs_streams (the (st sid)) (ry_Holder pub) = None"
  shows "\<exists>evt. fst (join_attempt t sid (ry_Holder pub) (((\<lambda>st. snd (join_attempt t sid (ry_Holder pub) st)) ^^ n) st')) = Some evt \<and>
    read_stream handle once False False (writeSSEEvent evt @ b) failed = ([], Some ReadingStream)"
proof -
  have "wf_store st" by (rule rally.reachable_inv [OF refl assms(1)])
  note over = oversized_pass [OF this assms(3-5)]
  from oversized_attempts [OF over(1) assms(2) over(2)]
  show ?thesis using oversized_attempt(2) [OF _ assms(2) over(2)] oversized_unreadable by blast
qed

subsection \<open>What the broker answers to done\<close>

text \<open>The two errors of a conflict as text; \<^verbatim>\<open>%q\<close> of a checked name or id is the name in quotes.\<close>

definition quoted :: "string \<Rightarrow> string" where
  "quoted s = CHR 0x22 # s @ [CHR 0x22]"

definition conflict_text :: "SessionID \<Rightarrow> ParticipantName \<Rightarrow> rallyStore \<Rightarrow> contract_error \<Rightarrow> string" where
  "conflict_text sid as st e =
     (if e = ErrSessionInterrupted then ''session '' @ quoted sid @ '': '' @ interrupted_text
      else ''participant '' @ quoted as @ '' is not the current baton holder (holder: '' @
             quoted (case st sid of None \<Rightarrow> [] | Some sess \<Rightarrow> rs_holder sess) @ ''): '' @ not_holder_text)"

text \<open>\<open>other\<close> is the text of the other errors; \<^verbatim>\<open>http.Error\<close> ends a text with a newline.\<close>

definition done_reply ::
  "int \<Rightarrow> (contract_error \<Rightarrow> string) \<Rightarrow> SessionID \<Rightarrow> ParticipantName \<Rightarrow> rallyStore \<Rightarrow> DoneRequest \<Rightarrow> RallySession exchange" where
  "done_reply nowMS other sid as st req =
     (case advanceRallyBaton nowMS sid as req st of
        (Inr pub, st') \<Rightarrow> Reply 200 [] (Some pub)
      | (Inl e, st') \<Rightarrow>
          Reply (writeRallyError (Contract e))
            ((if writeRallyError (Contract e) = 409 then conflict_text sid as st e else other e) @ [CHR 0x0A]) None)"

text \<open>Trimming a text that begins and ends with a plain byte, and the newline after it.\<close>

definition plain_byte :: "char \<Rightarrow> bool" where
  "plain_byte c \<longleftrightarrow> 0x21 \<le> (of_char c :: nat) \<and> (of_char c :: nat) < 0x80"

lemma plain_not_space:
  assumes "plain_byte c"
  shows "space_len (c # s) = 0" and "space_suffix_len (s @ [c]) = 0"
proof -
  have "list_all (\<lambda>p. p \<noteq> [] \<and> \<not> plain_byte (hd p) \<and> \<not> plain_byte (last p)) space_runes"
    by (simp add: space_runes_def plain_byte_def)
  then have edges: "p \<in> set space_runes \<Longrightarrow> p \<noteq> [] \<and> hd p \<noteq> c \<and> last p \<noteq> c" for p
    using assms by (auto simp: list_all_iff)
  have "\<not> HasPrefix (c # s) p" if "p \<in> set space_runes" for p
    using edges [OF that] by (cases p) (auto simp: HasPrefix_iff)
  moreover have "\<not> HasSuffix (s @ [c]) p" if "p \<in> set space_runes" for p
    using edges [OF that] by (cases p rule: rev_cases) (auto simp: HasSuffix_iff)
  ultimately show "space_len (c # s) = 0" "space_suffix_len (s @ [c]) = 0"
    by (simp_all add: space_len_def space_suffix_len_def find_None_iff [THEN iffD2])
qed

lemma TrimSpace_line:
  assumes "plain_byte c" "plain_byte d" "c # s = u @ [d]"
  shows "TrimSpace (c # s @ [CHR 0x0A]) = c # s"
proof -
  have "TrimLeftSpace (c # s @ [CHR 0x0A]) = u @ [d, CHR 0x0A]"
    using plain_not_space(1) [OF assms(1)] assms(3) by (subst TrimLeftSpace.simps) (metis append.assoc append_Cons append_Nil)
  moreover have "space_suffix_len (u @ [d, CHR 0x0A]) = 1"
  proof -
    have "\<not> HasSuffix (u @ [d, CHR 0x0A]) [CHR 0x09]" "HasSuffix (u @ [d, CHR 0x0A]) [CHR 0x0A]" by (auto simp: HasSuffix_iff)
    then show ?thesis by (simp add: space_suffix_len_def space_runes_def)
  qed
  then have "TrimRightSpace (u @ [d, CHR 0x0A]) = TrimRightSpace (u @ [d])"
    by (subst TrimRightSpace.simps) simp
  moreover have "TrimRightSpace (u @ [d]) = u @ [d]"
    by (subst TrimRightSpace.simps) (simp add: plain_not_space(2) [OF assms(2)])
  ultimately show ?thesis using assms(3) by (simp add: TrimSpace_def)
qed

text \<open>What follows a space: a name has no space, so a name cannot fake the text of an error.\<close>

fun after_space :: "string \<Rightarrow> char set" where
  "after_space (c # d # s) = (if c = CHR '' '' then {d} else {}) \<union> after_space (d # s)"
| "after_space _ = {}"

lemma after_space_Cons: "after_space s \<subseteq> after_space (c # s)"
  by (cases s) auto

lemma after_space_append: "a \<noteq> [] \<Longrightarrow> last a \<noteq> CHR '' '' \<Longrightarrow> after_space (a @ b) = after_space a \<union> after_space b"
  by (induction a rule: after_space.induct; cases b) (auto split: if_splits)

lemma after_space_sublist: "after_space b \<subseteq> after_space (a @ b @ c)"
proof -
  have r: "after_space b \<subseteq> after_space (b @ c)"
    by (induction b rule: after_space.induct) auto
  have "after_space b \<subseteq> after_space (a @ b)" for b
    using after_space_Cons by (induction a) fastforce+
  with r show ?thesis by blast
qed

lemma after_space_none: "CHR '' '' \<notin> set s \<Longrightarrow> after_space s = {}"
  by (induction s rule: after_space.induct) auto

lemma after_space_name: "CHR '' '' \<notin> set n \<Longrightarrow> after_space (n @ b) = after_space b"
proof (cases "n = []")
  case False
  moreover assume n: "CHR '' '' \<notin> set n"
  ultimately have "last n \<noteq> CHR '' ''" using last_in_set [of n] by metis
  with False n show ?thesis by (simp add: after_space_append after_space_none)
qed simp

lemma valid_name_no_space: "valid_name n \<Longrightarrow> CHR '' '' \<notin> set n"
  by (auto simp: valid_name_def list_all_iff is_name_char_def Let_def)

lemma not_holder_not_interrupted:
  assumes "CHR '' '' \<notin> set as" "CHR '' '' \<notin> set (case st sid of None \<Rightarrow> [] | Some sess \<Rightarrow> rs_holder sess)"
  shows "\<not> Contains (conflict_text sid as st ErrNotHolder) interrupted_text"
proof
  let ?holder = "case st sid of None \<Rightarrow> [] | Some sess \<Rightarrow> rs_holder sess"
  let ?a = "''participant '' @ [CHR 0x22]" and ?m = "CHR 0x22 # '' is not the current baton holder (holder: '' @ [CHR 0x22]"
    and ?z = "CHR 0x22 # ''): '' @ not_holder_text"
  assume "Contains (conflict_text sid as st ErrNotHolder) interrupted_text"
  moreover have "conflict_text sid as st ErrNotHolder = ?a @ as @ ?m @ ?holder @ ?z"
    by (simp add: conflict_text_def quoted_def)
  ultimately obtain x y where "?a @ as @ ?m @ ?holder @ ?z = x @ interrupted_text @ y" by (auto simp: Contains_iff)
  then have "after_space interrupted_text \<subseteq> after_space (?a @ as @ ?m @ ?holder @ ?z)"
    using after_space_sublist [of interrupted_text x y] by simp
  moreover have "after_space (?a @ as @ ?m @ ?holder @ ?z) = after_space ?a \<union> (after_space ?m \<union> after_space ?z)"
  proof -
    have a: "after_space (?a @ b) = after_space ?a \<union> after_space b" and m: "after_space (?m @ b) = after_space ?m \<union> after_space b" for b
      by (rule after_space_append; simp)+
    show ?thesis by (simp only: a m after_space_name [OF assms(1)] after_space_name [OF assms(2)])
  qed
  moreover have "CHR ''s'' \<in> after_space interrupted_text" by (simp add: interrupted_text_def)
  moreover have "CHR ''s'' \<notin> after_space ?a \<union> (after_space ?m \<union> after_space ?z)" by (simp add: not_holder_text_def)
  ultimately show False by blast
qed

lemma conflict_trimmed: "TrimSpace (conflict_text sid as st e @ [CHR 0x0A]) = conflict_text sid as st e"
proof (cases "e = ErrSessionInterrupted")
  case True
  have "conflict_text sid as st e = CHR ''s'' # ''ession '' @ quoted sid @ '': rally: session interrupted''"
    by (simp add: True conflict_text_def interrupted_text_def)
  moreover have "\<dots> = (''session '' @ quoted sid @ '': rally: session interrupte'') @ [CHR ''d'']" by simp
  moreover have "plain_byte (CHR ''s'')" "plain_byte (CHR ''d'')" by (simp_all add: plain_byte_def)
  ultimately show ?thesis using TrimSpace_line by (metis append_Cons)
next
  case False
  let ?rest = "quoted as @ '' is not the current baton holder (holder: '' @
    quoted (case st sid of None \<Rightarrow> [] | Some sess \<Rightarrow> rs_holder sess) @ ''): rally: not the current baton holde''"
  have "conflict_text sid as st e = CHR ''p'' # ''articipant '' @ ?rest @ [CHR ''r'']"
    using False by (simp add: conflict_text_def not_holder_text_def)
  moreover have "\<dots> = (''participant '' @ ?rest) @ [CHR ''r'']" by simp
  moreover have "plain_byte (CHR ''p'')" "plain_byte (CHR ''r'')" by (simp_all add: plain_byte_def)
  ultimately show ?thesis using TrimSpace_line by (metis append_Cons)
qed

lemma advance_conflict: "advanceRallyBaton nowMS sid as req st = (Inl e, st') \<Longrightarrow> e \<noteq> ErrAlreadyConnected"
  by (auto simp: advanceRallyBaton_def check_handoff_def NewParticipantName_if Let_def split: sum.splits option.splits if_splits)

lemma holder_no_space: "wf_store st \<Longrightarrow> CHR '' '' \<notin> set (case st sid of None \<Rightarrow> [] | Some sess \<Rightarrow> rs_holder sess)"
proof (cases "st sid")
  case (Some sess)
  moreover assume "wf_store st"
  ultimately have "rs_holder sess = [] \<or> rs_holder sess \<in> set (rs_participants sess)" "list_all valid_name (rs_participants sess)"
    by (auto simp: wf_store_def wf_session_def status_ok_def split: if_splits)
  with Some show ?thesis using valid_name_no_space by (auto simp: list_all_iff)
qed simp

lemma writeRallyError_codes:
  "writeRallyError (Contract e) = 409 \<longleftrightarrow> e \<in> {ErrNotHolder, ErrSessionInterrupted, ErrAlreadyConnected}"
  "writeRallyError (Contract e) \<noteq> 200"
  by (cases e; simp add: writeRallyError_def)+

text \<open>
  (C34) \<^verbatim>\<open>rally done\<close> reports what the broker did. In every reachable store: it says that the baton passed,
  and to whom, exactly when the broker passed it; it says that the session is interrupted or that
  it is not the caller's turn exactly when that is why the broker refused, whatever names the
  session has, though it tells the two apart by searching the text of the reply.
\<close>

theorem done_reports_outcome:
  assumes "rally_step\<^sup>*\<^sup>* newRallyStore st" and "matches_session_id sid" and "valid_name as" and "to = [] \<or> valid_name to"
    and "resolveBrokerClient wd sockDir h = (Inr ep, h')"
  shows "runRallyDone wd sockDir (\<lambda>ep. done_reply nowMS other sid as st) sid as note to h =
    ((case advanceRallyBaton nowMS sid as \<lparr>dr_Note = note, dr_HandoffTo = to\<rparr> st of
        (Inr pub, st') \<Rightarrow>
          ([''ok '' @ dash @ '' baton passed to '' @ ry_Holder pub @ '' (turn '' @ show_int (ry_TurnN pub) @ '')''], None)
      | (Inl e, st') \<Rightarrow>
          if e = ErrSessionInterrupted then
            ([''session interrupted '' @ dash @ '' '' @ conflict_text sid as st e], Some SessionInterruptedReply)
          else if e = ErrNotHolder then
            ([''not your turn '' @ dash @ '' '' @ conflict_text sid as st e], Some NotYourTurnReply)
          else fails (Refused (writeRallyError (Contract e)) (TrimSpace (other e @ [CHR 0x0A])))), h')"
proof -
  have wf: "wf_store st" by (rule rally.reachable_inv [OF refl assms(1)])
  let ?req = "\<lparr>dr_Note = note, dr_HandoffTo = to\<rparr>"
  obtain r st' where adv: "advanceRallyBaton nowMS sid as ?req st = (r, st')" by (cases "advanceRallyBaton nowMS sid as ?req st")
  have checks: "NewSessionID sid = Inr sid" "NewParticipantName as = Inr as"
    "\<exists>ht. (if to \<noteq> [] then NewParticipantName to else Inr []) = Inr ht"
    using assms(2-4) by (auto simp: NewSessionID_def NewParticipantName_if)
  then obtain ht where ht: "(if to \<noteq> [] then NewParticipantName to else Inr []) = Inr ht" by blast
  note run = runRallyDone_def [of wd sockDir "\<lambda>ep. done_reply nowMS other sid as st" sid "as" "note" to h,
      unfolded checks(1,2) ht sum.case assms(5) with_client_def prod.case]
  show ?thesis
  proof (cases r)
    case (Inr pub)
    with adv show ?thesis by (simp add: run done_reply_def)
  next
    case (Inl e)
    have e: "e \<noteq> ErrAlreadyConnected" using adv Inl advance_conflict by blast
    have i: "Contains (conflict_text sid as st ErrSessionInterrupted) interrupted_text"
      unfolding Contains_iff by (intro exI [of _ "''session '' @ quoted sid @ '': ''"] exI [of _ "[]"]) (simp add: conflict_text_def)
    have n: "\<not> Contains (conflict_text sid as st ErrNotHolder) interrupted_text"
      by (intro not_holder_not_interrupted valid_name_no_space holder_no_space wf assms(3))
    consider "e = ErrSessionInterrupted" | "e = ErrNotHolder" | "e \<noteq> ErrSessionInterrupted" "e \<noteq> ErrNotHolder" by blast
    then show ?thesis
    proof cases
      case 1
      with adv Inl i show ?thesis by (simp add: run done_reply_def writeRallyError_codes conflict_trimmed)
    next
      case 2
      with adv Inl n show ?thesis by (simp add: run done_reply_def writeRallyError_codes conflict_trimmed)
    next
      case 3
      with adv Inl e show ?thesis by (simp add: run done_reply_def writeRallyError_codes)
    qed
  qed
qed

subsection \<open>Status\<close>

text \<open>The command marks a participant stale exactly when the broker's own test says so, at the default threshold.\<close>

lemma status_marks_stale:
  assumes "st sid = Some sess" "rs_staleThreshold sess = 30000"
  shows "stale_mark nowMS (ry_LastSeen (toPublic sess) name) = '' [stale]'' \<longleftrightarrow> isParticipantStale sid name nowMS st"
  using assms by (simp add: stale_mark_def isParticipantStale_def toPublic_def split: option.split)

subsection \<open>What the checks of new leave to the broker\<close>

lemma client_names_Inr: "client_names raws = Inr names \<longleftrightarrow> names = raws \<and> list_all valid_name raws"
proof (induction raws arbitrary: names)
  case (Cons raw raws)
  then show ?case by (cases "client_names raws") (auto simp: NewParticipantName_if)
qed auto

lemma check_names_refusal:
  "list_all valid_name raws \<Longrightarrow> check_names names raws = Inl e \<Longrightarrow> e = ErrDuplicateName"
  by (induction names raws rule: check_names.induct) (auto simp: NewParticipantName_if split: if_splits)

text \<open>
  A request that \<^verbatim>\<open>rally new\<close> sends is refused for a duplicate name, a bad first holder or a failure
  to make an id, and for nothing else.
\<close>

lemma new_request_refusals:
  assumes "new_request wd stat participants repo task first = Inr req" "createRallySession nowMS rnd req st = (Inl e, st')"
  shows "e \<in> {Contract ErrDuplicateName, Contract ErrInvalidName, Contract ErrFirstHolderNotMember, GenerateIDFailed} \<and> st' = st"
proof -
  have req: "\<not> length (nr_Participants req) < 2" "list_all valid_name (nr_Participants req)"
    using assms(1) by (auto simp: new_request_def client_names_Inr Let_def split: if_splits sum.splits)
  have first: "check_first_holder names f = Inl x \<Longrightarrow> x = ErrInvalidName \<or> x = ErrFirstHolderNotMember" for names f x
    by (auto simp: check_first_holder_def NewParticipantName_if split: if_splits)
  from assms(2) req(1) show ?thesis
    by (auto simp: createRallySession_def Let_def split: if_splits sum.splits option.splits
        dest: first check_names_refusal [OF req(2)])
qed

subsection \<open>Witnesses\<close>

definition demo_rally :: rallyStore where
  "demo_rally = rally_exec (OpCreate 5 (Some [CHR 0x0A, CHR 0x0B]) ''application/json''
     (Some \<lparr>nr_Participants = [''alice'', ''bob''], nr_Repo = [], nr_Task = [], nr_FirstHolder = ''bob''\<rparr>)) newRallyStore"

lemma demo_rally_reached: "rally_step\<^sup>*\<^sup>* newRallyStore demo_rally"
  unfolding demo_rally_def by (rule r_into_rtranclp) (rule rally_op)

lemma demo_rally_facts:
  "matches_session_id ''rly_5_0a0b''" "valid_name ''bob''" "valid_name ''alice''"
  "map_option (\<lambda>s. (rs_participants s, rs_status s, rs_holder s, rs_turnN s, rs_streams s ''alice'')) (demo_rally ''rly_5_0a0b'') =
   Some ([''alice'', ''bob''], RallyTurnState ''bob'', ''bob'', 1, None)"
  unfolding demo_rally_def by code_simp+

lemma demo_baton_pass:
  obtains pub st' where "advanceRallyBaton 9 ''rly_5_0a0b'' ''bob'' \<lparr>dr_Note = msg, dr_HandoffTo = []\<rparr> demo_rally = (Inr pub, st')"
    and "ry_Holder pub = ''alice''" and "ry_TurnN pub = 2"
proof -
  obtain sess where s: "demo_rally ''rly_5_0a0b'' = Some sess" "rs_participants sess = [''alice'', ''bob'']"
    "rs_status sess = RallyTurnState ''bob''" "rs_holder sess = ''bob''" "rs_turnN sess = 1"
    using demo_rally_facts(4) by auto
  show ?thesis
    by (rule that [of "toPublic (pass_baton 9 ''bob'' ''alice'' msg sess)"
          "demo_rally(''rly_5_0a0b'' \<mapsto> pass_baton 9 ''bob'' ''alice'' msg sess)"])
      (use s in \<open>simp_all add: advanceRallyBaton_def check_handoff_def nextParticipant_def toPublic_def pass_baton_def Let_def\<close>)
qed

definition live_home :: broker_home where
  "live_home = snd (RunDaemon_start ''/h/.rallish'' full_start ''4242'' new_home)"

lemma live_home_lookup:
  "resolveBrokerClient (Some ''/w'') ''/h/.rallish'' live_home = (Inr (OverSocket ''/h/.rallish/rallish.sock''), live_home)"
  by (rule resolve_live) (simp_all add: live_home_def new_home_serving home_socket)

theorem done_reports_outcome_witness:
  "runRallyDone (Some ''/w'') ''/h/.rallish'' (\<lambda>ep. done_reply 9 (\<lambda>e. []) ''rly_5_0a0b'' ''bob'' demo_rally)
     ''rly_5_0a0b'' ''bob'' ''over to you'' [] live_home =
   (([''ok '' @ dash @ '' baton passed to alice (turn 2)''], None), live_home)"
proof -
  obtain pub st' where "advanceRallyBaton 9 ''rly_5_0a0b'' ''bob'' \<lparr>dr_Note = ''over to you'', dr_HandoffTo = []\<rparr> demo_rally = (Inr pub, st')"
    "ry_Holder pub = ''alice''" "ry_TurnN pub = 2" by (rule demo_baton_pass)
  moreover have "show_int 2 = ''2''" by code_simp
  ultimately show ?thesis
    using done_reports_outcome [OF demo_rally_reached demo_rally_facts(1,2) _ live_home_lookup, of "[]" 9 "\<lambda>e. []" "''over to you''"]
    by simp
qed

theorem oversized_note_locks_out_witness:
  "\<exists>st evt. fst (join_attempt 11 ''rly_5_0a0b'' ''alice'' st) = Some evt \<and>
     read_stream (\<lambda>d. ([], False)) True False False (writeSSEEvent evt) False = ([], Some ReadingStream)"
proof -
  let ?note = "replicate 65530 (CHR ''x'')"
  obtain pub st' where adv: "advanceRallyBaton 9 ''rly_5_0a0b'' ''bob'' \<lparr>dr_Note = ?note, dr_HandoffTo = []\<rparr> demo_rally = (Inr pub, st')"
    and pub: "ry_Holder pub = ''alice''" by (rule demo_baton_pass)
  obtain sess where "demo_rally ''rly_5_0a0b'' = Some sess" "rs_streams sess ''alice'' = None" using demo_rally_facts(4) by auto
  then have "rs_streams (the (demo_rally ''rly_5_0a0b'')) (ry_Holder pub) = None" by (simp add: pub)
  from oversized_note_locks_out [OF demo_rally_reached demo_rally_facts(1) adv _ this, of 11 0 "\<lambda>d. ([], False)" True "[]" False]
  have "\<exists>evt. fst (join_attempt 11 ''rly_5_0a0b'' ''alice'' st') = Some evt \<and>
      read_stream (\<lambda>d. ([], False)) True False False (writeSSEEvent evt) False = ([], Some ReadingStream)"
    unfolding pub by simp
  then show ?thesis by blast
qed

definition demo_event :: BatonEvent where
  "demo_event = \<lparr>be_TurnN = 2, be_From = ''bob'', be_Note = ''over to you'', be_Closed = False\<rparr>"

lemma demo_frames:
  "list_all short_frame [PingFrame, BatonFrame demo_event]"
  "reads_events (\<lambda>d. Some (d = close_data)) (\<lambda>d. Some demo_event) (set (batons [PingFrame, BatonFrame demo_event]))"
  "\<forall>evt \<in> set (batons [PingFrame, BatonFrame demo_event]). \<not> be_Closed evt"
proof -
  have "length (jprint (BatonEvent_json demo_event)) < 65530 \<and> jprint (BatonEvent_json demo_event) \<noteq> close_data" by code_simp
  then show "list_all short_frame [PingFrame, BatonFrame demo_event]"
    "reads_events (\<lambda>d. Some (d = close_data)) (\<lambda>d. Some demo_event) (set (batons [PingFrame, BatonFrame demo_event]))"
    by (simp_all add: short_frame_def reads_events_def demo_event_def)
qed (simp add: demo_event_def)

theorem join_shows_the_turns_witness:
  "read_stream (handleBatonEvent (\<lambda>d. Some (d = close_data)) (\<lambda>d. Some demo_event) ''rly_5_0a0b'' ''alice'') False False False
     (concat (map frame_bytes [PingFrame, BatonFrame demo_event])) False =
   (turn_lines ''rly_5_0a0b'' ''alice'' demo_event @ [''session closed''], None)"
  using join_shows_the_turns [OF demo_frames] by simp

theorem timeout_hides_batons_witness:
  "read_stream (handleBatonEvent (\<lambda>d. Some (d = close_data)) (\<lambda>d. Some demo_event) ''rly_5_0a0b'' ''alice'') False True False
     (concat (map frame_bytes [PingFrame, BatonFrame demo_event])) True =
   (turn_lines ''rly_5_0a0b'' ''alice'' demo_event, Some ErrTimeoutWaitingForBaton)"
  using timeout_hides_batons [OF demo_frames(1) _ demo_frames(2,3)] by simp

end
