(* ===== verification/McpClient.thy ===== *)
theory McpClient
  imports RallyClient McpProperties
begin

section \<open>The one-shot MCP client (internal/cli/rally\_mcp\_agent.go)\<close>

text \<open>
  The command \<^verbatim>\<open>rally mcp-agent\<close>: it opens the SSE stream of the broker's MCP surface, reads the
  endpoint event, makes the initialize exchange and one tool call, and prints the tool's text.
  The stream is the bytes that arrive until it ends; \<open>get\<close> is \<^verbatim>\<open>encoding/json\<close> at the type of a
  response, with the result as a generic map. The theory shows that the client gets the response
  meant for it out of whatever the broker of \<open>Mcp\<close> sends, what it makes of it, and how its
  timeouts fit the broker's.
\<close>

subsection \<open>Messages\<close>

record client_msg =
  cm_ID :: json
  cm_Result :: "(string \<times> json) list"
  cm_Error :: "(int \<times> string) option"

datatype tool_args =
    CreateArgs NewRallyRequest
  | JoinArgs RallyJoinToolArgs
  | DoneArgs RallyDoneToolArgs
  | StatusArgs RallyStatusToolArgs
  | InterruptArgs RallyInterruptToolArgs

datatype rpc_params = InitializeParams string string string | ToolCallParams string tool_args

datatype mcp_client_error =
    UnknownMode string
  | AgentContract contract_error
  | AgentBroker resolve_error
  | SseRequest
  | SseStatus nat
  | ReadEndpoint
  | NoEndpoint
  | RpcRequest
  | RpcStatus nat string
  | ReadMessage
  | UnmarshalMessage
  | StreamClosed
  | RpcError int string
  | MissingContent
  | MalformedContent
  | UnsupportedContent string
  | ToolError string
  | AgentTimeout

text \<open>The scanner of a client: the lines to come, and whether it ends in an error.\<close>

record mcpClient =
  mk_endpoint :: string
  mk_lines :: "string list"
  mk_failed :: bool
  mk_nextID :: int

fun readEndpoint :: "string list \<Rightarrow> bool \<Rightarrow> (mcp_client_error + string) \<times> string list" where
  "readEndpoint [] failed = (Inl (if failed then ReadEndpoint else NoEndpoint), [])"
| "readEndpoint (line # ls) failed =
     (if line = [] then readEndpoint ls failed
      else if HasPrefix line ''data: '' then (Inr (drop 6 line), ls)
      else readEndpoint ls failed)"

fun readMessage ::
  "(string \<Rightarrow> client_msg option) \<Rightarrow> string \<Rightarrow> string list \<Rightarrow> bool \<Rightarrow> (mcp_client_error + client_msg) \<times> string list" where
  "readMessage get data [] failed = (Inl (if failed then ReadMessage else StreamClosed), [])"
| "readMessage get data (line # ls) failed =
     (if line = [] then
        (if data \<noteq> [] then (case get data of None \<Rightarrow> (Inl UnmarshalMessage, ls) | Some msg \<Rightarrow> (Inr msg, ls))
         else readMessage get data ls failed)
      else if HasPrefix line '': '' then readMessage get data ls failed
      else if HasPrefix line ''data: '' then readMessage get (drop 6 line) ls failed
      else readMessage get data ls failed)"

lemma readMessage_shorter: "readMessage get data ls failed = (Inr msg, rest) \<Longrightarrow> length rest < length ls"
  by (induction get data ls failed rule: readMessage.induct) (auto split: if_splits option.splits)

text \<open>The loop of \<^verbatim>\<open>call\<close>: messages with other ids are passed over.\<close>

function await_reply ::
  "(string \<Rightarrow> client_msg option) \<Rightarrow> int \<Rightarrow> string list \<Rightarrow> bool \<Rightarrow> (mcp_client_error + (string \<times> json) list) \<times> string list" where
  "await_reply get rid ls failed =
     (case readMessage get [] ls failed of
        (Inl e, rest) \<Rightarrow> (Inl e, rest)
      | (Inr msg, rest) \<Rightarrow>
          if cm_ID msg = JInt rid then
            (case cm_Error msg of Some (code, message) \<Rightarrow> (Inl (RpcError code message), rest) | None \<Rightarrow> (Inr (cm_Result msg), rest))
          else await_reply get rid rest failed)"
  by pat_completeness auto
termination
  by (relation "measure (\<lambda>(get, rid, ls, failed). length ls)") (auto dest: readMessage_shorter [OF sym])

declare await_reply.simps [simp del]

datatype post_reply = PostFails | PostReply nat string

definition client_call ::
  "(string \<Rightarrow> client_msg option) \<Rightarrow> (string \<Rightarrow> int \<Rightarrow> string \<Rightarrow> rpc_params \<Rightarrow> post_reply) \<Rightarrow> string \<Rightarrow> rpc_params \<Rightarrow> mcpClient \<Rightarrow>
   (mcp_client_error + (string \<times> json) list) \<times> mcpClient" where
  "client_call get post rpc_method params c =
     (let rid = mk_nextID c + 1; c1 = c\<lparr>mk_nextID := rid\<rparr> in
      case post (mk_endpoint c) rid rpc_method params of
        PostFails \<Rightarrow> (Inl RpcRequest, c1)
      | PostReply status text \<Rightarrow>
          if status \<noteq> 202 then (Inl (RpcStatus status (TrimSpace text)), c1)
          else (let (r, rest) = await_reply get rid (mk_lines c1) (mk_failed c1) in (r, c1\<lparr>mk_lines := rest\<rparr>)))"

text \<open>The checks of \<^verbatim>\<open>callTool\<close> on the result; a failed type assertion gives the zero value.\<close>

definition tool_text :: "(string \<times> json) list \<Rightarrow> mcp_client_error + string" where
  "tool_text result =
     (case map_of result ''content'' of
        Some (JArr (item # items)) \<Rightarrow>
          (case item of
             JObj fs \<Rightarrow>
               (let typ = (case map_of fs ''type'' of Some (JStr t) \<Rightarrow> t | _ \<Rightarrow> []);
                    text = (case map_of fs ''text'' of Some (JStr t) \<Rightarrow> t | _ \<Rightarrow> [])
                in if typ \<noteq> ''text'' then Inl (UnsupportedContent typ)
                   else if map_of result ''isError'' = Some (JBool True) then Inl (ToolError text)
                   else Inr text)
           | _ \<Rightarrow> Inl MalformedContent)
      | _ \<Rightarrow> Inl MissingContent)"

definition callTool ::
  "(string \<Rightarrow> client_msg option) \<Rightarrow> (string \<Rightarrow> int \<Rightarrow> string \<Rightarrow> rpc_params \<Rightarrow> post_reply) \<Rightarrow> string \<Rightarrow> tool_args \<Rightarrow> mcpClient \<Rightarrow>
   (mcp_client_error + string) \<times> mcpClient" where
  "callTool get post tool args c =
     (case client_call get post ''tools/call'' (ToolCallParams tool args) c of
        (Inl e, c') \<Rightarrow> (Inl e, c')
      | (Inr result, c') \<Rightarrow> (tool_text result, c'))"

subsection \<open>Connecting\<close>

definition base_url :: "endpoint \<Rightarrow> string" where
  "base_url ep = (case ep of OverSocket p \<Rightarrow> ''http://rallish.local'' | OverPort port \<Rightarrow> ''http://127.0.0.1:'' @ port)"

datatype sse_exchange = SseFails | SseStream nat bytes bool

definition handshake ::
  "(string \<Rightarrow> client_msg option) \<Rightarrow> (string \<Rightarrow> int \<Rightarrow> string \<Rightarrow> rpc_params \<Rightarrow> post_reply) \<Rightarrow> sse_exchange \<Rightarrow> endpoint \<Rightarrow>
   mcp_client_error + mcpClient" where
  "handshake get post sse ep =
     (case sse of
        SseFails \<Rightarrow> Inl SseRequest
      | SseStream status body failed \<Rightarrow>
          if status \<noteq> 200 then Inl (SseStatus status)
          else
            (let (ls, long) = scan_lines body; bad = (long \<or> failed) in
             case readEndpoint ls bad of
               (Inl e, rest) \<Rightarrow> Inl e
             | (Inr path, rest) \<Rightarrow>
                 (case client_call get post ''initialize'' (InitializeParams MCPProtocolVersion ''rallish-mcp-agent'' ''0.1.0'')
                         \<lparr>mk_endpoint = base_url ep @ path, mk_lines = rest, mk_failed = bad, mk_nextID = 0\<rparr> of
                    (Inl e, c) \<Rightarrow> Inl e
                  | (Inr result, c) \<Rightarrow> Inr c)))"

text \<open>The part the modes share: \<^verbatim>\<open>newMCPClient\<close>, the handshake and one tool call.\<close>

definition agent_tool ::
  "string option \<Rightarrow> string \<Rightarrow> (string \<Rightarrow> client_msg option) \<Rightarrow> (string \<Rightarrow> int \<Rightarrow> string \<Rightarrow> rpc_params \<Rightarrow> post_reply) \<Rightarrow>
   (endpoint \<Rightarrow> sse_exchange) \<Rightarrow> string \<Rightarrow> tool_args \<Rightarrow> broker_home \<Rightarrow> (mcp_client_error + string) \<times> broker_home" where
  "agent_tool wd sockDir get post open_sse tool args h =
     (case resolveBrokerClient wd sockDir h of
        (Inl e, h') \<Rightarrow> (Inl (AgentBroker e), h')
      | (Inr ep, h') \<Rightarrow>
          (case handshake get post (open_sse ep) ep of
             Inl e \<Rightarrow> (Inl e, h')
           | Inr c \<Rightarrow> (fst (callTool get post tool args c), h')))"

subsection \<open>The modes\<close>

record mcpAgentOptions =
  mo_Mode :: string
  mo_Participants :: string
  mo_Repo :: string
  mo_Task :: string
  mo_FirstHolder :: string
  mo_SessionID :: string
  mo_As :: string
  mo_Timeout :: int
  mo_Note :: string
  mo_HandoffTo :: string

text \<open>The lines printed and the error, if any.\<close>

type_synonym agent_run = "string list \<times> mcp_client_error option"

definition print_text :: "(mcp_client_error + string) \<times> broker_home \<Rightarrow> agent_run \<times> broker_home" where
  "print_text r = (case r of (Inl e, h) \<Rightarrow> (([], Some e), h) | (Inr text, h) \<Rightarrow> (([text], None), h))"

definition checked_session :: "string \<Rightarrow> broker_home \<Rightarrow> agent_run \<times> broker_home \<Rightarrow> agent_run \<times> broker_home" where
  "checked_session sid h run = (case NewSessionID sid of Inl e \<Rightarrow> (([], Some (AgentContract e)), h) | Inr s \<Rightarrow> run)"

definition checked_name :: "string \<Rightarrow> broker_home \<Rightarrow> agent_run \<times> broker_home \<Rightarrow> agent_run \<times> broker_home" where
  "checked_name as h run = (case NewParticipantName as of Inl e \<Rightarrow> (([], Some (AgentContract e)), h) | Inr p \<Rightarrow> run)"

definition runMCPAgentCreate ::
  "(string \<Rightarrow> tool_args \<Rightarrow> broker_home \<Rightarrow> (mcp_client_error + string) \<times> broker_home) \<Rightarrow> mcpAgentOptions \<Rightarrow> broker_home \<Rightarrow>
   agent_run \<times> broker_home" where
  "runMCPAgentCreate tool opts h =
     (let names = splitParticipants (mo_Participants opts) in
      if length names < 2 then (([], Some (AgentContract ErrTooFewParticipants)), h)
      else print_text (tool ''rally_create'' (CreateArgs \<lparr>nr_Participants = names, nr_Repo = mo_Repo opts, nr_Task = mo_Task opts,
             nr_FirstHolder = mo_FirstHolder opts\<rparr>) h))"

text \<open>Durations are nanoseconds in 64 bits; the client's own limit, and what it asks the broker for.\<close>

definition agent_client_timeout :: "int \<Rightarrow> int" where
  "agent_client_timeout timeout =
     (let clientTimeout = (if timeout \<le> 0 then 30 * 1000000000 else timeout) in i64 (clientTimeout + 5 * 1000000000))"

definition agent_timeout_ms :: "int \<Rightarrow> int" where
  "agent_timeout_ms timeout = timeout sdiv 1000000"

text \<open>\<open>get_timeout\<close> is \<^verbatim>\<open>encoding/json\<close> at the type of the timeout marker.\<close>

definition runMCPAgentJoin ::
  "(string \<Rightarrow> bool option) \<Rightarrow> (string \<Rightarrow> tool_args \<Rightarrow> broker_home \<Rightarrow> (mcp_client_error + string) \<times> broker_home) \<Rightarrow>
   mcpAgentOptions \<Rightarrow> broker_home \<Rightarrow> agent_run \<times> broker_home" where
  "runMCPAgentJoin get_timeout tool opts h =
     checked_session (mo_SessionID opts) h (checked_name (mo_As opts) h
       (case tool ''rally_join'' (JoinArgs \<lparr>ja_SessionID = mo_SessionID opts, ja_As = mo_As opts,
               ja_TimeoutMS = agent_timeout_ms (mo_Timeout opts)\<rparr>) h of
          (Inl e, h') \<Rightarrow> (([], Some e), h')
        | (Inr text, h') \<Rightarrow> (([text], if get_timeout text = Some True then Some AgentTimeout else None), h')))"

definition runMCPAgentDone ::
  "(string \<Rightarrow> tool_args \<Rightarrow> broker_home \<Rightarrow> (mcp_client_error + string) \<times> broker_home) \<Rightarrow> mcpAgentOptions \<Rightarrow> broker_home \<Rightarrow>
   agent_run \<times> broker_home" where
  "runMCPAgentDone tool opts h =
     checked_session (mo_SessionID opts) h (checked_name (mo_As opts) h
       (print_text (tool ''rally_done'' (DoneArgs \<lparr>da_SessionID = mo_SessionID opts, da_As = mo_As opts, da_Note = mo_Note opts,
          da_HandoffTo = mo_HandoffTo opts\<rparr>) h)))"

definition runMCPAgentStatus ::
  "(string \<Rightarrow> tool_args \<Rightarrow> broker_home \<Rightarrow> (mcp_client_error + string) \<times> broker_home) \<Rightarrow> mcpAgentOptions \<Rightarrow> broker_home \<Rightarrow>
   agent_run \<times> broker_home" where
  "runMCPAgentStatus tool opts h =
     checked_session (mo_SessionID opts) h
       (print_text (tool ''rally_status'' (StatusArgs \<lparr>sa_SessionID = mo_SessionID opts\<rparr>) h))"

definition runMCPAgentInterrupt ::
  "(string \<Rightarrow> tool_args \<Rightarrow> broker_home \<Rightarrow> (mcp_client_error + string) \<times> broker_home) \<Rightarrow> mcpAgentOptions \<Rightarrow> broker_home \<Rightarrow>
   agent_run \<times> broker_home" where
  "runMCPAgentInterrupt tool opts h =
     checked_session (mo_SessionID opts) h
       (print_text (tool ''rally_interrupt'' (InterruptArgs \<lparr>ia_SessionID = mo_SessionID opts\<rparr>) h))"

definition runRallyMCPAgent ::
  "(string \<Rightarrow> bool option) \<Rightarrow> (string \<Rightarrow> tool_args \<Rightarrow> broker_home \<Rightarrow> (mcp_client_error + string) \<times> broker_home) \<Rightarrow>
   mcpAgentOptions \<Rightarrow> broker_home \<Rightarrow> agent_run \<times> broker_home" where
  "runRallyMCPAgent get_timeout tool opts h =
     (if mo_Mode opts = ''create'' then runMCPAgentCreate tool opts h
      else if mo_Mode opts = ''join'' then runMCPAgentJoin get_timeout tool opts h
      else if mo_Mode opts = ''done'' then runMCPAgentDone tool opts h
      else if mo_Mode opts = ''status'' then runMCPAgentStatus tool opts h
      else if mo_Mode opts = ''interrupt'' then runMCPAgentInterrupt tool opts h
      else (([], Some (UnknownMode (mo_Mode opts))), h))"

subsection \<open>What the broker writes to the stream (internal/broker/mcp.go)\<close>

text \<open>The fields of a result, as the generic map the client decodes.\<close>

definition content_json :: "MCPContent \<Rightarrow> json" where
  "content_json n = JObj [(''type'', JStr (mn_Type n)), (''text'', JStr (mn_Text n))]"

definition tool_json :: "MCPTool \<Rightarrow> json" where
  "tool_json t =
     JObj [(''name'', JStr (mt_Name t)), (''description'', JStr (mt_Description t)),
       (''inputSchema'', JObj ([(''type'', JStr (is_Type (mt_InputSchema t))), (''properties'', JObj (is_Properties (mt_InputSchema t)))] @
          omit_arr ''required'' (map JStr (is_Required (mt_InputSchema t)))))]"

fun result_fields :: "mcp_result \<Rightarrow> (string \<times> json) list" where
  "result_fields (InitializeResult protocol server version) =
     [(''capabilities'', JObj []), (''protocolVersion'', JStr protocol),
      (''serverInfo'', JObj [(''name'', JStr server), (''version'', JStr version)])]"
| "result_fields (ToolsListResult tools) = [(''tools'', JArr (map tool_json tools))]"
| "result_fields (ToolCallResult contents isError) =
     (''content'', JArr (map content_json contents)) # omit_bool ''isError'' isError"

definition msg_of :: "MCPJSONRPCResponse \<Rightarrow> client_msg" where
  "msg_of resp =
     \<lparr>cm_ID = mr_ID resp, cm_Result = (case mr_Result resp of None \<Rightarrow> [] | Some r \<Rightarrow> result_fields r),
      cm_Error = map_option (\<lambda>e. (me_Code e, me_Message e)) (mr_Error resp)\<rparr>"

datatype mcp_frame = EndpointFrame string | MessageFrame MCPJSONRPCResponse | McpPing

text \<open>\<open>wire\<close> is the JSON of a response.\<close>

fun mcp_bytes :: "(MCPJSONRPCResponse \<Rightarrow> string) \<Rightarrow> mcp_frame \<Rightarrow> bytes" where
  "mcp_bytes wire (EndpointFrame path) = ''event: endpoint'' @ [CHR 0x0A] @ ''data: '' @ path @ [CHR 0x0A, CHR 0x0A]"
| "mcp_bytes wire (MessageFrame resp) = ''event: message'' @ [CHR 0x0A] @ ''data: '' @ wire resp @ [CHR 0x0A, CHR 0x0A]"
| "mcp_bytes wire McpPing = write_ping"

subsection \<open>Reading the broker's stream\<close>

fun mcp_lines :: "(MCPJSONRPCResponse \<Rightarrow> string) \<Rightarrow> mcp_frame \<Rightarrow> string list" where
  "mcp_lines wire (EndpointFrame path) = [''event: endpoint'', ''data: '' @ path, []]"
| "mcp_lines wire (MessageFrame resp) = [''event: message'', ''data: '' @ wire resp, []]"
| "mcp_lines wire McpPing = ['': ping'', []]"

definition one_line :: "string \<Rightarrow> bool" where
  "one_line t \<longleftrightarrow> CHR 0x0A \<notin> set t \<and> CHR 0x0D \<notin> set t \<and> t \<noteq> []"

text \<open>The texts of a frame are single lines, and they are short.\<close>

fun fits :: "(MCPJSONRPCResponse \<Rightarrow> string) \<Rightarrow> mcp_frame \<Rightarrow> bool" where
  "fits wire (EndpointFrame path) \<longleftrightarrow> one_line path \<and> length path < 65530"
| "fits wire (MessageFrame resp) \<longleftrightarrow> one_line (wire resp) \<and> length (wire resp) < 65530"
| "fits wire McpPing \<longleftrightarrow> True"

lemma mcp_lines_short:
  assumes "fits wire f"
  shows "list_all (\<lambda>l. CHR 0x0A \<notin> set l \<and> length l < MaxScanTokenSize) (mcp_lines wire f)"
    and "map drop_cr (mcp_lines wire f) = mcp_lines wire f"
    and "mcp_bytes wire f = concat (map (\<lambda>l. l @ [CHR 0x0A]) (mcp_lines wire f))"
proof -
  show "map drop_cr (mcp_lines wire f) = mcp_lines wire f"
    using assms by (cases f) (auto simp: one_line_def drop_cr_plain)
qed (use assms in \<open>cases f; auto simp: one_line_def write_ping_def\<close>)+

lemma scan_mcp:
  assumes "list_all (fits wire) fs"
  shows "scan_lines (concat (map (mcp_bytes wire) fs) @ b) =
    (concat (map (mcp_lines wire) fs) @ fst (scan_lines b), snd (scan_lines b))"
proof -
  have "list_all (\<lambda>l. CHR 0x0A \<notin> set l \<and> length l < MaxScanTokenSize) (concat (map (mcp_lines wire) fs))"
    using assms mcp_lines_short(1) by (fastforce simp: list_all_iff)
  moreover have "map drop_cr (concat (map (mcp_lines wire) fs)) = concat (map (mcp_lines wire) fs)"
    using assms mcp_lines_short(2) by (induction fs) simp_all
  moreover have "concat (map (mcp_bytes wire) fs) = concat (map (\<lambda>l. l @ [CHR 0x0A]) (concat (map (mcp_lines wire) fs)))"
    using assms mcp_lines_short(3) by (induction fs) (simp_all del: mcp_bytes.simps mcp_lines.simps)
  ultimately show ?thesis using scan_lines_concat by presburger
qed

text \<open>Frames that are not the response with the given id, and decode.\<close>

definition other_frame :: "(MCPJSONRPCResponse \<Rightarrow> string) \<Rightarrow> (string \<Rightarrow> client_msg option) \<Rightarrow> int \<Rightarrow> mcp_frame \<Rightarrow> bool" where
  "other_frame wire get rid f =
     (case f of
        EndpointFrame path \<Rightarrow> False
      | MessageFrame resp \<Rightarrow> mr_ID resp \<noteq> JInt rid \<and> wire resp \<noteq> [] \<and> get (wire resp) = Some (msg_of resp)
      | McpPing \<Rightarrow> True)"

lemma await_message:
  assumes "wire resp \<noteq> []" "get (wire resp) = Some (msg_of resp)"
  shows "await_reply get rid (mcp_lines wire (MessageFrame resp) @ ls) failed =
    (if mr_ID resp = JInt rid then
       (case mr_Error resp of
          Some e \<Rightarrow> (Inl (RpcError (me_Code e) (me_Message e)), ls)
        | None \<Rightarrow> (Inr (cm_Result (msg_of resp)), ls))
     else await_reply get rid ls failed)"
  using assms
  by (subst await_reply.simps) (auto simp: HasPrefix_def msg_of_def split: option.splits)

lemma await_ping: "await_reply get rid (mcp_lines wire McpPing @ ls) failed = await_reply get rid ls failed"
  by (subst await_reply.simps, subst (2) await_reply.simps) (simp add: HasPrefix_def)

lemma await_skips:
  "list_all (other_frame wire get rid) fs \<Longrightarrow>
   await_reply get rid (concat (map (mcp_lines wire) fs) @ ls) failed = await_reply get rid ls failed"
proof (induction fs)
  case (Cons f fs)
  show ?case
  proof (cases f)
    case (MessageFrame resp)
    with Cons.prems have "wire resp \<noteq> []" "get (wire resp) = Some (msg_of resp)" "mr_ID resp \<noteq> JInt rid"
      by (simp_all add: other_frame_def)
    with await_message [of wire resp get rid] MessageFrame Cons show ?thesis by (simp del: mcp_lines.simps)
  next
    case McpPing
    with await_ping [of get rid wire] Cons show ?thesis by (simp del: mcp_lines.simps)
  qed (use Cons.prems in \<open>simp add: other_frame_def\<close>)
qed simp

definition accepts :: "string \<Rightarrow> int \<Rightarrow> string \<Rightarrow> rpc_params \<Rightarrow> post_reply" where
  "accepts url rid rpc_method params = PostReply 202 []"

text \<open>The stream up to the tool's response: endpoint, initialize response with id 1, other frames.\<close>

definition preamble :: "string \<Rightarrow> mcp_frame list \<Rightarrow> MCPJSONRPCResponse \<Rightarrow> mcp_frame list \<Rightarrow> mcp_frame list" where
  "preamble path pre1 init pre2 = EndpointFrame path # pre1 @ MessageFrame init # pre2"

definition preamble_ok ::
  "(MCPJSONRPCResponse \<Rightarrow> string) \<Rightarrow> (string \<Rightarrow> client_msg option) \<Rightarrow> mcp_frame list \<Rightarrow> MCPJSONRPCResponse \<Rightarrow> mcp_frame list \<Rightarrow> bool" where
  "preamble_ok wire get pre1 init pre2 \<longleftrightarrow>
     list_all (other_frame wire get 1) pre1 \<and> list_all (other_frame wire get 2) pre2 \<and>
     mr_ID init = JInt 1 \<and> mr_Error init = None \<and> get (wire init) = Some (msg_of init) \<and> wire init \<noteq> []"

lemma handshake_preamble:
  assumes "preamble_ok wire get pre1 init pre2" "list_all (fits wire) (preamble path pre1 init pre2)"
  shows "handshake get accepts (SseStream 200 (concat (map (mcp_bytes wire) (preamble path pre1 init pre2)) @ b) failed) ep =
    Inr \<lparr>mk_endpoint = base_url ep @ path, mk_lines = concat (map (mcp_lines wire) pre2) @ fst (scan_lines b),
         mk_failed = snd (scan_lines b) \<or> failed, mk_nextID = 1\<rparr>"
proof -
  let ?bad = "snd (scan_lines b) \<or> failed"
  have e: "readEndpoint (mcp_lines wire (EndpointFrame path) @ ls) bad = (Inr path, [] # ls)" for ls bad
    by (simp add: HasPrefix_def)
  have blank: "await_reply get 1 ([] # ls) bad = await_reply get 1 ls bad" for ls bad
    by (subst await_reply.simps, subst (2) await_reply.simps) simp
  have "await_reply get 1 ([] # concat (map (mcp_lines wire) pre1) @ mcp_lines wire (MessageFrame init) @ ls) ?bad =
      (Inr (cm_Result (msg_of init)), ls)" for ls
    using assms(1) await_skips [of wire get 1 pre1] await_message [of wire init get 1]
    by (simp add: blank preamble_ok_def del: mcp_lines.simps)
  then show ?thesis
    using scan_mcp [OF assms(2), of b] e
    by (simp add: handshake_def preamble_def client_call_def accepts_def Let_def del: mcp_lines.simps mcp_bytes.simps)
qed

lemma agent_tool_preamble:
  assumes "preamble_ok wire get pre1 init pre2" "list_all (fits wire) (preamble path pre1 init pre2)"
    and "resolveBrokerClient wd sockDir h = (Inr ep, h')"
    and "open_sse ep = SseStream 200 (concat (map (mcp_bytes wire) (preamble path pre1 init pre2)) @ b) failed"
  shows "agent_tool wd sockDir get accepts open_sse tool args h =
    ((case await_reply get 2 (fst (scan_lines b)) (snd (scan_lines b) \<or> failed) of
        (Inl e, rest) \<Rightarrow> Inl e | (Inr result, rest) \<Rightarrow> tool_text result), h')"
proof -
  have "await_reply get 2 (concat (map (mcp_lines wire) pre2) @ fst (scan_lines b)) bad = await_reply get 2 (fst (scan_lines b)) bad" for bad
    using assms(1) by (intro await_skips) (simp add: preamble_ok_def)
  with handshake_preamble [OF assms(1,2)] assms(3,4) show ?thesis
    by (simp add: agent_tool_def callTool_def client_call_def accepts_def Let_def split: prod.split sum.split)
qed

text \<open>
  A long answer is lost. When the JSON of the tool's response has 65530 bytes or more, as the
  snapshot of a session with a long history has, the client reports a read error, although the
  broker has carried the call out and answered it.
\<close>

theorem long_reply_lost:
  assumes "preamble_ok wire get pre1 init pre2" and "list_all (fits wire) (preamble path pre1 init pre2)"
    and "one_line (wire resp)" and "65530 \<le> length (wire resp)"
    and "resolveBrokerClient wd sockDir h = (Inr ep, h')"
    and "open_sse ep = SseStream 200 (concat (map (mcp_bytes wire) (preamble path pre1 init pre2 @ MessageFrame resp # post))) failed"
  shows "agent_tool wd sockDir get accepts open_sse tool args h = (Inl ReadMessage, h')"
proof -
  let ?l = "''data: '' @ wire resp" and ?z = "[CHR 0x0A, CHR 0x0A] @ concat (map (mcp_bytes wire) post)"
  have "MaxScanTokenSize \<le> length ?l" "CHR 0x0A \<notin> set ?l" using assms(3,4) by (simp_all add: one_line_def)
  then have "scan_lines (?l @ ?z) = ([], True)" by (intro scan_lines_long)
  moreover have "scan_lines (''event: message'' @ CHR 0x0A # ?l @ ?z) =
      (drop_cr ''event: message'' # fst (scan_lines (?l @ ?z)), snd (scan_lines (?l @ ?z)))"
    by (rule scan_lines_line) simp_all
  ultimately have b: "scan_lines (concat (map (mcp_bytes wire) (MessageFrame resp # post))) = ([''event: message''], True)"
    by (simp add: drop_cr_def)
  have "open_sse ep = SseStream 200 (concat (map (mcp_bytes wire) (preamble path pre1 init pre2)) @
      concat (map (mcp_bytes wire) (MessageFrame resp # post))) failed"
    using assms(6) by (simp del: mcp_bytes.simps)
  from agent_tool_preamble [where ep = ep and open_sse = open_sse, OF assms(1,2,5) this] show ?thesis
    unfolding b by (simp add: await_reply.simps HasPrefix_def)
qed

text \<open>
  (C36) The client gets the answer to its call if it is short enough. Let the endpoint line and every
  message the broker sends before the answer fit the scanner's line, and be pings and responses to other ids.
  Then the tool's response comes out of the stream as the broker made it (the text of the value, the tool's
  error as an error, or the broker's own failure with its code) when its JSON has fewer than
  65530 bytes; with 65530 bytes or more the client reports a read error instead. What comes after
  the response does not matter.
\<close>

theorem tool_reply_arrives:
  assumes "preamble_ok wire get pre1 init pre2" and "list_all (fits wire) (preamble path pre1 init pre2)"
    and "one_line (wire resp)" and "resp = tool_response cfg (JInt 2) r" and "get (wire resp) = Some (msg_of resp)"
    and "resolveBrokerClient wd sockDir h = (Inr ep, h')"
    and "open_sse ep = SseStream 200 (concat (map (mcp_bytes wire) (preamble path pre1 init pre2 @ MessageFrame resp # post))) failed"
  shows "agent_tool wd sockDir get accepts open_sse tool args h =
    (if 65530 \<le> length (wire resp) then Inl ReadMessage
     else case r of
        Inl e \<Rightarrow> Inl (ToolError (mg_errText cfg e))
      | Inr v \<Rightarrow>
          (case mg_marshal cfg v of
             Inl e \<Rightarrow> Inl (RpcError (-32603) ''Internal error: failed to marshal result'')
           | Inr text \<Rightarrow> Inr text), h')"
proof (cases "65530 \<le> length (wire resp)")
  case True
  from long_reply_lost [where ep = ep and open_sse = open_sse and resp = resp and post = post, OF assms(1-3) True assms(6,7)]
  show ?thesis using True by simp
next
  case short: False
  let ?z = "concat (map (mcp_bytes wire) post)"
  let ?b = "mcp_bytes wire (MessageFrame resp) @ ?z"
  have fit: "list_all (fits wire) [MessageFrame resp]" using assms(3) short by simp
  have "fst (scan_lines ?b) = mcp_lines wire (MessageFrame resp) @ fst (scan_lines ?z)"
    using scan_mcp [OF fit, of ?z] by (simp del: mcp_lines.simps mcp_bytes.simps)
  moreover have "wire resp \<noteq> []" using assms(3) by (simp add: one_line_def)
  ultimately have "await_reply get 2 (fst (scan_lines ?b)) bad =
     (if mr_ID resp = JInt 2 then
       (case mr_Error resp of
          Some e \<Rightarrow> (Inl (RpcError (me_Code e) (me_Message e)), fst (scan_lines ?z))
        | None \<Rightarrow> (Inr (cm_Result (msg_of resp)), fst (scan_lines ?z)))
     else await_reply get 2 (fst (scan_lines ?z)) bad)" for bad
    using await_message [of wire resp get 2] assms(5) by simp
  moreover have "open_sse ep = SseStream 200 (concat (map (mcp_bytes wire) (preamble path pre1 init pre2)) @ ?b) failed"
    using assms(7) by (simp del: mcp_bytes.simps)
  ultimately show ?thesis
    using agent_tool_preamble [OF assms(1,2,6)] short
    by (cases r)
      (auto simp: assms(4) tool_response_def mcpToolErrorResponse_def mcpToolSuccessResponse_def mcpErrorResponse_def msg_of_def
        tool_text_def content_json_def omit_bool_def split: sum.split)
qed

subsection \<open>Two clocks\<close>

text \<open>
  The client waits longer than the broker. For every timeout of a millisecond or more, and for
  the defaults, the client's limit is at least five seconds beyond the time after which the broker
  answers a join. For a timeout below a millisecond it is not: the broker is asked for nothing,
  takes its default of thirty seconds, and the client gives up before.
\<close>

theorem client_outwaits_broker:
  assumes "- (2 ^ 63) \<le> timeout" and "timeout < 2 ^ 63 - 5 * 10 ^ 9"
  shows "(timeout \<le> 0 \<or> 10 ^ 6 \<le> timeout \<longleftrightarrow>
           join_timeout (agent_timeout_ms timeout) + 5 * 10 ^ 9 \<le> agent_client_timeout timeout) \<and>
    (0 < timeout \<and> timeout < 10 ^ 6 \<longrightarrow>
       join_timeout (agent_timeout_ms timeout) = 30 * 10 ^ 9 \<and> agent_client_timeout timeout < 6 * 10 ^ 9)"
proof -
  consider (neg) "timeout \<le> 0" | (small) "0 < timeout" "timeout < 10 ^ 6" | (big) "10 ^ 6 \<le> timeout" by linarith
  then show ?thesis
  proof cases
    case neg
    have "- (timeout div 10 ^ 6) * 10 ^ 6 \<ge> 0" using neg by (simp add: div_nonpos_pos_le0)
    have "agent_timeout_ms timeout = - ((- timeout) div 1000000)"
      using neg by (cases "timeout = 0") (simp_all add: agent_timeout_ms_def signed_divide_int_def)
    moreover have "(- timeout) div 1000000 * 1000000 \<le> - timeout" "0 \<le> (- timeout) div 1000000"
      using neg by (simp_all add: div_times_less_eq_dividend pos_imp_zdiv_nonneg_iff)
    ultimately have "i64 (agent_timeout_ms timeout * 1000000) = agent_timeout_ms timeout * 1000000"
      "agent_timeout_ms timeout * 1000000 \<le> 0"
      using assms(1) by (auto intro!: i64_id simp: in_i64_def)
    then have "join_timeout (agent_timeout_ms timeout) = 30 * 10 ^ 9" by (simp add: join_timeout_def Let_def)
    moreover have "agent_client_timeout timeout = 35 * 10 ^ 9"
      using neg by (simp add: agent_client_timeout_def Let_def i64_def)
    ultimately show ?thesis using neg by simp
  next
    case small
    then have "agent_timeout_ms timeout = 0" by (simp add: agent_timeout_ms_def signed_divide_int_def)
    then have "join_timeout (agent_timeout_ms timeout) = 30 * 10 ^ 9" by (simp add: join_timeout_def i64_def Let_def)
    moreover have "agent_client_timeout timeout = timeout + 5 * 10 ^ 9"
      using small by (simp add: agent_client_timeout_def Let_def in_i64_def)
    ultimately show ?thesis using small by simp
  next
    case big
    define ms where "ms = timeout div 1000000"
    have ms: "agent_timeout_ms timeout = ms" using big by (simp add: agent_timeout_ms_def signed_divide_int_def ms_def)
    have "ms * 1000000 \<le> timeout" "1 \<le> ms" using big by (simp_all add: ms_def div_times_less_eq_dividend pos_imp_zdiv_pos_iff)
    moreover from this assms(2) have "i64 (ms * 1000000) = ms * 1000000" by (intro i64_id) (simp add: in_i64_def)
    ultimately have "join_timeout ms \<le> timeout" by (auto simp: join_timeout_def Let_def)
    moreover have "agent_client_timeout timeout = timeout + 5 * 10 ^ 9"
      using big assms(2) by (simp add: agent_client_timeout_def Let_def in_i64_def)
    ultimately show ?thesis using big by (simp add: ms)
  qed
qed

subsection \<open>Witnesses\<close>

definition demo_cfg :: mcp_config where
  "demo_cfg = \<lparr>mg_marshal = (\<lambda>v. Inr ''{}''), mg_errText = (\<lambda>e. ''no''), mg_version = ''1''\<rparr>"

definition demo_init :: MCPJSONRPCResponse where
  "demo_init = \<lparr>mr_ID = JInt 1, mr_Result = Some (InitializeResult MCPProtocolVersion ''rallish'' ''1''), mr_Error = None\<rparr>"

definition demo_answer_resp :: MCPJSONRPCResponse where
  "demo_answer_resp = tool_response demo_cfg (JInt 2) (Inr McpTimeout)"

definition demo_wire :: "string \<Rightarrow> MCPJSONRPCResponse \<Rightarrow> string" where
  "demo_wire t resp = (if mr_ID resp = JInt 1 then ''i'' else t)"

definition demo_get :: "string \<Rightarrow> client_msg option" where
  "demo_get t = Some (msg_of (if t = ''i'' then demo_init else demo_answer_resp))"

definition demo_sse :: "string \<Rightarrow> endpoint \<Rightarrow> sse_exchange" where
  "demo_sse t ep =
     SseStream 200 (concat (map (mcp_bytes (demo_wire t)) (preamble ''/m'' [McpPing] demo_init [] @ MessageFrame demo_answer_resp # []))) False"

lemma demo_preamble:
  "preamble_ok (demo_wire t) demo_get [McpPing] demo_init []"
  "list_all (fits (demo_wire t)) (preamble ''/m'' [McpPing] demo_init [])"
  by (simp_all add: preamble_ok_def preamble_def other_frame_def demo_wire_def demo_get_def demo_init_def one_line_def)

lemma demo_answer_id: "mr_ID demo_answer_resp = JInt 2"
  by (simp add: demo_answer_resp_def tool_response_def mcpToolSuccessResponse_def demo_cfg_def)

definition demo_args :: tool_args where
  "demo_args = JoinArgs \<lparr>ja_SessionID = ''rly_5_0a0b'', ja_As = ''bob'', ja_TimeoutMS = 1000\<rparr>"

theorem tool_reply_arrives_witness:
  "agent_tool (Some ''/w'') ''/h/.rallish'' demo_get accepts (demo_sse ''a'') ''rally_join'' demo_args live_home = (Inr ''{}'', live_home)"
proof -
  have "one_line (demo_wire ''a'' demo_answer_resp)" "length (demo_wire ''a'' demo_answer_resp) < 65530"
    by (simp_all add: demo_wire_def demo_answer_id one_line_def)
  moreover have "demo_get (demo_wire ''a'' demo_answer_resp) = Some (msg_of demo_answer_resp)"
    by (simp add: demo_wire_def demo_answer_id demo_get_def)
  ultimately show ?thesis
    using tool_reply_arrives [OF demo_preamble _ demo_answer_resp_def _ live_home_lookup, of "''a''" "demo_sse ''a''" "[]" False
        "''rally_join''" demo_args]
    by (simp add: demo_sse_def demo_cfg_def)
qed

theorem long_reply_lost_witness:
  "agent_tool (Some ''/w'') ''/h/.rallish'' demo_get accepts (demo_sse (replicate 65530 (CHR ''x''))) ''rally_done''
     (DoneArgs \<lparr>da_SessionID = ''rly_5_0a0b'', da_As = ''bob'', da_Note = ''n'', da_HandoffTo = []\<rparr>) live_home =
   (Inl ReadMessage, live_home)"
proof -
  let ?t = "replicate 65530 (CHR ''x'')"
  have "demo_wire ?t demo_answer_resp = ?t" by (simp add: demo_wire_def demo_answer_id)
  then have "one_line (demo_wire ?t demo_answer_resp)" "65530 \<le> length (demo_wire ?t demo_answer_resp)"
    by (simp_all only: one_line_def set_replicate_conv_if length_replicate) simp_all
  from long_reply_lost [OF demo_preamble this live_home_lookup, of "demo_sse ?t" "[]" False] show ?thesis
    by (simp add: demo_sse_def)
qed

theorem client_outwaits_broker_witness:
  "join_timeout (agent_timeout_ms 2500000000) + 5 * 10 ^ 9 \<le> agent_client_timeout 2500000000 \<and>
   agent_client_timeout 500000 < join_timeout (agent_timeout_ms 500000)"
  using client_outwaits_broker [of 2500000000] client_outwaits_broker [of 500000] by simp

end
