(* ===== verification/Paths.thy ===== *)
theory Paths
  imports Scratch
begin

section \<open>Names and joins of paths\<close>

text \<open>
  The functions of \<^verbatim>\<open>path/filepath\<close> the commands build file names with, and where a file lies whose
  name is joined to a directory.
\<close>

text \<open>
  \<^verbatim>\<open>filepath.Base\<close>, and \<^verbatim>\<open>filepath.Join\<close> of a rooted directory with a name. The home and the working
  directory are taken to be absolute: a relative \<^verbatim>\<open>$HOME\<close>, whose join would stay relative, is outside
  the model.
\<close>

definition filepath_Base :: "string \<Rightarrow> string" where
  "filepath_Base p =
     (if p = [] then ''.''
      else let q = TrimRight p (CHR ''/'') in
           if q = [] then ''/'' else rev (takeWhile (\<lambda>c. c \<noteq> CHR ''/'') (rev q)))"

definition filepath_Join2 :: "string \<Rightarrow> string \<Rightarrow> string" where
  "filepath_Join2 dir name = path_of (clean_segs [] (Split (dir @ ''/'' @ name) (CHR ''/'')))"

lemma clean_segs_append: "clean_segs acc (xs @ ys) = clean_segs (clean_segs acc xs) ys"
  by (induction acc xs rule: clean_segs.induct) auto

lemma Split_join: "Split (a @ c # b) c = Split a c @ Split b c"
proof (induction a)
  case (Cons x a)
  then show ?case by (cases "Split a c") auto
qed simp

lemma keeps_clean: "list_all clean_seg segs \<Longrightarrow> clean_segs acc segs = acc @ segs"
  by (induction segs arbitrary: acc) (auto simp: clean_seg_def)

text \<open>A path made of clean segments denotes them.\<close>

lemma segments_path_of:
  assumes "list_all clean_seg segs"
  shows "segments wd (path_of segs) = segs"
proof (cases "segs = []")
  case True
  then show ?thesis by (simp add: segments_def path_of_def HasPrefix_def)
next
  case False
  have "HasPrefix (path_of segs) ''/''" by (simp add: path_of_def HasPrefix_def)
  then show ?thesis using Split_path_of [OF assms False] keeps_clean [OF assms] by (simp add: segments_def)
qed

lemma Base_no_slash: "filepath_Base p = ''/'' \<or> CHR ''/'' \<notin> set (filepath_Base p)"
  by (auto simp: filepath_Base_def Let_def dest: set_takeWhileD)

text \<open>What is joined to a rooted directory lies below it when the name has no dots to resolve.\<close>

lemma join_path:
  assumes "HasPrefix dir ''/''" "\<And>acc. clean_segs acc (Split name (CHR ''/'')) = acc @ segs"
  shows "filepath_Join2 dir name = path_of (segments wd dir @ segs)"
proof -
  have dir: "segments wd dir = clean_segs [] (Split dir (CHR ''/''))" using assms(1) by (simp add: segments_def)
  show ?thesis using Split_join [of dir "CHR ''/''" name] assms(2) by (simp add: filepath_Join2_def dir clean_segs_append)
qed

lemma join_segments:
  assumes "HasPrefix dir ''/''" "\<And>acc. clean_segs acc (Split name (CHR ''/'')) = acc @ segs" "list_all clean_seg segs"
  shows "segments wd (filepath_Join2 dir name) = segments wd dir @ segs"
  unfolding join_path [OF assms(1,2), of wd] using segments_clean [of wd dir] assms(3) by (intro segments_path_of) simp

lemma joined_rooted: "HasPrefix (filepath_Join2 dir name) ''/''"
  by (simp add: filepath_Join2_def path_of_def HasPrefix_def)

lemma join_name:
  assumes "HasPrefix dir ''/''" "clean_seg name"
  shows "segments wd (filepath_Join2 dir name) = segments wd dir @ [name]"
  using assms by (intro join_segments) (auto simp: clean_seg_def Split_single)

lemma join_not_empty [simp]: "filepath_Join2 dir name \<noteq> []"
  by (simp add: filepath_Join2_def path_of_def)

lemma join_under_root:
  assumes "HasPrefix dir ''/''" "clean_seg name" "wd \<noteq> None"
  shows "UnderRoot wd (filepath_Join2 dir name) dir = None"
proof -
  have "dir \<noteq> []" using assms(1) by (auto simp: HasPrefix_def)
  then show ?thesis unfolding under_root_segments [OF assms(3)] join_name [OF assms(1,2)] by simp
qed

end
