(* ===== verification/CycleClient.thy ===== *)
theory CycleClient
  imports RallyClient CycleRequests Paths
begin

section \<open>The cycle commands (internal/cli/cycle.go)\<close>

text \<open>
  The commands \<^verbatim>\<open>cycle new\<close>, \<^verbatim>\<open>start\<close>, \<^verbatim>\<open>status\<close>, \<^verbatim>\<open>ledger\<close>, \<^verbatim>\<open>next\<close>, \<^verbatim>\<open>halt\<close> and \<^verbatim>\<open>watch\<close>: the requests they
  make, what they print, and the file \<^verbatim>\<open>status\<close> falls back on. The broker is the record of what its
  endpoints answer; the connection comes from the lookup of \<open>BrokerHome\<close>. The theory connects them
  with the broker of \<open>CycleBroker\<close>: which options reach it, and what a watcher sees of its events.
\<close>

subsection \<open>The broker as the commands see it\<close>

record cycle_api =
  api_create :: "endpoint \<Rightarrow> NewCycleRequest \<Rightarrow> CycleState exchange"
  api_orchestrate :: "endpoint \<Rightarrow> string \<Rightarrow> OrchestratorConfig \<Rightarrow> unit exchange"
  api_get :: "endpoint \<Rightarrow> string \<Rightarrow> CycleState exchange"
  api_ledger :: "endpoint \<Rightarrow> string \<Rightarrow> HarnessLedgerEntry list exchange"
  api_step :: "endpoint \<Rightarrow> string \<Rightarrow> string \<Rightarrow> CycleState exchange"
  api_halt :: "endpoint \<Rightarrow> string \<Rightarrow> string \<Rightarrow> CycleState exchange"
  api_events :: "endpoint \<Rightarrow> string \<Rightarrow> stream_exchange"

datatype cycle_client_error =
    NoCycleBroker resolve_error
  | CycleRequestFailed
  | CycleRefused nat string
  | CycleUndecodable
  | OrchestrateRefused nat
  | NoCyclesDir
  | NoStateFile
  | StateFileUndecodable
  | EventsRead
  | BlankOverride string

type_synonym cycle_run = "string list \<times> cycle_client_error option"

definition cycle_conn ::
  "string option \<Rightarrow> string \<Rightarrow> broker_home \<Rightarrow> (endpoint \<Rightarrow> broker_home \<Rightarrow> 'a \<times> broker_home) \<Rightarrow> (cycle_client_error \<Rightarrow> 'a) \<Rightarrow> 'a \<times> broker_home" where
  "cycle_conn wd sockDir h act bad =
     (case resolveBrokerClient wd sockDir h of
        (Inl e, h') \<Rightarrow> (bad (NoCycleBroker e), h')
      | (Inr ep, h') \<Rightarrow> act ep h')"

text \<open>A reply with the expected status, decoded; \<open>trim\<close> says whether the error's text is trimmed.\<close>

definition expect :: "nat \<Rightarrow> bool \<Rightarrow> 'a exchange \<Rightarrow> cycle_client_error + 'a" where
  "expect status trim reply =
     (case reply of
        SendFails \<Rightarrow> Inl CycleRequestFailed
      | Reply code text body \<Rightarrow>
          if code \<noteq> status then Inl (CycleRefused code (if trim then TrimSpace text else text))
          else case body of None \<Rightarrow> Inl CycleUndecodable | Some v \<Rightarrow> Inr v)"

subsection \<open>New\<close>

definition rejectBlankOverride :: "bool \<Rightarrow> string \<Rightarrow> string \<Rightarrow> cycle_client_error option" where
  "rejectBlankOverride changed flagName v =
     (if \<not> changed then None else if TrimSpace v = [] then Some (BlankOverride flagName) else None)"

definition new_cycle_request ::
  "string \<Rightarrow> string \<Rightarrow> int \<Rightarrow> int \<Rightarrow> bool \<Rightarrow> string \<Rightarrow> string \<Rightarrow> string list \<Rightarrow> string \<Rightarrow> string \<Rightarrow> NewCycleRequest" where
  "new_cycle_request goal branch maxCycles maxDurationMinutes autoGoal agents workingDir localGates auditCmd polishTestCmd =
     \<lparr>ncr_Goal = goal, ncr_Branch = branch, ncr_MaxCycles = maxCycles, ncr_MaxDurationMinutes = maxDurationMinutes,
      ncr_AutoGoal = autoGoal, ncr_PendingFiles = [], ncr_LocalGates = localGates, ncr_AuditCmd = auditCmd,
      ncr_PolishTestCmd = polishTestCmd,
      ncr_Orchestrator =
        (if agents \<noteq> [] \<or> workingDir \<noteq> []
         then Some \<lparr>oc_Agents = Split agents (CHR '',''), oc_Pattern = [], oc_ResetEvery = 0, oc_RepoURL = [],
                    oc_WorkingDir = workingDir, oc_MaxLifetimeTurns = 0\<rparr>
         else None)\<rparr>"

definition state_file_name :: "string \<Rightarrow> string" where
  "state_file_name cid = ''cycle-'' @ cid @ ''.json''"

text \<open>The home is \<open>None\<close> when it cannot be found.\<close>

definition CyclesDir :: "string option \<Rightarrow> string option" where
  "CyclesDir home = map_option (\<lambda>d. filepath_Join2 d ''.rallish/cycles'') home"

definition cycleStateFileDisplay :: "string option \<Rightarrow> string \<Rightarrow> string" where
  "cycleStateFileDisplay home cid =
     (case CyclesDir home of
        None \<Rightarrow> ''~/.rallish/cycles/'' @ state_file_name cid
      | Some dir \<Rightarrow> filepath_Join2 dir (state_file_name cid))"

definition gate_lines :: "string \<Rightarrow> string \<Rightarrow> string list \<Rightarrow> string list" where
  "gate_lines heading indent gates =
     (if length gates > 0 then (heading @ show_nat (length gates)) # map (\<lambda>g. indent @ g) gates else [])"

definition created_lines :: "string option \<Rightarrow> CycleState \<Rightarrow> string list" where
  "created_lines home s =
     [''cycle created: '' @ cs_ID s, ''  branch:       '' @ cs_Branch s, ''  max_cycles:   '' @ show_int (cs_MaxCycles s),
      ''  goal:         '' @ cs_NextCycleGoal s] @
     gate_lines ''  local_gates: '' ''    - '' (cs_LocalGates s) @ [''  state_file:   '' @ cycleStateFileDisplay home (cs_ID s)]"

definition runCycleNew ::
  "string option \<Rightarrow> string \<Rightarrow> cycle_api \<Rightarrow> string option \<Rightarrow> NewCycleRequest \<Rightarrow> broker_home \<Rightarrow> cycle_run \<times> broker_home" where
  "runCycleNew wd sockDir api home req h =
     cycle_conn wd sockDir h
       (\<lambda>ep h. (case expect 201 False (api_create api ep req) of
          Inl e \<Rightarrow> ([], Some e)
        | Inr s \<Rightarrow> (created_lines home s, None), h))
       (\<lambda>e. ([], Some e))"

text \<open>The command around it: both override flags are checked first.\<close>

definition cycle_new_command ::
  "string option \<Rightarrow> string \<Rightarrow> cycle_api \<Rightarrow> string option \<Rightarrow> bool \<Rightarrow> bool \<Rightarrow> NewCycleRequest \<Rightarrow> broker_home \<Rightarrow> cycle_run \<times> broker_home" where
  "cycle_new_command wd sockDir api home auditSet polishSet req h =
     (case rejectBlankOverride auditSet ''audit-cmd'' (ncr_AuditCmd req) of
        Some e \<Rightarrow> (([], Some e), h)
      | None \<Rightarrow>
          (case rejectBlankOverride polishSet ''polish-test-cmd'' (ncr_PolishTestCmd req) of
             Some e \<Rightarrow> (([], Some e), h)
           | None \<Rightarrow> runCycleNew wd sockDir api home req h))"

subsection \<open>Watch\<close>

definition show_bool :: "bool \<Rightarrow> string" where
  "show_bool b = (if b then ''true'' else ''false'')"

definition event_line :: "string \<Rightarrow> CycleEvent \<Rightarrow> string" where
  "event_line stamp evt =
     ''['' @ stamp @ ''] phase='' @ ce_Phase evt @ '' cycles='' @ show_int (ce_CompletedCycles evt) @ '' halted='' @
     show_bool (ce_Halted evt)"

text \<open>
  The loop over the lines: what is printed, which the log file gets too, and whether a halt
  ended it. \<open>stamp i\<close> is the clock at the i-th event.
\<close>

fun watch_loop :: "(string \<Rightarrow> CycleEvent option) \<Rightarrow> (nat \<Rightarrow> string) \<Rightarrow> nat \<Rightarrow> string list \<Rightarrow> string list \<times> bool" where
  "watch_loop get stamp i [] = ([], False)"
| "watch_loop get stamp i (line # ls) =
     (if HasPrefix line ''data: '' then
        (case get (drop 6 line) of
           Some evt \<Rightarrow>
             if ce_Halted evt then ([event_line (stamp i) evt, ''halt_reason: '' @ ce_HaltReason evt], True)
             else apfst ((#) (event_line (stamp i) evt)) (watch_loop get stamp (Suc i) ls)
         | None \<Rightarrow> apfst ((#) line) (watch_loop get stamp i ls))
      else watch_loop get stamp i ls)"

text \<open>The log file: a warning, and whether it is open. \<open>open_err\<close> is the error of the open, if any.\<close>

definition open_log :: "string option \<Rightarrow> (path_error \<Rightarrow> string) \<Rightarrow> (string \<Rightarrow> string option) \<Rightarrow> string \<Rightarrow> string list \<times> bool" where
  "open_log wd path_text open_err logFile =
     (if logFile = [] then ([], False)
      else case safepath_Clean wd logFile of
        Inl e \<Rightarrow> ([''warn: invalid log file path: '' @ path_text e], False)
      | Inr safeLog \<Rightarrow>
          (case open_err safeLog of
             Some t \<Rightarrow> ([''warn: cannot open log file: '' @ t], False)
           | None \<Rightarrow> ([], True)))"

record watch_env =
  we_get :: "string \<Rightarrow> CycleEvent option"
  we_stamp :: "nat \<Rightarrow> string"
  we_pathText :: "path_error \<Rightarrow> string"
  we_open :: "string \<Rightarrow> string option"

record watch_run =
  wr_out :: "string list"
  wr_log :: "string list"
  wr_err :: "cycle_client_error option"

definition watch_fails :: "cycle_client_error \<Rightarrow> watch_run" where
  "watch_fails e = \<lparr>wr_out = [], wr_log = [], wr_err = Some e\<rparr>"

definition watch_body :: "string option \<Rightarrow> watch_env \<Rightarrow> string \<Rightarrow> string \<Rightarrow> bytes \<Rightarrow> bool \<Rightarrow> watch_run" where
  "watch_body wd we cycleID logFile body failed =
     (let (warnings, logging) = open_log wd (we_pathText we) (we_open we) logFile;
          (ls, long) = scan_lines body;
          (out, halted) = watch_loop (we_get we) (we_stamp we) 0 ls
      in \<lparr>wr_out = warnings @ [''watching cycle '' @ cycleID @ '' events...''] @ out,
          wr_log = (if logging then out else []),
          wr_err = (if \<not> halted \<and> (long \<or> failed) then Some EventsRead else None)\<rparr>)"

definition runCycleWatch ::
  "string option \<Rightarrow> string \<Rightarrow> cycle_api \<Rightarrow> watch_env \<Rightarrow> string \<Rightarrow> string \<Rightarrow> broker_home \<Rightarrow> watch_run \<times> broker_home" where
  "runCycleWatch wd sockDir api we cycleID logFile h =
     cycle_conn wd sockDir h
       (\<lambda>ep h. (case api_events api ep cycleID of
          StreamSendFails \<Rightarrow> watch_fails CycleRequestFailed
        | stream_exchange.StreamReply status body failed \<Rightarrow>
            if status \<noteq> 200 then watch_fails (CycleRefused status body)
            else watch_body wd we cycleID logFile body failed, h))
       watch_fails"

subsection \<open>Start\<close>

definition start_agents :: "string \<Rightarrow> string list" where
  "start_agents agents = (if agents \<noteq> [] then Split agents (CHR '','') else [])"

definition dot_config :: "string list \<Rightarrow> OrchestratorConfig" where
  "dot_config agents =
     \<lparr>oc_Agents = agents, oc_Pattern = [], oc_ResetEvery = 0, oc_RepoURL = [], oc_WorkingDir = ''.'', oc_MaxLifetimeTurns = 0\<rparr>"

definition start_request :: "string \<Rightarrow> string \<Rightarrow> int \<Rightarrow> int \<Rightarrow> bool \<Rightarrow> string \<Rightarrow> string list \<Rightarrow> NewCycleRequest" where
  "start_request goal branch maxCycles maxDurationMinutes autoGoal agents localGates =
     \<lparr>ncr_Goal = goal, ncr_Branch = branch, ncr_MaxCycles = maxCycles, ncr_MaxDurationMinutes = maxDurationMinutes,
      ncr_AutoGoal = autoGoal, ncr_PendingFiles = [], ncr_LocalGates = localGates, ncr_AuditCmd = [], ncr_PolishTestCmd = [],
      ncr_Orchestrator = (if agents \<noteq> [] then Some (dot_config (start_agents agents)) else None)\<rparr>"

definition started_lines :: "string option \<Rightarrow> CycleState \<Rightarrow> string list" where
  "started_lines home s =
     [''cycle started: '' @ cs_ID s, ''  branch:      '' @ cs_Branch s, ''  max_cycles:  '' @ show_int (cs_MaxCycles s),
      ''  max_duration:'' @ show_int (cs_MaxDurationMinutes s) @ '' min'', ''  auto_goal:   '' @ show_bool (cs_AutoGoal s)] @
     gate_lines ''  local_gates: '' ''    - '' (cs_LocalGates s) @ [''  state_file:  '' @ cycleStateFileDisplay home (cs_ID s)]"

definition start_orchestration :: "cycle_api \<Rightarrow> endpoint \<Rightarrow> string \<Rightarrow> string list \<Rightarrow> string list \<times> cycle_client_error option" where
  "start_orchestration api ep cid agents =
     (if length agents > 0 then
        (case api_orchestrate api ep cid (dot_config agents) of
           SendFails \<Rightarrow> ([], Some CycleRequestFailed)
         | Reply status text body \<Rightarrow>
             if status \<noteq> 202 then ([], Some (OrchestrateRefused status))
             else ([''orchestration started with agents: ['' @ Join agents '' '' @ '']''], None))
      else ([], None))"

definition runCycleStart ::
  "string option \<Rightarrow> string \<Rightarrow> cycle_api \<Rightarrow> watch_env \<Rightarrow> string option \<Rightarrow> NewCycleRequest \<Rightarrow> string list \<Rightarrow> string \<Rightarrow> broker_home \<Rightarrow>
   watch_run \<times> broker_home" where
  "runCycleStart wd sockDir api we home req agents logFile h =
     cycle_conn wd sockDir h
       (\<lambda>ep h. (case expect 201 False (api_create api ep req) of
          Inl e \<Rightarrow> (watch_fails e, h)
        | Inr s \<Rightarrow>
            (let (orch, err) = start_orchestration api ep (cs_ID s) agents; sofar = started_lines home s @ orch in
             case err of
               Some e \<Rightarrow> (\<lparr>wr_out = sofar, wr_log = [], wr_err = Some e\<rparr>, h)
             | None \<Rightarrow>
                 (let (run, h') = runCycleWatch wd sockDir api we (cs_ID s) logFile h
                  in (run\<lparr>wr_out := sofar @ [[], ''watching events... (Ctrl+C to detach, cycle continues in background)'', []] @
                              wr_out run\<rparr>, h')))))
       watch_fails"

subsection \<open>Status, ledger, next, halt\<close>

definition readCycleLedger :: "cycle_api \<Rightarrow> endpoint \<Rightarrow> string \<Rightarrow> cycle_client_error + HarnessLedgerEntry list" where
  "readCycleLedger api ep cycleID = expect 200 False (api_ledger api ep cycleID)"

definition ledger_lines_of :: "cycle_client_error + HarnessLedgerEntry list \<Rightarrow> string list" where
  "ledger_lines_of r =
     (case r of
        Inl e \<Rightarrow> []
      | Inr entries \<Rightarrow>
          if length entries > 0 then
            (let e = entries ! (length entries - 1) in
             [''ledger:       '' @ show_nat (length entries) @ '' entries'',
              ''ledger_last:  '' @ le_Type e @ (if le_Gate e \<noteq> [] then '' gate='' @ le_Gate e else [])])
          else [])"

definition violation_line :: "Violation \<Rightarrow> string" where
  "violation_line v =
     ''  - ['' @ v_Type v @ ''] '' @ v_File v @ '':'' @ show_int (v_Line v) @ '' '' @ v_Message v"

definition status_lines :: "CycleState \<Rightarrow> cycle_client_error + HarnessLedgerEntry list \<Rightarrow> string list" where
  "status_lines s entries =
     [''cycle:        '' @ cs_ID s, ''phase:        '' @ cs_Phase s,
      ''completed:    '' @ show_int (cs_CompletedCycles s) @ '' / '' @ show_int (cs_MaxCycles s),
      ''branch:       '' @ cs_Branch s, ''baseline:     '' @ cs_BaselineSHA s, ''goal:         '' @ cs_NextCycleGoal s] @
     gate_lines ''local_gates:  '' ''  - '' (cs_LocalGates s) @ ledger_lines_of entries @
     (if ShouldRotateAgent s then [''agent_rotate: yes (3-cycle reset)''] else []) @
     [''halted:       '' @ show_bool (cs_Halted s)] @
     (if cs_Halted s then [''halt_reason:  '' @ cs_HaltReason s] else []) @
     (if length (cs_ViolationsFound s) > 0 then
        (''violations:   '' @ show_nat (length (cs_ViolationsFound s))) # map violation_line (cs_ViolationsFound s)
      else [])"

text \<open>The local file of a cycle, confined by the base name of the id.\<close>

definition status_file :: "string \<Rightarrow> string \<Rightarrow> string" where
  "status_file cyclesDir cycleID = filepath_Join2 cyclesDir (state_file_name (filepath_Base cycleID))"

definition runCycleStatusWithClient ::
  "(bytes \<Rightarrow> CycleState option) \<Rightarrow> (string \<Rightarrow> bytes option) \<Rightarrow> string option \<Rightarrow> cycle_api \<Rightarrow> endpoint \<Rightarrow> string \<Rightarrow> cycle_run" where
  "runCycleStatusWithClient unmarshal disk home api ep cycleID =
     (let shown = (\<lambda>s. (status_lines s (readCycleLedger api ep cycleID), None)) in
      case api_get api ep cycleID of
        SendFails \<Rightarrow> ([], Some CycleRequestFailed)
      | Reply status text body \<Rightarrow>
          if status = 200 then (case body of None \<Rightarrow> ([], Some CycleUndecodable) | Some s \<Rightarrow> shown s)
          else
            (case CyclesDir home of
               None \<Rightarrow> ([], Some NoCyclesDir)
             | Some dir \<Rightarrow>
                 (case disk (status_file dir cycleID) of
                    None \<Rightarrow> ([], Some NoStateFile)
                  | Some data \<Rightarrow> (case unmarshal data of None \<Rightarrow> ([], Some StateFileUndecodable) | Some s \<Rightarrow> shown s))))"

definition runCycleStatus ::
  "string option \<Rightarrow> string \<Rightarrow> (bytes \<Rightarrow> CycleState option) \<Rightarrow> (string \<Rightarrow> bytes option) \<Rightarrow> string option \<Rightarrow> cycle_api \<Rightarrow> string \<Rightarrow>
   broker_home \<Rightarrow> cycle_run \<times> broker_home" where
  "runCycleStatus wd sockDir unmarshal disk home api cycleID h =
     cycle_conn wd sockDir h (\<lambda>ep h. (runCycleStatusWithClient unmarshal disk home api ep cycleID, h)) (\<lambda>e. ([], Some e))"

text \<open>\<open>indent\<close> is the indented JSON of the entries.\<close>

definition runCycleLedger ::
  "string option \<Rightarrow> string \<Rightarrow> (HarnessLedgerEntry list \<Rightarrow> string) \<Rightarrow> cycle_api \<Rightarrow> string \<Rightarrow> broker_home \<Rightarrow> cycle_run \<times> broker_home" where
  "runCycleLedger wd sockDir indent api cycleID h =
     cycle_conn wd sockDir h
       (\<lambda>ep h. (case readCycleLedger api ep cycleID of Inl e \<Rightarrow> ([], Some e) | Inr entries \<Rightarrow> ([indent entries], None), h))
       (\<lambda>e. ([], Some e))"

definition stepped_lines :: "CycleState \<Rightarrow> string list" where
  "stepped_lines s =
     [''cycle stepped: '' @ cs_ID s, ''phase:        '' @ cs_Phase s,
      ''completed:    '' @ show_int (cs_CompletedCycles s) @ '' / '' @ show_int (cs_MaxCycles s)] @
     (if cs_Halted s then [''halted:       true'', ''halt_reason:  '' @ cs_HaltReason s] else [])"

definition runCycleNext :: "string option \<Rightarrow> string \<Rightarrow> cycle_api \<Rightarrow> string \<Rightarrow> string \<Rightarrow> broker_home \<Rightarrow> cycle_run \<times> broker_home" where
  "runCycleNext wd sockDir api cycleID goal h =
     cycle_conn wd sockDir h
       (\<lambda>ep h. (case expect 200 True (api_step api ep cycleID goal) of
          Inl e \<Rightarrow> ([], Some e) | Inr s \<Rightarrow> (stepped_lines s, None), h))
       (\<lambda>e. ([], Some e))"

definition runCycleHalt :: "string option \<Rightarrow> string \<Rightarrow> cycle_api \<Rightarrow> string \<Rightarrow> string \<Rightarrow> broker_home \<Rightarrow> cycle_run \<times> broker_home" where
  "runCycleHalt wd sockDir api cycleID reason h =
     cycle_conn wd sockDir h
       (\<lambda>ep h. (case expect 200 True (api_halt api ep cycleID reason) of
          Inl e \<Rightarrow> ([], Some e)
        | Inr s \<Rightarrow> ([''cycle halted: '' @ cs_ID s, ''halt_reason:  '' @ cs_HaltReason s], None), h))
       (\<lambda>e. ([], Some e))"

subsection \<open>Which options reach the broker\<close>

lemma NewState_without_orchestrator: "NewState now (req\<lparr>ncr_Orchestrator := oc\<rparr>) cid = NewState now req cid"
  by (cases req) (simp add: NewState_def)

lemma create_without_orchestrator:
  "handleCreateCycle sv ev rnd nano (Some (req\<lparr>ncr_Orchestrator := oc\<rparr>)) st = handleCreateCycle sv ev rnd nano (Some req) st"
  by (simp add: handleCreateCycle_def NewState_without_orchestrator)

text \<open>
  Options of \<^verbatim>\<open>cycle new\<close> that are lost. The agents and the working directory are put into the
  request, and the broker creates the same cycle as without them: nothing of it is kept, so no
  agent ever runs. And a maximum of zero cycles, which the help text calls unlimited, and which is
  the default of \<^verbatim>\<open>cycle start\<close>, is created as a maximum of ten.
\<close>

theorem new_options_lost:
  "handleCreateCycle sv ev rnd nano (Some (new_cycle_request goal branch n mins auto agents dir gates audit polish)) st =
     handleCreateCycle sv ev rnd nano (Some (new_cycle_request goal branch n mins auto [] [] gates audit polish)) st \<and>
   (n \<le> 0 \<longrightarrow>
     (\<forall>s st'. handleCreateCycle sv ev rnd nano (Some (new_cycle_request goal branch n mins auto agents dir gates audit polish)) st =
        (StateReply 201 s, st') \<longrightarrow> cs_MaxCycles s = 10))"
proof
  let ?r = "\<lambda>agents dir. new_cycle_request goal branch n mins auto agents dir gates audit polish"
  have "?r agents dir = (?r [] [])\<lparr>ncr_Orchestrator := ncr_Orchestrator (?r agents dir)\<rparr>"
    by (simp add: new_cycle_request_def)
  then show "handleCreateCycle sv ev rnd nano (Some (?r agents dir)) st = handleCreateCycle sv ev rnd nano (Some (?r [] [])) st"
    by (metis create_without_orchestrator)
  show "n \<le> 0 \<longrightarrow> (\<forall>s st'. handleCreateCycle sv ev rnd nano (Some (?r agents dir)) st = (StateReply 201 s, st') \<longrightarrow> cs_MaxCycles s = 10)"
    by (auto simp: handleCreateCycle_def NewState_def new_cycle_request_def Let_def split: if_splits prod.splits option.splits)
qed

definition demo_agents_request :: NewCycleRequest where
  "demo_agents_request = new_cycle_request ''g'' ''work'' 0 0 False ''a,b'' ''/r'' [] [] []"

theorem new_options_lost_witness:
  "let (reply, st') = handleCreateCycle CycleDaemon.demo_server CycleDaemon.demo_env None ''7'' (Some demo_agents_request) (CycleDaemon.demo_store [])
   in ncr_Orchestrator demo_agents_request \<noteq> None \<and> (\<exists>s. reply = StateReply 201 s \<and> cs_MaxCycles s = 10)"
proof -
  let ?reply = "handleCreateCycle CycleDaemon.demo_server CycleDaemon.demo_env None ''7'' (Some demo_agents_request) (CycleDaemon.demo_store [])"
  have "\<exists>s. fst ?reply = StateReply 201 s"
    by (simp add: handleCreateCycle_def demo_agents_request_def new_cycle_request_def NewState_def sync_write_def CycleDaemon.demo_server_def CycleDaemon.demo_env_def
        StateFileSync_Write_def commit_rename_def
        Let_def split: prod.split option.split)
  then obtain s st' where "?reply = (StateReply 201 s, st')" by (metis prod.collapse)
  with new_options_lost [of CycleDaemon.demo_server CycleDaemon.demo_env None "''7''" "''g''" "''work''" 0 0 False "''a,b''" "''/r''" "[]" "[]" "[]" "CycleDaemon.demo_store []"]
  show ?thesis by (simp add: demo_agents_request_def) (simp add: new_cycle_request_def)
qed

subsection \<open>The file that status reads\<close>

lemma status_file_segments:
  assumes "HasPrefix dir ''/''"
  shows "segments wd (status_file dir cid) =
    segments wd dir @ (if filepath_Base cid = ''/'' then [''cycle-'', ''.json''] else [state_file_name (filepath_Base cid)])"
proof (cases "filepath_Base cid = ''/''")
  case True
  have "clean_segs acc (Split (state_file_name ''/'') (CHR ''/'')) = acc @ [''cycle-'', ''.json'']" for acc
    by (simp add: state_file_name_def)
  moreover have "list_all clean_seg [''cycle-'', ''.json'']" by code_simp
  ultimately show ?thesis using True join_segments [OF assms] by (simp add: status_file_def)
next
  case False
  then have "clean_seg (state_file_name (filepath_Base cid))"
    using Base_no_slash [of cid] by (auto simp: state_file_name_def clean_seg_def)
  with False join_name [OF assms] show ?thesis by (simp add: status_file_def)
qed

text \<open>
  (C38) The fallback of \<^verbatim>\<open>status\<close> stays in the cycles directory. Whatever id is given, with separators
  and double dots, the file that is read lies under the directory.
\<close>

theorem status_file_confined:
  assumes "HasPrefix dir ''/''" and "wd \<noteq> None"
  shows "UnderRoot wd (status_file dir cid) dir = None"
proof -
  have "dir \<noteq> []" "status_file dir cid \<noteq> []"
    using assms(1) by (auto simp: HasPrefix_def status_file_def filepath_Join2_def path_of_def)
  then show ?thesis
    unfolding under_root_segments [OF assms(2)] status_file_segments [OF assms(1)] by simp
qed

theorem status_file_confined_witness:
  "UnderRoot (Some ''/w'') (status_file ''/h/.rallish/cycles'' ''../../../etc/passwd'') ''/h/.rallish/cycles'' = None \<and>
   status_file ''/h/.rallish/cycles'' ''../../../etc/passwd'' = ''/h/.rallish/cycles/cycle-passwd.json''"
proof
  show "UnderRoot (Some ''/w'') (status_file ''/h/.rallish/cycles'' ''../../../etc/passwd'') ''/h/.rallish/cycles'' = None"
    by (rule status_file_confined) (simp_all add: HasPrefix_def)
qed code_simp

subsection \<open>What a watcher sees\<close>

definition CycleEvent_json :: "CycleEvent \<Rightarrow> json" where
  "CycleEvent_json e =
     JObj ([(''cycle_id'', JStr (ce_CycleID e)), (''phase'', JStr (ce_Phase e)), (''completed_cycles'', JInt (ce_CompletedCycles e))] @
       omit_bool ''halted'' (ce_Halted e) @ omit_str ''halt_reason'' (ce_HaltReason e) @
       omit_str ''last_failed_gate'' (ce_LastFailedGate e) @ [(''at'', JInt (ce_At e))])"

definition cycle_frame :: "CycleEvent \<Rightarrow> bytes" where
  "cycle_frame evt = ''data: '' @ jprint (CycleEvent_json evt) @ [CHR 0x0A, CHR 0x0A]"

text \<open>The lines for events: one each, up to a halt, which has its reason on a line of its own.\<close>

fun shown_events :: "(nat \<Rightarrow> string) \<Rightarrow> nat \<Rightarrow> CycleEvent list \<Rightarrow> string list \<times> bool" where
  "shown_events stamp i [] = ([], False)"
| "shown_events stamp i (evt # evts) =
     (if ce_Halted evt then ([event_line (stamp i) evt, ''halt_reason: '' @ ce_HaltReason evt], True)
      else apfst ((#) (event_line (stamp i) evt)) (shown_events stamp (Suc i) evts))"

lemma scan_events:
  assumes "list_all (\<lambda>evt. length (jprint (CycleEvent_json evt)) < 65530) evts"
  shows "scan_lines (concat (map cycle_frame evts)) = (concat (map (\<lambda>evt. [''data: '' @ jprint (CycleEvent_json evt), []]) evts), False)"
  using assms
proof (induction evts)
  case (Cons evt evts)
  define l where "l = ''data: '' @ jprint (CycleEvent_json evt)"
  have plain: "CHR 0x0A \<notin> set l" "CHR 0x0D \<notin> set l" "length l < MaxScanTokenSize"
    using Cons.prems jprint_one_line by (simp_all add: l_def)
  have blank: "scan_lines (CHR 0x0A # b) = ([] # fst (scan_lines b), snd (scan_lines b))" for b
    using scan_lines_line [of "[]" b] by (simp add: drop_cr_def)
  have frame: "cycle_frame evt @ b = l @ CHR 0x0A # CHR 0x0A # b" for b by (simp add: cycle_frame_def l_def)
  have "scan_lines (cycle_frame evt @ b) = (l # [] # fst (scan_lines b), snd (scan_lines b))" for b
    unfolding frame scan_lines_line [OF plain(1,3)] blank using plain(2) by (simp add: drop_cr_plain)
  then show ?case using Cons by (simp add: l_def)
qed simp

lemma watch_events:
  assumes "\<forall>evt \<in> set evts. get (jprint (CycleEvent_json evt)) = Some evt"
  shows "watch_loop get stamp i (concat (map (\<lambda>evt. [''data: '' @ jprint (CycleEvent_json evt), []]) evts)) = shown_events stamp i evts"
  using assms by (induction evts arbitrary: i) (simp_all add: HasPrefix_def)

text \<open>
  A watcher sees what the broker broadcasts. The events of the stream come out in order, one line
  each, in the log file as on the terminal, up to the halt, whose reason is shown and which ends
  the watch without an error.
\<close>

theorem watch_shows_events:
  assumes "list_all (\<lambda>evt. length (jprint (CycleEvent_json evt)) < 65530) evts"
    and "\<forall>evt \<in> set evts. we_get we (jprint (CycleEvent_json evt)) = Some evt"
    and "open_log wd (we_pathText we) (we_open we) logFile = ([], logging)"
  shows "watch_body wd we cid logFile (concat (map cycle_frame evts)) failed =
    (let (out, halted) = shown_events (we_stamp we) 0 evts in
     \<lparr>wr_out = (''watching cycle '' @ cid @ '' events...'') # out, wr_log = (if logging then out else []),
      wr_err = (if \<not> halted \<and> failed then Some EventsRead else None)\<rparr>)"
proof -
  obtain out halted where shown: "shown_events (we_stamp we) 0 evts = (out, halted)" by fastforce
  have first: "[] @ [x] @ xs = x # xs" for x :: string and xs by simp
  show ?thesis
    by (simp only: watch_body_def scan_events [OF assms(1)] assms(3) Let_def prod.case watch_events [OF assms(2)] shown first simp_thms)
qed

definition demo_halt :: CycleEvent where
  "demo_halt = \<lparr>ce_CycleID = ''c'', ce_Phase = ''halted'', ce_CompletedCycles = 2, ce_Halted = True, ce_HaltReason = ''stuck'',
     ce_LastFailedGate = [], ce_At = 7\<rparr>"

definition demo_watch :: watch_env where
  "demo_watch = \<lparr>we_get = (\<lambda>t. Some demo_halt), we_stamp = (\<lambda>i. ''12:00:00''), we_pathText = (\<lambda>e. []), we_open = (\<lambda>p. None)\<rparr>"

theorem watch_shows_events_witness:
  "wr_out (watch_body (Some ''/w'') demo_watch ''c'' ''/w/log'' (concat (map cycle_frame [demo_halt])) True) =
     [''watching cycle c events...'', ''[12:00:00] phase=halted cycles=2 halted=true'', ''halt_reason: stuck''] \<and>
   wr_err (watch_body (Some ''/w'') demo_watch ''c'' ''/w/log'' (concat (map cycle_frame [demo_halt])) True) = None"
proof -
  have "length (jprint (CycleEvent_json demo_halt)) = 97" by code_simp
  then have short: "list_all (\<lambda>evt. length (jprint (CycleEvent_json evt)) < 65530) [demo_halt]" by simp
  have "safepath_Clean (Some ''/w'') ''/w/log'' = Inr ''/w/log''" by code_simp
  then have log: "open_log (Some ''/w'') (we_pathText demo_watch) (we_open demo_watch) ''/w/log'' = ([], True)"
    by (simp add: open_log_def demo_watch_def)
  have "event_line ''12:00:00'' demo_halt = ''[12:00:00] phase=halted cycles=2 halted=true''" by code_simp
  with watch_shows_events [OF short _ log, of "''c''" True] show ?thesis
    by (simp add: demo_watch_def demo_halt_def)
qed

end
