(* ===== verification/Doctor.thy ===== *)
theory Doctor
  imports BrokerHome Adapters
begin

section \<open>The doctor (internal/doctor/doctor.go)\<close>

text \<open>
  The checks of \<^verbatim>\<open>rallish doctor\<close> over the home of \<open>BrokerHome\<close> and the adapters of \<open>Adapters\<close>:
  what is said of the daemon, in the report and in the log, and of each adapter. The details of
  a check are values in place of the texts around the errors of the system. \<open>stat p\<close> tells of a path
  whether it is a socket, and its permission bits; \<open>unreadable\<close> is an error other than a missing
  file when the pointer is read. The theory compares the doctor's verdict with the lookup of
  the clients.
\<close>

subsection \<open>Checks\<close>

datatype Status = StatusOK | StatusWarn | StatusFail | StatusInfo

datatype check_detail =
    PointerEscapes path_error
  | PointerInvalid path_error
  | SocketMissing
  | NotASocket
  | NotReachable
  | ReachableSocket
  | StalePort
  | ReachablePort
  | NotRunning
  | PointerUnreadable
  | NotOnPath
  | CheckFailed check_error
  | BinaryAt string
  | ProbeSays agent_error
  | Authenticated

record Check =
  ck_Name :: string
  ck_Status :: Status
  ck_Detail :: check_detail

definition daemon_says :: "Status \<Rightarrow> check_detail \<Rightarrow> Check" where
  "daemon_says s d = \<lparr>ck_Name = ''daemon'', ck_Status = s, ck_Detail = d\<rparr>"

definition socket_check :: "string option \<Rightarrow> string \<Rightarrow> (string \<Rightarrow> (bool \<times> 32 word) option) \<Rightarrow> string \<Rightarrow> broker_home \<Rightarrow> Check" where
  "socket_check wd sockDir stat socketPath h =
     (case UnderRoot wd socketPath sockDir of
        Some uerr \<Rightarrow> daemon_says StatusWarn (PointerEscapes uerr)
      | None \<Rightarrow>
          (case safepath_Clean wd socketPath of
             Inl cerr \<Rightarrow> daemon_says StatusWarn (PointerInvalid cerr)
           | Inr safePath \<Rightarrow>
               (case stat safePath of
                  None \<Rightarrow> daemon_says StatusWarn SocketMissing
                | Some (isSocket, perm) \<Rightarrow>
                    if \<not> isSocket then daemon_says StatusWarn NotASocket
                    else if \<not> dialExistingDaemon safePath h then daemon_says StatusFail NotReachable
                    else daemon_says StatusOK ReachableSocket)))"

definition port_check :: "broker_home \<Rightarrow> Check" where
  "port_check h =
     (case readPortFile h of
        Some port \<Rightarrow> if \<not> dialPort port h then daemon_says StatusFail StalePort else daemon_says StatusOK ReachablePort
      | None \<Rightarrow> daemon_says StatusInfo NotRunning)"

definition daemonCheck ::
  "string option \<Rightarrow> string \<Rightarrow> (string \<Rightarrow> (bool \<times> 32 word) option) \<Rightarrow> bool \<Rightarrow> broker_home \<Rightarrow> Check" where
  "daemonCheck wd sockDir stat unreadable h =
     (if unreadable then daemon_says StatusWarn PointerUnreadable
      else
        (let socketPath = (case bh_pointer h of None \<Rightarrow> [] | Some p \<Rightarrow> TrimSpace p) in
         if bh_pointer h \<noteq> None \<and> socketPath \<noteq> [] then socket_check wd sockDir stat socketPath h else port_check h))"

definition adapterCheck :: "string \<Rightarrow> string \<Rightarrow> 32 word option \<Rightarrow> Check" where
  "adapterCheck name path mode =
     (case agent_Check path mode of
        Some e \<Rightarrow> \<lparr>ck_Name = name, ck_Status = StatusFail, ck_Detail = CheckFailed e\<rparr>
      | None \<Rightarrow> \<lparr>ck_Name = name, ck_Status = StatusOK, ck_Detail = BinaryAt path\<rparr>)"

definition probeCheck :: "string \<Rightarrow> agent_error option \<Rightarrow> Check" where
  "probeCheck name answer =
     (case answer of
        Some e \<Rightarrow> \<lparr>ck_Name = name, ck_Status = StatusFail, ck_Detail = ProbeSays e\<rparr>
      | None \<Rightarrow> \<lparr>ck_Name = name, ck_Status = StatusOK, ck_Detail = Authenticated\<rparr>)"

text \<open>An adapter that was found: its binary, the mode of the file, and what a probe answers.\<close>

record installed =
  in_Path :: string
  in_Mode :: "32 word option"
  in_Probe :: "agent_error option"

definition adapter_checks :: "bool \<Rightarrow> string \<Rightarrow> installed option \<Rightarrow> Check list" where
  "adapter_checks probe name a =
     (case a of
        None \<Rightarrow> [\<lparr>ck_Name = name, ck_Status = StatusInfo, ck_Detail = NotOnPath\<rparr>]
      | Some b \<Rightarrow>
          adapterCheck name (in_Path b) (in_Mode b) #
          (if probe then [probeCheck (name @ '':auth'') (in_Probe b)] else []))"

text \<open>\<open>user_home\<close> is the home the system knows; the directory is its \<^verbatim>\<open>.rallish\<close>.\<close>

definition doctor_home :: "string \<Rightarrow> string option \<Rightarrow> string" where
  "doctor_home homeDir user_home = (if homeDir = [] then (case user_home of None \<Rightarrow> [] | Some u \<Rightarrow> u) else homeDir)"

definition Inspect ::
  "string option \<Rightarrow> (string \<Rightarrow> string) \<Rightarrow> (string \<Rightarrow> (bool \<times> 32 word) option) \<Rightarrow> bool \<Rightarrow> bool \<Rightarrow> installed option \<Rightarrow> installed option \<Rightarrow>
   string \<Rightarrow> string option \<Rightarrow> broker_home \<Rightarrow> Check list option" where
  "Inspect wd sockDir stat unreadable probe claude kimi homeDir user_home h =
     (let homeDir = doctor_home homeDir user_home in
      if homeDir = [] then None
      else Some (daemonCheck wd (sockDir homeDir) stat unreadable h #
             adapter_checks probe ''adapter:claude'' claude @ adapter_checks probe ''adapter:kimi'' kimi))"

subsection \<open>The log of the checks\<close>

datatype doctor_log =
    LogEscapes path_error
  | LogInvalid path_error
  | LogSocketMissing
  | LogNotASocket
  | LogLoose "32 word"
  | LogUnreachable
  | LogReachable
  | LogPointerUnreadable
  | LogPortPresent
  | LogNotRunning
  | LogPortUnreadable
  | LogNoAdapter string
  | LogCheckFailed string check_error
  | LogCheckPassed string
  | LogPath string string
  | LogAllowlist string "string list"

text \<open>The lines for a pointer, and whether the daemon was reached.\<close>

definition log_socket ::
  "string option \<Rightarrow> string \<Rightarrow> (string \<Rightarrow> (bool \<times> 32 word) option) \<Rightarrow> string \<Rightarrow> broker_home \<Rightarrow> doctor_log list \<times> bool" where
  "log_socket wd sockDir stat socketPath h =
     (case UnderRoot wd socketPath sockDir of
        Some uerr \<Rightarrow> ([LogEscapes uerr], False)
      | None \<Rightarrow>
          (case safepath_Clean wd socketPath of
             Inl cerr \<Rightarrow> ([LogInvalid cerr], False)
           | Inr safePath \<Rightarrow>
               (case stat safePath of
                  None \<Rightarrow> ([LogSocketMissing], False)
                | Some (isSocket, perm) \<Rightarrow>
                    if \<not> isSocket then ([LogNotASocket], False)
                    else
                      (let loose = (if perm AND 0x3F \<noteq> 0 then [LogLoose perm] else []) in
                       if \<not> dialExistingDaemon safePath h then (loose @ [LogUnreachable], False)
                       else (loose @ [LogReachable], True)))))"

definition log_port :: "bool \<Rightarrow> broker_home \<Rightarrow> doctor_log list" where
  "log_port unstatable h =
     (if unstatable then [LogPortUnreadable] else if bh_port h \<noteq> None then [LogPortPresent] else [LogNotRunning])"

definition checkDaemon ::
  "string option \<Rightarrow> (string \<Rightarrow> string) \<Rightarrow> (string \<Rightarrow> (bool \<times> 32 word) option) \<Rightarrow> bool \<Rightarrow> bool \<Rightarrow> string \<Rightarrow> broker_home \<Rightarrow> doctor_log list" where
  "checkDaemon wd sockDir stat unreadable unstatable homeDir h =
     (if homeDir = [] then []
      else
        (let socketPath = (case bh_pointer h of None \<Rightarrow> [] | Some p \<Rightarrow> TrimSpace p) in
         if \<not> unreadable \<and> bh_pointer h \<noteq> None \<and> socketPath \<noteq> [] then
           (let (out, reached) = log_socket wd (sockDir homeDir) stat socketPath h
            in if reached then out else out @ log_port unstatable h)
         else if \<not> unreadable \<and> bh_pointer h = None then log_port unstatable h
         else (if unreadable then [LogPointerUnreadable] else []) @ log_port unstatable h))"

definition log_candidate :: "string \<times> installed \<times> string list \<Rightarrow> doctor_log list" where
  "log_candidate c =
     (case c of (name, a, envList) \<Rightarrow>
        [case agent_Check (in_Path a) (in_Mode a) of Some e \<Rightarrow> LogCheckFailed name e | None \<Rightarrow> LogCheckPassed name,
         LogPath name (in_Path a), LogAllowlist name envList])"

definition doctor_Run ::
  "string option \<Rightarrow> (string \<Rightarrow> string) \<Rightarrow> (string \<Rightarrow> (bool \<times> 32 word) option) \<Rightarrow> bool \<Rightarrow> bool \<Rightarrow> installed option \<Rightarrow> installed option \<Rightarrow>
   string \<Rightarrow> string option \<Rightarrow> broker_home \<Rightarrow> doctor_log list" where
  "doctor_Run wd sockDir stat unreadable unstatable claude kimi homeDir user_home h =
     (let base = [''PATH'', ''HOME'', ''LANG'', ''TERM''];
          look = (\<lambda>name a own. case a of None \<Rightarrow> ([LogNoAdapter name], []) | Some b \<Rightarrow> ([], [(name, b, base @ [own])]));
          (noClaude, cClaude) = look ''claude'' claude ''ANTHROPIC_*'';
          (noKimi, cKimi) = look ''kimi'' kimi ''KIMI_*''
      in checkDaemon wd sockDir stat unreadable unstatable (doctor_home homeDir user_home) h @
         noClaude @ noKimi @ concat (map log_candidate (cClaude @ cKimi)))"

subsection \<open>The doctor and the clients\<close>

text \<open>
  The verdict of the doctor carries over to the clients. When it calls the daemon reachable, the
  lookup of the clients finds it, over the same address; the pointer, if there is one, is the
  clean path that a daemon writes.
\<close>

theorem doctor_ok_is_found:
  assumes "wd \<noteq> None" and "sockDir \<noteq> []"
    and "\<forall>p. bh_pointer h = Some p \<longrightarrow> TrimSpace p \<noteq> [] \<longrightarrow> safepath_Clean wd (TrimSpace p) = Inr (TrimSpace p)"
    and "ck_Status (daemonCheck wd sockDir stat unreadable h) = StatusOK"
  shows "fst (resolveBrokerClient wd sockDir h) =
    Inr (if ck_Detail (daemonCheck wd sockDir stat unreadable h) = ReachableSocket
         then OverSocket (TrimSpace (the (bh_pointer h))) else OverPort (the (readPortFile h)))"
proof (cases "bh_pointer h \<noteq> None \<and> TrimSpace (the (bh_pointer h)) \<noteq> []")
  case True
  then obtain p where p: "bh_pointer h = Some p" "TrimSpace p \<noteq> []" by auto
  with assms(3) have clean: "safepath_Clean wd (TrimSpace p) = Inr (TrimSpace p)" by blast
  from assms(4) p clean have ok: "UnderRoot wd (TrimSpace p) sockDir = None" "dialExistingDaemon (TrimSpace p) h"
    "ck_Detail (daemonCheck wd sockDir stat unreadable h) = ReachableSocket"
    by (auto simp: daemonCheck_def socket_check_def daemon_says_def Let_def split: if_splits option.splits)
  then have "socketUnderRoot wd (TrimSpace p) sockDir"
    using socketUnderRoot_is_UnderRoot [OF assms(1) p(2) assms(2)] by simp
  with ok p show ?thesis by (simp add: resolveBrokerClient_def)
next
  case False
  with assms(4) show ?thesis
    by (auto simp: daemonCheck_def port_check_def daemon_says_def resolveBrokerClient_def split: if_splits option.splits)
qed

lemma port_unchanged [simp]:
  "readPortFile (h\<lparr>bh_pointer := x\<rparr>) = readPortFile h" "dialPort port (h\<lparr>bh_pointer := x\<rparr>) = dialPort port h"
  by (simp_all add: readPortFile_def dialPort_def)

text \<open>
  The converse fails. When the pointer leads to a socket that nobody answers at, as after a kill, and the
  port file to a daemon that does, the doctor reports a failure, and a client removes the pointer
  and finds the daemon.
\<close>

theorem doctor_misses_the_port:
  assumes "wd \<noteq> None" and "sockDir \<noteq> []" and "bh_pointer h = Some p" and "TrimSpace p \<noteq> []"
    and "UnderRoot wd (TrimSpace p) sockDir = None" and "safepath_Clean wd (TrimSpace p) = Inr (TrimSpace p)"
    and "stat (TrimSpace p) = Some (True, perm)" and "\<not> dialExistingDaemon (TrimSpace p) h"
    and "readPortFile h = Some port" and "dialPort port h"
  shows "daemonCheck wd sockDir stat False h = daemon_says StatusFail NotReachable \<and>
    resolveBrokerClient wd sockDir h = (Inr (OverPort port), h\<lparr>bh_pointer := None\<rparr>)"
proof -
  have "socketUnderRoot wd (TrimSpace p) sockDir"
    using socketUnderRoot_is_UnderRoot [OF assms(1,4,2)] assms(5) by simp
  then show ?thesis
    using assms(3-10) by (simp add: daemonCheck_def socket_check_def resolveBrokerClient_def)
qed

text \<open>
  The report and the log agree on the socket: the log says the daemon is reachable exactly when the
  report does so because of the socket.
\<close>

theorem log_agrees_with_report:
  assumes "homeDir \<noteq> []"
  shows "LogReachable \<in> set (checkDaemon wd sockDir stat unreadable unstatable homeDir h) \<longleftrightarrow>
    daemonCheck wd (sockDir homeDir) stat unreadable h = daemon_says StatusOK ReachableSocket"
proof -
  have port: "LogReachable \<notin> set (log_port unstatable h)" "port_check h \<noteq> daemon_says StatusOK ReachableSocket"
    by (auto simp: log_port_def port_check_def daemon_says_def split: option.splits)
  have socket: "LogReachable \<in> set (fst (log_socket wd d stat p h)) \<longleftrightarrow> socket_check wd d stat p h = daemon_says StatusOK ReachableSocket"
    "snd (log_socket wd d stat p h) \<longleftrightarrow> LogReachable \<in> set (fst (log_socket wd d stat p h))" for d p
    by (simp_all add: log_socket_def socket_check_def daemon_says_def Let_def split: option.split sum.split)
  define d where "d = sockDir homeDir"
  consider "unreadable" | "\<not> unreadable" "bh_pointer h = None" | p where "\<not> unreadable" "bh_pointer h = Some p" by fastforce
  then show ?thesis
  proof cases
    case 3
    then show ?thesis
      unfolding d_def [symmetric] using socket [of d "TrimSpace p"] port assms
      by (cases "TrimSpace p = []"; cases "log_socket wd d stat (TrimSpace p) h")
         (auto simp: checkDaemon_def daemonCheck_def simp flip: d_def)
  qed (use port assms in \<open>simp_all add: checkDaemon_def daemonCheck_def daemon_says_def\<close>)
qed

subsection \<open>Witnesses\<close>

definition demo_stat :: "string \<Rightarrow> (bool \<times> 32 word) option" where
  "demo_stat p = (if p = ''/h/.rallish/rallish.sock'' then Some (True, 0x180) else None)"

definition served_home :: broker_home where
  "served_home = new_home\<lparr>bh_pointer := Some ''/h/.rallish/rallish.sock'', bh_port := Some ''4242'',
     bh_sockfile := (\<lambda>p. if p = ''/h/.rallish/rallish.sock'' then Some True else None), bh_ports := {''4242''}\<rparr>"

lemma demo_socket:
  "UnderRoot (Some ''/w'') ''/h/.rallish/rallish.sock'' ''/h/.rallish'' = None"
  "safepath_Clean (Some ''/w'') ''/h/.rallish/rallish.sock'' = Inr ''/h/.rallish/rallish.sock''"
  "TrimSpace ''4242'' = ''4242''"
  by code_simp+

theorem doctor_ok_is_found_witness:
  "fst (resolveBrokerClient (Some ''/w'') ''/h/.rallish'' served_home) = Inr (OverSocket ''/h/.rallish/rallish.sock'')"
proof -
  have check: "daemonCheck (Some ''/w'') ''/h/.rallish'' demo_stat False served_home = daemon_says StatusOK ReachableSocket"
    by (simp add: daemonCheck_def socket_check_def demo_socket home_socket served_home_def demo_stat_def dialExistingDaemon_def)
  then show ?thesis
    using doctor_ok_is_found [of "Some ''/w''" "''/h/.rallish''" served_home demo_stat False]
    by (simp add: served_home_def home_socket demo_socket daemon_says_def)
qed

theorem doctor_misses_the_port_witness:
  "daemonCheck (Some ''/w'') ''/h/.rallish'' demo_stat False (served_home\<lparr>bh_sockfile := \<lambda>p. Some False\<rparr>) =
     daemon_says StatusFail NotReachable \<and>
   fst (resolveBrokerClient (Some ''/w'') ''/h/.rallish'' (served_home\<lparr>bh_sockfile := \<lambda>p. Some False\<rparr>)) = Inr (OverPort ''4242'')"
  using doctor_misses_the_port [of "Some ''/w''" "''/h/.rallish''" "served_home\<lparr>bh_sockfile := \<lambda>p. Some False\<rparr>"
      "''/h/.rallish/rallish.sock''" demo_stat "0x180" "''4242''"]
  by (simp add: served_home_def home_socket demo_socket demo_stat_def dialExistingDaemon_def readPortFile_def dialPort_def)

theorem log_agrees_with_report_witness:
  "LogReachable \<in> set (checkDaemon (Some ''/w'') (\<lambda>d. ''/h/.rallish'') demo_stat False False ''/h'' served_home)"
  using log_agrees_with_report [of "''/h''" "Some ''/w''" "\<lambda>d. ''/h/.rallish''" demo_stat False False served_home]
  by (simp add: daemonCheck_def socket_check_def demo_socket home_socket served_home_def demo_stat_def dialExistingDaemon_def)

end
