(* ===== verification/Prompts.thy ===== *)
theory Prompts
  imports ScanLines
begin

section \<open>The prompts (internal/ui/prompt.go, reader.go)\<close>

text \<open>
  The questions of the wizard and of \<^verbatim>\<open>add\<close>: the line reader they share, and what \<^verbatim>\<open>Ask\<close>, \<^verbatim>\<open>Confirm\<close>
  and \<^verbatim>\<open>SelectOne\<close> make of a line. The input is the bytes to come and whether reading ends in an
  error other than the end of the input; every operation returns the input that is left. What
  is printed is not modelled.
\<close>

subsection \<open>The line reader (reader.go)\<close>

record input =
  ip_Bytes :: bytes
  ip_Broken :: bool

datatype read_error = EOF | ReadFails

definition drop_last :: "char \<Rightarrow> string \<Rightarrow> string" where
  "drop_last c line = (if length line > 0 \<and> last line = c then butlast line else line)"

definition readLine :: "input \<Rightarrow> string \<times> read_error option \<times> input" where
  "readLine i =
     (let line = takeWhile (\<lambda>c. c \<noteq> CHR 0x0A) (ip_Bytes i); rest = dropWhile (\<lambda>c. c \<noteq> CHR 0x0A) (ip_Bytes i) in
      case rest of
        [] \<Rightarrow> (drop_last (CHR 0x0D) line, Some (if ip_Broken i then ReadFails else EOF), i\<lparr>ip_Bytes := []\<rparr>)
      | c # more_bytes \<Rightarrow> (drop_last (CHR 0x0D) (drop_last (CHR 0x0A) (line @ [c])), None, i\<lparr>ip_Bytes := more_bytes\<rparr>))"

subsection \<open>The questions (prompt.go)\<close>

datatype prompt_error = ErrPromptRequired | PromptRead | NoChoices | NotANumber string | OutOfRange int

text \<open>The trimmed line, or the error of the reader.\<close>

definition answer_line :: "input \<Rightarrow> (prompt_error + string) \<times> input" where
  "answer_line i =
     (case readLine i of
        (line, err, i') \<Rightarrow> if err = Some ReadFails then (Inl PromptRead, i') else (Inr (TrimSpace line), i'))"

definition Ask :: "string \<Rightarrow> input \<Rightarrow> (prompt_error + string) \<times> input" where
  "Ask def i =
     (case answer_line i of
        (Inl e, i') \<Rightarrow> (Inl e, i')
      | (Inr ans, i') \<Rightarrow>
          (if ans = [] then (if def = [] then Inl ErrPromptRequired else Inr def) else Inr ans, i'))"

definition Confirm :: "(string \<Rightarrow> string) \<Rightarrow> bool \<Rightarrow> input \<Rightarrow> (prompt_error + bool) \<times> input" where
  "Confirm ul defaultYes i =
     (case answer_line i of
        (Inl e, i') \<Rightarrow> (Inl e, i')
      | (Inr line, i') \<Rightarrow>
          (let ans = ToLower ul line
           in (Inr (if ans = [] then defaultYes else ans = ''y'' \<or> ans = ''yes''), i')))"

text \<open>
  \<^verbatim>\<open>fmt.Sscanf\<close> with \<^verbatim>\<open>%d\<close> on a string without white space in front: a sign, then the digits as far
  as they go; what follows is not looked at. A number beyond 64 bits is an error.
\<close>

definition scan_digits :: "string \<Rightarrow> nat option" where
  "scan_digits s = (let ds = takeWhile is_digit s in if ds = [] then None else Some (read_nat 0 ds))"

definition scan_int :: "string \<Rightarrow> int option" where
  "scan_int s =
     (let v = (case s of
            [] \<Rightarrow> None
          | c # t \<Rightarrow>
              if c = CHR ''-'' then map_option (\<lambda>n. - int n) (scan_digits t)
              else map_option int (scan_digits (if c = CHR ''+'' then t else s)))
      in case v of None \<Rightarrow> None | Some x \<Rightarrow> if in_i64 x then Some x else None)"

definition default_choice :: "int \<Rightarrow> 'a list \<Rightarrow> nat" where
  "default_choice defaultIdx choices = (if defaultIdx < 0 \<or> defaultIdx \<ge> int (length choices) then 0 else nat defaultIdx)"

definition SelectOne :: "string list \<Rightarrow> int \<Rightarrow> input \<Rightarrow> (prompt_error + string \<times> nat) \<times> input" where
  "SelectOne choices defaultIdx i =
     (if length choices = 0 then (Inl NoChoices, i)
      else
        (let d = default_choice defaultIdx choices in
         case answer_line i of
           (Inl e, i') \<Rightarrow> (Inl e, i')
         | (Inr ans, i') \<Rightarrow>
             (if ans = [] then Inr (choices ! d, d)
              else case scan_int ans of
                None \<Rightarrow> Inl (NotANumber ans)
              | Some idx \<Rightarrow>
                  if idx < 1 \<or> idx > int (length choices) then Inl (OutOfRange idx)
                  else Inr (choices ! nat (idx - 1), nat (idx - 1)), i')))"

subsection \<open>Reading line by line\<close>

text \<open>Reading a terminated line leaves exactly what follows it: no byte is lost between prompts.\<close>

lemma readLine_line:
  assumes "CHR 0x0A \<notin> set line" "CHR 0x0D \<notin> set line"
  shows "readLine \<lparr>ip_Bytes = line @ CHR 0x0A # rest, ip_Broken = b\<rparr> = (line, None, \<lparr>ip_Bytes = rest, ip_Broken = b\<rparr>)"
proof -
  have t: "takeWhile (\<lambda>c. c \<noteq> CHR 0x0A) (line @ CHR 0x0A # rest) = line"
    "dropWhile (\<lambda>c. c \<noteq> CHR 0x0A) (line @ CHR 0x0A # rest) = CHR 0x0A # rest"
    using assms(1) by (induction line) auto
  have "line \<noteq> [] \<longrightarrow> last line \<noteq> CHR 0x0D" using assms(2) last_in_set by metis
  then have "drop_last (CHR 0x0D) line = line" by (auto simp: drop_last_def)
  then show ?thesis by (simp add: readLine_def t drop_last_def [of "CHR 0x0A"])
qed

text \<open>A line that can be typed as an answer and comes out as it is.\<close>

definition typable :: "string \<Rightarrow> bool" where
  "typable a \<longleftrightarrow> a \<noteq> [] \<and> CHR 0x0A \<notin> set a \<and> CHR 0x0D \<notin> set a \<and> TrimSpace a = a"

lemma answer_typed:
  "typable a \<Longrightarrow> answer_line \<lparr>ip_Bytes = a @ CHR 0x0A # rest, ip_Broken = b\<rparr> = (Inr a, \<lparr>ip_Bytes = rest, ip_Broken = b\<rparr>)"
  by (simp add: answer_line_def typable_def readLine_line)

lemma answer_enter:
  "answer_line \<lparr>ip_Bytes = CHR 0x0A # rest, ip_Broken = b\<rparr> = (Inr [], \<lparr>ip_Bytes = rest, ip_Broken = b\<rparr>)"
proof -
  have "TrimSpace [] = []" by code_simp
  then show ?thesis using readLine_line [of "[]" rest b] by (simp add: answer_line_def)
qed

text \<open>The answers of a script, typed one line after another into questions with the given defaults.\<close>

fun ask_all :: "string list \<Rightarrow> input \<Rightarrow> (prompt_error + string) list \<times> input" where
  "ask_all [] i = ([], i)"
| "ask_all (def # defs) i = (case Ask def i of (r, i') \<Rightarrow> apfst ((#) r) (ask_all defs i'))"

definition typed :: "string list \<Rightarrow> bytes" where
  "typed ls = concat (map (\<lambda>l. l @ [CHR 0x0A]) ls)"

text \<open>
  Questions get their own lines. When every answer is typable or left empty with a default, each
  question gets the answer of its line, or its default, and the input after the last line is
  left for the next reader.
\<close>

theorem answers_arrive_in_order:
  assumes "length defs = length ls" and "\<forall>k < length ls. typable (ls ! k) \<or> ls ! k = [] \<and> defs ! k \<noteq> []"
  shows "ask_all defs \<lparr>ip_Bytes = typed ls @ rest, ip_Broken = b\<rparr> =
    (map2 (\<lambda>def l. Inr (if l = [] then def else l)) defs ls, \<lparr>ip_Bytes = rest, ip_Broken = b\<rparr>)"
  using assms
proof (induction defs ls rule: list_induct2)
  case (Cons def defs l ls)
  have tail: "\<forall>k < length ls. typable (ls ! k) \<or> ls ! k = [] \<and> defs ! k \<noteq> []"
    using Cons.prems by (auto dest: spec [of _ "Suc _"])
  have head: "typable l \<or> l = [] \<and> def \<noteq> []" using Cons.prems by (auto dest: spec [of _ 0])
  then have "Ask def \<lparr>ip_Bytes = l @ CHR 0x0A # typed ls @ rest, ip_Broken = b\<rparr> =
      (Inr (if l = [] then def else l), \<lparr>ip_Bytes = typed ls @ rest, ip_Broken = b\<rparr>)"
    using answer_typed [of l] answer_enter by (auto simp: Ask_def typable_def)
  with Cons.IH [OF tail] show ?case by (simp add: typed_def)
qed (simp add: typed_def)

text \<open>
  A choice is one of the choices, at the index that is returned, whatever is typed and however
  the default is given.
\<close>

theorem chosen_is_a_choice:
  assumes "SelectOne choices d i = (Inr (label, k), i')"
  shows "k < length choices \<and> label = choices ! k"
  using assms
  by (auto simp: SelectOne_def default_choice_def Let_def split: prod.splits sum.splits if_splits option.splits)

lemma scan_shown:
  assumes "int n < 2 ^ 63"
  shows "scan_int (show_nat n) = Some (int n)"
proof -
  have "list_all is_digit (show_nat n)" "show_nat n \<noteq> []" using show_nat_digits by blast+
  then obtain c t where ct: "show_nat n = c # t" "is_digit c" "list_all is_digit (c # t)" by (cases "show_nat n") auto
  have "takeWhile is_digit (show_nat n) = show_nat n" using ct(1,3) by (simp add: takeWhile_eq_all_conv list_all_iff)
  then have "scan_digits (show_nat n) = Some n"
    using read_show_nat [of n] ct(1) by (simp add: scan_digits_def)
  moreover have "c \<noteq> CHR ''-''" "c \<noteq> CHR ''+''" using ct(2) by (auto simp: is_digit_def)
  ultimately show ?thesis using assms ct(1) by (auto simp: scan_int_def in_i64_def)
qed

text \<open>
  The number shown in front of a choice picks it, and so does that number with anything but a digit behind
  it: the scan stops at the end of the digits.
\<close>

lemma scan_stops:
  assumes "int n < 2 ^ 63" "\<not> is_digit c"
  shows "scan_int (show_nat n @ c # junk) = Some (int n)"
proof -
  have "list_all is_digit (show_nat n)" "show_nat n \<noteq> []" using show_nat_digits by blast+
  then obtain d t where dt: "show_nat n = d # t" "is_digit d" by (cases "show_nat n") auto
  have "takeWhile is_digit (show_nat n @ c # junk) = show_nat n"
    using \<open>list_all is_digit (show_nat n)\<close> assms(2) by (simp add: takeWhile_append list_all_iff)
  then have "scan_digits (show_nat n @ c # junk) = Some n"
    using read_show_nat [of n] dt(1) by (simp add: scan_digits_def)
  moreover have "d \<noteq> CHR ''-''" "d \<noteq> CHR ''+''" using dt(2) by (auto simp: is_digit_def)
  ultimately show ?thesis using assms(1) dt(1) by (auto simp: scan_int_def in_i64_def)
qed

theorem number_picks_choice:
  assumes "k < length choices" and "int (length choices) < 2 ^ 63"
    and "typable (show_nat (Suc k) @ junk)" and "junk = [] \<or> \<not> is_digit (hd junk)"
  shows "SelectOne choices d \<lparr>ip_Bytes = (show_nat (Suc k) @ junk) @ CHR 0x0A # rest, ip_Broken = b\<rparr> =
    (Inr (choices ! k, k), \<lparr>ip_Bytes = rest, ip_Broken = b\<rparr>)"
proof -
  have "scan_int (show_nat (Suc k) @ junk) = Some (int (Suc k))"
    using scan_shown [of "Suc k"] scan_stops [of "Suc k" "hd junk" "tl junk"] assms(1,2,4) by (cases junk) auto
  moreover have "choices \<noteq> []" "show_nat (Suc k) \<noteq> []" using assms(1) show_nat_digits [of "Suc k"] by (fastforce, blast)
  ultimately show ?thesis
    using assms(1) answer_typed [OF assms(3)] by (simp add: SelectOne_def Let_def)
qed

text \<open>
  Without input the default option is taken, not the first: the end of the input is an empty answer.
\<close>

theorem no_input_takes_default:
  assumes "0 \<le> d" and "d < int (length choices)"
  shows "SelectOne choices d \<lparr>ip_Bytes = [], ip_Broken = False\<rparr> =
    (Inr (choices ! nat d, nat d), \<lparr>ip_Bytes = [], ip_Broken = False\<rparr>)"
proof -
  have "answer_line \<lparr>ip_Bytes = [], ip_Broken = False\<rparr> = (Inr [], \<lparr>ip_Bytes = [], ip_Broken = False\<rparr>)" by code_simp
  then show ?thesis using assms by (auto simp: SelectOne_def default_choice_def Let_def)
qed

subsection \<open>Witnesses\<close>

theorem answers_arrive_in_order_witness:
  "ask_all [''claude'', ''solo''] \<lparr>ip_Bytes = typed [[], ''pair''] @ ''x'', ip_Broken = False\<rparr> =
     ([Inr ''claude'', Inr ''pair''], \<lparr>ip_Bytes = ''x'', ip_Broken = False\<rparr>)"
proof -
  have "typable ''pair''" by code_simp
  then show ?thesis
    using answers_arrive_in_order [of "[''claude'', ''solo'']" "[[], ''pair'']" "''x''" False]
    by (simp add: nth_Cons split: nat.splits)
qed

theorem chosen_is_a_choice_witness:
  "fst (SelectOne [''preset'', ''adapter''] 9 \<lparr>ip_Bytes = ''2'' @ [CHR 0x0A], ip_Broken = False\<rparr>) = Inr (''adapter'', 1) \<and>
   (1::nat) < length [''preset'', ''adapter'']"
proof -
  have "SelectOne [''preset'', ''adapter''] 9 \<lparr>ip_Bytes = ''2'' @ [CHR 0x0A], ip_Broken = False\<rparr> =
    (Inr (''adapter'', 1), \<lparr>ip_Bytes = [], ip_Broken = False\<rparr>)" by code_simp
  with chosen_is_a_choice [OF this] show ?thesis by simp
qed

theorem number_picks_choice_witness:
  "SelectOne [''a'', ''b'', ''c''] 0 \<lparr>ip_Bytes = ''2nd'' @ [CHR 0x0A], ip_Broken = False\<rparr> =
     (Inr (''b'', 1), \<lparr>ip_Bytes = [], ip_Broken = False\<rparr>)"
proof -
  have two: "show_nat 2 = ''2''" by code_simp
  have "typable ''2nd''" by code_simp
  then show ?thesis
    using number_picks_choice [of 1 "[''a'', ''b'', ''c'']" "''nd''" 0 "[]" False] by (simp add: two is_digit_def numeral_2_eq_2 [symmetric])
qed

theorem no_input_takes_default_witness:
  "SelectOne [''claude'', ''kimi''] 1 \<lparr>ip_Bytes = [], ip_Broken = False\<rparr> =
     (Inr (''kimi'', 1), \<lparr>ip_Bytes = [], ip_Broken = False\<rparr>)"
  using no_input_takes_default [of 1 "[''claude'', ''kimi'']"] by simp

end
