(* ===== verification/Skills.thy ===== *)
theory Skills
  imports Paths CycleClient "HOL-Library.Char_ord" "HOL-Library.List_Lexorder"
begin

section \<open>The embedded skills (internal/skills/skills.go, internal/cli/trigger.go)\<close>

text \<open>
  The installation of the embedded skill files, the search for a skill by a phrase, and the
  command that runs what it found. The embedded tree is the list of its files in the order of the
  walk; a disk maps a path to the bytes of a file and its mode. The faults of an installation are
  an argument. The theory shows what an installation reports and leaves, that a second one is
  quiet, and that it repairs whatever an interrupted one left.
\<close>

subsection \<open>Writing a file\<close>

type_synonym skill_disk = "string \<Rightarrow> (bytes \<times> nat) option"

datatype write_outcome = WriteDone | OpenRefused | WriteTorn bytes

record install_faults =
  if_unreadable :: "string \<Rightarrow> bool"
  if_write :: "string \<Rightarrow> write_outcome"
  if_mkdir :: "string \<Rightarrow> bool"

datatype install_action = Unchanged | Overwritten | Created

record InstallResult =
  ir_Path :: string
  ir_Action :: install_action

datatype install_error = TargetDirFails | NoSuchSkill | ParentDirFails string | OverwriteFails string | CreateFails string

text \<open>\<^verbatim>\<open>os.WriteFile\<close> gives the mode to a new file only.\<close>

definition os_WriteFile :: "write_outcome \<Rightarrow> string \<Rightarrow> bytes \<Rightarrow> nat \<Rightarrow> skill_disk \<Rightarrow> bool \<times> skill_disk" where
  "os_WriteFile w dest content mode d =
     (let kept = (case d dest of None \<Rightarrow> mode | Some (b, m) \<Rightarrow> m) in
      case w of
        WriteDone \<Rightarrow> (True, d(dest \<mapsto> (content, kept)))
      | OpenRefused \<Rightarrow> (False, d)
      | WriteTorn left \<Rightarrow> (False, d(dest \<mapsto> (left, kept))))"

definition writeFileIfChanged ::
  "install_faults \<Rightarrow> string \<Rightarrow> bytes \<Rightarrow> nat \<Rightarrow> skill_disk \<Rightarrow> (install_error + InstallResult) \<times> skill_disk" where
  "writeFileIfChanged io dest content mode d =
     (let existing = (if if_unreadable io dest then None else map_option fst (d dest));
          (ok, d') = os_WriteFile (if_write io dest) dest content mode d
      in case existing of
           Some e \<Rightarrow>
             if e = content then (Inr \<lparr>ir_Path = dest, ir_Action = Unchanged\<rparr>, d)
             else if \<not> ok then (Inl (OverwriteFails dest), d')
             else (Inr \<lparr>ir_Path = dest, ir_Action = Overwritten\<rparr>, d')
         | None \<Rightarrow>
             if \<not> ok then (Inl (CreateFails dest), d') else (Inr \<lparr>ir_Path = dest, ir_Action = Created\<rparr>, d'))"

subsection \<open>Installing a skill\<close>

type_synonym embedded = "(string \<times> bytes) list"

definition skill_files :: "embedded \<Rightarrow> string \<Rightarrow> (string \<times> bytes) list" where
  "skill_files emb skillName =
     map (\<lambda>(p, c). (drop (length skillName + 1) p, c)) (filter (\<lambda>(p, c). HasPrefix p (skillName @ ''/'')) emb)"

definition file_mode :: "string \<Rightarrow> nat" where
  "file_mode rel = (if HasPrefix rel ''scripts/'' then 0x1ED else 0x1A4)"

text \<open>What is to be written: destination, content and mode.\<close>

type_synonym install_plan = "(string \<times> bytes \<times> nat) list"

definition skill_plan :: "embedded \<Rightarrow> string \<Rightarrow> string \<Rightarrow> install_plan" where
  "skill_plan emb skillName targetDir =
     map (\<lambda>(rel, c). (filepath_Join2 targetDir rel, c, file_mode rel)) (skill_files emb skillName)"

fun install_files ::
  "install_faults \<Rightarrow> install_plan \<Rightarrow> skill_disk \<Rightarrow> (InstallResult list \<times> install_error option) \<times> skill_disk" where
  "install_files io [] d = (([], None), d)"
| "install_files io ((dest, content, mode) # plan) d =
     (if if_mkdir io dest then (([], Some (ParentDirFails dest)), d)
      else case writeFileIfChanged io dest content mode d of
        (Inl e, d') \<Rightarrow> (([], Some e), d')
      | (Inr r, d') \<Rightarrow> apfst (apfst ((#) r)) (install_files io plan d'))"

definition InstallNamed ::
  "install_faults \<Rightarrow> embedded \<Rightarrow> string \<Rightarrow> string \<Rightarrow> skill_disk \<Rightarrow> (InstallResult list \<times> install_error option) \<times> skill_disk" where
  "InstallNamed io emb skillName targetDir d =
     (if if_mkdir io targetDir then (([], Some TargetDirFails), d)
      else if skill_files emb skillName = [] then (([], Some NoSuchSkill), d)
      else install_files io (skill_plan emb skillName targetDir) d)"

definition skills_Install ::
  "install_faults \<Rightarrow> embedded \<Rightarrow> string \<Rightarrow> skill_disk \<Rightarrow> (InstallResult list \<times> install_error option) \<times> skill_disk" where
  "skills_Install io emb targetDir d = InstallNamed io emb ''rallish'' targetDir d"

definition companion_plan :: "embedded \<Rightarrow> string \<Rightarrow> string \<Rightarrow> install_plan" where
  "companion_plan emb skillName homeDir =
     concat (map (\<lambda>(rel, c).
       if HasPrefix rel ''scripts/'' then
         [(filepath_Join2 (filepath_Join2 homeDir ''.claude/scripts'') (filepath_Base rel), c, 0x1ED)]
       else if HasPrefix rel ''runbooks/'' then
         [(filepath_Join2 (filepath_Join2 homeDir ''.claude/runbooks'') (filepath_Base rel), c, 0x1A4)]
       else []) (skill_files emb skillName))"

definition InstallCompanionFiles ::
  "install_faults \<Rightarrow> embedded \<Rightarrow> string \<Rightarrow> string \<Rightarrow> skill_disk \<Rightarrow> (InstallResult list \<times> install_error option) \<times> skill_disk" where
  "InstallCompanionFiles io emb skillName homeDir d =
     (if skill_files emb skillName = [] then (([], Some NoSuchSkill), d)
      else install_files io (companion_plan emb skillName homeDir) d)"

subsection \<open>Finding a skill by a phrase\<close>

definition ListEmbeddedSkills :: "embedded \<Rightarrow> string list" where
  "ListEmbeddedSkills emb = sort (remdups (map (\<lambda>(p, c). takeWhile (\<lambda>c. c \<noteq> CHR ''/'') p) emb))"

definition ReadEmbeddedSkill :: "embedded \<Rightarrow> string \<Rightarrow> bytes option" where
  "ReadEmbeddedSkill emb path = map_of emb path"

definition SkillFileExists :: "embedded \<Rightarrow> string \<Rightarrow> bool" where
  "SkillFileExists emb path \<longleftrightarrow> ReadEmbeddedSkill emb path \<noteq> None"

definition trim_quotes :: "string \<Rightarrow> string" where
  "trim_quotes s = TrimRight (TrimLeft s (CHR 0x22)) (CHR 0x22)"

fun trigger_loop :: "(string \<Rightarrow> string) \<Rightarrow> string \<Rightarrow> bool \<Rightarrow> string list \<Rightarrow> bool" where
  "trigger_loop ul phrase inTriggers [] \<longleftrightarrow> False"
| "trigger_loop ul phrase inTriggers (raw # ls) \<longleftrightarrow>
     (let line = TrimSpace raw in
      if HasPrefix line ''Triggers:'' then
        Contains (ToLower ul (drop 9 line)) phrase \<or> trigger_loop ul phrase True ls
      else if inTriggers then
        (if HasPrefix line ''-'' then
           (let triggerText = trim_quotes (TrimSpace (ToLower ul (drop 1 line))) in
            Contains triggerText phrase \<or> Contains phrase triggerText \<or> trigger_loop ul phrase True ls)
         else trigger_loop ul phrase (line = [] \<or> HasPrefix line ''#'') ls)
      else trigger_loop ul phrase False ls)"

definition containsTrigger :: "(string \<Rightarrow> string) \<Rightarrow> string \<Rightarrow> string \<Rightarrow> bool" where
  "containsTrigger ul frontmatter phrase = trigger_loop ul phrase False (Split frontmatter (CHR 0x0A))"

text \<open>Whether a skill file answers to a phrase in lower case.\<close>

definition skill_answers :: "(string \<Rightarrow> string) \<Rightarrow> string \<Rightarrow> bytes \<Rightarrow> bool" where
  "skill_answers ul phraseLower content \<longleftrightarrow>
     HasPrefix content ''---'' \<and>
     (case Index (drop 3 content) ''---'' of
        None \<Rightarrow> False
      | Some endIdx \<Rightarrow>
          containsTrigger ul (take endIdx (drop 3 content)) phraseLower \<or> Contains (ToLower ul content) phraseLower)"

fun match_loop :: "(string \<Rightarrow> string) \<Rightarrow> embedded \<Rightarrow> string \<Rightarrow> string list \<Rightarrow> string option" where
  "match_loop ul emb phraseLower [] = None"
| "match_loop ul emb phraseLower (name # names) =
     (case ReadEmbeddedSkill emb (name @ ''/SKILL.md'') of
        None \<Rightarrow> match_loop ul emb phraseLower names
      | Some content \<Rightarrow>
          if skill_answers ul phraseLower content then Some name else match_loop ul emb phraseLower names)"

definition MatchSkillByTrigger :: "(string \<Rightarrow> string) \<Rightarrow> embedded \<Rightarrow> string \<Rightarrow> string option" where
  "MatchSkillByTrigger ul emb phrase = match_loop ul emb (ToLower ul phrase) (ListEmbeddedSkills emb)"

subsection \<open>The command trigger\<close>

record trigger_options =
  to_Goal :: string
  to_MaxCycles :: int
  to_MaxDuration :: int
  to_Agents :: string
  to_AutoGoal :: bool
  to_DryRun :: bool

datatype trigger_error = NoSkillMatched string | NoAction string | StartFailed cycle_client_error

record trigger_run =
  tr_Out :: "string list"
  tr_Log :: "string list"
  tr_Err :: "trigger_error option"

definition trigger_goal :: "trigger_options \<Rightarrow> string" where
  "trigger_goal opts = (if to_Goal opts = [] then ''feat: autonomous-cycle run'' else to_Goal opts)"

definition dry_run_lines :: "(string \<Rightarrow> string) \<Rightarrow> string \<Rightarrow> trigger_options \<Rightarrow> string list" where
  "dry_run_lines quote logFile opts =
     [''dry-run: would execute:'', ''  rallish cycle start '' @ [bs],
      ''    --goal '' @ quote (trigger_goal opts) @ '' '' @ [bs],
      ''    --max-cycles '' @ show_int (to_MaxCycles opts) @ '' '' @ [bs],
      ''    --max-duration '' @ show_int (to_MaxDuration opts) @ '' '' @ [bs],
      ''    --auto-goal='' @ show_bool (to_AutoGoal opts) @ '' '' @ [bs]] @
     (if to_Agents opts \<noteq> [] then [''    --agents '' @ quote (to_Agents opts) @ '' '' @ [bs]] else []) @
     [''    --log-file '' @ quote logFile]"

text \<open>
  The start command is run with the command \<^verbatim>\<open>trigger\<close> as its argument, and reads the flag
  \<^verbatim>\<open>log-file\<close> from there, where it is not declared: it runs without a log file. The other options
  are set on the start command's own flags.
\<close>

definition trigger_start ::
  "string option \<Rightarrow> string \<Rightarrow> cycle_api \<Rightarrow> watch_env \<Rightarrow> string option \<Rightarrow> trigger_options \<Rightarrow> broker_home \<Rightarrow> watch_run \<times> broker_home" where
  "trigger_start wd sockDir api we home opts h =
     runCycleStart wd sockDir api we home
       (start_request (trigger_goal opts) [] (to_MaxCycles opts) (to_MaxDuration opts) (to_AutoGoal opts) (to_Agents opts) [])
       (start_agents (to_Agents opts)) [] h"

definition trigger_command ::
  "string option \<Rightarrow> string \<Rightarrow> cycle_api \<Rightarrow> watch_env \<Rightarrow> string option \<Rightarrow> (string \<Rightarrow> string) \<Rightarrow> (string \<Rightarrow> string) \<Rightarrow> embedded \<Rightarrow> string \<Rightarrow>
   trigger_options \<Rightarrow> string \<Rightarrow> broker_home \<Rightarrow> trigger_run \<times> broker_home" where
  "trigger_command wd sockDir api we home ul quote emb stamp opts phrase h =
     (case MatchSkillByTrigger ul emb phrase of
        None \<Rightarrow> (\<lparr>tr_Out = [], tr_Log = [], tr_Err = Some (NoSkillMatched phrase)\<rparr>, h)
      | Some skillName \<Rightarrow>
          let matched = ''matched skill: '' @ skillName in
          if skillName = ''autonomous-cycle'' then
            (if to_DryRun opts then
               (\<lparr>tr_Out = matched # dry_run_lines quote (''tmp/autonomous-'' @ stamp @ ''.log'') opts, tr_Log = [], tr_Err = None\<rparr>, h)
             else
               (case trigger_start wd sockDir api we home opts h of
                  (run, h') \<Rightarrow>
                    (\<lparr>tr_Out = matched # wr_out run, tr_Log = wr_log run, tr_Err = map_option StartFailed (wr_err run)\<rparr>, h')))
          else (\<lparr>tr_Out = [matched], tr_Log = [], tr_Err = Some (NoAction skillName)\<rparr>, h))"

subsection \<open>What an installation reports and leaves\<close>

definition no_faults :: install_faults where
  "no_faults = \<lparr>if_unreadable = (\<lambda>p. False), if_write = (\<lambda>p. WriteDone), if_mkdir = (\<lambda>p. False)\<rparr>"

definition report :: "skill_disk \<Rightarrow> string \<Rightarrow> bytes \<Rightarrow> InstallResult" where
  "report d dest content =
     \<lparr>ir_Path = dest,
      ir_Action = (case d dest of None \<Rightarrow> Created | Some (b, m) \<Rightarrow> if b = content then Unchanged else Overwritten)\<rparr>"

text \<open>The disk on which every file of the plan is in place; a file that was there keeps its mode.\<close>

fun placed :: "install_plan \<Rightarrow> skill_disk \<Rightarrow> skill_disk" where
  "placed [] d = d"
| "placed ((dest, content, mode) # plan) d =
     placed plan (d(dest \<mapsto> (content, case d dest of None \<Rightarrow> mode | Some (b, m) \<Rightarrow> m)))"

lemma write_no_faults:
  "writeFileIfChanged no_faults dest content mode d =
     (Inr (report d dest content), d(dest \<mapsto> (content, case d dest of None \<Rightarrow> mode | Some (b, m) \<Rightarrow> m)))"
  by (auto simp: writeFileIfChanged_def no_faults_def os_WriteFile_def report_def Let_def fun_upd_idem_iff split: option.split)

lemma report_other: "dest \<noteq> p \<Longrightarrow> report (d(dest \<mapsto> x)) p content = report d p content"
  by (simp add: report_def)

lemma install_placed:
  assumes "distinct (map fst plan)"
  shows "install_files no_faults plan d = ((map (\<lambda>(dest, content, mode). report d dest content) plan, None), placed plan d)"
  using assms
proof (induction plan arbitrary: d)
  case (Cons f plan)
  obtain dest content mode where f: "f = (dest, content, mode)" by (cases f)
  let ?d = "d(dest \<mapsto> (content, case d dest of None \<Rightarrow> mode | Some (b, m) \<Rightarrow> m))"
  have "map (\<lambda>(p, c, m). report ?d p c) plan = map (\<lambda>(p, c, m). report d p c) plan"
  proof (intro map_cong refl)
    fix g
    assume "g \<in> set plan"
    moreover from this have "fst g \<noteq> dest" using Cons.prems by (force simp: f)
    ultimately show "(case g of (p, c, m) \<Rightarrow> report ?d p c) = (case g of (p, c, m) \<Rightarrow> report d p c)"
      by (auto simp: report_other split: prod.split)
  qed
  moreover have "\<not> if_mkdir no_faults dest" by (simp add: no_faults_def)
  ultimately show ?case using Cons by (simp add: f write_no_faults)
qed simp

lemma placed_elsewhere: "p \<notin> fst ` set plan \<Longrightarrow> placed plan d p = d p"
  by (induction plan d rule: placed.induct) auto

lemma placed_there:
  assumes "distinct (map fst plan)" "(dest, content, mode) \<in> set plan"
  shows "placed plan d dest = Some (content, case d dest of None \<Rightarrow> mode | Some (b, m) \<Rightarrow> m)"
  using assms
proof (induction plan d rule: placed.induct)
  case (2 p c m plan d)
  show ?case
  proof (cases "dest = p")
    case True
    with 2(2,3) have "(dest, content, mode) = (p, c, m)" "p \<notin> fst ` set plan" by (auto simp: rev_image_eqI)
    then show ?thesis by (auto simp: placed_elsewhere)
  next
    case False
    with 2 show ?thesis by (simp add: fun_upd_def)
  qed
qed simp

text \<open>
  An installation does what it reports. Without faults it reports of each file whether it was missing,
  different or the same before; afterwards every file has the embedded content, a file that was there
  has the mode it had, and nothing else has changed.
\<close>

theorem install_reports:
  assumes "skill_files emb name \<noteq> []" and "distinct (map fst (skill_plan emb name dir))"
    and "InstallNamed no_faults emb name dir d = ((results, err), d')"
  shows "err = None \<and> results = map (\<lambda>(dest, content, mode). report d dest content) (skill_plan emb name dir) \<and>
    (\<forall>(dest, content, mode) \<in> set (skill_plan emb name dir).
       d' dest = Some (content, case d dest of None \<Rightarrow> mode | Some (b, m) \<Rightarrow> m)) \<and>
    (\<forall>p. p \<notin> fst ` set (skill_plan emb name dir) \<longrightarrow> d' p = d p)"
  using assms install_placed [OF assms(2), of d] placed_there [OF assms(2), of _ _ _ d] placed_elsewhere [of _ "skill_plan emb name dir" d]
  by (auto simp: InstallNamed_def no_faults_def)

text \<open>Files of a plan that are in place, whatever their modes.\<close>

definition in_place :: "install_plan \<Rightarrow> skill_disk \<Rightarrow> bool" where
  "in_place plan d \<longleftrightarrow> (\<forall>(dest, content, mode) \<in> set plan. \<exists>m. d dest = Some (content, m))"

lemma in_place_placed:
  "distinct (map fst plan) \<Longrightarrow> in_place plan (placed plan d)"
  using placed_there by (fastforce simp: in_place_def)

lemma placed_again: "distinct (map fst plan) \<Longrightarrow> in_place plan d \<Longrightarrow> placed plan d = d"
proof
  fix p
  assume a: "distinct (map fst plan)" "in_place plan d"
  show "placed plan d p = d p"
  proof (cases "p \<in> fst ` set plan")
    case True
    then obtain content mode where "(p, content, mode) \<in> set plan" by auto
    with placed_there [OF a(1) this, of d] a(2) show ?thesis by (fastforce simp: in_place_def)
  qed (simp add: placed_elsewhere)
qed

lemma faulty_elsewhere: "install_files io plan d = (r, d') \<Longrightarrow> p \<notin> fst ` set plan \<Longrightarrow> d' p = d p"
proof (induction io plan d arbitrary: r rule: install_files.induct)
  case (2 io dest content mode plan d)
  have w: "writeFileIfChanged io dest content mode d = (x, e) \<Longrightarrow> e p = d p" for x e
    using 2(3) by (auto simp: writeFileIfChanged_def os_WriteFile_def Let_def split: if_splits option.splits write_outcome.splits prod.splits)
  show ?case
  proof (cases "if_mkdir io dest")
    case True
    with 2(2) show ?thesis by simp
  next
    case False
    obtain x e where we: "writeFileIfChanged io dest content mode d = (x, e)" by fastforce
    show ?thesis
    proof (cases x)
      case (Inl err)
      with 2(2) False we w [OF we] show ?thesis by simp
    next
      case (Inr res)
      obtain r' e' where rest: "install_files io plan e = (r', e')" by fastforce
      with 2(2) False we Inr have "d' = e'" by simp
      with 2(1) [OF False we [symmetric] Inr, of r'] 2(3) w [OF we] rest show ?thesis by simp
    qed
  qed
qed simp

text \<open>
  An interrupted installation is repaired by the next one. Whatever faults the first meets, the second,
  without faults, leaves every file with the embedded content and changes nothing but the files of
  the skill; and a third finds every file unchanged and writes nothing.
\<close>

theorem interrupted_install_repaired:
  assumes "skill_files emb name \<noteq> []" and "distinct (map fst (skill_plan emb name dir))"
    and "InstallNamed io emb name dir d = (r1, d1)" and "InstallNamed no_faults emb name dir d1 = (r2, d2)"
  shows "(\<forall>(dest, content, mode) \<in> set (skill_plan emb name dir). \<exists>m. d2 dest = Some (content, m)) \<and>
    (\<forall>p. p \<notin> fst ` set (skill_plan emb name dir) \<longrightarrow> d2 p = d p) \<and>
    InstallNamed no_faults emb name dir d2 =
      ((map (\<lambda>(dest, content, mode). \<lparr>ir_Path = dest, ir_Action = Unchanged\<rparr>) (skill_plan emb name dir), None), d2)"
proof -
  let ?plan = "skill_plan emb name dir"
  have run: "InstallNamed no_faults emb name dir x = ((map (\<lambda>(dest, content, mode). report x dest content) ?plan, None), placed ?plan x)" for x
    using install_placed [OF assms(2)] assms(1) by (simp add: InstallNamed_def no_faults_def)
  have d2: "d2 = placed ?plan d1" using assms(4) run [of d1] by simp
  have place: "in_place ?plan d2" unfolding d2 by (rule in_place_placed [OF assms(2)])
  have "d1 p = d p" if "p \<notin> fst ` set ?plan" for p
    using assms(3) faulty_elsewhere [OF _ that, of io d r1 d1] assms(1) by (auto simp: InstallNamed_def split: if_splits)
  then have else_kept: "\<forall>p. p \<notin> fst ` set ?plan \<longrightarrow> d2 p = d p" by (simp add: d2 placed_elsewhere)
  have "(\<lambda>(dest, content, mode). report d2 dest content) f = (\<lambda>(dest, content, mode). \<lparr>ir_Path = dest, ir_Action = Unchanged\<rparr>) f"
    if "f \<in> set ?plan" for f
    using place that by (fastforce simp: in_place_def report_def)
  then have "map (\<lambda>(dest, content, mode). report d2 dest content) ?plan =
      map (\<lambda>(dest, content, mode). \<lparr>ir_Path = dest, ir_Action = Unchanged\<rparr>) ?plan"
    by (intro map_cong) auto
  with run [of d2] placed_again [OF assms(2) place] place else_kept show ?thesis by (simp add: in_place_def)
qed

subsection \<open>Triggers\<close>

lemma match_loop_find:
  "match_loop ul emb ph names =
     find (\<lambda>n. \<exists>content. ReadEmbeddedSkill emb (n @ ''/SKILL.md'') = Some content \<and> skill_answers ul ph content) names"
  by (induction names) (auto split: option.splits)

text \<open>
  The phrase finds the first skill that answers to it, and when no skill is found, none contains the phrase.
\<close>

theorem trigger_finds_first:
  "MatchSkillByTrigger ul emb phrase =
     find (\<lambda>n. \<exists>content. ReadEmbeddedSkill emb (n @ ''/SKILL.md'') = Some content \<and> skill_answers ul (ToLower ul phrase) content)
       (ListEmbeddedSkills emb)"
  by (simp add: MatchSkillByTrigger_def match_loop_find)

text \<open>A bare dash in the list of triggers answers to every phrase: the empty text is contained in it.\<close>

lemma bare_dash_answers_all: "trigger_loop ul phrase True (''-'' # ls)"
proof -
  have "TrimSpace ''-'' = ''-''" "trim_quotes (TrimSpace (ToLower ul [])) = []" by (code_simp, simp add: ToLower_def is_ascii_def) code_simp
  then show ?thesis by (simp add: HasPrefix_def)
qed

text \<open>
  A triggered cycle has no log. Whatever the watched events are, no line goes to the log file that the
  dry run of the same command shows.
\<close>

lemma start_without_log: "runCycleWatch wd sockDir api we cid [] h = (run, h') \<Longrightarrow> wr_log run = []"
  by (auto simp: runCycleWatch_def cycle_conn_def watch_fails_def watch_body_def open_log_def
      split: prod.splits sum.splits stream_exchange.splits if_splits)

theorem trigger_loses_log:
  "tr_Log (fst (trigger_command wd sockDir api we home ul quote emb stamp opts phrase h)) = []"
proof -
  have "wr_log run = []" if "trigger_start wd sockDir api we home opts h = (run, h')" for run h'
    using that
    by (auto simp: trigger_start_def runCycleStart_def cycle_conn_def watch_fails_def Let_def
        split: prod.splits sum.splits option.splits dest: start_without_log)
  then show ?thesis by (auto simp: trigger_command_def Let_def split: prod.split option.split)
qed

subsection \<open>Witnesses\<close>

definition demo_skills :: embedded where
  "demo_skills = [(''cycle/SKILL.md'', ''---x---''), (''cycle/scripts/run.sh'', ''run'')]"

definition demo_torn :: install_faults where
  "demo_torn = no_faults\<lparr>if_write := (\<lambda>p. if p = ''/h/s/scripts/run.sh'' then WriteTorn ''r'' else WriteDone)\<rparr>"

lemma demo_plan:
  "skill_plan demo_skills ''cycle'' ''/h/s'' = [(''/h/s/SKILL.md'', ''---x---'', 420), (''/h/s/scripts/run.sh'', ''run'', 493)]"
  "skill_files demo_skills ''cycle'' \<noteq> []"
  by (code_simp, code_simp)

theorem install_reports_witness:
  "\<exists>d'. InstallNamed no_faults demo_skills ''cycle'' ''/h/s'' (\<lambda>p. if p = ''/h/s/scripts/run.sh'' then Some (''old'', 420) else None) =
     (([\<lparr>ir_Path = ''/h/s/SKILL.md'', ir_Action = Created\<rparr>, \<lparr>ir_Path = ''/h/s/scripts/run.sh'', ir_Action = Overwritten\<rparr>], None), d') \<and>
     d' ''/h/s/scripts/run.sh'' = Some (''run'', 420)"
proof -
  let ?d = "\<lambda>p. if p = ''/h/s/scripts/run.sh'' then Some (''old'', 420 :: nat) else None"
  obtain results err d' where run: "InstallNamed no_faults demo_skills ''cycle'' ''/h/s'' ?d = ((results, err), d')" by (metis prod.collapse)
  have "distinct (map fst (skill_plan demo_skills ''cycle'' ''/h/s''))" by (simp add: demo_plan(1))
  from install_reports [OF demo_plan(2) this run] show ?thesis
    unfolding run by (auto simp: demo_plan(1) report_def)
qed

theorem interrupted_install_repaired_witness:
  "let d1 = snd (InstallNamed demo_torn demo_skills ''cycle'' ''/h/s'' (\<lambda>p. None));
       d2 = snd (InstallNamed no_faults demo_skills ''cycle'' ''/h/s'' d1)
   in \<exists>m. d2 ''/h/s/scripts/run.sh'' = Some (''run'', m)"
proof -
  have "distinct (map fst (skill_plan demo_skills ''cycle'' ''/h/s''))" by (simp add: demo_plan(1))
  from interrupted_install_repaired [OF demo_plan(2) this prod.collapse [symmetric] prod.collapse [symmetric], of demo_torn "\<lambda>p. None"]
  show ?thesis by (simp add: demo_plan(1) Let_def)
qed

end
