(* ===== verification/AddCommand.thy ===== *)
theory AddCommand
  imports Skills Prompts "HOL-Library.Multiset" "HOL-Library.Product_Lexorder"
begin

section \<open>Installing components (internal/cli/add.go)\<close>

text \<open>
  The command \<^verbatim>\<open>add\<close>: its checks, where it installs to, the catalogue of built-in components, the
  question before a file is written, and the interactive choice. What the embedded files decode to
  is a value, as is what a download returns. The disk holds files: the directories that
  \<^verbatim>\<open>os.MkdirAll\<close> makes on the way to a file are not recorded, only whether making them fails. The theory
  shows which files the command writes, that it writes no others, and that the list of components is in one order.
\<close>

subsection \<open>The catalogue\<close>

record addAsset =
  aa_Type :: string
  aa_Name :: string
  aa_Description :: string

text \<open>
  Presets and adapters by the name of their file, with description and bytes; \<open>None\<close> when one of
  them does not load. An adapter also has the name its file gives it; the name of an embedded preset is
  that of its file.
\<close>

record catalogue =
  ct_Presets :: "(string \<times> string \<times> bytes) list option"
  ct_Adapters :: "(string \<times> (string \<times> string) \<times> bytes) list option"
  ct_Skills :: embedded

datatype add_error =
    UnknownType string
  | EmptyName
  | InvalidName string
  | NoDirectory
  | DownloadFails
  | DownloadStatus nat
  | PresetsUnloadable
  | AdaptersUnloadable
  | NoBuiltIn string string
  | NoBuiltInData
  | AddHomeUnknown
  | SkillInstall install_error
  | AddPrompt prompt_error
  | AddMkdir
  | AddWrite

definition skill_asset :: "string \<Rightarrow> addAsset" where
  "skill_asset name = \<lparr>aa_Type = ''skill'', aa_Name = name, aa_Description = ''Embedded skill bundle''\<rparr>"

definition preset_asset :: "string \<times> string \<times> bytes \<Rightarrow> addAsset" where
  "preset_asset p = (case p of (name, desc, raw) \<Rightarrow> \<lparr>aa_Type = ''preset'', aa_Name = name, aa_Description = desc\<rparr>)"

definition adapter_asset :: "string \<times> (string \<times> string) \<times> bytes \<Rightarrow> addAsset" where
  "adapter_asset a = (case a of (key, (name, desc), raw) \<Rightarrow> \<lparr>aa_Type = ''adapter'', aa_Name = name, aa_Description = desc\<rparr>)"

text \<open>The rows of the catalogue; both maps are ranged over in any order.\<close>

definition loadAllBuiltIns :: "catalogue \<Rightarrow> add_error + addAsset list" where
  "loadAllBuiltIns cat =
     (case ct_Presets cat of
        None \<Rightarrow> Inl PresetsUnloadable
      | Some presets \<Rightarrow>
          (case ct_Adapters cat of
             None \<Rightarrow> Inl AdaptersUnloadable
           | Some adapters \<Rightarrow>
               Inr (map preset_asset presets @ map adapter_asset adapters @ map skill_asset (ListEmbeddedSkills (ct_Skills cat)))))"

definition row_key :: "addAsset \<Rightarrow> string \<times> string" where
  "row_key r = (aa_Type r, aa_Name r)"

text \<open>The table: a header and one row for each component.\<close>

definition listComponents :: "catalogue \<Rightarrow> add_error + string list list" where
  "listComponents cat =
     (case loadAllBuiltIns cat of
        Inl e \<Rightarrow> Inl e
      | Inr rows \<Rightarrow>
          Inr ([''TYPE'', ''NAME'', ''DESCRIPTION''] #
               map (\<lambda>r. [aa_Type r, aa_Name r, aa_Description r]) (sort_key row_key rows)))"

definition findBuiltIn :: "catalogue \<Rightarrow> string \<Rightarrow> string \<Rightarrow> add_error + addAsset option" where
  "findBuiltIn cat typ name =
     (if typ = ''preset'' then
        (case ct_Presets cat of
           None \<Rightarrow> Inl PresetsUnloadable
         | Some presets \<Rightarrow> Inr (map_option (\<lambda>v. preset_asset (name, v)) (map_of presets name)))
      else if typ = ''adapter'' then
        (case ct_Adapters cat of
           None \<Rightarrow> Inl AdaptersUnloadable
         | Some adapters \<Rightarrow> Inr (map_option (\<lambda>((n, desc), raw). adapter_asset (name, (name, desc), raw)) (map_of adapters name)))
      else if typ = ''skill'' then
        Inr (if name \<in> set (ListEmbeddedSkills (ct_Skills cat)) then Some (skill_asset name) else None)
      else Inl (UnknownType typ))"

definition loadBuiltInData :: "catalogue \<Rightarrow> string \<Rightarrow> string \<Rightarrow> bytes option" where
  "loadBuiltInData cat typ name =
     (if typ = ''preset'' then map_option snd (Option.bind (ct_Presets cat) (\<lambda>ps. map_of ps name))
      else if typ = ''adapter'' then map_option snd (Option.bind (ct_Adapters cat) (\<lambda>as. map_of as name))
      else if typ = ''skill'' then ReadEmbeddedSkill (ct_Skills cat) (name @ ''/SKILL.md'')
      else None)"

subsection \<open>Checks and places\<close>

definition validateType :: "string \<Rightarrow> add_error option" where
  "validateType typ = (if typ = ''adapter'' \<or> typ = ''preset'' \<or> typ = ''skill'' then None else Some (UnknownType typ))"

definition validateName :: "string \<Rightarrow> add_error option" where
  "validateName name =
     (if name = [] then Some EmptyName
      else if Contains name ''/'' \<or> Contains name [bs] \<or> name = ''.'' \<or> name = ''..'' then Some (InvalidName name)
      else None)"

definition resolveTargetDir :: "string option \<Rightarrow> string option \<Rightarrow> string \<Rightarrow> bool \<Rightarrow> string option" where
  "resolveTargetDir home cwd typ global =
     map_option (\<lambda>d. filepath_Join2 d (''.rallish/'' @ typ @ ''s'')) (if global then home else cwd)"

text \<open>A status and a body, or nothing when the request fails.\<close>

definition downloadURL :: "(string \<Rightarrow> (nat \<times> bytes) option) \<Rightarrow> string \<Rightarrow> add_error + bytes" where
  "downloadURL fetch url =
     (case fetch url of
        None \<Rightarrow> Inl DownloadFails
      | Some (status, body) \<Rightarrow> if status \<noteq> 200 then Inl (DownloadStatus status) else Inr body)"

subsection \<open>The command\<close>

record add_options =
  ao_Global :: bool
  ao_From :: string
  ao_Yes :: bool

record add_world =
  aw_Home :: "string option"
  aw_Cwd :: "string option"
  aw_Catalogue :: catalogue
  aw_Fetch :: "string \<Rightarrow> (nat \<times> bytes) option"
  aw_Faults :: install_faults
  aw_Lower :: "string \<Rightarrow> string"

datatype add_result = AddFails add_error | Cancelled | Installed string | SkillInstalled string "InstallResult list"

definition add_data :: "add_world \<Rightarrow> add_options \<Rightarrow> string \<Rightarrow> string \<Rightarrow> add_error + bytes" where
  "add_data w opts typ name =
     (if ao_From opts \<noteq> [] then downloadURL (aw_Fetch w) (ao_From opts)
      else case findBuiltIn (aw_Catalogue w) typ name of
        Inl e \<Rightarrow> Inl e
      | Inr None \<Rightarrow> Inl (NoBuiltIn typ name)
      | Inr (Some asset) \<Rightarrow>
          (case loadBuiltInData (aw_Catalogue w) typ name of None \<Rightarrow> Inl NoBuiltInData | Some data \<Rightarrow> Inr data))"

definition skill_target :: "add_world \<Rightarrow> add_options \<Rightarrow> string \<Rightarrow> string \<Rightarrow> string option" where
  "skill_target w opts targetDir name =
     (if ao_Global opts then map_option (\<lambda>h. filepath_Join2 h (''.claude/skills/'' @ name)) (aw_Home w)
      else Some (filepath_Join2 targetDir name))"

definition add_skill :: "add_world \<Rightarrow> add_options \<Rightarrow> string \<Rightarrow> string \<Rightarrow> skill_disk \<Rightarrow> add_result \<times> skill_disk" where
  "add_skill w opts targetDir name d =
     (case skill_target w opts targetDir name of
        None \<Rightarrow> (AddFails AddHomeUnknown, d)
      | Some dir \<Rightarrow>
          (case InstallNamed (aw_Faults w) (ct_Skills (aw_Catalogue w)) name dir d of
             ((results, Some e), d') \<Rightarrow> (AddFails (SkillInstall e), d')
           | ((results, None), d') \<Rightarrow> (SkillInstalled dir results, d')))"

definition write_component :: "install_faults \<Rightarrow> string \<Rightarrow> string \<Rightarrow> bytes \<Rightarrow> skill_disk \<Rightarrow> add_result \<times> skill_disk" where
  "write_component io targetDir targetPath data d =
     (if if_mkdir io targetDir then (AddFails AddMkdir, d)
      else case os_WriteFile (if_write io targetPath) targetPath data 0x1A4 d of
        (ok, d') \<Rightarrow> (if ok then Installed targetPath else AddFails AddWrite, d'))"

definition add_file ::
  "add_world \<Rightarrow> add_options \<Rightarrow> string \<Rightarrow> string \<Rightarrow> bytes \<Rightarrow> input \<Rightarrow> skill_disk \<Rightarrow> add_result \<times> input \<times> skill_disk" where
  "add_file w opts targetDir targetPath data i d =
     (if ao_Yes opts then
        (case write_component (aw_Faults w) targetDir targetPath data d of (r, d') \<Rightarrow> (r, i, d'))
      else case Confirm (aw_Lower w) True i of
        (Inl e, i') \<Rightarrow> (AddFails (AddPrompt e), i', d)
      | (Inr ok, i') \<Rightarrow>
          if \<not> ok then (Cancelled, i', d)
          else (case write_component (aw_Faults w) targetDir targetPath data d of (r, d') \<Rightarrow> (r, i', d')))"

definition runAdd ::
  "add_world \<Rightarrow> add_options \<Rightarrow> string \<Rightarrow> string \<Rightarrow> input \<Rightarrow> skill_disk \<Rightarrow> add_result \<times> input \<times> skill_disk" where
  "runAdd w opts typ name i d =
     (case validateType typ of
        Some e \<Rightarrow> (AddFails e, i, d)
      | None \<Rightarrow>
          (case validateName name of
             Some e \<Rightarrow> (AddFails e, i, d)
           | None \<Rightarrow>
               (case resolveTargetDir (aw_Home w) (aw_Cwd w) typ (ao_Global opts) of
                  None \<Rightarrow> (AddFails NoDirectory, i, d)
                | Some targetDir \<Rightarrow>
                    (case add_data w opts typ name of
                       Inl e \<Rightarrow> (AddFails e, i, d)
                     | Inr data \<Rightarrow>
                         if typ = ''skill'' then (case add_skill w opts targetDir name d of (r, d') \<Rightarrow> (r, i, d'))
                         else add_file w opts targetDir (filepath_Join2 targetDir (name @ ''.yaml'')) data i d))))"

text \<open>The interactive choice of type, component and scope.\<close>

definition runAddInteractive :: "add_world \<Rightarrow> add_options \<Rightarrow> input \<Rightarrow> skill_disk \<Rightarrow> add_result \<times> input \<times> skill_disk" where
  "runAddInteractive w opts i d =
     (case SelectOne [''preset'', ''adapter''] 0 i of
        (Inl e, i1) \<Rightarrow> (AddFails (AddPrompt e), i1, d)
      | (Inr (typ, k), i1) \<Rightarrow>
          (case loadAllBuiltIns (aw_Catalogue w) of
             Inl e \<Rightarrow> (AddFails e, i1, d)
           | Inr rows \<Rightarrow>
               let names = sort (map aa_Name (filter (\<lambda>a. aa_Type a = typ) rows)) in
               if length names = 0 then (AddFails (NoBuiltIn typ []), i1, d)
               else (case SelectOne names 0 i1 of
                  (Inl e, i2) \<Rightarrow> (AddFails (AddPrompt e), i2, d)
                | (Inr (picked, k2), i2) \<Rightarrow>
                    (case SelectOne [''local (./.rallish)'', ''global (~/.rallish)''] 0 i2 of
                       (Inl e, i3) \<Rightarrow> (AddFails (AddPrompt e), i3, d)
                     | (Inr (scope, k3), i3) \<Rightarrow>
                         runAdd w (opts\<lparr>ao_Global := HasPrefix scope ''global''\<rparr>) typ picked i3 d))))"

subsection \<open>Where the command writes\<close>

lemma valid_name_seg: "validateName name = None \<Longrightarrow> clean_seg name"
proof -
  assume v: "validateName name = None"
  have "CHR ''/'' \<in> set name \<Longrightarrow> Contains name ''/''"
    by (metis Contains_iff append_Cons append_Nil split_list)
  with v show "clean_seg name" by (auto simp: validateName_def clean_seg_def split: if_splits)
qed

lemma valid_name_file: "validateName name = None \<Longrightarrow> clean_seg (name @ ''.yaml'')"
  using valid_name_seg [of name] by (cases name) (auto simp: clean_seg_def)

lemma write_component_only: "write_component io dir path data d = (r, d') \<Longrightarrow> p \<noteq> path \<Longrightarrow> d' p = d p"
  by (auto simp: write_component_def os_WriteFile_def Let_def split: if_splits write_outcome.splits prod.splits)

lemma add_file_only: "add_file w opts dir path data i d = (r, i', d') \<Longrightarrow> p \<noteq> path \<Longrightarrow> d' p = d p"
  using write_component_only [of "aw_Faults w" dir path data d]
  by (auto simp: add_file_def split: if_splits prod.splits sum.splits)

text \<open>Every file of a skill has a path of plain segments.\<close>

definition plain_skills :: "embedded \<Rightarrow> bool" where
  "plain_skills emb \<longleftrightarrow> (\<forall>(p, c) \<in> set emb. list_all clean_seg (Split p (CHR ''/'')))"

lemma plain_plan_below:
  assumes "plain_skills emb" "CHR ''/'' \<notin> set name" "HasPrefix dir ''/''" "wd \<noteq> None" "p \<in> fst ` set (skill_plan emb name dir)"
  shows "UnderRoot wd p dir = None"
proof -
  obtain q c where q: "(q, c) \<in> set emb" "HasPrefix q (name @ ''/'')"
    and p: "p = filepath_Join2 dir (drop (length name + 1) q)"
    using assms(5) by (auto simp: skill_plan_def skill_files_def)
  then obtain rel where rel: "q = name @ CHR ''/'' # rel" by (auto simp: HasPrefix_iff)
  have "list_all clean_seg (Split q (CHR ''/''))" using assms(1) q(1) by (auto simp: plain_skills_def)
  then have segs: "list_all clean_seg (Split rel (CHR ''/''))" unfolding rel Split_append [OF assms(2)] by simp
  have "segments wd (filepath_Join2 dir rel) = segments wd dir @ Split rel (CHR ''/'')"
    by (rule join_segments [OF assms(3) keeps_clean [OF segs] segs])
  moreover have "dir \<noteq> []" using assms(3) by (auto simp: HasPrefix_def)
  ultimately show ?thesis
    unfolding p under_root_segments [OF assms(4)] by (simp add: rel)
qed

lemma install_only: "InstallNamed io emb name dir d = (r, d') \<Longrightarrow> p \<notin> fst ` set (skill_plan emb name dir) \<Longrightarrow> d' p = d p"
  using faulty_elsewhere [of io "skill_plan emb name dir" d r d' p] by (auto simp: InstallNamed_def split: if_splits)

lemma add_skill_only:
  assumes "add_skill w opts targetDir name d = (r, d')" "d' p \<noteq> d p"
  shows "\<exists>dir. skill_target w opts targetDir name = Some dir \<and> p \<in> fst ` set (skill_plan (ct_Skills (aw_Catalogue w)) name dir)"
proof (cases "skill_target w opts targetDir name")
  case (Some dir)
  obtain x e where "InstallNamed (aw_Faults w) (ct_Skills (aw_Catalogue w)) name dir d = (x, e)" by fastforce
  with assms install_only [OF this, of p] Some show ?thesis
    by (auto simp: add_skill_def split: prod.splits option.splits)
qed (use assms in \<open>simp add: add_skill_def\<close>)

lemma runAdd_changes:
  assumes "runAdd w opts typ name i d = (r, i', d')" "d' \<noteq> d"
  shows "validateType typ = None \<and> validateName name = None \<and>
    (\<exists>dir data. resolveTargetDir (aw_Home w) (aw_Cwd w) typ (ao_Global opts) = Some dir \<and> add_data w opts typ name = Inr data \<and>
      (if typ = ''skill'' then add_skill w opts dir name d = (r, d')
       else add_file w opts dir (filepath_Join2 dir (name @ ''.yaml'')) data i d = (r, i', d')))"
proof (cases "validateType typ")
  case None
  note t = this
  show ?thesis
  proof (cases "validateName name")
    case None
    note n = this
    show ?thesis
    proof (cases "resolveTargetDir (aw_Home w) (aw_Cwd w) typ (ao_Global opts)")
      case (Some dir)
      note run = assms(1) [unfolded runAdd_def t n Some option.case]
      show ?thesis
      proof (cases "add_data w opts typ name")
        case (Inr data)
        obtain x e where sk: "add_skill w opts dir name d = (x, e)" by fastforce
        have "if typ = ''skill'' then add_skill w opts dir name d = (r, d')
            else add_file w opts dir (filepath_Join2 dir (name @ ''.yaml'')) data i d = (r, i', d')"
        proof (cases "typ = ''skill''")
          case True
          from run [unfolded Inr sum.case sk prod.case if_P [OF True]] show ?thesis unfolding if_P [OF True] sk by blast
        next
          case False
          from run [unfolded Inr sum.case if_not_P [OF False]] show ?thesis unfolding if_not_P [OF False] .
        qed
        then show ?thesis using t n Some Inr by blast
      qed (use run assms(2) in simp)
    qed (use assms t n in \<open>simp add: runAdd_def\<close>)
  qed (use assms t in \<open>simp add: runAdd_def\<close>)
qed (use assms in \<open>simp add: runAdd_def\<close>)

text \<open>
  (C39) The command stays in its directories. Whatever type, name, source, answers and faults there are, a
  path that changes is the component's file directly under the directory of its type, or lies
  under the directory of the skill.
\<close>

theorem add_is_confined:
  assumes "runAdd w opts typ name i d = (r, i', d')" and "d' p \<noteq> d p"
    and "plain_skills (ct_Skills (aw_Catalogue w))" and "wd \<noteq> None"
  shows "\<exists>dir. resolveTargetDir (aw_Home w) (aw_Cwd w) typ (ao_Global opts) = Some dir \<and>
    (if typ = ''skill'' then \<exists>sdir. skill_target w opts dir name = Some sdir \<and> UnderRoot wd p sdir = None
     else p = filepath_Join2 dir (name @ ''.yaml'') \<and> UnderRoot wd p dir = None)"
proof -
  have "d' \<noteq> d" using assms(2) by auto
  from runAdd_changes [OF assms(1) this] obtain dir data where ok: "validateName name = None"
    "resolveTargetDir (aw_Home w) (aw_Cwd w) typ (ao_Global opts) = Some dir"
    and act: "if typ = ''skill'' then add_skill w opts dir name d = (r, d')
       else add_file w opts dir (filepath_Join2 dir (name @ ''.yaml'')) data i d = (r, i', d')" by blast
  have rooted: "HasPrefix dir ''/''" using ok(2) joined_rooted by (auto simp: resolveTargetDir_def)
  show ?thesis
  proof (cases "typ = ''skill''")
    case True
    with act have "add_skill w opts dir name d = (r, d')" by simp
    from add_skill_only [OF this assms(2)] obtain sdir where s: "skill_target w opts dir name = Some sdir"
      "p \<in> fst ` set (skill_plan (ct_Skills (aw_Catalogue w)) name sdir)" by blast
    have sr: "HasPrefix sdir ''/''" using s(1) joined_rooted by (auto simp: skill_target_def split: if_splits)
    have "CHR ''/'' \<notin> set name" using valid_name_seg [OF ok(1)] by (simp add: clean_seg_def)
    then have "UnderRoot wd p sdir = None" by (rule plain_plan_below [OF assms(3) _ sr assms(4) s(2)])
    with s(1) ok(2) True show ?thesis by simp
  next
    case False
    with act have "add_file w opts dir (filepath_Join2 dir (name @ ''.yaml'')) data i d = (r, i', d')" by simp
    with add_file_only assms(2) have "p = filepath_Join2 dir (name @ ''.yaml'')" by blast
    with False ok(2) join_under_root [OF rooted valid_name_file [OF ok(1)] assms(4)] show ?thesis by simp
  qed
qed

text \<open>
  Nothing is written without consent. When the question is asked and the answer is neither empty nor yes,
  the command is cancelled, and the disk is as before.
\<close>

theorem add_needs_consent:
  assumes "\<not> ao_Yes opts" and "typ = ''preset'' \<or> typ = ''adapter''" and "validateName name = None"
    and "resolveTargetDir (aw_Home w) (aw_Cwd w) typ (ao_Global opts) = Some dir" and "add_data w opts typ name = Inr data"
    and "typable a" and "ToLower (aw_Lower w) a \<notin> {[], ''y'', ''yes''}"
  shows "runAdd w opts typ name \<lparr>ip_Bytes = a @ CHR 0x0A # rest, ip_Broken = b\<rparr> d = (Cancelled, \<lparr>ip_Bytes = rest, ip_Broken = b\<rparr>, d)"
proof -
  have "validateType typ = None" "typ \<noteq> ''skill''" using assms(2) by (elim disjE; simp add: validateType_def)+
  moreover have "Confirm (aw_Lower w) True \<lparr>ip_Bytes = a @ CHR 0x0A # rest, ip_Broken = b\<rparr> = (Inr False, \<lparr>ip_Bytes = rest, ip_Broken = b\<rparr>)"
    using assms(7) by (simp add: Confirm_def answer_typed [OF assms(6)] Let_def)
  ultimately show ?thesis using assms(1,3-5) by (simp add: runAdd_def add_file_def)
qed

text \<open>
  A built-in component arrives as it is embedded. Without faults, and with consent by the option, the file has
  the bytes of the catalogue, and the mode 0644 if it is new.
\<close>

theorem built_in_arrives:
  assumes "typ = ''preset'' \<or> typ = ''adapter''" and "validateName name = None" and "ao_From opts = []" and "ao_Yes opts"
    and "findBuiltIn (aw_Catalogue w) typ name = Inr (Some asset)" and "aw_Faults w = no_faults"
    and "resolveTargetDir (aw_Home w) (aw_Cwd w) typ (ao_Global opts) = Some dir"
  shows "\<exists>data. loadBuiltInData (aw_Catalogue w) typ name = Some data \<and>
    runAdd w opts typ name i d =
      (Installed (filepath_Join2 dir (name @ ''.yaml'')), i,
       d(filepath_Join2 dir (name @ ''.yaml'') \<mapsto>
           (data, case d (filepath_Join2 dir (name @ ''.yaml'')) of None \<Rightarrow> 0x1A4 | Some (c, m) \<Rightarrow> m)))"
proof -
  have t: "validateType typ = None" "typ \<noteq> ''skill''" using assms(1) by (elim disjE; simp add: validateType_def)+
  obtain data where data: "loadBuiltInData (aw_Catalogue w) typ name = Some data"
    using assms(1,5) by (elim disjE) (auto simp: findBuiltIn_def loadBuiltInData_def split: option.splits)
  have "add_data w opts typ name = Inr data" using assms(3,5) data by (simp add: add_data_def)
  with t assms(2,4,6,7) data show ?thesis
    by (simp add: runAdd_def add_file_def write_component_def os_WriteFile_def no_faults_def)
qed

text \<open>
  The list is in one order. Presets and adapters come out of Go maps in any order; as no two rows have type
  and name in common, every order gives the same table.
\<close>

theorem list_in_one_order:
  assumes "ct_Presets cat = Some ps" and "ct_Adapters cat = Some as" and "mset ps' = mset ps" and "mset as' = mset as"
    and "loadAllBuiltIns cat = Inr rows" and "distinct (map row_key rows)"
  shows "listComponents (cat\<lparr>ct_Presets := Some ps', ct_Adapters := Some as'\<rparr>) = listComponents cat"
proof -
  have rows: "rows = map preset_asset ps @ map adapter_asset as @ map skill_asset (ListEmbeddedSkills (ct_Skills cat))"
    using assms(1,2,5) by (simp add: loadAllBuiltIns_def)
  let ?rows' = "map preset_asset ps' @ map adapter_asset as' @ map skill_asset (ListEmbeddedSkills (ct_Skills cat))"
  have same: "mset ?rows' = mset rows" using assms(3,4) by (simp add: rows)
  then have "set ?rows' = set rows" by (rule mset_eq_setD)
  then have "inj_on row_key (set ?rows')" using assms(6) by (simp add: distinct_map)
  moreover have "mset ?rows' = mset (sort_key row_key rows)" using same by simp
  ultimately have "sort_key row_key ?rows' = sort_key row_key rows"
    using sort_key_inj_key_eq [of ?rows' "sort_key row_key rows" row_key] by simp
  then show ?thesis using assms(1,2) by (simp add: listComponents_def loadAllBuiltIns_def rows)
qed

subsection \<open>Witnesses\<close>

definition demo_catalogue :: catalogue where
  "demo_catalogue = \<lparr>ct_Presets = Some [(''solo'', ''one'', ''p1''), (''pair'', ''two'', ''p2'')],
     ct_Adapters = Some [(''claude'', (''claude'', ''cli''), ''a1'')], ct_Skills = demo_skills\<rparr>"

definition demo_world :: add_world where
  "demo_world = \<lparr>aw_Home = Some ''/h'', aw_Cwd = Some ''/w'', aw_Catalogue = demo_catalogue, aw_Fetch = (\<lambda>u. None),
     aw_Faults = no_faults, aw_Lower = (\<lambda>s. s)\<rparr>"

lemma demo_target: "resolveTargetDir (Some ''/h'') (Some ''/w'') ''preset'' False = Some ''/w/.rallish/presets''"
  "filepath_Join2 ''/w/.rallish/presets'' ''solo.yaml'' = ''/w/.rallish/presets/solo.yaml''"
  "validateName ''solo'' = None"
  by code_simp+

theorem add_is_confined_witness:
  "let (r, i', d') = runAdd demo_world \<lparr>ao_Global = False, ao_From = [], ao_Yes = True\<rparr> ''preset'' ''solo'' \<lparr>ip_Bytes = [], ip_Broken = False\<rparr> (\<lambda>p. None)
   in d' ''/w/.rallish/presets/solo.yaml'' = Some (''p1'', 420) \<and>
      UnderRoot (Some ''/w'') ''/w/.rallish/presets/solo.yaml'' ''/w/.rallish/presets'' = None"
proof -
  let ?opts = "\<lparr>ao_Global = False, ao_From = [], ao_Yes = True\<rparr>" and ?i = "\<lparr>ip_Bytes = [], ip_Broken = False\<rparr>"
  obtain r i' d' where run: "runAdd demo_world ?opts ''preset'' ''solo'' ?i (\<lambda>p. None) = (r, i', d')" by (metis prod.collapse)
  have written: "d' ''/w/.rallish/presets/solo.yaml'' = Some (''p1'', 420)"
    using run by (auto simp: runAdd_def demo_target validateType_def demo_world_def add_data_def findBuiltIn_def demo_catalogue_def
        loadBuiltInData_def add_file_def write_component_def os_WriteFile_def no_faults_def)
  have "plain_skills (ct_Skills (aw_Catalogue demo_world))"
    by (simp add: plain_skills_def demo_world_def demo_catalogue_def demo_skills_def clean_seg_def)
  from add_is_confined [OF run _ this, of "''/w/.rallish/presets/solo.yaml''" "Some ''/w''"] written
  have "UnderRoot (Some ''/w'') ''/w/.rallish/presets/solo.yaml'' ''/w/.rallish/presets'' = None"
    by (auto simp: demo_world_def demo_target)
  with written show ?thesis unfolding run by simp
qed

theorem add_needs_consent_witness:
  "runAdd demo_world \<lparr>ao_Global = False, ao_From = [], ao_Yes = False\<rparr> ''preset'' ''solo'' \<lparr>ip_Bytes = ''no'' @ [CHR 0x0A], ip_Broken = False\<rparr> (\<lambda>p. None) =
     (Cancelled, \<lparr>ip_Bytes = [], ip_Broken = False\<rparr>, \<lambda>p. None)"
proof -
  have "typable ''no''" "ToLower (aw_Lower demo_world) ''no'' = ''no''" by (code_simp, simp add: ToLower_def is_ascii_def lower_char_def)
  then show ?thesis
    using add_needs_consent [of "\<lparr>ao_Global = False, ao_From = [], ao_Yes = False\<rparr>" "''preset''" "''solo''" demo_world "''/w/.rallish/presets''" "''p1''" "''no''" "[]"]
    by (simp add: demo_target demo_world_def add_data_def findBuiltIn_def demo_catalogue_def loadBuiltInData_def)
qed

theorem built_in_arrives_witness:
  "fst (runAdd demo_world \<lparr>ao_Global = False, ao_From = [], ao_Yes = True\<rparr> ''preset'' ''solo'' \<lparr>ip_Bytes = [], ip_Broken = False\<rparr> (\<lambda>p. None)) =
     Installed ''/w/.rallish/presets/solo.yaml''"
  using built_in_arrives [of "''preset''" "''solo''" "\<lparr>ao_Global = False, ao_From = [], ao_Yes = True\<rparr>" demo_world "preset_asset (''solo'', ''one'', ''p1'')"
      "''/w/.rallish/presets''" "\<lparr>ip_Bytes = [], ip_Broken = False\<rparr>" "\<lambda>p. None"]
  by (auto simp: demo_target demo_world_def findBuiltIn_def demo_catalogue_def)

theorem list_in_one_order_witness:
  "listComponents (demo_catalogue\<lparr>ct_Presets := Some [(''pair'', ''two'', ''p2''), (''solo'', ''one'', ''p1'')],
     ct_Adapters := Some [(''claude'', (''claude'', ''cli''), ''a1'')]\<rparr>) = listComponents demo_catalogue"
proof (rule list_in_one_order)
  show "loadAllBuiltIns demo_catalogue = Inr (map preset_asset [(''solo'', ''one'', ''p1''), (''pair'', ''two'', ''p2'')] @
      map adapter_asset [(''claude'', (''claude'', ''cli''), ''a1'')] @ map skill_asset (ListEmbeddedSkills demo_skills))"
    by (simp add: loadAllBuiltIns_def demo_catalogue_def)
  have "ListEmbeddedSkills demo_skills = [''cycle'']" by code_simp
  then show "distinct (map row_key (map preset_asset [(''solo'', ''one'', ''p1''), (''pair'', ''two'', ''p2'')] @
      map adapter_asset [(''claude'', (''claude'', ''cli''), ''a1'')] @ map skill_asset (ListEmbeddedSkills demo_skills)))"
    by (simp add: row_key_def preset_asset_def adapter_asset_def skill_asset_def)
  show "mset [(''pair'', ''two'', ''p2''), (''solo'', ''one'', ''p1'')] = mset [(''solo'', ''one'', ''p1''), (''pair'', ''two'', ''p2'')]"
    by (simp add: add_mset_commute)
qed (simp_all add: demo_catalogue_def)

end
