(* ===== verification/Logx.thy ===== *)
theory Logx
  imports Json
begin

section \<open>Logging and redaction (internal/logx)\<close>

text \<open>
  The middleware that redacts every log record, and the table of patterns it redacts with. A
  regular expression is a datatype; its matcher gives the remainders of a string in the order
  a backtracking matcher tries them, of which \<^verbatim>\<open>regexp\<close> takes the first (leftmost-first). A rune is the
  bytes of one code point, or one byte that is not UTF-8. The theory shows that the middleware passes
  no text on unredacted, which tokens are replaced, and that text without a marker is left alone.
\<close>

subsection \<open>Regular expressions\<close>

datatype regex =
    Eps
  | Rune "string \<Rightarrow> bool"
  | Cat regex regex
  | Alt regex regex
  | Star bool regex

definition rune_len :: "string \<Rightarrow> nat" where
  "rune_len s = max 1 (utf8_len s)"

text \<open>The remainders after a match at the front, the preferred one first. A star stops at an empty match.\<close>

function remainders :: "regex \<Rightarrow> string \<Rightarrow> string list" where
  "remainders Eps s = [s]"
| "remainders (Rune P) s = (if s \<noteq> [] \<and> P (take (rune_len s) s) then [drop (rune_len s) s] else [])"
| "remainders (Cat a b) s = concat (map (remainders b) (filter (\<lambda>t. length t \<le> length s) (remainders a s)))"
| "remainders (Alt a b) s = remainders a s @ remainders b s"
| "remainders (Star greedy a) s =
     (if greedy then concat (map (remainders (Star greedy a)) (filter (\<lambda>t. length t < length s) (remainders a s))) @ [s]
      else s # concat (map (remainders (Star greedy a)) (filter (\<lambda>t. length t < length s) (remainders a s))))"
  by pat_completeness auto
termination
  by (relation "measures [\<lambda>(r, s). length s, \<lambda>(r, s). size r]") auto

definition byte_in :: "(char \<Rightarrow> bool) \<Rightarrow> string \<Rightarrow> bool" where
  "byte_in P r = (case r of [c] \<Rightarrow> P c | _ \<Rightarrow> False)"

definition one :: "char \<Rightarrow> regex" where
  "one c = Rune (byte_in (\<lambda>x. x = c))"

fun lit :: "string \<Rightarrow> regex" where
  "lit [] = Eps"
| "lit (c # s) = Cat (one c) (lit s)"

fun times :: "nat \<Rightarrow> regex \<Rightarrow> regex" where
  "times 0 r = Eps"
| "times (Suc n) r = Cat r (times n r)"

definition at_least :: "nat \<Rightarrow> regex \<Rightarrow> regex" where
  "at_least n r = Cat (times n r) (Star True r)"

definition opt :: "regex \<Rightarrow> regex" where
  "opt r = Alt r Eps"

fun alts :: "regex list \<Rightarrow> regex" where
  "alts [] = Rune (\<lambda>r. False)"
| "alts [r] = r"
| "alts (r # rs) = Alt r (alts rs)"

text \<open>
  Letters without case: ASCII folding, and the long s and the Kelvin sign, which fold to letters
  of ASCII.
\<close>

definition long_s :: string where "long_s = [CHR 0xC5, CHR 0xBF]"
definition kelvin :: string where "kelvin = [CHR 0xE2, CHR 0x84, CHR 0xAA]"

definition no_case :: "char \<Rightarrow> string \<Rightarrow> bool" where
  "no_case c r \<longleftrightarrow> byte_in (\<lambda>x. lower_char x = lower_char c) r \<or> lower_char c = CHR ''s'' \<and> r = long_s \<or> lower_char c = CHR ''k'' \<and> r = kelvin"

fun lit_no_case :: "string \<Rightarrow> regex" where
  "lit_no_case [] = Eps"
| "lit_no_case (c # s) = Cat (Rune (no_case c)) (lit_no_case s)"

definition upper :: "char \<Rightarrow> bool" where "upper c \<longleftrightarrow> c \<in> set ''ABCDEFGHIJKLMNOPQRSTUVWXYZ''"
definition lower :: "char \<Rightarrow> bool" where "lower c \<longleftrightarrow> c \<in> set ''abcdefghijklmnopqrstuvwxyz''"
definition alnum :: "char \<Rightarrow> bool" where "alnum c \<longleftrightarrow> upper c \<or> lower c \<or> is_digit c"

definition one_of :: "(char \<Rightarrow> bool) \<Rightarrow> regex" where
  "one_of P = Rune (byte_in P)"

definition class_no_case :: "(char \<Rightarrow> bool) \<Rightarrow> regex" where
  "class_no_case P = Rune (\<lambda>r. byte_in P r \<or> r = long_s \<or> r = kelvin)"

subsection \<open>The table (redact.go)\<close>

definition placeholder :: string where
  "placeholder = ''[REDACTED]''"

text \<open>A pattern: what the replacement keeps, then what it replaces.\<close>

record secretPattern =
  sp_Keep :: regex
  sp_Secret :: regex

definition masked :: "regex \<Rightarrow> secretPattern" where
  "masked r = \<lparr>sp_Keep = Eps, sp_Secret = r\<rparr>"

definition pem_line :: "string \<Rightarrow> regex" where
  "pem_line word =
     Cat (lit (''-----'' @ word @ '' ''))
       (Cat (Star True (one_of (\<lambda>c. upper c \<or> is_digit c \<or> c = CHR '' ''))) (lit ''PRIVATE KEY-----''))"

definition pem_block :: regex where
  "pem_block = Cat (pem_line ''BEGIN'') (Cat (Star False (Rune (\<lambda>r. True))) (pem_line ''END''))"

definition anthropic_key :: regex where
  "anthropic_key = Cat (lit ''sk-ant-'') (at_least 16 (one_of (\<lambda>c. alnum c \<or> c = CHR ''_'' \<or> c = CHR ''-'')))"

definition openai_key :: regex where
  "openai_key = Cat (lit ''sk-'') (at_least 20 (one_of alnum))"

definition github_token :: regex where
  "github_token = Cat (lit ''gh'') (Cat (one_of (\<lambda>c. c \<in> set ''posru'')) (Cat (lit ''_'') (at_least 30 (one_of alnum))))"

definition slack_token :: regex where
  "slack_token = Cat (lit ''xox'') (Cat (one_of (\<lambda>c. c \<in> set ''baprs'')) (Cat (lit ''-'') (at_least 10 (one_of (\<lambda>c. alnum c \<or> c = CHR ''-'')))))"

definition aws_key :: regex where
  "aws_key = Cat (lit ''AKIA'') (times 16 (one_of (\<lambda>c. upper c \<or> is_digit c)))"

definition google_key :: regex where
  "google_key = Cat (lit ''AIza'') (times 35 (one_of (\<lambda>c. alnum c \<or> c = CHR ''_'' \<or> c = CHR ''-'')))"

definition bearer :: secretPattern where
  "bearer = \<lparr>sp_Keep = lit_no_case ''bearer '',
     sp_Secret = at_least 20 (class_no_case (\<lambda>c. alnum c \<or> c \<in> set ''._~+/=-''))\<rparr>"

definition space :: regex where
  "space = one_of (\<lambda>c. c \<in> {CHR 0x09, CHR 0x0A, CHR 0x0C, CHR 0x0D, CHR '' ''})"

definition credential_words :: regex where
  "credential_words =
     (let sep = opt (one_of (\<lambda>c. c = CHR ''_'' \<or> c = CHR ''-''))
      in alts [Cat (lit_no_case ''API'') (Cat sep (lit_no_case ''KEY'')), lit_no_case ''SECRET'', lit_no_case ''TOKEN'',
           lit_no_case ''PASSWORD'', lit_no_case ''PASSWD'', Cat (lit_no_case ''PRIVATE'') (Cat sep (lit_no_case ''KEY'')),
           Cat (lit_no_case ''ACCESS'') (Cat sep (lit_no_case ''KEY'')), lit_no_case ''CREDENTIAL''])"

definition key_part :: regex where
  "key_part = Star True (class_no_case (\<lambda>c. alnum c \<or> c = CHR ''_''))"

definition assignment :: secretPattern where
  "assignment =
     \<lparr>sp_Keep = Cat key_part (Cat credential_words (Cat key_part (Cat (Star True space)
        (Cat (one_of (\<lambda>c. c = CHR ''='' \<or> c = CHR '':'')) (Cat (Star True space) (opt (one (CHR 0x22)))))))),
      sp_Secret = at_least 4 (Rune (\<lambda>r. \<not> byte_in (\<lambda>c. c \<in> {CHR 0x09, CHR 0x0A, CHR 0x0C, CHR 0x0D, CHR '' '', CHR 0x22}) r))\<rparr>"

definition secretPatterns :: "secretPattern list" where
  "secretPatterns =
     [masked pem_block, masked anthropic_key, masked openai_key, masked github_token, masked slack_token, masked aws_key,
      masked google_key, bearer, assignment]"

subsection \<open>Replacing\<close>

text \<open>The first match at the front: the part that is kept, and what follows the match.\<close>

definition first_match :: "secretPattern \<Rightarrow> string \<Rightarrow> (string \<times> string) option" where
  "first_match p s =
     (case concat (map (\<lambda>t. map (Pair t) (remainders (sp_Secret p) t)) (remainders (sp_Keep p) s)) of
        [] \<Rightarrow> None
      | (t, u) # ms \<Rightarrow> if length u < length s then Some (take (length s - length t) s, u) else None)"

function ReplaceAll :: "secretPattern \<Rightarrow> string \<Rightarrow> string" where
  "ReplaceAll p s =
     (if s = [] then []
      else case first_match p s of
        Some (kept, u) \<Rightarrow> if length u < length s then kept @ placeholder @ ReplaceAll p u else s
      | None \<Rightarrow> take (rune_len s) s @ ReplaceAll p (drop (rune_len s) s))"
  by pat_completeness auto
termination
  by (relation "measure (\<lambda>(p, s). length s)") (auto simp: rune_len_def)

declare ReplaceAll.simps [simp del]

definition Redact :: "string \<Rightarrow> string" where
  "Redact s = (if s = [] then s else foldl (\<lambda>s p. ReplaceAll p s) s secretPatterns)"

subsection \<open>The middleware (handler.go)\<close>

text \<open>
  The value of an attribute: a text, a group, a value carried as any type that is an error, a string
  or has a \<^verbatim>\<open>String\<close> method, or anything else. The text of the last is what a handler makes of it.
\<close>

datatype attr_value =
    VString string
  | VGroup "(string \<times> attr_value) list"
  | VError string
  | VAnyString string
  | VStringer string
  | VOther string

type_synonym attr = "string \<times> attr_value"

fun redactValue :: "(string \<Rightarrow> string) \<Rightarrow> attr_value \<Rightarrow> attr_value" where
  "redactValue redact (VString t) = VString (redact t)"
| "redactValue redact (VGroup attrs) = VGroup (map (\<lambda>(k, v). (k, redactValue redact v)) attrs)"
| "redactValue redact (VError t) = VString (redact t)"
| "redactValue redact (VAnyString t) = VString (redact t)"
| "redactValue redact (VStringer t) = VString (redact t)"
| "redactValue redact (VOther t) = VOther t"

definition redactAttr :: "(string \<Rightarrow> string) \<Rightarrow> attr \<Rightarrow> attr" where
  "redactAttr redact a = (fst a, redactValue redact (snd a))"

record log_record =
  lr_Message :: string
  lr_Attrs :: "attr list"

text \<open>
  The inner handler as the operations on it that count: whether it is enabled, its bound attributes
  and groups in the order they came, and the records it was given.
\<close>

datatype bound = BoundAttrs "attr list" | BoundGroup string

record inner_handler =
  ih_Enabled :: "int \<Rightarrow> bool"
  ih_Bound :: "bound list"

type_synonym RedactingHandler = "inner_handler option"

definition NewRedactingHandler :: "inner_handler option \<Rightarrow> RedactingHandler" where
  "NewRedactingHandler inner = inner"

definition Enabled :: "RedactingHandler \<Rightarrow> int \<Rightarrow> bool" where
  "Enabled h level = (case h of None \<Rightarrow> False | Some inner \<Rightarrow> ih_Enabled inner level)"

text \<open>What the inner handler is given: its bound attributes and the record. \<open>None\<close> is a panic.\<close>

definition Handle :: "(string \<Rightarrow> string) \<Rightarrow> RedactingHandler \<Rightarrow> log_record \<Rightarrow> (bound list \<times> log_record) option" where
  "Handle redact h r =
     (case h of
        None \<Rightarrow> None
      | Some inner \<Rightarrow>
          Some (ih_Bound inner, \<lparr>lr_Message = redact (lr_Message r), lr_Attrs = map (redactAttr redact) (lr_Attrs r)\<rparr>))"

definition WithAttrs :: "(string \<Rightarrow> string) \<Rightarrow> attr list \<Rightarrow> RedactingHandler \<Rightarrow> RedactingHandler option" where
  "WithAttrs redact attrs h =
     (case h of
        None \<Rightarrow> None
      | Some inner \<Rightarrow> Some (Some (inner\<lparr>ih_Bound := ih_Bound inner @ [BoundAttrs (map (redactAttr redact) attrs)]\<rparr>)))"

definition WithGroup :: "string \<Rightarrow> RedactingHandler \<Rightarrow> RedactingHandler option" where
  "WithGroup name h =
     (case h of None \<Rightarrow> None | Some inner \<Rightarrow> Some (Some (inner\<lparr>ih_Bound := ih_Bound inner @ [BoundGroup name]\<rparr>)))"

subsection \<open>What the matcher does with tokens\<close>

lemma ascii_rune: "\<not> high c \<Longrightarrow> rune_len (c # s) = 1"
  using utf8_len_high [of "c # s"] utf8_len_cases [of "c # s"] by (auto simp: rune_len_def)

lemma rune_len_pos: "0 < rune_len s"
  by (simp add: rune_len_def)

text \<open>Classes of ASCII characters.\<close>

definition ascii_class :: "(char \<Rightarrow> bool) \<Rightarrow> bool" where
  "ascii_class P \<longleftrightarrow> (\<forall>c. P c \<longrightarrow> \<not> high c)"

lemma remainders_class:
  assumes "ascii_class P"
  shows "remainders (one_of P) s = (case s of [] \<Rightarrow> [] | c # t \<Rightarrow> if P c then [t] else [])"
proof (cases s)
  case (Cons c t)
  show ?thesis
  proof (cases "high c")
    case True
    then have "\<not> P c" using assms by (auto simp: ascii_class_def)
    then have "\<not> byte_in P (take (rune_len (c # t)) (c # t))"
      by (cases "rune_len (c # t)") (auto simp: byte_in_def split: list.split)
    with \<open>\<not> P c\<close> show ?thesis by (simp add: Cons one_of_def)
  next
    case False
    then show ?thesis using ascii_rune [OF False, of t] by (simp add: Cons one_of_def byte_in_def)
  qed
qed (simp add: one_of_def)

lemma remainders_lit:
  assumes "list_all (\<lambda>c. \<not> high c) w"
  shows "remainders (lit w) s = (if HasPrefix s w then [drop (length w) s] else [])"
  using assms
proof (induction w arbitrary: s)
  case (Cons c w)
  have "ascii_class (\<lambda>x. x = c)" using Cons.prems by (simp add: ascii_class_def)
  from remainders_class [OF this] have "remainders (one c) s = (case s of [] \<Rightarrow> [] | x # t \<Rightarrow> if x = c then [t] else [])"
    by (simp add: one_def one_of_def)
  with Cons show ?case by (auto simp: HasPrefix_def split: list.split)
qed simp

lemma remainders_times:
  assumes "ascii_class P"
  shows "remainders (times n (one_of P)) s = (if n \<le> length (takeWhile P s) then [drop n s] else [])"
proof (induction n arbitrary: s)
  case (Suc n)
  then show ?case by (auto simp: remainders_class [OF assms] split: list.split)
qed simp

lemma remainders_star:
  assumes "ascii_class P"
  shows "\<exists>ms. remainders (Star True (one_of P)) s = dropWhile P s # ms"
proof (induction s)
  case (Cons c s)
  have "remainders (Star True (one_of P)) (c # s) =
      (if P c then remainders (Star True (one_of P)) s else []) @ [c # s]"
    by (subst remainders.simps) (simp add: remainders_class [OF assms] del: remainders.simps)
  with Cons show ?case by (auto simp del: remainders.simps)
qed (subst remainders.simps, simp add: remainders_class [OF assms])

lemma remainders_at_least:
  assumes "ascii_class P"
  shows "if n \<le> length (takeWhile P s) then \<exists>ms. remainders (at_least n (one_of P)) s = dropWhile P s # ms
    else remainders (at_least n (one_of P)) s = []"
proof (cases "n \<le> length (takeWhile P s)")
  case True
  have "dropWhile P (drop n s) = dropWhile P s"
    using True by (induction n arbitrary: s) (auto, case_tac s, auto split: if_splits)
  with True remainders_star [OF assms, of "drop n s"] show ?thesis
    by (auto simp: at_least_def remainders_times [OF assms])
qed (simp add: at_least_def remainders_times [OF assms])

text \<open>A pattern made of a word and a run of at least \<open>n\<close> characters of a class.\<close>

definition token :: "string \<Rightarrow> nat \<Rightarrow> (char \<Rightarrow> bool) \<Rightarrow> secretPattern" where
  "token w n P = masked (Cat (lit w) (at_least n (one_of P)))"

lemma token_match:
  assumes "ascii_class P" "list_all (\<lambda>c. \<not> high c) w" "w \<noteq> []"
  shows "first_match (token w n P) s =
    (if HasPrefix s w \<and> n \<le> length (takeWhile P (drop (length w) s)) then Some ([], dropWhile P (drop (length w) s)) else None)"
proof (cases "HasPrefix s w")
  case True
  then obtain t where s: "s = w @ t" by (auto simp: HasPrefix_iff)
  have "length (dropWhile P t) < length s" using assms(3) length_dropWhile_le [of P t] by (cases w) (auto simp: s)
  with remainders_at_least [OF assms(1), of n t] show ?thesis
    by (auto simp: first_match_def token_def masked_def remainders_lit [OF assms(2)] s)
qed (simp add: first_match_def token_def masked_def remainders_lit [OF assms(2)])

lemma rune_within:
  assumes "a \<noteq> []" "list_all (\<lambda>c. \<not> high c) w" "w \<noteq> []"
  shows "rune_len (a @ w @ t) \<le> length a"
proof (rule ccontr)
  assume n: "\<not> rune_len (a @ w @ t) \<le> length a"
  obtain c w' where w: "w = c # w'" using assms(3) by (cases w) auto
  have "utf8_len (a @ w @ t) > length a" using n assms(1) by (cases a) (auto simp: rune_len_def)
  then have "(a @ w @ t) ! length a \<in> set (take (utf8_len (a @ w @ t)) (a @ w @ t))"
    by (metis in_set_conv_nth length_append length_take min_less_iff_conj nth_take utf8_len_le order_less_le_trans)
  then have "high c" using utf8_len_high [of "a @ w @ t"] by (auto simp: w list_all_iff)
  with assms(2) w show False by simp
qed

text \<open>
  The first token of a text is masked. When the word of the pattern occurs first where the token
  begins, and the token is long enough and ends before \<open>rest\<close>, the text before it is kept as it
  is, the token is replaced, and the search goes on behind it.
\<close>

theorem token_is_masked:
  assumes "ascii_class P" and "list_all (\<lambda>c. \<not> high c) w" and "w \<noteq> []" and "\<not> Contains (a @ butlast w) w"
    and "list_all P k" and "n \<le> length k" and "rest = [] \<or> \<not> P (hd rest)"
  shows "ReplaceAll (token w n P) (a @ w @ k @ rest) = a @ placeholder @ ReplaceAll (token w n P) rest"
  using assms(4)
proof (induction a rule: length_induct)
  case (1 a)
  have run: "takeWhile P (k @ rest) = k" "dropWhile P (k @ rest) = rest"
    using assms(5,7) by (cases rest; auto simp: list_all_iff takeWhile_append2 dropWhile_append2)+
  show ?case
  proof (cases "a = []")
    case True
    show ?thesis
      using assms(3,6) run
      by (subst ReplaceAll.simps) (simp add: True token_match [OF assms(1-3)])
  next
    case False
    let ?s = "a @ w @ k @ rest" and ?n = "rune_len (a @ w @ k @ rest)"
    have n: "0 < ?n" "?n \<le> length a" using rune_len_pos rune_within [OF False assms(2,3)] by simp_all
    have "\<not> HasPrefix ?s w"
    proof
      assume "HasPrefix ?s w"
      then have "take (length w) (a @ butlast w @ [last w]) = w"
        using assms(3) by (simp add: HasPrefix_def)
      moreover have "length w \<le> length (a @ butlast w)" using False assms(3) by (cases a) auto
      ultimately have "take (length w) (a @ butlast w) = w" by simp
      then have "HasPrefix (a @ butlast w) w" by (simp add: HasPrefix_def)
      with 1(2) show False by (metis Contains_iff HasPrefix_iff append_Nil)
    qed
    then have step: "ReplaceAll (token w n P) ?s = take ?n ?s @ ReplaceAll (token w n P) (drop ?n ?s)"
      using False by (subst ReplaceAll.simps) (simp add: token_match [OF assms(1-3)])
    have "\<not> Contains (drop ?n a @ butlast w) w"
      using 1(2) by (metis Contains_iff append.assoc append_take_drop_id)
    with 1(1) n False have "ReplaceAll (token w n P) (drop ?n a @ w @ k @ rest) = drop ?n a @ placeholder @ ReplaceAll (token w n P) rest"
      by simp
    with step n show ?thesis by simp
  qed
qed

subsection \<open>Text without a marker\<close>

lemma remainders_suffix: "t \<in> set (remainders r s) \<Longrightarrow> suffix t s"
proof (induction r s arbitrary: t rule: remainders.induct)
  case (2 P s)
  then show ?case by (auto simp: suffix_drop split: if_splits)
next
  case (3 a b s)
  then show ?case by (auto intro: suffix_order.trans)
next
  case (5 greedy a s)
  have "t = s \<or> (\<exists>u \<in> set (remainders a s). length u < length s \<and> t \<in> set (remainders (Star greedy a) u))"
    using 5(5) by (subst (asm) remainders.simps(5)) (auto simp del: remainders.simps split: if_splits)
  moreover have "suffix t s" if "u \<in> set (remainders a s)" "length u < length s" "t \<in> set (remainders (Star greedy a) u)" for u
  proof -
    have "suffix u s" using 5(1,3) that(1) by (cases greedy) (simp_all del: remainders.simps)
    moreover have "suffix t u" using 5(2,4) that by (cases greedy) (simp_all del: remainders.simps)
    ultimately show ?thesis by (rule suffix_order.trans [rotated])
  qed
  ultimately show ?case by auto
qed auto

lemma cat_none: "(\<And>t. suffix t s \<Longrightarrow> remainders b t = []) \<Longrightarrow> remainders (Cat a b) s = []"
  using remainders_suffix by fastforce

lemma untouched:
  assumes "\<And>t. suffix t s \<Longrightarrow> first_match p t = None"
  shows "ReplaceAll p s = s"
  using assms
proof (induction s rule: length_induct)
  case (1 s)
  show ?case
  proof (cases "s = []")
    case False
    let ?t = "drop (rune_len s) s"
    have "length ?t < length s" using False rune_len_pos [of s] by (cases s) auto
    moreover have "first_match p u = None" if "suffix u ?t" for u
      using 1(2) suffix_order.trans [OF that suffix_drop] by blast
    ultimately have "ReplaceAll p ?t = ?t" using 1(1) by blast
    then show ?thesis using 1(2) [of s] False by (subst ReplaceAll.simps) simp
  qed (simp add: ReplaceAll.simps)
qed

lemma suffix_prefix: "suffix t s \<Longrightarrow> HasPrefix t w \<Longrightarrow> Contains s w"
  by (auto simp: suffix_def HasPrefix_iff Contains_iff)

lemma masked_untouched:
  assumes "\<And>t. suffix t s \<Longrightarrow> remainders r t = []"
  shows "ReplaceAll (masked r) s = s"
  by (rule untouched) (simp add: first_match_def masked_def assms)

text \<open>Words, then a class and a word.\<close>

lemma word_untouched:
  assumes "list_all (\<lambda>c. \<not> high c) w" "\<not> Contains s w"
  shows "ReplaceAll (masked (Cat (lit w) r)) s = s" "ReplaceAll (masked (Cat (Cat (lit w) q) r)) s = s"
  using suffix_prefix assms(2)
  by (intro masked_untouched; simp add: remainders_lit [OF assms(1)], blast)+

lemma class_word_untouched:
  assumes "list_all (\<lambda>c. \<not> high c) w" "list_all (\<lambda>c. \<not> high c) v" "ascii_class P" "\<And>c. P c \<Longrightarrow> \<not> Contains s (w @ c # v)"
  shows "ReplaceAll (masked (Cat (lit w) (Cat (one_of P) (Cat (lit v) r)))) s = s"
proof (rule masked_untouched)
  fix t
  assume t: "suffix t s"
  show "remainders (Cat (lit w) (Cat (one_of P) (Cat (lit v) r))) t = []"
  proof (rule ccontr)
    assume ne: "remainders (Cat (lit w) (Cat (one_of P) (Cat (lit v) r))) t \<noteq> []"
    then obtain u where u: "t = w @ u" by (auto simp: remainders_lit [OF assms(1)] HasPrefix_iff split: if_splits)
    with ne obtain c x where cx: "u = c # x" "P c"
      by (cases u) (auto simp: remainders_lit [OF assms(1)] remainders_class [OF assms(3)] split: if_splits)
    with ne u have "HasPrefix x v"
      by (auto simp: remainders_lit [OF assms(1)] remainders_lit [OF assms(2)] remainders_class [OF assms(3)] split: if_splits)
    then have "HasPrefix t (w @ c # v)" by (auto simp: u cx HasPrefix_iff)
    with suffix_prefix [OF t] assms(4) cx(2) show False by blast
  qed
qed

lemma no_case_rune:
  assumes "remainders (Rune (no_case c)) s \<noteq> []" "lower_char c \<noteq> CHR ''s''" "lower_char c \<noteq> CHR ''k''"
  shows "\<exists>x t. s = x # t \<and> lower_char x = lower_char c \<and> remainders (Rune (no_case c)) s = [t]"
proof -
  have "s \<noteq> []" "byte_in (\<lambda>x. lower_char x = lower_char c) (take (rune_len s) s)"
    using assms by (auto simp: no_case_def split: if_splits)
  then obtain x where x: "take (rune_len s) s = [x]" "lower_char x = lower_char c"
    by (auto simp: byte_in_def split: list.splits)
  then obtain t where "s = x # t" "drop (rune_len s) s = t" by (cases s; cases "rune_len s"; auto)
  with x assms(1) show ?thesis by (auto split: if_splits)
qed

lemma no_case_prefix:
  assumes "remainders (lit_no_case w) s \<noteq> []" "list_all (\<lambda>c. lower_char c \<noteq> CHR ''s'' \<and> lower_char c \<noteq> CHR ''k'') w"
  shows "HasPrefix (map lower_char s) (map lower_char w)"
  using assms
proof (induction w arbitrary: s)
  case (Cons c w)
  have "remainders (Rune (no_case c)) s \<noteq> []" using Cons.prems(1) by (auto simp del: remainders.simps(2))
  with no_case_rune [of c s] Cons.prems(2) obtain x t where
    x: "s = x # t" "lower_char x = lower_char c" "remainders (Rune (no_case c)) s = [t]" by auto
  have "remainders (lit_no_case w) t \<noteq> []"
    using Cons.prems(1) unfolding lit_no_case.simps remainders.simps(3) x(3) by (simp add: x(1))
  with Cons.IH Cons.prems(2) have "HasPrefix (map lower_char t) (map lower_char w)" by simp
  with x(1,2) show ?case by (simp add: HasPrefix_def)
qed simp

definition marked :: "string \<Rightarrow> bool" where
  "marked s \<longleftrightarrow>
     list_ex (Contains s) [''-----BEGIN '', ''sk-'', ''AKIA'', ''AIza''] \<or>
     list_ex (\<lambda>c. Contains s (''gh'' @ c # ''_'')) ''posru'' \<or> list_ex (\<lambda>c. Contains s (''xox'' @ c # ''-'')) ''baprs'' \<or>
     Contains (map lower_char s) ''bearer '' \<or> CHR ''='' \<in> set s \<or> CHR '':'' \<in> set s"

lemma bearer_untouched:
  assumes "\<not> Contains (map lower_char s) ''bearer ''"
  shows "ReplaceAll bearer s = s"
proof (rule untouched)
  fix t
  assume "suffix t s"
  then have "suffix (map lower_char t) (map lower_char s)" by (auto simp: suffix_def)
  then have "\<not> HasPrefix (map lower_char t) ''bearer ''" using suffix_prefix assms by blast
  moreover have "map lower_char ''bearer '' = ''bearer ''" by code_simp
  moreover have "list_all (\<lambda>c. lower_char c \<noteq> CHR ''s'' \<and> lower_char c \<noteq> CHR ''k'') ''bearer ''" by code_simp
  ultimately have "remainders (lit_no_case ''bearer '') t = []" using no_case_prefix [of "''bearer ''" t] by argo
  then show "first_match bearer t = None" by (simp add: first_match_def bearer_def del: lit_no_case.simps)
qed

lemma assignment_untouched:
  assumes "CHR ''='' \<notin> set s" "CHR '':'' \<notin> set s"
  shows "ReplaceAll assignment s = s"
proof (rule untouched)
  fix t
  assume t: "suffix t s"
  let ?eq = "one_of (\<lambda>c. c = CHR ''='' \<or> c = CHR '':'')"
  have ascii: "ascii_class (\<lambda>c. c = CHR ''='' \<or> c = CHR '':'')" by (auto simp: ascii_class_def high_def)
  have "remainders ?eq u = []" if "suffix u t" for u
    using assms suffix_order.trans [OF that t] by (cases u) (auto simp: remainders_class [OF ascii] suffix_def)
  then have eq: "suffix u t \<Longrightarrow> remainders (Cat ?eq r) u = []" for u r by simp
  have up: "(\<And>u. suffix u t \<Longrightarrow> remainders r u = []) \<Longrightarrow> suffix v t \<Longrightarrow> remainders (Cat q r) v = []" for r q v
    by (rule cat_none) (meson suffix_order.trans)
  have "remainders (sp_Keep assignment) t = []"
    unfolding assignment_def secretPattern.simps by (intro up eq suffix_order.refl)
  then show "first_match assignment t = None" by (simp add: first_match_def)
qed

text \<open>
  Text without a marker is left alone. If no pattern's word occurs, and there is neither an equals
  sign nor a colon, redaction changes nothing.
\<close>

theorem unmarked_is_untouched:
  assumes "\<not> marked s"
  shows "Redact s = s"
proof -
  have m: "\<not> Contains s ''-----BEGIN ''" "\<not> Contains s ''sk-''" "\<not> Contains s ''AKIA''" "\<not> Contains s ''AIza''"
    "\<not> Contains (map lower_char s) ''bearer ''" "CHR ''='' \<notin> set s" "CHR '':'' \<notin> set s"
    "\<And>c. c \<in> set ''posru'' \<Longrightarrow> \<not> Contains s (''gh'' @ c # ''_'')" "\<And>c. c \<in> set ''baprs'' \<Longrightarrow> \<not> Contains s (''xox'' @ c # ''-'')"
    using assms unfolding marked_def list_ex_iff by auto
  have "\<not> Contains s ''sk-ant-''"
  proof
    assume "Contains s ''sk-ant-''"
    then obtain a b where "s = a @ ''sk-'' @ ''ant-'' @ b" by (auto simp: Contains_iff)
    with m(2) show False unfolding Contains_iff by blast
  qed
  note sk = this
  have hi: "list_all (\<lambda>c. \<not> high c) ''-----BEGIN ''" "list_all (\<lambda>c. \<not> high c) ''sk-ant-''" "list_all (\<lambda>c. \<not> high c) ''sk-''"
    "list_all (\<lambda>c. \<not> high c) ''AKIA''" "list_all (\<lambda>c. \<not> high c) ''AIza''" "list_all (\<lambda>c. \<not> high c) ''gh''"
    "list_all (\<lambda>c. \<not> high c) ''_''" "list_all (\<lambda>c. \<not> high c) ''xox''" "list_all (\<lambda>c. \<not> high c) ''-''"
    by code_simp+
  have ac: "ascii_class (\<lambda>c. c \<in> set ''posru'')" "ascii_class (\<lambda>c. c \<in> set ''baprs'')"
    by (auto simp: ascii_class_def high_def)
  have "ReplaceAll (masked pem_block) s = s" unfolding pem_block_def pem_line_def append_Cons append_Nil
    by (rule word_untouched(2) [OF hi(1) m(1)])
  moreover have "ReplaceAll (masked anthropic_key) s = s" unfolding anthropic_key_def by (rule word_untouched(1) [OF hi(2) sk])
  moreover have "ReplaceAll (masked openai_key) s = s" unfolding openai_key_def by (rule word_untouched(1) [OF hi(3) m(2)])
  moreover have "ReplaceAll (masked github_token) s = s" unfolding github_token_def
    by (rule class_word_untouched [OF hi(6) hi(7) ac(1) m(8)])
  moreover have "ReplaceAll (masked slack_token) s = s" unfolding slack_token_def
    by (rule class_word_untouched [OF hi(8) hi(9) ac(2) m(9)])
  moreover have "ReplaceAll (masked aws_key) s = s" unfolding aws_key_def by (rule word_untouched(1) [OF hi(4) m(3)])
  moreover have "ReplaceAll (masked google_key) s = s" unfolding google_key_def by (rule word_untouched(1) [OF hi(5) m(4)])
  moreover have "ReplaceAll bearer s = s" by (rule bearer_untouched [OF m(5)])
  moreover have "ReplaceAll assignment s = s" by (rule assignment_untouched [OF m(6,7)])
  ultimately show ?thesis by (simp add: Redact_def secretPatterns_def)
qed

subsection \<open>The boundary\<close>

fun texts :: "attr_value \<Rightarrow> string list" where
  "texts (VString t) = [t]"
| "texts (VGroup attrs) = concat (map (\<lambda>(k, v). texts v) attrs)"
| "texts (VError t) = [t]"
| "texts (VAnyString t) = [t]"
| "texts (VStringer t) = [t]"
| "texts (VOther t) = []"

fun value_keys :: "attr_value \<Rightarrow> string list" where
  "value_keys (VGroup attrs) = concat (map (\<lambda>(k, v). k # value_keys v) attrs)"
| "value_keys v = []"

definition attr_texts :: "attr list \<Rightarrow> string list" where
  "attr_texts attrs = concat (map (texts \<circ> snd) attrs)"

definition attr_keys :: "attr list \<Rightarrow> string list" where
  "attr_keys attrs = concat (map (\<lambda>(k, v). k # value_keys v) attrs)"

fun bound_texts :: "bound \<Rightarrow> string list" where
  "bound_texts (BoundAttrs attrs) = attr_texts attrs"
| "bound_texts (BoundGroup name) = []"

lemma texts_redacted: "texts (redactValue redact v) = map redact (texts v)"
proof (induction v rule: texts.induct)
  case (2 attrs)
  then have "\<forall>(k, v) \<in> set attrs. texts (redactValue redact v) = map redact (texts v)" by fastforce
  then show ?case by (induction attrs) auto
qed auto

lemma keys_kept: "value_keys (redactValue redact v) = value_keys v"
proof (induction v rule: value_keys.induct)
  case (1 attrs)
  then have "\<forall>(k, v) \<in> set attrs. value_keys (redactValue redact v) = value_keys v" by fastforce
  then show ?case by (induction attrs) auto
qed auto

lemma attrs_redacted:
  "attr_texts (map (redactAttr redact) attrs) = map redact (attr_texts attrs)"
  "attr_keys (map (redactAttr redact) attrs) = attr_keys attrs"
  by (induction attrs) (auto simp: attr_texts_def attr_keys_def redactAttr_def texts_redacted keys_kept split: prod.split)

text \<open>The handlers a program derives from a new one.\<close>

inductive derived :: "(string \<Rightarrow> string) \<Rightarrow> inner_handler \<Rightarrow> RedactingHandler \<Rightarrow> bool" for redact inner where
  New: "derived redact inner (NewRedactingHandler (Some inner))"
| Attrs: "derived redact inner h \<Longrightarrow> WithAttrs redact attrs h = Some h' \<Longrightarrow> derived redact inner h'"
| Group: "derived redact inner h \<Longrightarrow> WithGroup name h = Some h' \<Longrightarrow> derived redact inner h'"

lemma derived_bound:
  "derived redact inner h \<Longrightarrow> \<exists>i new. h = Some i \<and> ih_Bound i = ih_Bound inner @ new \<and>
     (\<forall>b \<in> set new. set (bound_texts b) \<subseteq> range redact)"
proof (induction rule: derived.induct)
  case New
  then show ?case by (simp add: NewRedactingHandler_def)
next
  case (Attrs h attrs h')
  then show ?case by (auto simp: WithAttrs_def attrs_redacted)
next
  case (Group h name h')
  then show ?case by (auto simp: WithGroup_def)
qed

text \<open>
  No text passes the middleware as it is. For every handler derived from a new one, however attributes
  and groups were bound, the inner handler is given the redacted message, the redacted texts of every
  attribute at any depth of groups, in their order, and no bound text that was not redacted. The keys
  are passed on as they are.
\<close>

theorem log_is_redacted:
  assumes "derived redact inner h" and "ih_Bound inner = []"
  shows "\<exists>bounds r'. Handle redact h r = Some (bounds, r') \<and> lr_Message r' = redact (lr_Message r) \<and>
    attr_texts (lr_Attrs r') = map redact (attr_texts (lr_Attrs r)) \<and> attr_keys (lr_Attrs r') = attr_keys (lr_Attrs r) \<and>
    (\<forall>b \<in> set bounds. set (bound_texts b) \<subseteq> range redact)"
  using derived_bound [OF assms(1)] assms(2) by (auto simp: Handle_def attrs_redacted)

subsection \<open>Witnesses\<close>

lemma alnum_ascii: "ascii_class alnum"
  by (auto simp: ascii_class_def alnum_def upper_def lower_def is_digit_def high_def)

theorem token_is_masked_witness:
  "ReplaceAll (masked openai_key) (''key '' @ ''sk-'' @ replicate 20 (CHR ''a'') @ '' end'') = ''key [REDACTED]'' @ ReplaceAll (masked openai_key) '' end''"
proof -
  have "\<not> Contains (''key '' @ butlast ''sk-'') ''sk-''" by code_simp
  moreover have "list_all alnum (replicate 20 (CHR ''a''))" "\<not> alnum (CHR '' '')" by code_simp+
  moreover have "list_all (\<lambda>c. \<not> high c) ''sk-''" by code_simp
  ultimately show ?thesis
    using token_is_masked [OF alnum_ascii, of "''sk-''" "''key ''" "replicate 20 (CHR ''a'')" 20 "'' end''"]
    by (simp add: token_def openai_key_def placeholder_def)
qed

theorem unmarked_is_untouched_witness: "Redact ''the token bucket holds secret sauce'' = ''the token bucket holds secret sauce''"
  by (rule unmarked_is_untouched) code_simp

definition demo_inner :: inner_handler where
  "demo_inner = \<lparr>ih_Enabled = (\<lambda>l. True), ih_Bound = []\<rparr>"

theorem log_is_redacted_witness:
  "\<exists>bounds r'. Handle Redact (NewRedactingHandler (Some demo_inner))
      \<lparr>lr_Message = ''m'', lr_Attrs = [(''error'', VError ''e''), (''g'', VGroup [(''k'', VString ''v'')])]\<rparr> = Some (bounds, r') \<and>
    attr_texts (lr_Attrs r') = map Redact [''e'', ''v'']"
  using log_is_redacted [OF derived.New [of Redact demo_inner],
      of "\<lparr>lr_Message = ''m'', lr_Attrs = [(''error'', VError ''e''), (''g'', VGroup [(''k'', VString ''v'')])]\<rparr>"]
  by (auto simp: demo_inner_def attr_texts_def)

end
