(* ===== verification/Squash.thy ===== *)
theory Squash
  imports AddCommand Presets Adapters Runner SessionStore
begin

section \<open>Starting a session (internal/cli/squash.go)\<close>

text \<open>
  The command \<^verbatim>\<open>squash\<close> around the lookup of \<open>BrokerHome\<close>: the repository, the preset, which is a
  built-in one or a file of the home, the session, which is created or resumed, and a runner for every
  role. The YAML decoder, the replies of the broker and what each runner ends with are values. The
  theory connects it with \<open>AddCommand\<close>: which installed presets it sees.
\<close>

subsection \<open>The command\<close>

record squash_options =
  so_PresetName :: string
  so_Task :: string
  so_SessionID :: string
  so_HomeDir :: string
  so_Repo :: string

datatype squash_error =
    NoWorkingDirectory
  | RepoUnresolved
  | RepoMissing
  | RepoIsNoDirectory string
  | SquashBroker resolve_error
  | EmbeddedPresets preset_error
  | PresetNotFound string
  | PresetUnloadable preset_error
  | ResumeFails
  | SessionNotFound string
  | ResumeStatus nat
  | UndecodableSession
  | TaskRequired
  | CreateSessionFails
  | CreateStatus nat string
  | RegistryFails
  | UnknownRuntime string string
  | RunnerEnds runner_error

record squash_world =
  sw_Wd :: "string option"
  sw_IsDir :: "string \<Rightarrow> bool option"
  sw_Disk :: skill_disk
  sw_Yaml :: "bytes \<Rightarrow> yamlPreset option"
  sw_Claude :: "string option"
  sw_Kimi :: "string option"
  sw_GetSession :: "endpoint \<Rightarrow> string \<Rightarrow> Session exchange"
  sw_PostSession :: "endpoint \<Rightarrow> Preset \<Rightarrow> Task \<Rightarrow> string exchange"
  sw_Runner :: "runtime \<Rightarrow> string \<Rightarrow> endpoint \<Rightarrow> string \<Rightarrow> runner_error option"
  sw_Canceled :: "runner_error \<Rightarrow> bool"
  sw_First :: "runner_error list \<Rightarrow> runner_error"

definition repo_root :: "squash_world \<Rightarrow> string \<Rightarrow> squash_error + string" where
  "repo_root w repo =
     (case (if repo = [] then sw_Wd w else Some repo) of
        None \<Rightarrow> Inl NoWorkingDirectory
      | Some p \<Rightarrow>
          (case filepath_Abs (sw_Wd w) p of
             None \<Rightarrow> Inl RepoUnresolved
           | Some root \<Rightarrow>
               (case sw_IsDir w root of
                  None \<Rightarrow> Inl RepoMissing
                | Some isDir \<Rightarrow> if \<not> isDir then Inl (RepoIsNoDirectory root) else Inr root)))"

definition preset_path :: "string \<Rightarrow> string \<Rightarrow> string" where
  "preset_path homeDir name = filepath_Join2 homeDir (''.rallish/presets/'' @ name @ ''.yaml'')"

text \<open>The preset of a name: a built-in one, else the file of the home.\<close>

definition squash_preset :: "(bytes \<Rightarrow> yamlPreset option) \<Rightarrow> skill_disk \<Rightarrow> string \<Rightarrow> string \<Rightarrow> squash_error + Preset" where
  "squash_preset yaml d homeDir name =
     (case LoadEmbedded of
        Inl e \<Rightarrow> Inl (EmbeddedPresets e)
      | Inr presets \<Rightarrow>
          (case presets name of
             Some p \<Rightarrow> Inr p
           | None \<Rightarrow>
               (case d (preset_path homeDir name) of
                  None \<Rightarrow> Inl (PresetNotFound name)
                | Some (data, mode) \<Rightarrow>
                    (case Preset_Load (yaml data) of Inl e \<Rightarrow> Inl (PresetUnloadable e) | Inr p \<Rightarrow> Inr p))))"

definition resume_session :: "squash_world \<Rightarrow> squash_options \<Rightarrow> endpoint \<Rightarrow> squash_error + string \<times> Preset" where
  "resume_session w opts ep =
     (case sw_GetSession w ep (so_SessionID opts) of
        SendFails \<Rightarrow> Inl ResumeFails
      | Reply status text body \<Rightarrow>
          if status = 404 then Inl (SessionNotFound (so_SessionID opts))
          else if status \<noteq> 200 then Inl (ResumeStatus status)
          else case body of
            None \<Rightarrow> Inl UndecodableSession
          | Some sess \<Rightarrow>
              (case squash_preset (sw_Yaml w) (sw_Disk w) (so_HomeDir opts) (se_PresetName sess) of
                 Inl e \<Rightarrow> Inl e | Inr p \<Rightarrow> Inr (se_ID sess, p)))"

definition create_session :: "squash_world \<Rightarrow> squash_options \<Rightarrow> string \<Rightarrow> endpoint \<Rightarrow> squash_error + string \<times> Preset" where
  "create_session w opts repoRoot ep =
     (if so_Task opts = [] then Inl TaskRequired
      else case squash_preset (sw_Yaml w) (sw_Disk w) (so_HomeDir opts) (so_PresetName opts) of
        Inl e \<Rightarrow> Inl e
      | Inr p \<Rightarrow>
          (case sw_PostSession w ep p \<lparr>t_Title = so_Task opts, t_Body = so_Task opts, t_RepoRoot = repoRoot\<rparr> of
             SendFails \<Rightarrow> Inl CreateSessionFails
           | Reply status text body \<Rightarrow>
               if status \<noteq> 201 then Inl (CreateStatus status text)
               else case body of None \<Rightarrow> Inl UndecodableSession | Some sid \<Rightarrow> Inr (sid, p)))"

text \<open>The runners that are started, with what each ends with, up to a role whose runtime is unknown.\<close>

fun start_roles :: "runtime registry \<Rightarrow> (runtime \<Rightarrow> string \<Rightarrow> runner_error option) \<Rightarrow> Role list \<Rightarrow>
   (string \<times> runner_error option) list \<times> squash_error option" where
  "start_roles reg run [] = ([], None)"
| "start_roles reg run (role # roles) =
     (case registry_Get reg (r_Runtime role) of
        None \<Rightarrow> ([], Some (UnknownRuntime (r_Runtime role) (r_ID role)))
      | Some a \<Rightarrow> apfst ((#) (r_ID role, run a (r_ID role))) (start_roles reg run roles))"

text \<open>The first error of the group; a cancelled runner is not an error.\<close>

definition group_wait :: "squash_world \<Rightarrow> (string \<times> runner_error option) list \<Rightarrow> squash_error option" where
  "group_wait w started =
     (let failed = filter (\<lambda>e. \<not> sw_Canceled w e) (concat (map (\<lambda>(role, r). case r of None \<Rightarrow> [] | Some e \<Rightarrow> [e]) started))
      in if failed = [] then None else Some (RunnerEnds (sw_First w failed)))"

definition completed_line :: "squash_options \<Rightarrow> string \<Rightarrow> string \<Rightarrow> string" where
  "completed_line opts sid repoRoot =
     ''Session '' @ sid @ '' in '' @ repoRoot @ '' completed successfully. Log: '' @
     filepath_Join2 (so_HomeDir opts) (''.rallish/sessions/'' @ sid @ ''/log.jsonl'')"

type_synonym squash_run = "string list \<times> squash_error option"

definition run_roles :: "squash_world \<Rightarrow> squash_options \<Rightarrow> string \<Rightarrow> endpoint \<Rightarrow> string \<Rightarrow> Preset \<Rightarrow> squash_run" where
  "run_roles w opts repoRoot ep sid p =
     (case BuildRegistry (sw_Claude w) (sw_Kimi w) of
        None \<Rightarrow> ([sid], Some RegistryFails)
      | Some reg \<Rightarrow>
          (case start_roles reg (\<lambda>a role. sw_Runner w a role ep sid) (p_Roles p) of
             (started, Some e) \<Rightarrow> ([sid], Some e)
           | (started, None) \<Rightarrow>
               (case group_wait w started of
                  Some e \<Rightarrow> ([sid], Some e)
                | None \<Rightarrow> ([sid, completed_line opts sid repoRoot], None))))"

definition RunSquash ::
  "squash_world \<Rightarrow> bool \<Rightarrow> (broker_home \<Rightarrow> broker_home) list \<Rightarrow> squash_options \<Rightarrow> broker_home \<Rightarrow> squash_run \<times> broker_home" where
  "RunSquash w spawned between opts h =
     (case repo_root w (so_Repo opts) of
        Inl e \<Rightarrow> (([], Some e), h)
      | Inr repoRoot \<Rightarrow>
          (case squash_broker (sw_Wd w) (filepath_Join2 (so_HomeDir opts) ''.rallish'') spawned between h of
             (Inl e, h') \<Rightarrow> (([], Some (SquashBroker e)), h')
           | (Inr ep, h') \<Rightarrow>
               ((case (if so_SessionID opts \<noteq> [] then resume_session w opts ep else create_session w opts repoRoot ep) of
                   Inl e \<Rightarrow> ([], Some e)
                 | Inr (sid, p) \<Rightarrow> run_roles w opts repoRoot ep sid p), h')))"

subsection \<open>Which presets it sees\<close>

lemma preset_file_path:
  assumes "HasPrefix homeDir ''/''" "clean_seg (name @ ''.yaml'')"
  shows "preset_path homeDir name = path_of (segments wd homeDir @ [''.rallish'', ''presets'', name @ ''.yaml''])"
proof -
  have no: "CHR ''/'' \<notin> set (name @ ''.yaml'')" using assms(2) by (simp add: clean_seg_def)
  have "''.rallish/presets/'' @ name @ ''.yaml'' = ''.rallish'' @ CHR ''/'' # ''presets'' @ CHR ''/'' # name @ ''.yaml''" by simp
  then have "Split (''.rallish/presets/'' @ name @ ''.yaml'') (CHR ''/'') = [''.rallish'', ''presets'', name @ ''.yaml'']"
    using Split_single [OF no] by (simp only: Split_append) (simp add: Split_append)
  moreover have "list_all clean_seg [''.rallish'', ''presets'', name @ ''.yaml'']" using assms(2) by (simp add: clean_seg_def)
  ultimately show ?thesis
    unfolding preset_path_def by (intro join_path [OF assms(1)]) (simp only: keeps_clean)
qed

lemma add_preset_path:
  assumes "HasPrefix base ''/''" "clean_seg (name @ ''.yaml'')"
  shows "filepath_Join2 (filepath_Join2 base (''.rallish/'' @ ''preset'' @ ''s'')) (name @ ''.yaml'') =
    path_of (segments wd base @ [''.rallish'', ''presets'', name @ ''.yaml''])"
proof -
  have "Split (''.rallish/'' @ ''preset'' @ ''s'') (CHR ''/'') = [''.rallish'', ''presets'']" by code_simp
  moreover have "list_all clean_seg [''.rallish'', ''presets'']" by code_simp
  ultimately have "segments wd (filepath_Join2 base (''.rallish/'' @ ''preset'' @ ''s'')) = segments wd base @ [''.rallish'', ''presets'']"
    by (intro join_segments [OF assms(1)]) (simp_all only: keeps_clean)
  moreover have "Split (name @ ''.yaml'') (CHR ''/'') = [name @ ''.yaml'']"
    using assms(2) Split_single by (simp add: clean_seg_def)
  ultimately show ?thesis
    using join_path [OF joined_rooted, where wd = wd and name = "name @ ''.yaml''" and segs = "[name @ ''.yaml'']"] assms(2)
    by (simp add: keeps_clean)
qed

lemma path_of_inj: "list_all clean_seg xs \<Longrightarrow> list_all clean_seg ys \<Longrightarrow> path_of xs = path_of ys \<Longrightarrow> xs = ys"
  by (metis segments_path_of)

text \<open>
  (C40) What is added for the home is what squash runs. After \<^verbatim>\<open>add preset --global --from\<close>, without faults and with
  consent, the preset of that name is the one the download decodes to, unless the name is that of a
  built-in preset.
\<close>

theorem added_preset_is_run:
  assumes "HasPrefix home ''/''" and "aw_Home w = Some home" and "aw_Faults w = no_faults" and "validateName name = None"
    and "ao_Global opts" and "ao_Yes opts" and "ao_From opts = url" and "url \<noteq> []" and "aw_Fetch w url = Some (200, body)"
    and "LoadEmbedded = Inr presets" and "presets name = None" and "Preset_Load (yaml body) = Inr p"
    and "runAdd w opts ''preset'' name i d = (r, i', d')"
  shows "squash_preset yaml d' home name = Inr p"
proof -
  define dir where "dir = filepath_Join2 home (''.rallish/'' @ ''preset'' @ ''s'')"
  have seg: "clean_seg (name @ ''.yaml'')" by (rule valid_name_file [OF assms(4)])
  have path: "filepath_Join2 dir (name @ ''.yaml'') = preset_path home name"
    unfolding dir_def preset_file_path [OF assms(1) seg, where wd = None] by (rule add_preset_path [OF assms(1) seg])
  have "validateType ''preset'' = None" by code_simp
  moreover have "resolveTargetDir (aw_Home w) (aw_Cwd w) ''preset'' (ao_Global opts) = Some dir"
    using assms(2,5) by (simp add: resolveTargetDir_def dir_def)
  moreover have "add_data w opts ''preset'' name = Inr body"
    using assms(7-9) by (simp add: add_data_def downloadURL_def)
  ultimately have "add_file w opts dir (preset_path home name) body i d = (r, i', d')"
    using assms(4,13) by (simp add: runAdd_def path)
  then have "\<exists>m. d' (preset_path home name) = Some (body, m)"
    using assms(3,6) by (auto simp: add_file_def write_component_def os_WriteFile_def no_faults_def)
  with assms(11,12) show ?thesis by (auto simp: squash_preset_def assms(10))
qed

text \<open>
  Two installations squash does not see. A preset installed under the name of a built-in one is shadowed by
  it; and one installed without \<^verbatim>\<open>--global\<close>, from a directory other than the home, which is the default
  of the command, changes no preset at all.
\<close>

theorem installed_presets_unseen:
  assumes "HasPrefix home ''/''" and "aw_Cwd w = Some cwd" and "HasPrefix cwd ''/''" and "clean_seg (n @ ''.yaml'')"
    and "runAdd w opts ''preset'' name i d = (r, i', d')"
    and "LoadEmbedded = Inr presets"
    and "presets n \<noteq> None \<or> \<not> ao_Global opts \<and> segments wd cwd \<noteq> segments wd home"
  shows "squash_preset yaml d' home n = squash_preset yaml d home n"
proof (cases "presets n")
  case None
  with assms(7) have local: "\<not> ao_Global opts" "segments wd cwd \<noteq> segments wd home" by simp_all
  have "d' (preset_path home n) = d (preset_path home n)"
  proof (rule ccontr)
    assume changed: "d' (preset_path home n) \<noteq> d (preset_path home n)"
    then have "d' \<noteq> d" by auto
    from runAdd_changes [OF assms(5) this] obtain dir data where v: "validateName name = None"
      and dir: "resolveTargetDir (aw_Home w) (aw_Cwd w) ''preset'' (ao_Global opts) = Some dir"
      and act: "add_file w opts dir (filepath_Join2 dir (name @ ''.yaml'')) data i d = (r, i', d')" by auto
    have seg: "clean_seg (name @ ''.yaml'')" by (rule valid_name_file [OF v])
    have "dir = filepath_Join2 cwd (''.rallish/'' @ ''preset'' @ ''s'')"
      using dir local(1) assms(2) by (simp add: resolveTargetDir_def)
    moreover have "preset_path home n = filepath_Join2 dir (name @ ''.yaml'')" using add_file_only [OF act] changed by blast
    ultimately have "path_of (segments wd home @ [''.rallish'', ''presets'', n @ ''.yaml'']) =
        path_of (segments wd cwd @ [''.rallish'', ''presets'', name @ ''.yaml''])"
      unfolding preset_file_path [OF assms(1,4), where wd = wd, symmetric] add_preset_path [OF assms(3) seg, where wd = wd, symmetric] by argo
    moreover have "list_all clean_seg (segments wd home @ [''.rallish'', ''presets'', n @ ''.yaml''])"
      "list_all clean_seg (segments wd cwd @ [''.rallish'', ''presets'', name @ ''.yaml''])"
      using assms(4) seg segments_clean by (simp_all add: clean_seg_def)
    ultimately show False using path_of_inj local(2) by fastforce
  qed
  with None show ?thesis by (simp add: squash_preset_def assms(6))
qed (simp add: squash_preset_def assms(6))

subsection \<open>Late errors\<close>

lemma start_roles_unknown:
  "role \<in> set roles \<Longrightarrow> registry_Get reg (r_Runtime role) = None \<Longrightarrow> \<exists>started e. start_roles reg run roles = (started, Some e)"
proof (induction roles)
  case (Cons x roles)
  then show ?case by (cases "registry_Get reg (r_Runtime x)") auto
qed simp

text \<open>
  An unknown runtime is found too late. When a role of the preset names a runtime that is not installed, the
  session has been created on the broker, and its id printed, before the command fails.
\<close>

theorem unknown_runtime_leaves_session:
  assumes "repo_root w (so_Repo opts) = Inr root"
    and "squash_broker (sw_Wd w) (filepath_Join2 (so_HomeDir opts) ''.rallish'') spawned between h = (Inr ep, h')"
    and "so_SessionID opts = []" and "so_Task opts \<noteq> []"
    and "squash_preset (sw_Yaml w) (sw_Disk w) (so_HomeDir opts) (so_PresetName opts) = Inr p"
    and "sw_PostSession w ep p \<lparr>t_Title = so_Task opts, t_Body = so_Task opts, t_RepoRoot = root\<rparr> = Reply 201 answer (Some sid)"
    and "BuildRegistry (sw_Claude w) (sw_Kimi w) = Some reg" and "role \<in> set (p_Roles p)"
    and "registry_Get reg (r_Runtime role) = None"
  shows "\<exists>e. RunSquash w spawned between opts h = (([sid], Some e), h')"
proof -
  obtain started e where "start_roles reg (\<lambda>a role. sw_Runner w a role ep sid) (p_Roles p) = (started, Some e)"
    using start_roles_unknown [OF assms(8,9)] by blast
  with assms show ?thesis by (simp add: RunSquash_def create_session_def run_roles_def)
qed

subsection \<open>Witnesses\<close>

definition demo_yaml :: yamlPreset where
  "demo_yaml = fake_demo_yaml\<lparr>yp_Name := ''mine'', yp_Roles := [\<lparr>yr_ID = ''a'', yr_Runtime = ''gpt'', yr_Model = []\<rparr>]\<rparr>"

definition demo_preset :: Preset where
  "demo_preset = projr (Preset_Load (Some demo_yaml))"

definition fetch_world :: add_world where
  "fetch_world = demo_world\<lparr>aw_Fetch := (\<lambda>u. Some (200, ''y''))\<rparr>"

lemma demo_loads: "Preset_Load (Some demo_yaml) = Inr demo_preset" "validateName ''mine'' = None" "clean_seg ''mine.yaml''"
  "case LoadEmbedded of Inl e \<Rightarrow> False | Inr presets \<Rightarrow> presets ''mine'' = None"
  by (simp add: demo_preset_def Preset_Load_def demo_yaml_def fake_demo_yaml_def validRouting_def, code_simp, code_simp)
    (simp add: LoadEmbedded_def loadFromFS_def presetsFS_def HasSuffix_def Preset_Load_def fake_demo_yaml_def pair_review_yaml_def
      solo_ralph_yaml_def validRouting_def)

lemma demo_embedded: obtains presets where "LoadEmbedded = Inr presets" "presets ''mine'' = None"
  using demo_loads(4) by (auto split: sum.splits)

theorem added_preset_is_run_witness:
  "let (r, i', d') = runAdd fetch_world \<lparr>ao_Global = True, ao_From = ''u'', ao_Yes = True\<rparr> ''preset'' ''mine'' \<lparr>ip_Bytes = [], ip_Broken = False\<rparr> (\<lambda>p. None)
   in squash_preset (\<lambda>b. Some demo_yaml) d' ''/h'' ''mine'' = Inr demo_preset"
proof -
  let ?opts = "\<lparr>ao_Global = True, ao_From = ''u'', ao_Yes = True\<rparr>" and ?i = "\<lparr>ip_Bytes = [], ip_Broken = False\<rparr>"
  obtain r i' d' where run: "runAdd fetch_world ?opts ''preset'' ''mine'' ?i (\<lambda>p. None) = (r, i', d')" by (metis prod.collapse)
  obtain presets where "LoadEmbedded = Inr presets" "presets ''mine'' = None" by (rule demo_embedded)
  with added_preset_is_run [of "''/h''" fetch_world "''mine''" ?opts "''u''" "''y''" presets "\<lambda>b. Some demo_yaml" demo_preset ?i "\<lambda>p. None" r i' d'] run
  show ?thesis by (simp add: fetch_world_def demo_world_def demo_loads HasPrefix_def)
qed

theorem installed_presets_unseen_witness:
  "let (r, i', d') = runAdd fetch_world \<lparr>ao_Global = False, ao_From = ''u'', ao_Yes = True\<rparr> ''preset'' ''mine'' \<lparr>ip_Bytes = [], ip_Broken = False\<rparr> (\<lambda>p. None)
   in squash_preset (\<lambda>b. Some demo_yaml) d' ''/h'' ''mine'' = Inl (PresetNotFound ''mine'')"
proof -
  let ?opts = "\<lparr>ao_Global = False, ao_From = ''u'', ao_Yes = True\<rparr>" and ?i = "\<lparr>ip_Bytes = [], ip_Broken = False\<rparr>"
  obtain r i' d' where run: "runAdd fetch_world ?opts ''preset'' ''mine'' ?i (\<lambda>p. None) = (r, i', d')" by (metis prod.collapse)
  obtain presets where e: "LoadEmbedded = Inr presets" "presets ''mine'' = None" by (rule demo_embedded)
  have "segments None ''/w'' \<noteq> segments None ''/h''" by code_simp
  with installed_presets_unseen [OF _ _ _ _ run e(1), of "''/h''" "''/w''" "''mine''" None "\<lambda>b. Some demo_yaml"]
  have "squash_preset (\<lambda>b. Some demo_yaml) d' ''/h'' ''mine'' = squash_preset (\<lambda>b. Some demo_yaml) (\<lambda>p. None) ''/h'' ''mine''"
    by (simp add: fetch_world_def demo_world_def demo_loads HasPrefix_def)
  also have "\<dots> = Inl (PresetNotFound ''mine'')" using e(2) by (simp add: squash_preset_def e(1))
  finally show ?thesis unfolding run by simp
qed

definition squash_demo :: squash_world where
  "squash_demo = \<lparr>sw_Wd = Some ''/r'', sw_IsDir = (\<lambda>p. Some True), sw_Disk = (\<lambda>p. Some (''y'', 420)), sw_Yaml = (\<lambda>b. Some demo_yaml),
     sw_Claude = None, sw_Kimi = None, sw_GetSession = (\<lambda>ep s. SendFails), sw_PostSession = (\<lambda>ep p t. Reply 201 [] (Some ''s1'')),
     sw_Runner = (\<lambda>a role ep sid. None), sw_Canceled = (\<lambda>e. False), sw_First = hd\<rparr>"

theorem unknown_runtime_leaves_session_witness:
  "\<exists>e. RunSquash squash_demo False [] \<lparr>so_PresetName = ''mine'', so_Task = ''t'', so_SessionID = [], so_HomeDir = ''/h'', so_Repo = []\<rparr>
      (new_home\<lparr>bh_port := Some ''4242'', bh_ports := {''4242''}\<rparr>) =
    (([''s1''], Some e), new_home\<lparr>bh_port := Some ''4242'', bh_ports := {''4242''}\<rparr>)"
proof -
  let ?h = "new_home\<lparr>bh_port := Some ''4242'', bh_ports := {''4242''}\<rparr>"
  let ?opts = "\<lparr>so_PresetName = ''mine'', so_Task = ''t'', so_SessionID = [], so_HomeDir = ''/h'', so_Repo = []\<rparr>"
  have port: "TrimSpace ''4242'' = ''4242''" by code_simp
  obtain presets where e: "LoadEmbedded = Inr presets" "presets ''mine'' = None" by (rule demo_embedded)
  have "repo_root squash_demo (so_Repo ?opts) = Inr ''/r''"
    by (simp add: repo_root_def squash_demo_def filepath_Abs_def HasPrefix_def path_of_def)
  moreover have "squash_broker (sw_Wd squash_demo) (filepath_Join2 (so_HomeDir ?opts) ''.rallish'') False [] ?h = (Inr (OverPort ''4242''), ?h)"
    by (simp add: squash_broker_def readPortFile_def port dialPort_def new_home_def)
  moreover have "squash_preset (sw_Yaml squash_demo) (sw_Disk squash_demo) (so_HomeDir ?opts) (so_PresetName ?opts) = Inr demo_preset"
    using e(2) by (simp add: squash_preset_def squash_demo_def demo_loads e(1))
  moreover obtain reg where reg: "BuildRegistry (sw_Claude squash_demo) (sw_Kimi squash_demo) = Some reg" "registry_Get reg ''gpt'' = None"
    by (simp add: BuildRegistry_def Register_def registry_Get_def squash_demo_def)
  moreover have "\<lparr>r_ID = ''a'', r_Runtime = ''gpt'', r_Model = []\<rparr> \<in> set (p_Roles demo_preset)"
    by (simp add: demo_preset_def Preset_Load_def demo_yaml_def fake_demo_yaml_def validRouting_def)
  ultimately show ?thesis
    by (intro unknown_runtime_leaves_session [where role = "\<lparr>r_ID = ''a'', r_Runtime = ''gpt'', r_Model = []\<rparr>" and p = demo_preset and root = "''/r''" and ep = "OverPort ''4242''" and answer = "[]"])
      (simp_all add: squash_demo_def)
qed

end
