(* ===== verification/Spec2Isabelle.thy ===== *)
theory Spec2Isabelle
  imports Replay ActionGate CycleRequests McpProperties CycleVerify AgentCard Presets Runner Conventions Adapters Config McpClient
    CycleClient Doctor Prompts Skills AddCommand Logx Squash
begin

text \<open>
  A verification library for rallish, a guarded harness for agent loops written in Go.

  \<^bold>\<open>The program.\<close> Agents work in cycles. A cycle's state is a JSON file; a pipeline of gates must
  pass before a cycle step counts; every event is appended to a hash-chained ledger that can
  be replayed and committed to with a Merkle tree; anti-spin guards read the ledger and halt
  a run that spins or bleeds; a halt seals the cycle until a verifier goes green again.
  Beside this a broker passes a baton between the participants of a rally, and a gate
  decides about the commands an agent wants to run.

  \<^bold>\<open>The theories, from the bottom up.\<close>
  \<^item> \<open>Prelude\<close>: Go's string functions, decimal numbers, lists and options the components share.
  \<^item> \<open>Sha256\<close>, \<open>Json\<close>: SHA-256 over 32-bit words, hex, and the JSON printer of
    \<^verbatim>\<open>encoding/json\<close> with the lemmas that make canonical forms injective. Both are the
    standard library's documented behaviour, and executable.
  \<^item> \<open>Contract\<close> (\<^verbatim>\<open>pkg/contract/types.go, cycle.go, errors.go, work_contract.go\<close>): the records
    and enumerations, with the source's field names behind a short prefix.
  \<^item> \<open>Ledger\<close> (\<^verbatim>\<open>pkg/contract/harness_ledger.go\<close>): entries, chain hash, \<^verbatim>\<open>VerifyChain\<close>, gate pins.
  \<^item> \<open>Merkle\<close> (\<^verbatim>\<open>pkg/contract/merkle.go\<close>): tree hash, inclusion and consistency proofs.
  \<^item> \<open>Replay\<close> (\<^verbatim>\<open>pkg/contract/replay.go\<close>): the control graph of a verified ledger.
  \<^item> \<open>ActionGate\<close> (\<^verbatim>\<open>action_gate.go, secret_containment.go, tooluse_gate.go\<close> and
    \<^verbatim>\<open>internal/cli/gate.go\<close>): the decision about a command.
  \<^item> \<open>Transition\<close>: step relations with reachability, and the locale of invariants.
  \<^item> \<open>Rally\<close> (\<^verbatim>\<open>pkg/contract/rally.go, internal/broker/rally.go\<close>): the baton protocol.
  \<^item> \<open>CycleCore\<close> (\<^verbatim>\<open>internal/cycle/state.go, result.go, gate.go\<close>): the cycle state, the
    railway results and the pipeline.
  \<^item> \<open>LedgerFile\<close>, \<open>TornLedger\<close> (\<^verbatim>\<open>internal/cycle/ledger.go\<close>): the file behind the ledger, with its
    faults; the log its clients see when appends are refused or cut short.
  \<^item> \<open>Guards\<close> (\<^verbatim>\<open>stuck.go, reviver.go, internal/budget/budget.go\<close>): stuck detector, seal, budget.
  \<^item> \<open>StateSync\<close> (\<^verbatim>\<open>sync.go\<close>): the state file; a write is the list of disks it goes through.
  \<^item> \<open>AutoGoal\<close> (\<^verbatim>\<open>autogoal.go\<close>), \<open>Driver\<close> (\<^verbatim>\<open>driver.go\<close>), \<open>Orchestrator\<close> (\<^verbatim>\<open>orchestrator.go\<close>),
    \<open>OneShot\<close> (\<^verbatim>\<open>internal/cli/cycle_run.go\<close>): one gated step, the loops around it, and the
    bounded command, over a system of disk, ledger and world.
  \<^item> \<open>Gates\<close>, \<open>StandardGates\<close> (\<^verbatim>\<open>internal/cycle/gates\<close>): the gates, the diff walker, the scanners;
    what the standard pipeline keeps and what its success means.
  \<^item> \<open>CycleBroker\<close>, \<open>CycleServing\<close>, \<open>CycleDaemon\<close>, \<open>CycleRequests\<close> (\<^verbatim>\<open>internal/broker/cycle.go\<close>): the
    store of the daemon's cycles; every handler as a whole (\<open>handleStepCycle\<close>) and as the sequence of its
    locked operations (\<open>step_next\<close>), which agree for a request served alone; the operations of the
    requests in flight, the event streams and the orchestrator goroutines interleaved as a step
    relation; what single requests record, and what two requests do to each other.
  \<^item> \<open>CycleVerify\<close> (\<^verbatim>\<open>internal/cli/cycle_verify.go\<close>): the audit of a ledger.
  \<^item> \<open>Mcp\<close>, \<open>McpProperties\<close> (\<^verbatim>\<open>internal/broker/mcp.go, pkg/contract/mcp.go\<close>): the tools over the rallies,
    the waiting joins and the transports; MCP and HTTP clients interleaved as a step relation.
  \<^item> \<open>SessionStore\<close>, \<open>SessionStuck\<close> (\<^verbatim>\<open>internal/session\<close>): the handoff sessions, their logs and replay,
    dry rounds and stuck patterns.
  \<^item> \<open>Routing\<close> (\<^verbatim>\<open>internal/router, internal/exit\<close>), \<open>Scratch\<close> (\<^verbatim>\<open>internal/scratch, internal/safepath\<close>): who
    plays next, when a session ends, the shared scratchpad, paths below a root.
  \<^item> \<open>TurnBroker\<close>, \<open>Channels\<close>, \<open>TurnDaemon\<close>, \<open>TurnProperties\<close> (\<^verbatim>\<open>internal/broker/broker.go, a2a.go\<close>): the
    broker of turns with its two interfaces, its subscriber channels, its invariant over all
    interleavings, and what follows.
  \<^item> \<open>Presets\<close> (\<^verbatim>\<open>internal/preset\<close>), \<open>Runner\<close> (\<^verbatim>\<open>internal/runner\<close>, over \<open>ScanLines\<close>, the line reader of
    \<^verbatim>\<open>bufio\<close>): what sessions are made from, and the client that plays their turns.
  \<^item> \<open>AgentCard\<close> (\<^verbatim>\<open>agent_card_sign.go\<close>), \<open>Conventions\<close> (\<^verbatim>\<open>conventions.go\<close>): the signed card, the
    convention files.
  \<^item> \<open>AdapterOutput\<close>, \<open>Adapters\<close> (\<^verbatim>\<open>internal/adapter, internal/cli/registry.go\<close>): the environment of an
    agent's process, the prompt, the commands of both agents and what is made of their output.
  \<^item> \<open>Config\<close> (\<^verbatim>\<open>internal/config, internal/cli/config.go, bootstrap.go\<close>): the layers of the
    configuration, its file with the faults of saving, the commands and the wizard.
  \<^item> \<open>BrokerHome\<close> (\<^verbatim>\<open>internal/cli/broker_client.go, daemon.go, squash.go\<close>): the files by which a client
    finds the daemon, both lookups, and how a daemon starts, stops and dies, as a step relation
    with its invariant.
  \<^item> \<open>RallyClient\<close> (\<^verbatim>\<open>internal/cli/rally.go\<close>), \<open>McpClient\<close> (\<^verbatim>\<open>internal/cli/rally_mcp_agent.go\<close>),
    \<open>CycleClient\<close> (\<^verbatim>\<open>internal/cli/cycle.go\<close>): the commands as clients of the brokers above, with the
    bytes of the event streams between them.
  \<^item> \<open>Paths\<close>: what \<^verbatim>\<open>path/filepath\<close> makes of joined names, over the segments of \<open>Scratch\<close>.
  \<^item> \<open>Doctor\<close> (\<^verbatim>\<open>internal/doctor\<close>), \<open>Prompts\<close> (\<^verbatim>\<open>internal/ui/prompt.go, reader.go\<close>): the report on the
    installation against the lookup of \<open>BrokerHome\<close>; questions read from a terminal or a pipe.
  \<^item> \<open>Skills\<close> (\<^verbatim>\<open>internal/skills, internal/cli/trigger.go\<close>), \<open>AddCommand\<close> (\<^verbatim>\<open>internal/cli/add.go\<close>): the
    installers with their faults, the phrases that trigger a skill, the checks of \<^verbatim>\<open>add\<close>.
  \<^item> \<open>Logx\<close> (\<^verbatim>\<open>internal/logx\<close>): the redaction table as regular expressions with a matcher, and the handler
    that applies it.
  \<^item> \<open>Squash\<close> (\<^verbatim>\<open>internal/cli/squash.go\<close>): the command over lookup, preset, session and runners.

  \<^bold>\<open>How state and effects correspond.\<close> A struct is a record and a handler a function from the
  store to a result and the store. Errors are values of a sum type, a panic is \<open>None\<close>. What
  the code does not decide itself is an argument: the clock, the random source, what
  \<^verbatim>\<open>encoding/json\<close> decodes, what a command prints, which system call fails. A gate and an
  agent are functions over an abstract world, so the theorems hold whatever they do.
  The clients of the ledger ignore the errors of its appends, so their log is the list of entries on
  whole lines with the state of the file's last line; each append is refused, cut short or made, as an
  argument says. In the cycle daemon, one action is one operation under the store's lock, one append
  under the ledger's lock, one write or removal of a state file, or one run of the gates, which
  holds no lock; a move of an orchestrator is one iteration of its loop. Finer interleavings, inside
  a write of a state file or inside an iteration, are not modelled.
  \<^verbatim>\<open>int\<close> counters are unbounded integers except where the width matters (SHA-256 words, the
  64-bit size of the Merkle split, the range of a parsed integer).

  \<^bold>\<open>What the lemmas show.\<close> Tamper evidence of chain and tree up to collisions of SHA-256 on the
  values at hand, named as an injectivity hypothesis on exactly those inputs; completeness
  of every proof the code makes; replay as a specification by positions, failing closed; the
  decision tables of the gates; the rally invariants for every reachable store; refinement
  of the abstract log by the ledger file, with and without faults; the guards as predicates on the ledger's history;
  and, composing them, that no run passes the lifetime ceiling, that a halt of the guards
  stays on disk and in the ledger, that driver and orchestrator loops end, and that a sealed cycle of
  the daemon stays sealed once no step or orchestrator is past its guard (one that is can lift the
  seal, \<open>step_in_flight_lifts_seal\<close>). For the broker
  of turns: no session outlives its budget, an end is final, the HTTP interface never
  leaves the mutex locked, what is posted is what is replayed. For MCP: its joins and runs
  are those of the HTTP interface, and a timeout loses no baton. For the edges: a passing
  audit, a verified card, a loaded preset and a parsed convention file, each with exactly
  what it guarantees. For the clients: an endpoint that is handed out answers, what a command
  prints is what the broker did, the texts of a stream arrive up to the length of a line the
  scanner takes, and what is lost beyond it. For the installers: what is written lies below the
  directory of its kind and only after consent, an interrupted installation is repaired by the
  next, and no token of a listed shape reaches the log.

  \<^bold>\<open>Fuel.\<close> \<open>Driver_Run\<close> and \<open>orch_loop\<close> take the number of iterations; the termination
  properties give the number that suffices, the cycles left plus one, under gates that
  keep the two cycle counters (which the standard pipeline does). \<open>largestPowerOfTwoLessThan\<close>
  has fuel for 64 doublings, enough for every 64-bit size.

  \<^bold>\<open>Not modelled.\<close> HTTP decoding and the response writers, the YAML library, the spawning of
  processes, the tables and colours of the terminal, sockets, the attributes of detached processes
  and cobra wiring: they move data between the operations above and libraries.
\<close>

end
